(* ===== verification/Prelude.thy ===== *)
theory Prelude
  imports Main "HOL-Library.Word" "HOL-Library.Monad_Syntax" "HOL-Library.More_List"
begin

unbundle bit_operations_syntax

text \<open>
  Shared vocabulary of the development.

  \<^item> Machine integers. A C \<open>unsigned long\<close> (and so a \<open>SCHEME_OBJECT\<close>) is a
    64-bit \<open>word\<close>, with wrapping arithmetic and bitwise operators. A C \<open>long\<close> is
    an \<open>int\<close>: signed overflow is undefined in C, so the operations on it are the
    exact ones, and the lemmas named \<open>*_fits_long\<close> show that no computation leaves the
    64-bit range.
  \<^item> Errors. A primitive that calls \<open>error_wrong_type_arg\<close>,
    \<open>error_bad_range_arg\<close> or \<open>error_external_return\<close> does not return; the model
    returns \<open>Inl\<close> of a value of \<open>prim_error\<close>. Inside the bignum code the only
    failure is a \<open>BIGNUM_ASSERT\<close>, which is \<open>None\<close>.
\<close>

named_theorems digit_simps \<open>rewrite rules that read half-digit operations as arithmetic\<close>
named_theorems wf_intros \<open>introduction rules for well-formedness invariants\<close>
named_theorems val_simps \<open>the integer that each operation denotes\<close>

type_synonym ulong = "64 word"
type_synonym long = int

datatype prim_error =
    Wrong_Type nat       \<comment> \<open>\<open>error_wrong_type_arg (n)\<close>\<close>
  | Bad_Range nat        \<comment> \<open>\<open>error_bad_range_arg (n)\<close>\<close>
  | External_Return      \<comment> \<open>\<open>error_external_return ()\<close>\<close>

definition fits_long :: "int \<Rightarrow> bool" where
  "fits_long n \<longleftrightarrow> - (2 ^ 63) \<le> n \<and> n < 2 ^ 63"

text \<open>Truncating division, the C rule for \<open>/\<close> and \<open>%\<close>.\<close>

definition quot_int :: "int \<Rightarrow> int \<Rightarrow> int" where
  "quot_int a b = sgn a * sgn b * (\<bar>a\<bar> div \<bar>b\<bar>)"

definition rem_int :: "int \<Rightarrow> int \<Rightarrow> int" where
  "rem_int a b = sgn a * (\<bar>a\<bar> mod \<bar>b\<bar>)"

lemma quot_rem_int: "quot_int a b * b + rem_int a b = a"
proof -
  have "quot_int a b * b + rem_int a b = sgn a * ((\<bar>a\<bar> div \<bar>b\<bar>) * \<bar>b\<bar> + \<bar>a\<bar> mod \<bar>b\<bar>)"
    by (simp add: quot_int_def rem_int_def abs_sgn algebra_simps)
  also have "\<dots> = a"
    by (simp only: div_mult_mod_eq sgn_mult_abs)
  finally show ?thesis .
qed

lemma rem_int_bound: "b \<noteq> 0 \<Longrightarrow> \<bar>rem_int a b\<bar> < \<bar>b\<bar>"
  by (cases "a = 0") (simp_all add: rem_int_def abs_mult abs_sgn_eq)

lemma rem_int_sign: "rem_int a b \<noteq> 0 \<Longrightarrow> sgn (rem_int a b) = sgn a"
proof -
  assume nz: "rem_int a b \<noteq> 0"
  have "0 \<le> \<bar>a\<bar> mod \<bar>b\<bar>" by (cases "b = 0") simp_all
  moreover from nz have "\<bar>a\<bar> mod \<bar>b\<bar> \<noteq> 0" by (auto simp: rem_int_def)
  ultimately have "0 < \<bar>a\<bar> mod \<bar>b\<bar>" by simp
  then show ?thesis by (simp add: rem_int_def sgn_mult)
qed

lemma quot_rem_nonneg:
  assumes "0 \<le> a" "0 < b"
  shows "quot_int a b = a div b" "rem_int a b = a mod b"
  using assms by (cases "a = 0"; simp add: quot_int_def rem_int_def)+

lemma zdiv_less_iff:
  fixes a b c :: int
  assumes "0 < b"
  shows "a div b < c \<longleftrightarrow> a < c * b"
proof
  assume "a div b < c"
  then have "(a div b + 1) * b \<le> c * b" using assms by (intro mult_right_mono) auto
  moreover have "a < (a div b + 1) * b"
    using assms div_mult_mod_eq [of a b] pos_mod_bound [of b a] unfolding distrib_right by linarith
  ultimately show "a < c * b" by simp
next
  assume "a < c * b"
  moreover have "(a div b) * b \<le> a" using assms div_mult_mod_eq [of a b] pos_mod_sign [of b a] by linarith
  ultimately have "(a div b) * b < c * b" by simp
  then show "a div b < c" using assms by simp
qed

lemma div_mod_unique_int:
  fixes a b q r :: int
  assumes "a = q * b + r" "0 \<le> r" "r < b"
  shows "a div b = q" "a mod b = r"
proof -
  show "a div b = q" using assms by (intro int_div_pos_eq [where r = r]) (auto simp: mult.commute)
  then have "q * b + a mod b = a" using div_mult_mod_eq [of a b] by simp
  with assms(1) show "a mod b = r" by linarith
qed

text \<open>A number whose low part is a digit: the high part is zero or minus one if the number
  is below the radix or just below zero.\<close>

lemma high_part:
  fixes B d m v :: int
  assumes "d + B * m = v" "0 \<le> d" "d < B"
  shows "0 \<le> v \<Longrightarrow> v < B \<Longrightarrow> m = 0" and "v < 0 \<Longrightarrow> - B \<le> v \<Longrightarrow> m = - 1"
proof -
  have *: "v div B = m" using assms by (intro div_mod_unique_int(1)) (auto simp: algebra_simps)
  show "m = 0" if "0 \<le> v" "v < B" using that * by simp
  show "m = - 1" if "v < 0" "- B \<le> v"
    using that * div_mod_unique_int(1) [of v "- 1" B "v + B"] by simp
qed

text \<open>Quotient and remainder are determined by the magnitudes and the signs.\<close>

lemma quot_int_signed:
  assumes "0 \<le> a" and "0 \<le> b"
  shows "quot_int (if p then - a else a) (if q then - b else b)
       = (if p = q then a div b else - (a div b))"
  using assms by (cases "a = 0"; cases "b = 0") (auto simp: quot_int_def sgn_if)

lemma rem_int_signed:
  assumes "0 \<le> a" and "0 \<le> b"
  shows "rem_int (if p then - a else a) (if q then - b else b)
       = (if p then - (a mod b) else a mod b)"
  using assms by (cases "a = 0") (auto simp: rem_int_def sgn_if)

subsection \<open>Bit operations read as arithmetic\<close>

lemma push_or_eq_add:
  fixes a b :: int
  assumes "0 \<le> b" and "b < 2 ^ n"
  shows "push_bit n a OR b = a * 2 ^ n + b"
proof -
  have b: "take_bit n b = b" using assms by (simp add: take_bit_int_eq_self)
  have "push_bit n a AND b = 0"
    by (subst b [symmetric]) (auto intro!: bit_eqI simp: bit_simps)
  then show ?thesis
    by (simp add: push_bit_eq_mult flip: disjunctive_add_eq_or)
qed

lemma uint_and_mask: "uint (w AND mask n) = uint w mod 2 ^ n" for w :: "'a::len word"
  by (simp add: unsigned_and_eq flip: take_bit_eq_mask) (metis take_bit_eq_mod unsigned_take_bit_eq take_bit_eq_mask)

lemma uint_push_bit_ulong:
  fixes t :: ulong
  assumes "uint t * 2 ^ n < 2 ^ 64"
  shows "uint (push_bit n t) = push_bit n (uint t)"
proof -
  have "uint (push_bit n t) = take_bit 64 (push_bit n (uint t))"
    by (simp add: unsigned_push_bit_eq)
  also have "\<dots> = push_bit n (uint t)"
    using assms by (intro take_bit_int_eq_self) (simp_all add: push_bit_eq_mult)
  finally show ?thesis .
qed

lemma xor_power_of_two:
  fixes k :: int
  shows "k XOR 2 ^ n = (if bit k n then k - 2 ^ n else k + 2 ^ n)"
  by (simp add: flip_bit_eq_xor [of n k, symmetric, unfolded push_bit_eq_mult, simplified] flip_bit_eq_if set_bit_eq unset_bit_eq)

lemma sint_word_of_int_ulong: "fits_long k \<Longrightarrow> sint (word_of_int k :: ulong) = k"
  by (simp add: fits_long_def sint_sbintrunc' signed_take_bit_int_eq_self)

lemma fits_long_sint [simp]: "fits_long (sint (w :: ulong))"
  using sint_range_size [of w] by (simp add: fits_long_def word_size)

lemma mod_signed_range:
  fixes n m :: int
  assumes "- m \<le> n" and "n < m"
  shows "n mod m = (if n < 0 then n + m else n)"
  using assms mod_pos_pos_trivial [of "n + m" m] mod_pos_pos_trivial [of n m] by auto

lemma uint_word_of_int_ulong: "0 \<le> k \<Longrightarrow> k < 2 ^ 64 \<Longrightarrow> uint (word_of_int k :: ulong) = k"
  by (simp add: uint_word_of_int)

lemma uint_mult_no_wrap: "uint x * uint y < 2 ^ 64 \<Longrightarrow> uint (x * y) = uint x * uint y" for x y :: ulong
  by (simp add: uint_word_ariths)

lemma bit_length_exists:
  fixes m :: int
  assumes "0 \<le> m" "m < 2 ^ n"
  obtains k where "k \<le> n" "m < 2 ^ k" "k = 0 \<or> 2 ^ (k - 1) \<le> m"
proof -
  define k where "k = (LEAST k. m < 2 ^ k)"
  have "m < 2 ^ k" "k \<le> n" using assms LeastI [of "\<lambda>k. m < 2 ^ k" n] Least_le [of "\<lambda>k. m < 2 ^ k" n] by (simp_all add: k_def)
  moreover have "k = 0 \<or> 2 ^ (k - 1) \<le> m"
    using not_less_Least [of "k - 1" "\<lambda>k. m < 2 ^ k"] by (fold k_def) (cases "k = 0", auto simp: not_less)
  ultimately show thesis using that [of k] by blast
qed

lemma word_of_int_bits:
  assumes "0 \<le> n" "n < 2 ^ 63"
  shows "bit (word_of_int n :: ulong) i \<longleftrightarrow> bit n i"
proof (cases "i < 64")
  case False
  then have "n < 2 ^ i" using assms power_increasing [of 64 i "2 :: int"] by simp
  then have "\<not> bit n i" using assms by (simp add: bit_iff_odd)
  with False show ?thesis by (simp add: bit_simps)
qed (simp add: bit_simps)

lemma uint_drop_bit_ulong: "uint (drop_bit n w) = uint w div 2 ^ n" for w :: ulong
proof -
  have "uint (drop_bit n w) = drop_bit n (uint w)"
    using bintr_uint [of 64 w] by (simp only: unsigned_drop_bit_eq) simp
  then show ?thesis by (simp only: drop_bit_eq_div)
qed

end
