(* ===== verification/Radix.thy ===== *)
theory Radix
  imports Prelude
begin

text \<open>
  Positional notation: a list of digits, least significant first, and the integer it
  denotes in a radix. The bignum code uses radix \<open>2 ^ 62\<close>, its digit division radix
  \<open>2 ^ 31\<close>, and the population count radices 2, 4, 16 and 256.
\<close>

primrec rval :: "int \<Rightarrow> int list \<Rightarrow> int" where
  "rval B [] = 0"
| "rval B (d # ds) = d + B * rval B ds"

definition digits_in :: "int \<Rightarrow> int list \<Rightarrow> bool" where
  "digits_in B ds \<longleftrightarrow> (\<forall>d \<in> set ds. 0 \<le> d \<and> d < B)"

lemma digits_in_simps [simp]:
  "digits_in B []"
  "digits_in B (d # ds) \<longleftrightarrow> 0 \<le> d \<and> d < B \<and> digits_in B ds"
  "digits_in B (xs @ ys) \<longleftrightarrow> digits_in B xs \<and> digits_in B ys"
  by (auto simp: digits_in_def)

lemma rval_nonneg: "digits_in B ds \<Longrightarrow> 0 \<le> rval B ds"
  by (induction ds) auto

lemma rval_less: "digits_in B ds \<Longrightarrow> rval B ds < B ^ length ds"
proof (induction ds)
  case (Cons d ds)
  then have "rval B ds + 1 \<le> B ^ length ds" and "0 < B" by auto
  then have "B * (rval B ds + 1) \<le> B * B ^ length ds" by (intro mult_left_mono) auto
  with Cons.prems show ?case by (simp add: algebra_simps)
qed simp

lemma rval_append: "rval B (xs @ ys) = rval B xs + B ^ length xs * rval B ys"
  by (induction xs) (simp_all add: algebra_simps)

text \<open>One step of a digit loop: a digit and a carry replace the incoming sum.\<close>

lemma rval_step:
  assumes "rval B zs + B ^ n * c = v + k" and "d + B * k = e"
  shows "rval B (d # zs) + B ^ Suc n * c = e + B * v"
proof -
  have "rval B (d # zs) + B ^ Suc n * c = d + B * (rval B zs + B ^ n * c)" by (simp add: algebra_simps)
  also have "\<dots> = e + B * v" by (simp only: assms(1) assms(2) [symmetric]) (simp add: algebra_simps)
  finally show ?thesis .
qed

text \<open>A second loop continues where a first one stopped.\<close>

lemma rval_chain:
  assumes "rval B (low @ rest) + B ^ length low * c = v" and "rval B zs + B ^ n * c' = rval B rest + c"
  shows "rval B (low @ zs) + B ^ (length low + n) * c' = v"
proof -
  have "rval B (low @ zs) + B ^ (length low + n) * c' = rval B low + B ^ length low * (rval B zs + B ^ n * c')"
    by (simp add: rval_append power_add algebra_simps)
  also have "\<dots> = v" by (simp only: assms(2) assms(1) [symmetric] rval_append) (simp add: algebra_simps)
  finally show ?thesis .
qed

text \<open>The carry of a value below the square of the radix is a digit.\<close>

lemma carry_range:
  fixes B :: int
  assumes "d + B * m = v" "0 \<le> d" "d < B" "0 \<le> v" "v < B * B"
  shows "0 \<le> m" "m < B"
proof -
  have "B * m < B * B" "B * (- 1) < B * m" using assms by linarith+
  then have "m < B" "- 1 < m" using assms(2,3) by (simp_all only: mult_less_cancel_left_pos)
  then show "0 \<le> m" "m < B" by simp_all
qed

lemma digit_product_bound:
  fixes x y B :: int
  assumes "0 \<le> x" "x < B" "0 \<le> y" "y < B"
  shows "0 \<le> x * y" "x * y \<le> (B - 1) * (B - 1)"
  using assms by (auto intro: mult_mono)

lemma digit_product_less:
  fixes x y B :: int
  assumes "0 \<le> x" "x < B" "0 \<le> y" "y < B" "0 \<le> r" "r < B" "0 \<le> c" "c < B"
  shows "0 \<le> r + x * y + c" "r + x * y + c < B * B"
  using digit_product_bound [OF assms(1-4)] assms(5-8) by (simp_all add: algebra_simps)

text \<open>Long division: two digits divided one after the other.\<close>

lemma div_digit_range:
  fixes R :: int
  assumes "0 \<le> r" "r < v" "0 \<le> d" "d < R"
  shows "0 \<le> (r * R + d) div v" "(r * R + d) div v < R"
proof -
  have v: "0 < v" using assms by simp
  show "0 \<le> (r * R + d) div v" using assms v by (simp add: pos_imp_zdiv_nonneg_iff)
  have "(r + 1) * R \<le> v * R" using assms by (intro mult_right_mono) auto
  then have "r * R + d < R * v" using assms by (simp add: algebra_simps)
  then show "(r * R + d) div v < R" using v by (simp add: zdiv_less_iff)
qed

text \<open>Comparing two-digit numbers digit by digit.\<close>

lemma two_digit_compare:
  fixes B :: int
  assumes "ph * B + pl = p" "0 \<le> pl" "pl < B" "0 \<le> cl" "cl < B"
  shows "(ch > ph \<or> ch = ph \<and> cl \<ge> pl) \<longleftrightarrow> p \<le> ch * B + cl"
proof -
  have "p < ch * B + cl" if "ph < ch"
  proof -
    have "(ph + 1) * B \<le> ch * B" using that assms by (intro mult_right_mono) auto
    then show ?thesis using assms by (simp add: algebra_simps)
  qed
  moreover have "ch * B + cl < p" if "ch < ph"
  proof -
    have "(ch + 1) * B \<le> ph * B" using that assms by (intro mult_right_mono) auto
    then show ?thesis using assms by (simp add: algebra_simps)
  qed
  ultimately show ?thesis using assms(1) by (cases ch ph rule: linorder_cases) auto
qed

lemma rval_div_mod:
  assumes "digits_in B (d # ds)"
  shows "rval B (d # ds) div B = rval B ds" and "rval B (d # ds) mod B = d"
  using assms by (simp_all add: div_mult_self2 div_pos_pos_trivial)

lemma digits_in_mono: "digits_in B ds \<Longrightarrow> B \<le> C \<Longrightarrow> digits_in C ds"
  by (auto simp: digits_in_def)

lemma drop_bit_rval:
  assumes "digits_in (2 ^ k) (d # ds)"
  shows "drop_bit k (rval (2 ^ k) (d # ds)) = rval (2 ^ k) ds"
  using rval_div_mod(1) [OF assms] by (simp only: drop_bit_eq_div)

lemma rval_snoc0: "rval B (xs @ [0]) = rval B xs"
  by (simp add: rval_append)

lemma digits_in_map2_add:
  "digits_in A xs \<Longrightarrow> digits_in B ys \<Longrightarrow> digits_in (A + B - 1) (map2 (+) xs ys)"
proof (induction xs arbitrary: ys)
  case (Cons x xs)
  then show ?case by (cases ys) fastforce+
qed simp

lemma rval_bits: "rval 2 (map (\<lambda>i. of_bool (bit k i)) [m..<m + n]) = take_bit n (drop_bit m k)" for k :: int
proof (induction n arbitrary: m)
  case (Suc n)
  have "[m..<m + Suc n] = m # [Suc m..<Suc m + n]" by (simp add: upt_conv_Cons)
  moreover have "drop_bit m k div 2 = drop_bit (Suc m) k"
    by (simp add: drop_bit_Suc drop_bit_half)
  moreover have "of_bool (bit k m) = drop_bit m k mod 2"
    by (simp add: bit_iff_odd_drop_bit mod_2_eq_odd)
  ultimately show ?case using Suc [of "Suc m"] by (simp only: list.map rval.simps take_bit_Suc)
qed simp

lemma split_and:
  fixes a b c d :: int
  assumes "0 \<le> a" "a < 2 ^ n" "0 \<le> c" "c < 2 ^ n"
  shows "(a + 2 ^ n * b) AND (c + 2 ^ n * d) = (a AND c) + 2 ^ n * (b AND d)"
proof -
  have 1: "take_bit n a = a" "take_bit n c = c" using assms by (simp_all add: take_bit_int_eq_self)
  have "a + 2 ^ n * b = concat_bit n a b" "c + 2 ^ n * d = concat_bit n c d"
       "(a AND c) + 2 ^ n * (b AND d) = concat_bit n (a AND c) (b AND d)"
    using 1 by (simp_all add: concat_bit_eq push_bit_eq_mult take_bit_and mult.commute)
  then show ?thesis by (simp only:) (rule bit_eqI, auto simp: bit_concat_bit_iff bit_simps)
qed

lemma rval_top_split:
  assumes "length xs = n + 1"
  shows "rval B xs = rval B (take n xs) + B ^ n * xs ! n"
proof -
  have "xs = take n xs @ [xs ! n]" using assms by (metis Suc_eq_plus1 less_Suc_eq take_Suc_conv_app_nth take_all_iff le_refl)
  then show ?thesis using rval_append [of B "take n xs" "[xs ! n]"] assms by (metis length_take min.absorb2 le_add1 rval.simps mult_zero_right add_0_right)
qed

lemma digits_in_nth: "digits_in B xs \<Longrightarrow> i < length xs \<Longrightarrow> 0 \<le> xs ! i \<and> xs ! i < B"
  by (simp add: digits_in_def)

lemma digits_in_take_drop: "digits_in B xs \<Longrightarrow> digits_in B (take n xs)" "digits_in B xs \<Longrightarrow> digits_in B (drop n xs)"
  by (auto simp: digits_in_def dest: in_set_takeD in_set_dropD)

end
