(* ===== verification/Bits.thy ===== *)
theory Bits
  imports Radix
begin

text \<open>
  Bit counting on machine words (\<open>src/src/microcode/bits.h\<close>): the parallel
  population count, the position of the most significant bit, and the position of the
  least significant one, each with its meaning on the bits of the argument.
\<close>

definition ulong_bit_count :: "ulong \<Rightarrow> nat" where
  "ulong_bit_count x0 =
    (let two_bit_mask = NOT 0 div (1 + 2);
         four_bit_mask = NOT 0 div (1 + 4);
         eight_bit_mask = NOT 0 div (1 + 16);
         final_mask = push_bit 1 64 - 1;
         x1 = x0 - (drop_bit 1 x0 AND two_bit_mask);
         x2 = (drop_bit 2 x1 AND four_bit_mask) + (x1 AND four_bit_mask);
         x3 = (drop_bit 4 x2 + x2) AND eight_bit_mask;
         x4 = x3 + drop_bit 8 x3;
         x5 = x4 + drop_bit 16 x4;
         x6 = x5 + drop_bit 32 x5
     in unat (x6 AND final_mask))"

definition ulong_length_in_bits :: "ulong \<Rightarrow> nat" where
  "ulong_length_in_bits x0 =
    (let x1 = x0 OR drop_bit 1 x0;
         x2 = x1 OR drop_bit 2 x1;
         x3 = x2 OR drop_bit 4 x2;
         x4 = x3 OR drop_bit 8 x3;
         x5 = x4 OR drop_bit 0x10 x4;
         x6 = x5 OR drop_bit 0x20 x5
     in ulong_bit_count x6)"

definition ulong_first_set_bit :: "ulong \<Rightarrow> int" where
  "ulong_first_set_bit x =
    (if x = 0 then - 1 else int (ulong_length_in_bits (drop_bit 1 (x XOR (x - 1)))))"

subsection \<open>Adding neighbouring groups of bits\<close>

fun evens :: "'a list \<Rightarrow> 'a list" where
  "evens (a # b # r) = a # evens r"
| "evens _ = []"

fun pair_sums :: "int list \<Rightarrow> int list" where
  "pair_sums (a # b # r) = (a + b) # pair_sums r"
| "pair_sums _ = []"

primrec gmask :: "nat \<Rightarrow> nat \<Rightarrow> int" where
  "gmask k 0 = 0"
| "gmask k (Suc n) = (2 ^ k - 1) + 2 ^ (k + k) * gmask k n"

lemma and_gmask_evens:
  assumes "digits_in (2 ^ k) ds" and "length ds = 2 * n"
  shows "rval (2 ^ k) ds AND gmask k n = rval (2 ^ (k + k)) (evens ds)"
  using assms
proof (induction ds arbitrary: n rule: evens.induct)
  case (1 a b r)
  then obtain m where n: "n = Suc m" by (cases n) auto
  have ab: "0 \<le> a + 2 ^ k * b" "a + 2 ^ k * b < 2 ^ (k + k)"
    using rval_nonneg [of "2 ^ k" "[a, b]"] rval_less [of "2 ^ k" "[a, b]"] 1 by (simp_all add: power_add)
  have m: "0 \<le> (2 ^ k - 1 :: int)" "(2 ^ k - 1 :: int) < 2 ^ (k + k)"
    using power_increasing [of k "k + k" "2 :: int"] by (simp, linarith)
  have "rval (2 ^ k) (a # b # r) = (a + 2 ^ k * b) + 2 ^ (k + k) * rval (2 ^ k) r"
    by (simp add: algebra_simps power_add)
  then have "rval (2 ^ k) (a # b # r) AND gmask k n =
      ((a + 2 ^ k * b) AND (2 ^ k - 1)) + 2 ^ (k + k) * (rval (2 ^ k) r AND gmask k m)"
    unfolding n gmask.simps using ab m by (simp only: split_and)
  also have "(a + 2 ^ k * b) AND (2 ^ k - 1) = a"
    using 1 by (simp flip: mask_eq_exp_minus_1 take_bit_eq_mask) (simp add: take_bit_eq_mod)
  finally show ?case using 1 n by simp
qed auto

lemma evens_sum_pairs:
  "length xs = length ys \<Longrightarrow> rval B (evens xs) + rval B (evens ys) = rval B (evens (map2 (+) xs ys))"
proof (induction xs arbitrary: ys rule: evens.induct)
  case (1 a b r)
  then obtain c d s where ys: "ys = c # d # s" by (metis length_Suc_conv)
  have "rval B (evens r) + rval B (evens s) = rval B (evens (map2 (+) r s))"
    using 1 ys by simp
  then show ?case using ys by (simp add: distrib_left [symmetric])
qed (auto simp: length_Suc_conv eq_commute [of "Suc 0"])

lemma evens_shift_sum:
  "even (length ds) \<Longrightarrow> ds \<noteq> [] \<Longrightarrow> evens (map2 (+) (tl ds @ [0]) ds) = pair_sums ds"
proof (induction ds rule: evens.induct)
  case (1 a b r)
  then show ?case by (cases r rule: evens.cases) (auto simp: add.commute)
qed auto

lemma fold_step:
  assumes "digits_in (2 ^ k) ds" and "length ds = 2 * n" and "0 < n"
  shows "(drop_bit k (rval (2 ^ k) ds) AND gmask k n) + (rval (2 ^ k) ds AND gmask k n)
       = rval (2 ^ (k + k)) (pair_sums ds)"
proof -
  from assms obtain d r where ds: "ds = d # r" by (cases ds) auto
  have t: "digits_in (2 ^ k) (r @ [0])" using assms(1) ds by simp
  have "drop_bit k (rval (2 ^ k) ds) = rval (2 ^ k) (r @ [0])"
    using assms(1) drop_bit_rval by (simp only: ds rval_snoc0)
  then have "(drop_bit k (rval (2 ^ k) ds) AND gmask k n) = rval (2 ^ (k + k)) (evens (r @ [0]))"
    using and_gmask_evens [OF t, of n] assms ds by simp
  moreover have "rval (2 ^ k) ds AND gmask k n = rval (2 ^ (k + k)) (evens ds)"
    by (rule and_gmask_evens [OF assms(1,2)])
  moreover have "evens (map2 (+) (tl ds @ [0]) ds) = pair_sums ds"
    using assms by (intro evens_shift_sum) auto
  ultimately show ?thesis
    using assms ds by (simp add: evens_sum_pairs)
qed


lemma length_pair_sums: "length (pair_sums ds) = length ds div 2"
  by (induction ds rule: pair_sums.induct) auto

lemma sum_pair_sums: "even (length ds) \<Longrightarrow> sum_list (pair_sums ds) = sum_list ds"
  by (induction ds rule: pair_sums.induct) auto

lemma pair_sums_digits:
  "digits_in (b + 1) ds \<Longrightarrow> digits_in (2 * b + 1) (pair_sums ds)"
  by (induction ds rule: pair_sums.induct) auto

lemma rval_halves:
  "even (length ds) \<Longrightarrow> ds \<noteq> [] \<Longrightarrow>
     rval B ds = rval (B * B) (evens ds) + B * rval (B * B) (evens (tl ds @ [0]))"
proof (induction ds rule: evens.induct)
  case (1 a b r)
  show ?case
  proof (cases r rule: evens.cases)
    case (1 c d s)
    with "1.IH" "1.prems" show ?thesis by (simp add: algebra_simps)
  qed (use "1.prems" in auto)
qed auto

lemma fold_no_carry:
  assumes "digits_in 5 ds" and "length ds = 2 * n" and "0 < n"
  shows "(drop_bit 4 (rval 16 ds) + rval 16 ds) AND gmask 4 n = rval 256 (pair_sums ds)"
    and "drop_bit 4 (rval 16 ds) + rval 16 ds < 16 ^ length ds"
proof -
  from assms obtain d r where ds: "ds = d # r" by (cases ds) auto
  let ?m = "map2 (+) (r @ [0]) ds"
  have sum: "rval 16 xs + rval 16 ys = rval 16 (map2 (+) xs ys)" if "length xs = length ys" for xs ys
    using that by (induction xs ys rule: list_induct2) simp_all
  have "digits_in 16 (d # r)" using digits_in_mono [OF assms(1), of 16] ds by simp
  then have "drop_bit 4 (rval 16 ds) = rval 16 (r @ [0])"
    using drop_bit_rval [of 4 d r] by (simp add: ds rval_snoc0)
  then have eq: "drop_bit 4 (rval 16 ds) + rval 16 ds = rval 16 ?m" using sum [of "r @ [0]" ds] by (simp only: ds) simp
  have dm: "digits_in (2 ^ 4) ?m"
    using digits_in_map2_add [of 5 "r @ [0]" 5 ds] digits_in_mono [of 9 ?m 16] assms(1) ds by simp
  have "evens ?m = pair_sums ds"
    using evens_shift_sum [of ds] assms(2) ds by (metis dvd_triv_left list.discI list.sel(3))
  then show "(drop_bit 4 (rval 16 ds) + rval 16 ds) AND gmask 4 n = rval 256 (pair_sums ds)"
    using and_gmask_evens [OF dm, of n] assms(2) unfolding eq by (simp add: ds)
  show "drop_bit 4 (rval 16 ds) + rval 16 ds < 16 ^ length ds"
    using rval_less [OF dm] unfolding eq by (simp add: ds)
qed

definition word_bits :: "ulong \<Rightarrow> int list" where
  "word_bits x = map (\<lambda>i. of_bool (bit x i)) [0..<64]"

lemma word_bits_props:
  "uint x = rval 2 (word_bits x)" "length (word_bits x) = 64" "digits_in 2 (word_bits x)"
  "sum_list (word_bits x) = int (card {i. bit x i})"
proof -
  have "uint x = take_bit 64 (drop_bit 0 (uint x))" by (simp add: bintr_uint)
  also have "\<dots> = rval 2 (map (\<lambda>i. of_bool (bit (uint x) i)) [0..<0 + 64])" by (rule rval_bits [symmetric])
  also have "map (\<lambda>i. of_bool (bit (uint x) i)) [0..<0 + 64] = word_bits x"
    by (simp add: word_bits_def bit_uint_iff)
  finally show "uint x = rval 2 (word_bits x)" .
  show "length (word_bits x) = 64" "digits_in 2 (word_bits x)"
    by (auto simp: word_bits_def digits_in_def)
  have "sum_list (word_bits x) = (\<Sum>i<64. of_bool (bit x i))"
    by (simp add: word_bits_def interv_sum_list_conv_sum_set_nat atLeast0LessThan)
  also have "\<dots> = int (card {i \<in> {..<64}. bit x i})" by (simp add: Collect_conj_eq lessThan_def)
  also have "{i \<in> {..<64}. bit x i} = {i. bit x i}" by (auto dest: bit_imp_le_length)
  finally show "sum_list (word_bits x) = int (card {i. bit x i})" .
qed

lemma byte_fold:
  assumes "digits_in 9 ds" and "length ds = 8"
  shows "let x3 = rval 256 ds; x4 = x3 + drop_bit 8 x3; x5 = x4 + drop_bit 16 x4;
         x6 = x5 + drop_bit 32 x5
     in 0 \<le> x3 \<and> x3 \<le> x4 \<and> x4 \<le> x5 \<and> x5 \<le> x6 \<and> x6 < 2 ^ 64 \<and> x6 mod 128 = sum_list ds"
proof -
  obtain a b c d e f g h where ds: "ds = [a, b, c, d, e, f, g, h]"
    using assms(2) by (auto simp: numeral_eq_Suc length_Suc_conv)
  define x4 where "x4 = rval 256 [a + b, b + c, c + d, d + e, e + f, f + g, g + h, h]"
  define x5 where "x5 = rval 256 [a + b + c + d, b + c + d + e, c + d + e + f, d + e + f + g, e + f + g + h, f + g + h, g + h, h]"
  define x6 where "x6 = rval 256 [a + b + c + d + e + f + g + h, b + c + d + e + f + g + h, c + d + e + f + g + h, d + e + f + g + h, e + f + g + h, f + g + h, g + h, h]"
  have k: "drop_bit 8 (rval 256 (p # ps)) = rval 256 ps" if "digits_in 256 (p # ps)" for p ps
    using drop_bit_rval [of 8 p ps] that by simp
  have k2: "drop_bit 16 (rval 256 (p # q # ps)) = rval 256 ps" if "digits_in 256 (p # q # ps)" for p q ps
    using k [of p "q # ps"] k [of q ps] that by (metis digits_in_simps(2) drop_bit_drop_bit numeral_Bit0)
  have k4: "drop_bit 32 (rval 256 (p # q # r # s # ps)) = rval 256 ps"
    if "digits_in 256 (p # q # r # s # ps)" for p q r s ps
    using k2 [of p q "r # s # ps"] k2 [of r s ps] that by (metis digits_in_simps(2) drop_bit_drop_bit numeral_Bit0)
  have 4: "rval 256 ds + drop_bit 8 (rval 256 ds) = x4"
    using assms(1) unfolding ds x4_def by (subst k) simp_all
  have 5: "x4 + drop_bit 16 x4 = x5"
    using assms(1) unfolding x4_def x5_def by (subst k2) (simp_all add: ds)
  have 6: "x5 + drop_bit 32 x5 = x6"
    using assms(1) unfolding x5_def x6_def by (subst k4) (simp_all add: ds)
  have "x6 = sum_list ds + 128 * (2 * rval 256 [b + c + d + e + f + g + h, c + d + e + f + g + h, d + e + f + g + h, e + f + g + h, f + g + h, g + h, h])"
    by (simp add: x6_def ds)
  then have "x6 mod 128 = sum_list ds" using assms by (simp only: mod_mult_self2) (simp add: ds)
  moreover have "0 \<le> rval 256 ds \<and> rval 256 ds \<le> x4 \<and> x4 \<le> x5 \<and> x5 \<le> x6 \<and> x6 < 2 ^ 64"
    using assms unfolding x4_def x5_def x6_def by (simp add: ds)
  ultimately show ?thesis unfolding Let_def 4 5 6 by simp
qed

lemma uint_gmasks:
  "uint (NOT 0 div (1 + 2) :: ulong) = gmask 1 32"
  "uint (NOT 0 div (1 + 4) :: ulong) = gmask 2 16"
  "uint (NOT 0 div (1 + 16) :: ulong) = gmask 4 8"
proof -
  have "gmask 1 32 = 0x5555555555555555" "gmask 2 16 = 0x3333333333333333" "gmask 4 8 = 0x0F0F0F0F0F0F0F0F"
    by code_simp+
  then show "uint (NOT 0 div (1 + 2) :: ulong) = gmask 1 32" "uint (NOT 0 div (1 + 4) :: ulong) = gmask 2 16"
    "uint (NOT 0 div (1 + 16) :: ulong) = gmask 4 8"
    by (simp_all add: uint_div)
qed

lemma uint_plus_no_wrap: "uint x + uint y < 2 ^ 64 \<Longrightarrow> uint (x + y) = uint x + uint y" for x y :: ulong
  by (simp add: uint_add_lem [THEN iffD1])

lemma uint_and_drop:
  "uint (p AND q) = uint p AND uint q" "uint (drop_bit k p) = drop_bit k (uint p)" for p q :: ulong
  by (simp_all add: unsigned_and_eq unsigned_drop_bit_eq bintr_uint)

lemma bit_count_step1:
  fixes x :: ulong
  assumes d0: "digits_in 2 ds" "length ds = 64" and x: "uint x = rval 2 ds"
  shows "uint (x - (drop_bit 1 x AND (NOT 0 div (1 + 2)))) = rval 4 (pair_sums ds)"
proof -
  let ?a = "rval 2 ds AND gmask 1 32" and ?b = "drop_bit 1 (rval 2 ds) AND gmask 1 32"
  obtain e r where ds: "ds = e # r" using d0 by (cases ds) auto
  have "?b = rval 4 (evens (tl ds @ [0]))"
    using drop_bit_rval [of 1 e r] and_gmask_evens [of 1 "tl ds @ [0]" 32] d0 ds by (simp add: rval_snoc0)
  moreover have "?a = rval 4 (evens ds)"
    using and_gmask_evens [of 1 ds 32] d0 by simp
  moreover have "rval 2 ds = rval (2 * 2) (evens ds) + 2 * rval (2 * 2) (evens (tl ds @ [0]))"
    using d0 by (intro rval_halves) auto
  ultimately have half: "rval 2 ds = ?a + 2 * ?b" by simp
  have "0 \<le> gmask 1 32" by (simp only: uint_gmasks [symmetric] unsigned_greater_eq)
  then have nn: "0 \<le> ?a" "0 \<le> ?b" by (simp_all only: and_nonnegative_int_iff simp_thms)
  have "uint (drop_bit 1 x AND (NOT 0 div (1 + 2))) = ?b"
    by (simp only: uint_and_drop uint_gmasks x)
  then have "uint (x - (drop_bit 1 x AND (NOT 0 div (1 + 2)))) = rval 2 ds - ?b"
    using half nn unfolding x [symmetric] by (subst uint_sub_lem [THEN iffD1]) linarith+
  also have "\<dots> = ?b + ?a" using half by simp
  also have "\<dots> = rval 4 (pair_sums ds)" using fold_step [of 1 ds 32] d0 by simp
  finally show ?thesis .
qed

lemma bit_count_step2:
  fixes x :: ulong
  assumes d1: "digits_in 3 ds" "length ds = 32" and x: "uint x = rval 4 ds"
  shows "uint ((drop_bit 2 x AND (NOT 0 div (1 + 4))) + (x AND (NOT 0 div (1 + 4)))) = rval 16 (pair_sums ds)"
proof -
  have e: "rval 16 (pair_sums ds) = (drop_bit 2 (uint x) AND gmask 2 16) + (uint x AND gmask 2 16)"
    using fold_step [of 2 ds 16] digits_in_mono [OF d1(1), of 4] d1(2) by (simp add: x)
  have "digits_in 16 (pair_sums ds)"
    using pair_sums_digits [of 2 ds] digits_in_mono [of 5 "pair_sums ds" 16] d1 by simp
  then have "rval 16 (pair_sums ds) < 16 ^ length (pair_sums ds)" by (rule rval_less)
  then show ?thesis
    by (subst uint_plus_no_wrap; simp only: uint_and_drop uint_gmasks e [symmetric])
      (simp add: d1 length_pair_sums)
qed

lemma bit_count_step3:
  fixes x :: ulong
  assumes d2: "digits_in 5 ds" "length ds = 16" and x: "uint x = rval 16 ds"
  shows "uint ((drop_bit 4 x + x) AND (NOT 0 div (1 + 16))) = rval 256 (pair_sums ds)"
proof -
  have e: "(drop_bit 4 (uint x) + uint x) AND gmask 4 8 = rval 256 (pair_sums ds)"
    and "drop_bit 4 (uint x) + uint x < 2 ^ 64"
    using fold_no_carry [of ds 8] d2 by (simp_all add: x)
  then have "uint (drop_bit 4 x + x) = drop_bit 4 (uint x) + uint x"
    by (subst uint_plus_no_wrap) (simp_all add: uint_and_drop)
  then show ?thesis by (simp only: uint_and_drop uint_gmasks e)
qed

lemma bit_count_step456:
  fixes x3 :: ulong
  assumes d3: "digits_in 9 ds" "length ds = 8" and x: "uint x3 = rval 256 ds"
  shows "let x4 = x3 + drop_bit 8 x3; x5 = x4 + drop_bit 16 x4; x6 = x5 + drop_bit 32 x5
         in uint (x6 AND (push_bit 1 64 - 1)) = sum_list ds"
proof -
  define x4 where "x4 = x3 + drop_bit 8 x3"
  define x5 where "x5 = x4 + drop_bit 16 x4"
  define x6 where "x6 = x5 + drop_bit 32 x5"
  have f: "let x3 = uint x3; x4 = x3 + drop_bit 8 x3; x5 = x4 + drop_bit 16 x4; x6 = x5 + drop_bit 32 x5
     in 0 \<le> x3 \<and> x3 \<le> x4 \<and> x4 \<le> x5 \<and> x5 \<le> x6 \<and> x6 < 2 ^ 64 \<and> x6 mod 128 = sum_list ds"
    unfolding x by (rule byte_fold [OF d3])
  have u4: "uint x4 = uint x3 + drop_bit 8 (uint x3)"
    using f unfolding x4_def Let_def by (subst uint_plus_no_wrap) (simp_all only: uint_and_drop, linarith)
  have u5: "uint x5 = uint x4 + drop_bit 16 (uint x4)"
    using f unfolding x5_def Let_def u4 [symmetric]
    by (subst uint_plus_no_wrap) (simp_all only: uint_and_drop, linarith)
  have u6: "uint x6 = uint x5 + drop_bit 32 (uint x5)"
    using f unfolding x6_def Let_def u4 [symmetric] u5 [symmetric]
    by (subst uint_plus_no_wrap) (simp_all add: uint_and_drop)
  have "uint x6 mod 128 = sum_list ds"
    using f unfolding Let_def u4 [symmetric] u5 [symmetric] u6 [symmetric] by simp
  moreover have "uint (x6 AND (push_bit 1 64 - 1)) = uint x6 mod 128"
    using uint_and_mask [of x6 7] by (simp add: mask_eq_exp_minus_1)
  ultimately show ?thesis
    unfolding Let_def x4_def [symmetric] x5_def [symmetric] x6_def [symmetric] by simp
qed

lemma ulong_bit_count_card: "ulong_bit_count x = card {i. bit x i}"
proof -
  define d0 where "d0 = word_bits x"
  note b = word_bits_props [of x, folded d0_def]
  have len: "length d0 = 64" "length (pair_sums d0) = 32" "length (pair_sums (pair_sums d0)) = 16"
      "length (pair_sums (pair_sums (pair_sums d0))) = 8"
    by (simp_all add: b length_pair_sums)
  have dig: "digits_in 2 d0" "digits_in 3 (pair_sums d0)" "digits_in 5 (pair_sums (pair_sums d0))"
      "digits_in 9 (pair_sums (pair_sums (pair_sums d0)))"
    using b(3) pair_sums_digits [of 1 d0] pair_sums_digits [of 2 "pair_sums d0"]
      pair_sums_digits [of 4 "pair_sums (pair_sums d0)"] by simp_all
  have "int (ulong_bit_count x) = sum_list (pair_sums (pair_sums (pair_sums d0)))"
    unfolding ulong_bit_count_def Let_def uint_nat [symmetric]
    by (rule bit_count_step456 [unfolded Let_def, OF dig(4) len(4)], rule bit_count_step3 [OF dig(3) len(3)],
        rule bit_count_step2 [OF dig(2) len(2)], rule bit_count_step1 [OF dig(1) len(1) b(1)])
  also have "\<dots> = int (card {i. bit x i})"
    using len b(4) by (simp add: sum_pair_sums)
  finally show ?thesis by simp
qed

subsection \<open>Length in bits and first set bit\<close>

lemma smear_step:
  fixes x y :: ulong
  assumes "\<And>j. bit y j \<longleftrightarrow> (\<exists>k<m. bit x (j + k))"
  shows "bit (y OR drop_bit m y) j \<longleftrightarrow> (\<exists>k<m + m. bit x (j + k))"
proof
  assume "bit (y OR drop_bit m y) j"
  then have "bit y j \<or> bit y (m + j)" by (auto simp: bit_simps)
  then show "\<exists>k<m + m. bit x (j + k)"
  proof
    assume "bit y j"
    then obtain k where "k < m" "bit x (j + k)" using assms by auto
    then show ?thesis by (intro exI [of _ k]) simp
  next
    assume "bit y (m + j)"
    then obtain k where "k < m" "bit x (m + j + k)" using assms by auto
    then show ?thesis by (intro exI [of _ "m + k"]) (simp add: ac_simps)
  qed
next
  assume "\<exists>k<m + m. bit x (j + k)"
  then obtain k where k: "k < m + m" "bit x (j + k)" by blast
  show "bit (y OR drop_bit m y) j"
  proof (cases "k < m")
    case True
    with k assms [of j] show ?thesis by (auto simp: bit_simps)
  next
    case False
    then have "bit y (m + j)" using k assms [of "m + j"] by (auto intro!: exI [of _ "k - m"])
    then show ?thesis by (auto simp: bit_simps)
  qed
qed

lemma smear_bits:
  "bit (let x1 = x0 OR drop_bit 1 x0; x2 = x1 OR drop_bit 2 x1; x3 = x2 OR drop_bit 4 x2;
         x4 = x3 OR drop_bit 8 x3; x5 = x4 OR drop_bit 0x10 x4 in x5 OR drop_bit 0x20 x5) j
   \<longleftrightarrow> (\<exists>k. bit x0 (j + k))" for x0 :: ulong
proof -
  have 0: "bit x0 j \<longleftrightarrow> (\<exists>k<1. bit x0 (j + k))" for j by auto
  note step = smear_step [where x = x0]
  note 1 = step [OF 0, unfolded one_add_one]
  note 2 = step [OF 1, unfolded numeral_plus_numeral add_num_simps]
  note 3 = step [OF 2, unfolded numeral_plus_numeral add_num_simps]
  note 4 = step [OF 3, unfolded numeral_plus_numeral add_num_simps]
  note 5 = step [OF 4, unfolded numeral_plus_numeral add_num_simps]
  note 6 = step [OF 5, unfolded numeral_plus_numeral add_num_simps]
  have "(\<exists>k<64. bit x0 (j + k)) \<longleftrightarrow> (\<exists>k. bit x0 (j + k))"
  proof -
    have "k < 64" if "bit x0 (j + k)" for k
      using bit_imp_le_length [OF that] by simp
    then show ?thesis by blast
  qed
  then show ?thesis unfolding Let_def using 6 [of j] by (simp only:)
qed

lemma bit_ulong_iff: "bit x j \<longleftrightarrow> odd (uint x div 2 ^ j)" for x :: ulong
  using bit_uint_iff [of x j] bit_imp_le_length [of x j] by (auto simp: bit_iff_odd)

lemma ulong_length_in_bits_eqI:
  assumes "uint x < 2 ^ n" and "n = 0 \<or> 2 ^ (n - 1) \<le> uint x" 
  shows "ulong_length_in_bits x = n"
proof -
  have bits: "bit x j \<Longrightarrow> j < n" for j
  proof (rule ccontr)
    assume "bit x j" "\<not> j < n"
    then have "(2 :: int) ^ n \<le> 2 ^ j" by simp
    moreover have "2 ^ j \<le> uint x"
      using \<open>bit x j\<close> div_pos_pos_trivial [of "uint x" "2 ^ j"]
      by (cases "uint x < 2 ^ j") (simp_all add: bit_ulong_iff)
    ultimately show False using assms(1) by linarith
  qed
  have top: "bit x (n - 1)" if "n \<noteq> 0"
  proof -
    have "uint x div 2 ^ (n - 1) = 1"
      using assms that by (intro int_div_pos_eq [where r = "uint x - 2 ^ (n - 1)"]) (auto simp flip: power_Suc)
    then show ?thesis by (simp add: bit_ulong_iff)
  qed
  have "(\<exists>k. bit x (j + k)) \<longleftrightarrow> j < n" for j
  proof
    assume "\<exists>k. bit x (j + k)"
    then show "j < n" using bits by fastforce
  next
    assume "j < n"
    then show "\<exists>k. bit x (j + k)" using top by (intro exI [of _ "n - 1 - j"]) auto
  qed
  then have "{j. bit (let x1 = x OR drop_bit 1 x; x2 = x1 OR drop_bit 2 x1; x3 = x2 OR drop_bit 4 x2;
         x4 = x3 OR drop_bit 8 x3; x5 = x4 OR drop_bit 0x10 x4 in x5 OR drop_bit 0x20 x5) j} = {..<n}"
    by (auto simp only: smear_bits lessThan_def)
  then show ?thesis by (simp add: ulong_length_in_bits_def ulong_bit_count_card Let_def)
qed

lemma ulong_length_in_bits_bounds:
  "uint x < 2 ^ ulong_length_in_bits x"
  "x \<noteq> 0 \<Longrightarrow> 2 ^ (ulong_length_in_bits x - 1) \<le> uint x"
  "x \<noteq> 0 \<Longrightarrow> 0 < ulong_length_in_bits x"
  "ulong_length_in_bits x \<le> 64"
proof -
  define n where "n = (LEAST n. uint x < 2 ^ n)"
  have ex: "uint x < 2 ^ 64" using uint_lt2p [of x] by simp
  have n: "uint x < 2 ^ n" unfolding n_def by (rule LeastI [of _ 64]) (rule ex)
  have n64: "n \<le> 64" unfolding n_def by (rule Least_le) (rule ex)
  have pos: "2 ^ (n - 1) \<le> uint x" if "n \<noteq> 0"
    using not_less_Least [of "n - 1" "\<lambda>n. uint x < 2 ^ n"] that by (simp add: n_def [symmetric])
  have l: "ulong_length_in_bits x = n" using n pos by (intro ulong_length_in_bits_eqI) auto
  have x0: "n \<noteq> 0" if "x \<noteq> 0"
  proof
    assume "n = 0"
    with n have "uint x < 1" by simp
    moreover have "0 \<le> uint x" by simp
    ultimately have "uint x = 0" by linarith
    with that show False by (simp add: uint_0_iff)
  qed
  show "uint x < 2 ^ ulong_length_in_bits x" "x \<noteq> 0 \<Longrightarrow> 2 ^ (ulong_length_in_bits x - 1) \<le> uint x"
    "x \<noteq> 0 \<Longrightarrow> 0 < ulong_length_in_bits x" "ulong_length_in_bits x \<le> 64"
    using n pos l x0 n64 by auto
qed

lemma ulong_length_in_bits_0 [simp]: "ulong_length_in_bits 0 = 0"
  by (rule ulong_length_in_bits_eqI) simp_all

text \<open>The first set bit is the exponent of the largest power of two that divides the word.\<close>

lemma low_bits_mask:
  assumes x: "uint x = 2 ^ r * k" and "odd k"
  shows "r < 64" "x \<noteq> 0" "drop_bit 1 (x XOR (x - 1)) = (mask r :: ulong)"
proof -
  have "0 < k" using x unsigned_greater_eq [of x] assms(2)
    by (metis even_zero linorder_not_less mult_less_0_iff order_le_less zero_less_numeral zero_less_power)
  then show x0: "x \<noteq> 0" using x by auto
  show r: "r < 64"
  proof (rule ccontr)
    assume "\<not> r < 64"
    then have "(2 :: int) ^ 64 \<le> 2 ^ r" by (intro power_increasing) simp_all
    also have "\<dots> \<le> uint x" using x \<open>0 < k\<close> by simp
    finally show False using uint_lt2p [of x] by simp
  qed
  obtain h where h: "k = 2 * h + 1" using assms(2) by (elim oddE)
  have "0 \<le> h" using h \<open>0 < k\<close> by simp
  have ux: "uint x = 2 ^ r + 2 ^ Suc r * h" using x h by (simp add: algebra_simps)
  have um: "uint (x - 1) = (2 ^ r - 1) + 2 ^ Suc r * h"
  proof -
    have "uint (1 :: ulong) \<le> uint x" using ux \<open>0 \<le> h\<close> by (simp add: algebra_simps) (metis add_increasing2 mult_nonneg_nonneg one_le_power one_le_numeral zero_le_numeral zero_le_power)
    then show ?thesis using ux by (simp add: uint_sub_lem [THEN iffD1])
  qed
  have xr: "bit (x XOR (x - 1)) j \<longleftrightarrow> j \<le> r" for j
  proof -
    have lo: "take_bit (Suc r) (2 ^ r :: int) = 2 ^ r" "take_bit (Suc r) (2 ^ r - 1 :: int) = 2 ^ r - 1"
      by (simp_all add: take_bit_int_eq_self flip: mask_eq_exp_minus_1)
    have 1: "uint x = concat_bit (Suc r) (2 ^ r) h" "uint (x - 1) = concat_bit (Suc r) (mask r) h"
      using lo ux um by (simp_all add: concat_bit_eq push_bit_eq_mult mult.commute mask_eq_exp_minus_1)
    have "bit (uint (x XOR (x - 1))) j \<longleftrightarrow> j \<le> r"
      unfolding unsigned_xor_eq 1 by (auto simp: bit_simps bit_concat_bit_iff less_Suc_eq)
    then show ?thesis using r bit_uint_iff [of "x XOR (x - 1)" j] bit_imp_le_length [of "x XOR (x - 1)" j] by auto
  qed
  have "bit (drop_bit 1 (x XOR (x - 1))) j \<longleftrightarrow> bit (mask r :: ulong) j" for j
    using r xr [of "1 + j"] by (auto simp only: bit_drop_bit_eq comp_def bit_mask_iff possible_bit_word) simp
  then show "drop_bit 1 (x XOR (x - 1)) = mask r" by (rule bit_eqI)
qed

lemma ulong_first_set_bit_eqI:
  assumes x: "uint x = 2 ^ r * k" and "odd k"
  shows "ulong_first_set_bit x = int r"
proof -
  note r = low_bits_mask(1) [OF assms] and x0 = low_bits_mask(2) [OF assms]
  from low_bits_mask(3) [OF assms] have "ulong_length_in_bits (drop_bit 1 (x XOR (x - 1))) = r"
  proof (simp only:, intro ulong_length_in_bits_eqI)
    have m: "uint (mask r :: ulong) = 2 ^ r - 1"
      using r uint_mask_eq [of r, where 'a = 64] by (simp only: min_def) (simp add: mask_eq_exp_minus_1)
    show "uint (mask r :: ulong) < 2 ^ r" by (simp add: m)
    have "(1 :: int) \<le> 2 ^ (r - 1)" by simp
    then show "r = 0 \<or> 2 ^ (r - 1) \<le> uint (mask r :: ulong)"
      unfolding m by (cases r) simp_all
  qed
  with x0 show ?thesis by (simp add: ulong_first_set_bit_def)
qed

lemma ulong_bit_count_mask: "r < 64 \<Longrightarrow> ulong_bit_count (mask r) = r"
proof -
  assume "r < 64"
  then have "{i. bit (mask r :: ulong) i} = {..<r}" by (auto simp: bit_mask_iff)
  then show ?thesis by (simp add: ulong_bit_count_card)
qed

end
