(* ===== verification/Bignum_Base.thy ===== *)
theory Bignum_Base
  imports Radix Bits
begin

text \<open>
  Representation of bignums (\<open>src/src/microcode/bignmint.h\<close> and the allocation,
  copying and trimming routines of \<open>bignum.c\<close>).

  A bignum is a header word, which packs the sign and the number of digits, and an
  array of digits in radix \<open>2 ^ 62\<close>, least significant first. The model keeps the
  two fields of the header separately and the array as a list of integers. The invariant
  \<open>bignum_wf\<close> is what every exported operation expects and produces: digits in
  range, no leading zero digit, zero is not negative, and the length limit that
  \<open>bignum_allocate\<close> asserts. A failed \<open>BIGNUM_ASSERT\<close> is \<open>None\<close>.
\<close>

subsection \<open>Constants and macros\<close>

definition BIGNUM_DIGIT_LENGTH :: nat where "BIGNUM_DIGIT_LENGTH = 62"
definition BIGNUM_HALF_DIGIT_LENGTH :: nat where "BIGNUM_HALF_DIGIT_LENGTH = BIGNUM_DIGIT_LENGTH div 2"
definition BIGNUM_RADIX :: int where "BIGNUM_RADIX = push_bit BIGNUM_DIGIT_LENGTH 1"
definition BIGNUM_RADIX_ROOT :: int where "BIGNUM_RADIX_ROOT = push_bit BIGNUM_HALF_DIGIT_LENGTH 1"
definition BIGNUM_DIGIT_MASK :: int where "BIGNUM_DIGIT_MASK = BIGNUM_RADIX - 1"
definition BIGNUM_HALF_DIGIT_MASK :: int where "BIGNUM_HALF_DIGIT_MASK = BIGNUM_RADIX_ROOT - 1"
definition BIGNUM_LENGTH_MAX :: nat where
  "BIGNUM_LENGTH_MAX = (nat BIGNUM_RADIX div BIGNUM_DIGIT_LENGTH) - BIGNUM_DIGIT_LENGTH"

definition BIGNUM_DIGIT_ONES :: "nat \<Rightarrow> int" where
  "BIGNUM_DIGIT_ONES n = uint (NOT (push_bit n (NOT (0 :: ulong))))"

definition HD_LOW :: "int \<Rightarrow> int" where "HD_LOW digit = digit AND BIGNUM_HALF_DIGIT_MASK"
definition HD_HIGH :: "int \<Rightarrow> int" where "HD_HIGH digit = drop_bit BIGNUM_HALF_DIGIT_LENGTH digit"
definition HD_CONS :: "int \<Rightarrow> int \<Rightarrow> int" where
  "HD_CONS high low = push_bit BIGNUM_HALF_DIGIT_LENGTH high OR low"

definition BIGNUM_BITS_TO_DIGITS :: "nat \<Rightarrow> nat" where
  "BIGNUM_BITS_TO_DIGITS n = (n + (BIGNUM_DIGIT_LENGTH - 1)) div BIGNUM_DIGIT_LENGTH"

text \<open>The header word: the length in the low 62 bits, the sign in bit 62.\<close>

definition BIGNUM_SET_HEADER :: "ulong \<Rightarrow> bool \<Rightarrow> ulong" where
  "BIGNUM_SET_HEADER len negative_p =
     len OR (if negative_p then word_of_int BIGNUM_RADIX else 0)"

definition HEADER_LENGTH :: "ulong \<Rightarrow> ulong" where
  "HEADER_LENGTH header = header AND word_of_int BIGNUM_DIGIT_MASK"

definition HEADER_NEGATIVE_P :: "ulong \<Rightarrow> bool" where
  "HEADER_NEGATIVE_P header \<longleftrightarrow> header AND word_of_int BIGNUM_RADIX \<noteq> 0"

record bignum =
  BIGNUM_NEGATIVE_P :: bool
  BIGNUM_DIGITS :: "int list"

definition mk_bignum :: "bool \<Rightarrow> int list \<Rightarrow> bignum" where
  "mk_bignum negative_p ds = \<lparr> BIGNUM_NEGATIVE_P = negative_p, BIGNUM_DIGITS = ds \<rparr>"

definition BIGNUM_LENGTH :: "bignum \<Rightarrow> nat" where
  "BIGNUM_LENGTH bignum = length (BIGNUM_DIGITS bignum)"

definition BIGNUM_ZERO_P :: "bignum \<Rightarrow> bool" where
  "BIGNUM_ZERO_P bignum \<longleftrightarrow> BIGNUM_LENGTH bignum = 0"

definition BIGNUM_REF :: "bignum \<Rightarrow> nat \<Rightarrow> int" where
  "BIGNUM_REF bignum index = BIGNUM_DIGITS bignum ! index"

definition BIGNUM_ASSERT :: "bool \<Rightarrow> unit option" where
  "BIGNUM_ASSERT expression = (if expression then Some () else None)"

definition BIGNUM_POSITIVE_P :: "bignum \<Rightarrow> bool" where
  "BIGNUM_POSITIVE_P bignum \<longleftrightarrow> \<not> BIGNUM_ZERO_P bignum \<and> \<not> BIGNUM_NEGATIVE_P bignum"

subsection \<open>Allocation, trimming and copying\<close>

definition bignum_make_zero :: bignum where
  "bignum_make_zero = mk_bignum False []"

definition bignum_make_one :: "bool \<Rightarrow> bignum" where
  "bignum_make_one negative_p = mk_bignum negative_p [1]"

text \<open>The digits of a fresh bignum are not initialised by \<open>bignum_allocate\<close>; every
  caller writes them. The model fills them with zeros.\<close>

definition bignum_allocate :: "nat \<Rightarrow> bool \<Rightarrow> bignum option" where
  "bignum_allocate len negative_p = do {
     BIGNUM_ASSERT (len \<le> BIGNUM_LENGTH_MAX);
     Some (mk_bignum negative_p (replicate len 0)) }"

definition bignum_allocate_zeroed :: "nat \<Rightarrow> bool \<Rightarrow> bignum option" where
  "bignum_allocate_zeroed len negative_p = do {
     BIGNUM_ASSERT (len \<le> BIGNUM_LENGTH_MAX);
     Some (mk_bignum negative_p (replicate len 0)) }"

definition bignum_shorten_length :: "bignum \<Rightarrow> nat \<Rightarrow> bignum option" where
  "bignum_shorten_length bignum len = do {
     BIGNUM_ASSERT (len \<le> BIGNUM_LENGTH bignum);
     Some (if len < BIGNUM_LENGTH bignum
           then mk_bignum (len \<noteq> 0 \<and> BIGNUM_NEGATIVE_P bignum) (take len (BIGNUM_DIGITS bignum))
           else bignum) }"

text \<open>The scan of \<open>bignum_trim\<close> walks down from the last digit while it sees zeros.\<close>

definition trim_digits :: "int list \<Rightarrow> int list" where
  "trim_digits ds = strip_while (\<lambda>d. d = 0) ds"

definition bignum_trim :: "bignum \<Rightarrow> bignum" where
  "bignum_trim bignum =
    (let ds = trim_digits (BIGNUM_DIGITS bignum)
     in if length ds < BIGNUM_LENGTH bignum
        then mk_bignum (length ds \<noteq> 0 \<and> BIGNUM_NEGATIVE_P bignum) ds
        else bignum)"

definition bignum_destructive_copy :: "bignum \<Rightarrow> bignum \<Rightarrow> bignum" where
  "bignum_destructive_copy source target =
     target \<lparr> BIGNUM_DIGITS := BIGNUM_DIGITS source @ drop (BIGNUM_LENGTH source) (BIGNUM_DIGITS target) \<rparr>"

definition bignum_copy :: "bignum \<Rightarrow> bignum option" where
  "bignum_copy source = do {
     target \<leftarrow> bignum_allocate (BIGNUM_LENGTH source) (BIGNUM_NEGATIVE_P source);
     Some (bignum_destructive_copy source target) }"

definition bignum_new_sign :: "bignum \<Rightarrow> bool \<Rightarrow> bignum option" where
  "bignum_new_sign bignum negative_p = do {
     result \<leftarrow> bignum_allocate (BIGNUM_LENGTH bignum) negative_p;
     Some (bignum_destructive_copy bignum result) }"

definition bignum_maybe_new_sign :: "bignum \<Rightarrow> bool \<Rightarrow> bignum option" where
  "bignum_maybe_new_sign bignum negative_p =
    (if (if BIGNUM_NEGATIVE_P bignum then negative_p else \<not> negative_p) then Some bignum
     else do {
       result \<leftarrow> bignum_allocate (BIGNUM_LENGTH bignum) negative_p;
       Some (bignum_destructive_copy bignum result) })"

definition bignum_digit_to_bignum :: "int \<Rightarrow> bool \<Rightarrow> bignum option" where
  "bignum_digit_to_bignum digit negative_p =
    (if digit = 0 then Some bignum_make_zero
     else do {
       result \<leftarrow> bignum_allocate 1 negative_p;
       Some (result \<lparr> BIGNUM_DIGITS := (BIGNUM_DIGITS result)[0 := digit] \<rparr>) })"

subsection \<open>Denotation and invariant\<close>

definition bignum_mag :: "bignum \<Rightarrow> int" where
  "bignum_mag b = rval BIGNUM_RADIX (BIGNUM_DIGITS b)"

definition bignum_val :: "bignum \<Rightarrow> int" where
  "bignum_val b = (if BIGNUM_NEGATIVE_P b then - bignum_mag b else bignum_mag b)"

definition digits_wf :: "int list \<Rightarrow> bool" where
  "digits_wf ds \<longleftrightarrow> digits_in BIGNUM_RADIX ds \<and> (ds \<noteq> [] \<longrightarrow> last ds \<noteq> 0)"

definition bignum_wf :: "bignum \<Rightarrow> bool" where
  "bignum_wf b \<longleftrightarrow> digits_wf (BIGNUM_DIGITS b) \<and> (BIGNUM_NEGATIVE_P b \<longrightarrow> BIGNUM_DIGITS b \<noteq> [])
     \<and> BIGNUM_LENGTH b \<le> BIGNUM_LENGTH_MAX"

text \<open>What a run of a bignum operation promises: it returns, the result is well-formed
  and denotes the given integer.\<close>

definition returns_bignum :: "bignum option \<Rightarrow> int \<Rightarrow> bool" where
  "returns_bignum r n \<longleftrightarrow> (\<exists>b. r = Some b \<and> bignum_wf b \<and> bignum_val b = n)"

subsection \<open>Numerical facts about the constants\<close>

lemma BIGNUM_RADIX_eq: "BIGNUM_RADIX = 2 ^ 62"
  by (simp add: BIGNUM_RADIX_def BIGNUM_DIGIT_LENGTH_def)

lemma BIGNUM_RADIX_ROOT_eq: "BIGNUM_RADIX_ROOT = 2 ^ 31"
  by (simp add: BIGNUM_RADIX_ROOT_def BIGNUM_HALF_DIGIT_LENGTH_def BIGNUM_DIGIT_LENGTH_def)

lemma RADIX_ROOT_square: "BIGNUM_RADIX_ROOT * BIGNUM_RADIX_ROOT = BIGNUM_RADIX"
  by (simp add: BIGNUM_RADIX_eq BIGNUM_RADIX_ROOT_eq)

lemma RADIX_pos [simp]: "0 < BIGNUM_RADIX" "1 < BIGNUM_RADIX" "0 \<le> BIGNUM_RADIX" "1 \<le> BIGNUM_RADIX"
  "BIGNUM_RADIX \<noteq> 0" "2 < BIGNUM_RADIX"
  by (simp_all add: BIGNUM_RADIX_eq)

lemma ROOT_pos [simp]: "0 < BIGNUM_RADIX_ROOT" "1 < BIGNUM_RADIX_ROOT" "0 \<le> BIGNUM_RADIX_ROOT"
  "BIGNUM_RADIX_ROOT \<noteq> 0" "2 < BIGNUM_RADIX_ROOT" "BIGNUM_RADIX_ROOT < BIGNUM_RADIX"
  by (simp_all add: BIGNUM_RADIX_eq BIGNUM_RADIX_ROOT_eq)

lemma HD_LOW_eq [digit_simps]: "HD_LOW d = d mod BIGNUM_RADIX_ROOT"
proof -
  have "BIGNUM_HALF_DIGIT_MASK = mask 31"
    by (simp add: BIGNUM_HALF_DIGIT_MASK_def BIGNUM_RADIX_ROOT_eq mask_eq_exp_minus_1)
  then show ?thesis unfolding HD_LOW_def BIGNUM_RADIX_ROOT_eq by (metis take_bit_eq_mask take_bit_eq_mod)
qed

lemma HD_HIGH_eq [digit_simps]: "HD_HIGH d = d div BIGNUM_RADIX_ROOT"
  by (simp add: HD_HIGH_def BIGNUM_HALF_DIGIT_LENGTH_def BIGNUM_DIGIT_LENGTH_def BIGNUM_RADIX_ROOT_eq drop_bit_eq_div)

lemma HD_CONS_eq [digit_simps]:
  assumes "0 \<le> l" "l < BIGNUM_RADIX_ROOT"
  shows "HD_CONS h l = h * BIGNUM_RADIX_ROOT + l"
  using assms push_or_eq_add [of l 31 h]
  by (simp add: HD_CONS_def BIGNUM_HALF_DIGIT_LENGTH_def BIGNUM_DIGIT_LENGTH_def BIGNUM_RADIX_ROOT_eq)

lemma HD_LOW_range [simp]: "0 \<le> HD_LOW d" "HD_LOW d < BIGNUM_RADIX_ROOT"
  by (simp_all add: HD_LOW_eq)

lemma HD_HIGH_range:
  assumes "0 \<le> d" "d < BIGNUM_RADIX"
  shows "0 \<le> HD_HIGH d" "HD_HIGH d < BIGNUM_RADIX_ROOT"
proof -
  show "0 \<le> HD_HIGH d" using assms by (simp add: HD_HIGH_eq pos_imp_zdiv_nonneg_iff)
  show "HD_HIGH d < BIGNUM_RADIX_ROOT"
    using assms by (simp add: HD_HIGH_eq BIGNUM_RADIX_eq BIGNUM_RADIX_ROOT_eq div_less_iff_less_mult)
qed

lemma HD_split: "d = HD_HIGH d * BIGNUM_RADIX_ROOT + HD_LOW d"
  by (simp add: HD_HIGH_eq HD_LOW_eq)

lemma HD_CONS_range:
  assumes "0 \<le> h" "h < BIGNUM_RADIX_ROOT" "0 \<le> l" "l < BIGNUM_RADIX_ROOT"
  shows "0 \<le> HD_CONS h l" "HD_CONS h l < BIGNUM_RADIX"
proof -
  have "(h + 1) * BIGNUM_RADIX_ROOT \<le> BIGNUM_RADIX_ROOT * BIGNUM_RADIX_ROOT"
    using assms by (intro mult_right_mono) auto
  then show "0 \<le> HD_CONS h l" "HD_CONS h l < BIGNUM_RADIX"
    using assms by (simp_all add: HD_CONS_eq RADIX_ROOT_square algebra_simps)
qed

lemma LENGTH_MAX_ge: "2 \<le> BIGNUM_LENGTH_MAX"
  by (simp add: BIGNUM_LENGTH_MAX_def BIGNUM_RADIX_eq BIGNUM_DIGIT_LENGTH_def)

text \<open>The sign bit and the length share the header word without interference.\<close>

lemma header_roundtrip:
  assumes "n \<le> BIGNUM_LENGTH_MAX"
  shows "HEADER_LENGTH (BIGNUM_SET_HEADER (of_nat n) s) = of_nat n"
    and "HEADER_NEGATIVE_P (BIGNUM_SET_HEADER (of_nat n) s) = s"
proof -
  have n: "int n < 2 ^ 62" using assms by (simp add: BIGNUM_LENGTH_MAX_def BIGNUM_RADIX_eq BIGNUM_DIGIT_LENGTH_def)
  have r: "word_of_int BIGNUM_RADIX = (2 ^ 62 :: ulong)" "word_of_int BIGNUM_DIGIT_MASK = (mask 62 :: ulong)"
    by (simp_all add: BIGNUM_RADIX_eq BIGNUM_DIGIT_MASK_def mask_eq_exp_minus_1)
  have high: "\<not> bit (of_nat n :: ulong) i" if "62 \<le> i" for i
  proof -
    have "int n < 2 ^ i" using n power_increasing [OF that, of "2 :: int"] by linarith
    then have "\<not> bit (int n) i" by (simp add: bit_iff_odd)
    then show ?thesis using word_of_int_bits [of "int n" i] n by simp
  qed
  show "HEADER_LENGTH (BIGNUM_SET_HEADER (of_nat n) s) = of_nat n"
    unfolding HEADER_LENGTH_def BIGNUM_SET_HEADER_def r
  proof (rule bit_eqI)
    fix i assume i: "possible_bit TYPE(ulong) i"
    have "bit (2 ^ 62 :: ulong) i \<longleftrightarrow> i = 62" by (simp only: bit_exp_iff) (use i in auto)
    then show "bit ((of_nat n OR (if s then 2 ^ 62 else 0)) AND mask 62 :: ulong) i = bit (of_nat n :: ulong) i"
      using high [of i] i by (cases "i < 62"; cases s) (simp_all only: bit_and_iff bit_or_iff bit_mask_iff, simp_all)
  qed
  show "HEADER_NEGATIVE_P (BIGNUM_SET_HEADER (of_nat n) s) = s"
    unfolding HEADER_NEGATIVE_P_def BIGNUM_SET_HEADER_def r and_exp_eq_0_iff_not_bit
    using high [of 62] by (auto simp: bit_simps)
qed

subsection \<open>The allocation routines in terms of the invariant\<close>

lemma BIGNUM_ASSERT_simps [simp]:
  "BIGNUM_ASSERT True = Some ()" "BIGNUM_ASSERT False = None"
  by (simp_all add: BIGNUM_ASSERT_def)

lemma mk_bignum_simps [simp]:
  "BIGNUM_NEGATIVE_P (mk_bignum s ds) = s" "BIGNUM_DIGITS (mk_bignum s ds) = ds"
  "BIGNUM_LENGTH (mk_bignum s ds) = length ds" "BIGNUM_ZERO_P (mk_bignum s ds) \<longleftrightarrow> ds = []"
  "mk_bignum s ds \<lparr> BIGNUM_DIGITS := es \<rparr> = mk_bignum s es"
  by (simp_all add: mk_bignum_def BIGNUM_LENGTH_def BIGNUM_ZERO_P_def)

lemma mk_bignum_collapse [simp]: "mk_bignum (BIGNUM_NEGATIVE_P b) (BIGNUM_DIGITS b) = b"
  by (simp add: mk_bignum_def)

lemma digits_wf_Nil [simp]: "digits_wf []"
  by (simp add: digits_wf_def)

lemma digits_wf_digits_in: "digits_wf ds \<Longrightarrow> digits_in BIGNUM_RADIX ds"
  by (simp add: digits_wf_def)

lemma bignum_wf_digits_in: "bignum_wf b \<Longrightarrow> digits_in BIGNUM_RADIX (BIGNUM_DIGITS b)"
  by (simp add: bignum_wf_def digits_wf_def)

lemma bignum_wf_length: "bignum_wf b \<Longrightarrow> length (BIGNUM_DIGITS b) \<le> BIGNUM_LENGTH_MAX"
  by (simp add: bignum_wf_def BIGNUM_LENGTH_def)

lemma bignum_mag_nonneg: "bignum_wf b \<Longrightarrow> 0 \<le> bignum_mag b"
  by (simp add: bignum_mag_def rval_nonneg bignum_wf_digits_in)

lemma bignum_mag_mk [simp]: "bignum_mag (mk_bignum s ds) = rval BIGNUM_RADIX ds"
  by (simp add: bignum_mag_def)

lemma bignum_val_mk: "bignum_val (mk_bignum s ds) = (if s then - rval BIGNUM_RADIX ds else rval BIGNUM_RADIX ds)"
  by (simp add: bignum_val_def)

lemma bignum_wf_mk:
  "bignum_wf (mk_bignum s ds) \<longleftrightarrow> digits_wf ds \<and> (s \<longrightarrow> ds \<noteq> []) \<and> length ds \<le> BIGNUM_LENGTH_MAX"
  by (simp add: bignum_wf_def)

lemma digits_wf_lower:
  assumes "digits_wf ds" "ds \<noteq> []"
  shows "BIGNUM_RADIX ^ (length ds - 1) \<le> rval BIGNUM_RADIX ds"
proof -
  have d: "ds = butlast ds @ [last ds]" using assms(2) by simp
  have in': "digits_in BIGNUM_RADIX (butlast ds @ [last ds])" using assms d by (metis digits_wf_def)
  then have "0 \<le> last ds" by (simp only: digits_in_simps)
  then have "1 \<le> last ds" using assms by (auto simp: digits_wf_def)
  then have "BIGNUM_RADIX ^ (length ds - 1) * 1 \<le> BIGNUM_RADIX ^ (length ds - 1) * last ds"
    by (intro mult_left_mono) auto
  moreover have "0 \<le> rval BIGNUM_RADIX (butlast ds)" using in' by (auto intro: rval_nonneg)
  moreover have "rval BIGNUM_RADIX ds = rval BIGNUM_RADIX (butlast ds) + BIGNUM_RADIX ^ (length ds - 1) * last ds"
    using rval_append [of BIGNUM_RADIX "butlast ds" "[last ds]"] d by simp
  ultimately show ?thesis by linarith
qed

lemma digits_wf_lowerI:
  assumes "digits_in BIGNUM_RADIX ds" "BIGNUM_RADIX ^ (length ds - 1) \<le> rval BIGNUM_RADIX ds"
  shows "digits_wf ds"
proof (cases "ds = []")
  case False
  then have d: "ds = butlast ds @ [last ds]" by simp
  have "digits_in BIGNUM_RADIX (butlast ds)" using assms(1) by (metis d digits_in_simps(3))
  then have "rval BIGNUM_RADIX (butlast ds) < BIGNUM_RADIX ^ (length ds - 1)" using rval_less [of _ "butlast ds"] by simp
  then have "last ds \<noteq> 0" using assms(2) d rval_snoc0 [of BIGNUM_RADIX "butlast ds"] by (metis linorder_not_less)
  with assms(1) show ?thesis by (simp add: digits_wf_def)
qed simp

lemma digits_wf_pos: "digits_wf ds \<Longrightarrow> ds \<noteq> [] \<Longrightarrow> 0 < rval BIGNUM_RADIX ds"
  using digits_wf_lower [of ds] zero_less_power [OF RADIX_pos(1), of "length ds - 1"] by linarith

lemma digits_wf_length_le:
  assumes "digits_wf xs" "digits_in BIGNUM_RADIX ys" "rval BIGNUM_RADIX xs \<le> rval BIGNUM_RADIX ys"
  shows "length xs \<le> length ys"
proof (rule ccontr)
  assume "\<not> length xs \<le> length ys"
  then have "xs \<noteq> []" and "length ys \<le> length xs - 1" by auto
  then have "BIGNUM_RADIX ^ length ys \<le> BIGNUM_RADIX ^ (length xs - 1)" by (intro power_increasing) auto
  also have "\<dots> \<le> rval BIGNUM_RADIX xs" using assms(1) \<open>xs \<noteq> []\<close> by (rule digits_wf_lower)
  also have "\<dots> < BIGNUM_RADIX ^ length ys" using assms(2,3) rval_less [of BIGNUM_RADIX ys] by linarith
  finally show False by simp
qed

lemma bignum_ZERO_P_iff: "bignum_wf b \<Longrightarrow> BIGNUM_ZERO_P b \<longleftrightarrow> bignum_val b = 0"
  using digits_wf_pos [of "BIGNUM_DIGITS b"]
  by (cases "BIGNUM_DIGITS b = []") (auto simp: BIGNUM_ZERO_P_def BIGNUM_LENGTH_def bignum_val_def bignum_wf_def bignum_mag_def)

lemma bignum_NEGATIVE_P_iff: "bignum_wf b \<Longrightarrow> BIGNUM_NEGATIVE_P b \<longleftrightarrow> bignum_val b < 0"
  using digits_wf_pos [of "BIGNUM_DIGITS b"] rval_nonneg [of BIGNUM_RADIX "BIGNUM_DIGITS b"]
  by (auto simp: bignum_val_def bignum_wf_def bignum_mag_def digits_wf_def)

lemma bignum_abs_val: "bignum_wf b \<Longrightarrow> \<bar>bignum_val b\<bar> = bignum_mag b"
  using bignum_mag_nonneg [of b] by (simp add: bignum_val_def)

text \<open>Representations are canonical.\<close>

lemma rval_inject:
  "digits_in B xs \<Longrightarrow> digits_in B ys \<Longrightarrow> length xs = length ys \<Longrightarrow> rval B xs = rval B ys \<Longrightarrow> xs = ys"
proof (induction xs arbitrary: ys)
  case (Cons x xs)
  then obtain y zs where ys: "ys = y # zs" by (cases ys) auto
  have "x = y" "rval B xs = rval B zs"
    using Cons.prems rval_div_mod [of B x xs] rval_div_mod [of B y zs] unfolding ys by metis+
  with Cons ys show ?case by simp
qed simp

lemma digits_wf_inject:
  "digits_wf xs \<Longrightarrow> digits_wf ys \<Longrightarrow> rval BIGNUM_RADIX xs = rval BIGNUM_RADIX ys \<Longrightarrow> xs = ys"
  by (rule rval_inject [of BIGNUM_RADIX])
    (simp_all add: digits_wf_digits_in digits_wf_length_le order_antisym)

lemma bignum_val_inject:
  assumes "bignum_wf x" "bignum_wf y" "bignum_val x = bignum_val y"
  shows "x = y"
proof -
  have "BIGNUM_NEGATIVE_P x = BIGNUM_NEGATIVE_P y" using assms by (simp add: bignum_NEGATIVE_P_iff)
  moreover have "bignum_mag x = bignum_mag y" using assms bignum_abs_val by metis
  then have "BIGNUM_DIGITS x = BIGNUM_DIGITS y"
    using assms by (intro digits_wf_inject) (auto simp: bignum_wf_def bignum_mag_def)
  ultimately show ?thesis by (simp add: bignum.equality)
qed

lemma rval_replicate0 [simp]: "rval B (replicate n 0) = 0"
  by (induction n) simp_all

lemma digits_in_replicate0 [simp]: "0 < B \<Longrightarrow> digits_in B (replicate n 0)"
  by (simp add: digits_in_def)

lemma rval_trim_digits [simp]: "rval B (trim_digits ds) = rval B ds"
proof (induction ds rule: rev_induct)
  case (snoc d ds)
  then show ?case by (simp add: trim_digits_def rval_append)
qed (simp add: trim_digits_def)

lemma digits_wf_trim_digits: "digits_in BIGNUM_RADIX ds \<Longrightarrow> digits_wf (trim_digits ds)"
proof (induction ds rule: rev_induct)
  case (snoc d ds)
  then show ?case by (auto simp: digits_wf_def trim_digits_def)
qed (simp add: trim_digits_def)

lemma trim_digits_prefix: "\<exists>zs. ds = trim_digits ds @ zs"
  unfolding trim_digits_def by (metis split_strip_while_append)

lemma length_trim_digits: "length (trim_digits ds) \<le> length ds"
  using trim_digits_prefix [of ds] by (metis length_append le_add1)

lemma bignum_trim_eq:
  "bignum_trim (mk_bignum s ds) = mk_bignum ((trim_digits ds = [] \<longrightarrow> ds = []) \<and> s) (trim_digits ds)"
proof (cases "length (trim_digits ds) < length ds")
  case False
  then have "trim_digits ds = ds" using trim_digits_prefix [of ds] by (metis append_Nil2 length_append
    length_greater_0_conv less_add_same_cancel1)
  then show ?thesis by (simp add: bignum_trim_def)
qed (auto simp: bignum_trim_def Let_def intro!: arg_cong2 [where f = mk_bignum])

lemma returns_trim:
  assumes "digits_in BIGNUM_RADIX ds" "length ds \<le> BIGNUM_LENGTH_MAX" "s \<Longrightarrow> ds \<noteq> []"
  shows "returns_bignum (Some (bignum_trim (mk_bignum s ds))) (if s then - rval BIGNUM_RADIX ds else rval BIGNUM_RADIX ds)"
proof -
  have "trim_digits ds = [] \<Longrightarrow> rval BIGNUM_RADIX ds = 0" using rval_trim_digits [of BIGNUM_RADIX ds] by (simp del: rval_trim_digits)
  then show ?thesis
    using assms digits_wf_trim_digits [OF assms(1)] length_trim_digits [of ds]
    by (auto simp: returns_bignum_def bignum_trim_eq bignum_wf_mk bignum_val_mk)
qed

lemma bignum_new_sign_eq:
  "bignum_wf b \<Longrightarrow> bignum_new_sign b s = Some (mk_bignum s (BIGNUM_DIGITS b))"
  by (simp add: bignum_new_sign_def bignum_allocate_def bignum_wf_def bignum_destructive_copy_def BIGNUM_LENGTH_def)

lemma bignum_copy_eq: "bignum_wf b \<Longrightarrow> bignum_copy b = Some b"
  by (simp add: bignum_copy_def bignum_allocate_def bignum_wf_def bignum_destructive_copy_def BIGNUM_LENGTH_def)

lemma bignum_maybe_new_sign_eq:
  assumes "bignum_wf b"
  shows "bignum_maybe_new_sign b s = Some (mk_bignum s (BIGNUM_DIGITS b))"
proof (cases "BIGNUM_NEGATIVE_P b = s")
  case True
  then have "bignum_maybe_new_sign b s = Some (mk_bignum (BIGNUM_NEGATIVE_P b) (BIGNUM_DIGITS b))"
    by (simp only: bignum_maybe_new_sign_def mk_bignum_collapse) simp
  with True show ?thesis by simp
next
  case False
  then show ?thesis using assms
    by (simp add: bignum_maybe_new_sign_def bignum_allocate_def bignum_wf_def bignum_destructive_copy_def BIGNUM_LENGTH_def)
qed

lemma returns_mk:
  assumes "bignum_wf b" "s \<Longrightarrow> BIGNUM_DIGITS b \<noteq> []"
  shows "returns_bignum (Some (mk_bignum s (BIGNUM_DIGITS b))) (if s then - bignum_mag b else bignum_mag b)"
  using assms by (simp add: returns_bignum_def bignum_wf_def bignum_val_mk bignum_mag_def BIGNUM_LENGTH_def)

lemma returns_self: "bignum_wf b \<Longrightarrow> returns_bignum (Some b) (bignum_val b)"
  by (simp add: returns_bignum_def)

lemma make_zero [simp]: "bignum_wf bignum_make_zero" "bignum_val bignum_make_zero = 0"
  by (simp_all add: bignum_make_zero_def bignum_wf_mk bignum_val_mk)

lemma make_one [simp]: "bignum_wf (bignum_make_one s)" "bignum_val (bignum_make_one s) = (if s then - 1 else 1)"
  using LENGTH_MAX_ge by (simp_all add: bignum_make_one_def bignum_wf_mk bignum_val_mk digits_wf_def)

lemma returns_digit_to_bignum:
  assumes "0 \<le> d" "d < BIGNUM_RADIX"
  shows "returns_bignum (bignum_digit_to_bignum d s) (if s then - d else d)"
proof (cases "d = 0")
  case True
  then show ?thesis by (simp add: bignum_digit_to_bignum_def returns_bignum_def)
next
  case False
  then have "bignum_digit_to_bignum d s = Some (mk_bignum s [d])"
    using LENGTH_MAX_ge by (simp add: bignum_digit_to_bignum_def bignum_allocate_def)
  then show ?thesis using assms False LENGTH_MAX_ge
    by (simp add: returns_bignum_def bignum_wf_mk bignum_val_mk digits_wf_def)
qed

text \<open>Evaluation of the predicates on concrete numbers.\<close>

lemmas concrete_bignum = bignum_wf_mk bignum_val_mk digits_wf_def BIGNUM_LENGTH_def BIGNUM_RADIX_eq
  BIGNUM_LENGTH_MAX_def BIGNUM_DIGIT_LENGTH_def

text \<open>the header word that \<open>BIGNUM_SET_HEADER\<close> writes gives back the length and the sign for
  every length that \<open>bignum_allocate\<close> accepts.\<close>

theorem bignum_header_roundtrip:
  assumes "n \<le> BIGNUM_LENGTH_MAX"
  shows "HEADER_LENGTH (BIGNUM_SET_HEADER (of_nat n) s) = of_nat n
       \<and> HEADER_NEGATIVE_P (BIGNUM_SET_HEADER (of_nat n) s) = s"
  using header_roundtrip [OF assms] by simp

theorem bignum_header_roundtrip_witness:
  "HEADER_LENGTH (BIGNUM_SET_HEADER (of_nat 3) True) = of_nat 3 \<and> HEADER_NEGATIVE_P (BIGNUM_SET_HEADER (of_nat 3) True) = True"
  by (rule bignum_header_roundtrip) (simp add: BIGNUM_LENGTH_MAX_def BIGNUM_RADIX_eq BIGNUM_DIGIT_LENGTH_def)

end
