(* ===== verification/Bignum_Addsub.thy ===== *)
theory Bignum_Addsub
  imports Bignum_Base
begin

text \<open>
  Comparison, addition, subtraction and negation of bignums (\<open>bignum.c\<close>). The
  unsigned routines work on magnitudes; the exported ones dispatch on the signs. Each
  \<open>while\<close> loop over digit pointers is a recursive function over the digits it has not
  yet scanned, which returns the digits written, the digits left and the carry.
\<close>

datatype bignum_comparison = bignum_comparison_equal | bignum_comparison_less | bignum_comparison_greater

subsection \<open>Comparisons\<close>

fun bignum_equal_digits :: "int list \<Rightarrow> int list \<Rightarrow> bool" where
  "bignum_equal_digits (x # xs) (y # ys) = (if x \<noteq> y then False else bignum_equal_digits xs ys)"
| "bignum_equal_digits _ _ = True"

definition bignum_equal_p_unsigned :: "bignum \<Rightarrow> bignum \<Rightarrow> bool" where
  "bignum_equal_p_unsigned x y =
    (if BIGNUM_LENGTH x \<noteq> BIGNUM_LENGTH y then False
     else bignum_equal_digits (BIGNUM_DIGITS x) (BIGNUM_DIGITS y))"

text \<open>The comparison scans from the most significant digit, so the loop takes reversed lists.\<close>

fun bignum_compare_digits :: "int list \<Rightarrow> int list \<Rightarrow> bignum_comparison" where
  "bignum_compare_digits (digit_x # xs) (digit_y # ys) =
    (if digit_x < digit_y then bignum_comparison_less
     else if digit_x > digit_y then bignum_comparison_greater
     else bignum_compare_digits xs ys)"
| "bignum_compare_digits _ _ = bignum_comparison_equal"

definition bignum_compare_unsigned :: "bignum \<Rightarrow> bignum \<Rightarrow> bignum_comparison" where
  "bignum_compare_unsigned x y =
    (if BIGNUM_LENGTH x < BIGNUM_LENGTH y then bignum_comparison_less
     else if BIGNUM_LENGTH x > BIGNUM_LENGTH y then bignum_comparison_greater
     else bignum_compare_digits (rev (BIGNUM_DIGITS x)) (rev (BIGNUM_DIGITS y)))"

definition bignum_equal_p :: "bignum \<Rightarrow> bignum \<Rightarrow> bool" where
  "bignum_equal_p x y =
    (if BIGNUM_ZERO_P x then BIGNUM_ZERO_P y
     else \<not> BIGNUM_ZERO_P y
       \<and> (if BIGNUM_NEGATIVE_P x then BIGNUM_NEGATIVE_P y else \<not> BIGNUM_NEGATIVE_P y)
       \<and> bignum_equal_p_unsigned x y)"

definition bignum_test :: "bignum \<Rightarrow> bignum_comparison" where
  "bignum_test bignum =
    (if BIGNUM_ZERO_P bignum then bignum_comparison_equal
     else if BIGNUM_NEGATIVE_P bignum then bignum_comparison_less
     else bignum_comparison_greater)"

definition bignum_compare :: "bignum \<Rightarrow> bignum \<Rightarrow> bignum_comparison" where
  "bignum_compare x y =
    (if BIGNUM_ZERO_P x
     then (if BIGNUM_ZERO_P y then bignum_comparison_equal
           else if BIGNUM_NEGATIVE_P y then bignum_comparison_greater
           else bignum_comparison_less)
     else if BIGNUM_ZERO_P y
     then (if BIGNUM_NEGATIVE_P x then bignum_comparison_less else bignum_comparison_greater)
     else if BIGNUM_NEGATIVE_P x
     then (if BIGNUM_NEGATIVE_P y then bignum_compare_unsigned y x else bignum_comparison_less)
     else (if BIGNUM_NEGATIVE_P y then bignum_comparison_greater else bignum_compare_unsigned x y))"

subsection \<open>Addition\<close>

text \<open>First loop: while there are digits of the shorter operand.\<close>

fun add_digits :: "int list \<Rightarrow> int list \<Rightarrow> int \<Rightarrow> int list \<times> int list \<times> int" where
  "add_digits (x # xs) (y # ys) carry =
    (let sum = x + y + carry
     in if sum < BIGNUM_RADIX
        then let (rs, rest, c) = add_digits xs ys 0 in (sum # rs, rest, c)
        else let (rs, rest, c) = add_digits xs ys 1 in ((sum - BIGNUM_RADIX) # rs, rest, c))"
| "add_digits xs _ carry = ([], xs, carry)"

text \<open>Second loop: propagate a carry of one until it is absorbed.\<close>

fun add_carry :: "int list \<Rightarrow> int list \<times> int list \<times> int" where
  "add_carry [] = ([], [], 1)"
| "add_carry (x # xs) =
    (let sum = x + 1
     in if sum < BIGNUM_RADIX then ([sum], xs, 0)
        else let (rs, rest, c) = add_carry xs in ((sum - BIGNUM_RADIX) # rs, rest, c))"

definition bignum_add_unsigned :: "bignum \<Rightarrow> bignum \<Rightarrow> bool \<Rightarrow> bignum option" where
  "bignum_add_unsigned x0 y0 negative_p =
    (let (x, y) = (if BIGNUM_LENGTH y0 > BIGNUM_LENGTH x0 then (y0, x0) else (x0, y0))
     in do {
       let x_length = BIGNUM_LENGTH x;
       r \<leftarrow> bignum_allocate (x_length + 1) negative_p;
       let (low, rest, carry) = add_digits (BIGNUM_DIGITS x) (BIGNUM_DIGITS y) 0;
       let (mid, rest, carry) = (if carry \<noteq> 0 then add_carry rest else ([], rest, carry));
       let written = low @ mid @ rest;
       if carry \<noteq> 0
       then Some (r \<lparr> BIGNUM_DIGITS := written @ [1] \<rparr>)
       else bignum_shorten_length
              (r \<lparr> BIGNUM_DIGITS := written @ drop (length written) (BIGNUM_DIGITS r) \<rparr>) x_length })"

subsection \<open>Subtraction\<close>

fun sub_digits :: "int list \<Rightarrow> int list \<Rightarrow> int \<Rightarrow> int list \<times> int list \<times> int" where
  "sub_digits (x # xs) (y # ys) borrow =
    (let difference = (x - y) - borrow
     in if difference < 0
        then let (rs, rest, b) = sub_digits xs ys 1 in ((difference + BIGNUM_RADIX) # rs, rest, b)
        else let (rs, rest, b) = sub_digits xs ys 0 in (difference # rs, rest, b))"
| "sub_digits xs _ borrow = ([], xs, borrow)"

fun sub_borrow :: "int list \<Rightarrow> int \<Rightarrow> int list \<times> int list \<times> int" where
  "sub_borrow [] borrow = ([], [], borrow)"
| "sub_borrow (x # xs) borrow =
    (let difference = x - borrow
     in if difference < 0
        then let (rs, rest, b) = sub_borrow xs borrow in ((difference + BIGNUM_RADIX) # rs, rest, b)
        else ([difference], xs, 0))"

definition subtract_ordered :: "bignum \<Rightarrow> bignum \<Rightarrow> bool \<Rightarrow> bignum option" where
  "subtract_ordered x y negative_p = do {
     r \<leftarrow> bignum_allocate (BIGNUM_LENGTH x) negative_p;
     let (low, rest, borrow) = sub_digits (BIGNUM_DIGITS x) (BIGNUM_DIGITS y) 0;
     let (mid, rest, borrow) = (if borrow \<noteq> 0 then sub_borrow rest borrow else ([], rest, borrow));
     BIGNUM_ASSERT (borrow = 0);
     Some (bignum_trim (r \<lparr> BIGNUM_DIGITS := low @ mid @ rest \<rparr>)) }"

definition bignum_subtract_unsigned :: "bignum \<Rightarrow> bignum \<Rightarrow> bignum option" where
  "bignum_subtract_unsigned x y =
    (case bignum_compare_unsigned x y of
       bignum_comparison_equal \<Rightarrow> Some bignum_make_zero
     | bignum_comparison_less \<Rightarrow> subtract_ordered y x True
     | bignum_comparison_greater \<Rightarrow> subtract_ordered x y False)"

subsection \<open>Exported operations\<close>

definition bignum_add :: "bignum \<Rightarrow> bignum \<Rightarrow> bignum option" where
  "bignum_add x y =
    (if BIGNUM_ZERO_P x then Some y
     else if BIGNUM_ZERO_P y then Some x
     else if BIGNUM_NEGATIVE_P x
     then (if BIGNUM_NEGATIVE_P y then bignum_add_unsigned x y True else bignum_subtract_unsigned y x)
     else (if BIGNUM_NEGATIVE_P y then bignum_subtract_unsigned x y else bignum_add_unsigned x y False))"

definition bignum_subtract :: "bignum \<Rightarrow> bignum \<Rightarrow> bignum option" where
  "bignum_subtract x y =
    (if BIGNUM_ZERO_P x
     then (if BIGNUM_ZERO_P y then Some y else bignum_new_sign y (\<not> BIGNUM_NEGATIVE_P y))
     else if BIGNUM_ZERO_P y then Some x
     else if BIGNUM_NEGATIVE_P x
     then (if BIGNUM_NEGATIVE_P y then bignum_subtract_unsigned y x else bignum_add_unsigned x y True)
     else (if BIGNUM_NEGATIVE_P y then bignum_add_unsigned x y False else bignum_subtract_unsigned x y))"

definition bignum_negate :: "bignum \<Rightarrow> bignum option" where
  "bignum_negate x =
    (if BIGNUM_ZERO_P x then Some x else bignum_new_sign x (\<not> BIGNUM_NEGATIVE_P x))"

subsection \<open>Comparison is comparison of the denoted integers\<close>

definition int_comparison :: "int \<Rightarrow> int \<Rightarrow> bignum_comparison" where
  "int_comparison m n =
    (if m < n then bignum_comparison_less else if m > n then bignum_comparison_greater
     else bignum_comparison_equal)"

lemma bignum_equal_digits_iff: "length xs = length ys \<Longrightarrow> bignum_equal_digits xs ys \<longleftrightarrow> xs = ys"
  by (induction xs ys rule: bignum_equal_digits.induct) auto

lemma bignum_compare_digits_rval:
  "length us = length vs \<Longrightarrow> digits_in B us \<Longrightarrow> digits_in B vs \<Longrightarrow>
   bignum_compare_digits us vs = int_comparison (rval B (rev us)) (rval B (rev vs))"
proof (induction us vs rule: bignum_compare_digits.induct)
  case (1 x xs y ys)
  have lt: "rval B (rev as) + B ^ length as * a < rval B (rev bs) + B ^ length bs * b"
    if "a < b" "length as = length bs" "digits_in B as" "digits_in B bs" for a b and as bs :: "int list"
  proof -
    have "0 \<le> rval B (rev bs)" "rval B (rev as) < B ^ length as"
      using that rval_nonneg [of B "rev bs"] rval_less [of B "rev as"] by (auto simp: digits_in_def)
    moreover have "0 < B ^ length as" using calculation(2) rval_nonneg [of B "rev as"] that(3)
      by (auto simp: digits_in_def)
    then have "B ^ length as * (a + 1) \<le> B ^ length as * b" using that(1) by (intro mult_left_mono) auto
    ultimately show ?thesis using that(2) by (simp add: algebra_simps)
  qed
  from 1 lt [of x y xs ys] lt [of y x ys xs] show ?case
    by (auto simp: rval_append int_comparison_def)
qed (auto simp: int_comparison_def)

lemma bignum_compare_unsigned_eq:
  assumes "bignum_wf x" "bignum_wf y"
  shows "bignum_compare_unsigned x y = int_comparison (bignum_mag x) (bignum_mag y)"
proof -
  note wf = assms [unfolded bignum_wf_def]
  have "bignum_mag x < bignum_mag y" if "BIGNUM_LENGTH x < BIGNUM_LENGTH y"
    using digits_wf_length_le [of "BIGNUM_DIGITS y" "BIGNUM_DIGITS x"] that wf
    by (auto simp: bignum_mag_def BIGNUM_LENGTH_def digits_wf_def linorder_not_less [symmetric])
  moreover have "bignum_mag y < bignum_mag x" if "BIGNUM_LENGTH y < BIGNUM_LENGTH x"
    using digits_wf_length_le [of "BIGNUM_DIGITS x" "BIGNUM_DIGITS y"] that wf
    by (auto simp: bignum_mag_def BIGNUM_LENGTH_def digits_wf_def linorder_not_less [symmetric])
  moreover have "bignum_compare_digits (rev (BIGNUM_DIGITS x)) (rev (BIGNUM_DIGITS y))
      = int_comparison (bignum_mag x) (bignum_mag y)" if "BIGNUM_LENGTH x = BIGNUM_LENGTH y"
    using that assms [THEN bignum_wf_digits_in] bignum_compare_digits_rval [of "rev (BIGNUM_DIGITS x)" "rev (BIGNUM_DIGITS y)" BIGNUM_RADIX]
    by (simp add: bignum_mag_def BIGNUM_LENGTH_def digits_in_def)
  ultimately show ?thesis by (auto simp: bignum_compare_unsigned_def int_comparison_def)
qed

lemma bignum_equal_p_iff:
  assumes "bignum_wf x" "bignum_wf y"
  shows "bignum_equal_p x y \<longleftrightarrow> bignum_val x = bignum_val y"
proof
  assume "bignum_val x = bignum_val y"
  then have "x = y" by (rule bignum_val_inject [OF assms])
  then show "bignum_equal_p x y"
    by (simp add: bignum_equal_p_def bignum_equal_p_unsigned_def bignum_equal_digits_iff)
next
  assume eq: "bignum_equal_p x y"
  show "bignum_val x = bignum_val y"
  proof (cases "BIGNUM_ZERO_P x")
    case True
    with eq assms show ?thesis by (simp add: bignum_equal_p_def bignum_ZERO_P_iff)
  next
    case False
    with eq have "BIGNUM_DIGITS x = BIGNUM_DIGITS y" "BIGNUM_NEGATIVE_P x = BIGNUM_NEGATIVE_P y"
      by (auto simp: bignum_equal_p_def bignum_equal_p_unsigned_def bignum_equal_digits_iff BIGNUM_LENGTH_def split: if_splits)
    then show ?thesis by (simp add: bignum_val_def bignum_mag_def)
  qed
qed

lemma bignum_test_eq: "bignum_wf x \<Longrightarrow> bignum_test x = int_comparison (bignum_val x) 0"
  by (auto simp: bignum_test_def int_comparison_def bignum_ZERO_P_iff bignum_NEGATIVE_P_iff)

lemma bignum_compare_eq:
  assumes "bignum_wf x" "bignum_wf y"
  shows "bignum_compare x y = int_comparison (bignum_val x) (bignum_val y)"
  using assms bignum_mag_nonneg [of x] bignum_mag_nonneg [of y]
  by (auto simp: bignum_compare_def bignum_compare_unsigned_eq int_comparison_def
      bignum_ZERO_P_iff bignum_NEGATIVE_P_iff bignum_abs_val [symmetric])

subsection \<open>Addition and subtraction of magnitudes\<close>

lemma add_digits_Cons:
  "add_digits (x # xs) (y # ys) c =
    (let k = (if x + y + c < BIGNUM_RADIX then 0 else 1 :: int); (rs, rest, c') = add_digits xs ys k in ((x + y + c - BIGNUM_RADIX * k) # rs, rest, c'))"
  by (simp add: Let_def)

lemma add_digits_spec:
  assumes "length ys \<le> length xs" "digits_in BIGNUM_RADIX xs" "digits_in BIGNUM_RADIX ys"
    "c = 0 \<or> c = 1" "add_digits xs ys c = (rs, rest, c')"
  shows "(c' = 0 \<or> c' = 1) \<and> rest = drop (length ys) xs \<and> length rs = length ys \<and> digits_in BIGNUM_RADIX rs
    \<and> rval BIGNUM_RADIX (rs @ rest) + BIGNUM_RADIX ^ length ys * c' = rval BIGNUM_RADIX xs + rval BIGNUM_RADIX ys + c"
  using assms
proof (induction ys arbitrary: xs c rs)
  case (Cons y ys)
  from Cons.prems(1) obtain x xs' where xs: "xs = x # xs'" by (cases xs) auto
  define k where "k = (if x + y + c < BIGNUM_RADIX then 0 else 1 :: int)"
  define d where "d = x + y + c - BIGNUM_RADIX * k"
  obtain rs' where r: "add_digits xs' ys k = (rs', rest, c')" "rs = d # rs'"
    using Cons.prems(5) unfolding xs add_digits_Cons Let_def k_def [symmetric] d_def [symmetric]
    by (cases "add_digits xs' ys k") auto
  have ih: "(c' = 0 \<or> c' = 1) \<and> rest = drop (length ys) xs' \<and> length rs' = length ys \<and> digits_in BIGNUM_RADIX rs'
    \<and> rval BIGNUM_RADIX (rs' @ rest) + BIGNUM_RADIX ^ length ys * c' = rval BIGNUM_RADIX xs' + rval BIGNUM_RADIX ys + k"
    using Cons.prems by (intro Cons.IH [OF _ _ _ _ r(1)]) (auto simp: xs k_def)
  have d: "0 \<le> d" "d < BIGNUM_RADIX" using Cons.prems by (auto simp: xs d_def k_def)
  have "rval BIGNUM_RADIX (d # rs' @ rest) + BIGNUM_RADIX ^ Suc (length ys) * c'
      = (x + y + c) + BIGNUM_RADIX * (rval BIGNUM_RADIX xs' + rval BIGNUM_RADIX ys)"
    by (rule rval_step [where k = k]) (use ih in \<open>auto simp: d_def\<close>)
  with ih d show ?case by (simp add: xs r(2) algebra_simps)
qed auto

lemma add_carry_spec:
  assumes "digits_in BIGNUM_RADIX xs" "add_carry xs = (rs, rest, c)"
  shows "(c = 0 \<or> c = 1) \<and> length rs + length rest = length xs \<and> digits_in BIGNUM_RADIX (rs @ rest)
    \<and> rval BIGNUM_RADIX (rs @ rest) + BIGNUM_RADIX ^ length xs * c = rval BIGNUM_RADIX xs + 1"
  using assms
proof (induction xs arbitrary: rs rest c)
  case (Cons x xs)
  show ?case
  proof (cases "x + 1 < BIGNUM_RADIX")
    case False
    then obtain rs' where r: "add_carry xs = (rs', rest, c)" "rs = (x + 1 - BIGNUM_RADIX) # rs'"
      using Cons.prems by (auto simp: Let_def split: prod.splits)
    note ih = Cons.IH [OF _ r(1)]
    have "rval BIGNUM_RADIX ((x + 1 - BIGNUM_RADIX) # rs' @ rest) + BIGNUM_RADIX ^ Suc (length xs) * c
        = (x + 1) + BIGNUM_RADIX * rval BIGNUM_RADIX xs"
      by (rule rval_step [where k = 1]) (use ih Cons.prems in simp_all)
    with ih Cons.prems False show ?thesis by (simp add: r(2))
  qed (use Cons.prems in auto)
qed auto

lemma sub_digits_Cons:
  "sub_digits (x # xs) (y # ys) b =
    (let k = (if (x - y) - b < 0 then 1 else 0 :: int); (rs, rest, b') = sub_digits xs ys k in (((x - y) - b + BIGNUM_RADIX * k) # rs, rest, b'))"
  by (simp add: Let_def)

lemma sub_digits_spec:
  assumes "length ys \<le> length xs" "digits_in BIGNUM_RADIX xs" "digits_in BIGNUM_RADIX ys"
    "b = 0 \<or> b = 1" "sub_digits xs ys b = (rs, rest, b')"
  shows "(b' = 0 \<or> b' = 1) \<and> rest = drop (length ys) xs \<and> length rs = length ys \<and> digits_in BIGNUM_RADIX rs
    \<and> rval BIGNUM_RADIX (rs @ rest) + BIGNUM_RADIX ^ length ys * (- b') = rval BIGNUM_RADIX xs - rval BIGNUM_RADIX ys - b"
  using assms
proof (induction ys arbitrary: xs b rs)
  case (Cons y ys)
  from Cons.prems(1) obtain x xs' where xs: "xs = x # xs'" by (cases xs) auto
  define k where "k = (if (x - y) - b < 0 then 1 else 0 :: int)"
  define d where "d = (x - y) - b + BIGNUM_RADIX * k"
  obtain rs' where r: "sub_digits xs' ys k = (rs', rest, b')" "rs = d # rs'"
    using Cons.prems(5) unfolding xs sub_digits_Cons Let_def k_def [symmetric] d_def [symmetric]
    by (cases "sub_digits xs' ys k") auto
  have ih: "(b' = 0 \<or> b' = 1) \<and> rest = drop (length ys) xs' \<and> length rs' = length ys \<and> digits_in BIGNUM_RADIX rs'
    \<and> rval BIGNUM_RADIX (rs' @ rest) + BIGNUM_RADIX ^ length ys * (- b') = rval BIGNUM_RADIX xs' - rval BIGNUM_RADIX ys - k"
    using Cons.prems by (intro Cons.IH [OF _ _ _ _ r(1)]) (auto simp: xs k_def)
  have d: "0 \<le> d" "d < BIGNUM_RADIX" using Cons.prems by (auto simp: xs d_def k_def)
  have "rval BIGNUM_RADIX (d # rs' @ rest) + BIGNUM_RADIX ^ Suc (length ys) * (- b')
      = ((x - y) - b) + BIGNUM_RADIX * (rval BIGNUM_RADIX xs' - rval BIGNUM_RADIX ys)"
    by (rule rval_step [where k = "- k"]) (use ih in \<open>auto simp: d_def\<close>)
  with ih d show ?case by (simp add: xs r(2) algebra_simps)
qed auto

lemma sub_borrow_spec:
  assumes "digits_in BIGNUM_RADIX xs" "sub_borrow xs 1 = (rs, rest, b)"
  shows "(b = 0 \<or> b = 1) \<and> length rs + length rest = length xs \<and> digits_in BIGNUM_RADIX (rs @ rest)
    \<and> rval BIGNUM_RADIX (rs @ rest) + BIGNUM_RADIX ^ length xs * (- b) = rval BIGNUM_RADIX xs - 1"
  using assms
proof (induction xs arbitrary: rs rest b)
  case (Cons x xs)
  show ?case
  proof (cases "x - 1 < 0")
    case True
    then obtain rs' where r: "sub_borrow xs 1 = (rs', rest, b)" "rs = (x - 1 + BIGNUM_RADIX) # rs'"
      using Cons.prems by (auto simp: Let_def split: prod.splits)
    note ih = Cons.IH [OF _ r(1)]
    have "rval BIGNUM_RADIX ((x - 1 + BIGNUM_RADIX) # rs' @ rest) + BIGNUM_RADIX ^ Suc (length xs) * (- b)
        = (x - 1) + BIGNUM_RADIX * rval BIGNUM_RADIX xs"
      by (rule rval_step [where k = "- 1"]) (use ih Cons.prems in simp_all)
    with ih Cons.prems True show ?thesis by (simp add: r(2))
  qed (use Cons.prems in auto)
qed auto

text \<open>The two loops of the addition together.\<close>

lemma add_loops_spec:
  assumes "length ys \<le> length xs" "digits_in BIGNUM_RADIX xs" "digits_in BIGNUM_RADIX ys"
    and a: "add_digits xs ys 0 = (low, rest0, c0)"
    and b: "(if c0 \<noteq> 0 then add_carry rest0 else ([], rest0, c0)) = (mid, rest, c)"
  shows "(c = 0 \<or> c = 1) \<and> length (low @ mid @ rest) = length xs \<and> digits_in BIGNUM_RADIX (low @ mid @ rest)
    \<and> rval BIGNUM_RADIX (low @ mid @ rest) + BIGNUM_RADIX ^ length xs * c = rval BIGNUM_RADIX xs + rval BIGNUM_RADIX ys"
proof -
  note A = add_digits_spec [OF assms(1-3) _ a, simplified]
  have r0: "digits_in BIGNUM_RADIX rest0" "length low + length rest0 = length xs"
    using A assms(1,2) by (auto simp: digits_in_def dest: in_set_dropD)
  have B: "(c = 0 \<or> c = 1) \<and> length mid + length rest = length rest0 \<and> digits_in BIGNUM_RADIX (mid @ rest)
     \<and> rval BIGNUM_RADIX (mid @ rest) + BIGNUM_RADIX ^ length rest0 * c = rval BIGNUM_RADIX rest0 + c0"
    using b add_carry_spec [of rest0 mid rest c] r0 A by (auto split: if_splits)
  from A B rval_chain [of BIGNUM_RADIX low rest0 c0 _ "mid @ rest" "length rest0" c] r0 show ?thesis by auto
qed

lemma returns_add_unsigned:
  assumes "bignum_wf x" "bignum_wf y" "\<not> BIGNUM_ZERO_P x" "\<not> BIGNUM_ZERO_P y"
    and len: "max (BIGNUM_LENGTH x) (BIGNUM_LENGTH y) < BIGNUM_LENGTH_MAX"
  shows "returns_bignum (bignum_add_unsigned x y s)
    (if s then - (bignum_mag x + bignum_mag y) else bignum_mag x + bignum_mag y)"
proof -
  obtain X Y where XY: "(if BIGNUM_LENGTH y > BIGNUM_LENGTH x then (y, x) else (x, y)) = (X, Y)" by fastforce
  have wf: "bignum_wf X" "bignum_wf Y" and ne: "BIGNUM_DIGITS X \<noteq> []" and le: "length (BIGNUM_DIGITS Y) \<le> length (BIGNUM_DIGITS X)"
    and n: "length (BIGNUM_DIGITS X) < BIGNUM_LENGTH_MAX" and mag: "bignum_mag X + bignum_mag Y = bignum_mag x + bignum_mag y"
    using assms XY by (auto simp: BIGNUM_ZERO_P_def BIGNUM_LENGTH_def max_def split: if_splits)
  obtain low rest0 c0 where a: "add_digits (BIGNUM_DIGITS X) (BIGNUM_DIGITS Y) 0 = (low, rest0, c0)"
    by (metis prod_cases3)
  obtain mid rest c where b: "(if c0 \<noteq> 0 then add_carry rest0 else ([], rest0, c0)) = (mid, rest, c)"
    by (metis prod_cases3)
  define zs where "zs = low @ mid @ rest"
  note Z = add_loops_spec [OF le wf [THEN bignum_wf_digits_in] a b, folded zs_def bignum_mag_def, unfolded mag]
  have XY2: "BIGNUM_LENGTH X = length (BIGNUM_DIGITS X)" by (simp add: BIGNUM_LENGTH_def)
  have eq: "bignum_add_unsigned x y s = (if c \<noteq> 0 then Some (mk_bignum s (zs @ [1])) else Some (mk_bignum s zs))"
    using n Z ne
    by (simp only: bignum_add_unsigned_def XY prod.case a b bignum_allocate_def bignum_shorten_length_def Let_def XY2)
      (auto simp: zs_def)
  have "digits_wf zs" if "c = 0"
  proof -
    have "BIGNUM_RADIX ^ (length zs - 1) \<le> rval BIGNUM_RADIX zs"
      using that Z wf ne digits_wf_lower [of "BIGNUM_DIGITS X"] bignum_mag_nonneg [of Y] mag
      by (auto simp: bignum_wf_def bignum_mag_def)
    then show ?thesis using Z ne by (intro digits_wf_lowerI) auto
  qed
  moreover have "digits_wf (zs @ [1])" using Z by (simp add: digits_wf_def)
  ultimately show ?thesis
    using eq Z n ne by (auto simp: returns_bignum_def bignum_wf_mk bignum_val_mk rval_append)
qed

lemma sub_loops_spec:
  assumes "length ys \<le> length xs" "digits_in BIGNUM_RADIX xs" "digits_in BIGNUM_RADIX ys"
    and ge: "rval BIGNUM_RADIX ys \<le> rval BIGNUM_RADIX xs"
    and a: "sub_digits xs ys 0 = (low, rest0, b0)"
    and b: "(if b0 \<noteq> 0 then sub_borrow rest0 b0 else ([], rest0, b0)) = (mid, rest, b')"
  shows "b' = 0 \<and> length (low @ mid @ rest) = length xs \<and> digits_in BIGNUM_RADIX (low @ mid @ rest)
    \<and> rval BIGNUM_RADIX (low @ mid @ rest) = rval BIGNUM_RADIX xs - rval BIGNUM_RADIX ys"
proof -
  define zs where "zs = low @ mid @ rest"
  note A = sub_digits_spec [OF assms(1-3) _ a, simplified]
  have r0: "digits_in BIGNUM_RADIX rest0" "length low + length rest0 = length xs"
    using A assms(1,2) by (auto simp: digits_in_def dest: in_set_dropD)
  have B: "(b' = 0 \<or> b' = 1) \<and> length mid + length rest = length rest0 \<and> digits_in BIGNUM_RADIX (mid @ rest)
     \<and> rval BIGNUM_RADIX (mid @ rest) + BIGNUM_RADIX ^ length rest0 * (- b') = rval BIGNUM_RADIX rest0 + (- b0)"
    using b sub_borrow_spec [of rest0 mid rest b'] r0 A by (auto split: if_splits)
  from A B rval_chain [of BIGNUM_RADIX low rest0 "- b0" _ "mid @ rest" "length rest0" "- b'"] r0
  have Z: "length zs = length xs" "digits_in BIGNUM_RADIX zs"
    "rval BIGNUM_RADIX zs - BIGNUM_RADIX ^ length xs * b' = rval BIGNUM_RADIX xs - rval BIGNUM_RADIX ys"
    by (auto simp: zs_def)
  then have "b' \<noteq> 1" using ge rval_less [OF Z(2)] by auto
  with B Z show ?thesis by (auto simp: zs_def)
qed

lemma returns_subtract_ordered:
  assumes wf: "bignum_wf x" "bignum_wf y" and ge: "bignum_mag y \<le> bignum_mag x" and s: "s \<Longrightarrow> \<not> BIGNUM_ZERO_P x"
  shows "returns_bignum (subtract_ordered x y s)
    (if s then bignum_mag y - bignum_mag x else bignum_mag x - bignum_mag y)"
proof -
  have le: "length (BIGNUM_DIGITS y) \<le> length (BIGNUM_DIGITS x)"
    using ge wf by (intro digits_wf_length_le) (simp_all add: bignum_wf_def digits_wf_digits_in bignum_mag_def)
  obtain low rest0 b0 where a: "sub_digits (BIGNUM_DIGITS x) (BIGNUM_DIGITS y) 0 = (low, rest0, b0)"
    by (metis prod_cases3)
  obtain mid rest b' where b: "(if b0 \<noteq> 0 then sub_borrow rest0 b0 else ([], rest0, b0)) = (mid, rest, b')"
    by (metis prod_cases3)
  note Z = sub_loops_spec [OF le wf [THEN bignum_wf_digits_in] ge [unfolded bignum_mag_def] a b]
  have "subtract_ordered x y s = Some (bignum_trim (mk_bignum s (low @ mid @ rest)))"
    using Z wf(1) by (simp add: subtract_ordered_def bignum_allocate_def a b Let_def bignum_wf_def)
  moreover have "low @ mid @ rest \<noteq> []" if s
    using Z s [OF that] by (metis BIGNUM_LENGTH_def BIGNUM_ZERO_P_def length_0_conv)
  ultimately show ?thesis
    using returns_trim [of "low @ mid @ rest" s] Z wf(1) by (auto simp: bignum_wf_def BIGNUM_LENGTH_def bignum_mag_def)
qed

lemma returns_subtract_unsigned:
  assumes wf: "bignum_wf x" "bignum_wf y"
  shows "returns_bignum (bignum_subtract_unsigned x y) (bignum_mag x - bignum_mag y)"
proof -
  have "bignum_mag x \<noteq> 0" if "bignum_mag y < bignum_mag x" using that bignum_mag_nonneg [OF wf(2)] by auto
  moreover have "bignum_mag y \<noteq> 0" if "bignum_mag x < bignum_mag y" using that bignum_mag_nonneg [OF wf(1)] by auto
  moreover have "\<And>b. bignum_mag b \<noteq> 0 \<Longrightarrow> \<not> BIGNUM_ZERO_P b" by (auto simp: BIGNUM_ZERO_P_def BIGNUM_LENGTH_def bignum_mag_def)
  ultimately show ?thesis
    using returns_subtract_ordered [OF wf(2,1), of True] returns_subtract_ordered [OF wf, of False]
    by (auto simp: bignum_subtract_unsigned_def bignum_compare_unsigned_eq wf int_comparison_def returns_bignum_def [of "Some _"])
qed

subsection \<open>The exported operations\<close>

lemma returns_add [val_simps]:
  assumes "bignum_wf x" "bignum_wf y" "max (BIGNUM_LENGTH x) (BIGNUM_LENGTH y) < BIGNUM_LENGTH_MAX"
  shows "returns_bignum (bignum_add x y) (bignum_val x + bignum_val y)"
proof (cases "BIGNUM_ZERO_P x \<or> BIGNUM_ZERO_P y")
  case True
  then have "bignum_val x = 0 \<or> bignum_val y = 0" using assms bignum_ZERO_P_iff by blast
  with True show ?thesis
    using assms returns_self [of x] returns_self [of y] bignum_ZERO_P_iff [OF assms(1)]
    by (auto simp: bignum_add_def)
next
  case False
  then show ?thesis
    using assms returns_add_unsigned [OF assms(1,2) _ _ assms(3), of True]
      returns_add_unsigned [OF assms(1,2) _ _ assms(3), of False]
      returns_subtract_unsigned [OF assms(1,2)] returns_subtract_unsigned [OF assms(2,1)]
    by (simp add: bignum_add_def bignum_val_def [of x] bignum_val_def [of y] minus_diff_commute)
qed

lemma returns_new_sign:
  assumes "bignum_wf b" "\<not> BIGNUM_ZERO_P b"
  shows "returns_bignum (bignum_new_sign b (\<not> BIGNUM_NEGATIVE_P b)) (- bignum_val b)"
  using assms returns_mk [of b "\<not> BIGNUM_NEGATIVE_P b"]
  by (auto simp: bignum_new_sign_eq bignum_val_def BIGNUM_ZERO_P_def BIGNUM_LENGTH_def)

lemma returns_negate [val_simps]: "bignum_wf x \<Longrightarrow> returns_bignum (bignum_negate x) (- bignum_val x)"
  using returns_new_sign [of x] returns_self [of x] bignum_ZERO_P_iff [of x] by (auto simp: bignum_negate_def)

lemma returns_subtract [val_simps]:
  assumes "bignum_wf x" "bignum_wf y" "max (BIGNUM_LENGTH x) (BIGNUM_LENGTH y) < BIGNUM_LENGTH_MAX"
  shows "returns_bignum (bignum_subtract x y) (bignum_val x - bignum_val y)"
proof (cases "BIGNUM_ZERO_P x \<or> BIGNUM_ZERO_P y")
  case True
  then have "bignum_val x = 0 \<or> bignum_val y = 0" using assms bignum_ZERO_P_iff by blast
  with True show ?thesis
    using assms returns_self [of x] returns_self [of y] returns_new_sign [OF assms(2)] bignum_ZERO_P_iff [OF assms(2)] bignum_ZERO_P_iff [OF assms(1)]
    by (auto simp: bignum_subtract_def)
next
  case False
  then show ?thesis
    using assms returns_add_unsigned [OF assms(1,2) _ _ assms(3), of True]
      returns_add_unsigned [OF assms(1,2) _ _ assms(3), of False]
      returns_subtract_unsigned [OF assms(1,2)] returns_subtract_unsigned [OF assms(2,1)]
    by (simp add: bignum_subtract_def bignum_val_def [of x] bignum_val_def [of y])
qed

subsection \<open>Properties\<close>

text \<open>Addition, subtraction and negation of well-formed bignums return a well-formed bignum that
  denotes the exact sum, difference and opposite.\<close>

theorem bignum_addition:
  assumes "bignum_wf x" "bignum_wf y" "max (BIGNUM_LENGTH x) (BIGNUM_LENGTH y) < BIGNUM_LENGTH_MAX"
  shows "returns_bignum (bignum_add x y) (bignum_val x + bignum_val y)
       \<and> returns_bignum (bignum_subtract x y) (bignum_val x - bignum_val y)
       \<and> returns_bignum (bignum_negate x) (- bignum_val x)"
  using assms by (simp add: returns_add returns_subtract returns_negate)

theorem bignum_addition_witness:
  "returns_bignum (bignum_add (mk_bignum False [5, 7]) (mk_bignum True [6, 7])) (- 1)
   \<and> returns_bignum (bignum_subtract (mk_bignum False [5, 7]) (mk_bignum True [6, 7])) (11 + 14 * 2 ^ 62)
   \<and> returns_bignum (bignum_negate (mk_bignum False [5, 7])) (- 5 - 7 * 2 ^ 62)"
  using bignum_addition [of "mk_bignum False [5, 7]" "mk_bignum True [6, 7]"] by (simp add: concrete_bignum)

text \<open>\<open>bignum_compare\<close>, \<open>bignum_test\<close> and \<open>bignum_equal_p\<close> decide the order and the equality of
  the integers that well-formed bignums denote.\<close>

theorem bignum_comparison_correct:
  assumes "bignum_wf x" "bignum_wf y"
  shows "bignum_compare x y = int_comparison (bignum_val x) (bignum_val y)
       \<and> bignum_test x = int_comparison (bignum_val x) 0
       \<and> (bignum_equal_p x y \<longleftrightarrow> bignum_val x = bignum_val y)"
  using assms by (simp add: bignum_compare_eq bignum_test_eq bignum_equal_p_iff)

theorem bignum_comparison_correct_witness:
  "bignum_compare (mk_bignum True [5, 7]) (mk_bignum True [6, 7]) = bignum_comparison_greater
   \<and> \<not> bignum_equal_p (mk_bignum True [5, 7]) (mk_bignum True [6, 7])"
  using bignum_comparison_correct [of "mk_bignum True [5, 7]" "mk_bignum True [6, 7]"]
  by (simp add: concrete_bignum int_comparison_def)

end
