(* ===== verification/Bignum_Mul.thy ===== *)
theory Bignum_Mul
  imports Bignum_Addsub
begin

text \<open>
  Multiplication of bignums (\<open>bignum.c\<close>). A product of two digits does not fit in a
  word, so the inner loops split each digit into two half digits in radix \<open>2 ^ 31\<close>. The
  lemmas show that each step computes digit times digit plus carry exactly, that the
  intermediate values stay within the bounds the source states and within a \<open>long\<close>,
  and that the operations denote the product.
\<close>

subsection \<open>Schoolbook multiplication\<close>

definition mul_product_low :: "int \<Rightarrow> int \<Rightarrow> int \<Rightarrow> int \<Rightarrow> int" where
  "mul_product_low x_digit y_digit r carry = r + HD_LOW x_digit * HD_LOW y_digit + HD_LOW carry"

definition mul_product_high :: "int \<Rightarrow> int \<Rightarrow> int \<Rightarrow> int \<Rightarrow> int" where
  "mul_product_high x_digit y_digit r carry =
     HD_HIGH x_digit * HD_LOW y_digit + HD_LOW x_digit * HD_HIGH y_digit
       + HD_HIGH (mul_product_low x_digit y_digit r carry) + HD_HIGH carry"

definition mul_digit :: "int \<Rightarrow> int \<Rightarrow> int \<Rightarrow> int \<Rightarrow> int" where
  "mul_digit x_digit y_digit r carry =
     HD_CONS (HD_LOW (mul_product_high x_digit y_digit r carry)) (HD_LOW (mul_product_low x_digit y_digit r carry))"

definition mul_carry :: "int \<Rightarrow> int \<Rightarrow> int \<Rightarrow> int \<Rightarrow> int" where
  "mul_carry x_digit y_digit r carry =
     HD_HIGH x_digit * HD_HIGH y_digit + HD_HIGH (mul_product_high x_digit y_digit r carry)"

text \<open>Inner loop: the digits of \<open>y\<close> and the part of the result from \<open>scan_r\<close> on;
  after the loop the carry is added to the next result digit.\<close>

fun mul_inner :: "int \<Rightarrow> int list \<Rightarrow> int list \<Rightarrow> int \<Rightarrow> int list" where
  "mul_inner x_digit (y_digit # ys) (r # rs) carry =
     mul_digit x_digit y_digit r carry # mul_inner x_digit ys rs (mul_carry x_digit y_digit r carry)"
| "mul_inner x_digit [] (r # rs) carry = (r + carry) # rs"
| "mul_inner x_digit ys [] carry = []"

text \<open>Outer loop: each digit of \<open>x\<close> starts one result digit further up.\<close>

fun mul_outer :: "int list \<Rightarrow> int list \<Rightarrow> int list \<Rightarrow> int list" where
  "mul_outer [] ys rs = rs"
| "mul_outer (x_digit # xs) ys rs =
    (case mul_inner x_digit ys rs 0 of [] \<Rightarrow> [] | r # rs' \<Rightarrow> r # mul_outer xs ys rs')"

definition bignum_multiply_unsigned :: "bignum \<Rightarrow> bignum \<Rightarrow> bool \<Rightarrow> bignum option" where
  "bignum_multiply_unsigned x0 y0 negative_p =
    (let (x, y) = (if BIGNUM_LENGTH y0 > BIGNUM_LENGTH x0 then (y0, x0) else (x0, y0))
     in do {
       r \<leftarrow> bignum_allocate_zeroed (BIGNUM_LENGTH x + BIGNUM_LENGTH y) negative_p;
       Some (bignum_trim
         (r \<lparr> BIGNUM_DIGITS := mul_outer (BIGNUM_DIGITS x) (BIGNUM_DIGITS y) (BIGNUM_DIGITS r) \<rparr>)) })"

subsection \<open>Multiplication by a small factor and addition of a digit, in place\<close>

fun scale_up_digits :: "int \<Rightarrow> int list \<Rightarrow> int \<Rightarrow> int list \<times> int" where
  "scale_up_digits factor [] carry = ([], carry)"
| "scale_up_digits factor (two_digits # ds) carry =
    (let product_low = factor * HD_LOW two_digits + HD_LOW carry;
         product_high = factor * HD_HIGH two_digits + HD_HIGH product_low + HD_HIGH carry;
         (rs, c) = scale_up_digits factor ds (HD_HIGH product_high)
     in (HD_CONS (HD_LOW product_high) (HD_LOW product_low) # rs, c))"

definition bignum_destructive_scale_up :: "bignum \<Rightarrow> int \<Rightarrow> bignum option" where
  "bignum_destructive_scale_up bignum factor = do {
     BIGNUM_ASSERT (factor > 1 \<and> factor < BIGNUM_RADIX_ROOT);
     let (ds, carry) = scale_up_digits factor (BIGNUM_DIGITS bignum) 0;
     BIGNUM_ASSERT (carry = 0);
     Some (bignum \<lparr> BIGNUM_DIGITS := ds \<rparr>) }"

text \<open>The second loop has no bound on the scan pointer; running past the last digit is
  undefined behaviour in C, here \<open>None\<close>.\<close>

fun increment_digits :: "int list \<Rightarrow> int list option" where
  "increment_digits [] = None"
| "increment_digits (d # ds) =
    (let digit = d + 1
     in if digit < BIGNUM_RADIX then Some (digit # ds)
        else do { rs \<leftarrow> increment_digits ds; Some ((digit - BIGNUM_RADIX) # rs) })"

definition bignum_destructive_add :: "bignum \<Rightarrow> int \<Rightarrow> bignum option" where
  "bignum_destructive_add bignum n =
    (case BIGNUM_DIGITS bignum of
       [] \<Rightarrow> None
     | d # ds \<Rightarrow>
         (let digit = d + n
          in if digit < BIGNUM_RADIX then Some (bignum \<lparr> BIGNUM_DIGITS := digit # ds \<rparr>)
             else do {
               rs \<leftarrow> increment_digits ds;
               Some (bignum \<lparr> BIGNUM_DIGITS := (digit - BIGNUM_RADIX) # rs \<rparr>) }))"

definition bignum_multiply_unsigned_small_factor :: "bignum \<Rightarrow> int \<Rightarrow> bool \<Rightarrow> bignum option" where
  "bignum_multiply_unsigned_small_factor x y negative_p = do {
     let length_x = BIGNUM_LENGTH x;
     p \<leftarrow> bignum_allocate (length_x + 1) negative_p;
     let p = bignum_destructive_copy x p;
     let p = p \<lparr> BIGNUM_DIGITS := (BIGNUM_DIGITS p)[length_x := 0] \<rparr>;
     p \<leftarrow> bignum_destructive_scale_up p y;
     Some (bignum_trim p) }"

definition bignum_multiply :: "bignum \<Rightarrow> bignum \<Rightarrow> bignum option" where
  "bignum_multiply x y =
    (let x_length = BIGNUM_LENGTH x;
         y_length = BIGNUM_LENGTH y;
         negative_p = (if BIGNUM_NEGATIVE_P x then \<not> BIGNUM_NEGATIVE_P y else BIGNUM_NEGATIVE_P y)
     in if BIGNUM_ZERO_P x then Some x
        else if BIGNUM_ZERO_P y then Some y
        else if x_length = 1 \<and> BIGNUM_REF x 0 = 1 then bignum_maybe_new_sign y negative_p
        else if x_length = 1 \<and> BIGNUM_REF x 0 < BIGNUM_RADIX_ROOT
        then bignum_multiply_unsigned_small_factor y (BIGNUM_REF x 0) negative_p
        else if y_length = 1 \<and> BIGNUM_REF y 0 = 1 then bignum_maybe_new_sign x negative_p
        else if y_length = 1 \<and> BIGNUM_REF y 0 < BIGNUM_RADIX_ROOT
        then bignum_multiply_unsigned_small_factor x (BIGNUM_REF y 0) negative_p
        else bignum_multiply_unsigned x y negative_p)"

subsection \<open>One multiplication step\<close>

lemma mul_digit_carry:
  "mul_digit x y r c + BIGNUM_RADIX * mul_carry x y r c = r + x * y + c"
proof -
  define R where "R = BIGNUM_RADIX_ROOT"
  define pl ph where "pl = mul_product_low x y r c" and "ph = mul_product_high x y r c"
  have s: "d = R * HD_HIGH d + HD_LOW d" for d using HD_split [of d] by (simp add: R_def mult.commute)
  have "mul_digit x y r c = R * HD_LOW ph + HD_LOW pl"
    by (simp add: mul_digit_def HD_CONS_eq R_def pl_def ph_def mult.commute)
  moreover have "mul_carry x y r c = HD_HIGH x * HD_HIGH y + HD_HIGH ph" by (simp add: mul_carry_def ph_def)
  ultimately have "mul_digit x y r c + BIGNUM_RADIX * mul_carry x y r c
      = R * R * (HD_HIGH x * HD_HIGH y) + R * (R * HD_HIGH ph + HD_LOW ph) + HD_LOW pl"
    by (simp add: RADIX_ROOT_square [symmetric] R_def [symmetric] algebra_simps)
  also have "\<dots> = R * R * (HD_HIGH x * HD_HIGH y) + R * ph + HD_LOW pl" using s [of ph] by simp
  also have "R * ph = R * (HD_HIGH x * HD_LOW y + HD_LOW x * HD_HIGH y + HD_HIGH c) + R * HD_HIGH pl"
    by (simp add: ph_def pl_def mul_product_high_def algebra_simps)
  also have "R * R * (HD_HIGH x * HD_HIGH y)
      + (R * (HD_HIGH x * HD_LOW y + HD_LOW x * HD_HIGH y + HD_HIGH c) + R * HD_HIGH pl) + HD_LOW pl
      = R * R * (HD_HIGH x * HD_HIGH y)
      + R * (HD_HIGH x * HD_LOW y + HD_LOW x * HD_HIGH y + HD_HIGH c) + pl"
    using s [of pl] by linarith
  also have "\<dots> = r + (R * HD_HIGH x + HD_LOW x) * (R * HD_HIGH y + HD_LOW y) + (R * HD_HIGH c + HD_LOW c)"
    by (simp add: pl_def mul_product_low_def algebra_simps)
  also have "\<dots> = r + x * y + c" using s by metis
  finally show ?thesis .
qed

lemma mul_digit_range: "0 \<le> mul_digit x y r c" "mul_digit x y r c < BIGNUM_RADIX"
  by (simp_all add: mul_digit_def HD_CONS_range)

lemma mul_carry_range:
  assumes "0 \<le> x" "x < BIGNUM_RADIX" "0 \<le> y" "y < BIGNUM_RADIX" "0 \<le> r" "r < BIGNUM_RADIX"
    "0 \<le> c" "c < BIGNUM_RADIX"
  shows "0 \<le> mul_carry x y r c" "mul_carry x y r c < BIGNUM_RADIX"
  using carry_range [OF mul_digit_carry mul_digit_range [of x y r c] digit_product_less [OF assms]] .

text \<open>The bounds that the comment above \<open>bignum_multiply_unsigned\<close> states.\<close>

lemma mul_product_bounds:
  assumes "0 \<le> x" "x < BIGNUM_RADIX" "0 \<le> y" "y < BIGNUM_RADIX" "0 \<le> r" "r < BIGNUM_RADIX"
    "0 \<le> c" "c < BIGNUM_RADIX"
  defines "R \<equiv> BIGNUM_RADIX_ROOT"
  shows "0 \<le> mul_product_low x y r c" "mul_product_low x y r c \<le> (R * R) + (R * (R - 2)) + (R - 1)"
    and "0 \<le> mul_product_high x y r c" "mul_product_high x y r c \<le> (R * R) + (R * (R - 2)) + (R - 1)"
proof -
  note h = HD_HIGH_range [OF assms(1,2), folded R_def] HD_HIGH_range [OF assms(3,4), folded R_def]
    HD_HIGH_range [OF assms(7,8), folded R_def]
  note l = HD_LOW_range [folded R_def]
  have R2: "R * R = BIGNUM_RADIX" by (simp add: R_def RADIX_ROOT_square)
  have R: "2 < R" by (simp add: R_def)
  have ll: "0 \<le> HD_LOW x * HD_LOW y" "HD_LOW x * HD_LOW y \<le> (R - 1) * (R - 1)"
    using l by (auto intro: digit_product_bound)
  then show pl: "0 \<le> mul_product_low x y r c" "mul_product_low x y r c \<le> (R * R) + (R * (R - 2)) + (R - 1)"
    using assms(5,6) l [of c] by (simp_all add: mul_product_low_def R2 [symmetric] algebra_simps)
  have "HD_HIGH (mul_product_low x y r c) \<le> ((R * R) + (R * (R - 2)) + (R - 1)) div R"
    using pl R unfolding HD_HIGH_eq R_def by (intro zdiv_mono1) auto
  also have "\<dots> = R + (R - 2)"
    using R by (intro int_div_pos_eq [where r = "R - 1"]) (auto simp: algebra_simps)
  finally have hp: "HD_HIGH (mul_product_low x y r c) \<le> R + (R - 2)" .
  have "0 \<le> HD_HIGH (mul_product_low x y r c)" using pl R by (simp add: HD_HIGH_eq R_def pos_imp_zdiv_nonneg_iff)
  moreover have hl: "0 \<le> HD_HIGH x * HD_LOW y" "HD_HIGH x * HD_LOW y \<le> (R - 1) * (R - 1)"
    "0 \<le> HD_LOW x * HD_HIGH y" "HD_LOW x * HD_HIGH y \<le> (R - 1) * (R - 1)"
    using l h by (auto intro: digit_product_bound)
  ultimately show "0 \<le> mul_product_high x y r c" "mul_product_high x y r c \<le> (R * R) + (R * (R - 2)) + (R - 1)"
    using hp h(5,6) by (simp_all add: mul_product_high_def algebra_simps)
qed

lemma mul_products_fit_long:
  assumes "0 \<le> x" "x < BIGNUM_RADIX" "0 \<le> y" "y < BIGNUM_RADIX" "0 \<le> r" "r < BIGNUM_RADIX"
    "0 \<le> c" "c < BIGNUM_RADIX"
  shows "fits_long (mul_product_low x y r c)" "fits_long (mul_product_high x y r c)"
  using mul_product_bounds [OF assms] by (simp_all add: fits_long_def BIGNUM_RADIX_ROOT_eq)

subsection \<open>The loops\<close>

lemma mul_inner_spec:
  assumes "0 \<le> x" "x < BIGNUM_RADIX" "digits_in BIGNUM_RADIX ys" "digits_in BIGNUM_RADIX rs" "0 \<le> c" "c < BIGNUM_RADIX"
    "length ys < length rs" "rs ! length ys = 0"
  shows "digits_in BIGNUM_RADIX (mul_inner x ys rs c) \<and> length (mul_inner x ys rs c) = length rs
    \<and> drop (Suc (length ys)) (mul_inner x ys rs c) = drop (Suc (length ys)) rs
    \<and> rval BIGNUM_RADIX (mul_inner x ys rs c) = rval BIGNUM_RADIX rs + x * rval BIGNUM_RADIX ys + c"
  using assms
proof (induction ys arbitrary: rs c)
  case Nil
  then obtain rs' where "rs = 0 # rs'" by (cases rs) auto
  with Nil show ?case by simp
next
  case (Cons y ys)
  from Cons.prems(7) obtain r rs' where rs: "rs = r # rs'" by (cases rs) auto
  define m where "m = mul_carry x y r c"
  define zs where "zs = mul_inner x ys rs' m"
  have m: "0 \<le> m" "m < BIGNUM_RADIX" using Cons.prems by (auto simp: m_def rs intro!: mul_carry_range)
  have ih: "digits_in BIGNUM_RADIX zs" "length zs = length rs'" "drop (Suc (length ys)) zs = drop (Suc (length ys)) rs'"
    "rval BIGNUM_RADIX zs = rval BIGNUM_RADIX rs' + x * rval BIGNUM_RADIX ys + m"
    using Cons.prems m Cons.IH [of rs' m] by (auto simp: rs zs_def)
  have "rval BIGNUM_RADIX (mul_digit x y r c # zs) + BIGNUM_RADIX ^ Suc 0 * 0
      = (r + x * y + c) + BIGNUM_RADIX * (rval BIGNUM_RADIX rs' + x * rval BIGNUM_RADIX ys)"
    by (rule rval_step [where k = m]) (simp_all add: ih m_def mul_digit_carry)
  then have "rval BIGNUM_RADIX (mul_digit x y r c # zs) = rval BIGNUM_RADIX rs + x * rval BIGNUM_RADIX (y # ys) + c"
    by (simp add: rs algebra_simps)
  then show ?case using ih by (simp add: rs mul_digit_range flip: m_def zs_def)
qed

lemma mul_outer_spec:
  assumes "digits_in BIGNUM_RADIX xs" "digits_in BIGNUM_RADIX ys" "digits_in BIGNUM_RADIX rs"
    "length rs = length xs + length ys" "drop (length ys) rs = replicate (length xs) 0"
  shows "digits_in BIGNUM_RADIX (mul_outer xs ys rs) \<and> length (mul_outer xs ys rs) = length rs
    \<and> rval BIGNUM_RADIX (mul_outer xs ys rs) = rval BIGNUM_RADIX rs + rval BIGNUM_RADIX xs * rval BIGNUM_RADIX ys"
  using assms
proof (induction xs arbitrary: rs)
  case (Cons x xs)
  have z: "rs ! length ys = 0" using Cons.prems(4,5) by (metis add_Suc_right less_add_Suc2 hd_drop_conv_nth
      add.commute length_Cons list.sel(1) replicate_Suc)
  obtain r rs' where mi: "mul_inner x ys rs 0 = r # rs'" and
    I: "digits_in BIGNUM_RADIX (r # rs')" "length (r # rs') = length rs"
      "drop (Suc (length ys)) (r # rs') = drop (Suc (length ys)) rs"
      "rval BIGNUM_RADIX (r # rs') = rval BIGNUM_RADIX rs + x * rval BIGNUM_RADIX ys"
    using mul_inner_spec [of x ys rs 0] z Cons.prems by (cases "mul_inner x ys rs 0") auto
  have "drop (length ys) rs' = replicate (length xs) 0"
    using I(3) Cons.prems(5) by (metis drop_Suc drop_Suc_Cons list.sel(3) replicate_Suc tl_drop length_Cons)
  then have ih: "digits_in BIGNUM_RADIX (mul_outer xs ys rs') \<and> length (mul_outer xs ys rs') = length rs'
    \<and> rval BIGNUM_RADIX (mul_outer xs ys rs') = rval BIGNUM_RADIX rs' + rval BIGNUM_RADIX xs * rval BIGNUM_RADIX ys"
    using Cons.prems I by (intro Cons.IH) auto
  have "rval BIGNUM_RADIX (r # mul_outer xs ys rs')
      = rval BIGNUM_RADIX (r # rs') + BIGNUM_RADIX * (rval BIGNUM_RADIX xs * rval BIGNUM_RADIX ys)"
    using ih by (simp add: algebra_simps)
  then show ?case using I ih by (simp add: mi algebra_simps)
qed simp

lemma returns_multiply_unsigned:
  assumes wf: "bignum_wf x" "bignum_wf y" and len: "BIGNUM_LENGTH x + BIGNUM_LENGTH y \<le> BIGNUM_LENGTH_MAX"
    and nz: "\<not> BIGNUM_ZERO_P x" "\<not> BIGNUM_ZERO_P y"
  shows "returns_bignum (bignum_multiply_unsigned x y s)
    (if s then - (bignum_mag x * bignum_mag y) else bignum_mag x * bignum_mag y)"
proof -
  obtain X Y where XY: "(if BIGNUM_LENGTH y > BIGNUM_LENGTH x then (y, x) else (x, y)) = (X, Y)" by fastforce
  define n where "n = length (BIGNUM_DIGITS X) + length (BIGNUM_DIGITS Y)"
  define zs where "zs = mul_outer (BIGNUM_DIGITS X) (BIGNUM_DIGITS Y) (replicate n 0)"
  have wfXY: "bignum_wf X" "bignum_wf Y" and n: "n \<le> BIGNUM_LENGTH_MAX" "0 < n"
    and mag: "bignum_mag X * bignum_mag Y = bignum_mag x * bignum_mag y"
    using assms XY by (auto simp: n_def BIGNUM_ZERO_P_def BIGNUM_LENGTH_def split: if_splits)
  have "digits_in BIGNUM_RADIX zs \<and> length zs = length (replicate n (0 :: int))
    \<and> rval BIGNUM_RADIX zs = rval BIGNUM_RADIX (replicate n 0) + rval BIGNUM_RADIX (BIGNUM_DIGITS X) * rval BIGNUM_RADIX (BIGNUM_DIGITS Y)"
    unfolding zs_def using wfXY by (intro mul_outer_spec) (simp_all add: bignum_wf_digits_in n_def)
  moreover have "bignum_multiply_unsigned x y s = Some (bignum_trim (mk_bignum s zs))"
    using n unfolding bignum_multiply_unsigned_def XY prod.case
    by (simp add: bignum_allocate_zeroed_def zs_def n_def BIGNUM_LENGTH_def)
  ultimately show ?thesis
    using returns_trim [of zs s] n mag by (auto simp: bignum_mag_def)
qed

subsection \<open>Scaling and adding in place\<close>

lemma scale_up_step:
  fixes f d c :: int
  defines "pl \<equiv> f * HD_LOW d + HD_LOW c"
  defines "ph \<equiv> f * HD_HIGH d + HD_HIGH pl + HD_HIGH c"
  shows "HD_CONS (HD_LOW ph) (HD_LOW pl) + BIGNUM_RADIX * HD_HIGH ph = f * d + c"
proof -
  define R where "R = BIGNUM_RADIX_ROOT"
  have s: "d = R * HD_HIGH d + HD_LOW d" for d using HD_split [of d] by (simp add: R_def mult.commute)
  have "HD_CONS (HD_LOW ph) (HD_LOW pl) + BIGNUM_RADIX * HD_HIGH ph = R * (R * HD_HIGH ph + HD_LOW ph) + HD_LOW pl"
    by (simp add: HD_CONS_eq R_def algebra_simps flip: RADIX_ROOT_square)
  also have "\<dots> = R * ph + HD_LOW pl" using s [of ph] by simp
  also have "\<dots> = R * (f * HD_HIGH d + HD_HIGH c) + (R * HD_HIGH pl + HD_LOW pl)" by (simp add: ph_def algebra_simps)
  also have "R * HD_HIGH pl + HD_LOW pl = pl" using s [of pl] by simp
  also have "R * (f * HD_HIGH d + HD_HIGH c) + pl = f * (R * HD_HIGH d + HD_LOW d) + (R * HD_HIGH c + HD_LOW c)"
    by (simp add: pl_def algebra_simps)
  also have "\<dots> = f * d + c" using s by metis
  finally show ?thesis .
qed

lemma scale_up_digits_spec:
  assumes "0 \<le> f" "f < BIGNUM_RADIX" "digits_in BIGNUM_RADIX ds" "0 \<le> c" "c < BIGNUM_RADIX"
    "scale_up_digits f ds c = (rs, c')"
  shows "digits_in BIGNUM_RADIX rs \<and> length rs = length ds \<and> 0 \<le> c'
    \<and> rval BIGNUM_RADIX rs + BIGNUM_RADIX ^ length ds * c' = f * rval BIGNUM_RADIX ds + c"
  using assms
proof (induction ds arbitrary: c rs)
  case (Cons d ds)
  define pl ph where "pl = f * HD_LOW d + HD_LOW c" and "ph = f * HD_HIGH d + HD_HIGH pl + HD_HIGH c"
  define e k where "e = HD_CONS (HD_LOW ph) (HD_LOW pl)" and "k = HD_HIGH ph"
  obtain rs' where r: "scale_up_digits f ds k = (rs', c')" "rs = e # rs'"
    using Cons.prems(6) by (auto simp: pl_def ph_def e_def k_def Let_def split: prod.splits)
  have e: "0 \<le> e" "e < BIGNUM_RADIX" by (simp_all add: e_def HD_CONS_range)
  have step: "e + BIGNUM_RADIX * k = f * d + c" unfolding e_def k_def ph_def pl_def by (rule scale_up_step)
  have k: "0 \<le> k" "k < BIGNUM_RADIX"
    using carry_range [OF step e] digit_product_less [of f BIGNUM_RADIX d 0 c] Cons.prems by auto
  have ih: "digits_in BIGNUM_RADIX rs' \<and> length rs' = length ds \<and> 0 \<le> c'
    \<and> rval BIGNUM_RADIX rs' + BIGNUM_RADIX ^ length ds * c' = f * rval BIGNUM_RADIX ds + k"
    using Cons.prems k by (intro Cons.IH [OF _ _ _ _ _ r(1)]) auto
  have "rval BIGNUM_RADIX (e # rs') + BIGNUM_RADIX ^ Suc (length ds) * c' = (f * d + c) + BIGNUM_RADIX * (f * rval BIGNUM_RADIX ds)"
    by (rule rval_step [where k = k]) (use ih step in auto)
  with ih e show ?case by (simp add: r(2) algebra_simps)
qed simp

text \<open>Scaling succeeds exactly when the product fits in the digits that are there.\<close>

lemma bignum_destructive_scale_up_eq:
  assumes "1 < f" "f < BIGNUM_RADIX_ROOT" "digits_in BIGNUM_RADIX ds"
    "f * rval BIGNUM_RADIX ds < BIGNUM_RADIX ^ length ds"
  obtains rs where "bignum_destructive_scale_up (mk_bignum s ds) f = Some (mk_bignum s rs)"
    "digits_in BIGNUM_RADIX rs" "length rs = length ds" "rval BIGNUM_RADIX rs = f * rval BIGNUM_RADIX ds"
proof -
  obtain rs c where r: "scale_up_digits f ds 0 = (rs, c)" by fastforce
  have sp: "digits_in BIGNUM_RADIX rs \<and> length rs = length ds \<and> 0 \<le> c
    \<and> rval BIGNUM_RADIX rs + BIGNUM_RADIX ^ length ds * c = f * rval BIGNUM_RADIX ds + 0"
    using assms order.strict_trans [OF assms(2) ROOT_pos(6)] by (intro scale_up_digits_spec [OF _ _ _ _ _ r]) auto
  have "c = 0"
  proof (rule ccontr)
    assume "c \<noteq> 0"
    then have "BIGNUM_RADIX ^ length ds * 1 \<le> BIGNUM_RADIX ^ length ds * c" using sp by (intro mult_left_mono) auto
    moreover have "0 \<le> rval BIGNUM_RADIX rs" using sp by (simp add: rval_nonneg)
    ultimately show False using sp assms(4) by linarith
  qed
  with sp r assms(1,2) show ?thesis by (intro that [of rs]) (simp_all add: bignum_destructive_scale_up_def)
qed

lemma increment_digits_spec:
  assumes "digits_in BIGNUM_RADIX ds" "rval BIGNUM_RADIX ds + 1 < BIGNUM_RADIX ^ length ds"
  shows "\<exists>rs. increment_digits ds = Some rs \<and> digits_in BIGNUM_RADIX rs \<and> length rs = length ds
    \<and> rval BIGNUM_RADIX rs = rval BIGNUM_RADIX ds + 1"
  using assms
proof (induction ds)
  case (Cons d ds)
  show ?case
  proof (cases "d + 1 < BIGNUM_RADIX")
    case False
    then have d: "d = BIGNUM_RADIX - 1" using Cons.prems by simp
    have "BIGNUM_RADIX * (rval BIGNUM_RADIX ds + 1) < BIGNUM_RADIX * BIGNUM_RADIX ^ length ds"
      using Cons.prems by (simp add: d algebra_simps)
    then have "rval BIGNUM_RADIX ds + 1 < BIGNUM_RADIX ^ length ds" by simp
    with Cons obtain rs where "increment_digits ds = Some rs \<and> digits_in BIGNUM_RADIX rs \<and> length rs = length ds
      \<and> rval BIGNUM_RADIX rs = rval BIGNUM_RADIX ds + 1" by auto
    then show ?thesis by (simp add: d algebra_simps)
  qed (use Cons.prems in auto)
qed simp

lemma bignum_destructive_add_eq:
  assumes "digits_in BIGNUM_RADIX ds" "0 \<le> n" "n < BIGNUM_RADIX" "rval BIGNUM_RADIX ds + n < BIGNUM_RADIX ^ length ds" "ds \<noteq> []"
  obtains rs where "bignum_destructive_add (mk_bignum s ds) n = Some (mk_bignum s rs)"
    "digits_in BIGNUM_RADIX rs" "length rs = length ds" "rval BIGNUM_RADIX rs = rval BIGNUM_RADIX ds + n"
proof -
  obtain d ds' where ds: "ds = d # ds'" using assms(5) by (cases ds) auto
  show thesis
  proof (cases "d + n < BIGNUM_RADIX")
    case True
    with assms ds show thesis by (intro that [of "(d + n) # ds'"]) (auto simp: bignum_destructive_add_def)
  next
    case False
    have "BIGNUM_RADIX * (rval BIGNUM_RADIX ds' + 1) < BIGNUM_RADIX * BIGNUM_RADIX ^ length ds'"
      using assms False by (simp add: ds algebra_simps)
    then obtain rs where rs: "increment_digits ds' = Some rs" "digits_in BIGNUM_RADIX rs" "length rs = length ds'"
      "rval BIGNUM_RADIX rs = rval BIGNUM_RADIX ds' + 1"
      using increment_digits_spec [of ds'] assms(1) by (auto simp: ds)
    show thesis
      by (rule that [of "(d + n - BIGNUM_RADIX) # rs"])
        (use rs assms False in \<open>auto simp: ds bignum_destructive_add_def algebra_simps\<close>)
  qed
qed

lemma returns_multiply_small_factor:
  assumes wf: "bignum_wf x" and len: "BIGNUM_LENGTH x < BIGNUM_LENGTH_MAX" and f: "1 < f" "f < BIGNUM_RADIX_ROOT"
  shows "returns_bignum (bignum_multiply_unsigned_small_factor x f s)
    (if s then - (bignum_mag x * f) else bignum_mag x * f)"
proof -
  define ds where "ds = BIGNUM_DIGITS x @ [0]"
  have ds: "digits_in BIGNUM_RADIX ds" "length ds = BIGNUM_LENGTH x + 1" "rval BIGNUM_RADIX ds = bignum_mag x" "ds \<noteq> []"
    using wf by (simp_all add: ds_def bignum_wf_digits_in BIGNUM_LENGTH_def rval_snoc0 bignum_mag_def)
  have "f * bignum_mag x < BIGNUM_RADIX * BIGNUM_RADIX ^ BIGNUM_LENGTH x"
    using f rval_less [OF bignum_wf_digits_in [OF wf]] bignum_mag_nonneg [OF wf] order.strict_trans [OF f(2) ROOT_pos(6)]
    by (intro mult_strict_mono') (auto simp: bignum_mag_def BIGNUM_LENGTH_def)
  then obtain rs where rs: "bignum_destructive_scale_up (mk_bignum s ds) f = Some (mk_bignum s rs)"
    "digits_in BIGNUM_RADIX rs" "length rs = length ds" "rval BIGNUM_RADIX rs = f * rval BIGNUM_RADIX ds"
    using bignum_destructive_scale_up_eq [of f ds s] f ds by auto
  have "drop (length (BIGNUM_DIGITS x)) (replicate (length (BIGNUM_DIGITS x) + 1) (0 :: int)) = [0]"
    by (simp only: drop_replicate) simp
  then have "bignum_multiply_unsigned_small_factor x f s = Some (bignum_trim (mk_bignum s rs))"
    using len rs(1) by (simp add: bignum_multiply_unsigned_small_factor_def bignum_allocate_def ds_def
       bignum_destructive_copy_def Let_def BIGNUM_LENGTH_def)
  moreover have "rs \<noteq> []" using rs(3) ds(4) by auto
  ultimately show ?thesis using returns_trim [of rs s] rs ds len by (auto simp: mult.commute)
qed

subsection \<open>The exported operation\<close>

lemma single_digit:
  assumes "bignum_wf b" "BIGNUM_LENGTH b = 1"
  shows "BIGNUM_DIGITS b = [BIGNUM_REF b 0]" "bignum_mag b = BIGNUM_REF b 0" "0 < BIGNUM_REF b 0" "BIGNUM_REF b 0 < BIGNUM_RADIX"
proof -
  obtain d where "BIGNUM_DIGITS b = [d]" using assms(2) by (auto simp: BIGNUM_LENGTH_def length_Suc_conv)
  then show "BIGNUM_DIGITS b = [BIGNUM_REF b 0]" "bignum_mag b = BIGNUM_REF b 0" "0 < BIGNUM_REF b 0" "BIGNUM_REF b 0 < BIGNUM_RADIX"
    using assms(1) by (auto simp: BIGNUM_REF_def bignum_mag_def bignum_wf_def digits_wf_def)
qed

lemma returns_maybe_new_sign:
  "bignum_wf b \<Longrightarrow> \<not> BIGNUM_ZERO_P b \<Longrightarrow>
   returns_bignum (bignum_maybe_new_sign b s) (if s then - bignum_mag b else bignum_mag b)"
  using returns_mk [of b s] by (auto simp: bignum_maybe_new_sign_eq BIGNUM_ZERO_P_def BIGNUM_LENGTH_def)

lemma returns_multiply [val_simps]:
  assumes wf: "bignum_wf x" "bignum_wf y" and len: "BIGNUM_LENGTH x + BIGNUM_LENGTH y \<le> BIGNUM_LENGTH_MAX"
  shows "returns_bignum (bignum_multiply x y) (bignum_val x * bignum_val y)"
proof (cases "BIGNUM_ZERO_P x \<or> BIGNUM_ZERO_P y")
  case True
  then show ?thesis
    using wf returns_self [of x] returns_self [of y] bignum_ZERO_P_iff [OF wf(1)] bignum_ZERO_P_iff [OF wf(2)]
    by (auto simp: bignum_multiply_def)
next
  case False
  define s where "s = (if BIGNUM_NEGATIVE_P x then \<not> BIGNUM_NEGATIVE_P y else BIGNUM_NEGATIVE_P y)"
  have val: "bignum_val x * bignum_val y = (if s then - (bignum_mag x * bignum_mag y) else bignum_mag x * bignum_mag y)"
    by (simp add: s_def bignum_val_def)
  have nz: "\<not> BIGNUM_ZERO_P x" "\<not> BIGNUM_ZERO_P y" using False by auto
  then have l: "0 < BIGNUM_LENGTH x" "0 < BIGNUM_LENGTH y" by (auto simp: BIGNUM_ZERO_P_def)
  have sx: "BIGNUM_LENGTH x = 1 \<Longrightarrow> bignum_mag x = BIGNUM_REF x 0 \<and> 0 < BIGNUM_REF x 0" using single_digit [OF wf(1)] by simp
  have sy: "BIGNUM_LENGTH y = 1 \<Longrightarrow> bignum_mag y = BIGNUM_REF y 0 \<and> 0 < BIGNUM_REF y 0" using single_digit [OF wf(2)] by simp
  show ?thesis
    unfolding val bignum_multiply_def Let_def s_def [symmetric]
    using nz sx sy returns_maybe_new_sign [OF wf(2) nz(2), of s] returns_maybe_new_sign [OF wf(1) nz(1), of s]
      returns_multiply_small_factor [OF wf(2), of "BIGNUM_REF x 0" s]
      returns_multiply_small_factor [OF wf(1), of "BIGNUM_REF y 0" s] returns_multiply_unsigned [OF wf len nz, of s] l len
    by (auto simp: mult.commute)
qed

subsection \<open>Properties\<close>

text \<open>Multiplication returns a well-formed bignum that denotes the exact product, whichever of
  the special cases and the schoolbook loop it takes.\<close>

theorem bignum_multiplication:
  assumes "bignum_wf x" "bignum_wf y" "BIGNUM_LENGTH x + BIGNUM_LENGTH y \<le> BIGNUM_LENGTH_MAX"
  shows "returns_bignum (bignum_multiply x y) (bignum_val x * bignum_val y)"
  using assms by (rule returns_multiply)

theorem bignum_multiplication_witness:
  "returns_bignum (bignum_multiply (mk_bignum True [5, 7]) (mk_bignum False [0, 3])) (- (15 * 2 ^ 62 + 21 * 2 ^ 124))"
  using bignum_multiplication [of "mk_bignum True [5, 7]" "mk_bignum False [0, 3]"] by (simp add: concrete_bignum)

text \<open>in the inner loop of multiplication the intermediate values \<open>product_low\<close> and
  \<open>product_high\<close> respect the bound that the comment in the code gives, fit in a signed
  64-bit word, and the digit and the carry are those of the exact sum of products.\<close>

theorem bignum_multiply_step_bounds:
  assumes "0 \<le> x" "x < BIGNUM_RADIX" "0 \<le> y" "y < BIGNUM_RADIX" "0 \<le> r" "r < BIGNUM_RADIX" "0 \<le> c" "c < BIGNUM_RADIX"
  defines "R \<equiv> BIGNUM_RADIX_ROOT"
  shows "mul_product_low x y r c \<le> (R * R) + (R * (R - 2)) + (R - 1)
       \<and> mul_product_high x y r c \<le> (R * R) + (R * (R - 2)) + (R - 1)
       \<and> fits_long (mul_product_low x y r c) \<and> fits_long (mul_product_high x y r c)
       \<and> mul_digit x y r c + BIGNUM_RADIX * mul_carry x y r c = r + x * y + c"
  using mul_product_bounds(2,4) [OF assms(1-8)] mul_products_fit_long [OF assms(1-8)] mul_digit_carry
  by (simp add: R_def)

theorem bignum_multiply_step_bounds_witness:
  "mul_digit (2 ^ 62 - 1) (2 ^ 62 - 1) 7 9 + BIGNUM_RADIX * mul_carry (2 ^ 62 - 1) (2 ^ 62 - 1) 7 9
     = 7 + (2 ^ 62 - 1) * (2 ^ 62 - 1) + 9"
  using bignum_multiply_step_bounds [of "2 ^ 62 - 1" "2 ^ 62 - 1" 7 9] by (simp add: BIGNUM_RADIX_eq)

end
