(* ===== verification/Bignum_Div.thy ===== *)
theory Bignum_Div
  imports Bignum_Mul
begin

text \<open>
  Division of bignums (\<open>bignum.c\<close>). Denominators of one digit below \<open>2 ^ 31\<close>
  are divided by half digits, other denominators of one digit by \<open>bignum_digit_divide\<close>,
  a two-digit version of Knuth's Algorithm D in radix \<open>2 ^ 31\<close>, and longer ones by
  Algorithm D in radix \<open>2 ^ 62\<close> after a normalising shift.

  The loops that walk from the most significant digit down are recursive functions that
  treat the tail of the digit list first. The two guess-correcting loops and the
  normalising loop have no syntactic bound; they are partial functions whose value is
  \<open>None\<close> if they do not return, and the lemmas show that they return. An
  \<open>out of band\<close> result of the source, for a zero denominator, is an inner \<open>None\<close>.
\<close>

subsection \<open>Small denominators\<close>

fun scale_down_digits :: "int \<Rightarrow> int list \<Rightarrow> int list \<times> int" where
  "scale_down_digits denominator [] = ([], 0)"
| "scale_down_digits denominator (two_digits # ds) =
    (let (qs, remainder) = scale_down_digits denominator ds;
         num = HD_CONS remainder (HD_HIGH two_digits);
         quotient_high = quot_int num denominator;
         num = HD_CONS (rem_int num denominator) (HD_LOW two_digits)
     in (HD_CONS quotient_high (quot_int num denominator) # qs, rem_int num denominator))"

definition bignum_destructive_scale_down :: "bignum \<Rightarrow> int \<Rightarrow> (bignum \<times> int) option" where
  "bignum_destructive_scale_down bignum denominator = do {
     BIGNUM_ASSERT (denominator > 1 \<and> denominator < BIGNUM_RADIX_ROOT);
     let (qs, remainder) = scale_down_digits denominator (BIGNUM_DIGITS bignum);
     Some (bignum \<lparr> BIGNUM_DIGITS := qs \<rparr>, remainder) }"

definition bignum_divide_unsigned_small_denominator ::
  "bignum \<Rightarrow> int \<Rightarrow> bool \<Rightarrow> bool \<Rightarrow> bool \<Rightarrow> (bignum \<times> bignum option) option" where
  "bignum_divide_unsigned_small_denominator num denom want_remainder q_negative_p r_negative_p = do {
     q \<leftarrow> bignum_new_sign num q_negative_p;
     (q, r) \<leftarrow> bignum_destructive_scale_down q denom;
     let quotient = bignum_trim q;
     if want_remainder
     then do { remainder \<leftarrow> bignum_digit_to_bignum r r_negative_p; Some (quotient, Some remainder) }
     else Some (quotient, None) }"

fun remainder_small_digits :: "int \<Rightarrow> int list \<Rightarrow> int" where
  "remainder_small_digits d [] = 0"
| "remainder_small_digits d (two_digits # ds) =
     rem_int (HD_CONS (rem_int (HD_CONS (remainder_small_digits d ds) (HD_HIGH two_digits)) d) (HD_LOW two_digits)) d"

definition bignum_remainder_unsigned_small_denominator :: "bignum \<Rightarrow> int \<Rightarrow> bool \<Rightarrow> bignum option" where
  "bignum_remainder_unsigned_small_denominator n d negative_p = do {
     BIGNUM_ASSERT (d > 1 \<and> d < BIGNUM_RADIX_ROOT);
     bignum_digit_to_bignum (remainder_small_digits d (BIGNUM_DIGITS n)) negative_p }"

subsection \<open>Dividing two digits by one\<close>

text \<open>\<open>BDDS_MULSUB\<close> and \<open>BDDS_ADD\<close> return the new digit and the carry.\<close>

definition BDDS_MULSUB :: "int \<Rightarrow> int \<Rightarrow> int \<Rightarrow> int \<Rightarrow> int \<times> int" where
  "BDDS_MULSUB guess vn un carry_in =
    (let product = vn * guess + carry_in;
         diff = un - HD_LOW product
     in if diff < 0 then (diff + BIGNUM_RADIX_ROOT, HD_HIGH product + 1)
        else (diff, HD_HIGH product))"

definition BDDS_ADD :: "int \<Rightarrow> int \<Rightarrow> int \<Rightarrow> int \<times> int" where
  "BDDS_ADD vn un carry_in =
    (let sum = vn + un + carry_in
     in if sum < BIGNUM_RADIX_ROOT then (sum, 0) else (sum - BIGNUM_RADIX_ROOT, 1))"

text \<open>The three half digits at \<open>u\<close> are passed and returned as a triple.\<close>

definition bignum_digit_divide_subtract ::
  "int \<Rightarrow> int \<Rightarrow> int \<Rightarrow> int \<times> int \<times> int \<Rightarrow> int \<times> (int \<times> int \<times> int)" where
  "bignum_digit_divide_subtract v1 v2 guess u =
    (let (u0, u1, u2) = u;
         (u2, carry) = BDDS_MULSUB guess v2 u2 0;
         (u1, carry) = BDDS_MULSUB guess v1 u1 carry
     in if carry = 0 then (guess, (u0, u1, u2))
        else let diff = u0 - carry
             in if \<not> diff < 0 then (guess, (diff, u1, u2))
                else
                  let u0 = diff + BIGNUM_RADIX;
                      (u2, carry) = BDDS_ADD v2 u2 0;
                      (u1, carry) = BDDS_ADD v1 u1 carry;
                      u0 = (if carry = 1 then u0 + 1 else u0)
                  in (guess - 1, (u0, u1, u2)))"

partial_function (option) bdd_guess_loop :: "int \<Rightarrow> int \<Rightarrow> int \<Rightarrow> int \<Rightarrow> int option" where
  "bdd_guess_loop v1 v2 guess comparand =
    (if guess * v2 > comparand
     then (if comparand + push_bit BIGNUM_HALF_DIGIT_LENGTH v1 \<ge> BIGNUM_RADIX then Some (guess - 1)
           else bdd_guess_loop v1 v2 (guess - 1) (comparand + push_bit BIGNUM_HALF_DIGIT_LENGTH v1))
     else Some guess)"

definition BDD_STEP :: "int \<Rightarrow> int \<Rightarrow> int \<times> int \<times> int \<Rightarrow> (int \<times> (int \<times> int \<times> int)) option" where
  "BDD_STEP v1 v2 u =
    (let (uj, uj1, uj2) = u;
         (guess, comparand) =
           (if uj \<noteq> v1
            then let uj_uj1 = HD_CONS uj uj1
                 in (quot_int uj_uj1 v1, HD_CONS (rem_int uj_uj1 v1) uj2)
            else (BIGNUM_RADIX_ROOT - 1, HD_CONS (uj1 + v1) uj2))
     in do {
       guess \<leftarrow> bdd_guess_loop v1 v2 guess comparand;
       Some (bignum_digit_divide_subtract v1 v2 guess (uj, uj1, uj2)) })"

text \<open>The result is the remainder and the value stored through \<open>q\<close>.\<close>

definition bignum_digit_divide :: "int \<Rightarrow> int \<Rightarrow> int \<Rightarrow> (int \<times> int) option" where
  "bignum_digit_divide uh ul v =
    (if uh = 0 \<and> ul < v then Some (ul, 0)
     else if uh = 0 \<and> ul = v then Some (0, 1)
     else do {
       let v1 = HD_HIGH v;
       let v2 = HD_LOW v;
       (q1, (u0, u1, u2)) \<leftarrow> BDD_STEP v1 v2 (HD_HIGH uh, HD_LOW uh, HD_HIGH ul);
       (q2, (u1, u2, u3)) \<leftarrow> BDD_STEP v1 v2 (u1, u2, HD_LOW ul);
       Some (HD_CONS u2 u3, HD_CONS q1 q2) })"

subsection \<open>Normalisation\<close>

partial_function (option) normalizing_shift :: "int \<Rightarrow> nat \<Rightarrow> (int \<times> nat) option" where
  "normalizing_shift v1 shift =
    (if v1 < BIGNUM_RADIX div 2 then normalizing_shift (push_bit 1 v1) (shift + 1) else Some (v1, shift))"

fun normalize_digits :: "nat \<Rightarrow> int list \<Rightarrow> int \<Rightarrow> int list \<times> int" where
  "normalize_digits shift_left [] carry = ([], carry)"
| "normalize_digits shift_left (digit # ds) carry =
    (let shift_right = BIGNUM_DIGIT_LENGTH - shift_left;
         mask' = push_bit shift_right 1 - 1;
         (rs, c) = normalize_digits shift_left ds (drop_bit shift_right digit)
     in ((push_bit shift_left (digit AND mask') OR carry) # rs, c))"

definition bignum_destructive_normalization :: "bignum \<Rightarrow> bignum \<Rightarrow> nat \<Rightarrow> bignum option" where
  "bignum_destructive_normalization source target shift_left =
    (let (ds, carry) = normalize_digits shift_left (BIGNUM_DIGITS source) 0
     in if BIGNUM_LENGTH source < BIGNUM_LENGTH target
        then Some (target \<lparr> BIGNUM_DIGITS := ds @ [carry] @ drop (BIGNUM_LENGTH source + 1) (BIGNUM_DIGITS target) \<rparr>)
        else do { BIGNUM_ASSERT (carry = 0); Some (target \<lparr> BIGNUM_DIGITS := ds \<rparr>) })"

fun unnormalize_digits :: "nat \<Rightarrow> int list \<Rightarrow> int list \<times> int" where
  "unnormalize_digits shift_right [] = ([], 0)"
| "unnormalize_digits shift_right (digit # ds) =
    (let shift_left = BIGNUM_DIGIT_LENGTH - shift_right;
         mask' = push_bit shift_right 1 - 1;
         (rs, carry) = unnormalize_digits shift_right ds
     in ((drop_bit shift_right digit OR carry) # rs, push_bit shift_left (digit AND mask')))"

definition bignum_destructive_unnormalization :: "bignum \<Rightarrow> nat \<Rightarrow> bignum option" where
  "bignum_destructive_unnormalization bignum shift_right = do {
     let (ds, carry) = unnormalize_digits shift_right (BIGNUM_DIGITS bignum);
     BIGNUM_ASSERT (carry = 0);
     Some (bignum \<lparr> BIGNUM_DIGITS := ds \<rparr>) }"

subsection \<open>Medium denominators\<close>

fun divide_medium_digits :: "int \<Rightarrow> int list \<Rightarrow> (int list \<times> int) option" where
  "divide_medium_digits denominator [] = Some ([], 0)"
| "divide_medium_digits denominator (d # ds) = do {
     (qs, r) \<leftarrow> divide_medium_digits denominator ds;
     (r, qj) \<leftarrow> bignum_digit_divide r d denominator;
     Some (qj # qs, r) }"

definition bignum_divide_unsigned_medium_denominator ::
  "bignum \<Rightarrow> int \<Rightarrow> bool \<Rightarrow> bool \<Rightarrow> bool \<Rightarrow> bool \<Rightarrow> (bignum option \<times> bignum option) option" where
  "bignum_divide_unsigned_medium_denominator num denom want_quotient want_remainder q_negative_p r_negative_p = do {
     let length_n = BIGNUM_LENGTH num;
     (denom, shift) \<leftarrow> normalizing_shift denom 0;
     q \<leftarrow> (if shift = 0
          then do { q \<leftarrow> bignum_allocate length_n q_negative_p; Some (bignum_destructive_copy num q) }
          else do { q \<leftarrow> bignum_allocate (length_n + 1) q_negative_p; bignum_destructive_normalization num q shift });
     (qs, r) \<leftarrow> divide_medium_digits denom (BIGNUM_DIGITS q);
     let quotient = (if want_quotient then Some (bignum_trim (q \<lparr> BIGNUM_DIGITS := qs \<rparr>)) else None);
     if want_remainder
     then do {
       remainder \<leftarrow> bignum_digit_to_bignum (if shift \<noteq> 0 then drop_bit shift r else r) r_negative_p;
       Some (quotient, Some remainder) }
     else Some (quotient, None) }"

subsection \<open>Large denominators\<close>

fun mulsub_digits :: "int \<Rightarrow> int list \<Rightarrow> int list \<Rightarrow> int \<Rightarrow> int list \<times> int list \<times> int" where
  "mulsub_digits guess (v # vs) (u # us) carry =
    (let gl = HD_LOW guess; gh = HD_HIGH guess;
         vl = HD_LOW v; vh = HD_HIGH v;
         pl = vl * gl + HD_LOW carry;
         ph = vl * gh + vh * gl + HD_HIGH pl + HD_HIGH carry;
         diff = u - HD_CONS (HD_LOW ph) (HD_LOW pl);
         (d, c) = (if diff < 0 then (diff + BIGNUM_RADIX, vh * gh + HD_HIGH ph + 1) else (diff, vh * gh + HD_HIGH ph));
         (rs, rest, c') = mulsub_digits guess vs us c
     in (d # rs, rest, c'))"
| "mulsub_digits guess _ us carry = ([], us, carry)"

text \<open>The window of \<open>u\<close> has one digit more than \<open>v\<close>. The result is the
  quotient digit and the new window.\<close>

definition bignum_divide_subtract :: "int list \<Rightarrow> int \<Rightarrow> int list \<Rightarrow> int \<times> int list" where
  "bignum_divide_subtract v guess u =
    (if guess = 0 then (0, u)
     else
       let (rs, rest, carry) = mulsub_digits guess v u 0
       in if carry = 0 then (guess, rs @ rest)
          else let diff = hd rest - carry
               in if \<not> diff < 0 then (guess, rs @ diff # tl rest)
                  else let top = diff + BIGNUM_RADIX;
                           (ss, _, carry) = add_digits rs v 0;
                           top = (if carry = 1
                                  then (if top + carry < BIGNUM_RADIX then top + carry else top + carry - BIGNUM_RADIX)
                                  else top)
                       in (guess - 1, ss @ top # tl rest))"

text \<open>The product of the guess and the second digit, as a high and a low digit.\<close>

definition guess_product :: "int \<Rightarrow> int \<Rightarrow> int \<times> int" where
  "guess_product v2 guess =
    (let v2l = HD_LOW v2; v2h = HD_HIGH v2;
         gl = HD_LOW guess; gh = HD_HIGH guess;
         pl = v2l * gl;
         ph = v2l * gh + v2h * gl + HD_HIGH pl
     in (v2h * gh + HD_HIGH ph, HD_CONS (HD_LOW ph) (HD_LOW pl)))"

partial_function (option) divide_guess_loop :: "int \<Rightarrow> int \<Rightarrow> int \<Rightarrow> int \<Rightarrow> int \<Rightarrow> int option" where
  "divide_guess_loop v1 v2 guess ch cl =
    (if ch > fst (guess_product v2 guess)
        \<or> ch = fst (guess_product v2 guess) \<and> cl \<ge> snd (guess_product v2 guess)
     then Some guess
     else if ch + v1 \<ge> BIGNUM_RADIX then Some (guess - 1)
     else divide_guess_loop v1 v2 (guess - 1) (ch + v1) cl)"

text \<open>The guess for one quotient digit from the three leading digits of \<open>u\<close> and the two
  leading digits of \<open>v\<close>.\<close>

definition divide_guess :: "int \<Rightarrow> int \<Rightarrow> int \<Rightarrow> int \<Rightarrow> int \<Rightarrow> int option" where
  "divide_guess v1 v2 uj uj1 uj2 = do {
     (cl, ch, guess) \<leftarrow>
       (if uj \<noteq> v1
        then do { (ch, gm) \<leftarrow> bignum_digit_divide uj uj1 v1; Some (uj2, ch, gm) }
        else Some (uj2, uj1 + v1, BIGNUM_RADIX - 1));
     divide_guess_loop v1 v2 guess ch cl }"

text \<open>The loop over the quotient digits; the first argument is the number of digits left, which
  is also the index in \<open>u\<close> where the window for the next quotient digit starts.\<close>

fun divide_normalized_loop :: "nat \<Rightarrow> int list \<Rightarrow> int list \<Rightarrow> (int list \<times> int list) option" where
  "divide_normalized_loop 0 v u = Some ([], u)"
| "divide_normalized_loop (Suc k) v u = do {
     let n = length v;
     guess \<leftarrow> divide_guess (v ! (n - 1)) (v ! (n - 2)) (u ! (k + n)) (u ! (k + n - 1)) (u ! (k + n - 2));
     let (qj, window) = bignum_divide_subtract v guess (take (n + 1) (drop k u));
     (qs, u) \<leftarrow> divide_normalized_loop k v (take k u @ window @ drop (k + n + 1) u);
     Some (qs @ [qj], u) }"

definition bignum_divide_unsigned_normalized :: "bignum \<Rightarrow> bignum \<Rightarrow> (int list \<times> bignum) option" where
  "bignum_divide_unsigned_normalized u v = do {
     (qs, ds) \<leftarrow> divide_normalized_loop (BIGNUM_LENGTH u - BIGNUM_LENGTH v) (BIGNUM_DIGITS v) (BIGNUM_DIGITS u);
     Some (qs, u \<lparr> BIGNUM_DIGITS := ds \<rparr>) }"

definition bignum_divide_unsigned_large_denominator ::
  "bignum \<Rightarrow> bignum \<Rightarrow> bool \<Rightarrow> bool \<Rightarrow> bool \<Rightarrow> bool \<Rightarrow> (bignum option \<times> bignum option) option" where
  "bignum_divide_unsigned_large_denominator num denom want_quotient want_remainder q_negative_p r_negative_p = do {
     let length_n = BIGNUM_LENGTH num + 1;
     let length_d = BIGNUM_LENGTH denom;
     q \<leftarrow> (if want_quotient
          then do { q \<leftarrow> bignum_allocate (length_n - length_d) q_negative_p; Some (Some q) }
          else Some None);
     u \<leftarrow> bignum_allocate length_n r_negative_p;
     BIGNUM_ASSERT (length_d > 1);
     (_, shift) \<leftarrow> normalizing_shift (BIGNUM_REF denom (length_d - 1)) 0;
     (qs, u) \<leftarrow>
       (if shift = 0
        then do {
          let u = bignum_destructive_copy num u;
          let u = u \<lparr> BIGNUM_DIGITS := (BIGNUM_DIGITS u)[length_n - 1 := 0] \<rparr>;
          bignum_divide_unsigned_normalized u denom }
        else do {
          v \<leftarrow> bignum_allocate length_d False;
          u \<leftarrow> bignum_destructive_normalization num u shift;
          v \<leftarrow> bignum_destructive_normalization denom v shift;
          (qs, u) \<leftarrow> bignum_divide_unsigned_normalized u v;
          u \<leftarrow> (if want_remainder then bignum_destructive_unnormalization u shift else Some u);
          Some (qs, u) });
     Some (map_option (\<lambda>q. bignum_trim (q \<lparr> BIGNUM_DIGITS := qs \<rparr>)) q,
           if want_remainder then Some (bignum_trim u) else None) }"

subsection \<open>Exported operations\<close>

text \<open>\<open>bignum_divide\<close> returns 1, and stores nothing, when the denominator is zero; the
  inner option is \<open>None\<close> then.\<close>

definition bignum_divide :: "bignum \<Rightarrow> bignum \<Rightarrow> (bignum \<times> bignum) option option" where
  "bignum_divide num denom =
    (if BIGNUM_ZERO_P denom then Some None
     else if BIGNUM_ZERO_P num then Some (Some (num, num))
     else
       let r_negative_p = BIGNUM_NEGATIVE_P num;
           q_negative_p = (if BIGNUM_NEGATIVE_P denom then \<not> r_negative_p else r_negative_p)
       in case bignum_compare_unsigned num denom of
            bignum_comparison_equal \<Rightarrow> Some (Some (bignum_make_one q_negative_p, bignum_make_zero))
          | bignum_comparison_less \<Rightarrow> Some (Some (bignum_make_zero, num))
          | bignum_comparison_greater \<Rightarrow>
              if BIGNUM_LENGTH denom = 1
              then let digit = BIGNUM_REF denom 0
                   in if digit = 1
                      then do { q \<leftarrow> bignum_maybe_new_sign num q_negative_p; Some (Some (q, bignum_make_zero)) }
                      else if digit < BIGNUM_RADIX_ROOT
                      then do {
                        (q, r) \<leftarrow> bignum_divide_unsigned_small_denominator num digit True q_negative_p r_negative_p;
                        Some (Some (q, the r)) }
                      else do {
                        (q, r) \<leftarrow> bignum_divide_unsigned_medium_denominator num digit True True q_negative_p r_negative_p;
                        Some (Some (the q, the r)) }
              else do {
                (q, r) \<leftarrow> bignum_divide_unsigned_large_denominator num denom True True q_negative_p r_negative_p;
                Some (Some (the q, the r)) })"

definition bignum_quotient :: "bignum \<Rightarrow> bignum \<Rightarrow> bignum option option" where
  "bignum_quotient num denom =
    (if BIGNUM_ZERO_P denom then Some None
     else if BIGNUM_ZERO_P num then Some (Some num)
     else
       let q_negative_p = (if BIGNUM_NEGATIVE_P denom then \<not> BIGNUM_NEGATIVE_P num else BIGNUM_NEGATIVE_P num)
       in case bignum_compare_unsigned num denom of
            bignum_comparison_equal \<Rightarrow> Some (Some (bignum_make_one q_negative_p))
          | bignum_comparison_less \<Rightarrow> Some (Some bignum_make_zero)
          | bignum_comparison_greater \<Rightarrow>
              if BIGNUM_LENGTH denom = 1
              then let digit = BIGNUM_REF denom 0
                   in if digit = 1
                      then do { q \<leftarrow> bignum_maybe_new_sign num q_negative_p; Some (Some q) }
                      else if digit < BIGNUM_RADIX_ROOT
                      then do {
                        (q, _) \<leftarrow> bignum_divide_unsigned_small_denominator num digit False q_negative_p False;
                        Some (Some q) }
                      else do {
                        (q, _) \<leftarrow> bignum_divide_unsigned_medium_denominator num digit True False q_negative_p False;
                        Some q }
              else do {
                (q, _) \<leftarrow> bignum_divide_unsigned_large_denominator num denom True False q_negative_p False;
                Some q })"

definition bignum_remainder :: "bignum \<Rightarrow> bignum \<Rightarrow> bignum option option" where
  "bignum_remainder num denom =
    (if BIGNUM_ZERO_P denom then Some None
     else if BIGNUM_ZERO_P num then Some (Some num)
     else case bignum_compare_unsigned num denom of
            bignum_comparison_equal \<Rightarrow> Some (Some bignum_make_zero)
          | bignum_comparison_less \<Rightarrow> Some (Some num)
          | bignum_comparison_greater \<Rightarrow>
              if BIGNUM_LENGTH denom = 1
              then let digit = BIGNUM_REF denom 0
                   in if digit AND (digit - 1) = 0
                      then (if BIGNUM_LENGTH num = 0 then Some (Some bignum_make_zero)
                            else let unsigned_remainder = (digit - 1) AND BIGNUM_REF num 0
                                 in if unsigned_remainder = 0 then Some (Some bignum_make_zero)
                                    else do {
                                      r \<leftarrow> bignum_digit_to_bignum unsigned_remainder (BIGNUM_NEGATIVE_P num);
                                      Some (Some r) })
                      else if digit < BIGNUM_RADIX_ROOT
                      then do {
                        r \<leftarrow> bignum_remainder_unsigned_small_denominator num digit (BIGNUM_NEGATIVE_P num);
                        Some (Some r) }
                      else do {
                        (_, r) \<leftarrow> bignum_divide_unsigned_medium_denominator num digit False True False (BIGNUM_NEGATIVE_P num);
                        Some r }
              else do {
                (_, r) \<leftarrow> bignum_divide_unsigned_large_denominator num denom False True False (BIGNUM_NEGATIVE_P num);
                Some r })"

subsection \<open>Small denominators: correctness\<close>

text \<open>Dividing a remainder and one digit by way of the two half digits.\<close>

lemma half_digit_division:
  assumes "0 \<le> r" "r < v" "0 \<le> d" "d < BIGNUM_RADIX"
  defines "R \<equiv> BIGNUM_RADIX_ROOT"
  defines "m \<equiv> r * R + HD_HIGH d"
  defines "n \<equiv> (m mod v) * R + HD_LOW d"
  shows "0 \<le> m div v" "m div v < R" "0 \<le> n div v" "n div v < R" "0 \<le> m" "0 \<le> n"
    and "r * BIGNUM_RADIX + d = ((m div v) * R + n div v) * v + n mod v"
proof -
  have v: "0 < v" using assms by simp
  have R: "0 < R" by (simp add: R_def)
  note h = HD_HIGH_range [OF assms(3,4), folded R_def] and l = HD_LOW_range [of d, folded R_def]
  show "0 \<le> m div v" "m div v < R" using div_digit_range [OF assms(1,2) h] by (simp_all add: m_def)
  show "0 \<le> n div v" "n div v < R" using div_digit_range [OF _ _ l, of "m mod v" v] v by (simp_all add: n_def)
  show "0 \<le> m" "0 \<le> n" using assms(1) h l v R by (simp_all add: m_def n_def)
  have "r * BIGNUM_RADIX + d = m * R + HD_LOW d"
    using HD_split [of d] by (simp add: m_def R_def algebra_simps flip: RADIX_ROOT_square)
  also have "\<dots> = (m div v * v + m mod v) * R + HD_LOW d" by (simp only: div_mult_mod_eq)
  also have "\<dots> = (m div v) * R * v + n" unfolding n_def by (simp only: algebra_simps)
  also have "\<dots> = (m div v) * R * v + (n div v * v + n mod v)" by (simp only: div_mult_mod_eq)
  finally show "r * BIGNUM_RADIX + d = ((m div v) * R + n div v) * v + n mod v" by (simp only: algebra_simps)
qed

text \<open>One step of a division loop from the top: prepend a digit to what has been divided.\<close>

lemma division_step:
  fixes B :: int
  assumes "rval B ds = rval B qs * v + r" "r * B + d = q * v + r'"
  shows "rval B (d # ds) = rval B (q # qs) * v + r'"
proof -
  have "rval B (d # ds) = (r * B + d) + B * (rval B qs * v)" by (simp add: assms(1) algebra_simps)
  also have "\<dots> = (q * v + r') + B * (rval B qs * v)" by (simp only: assms(2))
  also have "\<dots> = rval B (q # qs) * v + r'" by (simp add: algebra_simps)
  finally show ?thesis .
qed

lemma scale_down_digits_spec:
  assumes "0 < v" "v < BIGNUM_RADIX_ROOT" "digits_in BIGNUM_RADIX ds" "scale_down_digits v ds = (qs, r)"
  shows "digits_in BIGNUM_RADIX qs \<and> length qs = length ds \<and> 0 \<le> r \<and> r < v
    \<and> rval BIGNUM_RADIX ds = rval BIGNUM_RADIX qs * v + r"
  using assms(3,4)
proof (induction ds arbitrary: qs r)
  case (Cons d ds)
  obtain qs' r' where r': "scale_down_digits v ds = (qs', r')" by fastforce
  have ih: "digits_in BIGNUM_RADIX qs' \<and> length qs' = length ds \<and> 0 \<le> r' \<and> r' < v
    \<and> rval BIGNUM_RADIX ds = rval BIGNUM_RADIX qs' * v + r'"
    using Cons.prems by (intro Cons.IH [OF _ r']) simp
  define m n where "m = r' * BIGNUM_RADIX_ROOT + HD_HIGH d" and "n = (m mod v) * BIGNUM_RADIX_ROOT + HD_LOW d"
  have d: "0 \<le> d" "d < BIGNUM_RADIX" using Cons.prems by auto
  have hd: "0 \<le> m div v" "m div v < BIGNUM_RADIX_ROOT" "0 \<le> n div v" "n div v < BIGNUM_RADIX_ROOT" "0 \<le> m" "0 \<le> n"
    "r' * BIGNUM_RADIX + d = ((m div v) * BIGNUM_RADIX_ROOT + n div v) * v + n mod v"
    using half_digit_division [of r' v d] ih d unfolding m_def n_def by blast+
  have q: "qs = HD_CONS (m div v) (n div v) # qs'" "r = n mod v"
    using Cons.prems(2) assms(1) hd(5,6) HD_HIGH_range [OF d]
    by (simp_all add: r' Let_def HD_CONS_eq quot_rem_nonneg flip: m_def n_def)
  have "rval BIGNUM_RADIX (d # ds) = rval BIGNUM_RADIX (HD_CONS (m div v) (n div v) # qs') * v + n mod v"
    by (rule division_step) (use ih hd in \<open>auto simp: HD_CONS_eq\<close>)
  then show ?case using ih hd HD_CONS_range [of "m div v" "n div v"] assms(1) by (auto simp: q)
qed (use assms(1) in simp)

lemma remainder_small_digits_eq: "remainder_small_digits v ds = snd (scale_down_digits v ds)"
  by (induction ds) (auto simp: Let_def split: prod.splits)

text \<open>What a division routine on magnitudes promises for the quotient it stores.\<close>

lemma returns_trim_quotient:
  assumes "digits_in BIGNUM_RADIX qs" "length qs \<le> BIGNUM_LENGTH_MAX" "s \<Longrightarrow> qs \<noteq> []"
    "bignum_mag x = rval BIGNUM_RADIX qs * v + r" "0 \<le> r" "r < v"
  shows "returns_bignum (Some (bignum_trim (mk_bignum s qs))) (if s then - (bignum_mag x div v) else bignum_mag x div v)"
  using returns_trim [OF assms(1,2), of s] assms(3) div_mod_unique_int(1) [OF assms(4-6)] by (cases s) simp_all

lemma returns_small_denominator:
  assumes wf: "bignum_wf x" "\<not> BIGNUM_ZERO_P x" and v: "1 < v" "v < BIGNUM_RADIX_ROOT"
  obtains q r where "bignum_divide_unsigned_small_denominator x v want qs rs = Some (q, if want then Some r else None)"
    "returns_bignum (Some q) (if qs then - (bignum_mag x div v) else bignum_mag x div v)"
    "returns_bignum (Some r) (if rs then - (bignum_mag x mod v) else bignum_mag x mod v)"
proof -
  obtain ds r where sd: "scale_down_digits v (BIGNUM_DIGITS x) = (ds, r)" by fastforce
  have sp: "digits_in BIGNUM_RADIX ds" "length ds = BIGNUM_LENGTH x" "0 \<le> r" "r < v" "bignum_mag x = rval BIGNUM_RADIX ds * v + r"
    using scale_down_digits_spec [OF _ v(2) bignum_wf_digits_in [OF wf(1)] sd] v by (auto simp: BIGNUM_LENGTH_def bignum_mag_def)
  have q: "returns_bignum (Some (bignum_trim (mk_bignum qs ds))) (if qs then - (bignum_mag x div v) else bignum_mag x div v)"
    using wf sp by (intro returns_trim_quotient) (auto simp: bignum_wf_def BIGNUM_ZERO_P_def)
  have "r < BIGNUM_RADIX" using sp(4) v(2) ROOT_pos(6) by linarith
  then obtain b where b: "bignum_digit_to_bignum r rs = Some b" "returns_bignum (Some b) (if rs then - r else r)"
    using returns_digit_to_bignum [OF sp(3)] by (auto simp: returns_bignum_def)
  moreover have "bignum_mag x mod v = r" by (rule div_mod_unique_int(2) [OF sp(5,3,4)])
  ultimately show thesis
    using q wf v
    by (intro that [of "bignum_trim (mk_bignum qs ds)" b])
      (simp_all only:, simp_all add: bignum_divide_unsigned_small_denominator_def bignum_new_sign_eq bignum_destructive_scale_down_def sd)
qed

lemma returns_remainder_small:
  assumes wf: "bignum_wf x" and v: "1 < v" "v < BIGNUM_RADIX_ROOT"
  shows "returns_bignum (bignum_remainder_unsigned_small_denominator x v s) (if s then - (bignum_mag x mod v) else bignum_mag x mod v)"
proof -
  obtain ds r where sd: "scale_down_digits v (BIGNUM_DIGITS x) = (ds, r)" by fastforce
  have sp: "0 \<le> r" "r < v" "bignum_mag x = rval BIGNUM_RADIX ds * v + r"
    using scale_down_digits_spec [OF _ v(2) bignum_wf_digits_in [OF wf(1)] sd] v by (auto simp: BIGNUM_LENGTH_def bignum_mag_def)
  have "r < BIGNUM_RADIX" using sp(2) v(2) ROOT_pos(6) by linarith
  then show ?thesis
    using returns_digit_to_bignum [OF sp(1), of s] div_mod_unique_int(2) [OF sp(3,1,2)] v
    by (cases s) (simp_all add: bignum_remainder_unsigned_small_denominator_def remainder_small_digits_eq sd)
qed

subsection \<open>The quotient digit of Algorithm D\<close>

text \<open>
  \<open>U\<close> is divided by \<open>V\<close> for one digit in radix \<open>B\<close>. The leading digits of \<open>U\<close> are
  \<open>u0\<close>, \<open>u1\<close>, \<open>u2\<close>, those of \<open>V\<close> are \<open>v1\<close>, \<open>v2\<close>; \<open>P\<close> is the weight of the last of them.
\<close>

lemma knuth_guess_too_large:
  fixes B P :: int
  assumes V: "V = (v1 * B + v2) * P + V'" "0 \<le> V'" and U: "U = ((u0 * B + u1) * B + u2) * P + U'" "U' < P"
    and P: "0 < P" and inv: "g * v1 + r = u0 * B + u1"
    and q: "0 \<le> q" "q \<le> g" "q * V \<le> U" and big: "g * v2 > r * B + u2"
  shows "q < g"
proof (rule ccontr)
  assume "\<not> q < g"
  then have g: "q = g" using q(2) by simp
  have "g * (v1 * B + v2) * P \<le> g * V" using q(1) V(2) by (simp add: V(1) g algebra_simps)
  also have "\<dots> < (((u0 * B + u1) * B + u2) + 1) * P" using q(3) U(2) by (simp add: U(1) g algebra_simps)
  finally have "g * (v1 * B + v2) < ((u0 * B + u1) * B + u2) + 1" using P by (simp only: mult_less_cancel_right_pos)
  moreover have "(u0 * B + u1) * B = g * v1 * B + r * B" unfolding inv [symmetric] by (simp add: algebra_simps)
  moreover have "g * (v1 * B + v2) = g * v1 * B + g * v2" by (simp add: algebra_simps)
  ultimately show False using big by linarith
qed

lemma knuth_guess_exit:
  fixes B P :: int
  assumes V: "V = (v1 * B + v2) * P + V'" "V' < P" and U: "U = ((u0 * B + u1) * B + u2) * P + U'" "0 \<le> U'"
    and inv: "g * v1 + r = u0 * B + u1" and ok: "g * v2 \<le> r * B + u2" and P: "0 < P" and g: "0 < g"
  shows "g * V < U + g * P"
proof -
  have "g * (v1 * B + v2) = (g * v1) * B + g * v2" by (simp add: algebra_simps)
  also have "\<dots> \<le> (g * v1) * B + (r * B + u2)" using ok by simp
  also have "\<dots> = (u0 * B + u1) * B + u2" unfolding inv [symmetric] by (simp add: algebra_simps)
  finally have "g * (v1 * B + v2) * P \<le> ((u0 * B + u1) * B + u2) * P" using P by (intro mult_right_mono) auto
  moreover have "g * V' < g * P" using V(2) g by simp
  moreover have "g * V = g * (v1 * B + v2) * P + g * V'" by (simp add: V(1) algebra_simps)
  ultimately show ?thesis using U by linarith
qed

text \<open>The starting guess, from the leading digit of the denominator alone.\<close>

lemma knuth_guess_initial:
  fixes B P :: int
  assumes V: "V = v1 * W + V'" "0 \<le> V'" and U: "U = (u0 * B + u1) * W + U'" "U' < W"
    and W: "0 < W" and v1: "0 < v1" and q: "0 \<le> q" "q * V \<le> U"
  shows "q \<le> (u0 * B + u1) div v1"
proof -
  have "q * v1 * W \<le> q * V" using q(1) V by (simp add: algebra_simps)
  also have "\<dots> < ((u0 * B + u1) + 1) * W" using q(2) U by (simp add: algebra_simps)
  finally have "q * v1 < (u0 * B + u1) + 1" using W by (simp only: mult_less_cancel_right_pos)
  then have "q * v1 \<le> u0 * B + u1" by simp
  then show ?thesis using v1 by (metis zdiv_mono1 nonzero_mult_div_cancel_right less_numeral_extra(3))
qed

subsection \<open>Dividing two digits by one: correctness\<close>

lemma BDDS_MULSUB_spec:
  assumes "0 \<le> un" "un < BIGNUM_RADIX_ROOT" "BDDS_MULSUB g vn un c = (un', c')"
  shows "0 \<le> un'" "un' < BIGNUM_RADIX_ROOT" "un' - BIGNUM_RADIX_ROOT * c' = un - (vn * g + c)"
proof -
  have s: "vn * g + c = HD_HIGH (vn * g + c) * BIGNUM_RADIX_ROOT + HD_LOW (vn * g + c)" by (rule HD_split)
  show "0 \<le> un'" "un' < BIGNUM_RADIX_ROOT"
    using assms HD_LOW_range [of "vn * g + c"] unfolding BDDS_MULSUB_def Let_def
    by (cases "un - HD_LOW (vn * g + c) < 0"; clarsimp; linarith)+
  show "un' - BIGNUM_RADIX_ROOT * c' = un - (vn * g + c)"
    using assms(3) s by (auto simp: BDDS_MULSUB_def Let_def algebra_simps split: if_splits)
qed

text \<open>With an exact guess the subtraction leaves the remainder and does not add back.\<close>

lemma bignum_digit_divide_subtract_exact:
  fixes u0 u1 u2 v1 v2 :: int
  defines "R \<equiv> BIGNUM_RADIX_ROOT"
  defines "U \<equiv> (u0 * R + u1) * R + u2" and "V \<equiv> v1 * R + v2"
  assumes u: "0 \<le> u1" "u1 < R" "0 \<le> u2" "u2 < R" and V: "V \<le> R * R"
    and g: "g * V \<le> U" "U < (g + 1) * V"
  obtains r1 r2 where "bignum_digit_divide_subtract v1 v2 g (u0, u1, u2) = (g, (0, r1, r2))"
    "0 \<le> r1" "r1 < R" "0 \<le> r2" "r2 < R" "r1 * R + r2 = U - g * V"
proof -
  obtain r2 c1 where m1: "BDDS_MULSUB g v2 u2 0 = (r2, c1)" by fastforce
  obtain r1 c2 where m2: "BDDS_MULSUB g v1 u1 c1 = (r1, c2)" by fastforce
  have a: "0 \<le> r2" "r2 < R" "r2 - R * c1 = u2 - v2 * g"
    using BDDS_MULSUB_spec [OF u(3) _ m1] u(4) unfolding R_def by auto
  have b: "0 \<le> r1" "r1 < R" "r1 - R * c2 = u1 - (v1 * g + c1)"
    using BDDS_MULSUB_spec [OF u(1) _ m2] u(2) unfolding R_def by auto
  have "U - g * V = u0 * R * R + R * (u1 - v1 * g) + (u2 - v2 * g)" by (simp add: U_def V_def algebra_simps)
  also have "\<dots> = u0 * R * R + R * (u1 - (v1 * g + c1)) + r2" using a(3) by (simp add: algebra_simps)
  also have "\<dots> = u0 * R * R + R * (r1 - R * c2) + r2" by (simp only: b(3))
  finally have eq: "(r1 * R + r2) + (R * R) * (u0 - c2) = U - g * V" by (simp add: algebra_simps)
  have low: "0 \<le> r1 * R + r2" "r1 * R + r2 < R * R"
    using HD_CONS_range [of r1 r2] HD_CONS_eq [of r2 r1] a b unfolding R_def RADIX_ROOT_square by auto
  have "U - g * V < R * R" "0 \<le> U - g * V" using g V by (simp_all add: algebra_simps)
  then have c2: "u0 - c2 = 0" using high_part(1) [OF eq low] by simp
  then have "bignum_digit_divide_subtract v1 v2 g (u0, u1, u2) = (g, (0, r1, r2))"
    by (simp add: bignum_digit_divide_subtract_def m1 m2 Let_def)
  then show thesis using a b eq c2 by (intro that [of r1 r2]) simp_all
qed

text \<open>The correcting loop returns the exact quotient digit, because the denominator has only
  the two half digits it looks at.\<close>

lemma bdd_guess_loop_spec:
  fixes u0 u1 u2 v1 v2 :: int
  defines "R \<equiv> BIGNUM_RADIX_ROOT"
  defines "U \<equiv> (u0 * R + u1) * R + u2" and "V \<equiv> v1 * R + v2"
  assumes v: "0 < v1" "0 \<le> v2" "v2 < R" and u2: "0 \<le> u2"
    and g: "q \<le> g" "0 \<le> q" "g < R" "q * V \<le> U" "U < (q + 1) * V" and inv: "g * v1 + r = u0 * R + u1" and r: "0 \<le> r"
  shows "bdd_guess_loop v1 v2 g (r * R + u2) = Some q"
  using g inv r
proof (induction "nat g" arbitrary: g r rule: less_induct)
  case less
  have R: "0 < R" "R * R = BIGNUM_RADIX" by (simp_all add: R_def RADIX_ROOT_square)
  have push: "push_bit BIGNUM_HALF_DIGIT_LENGTH v1 = v1 * R"
    by (simp add: push_bit_eq_mult R_def BIGNUM_RADIX_ROOT_eq BIGNUM_HALF_DIGIT_LENGTH_def BIGNUM_DIGIT_LENGTH_def)
  have exact: "g' = q" if "q \<le> g'" "g' * v1 + r' = u0 * R + u1" "g' * v2 \<le> r' * R + u2" for g' r'
  proof (rule ccontr)
    assume "g' \<noteq> q"
    with that(1) have "(q + 1) * V \<le> g' * V" using v R by (intro mult_right_mono) (auto simp: V_def)
    moreover have "g' * V = (g' * v1) * R + g' * v2" by (simp add: V_def algebra_simps)
    moreover have "(g' * v1 + r') * R = g' * v1 * R + r' * R" by (simp add: algebra_simps)
    ultimately show False using less.prems(5) that(2,3) by (simp add: U_def)
  qed
  show ?case
  proof (cases "g * v2 > r * R + u2")
    case False
    with exact [of g r] less.prems show ?thesis by (subst bdd_guess_loop.simps) simp
  next
    case True
    have "q < g"
      by (rule knuth_guess_too_large [where V = V and ?v1.0 = v1 and B = R and ?v2.0 = v2 and P = 1 and V' = 0 and U = U and ?u0.0 = u0
         and ?u1.0 = u1 and ?u2.0 = u2 and U' = 0 and r = r])
        (use less.prems True in \<open>simp_all add: V_def U_def\<close>)
    then have q: "q \<le> g - 1" by simp
    have inv': "(g - 1) * v1 + (r + v1) = u0 * R + u1" using less.prems by (simp add: algebra_simps)
    have comp: "r * R + u2 + v1 * R = (r + v1) * R + u2" by (simp add: algebra_simps)
    show ?thesis
    proof (cases "r * R + u2 + v1 * R \<ge> BIGNUM_RADIX")
      case ge: True
      have "(g - 1) * v2 \<le> R * R" using less.prems v q by (intro mult_mono) auto
      then have "g - 1 = q" using ge comp R inv' q by (intro exact [of "g - 1" "r + v1"]) auto
      with True ge push show ?thesis by (subst bdd_guess_loop.simps) simp
    next
      case lt: False
      have "bdd_guess_loop v1 v2 (g - 1) ((r + v1) * R + u2) = Some q"
        using less.prems q inv' v by (intro less.hyps) auto
      with True lt [unfolded comp] show ?thesis
        by (subst bdd_guess_loop.simps) (simp only: push comp if_True if_False)
    qed
  qed
qed

lemma div_bounds:
  fixes U V :: int
  assumes "0 < V"
  shows "U div V * V \<le> U" "U < (U div V + 1) * V"
  using assms div_mult_mod_eq [of U V] pos_mod_bound [of V U] pos_mod_sign [of V U]
  unfolding distrib_right by linarith+

lemma BDD_STEP_spec:
  fixes u0 u1 u2 v1 v2 :: int
  defines "R \<equiv> BIGNUM_RADIX_ROOT"
  defines "U \<equiv> (u0 * R + u1) * R + u2" and "V \<equiv> v1 * R + v2"
  assumes u: "0 \<le> u0" "0 \<le> u1" "u1 < R" "0 \<le> u2" "u2 < R" and v: "0 < v1" "v1 < R" "0 \<le> v2" "v2 < R" and UV: "U < R * V"
  obtains r1 r2 where "BDD_STEP v1 v2 (u0, u1, u2) = Some (U div V, (0, r1, r2))"
    "0 \<le> r1" "r1 < R" "0 \<le> r2" "r2 < R" "r1 * R + r2 = U mod V"
proof -
  have R: "0 < R" by (simp add: R_def)
  have V: "0 < V" "V \<le> R * R"
    using v R HD_CONS_range [of v1 v2] HD_CONS_eq [of v2 v1] by (auto simp: V_def R_def RADIX_ROOT_square add_pos_nonneg)
  have U: "0 \<le> U" using u R by (simp add: U_def)
  define q where "q = U div V"
  have q: "0 \<le> q" "q < R" "q * V \<le> U" "U < (q + 1) * V"
    using U V UV div_bounds [OF V(1), of U] by (auto simp: q_def pos_imp_zdiv_nonneg_iff zdiv_less_iff)
  have "u0 * (R * R) < (v1 + 1) * (R * R)"
  proof -
    have "u0 * (R * R) \<le> U" using u R by (simp add: U_def algebra_simps)
    also have "\<dots> < R * V" by (rule UV)
    also have "\<dots> \<le> (v1 + 1) * (R * R)" using v R by (simp add: V_def algebra_simps)
    finally show ?thesis .
  qed
  then have u0: "u0 \<le> v1" using R by (simp add: mult_less_cancel_right_pos)
  define g r where "g = (if u0 \<noteq> v1 then (u0 * R + u1) div v1 else R - 1)"
    and "r = (if u0 \<noteq> v1 then (u0 * R + u1) mod v1 else u1 + v1)"
  have inv: "g * v1 + r = u0 * R + u1" by (simp add: g_def r_def algebra_simps)
  have "q \<le> (u0 * R + u1) div v1"
    by (rule knuth_guess_initial [where W = R and V' = v2 and U' = u2 and V = V and U = U])
      (use q u v R in \<open>simp_all add: U_def V_def\<close>)
  then have g: "q \<le> g" "g < R" using q u0 u v div_digit_range(2) [OF u(1) _ u(2,3), of v1] by (auto simp: g_def)
  have r: "0 \<le> r" using u v by (simp add: r_def)
  have "bdd_guess_loop v1 v2 g (r * R + u2) = Some q"
    unfolding R_def by (rule bdd_guess_loop_spec) (use v u q g inv r in \<open>simp_all add: U_def V_def R_def\<close>)
  then have "BDD_STEP v1 v2 (u0, u1, u2) = Some (bignum_digit_divide_subtract v1 v2 q (u0, u1, u2))"
    using u v R by (simp add: BDD_STEP_def Let_def g_def r_def HD_CONS_eq quot_rem_nonneg flip: R_def split: if_splits)
  moreover obtain r1 r2 where "bignum_digit_divide_subtract v1 v2 q (u0, u1, u2) = (q, (0, r1, r2))"
    "0 \<le> r1" "r1 < R" "0 \<le> r2" "r2 < R" "r1 * R + r2 = U - q * V"
    using bignum_digit_divide_subtract_exact [of u1 u2 v1 v2 q u0] u V q unfolding U_def V_def R_def by blast
  moreover have "U - q * V = U mod V" using minus_div_mult_eq_mod [of U V] by (simp add: q_def)
  ultimately show thesis using that [of r1 r2] by (simp add: q_def)
qed

lemma bignum_digit_divide_spec:
  assumes u: "0 \<le> uh" "uh < v" "0 \<le> ul" "ul < BIGNUM_RADIX" and v: "BIGNUM_RADIX_ROOT \<le> v" "v < BIGNUM_RADIX"
  shows "bignum_digit_divide uh ul v = Some ((uh * BIGNUM_RADIX + ul) mod v, (uh * BIGNUM_RADIX + ul) div v)"
proof -
  define R where "R = BIGNUM_RADIX_ROOT"
  define v1 v2 where "v1 = HD_HIGH v" and "v2 = HD_LOW v"
  have R: "0 < R" by (simp add: R_def)
  have v0: "0 < v" using u by simp
  have vv: "v1 * R + v2 = v" using HD_split [of v] by (simp add: v1_def v2_def R_def)
  have vr: "0 < v1" "v1 < R" "0 \<le> v2" "v2 < R"
    using HD_HIGH_range(2) [of v] v v0 R by (auto simp: v1_def v2_def R_def HD_HIGH_eq pos_imp_zdiv_pos_iff)
  have uhr: "0 \<le> HD_HIGH uh" using u v by (intro HD_HIGH_range) auto
  note ulr = HD_HIGH_range [OF u(3,4), folded R_def]
  define m where "m = uh * R + HD_HIGH ul"
  define n where "n = (m mod v) * R + HD_LOW ul"
  have mm: "(HD_HIGH uh * R + HD_LOW uh) * R + HD_HIGH ul = m" using HD_split [of uh] by (simp add: m_def R_def)
  have hd: "0 \<le> m div v" "m div v < R" "0 \<le> n div v" "n div v < R" "0 \<le> m" "0 \<le> n"
    "uh * BIGNUM_RADIX + ul = ((m div v) * R + n div v) * v + n mod v"
    using half_digit_division [of uh v ul] u unfolding m_def n_def R_def by blast+
  have mv: "m < R * v" using hd(2) v0 by (simp add: zdiv_less_iff)
  have nv: "n < R * v" using hd(4) v0 by (simp add: zdiv_less_iff)
  obtain a1 a2 where s1: "BDD_STEP v1 v2 (HD_HIGH uh, HD_LOW uh, HD_HIGH ul) = Some (m div v, (0, a1, a2))"
    and a: "0 \<le> a1" "a1 < R" "0 \<le> a2" "a2 < R" "a1 * R + a2 = m mod v"
    using BDD_STEP_spec [of "HD_HIGH uh" "HD_LOW uh" "HD_HIGH ul" v1 v2, folded R_def] uhr ulr vr mv
      HD_LOW_range [of uh, folded R_def] unfolding mm vv by blast
  obtain b1 b2 where s2: "BDD_STEP v1 v2 (a1, a2, HD_LOW ul) = Some (n div v, (0, b1, b2))"
    and b: "0 \<le> b1" "b1 < R" "0 \<le> b2" "b2 < R" "b1 * R + b2 = n mod v"
    using BDD_STEP_spec [of a1 a2 "HD_LOW ul" v1 v2, folded R_def] a vr nv
      HD_LOW_range [of ul, folded R_def] unfolding a(5) n_def vv by blast
  have qr: "(uh * BIGNUM_RADIX + ul) div v = (m div v) * R + n div v" "(uh * BIGNUM_RADIX + ul) mod v = n mod v"
    using div_mod_unique_int [OF hd(7)] v0 by simp_all
  consider "uh = 0" "ul < v" | "uh = 0" "ul = v" | "uh = 0 \<longrightarrow> \<not> ul < v \<and> ul \<noteq> v" by auto
  then show ?thesis
  proof cases
    case 3
    then have "bignum_digit_divide uh ul v = Some (HD_CONS b1 b2, HD_CONS (m div v) (n div v))"
      using s1 s2 by (auto simp: bignum_digit_divide_def Let_def simp flip: v1_def v2_def)
    then show ?thesis using b hd(1-4) by (simp add: qr HD_CONS_eq R_def)
  qed (use u v0 in \<open>simp_all add: bignum_digit_divide_def\<close>)
qed

subsection \<open>Large denominators: one quotient digit\<close>

lemma mulsub_digits_Cons:
  "mulsub_digits g (v # vs) (u # us) c =
    (let d = mul_digit v g 0 c; b = (if u - d < 0 then 1 else 0 :: int);
         (rs, rest, c') = mulsub_digits g vs us (mul_carry v g 0 c + b)
     in ((u - d + BIGNUM_RADIX * b) # rs, rest, c'))"
proof -
  have pl: "HD_LOW v * HD_LOW g + HD_LOW c = mul_product_low v g 0 c" by (simp add: mul_product_low_def)
  have ph: "HD_LOW v * HD_HIGH g + HD_HIGH v * HD_LOW g + HD_HIGH (mul_product_low v g 0 c) + HD_HIGH c
      = mul_product_high v g 0 c" by (simp add: mul_product_high_def)
  show ?thesis
    unfolding mulsub_digits.simps Let_def pl ph
    by (simp add: mul_digit_def mul_carry_def add.assoc split: prod.splits)
qed

lemma mulsub_digits_spec:
  assumes "0 \<le> g" "g < BIGNUM_RADIX" "length vs \<le> length us" "digits_in BIGNUM_RADIX vs" "digits_in BIGNUM_RADIX us"
    "0 \<le> c" "c < BIGNUM_RADIX" "mulsub_digits g vs us c = (rs, rest, c')"
  shows "rest = drop (length vs) us \<and> length rs = length vs \<and> digits_in BIGNUM_RADIX rs
    \<and> rval BIGNUM_RADIX rs + BIGNUM_RADIX ^ length vs * (- c') = rval BIGNUM_RADIX (take (length vs) us) - g * rval BIGNUM_RADIX vs - c"
  using assms(3-)
proof (induction vs arbitrary: us c rs)
  case (Cons v vs)
  from Cons.prems(1) obtain u us' where us: "us = u # us'" by (cases us) auto
  define d b where "d = mul_digit v g 0 c" and "b = (if u - d < 0 then 1 else 0 :: int)"
  define e k where "e = u - d + BIGNUM_RADIX * b" and "k = mul_carry v g 0 c + b"
  obtain rs' where r: "mulsub_digits g vs us' k = (rs', rest, c')" "rs = e # rs'"
    using Cons.prems(6) unfolding us mulsub_digits_Cons Let_def d_def [symmetric] b_def [symmetric] e_def [symmetric] k_def [symmetric]
    by (cases "mulsub_digits g vs us' k") auto
  have vg: "d + BIGNUM_RADIX * mul_carry v g 0 c = v * g + c" using mul_digit_carry [of v g 0 c] by (simp add: d_def)
  have step: "e + BIGNUM_RADIX * (- k) = u - v * g - c" using vg by (simp add: e_def k_def algebra_simps)
  have dr: "0 \<le> d" "d < BIGNUM_RADIX" by (simp_all add: d_def mul_digit_range)
  have e: "0 \<le> e" "e < BIGNUM_RADIX" using Cons.prems(3) dr by (auto simp: e_def b_def us)
  have "(BIGNUM_RADIX - 1 - e) + BIGNUM_RADIX * k = (BIGNUM_RADIX - 1 - u) + v * g + c" using step by simp
  moreover have "0 \<le> BIGNUM_RADIX - 1 - e" "BIGNUM_RADIX - 1 - e < BIGNUM_RADIX" using e by auto
  moreover have "0 \<le> (BIGNUM_RADIX - 1 - u) + v * g + c \<and> (BIGNUM_RADIX - 1 - u) + v * g + c < BIGNUM_RADIX * BIGNUM_RADIX"
    using Cons.prems(2-5) assms(1,2) by (intro conjI digit_product_less) (simp_all add: us)
  ultimately have k: "0 \<le> k" "k < BIGNUM_RADIX" using carry_range [of "BIGNUM_RADIX - 1 - e" BIGNUM_RADIX k] by blast+
  have ih: "rest = drop (length vs) us' \<and> length rs' = length vs \<and> digits_in BIGNUM_RADIX rs'
    \<and> rval BIGNUM_RADIX rs' + BIGNUM_RADIX ^ length vs * (- c') = rval BIGNUM_RADIX (take (length vs) us') - g * rval BIGNUM_RADIX vs - k"
    using Cons.prems k by (intro Cons.IH [OF _ _ _ _ _ r(1)]) (auto simp: us)
  have "rval BIGNUM_RADIX (e # rs') + BIGNUM_RADIX ^ Suc (length vs) * (- c')
      = (u - v * g - c) + BIGNUM_RADIX * (rval BIGNUM_RADIX (take (length vs) us') - g * rval BIGNUM_RADIX vs)"
    by (rule rval_step [where k = "- k"]) (use ih step in auto)
  with ih e show ?case by (simp add: us r(2) algebra_simps)
qed simp

text \<open>The subtraction brings the window down to the remainder, whether the guess is exact or
  one too large, and returns the exact quotient digit.\<close>

lemma bignum_divide_subtract_spec:
  fixes us vs :: "int list"
  defines "U \<equiv> rval BIGNUM_RADIX us" and "V \<equiv> rval BIGNUM_RADIX vs"
  defines "q \<equiv> U div V"
  assumes u: "length us = length vs + 1" "digits_in BIGNUM_RADIX us" and v: "digits_in BIGNUM_RADIX vs" "0 < V"
    and g: "0 \<le> g" "g < BIGNUM_RADIX" "g = q \<or> g = q + 1"
  obtains ws where "bignum_divide_subtract vs g us = (q, ws @ [0])" "length ws = length vs" "digits_in BIGNUM_RADIX ws"
    "rval BIGNUM_RADIX ws = U mod V"
proof -
  define n B where "n = length vs" and "B = BIGNUM_RADIX ^ length vs"
  define lo top where "lo = take n us" and "top = us ! n"
  have us: "us = lo @ [top]"
    unfolding lo_def top_def by (subst take_Suc_conv_app_nth [symmetric]) (simp_all add: u(1) n_def)
  have lo: "length lo = n" "digits_in BIGNUM_RADIX lo" and top: "0 \<le> top" "top < BIGNUM_RADIX"
  proof -
    show "length lo = n" using u(1) by (simp add: lo_def n_def)
    show "digits_in BIGNUM_RADIX lo" "0 \<le> top" "top < BIGNUM_RADIX" using u(2) unfolding us by simp_all
  qed
  have U: "U = rval BIGNUM_RADIX lo + B * top" by (simp add: U_def us rval_append lo B_def n_def)
  have Vpos: "0 < V" "V < B" using v rval_less [OF v(1)] by (simp_all add: V_def B_def)
  have md: "U - q * V = U mod V" "0 \<le> U mod V" "U mod V < V" using Vpos by (simp_all add: q_def minus_div_mult_eq_mod)
  have q0: "0 \<le> q" using rval_nonneg [OF u(2)] Vpos by (simp add: q_def U_def pos_imp_zdiv_nonneg_iff)
  show thesis
  proof (cases "g = 0")
    case True
    then have q: "q = 0" using g(3) q0 by auto
    then have "U = U mod V" using md by simp
    then have "top = 0" using high_part(1) [of "rval BIGNUM_RADIX lo" B top U] U md Vpos rval_nonneg [OF lo(2)] rval_less [OF lo(2)] lo(1)
      by (auto simp: B_def n_def)
    then show thesis using True q us lo U \<open>U = U mod V\<close>
      by (intro that [of lo]) (simp_all add: bignum_divide_subtract_def n_def)
  next
    case False
    obtain rs rest c where ms: "mulsub_digits g vs us 0 = (rs, rest, c)" by (metis prod_cases3)
    have rest: "rest = [top]" and rs: "length rs = n" "digits_in BIGNUM_RADIX rs"
      and rsv: "rval BIGNUM_RADIX rs + B * (- c) = rval BIGNUM_RADIX lo - g * V"
      using mulsub_digits_spec [OF g(1,2) _ v(1) u(2) _ _ ms] u(1) us lo by (auto simp: n_def B_def V_def)
    have rsr: "0 \<le> rval BIGNUM_RADIX rs" "rval BIGNUM_RADIX rs < B"
      using rval_nonneg [OF rs(2)] rval_less [OF rs(2)] by (simp_all add: B_def rs n_def)
    have eq: "rval BIGNUM_RADIX rs + B * (top - c) = U - g * V" using rsv by (simp add: U algebra_simps)
    show thesis
    proof (cases "g = q")
      case True
      then have "top - c = 0" using high_part(1) [OF eq rsr] md Vpos by simp
      moreover from this have "rval BIGNUM_RADIX rs = U mod V" using eq True md by simp
      ultimately show thesis using False True rs rest ms
        by (intro that [of rs]) (simp_all add: bignum_divide_subtract_def n_def)
    next
      case gq: False
      then have gV: "U - g * V = U mod V - V" using g(3) md by (auto simp: algebra_simps)
      then have tc: "top - c = - 1" using high_part(2) [OF eq rsr] md Vpos by simp
      obtain ss rest' c' where ad: "add_digits rs vs 0 = (ss, rest', c')" by (metis prod_cases3)
      have ss: "c' = 0 \<or> c' = 1" "rest' = []" "length ss = n" "digits_in BIGNUM_RADIX ss"
        "rval BIGNUM_RADIX ss + B * c' = rval BIGNUM_RADIX rs + V"
        using add_digits_spec [OF _ rs(2) v(1) _ ad] rs(1) by (auto simp: n_def B_def V_def)
      have "rval BIGNUM_RADIX ss + B * (c' - 1) = U mod V" using ss(5) eq gV tc by (simp add: algebra_simps)
      moreover have "0 \<le> rval BIGNUM_RADIX ss" "rval BIGNUM_RADIX ss < B"
        using rval_nonneg [OF ss(4)] rval_less [OF ss(4)] by (simp_all add: B_def ss n_def)
      ultimately have "c' - 1 = 0" "rval BIGNUM_RADIX ss = U mod V" using high_part(1) [of "rval BIGNUM_RADIX ss" B "c' - 1"] md Vpos by auto
      then show thesis using False gq g(3) rest ms ad tc top ss
        by (intro that [of ss]) (auto simp: bignum_divide_subtract_def n_def)
    qed
  qed
qed

lemma guess_product_spec:
  assumes "0 \<le> v2" "v2 < BIGNUM_RADIX" "0 \<le> g" "g < BIGNUM_RADIX"
  shows "fst (guess_product v2 g) * BIGNUM_RADIX + snd (guess_product v2 g) = g * v2"
    and "0 \<le> snd (guess_product v2 g)" "snd (guess_product v2 g) < BIGNUM_RADIX"
proof -
  have z: "HD_LOW 0 = 0" "HD_HIGH 0 = 0" by (simp_all add: HD_LOW_eq HD_HIGH_eq)
  have "guess_product v2 g = (mul_carry v2 g 0 0, mul_digit v2 g 0 0)"
    by (simp add: guess_product_def mul_carry_def mul_digit_def mul_product_high_def mul_product_low_def z Let_def add.commute)
  then show "fst (guess_product v2 g) * BIGNUM_RADIX + snd (guess_product v2 g) = g * v2"
    "0 \<le> snd (guess_product v2 g)" "snd (guess_product v2 g) < BIGNUM_RADIX"
    using mul_digit_carry [of v2 g 0 0] mul_digit_range [of v2 g 0 0] by (simp_all add: algebra_simps)
qed

lemma divide_guess_loop_spec:
  fixes u0 u1 u2 v1 v2 P V' U' :: int
  defines "B \<equiv> BIGNUM_RADIX"
  defines "U \<equiv> ((u0 * B + u1) * B + u2) * P + U'" and "V \<equiv> (v1 * B + v2) * P + V'"
  defines "q \<equiv> U div V"
  assumes v: "0 < v1" "0 \<le> v2" "v2 < B" and u2: "0 \<le> u2" "u2 < B" and P: "0 < P" "0 \<le> V'" "V' < P" "0 \<le> U'" "U' < P"
    and U0: "0 \<le> U" and g: "q \<le> g" "g < B" "g * v1 + r = u0 * B + u1" "0 \<le> r"
  shows "\<exists>g'. divide_guess_loop v1 v2 g r u2 = Some g' \<and> (g' = q \<or> g' = q + 1) \<and> 0 \<le> g' \<and> g' < B"
  using g
proof (induction "nat g" arbitrary: g r rule: less_induct)
  case less
  have B: "0 < B" by (simp add: B_def)
  have "B * P * 1 \<le> B * P * v1" using v B P by (intro mult_left_mono) auto
  moreover have "0 \<le> P * v2" using v(2) P by simp
  ultimately have BP: "B * P \<le> V" using P by (simp add: V_def algebra_simps)
  then have V: "0 < V" using B P by (meson less_le_trans mult_pos_pos)
  have q: "0 \<le> q" "q * V \<le> U" "U < (q + 1) * V" using U0 V div_bounds [OF V, of U] by (simp_all add: q_def pos_imp_zdiv_nonneg_iff)
  have exit: "g' \<le> q + 1" if g': "0 \<le> g'" "g' < B" "g' * v1 + r' = u0 * B + u1" "g' * v2 \<le> r' * B + u2" for g' r'
  proof (cases "g' = 0")
    case False
    then have "g' * V < U + g' * P"
      using g' P by (intro knuth_guess_exit [where V' = V' and U' = U', OF V_def [THEN meta_eq_to_obj_eq] _ U_def [THEN meta_eq_to_obj_eq]]) auto
    moreover have "g' * P \<le> B * P" using g' P by (intro mult_right_mono) auto
    ultimately have "(g' - 1) * V < (q + 1) * V" using BP q by (simp add: algebra_simps)
    then show ?thesis using V by (simp add: mult_less_cancel_right_pos)
  qed (use q in simp)
  have g0: "0 \<le> g" using less.prems q by simp
  have cond: "r > fst (guess_product v2 g) \<or> r = fst (guess_product v2 g) \<and> u2 \<ge> snd (guess_product v2 g)
      \<longleftrightarrow> g * v2 \<le> r * B + u2"
    using guess_product_spec [of v2 g] v less.prems g0 u2 unfolding B_def
    by (intro two_digit_compare) auto
  show ?case
  proof (cases "g * v2 \<le> r * B + u2")
    case True
    then have "g \<le> q + 1" using exit less.prems g0 by blast
    with True cond less.prems g0 show ?thesis by (subst divide_guess_loop.simps) auto
  next
    case False
    then have "g * v2 > r * B + u2" by simp
    then have "q < g"
      by (rule knuth_guess_too_large [OF V_def [THEN meta_eq_to_obj_eq] P(2) U_def [THEN meta_eq_to_obj_eq] P(5,1) less.prems(3) q(1) less.prems(1) q(2)])
    then have q1: "q \<le> g - 1" by simp
    have inv': "(g - 1) * v1 + (r + v1) = u0 * B + u1" using less.prems by (simp add: algebra_simps)
    show ?thesis
    proof (cases "r + v1 \<ge> B")
      case ge: True
      have "(g - 1) * v2 \<le> B * B" using less.prems v q q1 by (intro mult_mono) auto
      also have "\<dots> \<le> (r + v1) * B" using ge B by (intro mult_right_mono) auto
      finally have "g - 1 \<le> q + 1" using less.prems u2 q q1 inv' by (intro exit [of "g - 1" "r + v1"]) auto
      with False cond ge q1 less.prems q show ?thesis by (subst divide_guess_loop.simps) (auto simp: B_def)
    next
      case lt: False
      have "\<exists>g'. divide_guess_loop v1 v2 (g - 1) (r + v1) u2 = Some g' \<and> (g' = q \<or> g' = q + 1) \<and> 0 \<le> g' \<and> g' < B"
        using less.prems q q1 inv' v g0 \<open>q < g\<close> by (intro less.hyps) auto
      with False cond lt show ?thesis by (subst divide_guess_loop.simps) (auto simp: B_def)
    qed
  qed
qed

lemma leading_digit_le:
  fixes B :: int
  assumes "(u0 * B + u1) * W + U' < B * (v1 * W + V')" "V' < W" "0 \<le> u1" "0 \<le> U'" "0 < W" "0 < B"
  shows "u0 \<le> v1"
proof -
  have "u0 * (B * W) \<le> (u0 * B + u1) * W + U'" using assms by (simp add: algebra_simps)
  also have "\<dots> < B * (v1 * W + V')" by (rule assms(1))
  also have "\<dots> \<le> B * (v1 * W + W)" using assms by (intro mult_left_mono) auto
  also have "\<dots> = (v1 + 1) * (B * W)" by (simp add: algebra_simps)
  finally show ?thesis using assms(5,6) by (simp add: mult_less_cancel_right_pos)
qed

lemma divide_guess_spec:
  fixes u0 u1 u2 v1 v2 P V' U' :: int
  defines "B \<equiv> BIGNUM_RADIX"
  defines "U \<equiv> ((u0 * B + u1) * B + u2) * P + U'" and "V \<equiv> (v1 * B + v2) * P + V'"
  assumes v: "BIGNUM_RADIX_ROOT \<le> v1" "v1 < B" "0 \<le> v2" "v2 < B"
    and u: "0 \<le> u0" "0 \<le> u1" "u1 < B" "0 \<le> u2" "u2 < B"
    and P: "0 < P" "0 \<le> V'" "V' < P" "0 \<le> U'" "U' < P" and UV: "U < B * V"
  shows "\<exists>g. divide_guess v1 v2 u0 u1 u2 = Some g \<and> (g = U div V \<or> g = U div V + 1) \<and> 0 \<le> g \<and> g < B"
proof -
  have B: "0 < B" by (simp add: B_def)
  have v1: "0 < v1" using v ROOT_pos(1) by linarith
  have VW: "V = v1 * (B * P) + (v2 * P + V')" and UW: "U = (u0 * B + u1) * (B * P) + (u2 * P + U')"
    by (simp_all add: V_def U_def algebra_simps)
  have "(v2 + 1) * P \<le> B * P" "(u2 + 1) * P \<le> B * P" using v u P by (intro mult_right_mono; simp)+
  then have lt: "v2 * P + V' < B * P" "u2 * P + U' < B * P" using P by (simp_all add: algebra_simps)
  have ge: "0 \<le> v2 * P + V'" "0 \<le> u2 * P + U'" and BP: "0 < B * P" using v u P B by simp_all
  have U0: "0 \<le> U" using u B P by (simp add: UW)
  have V0: "0 < V" using v1 BP ge by (simp add: VW add_pos_nonneg)
  have u0v1: "u0 \<le> v1" by (rule leading_digit_le [OF UV [unfolded VW UW] lt(1) u(2) ge(2) BP B])
  define q where "q = U div V"
  have q: "0 \<le> q" "q < B" "q * V \<le> U"
    using U0 V0 UV div_bounds [OF V0, of U] by (simp_all add: q_def pos_imp_zdiv_nonneg_iff zdiv_less_iff)
  define g r where "g = (if u0 \<noteq> v1 then (u0 * B + u1) div v1 else B - 1)"
    and "r = (if u0 \<noteq> v1 then (u0 * B + u1) mod v1 else u1 + v1)"
  have "q \<le> (u0 * B + u1) div v1"
    by (rule knuth_guess_initial [OF VW ge(1) UW lt(2) BP v1 q(1,3)])
  then have g: "q \<le> g" "g < B" using q u0v1 u v1 div_digit_range(2) [OF u(1) _ u(2,3), of v1] by (auto simp: g_def)
  have r: "0 \<le> r" "g * v1 + r = u0 * B + u1" using u v1 by (simp_all add: r_def g_def algebra_simps)
  have "divide_guess v1 v2 u0 u1 u2 = divide_guess_loop v1 v2 g r u2"
    using u v u0v1 bignum_digit_divide_spec [of u0 v1 u1] by (auto simp: divide_guess_def g_def r_def B_def)
  moreover have "\<exists>g'. divide_guess_loop v1 v2 g r u2 = Some g' \<and> (g' = U div V \<or> g' = U div V + 1) \<and> 0 \<le> g' \<and> g' < B"
    unfolding U_def V_def B_def
    by (rule divide_guess_loop_spec) (use v1 v u P U0 g r in \<open>simp_all add: q_def U_def V_def B_def\<close>)
  ultimately show ?thesis by simp
qed

text \<open>One quotient digit of the normalised division.\<close>

lemma divide_digit_spec:
  fixes w v :: "int list"
  defines "n \<equiv> length v" and "W \<equiv> rval BIGNUM_RADIX w" and "V \<equiv> rval BIGNUM_RADIX v"
  assumes n: "2 \<le> n" and w: "length w = n + 1" "digits_in BIGNUM_RADIX w" and v: "digits_in BIGNUM_RADIX v" "BIGNUM_RADIX_ROOT \<le> v ! (n - 1)"
    and WV: "W < BIGNUM_RADIX * V"
  shows "\<exists>g ws. divide_guess (v ! (n - 1)) (v ! (n - 2)) (w ! n) (w ! (n - 1)) (w ! (n - 2)) = Some g
     \<and> bignum_divide_subtract v g w = (W div V, ws @ [0]) \<and> length ws = n \<and> digits_in BIGNUM_RADIX ws
     \<and> rval BIGNUM_RADIX ws = W mod V"
proof -
  obtain m where m: "n = m + 2" using n by (metis le_Suc_ex add.commute)
  define P where "P = BIGNUM_RADIX ^ m"
  have P: "0 < P" by (simp add: P_def)
  have "W = rval BIGNUM_RADIX (take m w) + P * w ! m + P * BIGNUM_RADIX * w ! (m + 1) + P * BIGNUM_RADIX * BIGNUM_RADIX * w ! (m + 2)"
    using rval_top_split [of w "m + 2" BIGNUM_RADIX] rval_top_split [of "take (m + 2) w" "m + 1" BIGNUM_RADIX]
      rval_top_split [of "take (m + 1) w" "m" BIGNUM_RADIX] w m by (simp add: W_def P_def)
  then have W: "W = ((w ! n * BIGNUM_RADIX + w ! (n - 1)) * BIGNUM_RADIX + w ! (n - 2)) * P + rval BIGNUM_RADIX (take m w)"
    by (simp add: m algebra_simps)
  have "V = rval BIGNUM_RADIX (take m v) + P * v ! m + P * BIGNUM_RADIX * v ! (m + 1)"
    using rval_top_split [of v "m + 1" BIGNUM_RADIX] rval_top_split [of "take (m + 1) v" "m" BIGNUM_RADIX] m
    by (simp add: V_def P_def n_def)
  then have V: "V = (v ! (n - 1) * BIGNUM_RADIX + v ! (n - 2)) * P + rval BIGNUM_RADIX (take m v)"
    by (simp add: m algebra_simps)
  have tails: "0 \<le> rval BIGNUM_RADIX (take m w)" "rval BIGNUM_RADIX (take m w) < P"
    "0 \<le> rval BIGNUM_RADIX (take m v)" "rval BIGNUM_RADIX (take m v) < P"
    using rval_nonneg [OF digits_in_take_drop(1) [OF w(2), of m]] rval_less [OF digits_in_take_drop(1) [OF w(2), of m]]
      rval_nonneg [OF digits_in_take_drop(1) [OF v(1), of m]] rval_less [OF digits_in_take_drop(1) [OF v(1), of m]] w m n_def
    by (simp_all add: P_def)
  have dw: "0 \<le> w ! i \<and> w ! i < BIGNUM_RADIX" if "i \<le> n" for i using digits_in_nth [OF w(2)] w that by simp
  have dv: "0 \<le> v ! i \<and> v ! i < BIGNUM_RADIX" if "i < n" for i using digits_in_nth [OF v(1)] that by (simp add: n_def)
  obtain g where g: "divide_guess (v ! (n - 1)) (v ! (n - 2)) (w ! n) (w ! (n - 1)) (w ! (n - 2)) = Some g"
    "g = W div V \<or> g = W div V + 1" "0 \<le> g" "g < BIGNUM_RADIX"
    using divide_guess_spec [of "v ! (n - 1)" "v ! (n - 2)" "w ! n" "w ! (n - 1)" "w ! (n - 2)" P "rval BIGNUM_RADIX (take m v)"
        "rval BIGNUM_RADIX (take m w)", folded W V] v(2) n P tails WV dw [of n] dw [of "n - 1"] dw [of "n - 2"] dv [of "n - 1"] dv [of "n - 2"]
    by auto
  have "0 < v ! (n - 1)" using v(2) ROOT_pos(1) by linarith
  then have "0 < V" using V tails P dv [of "n - 2"] n RADIX_pos(1)
    by (auto intro!: add_pos_nonneg mult_pos_pos)
  then obtain ws where "bignum_divide_subtract v g w = (W div V, ws @ [0])" "length ws = n" "digits_in BIGNUM_RADIX ws"
    "rval BIGNUM_RADIX ws = W mod V"
    using bignum_divide_subtract_spec [of w v g] w v g unfolding W_def V_def n_def by blast
  with g show ?thesis by blast
qed

subsection \<open>Large denominators: the quotient loop\<close>

lemma divide_normalized_loop_spec:
  fixes v :: "int list"
  defines "n \<equiv> length v" and "V \<equiv> rval BIGNUM_RADIX v"
  assumes n: "2 \<le> n" and v: "digits_in BIGNUM_RADIX v" "BIGNUM_RADIX_ROOT \<le> v ! (n - 1)"
    and u: "digits_in BIGNUM_RADIX u" "length u = k + n + z" "drop (k + n) u = replicate z 0" "rval BIGNUM_RADIX (drop k u) < V"
  shows "\<exists>qs u'. divide_normalized_loop k v u = Some (qs, u') \<and> length qs = k \<and> digits_in BIGNUM_RADIX qs
    \<and> length u' = length u \<and> digits_in BIGNUM_RADIX u'
    \<and> rval BIGNUM_RADIX u = rval BIGNUM_RADIX qs * V + rval BIGNUM_RADIX u' \<and> rval BIGNUM_RADIX u' < V"
  using u
proof (induction k arbitrary: u z)
  case (Suc k)
  define w where "w = take (n + 1) (drop k u)"
  have dk: "drop k u = w @ replicate z 0"
  proof -
    have "drop (n + 1) (drop k u) = replicate z 0" using Suc.prems(3) by (simp add: add.commute)
    then show ?thesis unfolding w_def by (metis append_take_drop_id)
  qed
  have w: "length w = n + 1" "digits_in BIGNUM_RADIX w"
    using Suc.prems(1,2) digits_in_take_drop by (simp_all add: w_def)
  have dk': "drop k u = u ! k # drop (Suc k) u" using Suc.prems(2) by (simp add: Cons_nth_drop_Suc)
  have uk: "0 \<le> u ! k" "u ! k < BIGNUM_RADIX" using digits_in_nth [OF Suc.prems(1), of k] Suc.prems(2) by simp_all
  have W: "rval BIGNUM_RADIX w = rval BIGNUM_RADIX (drop k u)" by (simp add: dk rval_append)
  then have "rval BIGNUM_RADIX w = u ! k + BIGNUM_RADIX * rval BIGNUM_RADIX (drop (Suc k) u)" by (simp add: dk')
  also have "\<dots> < BIGNUM_RADIX * V"
  proof -
    have "BIGNUM_RADIX * (rval BIGNUM_RADIX (drop (Suc k) u) + 1) \<le> BIGNUM_RADIX * V"
      using Suc.prems(4) by (intro mult_left_mono) auto
    then show ?thesis using uk by (simp add: algebra_simps)
  qed
  finally have WV: "rval BIGNUM_RADIX w < BIGNUM_RADIX * V" .
  obtain g ws where g: "divide_guess (v ! (n - 1)) (v ! (n - 2)) (w ! n) (w ! (n - 1)) (w ! (n - 2)) = Some g"
    and s: "bignum_divide_subtract v g w = (rval BIGNUM_RADIX w div V, ws @ [0])"
    and ws: "length ws = n" "digits_in BIGNUM_RADIX ws" "rval BIGNUM_RADIX ws = rval BIGNUM_RADIX w mod V"
    using divide_digit_spec [of v w] n v w WV unfolding n_def V_def by blast
  have nth: "w ! i = u ! (k + i)" if "i \<le> n" for i using that Suc.prems(2) by (simp add: w_def)
  have g': "divide_guess (v ! (n - 1)) (v ! (n - 2)) (u ! (k + n)) (u ! (k + n - 1)) (u ! (k + n - 2)) = Some g"
    using g nth [of n] nth [of "n - 1"] nth [of "n - 2"] n by simp
  define q where "q = rval BIGNUM_RADIX w div V"
  have V: "0 < V" using WV rval_nonneg [OF w(2)] by (metis RADIX_pos(3) linorder_not_less mult_nonneg_nonpos order_trans)
  have q: "0 \<le> q" "q < BIGNUM_RADIX" "rval BIGNUM_RADIX w = q * V + rval BIGNUM_RADIX ws"
    using WV V rval_nonneg [OF w(2)] by (simp_all add: q_def ws pos_imp_zdiv_nonneg_iff zdiv_less_iff)
  define u1 where "u1 = take k u @ (ws @ [0]) @ drop (k + n + 1) u"
  have dz: "drop (k + n + 1) u = replicate z 0" using Suc.prems(3) by simp
  have u1: "digits_in BIGNUM_RADIX u1" "length u1 = k + n + Suc z" "drop (k + n) u1 = replicate (Suc z) 0"
      "drop k u1 = ws @ replicate (Suc z) 0" "length u1 = length u"
    using Suc.prems ws digits_in_take_drop [OF Suc.prems(1)] by (simp_all add: u1_def dz)
  have "rval BIGNUM_RADIX (drop k u1) < V" using ws V by (simp add: u1(4) rval_append)
  then obtain qs u' where ih: "divide_normalized_loop k v u1 = Some (qs, u')" "length qs = k" "digits_in BIGNUM_RADIX qs"
    "length u' = length u1" "digits_in BIGNUM_RADIX u'"
    "rval BIGNUM_RADIX u1 = rval BIGNUM_RADIX qs * V + rval BIGNUM_RADIX u'" "rval BIGNUM_RADIX u' < V"
    using Suc.IH [OF u1(1,2,3)] by blast
  have "rval BIGNUM_RADIX u = rval BIGNUM_RADIX (take k u) + BIGNUM_RADIX ^ k * rval BIGNUM_RADIX w"
    using rval_append [of BIGNUM_RADIX "take k u" "drop k u"] Suc.prems(2) W by simp
  moreover have "rval BIGNUM_RADIX u1 = rval BIGNUM_RADIX (take k u) + BIGNUM_RADIX ^ k * rval BIGNUM_RADIX ws"
    unfolding u1_def dz using Suc.prems(2) by (simp add: rval_append)
  ultimately have "rval BIGNUM_RADIX u = rval BIGNUM_RADIX u1 + BIGNUM_RADIX ^ k * q * V" by (simp add: q(3) algebra_simps)
  then have "rval BIGNUM_RADIX u = rval BIGNUM_RADIX (qs @ [q]) * V + rval BIGNUM_RADIX u'"
    by (simp add: ih rval_append algebra_simps)
  moreover have "divide_normalized_loop (Suc k) v u = Some (qs @ [q], u')"
    using g' s ih(1) by (simp add: Let_def n_def w_def u1_def q_def)
  ultimately show ?case using ih q u1(5) by (intro exI [of _ "qs @ [q]"] exI [of _ u']) simp
qed simp

subsection \<open>Normalisation: correctness\<close>

lemma normalizing_shift_spec:
  assumes "0 < v" "v < BIGNUM_RADIX"
  shows "\<exists>i \<le> 61. normalizing_shift v s = Some (v * 2 ^ i, s + i) \<and> BIGNUM_RADIX div 2 \<le> v * 2 ^ i \<and> v * 2 ^ i < BIGNUM_RADIX"
  using assms
proof (induction "nat (BIGNUM_RADIX - v)" arbitrary: v s rule: less_induct)
  case less
  show ?case
  proof (cases "v < BIGNUM_RADIX div 2")
    case False
    with less.prems show ?thesis by (intro exI [of _ 0]) (subst normalizing_shift.simps, simp)
  next
    case True
    then have "push_bit 1 v < BIGNUM_RADIX" by (simp add: BIGNUM_RADIX_eq push_bit_eq_mult)
    then obtain i where i: "normalizing_shift (push_bit 1 v) (s + 1) = Some (push_bit 1 v * 2 ^ i, s + 1 + i)"
      "BIGNUM_RADIX div 2 \<le> push_bit 1 v * 2 ^ i" "push_bit 1 v * 2 ^ i < BIGNUM_RADIX"
      using less.hyps [of "push_bit 1 v" "s + 1"] less.prems by (auto simp: push_bit_eq_mult)
    have "2 ^ Suc i * 1 \<le> 2 ^ Suc i * v" using less.prems by (intro mult_left_mono) auto
    moreover have "push_bit 1 v * 2 ^ i = 2 ^ Suc i * v" by (simp add: push_bit_eq_mult)
    ultimately have "(2 :: int) ^ Suc i < 2 ^ 62" using i(3) unfolding BIGNUM_RADIX_eq by linarith
    then have "Suc i < 62" by (rule power_less_imp_less_exp [rotated]) simp
    moreover have "normalizing_shift v s = normalizing_shift (push_bit 1 v) (s + 1)"
      using True by (subst normalizing_shift.simps) simp
    ultimately show ?thesis using i by (intro exI [of _ "Suc i"]) (simp add: push_bit_eq_mult mult.commute mult.left_commute)
  qed
qed

lemma mask_and_mod: "x AND (2 ^ n - 1) = x mod 2 ^ n" for x :: int
  by (metis mask_eq_exp_minus_1 take_bit_eq_mask take_bit_eq_mod)

lemma push_mask: "(push_bit n 1 - 1 :: int) = 2 ^ n - 1"
  by simp

lemma normalize_digits_spec:
  assumes i: "i \<le> 61" and "digits_in BIGNUM_RADIX ds" "0 \<le> c" "c < 2 ^ i" "normalize_digits i ds c = (rs, c')"
  shows "digits_in BIGNUM_RADIX rs \<and> length rs = length ds \<and> 0 \<le> c' \<and> c' < 2 ^ i
    \<and> rval BIGNUM_RADIX rs + BIGNUM_RADIX ^ length ds * c' = 2 ^ i * rval BIGNUM_RADIX ds + c"
  using assms(2-)
proof (induction ds arbitrary: c rs)
  case (Cons d ds)
  define j where "j = 62 - i"
  have ij: "(2 :: int) ^ i * 2 ^ j = BIGNUM_RADIX" using i by (simp add: j_def BIGNUM_RADIX_eq flip: power_add)
  define k e where "k = d div 2 ^ j" and "e = (d mod 2 ^ j) * 2 ^ i + c"
  have "push_bit i (d AND (push_bit j 1 - 1)) OR c = e"
    using push_or_eq_add [OF Cons.prems(2,3), of "d mod 2 ^ j"] by (simp only: push_mask mask_and_mod e_def)
  then obtain rs' where r: "normalize_digits i ds k = (rs', c')" "rs = e # rs'"
    using Cons.prems(4) unfolding normalize_digits.simps Let_def BIGNUM_DIGIT_LENGTH_def j_def [symmetric] drop_bit_eq_div k_def [symmetric]
    by (cases "normalize_digits i ds k") auto
  have k: "0 \<le> k" "k < 2 ^ i" using Cons.prems(1) ij by (auto simp: k_def pos_imp_zdiv_nonneg_iff zdiv_less_iff)
  have "e + BIGNUM_RADIX * k = (2 ^ j * (d div 2 ^ j) + d mod 2 ^ j) * 2 ^ i + c"
    unfolding ij [symmetric] e_def k_def by (simp only: algebra_simps)
  then have step: "e + BIGNUM_RADIX * k = 2 ^ i * d + c" by (simp only: mult_div_mod_eq mult.commute)
  have "(d mod 2 ^ j + 1) * 2 ^ i \<le> 2 ^ j * 2 ^ i" by (intro mult_right_mono) (auto simp: add1_zle_eq)
  then have e: "0 \<le> e" "e < BIGNUM_RADIX" using Cons.prems ij by (simp_all add: e_def algebra_simps)
  have ih: "digits_in BIGNUM_RADIX rs' \<and> length rs' = length ds \<and> 0 \<le> c' \<and> c' < 2 ^ i
    \<and> rval BIGNUM_RADIX rs' + BIGNUM_RADIX ^ length ds * c' = 2 ^ i * rval BIGNUM_RADIX ds + k"
    using Cons.prems k by (intro Cons.IH [OF _ _ _ r(1)]) auto
  have "rval BIGNUM_RADIX (e # rs') + BIGNUM_RADIX ^ Suc (length ds) * c' = (2 ^ i * d + c) + BIGNUM_RADIX * (2 ^ i * rval BIGNUM_RADIX ds)"
    by (rule rval_step [where k = k]) (use ih step in auto)
  with ih e show ?case by (simp add: r(2) algebra_simps)
qed simp

lemma unnormalize_digits_spec:
  assumes i: "i \<le> 61" and "digits_in BIGNUM_RADIX ds" "unnormalize_digits i ds = (rs, c)"
  shows "digits_in BIGNUM_RADIX rs \<and> length rs = length ds \<and> (\<exists>l. 0 \<le> l \<and> l < 2 ^ i \<and> c = l * 2 ^ (62 - i)
    \<and> rval BIGNUM_RADIX ds = 2 ^ i * rval BIGNUM_RADIX rs + l)"
  using assms(2-)
proof (induction ds arbitrary: rs c)
  case (Cons d ds)
  define j where "j = 62 - i"
  have ij: "(2 :: int) ^ i * 2 ^ j = BIGNUM_RADIX" using i by (simp add: j_def BIGNUM_RADIX_eq flip: power_add)
  obtain rs' c' where r: "unnormalize_digits i ds = (rs', c')" by fastforce
  then obtain l' where ih: "digits_in BIGNUM_RADIX rs'" "length rs' = length ds" "0 \<le> l'" "l' < 2 ^ i" "c' = l' * 2 ^ j"
    "rval BIGNUM_RADIX ds = 2 ^ i * rval BIGNUM_RADIX rs' + l'"
    using Cons.IH [OF _ r] Cons.prems(1) by (auto simp: j_def)
  define h l where "h = d div 2 ^ i" and "l = d mod 2 ^ i"
  have h: "0 \<le> h" "h < 2 ^ j" using Cons.prems(1) ij by (auto simp: h_def pos_imp_zdiv_nonneg_iff zdiv_less_iff mult.commute)
  have "drop_bit i d OR c' = h + c'"
    using push_or_eq_add [OF h, of l'] ih(5) by (simp add: h_def drop_bit_eq_div push_bit_eq_mult or.commute)
  then have rc: "rs = (h + c') # rs'" "c = l * 2 ^ j"
    using Cons.prems(2) unfolding unnormalize_digits.simps Let_def r prod.case BIGNUM_DIGIT_LENGTH_def j_def [symmetric] push_mask mask_and_mod
    by (simp_all add: l_def push_bit_eq_mult)
  have "(l' + 1) * 2 ^ j \<le> 2 ^ i * 2 ^ j" using ih by (intro mult_right_mono) auto
  then have d: "0 \<le> h + c'" "h + c' < BIGNUM_RADIX" using h ih ij by (simp_all add: algebra_simps)
  have "d = 2 ^ i * h + l" by (simp add: h_def l_def)
  then have "rval BIGNUM_RADIX (d # ds) = 2 ^ i * h + l + (2 ^ i * 2 ^ j) * (2 ^ i * rval BIGNUM_RADIX rs' + l')" by (simp add: ij ih(6))
  also have "\<dots> = 2 ^ i * ((h + c') + (2 ^ i * 2 ^ j) * rval BIGNUM_RADIX rs') + l" by (simp add: ih(5) algebra_simps)
  finally have "rval BIGNUM_RADIX (d # ds) = 2 ^ i * rval BIGNUM_RADIX ((h + c') # rs') + l" by (simp add: ij)
  moreover have "0 \<le> l" "l < 2 ^ i" by (simp_all add: l_def)
  ultimately show ?case using d ih rc by (auto simp: j_def intro!: exI [of _ l])
qed simp

lemma normalization_extend:
  assumes "bignum_wf x" "i \<le> 61" "length ts = BIGNUM_LENGTH x + 1"
  obtains ds c where "bignum_destructive_normalization x (mk_bignum s ts) i = Some (mk_bignum s (ds @ [c]))"
    "digits_in BIGNUM_RADIX ds" "length ds = BIGNUM_LENGTH x" "0 \<le> c" "c < 2 ^ i" "c < BIGNUM_RADIX"
    "rval BIGNUM_RADIX (ds @ [c]) = 2 ^ i * bignum_mag x"
proof -
  obtain ds c where n: "normalize_digits i (BIGNUM_DIGITS x) 0 = (ds, c)" by fastforce
  have sp: "digits_in BIGNUM_RADIX ds" "length ds = BIGNUM_LENGTH x" "0 \<le> c" "c < 2 ^ i"
    "rval BIGNUM_RADIX ds + BIGNUM_RADIX ^ BIGNUM_LENGTH x * c = 2 ^ i * bignum_mag x"
    using normalize_digits_spec [OF assms(2) bignum_wf_digits_in [OF assms(1)] _ _ n] by (simp_all add: BIGNUM_LENGTH_def bignum_mag_def)
  have "(2 :: int) ^ i \<le> 2 ^ 61" using assms(2) by (intro power_increasing) auto
  then have "c < BIGNUM_RADIX" using sp(4) by (simp add: BIGNUM_RADIX_eq)
  moreover have "bignum_destructive_normalization x (mk_bignum s ts) i = Some (mk_bignum s (ds @ [c]))"
    using n assms(3) by (simp add: bignum_destructive_normalization_def)
  moreover have "rval BIGNUM_RADIX (ds @ [c]) = 2 ^ i * bignum_mag x" using sp(2,5) by (simp add: rval_append)
  ultimately show thesis using sp that by blast
qed

subsection \<open>Medium denominators: correctness\<close>

lemma divide_medium_digits_spec:
  assumes v: "BIGNUM_RADIX_ROOT \<le> v" "v < BIGNUM_RADIX" and "digits_in BIGNUM_RADIX ds"
  shows "\<exists>qs r. divide_medium_digits v ds = Some (qs, r) \<and> digits_in BIGNUM_RADIX qs \<and> length qs = length ds
    \<and> 0 \<le> r \<and> r < v \<and> rval BIGNUM_RADIX ds = rval BIGNUM_RADIX qs * v + r"
  using assms(3)
proof (induction ds)
  case (Cons d ds)
  then obtain qs r where ih: "divide_medium_digits v ds = Some (qs, r)" "digits_in BIGNUM_RADIX qs" "length qs = length ds"
    "0 \<le> r" "r < v" "rval BIGNUM_RADIX ds = rval BIGNUM_RADIX qs * v + r" by auto
  define N where "N = r * BIGNUM_RADIX + d"
  have d: "0 \<le> d" "d < BIGNUM_RADIX" and v0: "0 < v" using Cons.prems ih by auto
  have "bignum_digit_divide r d v = Some (N mod v, N div v)"
    unfolding N_def using ih d v by (intro bignum_digit_divide_spec) auto
  then have "divide_medium_digits v (d # ds) = Some (N div v # qs, N mod v)" using ih(1) by simp
  moreover have "rval BIGNUM_RADIX (d # ds) = rval BIGNUM_RADIX (N div v # qs) * v + N mod v"
    by (rule division_step [OF ih(6)]) (simp add: N_def)
  moreover have "0 \<le> N div v" "N div v < BIGNUM_RADIX" using div_digit_range [OF ih(4,5) d] by (simp_all add: N_def)
  ultimately show ?case using ih v0 by auto
qed (use less_le_trans [OF ROOT_pos(1) v(1)] in simp)

lemma returns_medium_denominator:
  assumes wf: "bignum_wf x" "\<not> BIGNUM_ZERO_P x" and len: "BIGNUM_LENGTH x < BIGNUM_LENGTH_MAX"
    and v: "BIGNUM_RADIX_ROOT \<le> v" "v < BIGNUM_RADIX"
  obtains q r where "bignum_divide_unsigned_medium_denominator x v wq wr qs rs
      = Some (if wq then Some q else None, if wr then Some r else None)"
    "returns_bignum (Some q) (if qs then - (bignum_mag x div v) else bignum_mag x div v)"
    "returns_bignum (Some r) (if rs then - (bignum_mag x mod v) else bignum_mag x mod v)"
proof -
  have v0: "0 < v" using v ROOT_pos(1) by linarith
  obtain i where i: "i \<le> 61" "normalizing_shift v 0 = Some (v * 2 ^ i, i)" "BIGNUM_RADIX div 2 \<le> v * 2 ^ i" "v * 2 ^ i < BIGNUM_RADIX"
    using normalizing_shift_spec [OF v0 v(2), of 0] by auto
  obtain ds where ds: "digits_in BIGNUM_RADIX ds" "ds \<noteq> []" "length ds \<le> BIGNUM_LENGTH_MAX" "rval BIGNUM_RADIX ds = bignum_mag x * 2 ^ i"
    and q: "(if i = 0
          then do { q \<leftarrow> bignum_allocate (BIGNUM_LENGTH x) qs; Some (bignum_destructive_copy x q) }
          else do { q \<leftarrow> bignum_allocate (BIGNUM_LENGTH x + 1) qs; bignum_destructive_normalization x q i })
        = Some (mk_bignum qs ds)"
  proof (cases "i = 0")
    case True
    with wf that [of "BIGNUM_DIGITS x"] show thesis
      by (simp add: bignum_allocate_def bignum_wf_def bignum_destructive_copy_def bignum_wf_digits_in BIGNUM_LENGTH_def BIGNUM_ZERO_P_def bignum_mag_def digits_wf_digits_in)
  next
    case False
    obtain ds c where n: "bignum_destructive_normalization x (mk_bignum qs (replicate (BIGNUM_LENGTH x + 1) 0)) i = Some (mk_bignum qs (ds @ [c]))"
      "digits_in BIGNUM_RADIX ds" "length ds = BIGNUM_LENGTH x" "0 \<le> c" "c < BIGNUM_RADIX"
      "rval BIGNUM_RADIX (ds @ [c]) = 2 ^ i * bignum_mag x"
      using normalization_extend [OF wf(1) i(1), of "replicate (BIGNUM_LENGTH x + 1) 0" qs] by (metis length_replicate)
    show thesis using n False len by (intro that [of "ds @ [c]"]) (simp_all add: bignum_allocate_def mult.commute)
  qed
  have "BIGNUM_RADIX_ROOT \<le> BIGNUM_RADIX div 2" by (simp add: BIGNUM_RADIX_eq BIGNUM_RADIX_ROOT_eq)
  then obtain es r where e: "divide_medium_digits (v * 2 ^ i) ds = Some (es, r)" "digits_in BIGNUM_RADIX es" "length es = length ds"
    "0 \<le> r" "r < v * 2 ^ i" "rval BIGNUM_RADIX ds = rval BIGNUM_RADIX es * (v * 2 ^ i) + r"
    using divide_medium_digits_spec [OF _ i(4) ds(1)] i(3) by (meson order_trans)
  have dm: "bignum_mag x div v = rval BIGNUM_RADIX es" "r = (bignum_mag x mod v) * 2 ^ i"
    using div_mod_unique_int [OF e(6,4,5)] by (simp_all add: ds(4) mod_mult_mult2)
  have rem: "(if i \<noteq> 0 then drop_bit i r else r) = bignum_mag x mod v" by (simp add: dm(2) drop_bit_eq_div)
  have "bignum_mag x mod v < BIGNUM_RADIX" "0 \<le> bignum_mag x mod v" using v0 less_trans [OF pos_mod_bound [OF v0, of "bignum_mag x"] v(2)] by simp_all
  then obtain b where b: "bignum_digit_to_bignum (bignum_mag x mod v) rs = Some b"
    "returns_bignum (Some b) (if rs then - (bignum_mag x mod v) else bignum_mag x mod v)"
    using returns_digit_to_bignum [of "bignum_mag x mod v" rs] by (auto simp: returns_bignum_def)
  have "returns_bignum (Some (bignum_trim (mk_bignum qs es))) (if qs then - (bignum_mag x div v) else bignum_mag x div v)"
    unfolding dm(1) using e ds by (intro returns_trim) auto
  moreover have "bignum_divide_unsigned_medium_denominator x v wq wr qs rs
      = Some (if wq then Some (bignum_trim (mk_bignum qs es)) else None, if wr then Some b else None)"
    using i(2) q e(1) b(1) rem by (simp add: bignum_divide_unsigned_medium_denominator_def Let_def)
  ultimately show thesis using b(2) that by blast
qed

subsection \<open>Large denominators: correctness\<close>

lemma top_digit_ge:
  assumes "digits_in BIGNUM_RADIX xs" "length xs = n + 1" "c * BIGNUM_RADIX ^ n \<le> rval BIGNUM_RADIX xs"
  shows "c \<le> xs ! n"
proof -
  have "rval BIGNUM_RADIX (take n xs) < BIGNUM_RADIX ^ n"
    using rval_less [OF digits_in_take_drop(1) [OF assms(1), of n]] assms(2) by simp
  then have "c * BIGNUM_RADIX ^ n < (xs ! n + 1) * BIGNUM_RADIX ^ n"
    using rval_top_split [OF assms(2), of BIGNUM_RADIX] assms(3) by (simp add: algebra_simps)
  then show ?thesis by (simp add: mult_less_cancel_right_pos)
qed

text \<open>Dividing the shifted numerator by the shifted denominator gives the quotient and the
  shifted remainder.\<close>

lemma shifted_division:
  fixes v :: "int list"
  defines "n \<equiv> length v"
  assumes n: "2 \<le> n" "n \<le> length ds" and v: "digits_in BIGNUM_RADIX v" "BIGNUM_RADIX_ROOT \<le> v ! (n - 1)"
    and V: "rval BIGNUM_RADIX v = 2 ^ i * D" "BIGNUM_RADIX ^ (n - 1) \<le> D"
    and u: "digits_in BIGNUM_RADIX (ds @ [c])" "c < 2 ^ i" "rval BIGNUM_RADIX (ds @ [c]) = 2 ^ i * N"
  obtains qs u' where "divide_normalized_loop (length ds + 1 - n) v (ds @ [c]) = Some (qs, u')"
    "length qs = length ds + 1 - n" "digits_in BIGNUM_RADIX qs" "length u' = length ds + 1" "digits_in BIGNUM_RADIX u'"
    "rval BIGNUM_RADIX qs = N div D" "rval BIGNUM_RADIX u' = 2 ^ i * (N mod D)"
proof -
  define k where "k = length ds + 1 - n"
  have D: "0 < D" using V(2) by (rule less_le_trans [rotated]) simp
  have kl: "k \<le> length ds" "length ds - k = n - 1" using n by (auto simp: k_def)
  have "rval BIGNUM_RADIX (drop k ds) < BIGNUM_RADIX ^ (n - 1)"
    using rval_less [OF digits_in_take_drop(2), of BIGNUM_RADIX ds k] u(1) kl by simp
  moreover have "BIGNUM_RADIX ^ (n - 1) * (c + 1) \<le> BIGNUM_RADIX ^ (n - 1) * 2 ^ i" using u(2) by (intro mult_left_mono) auto
  moreover have "BIGNUM_RADIX ^ (n - 1) * 2 ^ i \<le> 2 ^ i * D" unfolding mult.commute [of _ "2 ^ i"] using V(2) by (intro mult_left_mono) auto
  moreover have "BIGNUM_RADIX ^ (n - 1) * (c + 1) = BIGNUM_RADIX ^ (n - 1) * c + BIGNUM_RADIX ^ (n - 1)" by (simp add: algebra_simps)
  moreover have "rval BIGNUM_RADIX (drop k (ds @ [c])) = rval BIGNUM_RADIX (drop k ds) + BIGNUM_RADIX ^ (n - 1) * c"
    using kl by (simp add: rval_append)
  ultimately have top: "rval BIGNUM_RADIX (drop k (ds @ [c])) < rval BIGNUM_RADIX v"
    unfolding V(1) by linarith
  obtain qs u' where l: "divide_normalized_loop k v (ds @ [c]) = Some (qs, u')" "length qs = k" "digits_in BIGNUM_RADIX qs"
    "length u' = length (ds @ [c])" "digits_in BIGNUM_RADIX u'"
    "rval BIGNUM_RADIX (ds @ [c]) = rval BIGNUM_RADIX qs * rval BIGNUM_RADIX v + rval BIGNUM_RADIX u'"
    "rval BIGNUM_RADIX u' < rval BIGNUM_RADIX v"
    using divide_normalized_loop_spec [of v "ds @ [c]" k 0] n v u(1) top unfolding n_def k_def by auto
  have "(2 ^ i * N) div (2 ^ i * D) = rval BIGNUM_RADIX qs" "(2 ^ i * N) mod (2 ^ i * D) = rval BIGNUM_RADIX u'"
    using div_mod_unique_int [of "2 ^ i * N" "rval BIGNUM_RADIX qs" "2 ^ i * D" "rval BIGNUM_RADIX u'"] l rval_nonneg [OF l(5)]
    by (simp_all add: u(3) V(1))
  then have "rval BIGNUM_RADIX qs = N div D" "rval BIGNUM_RADIX u' = 2 ^ i * (N mod D)" by (simp_all add: mod_mult_mult1)
  then show thesis using l unfolding k_def by (intro that) simp_all
qed

lemma normalization_same_length:
  assumes "bignum_wf d" "BIGNUM_LENGTH d = n + 1" "i \<le> 61" "BIGNUM_REF d n * 2 ^ i < BIGNUM_RADIX" "length ts = BIGNUM_LENGTH d"
  obtains ds where "bignum_destructive_normalization d (mk_bignum s ts) i = Some (mk_bignum s ds)"
    "digits_in BIGNUM_RADIX ds" "length ds = n + 1" "rval BIGNUM_RADIX ds = 2 ^ i * bignum_mag d"
proof -
  obtain ds c where nd: "normalize_digits i (BIGNUM_DIGITS d) 0 = (ds, c)" by fastforce
  have sp: "digits_in BIGNUM_RADIX ds" "length ds = n + 1" "0 \<le> c"
    "rval BIGNUM_RADIX ds + BIGNUM_RADIX ^ (n + 1) * c = 2 ^ i * bignum_mag d"
    using normalize_digits_spec [OF assms(3) bignum_wf_digits_in [OF assms(1)] _ _ nd] assms(2) by (simp_all add: BIGNUM_LENGTH_def bignum_mag_def)
  define j where "j = 62 - i"
  have ij: "BIGNUM_RADIX = 2 ^ j * 2 ^ i" using assms(3) by (simp add: j_def BIGNUM_RADIX_eq flip: power_add)
  then have "BIGNUM_REF d n * 2 ^ i < 2 ^ j * 2 ^ i" using assms(4) by simp
  then have top: "BIGNUM_REF d n + 1 \<le> 2 ^ j" by (simp add: mult_less_cancel_right_pos)
  have m: "bignum_mag d < BIGNUM_RADIX ^ n * (BIGNUM_REF d n + 1)"
    using rval_top_split [of "BIGNUM_DIGITS d" n BIGNUM_RADIX] assms(2)
      rval_less [OF digits_in_take_drop(1) [OF bignum_wf_digits_in [OF assms(1)], of n]]
    by (simp add: bignum_mag_def BIGNUM_REF_def BIGNUM_LENGTH_def algebra_simps)
  also have "\<dots> \<le> BIGNUM_RADIX ^ n * 2 ^ j" using top by (intro mult_left_mono) auto
  finally have "2 ^ i * bignum_mag d < BIGNUM_RADIX ^ (n + 1)" by (simp add: ij mult.commute mult.left_commute)
  moreover have "BIGNUM_RADIX ^ (n + 1) * 1 \<le> BIGNUM_RADIX ^ (n + 1) * c" if "c \<noteq> 0" using that sp(3) by (intro mult_left_mono) auto
  ultimately have "c = 0" using sp(4) rval_nonneg [OF sp(1)] by (metis add_less_same_cancel2 linorder_not_less mult.right_neutral order_le_less_trans)
  then show thesis using sp nd assms(2,5) by (intro that [of ds]) (simp_all add: bignum_destructive_normalization_def)
qed

text \<open>The numerator and the denominator as the quotient loop sees them, for either value of
  \<open>shift\<close>.\<close>

definition shifted_operands :: "bignum \<Rightarrow> bignum \<Rightarrow> nat \<Rightarrow> bool \<Rightarrow> (bignum \<times> bignum) option" where
  "shifted_operands num denom shift r_negative_p =
    (let u = mk_bignum r_negative_p (replicate (BIGNUM_LENGTH num + 1) 0)
     in if shift = 0
        then let u = bignum_destructive_copy num u
             in Some (u \<lparr> BIGNUM_DIGITS := (BIGNUM_DIGITS u)[BIGNUM_LENGTH num := 0] \<rparr>, denom)
        else do {
          u \<leftarrow> bignum_destructive_normalization num u shift;
          v \<leftarrow> bignum_destructive_normalization denom (mk_bignum False (replicate (BIGNUM_LENGTH denom) 0)) shift;
          Some (u, v) })"

lemma shifted_operands_spec:
  assumes wf: "bignum_wf x" "bignum_wf d" and n: "BIGNUM_LENGTH d = m + 1"
    and i: "i \<le> 61" "BIGNUM_RADIX div 2 \<le> BIGNUM_REF d m * 2 ^ i" "BIGNUM_REF d m * 2 ^ i < BIGNUM_RADIX"
  obtains ds c v vs where "shifted_operands x d i rs = Some (mk_bignum rs (ds @ [c]), mk_bignum vs v)"
    "digits_in BIGNUM_RADIX (ds @ [c])" "length ds = BIGNUM_LENGTH x" "c < 2 ^ i" "rval BIGNUM_RADIX (ds @ [c]) = 2 ^ i * bignum_mag x"
    "digits_in BIGNUM_RADIX v" "length v = m + 1" "rval BIGNUM_RADIX v = 2 ^ i * bignum_mag d" "BIGNUM_RADIX_ROOT \<le> v ! m"
proof -
  have half: "BIGNUM_RADIX_ROOT \<le> BIGNUM_RADIX div 2" by (simp add: BIGNUM_RADIX_eq BIGNUM_RADIX_ROOT_eq)
  show thesis
  proof (cases "i = 0")
    case True
    have "drop (length (BIGNUM_DIGITS x)) (replicate (length (BIGNUM_DIGITS x) + 1) (0 :: int)) = [0]"
      by (simp only: drop_replicate) simp
    then have "shifted_operands x d i rs = Some (mk_bignum rs (BIGNUM_DIGITS x @ [0]), mk_bignum (BIGNUM_NEGATIVE_P d) (BIGNUM_DIGITS d))"
      using True by (simp add: shifted_operands_def bignum_destructive_copy_def BIGNUM_LENGTH_def Let_def)
    then show thesis
      using True wf n i half by (intro that [of "BIGNUM_DIGITS x" 0 "BIGNUM_NEGATIVE_P d" "BIGNUM_DIGITS d"])
        (simp_all add: bignum_wf_digits_in BIGNUM_LENGTH_def rval_append bignum_mag_def BIGNUM_REF_def)
  next
    case False
    obtain ds c where u: "bignum_destructive_normalization x (mk_bignum rs (replicate (BIGNUM_LENGTH x + 1) 0)) i = Some (mk_bignum rs (ds @ [c]))"
      "digits_in BIGNUM_RADIX ds" "length ds = BIGNUM_LENGTH x" "0 \<le> c" "c < 2 ^ i" "c < BIGNUM_RADIX"
      "rval BIGNUM_RADIX (ds @ [c]) = 2 ^ i * bignum_mag x"
      using normalization_extend [OF wf(1) i(1), of "replicate (BIGNUM_LENGTH x + 1) 0" rs] by (metis length_replicate)
    obtain v where v: "bignum_destructive_normalization d (mk_bignum False (replicate (BIGNUM_LENGTH d) 0)) i = Some (mk_bignum False v)"
      "digits_in BIGNUM_RADIX v" "length v = m + 1" "rval BIGNUM_RADIX v = 2 ^ i * bignum_mag d"
      using normalization_same_length [OF wf(2) n i(1,3), of "replicate (BIGNUM_LENGTH d) 0" False] by (metis length_replicate)
    have "BIGNUM_REF d m * BIGNUM_RADIX ^ m \<le> bignum_mag d"
      using rval_top_split [of "BIGNUM_DIGITS d" m BIGNUM_RADIX] n rval_nonneg [OF digits_in_take_drop(1) [OF bignum_wf_digits_in [OF wf(2)], of m]]
      by (simp add: bignum_mag_def BIGNUM_REF_def BIGNUM_LENGTH_def mult.commute)
    then have "2 ^ i * (BIGNUM_REF d m * BIGNUM_RADIX ^ m) \<le> 2 ^ i * bignum_mag d" by (intro mult_left_mono) auto
    then have "(BIGNUM_REF d m * 2 ^ i) * BIGNUM_RADIX ^ m \<le> rval BIGNUM_RADIX v" by (simp add: v(4) mult.commute mult.left_commute)
    then have "BIGNUM_REF d m * 2 ^ i \<le> v ! m" by (rule top_digit_ge [OF v(2,3)])
    then have "BIGNUM_RADIX_ROOT \<le> v ! m" using half i(2) by linarith
    moreover have "shifted_operands x d i rs = Some (mk_bignum rs (ds @ [c]), mk_bignum False v)"
      using False u(1) v(1) by (simp add: shifted_operands_def Let_def)
    ultimately show thesis using u v by (intro that [of ds c False v]) simp_all
  qed
qed

lemma unnormalization_exact:
  assumes "i \<le> 61" "digits_in BIGNUM_RADIX u" "rval BIGNUM_RADIX u = 2 ^ i * r"
  obtains ds where "bignum_destructive_unnormalization (mk_bignum s u) i = Some (mk_bignum s ds)"
    "digits_in BIGNUM_RADIX ds" "length ds = length u" "rval BIGNUM_RADIX ds = r"
proof -
  obtain ds c where un: "unnormalize_digits i u = (ds, c)" by fastforce
  obtain l where l: "digits_in BIGNUM_RADIX ds" "length ds = length u" "0 \<le> l" "l < 2 ^ i" "c = l * 2 ^ (62 - i)"
    "rval BIGNUM_RADIX u = 2 ^ i * rval BIGNUM_RADIX ds + l"
    using unnormalize_digits_spec [OF assms(1,2) un] by blast
  have "l + 2 ^ i * (rval BIGNUM_RADIX ds - r) = 0" using l(6) assms(3) by (simp add: algebra_simps)
  then have z: "rval BIGNUM_RADIX ds - r = 0" by (rule high_part(1) [OF _ l(3,4)]) simp_all
  then have "l = 0" using l(6) assms(3) by simp
  then show thesis using z l un by (intro that [of ds]) (simp_all add: bignum_destructive_unnormalization_def)
qed

lemma large_denominator_unfold:
  assumes "BIGNUM_LENGTH x < BIGNUM_LENGTH_MAX" "BIGNUM_LENGTH d \<le> BIGNUM_LENGTH x" "1 < BIGNUM_LENGTH d"
    "normalizing_shift (BIGNUM_REF d (BIGNUM_LENGTH d - 1)) 0 = Some (v1, i)"
    "shifted_operands x d i rs = Some (u, v)" "bignum_divide_unsigned_normalized u v = Some (es, u')"
    "(if wr \<and> i \<noteq> 0 then bignum_destructive_unnormalization u' i else Some u') = Some u''"
  shows "bignum_divide_unsigned_large_denominator x d wq wr qs rs
      = Some (if wq then Some (bignum_trim (mk_bignum qs es)) else None, if wr then Some (bignum_trim u'') else None)"
proof -
  have a: "BIGNUM_ASSERT (BIGNUM_LENGTH x + 1 - BIGNUM_LENGTH d \<le> BIGNUM_LENGTH_MAX) = Some ()"
    "BIGNUM_ASSERT (BIGNUM_LENGTH x + 1 \<le> BIGNUM_LENGTH_MAX) = Some ()"
    "BIGNUM_ASSERT (BIGNUM_LENGTH d \<le> BIGNUM_LENGTH_MAX) = Some ()"
    "BIGNUM_ASSERT (1 < BIGNUM_LENGTH d) = Some ()"
    using assms(1-3) by (simp_all add: BIGNUM_ASSERT_def)
  note defs = bignum_divide_unsigned_large_denominator_def bignum_allocate_def Let_def a bind.bind_lunit
    assms(4) prod.case
  show ?thesis
  proof (cases "i = 0")
    case True
    with assms(5) have uv: "v = d" "u = bignum_destructive_copy x (mk_bignum rs (replicate (BIGNUM_LENGTH x + 1) 0))
       \<lparr> BIGNUM_DIGITS := (BIGNUM_DIGITS (bignum_destructive_copy x (mk_bignum rs (replicate (BIGNUM_LENGTH x + 1) 0))))[BIGNUM_LENGTH x := 0] \<rparr>"
      by (simp_all only: shifted_operands_def Let_def if_True option.inject prod.inject simp_thms) 
    from assms(6,7) True show ?thesis
      unfolding defs uv by (cases wq) (simp_all del: replicate.simps)
  next
    case False
    from assms(5) False obtain
      "bignum_destructive_normalization x (mk_bignum rs (replicate (BIGNUM_LENGTH x + 1) 0)) i = Some u"
      "bignum_destructive_normalization d (mk_bignum False (replicate (BIGNUM_LENGTH d) 0)) i = Some v"
      by (auto simp: shifted_operands_def Let_def split: bind_splits)
    with assms(6,7) False show ?thesis
      unfolding defs by (cases wq) (simp_all del: replicate.simps)
  qed
qed

lemma returns_large_denominator:
  assumes wf: "bignum_wf x" "bignum_wf d" and len: "BIGNUM_LENGTH x < BIGNUM_LENGTH_MAX"
    and d: "1 < BIGNUM_LENGTH d" "bignum_mag d \<le> bignum_mag x"
  obtains q r where "bignum_divide_unsigned_large_denominator x d wq wr qs rs
      = Some (if wq then Some q else None, if wr then Some r else None)"
    "returns_bignum (Some q) (if qs then - (bignum_mag x div bignum_mag d) else bignum_mag x div bignum_mag d)"
    "wr \<longrightarrow> returns_bignum (Some r) (if rs then - (bignum_mag x mod bignum_mag d) else bignum_mag x mod bignum_mag d)"
proof -
  obtain m where m: "BIGNUM_LENGTH d = m + 1" "1 \<le> m" using d(1) by (metis Suc_eq_plus1 less_iff_Suc_add add_Suc_shift le_add1 plus_1_eq_Suc)
  have dl: "BIGNUM_LENGTH d \<le> BIGNUM_LENGTH x"
    using d(2) wf digits_wf_length_le [of "BIGNUM_DIGITS d" "BIGNUM_DIGITS x"] by (simp add: BIGNUM_LENGTH_def bignum_wf_def bignum_mag_def digits_wf_digits_in)
  have top: "0 < BIGNUM_REF d m" "BIGNUM_REF d m < BIGNUM_RADIX"
    using wf(2) m(1) digits_in_nth [OF bignum_wf_digits_in [OF wf(2)], of m]
    by (auto simp: bignum_wf_def digits_wf_def BIGNUM_REF_def BIGNUM_LENGTH_def last_conv_nth order_less_le)
  obtain i where i: "i \<le> 61" "normalizing_shift (BIGNUM_REF d m) 0 = Some (BIGNUM_REF d m * 2 ^ i, i)"
    "BIGNUM_RADIX div 2 \<le> BIGNUM_REF d m * 2 ^ i" "BIGNUM_REF d m * 2 ^ i < BIGNUM_RADIX"
    using normalizing_shift_spec [OF top, of 0] by auto
  obtain ds c v vs where so: "shifted_operands x d i rs = Some (mk_bignum rs (ds @ [c]), mk_bignum vs v)"
    and u: "digits_in BIGNUM_RADIX (ds @ [c])" "length ds = BIGNUM_LENGTH x" "c < 2 ^ i" "rval BIGNUM_RADIX (ds @ [c]) = 2 ^ i * bignum_mag x"
    and v: "digits_in BIGNUM_RADIX v" "length v = m + 1" "rval BIGNUM_RADIX v = 2 ^ i * bignum_mag d" "BIGNUM_RADIX_ROOT \<le> v ! m"
    by (rule shifted_operands_spec [OF wf m(1) i(1,3,4)])
  have "BIGNUM_RADIX ^ m \<le> bignum_mag d"
    using digits_wf_lower [of "BIGNUM_DIGITS d"] wf(2) m by (cases "BIGNUM_DIGITS d = []") (auto simp: bignum_wf_def BIGNUM_LENGTH_def bignum_mag_def)
  then obtain es w where l: "divide_normalized_loop (length ds + 1 - length v) v (ds @ [c]) = Some (es, w)"
    "length es = length ds + 1 - length v" "digits_in BIGNUM_RADIX es" "length w = length ds + 1" "digits_in BIGNUM_RADIX w"
    "rval BIGNUM_RADIX es = bignum_mag x div bignum_mag d" "rval BIGNUM_RADIX w = 2 ^ i * (bignum_mag x mod bignum_mag d)"
    using shifted_division [OF _ _ v(1) _ v(3) _ u(1,3,4)] v m dl u(2) by auto
  have dn: "bignum_divide_unsigned_normalized (mk_bignum rs (ds @ [c])) (mk_bignum vs v) = Some (es, mk_bignum rs w)"
    using l(1) by (simp add: bignum_divide_unsigned_normalized_def)
  obtain ws where ws: "(if wr \<and> i \<noteq> 0 then bignum_destructive_unnormalization (mk_bignum rs w) i else Some (mk_bignum rs w)) = Some (mk_bignum rs ws)"
    "digits_in BIGNUM_RADIX ws" "length ws = length w" "wr \<longrightarrow> rval BIGNUM_RADIX ws = bignum_mag x mod bignum_mag d"
  proof (cases "wr \<and> i \<noteq> 0")
    case True
    with unnormalization_exact [OF i(1) l(5,7), of rs] that show thesis by (metis (no_types, lifting))
  next
    case False
    then show thesis using l by (intro that [of w]) auto
  qed
  have "returns_bignum (Some (bignum_trim (mk_bignum qs es))) (if qs then - (bignum_mag x div bignum_mag d) else bignum_mag x div bignum_mag d)"
    unfolding l(6) [symmetric] using l u(2) v(2) m dl len by (intro returns_trim) auto
  moreover have "wr \<longrightarrow> returns_bignum (Some (bignum_trim (mk_bignum rs ws))) (if rs then - (bignum_mag x mod bignum_mag d) else bignum_mag x mod bignum_mag d)"
  proof
    assume wr
    have "ws \<noteq> []" using ws(3) l(4) by auto
    then show "returns_bignum (Some (bignum_trim (mk_bignum rs ws))) (if rs then - (bignum_mag x mod bignum_mag d) else bignum_mag x mod bignum_mag d)"
      using returns_trim [of ws rs] ws(2-4) \<open>wr\<close> l(4) u(2) len by (cases rs) simp_all
  qed
  moreover note large_denominator_unfold [OF len dl d(1) _ so dn ws(1), of _ wq qs] i(2) m(1)
  ultimately show thesis using that [of "bignum_trim (mk_bignum qs es)" "bignum_trim (mk_bignum rs ws)"] by simp
qed

subsection \<open>The exported operations\<close>

lemma power_of_two_digit:
  fixes d :: int
  assumes "0 < d" "d AND (d - 1) = 0" "d < 2 ^ n"
  obtains k where "d = 2 ^ k"
proof -
  obtain k where k: "d < 2 ^ k" "k = 0 \<or> 2 ^ (k - 1) \<le> d"
    using bit_length_exists [of d n] assms(1,3) by (metis less_imp_le)
  then have k0: "k \<noteq> 0" using assms(1) by (cases "k = 0") auto
  have top: "bit e (k - 1)" if "2 ^ (k - 1) \<le> e" "e < 2 ^ k" for e :: int
  proof -
    have "e div 2 ^ (k - 1) = 1"
      using that k0 by (intro int_div_pos_eq [where r = "e - 2 ^ (k - 1)"]) (auto simp: power_eq_if)
    then show ?thesis by (simp add: bit_iff_odd)
  qed
  have "d = 2 ^ (k - 1)"
  proof (rule ccontr)
    assume "d \<noteq> 2 ^ (k - 1)"
    then have "2 ^ (k - 1) \<le> d - 1" using k k0 by auto
    then have "bit (d AND (d - 1)) (k - 1)" using top [of d] top [of "d - 1"] k k0 by (auto simp: bit_simps)
    then show False using assms(2) by simp
  qed
  then show thesis by (rule that)
qed

lemma remainder_power_of_two:
  assumes wf: "bignum_wf x" "\<not> BIGNUM_ZERO_P x" and d: "d = 2 ^ k" "d < BIGNUM_RADIX"
  shows "(d - 1) AND BIGNUM_REF x 0 = bignum_mag x mod d"
proof -
  obtain a as where a: "BIGNUM_DIGITS x = a # as" using wf(2) by (cases "BIGNUM_DIGITS x") (auto simp: BIGNUM_ZERO_P_def BIGNUM_LENGTH_def)
  have "(2 :: int) ^ k < 2 ^ 62" using d unfolding BIGNUM_RADIX_eq by simp
  then have "k < 62" by (rule power_less_imp_less_exp [rotated]) simp
  then have "d dvd BIGNUM_RADIX" unfolding d(1) BIGNUM_RADIX_eq by (intro le_imp_power_dvd) simp
  then have "(a + BIGNUM_RADIX * rval BIGNUM_RADIX as) mod d = a mod d" by (metis dvd_mult2 mod_add_right_eq add_0_right dvd_imp_mod_0)
  then have "bignum_mag x mod d = a mod d" by (simp add: bignum_mag_def a)
  moreover have "(d - 1) AND a = a mod d" using mask_and_mod [of a k] by (simp add: d and.commute)
  ultimately show ?thesis by (simp add: BIGNUM_REF_def a)
qed

text \<open>Signs of quotient and remainder from the signs of the operands.\<close>

lemma quot_rem_val:
  assumes "bignum_wf n" "bignum_wf d"
  shows "quot_int (bignum_val n) (bignum_val d) =
      (if (if BIGNUM_NEGATIVE_P d then \<not> BIGNUM_NEGATIVE_P n else BIGNUM_NEGATIVE_P n)
       then - (bignum_mag n div bignum_mag d) else bignum_mag n div bignum_mag d)"
    and "rem_int (bignum_val n) (bignum_val d) =
      (if BIGNUM_NEGATIVE_P n then - (bignum_mag n mod bignum_mag d) else bignum_mag n mod bignum_mag d)"
  unfolding bignum_val_def
  using quot_int_signed [OF assms [THEN bignum_mag_nonneg], of "BIGNUM_NEGATIVE_P n" "BIGNUM_NEGATIVE_P d"]
    rem_int_signed [OF assms [THEN bignum_mag_nonneg], of "BIGNUM_NEGATIVE_P n" "BIGNUM_NEGATIVE_P d"]
  by (cases "BIGNUM_NEGATIVE_P n"; cases "BIGNUM_NEGATIVE_P d"; simp)+

definition returns_oob :: "bignum option option \<Rightarrow> int \<Rightarrow> bool" where
  "returns_oob r n \<longleftrightarrow> (\<exists>b. r = Some (Some b) \<and> bignum_wf b \<and> bignum_val b = n)"

lemma returns_oob_bind: "returns_bignum m n \<Longrightarrow> returns_oob (do { r \<leftarrow> m; Some (Some r) }) n"
  by (auto simp: returns_bignum_def returns_oob_def)

lemma returns_oob_Some: "returns_bignum (Some b) n \<Longrightarrow> returns_oob (Some (Some b)) n"
  by (auto simp: returns_bignum_def returns_oob_def)

lemma compare_cases:
  assumes "bignum_wf n" "bignum_wf d"
  obtains "bignum_compare_unsigned n d = bignum_comparison_equal" "bignum_mag n = bignum_mag d"
    | "bignum_compare_unsigned n d = bignum_comparison_less" "bignum_mag n < bignum_mag d"
    | "bignum_compare_unsigned n d = bignum_comparison_greater" "bignum_mag d < bignum_mag n"
  using assms by (cases "bignum_mag n" "bignum_mag d" rule: linorder_cases) (auto simp: bignum_compare_unsigned_eq int_comparison_def)

lemma zero_cases:
  assumes "bignum_wf n" "BIGNUM_ZERO_P n"
  shows "bignum_val n = 0" "bignum_mag n = 0"
  using assms bignum_ZERO_P_iff [OF assms(1)] bignum_abs_val [OF assms(1)] by auto

lemma nonzero_mag: "bignum_wf n \<Longrightarrow> \<not> BIGNUM_ZERO_P n \<Longrightarrow> 0 < bignum_mag n"
  using digits_wf_pos [of "BIGNUM_DIGITS n"] by (auto simp: bignum_wf_def bignum_mag_def BIGNUM_ZERO_P_def BIGNUM_LENGTH_def)

lemma zero_quot_rem [simp]: "quot_int 0 d = 0" "rem_int 0 d = 0"
  by (simp_all add: quot_int_def rem_int_def)

lemma returns_quotient [val_simps]:
  assumes wf: "bignum_wf n" "bignum_wf d" and len: "BIGNUM_LENGTH n < BIGNUM_LENGTH_MAX"
  shows "if bignum_val d = 0 then bignum_quotient n d = Some None
    else returns_oob (bignum_quotient n d) (quot_int (bignum_val n) (bignum_val d))"
proof (cases "BIGNUM_ZERO_P d \<or> BIGNUM_ZERO_P n")
  case True
  then show ?thesis using zero_cases [OF wf(1)] bignum_ZERO_P_iff [OF wf(2)] wf
    by (auto simp: bignum_quotient_def returns_oob_def)
next
  case nz: False
  define s where "s = (if BIGNUM_NEGATIVE_P d then \<not> BIGNUM_NEGATIVE_P n else BIGNUM_NEGATIVE_P n)"
  have dz: "bignum_val d \<noteq> 0" using nz bignum_ZERO_P_iff [OF wf(2)] by simp
  have pos: "0 < bignum_mag d" "0 < bignum_mag n" using nz nonzero_mag wf by auto
  note q = quot_rem_val(1) [OF wf, folded s_def]
  have "returns_oob (bignum_quotient n d) (if s then - (bignum_mag n div bignum_mag d) else bignum_mag n div bignum_mag d)"
  proof (cases rule: compare_cases [OF wf])
    case 3
    show ?thesis
    proof (cases "BIGNUM_LENGTH d = 1")
      case True
      note sd = single_digit [OF wf(2) True]
      consider "BIGNUM_REF d 0 = 1" | "1 < BIGNUM_REF d 0" "BIGNUM_REF d 0 < BIGNUM_RADIX_ROOT" | "BIGNUM_RADIX_ROOT \<le> BIGNUM_REF d 0"
        using sd(3) by linarith
      then show ?thesis
      proof cases
        case 1
        with nz 3 True sd returns_oob_bind [OF returns_maybe_new_sign [OF wf(1), of s]] show ?thesis
          by (cases s) (simp_all add: bignum_quotient_def s_def [symmetric])
      next
        case 2
        obtain q r where "bignum_divide_unsigned_small_denominator n (BIGNUM_REF d 0) False s False = Some (q, if False then Some r else None)"
          "returns_bignum (Some q) (if s then - (bignum_mag n div bignum_mag d) else bignum_mag n div bignum_mag d)"
          using returns_small_denominator [OF wf(1) _ 2, of False s False] nz unfolding sd(2) by blast
        with nz 2 3 True returns_oob_Some show ?thesis by (simp add: bignum_quotient_def s_def [symmetric])
      next
        case m: 3
        obtain q r where "bignum_divide_unsigned_medium_denominator n (BIGNUM_REF d 0) True False s False
            = Some (if True then Some q else None, if False then Some r else None)"
          "returns_bignum (Some q) (if s then - (bignum_mag n div bignum_mag d) else bignum_mag n div bignum_mag d)"
          using returns_medium_denominator [OF wf(1) _ len m sd(4), of True False s False] nz unfolding sd(2) by blast
        moreover have "BIGNUM_REF d 0 \<noteq> 1" using m ROOT_pos(2) by linarith
        ultimately show ?thesis using nz m 3 True returns_oob_Some
          by (simp add: bignum_quotient_def s_def [symmetric] Let_def split del: if_split)
      qed
    next
      case False
      then have l: "1 < BIGNUM_LENGTH d" using nz by (auto simp: BIGNUM_ZERO_P_def)
      obtain q r where "bignum_divide_unsigned_large_denominator n d True False s False
          = Some (if True then Some q else None, if False then Some r else None)"
        "returns_bignum (Some q) (if s then - (bignum_mag n div bignum_mag d) else bignum_mag n div bignum_mag d)"
        using returns_large_denominator [OF wf len l less_imp_le [OF 3(2)], of True False s False] by blast
      with nz 3 False returns_oob_Some show ?thesis by (simp add: bignum_quotient_def s_def [symmetric])
    qed
  qed (use nz pos in \<open>auto simp: bignum_quotient_def returns_oob_def s_def [symmetric]\<close>)
  then show ?thesis using dz q by simp
qed

lemma returns_remainder [val_simps]:
  assumes wf: "bignum_wf n" "bignum_wf d" and len: "BIGNUM_LENGTH n < BIGNUM_LENGTH_MAX"
  shows "if bignum_val d = 0 then bignum_remainder n d = Some None
    else returns_oob (bignum_remainder n d) (rem_int (bignum_val n) (bignum_val d))"
proof (cases "BIGNUM_ZERO_P d \<or> BIGNUM_ZERO_P n")
  case True
  then show ?thesis using zero_cases [OF wf(1)] bignum_ZERO_P_iff [OF wf(2)] wf
    by (auto simp: bignum_remainder_def returns_oob_def)
next
  case nz: False
  define s where "s = BIGNUM_NEGATIVE_P n"
  have dz: "bignum_val d \<noteq> 0" using nz bignum_ZERO_P_iff [OF wf(2)] by simp
  have pos: "0 < bignum_mag d" "0 < bignum_mag n" using nz nonzero_mag wf by auto
  note r = quot_rem_val(2) [OF wf, folded s_def]
  have "returns_oob (bignum_remainder n d) (if s then - (bignum_mag n mod bignum_mag d) else bignum_mag n mod bignum_mag d)"
  proof (cases rule: compare_cases [OF wf])
    case 2
    then have "bignum_mag n mod bignum_mag d = bignum_mag n" using pos by simp
    then show ?thesis using 2 nz wf by (simp add: bignum_remainder_def returns_oob_def s_def bignum_val_def)
  next
    case 3
    show ?thesis
    proof (cases "BIGNUM_LENGTH d = 1")
      case True
      note sd = single_digit [OF wf(2) True]
      consider "BIGNUM_REF d 0 AND (BIGNUM_REF d 0 - 1) = 0"
        | "BIGNUM_REF d 0 AND (BIGNUM_REF d 0 - 1) \<noteq> 0" "BIGNUM_REF d 0 < BIGNUM_RADIX_ROOT"
        | "BIGNUM_REF d 0 AND (BIGNUM_REF d 0 - 1) \<noteq> 0" "BIGNUM_RADIX_ROOT \<le> BIGNUM_REF d 0" by linarith
      then show ?thesis
      proof cases
        case 1
        then obtain k where "BIGNUM_REF d 0 = 2 ^ k" using power_of_two_digit sd(3,4) unfolding BIGNUM_RADIX_eq by metis
        then have m: "(BIGNUM_REF d 0 - 1) AND BIGNUM_REF n 0 = bignum_mag n mod bignum_mag d"
          using remainder_power_of_two [OF wf(1) _ _ sd(4)] nz unfolding sd(2) by simp
        have "returns_oob (do { r \<leftarrow> bignum_digit_to_bignum (bignum_mag n mod bignum_mag d) s; Some (Some r) })
            (if s then - (bignum_mag n mod bignum_mag d) else bignum_mag n mod bignum_mag d)"
          using pos sd(2,4) less_trans [OF pos_mod_bound [OF pos(1), of "bignum_mag n"]]
          by (intro returns_oob_bind returns_digit_to_bignum) simp_all
        moreover have "BIGNUM_LENGTH n \<noteq> 0" using nz by (auto simp: BIGNUM_ZERO_P_def)
        ultimately show ?thesis using 1 nz 3 True m
          by (cases "bignum_mag n mod bignum_mag d = 0")
            (simp_all add: bignum_remainder_def s_def [symmetric] bignum_digit_to_bignum_def Let_def split del: if_split)
      next
        case 2
        then have "1 < BIGNUM_REF d 0" using sd(3) by (cases "BIGNUM_REF d 0 = 1") auto
        then show ?thesis
          using returns_oob_bind [OF returns_remainder_small [OF wf(1) _ 2(2), of s]] nz 2 3 True sd(2)
          by (cases s) (simp_all add: bignum_remainder_def s_def [symmetric])
      next
        case m: 3
        obtain q r where "bignum_divide_unsigned_medium_denominator n (BIGNUM_REF d 0) False True False s
            = Some (if False then Some q else None, if True then Some r else None)"
          "returns_bignum (Some r) (if s then - (bignum_mag n mod bignum_mag d) else bignum_mag n mod bignum_mag d)"
          using returns_medium_denominator [OF wf(1) _ len m(2) sd(4), of False True False s] nz unfolding sd(2) by blast
        with nz m 3 True returns_oob_Some show ?thesis by (simp add: bignum_remainder_def s_def [symmetric] split del: if_split)
      qed
    next
      case False
      then have l: "1 < BIGNUM_LENGTH d" using nz by (auto simp: BIGNUM_ZERO_P_def)
      obtain q r where "bignum_divide_unsigned_large_denominator n d False True False s
          = Some (if False then Some q else None, if True then Some r else None)"
        "True \<longrightarrow> returns_bignum (Some r) (if s then - (bignum_mag n mod bignum_mag d) else bignum_mag n mod bignum_mag d)"
        using returns_large_denominator [OF wf len l less_imp_le [OF 3(2)], of False True False s] by blast
      with nz 3 False returns_oob_Some show ?thesis by (simp add: bignum_remainder_def s_def [symmetric] split del: if_split)
    qed
  qed (use nz pos in \<open>auto simp: bignum_remainder_def returns_oob_def s_def [symmetric]\<close>)
  then show ?thesis using dz r by simp
qed

lemma returns_divide [val_simps]:
  assumes wf: "bignum_wf n" "bignum_wf d" and len: "BIGNUM_LENGTH n < BIGNUM_LENGTH_MAX"
  shows "if bignum_val d = 0 then bignum_divide n d = Some None
    else \<exists>q r. bignum_divide n d = Some (Some (q, r))
      \<and> returns_bignum (Some q) (quot_int (bignum_val n) (bignum_val d))
      \<and> returns_bignum (Some r) (rem_int (bignum_val n) (bignum_val d))"
proof (cases "BIGNUM_ZERO_P d \<or> BIGNUM_ZERO_P n")
  case True
  then show ?thesis using zero_cases [OF wf(1)] bignum_ZERO_P_iff [OF wf(2)] wf
    by (auto simp: bignum_divide_def returns_bignum_def)
next
  case nz: False
  define s t where "s = (if BIGNUM_NEGATIVE_P d then \<not> BIGNUM_NEGATIVE_P n else BIGNUM_NEGATIVE_P n)"
    and "t = BIGNUM_NEGATIVE_P n"
  have dz: "bignum_val d \<noteq> 0" using nz bignum_ZERO_P_iff [OF wf(2)] by simp
  have pos: "0 < bignum_mag d" "0 < bignum_mag n" using nz nonzero_mag wf by auto
  define Q R where "Q = (if s then - (bignum_mag n div bignum_mag d) else bignum_mag n div bignum_mag d)"
    and "R = (if t then - (bignum_mag n mod bignum_mag d) else bignum_mag n mod bignum_mag d)"
  note qr = quot_rem_val [OF wf, folded s_def t_def, folded Q_def R_def]
  note defs = bignum_divide_def Let_def t_def [symmetric] s_def [symmetric, folded t_def]
  have "\<exists>q r. bignum_divide n d = Some (Some (q, r)) \<and> returns_bignum (Some q) Q \<and> returns_bignum (Some r) R"
  proof (cases rule: compare_cases [OF wf])
    case 1
    then show ?thesis using nz pos by (simp add: defs Q_def R_def returns_bignum_def)
  next
    case 2
    then have "Q = 0" "R = bignum_val n" using pos by (simp_all add: Q_def R_def t_def bignum_val_def)
    then show ?thesis using 2 nz wf by (simp add: defs returns_bignum_def)
  next
    case 3
    show ?thesis
    proof (cases "BIGNUM_LENGTH d = 1")
      case True
      note sd = single_digit [OF wf(2) True]
      consider "BIGNUM_REF d 0 = 1" | "1 < BIGNUM_REF d 0" "BIGNUM_REF d 0 < BIGNUM_RADIX_ROOT" | "BIGNUM_RADIX_ROOT \<le> BIGNUM_REF d 0"
        using sd(3) by linarith
      then show ?thesis
      proof cases
        case 1
        then have "Q = (if s then - bignum_mag n else bignum_mag n)" "R = 0" using sd(2) by (simp_all add: Q_def R_def)
        moreover obtain b where "bignum_maybe_new_sign n s = Some b" "returns_bignum (Some b) (if s then - bignum_mag n else bignum_mag n)"
          using returns_maybe_new_sign [OF wf(1), of s] nz by (auto simp: returns_bignum_def)
        ultimately show ?thesis using 1 nz 3 True by (simp add: defs returns_bignum_def [of _ 0])
      next
        case 2
        obtain q r where "bignum_divide_unsigned_small_denominator n (BIGNUM_REF d 0) True s t = Some (q, if True then Some r else None)"
          "returns_bignum (Some q) Q" "returns_bignum (Some r) R"
          using returns_small_denominator [OF wf(1) _ 2, of True s t] nz unfolding Q_def R_def sd(2) by blast
        with nz 2 3 True show ?thesis by (simp add: defs)
      next
        case m: 3
        obtain q r where "bignum_divide_unsigned_medium_denominator n (BIGNUM_REF d 0) True True s t
            = Some (if True then Some q else None, if True then Some r else None)"
          "returns_bignum (Some q) Q" "returns_bignum (Some r) R"
          using returns_medium_denominator [OF wf(1) _ len m sd(4), of True True s t] nz unfolding Q_def R_def sd(2) by blast
        moreover have "BIGNUM_REF d 0 \<noteq> 1" using m ROOT_pos(2) by linarith
        ultimately show ?thesis using nz m 3 True by (simp add: defs)
      qed
    next
      case False
      then have l: "1 < BIGNUM_LENGTH d" using nz by (auto simp: BIGNUM_ZERO_P_def)
      obtain q r where "bignum_divide_unsigned_large_denominator n d True True s t
          = Some (if True then Some q else None, if True then Some r else None)"
        "returns_bignum (Some q) Q" "True \<longrightarrow> returns_bignum (Some r) R"
        using returns_large_denominator [OF wf len l less_imp_le [OF 3(2)], of True True s t] unfolding Q_def R_def by blast
      with nz 3 False show ?thesis by (simp add: defs)
    qed
  qed
  then show ?thesis using dz qr by simp
qed

subsection \<open>Properties\<close>

text \<open>C36: division of well-formed bignums reports a zero denominator and otherwise returns the
  quotient rounded towards zero and the remainder with the sign of the numerator; the three entry
  points agree, for one-digit and for longer denominators.\<close>

theorem bignum_division:
  assumes "bignum_wf n" "bignum_wf d" "BIGNUM_LENGTH n < BIGNUM_LENGTH_MAX"
  shows "if bignum_val d = 0
    then bignum_divide n d = Some None \<and> bignum_quotient n d = Some None \<and> bignum_remainder n d = Some None
    else (\<exists>q r. bignum_divide n d = Some (Some (q, r))
         \<and> returns_bignum (Some q) (quot_int (bignum_val n) (bignum_val d))
         \<and> returns_bignum (Some r) (rem_int (bignum_val n) (bignum_val d)))
       \<and> returns_oob (bignum_quotient n d) (quot_int (bignum_val n) (bignum_val d))
       \<and> returns_oob (bignum_remainder n d) (rem_int (bignum_val n) (bignum_val d))"
  using returns_divide [OF assms] returns_quotient [OF assms] returns_remainder [OF assms] by simp

theorem bignum_division_witness:
  "returns_oob (bignum_quotient (mk_bignum True [5, 7, 9]) (mk_bignum False [1, 3])) (- (3 * 2 ^ 62 + 1))
   \<and> returns_oob (bignum_remainder (mk_bignum True [5, 7, 9]) (mk_bignum False [1, 3])) (- (2 ^ 62 + 4))"
  using bignum_division [of "mk_bignum True [5, 7, 9]" "mk_bignum False [1, 3]"]
  by (simp add: concrete_bignum quot_int_def rem_int_def sgn_if)

text \<open>Dividing two digits by a normalized digit terminates and returns the exact quotient and
  remainder.\<close>

theorem bignum_digit_division:
  assumes "0 \<le> uh" "uh < v" "0 \<le> ul" "ul < BIGNUM_RADIX" "BIGNUM_RADIX_ROOT \<le> v" "v < BIGNUM_RADIX"
  shows "bignum_digit_divide uh ul v = Some ((uh * BIGNUM_RADIX + ul) mod v, (uh * BIGNUM_RADIX + ul) div v)"
  using assms by (rule bignum_digit_divide_spec)

theorem bignum_digit_division_witness:
  "bignum_digit_divide 3 5 (2 ^ 61 + 1) = Some (2305843009213693952, 5)"
  using bignum_digit_division [of 3 "2 ^ 61 + 1" 5] by (simp add: BIGNUM_RADIX_eq BIGNUM_RADIX_ROOT_eq)

end
