(* ===== verification/Object.thy ===== *)
theory Object
  imports Prelude
begin

text \<open>
  Tagged objects (\<open>src/src/microcode/object.h\<close> and \<open>types.h\<close>, the 64-bit
  configuration): a \<open>SCHEME_OBJECT\<close> is one 64-bit word, six bits of type code above
  58 bits of datum. The theory has the accessors and constructors, the fixnum and
  character encodings, and shows that each encoding is a bijection on its range.
\<close>

subsection \<open>Layout constants and type codes\<close>

type_synonym scheme_object = ulong

definition TYPE_CODE_LENGTH :: nat where "TYPE_CODE_LENGTH = 6"
definition N_TYPE_CODES :: ulong where "N_TYPE_CODES = 0x40"
definition DATUM_LENGTH :: nat where "DATUM_LENGTH = 58"
definition DATUM_MASK :: ulong where "DATUM_MASK = 0x03FFFFFFFFFFFFFF"
definition FIXNUM_LENGTH :: nat where "FIXNUM_LENGTH = 57"
definition FIXNUM_SIGN_BIT :: ulong where "FIXNUM_SIGN_BIT = 0x0200000000000000"
definition SIGN_MASK :: ulong where "SIGN_MASK = 0xFE00000000000000"
definition SMALLEST_FIXNUM :: long where "SMALLEST_FIXNUM = - 144115188075855872"
definition BIGGEST_FIXNUM :: long where "BIGGEST_FIXNUM = 144115188075855871"

definition TC_FALSE :: ulong where "TC_FALSE = 0x00"
definition TC_LIST :: ulong where "TC_LIST = 0x01"
definition TC_CHARACTER :: ulong where "TC_CHARACTER = 0x02"
definition TC_BIG_FLONUM :: ulong where "TC_BIG_FLONUM = 0x06"
definition TC_CONSTANT :: ulong where "TC_CONSTANT = 0x08"
definition TC_BIG_FIXNUM :: ulong where "TC_BIG_FIXNUM = 0x0E"
definition TC_FIXNUM :: ulong where "TC_FIXNUM = 0x1A"
definition TC_MANIFEST_NM_VECTOR :: ulong where "TC_MANIFEST_NM_VECTOR = 0x27"

lemmas layout_defs = DATUM_LENGTH_def DATUM_MASK_def FIXNUM_LENGTH_def
  FIXNUM_SIGN_BIT_def SIGN_MASK_def
lemmas tc_defs = TC_FALSE_def TC_LIST_def TC_CHARACTER_def TC_BIG_FLONUM_def
  TC_CONSTANT_def TC_BIG_FIXNUM_def TC_FIXNUM_def

subsection \<open>Basic object structure\<close>

definition OBJECT_TYPE :: "scheme_object \<Rightarrow> ulong" where
  "OBJECT_TYPE object = drop_bit DATUM_LENGTH object"

definition OBJECT_DATUM :: "scheme_object \<Rightarrow> ulong" where
  "OBJECT_DATUM object = object AND DATUM_MASK"

definition MAKE_OBJECT :: "ulong \<Rightarrow> ulong \<Rightarrow> scheme_object" where
  "MAKE_OBJECT type datum = push_bit DATUM_LENGTH type OR datum"

definition OBJECT_NEW_TYPE :: "ulong \<Rightarrow> scheme_object \<Rightarrow> scheme_object" where
  "OBJECT_NEW_TYPE type datum_object = MAKE_OBJECT type (OBJECT_DATUM datum_object)"

definition OBJECT_NEW_DATUM :: "scheme_object \<Rightarrow> ulong \<Rightarrow> scheme_object" where
  "OBJECT_NEW_DATUM type_object datum = MAKE_OBJECT (OBJECT_TYPE type_object) datum"

definition MAKE_OBJECT_FROM_OBJECTS :: "scheme_object \<Rightarrow> scheme_object \<Rightarrow> scheme_object" where
  "MAKE_OBJECT_FROM_OBJECTS type_object datum_object =
     MAKE_OBJECT (OBJECT_TYPE type_object) (OBJECT_DATUM datum_object)"

definition FIXNUM_P :: "scheme_object \<Rightarrow> bool" where
  "FIXNUM_P object \<longleftrightarrow> OBJECT_TYPE object = TC_FIXNUM"

definition CHARACTER_P :: "scheme_object \<Rightarrow> bool" where
  "CHARACTER_P object \<longleftrightarrow> OBJECT_TYPE object = TC_CHARACTER"

definition SHARP_F :: scheme_object where "SHARP_F = MAKE_OBJECT TC_FALSE 0"
definition SHARP_T :: scheme_object where "SHARP_T = MAKE_OBJECT TC_CONSTANT 0"
definition UNSPECIFIC :: scheme_object where "UNSPECIFIC = MAKE_OBJECT TC_CONSTANT 1"
definition EMPTY_LIST :: scheme_object where "EMPTY_LIST = MAKE_OBJECT TC_CONSTANT 9"

definition BOOLEAN_TO_OBJECT :: "bool \<Rightarrow> scheme_object" where
  "BOOLEAN_TO_OBJECT expression = (if expression then SHARP_T else SHARP_F)"

definition OBJECT_TO_BOOLEAN :: "scheme_object \<Rightarrow> bool" where
  "OBJECT_TO_BOOLEAN object \<longleftrightarrow> object \<noteq> SHARP_F"

subsection \<open>Fixnum operations\<close>

definition FIXNUM_ZERO_P :: "scheme_object \<Rightarrow> bool" where
  "FIXNUM_ZERO_P fixnum \<longleftrightarrow> OBJECT_DATUM fixnum = 0"

definition FIXNUM_NEGATIVE_P :: "scheme_object \<Rightarrow> bool" where
  "FIXNUM_NEGATIVE_P fixnum \<longleftrightarrow> fixnum AND FIXNUM_SIGN_BIT \<noteq> 0"

definition UNSIGNED_FIXNUM_P :: "scheme_object \<Rightarrow> bool" where
  "UNSIGNED_FIXNUM_P x \<longleftrightarrow> FIXNUM_P x \<and> \<not> FIXNUM_NEGATIVE_P x"

definition FIXNUM_EQUAL_P :: "scheme_object \<Rightarrow> scheme_object \<Rightarrow> bool" where
  "FIXNUM_EQUAL_P x y \<longleftrightarrow> OBJECT_DATUM x = OBJECT_DATUM y"

definition FIXNUM_POSITIVE_P :: "scheme_object \<Rightarrow> bool" where
  "FIXNUM_POSITIVE_P fixnum \<longleftrightarrow> \<not> (FIXNUM_ZERO_P fixnum \<or> FIXNUM_NEGATIVE_P fixnum)"

definition UNSIGNED_FIXNUM_TO_LONG :: "scheme_object \<Rightarrow> long" where
  "UNSIGNED_FIXNUM_TO_LONG fixnum = sint (OBJECT_DATUM fixnum)"

definition LONG_TO_UNSIGNED_FIXNUM :: "long \<Rightarrow> scheme_object" where
  "LONG_TO_UNSIGNED_FIXNUM n = MAKE_OBJECT TC_FIXNUM (word_of_int n)"

definition LONG_TO_FIXNUM_P :: "long \<Rightarrow> bool" where
  "LONG_TO_FIXNUM_P n \<longleftrightarrow>
     word_of_int n AND SIGN_MASK = 0 \<or> word_of_int n AND SIGN_MASK = SIGN_MASK"

definition LONG_TO_FIXNUM :: "long \<Rightarrow> scheme_object" where
  "LONG_TO_FIXNUM n = MAKE_OBJECT TC_FIXNUM (word_of_int n AND DATUM_MASK)"

definition FIXNUM_TO_LONG :: "scheme_object \<Rightarrow> long" where
  "FIXNUM_TO_LONG fixnum =
     sint ((fixnum XOR FIXNUM_SIGN_BIT) - (push_bit DATUM_LENGTH TC_FIXNUM OR FIXNUM_SIGN_BIT))"

definition FIXNUM_LESS_P :: "scheme_object \<Rightarrow> scheme_object \<Rightarrow> bool" where
  "FIXNUM_LESS_P x y \<longleftrightarrow> FIXNUM_TO_LONG x < FIXNUM_TO_LONG y"

definition ULONG_TO_FIXNUM_P :: "ulong \<Rightarrow> bool" where
  "ULONG_TO_FIXNUM_P n \<longleftrightarrow> n AND SIGN_MASK = 0"

definition ULONG_TO_FIXNUM :: "ulong \<Rightarrow> scheme_object" where
  "ULONG_TO_FIXNUM n = MAKE_OBJECT TC_FIXNUM n"

definition FIXNUM_TO_ULONG :: "scheme_object \<Rightarrow> ulong" where
  "FIXNUM_TO_ULONG fixnum = OBJECT_DATUM fixnum"

definition FIXNUM_ZERO :: scheme_object where
  "FIXNUM_ZERO = ULONG_TO_FIXNUM 0"

text \<open>The integers a fixnum can hold.\<close>

definition fits_fixnum :: "long \<Rightarrow> bool" where
  "fits_fixnum n \<longleftrightarrow> SMALLEST_FIXNUM \<le> n \<and> n \<le> BIGGEST_FIXNUM"

subsection \<open>Character operations\<close>

definition CODE_LENGTH :: nat where "CODE_LENGTH = 21"
definition BITS_LENGTH :: nat where "BITS_LENGTH = 4"
definition CHAR_MASK_CODE :: ulong where "CHAR_MASK_CODE = push_bit CODE_LENGTH 1 - 1"
definition CHAR_MASK_BITS :: ulong where "CHAR_MASK_BITS = push_bit BITS_LENGTH 1 - 1"

definition MAKE_CHAR :: "ulong \<Rightarrow> ulong \<Rightarrow> scheme_object" where
  "MAKE_CHAR bits code = MAKE_OBJECT TC_CHARACTER (push_bit CODE_LENGTH bits OR code)"

definition CHAR_BITS :: "scheme_object \<Rightarrow> ulong" where
  "CHAR_BITS c = drop_bit CODE_LENGTH (OBJECT_DATUM c) AND CHAR_MASK_BITS"

definition CHAR_CODE :: "scheme_object \<Rightarrow> ulong" where
  "CHAR_CODE c = OBJECT_DATUM c AND CHAR_MASK_CODE"

subsection \<open>Words as integers\<close>

lemma DATUM_MASK_mask: "DATUM_MASK = mask 58"
  by (simp add: DATUM_MASK_def mask_eq_exp_minus_1)

lemma uint_OBJECT_TYPE: "uint (OBJECT_TYPE w) = uint w div 2 ^ 58"
  by (simp add: OBJECT_TYPE_def DATUM_LENGTH_def drop_bit_eq_div uint_div)

lemma uint_OBJECT_DATUM: "uint (OBJECT_DATUM w) = uint w mod 2 ^ 58"
  unfolding OBJECT_DATUM_def DATUM_MASK_mask by (rule uint_and_mask)

lemma uint_MAKE_OBJECT:
  assumes "t < 64" and "d < 2 ^ 58"
  shows "uint (MAKE_OBJECT t d) = uint t * 2 ^ 58 + uint d"
proof -
  have t: "uint t < 64" using assms(1) by (simp add: word_less_def)
  have d: "uint d < 2 ^ 58" using assms(2) by (simp add: word_less_def)
  have "uint (push_bit 58 t) = push_bit 58 (uint t)" using t by (intro uint_push_bit_ulong) simp
  with d show ?thesis
    by (simp add: MAKE_OBJECT_def DATUM_LENGTH_def unsigned_or_eq push_or_eq_add del: push_bit_of_1)
qed

lemma OBJECT_TYPE_MAKE_OBJECT [simp]:
  "t < 64 \<Longrightarrow> d < 2 ^ 58 \<Longrightarrow> OBJECT_TYPE (MAKE_OBJECT t d) = t"
  by (rule word_uint_eqI) (simp add: uint_OBJECT_TYPE uint_MAKE_OBJECT word_less_def)

lemma OBJECT_DATUM_MAKE_OBJECT [simp]:
  "t < 64 \<Longrightarrow> d < 2 ^ 58 \<Longrightarrow> OBJECT_DATUM (MAKE_OBJECT t d) = d"
  by (rule word_uint_eqI) (simp add: uint_OBJECT_DATUM uint_MAKE_OBJECT word_less_def)

lemma OBJECT_TYPE_less [simp]: "OBJECT_TYPE w < 64"
  using uint_lt2p [of w] by (simp add: word_less_def uint_OBJECT_TYPE)

lemma OBJECT_DATUM_less [simp]: "OBJECT_DATUM w < 2 ^ 58"
  by (simp add: word_less_def uint_OBJECT_DATUM)

lemma MAKE_OBJECT_collapse [simp]: "MAKE_OBJECT (OBJECT_TYPE w) (OBJECT_DATUM w) = w"
proof (rule word_uint_eqI)
  have "uint (MAKE_OBJECT (OBJECT_TYPE w) (OBJECT_DATUM w)) = uint w div 2 ^ 58 * 2 ^ 58 + uint w mod 2 ^ 58"
    by (simp only: uint_MAKE_OBJECT OBJECT_TYPE_less OBJECT_DATUM_less uint_OBJECT_TYPE uint_OBJECT_DATUM)
  then show "uint (MAKE_OBJECT (OBJECT_TYPE w) (OBJECT_DATUM w)) = uint w"
    by (simp only: div_mult_mod_eq)
qed

subsection \<open>Fixnums and characters are encoded faithfully\<close>

lemma FIXNUM_P_iff: "FIXNUM_P w \<longleftrightarrow> uint w div 2 ^ 58 = 26"
  by (simp add: FIXNUM_P_def word_uint_eq_iff uint_OBJECT_TYPE TC_FIXNUM_def)

lemma FIXNUM_P_MAKE_OBJECT [simp]: "d < 2 ^ 58 \<Longrightarrow> FIXNUM_P (MAKE_OBJECT TC_FIXNUM d)"
  by (simp add: FIXNUM_P_def TC_FIXNUM_def)

lemma FIXNUM_TO_LONG_eq:
  assumes "FIXNUM_P w"
  shows "FIXNUM_TO_LONG w =
    (let d = uint (OBJECT_DATUM w) in if d < 2 ^ 57 then d else d - 2 ^ 58)"
proof -
  define d where "d = uint (OBJECT_DATUM w)"
  have w: "uint w = 26 * 2 ^ 58 + d"
    using assms div_mult_mod_eq [of "uint w" "2 ^ 58"] by (simp add: FIXNUM_P_iff d_def uint_OBJECT_DATUM)
  have d: "0 \<le> d" "d < 2 ^ 58" by (simp_all add: d_def uint_OBJECT_DATUM)
  have b: "bit (uint w) 57 \<longleftrightarrow> \<not> d < 2 ^ 57"
  proof -
    have "(26 * 2 ^ 58 + d) div 2 ^ 57 = 52 + d div 2 ^ 57" by simp
    moreover have "d div 2 ^ 57 = (if d < 2 ^ 57 then 0 else 1)" using d by (auto intro: int_div_pos_eq)
    ultimately show ?thesis unfolding w bit_iff_odd by simp
  qed
  have x: "uint (w XOR FIXNUM_SIGN_BIT) = uint w XOR 2 ^ 57"
    by (simp add: unsigned_xor_eq FIXNUM_SIGN_BIT_def)
  have "w XOR FIXNUM_SIGN_BIT = word_of_int (uint w XOR 2 ^ 57)"
    by (metis x word_of_int_uint)
  then have "(w XOR FIXNUM_SIGN_BIT) - (push_bit DATUM_LENGTH TC_FIXNUM OR FIXNUM_SIGN_BIT)
      = word_of_int ((uint w XOR 2 ^ 57) - (26 * 2 ^ 58 + 2 ^ 57))"
    by (simp add: DATUM_LENGTH_def TC_FIXNUM_def FIXNUM_SIGN_BIT_def push_bit_eq_mult)
  also have "(uint w XOR 2 ^ 57) - (26 * 2 ^ 58 + 2 ^ 57) = (if d < 2 ^ 57 then d else d - 2 ^ 58)"
    unfolding xor_power_of_two b by (simp add: w)
  finally show ?thesis
    using d unfolding FIXNUM_TO_LONG_def Let_def d_def [symmetric]
    by (simp only:) (rule sint_word_of_int_ulong, auto simp: fits_long_def)
qed
lemma FIXNUM_TO_LONG_bounds:
  assumes "FIXNUM_P w"
  shows "- (2 ^ 57) \<le> FIXNUM_TO_LONG w" and "FIXNUM_TO_LONG w < 2 ^ 57"
  using uint_OBJECT_DATUM [of w] by (auto simp: FIXNUM_TO_LONG_eq [OF assms] Let_def)

lemma uint_word_of_int_datum: "uint (word_of_int n AND DATUM_MASK :: ulong) = n mod 2 ^ 58"
  by (simp add: DATUM_MASK_mask uint_and_mask uint_word_of_int mod_mod_cancel del: uint_and)

lemma datum_word_less [simp]: "(word_of_int n AND DATUM_MASK :: ulong) < 288230376151711744"
  using uint_word_of_int_datum [of n] by (simp add: word_less_def)

lemma FIXNUM_P_LONG_TO_FIXNUM [simp]: "FIXNUM_P (LONG_TO_FIXNUM n)"
  by (simp add: LONG_TO_FIXNUM_def)

lemma uint_datum_LONG_TO_FIXNUM: "uint (OBJECT_DATUM (LONG_TO_FIXNUM n)) = n mod 2 ^ 58"
  using uint_word_of_int_datum [of n] by (simp add: LONG_TO_FIXNUM_def TC_FIXNUM_def)

lemma FIXNUM_TO_LONG_TO_FIXNUM:
  assumes "- (2 ^ 57) \<le> n" and "n < 2 ^ 57"
  shows "FIXNUM_TO_LONG (LONG_TO_FIXNUM n) = n"
proof -
  have "n mod 2 ^ 58 = (if n < 0 then n + 2 ^ 58 else n)"
    using assms by (intro mod_signed_range) simp_all
  with assms show ?thesis
    by (simp only: FIXNUM_TO_LONG_eq FIXNUM_P_LONG_TO_FIXNUM Let_def uint_datum_LONG_TO_FIXNUM) simp
qed

lemma LONG_TO_FIXNUM_TO_LONG:
  assumes "FIXNUM_P w"
  shows "LONG_TO_FIXNUM (FIXNUM_TO_LONG w) = w"
proof -
  have "uint (OBJECT_DATUM (LONG_TO_FIXNUM (FIXNUM_TO_LONG w))) = uint (OBJECT_DATUM w)"
    using uint_OBJECT_DATUM [of w] by (simp add: uint_datum_LONG_TO_FIXNUM FIXNUM_TO_LONG_eq [OF assms] Let_def)
  then have "OBJECT_DATUM (LONG_TO_FIXNUM (FIXNUM_TO_LONG w)) = OBJECT_DATUM w" by (rule word_uint_eqI)
  moreover have "OBJECT_TYPE (LONG_TO_FIXNUM (FIXNUM_TO_LONG w)) = OBJECT_TYPE w"
    using assms FIXNUM_P_LONG_TO_FIXNUM by (metis FIXNUM_P_def)
  ultimately show ?thesis by (metis MAKE_OBJECT_collapse)
qed

lemma uint_and_SIGN_MASK: "uint (u AND SIGN_MASK) = uint u - uint u mod 2 ^ 57" for u :: ulong
proof -
  have m: "SIGN_MASK = NOT (mask 57)" by (simp add: SIGN_MASK_def mask_eq_exp_minus_1)
  have "u = (u AND mask 57) OR (u AND NOT (mask 57))" by (rule bit_eqI) (auto simp: bit_simps)
  moreover have "(u AND mask 57) AND (u AND NOT (mask 57)) = 0" by (rule bit_eqI) (auto simp: bit_simps)
  ultimately have "u = (u AND mask 57) + (u AND NOT (mask 57))" by (metis disjunctive_add_eq_or)
  then have "u AND SIGN_MASK = u - (u AND mask 57)" using m by (metis add_diff_cancel_left')
  moreover have "uint (u AND mask 57) \<le> uint u"
    by (simp only: uint_and_mask) (simp add: zmod_le_nonneg_dividend)
  ultimately have "uint (u AND SIGN_MASK) = uint u - uint (u AND mask 57)"
    by (simp only: uint_sub_lem [THEN iffD1])
  then show ?thesis by (simp only: uint_and_mask)
qed

lemma LONG_TO_FIXNUM_P_iff:
  assumes "fits_long n"
  shows "LONG_TO_FIXNUM_P n \<longleftrightarrow> - (2 ^ 57) \<le> n \<and> n < 2 ^ 57"
proof -
  define u where "u = uint (word_of_int n :: ulong)"
  have u: "u = (if n < 0 then n + 2 ^ 64 else n)"
    using assms mod_signed_range [of "2 ^ 64" n] by (simp add: u_def uint_word_of_int fits_long_def)
  have "LONG_TO_FIXNUM_P n \<longleftrightarrow> u - u mod 2 ^ 57 = 0 \<or> u - u mod 2 ^ 57 = 2 ^ 64 - 2 ^ 57"
    by (simp add: LONG_TO_FIXNUM_P_def word_uint_eq_iff uint_and_SIGN_MASK u_def) (simp add: SIGN_MASK_def)
  also have "\<dots> \<longleftrightarrow> u < 2 ^ 57 \<or> 2 ^ 64 - 2 ^ 57 \<le> u"
  proof -
    have bnd: "0 \<le> u" "u < 2 ^ 64" using uint_lt2p [of "word_of_int n :: ulong"] by (simp_all add: u_def)
    have eq: "u - u mod 2 ^ 57 = 2 ^ 57 * (u div 2 ^ 57)" by (simp add: minus_mod_eq_mult_div)
    have "u - u mod 2 ^ 57 = 0 \<longleftrightarrow> u < 2 ^ 57"
      unfolding eq using bnd by (auto simp: zdiv_eq_0_iff)
    moreover have "u - u mod 2 ^ 57 = 2 ^ 64 - 2 ^ 57 \<longleftrightarrow> u div 2 ^ 57 = 127"
      unfolding eq by simp
    moreover have "u div 2 ^ 57 = 127 \<longleftrightarrow> 2 ^ 64 - 2 ^ 57 \<le> u"
      using bnd by (auto intro: int_div_pos_eq)
    ultimately show ?thesis by simp
  qed
  also have "\<dots> \<longleftrightarrow> - (2 ^ 57) \<le> n \<and> n < 2 ^ 57"
    using assms by (auto simp: u fits_long_def)
  finally show ?thesis .
qed


lemma FIXNUM_ZERO_P_iff: "FIXNUM_P w \<Longrightarrow> FIXNUM_ZERO_P w \<longleftrightarrow> FIXNUM_TO_LONG w = 0"
  using uint_lt2p [of "OBJECT_DATUM w"] OBJECT_DATUM_less [of w]
  by (auto simp: FIXNUM_ZERO_P_def FIXNUM_TO_LONG_eq Let_def word_uint_eq_iff word_less_def)

lemma FIXNUM_NEGATIVE_P_iff:
  assumes "FIXNUM_P w"
  shows "FIXNUM_NEGATIVE_P w \<longleftrightarrow> FIXNUM_TO_LONG w < 0"
proof -
  define d where "d = uint (OBJECT_DATUM w)"
  have d: "0 \<le> d" "d < 2 ^ 58" by (simp_all add: d_def uint_OBJECT_DATUM)
  have "FIXNUM_NEGATIVE_P w \<longleftrightarrow> bit w 57"
    using and_exp_eq_0_iff_not_bit [of w 57] by (simp add: FIXNUM_NEGATIVE_P_def FIXNUM_SIGN_BIT_def)
  also have "\<dots> \<longleftrightarrow> bit d 57"
    by (simp add: d_def OBJECT_DATUM_def DATUM_MASK_mask bit_uint_iff bit_simps)
  also have "\<dots> \<longleftrightarrow> \<not> d < 2 ^ 57"
  proof -
    have "d div 2 ^ 57 = (if d < 2 ^ 57 then 0 else 1)" using d by (auto intro: int_div_pos_eq)
    then show ?thesis by (simp add: bit_iff_odd)
  qed
  finally show ?thesis using d by (auto simp: FIXNUM_TO_LONG_eq [OF assms] Let_def d_def [symmetric])
qed

lemma FIXNUM_TO_LONG_inject:
  "FIXNUM_P x \<Longrightarrow> FIXNUM_P y \<Longrightarrow> FIXNUM_TO_LONG x = FIXNUM_TO_LONG y \<longleftrightarrow> x = y"
  by (metis LONG_TO_FIXNUM_TO_LONG)

lemma FIXNUM_EQUAL_P_iff:
  assumes "FIXNUM_P x" and "FIXNUM_P y"
  shows "FIXNUM_EQUAL_P x y \<longleftrightarrow> FIXNUM_TO_LONG x = FIXNUM_TO_LONG y"
proof -
  from assms have "OBJECT_TYPE x = OBJECT_TYPE y" by (simp add: FIXNUM_P_def)
  then have "OBJECT_DATUM x = OBJECT_DATUM y \<longleftrightarrow> x = y" by (metis MAKE_OBJECT_collapse)
  with assms show ?thesis by (simp add: FIXNUM_EQUAL_P_def FIXNUM_TO_LONG_inject)
qed

lemma FIXNUM_POSITIVE_P_iff: "FIXNUM_P w \<Longrightarrow> FIXNUM_POSITIVE_P w \<longleftrightarrow> FIXNUM_TO_LONG w > 0"
  by (auto simp: FIXNUM_POSITIVE_P_def FIXNUM_ZERO_P_iff FIXNUM_NEGATIVE_P_iff)

lemma SHARP_F_eq [simp]: "SHARP_F = 0"
  by (simp add: SHARP_F_def MAKE_OBJECT_def TC_FALSE_def)

lemma not_FIXNUM_P_SHARP_F [simp]: "\<not> FIXNUM_P 0"
  by (simp add: FIXNUM_P_iff)

lemma SHARP_T_neq_SHARP_F [simp]: "SHARP_T \<noteq> 0"
  by (simp add: SHARP_T_def MAKE_OBJECT_def TC_CONSTANT_def DATUM_LENGTH_def)

lemma ULONG_TO_FIXNUM_eq:
  assumes "uint n < 2 ^ 57"
  shows "ULONG_TO_FIXNUM n = LONG_TO_FIXNUM (uint n)"
proof -
  have "n AND DATUM_MASK = n"
    using assms by (intro word_uint_eqI) (simp only: DATUM_MASK_mask uint_and_mask, simp)
  then show ?thesis by (simp add: ULONG_TO_FIXNUM_def LONG_TO_FIXNUM_def)
qed

text \<open>Characters: the bucky bits and the code point are recovered.\<close>

lemma char_roundtrip:
  assumes "bits < 16" and "code < 2097152"
  shows "CHARACTER_P (MAKE_CHAR bits code)"
    and "CHAR_BITS (MAKE_CHAR bits code) = bits"
    and "CHAR_CODE (MAKE_CHAR bits code) = code"
proof -
  define d where "d = push_bit 21 bits OR code"
  have b: "uint bits < 16" and c: "uint code < 2 ^ 21"
    using assms by (simp_all add: word_less_def)
  have "uint (push_bit 21 bits) = push_bit 21 (uint bits)"
    using b by (intro uint_push_bit_ulong) simp
  then have ud: "uint d = uint bits * 2 ^ 21 + uint code"
    using c by (simp add: d_def unsigned_or_eq push_or_eq_add)
  then have d58: "d < 2 ^ 58" using b c by (simp add: word_less_def)
  have mk: "MAKE_CHAR bits code = MAKE_OBJECT TC_CHARACTER d"
    by (simp add: MAKE_CHAR_def d_def CODE_LENGTH_def)
  have dat: "OBJECT_DATUM (MAKE_CHAR bits code) = d"
    unfolding mk using d58 by (intro OBJECT_DATUM_MAKE_OBJECT) (simp_all add: TC_CHARACTER_def)
  show "CHARACTER_P (MAKE_CHAR bits code)"
    unfolding mk CHARACTER_P_def using d58 by (intro OBJECT_TYPE_MAKE_OBJECT) (simp_all add: TC_CHARACTER_def)
  have mb: "CHAR_MASK_BITS = mask 4" and mc: "CHAR_MASK_CODE = mask 21"
    by (simp_all add: CHAR_MASK_BITS_def CHAR_MASK_CODE_def BITS_LENGTH_def CODE_LENGTH_def mask_eq_exp_minus_1)
  show "CHAR_BITS (MAKE_CHAR bits code) = bits"
    unfolding CHAR_BITS_def dat mb CODE_LENGTH_def
    by (rule word_uint_eqI) (simp only: uint_and_mask drop_bit_eq_div uint_div unsigned_drop_bit_eq, use b c ud in simp)
  show "CHAR_CODE (MAKE_CHAR bits code) = code"
    unfolding CHAR_CODE_def dat mc
    by (rule word_uint_eqI) (simp only: uint_and_mask ud, use c in simp)
qed

subsection \<open>The fixnum range\<close>

lemma fits_fixnum_iff: "fits_fixnum n \<longleftrightarrow> - (2 ^ 57) \<le> n \<and> n < 2 ^ 57"
  by (auto simp: fits_fixnum_def SMALLEST_FIXNUM_def BIGGEST_FIXNUM_def)

lemma fits_fixnum_FIXNUM_TO_LONG [simp]: "FIXNUM_P w \<Longrightarrow> fits_fixnum (FIXNUM_TO_LONG w)"
  using FIXNUM_TO_LONG_bounds [of w] by (simp add: fits_fixnum_iff)

lemma fits_fixnum_fits_long: "fits_fixnum n \<Longrightarrow> fits_long n"
  by (simp add: fits_fixnum_iff fits_long_def)

lemma LONG_TO_FIXNUM_P_eq: "fits_long n \<Longrightarrow> LONG_TO_FIXNUM_P n = fits_fixnum n"
  by (simp add: LONG_TO_FIXNUM_P_iff fits_fixnum_iff)

lemma FIXNUM_TO_LONG_LONG_TO_FIXNUM [simp]: "fits_fixnum n \<Longrightarrow> FIXNUM_TO_LONG (LONG_TO_FIXNUM n) = n"
  by (simp add: fits_fixnum_iff FIXNUM_TO_LONG_TO_FIXNUM)

end
