(* ===== verification/Bignum_Conv.thy ===== *)
theory Bignum_Conv
  imports Bignum_Div Object
begin

text \<open>
  Conversions between bignums and machine integers, digit streams and floating-point
  numbers (\<open>bignum.c\<close> and the conversion macros of \<open>object.h\<close>). On a 64-bit
  system \<open>intmax_t\<close> is \<open>long\<close>. Negating the smallest \<open>long\<close> is undefined in
  C; the model wraps, as the target machines do.
\<close>

subsection \<open>Machine integers\<close>

definition bignum_from_digits :: "int list \<Rightarrow> bool \<Rightarrow> bignum option" where
  "bignum_from_digits ds negative_p = do {
     result \<leftarrow> bignum_allocate (length ds) negative_p;
     Some (result \<lparr> BIGNUM_DIGITS := ds \<rparr>) }"

text \<open>The do-while loop that splits an accumulator into digits.\<close>

function accumulator_digits :: "ulong \<Rightarrow> int list" where
  "accumulator_digits accumulator =
     uint (accumulator AND word_of_int BIGNUM_DIGIT_MASK)
       # (if drop_bit BIGNUM_DIGIT_LENGTH accumulator \<noteq> 0
          then accumulator_digits (drop_bit BIGNUM_DIGIT_LENGTH accumulator) else [])"
  by pat_completeness auto
termination
proof (relation "measure (\<lambda>a. nat (uint a))")
  fix a :: ulong
  assume nz: "drop_bit BIGNUM_DIGIT_LENGTH a \<noteq> 0"
  then have "uint a \<noteq> 0" by (metis drop_bit_of_0 uint_0_iff)
  then have "uint a div 2 ^ 62 < uint a" by (intro int_div_less_self) (simp_all add: order_less_le)
  then show "(drop_bit BIGNUM_DIGIT_LENGTH a, a) \<in> measure (\<lambda>a. nat (uint a))"
    by (simp only: BIGNUM_DIGIT_LENGTH_def in_measure uint_drop_bit_ulong) (simp add: nat_less_iff)
qed simp

declare accumulator_digits.simps [simp del]

definition DEFINE_INT_TO_BIGNUM :: "long \<Rightarrow> bignum option" where
  "DEFINE_INT_TO_BIGNUM n =
    (if n = 0 then Some bignum_make_zero
     else if n = 1 then Some (bignum_make_one False)
     else if n = - 1 then Some (bignum_make_one True)
     else bignum_from_digits (accumulator_digits (word_of_int (if n < 0 then - n else n))) (n < 0))"

definition long_to_bignum :: "long \<Rightarrow> bignum option" where
  "long_to_bignum = DEFINE_INT_TO_BIGNUM"

definition intmax_to_bignum :: "long \<Rightarrow> bignum option" where
  "intmax_to_bignum = DEFINE_INT_TO_BIGNUM"

text \<open>The accumulating loop scans from the most significant digit.\<close>

fun accumulate_digits :: "int list \<Rightarrow> ulong" where
  "accumulate_digits [] = 0"
| "accumulate_digits (d # ds) = push_bit BIGNUM_DIGIT_LENGTH (accumulate_digits ds) + word_of_int d"

definition DEFINE_BIGNUM_TO_INT :: "bignum \<Rightarrow> long" where
  "DEFINE_BIGNUM_TO_INT bignum =
    (if BIGNUM_ZERO_P bignum then 0
     else let accumulator = accumulate_digits (BIGNUM_DIGITS bignum)
          in if BIGNUM_NEGATIVE_P bignum then sint (- accumulator) else sint accumulator)"

definition bignum_to_long :: "bignum \<Rightarrow> long" where
  "bignum_to_long = DEFINE_BIGNUM_TO_INT"

definition bignum_to_intmax :: "bignum \<Rightarrow> long" where
  "bignum_to_intmax = DEFINE_BIGNUM_TO_INT"

definition DEFINE_UINT_TO_BIGNUM :: "ulong \<Rightarrow> bignum option" where
  "DEFINE_UINT_TO_BIGNUM n =
    (if n = 0 then Some bignum_make_zero
     else if n = 1 then Some (bignum_make_one False)
     else bignum_from_digits (accumulator_digits n) False)"

definition ulong_to_bignum :: "ulong \<Rightarrow> bignum option" where
  "ulong_to_bignum = DEFINE_UINT_TO_BIGNUM"

definition uintmax_to_bignum :: "ulong \<Rightarrow> bignum option" where
  "uintmax_to_bignum = DEFINE_UINT_TO_BIGNUM"

definition DEFINE_BIGNUM_TO_UINT :: "bignum \<Rightarrow> ulong option" where
  "DEFINE_BIGNUM_TO_UINT bignum =
    (if BIGNUM_ZERO_P bignum then Some 0
     else do {
       BIGNUM_ASSERT (BIGNUM_POSITIVE_P bignum);
       Some (accumulate_digits (BIGNUM_DIGITS bignum)) })"

definition bignum_to_ulong :: "bignum \<Rightarrow> ulong option" where
  "bignum_to_ulong = DEFINE_BIGNUM_TO_UINT"

definition bignum_to_uintmax :: "bignum \<Rightarrow> ulong option" where
  "bignum_to_uintmax = DEFINE_BIGNUM_TO_UINT"

text \<open>The length is compared as an \<open>unsigned int\<close>, that is modulo \<open>2 ^ 32\<close>.\<close>

definition bignum_fits_in_word_p :: "bignum \<Rightarrow> nat \<Rightarrow> bool \<Rightarrow> bool option" where
  "bignum_fits_in_word_p bignum word_length twos_complement_p =
    (if \<not> twos_complement_p \<and> BIGNUM_NEGATIVE_P bignum then Some False
     else do {
       let n_bits = (if twos_complement_p then word_length - 1 else word_length);
       BIGNUM_ASSERT (n_bits > 0);
       let length' = BIGNUM_LENGTH bignum;
       let max_digits = BIGNUM_BITS_TO_DIGITS n_bits;
       if length' mod 2 ^ 32 < max_digits then Some True
       else if length' mod 2 ^ 32 > max_digits then Some False
       else let msd = BIGNUM_REF bignum (length' - 1);
                max' = push_bit (n_bits - (length' - 1) * BIGNUM_DIGIT_LENGTH) 1
            in Some (msd < max' \<or> twos_complement_p \<and> msd = max' \<and> BIGNUM_NEGATIVE_P bignum) })"

definition BIGNUM_TO_LONG_P :: "bignum \<Rightarrow> bool option" where
  "BIGNUM_TO_LONG_P bignum = bignum_fits_in_word_p bignum 64 True"

definition BIGNUM_TO_ULONG_P :: "bignum \<Rightarrow> bool option" where
  "BIGNUM_TO_ULONG_P bignum = bignum_fits_in_word_p bignum 64 False"

definition BIGNUM_TO_FIXNUM_P :: "bignum \<Rightarrow> bool option" where
  "BIGNUM_TO_FIXNUM_P bignum = bignum_fits_in_word_p bignum (FIXNUM_LENGTH + 1) True"

definition FIXNUM_TO_BIGNUM :: "scheme_object \<Rightarrow> bignum option" where
  "FIXNUM_TO_BIGNUM fixnum = long_to_bignum (FIXNUM_TO_LONG fixnum)"

definition BIGNUM_TO_FIXNUM :: "bignum \<Rightarrow> scheme_object" where
  "BIGNUM_TO_FIXNUM bignum = LONG_TO_FIXNUM (bignum_to_long bignum)"

subsection \<open>Digit streams\<close>

text \<open>The producer is the list of digits it yields, most significant first. The bit count is a
  product of two \<open>unsigned int\<close> values.\<close>

fun digit_stream_loop :: "bignum \<Rightarrow> int \<Rightarrow> int list \<Rightarrow> bignum option" where
  "digit_stream_loop result radix [] = Some result"
| "digit_stream_loop result radix (d # ds) = do {
     result \<leftarrow> bignum_destructive_scale_up result radix;
     result \<leftarrow> bignum_destructive_add result d;
     digit_stream_loop result radix ds }"

definition digit_stream_to_bignum :: "int list \<Rightarrow> nat \<Rightarrow> bool \<Rightarrow> bignum option" where
  "digit_stream_to_bignum producer radix negative_p = do {
     BIGNUM_ASSERT (radix > 1 \<and> int radix \<le> BIGNUM_RADIX_ROOT);
     let n_digits = length producer;
     if n_digits = 0 then Some bignum_make_zero
     else if n_digits = 1
     then long_to_bignum (if negative_p then - hd producer else hd producer)
     else do {
       let length' = BIGNUM_BITS_TO_DIGITS
             ((n_digits * ulong_length_in_bits (word_of_int (int radix))) mod 2 ^ 32);
       result \<leftarrow> bignum_allocate_zeroed length' negative_p;
       result \<leftarrow> digit_stream_loop result (int radix) producer;
       Some (bignum_trim result) } }"

text \<open>The consumer receives digits least significant first; the model returns their list. The scan
  pointer moves down over leading zero digits; each division makes the number smaller.\<close>

partial_function (option) to_digit_stream_loop :: "bignum \<Rightarrow> nat \<Rightarrow> int \<Rightarrow> int list option" where
  "to_digit_stream_loop working_copy scan radix =
    (if scan = 0 then Some []
     else if BIGNUM_DIGITS working_copy ! (scan - 1) = 0
     then to_digit_stream_loop working_copy (scan - 1) radix
     else Option.bind (bignum_destructive_scale_down working_copy radix) (\<lambda>(w, d).
            Option.bind (to_digit_stream_loop w scan radix) (\<lambda>ds. Some (d # ds))))"

definition bignum_to_digit_stream :: "bignum \<Rightarrow> nat \<Rightarrow> int list option" where
  "bignum_to_digit_stream bignum radix = do {
     BIGNUM_ASSERT (radix > 1 \<and> int radix \<le> BIGNUM_RADIX_ROOT);
     if BIGNUM_ZERO_P bignum then Some []
     else do {
       working_copy \<leftarrow> bignum_copy bignum;
       to_digit_stream_loop working_copy (BIGNUM_LENGTH working_copy) (int radix) } }"

definition bignum_max_digit_stream_radix :: long where
  "bignum_max_digit_stream_radix = BIGNUM_RADIX_ROOT"

subsection \<open>Machine integers: correctness\<close>

lemma mask62: "word_of_int BIGNUM_DIGIT_MASK = (mask 62 :: ulong)"
  by (simp add: BIGNUM_DIGIT_MASK_def BIGNUM_RADIX_eq mask_eq_exp_minus_1)

lemma accumulator_digits_eq:
  "accumulator_digits a = (if uint a div 2 ^ 62 = 0 then [uint a mod 2 ^ 62] else [uint a mod 2 ^ 62, uint a div 2 ^ 62])"
proof -
  define h where "h = drop_bit BIGNUM_DIGIT_LENGTH a"
  have l: "uint (w AND word_of_int BIGNUM_DIGIT_MASK) = uint w mod 2 ^ 62" for w :: ulong
    unfolding mask62 by (rule uint_and_mask)
  have h: "uint h = uint a div 2 ^ 62" by (simp only: h_def BIGNUM_DIGIT_LENGTH_def uint_drop_bit_ulong)
  have "uint a < 2 ^ 64" using uint_lt2p [of a] by simp
  then have h4: "uint h < 4" unfolding h by (simp add: zdiv_less_iff)
  have "uint (drop_bit BIGNUM_DIGIT_LENGTH h) = uint h div 2 ^ 62" by (simp only: BIGNUM_DIGIT_LENGTH_def uint_drop_bit_ulong)
  also have "\<dots> = 0" using h4 by (intro div_pos_pos_trivial) simp_all
  finally have hh: "drop_bit BIGNUM_DIGIT_LENGTH h = 0" by (simp add: uint_0_iff)
  have hm: "uint h mod 2 ^ 62 = uint h" using h4 by (intro mod_pos_pos_trivial) simp_all
  have h0: "uint h = 0 \<longleftrightarrow> h = 0" by (simp only: uint_0_iff)
  show ?thesis
    unfolding h [symmetric] h0
    by (subst accumulator_digits.simps, subst accumulator_digits.simps) (simp only: hh l h_def [symmetric] hm simp_thms if_False split: if_split, blast)
qed

lemma accumulator_digits_spec:
  "digits_in BIGNUM_RADIX (accumulator_digits a)"
  "a \<noteq> 0 \<Longrightarrow> digits_wf (accumulator_digits a)"
  "rval BIGNUM_RADIX (accumulator_digits a) = uint a"
  "length (accumulator_digits a) \<le> BIGNUM_DIGIT_LENGTH"
proof -
  have a: "0 \<le> uint a" "uint a < 2 ^ 64" using uint_lt2p [of a] by simp_all
  have d: "0 \<le> uint a div 2 ^ 62" "uint a div 2 ^ 62 < BIGNUM_RADIX" "0 \<le> uint a mod 2 ^ 62" "uint a mod 2 ^ 62 < BIGNUM_RADIX"
    using a by (simp_all add: BIGNUM_RADIX_eq zdiv_less_iff pos_imp_zdiv_nonneg_iff)
  show "digits_in BIGNUM_RADIX (accumulator_digits a)"
    unfolding accumulator_digits_eq by (simp only: digits_in_simps d simp_thms split: if_split)
  have s: "uint a mod 2 ^ 62 + BIGNUM_RADIX * (uint a div 2 ^ 62) = uint a" unfolding BIGNUM_RADIX_eq by (rule mod_mult_div_eq)
  then show "rval BIGNUM_RADIX (accumulator_digits a) = uint a" unfolding accumulator_digits_eq by auto
  show "digits_wf (accumulator_digits a)" if "a \<noteq> 0"
  proof -
    have "uint a \<noteq> 0" using that by (simp add: uint_0_iff)
    moreover define m k where "m = uint a mod 2 ^ 62" and "k = uint a div 2 ^ 62"
    moreover have "accumulator_digits a = (if k = 0 then [m] else [m, k])" by (simp only: accumulator_digits_eq m_def k_def)
    ultimately have "last (accumulator_digits a) \<noteq> 0" using s [folded m_def k_def] by auto
    then show ?thesis using \<open>digits_in BIGNUM_RADIX (accumulator_digits a)\<close> by (simp add: digits_wf_def)
  qed
  show "length (accumulator_digits a) \<le> BIGNUM_DIGIT_LENGTH" by (simp add: accumulator_digits_eq BIGNUM_DIGIT_LENGTH_def)
qed

lemma accumulate_digits_eq: "accumulate_digits ds = word_of_int (rval BIGNUM_RADIX ds)"
proof (induction ds)
  case (Cons d ds)
  have "push_bit BIGNUM_DIGIT_LENGTH (word_of_int m :: ulong) = word_of_int (BIGNUM_RADIX * m)" for m
    by (simp add: push_bit_eq_mult BIGNUM_DIGIT_LENGTH_def BIGNUM_RADIX_eq)
  with Cons show ?case by simp
qed simp

lemma returns_from_digits:
  assumes "digits_wf ds" "s \<Longrightarrow> ds \<noteq> []" "length ds \<le> BIGNUM_LENGTH_MAX"
  shows "returns_bignum (bignum_from_digits ds s) (if s then - rval BIGNUM_RADIX ds else rval BIGNUM_RADIX ds)"
  using assms by (simp add: bignum_from_digits_def bignum_allocate_def returns_bignum_def bignum_wf_mk bignum_val_mk)

lemma LENGTH_MAX_ge_2: "n \<le> BIGNUM_DIGIT_LENGTH \<Longrightarrow> n \<le> BIGNUM_LENGTH_MAX"
  by (simp add: BIGNUM_LENGTH_MAX_def BIGNUM_RADIX_eq BIGNUM_DIGIT_LENGTH_def)

lemma returns_long_to_bignum [val_simps]:
  assumes "fits_long n"
  shows "returns_bignum (long_to_bignum n) n"
proof -
  define a :: ulong where "a = word_of_int (if n < 0 then - n else n)"
  have ua: "uint a = \<bar>n\<bar>" unfolding a_def using assms by (subst uint_word_of_int_ulong) (auto simp: fits_long_def)
  have "returns_bignum (bignum_from_digits (accumulator_digits a) (n < 0)) n" if "n \<noteq> 0"
  proof -
    have "a \<noteq> 0" using ua that by auto
    moreover have "accumulator_digits a \<noteq> []" by (simp add: accumulator_digits_eq)
    ultimately show ?thesis
      using returns_from_digits [of "accumulator_digits a" "n < 0"] accumulator_digits_spec [of a] ua LENGTH_MAX_ge_2
      by (cases "n < 0") auto
  qed
  then show ?thesis
    using returns_self [OF make_zero(1)] returns_self [OF make_one(1), of True] returns_self [OF make_one(1), of False]
    by (simp add: long_to_bignum_def DEFINE_INT_TO_BIGNUM_def flip: a_def)
qed

lemma returns_ulong_to_bignum [val_simps]: "returns_bignum (ulong_to_bignum n) (uint n)"
proof -
  have "returns_bignum (bignum_from_digits (accumulator_digits n) False) (uint n)" if "n \<noteq> 0"
    using that returns_from_digits [of "accumulator_digits n" False] accumulator_digits_spec [of n] LENGTH_MAX_ge_2 by auto
  then show ?thesis
    using returns_self [OF make_zero(1)] returns_self [OF make_one(1), of False]
    by (simp add: ulong_to_bignum_def DEFINE_UINT_TO_BIGNUM_def)
qed

text \<open>The value is reduced modulo \<open>2 ^ 64\<close> into the range of a \<open>long\<close>.\<close>

lemma bignum_to_long_eq:
  assumes "bignum_wf b"
  shows "bignum_to_long b = sint (word_of_int (bignum_val b) :: ulong)"
  using bignum_ZERO_P_iff [OF assms]
  by (auto simp: bignum_to_long_def DEFINE_BIGNUM_TO_INT_def accumulate_digits_eq bignum_val_def bignum_mag_def Let_def)

lemma bignum_to_long_exact: "bignum_wf b \<Longrightarrow> fits_long (bignum_val b) \<Longrightarrow> bignum_to_long b = bignum_val b"
  by (simp add: bignum_to_long_eq sint_word_of_int_ulong)

lemma bignum_POSITIVE_P_iff: "bignum_wf b \<Longrightarrow> BIGNUM_POSITIVE_P b \<longleftrightarrow> 0 < bignum_val b"
  by (auto simp: BIGNUM_POSITIVE_P_def bignum_ZERO_P_iff bignum_NEGATIVE_P_iff)

lemma bignum_to_ulong_eq:
  assumes "bignum_wf b"
  shows "bignum_to_ulong b = (if 0 \<le> bignum_val b then Some (word_of_int (bignum_val b)) else None)"
proof -
  have "bignum_mag b = bignum_val b" if "0 < bignum_val b" using that assms bignum_abs_val [of b] by simp
  then show ?thesis using assms
    by (auto simp: bignum_to_ulong_def DEFINE_BIGNUM_TO_UINT_def bignum_POSITIVE_P_iff bignum_ZERO_P_iff
      accumulate_digits_eq BIGNUM_ASSERT_def simp flip: bignum_mag_def)
qed

subsection \<open>Fitting in a word\<close>

lemma BITS_TO_DIGITS_bounds:
  assumes "0 < n"
  shows "0 < BIGNUM_BITS_TO_DIGITS n" "62 * (BIGNUM_BITS_TO_DIGITS n - 1) < n" "n \<le> 62 * BIGNUM_BITS_TO_DIGITS n"
  using assms by (simp_all add: BIGNUM_BITS_TO_DIGITS_def BIGNUM_DIGIT_LENGTH_def)

lemma RADIX_power: "BIGNUM_RADIX ^ k = 2 ^ (62 * k)"
  by (simp only: BIGNUM_RADIX_eq power_mult)

lemma bignum_mag_less: "bignum_wf b \<Longrightarrow> bignum_mag b < BIGNUM_RADIX ^ BIGNUM_LENGTH b"
  using rval_less [OF bignum_wf_digits_in] by (simp add: bignum_mag_def BIGNUM_LENGTH_def)

lemma bignum_mag_ge: "bignum_wf b \<Longrightarrow> BIGNUM_LENGTH b = k + 1 \<Longrightarrow> BIGNUM_RADIX ^ k \<le> bignum_mag b"
  using digits_wf_lower [of "BIGNUM_DIGITS b"]
  by (cases "BIGNUM_DIGITS b = []") (auto simp: bignum_wf_def bignum_mag_def BIGNUM_LENGTH_def)

text \<open>The most significant digit decides in which multiple of the leading radix power the magnitude lies.\<close>

lemma msd_bounds:
  assumes "bignum_wf b" "BIGNUM_LENGTH b = k + 1"
  shows "BIGNUM_REF b k * BIGNUM_RADIX ^ k \<le> bignum_mag b" "bignum_mag b < (BIGNUM_REF b k + 1) * BIGNUM_RADIX ^ k"
proof -
  note d = bignum_wf_digits_in [OF assms(1)]
  have "bignum_mag b = rval BIGNUM_RADIX (take k (BIGNUM_DIGITS b)) + BIGNUM_RADIX ^ k * BIGNUM_REF b k"
    using rval_top_split [of "BIGNUM_DIGITS b" k BIGNUM_RADIX] assms(2) by (simp add: bignum_mag_def BIGNUM_LENGTH_def BIGNUM_REF_def)
  moreover have "0 \<le> rval BIGNUM_RADIX (take k (BIGNUM_DIGITS b))" "rval BIGNUM_RADIX (take k (BIGNUM_DIGITS b)) < BIGNUM_RADIX ^ k"
    using rval_nonneg [OF digits_in_take_drop(1) [OF d]] rval_less [OF digits_in_take_drop(1) [OF d], of k] assms(2)
    by (simp_all add: BIGNUM_LENGTH_def)
  ultimately show "BIGNUM_REF b k * BIGNUM_RADIX ^ k \<le> bignum_mag b" "bignum_mag b < (BIGNUM_REF b k + 1) * BIGNUM_RADIX ^ k"
    by (simp_all add: algebra_simps)
qed

lemma msd_less_iff:
  assumes "bignum_wf b" "BIGNUM_LENGTH b = k + 1"
  shows "BIGNUM_REF b k < m \<longleftrightarrow> bignum_mag b < m * BIGNUM_RADIX ^ k"
proof
  assume "BIGNUM_REF b k < m"
  then have "(BIGNUM_REF b k + 1) * BIGNUM_RADIX ^ k \<le> m * BIGNUM_RADIX ^ k" by (intro mult_right_mono) auto
  then show "bignum_mag b < m * BIGNUM_RADIX ^ k" using msd_bounds(2) [OF assms] by linarith
next
  assume "bignum_mag b < m * BIGNUM_RADIX ^ k"
  then have "BIGNUM_REF b k * BIGNUM_RADIX ^ k < m * BIGNUM_RADIX ^ k" using msd_bounds(1) [OF assms] by linarith
  then show "BIGNUM_REF b k < m" by (simp add: mult_less_cancel_right_pos)
qed

lemma bignum_fits_in_word_p_eq:
  assumes wf: "bignum_wf b" and len: "BIGNUM_LENGTH b < 2 ^ 32" and n: "0 < n"
    and nD: "n < 62 * BIGNUM_BITS_TO_DIGITS n"
  defines "W \<equiv> BIGNUM_RADIX ^ (BIGNUM_BITS_TO_DIGITS n - 1)"
  shows "bignum_fits_in_word_p b (if tc then n + 1 else n) tc =
    Some (if tc then - (2 ^ n) - W < bignum_val b \<and> bignum_val b < 2 ^ n else 0 \<le> bignum_val b \<and> bignum_val b < 2 ^ n)"
proof -
  define D where "D = BIGNUM_BITS_TO_DIGITS n"
  note Db = BITS_TO_DIGITS_bounds [OF n, folded D_def]
  note nD = nD [folded D_def]
  define M :: int where "M = 2 ^ (n - (D - 1) * 62)"
  have MW: "2 ^ n = M * W" using Db(2) by (simp add: M_def W_def RADIX_power D_def [symmetric] mult.commute flip: power_add)
  have W: "0 < W" by (simp add: W_def)
  have short: "bignum_mag b < 2 ^ n" if "BIGNUM_LENGTH b < D"
  proof -
    have "bignum_mag b < 2 ^ (62 * BIGNUM_LENGTH b)" using bignum_mag_less [OF wf] by (simp only: RADIX_power)
    also have "(2 :: int) ^ (62 * BIGNUM_LENGTH b) \<le> 2 ^ n" using that Db by (intro power_increasing) auto
    finally show ?thesis .
  qed
  have long: "2 ^ n + W \<le> bignum_mag b" if "D < BIGNUM_LENGTH b"
  proof -
    define k where "k = BIGNUM_LENGTH b - 1"
    have k: "BIGNUM_LENGTH b = k + 1" "D \<le> k" using that by (simp_all add: k_def)
    have "(2 :: int) ^ n \<le> 2 ^ (62 * D - 1)" "(2 :: int) ^ (62 * (D - 1)) \<le> 2 ^ (62 * D - 1)"
      using Db nD by (auto intro!: power_increasing)
    moreover have "(2 :: int) ^ (62 * D) = 2 * 2 ^ (62 * D - 1)" using Db by (subst power_Suc [symmetric]) simp
    moreover have "(2 :: int) ^ (62 * D) \<le> 2 ^ (62 * k)" using k by (intro power_increasing) auto
    ultimately show ?thesis using bignum_mag_ge [OF wf k(1)] by (simp only: W_def RADIX_power flip: D_def)
  qed
  have same: "(BIGNUM_REF b (D - 1) < M) = (bignum_mag b < 2 ^ n)" "(BIGNUM_REF b (D - 1) = M) = (2 ^ n \<le> bignum_mag b \<and> bignum_mag b < 2 ^ n + W)"
    if "BIGNUM_LENGTH b = D"
  proof -
    have l: "BIGNUM_LENGTH b = (D - 1) + 1" using that Db by simp
    show "(BIGNUM_REF b (D - 1) < M) = (bignum_mag b < 2 ^ n)" using msd_less_iff [OF wf l] by (simp add: MW W_def D_def)
    have "(BIGNUM_REF b (D - 1) < M + 1) = (bignum_mag b < 2 ^ n + W)" using msd_less_iff [OF wf l, of "M + 1"] by (simp add: MW W_def D_def algebra_simps)
    then show "(BIGNUM_REF b (D - 1) = M) = (2 ^ n \<le> bignum_mag b \<and> bignum_mag b < 2 ^ n + W)"
      using \<open>(BIGNUM_REF b (D - 1) < M) = (bignum_mag b < 2 ^ n)\<close> by auto
  qed
  have lm: "BIGNUM_LENGTH b mod 2 ^ 32 = BIGNUM_LENGTH b" using len by simp
  then have lm': "BIGNUM_LENGTH b mod 4294967296 = BIGNUM_LENGTH b" by simp
  have m0: "0 \<le> bignum_mag b" by (rule bignum_mag_nonneg [OF wf])
  have P: "push_bit (n - (D - 1) * BIGNUM_DIGIT_LENGTH) 1 = M" "2 ^ (n - (D - Suc 0) * BIGNUM_DIGIT_LENGTH) = M"
    by (simp_all add: M_def push_bit_eq_mult BIGNUM_DIGIT_LENGTH_def)
  have v: "bignum_val b = (if BIGNUM_NEGATIVE_P b then - bignum_mag b else bignum_mag b)" by (simp add: bignum_val_def)
  have fits: "bignum_fits_in_word_p b (if tc then n + 1 else n) tc =
    Some (\<not> (\<not> tc \<and> BIGNUM_NEGATIVE_P b) \<and>
          (bignum_mag b < 2 ^ n \<or> tc \<and> BIGNUM_NEGATIVE_P b \<and> bignum_mag b < 2 ^ n + W))"
  proof -
    consider "BIGNUM_LENGTH b < D" | "D < BIGNUM_LENGTH b" | "BIGNUM_LENGTH b = D" by linarith
    then show ?thesis
    proof cases
      case 1
      then show ?thesis using short [OF 1] n by (simp add: bignum_fits_in_word_p_def lm' BIGNUM_ASSERT_def Let_def flip: D_def)
    next
      case 2
      then show ?thesis using long [OF 2] n W
        by (simp add: bignum_fits_in_word_p_def lm' BIGNUM_ASSERT_def Let_def flip: D_def)
    next
      case 3
      have "bignum_fits_in_word_p b (if tc then n + 1 else n) tc = Some (\<not> (\<not> tc \<and> BIGNUM_NEGATIVE_P b) \<and>
        (BIGNUM_REF b (D - 1) < M \<or> tc \<and> BIGNUM_REF b (D - 1) = M \<and> BIGNUM_NEGATIVE_P b))"
        using 3 n lm' P by (simp add: bignum_fits_in_word_p_def BIGNUM_ASSERT_def Let_def flip: D_def)
      then show ?thesis using same [OF 3] W by auto
    qed
  qed
  have neg0: "0 < bignum_mag b" if "BIGNUM_NEGATIVE_P b"
  proof -
    have "bignum_val b < 0" using bignum_NEGATIVE_P_iff [OF wf] that by blast
    with v that show ?thesis by simp
  qed
  have p: "(0 :: int) < 2 ^ n" by simp
  show ?thesis
  proof (cases "BIGNUM_NEGATIVE_P b")
    case True
    then have "bignum_val b = - bignum_mag b" "0 < bignum_mag b" using v neg0 by auto
    with True p W show ?thesis unfolding fits by (cases tc) (simp_all only: simp_thms if_True if_False option.inject, linarith+)
  next
    case False
    then have "bignum_val b = bignum_mag b" using v by auto
    with False p W m0 show ?thesis unfolding fits by (cases tc) (simp_all only: simp_thms if_True if_False option.inject, linarith+)
  qed
qed

lemma BIGNUM_TO_FIXNUM_P_eq:
  assumes "bignum_wf b" "BIGNUM_LENGTH b < 2 ^ 32"
  shows "BIGNUM_TO_FIXNUM_P b = Some (fits_fixnum (bignum_val b))"
  using bignum_fits_in_word_p_eq [OF assms, of 57 True]
  by (simp add: BIGNUM_TO_FIXNUM_P_def FIXNUM_LENGTH_def fits_fixnum_iff BIGNUM_BITS_TO_DIGITS_def BIGNUM_DIGIT_LENGTH_def) linarith

lemma BIGNUM_TO_LONG_P_eq:
  assumes "bignum_wf b" "BIGNUM_LENGTH b < 2 ^ 32"
  shows "BIGNUM_TO_LONG_P b = Some (- (2 ^ 63) - 2 ^ 62 < bignum_val b \<and> bignum_val b < 2 ^ 63)"
  using bignum_fits_in_word_p_eq [OF assms, of 63 True]
  by (simp add: BIGNUM_TO_LONG_P_def BIGNUM_BITS_TO_DIGITS_def BIGNUM_DIGIT_LENGTH_def BIGNUM_RADIX_eq) 

lemma BIGNUM_TO_ULONG_P_eq:
  assumes "bignum_wf b" "BIGNUM_LENGTH b < 2 ^ 32"
  shows "BIGNUM_TO_ULONG_P b = Some (0 \<le> bignum_val b \<and> bignum_val b < 2 ^ 64)"
  using bignum_fits_in_word_p_eq [OF assms, of 64 False]
  by (simp add: BIGNUM_TO_ULONG_P_def BIGNUM_BITS_TO_DIGITS_def BIGNUM_DIGIT_LENGTH_def BIGNUM_RADIX_eq) 

subsection \<open>Digit streams: correctness\<close>

lemma digit_stream_loop_spec:
  assumes "1 < radix" "radix < BIGNUM_RADIX_ROOT" "digits_in radix ps" "digits_in BIGNUM_RADIX ds" "ds \<noteq> []"
    "rval BIGNUM_RADIX ds * radix ^ length ps + rval radix (rev ps) < BIGNUM_RADIX ^ length ds"
  shows "\<exists>rs. digit_stream_loop (mk_bignum s ds) radix ps = Some (mk_bignum s rs) \<and> digits_in BIGNUM_RADIX rs
    \<and> length rs = length ds \<and> rval BIGNUM_RADIX rs = rval BIGNUM_RADIX ds * radix ^ length ps + rval radix (rev ps)"
  using assms(3-6)
proof (induction ps arbitrary: ds)
  case (Cons p ps)
  define B where "B = BIGNUM_RADIX ^ length ds"
  define v where "v = rval BIGNUM_RADIX ds"
  have p: "0 \<le> p" "p < radix" and ps: "digits_in radix ps" using Cons.prems(1) by auto
  have v0: "0 \<le> v" using Cons.prems(2) by (simp add: v_def rval_nonneg)
  have e: "v * radix ^ length (p # ps) + rval radix (rev (p # ps)) = (radix * v + p) * radix ^ length ps + rval radix (rev ps)"
    by (simp add: rval_append algebra_simps)
  have n: "0 \<le> rval radix (rev ps)" using ps by (intro rval_nonneg) (simp add: digits_in_def)
  define X where "X = (radix * v + p) * radix ^ length ps"
  have "0 \<le> radix * v + p" using assms(1) v0 p by (intro add_nonneg_nonneg mult_nonneg_nonneg) auto
  then have "radix * v + p \<le> X" unfolding X_def using assms(1) by (simp add: mult_le_cancel_left1)
  moreover have "X + rval radix (rev ps) < B" using Cons.prems(4) e unfolding X_def B_def v_def by metis
  ultimately have lt: "radix * v + p < B" using n by linarith
  have root: "radix < BIGNUM_RADIX" using assms(2) order.strict_trans [OF _ ROOT_pos(6)] by blast
  have "radix * v < B" using lt p by linarith
  then obtain ds1 where d1: "bignum_destructive_scale_up (mk_bignum s ds) radix = Some (mk_bignum s ds1)"
    "digits_in BIGNUM_RADIX ds1" "length ds1 = length ds" "rval BIGNUM_RADIX ds1 = radix * v"
    using bignum_destructive_scale_up_eq [OF assms(1,2) Cons.prems(2)] unfolding v_def B_def by metis
  have ne: "ds1 \<noteq> []" using d1(3) Cons.prems(3) by auto
  obtain ds2 where d2: "bignum_destructive_add (mk_bignum s ds1) p = Some (mk_bignum s ds2)"
    "digits_in BIGNUM_RADIX ds2" "length ds2 = length ds" "rval BIGNUM_RADIX ds2 = radix * v + p"
    using bignum_destructive_add_eq [OF d1(2) p(1) _ _ ne] lt d1(3,4) p root unfolding B_def by (metis order.strict_trans)
  have ne2: "ds2 \<noteq> []" using d2(3) Cons.prems(3) by auto
  have "\<exists>rs. digit_stream_loop (mk_bignum s ds2) radix ps = Some (mk_bignum s rs) \<and> digits_in BIGNUM_RADIX rs
    \<and> length rs = length ds2 \<and> rval BIGNUM_RADIX rs = rval BIGNUM_RADIX ds2 * radix ^ length ps + rval radix (rev ps)"
    using Cons.prems(4) e by (intro Cons.IH [OF ps d2(2) ne2]) (simp only: d2 v_def)
  then show ?case using e d1(1) d2 by (simp only: digit_stream_loop.simps Option.bind.simps v_def)
qed auto

lemma returns_digit_stream_to_bignum:
  assumes radix: "1 < radix" "int radix < BIGNUM_RADIX_ROOT" and ps: "digits_in (int radix) ps"
    and fits: "length ps * ulong_length_in_bits (word_of_int (int radix)) < 2 ^ 32"
  shows "returns_bignum (digit_stream_to_bignum ps radix negative_p)
    (if negative_p then - rval (int radix) (rev ps) else rval (int radix) (rev ps))"
proof -
  have ok: "BIGNUM_ASSERT (Suc 0 < radix \<and> int radix \<le> BIGNUM_RADIX_ROOT) = Some ()" using radix by simp
  consider "ps = []" | p where "ps = [p]" | "1 < length ps" by (cases ps; cases "tl ps"; force)
  then show ?thesis
  proof cases
    case 1
    then show ?thesis using returns_self [OF make_zero(1)] by (simp add: digit_stream_to_bignum_def ok)
  next
    case 2
    then have "fits_long p" "fits_long (- p)" using ps radix by (auto simp: fits_long_def BIGNUM_RADIX_ROOT_eq)
    with 2 show ?thesis by (auto simp: digit_stream_to_bignum_def ok returns_long_to_bignum)
  next
    case 3
    define bits where "bits = length ps * ulong_length_in_bits (word_of_int (int radix))"
    define D where "D = BIGNUM_BITS_TO_DIGITS bits"
    have u: "uint (word_of_int (int radix) :: ulong) = int radix"
      using radix by (intro uint_word_of_int_ulong) (auto simp: BIGNUM_RADIX_ROOT_eq)
    have "word_of_int (int radix) \<noteq> (0 :: ulong)" using u radix by auto
    then have b0: "0 < bits" using 3 ulong_length_in_bits_bounds(3) by (auto simp: bits_def)
    note Db = BITS_TO_DIGITS_bounds [OF b0, folded D_def]
    have "int radix \<le> 2 ^ ulong_length_in_bits (word_of_int (int radix))"
      using ulong_length_in_bits_bounds(1) [of "word_of_int (int radix)"] u by linarith
    then have "int radix ^ length ps \<le> (2 ^ ulong_length_in_bits (word_of_int (int radix))) ^ length ps"
      by (intro power_mono) auto
    also have "\<dots> = 2 ^ bits" by (simp add: bits_def mult.commute flip: power_mult)
    also have "(2 :: int) ^ bits \<le> 2 ^ (62 * D)" using Db by (intro power_increasing) auto
    finally have "int radix ^ length ps \<le> BIGNUM_RADIX ^ D" by (simp only: RADIX_power)
    then have "rval (int radix) (rev ps) < BIGNUM_RADIX ^ D"
      using rval_less [of "int radix" "rev ps"] ps by (simp add: digits_in_def)
    then obtain rs where rs: "digit_stream_loop (mk_bignum negative_p (replicate D 0)) (int radix) ps = Some (mk_bignum negative_p rs)"
      "digits_in BIGNUM_RADIX rs" "length rs = D" "rval BIGNUM_RADIX rs = rval (int radix) (rev ps)"
      using digit_stream_loop_spec [OF _ radix(2) ps, of "replicate D 0" negative_p] radix(1) Db by auto
    have DM: "D \<le> BIGNUM_LENGTH_MAX"
      using fits [folded bits_def] Db(2) by (simp add: BIGNUM_LENGTH_MAX_def BIGNUM_RADIX_eq BIGNUM_DIGIT_LENGTH_def)
    have "length ps * ulong_length_in_bits (word_of_nat radix) mod 4294967296 = bits" "ps \<noteq> []" using fits 3 by (auto simp: bits_def)
    then have "digit_stream_to_bignum ps radix negative_p = Some (bignum_trim (mk_bignum negative_p rs))"
      using 3 rs(1) DM ok by (simp add: digit_stream_to_bignum_def bignum_allocate_zeroed_def bignum_allocate_def Let_def flip: D_def)
    moreover have "rs \<noteq> []" using rs(3) Db(1) by auto
    ultimately show ?thesis using returns_trim [OF rs(2), of negative_p] rs(3,4) DM by (cases negative_p) simp_all
  qed
qed

lemma top_digit_zero_iff:
  assumes ds: "digits_in BIGNUM_RADIX ds" and k: "k < length ds" and less: "rval BIGNUM_RADIX ds < BIGNUM_RADIX ^ (k + 1)"
  shows "ds ! k = 0 \<longleftrightarrow> rval BIGNUM_RADIX ds < BIGNUM_RADIX ^ k"
proof -
  define R where "R = BIGNUM_RADIX ^ k"
  define lo hi where "lo = rval BIGNUM_RADIX (take k ds)" and "hi = rval BIGNUM_RADIX (drop (Suc k) ds)"
  have "ds = take k ds @ ds ! k # drop (Suc k) ds" using k by (rule id_take_nth_drop)
  then have v: "rval BIGNUM_RADIX ds = lo + R * (ds ! k + BIGNUM_RADIX * hi)"
    using rval_append [of BIGNUM_RADIX "take k ds" "ds ! k # drop (Suc k) ds"] k by (simp add: lo_def hi_def R_def)
  have lo: "0 \<le> lo" "lo < R" using rval_nonneg rval_less [of BIGNUM_RADIX "take k ds"] digits_in_take_drop(1) [OF ds, of k] k
    by (simp_all add: lo_def R_def)
  have hi: "0 \<le> hi" using rval_nonneg digits_in_take_drop(2) [OF ds] by (simp add: hi_def)
  have dk: "0 \<le> ds ! k" using digits_in_nth [OF ds k] by simp
  have R: "0 < R" by (simp add: R_def)
  define q where "q = ds ! k + BIGNUM_RADIX * hi"
  have q: "rval BIGNUM_RADIX ds div R = q" using v lo R by (simp add: q_def)
  have "rval BIGNUM_RADIX ds < R \<longleftrightarrow> q < 1" using zdiv_less_iff [OF R, of "rval BIGNUM_RADIX ds" 1] q by simp
  moreover have "q < BIGNUM_RADIX" using zdiv_less_iff [OF R, of "rval BIGNUM_RADIX ds" BIGNUM_RADIX] q less
    by (simp add: R_def mult.commute)
  then have "hi = 0" using hi dk by (simp add: q_def) (metis add_increasing dk hi int_one_le_iff_zero_less leD mult_le_cancel_left1 order_le_less RADIX_pos(1))
  ultimately show ?thesis using dk by (auto simp: q_def R_def)
qed

lemma to_digit_stream_loop_spec:
  assumes "1 < radix" "radix < BIGNUM_RADIX_ROOT"
  shows "digits_in BIGNUM_RADIX ws \<Longrightarrow> scan \<le> length ws \<Longrightarrow> rval BIGNUM_RADIX ws < BIGNUM_RADIX ^ scan \<Longrightarrow>
    \<exists>ds. to_digit_stream_loop (mk_bignum s ws) scan radix = Some ds \<and> digits_in radix ds
      \<and> rval radix ds = rval BIGNUM_RADIX ws \<and> (ds \<noteq> [] \<longrightarrow> last ds \<noteq> 0)"
proof (induction "nat (rval BIGNUM_RADIX ws) + scan" arbitrary: ws scan rule: less_induct)
  case less
  note ws = less.prems
  show ?case
  proof (cases "scan = 0")
    case True
    then have "rval BIGNUM_RADIX ws = 0" using ws(3) rval_nonneg [OF ws(1)] by simp
    with True show ?thesis by (simp add: to_digit_stream_loop.simps)
  next
    case False
    define k where "k = scan - 1"
    have k: "scan = k + 1" "k < length ws" using False ws(2) by (simp_all add: k_def)
    note z = top_digit_zero_iff [OF ws(1) k(2) ws(3) [unfolded k(1)]]
    show ?thesis
    proof (cases "ws ! k = 0")
      case True
      have "\<exists>ds. to_digit_stream_loop (mk_bignum s ws) k radix = Some ds \<and> digits_in radix ds
        \<and> rval radix ds = rval BIGNUM_RADIX ws \<and> (ds \<noteq> [] \<longrightarrow> last ds \<noteq> 0)"
        using True z k by (intro less.hyps ws(1)) auto
      with True k show ?thesis by (simp add: to_digit_stream_loop.simps [of _ "Suc k"])
    next
      case nz: False
      obtain qs r where qr: "scale_down_digits radix ws = (qs, r)" by fastforce
      have sd: "digits_in BIGNUM_RADIX qs" "length qs = length ws" "0 \<le> r" "r < radix"
        "rval BIGNUM_RADIX ws = rval BIGNUM_RADIX qs * radix + r"
        using scale_down_digits_spec [OF _ assms(2) ws(1) qr] assms(1) by auto
      have pos: "0 < rval BIGNUM_RADIX ws" using nz z zero_less_power [OF RADIX_pos(1), of k] by linarith
      have q0: "0 \<le> rval BIGNUM_RADIX qs" using sd(1) by (rule rval_nonneg)
      have "rval BIGNUM_RADIX qs * 2 \<le> rval BIGNUM_RADIX qs * radix" using assms(1) q0 by (intro mult_left_mono) auto
      then have lt: "rval BIGNUM_RADIX qs < rval BIGNUM_RADIX ws" using sd(3,5) pos q0 by linarith
      have "\<exists>ds. to_digit_stream_loop (mk_bignum s qs) scan radix = Some ds \<and> digits_in radix ds
        \<and> rval radix ds = rval BIGNUM_RADIX qs \<and> (ds \<noteq> [] \<longrightarrow> last ds \<noteq> 0)"
        using lt q0 ws(2,3) sd(2) by (intro less.hyps sd(1)) auto
      then obtain ds where ds: "to_digit_stream_loop (mk_bignum s qs) scan radix = Some ds" "digits_in radix ds"
        "rval radix ds = rval BIGNUM_RADIX qs" "ds \<noteq> [] \<longrightarrow> last ds \<noteq> 0" by blast
      have "bignum_destructive_scale_down (mk_bignum s ws) radix = Some (mk_bignum s qs, r)"
        using qr assms by (simp add: bignum_destructive_scale_down_def)
      then have "to_digit_stream_loop (mk_bignum s ws) scan radix = Some (r # ds)"
        using nz ds(1) by (subst to_digit_stream_loop.simps) (simp add: k(1))
      moreover have "rval radix (r # ds) = rval BIGNUM_RADIX ws" using sd(5) ds(3) by (simp add: algebra_simps)
      moreover have "last (r # ds) \<noteq> 0"  using ds(4) pos sd(5) ds(3) by (cases "ds = []") auto
      ultimately show ?thesis using sd(3,4) ds(2) by auto
    qed
  qed
qed

lemma bignum_to_digit_stream_spec:
  assumes "bignum_wf b" "1 < radix" "int radix < BIGNUM_RADIX_ROOT"
  shows "\<exists>ds. bignum_to_digit_stream b radix = Some ds \<and> digits_in (int radix) ds
    \<and> rval (int radix) ds = \<bar>bignum_val b\<bar> \<and> (ds \<noteq> [] \<longrightarrow> last ds \<noteq> 0)"
proof (cases "BIGNUM_ZERO_P b")
  case True
  then show ?thesis using assms by (simp add: bignum_to_digit_stream_def bignum_ZERO_P_iff)
next
  case False
  have "\<exists>ds. to_digit_stream_loop (mk_bignum (BIGNUM_NEGATIVE_P b) (BIGNUM_DIGITS b)) (BIGNUM_LENGTH b) (int radix) = Some ds
    \<and> digits_in (int radix) ds \<and> rval (int radix) ds = rval BIGNUM_RADIX (BIGNUM_DIGITS b) \<and> (ds \<noteq> [] \<longrightarrow> last ds \<noteq> 0)"
    using assms rval_less [OF bignum_wf_digits_in [OF assms(1)]]
    by (intro to_digit_stream_loop_spec bignum_wf_digits_in) (auto simp: BIGNUM_LENGTH_def)
  then show ?thesis using False assms bignum_copy_eq [OF assms(1)]
    by (simp add: bignum_to_digit_stream_def bignum_abs_val flip: bignum_mag_def)
qed

text \<open>A digit stream is short enough for the bit count of \<open>digit_stream_to_bignum\<close> not to wrap.\<close>

lemma digit_stream_length:
  assumes wf: "bignum_wf b" and radix: "1 < radix" "int radix < BIGNUM_RADIX_ROOT" and ds: "digits_in (int radix) ds"
    "rval (int radix) ds = \<bar>bignum_val b\<bar>" "ds \<noteq> [] \<longrightarrow> last ds \<noteq> 0" and len: "BIGNUM_LENGTH b < 2 ^ 19"
  shows "length ds * ulong_length_in_bits (word_of_int (int radix)) < 2 ^ 32"
proof (cases "ds = []")
  case False
  define n where "n = length ds - 1"
  have n: "length ds = n + 1" using False by (simp add: n_def)
  have "1 \<le> last ds" using ds(1,3) False by (metis digits_in_def int_one_le_iff_zero_less last_in_set order_le_less)
  have "rval (int radix) ds = rval (int radix) (take n ds) + int radix ^ n * last ds"
    using rval_top_split [of ds n "int radix"] n False by (simp add: last_conv_nth)
  moreover have "0 \<le> rval (int radix) (take n ds)" using digits_in_take_drop(1) [OF ds(1)] by (rule rval_nonneg)
  moreover have "int radix ^ n * 1 \<le> int radix ^ n * last ds" using \<open>1 \<le> last ds\<close> by (intro mult_left_mono) auto
  moreover have "(2 :: int) ^ n \<le> int radix ^ n" using radix by (intro power_mono) auto
  ultimately have "2 ^ n \<le> bignum_mag b" using ds(2) bignum_abs_val [OF wf] by linarith
  also have "\<dots> < 2 ^ (62 * BIGNUM_LENGTH b)" using bignum_mag_less [OF wf] by (simp only: RADIX_power)
  finally have "n < 62 * BIGNUM_LENGTH b" by (rule power_less_imp_less_exp [rotated]) simp
  then have "length ds \<le> 62 * 2 ^ 19" using n len by linarith
  moreover have "ulong_length_in_bits (word_of_int (int radix)) \<le> 31"
  proof -
    define w :: ulong where "w = word_of_int (int radix)"
    have "uint w = int radix" unfolding w_def using radix by (intro uint_word_of_int_ulong) (auto simp: BIGNUM_RADIX_ROOT_eq)
    then have "uint w < 2 ^ 31" "w \<noteq> 0" using radix by (auto simp: BIGNUM_RADIX_ROOT_eq)
    then have "(2 :: int) ^ (ulong_length_in_bits w - 1) < 2 ^ 31" using ulong_length_in_bits_bounds(2) [of w] by linarith
    then have "ulong_length_in_bits w - 1 < 31" by (rule power_less_imp_less_exp [rotated]) simp
    then have "ulong_length_in_bits w \<le> 31" by simp
    then show ?thesis unfolding w_def .
  qed
  ultimately have "length ds * ulong_length_in_bits (word_of_int (int radix)) \<le> 62 * 2 ^ 19 * 31" by (rule mult_le_mono)
  then show ?thesis by simp
qed simp

subsection \<open>Properties\<close>

text \<open>converting a machine integer to a bignum and back is the identity, for signed and for
  unsigned words, and the bignum denotes that integer.\<close>

theorem bignum_word_roundtrip:
  assumes "fits_long n"
  shows "(\<exists>b. long_to_bignum n = Some b \<and> bignum_wf b \<and> bignum_val b = n \<and> bignum_to_long b = n)
       \<and> (\<exists>b. ulong_to_bignum w = Some b \<and> bignum_wf b \<and> bignum_val b = uint w \<and> bignum_to_ulong b = Some w)"
proof -
  obtain b where "long_to_bignum n = Some b" "bignum_wf b" "bignum_val b = n"
    using returns_long_to_bignum [OF assms] by (auto simp: returns_bignum_def)
  moreover obtain u where "ulong_to_bignum w = Some u" "bignum_wf u" "bignum_val u = uint w"
    using returns_ulong_to_bignum [of w] by (auto simp: returns_bignum_def)
  ultimately show ?thesis using assms by (simp add: bignum_to_long_exact bignum_to_ulong_eq)
qed

theorem bignum_word_roundtrip_witness:
  "\<exists>b. long_to_bignum (- 9223372036854775808) = Some b \<and> bignum_wf b \<and> bignum_val b = - 9223372036854775808
     \<and> bignum_to_long b = - 9223372036854775808"
  using bignum_word_roundtrip [of "- 9223372036854775808" 0] by (simp add: fits_long_def)

text \<open>\<open>bignum_fits_in_word_p\<close> decides exactly whether a value is a fixnum or an unsigned word.
  For a signed word it also accepts values below \<open>- (2 ^ 63)\<close>, down to \<open>2 ^ 62\<close> below it, because
  a most significant digit equal to the limit is accepted whatever the lower digits are.\<close>

theorem bignum_fits_in_word:
  assumes "bignum_wf b" "BIGNUM_LENGTH b < 2 ^ 32"
  shows "BIGNUM_TO_FIXNUM_P b = Some (fits_fixnum (bignum_val b))
       \<and> BIGNUM_TO_ULONG_P b = Some (0 \<le> bignum_val b \<and> bignum_val b < 2 ^ 64)
       \<and> BIGNUM_TO_LONG_P b = Some (- (2 ^ 63) - 2 ^ 62 < bignum_val b \<and> bignum_val b < 2 ^ 63)"
  using BIGNUM_TO_FIXNUM_P_eq [OF assms] BIGNUM_TO_ULONG_P_eq [OF assms] BIGNUM_TO_LONG_P_eq [OF assms] by blast

theorem bignum_fits_in_word_witness:
  "BIGNUM_TO_LONG_P (mk_bignum True [5, 2]) = Some True \<and> bignum_val (mk_bignum True [5, 2]) < - (2 ^ 63)"
  using bignum_fits_in_word [of "mk_bignum True [5, 2]"] by (simp add: concrete_bignum)

text \<open>C37: the digit stream of a bignum of fewer than \<open>2 ^ 19\<close> digits, in a radix below \<open>BIGNUM_RADIX_ROOT\<close>, is produced after
  finitely many divisions, has no leading zero and denotes the magnitude; reading its digits back,
  most significant first, gives the same bignum.\<close>

theorem bignum_digit_stream_roundtrip:
  assumes "bignum_wf b" "1 < radix" "int radix < BIGNUM_RADIX_ROOT" "BIGNUM_LENGTH b < 2 ^ 19"
  shows "\<exists>ds. bignum_to_digit_stream b radix = Some ds \<and> digits_in (int radix) ds
    \<and> rval (int radix) ds = \<bar>bignum_val b\<bar> \<and> (ds \<noteq> [] \<longrightarrow> last ds \<noteq> 0)
    \<and> digit_stream_to_bignum (rev ds) radix (BIGNUM_NEGATIVE_P b) = Some b"
proof -
  obtain ds where ds: "bignum_to_digit_stream b radix = Some ds" "digits_in (int radix) ds"
    "rval (int radix) ds = \<bar>bignum_val b\<bar>" "ds \<noteq> [] \<longrightarrow> last ds \<noteq> 0"
    using bignum_to_digit_stream_spec [OF assms(1-3)] by blast
  have "length (rev ds) * ulong_length_in_bits (word_of_int (int radix)) < 2 ^ 32"
    using digit_stream_length [OF assms(1-3) ds(2-4) assms(4)] by simp
  then have "returns_bignum (digit_stream_to_bignum (rev ds) radix (BIGNUM_NEGATIVE_P b)) (bignum_val b)"
    using returns_digit_stream_to_bignum [OF assms(2,3), of "rev ds" "BIGNUM_NEGATIVE_P b"] ds(2,3) assms(1)
    by (cases "bignum_val b < 0") (simp_all add: digits_in_def bignum_NEGATIVE_P_iff)
  with ds show ?thesis using bignum_val_inject [OF _ assms(1)] by (auto simp: returns_bignum_def)
qed

theorem bignum_digit_stream_roundtrip_witness:
  "\<exists>ds. bignum_to_digit_stream (mk_bignum True [0, 1]) 10 = Some ds \<and> digits_in 10 ds
    \<and> rval 10 ds = 4611686018427387904 \<and> (ds \<noteq> [] \<longrightarrow> last ds \<noteq> 0)
    \<and> digit_stream_to_bignum (rev ds) 10 True = Some (mk_bignum True [0, 1])"
  using bignum_digit_stream_roundtrip [of "mk_bignum True [0, 1]" 10] by (simp add: concrete_bignum BIGNUM_RADIX_ROOT_eq)

end
