(* ===== verification/Bignum_Bits.thy ===== *)
theory Bignum_Bits
  imports Bignum_Conv
begin

text \<open>
  Bitwise operations on bignums (\<open>src/src/microcode/bignum.c\<close>, lines 781 to 915): the ten
  two-operand operations on two's complement integers, built from loops over the digits of
  operands that are not negative.
  The locale \<open>bitwise_operation\<close> is the contract that a digit operation gives to the loop
  that all of them share; it is interpreted on the five \<open>BITWISE_\<close> macros of the code.
\<close>

subsection \<open>The operations on digits\<close>

definition BITWISE_AND :: "int \<Rightarrow> int \<Rightarrow> int" where "BITWISE_AND x y = x AND y"
definition BITWISE_ANDC2 :: "int \<Rightarrow> int \<Rightarrow> int" where "BITWISE_ANDC2 x y = x AND NOT y"
definition BITWISE_ANDC1 :: "int \<Rightarrow> int \<Rightarrow> int" where "BITWISE_ANDC1 x y = y AND NOT x"
definition BITWISE_XOR :: "int \<Rightarrow> int \<Rightarrow> int" where "BITWISE_XOR x y = x XOR y"
definition BITWISE_IOR :: "int \<Rightarrow> int \<Rightarrow> int" where "BITWISE_IOR x y = x OR y"

subsection \<open>Operands that are not negative\<close>

definition bignum_bitwise_not :: "bignum \<Rightarrow> bignum option" where
  "bignum_bitwise_not bignum = bignum_subtract (bignum_make_one True) bignum"

text \<open>The two loops: the digits of both operands, then the digits that only \<open>x\<close> has.\<close>

fun bitwise_digits :: "(int \<Rightarrow> int \<Rightarrow> int) \<Rightarrow> int list \<Rightarrow> int list \<Rightarrow> int list" where
  "bitwise_digits oper (x # xs) (y # ys) = oper x y # bitwise_digits oper xs ys"
| "bitwise_digits oper xs [] = map (\<lambda>x. oper x 0) xs"
| "bitwise_digits oper [] ys = []"

definition DEFINE_BITWISE_UNSIGNED ::
  "(int \<Rightarrow> int \<Rightarrow> int) \<Rightarrow> (bignum \<Rightarrow> bignum option) \<Rightarrow> bignum \<Rightarrow> bignum \<Rightarrow> bignum option" where
  "DEFINE_BITWISE_UNSIGNED oper postop x y = do {
     r \<leftarrow> bignum_allocate (BIGNUM_LENGTH x) False;
     BIGNUM_ASSERT (BIGNUM_LENGTH x \<ge> BIGNUM_LENGTH y);
     let r = r \<lparr> BIGNUM_DIGITS := bitwise_digits oper (BIGNUM_DIGITS x) (BIGNUM_DIGITS y) \<rparr>;
     postop (bignum_trim r) }"

text \<open>The first test of the macro. \<open>SWAP\<close> exchanges the operands; \<open>COMMUTE (name)\<close> returns
  the result of the named operation on the exchanged operands, whose own test then fails.\<close>

definition SWAP_UNSIGNED ::
  "(int \<Rightarrow> int \<Rightarrow> int) \<Rightarrow> (bignum \<Rightarrow> bignum option) \<Rightarrow> bignum \<Rightarrow> bignum \<Rightarrow> bignum option" where
  "SWAP_UNSIGNED oper postop x y =
    (if BIGNUM_LENGTH x < BIGNUM_LENGTH y then DEFINE_BITWISE_UNSIGNED oper postop y x
     else DEFINE_BITWISE_UNSIGNED oper postop x y)"

definition bignum_bitwise_and_unsigned :: "bignum \<Rightarrow> bignum \<Rightarrow> bignum option" where
  "bignum_bitwise_and_unsigned = SWAP_UNSIGNED BITWISE_AND Some"

definition bignum_bitwise_andc2_unsigned :: "bignum \<Rightarrow> bignum \<Rightarrow> bignum option" where
  "bignum_bitwise_andc2_unsigned x y =
    (if BIGNUM_LENGTH x < BIGNUM_LENGTH y then DEFINE_BITWISE_UNSIGNED BITWISE_ANDC1 Some y x
     else DEFINE_BITWISE_UNSIGNED BITWISE_ANDC2 Some x y)"

definition bignum_bitwise_andc1_unsigned :: "bignum \<Rightarrow> bignum \<Rightarrow> bignum option" where
  "bignum_bitwise_andc1_unsigned x y =
    (if BIGNUM_LENGTH x < BIGNUM_LENGTH y then DEFINE_BITWISE_UNSIGNED BITWISE_ANDC2 Some y x
     else DEFINE_BITWISE_UNSIGNED BITWISE_ANDC1 Some x y)"

definition bignum_bitwise_xor_unsigned :: "bignum \<Rightarrow> bignum \<Rightarrow> bignum option" where
  "bignum_bitwise_xor_unsigned = SWAP_UNSIGNED BITWISE_XOR Some"

definition bignum_bitwise_ior_unsigned :: "bignum \<Rightarrow> bignum \<Rightarrow> bignum option" where
  "bignum_bitwise_ior_unsigned = SWAP_UNSIGNED BITWISE_IOR Some"

definition bignum_bitwise_nor_unsigned :: "bignum \<Rightarrow> bignum \<Rightarrow> bignum option" where
  "bignum_bitwise_nor_unsigned = SWAP_UNSIGNED BITWISE_IOR bignum_bitwise_not"

definition bignum_bitwise_eqv_unsigned :: "bignum \<Rightarrow> bignum \<Rightarrow> bignum option" where
  "bignum_bitwise_eqv_unsigned = SWAP_UNSIGNED BITWISE_XOR bignum_bitwise_not"

definition bignum_bitwise_nand_unsigned :: "bignum \<Rightarrow> bignum \<Rightarrow> bignum option" where
  "bignum_bitwise_nand_unsigned = SWAP_UNSIGNED BITWISE_AND bignum_bitwise_not"

subsection \<open>Signed operands\<close>

text \<open>\<open>X0\<close> and \<open>Y0\<close> are the results when the other operand is zero; the last four
  parameters are the operations for the four combinations of signs.\<close>

definition DEFINE_BITWISE ::
  "(bignum \<Rightarrow> bignum option) \<Rightarrow> (bignum \<Rightarrow> bignum option) \<Rightarrow>
   (bignum \<Rightarrow> bignum \<Rightarrow> bignum option) \<Rightarrow> (bignum \<Rightarrow> bignum \<Rightarrow> bignum option) \<Rightarrow>
   (bignum \<Rightarrow> bignum \<Rightarrow> bignum option) \<Rightarrow> (bignum \<Rightarrow> bignum \<Rightarrow> bignum option) \<Rightarrow>
   bignum \<Rightarrow> bignum \<Rightarrow> bignum option" where
  "DEFINE_BITWISE X0 Y0 PP PN NP NN x y =
    (if BIGNUM_ZERO_P x then Y0 y
     else if BIGNUM_ZERO_P y then X0 x
     else if BIGNUM_POSITIVE_P x
     then (if BIGNUM_POSITIVE_P y then PP x y
           else do { y' \<leftarrow> bignum_bitwise_not y; PN x y' })
     else (if BIGNUM_POSITIVE_P y then do { x' \<leftarrow> bignum_bitwise_not x; NP x' y }
           else do { x' \<leftarrow> bignum_bitwise_not x; y' \<leftarrow> bignum_bitwise_not y; NN x' y' }))"

definition bignum_bitwise_and :: "bignum \<Rightarrow> bignum \<Rightarrow> bignum option" where
  "bignum_bitwise_and = DEFINE_BITWISE (\<lambda>x. Some bignum_make_zero) (\<lambda>y. Some bignum_make_zero)
     bignum_bitwise_and_unsigned bignum_bitwise_andc2_unsigned
     bignum_bitwise_andc1_unsigned bignum_bitwise_nor_unsigned"

definition bignum_bitwise_andc2 :: "bignum \<Rightarrow> bignum \<Rightarrow> bignum option" where
  "bignum_bitwise_andc2 = DEFINE_BITWISE Some (\<lambda>y. Some bignum_make_zero)
     bignum_bitwise_andc2_unsigned bignum_bitwise_and_unsigned
     bignum_bitwise_nor_unsigned bignum_bitwise_andc1_unsigned"

definition bignum_bitwise_andc1 :: "bignum \<Rightarrow> bignum \<Rightarrow> bignum option" where
  "bignum_bitwise_andc1 = DEFINE_BITWISE (\<lambda>x. Some bignum_make_zero) Some
     bignum_bitwise_andc1_unsigned bignum_bitwise_nor_unsigned
     bignum_bitwise_and_unsigned bignum_bitwise_andc2_unsigned"

definition bignum_bitwise_orc2_unsigned :: "bignum \<Rightarrow> bignum \<Rightarrow> bignum option" where
  "bignum_bitwise_orc2_unsigned x y = do { r \<leftarrow> bignum_bitwise_andc1 x y; bignum_bitwise_not r }"

definition bignum_bitwise_orc1_unsigned :: "bignum \<Rightarrow> bignum \<Rightarrow> bignum option" where
  "bignum_bitwise_orc1_unsigned x y = do { r \<leftarrow> bignum_bitwise_andc2 x y; bignum_bitwise_not r }"

definition bignum_bitwise_xor :: "bignum \<Rightarrow> bignum \<Rightarrow> bignum option" where
  "bignum_bitwise_xor = DEFINE_BITWISE Some Some
     bignum_bitwise_xor_unsigned bignum_bitwise_eqv_unsigned
     bignum_bitwise_eqv_unsigned bignum_bitwise_xor_unsigned"

definition bignum_bitwise_ior :: "bignum \<Rightarrow> bignum \<Rightarrow> bignum option" where
  "bignum_bitwise_ior = DEFINE_BITWISE Some Some
     bignum_bitwise_ior_unsigned bignum_bitwise_orc2_unsigned
     bignum_bitwise_orc1_unsigned bignum_bitwise_nand_unsigned"

definition bignum_bitwise_nor :: "bignum \<Rightarrow> bignum \<Rightarrow> bignum option" where
  "bignum_bitwise_nor = DEFINE_BITWISE bignum_bitwise_not bignum_bitwise_not
     bignum_bitwise_nor_unsigned bignum_bitwise_andc1_unsigned
     bignum_bitwise_andc2_unsigned bignum_bitwise_and_unsigned"

definition bignum_bitwise_eqv :: "bignum \<Rightarrow> bignum \<Rightarrow> bignum option" where
  "bignum_bitwise_eqv = DEFINE_BITWISE bignum_bitwise_not bignum_bitwise_not
     bignum_bitwise_eqv_unsigned bignum_bitwise_xor_unsigned
     bignum_bitwise_xor_unsigned bignum_bitwise_eqv_unsigned"

definition bignum_bitwise_orc2 :: "bignum \<Rightarrow> bignum \<Rightarrow> bignum option" where
  "bignum_bitwise_orc2 = DEFINE_BITWISE (\<lambda>x. Some (bignum_make_one True)) bignum_bitwise_not
     bignum_bitwise_orc2_unsigned bignum_bitwise_ior_unsigned
     bignum_bitwise_nand_unsigned bignum_bitwise_orc1_unsigned"

definition bignum_bitwise_orc1 :: "bignum \<Rightarrow> bignum \<Rightarrow> bignum option" where
  "bignum_bitwise_orc1 = DEFINE_BITWISE bignum_bitwise_not (\<lambda>y. Some (bignum_make_one True))
     bignum_bitwise_orc1_unsigned bignum_bitwise_nand_unsigned
     bignum_bitwise_ior_unsigned bignum_bitwise_orc2_unsigned"

definition bignum_bitwise_nand :: "bignum \<Rightarrow> bignum \<Rightarrow> bignum option" where
  "bignum_bitwise_nand =
     DEFINE_BITWISE (\<lambda>x. Some (bignum_make_one True)) (\<lambda>y. Some (bignum_make_one True))
     bignum_bitwise_nand_unsigned bignum_bitwise_orc1_unsigned
     bignum_bitwise_orc2_unsigned bignum_bitwise_ior_unsigned"

subsection \<open>The contract of a digit operation\<close>

text \<open>A bitwise operation is given by its truth table, and maps two zero bits to zero, so that the
  digits above both operands stay zero.\<close>

locale bitwise_operation =
  fixes oper :: "int \<Rightarrow> int \<Rightarrow> int" and truth :: "bool \<Rightarrow> bool \<Rightarrow> bool"
  assumes bit_oper: "bit (oper x y) n \<longleftrightarrow> truth (bit x n) (bit y n)"
    and truth_False: "\<not> truth False False"
begin

lemma take_bit_oper: "take_bit n (oper x y) = oper (take_bit n x) (take_bit n y)"
proof (rule bit_eqI)
  fix m
  show "bit (take_bit n (oper x y)) m \<longleftrightarrow> bit (oper (take_bit n x) (take_bit n y)) m"
    by (cases "m < n") (simp_all add: bit_oper bit_take_bit_iff truth_False)
qed

lemma oper_0 [simp]: "oper 0 0 = 0"
  by (rule bit_eqI) (simp add: bit_oper truth_False)

lemma oper_range:
  assumes "0 \<le> x" "x < 2 ^ n" "0 \<le> y" "y < 2 ^ n"
  shows "0 \<le> oper x y" "oper x y < 2 ^ n"
proof -
  have "take_bit n (oper x y) = oper x y" using assms by (simp add: take_bit_oper take_bit_int_eq_self)
  then show "0 \<le> oper x y" "oper x y < 2 ^ n" by (metis take_bit_nonnegative, metis take_bit_int_less_exp)
qed

lemma oper_split:
  assumes "0 \<le> a" "a < 2 ^ n" "0 \<le> c" "c < 2 ^ n"
  shows "oper (a + 2 ^ n * b) (c + 2 ^ n * d) = oper a c + 2 ^ n * oper b d"
proof -
  have 1: "take_bit n a = a" "take_bit n c = c" "take_bit n (oper a c) = oper a c"
    using assms oper_range [OF assms] by (simp_all add: take_bit_int_eq_self)
  have "a + 2 ^ n * b = concat_bit n a b" "c + 2 ^ n * d = concat_bit n c d"
       "oper a c + 2 ^ n * oper b d = concat_bit n (oper a c) (oper b d)"
    using 1 by (simp_all add: concat_bit_eq push_bit_eq_mult mult.commute)
  moreover have "oper (concat_bit n a b) (concat_bit n c d) = concat_bit n (oper a c) (oper b d)"
  proof (rule bit_eqI)
    fix m
    show "bit (oper (concat_bit n a b) (concat_bit n c d)) m \<longleftrightarrow> bit (concat_bit n (oper a c) (oper b d)) m"
      by (cases "m < n") (simp_all add: bit_oper bit_concat_bit_iff)
  qed
  ultimately show ?thesis by simp
qed

lemma bitwise_digits_spec:
  assumes "digits_in BIGNUM_RADIX xs" "digits_in BIGNUM_RADIX ys" "length ys \<le> length xs"
  shows "digits_in BIGNUM_RADIX (bitwise_digits oper xs ys) \<and> length (bitwise_digits oper xs ys) = length xs
    \<and> rval BIGNUM_RADIX (bitwise_digits oper xs ys) = oper (rval BIGNUM_RADIX xs) (rval BIGNUM_RADIX ys)"
  using assms
proof (induction xs arbitrary: ys)
  case (Cons x xs)
  have x: "0 \<le> x" "x < 2 ^ 62" using Cons.prems(1) by (auto simp: BIGNUM_RADIX_eq)
  define y where "y = (case ys of [] \<Rightarrow> 0 | y # _ \<Rightarrow> y)"
  have y: "0 \<le> y" "y < 2 ^ 62" using Cons.prems(2) by (auto simp: y_def BIGNUM_RADIX_eq split: list.splits)
  have st: "bitwise_digits oper (x # xs) ys = oper x y # bitwise_digits oper xs (tl ys)"
    "rval BIGNUM_RADIX ys = y + BIGNUM_RADIX * rval BIGNUM_RADIX (tl ys)"
    by (cases ys; cases xs; simp add: y_def BIGNUM_RADIX_eq)+
  have "digits_in BIGNUM_RADIX (tl ys)" "length (tl ys) \<le> length xs"
    using Cons.prems by (cases ys; simp)+
  then have ih: "digits_in BIGNUM_RADIX (bitwise_digits oper xs (tl ys))" "length (bitwise_digits oper xs (tl ys)) = length xs"
    "rval BIGNUM_RADIX (bitwise_digits oper xs (tl ys)) = oper (rval BIGNUM_RADIX xs) (rval BIGNUM_RADIX (tl ys))"
    using Cons.IH [of "tl ys"] Cons.prems(1) by simp_all
  have "rval BIGNUM_RADIX (oper x y # bitwise_digits oper xs (tl ys)) = oper (rval BIGNUM_RADIX (x # xs)) (rval BIGNUM_RADIX ys)"
    using oper_split [OF x y, of "rval BIGNUM_RADIX xs" "rval BIGNUM_RADIX (tl ys)"] ih(3)
    unfolding st(2) rval.simps ih(3) by (simp add: BIGNUM_RADIX_eq)
  then show ?case using ih oper_range [OF x y] by (simp add: st(1) BIGNUM_RADIX_eq)
qed simp

lemma unsigned_spec:
  assumes wf: "bignum_wf x" "bignum_wf y" and nn: "0 \<le> bignum_val x" "0 \<le> bignum_val y"
    and len: "BIGNUM_LENGTH y \<le> BIGNUM_LENGTH x"
  shows "\<exists>r. DEFINE_BITWISE_UNSIGNED oper postop x y = postop r \<and> bignum_wf r
    \<and> bignum_val r = oper (bignum_val x) (bignum_val y)"
proof -
  define ds where "ds = bitwise_digits oper (BIGNUM_DIGITS x) (BIGNUM_DIGITS y)"
  have ds: "digits_in BIGNUM_RADIX ds" "length ds = BIGNUM_LENGTH x" "rval BIGNUM_RADIX ds = oper (bignum_mag x) (bignum_mag y)"
    using bitwise_digits_spec [OF bignum_wf_digits_in [OF wf(1)] bignum_wf_digits_in [OF wf(2)]] len
    by (simp_all add: ds_def BIGNUM_LENGTH_def bignum_mag_def)
  have "returns_bignum (Some (bignum_trim (mk_bignum False ds))) (rval BIGNUM_RADIX ds)"
    using returns_trim [OF ds(1), of False] ds(2) bignum_wf_length [OF wf(1)] by (simp add: BIGNUM_LENGTH_def)
  moreover have "DEFINE_BITWISE_UNSIGNED oper postop x y = postop (bignum_trim (mk_bignum False ds))"
    using len bignum_wf_length [OF wf(1)] ds(2)
    by (simp add: DEFINE_BITWISE_UNSIGNED_def bignum_allocate_def BIGNUM_LENGTH_def mk_bignum_def flip: ds_def)
  ultimately show ?thesis using ds(3) nn bignum_abs_val [OF wf(1)] bignum_abs_val [OF wf(2)]
    by (auto simp: returns_bignum_def)
qed

end

interpretation and_digits: bitwise_operation BITWISE_AND "(\<and>)"
  by unfold_locales (simp_all add: BITWISE_AND_def bit_simps)

interpretation andc2_digits: bitwise_operation BITWISE_ANDC2 "\<lambda>a b. a \<and> \<not> b"
  by unfold_locales (simp_all add: BITWISE_ANDC2_def bit_simps)

interpretation andc1_digits: bitwise_operation BITWISE_ANDC1 "\<lambda>a b. b \<and> \<not> a"
  by unfold_locales (simp_all add: BITWISE_ANDC1_def bit_simps)

interpretation xor_digits: bitwise_operation BITWISE_XOR "(\<noteq>)"
  by unfold_locales (simp_all add: BITWISE_XOR_def bit_simps)

interpretation ior_digits: bitwise_operation BITWISE_IOR "(\<or>)"
  by unfold_locales (simp_all add: BITWISE_IOR_def bit_simps)

subsection \<open>Capacity\<close>

text \<open>Magnitudes below \<open>2 ^ bit_capacity\<close> leave room for one more digit.\<close>

definition bit_capacity :: nat where "bit_capacity = 62 * (BIGNUM_LENGTH_MAX - 1)"

lemma capacity_iff:
  assumes "bignum_wf b"
  shows "BIGNUM_LENGTH b < BIGNUM_LENGTH_MAX \<longleftrightarrow> \<bar>bignum_val b\<bar> < 2 ^ bit_capacity"
proof -
  have K: "(2 :: int) ^ bit_capacity = BIGNUM_RADIX ^ (BIGNUM_LENGTH_MAX - 1)" by (simp only: bit_capacity_def RADIX_power)
  note M = LENGTH_MAX_ge
  show ?thesis
  proof
    assume "BIGNUM_LENGTH b < BIGNUM_LENGTH_MAX"
    then have "BIGNUM_RADIX ^ BIGNUM_LENGTH b \<le> BIGNUM_RADIX ^ (BIGNUM_LENGTH_MAX - 1)" by (intro power_increasing) auto
    then show "\<bar>bignum_val b\<bar> < 2 ^ bit_capacity" using bignum_mag_less [OF assms] bignum_abs_val [OF assms] K by linarith
  next
    assume less: "\<bar>bignum_val b\<bar> < 2 ^ bit_capacity"
    show "BIGNUM_LENGTH b < BIGNUM_LENGTH_MAX"
    proof (cases "BIGNUM_LENGTH b")
      case 0
      then show ?thesis using M by linarith
    next
      case (Suc k)
      then have "BIGNUM_RADIX ^ k < BIGNUM_RADIX ^ (BIGNUM_LENGTH_MAX - 1)"
        using bignum_mag_ge [OF assms, of k] less bignum_abs_val [OF assms] K by linarith
      then have "k < BIGNUM_LENGTH_MAX - 1" by (simp only: power_strict_increasing_iff [OF RADIX_pos(2)])
      with Suc show ?thesis by simp
    qed
  qed
qed

lemma returns_bitwise_not [val_simps]:
  assumes "bignum_wf b" "\<bar>bignum_val b\<bar> < 2 ^ bit_capacity"
  shows "returns_bignum (bignum_bitwise_not b) (NOT (bignum_val b))"
proof -
  have "BIGNUM_LENGTH (bignum_make_one True) < BIGNUM_LENGTH_MAX"
    using LENGTH_MAX_ge by (simp add: bignum_make_one_def)
  then have "max (BIGNUM_LENGTH (bignum_make_one True)) (BIGNUM_LENGTH b) < BIGNUM_LENGTH_MAX"
    using capacity_iff [OF assms(1)] assms(2) by simp
  then have "returns_bignum (bignum_bitwise_not b) (- 1 - bignum_val b)"
    using returns_subtract [OF make_one(1) assms(1), of True] by (simp add: bignum_bitwise_not_def)
  moreover have "- 1 - bignum_val b = NOT (bignum_val b)" by (simp add: not_int_def)
  ultimately show ?thesis by simp
qed

subsection \<open>Operations on operands that are not negative\<close>

definition in_capacity :: "int \<Rightarrow> bool" where
  "in_capacity n \<longleftrightarrow> 0 \<le> n \<and> n < 2 ^ bit_capacity"

text \<open>An unsigned operation implements an operation on integers when it returns its result for all
  operands that are not negative and leave room for one more digit.\<close>

definition implements_unsigned :: "(bignum \<Rightarrow> bignum \<Rightarrow> bignum option) \<Rightarrow> (int \<Rightarrow> int \<Rightarrow> int) \<Rightarrow> bool" where
  "implements_unsigned f g \<longleftrightarrow> (\<forall>x y. bignum_wf x \<longrightarrow> bignum_wf y \<longrightarrow> in_capacity (bignum_val x) \<longrightarrow>
     in_capacity (bignum_val y) \<longrightarrow> returns_bignum (f x y) (g (bignum_val x) (bignum_val y)))"

lemma implements_unsignedD:
  "implements_unsigned f g \<Longrightarrow> bignum_wf x \<Longrightarrow> bignum_wf y \<Longrightarrow> in_capacity (bignum_val x) \<Longrightarrow> in_capacity (bignum_val y)
   \<Longrightarrow> returns_bignum (f x y) (g (bignum_val x) (bignum_val y))"
  by (simp add: implements_unsigned_def)

lemma implements_cong: "implements_unsigned f g \<Longrightarrow> (\<And>x y. g x y = h x y) \<Longrightarrow> implements_unsigned f h"
  by (simp add: implements_unsigned_def)

context bitwise_operation
begin

lemma in_capacity_oper: "in_capacity x \<Longrightarrow> in_capacity y \<Longrightarrow> in_capacity (oper x y)"
  using oper_range [of x bit_capacity y] by (simp add: in_capacity_def)

lemma swap_spec:
  assumes comm: "\<And>a b. oper a b = oper b a" and wf: "bignum_wf x" "bignum_wf y"
    and nn: "0 \<le> bignum_val x" "0 \<le> bignum_val y"
  shows "\<exists>r. SWAP_UNSIGNED oper postop x y = postop r \<and> bignum_wf r \<and> bignum_val r = oper (bignum_val x) (bignum_val y)"
proof (cases "BIGNUM_LENGTH x < BIGNUM_LENGTH y")
  case True
  have "\<exists>r. DEFINE_BITWISE_UNSIGNED oper postop y x = postop r \<and> bignum_wf r \<and> bignum_val r = oper (bignum_val y) (bignum_val x)"
    using True wf nn by (intro unsigned_spec) auto
  then show ?thesis using True comm by (simp add: SWAP_UNSIGNED_def)
next
  case False
  then show ?thesis using wf nn unsigned_spec by (simp add: SWAP_UNSIGNED_def)
qed

lemma implements_swap:
  assumes "\<And>a b. oper a b = oper b a"
  shows "implements_unsigned (SWAP_UNSIGNED oper Some) oper"
    and "implements_unsigned (SWAP_UNSIGNED oper bignum_bitwise_not) (\<lambda>x y. NOT (oper x y))"
proof -
  show "implements_unsigned (SWAP_UNSIGNED oper Some) oper"
    using swap_spec [OF assms, of _ _ Some]
    by (auto simp: implements_unsigned_def in_capacity_def returns_bignum_def)
  have "returns_bignum (SWAP_UNSIGNED oper bignum_bitwise_not x y) (NOT (oper (bignum_val x) (bignum_val y)))"
    if h: "bignum_wf x" "bignum_wf y" "in_capacity (bignum_val x)" "in_capacity (bignum_val y)" for x y
  proof -
    obtain r where r: "SWAP_UNSIGNED oper bignum_bitwise_not x y = bignum_bitwise_not r" "bignum_wf r"
      "bignum_val r = oper (bignum_val x) (bignum_val y)"
      using swap_spec [OF assms h(1,2)] h(3,4) by (auto simp: in_capacity_def)
    then show ?thesis using returns_bitwise_not [OF r(2)] in_capacity_oper [OF h(3,4)] by (simp add: in_capacity_def)
  qed
  then show "implements_unsigned (SWAP_UNSIGNED oper bignum_bitwise_not) (\<lambda>x y. NOT (oper x y))"
    by (auto simp: implements_unsigned_def)
qed

end

lemma implements_commute:
  assumes "bitwise_operation p t" "bitwise_operation q u" "\<And>a b. q a b = p b a"
  shows "implements_unsigned (\<lambda>x y. if BIGNUM_LENGTH x < BIGNUM_LENGTH y then DEFINE_BITWISE_UNSIGNED q Some y x
    else DEFINE_BITWISE_UNSIGNED p Some x y) p"
  using bitwise_operation.unsigned_spec [OF assms(1), of _ _ Some] bitwise_operation.unsigned_spec [OF assms(2), of _ _ Some] assms(3)
  by (simp add: implements_unsigned_def in_capacity_def returns_bignum_def)

lemma implements_and: "implements_unsigned bignum_bitwise_and_unsigned (\<lambda>x y. x AND y)"
  and implements_nand: "implements_unsigned bignum_bitwise_nand_unsigned (\<lambda>x y. NOT (x AND y))"
  unfolding bignum_bitwise_and_unsigned_def bignum_bitwise_nand_unsigned_def
  by (rule implements_cong [OF and_digits.implements_swap(1)] implements_cong [OF and_digits.implements_swap(2)];
      simp add: BITWISE_AND_def and.commute)+

lemma implements_xor: "implements_unsigned bignum_bitwise_xor_unsigned (\<lambda>x y. x XOR y)"
  and implements_eqv: "implements_unsigned bignum_bitwise_eqv_unsigned (\<lambda>x y. NOT (x XOR y))"
  unfolding bignum_bitwise_xor_unsigned_def bignum_bitwise_eqv_unsigned_def
  by (rule implements_cong [OF xor_digits.implements_swap(1)] implements_cong [OF xor_digits.implements_swap(2)];
      simp add: BITWISE_XOR_def xor.commute)+

lemma implements_ior: "implements_unsigned bignum_bitwise_ior_unsigned (\<lambda>x y. x OR y)"
  and implements_nor: "implements_unsigned bignum_bitwise_nor_unsigned (\<lambda>x y. NOT (x OR y))"
  unfolding bignum_bitwise_ior_unsigned_def bignum_bitwise_nor_unsigned_def
  by (rule implements_cong [OF ior_digits.implements_swap(1)] implements_cong [OF ior_digits.implements_swap(2)];
      simp add: BITWISE_IOR_def or.commute)+

lemma implements_andc2: "implements_unsigned bignum_bitwise_andc2_unsigned (\<lambda>x y. x AND NOT y)"
  unfolding bignum_bitwise_andc2_unsigned_def [abs_def]
  by (rule implements_cong [OF implements_commute [OF andc2_digits.bitwise_operation_axioms andc1_digits.bitwise_operation_axioms]])
    (simp_all add: BITWISE_ANDC1_def BITWISE_ANDC2_def)

lemma implements_andc1: "implements_unsigned bignum_bitwise_andc1_unsigned (\<lambda>x y. y AND NOT x)"
  unfolding bignum_bitwise_andc1_unsigned_def [abs_def]
  by (rule implements_cong [OF implements_commute [OF andc1_digits.bitwise_operation_axioms andc2_digits.bitwise_operation_axioms]])
    (simp_all add: BITWISE_ANDC1_def BITWISE_ANDC2_def)

subsection \<open>The table of a signed operation\<close>

text \<open>What the arguments of \<open>DEFINE_BITWISE\<close> promise: the results for a zero operand, and the
  four unsigned operations on the complements of the negative operands.\<close>

locale signed_operation =
  fixes g :: "int \<Rightarrow> int \<Rightarrow> int" and X0 Y0 :: "bignum \<Rightarrow> bignum option"
    and PP PN NP NN :: "bignum \<Rightarrow> bignum \<Rightarrow> bignum option"
  assumes X0: "bignum_wf x \<Longrightarrow> \<bar>bignum_val x\<bar> < 2 ^ bit_capacity \<Longrightarrow> returns_bignum (X0 x) (g (bignum_val x) 0)"
    and Y0: "bignum_wf y \<Longrightarrow> \<bar>bignum_val y\<bar> < 2 ^ bit_capacity \<Longrightarrow> returns_bignum (Y0 y) (g 0 (bignum_val y))"
    and PP: "implements_unsigned PP g"
    and PN: "implements_unsigned PN (\<lambda>x y. g x (NOT y))"
    and NP: "implements_unsigned NP (\<lambda>x y. g (NOT x) y)"
    and NN: "implements_unsigned NN (\<lambda>x y. g (NOT x) (NOT y))"
begin

lemma complement:
  assumes "bignum_wf b" "bignum_val b < 0" "\<bar>bignum_val b\<bar> < 2 ^ bit_capacity"
  obtains b' where "bignum_bitwise_not b = Some b'" "bignum_wf b'" "bignum_val b' = NOT (bignum_val b)"
    "in_capacity (bignum_val b')" "NOT (bignum_val b') = bignum_val b"
proof -
  obtain b' where b: "bignum_bitwise_not b = Some b'" "bignum_wf b'" "bignum_val b' = NOT (bignum_val b)"
    using returns_bitwise_not [OF assms(1,3)] by (auto simp: returns_bignum_def)
  moreover have "in_capacity (bignum_val b')" using b(3) assms by (simp add: in_capacity_def not_int_def)
  ultimately show thesis using that by simp
qed

lemma correct:
  assumes wf: "bignum_wf x" "bignum_wf y"
    and cap: "\<bar>bignum_val x\<bar> < 2 ^ bit_capacity" "\<bar>bignum_val y\<bar> < 2 ^ bit_capacity"
  shows "returns_bignum (DEFINE_BITWISE X0 Y0 PP PN NP NN x y) (g (bignum_val x) (bignum_val y))"
proof -
  note sign = bignum_ZERO_P_iff bignum_POSITIVE_P_iff
  have pos: "in_capacity (bignum_val b)" if "0 < bignum_val b" "\<bar>bignum_val b\<bar> < 2 ^ bit_capacity" for b
    using that by (simp add: in_capacity_def)
  consider "bignum_val x = 0" | "bignum_val x \<noteq> 0" "bignum_val y = 0"
    | "0 < bignum_val x" "0 < bignum_val y" | "0 < bignum_val x" "bignum_val y < 0"
    | "bignum_val x < 0" "0 < bignum_val y" | "bignum_val x < 0" "bignum_val y < 0" by linarith
  then show ?thesis
  proof cases
    case 1
    then show ?thesis using wf Y0 [OF wf(2) cap(2)] by (simp add: DEFINE_BITWISE_def bignum_ZERO_P_iff)
  next
    case 2
    then show ?thesis using wf X0 [OF wf(1) cap(1)] by (simp add: DEFINE_BITWISE_def bignum_ZERO_P_iff)
  next
    case 3
    then show ?thesis using wf implements_unsignedD [OF PP wf] pos cap by (simp add: DEFINE_BITWISE_def sign)
  next
    case 4
    obtain y' where y: "bignum_bitwise_not y = Some y'" "bignum_wf y'" "in_capacity (bignum_val y')" "NOT (bignum_val y') = bignum_val y"
      using complement [OF wf(2) 4(2) cap(2)] by metis
    show ?thesis using 4 wf implements_unsignedD [OF PN wf(1) y(2) pos [OF 4(1) cap(1)] y(3)] y(1,4)
      by (simp add: DEFINE_BITWISE_def sign)
  next
    case 5
    obtain x' where x: "bignum_bitwise_not x = Some x'" "bignum_wf x'" "in_capacity (bignum_val x')" "NOT (bignum_val x') = bignum_val x"
      using complement [OF wf(1) 5(1) cap(1)] by metis
    show ?thesis using 5 wf implements_unsignedD [OF NP x(2) wf(2) x(3) pos [OF 5(2) cap(2)]] x(1,4)
      by (simp add: DEFINE_BITWISE_def sign)
  next
    case 6
    obtain x' y' where n: "bignum_bitwise_not x = Some x'" "bignum_wf x'" "in_capacity (bignum_val x')" "NOT (bignum_val x') = bignum_val x"
      "bignum_bitwise_not y = Some y'" "bignum_wf y'" "in_capacity (bignum_val y')" "NOT (bignum_val y') = bignum_val y"
      using complement [OF wf(1) 6(1) cap(1)] complement [OF wf(2) 6(2) cap(2)] by metis
    show ?thesis using 6 wf implements_unsignedD [OF NN n(2,6,3,7)] n(1,4,5,8) by (simp add: DEFINE_BITWISE_def sign)
  qed
qed

end


subsection \<open>The ten operations\<close>

lemmas de_Morgan_bits = bit.de_Morgan_conj bit.de_Morgan_disj and.commute or.commute

lemma returns_make_zero: "returns_bignum (Some bignum_make_zero) 0"
  using returns_self [OF make_zero(1)] by simp

lemma returns_minus_one: "returns_bignum (Some (bignum_make_one True)) (- 1)"
  using returns_self [OF make_one(1), of True] by simp

lemmas zero_operand = returns_make_zero returns_minus_one returns_self returns_bitwise_not

interpretation and_op: signed_operation "\<lambda>x y. x AND y" "\<lambda>x. Some bignum_make_zero" "\<lambda>y. Some bignum_make_zero"
  bignum_bitwise_and_unsigned bignum_bitwise_andc2_unsigned bignum_bitwise_andc1_unsigned bignum_bitwise_nor_unsigned
  by unfold_locales (simp_all add: zero_operand implements_and implements_andc2 implements_cong [OF implements_andc1]
    implements_cong [OF implements_nor] de_Morgan_bits)

interpretation andc2_op: signed_operation "\<lambda>x y. x AND NOT y" Some "\<lambda>y. Some bignum_make_zero"
  bignum_bitwise_andc2_unsigned bignum_bitwise_and_unsigned bignum_bitwise_nor_unsigned bignum_bitwise_andc1_unsigned
  by unfold_locales (simp_all add: zero_operand implements_cong [OF implements_andc2] implements_cong [OF implements_and] implements_cong [OF implements_nor] implements_cong [OF implements_andc1] de_Morgan_bits)

interpretation andc1_op: signed_operation "\<lambda>x y. y AND NOT x" "\<lambda>x. Some bignum_make_zero" Some
  bignum_bitwise_andc1_unsigned bignum_bitwise_nor_unsigned bignum_bitwise_and_unsigned bignum_bitwise_andc2_unsigned
  by unfold_locales (simp_all add: zero_operand implements_cong [OF implements_andc1] implements_cong [OF implements_nor] implements_cong [OF implements_and] implements_cong [OF implements_andc2] de_Morgan_bits)

lemma implements_not_signed:
  assumes "signed_operation g X0 Y0 PP PN NP NN" "\<And>x y. in_capacity x \<Longrightarrow> in_capacity y \<Longrightarrow> in_capacity (g x y)"
  shows "implements_unsigned (\<lambda>x y. Option.bind (DEFINE_BITWISE X0 Y0 PP PN NP NN x y) bignum_bitwise_not) (\<lambda>x y. NOT (g x y))"
proof -
  have "returns_bignum (Option.bind (DEFINE_BITWISE X0 Y0 PP PN NP NN x y) bignum_bitwise_not) (NOT (g (bignum_val x) (bignum_val y)))"
    if h: "bignum_wf x" "bignum_wf y" "in_capacity (bignum_val x)" "in_capacity (bignum_val y)" for x y
  proof -
    obtain r where r: "DEFINE_BITWISE X0 Y0 PP PN NP NN x y = Some r" "bignum_wf r" "bignum_val r = g (bignum_val x) (bignum_val y)"
      using signed_operation.correct [OF assms(1) h(1,2)] h(3,4) by (auto simp: in_capacity_def returns_bignum_def)
    then show ?thesis using returns_bitwise_not [OF r(2)] assms(2) [OF h(3,4)] by (simp add: in_capacity_def)
  qed
  then show ?thesis by (simp add: implements_unsigned_def)
qed

lemma implements_orc2: "implements_unsigned bignum_bitwise_orc2_unsigned (\<lambda>x y. x OR NOT y)"
  unfolding bignum_bitwise_orc2_unsigned_def [abs_def] bignum_bitwise_andc1_def
  using andc1_digits.in_capacity_oper
  by (intro implements_cong [OF implements_not_signed [OF andc1_op.signed_operation_axioms]])
    (simp_all add: BITWISE_ANDC1_def de_Morgan_bits)

lemma implements_orc1: "implements_unsigned bignum_bitwise_orc1_unsigned (\<lambda>x y. NOT x OR y)"
  unfolding bignum_bitwise_orc1_unsigned_def [abs_def] bignum_bitwise_andc2_def
  using andc2_digits.in_capacity_oper
  by (intro implements_cong [OF implements_not_signed [OF andc2_op.signed_operation_axioms]])
    (simp_all add: BITWISE_ANDC2_def de_Morgan_bits)

interpretation xor_op: signed_operation "\<lambda>x y. x XOR y" Some Some
  bignum_bitwise_xor_unsigned bignum_bitwise_eqv_unsigned bignum_bitwise_eqv_unsigned bignum_bitwise_xor_unsigned
  by unfold_locales (simp_all add: zero_operand implements_cong [OF implements_xor] implements_cong [OF implements_eqv] de_Morgan_bits)

interpretation ior_op: signed_operation "\<lambda>x y. x OR y" Some Some
  bignum_bitwise_ior_unsigned bignum_bitwise_orc2_unsigned bignum_bitwise_orc1_unsigned bignum_bitwise_nand_unsigned
  by unfold_locales (simp_all add: zero_operand implements_cong [OF implements_ior] implements_cong [OF implements_orc2] implements_cong [OF implements_orc1] implements_cong [OF implements_nand] de_Morgan_bits)

interpretation nor_op: signed_operation "\<lambda>x y. NOT (x OR y)" bignum_bitwise_not bignum_bitwise_not
  bignum_bitwise_nor_unsigned bignum_bitwise_andc1_unsigned bignum_bitwise_andc2_unsigned bignum_bitwise_and_unsigned
  by unfold_locales (simp_all add: zero_operand implements_cong [OF implements_nor] implements_cong [OF implements_andc1] implements_cong [OF implements_andc2] implements_cong [OF implements_and] de_Morgan_bits)

interpretation eqv_op: signed_operation "\<lambda>x y. NOT (x XOR y)" bignum_bitwise_not bignum_bitwise_not
  bignum_bitwise_eqv_unsigned bignum_bitwise_xor_unsigned bignum_bitwise_xor_unsigned bignum_bitwise_eqv_unsigned
  by unfold_locales (simp_all add: zero_operand implements_cong [OF implements_eqv] implements_cong [OF implements_xor] de_Morgan_bits)

interpretation orc2_op: signed_operation "\<lambda>x y. x OR NOT y" "\<lambda>x. Some (bignum_make_one True)" bignum_bitwise_not
  bignum_bitwise_orc2_unsigned bignum_bitwise_ior_unsigned bignum_bitwise_nand_unsigned bignum_bitwise_orc1_unsigned
  by unfold_locales (simp_all add: zero_operand implements_cong [OF implements_orc2] implements_cong [OF implements_ior] implements_cong [OF implements_nand] implements_cong [OF implements_orc1] de_Morgan_bits)

interpretation orc1_op: signed_operation "\<lambda>x y. NOT x OR y" bignum_bitwise_not "\<lambda>y. Some (bignum_make_one True)"
  bignum_bitwise_orc1_unsigned bignum_bitwise_nand_unsigned bignum_bitwise_ior_unsigned bignum_bitwise_orc2_unsigned
  by unfold_locales (simp_all add: zero_operand implements_cong [OF implements_orc1] implements_cong [OF implements_nand] implements_cong [OF implements_ior] implements_cong [OF implements_orc2] de_Morgan_bits)

interpretation nand_op: signed_operation "\<lambda>x y. NOT (x AND y)" "\<lambda>x. Some (bignum_make_one True)" "\<lambda>y. Some (bignum_make_one True)"
  bignum_bitwise_nand_unsigned bignum_bitwise_orc1_unsigned bignum_bitwise_orc2_unsigned bignum_bitwise_ior_unsigned
  by unfold_locales (simp_all add: zero_operand implements_cong [OF implements_nand] implements_cong [OF implements_orc1] implements_cong [OF implements_orc2] implements_cong [OF implements_ior] de_Morgan_bits)

text \<open>Each of the ten two-operand bitwise functions, for operands of any sign, returns a
  well-formed bignum that denotes the operation on the two's complement integers, and so does the
  complement.\<close>

theorem bignum_bitwise_operations:
  assumes "bignum_wf x" "bignum_wf y" "BIGNUM_LENGTH x < BIGNUM_LENGTH_MAX" "BIGNUM_LENGTH y < BIGNUM_LENGTH_MAX"
  defines "a \<equiv> bignum_val x" and "b \<equiv> bignum_val y"
  shows "returns_bignum (bignum_bitwise_not x) (NOT a)
       \<and> returns_bignum (bignum_bitwise_and x y) (a AND b)
       \<and> returns_bignum (bignum_bitwise_andc2 x y) (a AND NOT b)
       \<and> returns_bignum (bignum_bitwise_andc1 x y) (b AND NOT a)
       \<and> returns_bignum (bignum_bitwise_xor x y) (a XOR b)
       \<and> returns_bignum (bignum_bitwise_ior x y) (a OR b)
       \<and> returns_bignum (bignum_bitwise_nor x y) (NOT (a OR b))
       \<and> returns_bignum (bignum_bitwise_eqv x y) (NOT (a XOR b))
       \<and> returns_bignum (bignum_bitwise_orc2 x y) (a OR NOT b)
       \<and> returns_bignum (bignum_bitwise_orc1 x y) (NOT a OR b)
       \<and> returns_bignum (bignum_bitwise_nand x y) (NOT (a AND b))"
proof -
  have cap: "\<bar>bignum_val x\<bar> < 2 ^ bit_capacity" "\<bar>bignum_val y\<bar> < 2 ^ bit_capacity"
    using assms(1-4) by (simp_all add: capacity_iff)
  note c = assms(1,2) cap
  show ?thesis
    unfolding a_def b_def bignum_bitwise_and_def bignum_bitwise_andc2_def bignum_bitwise_andc1_def bignum_bitwise_xor_def
      bignum_bitwise_ior_def bignum_bitwise_nor_def bignum_bitwise_eqv_def bignum_bitwise_orc2_def bignum_bitwise_orc1_def
      bignum_bitwise_nand_def
    by (intro conjI returns_bitwise_not and_op.correct andc2_op.correct andc1_op.correct xor_op.correct ior_op.correct
      nor_op.correct eqv_op.correct orc2_op.correct orc1_op.correct nand_op.correct c)
qed

theorem bignum_bitwise_operations_witness:
  "returns_bignum (bignum_bitwise_and (mk_bignum True [0, 1]) (mk_bignum False [5, 3])) (3 * 2 ^ 62)
   \<and> returns_bignum (bignum_bitwise_xor (mk_bignum True [0, 1]) (mk_bignum False [5, 3])) (5 - 4 * 2 ^ 62)"
  using bignum_bitwise_operations [of "mk_bignum True [0, 1]" "mk_bignum False [5, 3]"]
  by (simp add: concrete_bignum)

end
