(* ===== verification/Bignum_Shift.thy ===== *)
theory Bignum_Shift
  imports Bignum_Bits
begin

text \<open>
  Shifts and bit counts of bignums (\<open>src/src/microcode/bignum.c\<close>, lines 1022 to 1440). A
  \<open>size\<close> or a \<open>position\<close> that the code has as an \<open>unsigned long\<close> is a \<open>nat\<close>; where a sum of
  such values is formed, it is reduced modulo \<open>2 ^ 64\<close>.
\<close>

subsection \<open>Shifts\<close>

text \<open>Storing a list of digits through a scan pointer that starts at the first digit. A store
  beyond the last digit is undefined behaviour in C, here \<open>None\<close>.\<close>

definition write_digits :: "bignum \<Rightarrow> int list \<Rightarrow> bignum option" where
  "write_digits r ds =
    (if length ds \<le> BIGNUM_LENGTH r
     then Some (r \<lparr> BIGNUM_DIGITS := ds @ drop (length ds) (BIGNUM_DIGITS r) \<rparr>) else None)"

fun shift_right_digits :: "nat \<Rightarrow> int \<Rightarrow> int list \<Rightarrow> int list" where
  "shift_right_digits bits extra [] = (if extra \<noteq> 0 then [extra] else [])"
| "shift_right_digits bits extra (digit # ds) =
    (push_bit (BIGNUM_DIGIT_LENGTH - bits) (digit AND BIGNUM_DIGIT_ONES bits) OR extra)
    # shift_right_digits bits (drop_bit bits digit) ds"

text \<open>The argument \<open>past\<close> is the word in memory after the last digit of \<open>n\<close>, which the code
  reads when \<open>digits\<close> is the length of \<open>n\<close> and \<open>bits\<close> is not zero.\<close>

definition bignum_shift_right_unsigned :: "int \<Rightarrow> bignum \<Rightarrow> nat \<Rightarrow> nat \<Rightarrow> bignum option" where
  "bignum_shift_right_unsigned past n digits bits = do {
     let n_length = BIGNUM_LENGTH n;
     let delta = (if 0 < n_length \<and> drop_bit bits (BIGNUM_REF n (n_length - 1)) = 0 then 1 else 0);
     BIGNUM_ASSERT (digits + delta \<le> n_length);
     let r_length = n_length - digits - delta;
     r \<leftarrow> bignum_allocate r_length False;
     let n_scan = drop digits (BIGNUM_DIGITS n);
     if bits = 0 then write_digits r n_scan
     else do {
       let extra = drop_bit bits (case n_scan of [] \<Rightarrow> past | d # _ \<Rightarrow> d);
       let ds = shift_right_digits bits extra (tl n_scan);
       BIGNUM_ASSERT (length ds = r_length);
       write_digits r ds } }"

definition bignum_shift_right :: "int \<Rightarrow> bignum \<Rightarrow> nat \<Rightarrow> bignum option" where
  "bignum_shift_right past n m =
    (let digits = m div BIGNUM_DIGIT_LENGTH; bits = m mod BIGNUM_DIGIT_LENGTH
     in if digits \<ge> BIGNUM_LENGTH n
        then Some (if BIGNUM_NEGATIVE_P n then bignum_make_one True else bignum_make_zero)
        else if BIGNUM_NEGATIVE_P n then do {
          n' \<leftarrow> bignum_bitwise_not n;
          r \<leftarrow> bignum_shift_right_unsigned past n' digits bits;
          bignum_bitwise_not r }
        else bignum_shift_right_unsigned past n digits bits)"

fun shift_left_digits :: "nat \<Rightarrow> int \<Rightarrow> int list \<Rightarrow> int list \<times> int" where
  "shift_left_digits shift temp [] = ([], temp)"
| "shift_left_digits shift temp (digit # ds) =
    (let (rs, t) = shift_left_digits shift (drop_bit (BIGNUM_DIGIT_LENGTH - shift) digit) ds
     in (((push_bit shift digit AND BIGNUM_DIGIT_MASK) OR temp) # rs, t))"

definition bignum_shift_left :: "bignum \<Rightarrow> nat \<Rightarrow> bignum option" where
  "bignum_shift_left n m =
    (let ln = BIGNUM_LENGTH n
     in if m = 0 \<or> BIGNUM_ZERO_P n then Some n
        else do {
          let delta = ulong_length_in_bits (word_of_int (BIGNUM_REF n (ln - 1)));
          let zeroes = m div BIGNUM_DIGIT_LENGTH;
          let shift = m mod BIGNUM_DIGIT_LENGTH;
          let total = (delta + m) mod 2 ^ 64;
          let ln2 = (ln - 1) + total div BIGNUM_DIGIT_LENGTH
                    + (if total mod BIGNUM_DIGIT_LENGTH \<noteq> 0 then 1 else 0);
          result \<leftarrow> bignum_allocate ln2 (BIGNUM_NEGATIVE_P n);
          write_digits result (replicate zeroes 0 @
            (if shift = 0 then BIGNUM_DIGITS n
             else let (ds, temp) = shift_left_digits shift 0 (BIGNUM_DIGITS n)
                  in ds @ (if temp \<noteq> 0 then [temp] else []))) })"

function low_digits :: "ulong \<Rightarrow> int list" where
  "low_digits n = (if n > 0 then uint (n AND word_of_int BIGNUM_DIGIT_MASK) # low_digits (drop_bit BIGNUM_DIGIT_LENGTH n) else [])"
  by pat_completeness auto
termination
proof (relation "measure (\<lambda>a. nat (uint a))")
  fix a :: ulong
  assume "0 < a"
  then have "0 < uint a" by (simp add: word_less_def)
  then have "uint a div 2 ^ 62 < uint a" by (intro int_div_less_self) simp_all
  then show "(drop_bit BIGNUM_DIGIT_LENGTH a, a) \<in> measure (\<lambda>a. nat (uint a))"
    by (simp only: BIGNUM_DIGIT_LENGTH_def in_measure uint_drop_bit_ulong) (simp add: nat_less_iff)
qed simp

declare low_digits.simps [simp del]

definition unsigned_long_to_shifted_bignum :: "ulong \<Rightarrow> nat \<Rightarrow> bool \<Rightarrow> bignum option" where
  "unsigned_long_to_shifted_bignum n m sign =
    (if n = 0 then Some bignum_make_zero
     else do {
       let delta = ulong_length_in_bits n;
       let zeroes = m div BIGNUM_DIGIT_LENGTH;
       let shift = m mod BIGNUM_DIGIT_LENGTH;
       let total = (delta + m) mod 2 ^ 64;
       let ln = total div BIGNUM_DIGIT_LENGTH + (if total mod BIGNUM_DIGIT_LENGTH \<noteq> 0 then 1 else 0);
       result \<leftarrow> bignum_allocate ln sign;
       write_digits result (replicate zeroes 0 @ [uint (push_bit shift n AND word_of_int BIGNUM_DIGIT_MASK)]
         @ low_digits (drop_bit (BIGNUM_DIGIT_LENGTH - shift) n)) })"

definition bignum_nonnegative_one_bits :: "nat \<Rightarrow> nat \<Rightarrow> bignum option" where
  "bignum_nonnegative_one_bits size' position = do {
     a \<leftarrow> bignum_shift_left (bignum_make_one True) size';
     b \<leftarrow> bignum_bitwise_not a;
     bignum_shift_left b position }"

definition bignum_negative_zero_bits :: "nat \<Rightarrow> nat \<Rightarrow> bignum option" where
  "bignum_negative_zero_bits n m = do { a \<leftarrow> bignum_nonnegative_one_bits n m; bignum_bitwise_not a }"

subsection \<open>Lengths and counts\<close>

definition bignum_length_in_bits :: "bignum \<Rightarrow> nat" where
  "bignum_length_in_bits bignum =
    (if BIGNUM_ZERO_P bignum then 0
     else let index = BIGNUM_LENGTH bignum - 1
          in ulong_length_in_bits (word_of_int (BIGNUM_REF bignum index)) + BIGNUM_DIGIT_LENGTH * index)"

definition bignum_integer_length :: "bignum \<Rightarrow> nat" where
  "bignum_integer_length bignum =
    (let length_in_bits = bignum_length_in_bits bignum
     in if BIGNUM_ZERO_P bignum \<or> BIGNUM_POSITIVE_P bignum then length_in_bits
        else if list_ex (\<lambda>d. d \<noteq> 0) (butlast (BIGNUM_DIGITS bignum)) then length_in_bits
        else let d = last (BIGNUM_DIGITS bignum)
             in length_in_bits - (if d AND (d - 1) = 0 then 1 else 0))"

fun first_set_scan :: "int list \<Rightarrow> nat \<Rightarrow> (int \<times> nat) option" where
  "first_set_scan [] k = None"
| "first_set_scan (d # ds) k = (if d \<noteq> 0 then Some (d, k) else first_set_scan ds (k + 1))"

definition bignum_first_set_bit :: "bignum \<Rightarrow> int option" where
  "bignum_first_set_bit bignum =
    (if BIGNUM_ZERO_P bignum then Some (- 1)
     else do {
       (d, k) \<leftarrow> first_set_scan (BIGNUM_DIGITS bignum) 0;
       Some (int (ulong_bit_count (drop_bit 1 (word_of_int d XOR (word_of_int d - 1))) + k * BIGNUM_DIGIT_LENGTH)) })"

definition digits_bit_count :: "int list \<Rightarrow> nat" where
  "digits_bit_count ds = sum_list (map (\<lambda>d. ulong_bit_count (word_of_int d)) ds)"

definition digits_hamming_distance :: "int list \<Rightarrow> int list \<Rightarrow> nat" where
  "digits_hamming_distance xs ys =
    sum_list (map2 (\<lambda>x y. ulong_bit_count (word_of_int x XOR word_of_int y)) xs ys)"

definition bignum_positive_hamming_distance :: "bignum \<Rightarrow> bignum \<Rightarrow> nat option" where
  "bignum_positive_hamming_distance x y = do {
     BIGNUM_ASSERT (\<not> BIGNUM_ZERO_P x);
     BIGNUM_ASSERT (\<not> BIGNUM_ZERO_P y);
     BIGNUM_ASSERT (BIGNUM_POSITIVE_P x);
     BIGNUM_ASSERT (BIGNUM_POSITIVE_P y);
     let (x, y) = (if BIGNUM_LENGTH x < BIGNUM_LENGTH y then (y, x) else (x, y));
     Some (digits_hamming_distance (take (BIGNUM_LENGTH y) (BIGNUM_DIGITS x)) (BIGNUM_DIGITS y)
           + digits_bit_count (drop (BIGNUM_LENGTH y) (BIGNUM_DIGITS x))) }"

definition bignum_bit_count_unsigned :: "bignum \<Rightarrow> nat" where
  "bignum_bit_count_unsigned x = digits_bit_count (BIGNUM_DIGITS x)"

definition bignum_negative_hamming_distance :: "bignum \<Rightarrow> bignum \<Rightarrow> nat option" where
  "bignum_negative_hamming_distance x y = do {
     x \<leftarrow> bignum_bitwise_not x;
     y \<leftarrow> bignum_bitwise_not y;
     if BIGNUM_ZERO_P x then Some (bignum_bit_count_unsigned y)
     else if BIGNUM_ZERO_P y then Some (bignum_bit_count_unsigned x)
     else bignum_positive_hamming_distance x y }"

definition bignum_bit_count :: "bignum \<Rightarrow> nat option" where
  "bignum_bit_count x =
    (if BIGNUM_ZERO_P x then Some 0
     else if BIGNUM_NEGATIVE_P x then do { n \<leftarrow> bignum_bitwise_not x; Some (bignum_bit_count_unsigned n) }
     else Some (bignum_bit_count_unsigned x))"

text \<open>The first test compares addresses; \<open>same\<close> says whether the two arguments are one object.\<close>

definition bignum_hamming_distance :: "bool \<Rightarrow> bignum \<Rightarrow> bignum \<Rightarrow> int option" where
  "bignum_hamming_distance same x y =
    (if same then Some 0
     else if BIGNUM_ZERO_P x then Some (if BIGNUM_NEGATIVE_P y then - 1 else int (bignum_bit_count_unsigned y))
     else if BIGNUM_ZERO_P y then Some (if BIGNUM_NEGATIVE_P x then - 1 else int (bignum_bit_count_unsigned x))
     else if BIGNUM_POSITIVE_P x
     then (if BIGNUM_POSITIVE_P y then map_option int (bignum_positive_hamming_distance x y) else Some (- 1))
     else (if BIGNUM_POSITIVE_P y then Some (- 1) else map_option int (bignum_negative_hamming_distance x y)))"

subsection \<open>Shifting right\<close>

lemma BIGNUM_DIGIT_ONES_eq: "n < 64 \<Longrightarrow> BIGNUM_DIGIT_ONES n = 2 ^ n - 1"
proof -
  assume n: "n < 64"
  have "NOT (push_bit n (NOT (0 :: ulong))) = mask n" by (rule bit_eqI) (simp add: bit_simps)
  then have e: "BIGNUM_DIGIT_ONES n = uint (word_of_int (2 ^ n - 1) :: ulong)"
    by (simp add: BIGNUM_DIGIT_ONES_def mask_eq_exp_minus_1)
  have "(2 :: int) ^ n < 2 ^ 64" using n by (intro power_strict_increasing) auto
  then show ?thesis unfolding e by (intro uint_word_of_int_ulong) simp_all
qed

lemma shift_right_step:
  assumes "0 < b" "b < 62" "0 \<le> d" "d < BIGNUM_RADIX" "0 \<le> e" "e < 2 ^ (62 - b)"
  shows "push_bit (BIGNUM_DIGIT_LENGTH - b) (d AND BIGNUM_DIGIT_ONES b) OR e = (d mod 2 ^ b) * 2 ^ (62 - b) + e"
    "0 \<le> (d mod 2 ^ b) * 2 ^ (62 - b) + e" "(d mod 2 ^ b) * 2 ^ (62 - b) + e < BIGNUM_RADIX"
    "0 \<le> drop_bit b d" "drop_bit b d < 2 ^ (62 - b)" "d = 2 ^ b * drop_bit b d + d mod 2 ^ b"
proof -
  have r: "BIGNUM_RADIX = 2 ^ b * 2 ^ (62 - b)" using assms by (simp add: BIGNUM_RADIX_eq flip: power_add)
  have "d AND BIGNUM_DIGIT_ONES b = d mod 2 ^ b" using assms by (simp add: BIGNUM_DIGIT_ONES_eq mask_and_mod)
  then show "push_bit (BIGNUM_DIGIT_LENGTH - b) (d AND BIGNUM_DIGIT_ONES b) OR e = (d mod 2 ^ b) * 2 ^ (62 - b) + e"
    using push_or_eq_add [of e "62 - b" "d mod 2 ^ b"] assms by (simp add: BIGNUM_DIGIT_LENGTH_def push_bit_eq_mult)
  show "0 \<le> (d mod 2 ^ b) * 2 ^ (62 - b) + e" using assms by simp
  have "d mod 2 ^ b + 1 \<le> 2 ^ b" using pos_mod_bound [of "2 ^ b" d] zero_less_power [of "2 :: int" b] by linarith
  then have "(d mod 2 ^ b + 1) * 2 ^ (62 - b) \<le> 2 ^ b * 2 ^ (62 - b)" by (intro mult_right_mono) simp_all
  then show "(d mod 2 ^ b) * 2 ^ (62 - b) + e < BIGNUM_RADIX" using assms unfolding r by (simp add: algebra_simps)
  show "0 \<le> drop_bit b d" using assms by simp
  show "drop_bit b d < 2 ^ (62 - b)" using assms by (simp add: drop_bit_eq_div zdiv_less_iff r mult.commute)
  show "d = 2 ^ b * drop_bit b d + d mod 2 ^ b" by (simp add: drop_bit_eq_div)
qed

lemma shift_right_digits_spec:
  assumes b: "0 < b" "b < 62"
  shows "digits_in BIGNUM_RADIX ds \<Longrightarrow> ds \<noteq> [] \<longrightarrow> last ds \<noteq> 0 \<Longrightarrow> 0 \<le> e \<Longrightarrow> e < 2 ^ (62 - b) \<Longrightarrow>
    digits_wf (shift_right_digits b e ds)
    \<and> rval BIGNUM_RADIX (shift_right_digits b e ds) = e + 2 ^ (62 - b) * rval BIGNUM_RADIX ds
    \<and> length (shift_right_digits b e ds) = length ds + (if (if ds = [] then e else drop_bit b (last ds)) = 0 then 0 else 1)"
proof (induction ds arbitrary: e)
  case Nil
  have "(2 :: int) ^ (62 - b) \<le> 2 ^ 62" by (intro power_increasing) auto
  then show ?case using Nil by (simp add: digits_wf_def BIGNUM_RADIX_eq)
next
  case (Cons d ds)
  have d: "0 \<le> d" "d < BIGNUM_RADIX" "digits_in BIGNUM_RADIX ds" using Cons.prems(1) by auto
  note st = shift_right_step [OF b d(1,2) Cons.prems(3,4)]
  define x where "x = (d mod 2 ^ b) * 2 ^ (62 - b) + e"
  define rs where "rs = shift_right_digits b (drop_bit b d) ds"
  have eq: "shift_right_digits b e (d # ds) = x # rs" using st(1) by (simp add: x_def rs_def)
  have ih: "digits_wf rs" "rval BIGNUM_RADIX rs = drop_bit b d + 2 ^ (62 - b) * rval BIGNUM_RADIX ds"
    "length rs = length ds + (if (if ds = [] then drop_bit b d else drop_bit b (last ds)) = 0 then 0 else 1)"
    using Cons.IH [OF d(3) _ st(4,5)] Cons.prems(2) by (auto simp: rs_def split: if_splits)
  have r: "BIGNUM_RADIX = 2 ^ b * 2 ^ (62 - b)" using b by (simp add: BIGNUM_RADIX_eq flip: power_add)
  have val: "rval BIGNUM_RADIX (x # rs) = e + 2 ^ (62 - b) * rval BIGNUM_RADIX (d # ds)"
  proof -
    have "rval BIGNUM_RADIX (x # rs) = e + 2 ^ (62 - b) * (2 ^ b * drop_bit b d + d mod 2 ^ b) + 2 ^ (62 - b) * (BIGNUM_RADIX * rval BIGNUM_RADIX ds)"
      using ih(2) by (simp add: x_def algebra_simps r)
    also have "2 ^ b * drop_bit b d + d mod 2 ^ b = d" using st(6) by simp
    finally show ?thesis by (simp add: algebra_simps)
  qed
  have "x \<noteq> 0" if "rs = []"
  proof -
    have "ds = []" "drop_bit b d = 0" using that ih(3) by (auto split: if_splits)
    then have "d \<noteq> 0" "d = d mod 2 ^ b" using Cons.prems(2) st(6) by simp_all
    then have "d mod 2 ^ b \<noteq> 0" by metis
    moreover have "0 \<le> d mod 2 ^ b" by simp
    ultimately have "0 < d mod 2 ^ b" by linarith
    then have "0 < (d mod 2 ^ b) * 2 ^ (62 - b)" by simp
    then show ?thesis using Cons.prems(3) by (simp only: x_def)
  qed
  then have "digits_wf (x # rs)" using ih(1) st(2,3) by (auto simp: digits_wf_def x_def [symmetric])
  then show ?case using val ih(3) unfolding eq by auto
qed

lemma write_digits_exact:
  "length ds = n \<Longrightarrow> write_digits (mk_bignum s (replicate n 0)) ds = Some (mk_bignum s ds)"
  by (simp add: write_digits_def mk_bignum_def BIGNUM_LENGTH_def)

lemma rval_drop: "digits_in BIGNUM_RADIX ds \<Longrightarrow> k \<le> length ds \<Longrightarrow> rval BIGNUM_RADIX (drop k ds) = rval BIGNUM_RADIX ds div BIGNUM_RADIX ^ k"
proof -
  assume ds: "digits_in BIGNUM_RADIX ds" and k: "k \<le> length ds"
  have "rval BIGNUM_RADIX ds = rval BIGNUM_RADIX (drop k ds) * BIGNUM_RADIX ^ k + rval BIGNUM_RADIX (take k ds)"
    using rval_append [of BIGNUM_RADIX "take k ds" "drop k ds"] k by (simp add: algebra_simps)
  moreover have "0 \<le> rval BIGNUM_RADIX (take k ds)" "rval BIGNUM_RADIX (take k ds) < BIGNUM_RADIX ^ k"
    using rval_nonneg rval_less [of BIGNUM_RADIX "take k ds"] digits_in_take_drop(1) [OF ds, of k] k by simp_all
  ultimately show ?thesis using div_mod_unique_int(1) by metis
qed

lemma shift_exponent: "(2 :: int) ^ (62 * k + b) = BIGNUM_RADIX ^ k * 2 ^ b"
  by (simp only: power_add RADIX_power)

lemma returns_shift_right_unsigned:
  assumes wf: "bignum_wf n" and nn: "0 \<le> bignum_val n" and k: "k < BIGNUM_LENGTH n" and b: "b < 62"
  shows "returns_bignum (bignum_shift_right_unsigned past n k b) (bignum_val n div 2 ^ (62 * k + b))"
proof -
  define ds where "ds = BIGNUM_DIGITS n"
  have ds: "digits_in BIGNUM_RADIX ds" "last ds \<noteq> 0" "k < length ds" "length ds \<le> BIGNUM_LENGTH_MAX"
    using wf k by (auto simp: ds_def BIGNUM_LENGTH_def bignum_wf_def digits_wf_def)
  have v: "bignum_val n = rval BIGNUM_RADIX ds" using nn bignum_abs_val [OF wf] by (simp add: bignum_mag_def ds_def)
  obtain d es where de: "drop k ds = d # es" using ds(3) by (cases "drop k ds") auto
  have d: "digits_in BIGNUM_RADIX (d # es)" using digits_in_take_drop(2) [OF ds(1), of k] de by simp
  have top: "BIGNUM_REF n (BIGNUM_LENGTH n - 1) = last (d # es)"
    using ds(3) last_drop [of k ds] last_conv_nth [of ds] unfolding de [symmetric]
    by (force simp: BIGNUM_REF_def BIGNUM_LENGTH_def simp flip: ds_def)
  have len: "length (d # es) = length ds - k" using de by (metis length_drop)
  have lt: "last (d # es) \<noteq> 0" using ds(2,3) last_drop [of k ds] by (simp add: de)
  have q: "bignum_val n div 2 ^ (62 * k + b) = rval BIGNUM_RADIX (d # es) div 2 ^ b"
    using rval_drop [OF ds(1), of k] ds(3) de by (simp add: v shift_exponent zdiv_zmult2_eq)
  have n0: "0 < BIGNUM_LENGTH n" using k by simp
  show ?thesis
  proof (cases "b = 0")
    case True
    have "bignum_shift_right_unsigned past n k b = Some (mk_bignum False (d # es))"
      using True k n0 ds(3,4) lt len top de le_trans [OF diff_le_self ds(4), of k]
      by (simp add: bignum_shift_right_unsigned_def bignum_allocate_def BIGNUM_LENGTH_def write_digits_exact flip: ds_def)
    moreover have "digits_wf (d # es)" using d lt by (simp add: digits_wf_def)
    ultimately show ?thesis using q True len ds(4) by (simp add: returns_bignum_def bignum_wf_mk bignum_val_mk)
  next
    case False
    have d0: "0 \<le> d" "d < BIGNUM_RADIX" using d by auto
    have e: "0 \<le> drop_bit b d" "drop_bit b d < 2 ^ (62 - b)" using shift_right_step(4,5) [OF _ b d0, of 0] False by simp_all
    define rs where "rs = shift_right_digits b (drop_bit b d) es"
    have rs: "digits_wf rs" "rval BIGNUM_RADIX rs = drop_bit b d + 2 ^ (62 - b) * rval BIGNUM_RADIX es"
      "length rs = length es + (if drop_bit b (last (d # es)) = 0 then 0 else 1)"
      using shift_right_digits_spec [OF _ b, of es "drop_bit b d"] False d lt e by (auto simp: rs_def split: if_splits)
    have "bignum_shift_right_unsigned past n k b = Some (mk_bignum False rs)"
    proof -
      define t where "t = last (d # es)"
      have "BIGNUM_LENGTH n = length es + 1 + k" "length es + 1 \<le> BIGNUM_LENGTH_MAX"
        using len ds(3,4) by (simp_all add: BIGNUM_LENGTH_def flip: ds_def)
      then show ?thesis
        using False rs(3) de top unfolding t_def [symmetric]
        by (cases "drop_bit b t = 0")
          (simp_all add: bignum_shift_right_unsigned_def bignum_allocate_def write_digits_exact Let_def
            del: replicate.simps flip: ds_def rs_def)
    qed
    moreover have "rval BIGNUM_RADIX (d # es) div 2 ^ b = rval BIGNUM_RADIX rs"
    proof (rule div_mod_unique_int(1))
      have "BIGNUM_RADIX = 2 ^ b * 2 ^ (62 - b)" using b by (simp add: BIGNUM_RADIX_eq flip: power_add)
      then show "rval BIGNUM_RADIX (d # es) = rval BIGNUM_RADIX rs * 2 ^ b + d mod 2 ^ b"
        using shift_right_step(6) [OF _ b d0, of 0] False rs(2) by (simp add: algebra_simps)
    qed simp_all
    moreover have "length rs \<le> BIGNUM_LENGTH_MAX" using rs(3) len ds(4) by (auto split: if_splits)
    ultimately show ?thesis using rs(1) q by (simp add: returns_bignum_def bignum_wf_mk bignum_val_mk)
  qed
qed

text \<open>The complement of a negative power of the radix has one digit less; then the scan starts at
  the end of the complement.\<close>

lemma returns_shift_right_past:
  assumes wf: "bignum_wf n" and nn: "0 \<le> bignum_val n" and k: "k = BIGNUM_LENGTH n" and b: "b < 62"
    and ones: "bignum_val n + 1 = BIGNUM_RADIX ^ k" and past: "past = 0"
  shows "returns_bignum (bignum_shift_right_unsigned past n k b) (bignum_val n div 2 ^ (62 * k + b))"
proof -
  have "BIGNUM_RADIX ^ k * 1 \<le> BIGNUM_RADIX ^ k * 2 ^ b" by (intro mult_left_mono) simp_all
  then have "bignum_val n < 2 ^ (62 * k + b)" using ones unfolding shift_exponent by linarith
  then have q: "bignum_val n div 2 ^ (62 * k + b) = 0" using nn by simp
  have top: "drop_bit b (BIGNUM_REF n (k - 1)) \<noteq> 0" if k0: "0 < k"
  proof -
    define j where "j = k - 1"
    have j: "BIGNUM_LENGTH n = j + 1" using k k0 by (simp add: j_def)
    have R: "BIGNUM_RADIX ^ k = BIGNUM_RADIX * BIGNUM_RADIX ^ j" using k0 by (simp add: j_def power_eq_if)
    have "\<not> BIGNUM_REF n j < BIGNUM_RADIX - 1"
    proof
      assume "BIGNUM_REF n j < BIGNUM_RADIX - 1"
      then have "bignum_mag n < (BIGNUM_RADIX - 1) * BIGNUM_RADIX ^ j" using msd_less_iff [OF wf j] by simp
      then have "bignum_val n + BIGNUM_RADIX ^ j < BIGNUM_RADIX ^ k"
        using bignum_abs_val [OF wf] nn unfolding R by (simp add: algebra_simps)
      then show False using ones zero_less_power [OF RADIX_pos(1), of j] by linarith
    qed
    moreover have "(2 :: int) ^ b \<le> 2 ^ 61" using b by (intro power_increasing) auto
    ultimately have "2 ^ b \<le> BIGNUM_REF n j" by (simp add: BIGNUM_RADIX_eq)
    then show ?thesis using zdiv_less_iff [of "2 ^ b" "BIGNUM_REF n j" 1] by (simp add: drop_bit_eq_div j_def)
  qed
  have "bignum_shift_right_unsigned past n k b = Some (mk_bignum False [])"
    using top past k write_digits_exact [of "[]" 0 False]
    by (cases "k = 0") (simp_all add: bignum_shift_right_unsigned_def bignum_allocate_def BIGNUM_LENGTH_def Let_def)
  then show ?thesis using q by (simp add: returns_bignum_def bignum_wf_mk bignum_val_mk)
qed

lemma not_div: "0 < p \<Longrightarrow> NOT (NOT v div p) = v div p" for v p :: int
proof -
  assume p: "0 < p"
  have "NOT v = (NOT (v div p)) * p + (p - 1 - v mod p)"
    using mult_div_mod_eq [of p v] by (simp add: not_int_def algebra_simps)
  then have "NOT v div p = NOT (v div p)" using p pos_mod_bound [OF p, of v] pos_mod_sign [OF p, of v]
    by (intro div_mod_unique_int(1) [where r = "p - 1 - v mod p"]) linarith+
  then show ?thesis by simp
qed

lemma div_beyond: "\<bar>v\<bar> < p \<Longrightarrow> v div p = (if v < 0 then - 1 else 0)" for v p :: int
  using div_mod_unique_int(1) [of v "- 1" p "v + p"] by auto

lemma returns_shift_right [val_simps]:
  assumes wf: "bignum_wf n" and cap: "BIGNUM_LENGTH n < BIGNUM_LENGTH_MAX"
    and past: "past = 0 \<or> (\<forall>k. bignum_val n \<noteq> - (BIGNUM_RADIX ^ k))"
  shows "returns_bignum (bignum_shift_right past n m) (bignum_val n div 2 ^ m)"
proof -
  define k b where "k = m div 62" and "b = m mod 62"
  have m: "m = 62 * k + b" "b < 62" by (simp_all add: k_def b_def)
  have kb: "m div BIGNUM_DIGIT_LENGTH = k" "m mod BIGNUM_DIGIT_LENGTH = b" by (simp_all add: k_def b_def BIGNUM_DIGIT_LENGTH_def)
  consider "BIGNUM_LENGTH n \<le> k" | "k < BIGNUM_LENGTH n" "0 \<le> bignum_val n" | "k < BIGNUM_LENGTH n" "bignum_val n < 0" by linarith
  then show ?thesis
  proof cases
    case 1
    have "\<bar>bignum_val n\<bar> < BIGNUM_RADIX ^ BIGNUM_LENGTH n" using bignum_mag_less [OF wf] bignum_abs_val [OF wf] by simp
    also have "\<dots> \<le> 2 ^ m" using 1 unfolding RADIX_power by (intro power_increasing) (auto simp: m)
    finally show ?thesis using 1 wf returns_minus_one returns_make_zero
      by (simp add: bignum_shift_right_def kb div_beyond bignum_NEGATIVE_P_iff)
  next
    case 2
    then show ?thesis using returns_shift_right_unsigned [OF wf 2(2,1) m(2)] wf
      by (simp add: bignum_shift_right_def kb bignum_NEGATIVE_P_iff m(1) [symmetric])
  next
    case 3
    obtain c where c: "bignum_bitwise_not n = Some c" "bignum_wf c" "bignum_val c = NOT (bignum_val n)"
      using returns_bitwise_not [OF wf] cap capacity_iff [OF wf] by (auto simp: returns_bignum_def)
    have nn: "0 \<le> bignum_val c" using 3(2) by (simp add: c(3) not_int_def)
    have "returns_bignum (bignum_shift_right_unsigned past c k b) (bignum_val c div 2 ^ m)"
    proof (cases "k < BIGNUM_LENGTH c")
      case True
      then show ?thesis using returns_shift_right_unsigned [OF c(2) nn True m(2)] by (simp add: m(1))
    next
      case False
      have "bignum_mag c = bignum_mag n - 1" using bignum_abs_val [OF wf] bignum_abs_val [OF c(2)] 3(2) c(3) nn by (simp add: not_int_def)
      moreover have "BIGNUM_RADIX ^ k \<le> bignum_mag n"
      proof -
        have "BIGNUM_RADIX ^ k \<le> BIGNUM_RADIX ^ (BIGNUM_LENGTH n - 1)" using 3(1) by (intro power_increasing) auto
        moreover have "BIGNUM_RADIX ^ (BIGNUM_LENGTH n - 1) \<le> bignum_mag n" using 3(1) by (intro bignum_mag_ge [OF wf]) simp
        ultimately show ?thesis by (rule order_trans)
      qed
      moreover have "bignum_mag c < BIGNUM_RADIX ^ BIGNUM_LENGTH c" by (rule bignum_mag_less [OF c(2)])
      moreover have "BIGNUM_RADIX ^ BIGNUM_LENGTH c \<le> BIGNUM_RADIX ^ k" using False by (intro power_increasing) auto
      ultimately have "bignum_mag c + 1 = BIGNUM_RADIX ^ k" "BIGNUM_RADIX ^ k = BIGNUM_RADIX ^ BIGNUM_LENGTH c" by linarith+
      moreover from this have "k = BIGNUM_LENGTH c" by (simp add: power_inject_exp)
      moreover have "bignum_val c = bignum_mag c" using bignum_abs_val [OF c(2)] nn by simp
      moreover have "past = 0" using past calculation(1) \<open>bignum_mag c = bignum_mag n - 1\<close> bignum_abs_val [OF wf] 3(2) by smt
      ultimately show ?thesis using returns_shift_right_past [OF c(2) nn _ m(2)] by (simp add: m(1))
    qed
    then obtain r where r: "bignum_shift_right_unsigned past c k b = Some r" "bignum_wf r" "bignum_val r = bignum_val c div 2 ^ m"
      by (auto simp: returns_bignum_def)
    have "\<bar>bignum_val r\<bar> < 2 ^ bit_capacity"
    proof -
      have q: "0 \<le> bignum_val r" using nn by (simp add: r(3) pos_imp_zdiv_nonneg_iff)
      then have "bignum_val r * 1 \<le> bignum_val r * 2 ^ m" by (intro mult_left_mono) simp_all
      moreover have "bignum_val r * 2 ^ m + bignum_val c mod 2 ^ m = bignum_val c" "0 \<le> bignum_val c mod 2 ^ m"
        unfolding r(3) by (rule div_mult_mod_eq, simp)
      ultimately have "bignum_val r \<le> bignum_val c" by linarith
      moreover have "\<bar>bignum_val n\<bar> < 2 ^ bit_capacity" using cap capacity_iff [OF wf] by simp
      ultimately show ?thesis using q 3(2) c(3) by (simp add: not_int_def)
    qed
    then have "returns_bignum (bignum_bitwise_not r) (bignum_val n div 2 ^ m)"
      using returns_bitwise_not [OF r(2)] by (simp add: r(3) c(3) not_div)
    then show ?thesis using 3 wf c(1) r(1) by (simp add: bignum_shift_right_def kb bignum_NEGATIVE_P_iff)
  qed
qed

subsection \<open>Lengths in bits\<close>

text \<open>The length in bits brackets the magnitude between powers of two.\<close>

lemma digit_bits:
  assumes "0 < d" "d < BIGNUM_RADIX"
  defines "l \<equiv> ulong_length_in_bits (word_of_int d)"
  shows "0 < l" "2 ^ (l - 1) \<le> d" "d < 2 ^ l" "l \<le> 62"
proof -
  have u: "uint (word_of_int d :: ulong) = d" using assms by (intro uint_word_of_int_ulong) (auto simp: BIGNUM_RADIX_eq)
  then have nz: "word_of_int d \<noteq> (0 :: ulong)" using assms(1) by auto
  show "0 < l" "2 ^ (l - 1) \<le> d" "d < 2 ^ l" using ulong_length_in_bits_bounds [of "word_of_int d"] nz u by (simp_all add: l_def)
  then have "(2 :: int) ^ (l - 1) < 2 ^ 62" using assms(2) unfolding BIGNUM_RADIX_eq by linarith
  then have "l - 1 < 62" by (rule power_less_imp_less_exp [rotated]) simp
  then show "l \<le> 62" by simp
qed

lemma length_in_bits_bounds:
  assumes wf: "bignum_wf b" and nz: "bignum_val b \<noteq> 0"
  defines "l \<equiv> bignum_length_in_bits b"
  shows "0 < l" "2 ^ (l - 1) \<le> bignum_mag b" "bignum_mag b < 2 ^ l"
proof -
  define k where "k = BIGNUM_LENGTH b - 1"
  have z: "\<not> BIGNUM_ZERO_P b" using nz bignum_ZERO_P_iff [OF wf] by simp
  then have k: "BIGNUM_LENGTH b = k + 1" by (simp add: k_def BIGNUM_ZERO_P_def)
  define d where "d = BIGNUM_REF b k"
  define e where "e = ulong_length_in_bits (word_of_int d)"
  have "digits_wf (BIGNUM_DIGITS b)" "BIGNUM_DIGITS b \<noteq> []" using wf k by (auto simp: bignum_wf_def BIGNUM_LENGTH_def)
  then have "d \<noteq> 0" "0 \<le> d" "d < BIGNUM_RADIX"
    using k digits_in_nth [of BIGNUM_RADIX "BIGNUM_DIGITS b" k]
    by (auto simp: digits_wf_def d_def BIGNUM_REF_def BIGNUM_LENGTH_def last_conv_nth)
  then have e: "0 < e" "2 ^ (e - 1) \<le> d" "d < 2 ^ e" using digit_bits [of d] by (simp_all add: e_def)
  have l: "l = e + 62 * k" using z k by (simp add: l_def bignum_length_in_bits_def e_def d_def BIGNUM_DIGIT_LENGTH_def Let_def)
  show "0 < l" using e(1) l by simp
  have "2 ^ (e - 1) * BIGNUM_RADIX ^ k \<le> d * BIGNUM_RADIX ^ k" using e(2) by (intro mult_right_mono) simp_all
  moreover have "2 ^ (l - 1) = 2 ^ (e - 1) * BIGNUM_RADIX ^ k" using l e(1) by (simp add: RADIX_power flip: power_add)
  ultimately show "2 ^ (l - 1) \<le> bignum_mag b" using msd_bounds(1) [OF wf k] unfolding d_def by linarith
  have "(d + 1) * BIGNUM_RADIX ^ k \<le> 2 ^ e * BIGNUM_RADIX ^ k" using e(3) by (intro mult_right_mono) simp_all
  moreover have "2 ^ l = 2 ^ e * BIGNUM_RADIX ^ k" using l by (simp add: RADIX_power power_add)
  ultimately show "bignum_mag b < 2 ^ l" using msd_bounds(2) [OF wf k] unfolding d_def by linarith
qed

text \<open>The number of digits follows from the number of bits.\<close>

lemma length_from_bits:
  assumes "digits_in BIGNUM_RADIX ds" "0 < b" "2 ^ (b - 1) \<le> rval BIGNUM_RADIX ds" "rval BIGNUM_RADIX ds < 2 ^ b"
    "ds \<noteq> []" "last ds \<noteq> 0"
  shows "length ds = (b + 61) div 62"
proof -
  define k where "k = length ds - 1"
  have k: "length ds = k + 1" using assms(5) by (simp add: k_def)
  have "digits_wf ds" using assms by (simp add: digits_wf_def)
  then have lo: "(2 :: int) ^ (62 * k) \<le> rval BIGNUM_RADIX ds" using digits_wf_lower [of ds] assms(5) k by (simp add: RADIX_power)
  have hi: "rval BIGNUM_RADIX ds < 2 ^ (62 * (k + 1))" using rval_less [OF assms(1)] k by (simp only: RADIX_power)
  have "(2 :: int) ^ (62 * k) < 2 ^ b" using lo assms(4) by linarith
  then have "62 * k < b" by (rule power_less_imp_less_exp [rotated]) simp
  moreover have "(2 :: int) ^ (b - 1) < 2 ^ (62 * (k + 1))" using hi assms(3) by linarith
  then have "b - 1 < 62 * (k + 1)" by (rule power_less_imp_less_exp [rotated]) simp
  ultimately show ?thesis using k assms(2) by simp
qed

lemma ceil_digits: "t div 62 + (if t mod 62 \<noteq> 0 then 1 else 0) = (t + 61) div (62 :: nat)"
proof -
  define q where "q = t div 62"
  define r where "r = t mod 62"
  have t: "t = q * 62 + r" "r < 62" by (simp_all add: q_def r_def)
  have "(t + 61) div 62 = q + (r + 61) div 62" unfolding t(1) by simp
  moreover have "(r + 61) div 62 = (if r \<noteq> 0 then 1 else 0)" using t(2) by auto
  ultimately show ?thesis by (simp add: q_def r_def)
qed

subsection \<open>Shifting left\<close>

lemma shift_left_digits_eq:
  assumes "s < 62"
  shows "shift_left_digits s t ds = normalize_digits s ds t"
proof -
  have e: "push_bit s d AND BIGNUM_DIGIT_MASK = push_bit s (d AND (push_bit (62 - s) 1 - 1))" for d
  proof -
    have "push_bit s d AND mask 62 = push_bit s (d AND mask (62 - s))" using assms by (intro bit_eqI) (auto simp: bit_simps)
    then show ?thesis by (simp add: BIGNUM_DIGIT_MASK_def BIGNUM_RADIX_eq mask_eq_exp_minus_1)
  qed
  show ?thesis using assms
    by (induction ds arbitrary: t) (simp_all add: e BIGNUM_DIGIT_LENGTH_def Let_def split: prod.splits)
qed

lemma shift_left_value:
  assumes wf: "digits_wf ds" "ds \<noteq> []" and s: "s < 62"
  defines "rs \<equiv> (if s = 0 then ds else let (es, t) = shift_left_digits s 0 ds in es @ (if t \<noteq> 0 then [t] else []))"
  shows "digits_wf rs" "rval BIGNUM_RADIX rs = 2 ^ s * rval BIGNUM_RADIX ds" "rs \<noteq> []"
proof -
  obtain es t where es: "normalize_digits s ds 0 = (es, t)" by fastforce
  have d: "digits_in BIGNUM_RADIX ds" using wf(1) by (rule digits_wf_digits_in)
  have sp: "digits_in BIGNUM_RADIX es" "length es = length ds" "0 \<le> t" "t < 2 ^ s"
    "rval BIGNUM_RADIX es + BIGNUM_RADIX ^ length ds * t = 2 ^ s * rval BIGNUM_RADIX ds"
    using normalize_digits_spec [OF _ d _ _ es] s by auto
  have rs: "rs = (if s = 0 then ds else es @ (if t \<noteq> 0 then [t] else []))"
    using shift_left_digits_eq [OF s, of 0 ds] es by (simp add: rs_def)
  show val: "rval BIGNUM_RADIX rs = 2 ^ s * rval BIGNUM_RADIX ds" using sp(2,5) by (auto simp: rs rval_append)
  show "rs \<noteq> []" using sp(2) wf(2) by (auto simp: rs)
  have "(2 :: int) ^ s \<le> 2 ^ 62" using s by (intro power_increasing) auto
  then have t: "t < BIGNUM_RADIX" using sp(4) by (simp only: BIGNUM_RADIX_eq)
  then have din: "digits_in BIGNUM_RADIX rs" using d sp(1,3) by (auto simp: rs digits_in_def)
  show "digits_wf rs"
  proof (cases "s = 0 \<or> t \<noteq> 0")
    case True
    then show ?thesis using din wf(1) by (auto simp: rs digits_wf_def)
  next
    case False
    have lo: "BIGNUM_RADIX ^ (length ds - 1) \<le> rval BIGNUM_RADIX ds" using digits_wf_lower [OF wf] by simp
    then have "1 * BIGNUM_RADIX ^ (length ds - 1) \<le> 2 ^ s * rval BIGNUM_RADIX ds" by (intro mult_mono) simp_all
    then show ?thesis using False val sp(2) din by (intro digits_wf_lowerI) (simp_all add: rs)
  qed
qed

text \<open>Digits placed above zeros, stored in a fresh bignum of the length computed from the bit count.\<close>

lemma returns_shifted_digits:
  assumes wf: "digits_wf ds" "ds \<noteq> []" and b: "0 < b" "2 ^ (b - 1) \<le> rval BIGNUM_RADIX ds" "rval BIGNUM_RADIX ds < 2 ^ b"
    and len: "(62 * z + b + 61) div 62 = n" "n \<le> BIGNUM_LENGTH_MAX"
  shows "returns_bignum (write_digits (mk_bignum s (replicate n 0)) (replicate z 0 @ ds))
    (if s then - (BIGNUM_RADIX ^ z * rval BIGNUM_RADIX ds) else BIGNUM_RADIX ^ z * rval BIGNUM_RADIX ds)"
proof -
  define D where "D = replicate z 0 @ ds"
  have D: "digits_wf D" "D \<noteq> []" using wf by (auto simp: D_def digits_wf_def digits_in_def)
  have val: "rval BIGNUM_RADIX D = BIGNUM_RADIX ^ z * rval BIGNUM_RADIX ds" by (simp add: D_def rval_append)
  have p: "(2 :: int) ^ (62 * z + b - 1) = BIGNUM_RADIX ^ z * 2 ^ (b - 1)" "(2 :: int) ^ (62 * z + b) = BIGNUM_RADIX ^ z * 2 ^ b"
    using b(1) by (simp_all add: RADIX_power flip: power_add)
  have "2 ^ (62 * z + b - 1) \<le> rval BIGNUM_RADIX D" unfolding p val using b(2) by (intro mult_left_mono) simp_all
  moreover have "rval BIGNUM_RADIX D < 2 ^ (62 * z + b)" unfolding p val using b(3) by (intro mult_strict_left_mono) simp_all
  ultimately have "length D = (62 * z + b + 61) div 62"
    using D b(1) by (intro length_from_bits) (simp_all add: digits_wf_def)
  then have "write_digits (mk_bignum s (replicate n 0)) D = Some (mk_bignum s D)" "length D = n" using len(1) write_digits_exact by simp_all
  then show ?thesis using D len(2) val
    by (simp add: returns_bignum_def bignum_wf_mk bignum_val_mk flip: D_def)
qed

text \<open>A shift whose result can be allocated has a bit count that does not wrap.\<close>

lemma shift_count_no_wrap:
  assumes "m div 62 < BIGNUM_LENGTH_MAX" "d \<le> 64"
  shows "(d + m) mod 2 ^ 64 = d + m"
proof -
  have "m div 62 < 2 ^ 57" using assms(1) by (simp add: BIGNUM_LENGTH_MAX_def BIGNUM_RADIX_eq BIGNUM_DIGIT_LENGTH_def)
  then have "m < 2 ^ 63" by (simp add: div_less_iff_less_mult)
  then show ?thesis using assms(2) by simp
qed

lemma returns_shift_left [val_simps]:
  assumes wf: "bignum_wf n" and fits: "BIGNUM_LENGTH n + m div 62 + 1 \<le> BIGNUM_LENGTH_MAX"
  shows "returns_bignum (bignum_shift_left n m) (bignum_val n * 2 ^ m)"
proof (cases "m = 0 \<or> BIGNUM_ZERO_P n")
  case True
  then show ?thesis using returns_self [OF wf] bignum_ZERO_P_iff [OF wf] by (auto simp: bignum_shift_left_def)
next
  case False
  define z s where "z = m div 62" and "s = m mod 62"
  have m: "m = 62 * z + s" "s < 62" by (simp_all add: z_def s_def)
  have nz: "bignum_val n \<noteq> 0" using False bignum_ZERO_P_iff [OF wf] by simp
  note lb = length_in_bits_bounds [OF wf nz]
  define k where "k = BIGNUM_LENGTH n - 1"
  have k: "BIGNUM_LENGTH n = k + 1" using False by (simp add: k_def BIGNUM_ZERO_P_def)
  define delta where "delta = ulong_length_in_bits (word_of_int (BIGNUM_REF n k))"
  have l: "bignum_length_in_bits n = delta + 62 * k"
    using False k by (simp add: bignum_length_in_bits_def delta_def BIGNUM_DIGIT_LENGTH_def Let_def)
  have dw: "digits_wf (BIGNUM_DIGITS n)" "BIGNUM_DIGITS n \<noteq> []" using wf k by (auto simp: bignum_wf_def BIGNUM_LENGTH_def)
  define rs where "rs = (if s = 0 then BIGNUM_DIGITS n
    else let (es, t) = shift_left_digits s 0 (BIGNUM_DIGITS n) in es @ (if t \<noteq> 0 then [t] else []))"
  note rs = shift_left_value [OF dw m(2), folded rs_def bignum_mag_def]
  define b where "b = bignum_length_in_bits n + s"
  have b: "0 < b" "2 ^ (b - 1) \<le> rval BIGNUM_RADIX rs" "rval BIGNUM_RADIX rs < 2 ^ b"
  proof -
    show "0 < b" using lb(1) by (simp add: b_def)
    have "2 ^ s * 2 ^ (bignum_length_in_bits n - 1) \<le> 2 ^ s * bignum_mag n" using lb(2) by (intro mult_left_mono) simp_all
    moreover have "(2 :: int) ^ (b - 1) = 2 ^ s * 2 ^ (bignum_length_in_bits n - 1)" using lb(1) by (simp add: b_def flip: power_add)
    ultimately show "2 ^ (b - 1) \<le> rval BIGNUM_RADIX rs" by (simp add: rs(2) bignum_mag_def)
    show "rval BIGNUM_RADIX rs < 2 ^ b" using lb(3) by (simp add: rs(2) bignum_mag_def b_def power_add)
  qed
  define L where "L = (62 * z + b + 61) div 62"
  have d62: "delta \<le> 62"
  proof -
    have "(2 :: int) ^ (delta + 62 * k - 1) < 2 ^ (62 * (k + 1))"
      using lb(2) bignum_mag_less [OF wf] unfolding l k RADIX_power by linarith
    then have "delta + 62 * k - 1 < 62 * (k + 1)" by (rule power_less_imp_less_exp [rotated]) simp
    then show ?thesis by simp
  qed
  have T: "(delta + m) mod 2 ^ 64 = delta + m"
    using fits d62 by (intro shift_count_no_wrap) simp_all
  note cd = ceil_digits [of "delta + m"]
  have L: "k + ((delta + m) div 62 + (if (delta + m) mod 62 \<noteq> 0 then 1 else 0)) = L"
    unfolding cd by (simp add: L_def b_def l m(1))
  have LM: "L \<le> BIGNUM_LENGTH_MAX"
  proof -
    have "L \<le> k + z + 2" using d62 m(2) by (simp add: L_def b_def l)
    then show ?thesis using fits k by (simp add: z_def)
  qed
  have "bignum_shift_left n m = write_digits (mk_bignum (BIGNUM_NEGATIVE_P n) (replicate L 0)) (replicate z 0 @ rs)"
    using False LM L T k
    by (simp add: bignum_shift_left_def bignum_allocate_def BIGNUM_DIGIT_LENGTH_def add.assoc Let_def
        flip: delta_def z_def s_def rs_def)
  moreover have "BIGNUM_RADIX ^ z * rval BIGNUM_RADIX rs = bignum_mag n * 2 ^ m"
    by (simp add: rs(2) bignum_mag_def shift_exponent m(1))
  ultimately show ?thesis
    using returns_shifted_digits [OF rs(1,3) b, of z L "BIGNUM_NEGATIVE_P n"] LM by (simp add: L_def bignum_val_def split: if_splits)
qed

lemma low_digits_eq: "low_digits n = (if n = 0 then [] else accumulator_digits n)"
proof (induction n rule: low_digits.induct)
  case (1 n)
  then show ?case
    by (subst low_digits.simps) (auto simp: accumulator_digits.simps [of n] word_gt_0)
qed

lemma returns_unsigned_long_to_shifted [val_simps]:
  assumes fits: "m div 62 + 3 \<le> BIGNUM_LENGTH_MAX"
  shows "returns_bignum (unsigned_long_to_shifted_bignum n m sign) (if sign then - (uint n * 2 ^ m) else uint n * 2 ^ m)"
proof (cases "n = 0")
  case True
  then show ?thesis using returns_make_zero by (simp add: unsigned_long_to_shifted_bignum_def)
next
  case False
  define z s where "z = m div 62" and "s = m mod 62"
  have m: "m = 62 * z + s" "s < 62" by (simp_all add: z_def s_def)
  have n: "0 \<le> uint n" "uint n < 2 ^ 64" "uint n \<noteq> 0" using uint_lt2p [of n] False by (simp_all add: uint_0_iff)
  define hi where "hi = drop_bit (BIGNUM_DIGIT_LENGTH - s) n"
  have hi: "uint hi = uint n div 2 ^ (62 - s)" by (simp add: hi_def BIGNUM_DIGIT_LENGTH_def uint_drop_bit_ulong)
  define lo where "lo = uint (push_bit s n AND word_of_int BIGNUM_DIGIT_MASK)"
  have lo: "lo = (uint n * 2 ^ s) mod BIGNUM_RADIX"
  proof -
    have "lo = uint (push_bit s n) mod 2 ^ 62" unfolding lo_def mask62 by (rule uint_and_mask)
    also have "uint (push_bit s n) = (uint n * 2 ^ s) mod 2 ^ 64" by (simp only: unsigned_push_bit_eq) (simp add: take_bit_eq_mod push_bit_eq_mult)
    also have "(uint n * 2 ^ s) mod 2 ^ 64 mod 2 ^ 62 = (uint n * 2 ^ s) mod 2 ^ 62" by (rule mod_mod_cancel) (simp add: le_imp_power_dvd)
    finally show ?thesis by (simp add: BIGNUM_RADIX_eq)
  qed
  define ds where "ds = lo # low_digits hi"
  have R: "BIGNUM_RADIX = 2 ^ s * 2 ^ (62 - s)" using m(2) by (simp add: BIGNUM_RADIX_eq flip: power_add)
  have "uint n * 2 ^ s div BIGNUM_RADIX = uint hi" unfolding R hi by (simp add: mult.commute [of "uint n"] div_mult_mult1)
  then have "lo + BIGNUM_RADIX * uint hi = uint n * 2 ^ s" unfolding lo by (metis mod_mult_div_eq)
  moreover have ld: "rval BIGNUM_RADIX (low_digits hi) = uint hi" using accumulator_digits_spec(3) [of hi] by (simp add: low_digits_eq)
  ultimately have val: "rval BIGNUM_RADIX ds = uint n * 2 ^ s" by (simp add: ds_def)
  have ldw: "digits_wf (low_digits hi)" using accumulator_digits_spec(2) [of hi] by (simp add: low_digits_eq)
  have wf: "digits_wf ds"
  proof -
    have "lo \<noteq> 0" if "low_digits hi = []" using that val n(3) by (auto simp: ds_def)
    moreover have "0 \<le> lo" "lo < BIGNUM_RADIX" unfolding lo by simp_all
    ultimately show ?thesis using ldw by (auto simp: digits_wf_def ds_def)
  qed
  define delta where "delta = ulong_length_in_bits n"
  have dl: "0 < delta" "2 ^ (delta - 1) \<le> uint n" "uint n < 2 ^ delta" "delta \<le> 64"
    using ulong_length_in_bits_bounds [of n] False by (simp_all add: delta_def)
  have b: "0 < delta + s" "2 ^ (delta + s - 1) \<le> rval BIGNUM_RADIX ds" "rval BIGNUM_RADIX ds < 2 ^ (delta + s)"
  proof -
    show "0 < delta + s" using dl(1) by simp
    have "2 ^ (delta - 1) * 2 ^ s \<le> uint n * 2 ^ s" using dl(2) by (intro mult_right_mono) simp_all
    moreover have "(2 :: int) ^ (delta + s - 1) = 2 ^ (delta - 1) * 2 ^ s" using dl(1) by (simp flip: power_add)
    ultimately show "2 ^ (delta + s - 1) \<le> rval BIGNUM_RADIX ds" by (simp add: val)
    show "rval BIGNUM_RADIX ds < 2 ^ (delta + s)" using dl(3) by (simp add: val power_add)
  qed
  define L where "L = (62 * z + (delta + s) + 61) div 62"
  have LM: "L \<le> BIGNUM_LENGTH_MAX"
  proof -
    have "L \<le> z + 3" using dl(4) m(2) by (simp add: L_def)
    then show ?thesis using fits by (simp add: z_def)
  qed
  have T: "(delta + m) mod 2 ^ 64 = delta + m"
    using fits dl(4) by (intro shift_count_no_wrap) simp_all
  note cd = ceil_digits [of "delta + m"]
  have L: "(delta + m) div 62 + (if (delta + m) mod 62 \<noteq> 0 then 1 else 0) = L" unfolding cd by (simp add: L_def m(1) algebra_simps)
  have "unsigned_long_to_shifted_bignum n m sign = write_digits (mk_bignum sign (replicate L 0)) (replicate z 0 @ ds)"
    using False LM L T
    by (simp add: unsigned_long_to_shifted_bignum_def bignum_allocate_def BIGNUM_DIGIT_LENGTH_def ds_def lo_def hi_def Let_def
        flip: delta_def z_def s_def)
  moreover have "BIGNUM_RADIX ^ z * rval BIGNUM_RADIX ds = uint n * 2 ^ m" by (simp add: val shift_exponent m(1))
  ultimately show ?thesis using returns_shifted_digits [OF wf _ b, of z L sign] LM by (simp add: L_def ds_def split: if_splits)
qed

lemma in_capacity_power: "m \<le> bit_capacity \<Longrightarrow> (2 :: int) ^ m \<le> 2 ^ bit_capacity"
  by (intro power_increasing) auto

lemma returns_nonnegative_one_bits [val_simps]:
  assumes "n + m + 62 \<le> bit_capacity"
  shows "returns_bignum (bignum_nonnegative_one_bits n m) ((2 ^ n - 1) * 2 ^ m)"
proof -
  have M: "62 * (BIGNUM_LENGTH_MAX - 1) = bit_capacity" by (simp add: bit_capacity_def)
  have "BIGNUM_LENGTH (bignum_make_one True) + n div 62 + 1 \<le> BIGNUM_LENGTH_MAX"
    using assms M by (simp add: bignum_make_one_def)
  then obtain a where a: "bignum_shift_left (bignum_make_one True) n = Some a" "bignum_wf a" "bignum_val a = - (2 ^ n)"
    using returns_shift_left [OF make_one(1), of True n] by (auto simp: returns_bignum_def)
  have "n < bit_capacity" using assms by simp
  then have "(2 :: int) ^ n < 2 ^ bit_capacity" by (rule power_strict_increasing) simp
  then obtain b where b: "bignum_bitwise_not a = Some b" "bignum_wf b" "bignum_val b = 2 ^ n - 1"
    using returns_bitwise_not [OF a(2)] a(3) by (auto simp: returns_bignum_def not_int_def)
  have "BIGNUM_LENGTH b \<le> n div 62 + 1"
  proof (cases "BIGNUM_LENGTH b")
    case (Suc k)
    have "(2 :: int) ^ (62 * k) \<le> 2 ^ n - 1"
      using bignum_mag_ge [OF b(2), of k] Suc bignum_abs_val [OF b(2)] b(3) by (simp add: RADIX_power)
    then have "(2 :: int) ^ (62 * k) < 2 ^ n" by simp
    then have "62 * k < n" by (rule power_less_imp_less_exp [rotated]) simp
    then show ?thesis using Suc by simp
  qed simp
  then have "BIGNUM_LENGTH b + m div 62 + 1 \<le> BIGNUM_LENGTH_MAX" using assms M by linarith
  from returns_shift_left [OF b(2) this] show ?thesis using a(1) b(1,3) by (simp add: bignum_nonnegative_one_bits_def)
qed

subsection \<open>Counting bits\<close>

lemma finite_bits: "0 \<le> v \<Longrightarrow> finite {i. bit v i}" for v :: int
proof -
  assume v: "0 \<le> v"
  obtain n where "v < 2 ^ n" using less_exp by (metis v of_nat_less_numeral_power_cancel_iff int_nat_eq linorder_not_less zero_le_imp_eq_int)
  then have "{i. bit v i} \<subseteq> {..<n}" using v by (metis (mono_tags) bit_take_bit_iff lessThan_iff mem_Collect_eq subsetI take_bit_int_eq_self)
  then show ?thesis by (rule finite_subset) simp
qed

lemma card_bits_split:
  fixes a r :: int
  assumes "0 \<le> a" "a < 2 ^ n" "0 \<le> r"
  shows "card {i. bit (a + 2 ^ n * r) i} = card {i. bit a i} + card {i. bit r i}"
proof -
  have t: "take_bit n a = a" using assms by (simp add: take_bit_int_eq_self)
  have "a + 2 ^ n * r = concat_bit n a r" using t by (simp add: concat_bit_eq push_bit_eq_mult mult.commute)
  moreover have "bit a i \<Longrightarrow> i < n" for i using t by (metis bit_take_bit_iff)
  ultimately have "{i. bit (a + 2 ^ n * r) i} = {i. bit a i} \<union> (\<lambda>i. i + n) ` {i. bit r i}"
    by (auto simp: bit_concat_bit_iff image_iff) (metis le_add_diff_inverse2)
  moreover have "{i. bit a i} \<inter> (\<lambda>i. i + n) ` {i. bit r i} = {}"
    using \<open>\<And>i. bit a i \<Longrightarrow> i < n\<close> by fastforce
  ultimately show ?thesis using assms finite_bits
    by (simp add: card_Un_disjoint card_image)
qed

definition bits_set :: "int \<Rightarrow> nat" where "bits_set v = card {i. bit v i}"

lemma bits_set_0 [simp]: "bits_set 0 = 0"
  by (simp add: bits_set_def)

lemma bits_set_split: "0 \<le> a \<Longrightarrow> a < 2 ^ n \<Longrightarrow> 0 \<le> r \<Longrightarrow> bits_set (a + 2 ^ n * r) = bits_set a + bits_set r"
  unfolding bits_set_def by (rule card_bits_split)

lemma digit_bit_count: "0 \<le> d \<Longrightarrow> d < BIGNUM_RADIX \<Longrightarrow> ulong_bit_count (word_of_int d) = bits_set d"
  by (simp add: bits_set_def ulong_bit_count_card word_of_int_bits BIGNUM_RADIX_eq)

lemma digits_bit_count_eq:
  "digits_in BIGNUM_RADIX ds \<Longrightarrow> digits_bit_count ds = bits_set (rval BIGNUM_RADIX ds)"
proof (induction ds)
  case (Cons d ds)
  have d: "0 \<le> d" "d < 2 ^ 62" "digits_in BIGNUM_RADIX ds" using Cons.prems by (auto simp: BIGNUM_RADIX_eq)
  have "bits_set (rval BIGNUM_RADIX (d # ds)) = bits_set d + bits_set (rval BIGNUM_RADIX ds)"
    using bits_set_split [OF d(1,2) rval_nonneg [OF d(3)]] by (simp add: BIGNUM_RADIX_eq)
  then show ?case using Cons.IH [OF d(3)] digit_bit_count [OF d(1)] d(2)
    by (simp add: digits_bit_count_def BIGNUM_RADIX_eq)
qed (simp add: digits_bit_count_def)

lemma hamming_digits_eq:
  assumes "digits_in BIGNUM_RADIX xs" "digits_in BIGNUM_RADIX ys" "length ys \<le> length xs"
  shows "digits_hamming_distance (take (length ys) xs) ys + digits_bit_count (drop (length ys) xs)
    = bits_set (rval BIGNUM_RADIX xs XOR rval BIGNUM_RADIX ys)"
  using assms
proof (induction ys arbitrary: xs)
  case Nil
  then show ?case by (simp add: digits_hamming_distance_def digits_bit_count_eq)
next
  case (Cons y ys)
  obtain x xs' where x: "xs = x # xs'" using Cons.prems(3) by (cases xs) auto
  have d: "0 \<le> x" "x < 2 ^ 62" "0 \<le> y" "y < 2 ^ 62" "digits_in BIGNUM_RADIX xs'" "digits_in BIGNUM_RADIX ys"
    using Cons.prems(1,2) by (auto simp: x BIGNUM_RADIX_eq)
  have xy: "0 \<le> x XOR y" "x XOR y < 2 ^ 62" using xor_digits.oper_range [OF d(1-4)] by (simp_all add: BITWISE_XOR_def)
  have "rval BIGNUM_RADIX xs XOR rval BIGNUM_RADIX (y # ys)
    = (x XOR y) + 2 ^ 62 * (rval BIGNUM_RADIX xs' XOR rval BIGNUM_RADIX ys)"
    using xor_digits.oper_split [OF d(1-4), of "rval BIGNUM_RADIX xs'" "rval BIGNUM_RADIX ys"]
    by (simp add: BITWISE_XOR_def x BIGNUM_RADIX_eq)
  moreover have "0 \<le> rval BIGNUM_RADIX xs' XOR rval BIGNUM_RADIX ys" using d(5,6) by (simp add: rval_nonneg)
  ultimately have "bits_set (rval BIGNUM_RADIX xs XOR rval BIGNUM_RADIX (y # ys))
    = bits_set (x XOR y) + bits_set (rval BIGNUM_RADIX xs' XOR rval BIGNUM_RADIX ys)"
    using bits_set_split [OF xy] by simp
  moreover have "word_of_int x XOR word_of_int y = (word_of_int (x XOR y) :: ulong)" by (rule bit_eqI) (simp add: bit_simps)
  ultimately show ?case using Cons.IH [OF d(5,6)] Cons.prems(3) digit_bit_count [OF xy(1)] xy(2)
    by (simp add: x digits_hamming_distance_def BIGNUM_RADIX_eq)
qed

lemma bit_count_unsigned_eq: "bignum_wf x \<Longrightarrow> bignum_bit_count_unsigned x = bits_set (bignum_mag x)"
  by (simp add: bignum_bit_count_unsigned_def digits_bit_count_eq bignum_wf_digits_in bignum_mag_def)

lemma positive_hamming_distance_eq:
  assumes wf: "bignum_wf x" "bignum_wf y" and pos: "0 < bignum_val x" "0 < bignum_val y"
  shows "bignum_positive_hamming_distance x y = Some (bits_set (bignum_val x XOR bignum_val y))"
proof -
  obtain X Y where XY: "(if BIGNUM_LENGTH x < BIGNUM_LENGTH y then (y, x) else (x, y)) = (X, Y)" by fastforce
  have "bignum_wf X" "bignum_wf Y" "BIGNUM_LENGTH Y \<le> BIGNUM_LENGTH X" and v: "bignum_val X XOR bignum_val Y = bignum_val x XOR bignum_val y"
    "0 < bignum_val X" "0 < bignum_val Y"
    using XY wf pos by (auto simp: xor.commute split: if_splits)
  moreover from this have "bignum_val X = rval BIGNUM_RADIX (BIGNUM_DIGITS X)" "bignum_val Y = rval BIGNUM_RADIX (BIGNUM_DIGITS Y)"
    using bignum_abs_val [of X] bignum_abs_val [of Y] by (simp_all add: bignum_mag_def)
  moreover have "bignum_positive_hamming_distance x y =
    Some (digits_hamming_distance (take (BIGNUM_LENGTH Y) (BIGNUM_DIGITS X)) (BIGNUM_DIGITS Y)
          + digits_bit_count (drop (BIGNUM_LENGTH Y) (BIGNUM_DIGITS X)))"
    using wf pos unfolding bignum_positive_hamming_distance_def XY by (simp add: bignum_ZERO_P_iff bignum_POSITIVE_P_iff)
  ultimately show ?thesis using hamming_digits_eq [of "BIGNUM_DIGITS X" "BIGNUM_DIGITS Y"]
    by (simp add: bignum_wf_digits_in BIGNUM_LENGTH_def)
qed

lemma bignum_bit_count_eq:
  assumes wf: "bignum_wf x" and cap: "BIGNUM_LENGTH x < BIGNUM_LENGTH_MAX"
  shows "bignum_bit_count x = Some (bits_set (if bignum_val x < 0 then NOT (bignum_val x) else bignum_val x))"
proof (cases "bignum_val x < 0")
  case True
  obtain c where c: "bignum_bitwise_not x = Some c" "bignum_wf c" "bignum_val c = NOT (bignum_val x)"
    using returns_bitwise_not [OF wf] cap capacity_iff [OF wf] by (auto simp: returns_bignum_def)
  moreover have "bignum_mag c = NOT (bignum_val x)" using True bignum_abs_val [OF c(2)] c(3) by (simp add: not_int_def)
  ultimately show ?thesis using True wf by (simp add: bignum_bit_count_def bignum_ZERO_P_iff bignum_NEGATIVE_P_iff bit_count_unsigned_eq)
next
  case False
  then have "bignum_mag x = bignum_val x" using bignum_abs_val [OF wf] by simp
  then show ?thesis using False wf by (simp add: bignum_bit_count_def bignum_ZERO_P_iff bignum_NEGATIVE_P_iff bit_count_unsigned_eq)
qed

lemma bignum_hamming_distance_eq:
  assumes wf: "bignum_wf x" "bignum_wf y" and cap: "BIGNUM_LENGTH x < BIGNUM_LENGTH_MAX" "BIGNUM_LENGTH y < BIGNUM_LENGTH_MAX"
    and same: "same \<Longrightarrow> x = y"
  shows "bignum_hamming_distance same x y =
    Some (if bignum_val x < 0 \<longleftrightarrow> bignum_val y < 0 then int (bits_set (bignum_val x XOR bignum_val y)) else - 1)"
proof -
  have nn: "bignum_mag b = bignum_val b" if "bignum_wf b" "0 \<le> bignum_val b" for b using bignum_abs_val [OF that(1)] that(2) by simp
  have neg: "bignum_negative_hamming_distance x y = Some (bits_set (bignum_val x XOR bignum_val y))"
    if lt: "bignum_val x < 0" "bignum_val y < 0"
  proof -
    obtain a b where ab: "bignum_bitwise_not x = Some a" "bignum_wf a" "bignum_val a = NOT (bignum_val x)"
      "bignum_bitwise_not y = Some b" "bignum_wf b" "bignum_val b = NOT (bignum_val y)"
      using returns_bitwise_not [OF wf(1)] returns_bitwise_not [OF wf(2)] cap capacity_iff [OF wf(1)] capacity_iff [OF wf(2)]
      by (auto simp: returns_bignum_def)
    have g: "0 \<le> bignum_val a" "0 \<le> bignum_val b" using lt by (simp_all add: ab(3,6) not_int_def)
    have x: "bignum_val x XOR bignum_val y = bignum_val a XOR bignum_val b" unfolding ab(3,6) by (rule bit_eqI) (simp add: bit_simps)
    show ?thesis
    proof (cases "bignum_val a = 0 \<or> bignum_val b = 0")
      case True
      then show ?thesis using ab(1,2,4,5) nn [OF ab(2) g(1)] nn [OF ab(5) g(2)] unfolding x
        by (auto simp: bignum_negative_hamming_distance_def bignum_ZERO_P_iff bit_count_unsigned_eq)
    next
      case False
      then show ?thesis using ab(1,2,4,5) g positive_hamming_distance_eq [OF ab(2,5)] unfolding x
        by (simp add: bignum_negative_hamming_distance_def bignum_ZERO_P_iff)
    qed
  qed
  consider "same" | "\<not> same" "bignum_val x = 0" | "\<not> same" "bignum_val x \<noteq> 0" "bignum_val y = 0"
    | "\<not> same" "bignum_val x \<noteq> 0" "bignum_val y \<noteq> 0" by blast
  then show ?thesis
  proof cases
    case 1
    then show ?thesis using same by (simp add: bignum_hamming_distance_def)
  next
    case 2
    then show ?thesis using wf nn [OF wf(2)] by (simp add: bignum_hamming_distance_def bignum_ZERO_P_iff bignum_NEGATIVE_P_iff bit_count_unsigned_eq)
  next
    case 3
    then show ?thesis using wf nn [OF wf(1)] by (simp add: bignum_hamming_distance_def bignum_ZERO_P_iff bignum_NEGATIVE_P_iff bit_count_unsigned_eq)
  next
    case 4
    then show ?thesis using wf neg positive_hamming_distance_eq [OF wf]
      by (simp add: bignum_hamming_distance_def bignum_ZERO_P_iff bignum_POSITIVE_P_iff)
  qed
qed

subsection \<open>The lowest and the highest bit\<close>

lemma odd_part: "0 < d \<Longrightarrow> \<exists>r k. d = 2 ^ r * k \<and> odd k" for d :: int
proof (induction "nat d" arbitrary: d rule: less_induct)
  case less
  show ?case
  proof (cases "odd d")
    case True
    then show ?thesis by (intro exI [of _ 0] exI [of _ d]) simp
  next
    case False
    then obtain e where e: "d = 2 * e" by (auto elim: evenE)
    with less.prems have "nat e < nat d" "0 < e" by auto
    then obtain r k where "e = 2 ^ r * k" "odd k" using less.hyps by blast
    then show ?thesis using e by (intro exI [of _ "Suc r"] exI [of _ k]) simp
  qed
qed

lemma first_set_scan_spec:
  assumes "digits_in BIGNUM_RADIX ds" "0 < rval BIGNUM_RADIX ds"
  shows "\<exists>d j h. first_set_scan ds k = Some (d, k + j) \<and> 0 < d \<and> d < BIGNUM_RADIX
    \<and> rval BIGNUM_RADIX ds = BIGNUM_RADIX ^ j * (d + BIGNUM_RADIX * h)"
  using assms
proof (induction ds arbitrary: k)
  case (Cons d ds)
  show ?case
  proof (cases "d = 0")
    case True
    then have "0 < BIGNUM_RADIX * rval BIGNUM_RADIX ds" using Cons.prems(2) by simp
    then have "0 < rval BIGNUM_RADIX ds" by (rule zero_less_mult_pos) simp
    then obtain e j h where e: "first_set_scan ds (k + 1) = Some (e, k + 1 + j)" "0 < e" "e < BIGNUM_RADIX"
      "rval BIGNUM_RADIX ds = BIGNUM_RADIX ^ j * (e + BIGNUM_RADIX * h)"
      using Cons.IH [of "k + 1"] Cons.prems(1) by auto
    then show ?thesis using True by (intro exI [of _ e] exI [of _ "Suc j"] exI [of _ h]) simp
  next
    case False
    then show ?thesis using Cons.prems(1) by (intro exI [of _ d] exI [of _ 0] exI [of _ "rval BIGNUM_RADIX ds"]) auto
  qed
qed simp

lemma bignum_first_set_bit_eq:
  assumes wf: "bignum_wf b" and nz: "bignum_val b \<noteq> 0"
  shows "\<exists>r k. bignum_first_set_bit b = Some (int r) \<and> bignum_val b = 2 ^ r * k \<and> odd k"
proof -
  have pos: "0 < rval BIGNUM_RADIX (BIGNUM_DIGITS b)" using nz bignum_abs_val [OF wf] by (simp add: bignum_mag_def)
  obtain d j h where d: "first_set_scan (BIGNUM_DIGITS b) 0 = Some (d, j)" "0 < d" "d < BIGNUM_RADIX"
    "bignum_mag b = BIGNUM_RADIX ^ j * (d + BIGNUM_RADIX * h)"
    using first_set_scan_spec [OF bignum_wf_digits_in [OF wf] pos, of 0] by (auto simp: bignum_mag_def)
  obtain r k where rk: "d = 2 ^ r * k" "odd k" using odd_part [OF d(2)] by blast
  have u: "uint (word_of_int d :: ulong) = 2 ^ r * k"
    unfolding rk(1) [symmetric] using d(2,3) by (intro uint_word_of_int_ulong) (auto simp: BIGNUM_RADIX_eq)
  note m = low_bits_mask [OF u rk(2)]
  have "r < 62"
  proof -
    have "0 < k" using d(2) rk(1) by (simp add: zero_less_mult_iff)
    then have "2 ^ r * 1 \<le> 2 ^ r * k" by (intro mult_left_mono) simp_all
    then have "(2 :: int) ^ r < 2 ^ 62" using d(3) rk(1) unfolding BIGNUM_RADIX_eq by linarith
    then show ?thesis by (rule power_less_imp_less_exp [rotated]) simp
  qed
  then have R: "BIGNUM_RADIX = 2 ^ r * 2 ^ (62 - r)" "even (2 ^ (62 - r) * h)" by (simp_all add: BIGNUM_RADIX_eq flip: power_add)
  have "bignum_first_set_bit b = Some (int (r + 62 * j))"
    using d(1) nz wf m ulong_bit_count_mask [OF m(1)]
    by (simp add: bignum_first_set_bit_def bignum_ZERO_P_iff BIGNUM_DIGIT_LENGTH_def)
  moreover have "bignum_mag b = 2 ^ (r + 62 * j) * (k + 2 ^ (62 - r) * h)"
  proof -
    have "d + BIGNUM_RADIX * h = 2 ^ r * (k + 2 ^ (62 - r) * h)" unfolding R(1) rk(1) by (simp add: algebra_simps)
    then show ?thesis by (simp only: d(4) power_add RADIX_power mult.assoc mult.left_commute)
  qed
  then have "bignum_val b = 2 ^ (r + 62 * j) * (if BIGNUM_NEGATIVE_P b then - (k + 2 ^ (62 - r) * h) else k + 2 ^ (62 - r) * h)"
    by (simp add: bignum_val_def algebra_simps)
  moreover have "odd (if BIGNUM_NEGATIVE_P b then - (k + 2 ^ (62 - r) * h) else k + 2 ^ (62 - r) * h)" using rk(2) R(2) by simp
  ultimately show ?thesis by blast
qed

lemma rval_eq_0_iff: "digits_in B ds \<Longrightarrow> 0 < B \<Longrightarrow> rval B ds = 0 \<longleftrightarrow> \<not> list_ex (\<lambda>d. d \<noteq> 0) ds"
proof (induction ds)
  case (Cons d ds)
  then have "0 \<le> d" "0 \<le> B * rval B ds" using rval_nonneg [of B ds] by auto
  then have "rval B (d # ds) = 0 \<longleftrightarrow> d = 0 \<and> B * rval B ds = 0" by (simp only: rval.simps) linarith
  then show ?case using Cons by auto
qed simp

lemma power_of_two_and: "(2 ^ n :: int) AND (2 ^ n - 1) = 0"
  by (metis bit.conj_cancel_right bit_eq_iff bit_and_iff bit_exp_iff bit_mask_iff mask_eq_exp_minus_1 order_less_irrefl)

lemma bignum_integer_length_eq:
  assumes wf: "bignum_wf b"
  defines "m \<equiv> (if bignum_val b < 0 then NOT (bignum_val b) else bignum_val b)"
  shows "m < 2 ^ bignum_integer_length b" "bignum_integer_length b = 0 \<or> 2 ^ (bignum_integer_length b - 1) \<le> m"
proof -
  define l where "l = bignum_length_in_bits b"
  have "m < 2 ^ bignum_integer_length b \<and> (bignum_integer_length b = 0 \<or> 2 ^ (bignum_integer_length b - 1) \<le> m)"
  proof (cases "0 \<le> bignum_val b")
    case True
    have "m = bignum_mag b" using True bignum_abs_val [OF wf] by (simp add: m_def)
    moreover have "bignum_integer_length b = l"
      using True wf by (auto simp: bignum_integer_length_def bignum_ZERO_P_iff bignum_POSITIVE_P_iff l_def Let_def)
    moreover have "l = 0" if "bignum_val b = 0" using that wf by (simp add: l_def bignum_length_in_bits_def bignum_ZERO_P_iff)
    moreover have "bignum_mag b = 0" if "bignum_val b = 0" using that bignum_abs_val [OF wf] by simp
    ultimately show ?thesis using length_in_bits_bounds [OF wf] by (cases "bignum_val b = 0") (auto simp: l_def)
  next
    case False
    then have nz: "bignum_val b \<noteq> 0" by simp
    note lb = length_in_bits_bounds [OF wf nz, folded l_def]
    have m: "m = bignum_mag b - 1" using False bignum_abs_val [OF wf] by (simp add: m_def not_int_def)
    define ds where "ds = BIGNUM_DIGITS b"
    define k where "k = length ds - 1"
    define t where "t = (\<not> list_ex (\<lambda>d. d \<noteq> 0) (butlast ds) \<and> last ds AND (last ds - 1) = 0)"
    have ds: "ds \<noteq> []" "digits_in BIGNUM_RADIX ds" "0 < last ds" "last ds < BIGNUM_RADIX"
    proof -
      show ne: "ds \<noteq> []" using nz bignum_ZERO_P_iff [OF wf] by (auto simp: ds_def BIGNUM_ZERO_P_def BIGNUM_LENGTH_def)
      show din: "digits_in BIGNUM_RADIX ds" using bignum_wf_digits_in [OF wf] by (simp add: ds_def)
      have "last ds \<in> set ds" "last ds \<noteq> 0" using ne wf by (simp_all add: ds_def bignum_wf_def digits_wf_def)
      then show "0 < last ds" "last ds < BIGNUM_RADIX" using din by (auto simp: digits_in_def order_less_le)
    qed
    have mag: "bignum_mag b = rval BIGNUM_RADIX (butlast ds) + BIGNUM_RADIX ^ k * last ds"
      using ds(1) rval_append [of BIGNUM_RADIX "butlast ds" "[last ds]"] by (simp add: bignum_mag_def k_def flip: ds_def)
    have bl: "digits_in BIGNUM_RADIX (butlast ds)" using ds(2) by (simp add: digits_in_def in_set_butlastD)
    define lo where "lo = rval BIGNUM_RADIX (butlast ds)"
    have lo: "0 \<le> lo" "lo < BIGNUM_RADIX ^ k" "lo = 0 \<longleftrightarrow> \<not> list_ex (\<lambda>d. d \<noteq> 0) (butlast ds)"
      using rval_nonneg [OF bl] rval_less [OF bl] rval_eq_0_iff [OF bl] by (simp_all add: lo_def k_def)
    have e: "bignum_integer_length b = l - (if t then 1 else 0)"
      using False wf nz by (auto simp: bignum_integer_length_def bignum_ZERO_P_iff bignum_POSITIVE_P_iff l_def t_def ds_def Let_def)
    have "t \<longleftrightarrow> bignum_mag b = 2 ^ (l - 1)"
    proof
      assume t
      then obtain j where "last ds = 2 ^ j" using power_of_two_digit [of "last ds" 62] ds(3,4) by (auto simp: t_def BIGNUM_RADIX_eq)
      then have p: "bignum_mag b = 2 ^ (62 * k + j)" using mag lo(3) \<open>t\<close> by (simp add: t_def RADIX_power power_add flip: lo_def)
      then have "(2 :: int) ^ (62 * k + j) < 2 ^ l" "(2 :: int) ^ (l - 1) \<le> 2 ^ (62 * k + j)" using lb by simp_all
      then have "62 * k + j < l" "l - 1 \<le> 62 * k + j" by (simp_all only: power_strict_increasing_iff power_increasing_iff one_less_numeral_iff semiring_norm)
      then show "bignum_mag b = 2 ^ (l - 1)" using p by (metis One_nat_def Suc_pred le_antisym less_Suc_eq_le lb(1))
    next
      assume p: "bignum_mag b = 2 ^ (l - 1)"
      have "(2 :: int) ^ (62 * k) \<le> 2 ^ (l - 1)"
        using bignum_mag_ge [OF wf, of k] ds(1) p by (simp add: RADIX_power BIGNUM_LENGTH_def k_def flip: ds_def)
      then have kl: "62 * k \<le> l - 1" by (simp only: power_increasing_iff one_less_numeral_iff semiring_norm)
      define j where "j = l - 1 - 62 * k"
      have q1: "bignum_mag b = last ds * BIGNUM_RADIX ^ k + lo" using mag by (simp add: lo_def)
      have "l - 1 = j + 62 * k" using kl by (simp add: j_def)
      then have q2: "bignum_mag b = 2 ^ j * BIGNUM_RADIX ^ k + 0" using p by (simp add: RADIX_power power_add)
      have "last ds = 2 ^ j" "lo = 0"
        using div_mod_unique_int [OF q1 lo(1,2)] div_mod_unique_int [OF q2] by simp_all
      then show t using lo(3) power_of_two_and by (simp add: t_def)
    qed
    then consider "t" "bignum_mag b = 2 ^ (l - 1)" | "\<not> t" "bignum_mag b \<noteq> 2 ^ (l - 1)" by blast
    then show ?thesis
    proof cases
      case 1
      then show ?thesis using e m by (cases "l - 1") simp_all
    next
      case 2
      then show ?thesis using e m lb by simp
    qed
  qed
  then show "m < 2 ^ bignum_integer_length b" "bignum_integer_length b = 0 \<or> 2 ^ (bignum_integer_length b - 1) \<le> m" by blast+
qed

subsection \<open>Properties\<close>

text \<open>Shifting right divides by a power of two, rounding down, for operands of both signs. The
  word after the last digit, which the code reads when the operand is the opposite of a power of the
  radix, must then be zero, as it is after \<open>bignum_trim\<close> has shortened the complement.\<close>

theorem bignum_right_shift:
  assumes "bignum_wf n" "BIGNUM_LENGTH n < BIGNUM_LENGTH_MAX"
    "past = 0 \<or> (\<forall>k. bignum_val n \<noteq> - (BIGNUM_RADIX ^ k))"
  shows "returns_bignum (bignum_shift_right past n m) (bignum_val n div 2 ^ m)"
  using assms by (rule returns_shift_right)

theorem bignum_right_shift_witness:
  "returns_bignum (bignum_shift_right 0 (mk_bignum True [5, 4]) 63) (- 3)"
  using bignum_right_shift [of "mk_bignum True [5, 4]" 0 63] by (simp add: concrete_bignum)

text \<open>shifting left multiplies by a power of two; the length that the code computes from the bit
  counts is exactly the length of the result, so every digit of the result is written. A shifted word
  is the product as well, and the bit masks have the ones where they are asked for.\<close>

theorem bignum_left_shift:
  assumes "bignum_wf n" "BIGNUM_LENGTH n + m div 62 + 3 \<le> BIGNUM_LENGTH_MAX"
    and "j + m + 62 \<le> bit_capacity"
  shows "returns_bignum (bignum_shift_left n m) (bignum_val n * 2 ^ m)
       \<and> returns_bignum (unsigned_long_to_shifted_bignum w m sign) (if sign then - (uint w * 2 ^ m) else uint w * 2 ^ m)
       \<and> returns_bignum (bignum_nonnegative_one_bits j m) ((2 ^ j - 1) * 2 ^ m)"
  using assms by (simp add: returns_shift_left returns_unsigned_long_to_shifted returns_nonnegative_one_bits)

theorem bignum_left_shift_witness:
  "returns_bignum (bignum_shift_left (mk_bignum True [5, 4]) 1) (- (10 + 8 * 2 ^ 62))"
  using bignum_left_shift [of "mk_bignum True [5, 4]" 1 0 0 False] by (simp add: concrete_bignum bit_capacity_def)

text \<open>\<open>bignum_integer_length\<close> is the length of the shortest two's complement representation
  without the sign, and \<open>bignum_first_set_bit\<close> the exponent of the largest power of two that
  divides the operand, or minus one for zero.\<close>

theorem bignum_bit_positions:
  assumes "bignum_wf b"
  defines "m \<equiv> (if bignum_val b < 0 then NOT (bignum_val b) else bignum_val b)"
  shows "m < 2 ^ bignum_integer_length b \<and> (bignum_integer_length b = 0 \<or> 2 ^ (bignum_integer_length b - 1) \<le> m)
       \<and> (if bignum_val b = 0 then bignum_first_set_bit b = Some (- 1)
          else \<exists>r k. bignum_first_set_bit b = Some (int r) \<and> bignum_val b = 2 ^ r * k \<and> odd k)"
  using bignum_integer_length_eq [OF assms(1)] bignum_first_set_bit_eq [OF assms(1)] bignum_ZERO_P_iff [OF assms(1)]
  by (simp add: m_def bignum_first_set_bit_def)

theorem bignum_bit_positions_witness:
  "2 ^ 62 - 1 < (2 :: int) ^ bignum_integer_length (mk_bignum True [0, 1])
   \<and> (\<exists>r k. bignum_first_set_bit (mk_bignum True [0, 1]) = Some (int r) \<and> - (2 ^ 62) = 2 ^ r * (k :: int) \<and> odd k)"
  using bignum_bit_positions [of "mk_bignum True [0, 1]"] by (simp add: concrete_bignum)

text \<open>\<open>bignum_bit_count\<close> counts the bits that differ from the sign, and
  \<open>bignum_hamming_distance\<close> the bits in which two operands of the same sign differ; it is minus
  one for operands of different signs, whether or not the arguments are the same object.\<close>

theorem bignum_bit_counts:
  assumes "bignum_wf x" "bignum_wf y" "BIGNUM_LENGTH x < BIGNUM_LENGTH_MAX" "BIGNUM_LENGTH y < BIGNUM_LENGTH_MAX"
    "same \<longrightarrow> x = y"
  shows "bignum_bit_count x = Some (bits_set (if bignum_val x < 0 then NOT (bignum_val x) else bignum_val x))
       \<and> bignum_hamming_distance same x y =
         Some (if bignum_val x < 0 \<longleftrightarrow> bignum_val y < 0 then int (bits_set (bignum_val x XOR bignum_val y)) else - 1)"
  using bignum_bit_count_eq [OF assms(1,3)] bignum_hamming_distance_eq [OF assms(1-4)] assms(5) by blast

theorem bignum_bit_counts_witness:
  "bignum_hamming_distance False (mk_bignum True [5]) (mk_bignum False [1, 1]) = Some (- 1)"
  using bignum_bit_counts [of "mk_bignum True [5]" "mk_bignum False [1, 1]" False] by (simp add: concrete_bignum)

end
