(* ===== verification/Fixnum.thy ===== *)
theory Fixnum
  imports Object Bits
begin

text \<open>
  Fixnum arithmetic (\<open>src/src/microcode/fixnum.h\<close>, \<open>fixnum.c\<close> and
  \<open>mul.c\<close>). Each primitive takes the objects in its argument slots and returns
  either the error it signals or its result object. The lemmas give the value of every
  primitive on fixnums and the exact condition under which it signals a range error.
\<close>

subsection \<open>Argument checking and results\<close>

definition bind_err :: "prim_error + 'a \<Rightarrow> ('a \<Rightarrow> prim_error + 'b) \<Rightarrow> prim_error + 'b" where
  "bind_err m f = (case m of Inl e \<Rightarrow> Inl e | Inr x \<Rightarrow> f x)"

lemma bind_err_simps [simp]:
  "bind_err (Inl e) f = Inl e" "bind_err (Inr x) f = f x"
  by (simp_all add: bind_err_def)

definition arg_fixnum :: "nat \<Rightarrow> scheme_object \<Rightarrow> prim_error + long" where
  "arg_fixnum n argument =
     (if \<not> FIXNUM_P argument then Inl (Wrong_Type n) else Inr (FIXNUM_TO_LONG argument))"

definition arg_unsigned_fixnum :: "nat \<Rightarrow> scheme_object \<Rightarrow> prim_error + ulong" where
  "arg_unsigned_fixnum n argument =
     (if \<not> FIXNUM_P argument then Inl (Wrong_Type n) else Inr (OBJECT_DATUM argument))"

definition BOOLEAN_RESULT :: "bool \<Rightarrow> prim_error + scheme_object" where
  "BOOLEAN_RESULT expr = Inr (BOOLEAN_TO_OBJECT expr)"

definition FIXNUM_RESULT :: "long \<Rightarrow> prim_error + scheme_object" where
  "FIXNUM_RESULT result =
     (if \<not> LONG_TO_FIXNUM_P result then Inl (Bad_Range 1) else Inr (LONG_TO_FIXNUM result))"

definition LOGICAL_RESULT :: "ulong \<Rightarrow> prim_error + scheme_object" where
  "LOGICAL_RESULT fixnum = Inr (MAKE_OBJECT TC_FIXNUM (fixnum AND DATUM_MASK))"

subsection \<open>Shifts and division on longs\<close>

definition MAX_BIT_SHIFT :: long where "MAX_BIT_SHIFT = int DATUM_LENGTH"

definition RIGHT_SHIFT :: "long \<Rightarrow> long \<Rightarrow> ulong" where
  "RIGHT_SHIFT source number =
     (if number > MAX_BIT_SHIFT then 0
      else if source < 0 then NOT (drop_bit (nat number) (NOT (word_of_int source)))
      else word_of_int (drop_bit (nat number) source))"

definition LEFT_SHIFT :: "long \<Rightarrow> long \<Rightarrow> ulong" where
  "LEFT_SHIFT source number =
     (if number > MAX_BIT_SHIFT then 0 else push_bit (nat number) (word_of_int source))"

definition FIXNUM_LSH :: "long \<Rightarrow> long \<Rightarrow> ulong" where
  "FIXNUM_LSH source number =
     (if number \<ge> 0 then LEFT_SHIFT source number else RIGHT_SHIFT source (- number))"

definition FIXNUM_REMAINDER :: "long \<Rightarrow> long \<Rightarrow> long" where
  "FIXNUM_REMAINDER source1 source2 =
     (if source2 > 0
      then (if source1 \<ge> 0 then rem_int source1 source2 else - rem_int (- source1) source2)
      else (if source1 \<ge> 0 then rem_int source1 (- source2) else - rem_int (- source1) (- source2)))"

definition FIXNUM_QUOTIENT :: "long \<Rightarrow> long \<Rightarrow> long" where
  "FIXNUM_QUOTIENT source1 source2 =
     (if source2 > 0
      then (if source1 \<ge> 0 then quot_int source1 source2 else - quot_int (- source1) source2)
      else (if source1 \<ge> 0 then - quot_int source1 (- source2) else quot_int (- source1) (- source2)))"

subsection \<open>Multiplication with overflow detection\<close>

definition HALF_WORD_SIZE :: nat where "HALF_WORD_SIZE = 32"
definition HALF_WORD_MASK :: ulong where "HALF_WORD_MASK = push_bit HALF_WORD_SIZE 1 - 1"
definition MAX_MIDDLE :: ulong where "MAX_MIDDLE = push_bit ((DATUM_LENGTH - 1) - HALF_WORD_SIZE) 1"
definition MAX_FIXNUM :: ulong where "MAX_FIXNUM = push_bit DATUM_LENGTH 1"

definition Mul :: "scheme_object \<Rightarrow> scheme_object \<Rightarrow> scheme_object" where
  "Mul Arg1 Arg2 =
    (let A0 = FIXNUM_TO_LONG Arg1;
         B0 = FIXNUM_TO_LONG Arg2;
         Sign = ((A0 < 0) = (B0 < 0));
         A = (if A0 < 0 then - A0 else A0);
         B = (if B0 < 0 then - B0 else B0);
         Hi_A = word_of_int (drop_bit HALF_WORD_SIZE A) AND HALF_WORD_MASK;
         Hi_B = word_of_int (drop_bit HALF_WORD_SIZE B) AND HALF_WORD_MASK
     in if Hi_A > 0 \<and> Hi_B > 0 then SHARP_F
        else
          let Lo_A = word_of_int A AND HALF_WORD_MASK;
              Lo_B = word_of_int B AND HALF_WORD_MASK;
              Lo_C = Lo_A * Lo_B
          in if Lo_C \<ge> FIXNUM_SIGN_BIT then SHARP_F
             else
               let Middle_C = Lo_A * Hi_B + Hi_A * Lo_B
               in if Middle_C \<ge> MAX_MIDDLE then SHARP_F
                  else
                    let C = sint (Lo_C + push_bit HALF_WORD_SIZE Middle_C)
                    in if LONG_TO_FIXNUM_P C
                       then (if Sign \<or> C = 0 then LONG_TO_UNSIGNED_FIXNUM C
                             else LONG_TO_UNSIGNED_FIXNUM (uint (MAX_FIXNUM - word_of_int C)))
                       else SHARP_F)"

subsection \<open>Predicates\<close>

definition Prim_zero_fixnum_p :: "scheme_object \<Rightarrow> prim_error + scheme_object" where
  "Prim_zero_fixnum_p a1 = BOOLEAN_RESULT (FIXNUM_P a1)"

definition Prim_index_fixnum_p :: "scheme_object \<Rightarrow> prim_error + scheme_object" where
  "Prim_index_fixnum_p a1 = BOOLEAN_RESULT (UNSIGNED_FIXNUM_P a1)"

definition Prim_zero_fixnum :: "scheme_object \<Rightarrow> prim_error + scheme_object" where
  "Prim_zero_fixnum a1 = bind_err (arg_fixnum 1 a1) (\<lambda>x. BOOLEAN_RESULT (x = 0))"

definition Prim_negative_fixnum :: "scheme_object \<Rightarrow> prim_error + scheme_object" where
  "Prim_negative_fixnum a1 = bind_err (arg_fixnum 1 a1) (\<lambda>x. BOOLEAN_RESULT (x < 0))"

definition Prim_positive_fixnum :: "scheme_object \<Rightarrow> prim_error + scheme_object" where
  "Prim_positive_fixnum a1 = bind_err (arg_fixnum 1 a1) (\<lambda>x. BOOLEAN_RESULT (x > 0))"

definition Prim_equal_fixnum :: "scheme_object \<Rightarrow> scheme_object \<Rightarrow> prim_error + scheme_object" where
  "Prim_equal_fixnum a1 a2 =
     bind_err (arg_fixnum 1 a1) (\<lambda>x. bind_err (arg_fixnum 2 a2) (\<lambda>y. BOOLEAN_RESULT (x = y)))"

definition Prim_less_fixnum :: "scheme_object \<Rightarrow> scheme_object \<Rightarrow> prim_error + scheme_object" where
  "Prim_less_fixnum a1 a2 =
     bind_err (arg_fixnum 1 a1) (\<lambda>x. bind_err (arg_fixnum 2 a2) (\<lambda>y. BOOLEAN_RESULT (x < y)))"

definition Prim_greater_fixnum :: "scheme_object \<Rightarrow> scheme_object \<Rightarrow> prim_error + scheme_object" where
  "Prim_greater_fixnum a1 a2 =
     bind_err (arg_fixnum 1 a1) (\<lambda>x. bind_err (arg_fixnum 2 a2) (\<lambda>y. BOOLEAN_RESULT (x > y)))"

subsection \<open>Operators\<close>

definition Prim_one_plus_fixnum :: "scheme_object \<Rightarrow> prim_error + scheme_object" where
  "Prim_one_plus_fixnum a1 = bind_err (arg_fixnum 1 a1) (\<lambda>x. FIXNUM_RESULT (x + 1))"

definition Prim_m_1_plus_fixnum :: "scheme_object \<Rightarrow> prim_error + scheme_object" where
  "Prim_m_1_plus_fixnum a1 = bind_err (arg_fixnum 1 a1) (\<lambda>x. FIXNUM_RESULT (x - 1))"

definition Prim_plus_fixnum :: "scheme_object \<Rightarrow> scheme_object \<Rightarrow> prim_error + scheme_object" where
  "Prim_plus_fixnum a1 a2 =
     bind_err (arg_fixnum 1 a1) (\<lambda>x. bind_err (arg_fixnum 2 a2) (\<lambda>y. FIXNUM_RESULT (x + y)))"

definition Prim_minus_fixnum :: "scheme_object \<Rightarrow> scheme_object \<Rightarrow> prim_error + scheme_object" where
  "Prim_minus_fixnum a1 a2 =
     bind_err (arg_fixnum 1 a1) (\<lambda>x. bind_err (arg_fixnum 2 a2) (\<lambda>y. FIXNUM_RESULT (x - y)))"

definition Prim_fixnum_negate :: "scheme_object \<Rightarrow> prim_error + scheme_object" where
  "Prim_fixnum_negate a1 = bind_err (arg_fixnum 1 a1) (\<lambda>x. FIXNUM_RESULT (- x))"

definition Prim_multiply_fixnum :: "scheme_object \<Rightarrow> scheme_object \<Rightarrow> prim_error + scheme_object" where
  "Prim_multiply_fixnum a1 a2 =
     (if \<not> FIXNUM_P a1 then Inl (Wrong_Type 1)
      else if \<not> FIXNUM_P a2 then Inl (Wrong_Type 2)
      else let result = Mul a1 a2
           in if result = SHARP_F then Inl (Bad_Range 1) else Inr result)"

text \<open>\<open>DIVIDE-FIXNUM\<close> returns a fresh pair; the model returns its two fields.\<close>

definition Prim_divide_fixnum ::
  "scheme_object \<Rightarrow> scheme_object \<Rightarrow> prim_error + (scheme_object \<times> scheme_object)" where
  "Prim_divide_fixnum a1 a2 =
     bind_err (arg_fixnum 1 a1) (\<lambda>numerator. bind_err (arg_fixnum 2 a2) (\<lambda>denominator.
       if denominator = 0 then Inl (Bad_Range 2)
       else
         let (quotient, remainder) =
           (if numerator < 0
            then let numerator = - numerator
                 in (if denominator < 0
                     then let denominator = - denominator
                          in (quot_int numerator denominator, - rem_int numerator denominator)
                     else (- quot_int numerator denominator, - rem_int numerator denominator))
            else (if denominator < 0
                  then let denominator = - denominator
                       in (- quot_int numerator denominator, rem_int numerator denominator)
                  else (quot_int numerator denominator, rem_int numerator denominator)))
         in if \<not> LONG_TO_FIXNUM_P quotient then Inl (Bad_Range 1)
            else Inr (LONG_TO_FIXNUM quotient, LONG_TO_FIXNUM remainder)))"

definition Prim_fixnum_quotient :: "scheme_object \<Rightarrow> scheme_object \<Rightarrow> prim_error + scheme_object" where
  "Prim_fixnum_quotient a1 a2 =
     bind_err (arg_fixnum 1 a1) (\<lambda>numerator. bind_err (arg_fixnum 2 a2) (\<lambda>denominator.
       if denominator = 0 then Inl (Bad_Range 2)
       else FIXNUM_RESULT (FIXNUM_QUOTIENT numerator denominator)))"

definition Prim_fixnum_remainder :: "scheme_object \<Rightarrow> scheme_object \<Rightarrow> prim_error + scheme_object" where
  "Prim_fixnum_remainder a1 a2 =
     bind_err (arg_fixnum 1 a1) (\<lambda>numerator. bind_err (arg_fixnum 2 a2) (\<lambda>denominator.
       if denominator = 0 then Inl (Bad_Range 2)
       else FIXNUM_RESULT (FIXNUM_REMAINDER numerator denominator)))"

text \<open>The loop of \<open>GCD-FIXNUM\<close>; the second argument shrinks in magnitude.\<close>

function gcd_loop :: "long \<Rightarrow> long \<Rightarrow> long" where
  "gcd_loop x y = (if y \<noteq> 0 then gcd_loop y (rem_int x y) else x)"
  by pat_completeness auto
termination
  by (relation "measure (\<lambda>(x, y). nat \<bar>y\<bar>)") (auto simp: rem_int_bound)

declare gcd_loop.simps [simp del]

definition Prim_gcd_fixnum :: "scheme_object \<Rightarrow> scheme_object \<Rightarrow> prim_error + scheme_object" where
  "Prim_gcd_fixnum a1 a2 =
     bind_err (arg_fixnum 1 a1) (\<lambda>x0. bind_err (arg_fixnum 2 a2) (\<lambda>y0.
       let x = (if x0 < 0 then - x0 else x0);
           y = (if y0 < 0 then - y0 else y0)
       in Inr (LONG_TO_FIXNUM (gcd_loop x y))))"

subsection \<open>Bitwise operations\<close>

definition BINARY_LOGICAL_OP ::
  "(ulong \<Rightarrow> ulong \<Rightarrow> ulong) \<Rightarrow> scheme_object \<Rightarrow> scheme_object \<Rightarrow> prim_error + scheme_object" where
  "BINARY_LOGICAL_OP operation a1 a2 =
     bind_err (arg_unsigned_fixnum 1 a1) (\<lambda>x. bind_err (arg_unsigned_fixnum 2 a2) (\<lambda>y.
       LOGICAL_RESULT (operation x y)))"

definition Prim_fixnum_andc :: "scheme_object \<Rightarrow> scheme_object \<Rightarrow> prim_error + scheme_object" where
  "Prim_fixnum_andc = BINARY_LOGICAL_OP (\<lambda>x y. x AND NOT y)"

definition Prim_fixnum_and :: "scheme_object \<Rightarrow> scheme_object \<Rightarrow> prim_error + scheme_object" where
  "Prim_fixnum_and = BINARY_LOGICAL_OP (\<lambda>x y. x AND y)"

definition Prim_fixnum_or :: "scheme_object \<Rightarrow> scheme_object \<Rightarrow> prim_error + scheme_object" where
  "Prim_fixnum_or = BINARY_LOGICAL_OP (\<lambda>x y. x OR y)"

definition Prim_fixnum_xor :: "scheme_object \<Rightarrow> scheme_object \<Rightarrow> prim_error + scheme_object" where
  "Prim_fixnum_xor = BINARY_LOGICAL_OP (\<lambda>x y. x XOR y)"

definition Prim_fixnum_not :: "scheme_object \<Rightarrow> prim_error + scheme_object" where
  "Prim_fixnum_not a1 = bind_err (arg_unsigned_fixnum 1 a1) (\<lambda>x. LOGICAL_RESULT (NOT x))"

definition Prim_fixnum_lsh :: "scheme_object \<Rightarrow> scheme_object \<Rightarrow> prim_error + scheme_object" where
  "Prim_fixnum_lsh a1 a2 =
     bind_err (arg_fixnum 1 a1) (\<lambda>x. bind_err (arg_fixnum 2 a2) (\<lambda>y.
       LOGICAL_RESULT (FIXNUM_LSH x y)))"

definition Prim_fxbit_count :: "scheme_object \<Rightarrow> prim_error + scheme_object" where
  "Prim_fxbit_count a1 =
     bind_err (arg_fixnum 1 a1) (\<lambda>n.
       FIXNUM_RESULT (int (ulong_bit_count (word_of_int (if n < 0 then NOT n else n)))))"

definition Prim_fxlength :: "scheme_object \<Rightarrow> prim_error + scheme_object" where
  "Prim_fxlength a1 =
     bind_err (arg_fixnum 1 a1) (\<lambda>n.
       FIXNUM_RESULT (int (ulong_length_in_bits (word_of_int (if n < 0 then NOT n else n)))))"

definition fxfirst_set_bit :: "scheme_object \<Rightarrow> prim_error + scheme_object" where
  "fxfirst_set_bit a1 =
     bind_err (arg_fixnum 1 a1) (\<lambda>n. FIXNUM_RESULT (ulong_first_set_bit (word_of_int n)))"

subsection \<open>Correctness of the overflow-checking multiplication\<close>

lemma uint_half_words:
  assumes "0 \<le> a" "a \<le> 2 ^ 57"
  shows "uint (word_of_int (drop_bit HALF_WORD_SIZE a) AND HALF_WORD_MASK) = a div 2 ^ 32"
    and "uint (word_of_int a AND HALF_WORD_MASK) = a mod 2 ^ 32"
proof -
  have m: "HALF_WORD_MASK = mask 32"
    by (simp add: HALF_WORD_MASK_def HALF_WORD_SIZE_def mask_eq_exp_minus_1)
  have d: "0 \<le> a div 2 ^ 32" "a div 2 ^ 32 < 2 ^ 32"
    using assms by (simp_all add: pos_imp_zdiv_nonneg_iff div_less_iff_less_mult)
  show "uint (word_of_int (drop_bit HALF_WORD_SIZE a) AND HALF_WORD_MASK) = a div 2 ^ 32"
    using d uint_word_of_int_ulong [of "a div 2 ^ 32"]
    by (simp only: m uint_and_mask HALF_WORD_SIZE_def drop_bit_eq_div) simp
  show "uint (word_of_int a AND HALF_WORD_MASK) = a mod 2 ^ 32"
    using assms uint_word_of_int_ulong [of a] by (simp only: m uint_and_mask) simp
qed

lemma LONG_TO_UNSIGNED_FIXNUM_eq:
  assumes "0 \<le> n" "n < 2 ^ 58"
  shows "LONG_TO_UNSIGNED_FIXNUM n = LONG_TO_FIXNUM n"
proof -
  have "word_of_int n AND DATUM_MASK = (word_of_int n :: ulong)"
    using assms uint_word_of_int_datum [of n] by (intro word_uint_eqI) (simp add: uint_word_of_int_ulong)
  then show ?thesis by (simp add: LONG_TO_UNSIGNED_FIXNUM_def LONG_TO_FIXNUM_def)
qed

lemma LONG_TO_FIXNUM_mod: "LONG_TO_FIXNUM (n mod 2 ^ 58) = LONG_TO_FIXNUM n"
proof -
  have "word_of_int (n mod 2 ^ 58) AND DATUM_MASK = (word_of_int n AND DATUM_MASK :: ulong)"
    by (rule word_uint_eqI) (simp only: uint_word_of_int_datum mod_mod_trivial)
  then show ?thesis by (simp add: LONG_TO_FIXNUM_def)
qed

text \<open>Multiplication on magnitudes below a power of two, split into half words.\<close>

lemma half_word_product:
  fixes a b :: int
  assumes "0 \<le> a" "a \<le> 2 ^ 57" "0 \<le> b" "b \<le> 2 ^ 57" 
  defines "ha \<equiv> a div 2 ^ 32" and "la \<equiv> a mod 2 ^ 32" and "hb \<equiv> b div 2 ^ 32" and "lb \<equiv> b mod 2 ^ 32"
  shows "ha > 0 \<Longrightarrow> hb > 0 \<Longrightarrow> 2 ^ 57 \<le> a * b"
    and "\<not> (ha > 0 \<and> hb > 0) \<Longrightarrow> a * b = la * lb + 2 ^ 32 * (la * hb + ha * lb)"
    and "0 \<le> la" "la < 2 ^ 32" "0 \<le> lb" "lb < 2 ^ 32" "0 \<le> ha" "ha \<le> 2 ^ 25" "0 \<le> hb" "hb \<le> 2 ^ 25"
proof -
  have a: "a = la + 2 ^ 32 * ha" and b: "b = lb + 2 ^ 32 * hb" by (simp_all add: ha_def la_def hb_def lb_def)
  show r: "0 \<le> la" "la < 2 ^ 32" "0 \<le> lb" "lb < 2 ^ 32" "0 \<le> ha" "ha \<le> 2 ^ 25" "0 \<le> hb" "hb \<le> 2 ^ 25"
    using assms(1-4) zdiv_mono1 [of a "2 ^ 57" "2 ^ 32"] zdiv_mono1 [of b "2 ^ 57" "2 ^ 32"]
    by (simp_all add: ha_def la_def hb_def lb_def pos_imp_zdiv_nonneg_iff)
  show "2 ^ 57 \<le> a * b" if "ha > 0" "hb > 0"
  proof -
    have "2 ^ 32 \<le> a" "2 ^ 32 \<le> b" using a b r that by (simp_all add: add_increasing)
    then have "2 ^ 32 * 2 ^ 32 \<le> a * b" by (intro mult_mono) auto
    then show ?thesis by simp
  qed
  show "a * b = la * lb + 2 ^ 32 * (la * hb + ha * lb)" if "\<not> (ha > 0 \<and> hb > 0)"
  proof -
    have "ha * hb = 0" using that r by auto
    then have "2 ^ 32 * ha * (2 ^ 32 * hb) = 0" by auto
    then show ?thesis by (subst a, subst b) (simp only: distrib_left distrib_right, simp)
  qed
qed


text \<open>The negated result is built by subtracting the magnitude from \<open>2 ^ 58\<close>.\<close>

lemma MAX_FIXNUM_minus:
  assumes "0 < p" "p \<le> 2 ^ 57"
  shows "LONG_TO_UNSIGNED_FIXNUM (uint (MAX_FIXNUM - word_of_int p)) = LONG_TO_FIXNUM (- p)"
proof -
  have "MAX_FIXNUM - word_of_int p = word_of_int (2 ^ 58 - p)"
    by (simp add: MAX_FIXNUM_def DATUM_LENGTH_def)
  then have "uint (MAX_FIXNUM - word_of_int p) = 2 ^ 58 - p"
    using assms by (simp only:) (rule uint_word_of_int_ulong, simp_all)
  moreover have "(- p) mod 2 ^ 58 = 2 ^ 58 - p"
    using assms mod_signed_range [of "2 ^ 58" "- p"] by simp
  ultimately show ?thesis
    using assms LONG_TO_FIXNUM_mod [of "- p"] by (simp add: LONG_TO_UNSIGNED_FIXNUM_eq)
qed

text \<open>The partial products of \<open>Mul\<close> do not wrap.\<close>

lemma half_word_machine:
  fixes x y :: ulong and u v :: ulong
  assumes "uint x < 2 ^ 32" "uint y < 2 ^ 32" "uint u \<le> 2 ^ 25" "uint v \<le> 2 ^ 25"
  shows "uint (x * y) = uint x * uint y"
    and "uint (x * v + u * y) = uint x * uint v + uint u * uint y"
    and "x * y \<ge> FIXNUM_SIGN_BIT \<longleftrightarrow> 2 ^ 57 \<le> uint x * uint y"
    and "x * v + u * y \<ge> MAX_MIDDLE \<longleftrightarrow> 2 ^ 25 \<le> uint x * uint v + uint u * uint y"
proof -
  have "uint x * uint y \<le> (2 ^ 32 - 1) * (2 ^ 32 - 1)" using assms by (intro mult_mono) auto
  then show 1: "uint (x * y) = uint x * uint y" by (subst uint_mult_no_wrap) simp_all
  have "uint x * uint v \<le> 2 ^ 32 * 2 ^ 25" "uint u * uint y \<le> 2 ^ 25 * 2 ^ 32"
    using assms by (intro mult_mono; simp)+
  then show 2: "uint (x * v + u * y) = uint x * uint v + uint u * uint y"
    by (simp add: uint_plus_no_wrap uint_mult_no_wrap)
  show "x * y \<ge> FIXNUM_SIGN_BIT \<longleftrightarrow> 2 ^ 57 \<le> uint x * uint y"
    by (simp add: word_le_def 1 FIXNUM_SIGN_BIT_def)
  show "x * v + u * y \<ge> MAX_MIDDLE \<longleftrightarrow> 2 ^ 25 \<le> uint x * uint v + uint u * uint y"
    by (simp only: word_le_def 2) (simp add: MAX_MIDDLE_def DATUM_LENGTH_def HALF_WORD_SIZE_def)
qed

lemma half_word_bounds:
  fixes p q :: int
  assumes "0 \<le> p" "0 \<le> q"
  shows "p < 2 ^ 57 \<Longrightarrow> q < 2 ^ 25 \<Longrightarrow> fits_long (p + 2 ^ 32 * q)"
    and "2 ^ 57 \<le> p \<or> 2 ^ 25 \<le> q \<Longrightarrow> 2 ^ 57 \<le> p + 2 ^ 32 * q"
  using assms by (auto simp: fits_long_def)

lemma half_word_sum:
  fixes x y u v :: ulong
  assumes r: "uint x < 2 ^ 32" "uint y < 2 ^ 32" "uint u \<le> 2 ^ 25" "uint v \<le> 2 ^ 25"
    and s: "uint x * uint y < 2 ^ 57" "uint x * uint v + uint u * uint y < 2 ^ 25"
  shows "sint (x * y + push_bit HALF_WORD_SIZE (x * v + u * y))
       = uint x * uint y + 2 ^ 32 * (uint x * uint v + uint u * uint y)" (is "sint ?w = ?n")
proof -
  note m = half_word_machine [OF r]
  have nn: "0 \<le> uint x * uint y" "0 \<le> uint x * uint v + uint u * uint y" by simp_all
  have "uint (push_bit HALF_WORD_SIZE (x * v + u * y)) = push_bit 32 (uint x * uint v + uint u * uint y)"
    using s nn uint_push_bit_ulong [of "x * v + u * y" 32] by (simp add: m HALF_WORD_SIZE_def)
  then have "uint ?w = ?n"
    using s nn by (subst uint_plus_no_wrap) (simp_all add: m push_bit_eq_mult)
  then have "?w = word_of_int ?n" by (metis word_of_int_uint)
  moreover have "fits_long ?n" using half_word_bounds(1) [OF nn] s by blast
  ultimately show ?thesis using sint_word_of_int_ulong by metis
qed

lemma Mul_magnitudes:
  assumes f: "FIXNUM_P x" "FIXNUM_P y"
  defines "a \<equiv> \<bar>FIXNUM_TO_LONG x\<bar>" and "b \<equiv> \<bar>FIXNUM_TO_LONG y\<bar>"
  defines "same \<equiv> (FIXNUM_TO_LONG x < 0) = (FIXNUM_TO_LONG y < 0)"
  shows "Mul x y = (if a * b < 2 ^ 57 then LONG_TO_FIXNUM (if same then a * b else - (a * b)) else SHARP_F)"
proof -
  have rng: "0 \<le> a" "a \<le> 2 ^ 57" "0 \<le> b" "b \<le> 2 ^ 57"
    using FIXNUM_TO_LONG_bounds [OF f(1)] FIXNUM_TO_LONG_bounds [OF f(2)] by (auto simp: a_def b_def)
  define Hi_A Hi_B Lo_A Lo_B where w:
    "Hi_A = (word_of_int (drop_bit HALF_WORD_SIZE a) AND HALF_WORD_MASK :: ulong)"
    "Hi_B = (word_of_int (drop_bit HALF_WORD_SIZE b) AND HALF_WORD_MASK :: ulong)"
    "Lo_A = (word_of_int a AND HALF_WORD_MASK :: ulong)" "Lo_B = (word_of_int b AND HALF_WORD_MASK :: ulong)"
  have u: "uint Hi_A = a div 2 ^ 32" "uint Hi_B = b div 2 ^ 32" "uint Lo_A = a mod 2 ^ 32" "uint Lo_B = b mod 2 ^ 32"
    using uint_half_words rng by (simp_all only: w)
  note hp = half_word_product [OF rng, folded u]
  note m = half_word_machine [of Lo_A Lo_B Hi_A Hi_B, OF hp(4,6,8,10)]
  have abs: "(if FIXNUM_TO_LONG x < 0 then - FIXNUM_TO_LONG x else FIXNUM_TO_LONG x) = a"
    "(if FIXNUM_TO_LONG y < 0 then - FIXNUM_TO_LONG y else FIXNUM_TO_LONG y) = b"
    by (simp_all add: a_def b_def)
  have hi: "Hi_A > 0 \<and> Hi_B > 0 \<longleftrightarrow> uint Hi_A > 0 \<and> uint Hi_B > 0" by (simp add: word_less_def)
  note Mul_unfold = Mul_def Let_def abs w [symmetric] hi m(3,4)
  consider (high) "uint Hi_A > 0 \<and> uint Hi_B > 0"
    | (over) "\<not> (uint Hi_A > 0 \<and> uint Hi_B > 0)"
        "2 ^ 57 \<le> uint Lo_A * uint Lo_B \<or> 2 ^ 25 \<le> uint Lo_A * uint Hi_B + uint Hi_A * uint Lo_B"
    | (ok) "\<not> (uint Hi_A > 0 \<and> uint Hi_B > 0)" "uint Lo_A * uint Lo_B < 2 ^ 57"
        "uint Lo_A * uint Hi_B + uint Hi_A * uint Lo_B < 2 ^ 25" by linarith
  then show ?thesis
  proof cases
    case high
    then show ?thesis using hp(1) unfolding Mul_unfold by simp
  next
    case over
    have "2 ^ 57 \<le> a * b"
      unfolding hp(2) [OF over(1)] by (rule half_word_bounds(2)) (use over(2) in simp_all)
    then show ?thesis using over unfolding Mul_unfold by auto
  next
    case ok
    note ab = hp(2) [OF ok(1)]
    have C: "sint (Lo_A * Lo_B + push_bit HALF_WORD_SIZE (Lo_A * Hi_B + Hi_A * Lo_B)) = a * b"
      using half_word_sum [of Lo_A Lo_B Hi_A Hi_B, OF hp(4,6,8,10) ok(2,3)] ab by simp
    have ab58: "a * b < 2 ^ 58" using ab ok by simp
    have ab0: "0 \<le> a * b" using rng by simp
    have P: "LONG_TO_FIXNUM_P (a * b) \<longleftrightarrow> a * b < 2 ^ 57"
      using ab58 ab0 by (subst LONG_TO_FIXNUM_P_iff) (simp_all add: fits_long_def)
    have "Mul x y = (if LONG_TO_FIXNUM_P (a * b)
         then (if same \<or> a * b = 0 then LONG_TO_UNSIGNED_FIXNUM (a * b)
               else LONG_TO_UNSIGNED_FIXNUM (uint (MAX_FIXNUM - word_of_int (a * b)))) else SHARP_F)"
      unfolding Mul_unfold C same_def using ok by (simp only: if_False linorder_not_le [symmetric])
    moreover have "0 < a * b \<or> a * b = 0" using ab0 by linarith
    ultimately show ?thesis
      unfolding P using MAX_FIXNUM_minus [of "a * b"] ab58
      by (elim disjE) (auto simp: LONG_TO_UNSIGNED_FIXNUM_eq)
  qed
qed

lemma Mul_correct:
  assumes f: "FIXNUM_P x" "FIXNUM_P y"
  defines "p \<equiv> FIXNUM_TO_LONG x * FIXNUM_TO_LONG y"
  shows "Mul x y = (if \<bar>p\<bar> < 2 ^ 57 then LONG_TO_FIXNUM p else SHARP_F)"
proof -
  have "\<bar>FIXNUM_TO_LONG x\<bar> * \<bar>FIXNUM_TO_LONG y\<bar> = \<bar>p\<bar>" by (simp add: p_def abs_mult)
  moreover have "p = (if (FIXNUM_TO_LONG x < 0) = (FIXNUM_TO_LONG y < 0) then \<bar>p\<bar> else - \<bar>p\<bar>)"
    by (auto simp: p_def abs_if mult_less_0_iff not_less)
  ultimately show ?thesis unfolding Mul_magnitudes [OF f] by (cases "(FIXNUM_TO_LONG x < 0) = (FIXNUM_TO_LONG y < 0)") simp_all
qed

subsection \<open>Division, greatest common divisor, shifts and bitwise operations\<close>

lemma FIXNUM_RESULT_eq:
  "fits_long n \<Longrightarrow> FIXNUM_RESULT n = (if fits_fixnum n then Inr (LONG_TO_FIXNUM n) else Inl (Bad_Range 1))"
  by (simp add: FIXNUM_RESULT_def LONG_TO_FIXNUM_P_eq)

lemma arg_fixnum_ok [simp]: "FIXNUM_P a \<Longrightarrow> arg_fixnum n a = Inr (FIXNUM_TO_LONG a)"
  and arg_fixnum_bad [simp]: "\<not> FIXNUM_P a \<Longrightarrow> arg_fixnum n a = Inl (Wrong_Type n)"
  by (simp_all add: arg_fixnum_def)

lemma FIXNUM_QUOTIENT_eq: "FIXNUM_QUOTIENT a b = quot_int a b"
  by (auto simp: FIXNUM_QUOTIENT_def quot_int_def sgn_if)

lemma FIXNUM_REMAINDER_eq: "b \<noteq> 0 \<Longrightarrow> FIXNUM_REMAINDER a b = rem_int a b"
  by (auto simp: FIXNUM_REMAINDER_def rem_int_def sgn_if)

lemma abs_quot_int_le: "\<bar>quot_int a b\<bar> \<le> \<bar>a\<bar>"
proof (cases "b = 0")
  case False
  then have "\<bar>a\<bar> div \<bar>b\<bar> \<le> \<bar>a\<bar> div 1" by (intro zdiv_mono2) auto
  then show ?thesis by (auto simp: quot_int_def abs_mult abs_sgn_eq pos_imp_zdiv_nonneg_iff)
qed (simp add: quot_int_def)

lemma fits_long_fixnum_op:
  assumes "fits_fixnum a" "fits_fixnum b"
  shows "fits_long (a + b)" "fits_long (a - b)" "fits_long (a + 1)" "fits_long (a - 1)" "fits_long (- a)"
    "fits_long (quot_int a b)"
  using assms abs_quot_int_le [of a b] by (auto simp: fits_fixnum_iff fits_long_def)

lemma fits_fixnum_rem: "fits_fixnum b \<Longrightarrow> b \<noteq> 0 \<Longrightarrow> fits_fixnum (rem_int a b)"
  using rem_int_bound [of b a] by (auto simp: fits_fixnum_iff)

lemma gcd_loop_correct:
  assumes "0 \<le> x" "0 \<le> y"
  shows "gcd_loop x y = gcd x y"
  using assms
proof (induction x y rule: gcd_loop.induct)
  case (1 x y)
  show ?case
  proof (cases "y = 0")
    case True with 1 show ?thesis by (subst gcd_loop.simps) simp
  next
    case False
    have "rem_int x y = x mod y" using 1(2,3) by (cases "x = 0") (simp_all add: rem_int_def)
    with False 1 show ?thesis by (subst gcd_loop.simps) (simp add: gcd_red_int [of x y] gcd.commute)
  qed
qed

lemma OBJECT_DATUM_fixnum: "FIXNUM_P x \<Longrightarrow> OBJECT_DATUM x = word_of_int (FIXNUM_TO_LONG x) AND DATUM_MASK"
  using uint_word_of_int_datum [of "FIXNUM_TO_LONG x"] uint_datum_LONG_TO_FIXNUM [of "FIXNUM_TO_LONG x"]
  by (intro word_uint_eqI) (simp add: LONG_TO_FIXNUM_TO_LONG)

lemma LOGICAL_RESULT_word_of_int: "LOGICAL_RESULT (word_of_int n) = Inr (LONG_TO_FIXNUM n)"
  by (simp add: LOGICAL_RESULT_def LONG_TO_FIXNUM_def)

lemma BINARY_LOGICAL_OP_eq:
  assumes x: "FIXNUM_P x" and y: "FIXNUM_P y"
    and op: "\<And>a b. operation (word_of_int a AND DATUM_MASK) (word_of_int b AND DATUM_MASK) AND DATUM_MASK
             = word_of_int (f a b) AND DATUM_MASK"
  shows "BINARY_LOGICAL_OP operation x y = Inr (LONG_TO_FIXNUM (f (FIXNUM_TO_LONG x) (FIXNUM_TO_LONG y)))"
  using assms by (simp add: BINARY_LOGICAL_OP_def arg_unsigned_fixnum_def LOGICAL_RESULT_def OBJECT_DATUM_fixnum LONG_TO_FIXNUM_def)

lemma fits_fixnum_iff_drop_bit: "fits_fixnum n \<longleftrightarrow> drop_bit 57 n \<in> {0, - 1}"
  by (auto simp: fits_fixnum_iff drop_bit_eq_div int_div_pos_eq)

lemma fits_fixnum_bitop:
  assumes "fits_fixnum a" "fits_fixnum b"
  shows "fits_fixnum (a AND b)" "fits_fixnum (a OR b)" "fits_fixnum (a XOR b)" "fits_fixnum (NOT a)"
proof -
  show "fits_fixnum (a AND b)" "fits_fixnum (a OR b)" "fits_fixnum (a XOR b)"
    using assms by (auto simp: fits_fixnum_iff_drop_bit drop_bit_and drop_bit_or drop_bit_xor)
  show "fits_fixnum (NOT a)" using assms by (simp add: fits_fixnum_iff not_int_def)
qed

text \<open>Left shifts wrap modulo \<open>2 ^ 58\<close>; right shifts up to 58 places are arithmetic.\<close>

lemma LEFT_SHIFT_eq:
  assumes "0 \<le> n"
  shows "LOGICAL_RESULT (LEFT_SHIFT x n) = Inr (LONG_TO_FIXNUM (x * 2 ^ nat n))"
proof (cases "n > 58")
  case True
  then have "nat n = 58 + nat (n - 58)" by simp
  then have "(2 :: int) ^ nat n = 2 ^ 58 * 2 ^ nat (n - 58)" by (metis power_add)
  then have "x * 2 ^ nat n mod 2 ^ 58 = 0" by (simp only: mult.left_commute [of x] mod_mult_self1_is_0)
  then have "LONG_TO_FIXNUM (x * 2 ^ nat n) = LONG_TO_FIXNUM 0"
    using LONG_TO_FIXNUM_mod [of "x * 2 ^ nat n"] by simp
  with True show ?thesis
    using LOGICAL_RESULT_word_of_int [of 0] by (simp add: LEFT_SHIFT_def MAX_BIT_SHIFT_def DATUM_LENGTH_def)
next
  case False
  have "push_bit (nat n) (word_of_int x :: ulong) = word_of_int (x * 2 ^ nat n)"
    by (simp add: push_bit_eq_mult)
  with False show ?thesis
    using LOGICAL_RESULT_word_of_int [of "x * 2 ^ nat n"]
    by (simp add: LEFT_SHIFT_def MAX_BIT_SHIFT_def DATUM_LENGTH_def)
qed

lemma word_of_int_drop_bit:
  assumes "0 \<le> x" "x < 2 ^ 64"
  shows "(word_of_int (drop_bit n x) :: ulong) = drop_bit n (word_of_int x)"
proof -
  have "uint (drop_bit n (word_of_int x :: ulong)) = drop_bit n x"
    using assms uint_word_of_int_ulong [of x] by (simp only: unsigned_drop_bit_eq) (simp add: take_bit_int_eq_self)
  then show ?thesis by (metis word_of_int_uint)
qed

lemma RIGHT_SHIFT_eq:
  assumes "fits_long x" "0 \<le> n"
  shows "RIGHT_SHIFT x n = word_of_int (if n > 58 then 0 else x div 2 ^ nat n)"
proof -
  have "NOT (drop_bit (nat n) (NOT (word_of_int x :: ulong))) = word_of_int (x div 2 ^ nat n)" if "x < 0"
  proof -
    have "NOT (word_of_int x :: ulong) = word_of_int (NOT x)" by (simp only: of_int_not_eq)
    moreover have "0 \<le> NOT x" "NOT x < 2 ^ 64" using that assms by (simp_all add: not_int_def fits_long_def)
    ultimately have "drop_bit (nat n) (NOT (word_of_int x :: ulong)) = word_of_int (drop_bit (nat n) (NOT x))"
      by (simp only: word_of_int_drop_bit)
    moreover have "NOT (drop_bit (nat n) (NOT x)) = drop_bit (nat n) x"
      by (rule bit_eqI) (simp add: bit_simps)
    ultimately show ?thesis by (metis drop_bit_eq_div of_int_not_eq)
  qed
  then show ?thesis
    by (simp add: RIGHT_SHIFT_def MAX_BIT_SHIFT_def DATUM_LENGTH_def drop_bit_eq_div)
qed

subsection \<open>The primitives on fixnums\<close>

definition checked_fixnum :: "int \<Rightarrow> prim_error + scheme_object" where
  "checked_fixnum n = (if fits_fixnum n then Inr (LONG_TO_FIXNUM n) else Inl (Bad_Range 1))"

lemma fits_fixnum_quot:
  assumes "fits_fixnum a" "fits_fixnum b" "b \<noteq> 0"
  shows "fits_fixnum (quot_int a b) \<longleftrightarrow> \<not> (a = SMALLEST_FIXNUM \<and> b = - 1)"
proof -
  have le: "\<bar>quot_int a b\<bar> \<le> \<bar>a\<bar>" by (rule abs_quot_int_le)
  consider "a = SMALLEST_FIXNUM" "b = - 1" | "a = SMALLEST_FIXNUM" "b = 1"
    | "a = SMALLEST_FIXNUM" "2 \<le> \<bar>b\<bar>" | "\<bar>a\<bar> < 2 ^ 57"
    using assms by (force simp: SMALLEST_FIXNUM_def fits_fixnum_iff)
  then show ?thesis
  proof cases
    case 3
    then have "\<bar>a\<bar> div \<bar>b\<bar> \<le> \<bar>a\<bar> div 2" by (intro zdiv_mono2) auto
    moreover have "0 \<le> \<bar>a\<bar> div \<bar>b\<bar>" using 3 by (simp add: pos_imp_zdiv_nonneg_iff)
    ultimately show ?thesis using 3
      by (auto simp: quot_int_def SMALLEST_FIXNUM_def fits_fixnum_iff sgn_if)
  qed (use le in \<open>auto simp: quot_int_def SMALLEST_FIXNUM_def fits_fixnum_iff\<close>)
qed

lemmas fixnum_prim_defs = Prim_one_plus_fixnum_def Prim_m_1_plus_fixnum_def Prim_plus_fixnum_def
  Prim_minus_fixnum_def Prim_fixnum_negate_def Prim_fixnum_quotient_def Prim_fixnum_remainder_def

text \<open>C38: on fixnum operands the additive primitives, negation, quotient and remainder
  compute the exact integer result when it is a fixnum, and otherwise signal a bad range of
  the first argument; division by zero is a bad range of the second argument. (The reference manual says that the
  procedures built on them do not check the result.)\<close>

theorem fixnum_arithmetic:
  assumes "FIXNUM_P x" and "FIXNUM_P y"
  defines "a \<equiv> FIXNUM_TO_LONG x" and "b \<equiv> FIXNUM_TO_LONG y"
  shows "Prim_plus_fixnum x y = checked_fixnum (a + b)
       \<and> Prim_minus_fixnum x y = checked_fixnum (a - b)
       \<and> Prim_one_plus_fixnum x = checked_fixnum (a + 1)
       \<and> Prim_m_1_plus_fixnum x = checked_fixnum (a - 1)
       \<and> Prim_fixnum_negate x = checked_fixnum (- a)
       \<and> Prim_fixnum_quotient x y = (if b = 0 then Inl (Bad_Range 2) else checked_fixnum (quot_int a b))
       \<and> Prim_fixnum_remainder x y = (if b = 0 then Inl (Bad_Range 2) else Inr (LONG_TO_FIXNUM (rem_int a b)))"
proof -
  have f: "fits_fixnum a" "fits_fixnum b" using assms by simp_all
  note l = fits_long_fixnum_op [OF f]
  show ?thesis
    using assms(1,2) f
    by (simp add: fixnum_prim_defs checked_fixnum_def FIXNUM_RESULT_eq l FIXNUM_QUOTIENT_eq FIXNUM_REMAINDER_eq
       fits_fixnum_rem fits_fixnum_fits_long flip: a_def b_def)
qed

theorem fixnum_arithmetic_witness:
  "Prim_plus_fixnum (LONG_TO_FIXNUM (- 7)) (LONG_TO_FIXNUM 2) = Inr (LONG_TO_FIXNUM (- 5))
   \<and> Prim_fixnum_quotient (LONG_TO_FIXNUM (- 7)) (LONG_TO_FIXNUM 2) = Inr (LONG_TO_FIXNUM (- 3))"
  using fixnum_arithmetic [of "LONG_TO_FIXNUM (- 7)" "LONG_TO_FIXNUM 2"]
  by (simp add: checked_fixnum_def fits_fixnum_iff quot_int_def)

text \<open>Multiplication signals a range error unless the magnitude of the exact product is
  below \<open>2 ^ 57\<close>, and otherwise returns the exact product.\<close>

theorem fixnum_multiply:
  assumes "FIXNUM_P x" and "FIXNUM_P y"
  defines "p \<equiv> FIXNUM_TO_LONG x * FIXNUM_TO_LONG y"
  shows "Prim_multiply_fixnum x y = (if \<bar>p\<bar> < 2 ^ 57 then Inr (LONG_TO_FIXNUM p) else Inl (Bad_Range 1))"
proof -
  have "LONG_TO_FIXNUM p \<noteq> SHARP_F" by (metis FIXNUM_P_LONG_TO_FIXNUM SHARP_F_eq not_FIXNUM_P_SHARP_F)
  then show ?thesis using assms(1,2) by (simp add: Prim_multiply_fixnum_def Mul_correct p_def)
qed

theorem fixnum_multiply_witness:
  "Prim_multiply_fixnum (LONG_TO_FIXNUM (- 4294967297)) (LONG_TO_FIXNUM 3) = Inr (LONG_TO_FIXNUM (- 12884901891))"
  using fixnum_multiply [of "LONG_TO_FIXNUM (- 4294967297)" "LONG_TO_FIXNUM 3"] by (simp add: fits_fixnum_iff)

text \<open>\<open>DIVIDE-FIXNUM\<close> returns the truncating quotient and the remainder with the sign of
  the numerator, and signals a range error exactly for a zero denominator or the one quotient
  that is not a fixnum.\<close>

theorem fixnum_divide:
  assumes "FIXNUM_P x" and "FIXNUM_P y"
  defines "a \<equiv> FIXNUM_TO_LONG x" and "b \<equiv> FIXNUM_TO_LONG y"
  shows "Prim_divide_fixnum x y =
    (if b = 0 then Inl (Bad_Range 2)
     else if a = SMALLEST_FIXNUM \<and> b = - 1 then Inl (Bad_Range 1)
     else Inr (LONG_TO_FIXNUM (quot_int a b), LONG_TO_FIXNUM (rem_int a b)))"
proof -
  have f: "fits_fixnum a" "fits_fixnum b" using assms by simp_all
  have q: "fits_long (quot_int a b)" using f by (rule fits_long_fixnum_op)
  have "Prim_divide_fixnum x y =
    (if b = 0 then Inl (Bad_Range 2)
     else if \<not> LONG_TO_FIXNUM_P (quot_int a b) then Inl (Bad_Range 1)
     else Inr (LONG_TO_FIXNUM (quot_int a b), LONG_TO_FIXNUM (rem_int a b)))"
    using assms(1,2) unfolding a_def b_def
    by (auto simp: Prim_divide_fixnum_def Let_def quot_int_def rem_int_def sgn_if)
  moreover have "fits_fixnum (quot_int a b) \<longleftrightarrow> \<not> (a = SMALLEST_FIXNUM \<and> b = - 1)" if "b \<noteq> 0"
    using fits_fixnum_quot [OF f that] .
  ultimately show ?thesis using q by (simp add: LONG_TO_FIXNUM_P_eq)
qed

theorem fixnum_divide_witness:
  "Prim_divide_fixnum (LONG_TO_FIXNUM (- 17)) (LONG_TO_FIXNUM 5) = Inr (LONG_TO_FIXNUM (- 3), LONG_TO_FIXNUM (- 2))"
  using fixnum_divide [of "LONG_TO_FIXNUM (- 17)" "LONG_TO_FIXNUM 5"]
  by (simp add: fits_fixnum_iff SMALLEST_FIXNUM_def quot_int_def rem_int_def)

lemma datum_bitops:
  fixes a b :: int
  shows "((word_of_int a AND DATUM_MASK) AND (word_of_int b AND DATUM_MASK)) AND DATUM_MASK
       = (word_of_int (a AND b) AND DATUM_MASK :: ulong)"
    and "((word_of_int a AND DATUM_MASK) AND NOT (word_of_int b AND DATUM_MASK)) AND DATUM_MASK
       = (word_of_int (a AND NOT b) AND DATUM_MASK :: ulong)"
    and "((word_of_int a AND DATUM_MASK) OR (word_of_int b AND DATUM_MASK)) AND DATUM_MASK
       = (word_of_int (a OR b) AND DATUM_MASK :: ulong)"
    and "((word_of_int a AND DATUM_MASK) XOR (word_of_int b AND DATUM_MASK)) AND DATUM_MASK
       = (word_of_int (a XOR b) AND DATUM_MASK :: ulong)"
    and "NOT (word_of_int a AND DATUM_MASK) AND DATUM_MASK = (word_of_int (NOT a) AND DATUM_MASK :: ulong)"
  by (rule bit_eqI, auto simp: bit_simps)+

text \<open>The bitwise primitives are the two's complement operations on the integers that
  their arguments denote; the results are always fixnums.\<close>

theorem fixnum_bitwise:
  assumes "FIXNUM_P x" and "FIXNUM_P y"
  defines "a \<equiv> FIXNUM_TO_LONG x" and "b \<equiv> FIXNUM_TO_LONG y"
  shows "Prim_fixnum_and x y = Inr (LONG_TO_FIXNUM (a AND b)) \<and> fits_fixnum (a AND b)
       \<and> Prim_fixnum_andc x y = Inr (LONG_TO_FIXNUM (a AND NOT b)) \<and> fits_fixnum (a AND NOT b)
       \<and> Prim_fixnum_or x y = Inr (LONG_TO_FIXNUM (a OR b)) \<and> fits_fixnum (a OR b)
       \<and> Prim_fixnum_xor x y = Inr (LONG_TO_FIXNUM (a XOR b)) \<and> fits_fixnum (a XOR b)
       \<and> Prim_fixnum_not x = Inr (LONG_TO_FIXNUM (NOT a)) \<and> fits_fixnum (NOT a)"
proof -
  have f: "fits_fixnum a" "fits_fixnum b" using assms by simp_all
  then have nb: "fits_fixnum (NOT b)" by (intro fits_fixnum_bitop)
  note bl = BINARY_LOGICAL_OP_eq [OF assms(1,2), folded a_def b_def]
  have "Prim_fixnum_and x y = Inr (LONG_TO_FIXNUM (a AND b))"
    "Prim_fixnum_andc x y = Inr (LONG_TO_FIXNUM (a AND NOT b))"
    "Prim_fixnum_or x y = Inr (LONG_TO_FIXNUM (a OR b))"
    "Prim_fixnum_xor x y = Inr (LONG_TO_FIXNUM (a XOR b))"
    unfolding Prim_fixnum_and_def Prim_fixnum_andc_def Prim_fixnum_or_def Prim_fixnum_xor_def
    by (rule bl, rule datum_bitops)+
  moreover have "Prim_fixnum_not x = Inr (LONG_TO_FIXNUM (NOT a))"
    using assms(1) datum_bitops(5) [of a] by (simp only: Prim_fixnum_not_def arg_unsigned_fixnum_def LOGICAL_RESULT_def
      OBJECT_DATUM_fixnum LONG_TO_FIXNUM_def a_def not_True_eq_False if_False bind_err_simps)
  ultimately show ?thesis
    using fits_fixnum_bitop [OF f] fits_fixnum_bitop [OF f(1) nb] by blast
qed

theorem fixnum_bitwise_witness:
  "Prim_fixnum_and (LONG_TO_FIXNUM (- 2)) (LONG_TO_FIXNUM 7) = Inr (LONG_TO_FIXNUM 6)"
  using fixnum_bitwise [of "LONG_TO_FIXNUM (- 2)" "LONG_TO_FIXNUM 7"] by (simp add: fits_fixnum_iff)

text \<open>\<open>FIXNUM-LSH\<close> multiplies by a power of two modulo \<open>2 ^ 58\<close> for a count
  that is not negative, and divides by a power of two, rounding down, for a negative count of
  magnitude at most 58. Beyond 58 places it returns zero, for negative operands too.\<close>

theorem fixnum_lsh:
  assumes "FIXNUM_P x" and "FIXNUM_P y"
  defines "a \<equiv> FIXNUM_TO_LONG x" and "n \<equiv> FIXNUM_TO_LONG y"
  shows "Prim_fixnum_lsh x y = Inr (LONG_TO_FIXNUM
     (if n \<ge> 0 then a * 2 ^ nat n else if n \<ge> - 58 then a div 2 ^ nat (- n) else 0))"
proof -
  have "fits_long a" using assms by (simp add: fits_fixnum_fits_long)
  then have "LOGICAL_RESULT (FIXNUM_LSH a n) = Inr (LONG_TO_FIXNUM
     (if n \<ge> 0 then a * 2 ^ nat n else if n \<ge> - 58 then a div 2 ^ nat (- n) else 0))"
    using LOGICAL_RESULT_word_of_int [of 0] LOGICAL_RESULT_word_of_int [of "a div 2 ^ nat (- n)"]
    by (simp add: FIXNUM_LSH_def LEFT_SHIFT_eq RIGHT_SHIFT_eq)
  then show ?thesis using assms(1,2) by (simp add: Prim_fixnum_lsh_def a_def n_def)
qed

theorem fixnum_lsh_witness:
  "Prim_fixnum_lsh (LONG_TO_FIXNUM (- 5)) (LONG_TO_FIXNUM (- 1)) = Inr (LONG_TO_FIXNUM (- 3))"
  using fixnum_lsh [of "LONG_TO_FIXNUM (- 5)" "LONG_TO_FIXNUM (- 1)"] by (simp add: fits_fixnum_iff)

text \<open>\<open>GCD-FIXNUM\<close> terminates and returns the greatest common divisor, with the
  fixnum conversion of \<open>2 ^ 57\<close>, which wraps, as the only result that is not exact.\<close>

theorem fixnum_gcd:
  assumes "FIXNUM_P x" and "FIXNUM_P y"
  defines "a \<equiv> FIXNUM_TO_LONG x" and "b \<equiv> FIXNUM_TO_LONG y"
  shows "Prim_gcd_fixnum x y = Inr (LONG_TO_FIXNUM (gcd a b)) \<and> (fits_fixnum (gcd a b) \<or> gcd a b = 2 ^ 57)"
proof -
  have "Prim_gcd_fixnum x y = Inr (LONG_TO_FIXNUM (gcd_loop \<bar>a\<bar> \<bar>b\<bar>))"
    using assms(1,2) by (simp add: Prim_gcd_fixnum_def Let_def a_def b_def abs_if)
  moreover have "gcd a b \<le> 2 ^ 57"
  proof (cases "a = 0")
    case True
    then show ?thesis using FIXNUM_TO_LONG_bounds [OF assms(2)] by (auto simp: b_def)
  next
    case False
    then have "gcd a b \<le> \<bar>a\<bar>" by (intro zdvd_imp_le) simp_all
    then show ?thesis using FIXNUM_TO_LONG_bounds [OF assms(1)] by (auto simp: a_def)
  qed
  moreover have "0 \<le> gcd a b" by simp
  ultimately show ?thesis by (simp add: gcd_loop_correct fits_fixnum_iff) (use \<open>0 \<le> gcd a b\<close> in linarith)
qed

theorem fixnum_gcd_witness:
  "Prim_gcd_fixnum (LONG_TO_FIXNUM (- 12)) (LONG_TO_FIXNUM 18) = Inr (LONG_TO_FIXNUM 6)"
  using fixnum_gcd [of "LONG_TO_FIXNUM (- 12)" "LONG_TO_FIXNUM 18"] by (simp add: fits_fixnum_iff gcd_code_int)

text \<open>\<open>FIXNUM-BIT-COUNT\<close> and \<open>FIXNUM-LENGTH\<close> return the number of bits that differ
  from the sign and the length of the shortest two's complement representation, sign excluded.\<close>

theorem fixnum_length_and_bit_count:
  assumes "FIXNUM_P x"
  defines "m \<equiv> (if FIXNUM_TO_LONG x < 0 then NOT (FIXNUM_TO_LONG x) else FIXNUM_TO_LONG x)"
  shows "Prim_fxbit_count x = Inr (LONG_TO_FIXNUM (int (card {i. bit m i})))
       \<and> (\<exists>k. Prim_fxlength x = Inr (LONG_TO_FIXNUM (int k)) \<and> k \<le> 57 \<and> m < 2 ^ k \<and> (k = 0 \<or> 2 ^ (k - 1) \<le> m))"
proof -
  have m: "0 \<le> m" "m < 2 ^ 57" and f: "FIXNUM_P x"
    using FIXNUM_TO_LONG_bounds [OF assms(1)] assms(1) by (auto simp: m_def not_int_def)
  define w :: ulong where "w = word_of_int m"
  have w: "uint w = m" using m unfolding w_def by (intro uint_word_of_int_ulong) simp_all
  have bits: "{i. bit w i} = {i. bit m i}" using m by (simp add: w_def word_of_int_bits)
  obtain k where k: "k \<le> 57" "m < 2 ^ k" "k = 0 \<or> 2 ^ (k - 1) \<le> m" using bit_length_exists [OF m] by blast
  then have len: "ulong_length_in_bits w = k" by (intro ulong_length_in_bits_eqI) (simp_all add: w)
  have "{i. bit w i} \<subseteq> {..<64}" using bit_word.rep_eq by (auto dest: bit_imp_le_length)
  then have "card {i. bit w i} \<le> 64" using card_mono [of "{..<64::nat}"] by fastforce
  then have "FIXNUM_RESULT (int (card {i. bit m i})) = Inr (LONG_TO_FIXNUM (int (card {i. bit m i})))"
    and "FIXNUM_RESULT (int k) = Inr (LONG_TO_FIXNUM (int k))"
    using k(1) by (auto simp: bits FIXNUM_RESULT_eq fits_long_def fits_fixnum_iff)
  then show ?thesis
    using f k len bits
    by (intro conjI exI [of _ k]) (simp_all add: Prim_fxbit_count_def Prim_fxlength_def ulong_bit_count_card flip: m_def w_def)
qed

theorem fixnum_length_and_bit_count_witness:
  "Prim_fxbit_count (LONG_TO_FIXNUM 6) = Inr (LONG_TO_FIXNUM (int (card {i. bit (6 :: int) i})))
   \<and> (\<exists>k. Prim_fxlength (LONG_TO_FIXNUM 6) = Inr (LONG_TO_FIXNUM (int k)) \<and> k \<le> 57 \<and> (6 :: int) < 2 ^ k)"
  using fixnum_length_and_bit_count [of "LONG_TO_FIXNUM 6"] by (auto simp: fits_fixnum_iff)

end
