(* ===== verification/Scheme_Integer.thy ===== *)
theory Scheme_Integer
  imports Bignum_Shift Fixnum
begin

text \<open>
  Integers of any size (\<open>src/src/microcode/artutl.c\<close>): an integer is a fixnum object or a
  bignum, and it is a bignum only when no fixnum denotes it. Every operation here takes and
  returns integers in this canonical form.
\<close>

subsection \<open>Objects\<close>

text \<open>An object is a word that holds its value, or a pointer to a bignum or to a pair, for which the
  model has the bignum or the fields of the pair. \<open>if_fixnum\<close> is the conditional \<open>(FIXNUM_P (n)) ? f : g\<close> on an object that
  the callers have checked to be an integer; reading any other object as a bignum would read
  arbitrary memory, here \<open>None\<close>.\<close>

datatype obj = Immediate scheme_object | Bignum bignum | Pair_Object obj obj

fun if_fixnum :: "obj \<Rightarrow> (scheme_object \<Rightarrow> 'a option) \<Rightarrow> (bignum \<Rightarrow> 'a option) \<Rightarrow> 'a option" where
  "if_fixnum (Immediate w) f g = (if FIXNUM_P w then f w else None)"
| "if_fixnum (Bignum b) f g = g b"
| "if_fixnum (Pair_Object a d) f g = None"

text \<open>The argument expression \<open>((FIXNUM_P (n)) ? (FIXNUM_TO_BIGNUM (n)) : n)\<close>.\<close>

definition to_bignum :: "obj \<Rightarrow> bignum option" where
  "to_bignum n = if_fixnum n FIXNUM_TO_BIGNUM Some"

definition INTEGER_P :: "obj \<Rightarrow> bool" where
  "INTEGER_P object = (case object of Immediate w \<Rightarrow> FIXNUM_P w | Bignum b \<Rightarrow> True | Pair_Object a d \<Rightarrow> False)"

definition BIGNUM_LESS_P :: "bignum \<Rightarrow> bignum \<Rightarrow> bool" where
  "BIGNUM_LESS_P x y \<longleftrightarrow> bignum_compare x y = bignum_comparison_less"

definition fixnum_object :: "long \<Rightarrow> obj option" where
  "fixnum_object n = Some (Immediate (LONG_TO_FIXNUM n))"

subsection \<open>Conversions between integers and machine words\<close>

definition integer_to_long_p :: "obj \<Rightarrow> bool option" where
  "integer_to_long_p n = if_fixnum n (\<lambda>w. Some True) BIGNUM_TO_LONG_P"

definition integer_to_long :: "obj \<Rightarrow> long option" where
  "integer_to_long n = if_fixnum n (\<lambda>w. Some (FIXNUM_TO_LONG w)) (\<lambda>b. Some (bignum_to_long b))"

definition integer_to_intmax_p :: "obj \<Rightarrow> bool option" where
  "integer_to_intmax_p n = if_fixnum n (\<lambda>w. Some True) BIGNUM_TO_LONG_P"

definition integer_to_intmax :: "obj \<Rightarrow> long option" where
  "integer_to_intmax n = if_fixnum n (\<lambda>w. Some (FIXNUM_TO_LONG w)) (\<lambda>b. Some (bignum_to_intmax b))"

definition long_to_integer :: "long \<Rightarrow> obj option" where
  "long_to_integer number =
    (if LONG_TO_FIXNUM_P number then Some (Immediate (LONG_TO_FIXNUM number))
     else map_option Bignum (long_to_bignum number))"

definition intmax_to_integer :: "long \<Rightarrow> obj option" where
  "intmax_to_integer number =
    (if - (2 ^ 63) \<le> number \<and> number \<le> 2 ^ 63 - 1 then long_to_integer number
     else map_option Bignum (intmax_to_bignum number))"

definition integer_to_ulong_p :: "obj \<Rightarrow> bool option" where
  "integer_to_ulong_p n = if_fixnum n (\<lambda>w. Some (\<not> FIXNUM_NEGATIVE_P w)) BIGNUM_TO_ULONG_P"

definition integer_to_ulong :: "obj \<Rightarrow> ulong option" where
  "integer_to_ulong n = if_fixnum n (\<lambda>w. Some (word_of_int (FIXNUM_TO_LONG w))) bignum_to_ulong"

definition integer_to_uintmax_p :: "obj \<Rightarrow> bool option" where
  "integer_to_uintmax_p n = if_fixnum n (\<lambda>w. Some (\<not> FIXNUM_NEGATIVE_P w)) BIGNUM_TO_ULONG_P"

definition integer_to_uintmax :: "obj \<Rightarrow> ulong option" where
  "integer_to_uintmax n = if_fixnum n (\<lambda>w. Some (word_of_int (FIXNUM_TO_LONG w))) bignum_to_uintmax"

definition ulong_to_integer :: "ulong \<Rightarrow> obj option" where
  "ulong_to_integer number =
    (let s_number = sint number
     in if s_number \<ge> 0
        then (if LONG_TO_FIXNUM_P s_number then Some (Immediate (LONG_TO_FIXNUM s_number))
              else map_option Bignum (long_to_bignum s_number))
        else map_option Bignum (ulong_to_bignum number))"

definition uintmax_to_integer :: "ulong \<Rightarrow> obj option" where
  "uintmax_to_integer number =
    (if uint number \<le> 2 ^ 64 - 1 then ulong_to_integer number
     else map_option Bignum (uintmax_to_bignum number))"

definition bignum_to_fixnum :: "bignum \<Rightarrow> scheme_object option" where
  "bignum_to_fixnum bignum = do {
     p \<leftarrow> BIGNUM_TO_FIXNUM_P bignum;
     Some (if p then BIGNUM_TO_FIXNUM bignum else SHARP_F) }"

definition bignum_to_integer :: "bignum \<Rightarrow> obj option" where
  "bignum_to_integer bignum = do {
     p \<leftarrow> BIGNUM_TO_FIXNUM_P bignum;
     Some (if p then Immediate (BIGNUM_TO_FIXNUM bignum) else Bignum bignum) }"

subsection \<open>Tests and arithmetic\<close>

definition integer_zero_p :: "obj \<Rightarrow> bool option" where
  "integer_zero_p n = if_fixnum n (\<lambda>w. Some (FIXNUM_ZERO_P w)) (\<lambda>b. Some (BIGNUM_ZERO_P b))"

definition integer_negative_p :: "obj \<Rightarrow> bool option" where
  "integer_negative_p n = if_fixnum n (\<lambda>w. Some (FIXNUM_NEGATIVE_P w)) (\<lambda>b. Some (bignum_test b = bignum_comparison_less))"

definition integer_positive_p :: "obj \<Rightarrow> bool option" where
  "integer_positive_p n = if_fixnum n (\<lambda>w. Some (FIXNUM_POSITIVE_P w)) (\<lambda>b. Some (bignum_test b = bignum_comparison_greater))"

definition integer_equal_p :: "obj \<Rightarrow> obj \<Rightarrow> bool option" where
  "integer_equal_p n m =
    if_fixnum n
      (\<lambda>i. if_fixnum m (\<lambda>j. Some (FIXNUM_EQUAL_P i j))
             (\<lambda>b. do { a \<leftarrow> FIXNUM_TO_BIGNUM i; Some (bignum_equal_p a b) }))
      (\<lambda>a. do { b \<leftarrow> to_bignum m; Some (bignum_equal_p a b) })"

definition integer_less_p :: "obj \<Rightarrow> obj \<Rightarrow> bool option" where
  "integer_less_p n m =
    if_fixnum n
      (\<lambda>i. if_fixnum m (\<lambda>j. Some (FIXNUM_LESS_P i j))
             (\<lambda>b. do { a \<leftarrow> FIXNUM_TO_BIGNUM i; Some (BIGNUM_LESS_P a b) }))
      (\<lambda>a. do { b \<leftarrow> to_bignum m; Some (BIGNUM_LESS_P a b) })"

definition integer_negate :: "obj \<Rightarrow> obj option" where
  "integer_negate n =
    if_fixnum n (\<lambda>w. long_to_integer (- FIXNUM_TO_LONG w))
      (\<lambda>b. Option.bind (bignum_negate b) bignum_to_integer)"

definition integer_add :: "obj \<Rightarrow> obj \<Rightarrow> obj option" where
  "integer_add n m =
    if_fixnum n
      (\<lambda>i. if_fixnum m (\<lambda>j. long_to_integer (FIXNUM_TO_LONG i + FIXNUM_TO_LONG j))
             (\<lambda>b. do { a \<leftarrow> FIXNUM_TO_BIGNUM i; r \<leftarrow> bignum_add a b; bignum_to_integer r }))
      (\<lambda>a. do { b \<leftarrow> to_bignum m; r \<leftarrow> bignum_add a b; bignum_to_integer r })"

definition integer_add_1 :: "obj \<Rightarrow> obj option" where
  "integer_add_1 n =
    if_fixnum n (\<lambda>w. long_to_integer (FIXNUM_TO_LONG w + 1))
      (\<lambda>b. do { one \<leftarrow> long_to_bignum 1; r \<leftarrow> bignum_add b one; bignum_to_integer r })"

definition integer_subtract :: "obj \<Rightarrow> obj \<Rightarrow> obj option" where
  "integer_subtract n m =
    if_fixnum n
      (\<lambda>i. if_fixnum m (\<lambda>j. long_to_integer (FIXNUM_TO_LONG i - FIXNUM_TO_LONG j))
             (\<lambda>b. do { a \<leftarrow> FIXNUM_TO_BIGNUM i; r \<leftarrow> bignum_subtract a b; bignum_to_integer r }))
      (\<lambda>a. do { b \<leftarrow> to_bignum m; r \<leftarrow> bignum_subtract a b; bignum_to_integer r })"

definition integer_subtract_1 :: "obj \<Rightarrow> obj option" where
  "integer_subtract_1 n =
    if_fixnum n (\<lambda>w. long_to_integer (FIXNUM_TO_LONG w - 1))
      (\<lambda>b. do { one \<leftarrow> long_to_bignum 1; r \<leftarrow> bignum_subtract b one; bignum_to_integer r })"

definition integer_multiply :: "obj \<Rightarrow> obj \<Rightarrow> obj option" where
  "integer_multiply n m =
    if_fixnum n
      (\<lambda>i. if_fixnum m
             (\<lambda>j. let result = Mul i j
                  in if result \<noteq> SHARP_F then Some (Immediate result)
                     else do { a \<leftarrow> FIXNUM_TO_BIGNUM i; b \<leftarrow> FIXNUM_TO_BIGNUM j;
                               r \<leftarrow> bignum_multiply a b; bignum_to_integer r })
             (\<lambda>b. do { a \<leftarrow> FIXNUM_TO_BIGNUM i; r \<leftarrow> bignum_multiply a b; bignum_to_integer r }))
      (\<lambda>a. do { b \<leftarrow> to_bignum m; r \<leftarrow> bignum_multiply a b; bignum_to_integer r })"

text \<open>\<open>integer_divide\<close> returns \<open>true\<close> for a zero divisor, here \<open>Some None\<close>, and otherwise stores
  quotient and remainder. The fixnum branch divides magnitudes and restores the signs.\<close>

definition integer_divide :: "obj \<Rightarrow> obj \<Rightarrow> (obj \<times> obj) option option" where
  "integer_divide n d =
    (let big = (\<lambda>n d. do {
       qr \<leftarrow> bignum_divide n d;
       case qr of None \<Rightarrow> Some None
       | Some (quotient', remainder') \<Rightarrow> do {
           q \<leftarrow> bignum_to_integer quotient';
           r \<leftarrow> bignum_to_integer remainder';
           Some (Some (q, r)) } })
     in if_fixnum n
       (\<lambda>i. if_fixnum d
         (\<lambda>j. let lx = FIXNUM_TO_LONG i; ly = FIXNUM_TO_LONG j
              in if ly = 0 then Some None
                 else let (quotient', remainder') =
                       (if lx < 0
                        then let lx = - lx
                             in if ly < 0
                                then let ly = - ly in (quot_int lx ly, - rem_int lx ly)
                                else (- quot_int lx ly, - rem_int lx ly)
                        else if ly < 0
                             then let ly = - ly in (- quot_int lx ly, rem_int lx ly)
                             else (quot_int lx ly, rem_int lx ly))
                      in do { q \<leftarrow> long_to_integer quotient';
                              Some (Some (q, Immediate (LONG_TO_FIXNUM remainder'))) })
         (\<lambda>d. do { n \<leftarrow> FIXNUM_TO_BIGNUM i; big n d }))
       (\<lambda>n. do { d \<leftarrow> to_bignum d; big n d }))"

definition integer_quotient :: "obj \<Rightarrow> obj \<Rightarrow> obj option" where
  "integer_quotient n d =
    (let big = (\<lambda>n d. do {
       result \<leftarrow> bignum_quotient n d;
       case result of None \<Rightarrow> Some (Immediate SHARP_F) | Some q \<Rightarrow> bignum_to_integer q })
     in if_fixnum n
       (\<lambda>i. if_fixnum d
         (\<lambda>j. let lx = FIXNUM_TO_LONG i; ly = FIXNUM_TO_LONG j
              in if ly = 0 then Some (Immediate SHARP_F)
                 else long_to_integer
                   (if lx < 0
                    then (if ly < 0 then quot_int (- lx) (- ly) else - quot_int (- lx) ly)
                    else (if ly < 0 then - quot_int lx (- ly) else quot_int lx ly)))
         (\<lambda>d. do { n \<leftarrow> FIXNUM_TO_BIGNUM i; big n d }))
       (\<lambda>n. do { d \<leftarrow> to_bignum d; big n d }))"

definition integer_remainder :: "obj \<Rightarrow> obj \<Rightarrow> obj option" where
  "integer_remainder n d =
    (let big = (\<lambda>n d. do {
       result \<leftarrow> bignum_remainder n d;
       case result of None \<Rightarrow> Some (Immediate SHARP_F) | Some r \<Rightarrow> bignum_to_integer r })
     in if_fixnum n
       (\<lambda>i. if_fixnum d
         (\<lambda>j. let lx = FIXNUM_TO_LONG i; ly = FIXNUM_TO_LONG j
              in if ly = 0 then Some (Immediate SHARP_F)
                 else long_to_integer
                   (if lx < 0 then - rem_int (- lx) (if ly < 0 then - ly else ly)
                    else rem_int lx (if ly < 0 then - ly else ly)))
         (\<lambda>d. do { n \<leftarrow> FIXNUM_TO_BIGNUM i; big n d }))
       (\<lambda>n. do { d \<leftarrow> to_bignum d; big n d }))"

subsection \<open>The canonical form\<close>

definition int_val :: "obj \<Rightarrow> int" where
  "int_val n = (case n of Immediate w \<Rightarrow> FIXNUM_TO_LONG w | Bignum b \<Rightarrow> bignum_val b | Pair_Object a d \<Rightarrow> 0)"

definition int_wf :: "obj \<Rightarrow> bool" where
  "int_wf n = (case n of Immediate w \<Rightarrow> FIXNUM_P w | Bignum b \<Rightarrow> bignum_wf b \<and> \<not> fits_fixnum (bignum_val b)
    | Pair_Object a d \<Rightarrow> False)"

text \<open>What a run of an integer operation promises: it returns an integer in canonical form that
  denotes the given number.\<close>

definition returns_int :: "obj option \<Rightarrow> int \<Rightarrow> bool" where
  "returns_int r v \<longleftrightarrow> (\<exists>n. r = Some n \<and> int_wf n \<and> int_val n = v)"

text \<open>Operands have at most \<open>2 ^ 30\<close> digits. Then results have fewer than \<open>2 ^ 32\<close> digits, which
  is what \<open>bignum_fits_in_word_p\<close> needs, since it keeps a length in an \<open>unsigned int\<close>.\<close>

definition operand_bits :: nat where "operand_bits = 62 * 2 ^ 30"
definition result_bits :: nat where "result_bits = 62 * (2 ^ 32 - 1)"

definition integer_operand :: "obj \<Rightarrow> bool" where
  "integer_operand n \<longleftrightarrow> int_wf n \<and> \<bar>int_val n\<bar> < 2 ^ operand_bits"

lemma int_val_simps [simp]: "int_val (Immediate w) = FIXNUM_TO_LONG w" "int_val (Bignum b) = bignum_val b"
  by (simp_all add: int_val_def)

lemma int_wf_simps [simp]: "int_wf (Immediate w) = FIXNUM_P w"
  "int_wf (Bignum b) \<longleftrightarrow> bignum_wf b \<and> \<not> fits_fixnum (bignum_val b)" "\<not> int_wf (Pair_Object x y)"
  by (simp_all add: int_wf_def)

lemma INTEGER_P_int_wf: "int_wf n \<Longrightarrow> INTEGER_P n"
  by (cases n) (simp_all add: INTEGER_P_def)

lemma if_fixnum_cases:
  assumes "int_wf n"
  obtains w where "n = Immediate w" "FIXNUM_P w" "int_val n = FIXNUM_TO_LONG w" "fits_fixnum (int_val n)"
  | b where "n = Bignum b" "bignum_wf b" "int_val n = bignum_val b" "\<not> fits_fixnum (int_val n)"
  using assms by (cases n) auto

lemma length_le_iff:
  assumes "bignum_wf b" "\<bar>bignum_val b\<bar> < 2 ^ (62 * k)"
  shows "BIGNUM_LENGTH b \<le> k"
proof (cases "BIGNUM_LENGTH b")
  case (Suc l)
  then have "BIGNUM_RADIX ^ l < BIGNUM_RADIX ^ k"
    using bignum_mag_ge [OF assms(1), of l] assms(2) bignum_abs_val [OF assms(1)] unfolding RADIX_power by linarith
  then have "l < k" by (simp only: power_strict_increasing_iff [OF RADIX_pos(2)])
  with Suc show ?thesis by simp
qed simp

lemma result_length:
  assumes "bignum_wf b" "\<bar>bignum_val b\<bar> < 2 ^ result_bits"
  shows "BIGNUM_LENGTH b < 2 ^ 32"
  using length_le_iff [OF assms(1) assms(2) [unfolded result_bits_def]] by simp

lemma operand_length:
  assumes "bignum_wf b" "\<bar>bignum_val b\<bar> < 2 ^ operand_bits"
  shows "BIGNUM_LENGTH b \<le> 2 ^ 30"
  by (rule length_le_iff [OF assms(1) assms(2) [unfolded operand_bits_def]])

lemma operand_result_bits: "2 * operand_bits \<le> result_bits" "1 < operand_bits" "58 \<le> operand_bits"
  by (simp_all add: operand_bits_def result_bits_def)

lemma less_result_bits:
  assumes "k \<le> 2 * operand_bits" "\<bar>v\<bar> < (2 :: int) ^ k"
  shows "\<bar>v\<bar> < 2 ^ result_bits"
proof -
  have "(2 :: int) ^ k \<le> 2 ^ result_bits" using assms(1) operand_result_bits(1) by (intro power_increasing) linarith+
  with assms(2) show ?thesis by linarith
qed

lemma fits_fixnum_operand: "fits_fixnum v \<Longrightarrow> \<bar>v\<bar> < 2 ^ operand_bits"
proof -
  assume "fits_fixnum v"
  then have "\<bar>v\<bar> < 2 ^ 58" by (auto simp: fits_fixnum_iff)
  moreover have "(2 :: int) ^ 58 \<le> 2 ^ operand_bits" using operand_result_bits(3) by (intro power_increasing) linarith+
  ultimately show ?thesis by linarith
qed

lemma returns_int_bignum: "returns_bignum r v \<Longrightarrow> \<not> fits_fixnum v \<Longrightarrow> returns_int (map_option Bignum r) v"
  by (auto simp: returns_bignum_def returns_int_def)

lemma returns_int_fixnum: "fits_fixnum v \<Longrightarrow> returns_int (Some (Immediate (LONG_TO_FIXNUM v))) v"
  by (simp add: returns_int_def)

lemma returns_to_integer [wf_intros]:
  assumes "returns_bignum r v" "\<bar>v\<bar> < 2 ^ result_bits"
  shows "returns_int (Option.bind r bignum_to_integer) v"
proof -
  obtain b where b: "r = Some b" "bignum_wf b" "bignum_val b = v" using assms(1) by (auto simp: returns_bignum_def)
  have p: "BIGNUM_TO_FIXNUM_P b = Some (fits_fixnum v)"
    using BIGNUM_TO_FIXNUM_P_eq [OF b(2) result_length [OF b(2)]] assms(2) b(3) by simp
  show ?thesis
  proof (cases "fits_fixnum v")
    case True
    then have "bignum_to_long b = v" using bignum_to_long_exact [OF b(2)] b(3) fits_fixnum_fits_long by simp
    then show ?thesis using True p b(1) by (simp add: bignum_to_integer_def BIGNUM_TO_FIXNUM_def returns_int_def)
  qed (use p b in \<open>simp add: bignum_to_integer_def returns_int_def\<close>)
qed

lemma returns_long_to_integer [wf_intros]:
  "fits_long v \<Longrightarrow> returns_int (long_to_integer v) v"
  using returns_int_bignum [OF returns_long_to_bignum] returns_int_fixnum [of v]
  by (simp add: long_to_integer_def LONG_TO_FIXNUM_P_eq)

lemma sint_ulong: "sint u = (if uint u < 2 ^ 63 then uint u else uint u - 2 ^ 64)" for u :: ulong
proof -
  have b: "bit (uint u) 63 \<longleftrightarrow> 2 ^ 63 \<le> uint u"
  proof -
    have "uint u div 2 ^ 63 = (if uint u < 2 ^ 63 then 0 else 1)"
      using uint_lt2p [of u] by (auto intro: int_div_pos_eq)
    then show ?thesis by (simp add: bit_iff_odd)
  qed
  have "sint u = uint u - 2 ^ 64 * of_bool (bit (uint u) 63)"
    using uint_lt2p [of u] by (simp add: sint_uint signed_take_bit_eq_take_bit_minus take_bit_int_eq_self)
  then show ?thesis unfolding b by auto
qed

lemma returns_ulong_to_integer [wf_intros]: "returns_int (ulong_to_integer u) (uint u)"
proof (cases "sint u \<ge> 0")
  case True
  then have "uint u = sint u" using uint_lt2p [of u] by (simp add: sint_ulong split: if_splits)
  then show ?thesis using True returns_long_to_integer [of "sint u"] by (simp add: ulong_to_integer_def long_to_integer_def Let_def)
next
  case False
  then have "2 ^ 63 \<le> uint u" by (simp add: sint_ulong split: if_splits)
  then have "\<not> fits_fixnum (uint u)" by (simp add: fits_fixnum_iff)
  then show ?thesis using False returns_int_bignum [OF returns_ulong_to_bignum] by (simp add: ulong_to_integer_def)
qed

lemma to_bignum_operand:
  assumes "integer_operand n"
  obtains b where "to_bignum n = Some b" "bignum_wf b" "bignum_val b = int_val n" "BIGNUM_LENGTH b \<le> 2 ^ 30"
proof -
  have "int_wf n" using assms by (simp add: integer_operand_def)
  then have "returns_bignum (to_bignum n) (int_val n)"
  proof (cases rule: if_fixnum_cases)
    case (1 w)
    then show ?thesis using returns_long_to_bignum [of "int_val n"] by (simp add: to_bignum_def FIXNUM_TO_BIGNUM_def fits_fixnum_fits_long)
  next
    case (2 b)
    then show ?thesis by (simp add: to_bignum_def returns_self)
  qed
  then obtain b where b: "to_bignum n = Some b" "bignum_wf b" "bignum_val b = int_val n" by (auto simp: returns_bignum_def)
  moreover have "BIGNUM_LENGTH b \<le> 2 ^ 30" using operand_length [OF b(2)] b(3) assms by (simp add: integer_operand_def)
  ultimately show thesis using that by blast
qed

text \<open>The canonical form is unique: equal integers are the same object, up to the identity of the
  bignum in memory.\<close>

lemma int_val_inject:
  assumes "int_wf n" "int_wf m" "int_val n = int_val m"
  shows "n = m"
  using assms(1)
proof (cases rule: if_fixnum_cases)
  case n: (1 w)
  with assms(3) show ?thesis by (cases m) (use assms(2) in \<open>auto simp: FIXNUM_TO_LONG_inject\<close>)
next
  case n: (2 b)
  with assms(3) show ?thesis by (cases m) (use assms(2) bignum_val_inject in auto)
qed

subsection \<open>Dispatch on the representation of the operands\<close>

text \<open>The shape that the two-operand operations share: two fixnums are combined directly, and
  otherwise both operands are made bignums and the result is brought into canonical form.\<close>

definition dispatch ::
  "(scheme_object \<Rightarrow> scheme_object \<Rightarrow> 'a option) \<Rightarrow> (bignum \<Rightarrow> bignum \<Rightarrow> 'a option) \<Rightarrow> obj \<Rightarrow> obj \<Rightarrow> 'a option" where
  "dispatch fx big n m =
    if_fixnum n
      (\<lambda>i. if_fixnum m (fx i) (\<lambda>b. do { a \<leftarrow> FIXNUM_TO_BIGNUM i; big a b }))
      (\<lambda>a. do { b \<leftarrow> to_bignum m; big a b })"

lemma dispatch_cases [consumes 2, case_names fixnums bignums]:
  assumes "integer_operand n" "integer_operand m"
  obtains i j where "n = Immediate i" "m = Immediate j" "FIXNUM_P i" "FIXNUM_P j"
  | a b where "to_bignum n = Some a" "to_bignum m = Some b" "bignum_wf a" "bignum_wf b"
    "bignum_val a = int_val n" "bignum_val b = int_val m" "BIGNUM_LENGTH a \<le> 2 ^ 30" "BIGNUM_LENGTH b \<le> 2 ^ 30"
    "\<not> (fits_fixnum (int_val n) \<and> fits_fixnum (int_val m))"
proof (cases "fits_fixnum (int_val n) \<and> fits_fixnum (int_val m)")
  case True
  have "int_wf n" "int_wf m" using assms by (simp_all add: integer_operand_def)
  with True obtain i j where "n = Immediate i" "m = Immediate j" "FIXNUM_P i" "FIXNUM_P j" by (cases n; cases m) auto
  then show thesis using that(1) by blast
next
  case False
  then show thesis using to_bignum_operand [OF assms(1)] to_bignum_operand [OF assms(2)] that(2) by metis
qed

lemma dispatch_fixnums: "FIXNUM_P i \<Longrightarrow> FIXNUM_P j \<Longrightarrow> dispatch fx big (Immediate i) (Immediate j) = fx i j"
  by (simp add: dispatch_def)

lemma dispatch_bignums:
  assumes "to_bignum n = Some a" "to_bignum m = Some b" "int_wf n" "int_wf m"
    "\<not> (fits_fixnum (int_val n) \<and> fits_fixnum (int_val m))"
  shows "dispatch fx big n m = big a b"
  using assms by (cases n; cases m) (auto simp: dispatch_def to_bignum_def)

text \<open>The contract between a two-operand operation and the fixnum and bignum code it calls.\<close>

locale integer_operation =
  fixes g :: "int \<Rightarrow> int \<Rightarrow> int"
    and fix_op :: "scheme_object \<Rightarrow> scheme_object \<Rightarrow> obj option"
    and big_op :: "bignum \<Rightarrow> bignum \<Rightarrow> bignum option"
  assumes small: "FIXNUM_P i \<Longrightarrow> FIXNUM_P j \<Longrightarrow> returns_int (fix_op i j) (g (FIXNUM_TO_LONG i) (FIXNUM_TO_LONG j))"
    and big: "bignum_wf a \<Longrightarrow> bignum_wf b \<Longrightarrow> BIGNUM_LENGTH a \<le> 2 ^ 30 \<Longrightarrow> BIGNUM_LENGTH b \<le> 2 ^ 30
      \<Longrightarrow> returns_bignum (big_op a b) (g (bignum_val a) (bignum_val b))"
    and bounded: "\<bar>x\<bar> < 2 ^ operand_bits \<Longrightarrow> \<bar>y\<bar> < 2 ^ operand_bits \<Longrightarrow> \<bar>g x y\<bar> < 2 ^ result_bits"
begin

lemma correct:
  assumes "integer_operand n" "integer_operand m"
  shows "returns_int (dispatch fix_op (\<lambda>a b. Option.bind (big_op a b) bignum_to_integer) n m) (g (int_val n) (int_val m))"
  using assms
proof (cases rule: dispatch_cases)
  case (fixnums i j)
  then show ?thesis using small by (simp add: dispatch_fixnums)
next
  case (bignums a b)
  have "returns_int (Option.bind (big_op a b) bignum_to_integer) (g (bignum_val a) (bignum_val b))"
    using assms bignums bounded by (intro returns_to_integer big) (simp_all add: integer_operand_def)
  moreover have "int_wf n" "int_wf m" using assms by (simp_all add: integer_operand_def)
  ultimately show ?thesis using bignums by (simp add: dispatch_bignums)
qed

end

lemma FIXNUM_longs:
  assumes "FIXNUM_P i" "FIXNUM_P j"
  shows "fits_long (FIXNUM_TO_LONG i + FIXNUM_TO_LONG j)" "fits_long (FIXNUM_TO_LONG i - FIXNUM_TO_LONG j)"
  using FIXNUM_TO_LONG_bounds [OF assms(1)] FIXNUM_TO_LONG_bounds [OF assms(2)] by (simp_all add: fits_long_def)

lemma sum_bits: 
  fixes x y :: int
  assumes "\<bar>x\<bar> < 2 ^ operand_bits" "\<bar>y\<bar> < 2 ^ operand_bits"
  shows "\<bar>x + y\<bar> < 2 ^ result_bits" "\<bar>x - y\<bar> < 2 ^ result_bits" "\<bar>x * y\<bar> < 2 ^ result_bits"
proof -
  have b: "operand_bits + 1 \<le> 2 * operand_bits" using operand_result_bits(2) by simp
  have "(2 :: int) ^ (operand_bits + 1) = 2 ^ operand_bits + 2 ^ operand_bits" by simp
  then show "\<bar>x + y\<bar> < 2 ^ result_bits" "\<bar>x - y\<bar> < 2 ^ result_bits"
    using assms by (intro less_result_bits [OF b]; linarith)+
  have "\<bar>x\<bar> * \<bar>y\<bar> < 2 ^ operand_bits * 2 ^ operand_bits" using assms by (intro mult_strict_mono') simp_all
  then show "\<bar>x * y\<bar> < 2 ^ result_bits"
    by (intro less_result_bits [of "2 * operand_bits"]) (simp_all add: abs_mult mult_2 power_add)
qed

lemma LENGTH_MAX_operands: "n \<le> 2 ^ 30 \<Longrightarrow> m \<le> 2 ^ 30 \<Longrightarrow> n + m < BIGNUM_LENGTH_MAX"
  by (simp add: BIGNUM_LENGTH_MAX_def BIGNUM_RADIX_eq BIGNUM_DIGIT_LENGTH_def)

interpretation add_op: integer_operation "(+)" "\<lambda>i j. long_to_integer (FIXNUM_TO_LONG i + FIXNUM_TO_LONG j)" bignum_add
  by unfold_locales (use LENGTH_MAX_operands in \<open>fastforce simp: returns_long_to_integer FIXNUM_longs sum_bits intro!: returns_add\<close>)+

interpretation subtract_op: integer_operation "(-)" "\<lambda>i j. long_to_integer (FIXNUM_TO_LONG i - FIXNUM_TO_LONG j)" bignum_subtract
  by unfold_locales (use LENGTH_MAX_operands in \<open>fastforce simp: returns_long_to_integer FIXNUM_longs sum_bits intro!: returns_subtract\<close>)+

definition multiply_fixnums :: "scheme_object \<Rightarrow> scheme_object \<Rightarrow> obj option" where
  "multiply_fixnums i j =
    (if Mul i j \<noteq> SHARP_F then Some (Immediate (Mul i j))
     else do { a \<leftarrow> FIXNUM_TO_BIGNUM i; b \<leftarrow> FIXNUM_TO_BIGNUM j; r \<leftarrow> bignum_multiply a b; bignum_to_integer r })"

lemma returns_multiply_fixnums:
  assumes "FIXNUM_P i" "FIXNUM_P j"
  shows "returns_int (multiply_fixnums i j) (FIXNUM_TO_LONG i * FIXNUM_TO_LONG j)"
proof (cases "\<bar>FIXNUM_TO_LONG i * FIXNUM_TO_LONG j\<bar> < 2 ^ 57")
  case True
  then have "Mul i j = LONG_TO_FIXNUM (FIXNUM_TO_LONG i * FIXNUM_TO_LONG j)" using Mul_correct [OF assms] by simp
  moreover have "fits_fixnum (FIXNUM_TO_LONG i * FIXNUM_TO_LONG j)" using True by (auto simp: fits_fixnum_iff)
  moreover have "LONG_TO_FIXNUM k \<noteq> SHARP_F" for k
    by (metis FIXNUM_P_LONG_TO_FIXNUM SHARP_F_eq not_FIXNUM_P_SHARP_F)
  ultimately show ?thesis using returns_int_fixnum by (simp add: multiply_fixnums_def)
next
  case False
  have op: "integer_operand (Immediate i)" "integer_operand (Immediate j)"
    using assms fits_fixnum_operand by (simp_all add: integer_operand_def)
  obtain a where a: "to_bignum (Immediate i) = Some a" "bignum_wf a" "bignum_val a = FIXNUM_TO_LONG i" "BIGNUM_LENGTH a \<le> 2 ^ 30"
    using to_bignum_operand [OF op(1)] by auto
  obtain b where b: "to_bignum (Immediate j) = Some b" "bignum_wf b" "bignum_val b = FIXNUM_TO_LONG j" "BIGNUM_LENGTH b \<le> 2 ^ 30"
    using to_bignum_operand [OF op(2)] by auto
  have "returns_int (Option.bind (bignum_multiply a b) bignum_to_integer) (FIXNUM_TO_LONG i * FIXNUM_TO_LONG j)"
    using returns_to_integer [OF returns_multiply [OF a(2) b(2)]] LENGTH_MAX_operands [OF a(4) b(4)]
      op sum_bits(3) a(3) b(3) by (simp add: integer_operand_def)
  moreover have "Mul i j = SHARP_F" using Mul_correct [OF assms] False by simp
  ultimately show ?thesis using a(1) b(1) assms by (simp add: multiply_fixnums_def to_bignum_def)
qed

interpretation multiply_op: integer_operation "(*)" multiply_fixnums bignum_multiply
  by unfold_locales (use LENGTH_MAX_operands in \<open>fastforce simp: returns_multiply_fixnums sum_bits intro!: returns_multiply\<close>)+

lemmas integer_arithmetic_defs = integer_add_def integer_subtract_def integer_multiply_def dispatch_def multiply_fixnums_def [abs_def] Let_def

lemma returns_integer_add [val_simps]:
  "integer_operand n \<Longrightarrow> integer_operand m \<Longrightarrow> returns_int (integer_add n m) (int_val n + int_val m)"
  using add_op.correct [of n m] by (simp add: integer_arithmetic_defs)

lemma returns_integer_subtract [val_simps]:
  "integer_operand n \<Longrightarrow> integer_operand m \<Longrightarrow> returns_int (integer_subtract n m) (int_val n - int_val m)"
  using subtract_op.correct [of n m] by (simp add: integer_arithmetic_defs)

lemma returns_integer_multiply [val_simps]:
  "integer_operand n \<Longrightarrow> integer_operand m \<Longrightarrow> returns_int (integer_multiply n m) (int_val n * int_val m)"
  using multiply_op.correct [of n m] by (simp add: integer_arithmetic_defs)

lemma integer_operand_wf: "integer_operand n \<Longrightarrow> int_wf n"
  by (simp add: integer_operand_def)

lemma integer_tests_eq:
  assumes "int_wf n"
  shows "integer_zero_p n = Some (int_val n = 0)" "integer_negative_p n = Some (int_val n < 0)"
    "integer_positive_p n = Some (0 < int_val n)"
  using assms
  by (cases n; simp add: integer_zero_p_def integer_negative_p_def integer_positive_p_def FIXNUM_ZERO_P_iff
      FIXNUM_NEGATIVE_P_iff FIXNUM_POSITIVE_P_iff bignum_ZERO_P_iff bignum_test_eq int_comparison_def)+

lemma integer_comparisons_eq:
  assumes "integer_operand n" "integer_operand m"
  shows "integer_equal_p n m = Some (int_val n = int_val m)" "integer_less_p n m = Some (int_val n < int_val m)"
proof -
  have e: "integer_equal_p n m = dispatch (\<lambda>i j. Some (FIXNUM_EQUAL_P i j)) (\<lambda>a b. Some (bignum_equal_p a b)) n m"
    and l: "integer_less_p n m = dispatch (\<lambda>i j. Some (FIXNUM_LESS_P i j)) (\<lambda>a b. Some (BIGNUM_LESS_P a b)) n m"
    by (simp_all add: integer_equal_p_def integer_less_p_def dispatch_def)
  have "integer_equal_p n m = Some (int_val n = int_val m) \<and> integer_less_p n m = Some (int_val n < int_val m)"
    using assms
  proof (cases rule: dispatch_cases)
    case (fixnums i j)
    then show ?thesis unfolding e l by (simp add: dispatch_fixnums FIXNUM_EQUAL_P_iff FIXNUM_LESS_P_def)
  next
    case (bignums a b)
    then show ?thesis using assms unfolding e l
      by (simp add: dispatch_bignums integer_operand_wf bignum_equal_p_iff BIGNUM_LESS_P_def bignum_compare_eq int_comparison_def)
  qed
  then show "integer_equal_p n m = Some (int_val n = int_val m)" "integer_less_p n m = Some (int_val n < int_val m)" by simp_all
qed

lemma returns_integer_negate [val_simps]:
  assumes "integer_operand n"
  shows "returns_int (integer_negate n) (- int_val n)"
  using integer_operand_wf [OF assms]
proof (cases rule: if_fixnum_cases)
  case (1 w)
  then show ?thesis using returns_long_to_integer [of "- int_val n"]
    by (simp add: integer_negate_def fits_long_def fits_fixnum_iff)
next
  case (2 b)
  then show ?thesis using returns_to_integer [OF returns_negate, of b] assms less_result_bits [of operand_bits "- int_val n"]
    by (simp add: integer_negate_def integer_operand_def)
qed

lemma one_operand: "integer_operand (Immediate (LONG_TO_FIXNUM 1))"
  using fits_fixnum_operand [of 1] by (simp add: integer_operand_def fits_fixnum_iff)

lemma returns_integer_add_1 [val_simps]:
  assumes "integer_operand n"
  shows "returns_int (integer_add_1 n) (int_val n + 1)" "returns_int (integer_subtract_1 n) (int_val n - 1)"
proof -
  have f: "FIXNUM_TO_LONG (LONG_TO_FIXNUM 1) = 1" by (simp add: fits_fixnum_iff)
  have "integer_add_1 n = integer_add n (Immediate (LONG_TO_FIXNUM 1))"
    "integer_subtract_1 n = integer_subtract n (Immediate (LONG_TO_FIXNUM 1))"
    by (cases n; simp add: integer_add_1_def integer_add_def integer_subtract_1_def integer_subtract_def to_bignum_def FIXNUM_TO_BIGNUM_def f)+
  then show "returns_int (integer_add_1 n) (int_val n + 1)" "returns_int (integer_subtract_1 n) (int_val n - 1)"
    using returns_integer_add [OF assms one_operand] returns_integer_subtract [OF assms one_operand] f by simp_all
qed


subsection \<open>Division\<close>

lemma quot_rem_bits:
  fixes x y :: int
  assumes "\<bar>x\<bar> < 2 ^ operand_bits" "\<bar>y\<bar> < 2 ^ operand_bits" "y \<noteq> 0"
  shows "\<bar>quot_int x y\<bar> < 2 ^ result_bits" "\<bar>rem_int x y\<bar> < 2 ^ result_bits"
proof -
  have "\<bar>quot_int x y\<bar> < 2 ^ operand_bits" "\<bar>rem_int x y\<bar> < 2 ^ operand_bits"
    using abs_quot_int_le [of x y] rem_int_bound [OF assms(3), of x] assms(1,2) by linarith+
  then show "\<bar>quot_int x y\<bar> < 2 ^ result_bits" "\<bar>rem_int x y\<bar> < 2 ^ result_bits"
    using less_result_bits [of operand_bits] by simp_all
qed

text \<open>The case analysis on signs in the fixnum branches computes the truncated quotient and its
  remainder.\<close>

lemma signed_division:
  assumes "ly \<noteq> 0"
  shows "(if lx < 0 then (if ly < 0 then quot_int (- lx) (- ly) else - quot_int (- lx) ly)
          else (if ly < 0 then - quot_int lx (- ly) else quot_int lx ly)) = quot_int lx ly"
    and "(if lx < 0 then - rem_int (- lx) (if ly < 0 then - ly else ly)
          else rem_int lx (if ly < 0 then - ly else ly)) = rem_int lx ly"
  using assms by (auto simp: quot_int_def rem_int_def sgn_if)

lemma LENGTH_MAX_operand: "n \<le> 2 ^ 30 \<Longrightarrow> n < BIGNUM_LENGTH_MAX"
  using LENGTH_MAX_operands [of n 0] by simp

text \<open>What quotient and remainder share: a zero divisor gives \<open>SHARP_F\<close>, and the bignum code
  reports it in the same way.\<close>

locale integer_division =
  fixes h :: "int \<Rightarrow> int \<Rightarrow> int"
    and big_op :: "bignum \<Rightarrow> bignum \<Rightarrow> bignum option option"
    and int_op :: "obj \<Rightarrow> obj \<Rightarrow> obj option"
  assumes int_op: "int_op n d = dispatch
      (\<lambda>i j. if FIXNUM_TO_LONG j = 0 then Some (Immediate SHARP_F) else long_to_integer (h (FIXNUM_TO_LONG i) (FIXNUM_TO_LONG j)))
      (\<lambda>a b. Option.bind (big_op a b) (case_option (Some (Immediate SHARP_F)) bignum_to_integer)) n d"
    and big: "bignum_wf a \<Longrightarrow> bignum_wf b \<Longrightarrow> BIGNUM_LENGTH a < BIGNUM_LENGTH_MAX \<Longrightarrow>
      if bignum_val b = 0 then big_op a b = Some None else returns_oob (big_op a b) (h (bignum_val a) (bignum_val b))"
    and small: "fits_fixnum x \<Longrightarrow> fits_fixnum y \<Longrightarrow> y \<noteq> 0 \<Longrightarrow> fits_long (h x y)"
    and bounded: "\<bar>x\<bar> < 2 ^ operand_bits \<Longrightarrow> \<bar>y\<bar> < 2 ^ operand_bits \<Longrightarrow> y \<noteq> 0 \<Longrightarrow> \<bar>h x y\<bar> < 2 ^ result_bits"
begin

lemma correct:
  assumes "integer_operand n" "integer_operand d"
  shows "if int_val d = 0 then int_op n d = Some (Immediate SHARP_F)
    else returns_int (int_op n d) (h (int_val n) (int_val d))"
  using assms
proof (cases rule: dispatch_cases)
  case (fixnums i j)
  then show ?thesis using returns_long_to_integer [OF small] by (simp add: int_op dispatch_fixnums)
next
  case (bignums a b)
  then have e: "int_op n d = Option.bind (big_op a b) (case_option (Some (Immediate SHARP_F)) bignum_to_integer)"
    using assms by (simp add: int_op dispatch_bignums integer_operand_wf)
  note q = big [OF bignums(3,4) LENGTH_MAX_operand [OF bignums(7)], unfolded bignums(5,6)]
  show ?thesis
  proof (cases "int_val d = 0")
    case False
    then obtain r where r: "big_op a b = Some (Some r)" "bignum_wf r" "bignum_val r = h (int_val n) (int_val d)"
      using q by (auto simp: returns_oob_def)
    then show ?thesis using False e assms bounded returns_to_integer [OF returns_self [OF r(2)]]
      by (simp add: integer_operand_def)
  qed (use e q in simp)
qed

end

interpretation quotient_op: integer_division quot_int bignum_quotient integer_quotient
proof
  show "integer_quotient n d = dispatch
      (\<lambda>i j. if FIXNUM_TO_LONG j = 0 then Some (Immediate SHARP_F) else long_to_integer (quot_int (FIXNUM_TO_LONG i) (FIXNUM_TO_LONG j)))
      (\<lambda>a b. Option.bind (bignum_quotient a b) (case_option (Some (Immediate SHARP_F)) bignum_to_integer)) n d" for n d
    by (cases n; cases d) (simp_all add: integer_quotient_def dispatch_def Let_def signed_division)
qed (simp_all add: returns_quotient fits_long_fixnum_op quot_rem_bits)

interpretation remainder_op: integer_division rem_int bignum_remainder integer_remainder
proof
  show "integer_remainder n d = dispatch
      (\<lambda>i j. if FIXNUM_TO_LONG j = 0 then Some (Immediate SHARP_F) else long_to_integer (rem_int (FIXNUM_TO_LONG i) (FIXNUM_TO_LONG j)))
      (\<lambda>a b. Option.bind (bignum_remainder a b) (case_option (Some (Immediate SHARP_F)) bignum_to_integer)) n d" for n d
    by (cases n; cases d) (simp_all add: integer_remainder_def dispatch_def Let_def signed_division)
qed (simp_all add: returns_remainder fits_fixnum_fits_long fits_fixnum_rem quot_rem_bits)

lemma divide_fixnums:
  assumes "FIXNUM_P i" "FIXNUM_P j" "FIXNUM_TO_LONG j \<noteq> 0"
  shows "integer_divide (Immediate i) (Immediate j) = do {
     q \<leftarrow> long_to_integer (quot_int (FIXNUM_TO_LONG i) (FIXNUM_TO_LONG j));
     Some (Some (q, Immediate (LONG_TO_FIXNUM (rem_int (FIXNUM_TO_LONG i) (FIXNUM_TO_LONG j))))) }"
  using assms by (auto simp: integer_divide_def Let_def quot_int_def rem_int_def sgn_if)

lemma divide_bignums:
  assumes "to_bignum n = Some a" "to_bignum d = Some b" "int_wf n" "int_wf d"
    "\<not> (fits_fixnum (int_val n) \<and> fits_fixnum (int_val d))" "bignum_divide a b = Some qr"
  shows "integer_divide n d = (case qr of None \<Rightarrow> Some None
    | Some (q, r) \<Rightarrow> do { q \<leftarrow> bignum_to_integer q; r \<leftarrow> bignum_to_integer r; Some (Some (q, r)) })"
  using assms by (cases n; cases d) (auto simp: integer_divide_def to_bignum_def Let_def)

lemma returns_integer_divide [val_simps]:
  assumes "integer_operand n" "integer_operand d"
  shows "if int_val d = 0 then integer_divide n d = Some None
    else \<exists>q r. integer_divide n d = Some (Some (q, r)) \<and> returns_int (Some q) (quot_int (int_val n) (int_val d))
      \<and> returns_int (Some r) (rem_int (int_val n) (int_val d))"
  using assms
proof (cases rule: dispatch_cases)
  case (fixnums i j)
  show ?thesis
  proof (cases "int_val d = 0")
    case False
    then have nz: "FIXNUM_TO_LONG j \<noteq> 0" using fixnums by simp
    obtain q where "long_to_integer (quot_int (FIXNUM_TO_LONG i) (FIXNUM_TO_LONG j)) = Some q"
      "returns_int (Some q) (quot_int (FIXNUM_TO_LONG i) (FIXNUM_TO_LONG j))"
      using returns_long_to_integer [OF fits_long_fixnum_op(6), of "FIXNUM_TO_LONG i" "FIXNUM_TO_LONG j"] fixnums
      by (auto simp: returns_int_def)
    then show ?thesis using nz fixnums divide_fixnums [OF fixnums(3,4) nz] returns_int_fixnum [OF fits_fixnum_rem [OF _ nz]] by simp
  qed (use fixnums in \<open>simp add: integer_divide_def Let_def\<close>)
next
  case (bignums a b)
  note dv = returns_divide [OF bignums(3,4) LENGTH_MAX_operand [OF bignums(7)], unfolded bignums(5,6)]
  note wf = assms [THEN integer_operand_wf]
  show ?thesis
  proof (cases "int_val d = 0")
    case False
    then obtain q r where qr: "bignum_divide a b = Some (Some (q, r))"
      "returns_bignum (Some q) (quot_int (int_val n) (int_val d))" "returns_bignum (Some r) (rem_int (int_val n) (int_val d))"
      using dv by auto
    have "returns_int (bignum_to_integer q) (quot_int (int_val n) (int_val d))"
      "returns_int (bignum_to_integer r) (rem_int (int_val n) (int_val d))"
      using returns_to_integer [OF qr(2)] returns_to_integer [OF qr(3)] quot_rem_bits [OF _ _ False] assms
      by (simp_all add: integer_operand_def)
    then show ?thesis using False divide_bignums [OF bignums(1,2) wf bignums(9) qr(1)] by (auto simp: returns_int_def)
  qed (use dv divide_bignums [OF bignums(1,2) wf bignums(9)] in simp)
qed

subsection \<open>Properties\<close>

lemma concrete_fixnum_operand: "fits_fixnum v \<Longrightarrow> integer_operand (Immediate (LONG_TO_FIXNUM v))"
  using fits_fixnum_operand [of v] by (simp add: integer_operand_def)

lemma concrete_bignum_operand:
  assumes "bignum_wf b" "\<not> fits_fixnum (bignum_val b)" "BIGNUM_LENGTH b \<le> 2 ^ 30"
  shows "integer_operand (Bignum b)"
proof -
  have "BIGNUM_RADIX ^ BIGNUM_LENGTH b \<le> BIGNUM_RADIX ^ (2 ^ 30)" using assms(3) RADIX_pos(2) by (intro power_increasing) auto
  then have "bignum_mag b < 2 ^ operand_bits" using bignum_mag_less [OF assms(1)] unfolding operand_bits_def RADIX_power by linarith
  then show ?thesis using assms bignum_abs_val [OF assms(1)] by (simp add: integer_operand_def)
qed

lemma concrete_operands:
  "integer_operand (Bignum (mk_bignum True [0, 1]))" "integer_operand (Bignum (mk_bignum False [5, 3]))"
  "integer_operand (Immediate (LONG_TO_FIXNUM (- 7)))" "integer_operand (Immediate (LONG_TO_FIXNUM 5))"
  by (intro concrete_bignum_operand concrete_fixnum_operand; simp add: concrete_bignum fits_fixnum_iff)+

text \<open>C19: addition, subtraction, multiplication, negation, increment and decrement of integers of any
  size and representation return the exact result in canonical form: a fixnum when one denotes it
  and a well-formed bignum otherwise. Products of fixnums that \<open>Mul\<close> does not deliver are redone
  with bignums.\<close>

theorem integer_arithmetic:
  assumes "integer_operand n" "integer_operand m"
  shows "returns_int (integer_add n m) (int_val n + int_val m)
       \<and> returns_int (integer_subtract n m) (int_val n - int_val m)
       \<and> returns_int (integer_multiply n m) (int_val n * int_val m)
       \<and> returns_int (integer_negate n) (- int_val n)
       \<and> returns_int (integer_add_1 n) (int_val n + 1)
       \<and> returns_int (integer_subtract_1 n) (int_val n - 1)"
  using assms by (simp add: returns_integer_add returns_integer_subtract returns_integer_multiply
      returns_integer_negate returns_integer_add_1)

theorem integer_arithmetic_witness:
  "returns_int (integer_add (Bignum (mk_bignum True [0, 1])) (Immediate (LONG_TO_FIXNUM 5))) (5 - 2 ^ 62)
   \<and> returns_int (integer_multiply (Bignum (mk_bignum True [0, 1])) (Immediate (LONG_TO_FIXNUM 5))) (- (5 * 2 ^ 62))"
  using integer_arithmetic [OF concrete_operands(1,4)] by (simp add: concrete_bignum fits_fixnum_iff)

text \<open>C20: division of integers reports a zero divisor, and otherwise returns the truncated quotient
  and the remainder with the sign of the dividend, both canonical, whichever of the operands are
  fixnums.\<close>

theorem integer_division_correct:
  assumes "integer_operand n" "integer_operand d"
  shows "if int_val d = 0
    then integer_divide n d = Some None \<and> integer_quotient n d = Some (Immediate SHARP_F)
       \<and> integer_remainder n d = Some (Immediate SHARP_F)
    else (\<exists>q r. integer_divide n d = Some (Some (q, r)) \<and> returns_int (Some q) (quot_int (int_val n) (int_val d))
         \<and> returns_int (Some r) (rem_int (int_val n) (int_val d)))
       \<and> returns_int (integer_quotient n d) (quot_int (int_val n) (int_val d))
       \<and> returns_int (integer_remainder n d) (rem_int (int_val n) (int_val d))"
  using returns_integer_divide [OF assms] quotient_op.correct [OF assms] remainder_op.correct [OF assms] by simp

theorem integer_division_correct_witness:
  "returns_int (integer_quotient (Bignum (mk_bignum True [0, 1])) (Immediate (LONG_TO_FIXNUM 5))) (- 922337203685477580)
   \<and> returns_int (integer_remainder (Bignum (mk_bignum True [0, 1])) (Immediate (LONG_TO_FIXNUM 5))) (- 4)"
  using integer_division_correct [OF concrete_operands(1,4)]
  by (simp add: concrete_bignum fits_fixnum_iff quot_int_def rem_int_def)

text \<open>C21: the tests and comparisons decide sign, equality and order of the denoted integers, and the
  canonical form is unique: integers that denote the same number are the same word or have the same
  digits.\<close>

theorem integer_tests:
  assumes "integer_operand n" "integer_operand m"
  shows "integer_zero_p n = Some (int_val n = 0) \<and> integer_negative_p n = Some (int_val n < 0)
       \<and> integer_positive_p n = Some (0 < int_val n)
       \<and> integer_equal_p n m = Some (int_val n = int_val m) \<and> integer_less_p n m = Some (int_val n < int_val m)
       \<and> (int_val n = int_val m \<longleftrightarrow> n = m)"
  using assms integer_operand_wf int_val_inject by (auto simp: integer_tests_eq integer_comparisons_eq)

theorem integer_tests_witness:
  "integer_less_p (Bignum (mk_bignum True [0, 1])) (Immediate (LONG_TO_FIXNUM 5)) = Some True
   \<and> integer_equal_p (Bignum (mk_bignum True [0, 1])) (Immediate (LONG_TO_FIXNUM 5)) = Some False"
  using integer_tests [OF concrete_operands(1,4)] by (simp add: concrete_bignum fits_fixnum_iff)

text \<open>C25: machine words become canonical integers and are recovered from them. The predicates for
  unsigned words are exact; \<open>integer_to_long_p\<close> is exact for numbers that are not below
  \<open>- (2 ^ 63)\<close>. A bignum is converted to a fixnum exactly when a fixnum denotes it.\<close>

theorem integer_conversions:
  assumes "integer_operand n" "fits_long v" "bignum_wf b" "BIGNUM_LENGTH b < 2 ^ 32"
  shows "returns_int (long_to_integer v) v \<and> returns_int (intmax_to_integer v) v
       \<and> returns_int (ulong_to_integer u) (uint u) \<and> returns_int (uintmax_to_integer u) (uint u)
       \<and> integer_to_ulong_p n = Some (0 \<le> int_val n \<and> int_val n < 2 ^ 64)
       \<and> (0 \<le> int_val n \<and> int_val n < 2 ^ 64 \<longrightarrow> map_option uint (integer_to_ulong n) = Some (int_val n))
       \<and> (- (2 ^ 63) \<le> int_val n \<longrightarrow> integer_to_long_p n = Some (fits_long (int_val n)))
       \<and> (fits_long (int_val n) \<longrightarrow> integer_to_long n = Some (int_val n))
       \<and> bignum_to_fixnum b = Some (if fits_fixnum (bignum_val b) then LONG_TO_FIXNUM (bignum_val b) else SHARP_F)"
proof -
  have len: "BIGNUM_LENGTH c < 2 ^ 32" if "n = Bignum c" for c
    using operand_length [of c] assms(1) that by (simp add: integer_operand_def) 
  have "integer_to_ulong_p n = Some (0 \<le> int_val n \<and> int_val n < 2 ^ 64)
    \<and> (0 \<le> int_val n \<and> int_val n < 2 ^ 64 \<longrightarrow> map_option uint (integer_to_ulong n) = Some (int_val n))
    \<and> (- (2 ^ 63) \<le> int_val n \<longrightarrow> integer_to_long_p n = Some (fits_long (int_val n)))
    \<and> (fits_long (int_val n) \<longrightarrow> integer_to_long n = Some (int_val n))"
    using integer_operand_wf [OF assms(1)]
  proof (cases rule: if_fixnum_cases)
    case (1 w)
    then show ?thesis using FIXNUM_NEGATIVE_P_iff [OF 1(2)]
      by (auto simp: integer_to_ulong_p_def integer_to_ulong_def integer_to_long_p_def integer_to_long_def
          fits_long_def fits_fixnum_iff uint_word_of_int_ulong)
  next
    case (2 c)
    then show ?thesis using len [OF 2(1)] BIGNUM_TO_ULONG_P_eq [OF 2(2)] BIGNUM_TO_LONG_P_eq [OF 2(2)]
        bignum_to_ulong_eq [OF 2(2)] bignum_to_long_exact [OF 2(2)]
      by (auto simp: integer_to_ulong_p_def integer_to_ulong_def integer_to_long_p_def integer_to_long_def
          fits_long_def uint_word_of_int_ulong)
  qed
  moreover have "bignum_to_fixnum b = Some (if fits_fixnum (bignum_val b) then LONG_TO_FIXNUM (bignum_val b) else SHARP_F)"
    using BIGNUM_TO_FIXNUM_P_eq [OF assms(3,4)] bignum_to_long_exact [OF assms(3)] fits_fixnum_fits_long
    by (simp add: bignum_to_fixnum_def BIGNUM_TO_FIXNUM_def)
  moreover have "intmax_to_integer v = long_to_integer v" "uintmax_to_integer u = ulong_to_integer u"
    using assms(2) uint_lt2p [of u] by (simp_all add: intmax_to_integer_def uintmax_to_integer_def fits_long_def)
  ultimately show ?thesis using returns_long_to_integer [OF assms(2)] returns_ulong_to_integer [of u] by simp
qed

theorem integer_conversions_witness:
  "returns_int (long_to_integer (- 9223372036854775808)) (- 9223372036854775808)
   \<and> integer_to_long (Immediate (LONG_TO_FIXNUM 5)) = Some 5
   \<and> bignum_to_fixnum (mk_bignum True [7]) = Some (LONG_TO_FIXNUM (- 7))"
  using integer_conversions [OF concrete_operands(4), of "- 9223372036854775808" "mk_bignum True [7]" 0]
  by (simp add: concrete_bignum fits_fixnum_iff fits_long_def)

end
