(* ===== verification/Scheme_Bits.thy ===== *)
theory Scheme_Bits
  imports Scheme_Integer
begin

text \<open>
  Bitwise operations, shifts and bit counts on integers of any size
  (\<open>src/src/microcode/artutl.c\<close>, the second half). The integers are in two's complement with
  infinite sign extension, whatever their representation. An \<open>unsigned long\<close> count is a \<open>nat\<close>
  below \<open>2 ^ 64\<close>, and sums of counts are reduced; a C shift by 64 places or more is undefined, here
  \<open>None\<close>.
\<close>

subsection \<open>Lengths and counts\<close>

definition integer_length_in_bits :: "obj \<Rightarrow> obj option" where
  "integer_length_in_bits n =
    if_fixnum n
      (\<lambda>w. let n1 = FIXNUM_TO_LONG w
           in Some (Immediate (ULONG_TO_FIXNUM (of_nat (ulong_length_in_bits (word_of_int (if n1 < 0 then - n1 else n1)))))))
      (\<lambda>b. ulong_to_integer (of_nat (bignum_length_in_bits b)))"

definition integer_length :: "obj \<Rightarrow> obj option" where
  "integer_length n =
    if_fixnum n
      (\<lambda>w. let n1 = FIXNUM_TO_LONG w
           in Some (Immediate (ULONG_TO_FIXNUM (of_nat (ulong_length_in_bits (word_of_int (if n1 < 0 then NOT n1 else n1)))))))
      (\<lambda>b. ulong_to_integer (of_nat (bignum_integer_length b)))"

definition integer_first_set_bit :: "obj \<Rightarrow> obj option" where
  "integer_first_set_bit n =
    if_fixnum n
      (\<lambda>w. let n1 = FIXNUM_TO_LONG w
           in fixnum_object (ulong_first_set_bit (if n1 < 0 then NOT (word_of_int (NOT n1)) else word_of_int n1)))
      (\<lambda>b. do { k \<leftarrow> bignum_first_set_bit b; long_to_integer k })"

definition integer_bit_count :: "obj \<Rightarrow> obj option" where
  "integer_bit_count n =
    if_fixnum n
      (\<lambda>w. let n1 = FIXNUM_TO_LONG w
           in Some (Immediate (ULONG_TO_FIXNUM (of_nat (ulong_bit_count (word_of_int (if n1 < 0 then NOT n1 else n1)))))))
      (\<lambda>b. do { k \<leftarrow> bignum_bit_count b; ulong_to_integer (of_nat k) })"

text \<open>\<open>bignum_hamming_distance\<close> compares addresses first; \<open>same\<close> says whether two bignum arguments
  are one object. A fixnum is converted to a fresh bignum.\<close>

definition integer_hamming_distance :: "bool \<Rightarrow> obj \<Rightarrow> obj \<Rightarrow> obj option" where
  "integer_hamming_distance same n m =
    (case (n, m) of
       (Immediate i, Immediate j) \<Rightarrow>
         (if FIXNUM_P i \<and> FIXNUM_P j
          then let x = FIXNUM_TO_LONG i XOR FIXNUM_TO_LONG j
               in if x < 0 then fixnum_object (- 1)
                  else Some (Immediate (ULONG_TO_FIXNUM (of_nat (ulong_bit_count (word_of_int x)))))
          else None)
     | _ \<Rightarrow> do {
         a \<leftarrow> to_bignum n; b \<leftarrow> to_bignum m;
         d \<leftarrow> bignum_hamming_distance (same \<and> n = Bignum a \<and> m = Bignum b) a b;
         long_to_integer d })"

subsection \<open>Bitwise operations\<close>

definition integer_bitwise_not :: "obj \<Rightarrow> obj option" where
  "integer_bitwise_not n =
    if_fixnum n (\<lambda>w. fixnum_object (NOT (FIXNUM_TO_LONG w))) (\<lambda>b. map_option Bignum (bignum_bitwise_not b))"

definition DEFINE_INTEGER_BITWISE ::
  "(long \<Rightarrow> long \<Rightarrow> long) \<Rightarrow> (bignum \<Rightarrow> bignum \<Rightarrow> bignum option) \<Rightarrow> obj \<Rightarrow> obj \<Rightarrow> obj option" where
  "DEFINE_INTEGER_BITWISE OP bignum_op n m =
    (case (n, m) of
       (Immediate i, Immediate j) \<Rightarrow>
         (if FIXNUM_P i \<and> FIXNUM_P j then fixnum_object (OP (FIXNUM_TO_LONG i) (FIXNUM_TO_LONG j)) else None)
     | _ \<Rightarrow> do { a \<leftarrow> to_bignum n; b \<leftarrow> to_bignum m; r \<leftarrow> bignum_op a b; bignum_to_integer r })"

definition BITWISE_and :: "long \<Rightarrow> long \<Rightarrow> long" where "BITWISE_and x y = x AND y"
definition BITWISE_andc2 :: "long \<Rightarrow> long \<Rightarrow> long" where "BITWISE_andc2 x y = x AND NOT y"
definition BITWISE_andc1 :: "long \<Rightarrow> long \<Rightarrow> long" where "BITWISE_andc1 x y = y AND NOT x"
definition BITWISE_xor :: "long \<Rightarrow> long \<Rightarrow> long" where "BITWISE_xor x y = x XOR y"
definition BITWISE_ior :: "long \<Rightarrow> long \<Rightarrow> long" where "BITWISE_ior x y = x OR y"
definition BITWISE_nor :: "long \<Rightarrow> long \<Rightarrow> long" where "BITWISE_nor x y = NOT (x OR y)"
definition BITWISE_eqv :: "long \<Rightarrow> long \<Rightarrow> long" where "BITWISE_eqv x y = NOT (x XOR y)"
definition BITWISE_orc2 :: "long \<Rightarrow> long \<Rightarrow> long" where "BITWISE_orc2 x y = x OR NOT y"
definition BITWISE_orc1 :: "long \<Rightarrow> long \<Rightarrow> long" where "BITWISE_orc1 x y = y OR NOT x"
definition BITWISE_nand :: "long \<Rightarrow> long \<Rightarrow> long" where "BITWISE_nand x y = NOT (x AND y)"

definition integer_bitwise_and :: "obj \<Rightarrow> obj \<Rightarrow> obj option" where
  "integer_bitwise_and = DEFINE_INTEGER_BITWISE BITWISE_and bignum_bitwise_and"
definition integer_bitwise_andc2 :: "obj \<Rightarrow> obj \<Rightarrow> obj option" where
  "integer_bitwise_andc2 = DEFINE_INTEGER_BITWISE BITWISE_andc2 bignum_bitwise_andc2"
definition integer_bitwise_andc1 :: "obj \<Rightarrow> obj \<Rightarrow> obj option" where
  "integer_bitwise_andc1 = DEFINE_INTEGER_BITWISE BITWISE_andc1 bignum_bitwise_andc1"
definition integer_bitwise_xor :: "obj \<Rightarrow> obj \<Rightarrow> obj option" where
  "integer_bitwise_xor = DEFINE_INTEGER_BITWISE BITWISE_xor bignum_bitwise_xor"
definition integer_bitwise_ior :: "obj \<Rightarrow> obj \<Rightarrow> obj option" where
  "integer_bitwise_ior = DEFINE_INTEGER_BITWISE BITWISE_ior bignum_bitwise_ior"
definition integer_bitwise_nor :: "obj \<Rightarrow> obj \<Rightarrow> obj option" where
  "integer_bitwise_nor = DEFINE_INTEGER_BITWISE BITWISE_nor bignum_bitwise_nor"
definition integer_bitwise_eqv :: "obj \<Rightarrow> obj \<Rightarrow> obj option" where
  "integer_bitwise_eqv = DEFINE_INTEGER_BITWISE BITWISE_eqv bignum_bitwise_eqv"
definition integer_bitwise_orc2 :: "obj \<Rightarrow> obj \<Rightarrow> obj option" where
  "integer_bitwise_orc2 = DEFINE_INTEGER_BITWISE BITWISE_orc2 bignum_bitwise_orc2"
definition integer_bitwise_orc1 :: "obj \<Rightarrow> obj \<Rightarrow> obj option" where
  "integer_bitwise_orc1 = DEFINE_INTEGER_BITWISE BITWISE_orc1 bignum_bitwise_orc1"
definition integer_bitwise_nand :: "obj \<Rightarrow> obj \<Rightarrow> obj option" where
  "integer_bitwise_nand = DEFINE_INTEGER_BITWISE BITWISE_nand bignum_bitwise_nand"

definition c_shift :: "nat \<Rightarrow> 'a option \<Rightarrow> 'a option" where
  "c_shift count r = (if count < 64 then r else None)"

definition integer_nonnegative_one_bits :: "nat \<Rightarrow> nat \<Rightarrow> obj option" where
  "integer_nonnegative_one_bits n m =
    (if n = 0 then fixnum_object 0
     else if (n + m) mod 2 ^ 64 \<le> FIXNUM_LENGTH
     then c_shift n (c_shift m (Some (Immediate (ULONG_TO_FIXNUM (push_bit m (NOT (push_bit n (NOT 0))))))))
     else map_option Bignum (bignum_nonnegative_one_bits n m))"

definition integer_negative_zero_bits :: "nat \<Rightarrow> nat \<Rightarrow> obj option" where
  "integer_negative_zero_bits n m =
    (if n = 0 then fixnum_object (- 1)
     else if (n + m) mod 2 ^ 64 \<le> FIXNUM_LENGTH
     then c_shift n (c_shift m (fixnum_object (NOT (sint (push_bit m (NOT (push_bit n (NOT (0 :: ulong)))))))))
     else map_option Bignum (bignum_negative_zero_bits n m))"

subsection \<open>Shifts\<close>

definition integer_shift_left :: "obj \<Rightarrow> nat \<Rightarrow> obj option" where
  "integer_shift_left n m =
    (if m = 0 then Some n
     else if_fixnum n
       (\<lambda>w. let n1 = FIXNUM_TO_LONG w
            in if n1 < 0
               then (if (m + ulong_length_in_bits (word_of_int (NOT n1))) mod 2 ^ 64 \<le> FIXNUM_LENGTH
                     then c_shift m (fixnum_object (- push_bit m (- n1)))
                     else do { b \<leftarrow> unsigned_long_to_shifted_bignum (word_of_int (- n1)) m False;
                               map_option Bignum (bignum_negate b) })
               else if 0 < n1
               then (if (m + ulong_length_in_bits (word_of_int n1)) mod 2 ^ 64 \<le> FIXNUM_LENGTH
                     then c_shift m (fixnum_object (push_bit m n1))
                     else map_option Bignum (unsigned_long_to_shifted_bignum (word_of_int n1) m False))
               else fixnum_object 0)
       (\<lambda>b. map_option Bignum (bignum_shift_left b m)))"

text \<open>When \<open>bignum_shift_right\<close> reads past the digits of a complement, that complement has just been
  shortened by one word, and \<open>BIGNUM_REDUCE_LENGTH\<close> has stored \<open>SHARP_F\<close> in that word.\<close>

definition integer_shift_right :: "obj \<Rightarrow> nat \<Rightarrow> obj option" where
  "integer_shift_right n m =
    (if m = 0 then Some n
     else if_fixnum n
       (\<lambda>w. let n1 = FIXNUM_TO_LONG w
            in if m \<ge> 64 then fixnum_object (if n1 < 0 then - 1 else 0)
               else fixnum_object (if n1 < 0 then NOT (drop_bit m (NOT n1)) else drop_bit m n1))
       (\<lambda>b. do { r \<leftarrow> bignum_shift_right (uint SHARP_F) b m; bignum_to_integer r }))"

subsection \<open>Bitwise operations: correctness\<close>

text \<open>Integers between \<open>- (2 ^ n)\<close> and \<open>2 ^ n\<close> are closed under bitwise operations.\<close>

definition signed_range :: "nat \<Rightarrow> int \<Rightarrow> bool" where
  "signed_range n v \<longleftrightarrow> - (2 ^ n) \<le> v \<and> v < 2 ^ n"

lemma signed_range_drop_bit: "signed_range n v \<longleftrightarrow> drop_bit n v \<in> {0, - 1}"
proof -
  define q r where "q = v div 2 ^ n" and "r = v mod 2 ^ n"
  have v: "v = 2 ^ n * q + r" "0 \<le> r" "r < 2 ^ n" by (simp_all add: q_def r_def)
  have "2 ^ n * 1 \<le> 2 ^ n * q" if "0 < q" using that by (intro mult_left_mono) simp_all
  then have pos: "2 ^ n \<le> v" if "0 < q" using that v unfolding mult_1_right by linarith
  have "2 ^ n * q \<le> 2 ^ n * - 2" if "q < - 1" using that by (intro mult_left_mono) simp_all
  then have neg: "v < - (2 ^ n)" if "q < - 1" using that v by linarith
  have "q = 0 \<or> q = - 1 \<or> 0 < q \<or> q < - 1" by linarith
  then have "signed_range n v \<longleftrightarrow> q = 0 \<or> q = - 1"
    using v pos neg unfolding signed_range_def by (elim disjE) auto
  then show ?thesis by (simp add: drop_bit_eq_div q_def)
qed

lemma signed_range_bitop [intro]:
  assumes "signed_range n x"
  shows "signed_range n (NOT x)" "signed_range n y \<Longrightarrow> signed_range n (x AND y)"
    "signed_range n y \<Longrightarrow> signed_range n (x OR y)" "signed_range n y \<Longrightarrow> signed_range n (x XOR y)"
proof -
  show "signed_range n (NOT x)" using assms by (simp add: signed_range_def not_int_def)
qed (use assms in \<open>auto simp: signed_range_drop_bit drop_bit_and drop_bit_or drop_bit_xor\<close>)

lemma fits_fixnum_range: "fits_fixnum v \<longleftrightarrow> signed_range 57 v"
  by (simp add: fits_fixnum_iff signed_range_def)

lemma abs_signed_range: "\<bar>v\<bar> < 2 ^ n \<Longrightarrow> signed_range n v"
  by (auto simp: signed_range_def)

lemma signed_range_result: "signed_range operand_bits v \<Longrightarrow> \<bar>v\<bar> < 2 ^ result_bits"
proof -
  assume "signed_range operand_bits v"
  then have "\<bar>v\<bar> < 2 ^ operand_bits + 2 ^ operand_bits" by (auto simp: signed_range_def)
  then show ?thesis using operand_result_bits(2) by (intro less_result_bits [of "operand_bits + 1"]) simp_all
qed

lemma capacity_operand: "bignum_wf b \<Longrightarrow> BIGNUM_LENGTH b \<le> 2 ^ 30 \<Longrightarrow> \<bar>bignum_val b\<bar> < 2 ^ bit_capacity"
  using capacity_iff [of b] LENGTH_MAX_operand by simp

lemma bitwise_dispatch:
  "DEFINE_INTEGER_BITWISE g big n m
   = dispatch (\<lambda>i j. fixnum_object (g (FIXNUM_TO_LONG i) (FIXNUM_TO_LONG j))) (\<lambda>a b. Option.bind (big a b) bignum_to_integer) n m"
  by (cases n; cases m) (auto simp: DEFINE_INTEGER_BITWISE_def dispatch_def to_bignum_def split: option.splits)

text \<open>What a bitwise operation on integers needs: closure of the operand ranges, and a bignum
  operation that implements it.\<close>

locale bitwise_integer =
  fixes g :: "int \<Rightarrow> int \<Rightarrow> int" and big_op :: "bignum \<Rightarrow> bignum \<Rightarrow> bignum option"
  assumes closed: "signed_range n x \<Longrightarrow> signed_range n y \<Longrightarrow> signed_range n (g x y)"
    and big_op: "bignum_wf a \<Longrightarrow> bignum_wf b \<Longrightarrow> \<bar>bignum_val a\<bar> < 2 ^ bit_capacity \<Longrightarrow> \<bar>bignum_val b\<bar> < 2 ^ bit_capacity
      \<Longrightarrow> returns_bignum (big_op a b) (g (bignum_val a) (bignum_val b))"

sublocale bitwise_integer \<subseteq> integer_operation g
  "\<lambda>i j. fixnum_object (g (FIXNUM_TO_LONG i) (FIXNUM_TO_LONG j))" big_op
proof
  show "returns_int (fixnum_object (g (FIXNUM_TO_LONG i) (FIXNUM_TO_LONG j))) (g (FIXNUM_TO_LONG i) (FIXNUM_TO_LONG j))"
    if "FIXNUM_P i" "FIXNUM_P j" for i j
    using that closed [of 57] returns_int_fixnum by (simp add: fixnum_object_def flip: fits_fixnum_range)
  show "returns_bignum (big_op a b) (g (bignum_val a) (bignum_val b))"
    if "bignum_wf a" "bignum_wf b" "BIGNUM_LENGTH a \<le> 2 ^ 30" "BIGNUM_LENGTH b \<le> 2 ^ 30" for a b
    using that by (intro big_op capacity_operand)
  show "\<bar>g x y\<bar> < 2 ^ result_bits" if "\<bar>x\<bar> < 2 ^ operand_bits" "\<bar>y\<bar> < 2 ^ operand_bits" for x y
    using that by (intro signed_range_result closed abs_signed_range)
qed

interpretation int_and: bitwise_integer BITWISE_and bignum_bitwise_and
  by unfold_locales (auto simp: BITWISE_and_def bignum_bitwise_and_def intro: and_op.correct)
interpretation int_andc2: bitwise_integer BITWISE_andc2 bignum_bitwise_andc2
  by unfold_locales (auto simp: BITWISE_andc2_def bignum_bitwise_andc2_def intro: andc2_op.correct)
interpretation int_andc1: bitwise_integer BITWISE_andc1 bignum_bitwise_andc1
  by unfold_locales (auto simp: BITWISE_andc1_def bignum_bitwise_andc1_def intro: andc1_op.correct)
interpretation int_xor: bitwise_integer BITWISE_xor bignum_bitwise_xor
  by unfold_locales (auto simp: BITWISE_xor_def bignum_bitwise_xor_def intro: xor_op.correct)
interpretation int_ior: bitwise_integer BITWISE_ior bignum_bitwise_ior
  by unfold_locales (auto simp: BITWISE_ior_def bignum_bitwise_ior_def intro: ior_op.correct)
interpretation int_nor: bitwise_integer BITWISE_nor bignum_bitwise_nor
  by unfold_locales (use nor_op.correct in \<open>auto simp: BITWISE_nor_def bignum_bitwise_nor_def\<close>)
interpretation int_eqv: bitwise_integer BITWISE_eqv bignum_bitwise_eqv
  by unfold_locales (auto simp: BITWISE_eqv_def bignum_bitwise_eqv_def intro: eqv_op.correct)
interpretation int_orc2: bitwise_integer BITWISE_orc2 bignum_bitwise_orc2
  by unfold_locales (auto simp: BITWISE_orc2_def bignum_bitwise_orc2_def intro: orc2_op.correct)
interpretation int_orc1: bitwise_integer BITWISE_orc1 bignum_bitwise_orc1
  by unfold_locales (auto simp: BITWISE_orc1_def bignum_bitwise_orc1_def or.commute [of _ "NOT _"] intro: orc1_op.correct)
interpretation int_nand: bitwise_integer BITWISE_nand bignum_bitwise_nand
  by unfold_locales (use nand_op.correct in \<open>auto simp: BITWISE_nand_def bignum_bitwise_nand_def\<close>)

lemma returns_integer_bitwise_not [val_simps]:
  assumes "integer_operand n"
  shows "returns_int (integer_bitwise_not n) (NOT (int_val n))"
  using integer_operand_wf [OF assms]
proof (cases rule: if_fixnum_cases)
  case (1 w)
  then show ?thesis using returns_int_fixnum [of "NOT (int_val n)"] signed_range_bitop(1) [of 57]
    by (auto simp: integer_bitwise_not_def fixnum_object_def fits_fixnum_range)
next
  case (2 b)
  have "NOT (NOT v) = v" for v :: int by simp
  then have "\<not> fits_fixnum (NOT (int_val n))" using 2(4) signed_range_bitop(1) [of 57 "NOT (int_val n)"] by (auto simp: fits_fixnum_range)
  then show ?thesis
    using 2 returns_int_bignum [OF returns_bitwise_not [of b]] capacity_operand [OF 2(2)] operand_length [OF 2(2)] assms
    by (simp add: integer_bitwise_not_def integer_operand_def)
qed

subsection \<open>Lengths and counts: correctness\<close>

text \<open>\<open>l\<close> is the number of bits of \<open>m\<close> without leading zeros.\<close>

definition bit_length :: "int \<Rightarrow> nat \<Rightarrow> bool" where
  "bit_length m l \<longleftrightarrow> m < 2 ^ l \<and> (l = 0 \<or> 2 ^ (l - 1) \<le> m)"

text \<open>The bits of a two's complement number that differ from its sign.\<close>

definition unsigned_part :: "int \<Rightarrow> int" where
  "unsigned_part v = (if v < 0 then NOT v else v)"

lemma unsigned_part_nonneg [simp]: "0 \<le> unsigned_part v"
  by (simp add: unsigned_part_def not_int_def)

lemma unsigned_part_less: "\<bar>v\<bar> < 2 ^ n \<Longrightarrow> unsigned_part v < 2 ^ n"
  by (auto simp: unsigned_part_def not_int_def)

lemma bit_length_le:
  assumes "bit_length m l" "m < 2 ^ n"
  shows "l \<le> n"
proof (cases "l = 0")
  case False
  then have "(2 :: int) ^ (l - 1) < 2 ^ n" using assms unfolding bit_length_def by linarith
  then have "l - 1 < n" by (rule power_less_imp_less_exp [rotated]) simp
  then show ?thesis by simp
qed simp

lemma bit_length_ulong:
  assumes "0 \<le> m" "m < 2 ^ 64"
  shows "bit_length m (ulong_length_in_bits (word_of_int m))"
proof -
  have u: "uint (word_of_int m :: ulong) = m" using assms by (simp add: uint_word_of_int_ulong)
  define w :: ulong where "w = word_of_int m"
  show ?thesis using ulong_length_in_bits_bounds [of w] ulong_length_in_bits_eqI [of w 0] u
    by (cases "w = 0") (auto simp: bit_length_def w_def)
qed

lemma operand_bits_small: "operand_bits < 2 ^ 57"
  by (simp add: operand_bits_def)

lemma uint_of_nat_ulong: "k < 2 ^ 64 \<Longrightarrow> uint (of_nat k :: ulong) = int k"
  by (simp add: unsigned_of_nat take_bit_nat_eq_self)

lemma ULONG_TO_FIXNUM_nat:
  assumes "k < 2 ^ 57"
  shows "returns_int (Some (Immediate (ULONG_TO_FIXNUM (of_nat k)))) (int k)"
  using assms uint_of_nat_ulong [of k] returns_int_fixnum [of "int k"] by (simp add: ULONG_TO_FIXNUM_eq fits_fixnum_iff)

lemma ulong_to_integer_nat: "k < 2 ^ 57 \<Longrightarrow> returns_int (ulong_to_integer (of_nat k)) (int k)"
  using uint_of_nat_ulong [of k] returns_ulong_to_integer [of "of_nat k"] by simp

lemma bit_length_unsigned_part: "bignum_wf b \<Longrightarrow> bit_length (unsigned_part (bignum_val b)) (bignum_integer_length b)"
  using bignum_integer_length_eq [of b] by (simp add: bit_length_def unsigned_part_def)

lemma bit_length_magnitude: "bignum_wf b \<Longrightarrow> bit_length \<bar>bignum_val b\<bar> (bignum_length_in_bits b)"
  using length_in_bits_bounds [of b] bignum_abs_val [of b] bignum_ZERO_P_iff [of b]
  by (cases "bignum_val b = 0") (auto simp: bit_length_def bignum_length_in_bits_def)

lemma fixnum_bits:
  assumes "FIXNUM_P w"
  shows "\<bar>FIXNUM_TO_LONG w\<bar> < 2 ^ 58" "unsigned_part (FIXNUM_TO_LONG w) < 2 ^ 57"
  using FIXNUM_TO_LONG_bounds [OF assms] by (auto simp: unsigned_part_def not_int_def)

lemma returns_integer_lengths [val_simps]:
  assumes "integer_operand n"
  shows "\<exists>l. returns_int (integer_length_in_bits n) (int l) \<and> bit_length \<bar>int_val n\<bar> l"
    "\<exists>l. returns_int (integer_length n) (int l) \<and> bit_length (unsigned_part (int_val n)) l"
proof -
  have small: "l < 2 ^ 57" if "bit_length m l" "m < 2 ^ operand_bits" for m l
    using bit_length_le [OF that] operand_bits_small by linarith
  have "(\<exists>l. returns_int (integer_length_in_bits n) (int l) \<and> bit_length \<bar>int_val n\<bar> l)
    \<and> (\<exists>l. returns_int (integer_length n) (int l) \<and> bit_length (unsigned_part (int_val n)) l)"
    using integer_operand_wf [OF assms]
  proof (cases rule: if_fixnum_cases)
    case (1 w)
    define a b where "a = ulong_length_in_bits (word_of_int \<bar>int_val n\<bar>)" and "b = ulong_length_in_bits (word_of_int (unsigned_part (int_val n)))"
    note f = fixnum_bits [OF 1(2), folded 1(3)]
    have "bit_length \<bar>int_val n\<bar> a" "bit_length (unsigned_part (int_val n)) b"
      unfolding a_def b_def using f by (intro bit_length_ulong; simp)+
    moreover from this have "a \<le> 58" "b \<le> 57" using f by (auto intro: bit_length_le)
    moreover have "integer_length_in_bits n = Some (Immediate (ULONG_TO_FIXNUM (of_nat a)))"
      "integer_length n = Some (Immediate (ULONG_TO_FIXNUM (of_nat b)))"
      using 1 by (simp_all add: integer_length_in_bits_def integer_length_def Let_def a_def b_def abs_if unsigned_part_def)
    ultimately show ?thesis using ULONG_TO_FIXNUM_nat [of a] ULONG_TO_FIXNUM_nat [of b]
      by (intro conjI exI [of _ a] exI [of _ b]) simp_all
  next
    case (2 b)
    have op: "\<bar>bignum_val b\<bar> < 2 ^ operand_bits" using assms 2 by (simp add: integer_operand_def)
    show ?thesis
      using 2 ulong_to_integer_nat [OF small [OF bit_length_magnitude [OF 2(2)] op]] bit_length_magnitude [OF 2(2)]
        ulong_to_integer_nat [OF small [OF bit_length_unsigned_part [OF 2(2)] unsigned_part_less [OF op]]] bit_length_unsigned_part [OF 2(2)]
      by (auto simp: integer_length_in_bits_def integer_length_def)
  qed
  then show "\<exists>l. returns_int (integer_length_in_bits n) (int l) \<and> bit_length \<bar>int_val n\<bar> l"
    "\<exists>l. returns_int (integer_length n) (int l) \<and> bit_length (unsigned_part (int_val n)) l" by blast+
qed

lemma bits_set_le: "0 \<le> v \<Longrightarrow> v < 2 ^ n \<Longrightarrow> bits_set v \<le> n"
proof -
  assume "0 \<le> v" "v < 2 ^ n"
  then have "take_bit n v = v" by (simp add: take_bit_int_eq_self)
  then have "{i. bit v i} \<subseteq> {..<n}" by (metis (mono_tags) bit_take_bit_iff lessThan_iff mem_Collect_eq subsetI)
  then show ?thesis using card_mono [of "{..<n}"] by (fastforce simp: bits_set_def)
qed

lemma ulong_bit_count_bits_set: "0 \<le> v \<Longrightarrow> v < 2 ^ 63 \<Longrightarrow> ulong_bit_count (word_of_int v) = bits_set v"
  by (simp add: bits_set_def ulong_bit_count_card word_of_int_bits)

lemma returns_integer_bit_count [val_simps]:
  assumes "integer_operand n"
  shows "returns_int (integer_bit_count n) (int (bits_set (unsigned_part (int_val n))))"
  using integer_operand_wf [OF assms]
proof (cases rule: if_fixnum_cases)
  case (1 w)
  note f = fixnum_bits(2) [OF 1(2), folded 1(3)]
  have "bits_set (unsigned_part (int_val n)) \<le> 57" using f by (intro bits_set_le) simp_all
  moreover have "integer_bit_count n = Some (Immediate (ULONG_TO_FIXNUM (of_nat (bits_set (unsigned_part (int_val n))))))"
    using 1 f ulong_bit_count_bits_set [of "unsigned_part (int_val n)"] by (simp add: integer_bit_count_def Let_def unsigned_part_def)
  ultimately show ?thesis using ULONG_TO_FIXNUM_nat by simp
next
  case (2 b)
  have op: "\<bar>bignum_val b\<bar> < 2 ^ operand_bits" using assms 2 by (simp add: integer_operand_def)
  have "bits_set (unsigned_part (bignum_val b)) \<le> operand_bits" using unsigned_part_less [OF op] by (intro bits_set_le) simp_all
  then have "bits_set (unsigned_part (bignum_val b)) < 2 ^ 57" using operand_bits_small by linarith
  moreover have "bignum_bit_count b = Some (bits_set (unsigned_part (bignum_val b)))"
    using bignum_bit_count_eq [OF 2(2) LENGTH_MAX_operand [OF operand_length [OF 2(2) op]]] by (simp add: unsigned_part_def)
  ultimately show ?thesis using ulong_to_integer_nat 2 by (simp add: integer_bit_count_def)
qed

lemma fixnum_first_set_bit:
  assumes "fits_fixnum v" "v \<noteq> 0"
  shows "\<exists>r k. ulong_first_set_bit (word_of_int v) = int r \<and> v = 2 ^ r * k \<and> odd k \<and> r \<le> 57"
proof -
  obtain r k where rk: "\<bar>v\<bar> = 2 ^ r * k" "odd k" using odd_part [of "\<bar>v\<bar>"] assms(2) by auto
  have "0 < k" using rk assms(2) by (metis abs_ge_zero zero_less_abs_iff zero_less_mult_pos zero_less_numeral zero_less_power)
  then have "(2 :: int) ^ r * 1 \<le> 2 ^ r * k" by (intro mult_left_mono) simp_all
  moreover have "\<bar>v\<bar> < 2 ^ 58" using assms(1) by (auto simp: fits_fixnum_iff)
  ultimately have "(2 :: int) ^ r < 2 ^ 58" using rk(1) by linarith
  then have r58: "r < 58" by (rule power_less_imp_less_exp [rotated]) simp
  define j where "j = (if v < 0 then - k else k)"
  have v: "v = 2 ^ r * j" "odd j" using rk by (auto simp: j_def abs_if split: if_splits)
  have "uint (word_of_int v :: ulong) = v mod 2 ^ 64" by (simp add: uint_word_of_int)
  also have "v mod 2 ^ 64 = (if v < 0 then v + 2 ^ 64 else v)" using assms(1) by (intro mod_signed_range) (simp_all add: fits_fixnum_iff)
  also have "\<dots> = 2 ^ r * (if v < 0 then j + 2 ^ (64 - r) else j)"
    using r58 v(1) by (simp add: distrib_left flip: power_add)
  finally have u: "uint (word_of_int v :: ulong) = 2 ^ r * (if v < 0 then j + 2 ^ (64 - r) else j)" .
  have "even ((2 :: int) ^ (64 - r))" using r58 by simp
  then have "odd (if v < 0 then j + 2 ^ (64 - r) else j)" using v(2) by simp
  then have "ulong_first_set_bit (word_of_int v) = int r" by (rule ulong_first_set_bit_eqI [OF u])
  then show ?thesis using v r58 by auto
qed

lemma first_set_bit_less:
  fixes v :: int
  assumes "v = 2 ^ r * k" "odd k" "\<bar>v\<bar> < 2 ^ n"
  shows "r < n"
proof -
  have "k \<noteq> 0" using assms(2) by auto
  then have "(2 :: int) ^ r * 1 \<le> 2 ^ r * \<bar>k\<bar>" by (intro mult_left_mono) simp_all
  moreover have "\<bar>v\<bar> = 2 ^ r * \<bar>k\<bar>" using assms(1) by (simp add: abs_mult)
  ultimately have "(2 :: int) ^ r < 2 ^ n" using assms(3) by linarith
  then show ?thesis by (rule power_less_imp_less_exp [rotated]) simp
qed

lemma returns_integer_first_set_bit [val_simps]:
  assumes "integer_operand n"
  shows "if int_val n = 0 then returns_int (integer_first_set_bit n) (- 1)
    else \<exists>r k. returns_int (integer_first_set_bit n) (int r) \<and> int_val n = 2 ^ r * k \<and> odd k"
  using integer_operand_wf [OF assms]
proof (cases rule: if_fixnum_cases)
  case (1 w)
  have word_not: "NOT (word_of_int (NOT v)) = (word_of_int v :: ulong)" for v by (rule bit_eqI) (auto simp: bit_simps)
  have e: "integer_first_set_bit n = fixnum_object (ulong_first_set_bit (word_of_int (int_val n)))"
    using 1 word_not by (simp add: integer_first_set_bit_def Let_def)
  show ?thesis
  proof (cases "int_val n = 0")
    case True
    then show ?thesis using e returns_int_fixnum [of "- 1"] by (simp add: ulong_first_set_bit_def fixnum_object_def fits_fixnum_iff)
  next
    case False
    then obtain r k where "ulong_first_set_bit (word_of_int (int_val n)) = int r" "int_val n = 2 ^ r * k" "odd k" "r \<le> 57"
      using fixnum_first_set_bit [OF 1(4)] by blast
    then show ?thesis using False e returns_int_fixnum [of "int r"] by (auto simp: fixnum_object_def fits_fixnum_iff)
  qed
next
  case (2 b)
  then have nz: "int_val n \<noteq> 0" by (auto simp: fits_fixnum_iff)
  then obtain r k where rk: "bignum_first_set_bit b = Some (int r)" "int_val n = 2 ^ r * k" "odd k"
    using bignum_first_set_bit_eq [OF 2(2)] 2(3) by auto
  have "r < operand_bits" using first_set_bit_less [OF rk(2,3)] assms by (simp add: integer_operand_def)
  then have "int r < 2 ^ 57" using operand_bits_small by (simp add: of_nat_less_numeral_power_cancel_iff)
  then have "returns_int (long_to_integer (int r)) (int r)" by (intro returns_long_to_integer) (simp add: fits_long_def)
  then show ?thesis using nz rk 2(1) by (auto simp: integer_first_set_bit_def)
qed

lemma returns_integer_hamming_distance [val_simps]:
  assumes "integer_operand n" "integer_operand m" "same \<longrightarrow> n = m"
  shows "returns_int (integer_hamming_distance same n m)
    (if int_val n < 0 \<longleftrightarrow> int_val m < 0 then int (bits_set (int_val n XOR int_val m)) else - 1)"
  using assms(1,2)
proof (cases rule: dispatch_cases)
  case (fixnums i j)
  define x where "x = int_val n XOR int_val m"
  have f: "fits_fixnum (int_val n)" "fits_fixnum (int_val m)" using fixnums by simp_all
  have s: "x < 0 \<longleftrightarrow> (int_val n < 0 \<longleftrightarrow> \<not> int_val m < 0)"
    unfolding x_def using xor_nonnegative_int_iff [of "int_val n" "int_val m"] by linarith
  show ?thesis
  proof (cases "x < 0")
    case True
    then show ?thesis using s fixnums returns_int_fixnum [of "- 1"]
      by (simp add: integer_hamming_distance_def fixnum_object_def fits_fixnum_iff x_def)
  next
    case False
    have "x < 2 ^ 57" using fits_fixnum_bitop(3) [OF f] by (simp add: fits_fixnum_iff x_def)
    then have "ulong_bit_count (word_of_int x) = bits_set x" "bits_set x \<le> 57"
      using False by (auto intro: ulong_bit_count_bits_set bits_set_le)
    then show ?thesis using s False fixnums ULONG_TO_FIXNUM_nat [of "bits_set x"]
      by (simp add: integer_hamming_distance_def x_def)
  qed
next
  case (bignums a b)
  define d where "d = (if int_val n < 0 \<longleftrightarrow> int_val m < 0 then int (bits_set (int_val n XOR int_val m)) else - 1)"
  define sm where "sm \<longleftrightarrow> same \<and> n = Bignum a \<and> m = Bignum b"
  have "sm \<Longrightarrow> a = b" using assms(3) by (auto simp: sm_def)
  then have h: "bignum_hamming_distance sm a b = Some d"
    using bignum_hamming_distance_eq [OF bignums(3,4) LENGTH_MAX_operand [OF bignums(7)] LENGTH_MAX_operand [OF bignums(8)]] bignums(5,6)
    by (simp add: d_def)
  have e: "integer_hamming_distance same n m = long_to_integer d"
    using bignums(1,2,9) assms(1,2) [THEN integer_operand_wf] h
    by (cases n; cases m) (auto simp: integer_hamming_distance_def sm_def)
  have "fits_long d"
  proof (cases "int_val n < 0 \<longleftrightarrow> int_val m < 0")
    case True
    have "signed_range operand_bits (int_val n XOR int_val m)"
      using assms(1,2) abs_signed_range by (auto simp: integer_operand_def)
    moreover have "0 \<le> int_val n XOR int_val m" using True xor_nonnegative_int_iff [of "int_val n" "int_val m"] by linarith
    ultimately have "bits_set (int_val n XOR int_val m) \<le> operand_bits" by (intro bits_set_le) (simp_all add: signed_range_def)
    then have "bits_set (int_val n XOR int_val m) < 2 ^ 57" using operand_bits_small by linarith
    then show ?thesis using True by (simp add: d_def fits_long_def)
  qed (simp add: d_def fits_long_def)
  then show ?thesis using e returns_long_to_integer [of d] unfolding d_def by simp
qed

subsection \<open>Masks and shifts: correctness\<close>

lemma operand_capacity: "k \<le> operand_bits \<Longrightarrow> k + 124 \<le> bit_capacity" "k \<le> operand_bits \<Longrightarrow> k < 2 ^ 64 - 64"
  by (simp_all add: operand_bits_def bit_capacity_def BIGNUM_LENGTH_MAX_def BIGNUM_RADIX_eq BIGNUM_DIGIT_LENGTH_def)

lemma mask_value:
  assumes "0 < n" "n + m \<le> 57"
  shows "uint (push_bit m (NOT (push_bit n (NOT 0))) :: ulong) = (2 ^ n - 1) * 2 ^ m" "((2 :: int) ^ n - 1) * 2 ^ m < 2 ^ 57"
proof -
  have k: "(2 :: int) ^ (n + m) \<le> 2 ^ 57" using assms(2) by (intro power_increasing) simp_all
  have "((2 :: int) ^ n - 1) * 2 ^ m = 2 ^ (n + m) - 2 ^ m" by (simp add: algebra_simps power_add)
  moreover have "(0 :: int) < 2 ^ m" by simp
  ultimately show lt: "((2 :: int) ^ n - 1) * 2 ^ m < 2 ^ 57" using k by linarith
  have "NOT (push_bit n (NOT (0 :: ulong))) = mask n" by (rule bit_eqI) (simp add: bit_simps)
  moreover have "uint (mask n :: ulong) = 2 ^ n - 1"
    using assms uint_mask_eq [of n, where 'a = 64] by (simp add: mask_eq_exp_minus_1 min_def)
  ultimately have "uint (NOT (push_bit n (NOT 0)) :: ulong) = 2 ^ n - 1" by metis
  then show "uint (push_bit m (NOT (push_bit n (NOT 0))) :: ulong) = (2 ^ n - 1) * 2 ^ m"
    using lt by (subst uint_push_bit_ulong) (simp_all add: push_bit_eq_mult)
qed

lemma mask_large:
  assumes "0 < n" "57 < n + m"
  shows "\<not> fits_fixnum ((2 ^ n - 1) * 2 ^ m)" "\<not> fits_fixnum (NOT ((2 ^ n - 1) * 2 ^ m))"
proof -
  have "(2 :: int) ^ n = 2 * 2 ^ (n - 1)" using assms(1) by (cases n) simp_all
  then have "(2 :: int) ^ (n - 1) * 2 ^ m \<le> (2 ^ n - 1) * 2 ^ m" by (intro mult_right_mono) simp_all
  moreover have "(2 :: int) ^ 57 \<le> 2 ^ (n - 1 + m)" using assms by (intro power_increasing) linarith+
  ultimately have "(2 :: int) ^ 57 \<le> (2 ^ n - 1) * 2 ^ m" unfolding power_add by linarith
  then show "\<not> fits_fixnum ((2 ^ n - 1) * 2 ^ m)" "\<not> fits_fixnum (NOT ((2 ^ n - 1) * 2 ^ m))"
    by (simp_all add: fits_fixnum_iff not_int_def)
qed

lemma sint_small: "uint w < 2 ^ 57 \<Longrightarrow> sint w = uint w" for w :: ulong
  by (simp add: sint_ulong)

lemma returns_integer_masks [val_simps]:
  assumes "n + m \<le> operand_bits"
  shows "returns_int (integer_nonnegative_one_bits n m) ((2 ^ n - 1) * 2 ^ m)"
    "returns_int (integer_negative_zero_bits n m) (NOT ((2 ^ n - 1) * 2 ^ m))"
proof -
  define v :: int where "v = (2 ^ n - 1) * 2 ^ m"
  have M: "(n + m) mod 2 ^ 64 = n + m" using operand_capacity(2) [OF assms] by (intro mod_less) simp
  consider "n = 0" | "0 < n" "n + m \<le> 57" | "0 < n" "57 < n + m" by linarith
  then have "returns_int (integer_nonnegative_one_bits n m) v \<and> returns_int (integer_negative_zero_bits n m) (NOT v)"
  proof cases
    case 1
    then show ?thesis using returns_int_fixnum [of 0] returns_int_fixnum [of "- 1"]
      by (simp add: v_def integer_nonnegative_one_bits_def integer_negative_zero_bits_def fixnum_object_def fits_fixnum_iff)
  next
    case 2
    note mv = mask_value [OF 2, folded v_def]
    have "0 \<le> v" by (simp add: v_def)
    then have f: "fits_fixnum v" "fits_fixnum (NOT v)" using mv(2) by (simp_all add: fits_fixnum_iff not_int_def)
    have "ULONG_TO_FIXNUM (push_bit m (NOT (push_bit n (NOT 0)))) = LONG_TO_FIXNUM v"
      using mv ULONG_TO_FIXNUM_eq [of "push_bit m (NOT (push_bit n (NOT 0)))"] by simp
    moreover have "sint (push_bit m (NOT (push_bit n (NOT 0))) :: ulong) = v" using mv sint_small by metis
    ultimately show ?thesis using 2 M returns_int_fixnum [OF f(1)] returns_int_fixnum [OF f(2)]
      by (simp add: integer_nonnegative_one_bits_def integer_negative_zero_bits_def FIXNUM_LENGTH_def c_shift_def fixnum_object_def)
  next
    case 3
    have r: "returns_bignum (bignum_nonnegative_one_bits n m) v"
      unfolding v_def using operand_capacity(1) [OF assms] by (intro returns_nonnegative_one_bits) simp
    then obtain b where b: "bignum_nonnegative_one_bits n m = Some b" "bignum_wf b" "bignum_val b = v" by (auto simp: returns_bignum_def)
    have "v = 2 ^ (n + m) - 2 ^ m" by (simp add: v_def algebra_simps power_add)
    moreover have "(0 :: int) < 2 ^ m" by simp
    moreover have "(2 :: int) ^ (n + m) < 2 ^ bit_capacity"
      using operand_capacity(1) [OF assms] by (intro power_strict_increasing) simp_all
    moreover have "0 \<le> v" by (simp add: v_def)
    ultimately have "\<bar>v\<bar> < 2 ^ bit_capacity" by linarith
    then have "returns_bignum (bignum_negative_zero_bits n m) (NOT v)"
      using returns_bitwise_not [OF b(2)] b by (simp add: bignum_negative_zero_bits_def)
    then show ?thesis
      using 3 M r returns_int_bignum mask_large [OF 3, folded v_def]
      by (simp add: integer_nonnegative_one_bits_def integer_negative_zero_bits_def FIXNUM_LENGTH_def)
  qed
  then show "returns_int (integer_nonnegative_one_bits n m) ((2 ^ n - 1) * 2 ^ m)"
    "returns_int (integer_negative_zero_bits n m) (NOT ((2 ^ n - 1) * 2 ^ m))" by (simp_all add: v_def)
qed

text \<open>The length of the unsigned part decides whether a shifted fixnum is a fixnum.\<close>

lemma shifted_fits_fixnum:
  assumes "bit_length (unsigned_part v) l" "v \<noteq> 0"
  shows "fits_fixnum (v * 2 ^ m) \<longleftrightarrow> m + l \<le> 57"
proof
  assume le: "m + l \<le> 57"
  have "unsigned_part v < 2 ^ l" using assms(1) by (simp add: bit_length_def)
  then have "signed_range l v" by (auto simp: unsigned_part_def signed_range_def not_int_def split: if_splits)
  then have "- (2 ^ l) * 2 ^ m \<le> v * 2 ^ m" "v * 2 ^ m < 2 ^ l * 2 ^ m"
    unfolding signed_range_def by (intro mult_right_mono mult_strict_right_mono; simp)+
  moreover have "(2 :: int) ^ l * 2 ^ m \<le> 2 ^ 57"
    using le power_increasing [of "l + m" 57 "2 :: int"] by (simp add: power_add)
  ultimately show "fits_fixnum (v * 2 ^ m)" unfolding fits_fixnum_iff by linarith
next
  assume fit: "fits_fixnum (v * 2 ^ m)"
  show "m + l \<le> 57"
  proof (rule ccontr)
    assume "\<not> m + l \<le> 57"
    then have big: "(2 :: int) ^ 57 \<le> 2 ^ (l - 1) * 2 ^ m" if "l \<noteq> 0"
    proof -
      have "57 \<le> l - 1 + m" using that \<open>\<not> m + l \<le> 57\<close> by simp
      then have "(2 :: int) ^ 57 \<le> 2 ^ (l - 1 + m)" by (intro power_increasing) simp_all
      then show ?thesis unfolding power_add .
    qed
    have neg: "(2 :: int) ^ 58 \<le> 2 ^ m" if "l = 0"
      using that \<open>\<not> m + l \<le> 57\<close> by (intro power_increasing) simp_all
    have lo: "l = 0 \<or> 2 ^ (l - 1) \<le> unsigned_part v" "l = 0 \<longrightarrow> unsigned_part v < 1" using assms(1) by (auto simp: bit_length_def)
    show False
    proof (cases "v < 0")
      case True
      show False
      proof (cases "l = 0")
        case True
        then have "v = - 1" using lo(2) \<open>v < 0\<close> by (simp add: unsigned_part_def not_int_def)
        then show False using fit neg [OF True] by (simp add: fits_fixnum_iff)
      next
        case False
        then have "v + 1 \<le> - (2 ^ (l - 1))" using lo(1) \<open>v < 0\<close> by (simp add: unsigned_part_def not_int_def)
        then have "(v + 1) * 2 ^ m \<le> - (2 ^ (l - 1)) * 2 ^ m" by (intro mult_right_mono) simp_all
        moreover have "(0 :: int) < 2 ^ m" by simp
        ultimately have "v * 2 ^ m < - (2 ^ (l - 1) * 2 ^ m)" unfolding distrib_right mult_minus_left by linarith
        then show False using fit big [OF False] unfolding fits_fixnum_iff by linarith
      qed
    next
      case pos: False
      then have "l \<noteq> 0" using lo(2) assms(2) by (auto simp: unsigned_part_def)
      moreover have "2 ^ (l - 1) * 2 ^ m \<le> v * 2 ^ m" using lo(1) pos \<open>l \<noteq> 0\<close> by (intro mult_right_mono) (simp_all add: unsigned_part_def)
      ultimately show False using fit big unfolding fits_fixnum_iff by linarith
    qed
  qed
qed


lemma bignum_val_shifted: "\<not> fits_fixnum v \<Longrightarrow> \<not> fits_fixnum (v * 2 ^ m)"
proof -
  assume "\<not> fits_fixnum v"
  then consider "v < - (2 ^ 57)" | "2 ^ 57 \<le> v" unfolding fits_fixnum_iff by linarith
  then show ?thesis
  proof cases
    case 1
    then have "v * 2 ^ m \<le> v * 1" by (intro mult_left_mono_neg) simp_all
    with 1 show ?thesis unfolding fits_fixnum_iff by linarith
  next
    case 2
    then have "v * 1 \<le> v * 2 ^ m" by (intro mult_left_mono) simp_all
    with 2 show ?thesis unfolding fits_fixnum_iff by linarith
  qed
qed

lemma div_range:
  fixes v :: int
  assumes "- (2 ^ n) \<le> v" "v < 2 ^ n"
  shows "- (2 ^ n) \<le> v div 2 ^ m" "v div 2 ^ m < 2 ^ n"
proof -
  have p: "(1 :: int) \<le> 2 ^ m" and q: "(0 :: int) < 2 ^ m" by simp_all
  have "- (2 ^ n) * 2 ^ m \<le> - (2 ^ n) * (1 :: int)" using p by (intro mult_left_mono_neg) simp_all
  then have "- (2 ^ n) * 2 ^ m \<le> v" using assms(1) by linarith
  then show "- (2 ^ n) \<le> v div 2 ^ m" using zdiv_less_iff [OF q, of v "- (2 ^ n)"] by linarith
  have "(2 :: int) ^ n * 1 \<le> 2 ^ n * 2 ^ m" using p by (intro mult_left_mono) simp_all
  then show "v div 2 ^ m < 2 ^ n" using assms(2) zdiv_less_iff [OF q, of v "2 ^ n"] by linarith
qed

lemma fixnum_shift_word:
  assumes "fits_fixnum v" "v \<noteq> 0"
  shows "bit_length (unsigned_part v) (ulong_length_in_bits (word_of_int (unsigned_part v)))"
    "uint (word_of_int \<bar>v\<bar> :: ulong) = \<bar>v\<bar>"
proof -
  have "unsigned_part v < 2 ^ 64" "\<bar>v\<bar> < 2 ^ 64" using assms by (auto simp: fits_fixnum_iff unsigned_part_def not_int_def)
  then show "bit_length (unsigned_part v) (ulong_length_in_bits (word_of_int (unsigned_part v)))"
    "uint (word_of_int \<bar>v\<bar> :: ulong) = \<bar>v\<bar>"
    by (auto intro: bit_length_ulong uint_word_of_int_ulong)
qed

lemma returns_shifted_word:
  assumes "m \<le> operand_bits"
  shows "returns_bignum (unsigned_long_to_shifted_bignum w m False) (uint w * 2 ^ m)"
proof -
  have "m + 124 \<le> 62 * (BIGNUM_LENGTH_MAX - 1)" using operand_capacity(1) [OF assms] by (simp add: bit_capacity_def)
  then have "m div 62 + 3 \<le> BIGNUM_LENGTH_MAX" by linarith
  from returns_unsigned_long_to_shifted [OF this, of w False] show ?thesis by simp
qed

lemma returns_fixnum_shift_left:
  assumes w: "FIXNUM_P w" and m: "m \<noteq> 0" "m \<le> operand_bits"
  shows "returns_int (integer_shift_left (Immediate w) m) (FIXNUM_TO_LONG w * 2 ^ m)"
proof -
  define v where "v = FIXNUM_TO_LONG w"
  define l where "l = ulong_length_in_bits (word_of_int (unsigned_part v))"
  show ?thesis
  proof (cases "v = 0")
    case True
    then show ?thesis using w m returns_int_fixnum [of 0]
      by (simp add: integer_shift_left_def v_def fixnum_object_def fits_fixnum_iff Let_def)
  next
    case nz: False
    have fv: "fits_fixnum v" using w by (simp add: v_def)
    note fw = fixnum_shift_word [OF fv nz, folded l_def]
    have "l \<le> 57" using fixnum_bits(2) [OF w] by (intro bit_length_le [OF fw(1)]) (simp add: v_def)
    then have wrap: "(m + l) mod 2 ^ 64 = m + l" using operand_capacity(2) [OF m(2)] by (intro mod_less) simp
    note fit = shifted_fits_fixnum [OF fw(1) nz, of m]
    have e: "integer_shift_left (Immediate w) m = (if m + l \<le> 57 then c_shift m (fixnum_object (v * 2 ^ m))
      else if v < 0 then do { b \<leftarrow> unsigned_long_to_shifted_bignum (word_of_int \<bar>v\<bar>) m False; map_option Bignum (bignum_negate b) }
      else map_option Bignum (unsigned_long_to_shifted_bignum (word_of_int \<bar>v\<bar>) m False))"
      using w m nz wrap
      by (auto simp: integer_shift_left_def v_def l_def unsigned_part_def FIXNUM_LENGTH_def Let_def push_bit_eq_mult abs_if)
    have r: "returns_bignum (unsigned_long_to_shifted_bignum (word_of_int \<bar>v\<bar>) m False) (\<bar>v\<bar> * 2 ^ m)"
      using returns_shifted_word [OF m(2), of "word_of_int \<bar>v\<bar>"] fw(2) by simp
    then obtain b where b: "unsigned_long_to_shifted_bignum (word_of_int \<bar>v\<bar>) m False = Some b" "bignum_wf b" "bignum_val b = \<bar>v\<bar> * 2 ^ m"
      by (auto simp: returns_bignum_def)
    consider "m + l \<le> 57" | "\<not> m + l \<le> 57" "v < 0" | "\<not> m + l \<le> 57" "\<not> v < 0" by blast
    then have "returns_int (integer_shift_left (Immediate w) m) (v * 2 ^ m)"
    proof cases
      case 1
      then show ?thesis using e fit returns_int_fixnum [of "v * 2 ^ m"] by (simp add: c_shift_def fixnum_object_def)
    next
      case 2
      then show ?thesis using e b fit returns_int_bignum [OF returns_negate [OF b(2)]] by simp
    next
      case 3
      then show ?thesis using e fit returns_int_bignum [OF r] by simp
    qed
    then show ?thesis by (simp add: v_def)
  qed
qed

lemma returns_integer_shift_left [val_simps]:
  assumes "integer_operand n" "m \<le> operand_bits"
  shows "returns_int (integer_shift_left n m) (int_val n * 2 ^ m)"
proof (cases "m = 0")
  case True
  then show ?thesis using integer_operand_wf [OF assms(1)] by (simp add: integer_shift_left_def returns_int_def)
next
  case m: False
  show ?thesis using integer_operand_wf [OF assms(1)]
  proof (cases rule: if_fixnum_cases)
    case (1 w)
    then show ?thesis using returns_fixnum_shift_left [OF 1(2) m assms(2)] by simp
  next
    case (2 b)
    have "BIGNUM_LENGTH b \<le> 2 ^ 30" using assms(1) 2 by (intro operand_length) (simp_all add: integer_operand_def)
    moreover have "m div 62 \<le> 2 ^ 30" using assms(2) by (simp add: operand_bits_def)
    ultimately have "BIGNUM_LENGTH b + m div 62 + 1 \<le> BIGNUM_LENGTH_MAX" using LENGTH_MAX_operands by fastforce
    then have r: "returns_bignum (bignum_shift_left b m) (bignum_val b * 2 ^ m)" by (rule returns_shift_left [OF 2(2)])
    have "\<not> fits_fixnum (bignum_val b * 2 ^ m)"
      using 2(3,4) bignum_val_shifted [of "bignum_val b" m] by simp
    then show ?thesis using 2 m returns_int_bignum [OF r] by (simp add: integer_shift_left_def)
  qed
qed

lemma returns_integer_shift_right [val_simps]:
  assumes "integer_operand n"
  shows "returns_int (integer_shift_right n m) (int_val n div 2 ^ m)"
proof (cases "m = 0")
  case True
  then show ?thesis using integer_operand_wf [OF assms] by (simp add: integer_shift_right_def returns_int_def)
next
  case m: False
  show ?thesis using integer_operand_wf [OF assms]
  proof (cases rule: if_fixnum_cases)
    case (1 w)
    define v where "v = int_val n"
    have r: "signed_range 57 v" using 1(4) by (simp add: fits_fixnum_range v_def)
    have f: "fits_fixnum (v div 2 ^ m)"
    proof -
      have "- (2 ^ 57) \<le> v div 2 ^ m" "v div 2 ^ m < 2 ^ 57"
        using r div_range [of 57 v m] by (simp_all add: signed_range_def)
      then show ?thesis by (simp add: fits_fixnum_iff)
    qed
    have big: "v div 2 ^ m = (if v < 0 then - 1 else 0)" if "64 \<le> m"
    proof -
      have "(2 :: int) ^ 57 \<le> 2 ^ m" using that by (intro power_increasing) simp_all
      then have "- (2 ^ m) \<le> v" "v < 2 ^ m" using r unfolding signed_range_def by linarith+
      then show ?thesis using div_mod_unique_int(1) [of v "- 1" "2 ^ m" "v + 2 ^ m"] by auto
    qed
    have nd: "NOT (drop_bit m (NOT v)) = v div 2 ^ m"
      unfolding drop_bit_eq_div [symmetric] by (rule bit_eqI) (simp add: bit_simps)
    have "integer_shift_right n m = fixnum_object (v div 2 ^ m)"
      using 1 m big nd by (auto simp: integer_shift_right_def v_def Let_def drop_bit_eq_div)
    then show ?thesis using returns_int_fixnum [OF f] by (simp add: fixnum_object_def v_def)
  next
    case (2 b)
    have op: "\<bar>bignum_val b\<bar> < 2 ^ operand_bits" using assms 2 by (simp add: integer_operand_def)
    have len: "BIGNUM_LENGTH b < BIGNUM_LENGTH_MAX" by (rule LENGTH_MAX_operand [OF operand_length [OF 2(2) op]])
    have "returns_bignum (bignum_shift_right (uint SHARP_F) b m) (bignum_val b div 2 ^ m)"
      using 2(2) len by (intro returns_shift_right) simp_all
    moreover have "\<bar>bignum_val b div 2 ^ m\<bar> < 2 ^ result_bits"
      using div_range [of operand_bits "bignum_val b" m] abs_signed_range [OF op] by (intro signed_range_result) (simp add: signed_range_def)
    ultimately show ?thesis using 2 m returns_to_integer by (simp add: integer_shift_right_def)
  qed
qed

subsection \<open>Properties\<close>

lemmas integer_bitwise_defs = integer_bitwise_and_def integer_bitwise_andc2_def integer_bitwise_andc1_def
  integer_bitwise_xor_def integer_bitwise_ior_def integer_bitwise_nor_def integer_bitwise_eqv_def
  integer_bitwise_orc2_def integer_bitwise_orc1_def integer_bitwise_nand_def

text \<open>C22: the complement and the ten two-operand bitwise operations on integers of any size and
  representation return the two's complement result in canonical form.\<close>

theorem integer_bitwise:
  assumes "integer_operand n" "integer_operand m"
  defines "a \<equiv> int_val n" and "b \<equiv> int_val m"
  shows "returns_int (integer_bitwise_not n) (NOT a)
       \<and> returns_int (integer_bitwise_and n m) (a AND b) \<and> returns_int (integer_bitwise_andc2 n m) (a AND NOT b)
       \<and> returns_int (integer_bitwise_andc1 n m) (b AND NOT a) \<and> returns_int (integer_bitwise_xor n m) (a XOR b)
       \<and> returns_int (integer_bitwise_ior n m) (a OR b) \<and> returns_int (integer_bitwise_nor n m) (NOT (a OR b))
       \<and> returns_int (integer_bitwise_eqv n m) (NOT (a XOR b)) \<and> returns_int (integer_bitwise_orc2 n m) (a OR NOT b)
       \<and> returns_int (integer_bitwise_orc1 n m) (b OR NOT a) \<and> returns_int (integer_bitwise_nand n m) (NOT (a AND b))"
  using returns_integer_bitwise_not [OF assms(1)] int_and.correct [OF assms(1,2)] int_andc2.correct [OF assms(1,2)]
    int_andc1.correct [OF assms(1,2)] int_xor.correct [OF assms(1,2)] int_ior.correct [OF assms(1,2)]
    int_nor.correct [OF assms(1,2)] int_eqv.correct [OF assms(1,2)] int_orc2.correct [OF assms(1,2)]
    int_orc1.correct [OF assms(1,2)] int_nand.correct [OF assms(1,2)]
  unfolding a_def b_def integer_bitwise_defs bitwise_dispatch BITWISE_and_def BITWISE_andc2_def BITWISE_andc1_def
    BITWISE_xor_def BITWISE_ior_def BITWISE_nor_def BITWISE_eqv_def BITWISE_orc2_def BITWISE_orc1_def BITWISE_nand_def
  by (intro conjI)

theorem integer_bitwise_witness:
  "returns_int (integer_bitwise_and (Bignum (mk_bignum True [0, 1])) (Immediate (LONG_TO_FIXNUM (- 7)))) (- (2 ^ 62))
   \<and> returns_int (integer_bitwise_xor (Bignum (mk_bignum True [0, 1])) (Immediate (LONG_TO_FIXNUM (- 7)))) (2 ^ 62 - 7)"
  using integer_bitwise [OF concrete_operands(1,3)] by (simp add: concrete_bignum fits_fixnum_iff)

text \<open>C23: \<open>integer_shift_left\<close> multiplies by a power of two and \<open>integer_shift_right\<close> divides by one
  and rounds down, for fixnums and bignums of either sign, with canonical results; the mask
  operations return the numbers with \<open>n\<close> ones, or all but \<open>n\<close> zeros, from bit \<open>m\<close>.\<close>

theorem integer_shifts:
  assumes "integer_operand x" "m \<le> operand_bits" "n + m \<le> operand_bits"
  shows "returns_int (integer_shift_left x m) (int_val x * 2 ^ m)
       \<and> returns_int (integer_shift_right x k) (int_val x div 2 ^ k)
       \<and> returns_int (integer_nonnegative_one_bits n m) ((2 ^ n - 1) * 2 ^ m)
       \<and> returns_int (integer_negative_zero_bits n m) (NOT ((2 ^ n - 1) * 2 ^ m))"
  using assms by (simp add: returns_integer_shift_left returns_integer_shift_right returns_integer_masks)

theorem integer_shifts_witness:
  "returns_int (integer_shift_left (Immediate (LONG_TO_FIXNUM (- 7))) 60) (- (7 * 2 ^ 60))
   \<and> returns_int (integer_shift_right (Immediate (LONG_TO_FIXNUM (- 7))) 1) (- 4)
   \<and> returns_int (integer_nonnegative_one_bits 2 60) (3 * 2 ^ 60)"
proof -
  have "60 \<le> operand_bits" "2 + 60 \<le> operand_bits" by (simp_all add: operand_bits_def)
  from integer_shifts [OF concrete_operands(3) this, of 1] show ?thesis by (simp add: fits_fixnum_iff)
qed

text \<open>C24: the bit queries on integers of any size agree with the two's complement representation:
  \<open>integer_length\<close> is the number of bits without sign, \<open>integer_length_in_bits\<close> that of the
  magnitude, \<open>integer_first_set_bit\<close> the exponent of two in the number (minus one for zero),
  \<open>integer_bit_count\<close> the number of bits that differ from the sign, and \<open>integer_hamming_distance\<close>
  the number of bits in which two numbers differ, or minus one when their signs differ. The length of
  a negative number is that of its complement, so that of -129 is 8 and that of -128 is 7, and the length of 128 is 8; the
  examples for the first two and the formula for positive numbers in the reference manual differ from this.\<close>

theorem integer_bit_queries:
  assumes "integer_operand n" "integer_operand m" "same \<longrightarrow> n = m"
  shows "(\<exists>l. returns_int (integer_length_in_bits n) (int l) \<and> bit_length \<bar>int_val n\<bar> l)
       \<and> (\<exists>l. returns_int (integer_length n) (int l) \<and> bit_length (unsigned_part (int_val n)) l)
       \<and> (if int_val n = 0 then returns_int (integer_first_set_bit n) (- 1)
          else \<exists>r k. returns_int (integer_first_set_bit n) (int r) \<and> int_val n = 2 ^ r * k \<and> odd k)
       \<and> returns_int (integer_bit_count n) (int (bits_set (unsigned_part (int_val n))))
       \<and> returns_int (integer_hamming_distance same n m)
          (if int_val n < 0 \<longleftrightarrow> int_val m < 0 then int (bits_set (int_val n XOR int_val m)) else - 1)"
  using returns_integer_lengths [OF assms(1)] returns_integer_first_set_bit [OF assms(1)]
    returns_integer_bit_count [OF assms(1)] returns_integer_hamming_distance [OF assms] by blast

theorem integer_bit_queries_witness:
  "(\<exists>l. returns_int (integer_length (Immediate (LONG_TO_FIXNUM (- 7)))) (int l) \<and> bit_length 6 l)
   \<and> returns_int (integer_hamming_distance False (Immediate (LONG_TO_FIXNUM (- 7))) (Bignum (mk_bignum False [5, 3]))) (- 1)"
  using integer_bit_queries [OF concrete_operands(3,2), of False]
  by (simp add: concrete_bignum fits_fixnum_iff unsigned_part_def)

end
