(* ===== verification/Integer_Prims.thy ===== *)
theory Integer_Prims
  imports Scheme_Bits
begin

text \<open>
  The integer primitives: argument checking (\<open>src/src/microcode/utils.c\<close>), the generic integer
  primitives (\<open>intprm.c\<close>) and the bignum primitives (\<open>bigprm.c\<close>). A primitive returns or signals an error on one
  of its arguments.
\<close>

subsection \<open>Results of primitives\<close>

text \<open>\<open>None\<close> is a failed assertion or undefined behaviour, which the theorems below exclude.\<close>

type_synonym 'a prim = "(prim_error + 'a) option"

definition bind_prim :: "'a prim \<Rightarrow> ('a \<Rightarrow> 'b prim) \<Rightarrow> 'b prim" where
  "bind_prim m f = Option.bind m (case_sum (\<lambda>e. Some (Inl e)) f)"

definition PRIMITIVE_RETURN :: "'a option \<Rightarrow> 'a prim" where
  "PRIMITIVE_RETURN r = map_option Inr r"

definition error_wrong_type_arg :: "nat \<Rightarrow> 'a prim" where "error_wrong_type_arg n = Some (Inl (Wrong_Type n))"
definition error_bad_range_arg :: "nat \<Rightarrow> 'a prim" where "error_bad_range_arg n = Some (Inl (Bad_Range n))"

definition CHECK_ARG :: "nat \<Rightarrow> (obj \<Rightarrow> bool) \<Rightarrow> obj \<Rightarrow> 'a prim \<Rightarrow> 'a prim" where
  "CHECK_ARG argument type_p a rest = (if \<not> type_p a then error_wrong_type_arg argument else rest)"

definition BOOLEAN_OBJECT :: "bool option \<Rightarrow> obj prim" where
  "BOOLEAN_OBJECT b = PRIMITIVE_RETURN (map_option (\<lambda>b. Immediate (BOOLEAN_TO_OBJECT b)) b)"

fun BIGNUM_P :: "obj \<Rightarrow> bool" where "BIGNUM_P (Bignum b) = True" | "BIGNUM_P _ = False"
fun PAIR_P :: "obj \<Rightarrow> bool" where "PAIR_P (Pair_Object a d) = True" | "PAIR_P _ = False"

subsection \<open>Argument checking\<close>

definition arg_integer :: "nat \<Rightarrow> obj \<Rightarrow> long prim" where
  "arg_integer arg_number object =
    (if \<not> INTEGER_P object then error_wrong_type_arg arg_number
     else Option.bind (integer_to_long_p object) (\<lambda>p.
       if \<not> p then error_bad_range_arg arg_number else PRIMITIVE_RETURN (integer_to_long object)))"

definition arg_integer_to_intmax :: "nat \<Rightarrow> obj \<Rightarrow> long prim" where
  "arg_integer_to_intmax arg_number object =
    (if \<not> INTEGER_P object then error_wrong_type_arg arg_number
     else Option.bind (integer_to_intmax_p object) (\<lambda>p.
       if \<not> p then error_bad_range_arg arg_number else PRIMITIVE_RETURN (integer_to_intmax object)))"

definition arg_nonnegative_integer :: "nat \<Rightarrow> obj \<Rightarrow> long prim" where
  "arg_nonnegative_integer arg_number object =
    bind_prim (arg_integer arg_number object) (\<lambda>result.
      if result < 0 then error_bad_range_arg arg_number else PRIMITIVE_RETURN (Some result))"

definition arg_index_integer :: "nat \<Rightarrow> long \<Rightarrow> obj \<Rightarrow> long prim" where
  "arg_index_integer arg_number upper_limit object =
    bind_prim (arg_integer arg_number object) (\<lambda>result.
      if result < 0 \<or> result \<ge> upper_limit then error_bad_range_arg arg_number else PRIMITIVE_RETURN (Some result))"

definition arg_index_integer_to_intmax :: "nat \<Rightarrow> long \<Rightarrow> obj \<Rightarrow> long prim" where
  "arg_index_integer_to_intmax arg_number upper_limit object =
    bind_prim (arg_integer_to_intmax arg_number object) (\<lambda>result.
      if result < 0 \<or> result \<ge> upper_limit then error_bad_range_arg arg_number else PRIMITIVE_RETURN (Some result))"

definition arg_integer_in_range :: "nat \<Rightarrow> long \<Rightarrow> long \<Rightarrow> obj \<Rightarrow> long prim" where
  "arg_integer_in_range arg_number lower_limit upper_limit object =
    bind_prim (arg_integer arg_number object) (\<lambda>result.
      if result < lower_limit \<or> result \<ge> upper_limit then error_bad_range_arg arg_number else PRIMITIVE_RETURN (Some result))"

definition arg_ulong_integer :: "nat \<Rightarrow> obj \<Rightarrow> ulong prim" where
  "arg_ulong_integer arg_number object =
    (if \<not> INTEGER_P object then error_wrong_type_arg arg_number
     else Option.bind (integer_to_ulong_p object) (\<lambda>p.
       if \<not> p then error_bad_range_arg arg_number else PRIMITIVE_RETURN (integer_to_ulong object)))"

definition arg_ulong_index_integer :: "nat \<Rightarrow> ulong \<Rightarrow> obj \<Rightarrow> ulong prim" where
  "arg_ulong_index_integer arg_number upper_limit object =
    bind_prim (arg_ulong_integer arg_number object) (\<lambda>result.
      if result \<ge> upper_limit then error_bad_range_arg arg_number else PRIMITIVE_RETURN (Some result))"

definition arg_ulong_integer_in_range :: "nat \<Rightarrow> ulong \<Rightarrow> ulong \<Rightarrow> obj \<Rightarrow> ulong prim" where
  "arg_ulong_integer_in_range arg_number lower_limit upper_limit object =
    bind_prim (arg_ulong_integer arg_number object) (\<lambda>result.
      if \<not> (result \<ge> lower_limit \<and> result < upper_limit) then error_bad_range_arg arg_number
      else PRIMITIVE_RETURN (Some result))"

subsection \<open>Generic integer primitives\<close>

definition INTEGER_TEST :: "(obj \<Rightarrow> bool option) \<Rightarrow> obj \<Rightarrow> obj prim" where
  "INTEGER_TEST test a1 = CHECK_ARG 1 INTEGER_P a1 (BOOLEAN_OBJECT (test a1))"

definition Prim_integer_zero_p :: "obj \<Rightarrow> obj prim" where "Prim_integer_zero_p = INTEGER_TEST integer_zero_p"
definition Prim_integer_negative_p :: "obj \<Rightarrow> obj prim" where "Prim_integer_negative_p = INTEGER_TEST integer_negative_p"
definition Prim_integer_positive_p :: "obj \<Rightarrow> obj prim" where "Prim_integer_positive_p = INTEGER_TEST integer_positive_p"

definition INTEGER_COMPARISON :: "(obj \<Rightarrow> obj \<Rightarrow> bool option) \<Rightarrow> obj \<Rightarrow> obj \<Rightarrow> obj prim" where
  "INTEGER_COMPARISON comparison a1 a2 =
    CHECK_ARG 1 INTEGER_P a1 (CHECK_ARG 2 INTEGER_P a2 (BOOLEAN_OBJECT (comparison a1 a2)))"

definition Prim_integer_equal_p :: "obj \<Rightarrow> obj \<Rightarrow> obj prim" where "Prim_integer_equal_p = INTEGER_COMPARISON integer_equal_p"
definition Prim_integer_less_p :: "obj \<Rightarrow> obj \<Rightarrow> obj prim" where "Prim_integer_less_p = INTEGER_COMPARISON integer_less_p"

definition Prim_integer_greater_p :: "obj \<Rightarrow> obj \<Rightarrow> obj prim" where
  "Prim_integer_greater_p a1 a2 =
    CHECK_ARG 1 INTEGER_P a1 (CHECK_ARG 2 INTEGER_P a2 (BOOLEAN_OBJECT (integer_less_p a2 a1)))"

definition INTEGER_BINARY_OPERATION :: "(obj \<Rightarrow> obj \<Rightarrow> obj option) \<Rightarrow> obj \<Rightarrow> obj \<Rightarrow> obj prim" where
  "INTEGER_BINARY_OPERATION operator a1 a2 =
    CHECK_ARG 1 INTEGER_P a1 (CHECK_ARG 2 INTEGER_P a2 (PRIMITIVE_RETURN (operator a1 a2)))"

definition Prim_integer_add :: "obj \<Rightarrow> obj \<Rightarrow> obj prim" where "Prim_integer_add = INTEGER_BINARY_OPERATION integer_add"
definition Prim_integer_subtract :: "obj \<Rightarrow> obj \<Rightarrow> obj prim" where "Prim_integer_subtract = INTEGER_BINARY_OPERATION integer_subtract"
definition Prim_integer_multiply :: "obj \<Rightarrow> obj \<Rightarrow> obj prim" where "Prim_integer_multiply = INTEGER_BINARY_OPERATION integer_multiply"
definition Prim_integer_hamming_distance :: "bool \<Rightarrow> obj \<Rightarrow> obj \<Rightarrow> obj prim" where
  "Prim_integer_hamming_distance same = INTEGER_BINARY_OPERATION (integer_hamming_distance same)"
definition Prim_integer_bitwise_and :: "obj \<Rightarrow> obj \<Rightarrow> obj prim" where "Prim_integer_bitwise_and = INTEGER_BINARY_OPERATION integer_bitwise_and"
definition Prim_integer_bitwise_andc2 :: "obj \<Rightarrow> obj \<Rightarrow> obj prim" where "Prim_integer_bitwise_andc2 = INTEGER_BINARY_OPERATION integer_bitwise_andc2"
definition Prim_integer_bitwise_andc1 :: "obj \<Rightarrow> obj \<Rightarrow> obj prim" where "Prim_integer_bitwise_andc1 = INTEGER_BINARY_OPERATION integer_bitwise_andc1"
definition Prim_integer_bitwise_xor :: "obj \<Rightarrow> obj \<Rightarrow> obj prim" where "Prim_integer_bitwise_xor = INTEGER_BINARY_OPERATION integer_bitwise_xor"
definition Prim_integer_bitwise_ior :: "obj \<Rightarrow> obj \<Rightarrow> obj prim" where "Prim_integer_bitwise_ior = INTEGER_BINARY_OPERATION integer_bitwise_ior"
definition Prim_integer_bitwise_nor :: "obj \<Rightarrow> obj \<Rightarrow> obj prim" where "Prim_integer_bitwise_nor = INTEGER_BINARY_OPERATION integer_bitwise_nor"
definition Prim_integer_bitwise_eqv :: "obj \<Rightarrow> obj \<Rightarrow> obj prim" where "Prim_integer_bitwise_eqv = INTEGER_BINARY_OPERATION integer_bitwise_eqv"
definition Prim_integer_bitwise_orc2 :: "obj \<Rightarrow> obj \<Rightarrow> obj prim" where "Prim_integer_bitwise_orc2 = INTEGER_BINARY_OPERATION integer_bitwise_orc2"
definition Prim_integer_bitwise_orc1 :: "obj \<Rightarrow> obj \<Rightarrow> obj prim" where "Prim_integer_bitwise_orc1 = INTEGER_BINARY_OPERATION integer_bitwise_orc1"
definition Prim_integer_bitwise_nand :: "obj \<Rightarrow> obj \<Rightarrow> obj prim" where "Prim_integer_bitwise_nand = INTEGER_BINARY_OPERATION integer_bitwise_nand"

definition INTEGER_UNARY_OPERATION :: "(obj \<Rightarrow> obj option) \<Rightarrow> obj \<Rightarrow> obj prim" where
  "INTEGER_UNARY_OPERATION operator a1 = CHECK_ARG 1 INTEGER_P a1 (PRIMITIVE_RETURN (operator a1))"

definition Prim_integer_negate :: "obj \<Rightarrow> obj prim" where "Prim_integer_negate = INTEGER_UNARY_OPERATION integer_negate"
definition Prim_integer_add_1 :: "obj \<Rightarrow> obj prim" where "Prim_integer_add_1 = INTEGER_UNARY_OPERATION integer_add_1"
definition Prim_integer_subtract_1 :: "obj \<Rightarrow> obj prim" where "Prim_integer_subtract_1 = INTEGER_UNARY_OPERATION integer_subtract_1"
definition Prim_integer_length_in_bits :: "obj \<Rightarrow> obj prim" where "Prim_integer_length_in_bits = INTEGER_UNARY_OPERATION integer_length_in_bits"
definition Prim_integer_length :: "obj \<Rightarrow> obj prim" where "Prim_integer_length = INTEGER_UNARY_OPERATION integer_length"
definition Prim_integer_first_set_bit :: "obj \<Rightarrow> obj prim" where "Prim_integer_first_set_bit = INTEGER_UNARY_OPERATION integer_first_set_bit"
definition Prim_integer_bit_count :: "obj \<Rightarrow> obj prim" where "Prim_integer_bit_count = INTEGER_UNARY_OPERATION integer_bit_count"
definition Prim_integer_bitwise_not :: "obj \<Rightarrow> obj prim" where "Prim_integer_bitwise_not = INTEGER_UNARY_OPERATION integer_bitwise_not"

definition Prim_integer_divide :: "obj \<Rightarrow> obj \<Rightarrow> obj prim" where
  "Prim_integer_divide a1 a2 =
    CHECK_ARG 1 INTEGER_P a1 (CHECK_ARG 2 INTEGER_P a2
      (Option.bind (integer_divide a1 a2) (\<lambda>qr. case qr of
         None \<Rightarrow> error_bad_range_arg 2
       | Some (q, r) \<Rightarrow> PRIMITIVE_RETURN (Some (Pair_Object q r)))))"

definition INTEGER_QR :: "(obj \<Rightarrow> obj \<Rightarrow> obj option) \<Rightarrow> obj \<Rightarrow> obj \<Rightarrow> obj prim" where
  "INTEGER_QR operator a1 a2 =
    CHECK_ARG 1 INTEGER_P a1 (CHECK_ARG 2 INTEGER_P a2
      (Option.bind (operator a1 a2) (\<lambda>result.
         if result = Immediate SHARP_F then error_bad_range_arg 2 else PRIMITIVE_RETURN (Some result))))"

definition Prim_integer_quotient :: "obj \<Rightarrow> obj \<Rightarrow> obj prim" where "Prim_integer_quotient = INTEGER_QR integer_quotient"
definition Prim_integer_remainder :: "obj \<Rightarrow> obj \<Rightarrow> obj prim" where "Prim_integer_remainder = INTEGER_QR integer_remainder"

definition Prim_integer_p :: "obj \<Rightarrow> obj prim" where "Prim_integer_p a1 = BOOLEAN_OBJECT (Some (INTEGER_P a1))"

text \<open>C leaves the order of the two argument checks open; the model takes the first argument first.\<close>

definition Prim_integer_nonnegative_one_bits :: "obj \<Rightarrow> obj \<Rightarrow> obj prim" where
  "Prim_integer_nonnegative_one_bits a1 a2 =
    bind_prim (arg_ulong_integer 1 a1) (\<lambda>n. bind_prim (arg_ulong_integer 2 a2) (\<lambda>m.
      PRIMITIVE_RETURN (integer_nonnegative_one_bits (unat n) (unat m))))"

definition Prim_integer_negative_zero_bits :: "obj \<Rightarrow> obj \<Rightarrow> obj prim" where
  "Prim_integer_negative_zero_bits a1 a2 =
    bind_prim (arg_ulong_integer 1 a1) (\<lambda>n. bind_prim (arg_ulong_integer 2 a2) (\<lambda>m.
      PRIMITIVE_RETURN (integer_negative_zero_bits (unat n) (unat m))))"

definition Prim_integer_shift_left :: "obj \<Rightarrow> obj \<Rightarrow> obj prim" where
  "Prim_integer_shift_left a1 a2 =
    CHECK_ARG 1 INTEGER_P a1 (bind_prim (arg_ulong_integer 2 a2) (\<lambda>m.
      PRIMITIVE_RETURN (integer_shift_left a1 (unat m))))"

definition Prim_integer_shift_right :: "obj \<Rightarrow> obj \<Rightarrow> obj prim" where
  "Prim_integer_shift_right n m =
    CHECK_ARG 1 INTEGER_P n (case m of
       Immediate w \<Rightarrow>
         (if FIXNUM_P w
          then (if FIXNUM_NEGATIVE_P w then error_bad_range_arg 2
                else PRIMITIVE_RETURN (integer_shift_right n (unat (FIXNUM_TO_ULONG w))))
          else error_wrong_type_arg 2)
     | Bignum b \<Rightarrow>
         (if bignum_test b = bignum_comparison_less then error_bad_range_arg 2
          else PRIMITIVE_RETURN (Some (Immediate FIXNUM_ZERO)))
     | Pair_Object a d \<Rightarrow> error_wrong_type_arg 2)"

text \<open>The loop that checks the list of digits, and the digits that the producer then reads from it.
  The count of digits and each digit that is produced are \<open>unsigned int\<close> values.\<close>

fun scan_digits :: "ulong \<Rightarrow> obj \<Rightarrow> int list prim" where
  "scan_digits radix (Pair_Object (Immediate digit) rest) =
    (if \<not> UNSIGNED_FIXNUM_P digit then error_wrong_type_arg 1
     else if word_of_int (UNSIGNED_FIXNUM_TO_LONG digit) \<ge> radix then error_bad_range_arg 1
     else (let d = UNSIGNED_FIXNUM_TO_LONG digit mod 2 ^ 32
           in case rest of
                Immediate w \<Rightarrow> (if w = EMPTY_LIST then Some (Inr [d]) else error_wrong_type_arg 1)
              | Pair_Object a b \<Rightarrow> bind_prim (scan_digits radix rest) (\<lambda>ds. Some (Inr (d # ds)))
              | Bignum b \<Rightarrow> error_wrong_type_arg 1))"
| "scan_digits radix _ = error_wrong_type_arg 1"

definition Prim_list_to_integer :: "obj \<Rightarrow> obj \<Rightarrow> obj \<Rightarrow> obj prim" where
  "Prim_list_to_integer a1 a2 a3 =
    CHECK_ARG 1 PAIR_P a1 (bind_prim (arg_ulong_integer 2 a2) (\<lambda>radix.
      if radix < 2 \<or> radix \<ge> word_of_int bignum_max_digit_stream_radix then error_bad_range_arg 2
      else bind_prim (scan_digits radix a1) (\<lambda>ds.
        let n_digits = length ds mod 2 ^ 32
        in PRIMITIVE_RETURN (do {
             r \<leftarrow> digit_stream_to_bignum (take n_digits ds) (unat radix mod 2 ^ 32) (a3 \<noteq> Immediate SHARP_F);
             bignum_to_integer r }))))"

subsection \<open>Bignum primitives\<close>

definition BIGNUM_TEST :: "(bignum \<Rightarrow> bool) \<Rightarrow> obj \<Rightarrow> obj prim" where
  "BIGNUM_TEST predicate a1 = (case a1 of Bignum b \<Rightarrow> BOOLEAN_OBJECT (Some (predicate b)) | _ \<Rightarrow> error_wrong_type_arg 1)"

definition Prim_bignum_zero_p :: "obj \<Rightarrow> obj prim" where "Prim_bignum_zero_p = BIGNUM_TEST BIGNUM_ZERO_P"
definition Prim_bignum_negative_p :: "obj \<Rightarrow> obj prim" where
  "Prim_bignum_negative_p = BIGNUM_TEST (\<lambda>b. bignum_test b = bignum_comparison_less)"
definition Prim_bignum_positive_p :: "obj \<Rightarrow> obj prim" where
  "Prim_bignum_positive_p = BIGNUM_TEST (\<lambda>b. bignum_test b = bignum_comparison_greater)"

definition with_bignums :: "(bignum \<Rightarrow> bignum \<Rightarrow> 'a prim) \<Rightarrow> obj \<Rightarrow> obj \<Rightarrow> 'a prim" where
  "with_bignums f a1 a2 =
    (case a1 of Bignum x \<Rightarrow> (case a2 of Bignum y \<Rightarrow> f x y | _ \<Rightarrow> error_wrong_type_arg 2) | _ \<Rightarrow> error_wrong_type_arg 1)"

definition BIGNUM_COMPARISON :: "(bignum \<Rightarrow> bignum \<Rightarrow> bool) \<Rightarrow> obj \<Rightarrow> obj \<Rightarrow> obj prim" where
  "BIGNUM_COMPARISON predicate = with_bignums (\<lambda>x y. BOOLEAN_OBJECT (Some (predicate x y)))"

definition Prim_bignum_equal_p :: "obj \<Rightarrow> obj \<Rightarrow> obj prim" where "Prim_bignum_equal_p = BIGNUM_COMPARISON bignum_equal_p"
definition Prim_bignum_less_p :: "obj \<Rightarrow> obj \<Rightarrow> obj prim" where "Prim_bignum_less_p = BIGNUM_COMPARISON BIGNUM_LESS_P"

definition BIGNUM_BINARY :: "(bignum \<Rightarrow> bignum \<Rightarrow> bignum option) \<Rightarrow> obj \<Rightarrow> obj \<Rightarrow> obj prim" where
  "BIGNUM_BINARY operator = with_bignums (\<lambda>x y. PRIMITIVE_RETURN (map_option Bignum (operator x y)))"

definition Prim_bignum_add :: "obj \<Rightarrow> obj \<Rightarrow> obj prim" where "Prim_bignum_add = BIGNUM_BINARY bignum_add"
definition Prim_bignum_subtract :: "obj \<Rightarrow> obj \<Rightarrow> obj prim" where "Prim_bignum_subtract = BIGNUM_BINARY bignum_subtract"
definition Prim_bignum_multiply :: "obj \<Rightarrow> obj \<Rightarrow> obj prim" where "Prim_bignum_multiply = BIGNUM_BINARY bignum_multiply"

definition Prim_bignum_divide :: "obj \<Rightarrow> obj \<Rightarrow> obj prim" where
  "Prim_bignum_divide = with_bignums (\<lambda>x y. Option.bind (bignum_divide x y) (\<lambda>qr. case qr of
      None \<Rightarrow> error_bad_range_arg 2
    | Some (q, r) \<Rightarrow> PRIMITIVE_RETURN (Some (Pair_Object (Bignum q) (Bignum r)))))"

definition BIGNUM_QR :: "(bignum \<Rightarrow> bignum \<Rightarrow> bignum option option) \<Rightarrow> obj \<Rightarrow> obj \<Rightarrow> obj prim" where
  "BIGNUM_QR operator = with_bignums (\<lambda>x y. Option.bind (operator x y) (\<lambda>result. case result of
      None \<Rightarrow> error_bad_range_arg 2 | Some r \<Rightarrow> PRIMITIVE_RETURN (Some (Bignum r))))"

definition Prim_bignum_quotient :: "obj \<Rightarrow> obj \<Rightarrow> obj prim" where "Prim_bignum_quotient = BIGNUM_QR bignum_quotient"
definition Prim_bignum_remainder :: "obj \<Rightarrow> obj \<Rightarrow> obj prim" where "Prim_bignum_remainder = BIGNUM_QR bignum_remainder"

text \<open>The consumer conses each digit in front of the list so far.\<close>

definition listify_bignum_consumer :: "long \<Rightarrow> obj \<Rightarrow> obj" where
  "listify_bignum_consumer digit previous_cdr = Pair_Object (Immediate (LONG_TO_UNSIGNED_FIXNUM digit)) previous_cdr"

definition Prim_listify_bignum :: "obj \<Rightarrow> obj \<Rightarrow> obj prim" where
  "Prim_listify_bignum a1 a2 =
    (case a1 of
       Bignum bignum \<Rightarrow>
         bind_prim (arg_integer_in_range 2 2 bignum_max_digit_stream_radix a2) (\<lambda>radix.
           if BIGNUM_ZERO_P bignum
           then PRIMITIVE_RETURN (Some (Pair_Object (Immediate (LONG_TO_UNSIGNED_FIXNUM 0)) (Immediate EMPTY_LIST)))
           else PRIMITIVE_RETURN (do {
             ds \<leftarrow> bignum_to_digit_stream bignum (nat radix);
             Some (fold listify_bignum_consumer ds (Immediate EMPTY_LIST)) }))
     | _ \<Rightarrow> error_wrong_type_arg 1)"

definition Prim_fixnum_to_bignum :: "obj \<Rightarrow> obj prim" where
  "Prim_fixnum_to_bignum a1 =
    (case a1 of
       Immediate w \<Rightarrow> (if FIXNUM_P w then PRIMITIVE_RETURN (map_option Bignum (FIXNUM_TO_BIGNUM w)) else error_wrong_type_arg 1)
     | _ \<Rightarrow> error_wrong_type_arg 1)"

definition Prim_bignum_to_fixnum :: "obj \<Rightarrow> obj prim" where
  "Prim_bignum_to_fixnum a1 =
    (case a1 of Bignum b \<Rightarrow> PRIMITIVE_RETURN (map_option Immediate (bignum_to_fixnum b)) | _ \<Rightarrow> error_wrong_type_arg 1)"

text \<open>The result is the C count itself, not a fixnum object that denotes it.\<close>

definition Prim_bignum_length_in_bits :: "obj \<Rightarrow> obj prim" where
  "Prim_bignum_length_in_bits a1 =
    (case a1 of Bignum b \<Rightarrow> PRIMITIVE_RETURN (Some (Immediate (of_nat (bignum_length_in_bits b)))) | _ \<Rightarrow> error_wrong_type_arg 1)"

subsection \<open>Argument checking: correctness\<close>

lemma bind_prim_simps [simp]:
  "bind_prim (Some (Inr x)) f = f x" "bind_prim (Some (Inl e)) f = Some (Inl e)" "bind_prim None f = None"
  by (simp_all add: bind_prim_def)

lemma CHECK_ARG_simps [simp]:
  "p a \<Longrightarrow> CHECK_ARG k p a r = r" "\<not> p a \<Longrightarrow> CHECK_ARG k p a r = Some (Inl (Wrong_Type k))"
  by (simp_all add: CHECK_ARG_def error_wrong_type_arg_def)

lemma PRIMITIVE_RETURN_Some [simp]: "PRIMITIVE_RETURN (Some x) = Some (Inr x)"
  by (simp add: PRIMITIVE_RETURN_def)

lemmas error_defs [simp] = error_wrong_type_arg_def error_bad_range_arg_def

lemma operand_bignum_length: "integer_operand (Bignum b) \<Longrightarrow> BIGNUM_LENGTH b < 2 ^ 32"
  using operand_length [of b] by (simp add: integer_operand_def)

lemma arg_ulong_integer_eq:
  assumes "integer_operand n"
  shows "arg_ulong_integer k n =
    Some (if 0 \<le> int_val n \<and> int_val n < 2 ^ 64 then Inr (word_of_int (int_val n)) else Inl (Bad_Range k))"
  using integer_operand_wf [OF assms]
proof (cases rule: if_fixnum_cases)
  case (1 w)
  then show ?thesis using FIXNUM_NEGATIVE_P_iff [OF 1(2)]
    by (auto simp: arg_ulong_integer_def INTEGER_P_def integer_to_ulong_p_def integer_to_ulong_def fits_fixnum_iff)
next
  case (2 c)
  then show ?thesis using operand_bignum_length assms BIGNUM_TO_ULONG_P_eq [OF 2(2)] bignum_to_ulong_eq [OF 2(2)]
    by (auto simp: arg_ulong_integer_def INTEGER_P_def integer_to_ulong_p_def integer_to_ulong_def)
qed

lemma arg_integer_eq:
  assumes "integer_operand n"
  shows "arg_integer k n =
    Some (if - (2 ^ 63) - 2 ^ 62 < int_val n \<and> int_val n < 2 ^ 63 then Inr (sint (word_of_int (int_val n) :: ulong)) else Inl (Bad_Range k))"
  using integer_operand_wf [OF assms]
proof (cases rule: if_fixnum_cases)
  case (1 w)
  then have "sint (word_of_int (int_val n) :: ulong) = int_val n" by (simp add: sint_word_of_int_ulong fits_fixnum_fits_long)
  then show ?thesis using 1 by (auto simp: arg_integer_def INTEGER_P_def integer_to_long_p_def integer_to_long_def fits_fixnum_iff)
next
  case (2 c)
  then show ?thesis using operand_bignum_length assms BIGNUM_TO_LONG_P_eq [OF 2(2)] bignum_to_long_eq [OF 2(2)]
    by (auto simp: arg_integer_def INTEGER_P_def integer_to_long_p_def integer_to_long_def)
qed

text \<open>A number below \<open>- (2 ^ 63)\<close> that passes the check is read as a positive number above \<open>2 ^ 62\<close>.\<close>

lemma sint_wrapped:
  assumes "- (2 ^ 63) - 2 ^ 62 < v" "v < 2 ^ 63"
  shows "sint (word_of_int v :: ulong) = (if v < - (2 ^ 63) then v + 2 ^ 64 else v)"
proof (cases "v < - (2 ^ 63)")
  case True
  then have "sint (word_of_int (v + 2 ^ 64) :: ulong) = v + 2 ^ 64"
    using assms by (intro sint_word_of_int_ulong) (simp add: fits_long_def)
  moreover have "(word_of_int (v + 2 ^ 64) :: ulong) = word_of_int v" by (simp add: word_of_int_eq_iff take_bit_eq_mod)
  ultimately have "sint (word_of_int v :: ulong) = v + 2 ^ 64" by (simp only:)
  then show ?thesis using True by simp
next
  case False
  then show ?thesis using assms by (simp add: sint_word_of_int_ulong fits_long_def)
qed

text \<open>C39: arguments that must be unsigned words, or indices or range members below a limit of at most \<open>2 ^ 62\<close>, are
  accepted exactly when the integer is in range, and passed on with its value; every other integer
  is a range error and every other object a type error. \<open>arg_nonnegative_integer\<close> in addition
  accepts the integers between \<open>- (2 ^ 63) - 2 ^ 62\<close> and \<open>- (2 ^ 63)\<close> and passes on a wrong, positive value.\<close>

theorem argument_checks:
  assumes "integer_operand n" "limit \<le> 2 ^ 62" "- (2 ^ 63) \<le> low" "\<not> INTEGER_P x"
  defines "v \<equiv> int_val n"
  shows "arg_index_integer k limit n = Some (if 0 \<le> v \<and> v < limit then Inr v else Inl (Bad_Range k))
       \<and> arg_integer_in_range k low limit n = Some (if low \<le> v \<and> v < limit then Inr v else Inl (Bad_Range k))
       \<and> arg_ulong_integer k n = Some (if 0 \<le> v \<and> v < 2 ^ 64 then Inr (word_of_int v) else Inl (Bad_Range k))
       \<and> arg_ulong_index_integer k u n = Some (if 0 \<le> v \<and> v < uint u then Inr (word_of_int v) else Inl (Bad_Range k))
       \<and> arg_nonnegative_integer k n = Some (if 0 \<le> v \<and> v < 2 ^ 63 then Inr v
           else if - (2 ^ 63) - 2 ^ 62 < v \<and> v < - (2 ^ 63) then Inr (v + 2 ^ 64) else Inl (Bad_Range k))
       \<and> arg_integer k x = Some (Inl (Wrong_Type k)) \<and> arg_ulong_integer k x = Some (Inl (Wrong_Type k))"
proof -
  note ai = arg_integer_eq [OF assms(1), of k, folded v_def] and au = arg_ulong_integer_eq [OF assms(1), of k, folded v_def]
  have a: "arg_integer k n = Some (if - (2 ^ 63) - 2 ^ 62 < v \<and> v < 2 ^ 63
      then Inr (if v < - (2 ^ 63) then v + 2 ^ 64 else v) else Inl (Bad_Range k))"
    using sint_wrapped [of v] ai by auto
  have u: "u \<le> word_of_int v \<longleftrightarrow> uint u \<le> v" if "0 \<le> v" "v < 2 ^ 64"
    using that uint_word_of_int_ulong [of v] by (simp add: word_le_def)
  have "arg_ulong_index_integer k u n = Some (if 0 \<le> v \<and> v < uint u then Inr (word_of_int v) else Inl (Bad_Range k))"
    using u au uint_lt2p [of u] by (auto simp: arg_ulong_index_integer_def)
  moreover have "arg_index_integer k limit n = Some (if 0 \<le> v \<and> v < limit then Inr v else Inl (Bad_Range k))"
    "arg_integer_in_range k low limit n = Some (if low \<le> v \<and> v < limit then Inr v else Inl (Bad_Range k))"
    using a assms(2,3) by (auto simp: arg_index_integer_def arg_integer_in_range_def)
  moreover have "arg_nonnegative_integer k n = Some (if 0 \<le> v \<and> v < 2 ^ 63 then Inr v
      else if - (2 ^ 63) - 2 ^ 62 < v \<and> v < - (2 ^ 63) then Inr (v + 2 ^ 64) else Inl (Bad_Range k))"
    using a by (auto simp: arg_nonnegative_integer_def)
  ultimately show ?thesis using au assms(4) by (simp add: arg_integer_def arg_ulong_integer_def)
qed

theorem argument_checks_witness:
  "arg_index_integer 2 16 (Immediate (LONG_TO_FIXNUM 5)) = Some (Inr 5)
   \<and> arg_integer 1 (Immediate 0) = Some (Inl (Wrong_Type 1))"
  using argument_checks [OF concrete_operands(4), of 16 0 "Immediate 0" 2 0]
    argument_checks [OF concrete_operands(4), of 16 0 "Immediate 0" 1 0]
  by (simp add: fits_fixnum_iff INTEGER_P_def)

subsection \<open>Integer primitives: correctness\<close>

definition returns_prim :: "obj prim \<Rightarrow> int \<Rightarrow> bool" where
  "returns_prim r v \<longleftrightarrow> (\<exists>n. r = Some (Inr n) \<and> int_wf n \<and> int_val n = v)"

lemma returns_prim_int: "returns_int r v \<Longrightarrow> returns_prim (PRIMITIVE_RETURN r) v"
  by (auto simp: returns_int_def returns_prim_def)

lemma INTEGER_P_operand: "integer_operand n \<Longrightarrow> INTEGER_P n"
  by (simp add: INTEGER_P_int_wf integer_operand_def)

lemma returns_binary:
  "integer_operand n \<Longrightarrow> integer_operand m \<Longrightarrow> returns_int (f n m) v \<Longrightarrow> returns_prim (INTEGER_BINARY_OPERATION f n m) v"
  by (simp add: INTEGER_BINARY_OPERATION_def INTEGER_P_operand returns_prim_int)

lemma returns_unary: "integer_operand n \<Longrightarrow> returns_int (f n) v \<Longrightarrow> returns_prim (INTEGER_UNARY_OPERATION f n) v"
  by (simp add: INTEGER_UNARY_OPERATION_def INTEGER_P_operand returns_prim_int)

lemma integer_not_SHARP_F: "int_wf n \<Longrightarrow> n \<noteq> Immediate SHARP_F"
  by (cases n) auto

lemma returns_qr:
  assumes "integer_operand n" "integer_operand d"
    and "if int_val d = 0 then f n d = Some (Immediate SHARP_F) else returns_int (f n d) v"
  shows "if int_val d = 0 then INTEGER_QR f n d = Some (Inl (Bad_Range 2)) else returns_prim (INTEGER_QR f n d) v"
  using assms integer_not_SHARP_F by (auto simp: INTEGER_QR_def INTEGER_P_operand returns_int_def returns_prim_def)

lemma INTEGER_TEST_eq: "INTEGER_P a \<Longrightarrow> test a = Some p \<Longrightarrow> INTEGER_TEST test a = Some (Inr (Immediate (BOOLEAN_TO_OBJECT p)))"
  by (simp add: INTEGER_TEST_def BOOLEAN_OBJECT_def)

lemma INTEGER_COMPARISON_eq:
  "INTEGER_P a \<Longrightarrow> INTEGER_P b \<Longrightarrow> test a b = Some p \<Longrightarrow> INTEGER_COMPARISON test a b = Some (Inr (Immediate (BOOLEAN_TO_OBJECT p)))"
  by (simp add: INTEGER_COMPARISON_def BOOLEAN_OBJECT_def)

text \<open>The argument checks of the primitives with one and with two arguments.\<close>

lemmas unary_prims = Prim_integer_negate_def Prim_integer_add_1_def Prim_integer_subtract_1_def INTEGER_UNARY_OPERATION_def
  Prim_integer_zero_p_def Prim_integer_negative_p_def Prim_integer_positive_p_def INTEGER_TEST_def

lemmas binary_prims = Prim_integer_add_def Prim_integer_subtract_def Prim_integer_multiply_def INTEGER_BINARY_OPERATION_def
  Prim_integer_quotient_def Prim_integer_remainder_def INTEGER_QR_def Prim_integer_divide_def
  Prim_integer_equal_p_def Prim_integer_less_p_def INTEGER_COMPARISON_def Prim_integer_greater_p_def

lemma unary_type_errors:
  assumes "\<not> INTEGER_P x"
    and "f \<in> {Prim_integer_negate, Prim_integer_add_1, Prim_integer_subtract_1, Prim_integer_zero_p, Prim_integer_negative_p, Prim_integer_positive_p}"
  shows "f x = Some (Inl (Wrong_Type 1))"
  using assms by (auto simp: unary_prims)

lemma binary_type_errors:
  assumes "\<not> INTEGER_P x" "INTEGER_P n"
    and "f \<in> {Prim_integer_add, Prim_integer_subtract, Prim_integer_multiply, Prim_integer_quotient, Prim_integer_remainder,
      Prim_integer_divide, Prim_integer_equal_p, Prim_integer_less_p, Prim_integer_greater_p}"
  shows "f x y = Some (Inl (Wrong_Type 1))" "f n x = Some (Inl (Wrong_Type 2))"
  using assms by (auto simp: binary_prims)

text \<open>C35: the arithmetic primitives on integers return canonical integers that denote the exact results, and the
  predicates the exact answers; division by zero is a range error of the second argument. For every one of
  these primitives, an argument that is not an integer is a type error of that argument, the first
  argument being checked first.\<close>

theorem integer_primitives:
  assumes "integer_operand n" "integer_operand m" "\<not> INTEGER_P x"
  defines "a \<equiv> int_val n" and "b \<equiv> int_val m"
  shows "returns_prim (Prim_integer_add n m) (a + b) \<and> returns_prim (Prim_integer_subtract n m) (a - b)
       \<and> returns_prim (Prim_integer_multiply n m) (a * b) \<and> returns_prim (Prim_integer_negate n) (- a)
       \<and> returns_prim (Prim_integer_add_1 n) (a + 1) \<and> returns_prim (Prim_integer_subtract_1 n) (a - 1)
       \<and> (if b = 0
          then Prim_integer_quotient n m = Some (Inl (Bad_Range 2)) \<and> Prim_integer_remainder n m = Some (Inl (Bad_Range 2))
            \<and> Prim_integer_divide n m = Some (Inl (Bad_Range 2))
          else returns_prim (Prim_integer_quotient n m) (quot_int a b) \<and> returns_prim (Prim_integer_remainder n m) (rem_int a b)
            \<and> (\<exists>q r. Prim_integer_divide n m = Some (Inr (Pair_Object q r))
                 \<and> returns_int (Some q) (quot_int a b) \<and> returns_int (Some r) (rem_int a b)))
       \<and> Prim_integer_equal_p n m = Some (Inr (Immediate (BOOLEAN_TO_OBJECT (a = b))))
       \<and> Prim_integer_less_p n m = Some (Inr (Immediate (BOOLEAN_TO_OBJECT (a < b))))
       \<and> Prim_integer_greater_p n m = Some (Inr (Immediate (BOOLEAN_TO_OBJECT (b < a))))
       \<and> Prim_integer_zero_p n = Some (Inr (Immediate (BOOLEAN_TO_OBJECT (a = 0))))
       \<and> Prim_integer_negative_p n = Some (Inr (Immediate (BOOLEAN_TO_OBJECT (a < 0))))
       \<and> Prim_integer_positive_p n = Some (Inr (Immediate (BOOLEAN_TO_OBJECT (0 < a))))
       \<and> (\<forall>f \<in> {Prim_integer_negate, Prim_integer_add_1, Prim_integer_subtract_1, Prim_integer_zero_p, Prim_integer_negative_p,
            Prim_integer_positive_p}. f x = Some (Inl (Wrong_Type 1)))
       \<and> (\<forall>f \<in> {Prim_integer_add, Prim_integer_subtract, Prim_integer_multiply, Prim_integer_quotient, Prim_integer_remainder,
            Prim_integer_divide, Prim_integer_equal_p, Prim_integer_less_p, Prim_integer_greater_p}.
            f x y = Some (Inl (Wrong_Type 1)) \<and> f n x = Some (Inl (Wrong_Type 2)))"
proof -
  note op = assms(1,2) and ip = INTEGER_P_operand [OF assms(1)] INTEGER_P_operand [OF assms(2)]
  have "returns_prim (Prim_integer_add n m) (a + b)" "returns_prim (Prim_integer_subtract n m) (a - b)"
    "returns_prim (Prim_integer_multiply n m) (a * b)" "returns_prim (Prim_integer_negate n) (- a)"
    "returns_prim (Prim_integer_add_1 n) (a + 1)" "returns_prim (Prim_integer_subtract_1 n) (a - 1)"
    unfolding a_def b_def Prim_integer_add_def Prim_integer_subtract_def Prim_integer_multiply_def Prim_integer_negate_def
      Prim_integer_add_1_def Prim_integer_subtract_1_def
    by (intro returns_binary returns_unary op returns_integer_add returns_integer_subtract returns_integer_multiply
        returns_integer_negate returns_integer_add_1)+
  moreover have "if b = 0 then Prim_integer_divide n m = Some (Inl (Bad_Range 2))
      else \<exists>q r. Prim_integer_divide n m = Some (Inr (Pair_Object q r)) \<and> returns_int (Some q) (quot_int a b) \<and> returns_int (Some r) (rem_int a b)"
    using returns_integer_divide [OF op] ip by (auto simp: Prim_integer_divide_def a_def b_def)
  moreover have "Prim_integer_equal_p n m = Some (Inr (Immediate (BOOLEAN_TO_OBJECT (a = b))))"
    "Prim_integer_less_p n m = Some (Inr (Immediate (BOOLEAN_TO_OBJECT (a < b))))"
    "Prim_integer_greater_p n m = Some (Inr (Immediate (BOOLEAN_TO_OBJECT (b < a))))"
    using ip integer_comparisons_eq [OF op] integer_comparisons_eq(2) [OF op(2,1)]
    by (simp_all add: Prim_integer_equal_p_def Prim_integer_less_p_def INTEGER_COMPARISON_eq Prim_integer_greater_p_def BOOLEAN_OBJECT_def a_def b_def)
  moreover have "Prim_integer_zero_p n = Some (Inr (Immediate (BOOLEAN_TO_OBJECT (a = 0))))"
    "Prim_integer_negative_p n = Some (Inr (Immediate (BOOLEAN_TO_OBJECT (a < 0))))"
    "Prim_integer_positive_p n = Some (Inr (Immediate (BOOLEAN_TO_OBJECT (0 < a))))"
    using ip(1) integer_tests_eq [OF integer_operand_wf [OF op(1)]]
    by (simp_all add: Prim_integer_zero_p_def Prim_integer_negative_p_def Prim_integer_positive_p_def INTEGER_TEST_eq a_def)
  ultimately show ?thesis
    using returns_qr [where f = integer_quotient, OF op quotient_op.correct [OF op]]
      returns_qr [where f = integer_remainder, OF op remainder_op.correct [OF op]]
      unary_type_errors [OF assms(3)] binary_type_errors [OF assms(3) ip(1)]
    by (cases "b = 0") (simp_all add: Prim_integer_quotient_def Prim_integer_remainder_def a_def b_def)
qed

theorem integer_primitives_witness:
  "returns_prim (Prim_integer_multiply (Bignum (mk_bignum True [0, 1])) (Immediate (LONG_TO_FIXNUM 5))) (- (5 * 2 ^ 62))
   \<and> Prim_integer_add (Immediate 0) (Immediate (LONG_TO_FIXNUM 5)) = Some (Inl (Wrong_Type 1))
   \<and> Prim_integer_greater_p (Bignum (mk_bignum True [0, 1])) (Immediate 0) = Some (Inl (Wrong_Type 2))
   \<and> Prim_integer_negate (Immediate 0) = Some (Inl (Wrong_Type 1))"
  using integer_primitives [OF concrete_operands(1,4), of "Immediate 0" "Immediate (LONG_TO_FIXNUM 5)"]
  by (simp add: concrete_bignum fits_fixnum_iff INTEGER_P_def)

lemma unat_FIXNUM_TO_ULONG:
  assumes "FIXNUM_P w" "0 \<le> FIXNUM_TO_LONG w"
  shows "unat (FIXNUM_TO_ULONG w) = nat (FIXNUM_TO_LONG w)"
proof -
  have "uint (OBJECT_DATUM w) = FIXNUM_TO_LONG w"
    using assms uint_OBJECT_DATUM [of w] by (auto simp: FIXNUM_TO_LONG_eq Let_def split: if_splits)
  then show ?thesis by (simp add: FIXNUM_TO_ULONG_def unat_eq_nat_uint)
qed

text \<open>\<open>INTEGER-SHIFT-LEFT\<close> multiplies by a power of two; \<open>INTEGER-SHIFT-RIGHT\<close> divides by one, rounding
  down, when the count is a fixnum, and signals a range error for a negative count. When the count is
  a bignum the result is zero, also for a negative number, where rounding down would give minus one.\<close>

theorem integer_shift_primitives:
  assumes "integer_operand n" "integer_operand m"
  defines "v \<equiv> int_val n" and "k \<equiv> int_val m"
  shows "(0 \<le> k \<and> k \<le> int operand_bits \<longrightarrow> returns_prim (Prim_integer_shift_left n m) (v * 2 ^ nat k))
       \<and> (k < 0 \<longrightarrow> Prim_integer_shift_left n m = Some (Inl (Bad_Range 2)) \<and> Prim_integer_shift_right n m = Some (Inl (Bad_Range 2)))
       \<and> (0 \<le> k \<longrightarrow> returns_prim (Prim_integer_shift_right n m) (if fits_fixnum k then v div 2 ^ nat k else 0))"
proof -
  note ip = INTEGER_P_operand [OF assms(1)]
  have left: "returns_prim (Prim_integer_shift_left n m) (v * 2 ^ nat k)" if k: "0 \<le> k" "k \<le> int operand_bits"
  proof -
    have k64: "k < 2 ^ 64" using k operand_bits_small by (simp add: operand_bits_def)
    have "unat (word_of_int k :: ulong) = nat k" using uint_word_of_int_ulong [OF k(1) k64] by (simp add: unat_eq_nat_uint)
    moreover have "nat k \<le> operand_bits" using k by simp
    ultimately show ?thesis
      using ip k k64 arg_ulong_integer_eq [OF assms(2), of 2] returns_prim_int [OF returns_integer_shift_left [OF assms(1), of "nat k"]]
      by (simp add: Prim_integer_shift_left_def v_def k_def)
  qed
  have neg: "Prim_integer_shift_left n m = Some (Inl (Bad_Range 2))" if "k < 0"
    using that ip arg_ulong_integer_eq [OF assms(2), of 2] by (simp add: Prim_integer_shift_left_def k_def)
  have right: "(k < 0 \<longrightarrow> Prim_integer_shift_right n m = Some (Inl (Bad_Range 2)))
    \<and> (0 \<le> k \<longrightarrow> returns_prim (Prim_integer_shift_right n m) (if fits_fixnum k then v div 2 ^ nat k else 0))"
    using integer_operand_wf [OF assms(2)]
  proof (cases rule: if_fixnum_cases)
    case (1 w)
    then show ?thesis
      using ip FIXNUM_NEGATIVE_P_iff [OF 1(2)] unat_FIXNUM_TO_ULONG [OF 1(2)]
        returns_prim_int [OF returns_integer_shift_right [OF assms(1), of "nat k"]]
      by (auto simp: Prim_integer_shift_right_def k_def v_def)
  next
    case (2 b)
    have z: "FIXNUM_ZERO = LONG_TO_FIXNUM 0" using ULONG_TO_FIXNUM_eq [of 0] by (simp add: FIXNUM_ZERO_def)
    have "returns_prim (Some (Inr (Immediate FIXNUM_ZERO))) 0" unfolding z by (simp add: returns_prim_def fits_fixnum_iff)
    then show ?thesis using 2 ip bignum_test_eq [OF 2(2)]
      by (auto simp: Prim_integer_shift_right_def k_def int_comparison_def)
  qed
  show ?thesis using left neg right by simp
qed

theorem integer_shift_primitives_witness:
  "returns_prim (Prim_integer_shift_left (Bignum (mk_bignum True [0, 1])) (Immediate (LONG_TO_FIXNUM 5))) (- (2 ^ 67))
   \<and> returns_prim (Prim_integer_shift_right (Bignum (mk_bignum True [0, 1])) (Bignum (mk_bignum False [5, 3]))) 0"
proof -
  define m where "m = Bignum (mk_bignum False [5, 3])"
  have "0 \<le> int_val m" "\<not> fits_fixnum (int_val m)" by (simp_all add: m_def concrete_bignum fits_fixnum_iff)
  then have "returns_prim (Prim_integer_shift_right (Bignum (mk_bignum True [0, 1])) m) 0"
    using integer_shift_primitives [OF concrete_operands(1,2), folded m_def] by (simp only: if_False simp_thms)
  moreover have "returns_prim (Prim_integer_shift_left (Bignum (mk_bignum True [0, 1])) (Immediate (LONG_TO_FIXNUM 5))) (- (2 ^ 67))"
    using integer_shift_primitives [OF concrete_operands(1,4)] by (simp add: concrete_bignum fits_fixnum_iff operand_bits_def)
  ultimately show ?thesis by (simp add: m_def)
qed

subsection \<open>Digit lists: correctness\<close>

fun digit_list :: "int list \<Rightarrow> obj" where
  "digit_list [] = Immediate EMPTY_LIST"
| "digit_list (d # ds) = Pair_Object (Immediate (LONG_TO_UNSIGNED_FIXNUM d)) (digit_list ds)"

lemma fold_listify: "fold listify_bignum_consumer ds (digit_list es) = digit_list (rev ds @ es)"
proof (induction ds arbitrary: es)
  case (Cons d ds)
  have "listify_bignum_consumer d (digit_list es) = digit_list (d # es)" by (simp add: listify_bignum_consumer_def)
  then show ?case using Cons [of "d # es"] by simp
qed simp

lemma UNSIGNED_FIXNUM_digit:
  assumes "0 \<le> d" "d < 2 ^ 31"
  shows "UNSIGNED_FIXNUM_P (LONG_TO_UNSIGNED_FIXNUM d)" "UNSIGNED_FIXNUM_TO_LONG (LONG_TO_UNSIGNED_FIXNUM d) = d"
proof -
  have e: "LONG_TO_UNSIGNED_FIXNUM d = LONG_TO_FIXNUM d" using assms by (intro LONG_TO_UNSIGNED_FIXNUM_eq) simp_all
  have l: "FIXNUM_TO_LONG (LONG_TO_FIXNUM d) = d" using assms by (simp add: fits_fixnum_iff)
  show "UNSIGNED_FIXNUM_P (LONG_TO_UNSIGNED_FIXNUM d)"
    using assms l FIXNUM_NEGATIVE_P_iff [of "LONG_TO_FIXNUM d"] by (simp add: e UNSIGNED_FIXNUM_P_def)
  have "uint (OBJECT_DATUM (LONG_TO_FIXNUM d)) = d" using uint_datum_LONG_TO_FIXNUM [of d] assms by simp
  then show "UNSIGNED_FIXNUM_TO_LONG (LONG_TO_UNSIGNED_FIXNUM d) = d"
    using assms by (simp add: e UNSIGNED_FIXNUM_TO_LONG_def sint_ulong)
qed

lemma scan_digit_list:
  assumes "digits_in (uint radix) ds" "ds \<noteq> []" "uint radix \<le> 2 ^ 31"
  shows "scan_digits radix (digit_list ds) = Some (Inr ds)"
  using assms(1,2)
proof (induction ds)
  case (Cons d ds)
  have d: "0 \<le> d" "d < uint radix" using Cons.prems by auto
  then have d31: "d < 2 ^ 31" using assms(3) by linarith
  note u = UNSIGNED_FIXNUM_digit [OF d(1) d31]
  have "uint (word_of_int d :: ulong) = d" using d d31 by (intro uint_word_of_int_ulong) simp_all
  then have lt: "\<not> radix \<le> word_of_int d" using d by (simp add: word_le_def)
  have m: "d mod 2 ^ 32 = d" using d d31 by simp
  show ?case
  proof (cases ds)
    case Nil
    then show ?thesis using u lt m by simp
  next
    case (Cons e es)
    then show ?thesis using Cons.IH Cons.prems u lt m by simp
  qed
qed simp

lemma digit_count:
  assumes "1 < radix" "int radix < 2 ^ 31" "length ds * ulong_length_in_bits (word_of_int (int radix)) < 2 ^ 32"
  shows "length ds < 2 ^ 32"
proof -
  define w :: ulong where "w = word_of_int (int radix)"
  have "uint w = int radix" unfolding w_def using assms(2) by (intro uint_word_of_int_ulong) simp_all
  then have "w \<noteq> 0" using assms(1) by auto
  then have "1 \<le> ulong_length_in_bits w" using ulong_length_in_bits_bounds(3) [of w] by simp
  then have "length ds * 1 \<le> length ds * ulong_length_in_bits w" by (intro mult_left_mono) simp_all
  then show ?thesis using assms(3) unfolding w_def [symmetric] by linarith
qed

lemma returns_list_to_integer:
  assumes r: "1 < radix" "int radix < 2 ^ 31" and ds: "digits_in (int radix) ds" "ds \<noteq> []"
    and fits: "length ds * ulong_length_in_bits (word_of_int (int radix)) < 2 ^ 32"
    and small: "rval (int radix) (rev ds) < 2 ^ result_bits"
  shows "returns_prim (Prim_list_to_integer (digit_list ds) (Immediate (LONG_TO_FIXNUM (int radix))) a3)
    (if a3 = Immediate SHARP_F then rval (int radix) (rev ds) else - rval (int radix) (rev ds))"
proof -
  define w :: ulong where "w = word_of_int (int radix)"
  define v where "v = (if a3 = Immediate SHARP_F then rval (int radix) (rev ds) else - rval (int radix) (rev ds))"
  have w: "uint w = int radix" unfolding w_def using r(2) by (intro uint_word_of_int_ulong) simp_all
  then have uw: "unat w = radix" by (simp add: unat_eq_nat_uint)
  have root: "BIGNUM_RADIX_ROOT = 2 ^ 31" by (simp add: BIGNUM_RADIX_ROOT_def BIGNUM_HALF_DIGIT_LENGTH_def BIGNUM_DIGIT_LENGTH_def)
  have fx: "fits_fixnum (int radix)" using r by (simp add: fits_fixnum_iff)
  have "arg_ulong_integer 2 (Immediate (LONG_TO_FIXNUM (int radix))) = Some (Inr w)"
    using arg_ulong_integer_eq [OF concrete_fixnum_operand [OF fx], of 2] fx r(2) by (simp add: w_def)
  moreover have "\<not> w < 2" "\<not> word_of_int bignum_max_digit_stream_radix \<le> w"
    using r w by (simp_all add: word_less_def word_le_def bignum_max_digit_stream_radix_def root)
  moreover have "scan_digits w (digit_list ds) = Some (Inr ds)" using ds r w by (intro scan_digit_list) simp_all
  moreover have "length ds mod 2 ^ 32 = length ds" using digit_count [OF r fits] by (intro mod_less)
  moreover have "unat w mod 2 ^ 32 = radix" using uw r(2) by simp
  moreover have "PAIR_P (digit_list ds)" using ds(2) by (cases ds) simp_all
  moreover have "returns_bignum (digit_stream_to_bignum ds radix (a3 \<noteq> Immediate SHARP_F)) v"
    using returns_digit_stream_to_bignum [OF r(1) _ ds(1) fits, of "a3 \<noteq> Immediate SHARP_F"] r(2)
    by (cases "a3 = Immediate SHARP_F") (simp_all add: root v_def)
  moreover have "digits_in (int radix) (rev ds)" using ds(1) by (simp add: digits_in_def)
  then have "\<bar>v\<bar> < 2 ^ result_bits" using small rval_nonneg [of "int radix" "rev ds"] by (simp add: v_def)
  ultimately show ?thesis using returns_prim_int [OF returns_to_integer]
    by (simp add: Prim_list_to_integer_def v_def Let_def)
qed

text \<open>\<open>LISTIFY-BIGNUM\<close> returns the list of the digits of the magnitude, most significant first and
  never empty, and \<open>LIST->INTEGER\<close> reads such a list back to the integer, in canonical form.\<close>

theorem digit_list_roundtrip:
  assumes wf: "bignum_wf b" and r: "1 < radix" "int radix < 2 ^ 31" and len: "BIGNUM_LENGTH b < 2 ^ 19"
  shows "\<exists>l. Prim_listify_bignum (Bignum b) (Immediate (LONG_TO_FIXNUM (int radix))) = Some (Inr l)
    \<and> returns_prim (Prim_list_to_integer l (Immediate (LONG_TO_FIXNUM (int radix)))
        (Immediate (BOOLEAN_TO_OBJECT (bignum_val b < 0)))) (bignum_val b)"
proof -
  define R where "R = Immediate (LONG_TO_FIXNUM (int radix))"
  define sg where "sg = Immediate (BOOLEAN_TO_OBJECT (bignum_val b < 0))"
  have root: "BIGNUM_RADIX_ROOT = 2 ^ 31" by (simp add: BIGNUM_RADIX_ROOT_def BIGNUM_HALF_DIGIT_LENGTH_def BIGNUM_DIGIT_LENGTH_def)
  have fx: "fits_fixnum (int radix)" using r by (simp add: fits_fixnum_iff)
  have sgn: "sg = Immediate SHARP_F \<longleftrightarrow> 0 \<le> bignum_val b" by (simp add: sg_def BOOLEAN_TO_OBJECT_def)
  obtain ds where ds: "bignum_to_digit_stream b radix = Some ds" "digits_in (int radix) ds"
    "rval (int radix) ds = \<bar>bignum_val b\<bar>" "ds \<noteq> [] \<longrightarrow> last ds \<noteq> 0"
    using bignum_to_digit_stream_spec [OF wf r(1)] r(2) by (auto simp: root)
  define es where "es = (if ds = [] then [0] else ds)"
  have es: "digits_in (int radix) (rev es)" "es \<noteq> []" "rval (int radix) es = \<bar>bignum_val b\<bar>"
    using ds r by (auto simp: es_def digits_in_def)
  have "length ds * ulong_length_in_bits (word_of_int (int radix)) < 2 ^ 32"
    using digit_stream_length [OF wf r(1) _ ds(2-4) len] r(2) by (simp add: root)
  then have fits: "length (rev es) * ulong_length_in_bits (word_of_int (int radix)) < 2 ^ 32"
    using ulong_length_in_bits_bounds(4) [of "word_of_int (int radix)"] by (auto simp: es_def)
  have "bignum_val b = 0 \<longleftrightarrow> ds = []"
  proof
    assume "bignum_val b = 0"
    then show "ds = []" using ds(1) wf by (simp add: bignum_to_digit_stream_def bignum_ZERO_P_iff BIGNUM_ASSERT_def split: if_splits Option.bind_splits)
  qed (use ds(3) in simp)
  moreover have "arg_integer_in_range 2 2 bignum_max_digit_stream_radix R = Some (Inr (int radix))"
    using arg_integer_eq [OF concrete_fixnum_operand [OF fx], of 2] sint_word_of_int_ulong [OF fits_fixnum_fits_long [OF fx]] fx r
    by (simp add: arg_integer_in_range_def R_def bignum_max_digit_stream_radix_def root)
  ultimately have l: "Prim_listify_bignum (Bignum b) R = Some (Inr (digit_list (rev es)))"
    using ds(1) wf fold_listify [of ds "[]"] by (auto simp: Prim_listify_bignum_def bignum_ZERO_P_iff es_def)
  have "\<bar>bignum_val b\<bar> < 2 ^ (62 * BIGNUM_LENGTH b)"
    using bignum_mag_less [OF wf] bignum_abs_val [OF wf] by (simp only: RADIX_power)
  moreover have "62 * BIGNUM_LENGTH b \<le> 2 * operand_bits" using len by (simp add: operand_bits_def)
  ultimately have "\<bar>bignum_val b\<bar> < 2 ^ result_bits" using less_result_bits [of "62 * BIGNUM_LENGTH b" "bignum_val b"] by simp
  then have "returns_prim (Prim_list_to_integer (digit_list (rev es)) R sg) (if sg = Immediate SHARP_F then \<bar>bignum_val b\<bar> else - \<bar>bignum_val b\<bar>)"
    using returns_list_to_integer [OF r es(1) _ fits, of sg] es by (cases "sg = Immediate SHARP_F") (simp_all add: R_def)
  then show ?thesis using l sgn by (auto simp: R_def sg_def)
qed

theorem digit_list_roundtrip_witness:
  "\<exists>l. Prim_listify_bignum (Bignum (mk_bignum True [0, 1])) (Immediate (LONG_TO_FIXNUM 10)) = Some (Inr l)
    \<and> returns_prim (Prim_list_to_integer l (Immediate (LONG_TO_FIXNUM 10)) (Immediate SHARP_T)) (- (2 ^ 62))"
  using digit_list_roundtrip [of "mk_bignum True [0, 1]" 10] by (simp add: concrete_bignum BOOLEAN_TO_OBJECT_def)

subsection \<open>Bignum primitives: correctness\<close>

lemma FIXNUM_TO_BIGNUM_val: "FIXNUM_P w \<Longrightarrow> returns_bignum (FIXNUM_TO_BIGNUM w) (FIXNUM_TO_LONG w)"
  by (simp add: FIXNUM_TO_BIGNUM_def returns_long_to_bignum fits_fixnum_fits_long)

lemma BIGNUM_QR_eq:
  assumes "if bignum_val d = 0 then f n d = Some None else returns_oob (f n d) v"
  shows "if bignum_val d = 0 then BIGNUM_QR f (Bignum n) (Bignum d) = Some (Inl (Bad_Range 2))
    else \<exists>q. BIGNUM_QR f (Bignum n) (Bignum d) = Some (Inr (Bignum q)) \<and> returns_bignum (Some q) v"
  using assms by (auto simp: BIGNUM_QR_def with_bignums_def returns_oob_def returns_bignum_def)

text \<open>The bignum primitives return well-formed bignums that denote the exact results and signal a range
  error for a zero divisor; other arguments than bignums are type errors. A fixnum survives the
  conversion to a bignum and back. \<open>BIGNUM-LENGTH-IN-BITS\<close> returns a word whose type code is that of
  false, not a fixnum.\<close>

theorem bignum_primitives:
  assumes "bignum_wf n" "bignum_wf d" "BIGNUM_LENGTH n + BIGNUM_LENGTH d < BIGNUM_LENGTH_MAX" "FIXNUM_P w" "\<not> BIGNUM_P x"
  defines "a \<equiv> bignum_val n" and "b \<equiv> bignum_val d"
  shows "(\<exists>r. Prim_bignum_add (Bignum n) (Bignum d) = Some (Inr (Bignum r)) \<and> returns_bignum (Some r) (a + b))
       \<and> (\<exists>r. Prim_bignum_multiply (Bignum n) (Bignum d) = Some (Inr (Bignum r)) \<and> returns_bignum (Some r) (a * b))
       \<and> (if b = 0 then Prim_bignum_quotient (Bignum n) (Bignum d) = Some (Inl (Bad_Range 2))
          else \<exists>q. Prim_bignum_quotient (Bignum n) (Bignum d) = Some (Inr (Bignum q)) \<and> returns_bignum (Some q) (quot_int a b))
       \<and> (if b = 0 then Prim_bignum_remainder (Bignum n) (Bignum d) = Some (Inl (Bad_Range 2))
          else \<exists>q. Prim_bignum_remainder (Bignum n) (Bignum d) = Some (Inr (Bignum q)) \<and> returns_bignum (Some q) (rem_int a b))
       \<and> Prim_bignum_add x (Bignum d) = Some (Inl (Wrong_Type 1)) \<and> Prim_bignum_add (Bignum n) x = Some (Inl (Wrong_Type 2))
       \<and> bind_prim (Prim_fixnum_to_bignum (Immediate w)) Prim_bignum_to_fixnum = Some (Inr (Immediate w))
       \<and> Prim_bignum_length_in_bits (Bignum bignum_make_zero) = Some (Inr (Immediate SHARP_F))"
proof -
  have bin: "\<exists>r. BIGNUM_BINARY f (Bignum n) (Bignum d) = Some (Inr (Bignum r)) \<and> returns_bignum (Some r) v"
    if "returns_bignum (f n d) v" for f v
    using that by (auto simp: BIGNUM_BINARY_def with_bignums_def returns_bignum_def)
  have nb: "with_bignums f x (Bignum d) = Some (Inl (Wrong_Type 1))" "with_bignums f (Bignum n) x = Some (Inl (Wrong_Type 2))"
    for f :: "bignum \<Rightarrow> bignum \<Rightarrow> obj prim"
    using assms(5) by (cases x; simp add: with_bignums_def)+
  obtain c where c: "FIXNUM_TO_BIGNUM w = Some c" "bignum_wf c" "bignum_val c = FIXNUM_TO_LONG w"
    using FIXNUM_TO_BIGNUM_val [OF assms(4)] by (auto simp: returns_bignum_def)
  have "integer_operand (Immediate w)" using assms(4) fits_fixnum_operand by (simp add: integer_operand_def)
  then have "BIGNUM_LENGTH c < 2 ^ 32" using operand_length [OF c(2)] c(3) by (simp add: integer_operand_def)
  then have "bignum_to_fixnum c = Some (LONG_TO_FIXNUM (FIXNUM_TO_LONG w))"
    using BIGNUM_TO_FIXNUM_P_eq [OF c(2)] bignum_to_long_exact [OF c(2)] c(3) assms(4)
    by (simp add: bignum_to_fixnum_def BIGNUM_TO_FIXNUM_def fits_fixnum_fits_long)
  then have "bind_prim (Prim_fixnum_to_bignum (Immediate w)) Prim_bignum_to_fixnum = Some (Inr (Immediate w))"
    using c(1) assms(4) by (simp add: Prim_fixnum_to_bignum_def Prim_bignum_to_fixnum_def LONG_TO_FIXNUM_TO_LONG)
  moreover have "returns_bignum (bignum_add n d) (a + b)" "returns_bignum (bignum_multiply n d) (a * b)"
    unfolding a_def b_def using assms(1-3) by (intro returns_add returns_multiply; simp)+
  moreover have "BIGNUM_LENGTH n < BIGNUM_LENGTH_MAX" using assms(3) by simp
  ultimately show ?thesis
    using bin BIGNUM_QR_eq [where f = bignum_quotient, OF returns_quotient [OF assms(1,2)]]
      BIGNUM_QR_eq [where f = bignum_remainder, OF returns_remainder [OF assms(1,2)]] nb
    by (simp add: Prim_bignum_add_def Prim_bignum_multiply_def Prim_bignum_quotient_def Prim_bignum_remainder_def BIGNUM_BINARY_def
      Prim_bignum_length_in_bits_def bignum_length_in_bits_def bignum_ZERO_P_iff a_def b_def)
qed

theorem bignum_primitives_witness:
  "(\<exists>r. Prim_bignum_add (Bignum (mk_bignum True [0, 1])) (Bignum (mk_bignum False [5, 3])) = Some (Inr (Bignum r))
      \<and> returns_bignum (Some r) (5 + 2 * 2 ^ 62))
   \<and> bind_prim (Prim_fixnum_to_bignum (Immediate (LONG_TO_FIXNUM 9))) Prim_bignum_to_fixnum = Some (Inr (Immediate (LONG_TO_FIXNUM 9)))"
  using bignum_primitives [of "mk_bignum True [0, 1]" "mk_bignum False [5, 3]" "LONG_TO_FIXNUM 9" "Immediate 0"]
  by (simp add: concrete_bignum)

end
