(* ===== verification/GC_Loop.thy ===== *)
theory GC_Loop
  imports Object
begin

text \<open>
  The garbage collector of gcloop.c with the driver in memmag.c: a copying collector that moves
  the live objects of fromspace to tospace, updating pointers to the places they will have in
  newspace, and finally copies tospace back.

  Memory is a map from word addresses (relative to \<open>memory_base\<close>, a byte address) to objects; tospace lies at
  other addresses of the same map. This is the configuration without \<open>HEAP_IN_LOW_MEMORY\<close> of object.h,
  where the datum of a pointer is a word address relative to \<open>memory_base\<close>. A pointer that may be null is an option; \<open>tospace_next = 0\<close>,
  which means that tospace is closed, is the flag \<open>tospace_open_p\<close>. The model is the
  configuration without compiled code (\<open>CC_SUPPORT_P\<close> undefined) and without the debugging
  tools, and its handler table is the standard one. \<open>std_gc_death\<close> does not return: its message
  is the result \<open>Inl\<close>. \<open>None\<close> is a loop that does not end.
\<close>

subsection \<open>Types\<close>

definition TC_BROKEN_HEART :: ulong where "TC_BROKEN_HEART = 0x22"
definition TC_HUNK3_A :: ulong where "TC_HUNK3_A = 0x20"
definition TC_MANIFEST_VECTOR :: ulong where "TC_MANIFEST_VECTOR = 0x00"
definition TC_COMPILED_RETURN :: ulong where "TC_COMPILED_RETURN = 0x04"
definition TC_COMPILED_ENTRY :: ulong where "TC_COMPILED_ENTRY = 0x28"
definition TC_MANIFEST_CLOSURE :: ulong where "TC_MANIFEST_CLOSURE = 0x0D"
definition TC_LINKAGE_SECTION :: ulong where "TC_LINKAGE_SECTION = 0x39"
definition TC_REFERENCE_TRAP :: ulong where "TC_REFERENCE_TRAP = 0x32"
definition TC_WEAK_CONS :: ulong where "TC_WEAK_CONS = 0x37"
definition TC_EPHEMERON :: ulong where "TC_EPHEMERON = 0x2B"
definition TC_COMPILED_CODE_BLOCK :: ulong where "TC_COMPILED_CODE_BLOCK = 0x3D"
definition TRAP_MAX_IMMEDIATE :: ulong where "TRAP_MAX_IMMEDIATE = 9"
definition GC_RECLAIMED :: scheme_object where "GC_RECLAIMED = MAKE_OBJECT TC_CONSTANT 10"

datatype gc_type_t =
    GC_COMPILED_ENTRY | GC_VECTOR | GC_SPECIAL | GC_UNDEFINED | GC_NON_POINTER | GC_CELL | GC_PAIR
  | GC_TRIPLE | GC_QUADRUPLE | GC_COMPILED_RETURN

definition gc_type_map :: "gc_type_t list" where
  "gc_type_map =
    [GC_NON_POINTER, GC_PAIR, GC_NON_POINTER, GC_PAIR, GC_COMPILED_RETURN, GC_PAIR, GC_VECTOR, GC_UNDEFINED,
     GC_NON_POINTER, GC_PAIR, GC_VECTOR, GC_NON_POINTER, GC_UNDEFINED, GC_SPECIAL, GC_VECTOR, GC_PAIR,
     GC_PAIR, GC_PAIR, GC_VECTOR, GC_PAIR, GC_TRIPLE, GC_PAIR, GC_VECTOR, GC_PAIR,
     GC_NON_POINTER, GC_PAIR, GC_NON_POINTER, GC_VECTOR, GC_VECTOR, GC_PAIR, GC_VECTOR, GC_PAIR,
     GC_TRIPLE, GC_PAIR, GC_SPECIAL, GC_PAIR, GC_TRIPLE, GC_PAIR, GC_VECTOR, GC_SPECIAL,
     GC_COMPILED_ENTRY, GC_PAIR, GC_UNDEFINED, GC_VECTOR, GC_TRIPLE, GC_NON_POINTER, GC_PAIR, GC_VECTOR,
     GC_UNDEFINED, GC_VECTOR, GC_SPECIAL, GC_VECTOR, GC_TRIPLE, GC_PAIR, GC_CELL, GC_PAIR,
     GC_QUADRUPLE, GC_SPECIAL, GC_PAIR, GC_NON_POINTER, GC_PAIR, GC_VECTOR, GC_VECTOR, GC_UNDEFINED]"

definition gc_type_code :: "ulong \<Rightarrow> gc_type_t" where
  "gc_type_code type_code = gc_type_map ! unat type_code"

datatype gc_ptr_type_t =
    GC_POINTER_NORMAL | GC_POINTER_COMPILED_ENTRY | GC_POINTER_COMPILED_RETURN | GC_POINTER_NOT

definition gc_ptr_type :: "scheme_object \<Rightarrow> gc_ptr_type_t" where
  "gc_ptr_type object =
    (case gc_type_code (OBJECT_TYPE object) of
       GC_SPECIAL \<Rightarrow>
         if OBJECT_TYPE object = TC_REFERENCE_TRAP \<and> OBJECT_DATUM object \<ge> TRAP_MAX_IMMEDIATE
         then GC_POINTER_NORMAL else GC_POINTER_NOT
     | GC_CELL \<Rightarrow> GC_POINTER_NORMAL
     | GC_PAIR \<Rightarrow> GC_POINTER_NORMAL
     | GC_TRIPLE \<Rightarrow> GC_POINTER_NORMAL
     | GC_QUADRUPLE \<Rightarrow> GC_POINTER_NORMAL
     | GC_VECTOR \<Rightarrow> GC_POINTER_NORMAL
     | GC_COMPILED_ENTRY \<Rightarrow> GC_POINTER_COMPILED_ENTRY
     | GC_COMPILED_RETURN \<Rightarrow> GC_POINTER_COMPILED_RETURN
     | _ \<Rightarrow> GC_POINTER_NOT)"

subsection \<open>Addresses, fromspace and tospace\<close>

type_synonym addr = nat

record gc_state =
  memory :: "addr \<Rightarrow> scheme_object"
  memory_base :: nat
  fromspace_start :: addr
  fromspace_end :: addr
  tospace_start :: addr
  tospace_next :: addr
  tospace_end :: addr
  newspace_start :: addr
  newspace_next :: addr
  newspace_end :: addr
  tospace_open_p :: bool
  weak_chain :: "addr option"
  ephemeron_list :: scheme_object
  ephemeron_queue :: scheme_object
  scanning_ephemerons_p :: bool
  ephemeron_array :: scheme_object
  ephemeron_count :: nat

datatype gc_death = Gc_Death string

type_synonym 'a gc_result = "(gc_death + 'a \<times> gc_state) option"

definition gc_return :: "'a \<Rightarrow> gc_state \<Rightarrow> 'a gc_result" where
  "gc_return x s = Some (Inr (x, s))"

definition std_gc_death :: "string \<Rightarrow> 'a gc_result" where
  "std_gc_death message = Some (Inl (Gc_Death message))"

definition gc_bind :: "'a gc_result \<Rightarrow> ('a \<Rightarrow> gc_state \<Rightarrow> 'b gc_result) \<Rightarrow> 'b gc_result" where
  "gc_bind r f = Option.bind r (\<lambda>r. case r of Inl e \<Rightarrow> Some (Inl e) | Inr (x, s) \<Rightarrow> f x s)"

lemma gc_bind_simps [simp]:
  "gc_bind (gc_return x s) f = f x s" "gc_bind (std_gc_death m) f = std_gc_death m"
  "gc_bind None f = None" "gc_bind (Some (Inl e)) f = Some (Inl e)" "gc_bind (Some (Inr (x, s))) f = f x s"
  by (simp_all add: gc_bind_def gc_return_def std_gc_death_def)

definition OBJECT_ADDRESS :: "scheme_object \<Rightarrow> addr" where
  "OBJECT_ADDRESS object = unat (OBJECT_DATUM object)"

definition ADDRESS_TO_DATUM :: "addr \<Rightarrow> ulong" where
  "ADDRESS_TO_DATUM address = of_nat address"

definition MAKE_POINTER_OBJECT :: "ulong \<Rightarrow> addr \<Rightarrow> scheme_object" where
  "MAKE_POINTER_OBJECT type address = MAKE_OBJECT type (ADDRESS_TO_DATUM address)"

definition OBJECT_NEW_ADDRESS :: "scheme_object \<Rightarrow> addr \<Rightarrow> scheme_object" where
  "OBJECT_NEW_ADDRESS object address = OBJECT_NEW_DATUM object (ADDRESS_TO_DATUM address)"

definition MAKE_BROKEN_HEART :: "addr \<Rightarrow> scheme_object" where
  "MAKE_BROKEN_HEART address = MAKE_POINTER_OBJECT TC_BROKEN_HEART address"

definition BROKEN_HEART_P :: "scheme_object \<Rightarrow> bool" where
  "BROKEN_HEART_P object \<longleftrightarrow> OBJECT_TYPE object = TC_BROKEN_HEART"

definition EPHEMERON_P :: "scheme_object \<Rightarrow> bool" where
  "EPHEMERON_P object \<longleftrightarrow> OBJECT_TYPE object = TC_EPHEMERON"

definition mem_write :: "addr \<Rightarrow> scheme_object \<Rightarrow> gc_state \<Rightarrow> gc_state" where
  "mem_write a object s = s\<lparr>memory := (memory s)(a := object)\<rparr>"

definition ADDRESS_IN_FROMSPACE_P :: "addr \<Rightarrow> gc_state \<Rightarrow> bool" where
  "ADDRESS_IN_FROMSPACE_P a s \<longleftrightarrow> fromspace_start s \<le> a \<and> a < fromspace_end s"

definition TOSPACE_TO_NEWSPACE :: "addr \<Rightarrow> gc_state \<Rightarrow> addr" where
  "TOSPACE_TO_NEWSPACE p s = (p - tospace_start s) + newspace_start s"

definition NEWSPACE_TO_TOSPACE :: "addr \<Rightarrow> gc_state \<Rightarrow> addr" where
  "NEWSPACE_TO_TOSPACE p s = (p - newspace_start s) + tospace_start s"

definition READ_TOSPACE :: "addr \<Rightarrow> gc_state \<Rightarrow> scheme_object" where
  "READ_TOSPACE a s = memory s (NEWSPACE_TO_TOSPACE a s)"

definition WRITE_TOSPACE :: "addr \<Rightarrow> scheme_object \<Rightarrow> gc_state \<Rightarrow> gc_state" where
  "WRITE_TOSPACE a object s = mem_write (NEWSPACE_TO_TOSPACE a s) object s"

definition CLOSE_TOSPACE :: "gc_state \<Rightarrow> gc_state" where
  "CLOSE_TOSPACE s =
    s\<lparr>tospace_open_p := False, newspace_start := 0, newspace_next := 0, newspace_end := 0\<rparr>"

definition open_tospace :: "addr \<Rightarrow> gc_state \<Rightarrow> unit gc_result" where
  "open_tospace start s =
    (if tospace_open_p s then std_gc_death ''tospace is open, should be closed''
     else gc_return () (s\<lparr>tospace_open_p := True, tospace_next := tospace_start s, newspace_start := start,
       newspace_next := start, newspace_end := start + (tospace_end s - tospace_start s)\<rparr>))"

definition GUARANTEE_TOSPACE_OPEN :: "gc_state \<Rightarrow> unit gc_result" where
  "GUARANTEE_TOSPACE_OPEN s =
    (if tospace_open_p s then gc_return () s else std_gc_death ''GC transport not allowed here'')"

definition tospace_available_p :: "nat \<Rightarrow> gc_state \<Rightarrow> bool gc_result" where
  "tospace_available_p n_words s =
    gc_bind (GUARANTEE_TOSPACE_OPEN s) (\<lambda>_ s. gc_return (tospace_end s - tospace_next s \<ge> n_words) s)"

definition push_word :: "scheme_object \<Rightarrow> gc_state \<Rightarrow> gc_state" where
  "push_word object s =
    (mem_write (tospace_next s) object s)\<lparr>tospace_next := tospace_next s + 1, newspace_next := newspace_next s + 1\<rparr>"

definition add_to_tospace :: "scheme_object \<Rightarrow> gc_state \<Rightarrow> unit gc_result" where
  "add_to_tospace object s =
    gc_bind (GUARANTEE_TOSPACE_OPEN s) (\<lambda>_ s. gc_return () (push_word object s))"

definition read_tospace :: "addr \<Rightarrow> gc_state \<Rightarrow> scheme_object gc_result" where
  "read_tospace a s = gc_bind (GUARANTEE_TOSPACE_OPEN s) (\<lambda>_ s. gc_return (READ_TOSPACE a s) s)"

definition write_tospace :: "addr \<Rightarrow> scheme_object \<Rightarrow> gc_state \<Rightarrow> unit gc_result" where
  "write_tospace a object s =
    gc_bind (GUARANTEE_TOSPACE_OPEN s) (\<lambda>_ s. gc_return () (WRITE_TOSPACE a object s))"

definition increment_tospace_ptr :: "nat \<Rightarrow> gc_state \<Rightarrow> unit gc_result" where
  "increment_tospace_ptr n_words s =
    gc_bind (GUARANTEE_TOSPACE_OPEN s)
      (\<lambda>_ s. gc_return ()
        (s\<lparr>tospace_next := tospace_next s + n_words, newspace_next := newspace_next s + n_words\<rparr>))"

definition tospace_to_newspace :: "addr \<Rightarrow> gc_state \<Rightarrow> addr" where
  "tospace_to_newspace a s =
    (if tospace_start s \<le> a \<and> a \<le> tospace_end s then a - tospace_start s + newspace_start s else a)"

definition newspace_to_tospace :: "addr \<Rightarrow> gc_state \<Rightarrow> addr" where
  "newspace_to_tospace a s =
    (if newspace_start s \<le> a \<and> a \<le> newspace_end s then a - newspace_start s + tospace_start s else a)"

text \<open>\<open>memmove\<close> from tospace to newspace, then tospace is closed.\<close>

definition save_tospace_copy :: "addr \<Rightarrow> addr \<Rightarrow> gc_state \<Rightarrow> gc_state" where
  "save_tospace_copy start stop s =
    (let dest = tospace_to_newspace start s in
     s\<lparr>memory := (\<lambda>a. if dest \<le> a \<and> a < dest + (stop - start)
        then memory s (start + (a - dest)) else memory s a)\<rparr>)"

definition save_tospace :: "gc_state \<Rightarrow> unit gc_result" where
  "save_tospace s =
    gc_bind (GUARANTEE_TOSPACE_OPEN s)
      (\<lambda>_ s. gc_return () (CLOSE_TOSPACE (save_tospace_copy (tospace_start s) (tospace_next s) s)))"

definition discard_tospace :: "gc_state \<Rightarrow> unit gc_result" where
  "discard_tospace s = gc_bind (GUARANTEE_TOSPACE_OPEN s) (\<lambda>_ s. gc_return () (CLOSE_TOSPACE s))"

subsection \<open>Weak references and ephemerons\<close>

definition EPHEMERON_KEY :: nat where "EPHEMERON_KEY = 1"
definition EPHEMERON_DATUM :: nat where "EPHEMERON_DATUM = 2"
definition EPHEMERON_LIST :: nat where "EPHEMERON_LIST = 3"
definition EPHEMERON_NEXT :: nat where "EPHEMERON_NEXT = 4"
definition EPHEMERON_SIZE :: nat where "EPHEMERON_SIZE = 5"
definition MARKED_EPHEMERON_MANIFEST :: scheme_object where
  "MARKED_EPHEMERON_MANIFEST = MAKE_OBJECT TC_MANIFEST_VECTOR (of_nat (EPHEMERON_SIZE - 1))"
definition UNMARKED_EPHEMERON_MANIFEST :: scheme_object where
  "UNMARKED_EPHEMERON_MANIFEST = MAKE_OBJECT TC_MANIFEST_NM_VECTOR (of_nat (EPHEMERON_SIZE - 1))"

definition weak_referent_address :: "scheme_object \<Rightarrow> gc_state \<Rightarrow> addr option gc_result" where
  "weak_referent_address object s =
    (case gc_ptr_type object of
       GC_POINTER_NORMAL \<Rightarrow> gc_return (Some (OBJECT_ADDRESS object)) s
     | GC_POINTER_COMPILED_ENTRY \<Rightarrow> std_gc_death ''No compiled-code support.''
     | GC_POINTER_COMPILED_RETURN \<Rightarrow> std_gc_death ''No compiled-code support.''
     | GC_POINTER_NOT \<Rightarrow> gc_return None s)"

definition weak_referent_forward :: "scheme_object \<Rightarrow> scheme_object \<Rightarrow> gc_state \<Rightarrow> scheme_object gc_result" where
  "weak_referent_forward object collected s =
    (case gc_ptr_type object of
       GC_POINTER_NORMAL \<Rightarrow>
         let a = OBJECT_ADDRESS object in
         gc_return (if BROKEN_HEART_P (memory s a) then MAKE_OBJECT_FROM_OBJECTS object (memory s a)
                    else collected) s
     | GC_POINTER_COMPILED_ENTRY \<Rightarrow> std_gc_death ''No compiled-code support.''
     | GC_POINTER_COMPILED_RETURN \<Rightarrow> std_gc_death ''No compiled-code support.''
     | GC_POINTER_NOT \<Rightarrow> std_gc_death ''Non-pointer cannot be a weak reference.'')"

definition VECTOR_LENGTH :: "scheme_object \<Rightarrow> gc_state \<Rightarrow> nat" where
  "VECTOR_LENGTH v s = unat (OBJECT_DATUM (memory s (OBJECT_ADDRESS v)))"

definition VECTOR_LOC :: "scheme_object \<Rightarrow> nat \<Rightarrow> addr" where
  "VECTOR_LOC v i = OBJECT_ADDRESS v + 1 + i"

text \<open>\<open>((unsigned long) addr) % (VECTOR_LENGTH (ht))\<close>, with the address in bytes.\<close>

definition ephemeron_index :: "addr \<Rightarrow> gc_state \<Rightarrow> nat" where
  "ephemeron_index a s = (memory_base s + 8 * a) mod VECTOR_LENGTH (ephemeron_array s) s"

partial_function (option) queue_loop :: "addr \<Rightarrow> addr \<Rightarrow> gc_state \<Rightarrow> unit gc_result" where
  "queue_loop a entry_loc s =
    (let entry = memory s entry_loc in
     if EPHEMERON_P entry then
       let entry_addr = OBJECT_ADDRESS entry;
           next_loc = NEWSPACE_TO_TOSPACE (entry_addr + EPHEMERON_NEXT) s
       in Option.bind (weak_referent_address (READ_TOSPACE (entry_addr + EPHEMERON_KEY) s) s)
            (\<lambda>r. case r of
               Inl e \<Rightarrow> Some (Inl e)
             | Inr (key_addr, s) \<Rightarrow>
                 if key_addr = Some a then
                   let next_entry = memory s next_loc;
                       s = mem_write entry_loc next_entry s;
                       s = mem_write next_loc (ephemeron_queue s) s
                   in queue_loop a next_loc (s\<lparr>ephemeron_queue := entry\<rparr>)
                 else queue_loop a next_loc s)
     else Some (Inr ((), s)))"

definition queue_ephemerons_for_key :: "addr \<Rightarrow> gc_state \<Rightarrow> unit gc_result" where
  "queue_ephemerons_for_key a s =
    queue_loop a (VECTOR_LOC (ephemeron_array s) (ephemeron_index a s)) s"

subsection \<open>Transporting objects\<close>

definition gc_precheck_from :: "addr \<Rightarrow> gc_state \<Rightarrow> addr option gc_result" where
  "gc_precheck_from from s =
    (if \<not> ADDRESS_IN_FROMSPACE_P from s then gc_return (Some from) s
     else if BROKEN_HEART_P (memory s from) then gc_return (Some (OBJECT_ADDRESS (memory s from))) s
     else if scanning_ephemerons_p s then
       gc_bind (queue_ephemerons_for_key from s) (\<lambda>_ s. gc_return None s)
     else gc_return None s)"

fun copy_words :: "addr \<Rightarrow> nat \<Rightarrow> gc_state \<Rightarrow> gc_state" where
  "copy_words from 0 s = s"
| "copy_words from (Suc n) s = copy_words (from + 1) n (push_word (memory s from) s)"

text \<open>
  Words are eight bytes long, so the address after \<open>newspace_next\<close> is always aligned for floating
  point and the loop that inserts padding has nothing to do.
\<close>

definition FLOATING_ALIGNED_P :: "addr \<Rightarrow> bool" where
  "FLOATING_ALIGNED_P p \<longleftrightarrow> (8 * (p + 1)) mod 8 = 0"

lemma FLOATING_ALIGNED: "FLOATING_ALIGNED_P p"
  unfolding FLOATING_ALIGNED_P_def by (rule mod_mult_self1_is_0)

definition gc_transport_words :: "addr \<Rightarrow> nat \<Rightarrow> bool \<Rightarrow> gc_state \<Rightarrow> addr gc_result" where
  "gc_transport_words from n_words align_p s =
    gc_bind (GUARANTEE_TOSPACE_OPEN s)
      (\<lambda>_ s. let new_address = newspace_next s;
                s = copy_words from n_words s
            in gc_return new_address (mem_write from (MAKE_BROKEN_HEART new_address) s))"

partial_function (option) transport_cdrs :: "scheme_object \<Rightarrow> gc_state \<Rightarrow> unit gc_result" where
  "transport_cdrs cdr s =
    (if OBJECT_TYPE cdr = TC_LIST then
       Option.bind (gc_precheck_from (OBJECT_ADDRESS cdr) s)
         (\<lambda>r. case r of
            Inl e \<Rightarrow> Some (Inl e)
          | Inr (Some _, s) \<Rightarrow> Some (Inr ((), s))
          | Inr (None, s) \<Rightarrow>
              Option.bind (gc_transport_words (OBJECT_ADDRESS cdr) 2 False s)
                (\<lambda>r. case r of
                   Inl e \<Rightarrow> Some (Inl e)
                 | Inr (new, s) \<Rightarrow> transport_cdrs (READ_TOSPACE (new + 1) s) s))
     else Some (Inr ((), s)))"

definition gc_tuple :: "scheme_object \<Rightarrow> nat \<Rightarrow> gc_state \<Rightarrow> scheme_object gc_result" where
  "gc_tuple tuple n_words s =
    (let from = OBJECT_ADDRESS tuple in
     gc_bind (gc_precheck_from from s)
       (\<lambda>new s. case new of
          Some new_address \<Rightarrow> gc_return (OBJECT_NEW_ADDRESS tuple new_address) s
        | None \<Rightarrow>
            gc_bind (gc_transport_words from n_words False s)
              (\<lambda>new_address s.
                gc_bind (if n_words = 2 then transport_cdrs (READ_TOSPACE (new_address + 1) s) s
                         else gc_return () s)
                  (\<lambda>_ s. gc_return (OBJECT_NEW_ADDRESS tuple new_address) s))))"

definition gc_vector :: "scheme_object \<Rightarrow> bool \<Rightarrow> gc_state \<Rightarrow> scheme_object gc_result" where
  "gc_vector vector align_p s =
    (let from = OBJECT_ADDRESS vector in
     gc_bind (gc_precheck_from from s)
       (\<lambda>new s. case new of
          Some new_address \<Rightarrow> gc_return (OBJECT_NEW_ADDRESS vector new_address) s
        | None \<Rightarrow>
            gc_bind (gc_transport_words from (1 + unat (OBJECT_DATUM (memory s from))) align_p s)
              (\<lambda>new_address s. gc_return (OBJECT_NEW_ADDRESS vector new_address) s)))"

definition gc_transport_weak_pair :: "scheme_object \<Rightarrow> gc_state \<Rightarrow> scheme_object gc_result" where
  "gc_transport_weak_pair pair s =
    (let old_addr = OBJECT_ADDRESS pair in
     gc_bind (gc_transport_words old_addr 2 False s)
       (\<lambda>new_addr s.
         let old_car = READ_TOSPACE new_addr s in
         gc_bind (weak_referent_address old_car s)
           (\<lambda>caddr s.
             gc_return (OBJECT_NEW_ADDRESS pair new_addr)
               (case caddr of
                  Some a \<Rightarrow>
                    if ADDRESS_IN_FROMSPACE_P a s then
                      let s = WRITE_TOSPACE new_addr (OBJECT_NEW_TYPE TC_FALSE old_car) s;
                          s = mem_write (old_addr + 1)
                            (case weak_chain s of
                               None \<Rightarrow> MAKE_OBJECT (OBJECT_TYPE old_car) 0
                             | Some chain \<Rightarrow> MAKE_POINTER_OBJECT (OBJECT_TYPE old_car) chain) s
                      in s\<lparr>weak_chain := Some old_addr\<rparr>
                    else s
                | None \<Rightarrow> s))))"

definition gc_transport_ephemeron :: "scheme_object \<Rightarrow> gc_state \<Rightarrow> scheme_object gc_result" where
  "gc_transport_ephemeron old_ephemeron s =
    (let old_addr = OBJECT_ADDRESS old_ephemeron in
     gc_bind (gc_transport_words old_addr EPHEMERON_SIZE False s)
       (\<lambda>new_addr s.
         let new_ephemeron = OBJECT_NEW_ADDRESS old_ephemeron new_addr;
             old_key = READ_TOSPACE (new_addr + EPHEMERON_KEY) s
         in gc_bind (weak_referent_address old_key s)
              (\<lambda>key_addr s.
                let s = s\<lparr>ephemeron_count := ephemeron_count s + 1\<rparr> in
                gc_bind (case key_addr of
                           None \<Rightarrow> gc_return True s
                         | Some a \<Rightarrow>
                             if \<not> ADDRESS_IN_FROMSPACE_P a s then gc_return True s
                             else gc_bind (weak_referent_forward old_key SHARP_F s)
                                    (\<lambda>key s. gc_return (key \<noteq> SHARP_F) s))
                  (\<lambda>live s.
                    if live then gc_return new_ephemeron (WRITE_TOSPACE new_addr MARKED_EPHEMERON_MANIFEST s)
                    else
                      let s = WRITE_TOSPACE new_addr UNMARKED_EPHEMERON_MANIFEST s;
                          index = ephemeron_index (the key_addr) s;
                          loc = VECTOR_LOC (ephemeron_array s) index;
                          s = WRITE_TOSPACE (new_addr + EPHEMERON_NEXT) (memory s loc) s;
                          s = mem_write loc new_ephemeron s;
                          s = WRITE_TOSPACE (new_addr + EPHEMERON_LIST) (ephemeron_list s) s
                      in gc_return new_ephemeron (s\<lparr>ephemeron_list := new_ephemeron\<rparr>)))))"

subsection \<open>Scanning\<close>

definition scan_store :: "addr \<Rightarrow> scheme_object gc_result \<Rightarrow> addr gc_result" where
  "scan_store scan r = gc_bind r (\<lambda>object s. gc_return (scan + 1) (mem_write scan object s))"

definition gc_handle_non_pointer :: "addr \<Rightarrow> scheme_object \<Rightarrow> gc_state \<Rightarrow> addr gc_result" where
  "gc_handle_non_pointer scan object s = gc_return (scan + 1) s"

definition gc_handle_cell :: "addr \<Rightarrow> scheme_object \<Rightarrow> gc_state \<Rightarrow> addr gc_result" where
  "gc_handle_cell scan object s = scan_store scan (gc_tuple object 1 s)"

definition gc_handle_pair :: "addr \<Rightarrow> scheme_object \<Rightarrow> gc_state \<Rightarrow> addr gc_result" where
  "gc_handle_pair scan object s = scan_store scan (gc_tuple object 2 s)"

definition gc_handle_triple :: "addr \<Rightarrow> scheme_object \<Rightarrow> gc_state \<Rightarrow> addr gc_result" where
  "gc_handle_triple scan object s = scan_store scan (gc_tuple object 3 s)"

definition gc_handle_quadruple :: "addr \<Rightarrow> scheme_object \<Rightarrow> gc_state \<Rightarrow> addr gc_result" where
  "gc_handle_quadruple scan object s = scan_store scan (gc_tuple object 4 s)"

definition gc_handle_weak_pair :: "addr \<Rightarrow> scheme_object \<Rightarrow> gc_state \<Rightarrow> addr gc_result" where
  "gc_handle_weak_pair scan object s =
    scan_store scan
      (gc_bind (gc_precheck_from (OBJECT_ADDRESS object) s)
        (\<lambda>new s. case new of
           Some new_address \<Rightarrow> gc_return (OBJECT_NEW_ADDRESS object new_address) s
         | None \<Rightarrow> gc_transport_weak_pair object s))"

definition gc_handle_ephemeron :: "addr \<Rightarrow> scheme_object \<Rightarrow> gc_state \<Rightarrow> addr gc_result" where
  "gc_handle_ephemeron scan object s =
    scan_store scan
      (gc_bind (gc_precheck_from (OBJECT_ADDRESS object) s)
        (\<lambda>new s. case new of
           Some new_address \<Rightarrow> gc_return (OBJECT_NEW_ADDRESS object new_address) s
         | None \<Rightarrow> gc_transport_ephemeron object s))"

definition gc_handle_aligned_vector :: "addr \<Rightarrow> scheme_object \<Rightarrow> gc_state \<Rightarrow> addr gc_result" where
  "gc_handle_aligned_vector scan object s = scan_store scan (gc_vector object True s)"

definition gc_handle_unaligned_vector :: "addr \<Rightarrow> scheme_object \<Rightarrow> gc_state \<Rightarrow> addr gc_result" where
  "gc_handle_unaligned_vector scan object s = scan_store scan (gc_vector object False s)"

definition gc_handle_broken_heart :: "addr \<Rightarrow> scheme_object \<Rightarrow> gc_state \<Rightarrow> addr gc_result" where
  "gc_handle_broken_heart scan object s = std_gc_death ''broken heart in scan''"

definition gc_handle_nmv :: "addr \<Rightarrow> scheme_object \<Rightarrow> gc_state \<Rightarrow> addr gc_result" where
  "gc_handle_nmv scan object s = gc_return (scan + 1 + unat (OBJECT_DATUM object)) s"

definition gc_handle_reference_trap :: "addr \<Rightarrow> scheme_object \<Rightarrow> gc_state \<Rightarrow> addr gc_result" where
  "gc_handle_reference_trap scan object s =
    scan_store scan
      (if OBJECT_DATUM object \<le> TRAP_MAX_IMMEDIATE then gc_return object s else gc_tuple object 2 s)"

definition gc_no_cc_support :: "'a gc_result" where
  "gc_no_cc_support = std_gc_death ''No compiled-code support.''"

definition gc_handle_undefined :: "addr \<Rightarrow> scheme_object \<Rightarrow> gc_state \<Rightarrow> addr gc_result" where
  "gc_handle_undefined scan object s = std_gc_death ''bad type code''"

text \<open>The standard table of handlers, as \<open>initialize_gc_table\<close> builds it.\<close>

definition gct_entry :: "ulong \<Rightarrow> addr \<Rightarrow> scheme_object \<Rightarrow> gc_state \<Rightarrow> addr gc_result" where
  "gct_entry type =
    (if type = TC_WEAK_CONS then gc_handle_weak_pair
     else if type = TC_EPHEMERON then gc_handle_ephemeron
     else if type = TC_BIG_FLONUM then gc_handle_aligned_vector
     else if type = TC_COMPILED_CODE_BLOCK then gc_handle_aligned_vector
     else case gc_type_code type of
       GC_NON_POINTER \<Rightarrow> gc_handle_non_pointer
     | GC_CELL \<Rightarrow> gc_handle_cell
     | GC_PAIR \<Rightarrow> gc_handle_pair
     | GC_TRIPLE \<Rightarrow> gc_handle_triple
     | GC_QUADRUPLE \<Rightarrow> gc_handle_quadruple
     | GC_VECTOR \<Rightarrow> gc_handle_unaligned_vector
     | GC_COMPILED_ENTRY \<Rightarrow> (\<lambda>_ _ _. gc_no_cc_support)
     | GC_COMPILED_RETURN \<Rightarrow> (\<lambda>_ _ _. gc_no_cc_support)
     | GC_UNDEFINED \<Rightarrow> gc_handle_undefined
     | GC_SPECIAL \<Rightarrow>
         if type = TC_BROKEN_HEART then gc_handle_broken_heart
         else if type = TC_REFERENCE_TRAP then gc_handle_reference_trap
         else if type = TC_MANIFEST_NM_VECTOR then gc_handle_nmv
         else (\<lambda>_ _ _. gc_no_cc_support))"

text \<open>
  \<open>pend\<close> is the end of the region to scan: a fixed address, or (\<open>None\<close>) the moving
  \<open>tospace_next\<close>.
\<close>

partial_function (option) run_gc_loop :: "addr \<Rightarrow> addr option \<Rightarrow> gc_state \<Rightarrow> unit gc_result" where
  "run_gc_loop scan pend s =
    (if scan < (case pend of Some stop \<Rightarrow> stop | None \<Rightarrow> tospace_next s) then
       let object = memory s scan in
       Option.bind (gct_entry (OBJECT_TYPE object) scan object s)
         (\<lambda>r. case r of
            Inl e \<Rightarrow> Some (Inl e)
          | Inr (scan, s) \<Rightarrow> run_gc_loop scan pend s)
     else Some (Inr ((), s)))"

definition gc_scan_oldspace :: "addr \<Rightarrow> addr \<Rightarrow> gc_state \<Rightarrow> unit gc_result" where
  "gc_scan_oldspace scan stop s = run_gc_loop scan (Some stop) s"

definition gc_scan_tospace :: "addr \<Rightarrow> addr option \<Rightarrow> gc_state \<Rightarrow> unit gc_result" where
  "gc_scan_tospace scan stop s =
    run_gc_loop (NEWSPACE_TO_TOSPACE scan s)
      (case stop of None \<Rightarrow> None | Some stop \<Rightarrow> Some (NEWSPACE_TO_TOSPACE stop s)) s"

subsection \<open>After the scan\<close>

partial_function (option) scan_live_keys :: "scheme_object \<Rightarrow> gc_state \<Rightarrow> unit gc_result" where
  "scan_live_keys ephemeron s =
    (if EPHEMERON_P ephemeron then
       let ephemeron_addr = OBJECT_ADDRESS ephemeron;
           old_key = READ_TOSPACE (ephemeron_addr + EPHEMERON_KEY) s;
           ephemeron = READ_TOSPACE (ephemeron_addr + EPHEMERON_LIST) s
       in Option.bind
            (gc_bind (weak_referent_forward old_key SHARP_F s)
              (\<lambda>key s. if key \<noteq> SHARP_F
                 then gc_bind (weak_referent_address old_key s) (\<lambda>a s. queue_ephemerons_for_key (the a) s)
                 else gc_return () s))
            (\<lambda>r. case r of
               Inl e \<Rightarrow> Some (Inl e)
             | Inr (_, s) \<Rightarrow> scan_live_keys ephemeron s)
     else Some (Inr ((), s)))"

definition scan_newspace_addr :: "addr \<Rightarrow> gc_state \<Rightarrow> unit gc_result" where
  "scan_newspace_addr a s =
    (let scan = NEWSPACE_TO_TOSPACE a s;
         object = memory s scan
     in gc_bind (gct_entry (OBJECT_TYPE object) scan object s) (\<lambda>_ s. gc_return () s))"

partial_function (option) scan_queued :: "gc_state \<Rightarrow> unit gc_result" where
  "scan_queued s =
    (let ephemeron = ephemeron_queue s in
     if EPHEMERON_P ephemeron then
       let ephemeron_addr = OBJECT_ADDRESS ephemeron;
           s = s\<lparr>ephemeron_queue := READ_TOSPACE (ephemeron_addr + EPHEMERON_NEXT) s\<rparr>;
           saved_newspace_next = newspace_next s
       in Option.bind
            (gc_bind (scan_newspace_addr (ephemeron_addr + EPHEMERON_DATUM) s)
              (\<lambda>_ s. gc_scan_tospace saved_newspace_next None s))
            (\<lambda>r. case r of
               Inl e \<Rightarrow> Some (Inl e)
             | Inr (_, s) \<Rightarrow> scan_queued s)
     else Some (Inr ((), s)))"

definition scan_ephemerons :: "gc_state \<Rightarrow> unit gc_result" where
  "scan_ephemerons s =
    gc_bind (scan_live_keys (ephemeron_list s) (s\<lparr>scanning_ephemerons_p := True\<rparr>))
      (\<lambda>_ s. gc_bind (scan_queued s) (\<lambda>_ s. gc_return () (s\<lparr>scanning_ephemerons_p := False\<rparr>)))"

definition initialize_weak_chain :: "gc_state \<Rightarrow> gc_state" where
  "initialize_weak_chain s = s\<lparr>weak_chain := None\<rparr>"

partial_function (option) update_ephemeron_loop :: "scheme_object \<Rightarrow> gc_state \<Rightarrow> unit gc_result" where
  "update_ephemeron_loop ephemeron s =
    (if EPHEMERON_P ephemeron then
       let ephemeron_addr = OBJECT_ADDRESS ephemeron;
           key_loc = ephemeron_addr + EPHEMERON_KEY;
           old_key = READ_TOSPACE key_loc s
       in Option.bind (weak_referent_forward old_key SHARP_F s)
            (\<lambda>r. case r of
               Inl e \<Rightarrow> Some (Inl e)
             | Inr (new_key, s) \<Rightarrow>
                 let s = WRITE_TOSPACE ephemeron_addr MARKED_EPHEMERON_MANIFEST s;
                     s = WRITE_TOSPACE key_loc new_key s;
                     ephemeron = READ_TOSPACE (ephemeron_addr + EPHEMERON_LIST) s;
                     s = WRITE_TOSPACE (ephemeron_addr + EPHEMERON_LIST) SHARP_F s;
                     s = WRITE_TOSPACE (ephemeron_addr + EPHEMERON_NEXT) SHARP_F s;
                     s = (if new_key = SHARP_F then WRITE_TOSPACE (ephemeron_addr + EPHEMERON_DATUM) SHARP_F s else s)
                 in update_ephemeron_loop ephemeron s)
     else Some (Inr ((), s)))"

definition update_ephemerons :: "gc_state \<Rightarrow> unit gc_result" where
  "update_ephemerons s =
    gc_bind (update_ephemeron_loop (ephemeron_list s) s)
      (\<lambda>_ s. gc_return () (s\<lparr>ephemeron_list := SHARP_F\<rparr>))"

partial_function (option) update_weak_pairs :: "gc_state \<Rightarrow> unit gc_result" where
  "update_weak_pairs s =
    (case weak_chain s of
       None \<Rightarrow> Some (Inr ((), s))
     | Some chain \<Rightarrow>
         let new_addr = OBJECT_ADDRESS (memory s chain);
             obj = memory s (chain + 1);
             old_car = OBJECT_NEW_TYPE (OBJECT_TYPE obj) (READ_TOSPACE new_addr s)
         in Option.bind (weak_referent_forward old_car GC_RECLAIMED s)
              (\<lambda>r. case r of
                 Inl e \<Rightarrow> Some (Inl e)
               | Inr (new_car, s) \<Rightarrow>
                   update_weak_pairs
                     ((WRITE_TOSPACE new_addr new_car s)
                       \<lparr>weak_chain := (if OBJECT_DATUM obj = 0 then None else Some (OBJECT_ADDRESS obj))\<rparr>)))"

definition update_weak_pointers :: "gc_state \<Rightarrow> unit gc_result" where
  "update_weak_pointers s =
    gc_bind (scan_ephemerons s) (\<lambda>_ s. gc_bind (update_ephemerons s) (\<lambda>_ s. update_weak_pairs s))"

end
