(* ===== verification/GC_Driver.thy ===== *)
theory GC_Driver
  imports GC_Loop
begin

text \<open>
  The memory manager of memmag.c and its neighbours: the memory layout, the interrupt registers of
  intrpt.h, the stack of stack.h, allocation at \<open>Free\<close> and the driver of the collector.

  \<open>initialize_gc\<close> hands the collector the addresses of the variables \<open>heap_start\<close> and \<open>Free\<close>, so
  these two are the fromspace bounds of \<open>gc_state\<close>. Tospace comes from \<open>malloc\<close>: its address is
  an argument. The configuration is the one without compiled code and debugging tools.
\<close>

record machine =
  gc :: gc_state
  memory_block_start :: addr
  memory_block_end :: addr
  saved_stack_size :: nat
  stack_start :: addr
  stack_end :: addr
  stack_pointer :: addr
  stack_guard :: addr
  constant_start :: addr
  constant_alloc_next :: addr
  constant_end :: addr
  heap_end :: addr
  heap_reserved :: nat
  heap_alloc_limit :: addr
  Free_primitive :: addr
  int_mask :: ulong
  int_code :: ulong
  memtop_register :: addr
  stack_guard_register :: addr
  exp_register :: scheme_object
  ret_register :: scheme_object
  gc_space_needed :: nat
  fixed_objects :: scheme_object
  history_register :: addr
  saved_to :: "addr option"
  n_ephemerons_requested :: nat
  ephemeron_request_hard_p :: bool

abbreviation heap_start :: "machine \<Rightarrow> addr" where "heap_start m \<equiv> fromspace_start (gc m)"
abbreviation Free :: "machine \<Rightarrow> addr" where "Free m \<equiv> fromspace_end (gc m)"
abbreviation mem :: "machine \<Rightarrow> addr \<Rightarrow> scheme_object" where "mem m \<equiv> memory (gc m)"

definition set_Free :: "addr \<Rightarrow> machine \<Rightarrow> machine" where
  "set_Free a m = m\<lparr>gc := (gc m)\<lparr>fromspace_end := a\<rparr>\<rparr>"

definition store_word :: "addr \<Rightarrow> scheme_object \<Rightarrow> machine \<Rightarrow> machine" where
  "store_word a object m = m\<lparr>gc := mem_write a object (gc m)\<rparr>"

datatype term_code =
    Term_Gc_Death string | Term_Stack_Overflow | Term_No_Space | Term_Exit

type_synonym 'a machine_result = "(term_code + 'a \<times> machine) option"

definition run_gc :: "(gc_state \<Rightarrow> 'a gc_result) \<Rightarrow> machine \<Rightarrow> 'a machine_result" where
  "run_gc f m =
    (case f (gc m) of
       None \<Rightarrow> None
     | Some (Inl (Gc_Death message)) \<Rightarrow> Some (Inl (Term_Gc_Death message))
     | Some (Inr (x, s)) \<Rightarrow> Some (Inr (x, m\<lparr>gc := s\<rparr>)))"

definition machine_bind :: "'a machine_result \<Rightarrow> ('a \<Rightarrow> machine \<Rightarrow> 'b machine_result) \<Rightarrow> 'b machine_result" where
  "machine_bind r f = Option.bind r (\<lambda>r. case r of Inl e \<Rightarrow> Some (Inl e) | Inr (x, m) \<Rightarrow> f x m)"

definition machine_return :: "'a \<Rightarrow> machine \<Rightarrow> 'a machine_result" where
  "machine_return x m = Some (Inr (x, m))"

lemma machine_bind_simps [simp]:
  "machine_bind (machine_return x m) f = f x m" "machine_bind (Some (Inl e)) f = Some (Inl e)"
  "machine_bind None f = None"
  by (simp_all add: machine_bind_def machine_return_def)

lemma run_gc_return [simp]: "f (gc m) = gc_return x s \<Longrightarrow> run_gc f m = machine_return x (m\<lparr>gc := s\<rparr>)"
  by (simp add: run_gc_def gc_return_def machine_return_def)

subsection \<open>Interrupts\<close>

definition INT_Stack_Overflow :: ulong where "INT_Stack_Overflow = 0x0001"
definition INT_GC :: ulong where "INT_GC = 0x0004"

definition PENDING_INTERRUPTS :: "machine \<Rightarrow> ulong" where
  "PENDING_INTERRUPTS m = int_mask m AND int_code m"

definition INTERRUPT_ENABLED_P :: "ulong \<Rightarrow> machine \<Rightarrow> bool" where
  "INTERRUPT_ENABLED_P bits m \<longleftrightarrow> int_mask m AND bits \<noteq> 0"

definition GC_ENABLED_P :: "machine \<Rightarrow> bool" where
  "GC_ENABLED_P m \<longleftrightarrow> INTERRUPT_ENABLED_P INT_GC m"

definition COMPILER_SETUP_INTERRUPT :: "machine \<Rightarrow> machine" where
  "COMPILER_SETUP_INTERRUPT m =
    m\<lparr>memtop_register :=
        (if PENDING_INTERRUPTS m \<noteq> 0 then memory_block_start m
         else if GC_ENABLED_P m then heap_alloc_limit m else heap_end m),
      stack_guard_register :=
        (if INTERRUPT_ENABLED_P INT_Stack_Overflow m then stack_guard m else stack_start m)\<rparr>"

definition SET_INTERRUPT_MASK :: "ulong \<Rightarrow> machine \<Rightarrow> machine" where
  "SET_INTERRUPT_MASK bits m = COMPILER_SETUP_INTERRUPT (m\<lparr>int_mask := bits\<rparr>)"

definition REQUEST_INTERRUPT :: "ulong \<Rightarrow> machine \<Rightarrow> machine" where
  "REQUEST_INTERRUPT code m = COMPILER_SETUP_INTERRUPT (m\<lparr>int_code := int_code m OR code\<rparr>)"

definition CLEAR_INTERRUPT :: "ulong \<Rightarrow> machine \<Rightarrow> machine" where
  "CLEAR_INTERRUPT code m = COMPILER_SETUP_INTERRUPT (m\<lparr>int_code := int_code m AND NOT code\<rparr>)"

definition INITIALIZE_INTERRUPTS :: "ulong \<Rightarrow> machine \<Rightarrow> machine" where
  "INITIALIZE_INTERRUPTS bits m = COMPILER_SETUP_INTERRUPT (m\<lparr>int_mask := bits, int_code := 0\<rparr>)"

subsection \<open>Heap allocation\<close>

definition FREE_OK_P :: "addr \<Rightarrow> machine \<Rightarrow> bool" where
  "FREE_OK_P free m \<longleftrightarrow> free \<ge> heap_start m \<and> free < heap_alloc_limit m"

definition HEAP_AVAILABLE :: "machine \<Rightarrow> nat" where
  "HEAP_AVAILABLE m = (if FREE_OK_P (Free m) m then heap_alloc_limit m - Free m else 0)"

text \<open>
  \<open>(Free + n_words) <= heap_alloc_limit\<close>, a comparison of addresses. The sum is exact here; in C it is only
  defined up to the end of memory, and a request so large that the addition wraps is undefined
  behaviour, which \<open>Primitive_GC_If_Needed\<close> reports before it comes here.
\<close>

definition HEAP_AVAILABLE_P :: "nat \<Rightarrow> machine \<Rightarrow> bool" where
  "HEAP_AVAILABLE_P n_words m \<longleftrightarrow> FREE_OK_P (Free m) m \<and> Free m + n_words \<le> heap_alloc_limit m"

definition GC_NEEDED_P :: "nat \<Rightarrow> machine \<Rightarrow> bool" where
  "GC_NEEDED_P n_words m \<longleftrightarrow> \<not> HEAP_AVAILABLE_P n_words m \<and> GC_ENABLED_P m"

definition ADDRESS_IN_HEAP_P :: "addr \<Rightarrow> machine \<Rightarrow> bool" where
  "ADDRESS_IN_HEAP_P a m \<longleftrightarrow> a \<ge> heap_start m \<and> a < heap_end m"

definition SPACE_BEFORE_GC :: "machine \<Rightarrow> nat" where
  "SPACE_BEFORE_GC m =
    (if GC_ENABLED_P m then HEAP_AVAILABLE m
     else if ADDRESS_IN_HEAP_P (Free m) m then heap_end m - Free m else 0)"

definition REQUEST_GC :: "nat \<Rightarrow> machine \<Rightarrow> machine" where
  "REQUEST_GC n_words m = (REQUEST_INTERRUPT INT_GC m)\<lparr>gc_space_needed := n_words\<rparr>"

definition RESET_HEAP_ALLOC_LIMIT :: "machine \<Rightarrow> machine" where
  "RESET_HEAP_ALLOC_LIMIT m = COMPILER_SETUP_INTERRUPT (m\<lparr>heap_alloc_limit := heap_end m - heap_reserved m\<rparr>)"

definition push_heap :: "scheme_object \<Rightarrow> machine \<Rightarrow> machine" where
  "push_heap object m = set_Free (Free m + 1) (store_word (Free m) object m)"

fun fill_heap :: "nat \<Rightarrow> scheme_object \<Rightarrow> machine \<Rightarrow> machine" where
  "fill_heap 0 fill_value m = m"
| "fill_heap (Suc len) fill_value m = fill_heap len fill_value (push_heap fill_value m)"

definition TC_VECTOR :: ulong where "TC_VECTOR = 0x0A"
definition VECTOR_DATA :: nat where "VECTOR_DATA = 1"
definition VECTOR_P :: "scheme_object \<Rightarrow> bool" where "VECTOR_P object \<longleftrightarrow> OBJECT_TYPE object = TC_VECTOR"

text \<open>The body of \<open>make_marked_vector\<close>, and so of \<open>make_vector\<close> when it is called without a check.\<close>

definition make_marked_vector_words :: "ulong \<Rightarrow> nat \<Rightarrow> scheme_object \<Rightarrow> machine \<Rightarrow> scheme_object \<times> machine" where
  "make_marked_vector_words type len fill_value m =
    (MAKE_POINTER_OBJECT type (Free m),
     fill_heap len fill_value (push_heap (MAKE_OBJECT TC_MANIFEST_VECTOR (of_nat len)) m))"

subsection \<open>Memory layout\<close>

definition STACK_GUARD_SIZE :: nat where "STACK_GUARD_SIZE = 4096"
definition CONSTANT_SPACE_FUDGE :: nat where "CONSTANT_SPACE_FUDGE = 128"
definition DEFAULT_HEAP_RESERVED :: nat where "DEFAULT_HEAP_RESERVED = 4500"

definition SET_STACK_LIMITS :: "addr \<Rightarrow> nat \<Rightarrow> machine \<Rightarrow> machine" where
  "SET_STACK_LIMITS a n_words m = m\<lparr>stack_start := a, stack_end := a + n_words\<rparr>"

definition INITIALIZE_STACK :: "machine \<Rightarrow> machine" where
  "INITIALIZE_STACK m =
    (let m = m\<lparr>stack_pointer := stack_end m\<rparr>;
         m = store_word (stack_start m) (MAKE_BROKEN_HEART (stack_start m)) m
     in COMPILER_SETUP_INTERRUPT (m\<lparr>stack_guard := stack_start m + STACK_GUARD_SIZE\<rparr>))"

definition STACK_OVERFLOWED_P :: "machine \<Rightarrow> bool" where
  "STACK_OVERFLOWED_P m \<longleftrightarrow> mem m (stack_start m) \<noteq> MAKE_BROKEN_HEART (stack_start m)"

definition CAN_PUSH_P :: "nat \<Rightarrow> machine \<Rightarrow> bool" where
  "CAN_PUSH_P n m \<longleftrightarrow> stack_guard m + n \<le> stack_pointer m"

definition STACK_CHECK :: "nat \<Rightarrow> machine \<Rightarrow> unit machine_result" where
  "STACK_CHECK n m =
    (if \<not> CAN_PUSH_P n m then
       if STACK_OVERFLOWED_P m then Some (Inl Term_Stack_Overflow)
       else machine_return () (REQUEST_INTERRUPT INT_Stack_Overflow m)
     else machine_return () m)"

definition STACK_PUSH :: "scheme_object \<Rightarrow> machine \<Rightarrow> machine" where
  "STACK_PUSH object m = store_word (stack_pointer m - 1) object (m\<lparr>stack_pointer := stack_pointer m - 1\<rparr>)"

definition allocations_ok_p :: "nat \<Rightarrow> nat \<Rightarrow> nat \<Rightarrow> machine \<Rightarrow> bool" where
  "allocations_ok_p n_constant n_heap n_reserved m \<longleftrightarrow>
    memory_block_start m + saved_stack_size m + n_constant + CONSTANT_SPACE_FUDGE + n_heap +
    (if n_reserved = 0 then DEFAULT_HEAP_RESERVED else n_reserved) < memory_block_end m"

definition reset_allocator_parameters :: "nat \<Rightarrow> nat \<Rightarrow> machine \<Rightarrow> machine" where
  "reset_allocator_parameters n_constant reserved m =
    (let m = m\<lparr>heap_reserved := (if reserved = 0 then DEFAULT_HEAP_RESERVED else reserved), gc_space_needed := 0\<rparr>;
         m = SET_STACK_LIMITS (memory_block_start m) (saved_stack_size m) m;
         m = m\<lparr>constant_start := memory_block_start m + saved_stack_size m\<rparr>;
         m = m\<lparr>constant_alloc_next := constant_start m\<rparr>;
         m = m\<lparr>constant_end := constant_alloc_next m + n_constant + CONSTANT_SPACE_FUDGE\<rparr>;
         m = m\<lparr>gc := (gc m)\<lparr>fromspace_start := constant_end m\<rparr>\<rparr>;
         m = set_Free (heap_start m) m;
         m = m\<lparr>heap_end := memory_block_end m\<rparr>
     in INITIALIZE_STACK (RESET_HEAP_ALLOC_LIMIT m))"

text \<open>The tospace allocator is \<open>malloc\<close>: \<open>p\<close> is the address it returns for \<open>n_words\<close> words.\<close>

definition initialize_gc :: "nat \<Rightarrow> addr \<Rightarrow> machine \<Rightarrow> machine" where
  "initialize_gc n_words p m =
    m\<lparr>gc := (CLOSE_TOSPACE (gc m))\<lparr>tospace_start := p, tospace_end := p + n_words\<rparr>\<rparr>"

subsection \<open>The ephemeron array\<close>

definition primes :: "nat list" where
  "primes =
    [11, 23, 53, 97, 193, 389, 769, 1543, 3079, 6151, 12289, 24593, 49157,
     98317, 196613, 393241, 786433, 1572869, 3145739, 6291469, 12582917,
     25165843, 50331653, 100663319, 201326611, 402653189, 805306457,
     1610612741]"

function search_primes :: "nat \<Rightarrow> nat \<Rightarrow> nat \<Rightarrow> nat" where
  "search_primes n start stop =
    (let index = start + (stop - start) div 2 in
     if primes ! index < n then
       if index + 1 < stop then search_primes n (index + 1) stop else primes ! (index + 1)
     else if n < primes ! index then
       if start < index then search_primes n start index else primes ! start
     else primes ! index)"
  by pat_completeness auto
termination by (relation "measure (\<lambda>(n, start, stop). stop - start)") auto

definition compute_ephemeron_array_length :: "nat \<Rightarrow> nat" where
  "compute_ephemeron_array_length n =
    (let stop = length primes in
     if primes ! (stop - 1) < n then primes ! (stop - 1) else search_primes n 0 stop)"

definition ephemeron_array_big_enough_p :: "nat \<Rightarrow> machine \<Rightarrow> bool" where
  "ephemeron_array_big_enough_p n m \<longleftrightarrow>
    n = 0 \<or> (VECTOR_P (ephemeron_array (gc m)) \<and> n \<le> VECTOR_LENGTH (ephemeron_array (gc m)) (gc m))"

definition compute_extra_ephemeron_space :: "nat \<Rightarrow> machine \<Rightarrow> nat" where
  "compute_extra_ephemeron_space n m =
    (if ephemeron_array_big_enough_p n m then 0 else VECTOR_DATA + compute_ephemeron_array_length n)"

definition make_ephemeron_array :: "nat \<Rightarrow> machine \<Rightarrow> machine" where
  "make_ephemeron_array len m =
    (let (v, m) = make_marked_vector_words TC_VECTOR len SHARP_F m in
     m\<lparr>gc := (gc m)\<lparr>ephemeron_array := v\<rparr>\<rparr>)"

definition guarantee_extra_ephemeron_space :: "nat \<Rightarrow> machine \<Rightarrow> unit machine_result" where
  "guarantee_extra_ephemeron_space n m =
    (let m = m\<lparr>gc := (gc m)\<lparr>ephemeron_count := n\<rparr>\<rparr> in
     if \<not> ephemeron_array_big_enough_p n m then
       let len = compute_ephemeron_array_length n in
       if \<not> HEAP_AVAILABLE_P (VECTOR_DATA + len) m then Some (Inl Term_Exit)
       else machine_return () (make_ephemeron_array len m)
     else machine_return () m)"

subsection \<open>The collection\<close>

definition UNMARKED_HISTORY_TYPE :: ulong where "UNMARKED_HISTORY_TYPE = TC_HUNK3_A"

definition std_gc_pt1 :: "machine \<Rightarrow> unit machine_result" where
  "std_gc_pt1 m =
    (let m = m\<lparr>saved_to := Some (newspace_next (gc m))\<rparr> in
     machine_bind (run_gc (add_to_tospace (fixed_objects m)) m) (\<lambda>_ m.
     machine_bind (run_gc (add_to_tospace (MAKE_POINTER_OBJECT UNMARKED_HISTORY_TYPE (history_register m))) m) (\<lambda>_ m.
     machine_bind (run_gc (gc_scan_oldspace (stack_pointer m) (stack_end m)) m) (\<lambda>_ m.
     machine_bind (run_gc (gc_scan_oldspace (constant_start m) (constant_alloc_next m)) m) (\<lambda>_ m.
     machine_bind (run_gc (gc_scan_tospace (the (saved_to m)) None) m) (\<lambda>_ m.
     run_gc update_weak_pointers m))))))"

definition new_ephemeron_array :: "machine \<Rightarrow> machine" where
  "new_ephemeron_array m =
    (let count = ephemeron_count (gc m);
         len = compute_ephemeron_array_length (count + n_ephemerons_requested m);
         enough = HEAP_AVAILABLE_P (VECTOR_DATA + len + n_ephemerons_requested m * EPHEMERON_SIZE) m;
         m = (if \<not> enough \<and> ephemeron_request_hard_p m
              then m\<lparr>gc_space_needed := gc_space_needed m + (VECTOR_DATA + len)\<rparr> else m);
         len = (if enough then len else compute_ephemeron_array_length count)
     in (make_ephemeron_array len m)\<lparr>n_ephemerons_requested := 0, ephemeron_request_hard_p := False\<rparr>)"

definition std_gc_pt2 :: "machine \<Rightarrow> unit machine_result" where
  "std_gc_pt2 m =
    (let p = newspace_next (gc m) in
     machine_bind (run_gc save_tospace m) (\<lambda>_ m.
       let m = set_Free p m;
           to = the (saved_to m);
           m = m\<lparr>fixed_objects := mem m to, history_register := OBJECT_ADDRESS (mem m (to + 1)), saved_to := None\<rparr>
       in machine_return () (CLEAR_INTERRUPT INT_GC (new_ephemeron_array m))))"

text \<open>
  The primitive \<open>garbage-collect\<close>, up to the continuation it pushes and the procedure that it leaves
  to the interpreter: the GC daemon, or nothing. \<open>safety_margin\<close> is the checked argument
  \<open>ARG_HEAP_RESERVED (1)\<close>.
\<close>

definition TC_RETURN_CODE :: ulong where "TC_RETURN_CODE = 0x0B"
definition RC_NORMAL_GC_DONE :: ulong where "RC_NORMAL_GC_DONE = 0x20"
definition GC_DAEMON :: nat where "GC_DAEMON = 0x0B"
definition CONTINUATION_SIZE :: nat where "CONTINUATION_SIZE = 2"

datatype gc_next = Prim_Pop_Return | Prim_Apply

definition SAVE_CONT :: "machine \<Rightarrow> machine" where
  "SAVE_CONT m = STACK_PUSH (ret_register m) (STACK_PUSH (exp_register m) m)"

definition start_collection :: "nat \<Rightarrow> machine \<Rightarrow> machine" where
  "start_collection safety_margin m =
    (let m = (if safety_margin < heap_end m - heap_start m
              then m\<lparr>heap_reserved := safety_margin, heap_alloc_limit := heap_end m - safety_margin\<rparr> else m)
     in m\<lparr>stack_pointer := stack_pointer m + 1\<rparr>)"

definition collect :: "machine \<Rightarrow> unit machine_result" where
  "collect m =
    machine_bind (run_gc (open_tospace (heap_start m)) m) (\<lambda>_ m.
      let m = m\<lparr>gc := (initialize_weak_chain (gc m))\<lparr>ephemeron_count := 0\<rparr>\<rparr>
      in machine_bind (std_gc_pt1 m) (\<lambda>_ m. std_gc_pt2 m))"

definition finish_collection :: "machine \<Rightarrow> gc_next machine_result" where
  "finish_collection m =
    machine_bind (STACK_CHECK CONTINUATION_SIZE m) (\<lambda>_ m.
      let m = m\<lparr>ret_register := MAKE_OBJECT TC_RETURN_CODE RC_NORMAL_GC_DONE,
            exp_register := ULONG_TO_FIXNUM (of_nat
              (if HEAP_AVAILABLE m > gc_space_needed m then HEAP_AVAILABLE m - gc_space_needed m else 0))\<rparr>;
          m = SAVE_CONT m;
          daemon = mem m (VECTOR_LOC (fixed_objects m) GC_DAEMON)
      in if daemon = SHARP_F then machine_return Prim_Pop_Return m
         else machine_bind (STACK_CHECK 2 m) (\<lambda>_ m.
           machine_return Prim_Apply (STACK_PUSH (MAKE_OBJECT 0 1) (STACK_PUSH daemon m))))"

definition garbage_collect :: "nat \<Rightarrow> machine \<Rightarrow> gc_next machine_result" where
  "garbage_collect safety_margin m =
    (if STACK_OVERFLOWED_P m then Some (Inl Term_Stack_Overflow)
     else if Free m > heap_end m then Some (Inl Term_No_Space)
     else machine_bind (collect (start_collection safety_margin m)) (\<lambda>_ m. finish_collection m))"

definition get_object_address :: "scheme_object \<Rightarrow> addr option" where
  "get_object_address object =
    (case gc_ptr_type object of GC_POINTER_NORMAL \<Rightarrow> Some (OBJECT_ADDRESS object) | _ \<Rightarrow> None)"

definition object_in_heap_p :: "scheme_object \<Rightarrow> machine \<Rightarrow> bool" where
  "object_in_heap_p object m \<longleftrightarrow>
    (case get_object_address object of None \<Rightarrow> False | Some address \<Rightarrow> ADDRESS_IN_HEAP_P address m)"

definition resize_tospace :: "nat \<Rightarrow> addr \<Rightarrow> machine \<Rightarrow> unit machine_result" where
  "resize_tospace n_words p m =
    (if tospace_open_p (gc m) then Some (Inl (Term_Gc_Death ''tospace is open, should be closed''))
     else machine_return () (m\<lparr>gc := (gc m)\<lparr>tospace_start := p, tospace_end := p + n_words\<rparr>\<rparr>))"

text \<open>
  \<open>purify\<close> of purify.c: the object and what it refers to are copied first, next to constant space, and
  a collection is then finished behind them. \<open>p\<close> is the address of the resized tospace.
\<close>

definition purify :: "scheme_object \<Rightarrow> addr \<Rightarrow> machine \<Rightarrow> unit machine_result" where
  "purify object p m =
    (if STACK_OVERFLOWED_P m then Some (Inl Term_Stack_Overflow)
     else machine_bind (run_gc (open_tospace (constant_alloc_next m)) m) (\<lambda>_ m.
       let m = m\<lparr>gc := initialize_weak_chain (gc m)\<rparr>;
           start_copy = newspace_next (gc m)
       in machine_bind (run_gc (add_to_tospace object) m) (\<lambda>_ m.
          machine_bind (run_gc (gc_scan_tospace start_copy None) m) (\<lambda>_ m.
            let new_constant_alloc_next = newspace_next (gc m) in
            machine_bind (run_gc (increment_tospace_ptr CONSTANT_SPACE_FUDGE) m) (\<lambda>_ m.
              let heap_copy_start = newspace_next (gc m) in
              machine_bind (std_gc_pt1 m) (\<lambda>_ m.
                let m = m\<lparr>constant_alloc_next := new_constant_alloc_next, constant_end := heap_copy_start\<rparr>;
                    m = m\<lparr>gc := (gc m)\<lparr>fromspace_start := constant_end m\<rparr>\<rparr>
                in machine_bind (std_gc_pt2 m) (\<lambda>_ m.
                  resize_tospace (heap_end m - heap_start m) p m)))))))"

text \<open>The size of the ephemeron array is the first prime of the table that is large enough.\<close>

lemma primes_sorted: "sorted_wrt (<) primes"
  by (simp add: primes_def)

lemma primes_less: "i < j \<Longrightarrow> j < length primes \<Longrightarrow> primes ! i < primes ! j"
  using primes_sorted by (rule sorted_wrt_nth_less)

lemma search_primes_correct:
  assumes "start < stop" "stop \<le> length primes" "\<And>i. i < start \<Longrightarrow> primes ! i < n"
    and "stop < length primes \<Longrightarrow> n < primes ! stop" "n \<le> primes ! (length primes - 1)"
  shows "\<exists>k < length primes. search_primes n start stop = primes ! k \<and> n \<le> primes ! k \<and> (\<forall>i < k. primes ! i < n)"
  using assms
proof (induction n start stop rule: search_primes.induct)
  case (1 n start stop)
  define index where "index = start + (stop - start) div 2"
  have ix: "start \<le> index" "index < stop" using "1.prems"(1) by (auto simp: index_def)
  note IH1 = "1.IH"(1) [OF index_def] and IH2 = "1.IH"(2) [OF index_def]
  have unf: "search_primes n start stop =
     (if primes ! index < n then
        if index + 1 < stop then search_primes n (index + 1) stop else primes ! (index + 1)
      else if n < primes ! index then
        if start < index then search_primes n start index else primes ! start
      else primes ! index)"
    by (subst search_primes.simps) (simp add: index_def Let_def)
  consider "primes ! index < n" | "n < primes ! index" | "n = primes ! index" by linarith
  then show ?case
  proof cases
    case lt: 1
    have below: "primes ! i < n" if "i < index + 1" for i
    proof (cases "i = index")
      case False
      then have "primes ! i < primes ! index" using that ix "1.prems"(2) by (intro primes_less) auto
      then show ?thesis using lt by simp
    qed (use lt in simp)
    show ?thesis
    proof (cases "index + 1 < stop")
      case True
      then show ?thesis using lt IH1 [OF lt True] below "1.prems" unf by auto
    next
      case False
      then have st: "stop = index + 1" using ix by simp
      have "stop \<noteq> length primes"
      proof
        assume "stop = length primes"
        then have "index = length primes - 1" using st by simp
        then have "primes ! (length primes - 1) < n" using lt by simp
        then show False using "1.prems"(5) by simp
      qed
      then have "stop < length primes" using "1.prems"(2) by simp
      then show ?thesis using lt False below "1.prems"(4) unf st by (intro exI [of _ stop]) auto
    qed
  next
    case gt: 2
    show ?thesis
    proof (cases "start < index")
      case True
      have "\<exists>k < length primes. search_primes n start index = primes ! k \<and> n \<le> primes ! k \<and> (\<forall>i < k. primes ! i < n)"
        by (rule IH2) (use gt True ix "1.prems" in auto)
      then show ?thesis using gt True unf by simp
    next
      case False
      then have "index = start" using ix by simp
      then show ?thesis using gt unf ix "1.prems"(2,3) by (intro exI [of _ start]) auto
    qed
  next
    case eq: 3
    have "primes ! i < n" if "i < index" for i using that eq ix "1.prems"(2) primes_less [of i index] by simp
    then show ?thesis using eq unf ix "1.prems"(2) by (intro exI [of _ index]) auto
  qed
qed

lemma compute_ephemeron_array_length_correct:
  "(if n \<le> last primes
    then compute_ephemeron_array_length n \<in> set primes \<and> n \<le> compute_ephemeron_array_length n \<and>
      (\<forall>q \<in> set primes. n \<le> q \<longrightarrow> compute_ephemeron_array_length n \<le> q)
    else compute_ephemeron_array_length n = last primes)"
proof -
  have l: "last primes = primes ! (length primes - 1)" by (simp add: last_conv_nth primes_def)
  show ?thesis
  proof (cases "n \<le> last primes")
    case True
    then obtain k where k: "k < length primes" "search_primes n 0 (length primes) = primes ! k" "n \<le> primes ! k"
      "\<forall>i < k. primes ! i < n"
      using search_primes_correct [of 0 "length primes" n] l by (auto simp: primes_def)
    have "compute_ephemeron_array_length n = primes ! k"
      using True l k by (simp add: compute_ephemeron_array_length_def Let_def)
    moreover have "primes ! k \<le> q" if q: "q \<in> set primes" "n \<le> q" for q
    proof -
      obtain i where i: "i < length primes" "q = primes ! i" using q(1) by (auto simp: in_set_conv_nth)
      then have "\<not> i < k" using k(4) q(2) by auto
      then show ?thesis using i primes_less [of k i] by (cases "i = k") auto
    qed
    ultimately show ?thesis using True k by simp
  qed (simp add: l compute_ephemeron_array_length_def Let_def)
qed

end
