(* ===== verification/Heap_Prims.thy ===== *)
theory Heap_Prims
  imports Integer_Prims GC_Driver
begin

text \<open>
  Primitives on objects in memory: pairs and weak pairs (list.c), vectors and records (vector.c),
  object manipulation and cells (prim.c), ephemerons (memmag.c). The arguments are on the stack.

  A primitive returns a value or aborts to the interpreter with an error or a request for a garbage
  collection; the machine state is returned in either case. The value is an \<open>obj\<close>, so that a
  primitive that returns an integer can return a bignum. An integer argument is read from memory
  by \<open>heap_object\<close>. An address is the number of a word, below \<open>2 ^ 61\<close>. Where the C code
  computes a pointer past the end of the address space to compare it, or overflows a \<open>long\<close>, the
  outcome is \<open>Undefined_Behaviour\<close>; an address that is computed from an unchecked index wraps around.
\<close>

subsection \<open>Aborts\<close>

datatype prim_abort =
    Prim_Error prim_error    \<comment> \<open>\<open>signal_error_from_primitive\<close>\<close>
  | Wrong_Number_Of_Arguments
  | Prim_Interrupt           \<comment> \<open>\<open>PRIMITIVE_ABORT (PRIM_INTERRUPT)\<close>\<close>
  | Prim_Exit                \<comment> \<open>\<open>Microcode_Termination\<close> or a failed assertion\<close>
  | Undefined_Behaviour      \<comment> \<open>C leaves the computation undefined\<close>

type_synonym 'a heap_prim = "(prim_abort + 'a) \<times> machine"

definition heap_bind :: "'a heap_prim \<Rightarrow> ('a \<Rightarrow> machine \<Rightarrow> 'b heap_prim) \<Rightarrow> 'b heap_prim" where
  "heap_bind r f = (case r of (Inl e, m) \<Rightarrow> (Inl e, m) | (Inr x, m) \<Rightarrow> f x m)"

lemma heap_bind_simps [simp]: "heap_bind (Inl e, m) f = (Inl e, m)" "heap_bind (Inr x, m) f = f x m"
  by (simp_all add: heap_bind_def)

definition check_prim :: "'a prim \<Rightarrow> machine \<Rightarrow> 'a heap_prim" where
  "check_prim r m =
    (case r of None \<Rightarrow> (Inl Prim_Exit, m) | Some (Inl e) \<Rightarrow> (Inl (Prim_Error e), m) | Some (Inr x) \<Rightarrow> (Inr x, m))"

lemma check_prim_simps [simp]:
  "check_prim None m = (Inl Prim_Exit, m)" "check_prim (Some (Inl e)) m = (Inl (Prim_Error e), m)"
  "check_prim (Some (Inr x)) m = (Inr x, m)"
  by (simp_all add: check_prim_def)

definition wrong_type :: "nat \<Rightarrow> machine \<Rightarrow> 'a heap_prim" where
  "wrong_type n m = (Inl (Prim_Error (Wrong_Type n)), m)"

definition bad_range :: "nat \<Rightarrow> machine \<Rightarrow> 'a heap_prim" where
  "bad_range n m = (Inl (Prim_Error (Bad_Range n)), m)"

definition return_word :: "scheme_object \<Rightarrow> machine \<Rightarrow> obj heap_prim" where
  "return_word w m = (Inr (Immediate w), m)"

definition return_integer :: "obj option \<Rightarrow> machine \<Rightarrow> obj heap_prim" where
  "return_integer r m = (case r of None \<Rightarrow> (Inl Prim_Exit, m) | Some n \<Rightarrow> (Inr n, m))"

definition ARG_LOC :: "nat \<Rightarrow> machine \<Rightarrow> addr" where
  "ARG_LOC n m = stack_pointer m + (n - 1)"

definition ARG_REF :: "nat \<Rightarrow> machine \<Rightarrow> scheme_object" where
  "ARG_REF n m = mem m (ARG_LOC n m)"

definition heap_object :: "machine \<Rightarrow> scheme_object \<Rightarrow> obj" where
  "heap_object m w =
    (if OBJECT_TYPE w = TC_BIG_FIXNUM then
       let header = mem m (OBJECT_ADDRESS w + 1);
           digits = map (\<lambda>i. uint (mem m (OBJECT_ADDRESS w + 2 + i))) [0..<unat (HEADER_LENGTH header)]
       in Bignum (mk_bignum (HEADER_NEGATIVE_P header) digits)
     else Immediate w)"

definition ARG_INTEGER :: "(nat \<Rightarrow> obj \<Rightarrow> 'a prim) \<Rightarrow> nat \<Rightarrow> machine \<Rightarrow> 'a heap_prim" where
  "ARG_INTEGER check n m = check_prim (check n (heap_object m (ARG_REF n m))) m"

subsection \<open>Storage\<close>

definition Primitive_GC :: "nat \<Rightarrow> machine \<Rightarrow> 'a heap_prim" where
  "Primitive_GC amount m =
    (if Free_primitive m < heap_start m \<or> Free m < Free_primitive m then (Inl Prim_Exit, m)
     else (Inl Prim_Interrupt, REQUEST_GC (amount + (Free m - Free_primitive m)) m))"

definition Primitive_GC_If_Needed :: "nat \<Rightarrow> machine \<Rightarrow> unit heap_prim" where
  "Primitive_GC_If_Needed amount m = 
    (if Free m + amount \<ge> 2 ^ 61 then (Inl Undefined_Behaviour, m)
     else if GC_NEEDED_P amount m then Primitive_GC amount m else (Inr (), m))"

definition MEMORY_LOC :: "scheme_object \<Rightarrow> nat \<Rightarrow> addr" where
  "MEMORY_LOC object i = OBJECT_ADDRESS object + i"

definition MEMORY_REF :: "scheme_object \<Rightarrow> nat \<Rightarrow> machine \<Rightarrow> scheme_object" where
  "MEMORY_REF object i m = mem m (MEMORY_LOC object i)"

definition MEMORY_SET :: "scheme_object \<Rightarrow> nat \<Rightarrow> scheme_object \<Rightarrow> machine \<Rightarrow> machine" where
  "MEMORY_SET object i v m = store_word (MEMORY_LOC object i) v m"

definition CONS_CAR :: nat where "CONS_CAR = 0"
definition CONS_CDR :: nat where "CONS_CDR = 1"
definition PAIR_CAR :: "scheme_object \<Rightarrow> machine \<Rightarrow> scheme_object" where "PAIR_CAR pair = MEMORY_REF pair CONS_CAR"
definition PAIR_CDR :: "scheme_object \<Rightarrow> machine \<Rightarrow> scheme_object" where "PAIR_CDR pair = MEMORY_REF pair CONS_CDR"
definition SET_PAIR_CAR :: "scheme_object \<Rightarrow> scheme_object \<Rightarrow> machine \<Rightarrow> machine" where
  "SET_PAIR_CAR pair car = MEMORY_SET pair CONS_CAR car"
definition SET_PAIR_CDR :: "scheme_object \<Rightarrow> scheme_object \<Rightarrow> machine \<Rightarrow> machine" where
  "SET_PAIR_CDR pair cdr = MEMORY_SET pair CONS_CDR cdr"

definition TC_CELL :: ulong where "TC_CELL = 0x36"
definition TC_TAGGED_OBJECT :: ulong where "TC_TAGGED_OBJECT = 0x25"
definition TC_RECORD :: ulong where "TC_RECORD = 0x3E"

definition PAIR_P_heap :: "scheme_object \<Rightarrow> bool" where "PAIR_P_heap object \<longleftrightarrow> OBJECT_TYPE object = TC_LIST"
definition WEAK_PAIR_P :: "scheme_object \<Rightarrow> bool" where "WEAK_PAIR_P object \<longleftrightarrow> OBJECT_TYPE object = TC_WEAK_CONS"
definition TAGGED_OBJECT_P :: "scheme_object \<Rightarrow> bool" where
  "TAGGED_OBJECT_P object \<longleftrightarrow> OBJECT_TYPE object = TC_TAGGED_OBJECT"
definition RECORD_P :: "scheme_object \<Rightarrow> bool" where "RECORD_P object \<longleftrightarrow> OBJECT_TYPE object = TC_RECORD"
definition CELL_P :: "scheme_object \<Rightarrow> bool" where "CELL_P object \<longleftrightarrow> OBJECT_TYPE object = TC_CELL"
definition EMPTY_LIST_P :: "scheme_object \<Rightarrow> bool" where "EMPTY_LIST_P object \<longleftrightarrow> object = EMPTY_LIST"
definition GC_TYPE :: "scheme_object \<Rightarrow> gc_type_t" where "GC_TYPE object = gc_type_code (OBJECT_TYPE object)"
definition GC_TYPE_PAIR :: "scheme_object \<Rightarrow> bool" where "GC_TYPE_PAIR object \<longleftrightarrow> GC_TYPE object = GC_PAIR"
definition GC_TYPE_VECTOR :: "scheme_object \<Rightarrow> bool" where "GC_TYPE_VECTOR object \<longleftrightarrow> GC_TYPE object = GC_VECTOR"

definition CHECK_ARG_heap :: "nat \<Rightarrow> (scheme_object \<Rightarrow> bool) \<Rightarrow> machine \<Rightarrow> 'a heap_prim \<Rightarrow> 'a heap_prim" where
  "CHECK_ARG_heap n type_p m rest = (if \<not> type_p (ARG_REF n m) then wrong_type n m else rest)"

subsection \<open>Pairs\<close>

definition system_pair_cons :: "ulong \<Rightarrow> scheme_object \<Rightarrow> scheme_object \<Rightarrow> machine \<Rightarrow> scheme_object heap_prim" where
  "system_pair_cons type car cdr m =
    heap_bind (Primitive_GC_If_Needed 2 m) (\<lambda>_ m.
      let m = push_heap cdr (push_heap car m) in (Inr (MAKE_POINTER_OBJECT type (Free m - 2)), m))"

definition cons :: "scheme_object \<Rightarrow> scheme_object \<Rightarrow> machine \<Rightarrow> scheme_object heap_prim" where
  "cons = system_pair_cons TC_LIST"

definition return_new :: "scheme_object heap_prim \<Rightarrow> obj heap_prim" where
  "return_new r = heap_bind r return_word"

definition Prim_pair :: "machine \<Rightarrow> obj heap_prim" where
  "Prim_pair m = return_word (BOOLEAN_TO_OBJECT (PAIR_P_heap (ARG_REF 1 m))) m"
definition Prim_cons :: "machine \<Rightarrow> obj heap_prim" where
  "Prim_cons m = return_new (cons (ARG_REF 1 m) (ARG_REF 2 m) m)"
definition Prim_car :: "machine \<Rightarrow> obj heap_prim" where
  "Prim_car m = CHECK_ARG_heap 1 PAIR_P_heap m (return_word (PAIR_CAR (ARG_REF 1 m) m) m)"
definition Prim_cdr :: "machine \<Rightarrow> obj heap_prim" where
  "Prim_cdr m = CHECK_ARG_heap 1 PAIR_P_heap m (return_word (PAIR_CDR (ARG_REF 1 m) m) m)"
definition Prim_set_car :: "machine \<Rightarrow> obj heap_prim" where
  "Prim_set_car m =
    CHECK_ARG_heap 1 PAIR_P_heap m (return_word UNSPECIFIC (SET_PAIR_CAR (ARG_REF 1 m) (ARG_REF 2 m) m))"
definition Prim_set_cdr :: "machine \<Rightarrow> obj heap_prim" where
  "Prim_set_cdr m =
    CHECK_ARG_heap 1 PAIR_P_heap m (return_word UNSPECIFIC (SET_PAIR_CDR (ARG_REF 1 m) (ARG_REF 2 m) m))"

function car_cdr_loop :: "scheme_object \<Rightarrow> ulong \<Rightarrow> machine \<Rightarrow> obj heap_prim" where
  "car_cdr_loop object path m =
    (if path > 1 then
       if \<not> PAIR_P_heap object then wrong_type 1 m
       else car_cdr_loop (if path AND 1 = 0 then PAIR_CDR object m else PAIR_CAR object m) (drop_bit 1 path) m
     else return_word object m)"
  by pat_completeness auto
termination
proof (relation "measure (\<lambda>(object, path, m). unat path)", goal_cases)
  case (2 object path m)
  then have "unat (drop_bit 1 path) < unat path"
    by (simp only: unat_drop_bit_eq) (simp add: drop_bit_eq_div word_less_nat_alt)
  then show ?case by simp
qed simp

definition Prim_general_car_cdr :: "machine \<Rightarrow> obj heap_prim" where
  "Prim_general_car_cdr m =
    heap_bind (ARG_INTEGER arg_ulong_integer 2 m) (\<lambda>path m. car_cdr_loop (ARG_REF 1 m) path m)"

definition Prim_sys_pair :: "machine \<Rightarrow> obj heap_prim" where
  "Prim_sys_pair m = return_word (BOOLEAN_TO_OBJECT (GC_TYPE_PAIR (ARG_REF 1 m))) m"

definition Prim_sys_pair_cons :: "machine \<Rightarrow> obj heap_prim" where
  "Prim_sys_pair_cons m =
    heap_bind (ARG_INTEGER (\<lambda>n. arg_ulong_index_integer n N_TYPE_CODES) 1 m) (\<lambda>type m.
      if gc_type_code type \<noteq> GC_PAIR then bad_range 1 m
      else return_new (system_pair_cons type (ARG_REF 2 m) (ARG_REF 3 m) m))"

definition Prim_sys_pair_car :: "machine \<Rightarrow> obj heap_prim" where
  "Prim_sys_pair_car m = CHECK_ARG_heap 1 GC_TYPE_PAIR m (return_word (PAIR_CAR (ARG_REF 1 m) m) m)"
definition Prim_sys_pair_cdr :: "machine \<Rightarrow> obj heap_prim" where
  "Prim_sys_pair_cdr m = CHECK_ARG_heap 1 GC_TYPE_PAIR m (return_word (PAIR_CDR (ARG_REF 1 m) m) m)"
definition Prim_sys_set_car :: "machine \<Rightarrow> obj heap_prim" where
  "Prim_sys_set_car m =
    CHECK_ARG_heap 1 GC_TYPE_PAIR m (return_word UNSPECIFIC (SET_PAIR_CAR (ARG_REF 1 m) (ARG_REF 2 m) m))"
definition Prim_sys_set_cdr :: "machine \<Rightarrow> obj heap_prim" where
  "Prim_sys_set_cdr m =
    CHECK_ARG_heap 1 GC_TYPE_PAIR m (return_word UNSPECIFIC (SET_PAIR_CDR (ARG_REF 1 m) (ARG_REF 2 m) m))"

definition Prim_tagged_object_p :: "machine \<Rightarrow> obj heap_prim" where
  "Prim_tagged_object_p m = return_word (BOOLEAN_TO_OBJECT (TAGGED_OBJECT_P (ARG_REF 1 m))) m"

text \<open>\<open>%make-tagged-object\<close> and \<open>weak-cons\<close> fill the two words in the same way.\<close>

definition make_two_words :: "ulong \<Rightarrow> machine \<Rightarrow> obj heap_prim" where
  "make_two_words type m =
    heap_bind (Primitive_GC_If_Needed 2 m) (\<lambda>_ m.
      let result = MAKE_POINTER_OBJECT type (Free m);
          m = push_heap (ARG_REF 1 m) m;
          m = push_heap (ARG_REF 2 m) m
      in return_word result m)"

definition Prim_make_tagged_object :: "machine \<Rightarrow> obj heap_prim" where
  "Prim_make_tagged_object = make_two_words TC_TAGGED_OBJECT"
definition Prim_tagged_object_tag :: "machine \<Rightarrow> obj heap_prim" where
  "Prim_tagged_object_tag m = CHECK_ARG_heap 1 TAGGED_OBJECT_P m (return_word (MEMORY_REF (ARG_REF 1 m) 0 m) m)"
definition Prim_tagged_object_datum :: "machine \<Rightarrow> obj heap_prim" where
  "Prim_tagged_object_datum m = CHECK_ARG_heap 1 TAGGED_OBJECT_P m (return_word (MEMORY_REF (ARG_REF 1 m) 1 m) m)"
definition Prim_weak_pair_p :: "machine \<Rightarrow> obj heap_prim" where
  "Prim_weak_pair_p m = return_word (BOOLEAN_TO_OBJECT (WEAK_PAIR_P (ARG_REF 1 m))) m"
definition Prim_weak_cons :: "machine \<Rightarrow> obj heap_prim" where
  "Prim_weak_cons = make_two_words TC_WEAK_CONS"
definition Prim_weak_car :: "machine \<Rightarrow> obj heap_prim" where
  "Prim_weak_car m = CHECK_ARG_heap 1 WEAK_PAIR_P m (return_word (MEMORY_REF (ARG_REF 1 m) 0 m) m)"
definition Prim_weak_cdr :: "machine \<Rightarrow> obj heap_prim" where
  "Prim_weak_cdr m = CHECK_ARG_heap 1 WEAK_PAIR_P m (return_word (MEMORY_REF (ARG_REF 1 m) 1 m) m)"
definition Prim_weak_set_car :: "machine \<Rightarrow> obj heap_prim" where
  "Prim_weak_set_car m =
    CHECK_ARG_heap 1 WEAK_PAIR_P m (return_word UNSPECIFIC (MEMORY_SET (ARG_REF 1 m) 0 (ARG_REF 2 m) m))"
definition Prim_weak_set_cdr :: "machine \<Rightarrow> obj heap_prim" where
  "Prim_weak_set_cdr m =
    CHECK_ARG_heap 1 WEAK_PAIR_P m (return_word UNSPECIFIC (MEMORY_SET (ARG_REF 1 m) 1 (ARG_REF 2 m) m))"


subsection \<open>Vectors and records\<close>

definition VECTOR_LENGTH_heap :: "scheme_object \<Rightarrow> machine \<Rightarrow> nat" where
  "VECTOR_LENGTH_heap v m = VECTOR_LENGTH v (gc m)"
definition VECTOR_REF :: "scheme_object \<Rightarrow> nat \<Rightarrow> machine \<Rightarrow> scheme_object" where
  "VECTOR_REF v i m = MEMORY_REF v (i + 1) m"
definition VECTOR_SET :: "scheme_object \<Rightarrow> nat \<Rightarrow> scheme_object \<Rightarrow> machine \<Rightarrow> machine" where
  "VECTOR_SET v i object m = MEMORY_SET v (i + 1) object m"

definition allocate_vector :: "ulong \<Rightarrow> ulong \<Rightarrow> nat \<Rightarrow> machine \<Rightarrow> scheme_object heap_prim" where
  "allocate_vector type manifest_type len m =
    (let result = MAKE_POINTER_OBJECT type (Free m);
         m = push_heap (MAKE_OBJECT manifest_type (of_nat len)) m
     in (Inr result, set_Free (Free m + len) m))"

definition allocate_non_marked_vector :: "ulong \<Rightarrow> nat \<Rightarrow> bool \<Rightarrow> machine \<Rightarrow> scheme_object heap_prim" where
  "allocate_non_marked_vector type len gc_check_p m =
    heap_bind (if gc_check_p then Primitive_GC_If_Needed (1 + len) m else (Inr (), m)) (\<lambda>_ m.
      allocate_vector type TC_MANIFEST_NM_VECTOR len m)"

definition allocate_marked_vector :: "ulong \<Rightarrow> nat \<Rightarrow> bool \<Rightarrow> machine \<Rightarrow> scheme_object heap_prim" where
  "allocate_marked_vector type len gc_check_p m =
    heap_bind (if gc_check_p then Primitive_GC_If_Needed (1 + len) m else (Inr (), m)) (\<lambda>_ m.
      allocate_vector type TC_MANIFEST_VECTOR len m)"

definition make_marked_vector :: "ulong \<Rightarrow> nat \<Rightarrow> scheme_object \<Rightarrow> bool \<Rightarrow> machine \<Rightarrow> scheme_object heap_prim" where
  "make_marked_vector type len fill_value gc_check_p m =
    heap_bind (if gc_check_p then Primitive_GC_If_Needed (len + 1) m else (Inr (), m)) (\<lambda>_ m.
      let (result, m) = make_marked_vector_words type len fill_value m in (Inr result, m))"

definition make_vector :: "nat \<Rightarrow> scheme_object \<Rightarrow> bool \<Rightarrow> machine \<Rightarrow> scheme_object heap_prim" where
  "make_vector = make_marked_vector TC_VECTOR"

definition Prim_allocate_nm_vector :: "machine \<Rightarrow> obj heap_prim" where
  "Prim_allocate_nm_vector m =
    heap_bind (ARG_INTEGER (\<lambda>n. arg_ulong_index_integer n N_TYPE_CODES) 1 m) (\<lambda>type m.
    heap_bind (ARG_INTEGER (\<lambda>n. arg_ulong_index_integer n (push_bit DATUM_LENGTH 1)) 2 m) (\<lambda>len m.
      return_new (allocate_non_marked_vector type (unat len) True m)))"

definition Prim_vector_cons :: "machine \<Rightarrow> obj heap_prim" where
  "Prim_vector_cons m =
    heap_bind (ARG_INTEGER arg_nonnegative_integer 1 m) (\<lambda>len m.
      return_new (make_vector (nat len) (ARG_REF 2 m) True m))"

fun copy_arguments :: "addr \<Rightarrow> addr \<Rightarrow> nat \<Rightarrow> machine \<Rightarrow> machine" where
  "copy_arguments argument_scan result_scan 0 m = m"
| "copy_arguments argument_scan result_scan (Suc n) m =
    copy_arguments (argument_scan + 1) (result_scan + 1) n (store_word result_scan (mem m argument_scan) m)"

text \<open>\<open>actuals\<close> is the register \<open>LEXPR_ACTUALS\<close>: the number of arguments of the call.\<close>

definition vector_of_arguments :: "ulong \<Rightarrow> nat \<Rightarrow> machine \<Rightarrow> obj heap_prim" where
  "vector_of_arguments type actuals m =
    heap_bind (allocate_marked_vector type actuals True m) (\<lambda>result m.
      return_word result (copy_arguments (ARG_LOC 1 m) (VECTOR_LOC result 0) actuals m))"

definition Prim_vector :: "nat \<Rightarrow> machine \<Rightarrow> obj heap_prim" where
  "Prim_vector actuals = vector_of_arguments TC_VECTOR actuals"

definition Prim_make_record :: "machine \<Rightarrow> obj heap_prim" where
  "Prim_make_record m =
    heap_bind (ARG_INTEGER (\<lambda>n. arg_ulong_index_integer n (push_bit DATUM_LENGTH 1)) 1 m) (\<lambda>len m.
      return_new (make_marked_vector TC_RECORD (unat len) (ARG_REF 2 m) True m))"

definition Prim_record :: "nat \<Rightarrow> machine \<Rightarrow> obj heap_prim" where
  "Prim_record nargs m =
    (if nargs < 1 then (Inl Wrong_Number_Of_Arguments, m) else vector_of_arguments TC_RECORD nargs m)"

definition Prim_vector_p :: "machine \<Rightarrow> obj heap_prim" where
  "Prim_vector_p m = return_word (BOOLEAN_TO_OBJECT (VECTOR_P (ARG_REF 1 m))) m"
definition Prim_record_p :: "machine \<Rightarrow> obj heap_prim" where
  "Prim_record_p m = return_word (BOOLEAN_TO_OBJECT (RECORD_P (ARG_REF 1 m))) m"
definition Prim_sys_vector :: "machine \<Rightarrow> obj heap_prim" where
  "Prim_sys_vector m = return_word (BOOLEAN_TO_OBJECT (GC_TYPE_VECTOR (ARG_REF 1 m))) m"

definition ARG_of_type :: "(scheme_object \<Rightarrow> bool) \<Rightarrow> nat \<Rightarrow> machine \<Rightarrow> scheme_object heap_prim" where
  "ARG_of_type type_p n m = (if type_p (ARG_REF n m) then (Inr (ARG_REF n m), m) else wrong_type n m)"
definition ARG_VECTOR :: "nat \<Rightarrow> machine \<Rightarrow> scheme_object heap_prim" where "ARG_VECTOR = ARG_of_type VECTOR_P"
definition ARG_RECORD :: "nat \<Rightarrow> machine \<Rightarrow> scheme_object heap_prim" where "ARG_RECORD = ARG_of_type RECORD_P"
definition ARG_GC_VECTOR :: "nat \<Rightarrow> machine \<Rightarrow> scheme_object heap_prim" where "ARG_GC_VECTOR = ARG_of_type GC_TYPE_VECTOR"

definition ARG_VECTOR_INDEX :: "nat \<Rightarrow> scheme_object \<Rightarrow> machine \<Rightarrow> long heap_prim" where
  "ARG_VECTOR_INDEX n v m = ARG_INTEGER (\<lambda>n. arg_index_integer n (int (VECTOR_LENGTH_heap v m))) n m"

definition VECTOR_LENGTH_PRIMITIVE :: "(nat \<Rightarrow> machine \<Rightarrow> scheme_object heap_prim) \<Rightarrow> machine \<Rightarrow> obj heap_prim" where
  "VECTOR_LENGTH_PRIMITIVE arg_type m =
    heap_bind (arg_type 1 m) (\<lambda>v m. return_integer (long_to_integer (int (VECTOR_LENGTH_heap v m))) m)"

definition VECTOR_REF_PRIMITIVE :: "(nat \<Rightarrow> machine \<Rightarrow> scheme_object heap_prim) \<Rightarrow> machine \<Rightarrow> obj heap_prim" where
  "VECTOR_REF_PRIMITIVE arg_type m =
    heap_bind (arg_type 1 m) (\<lambda>v m.
    heap_bind (ARG_VECTOR_INDEX 2 v m) (\<lambda>i m. return_word (VECTOR_REF v (nat i) m) m))"

definition VECTOR_SET_PRIMITIVE :: "(nat \<Rightarrow> machine \<Rightarrow> scheme_object heap_prim) \<Rightarrow> machine \<Rightarrow> obj heap_prim" where
  "VECTOR_SET_PRIMITIVE arg_type m =
    heap_bind (arg_type 1 m) (\<lambda>v m.
      let new_value = ARG_REF 3 m in
      heap_bind (ARG_VECTOR_INDEX 2 v m) (\<lambda>i m. return_word UNSPECIFIC (VECTOR_SET v (nat i) new_value m)))"

definition Prim_vector_length :: "machine \<Rightarrow> obj heap_prim" where "Prim_vector_length = VECTOR_LENGTH_PRIMITIVE ARG_VECTOR"
definition Prim_record_length :: "machine \<Rightarrow> obj heap_prim" where "Prim_record_length = VECTOR_LENGTH_PRIMITIVE ARG_RECORD"
definition Prim_sys_vec_size :: "machine \<Rightarrow> obj heap_prim" where "Prim_sys_vec_size = VECTOR_LENGTH_PRIMITIVE ARG_GC_VECTOR"
definition Prim_vector_ref :: "machine \<Rightarrow> obj heap_prim" where "Prim_vector_ref = VECTOR_REF_PRIMITIVE ARG_VECTOR"
definition Prim_record_ref :: "machine \<Rightarrow> obj heap_prim" where "Prim_record_ref = VECTOR_REF_PRIMITIVE ARG_RECORD"
definition Prim_sys_vector_ref :: "machine \<Rightarrow> obj heap_prim" where "Prim_sys_vector_ref = VECTOR_REF_PRIMITIVE ARG_GC_VECTOR"
definition Prim_vector_set :: "machine \<Rightarrow> obj heap_prim" where "Prim_vector_set = VECTOR_SET_PRIMITIVE ARG_VECTOR"
definition Prim_record_set :: "machine \<Rightarrow> obj heap_prim" where "Prim_record_set = VECTOR_SET_PRIMITIVE ARG_RECORD"
definition Prim_sys_vec_set :: "machine \<Rightarrow> obj heap_prim" where "Prim_sys_vec_set = VECTOR_SET_PRIMITIVE ARG_GC_VECTOR"

text \<open>The loop writes one pair for each of the words \<open>scan\<close> to \<open>scan + n - 1\<close>.\<close>

fun subvector_pairs :: "addr \<Rightarrow> addr \<Rightarrow> nat \<Rightarrow> machine \<Rightarrow> machine" where
  "subvector_pairs scan pair_scan 0 m =
    (let m = set_Free (Free m + 2) m in store_word (pair_scan + 1) EMPTY_LIST (store_word pair_scan (mem m scan) m))"
| "subvector_pairs scan pair_scan (Suc n) m =
    (let m = set_Free (Free m + 2) m;
         m = store_word pair_scan (mem m scan) m;
         m = store_word (pair_scan + 1) (MAKE_POINTER_OBJECT TC_LIST (Free m)) m
     in subvector_pairs (scan + 1) (pair_scan + 2) n m)"

definition subvector_to_list :: "scheme_object \<Rightarrow> nat \<Rightarrow> nat \<Rightarrow> machine \<Rightarrow> scheme_object heap_prim" where
  "subvector_to_list v start stop m =
    (if start = stop then (Inr EMPTY_LIST, m)
     else heap_bind (Primitive_GC_If_Needed (2 * (stop - start)) m) (\<lambda>_ m.
       (Inr (MAKE_POINTER_OBJECT TC_LIST (Free m)),
        subvector_pairs (VECTOR_LOC v start) (Free m) (stop - 1 - start) m)))"

definition SUBVECTOR_TO_LIST_PRIMITIVE :: "(nat \<Rightarrow> machine \<Rightarrow> scheme_object heap_prim) \<Rightarrow> machine \<Rightarrow> obj heap_prim" where
  "SUBVECTOR_TO_LIST_PRIMITIVE arg_type m =
    heap_bind (arg_type 1 m) (\<lambda>v m.
    heap_bind (ARG_INTEGER arg_nonnegative_integer 2 m) (\<lambda>start m.
    heap_bind (ARG_INTEGER arg_nonnegative_integer 3 m) (\<lambda>stop m.
      if stop > int (VECTOR_LENGTH_heap v m) then bad_range 3 m
      else if start > stop then bad_range 2 m
      else return_new (subvector_to_list v (nat start) (nat stop) m))))"

definition Prim_subvector_to_list :: "machine \<Rightarrow> obj heap_prim" where
  "Prim_subvector_to_list = SUBVECTOR_TO_LIST_PRIMITIVE ARG_VECTOR"
definition Prim_sys_subvector_to_list :: "machine \<Rightarrow> obj heap_prim" where
  "Prim_sys_subvector_to_list = SUBVECTOR_TO_LIST_PRIMITIVE ARG_GC_VECTOR"

text \<open>The loop may not end: a circular list, when collections are disabled.\<close>

partial_function (option) list_words_loop :: "scheme_object \<Rightarrow> nat \<Rightarrow> machine \<Rightarrow> (scheme_object \<times> nat) heap_prim option" where
  "list_words_loop list count m =
    (if PAIR_P_heap list then
       case Primitive_GC_If_Needed 0 m of
         (Inl e, m) \<Rightarrow> Some (Inl e, m)
       | (Inr _, m) \<Rightarrow>
           let m = push_heap (PAIR_CAR list m) m in list_words_loop (PAIR_CDR list m) (count + 1) m
     else Some (Inr (list, count), m))"

definition list_to_vector :: "ulong \<Rightarrow> nat \<Rightarrow> machine \<Rightarrow> obj heap_prim option" where
  "list_to_vector result_type argument_number m =
    (let list = ARG_REF argument_number m;
         result = Free m
     in map_option (\<lambda>r. heap_bind r (\<lambda>(list, count) m.
          if \<not> EMPTY_LIST_P list then wrong_type argument_number m
          else return_word (MAKE_POINTER_OBJECT result_type result)
            (store_word result (MAKE_OBJECT TC_MANIFEST_VECTOR (of_nat count)) m)))
        (list_words_loop list 0 (set_Free (Free m + 1) m)))"

definition Prim_list_to_vector :: "machine \<Rightarrow> obj heap_prim option" where
  "Prim_list_to_vector = list_to_vector TC_VECTOR 1"

definition Prim_sys_list_to_vector :: "machine \<Rightarrow> obj heap_prim option" where
  "Prim_sys_list_to_vector m =
    (case ARG_INTEGER (\<lambda>n. arg_ulong_index_integer n N_TYPE_CODES) 1 m of
       (Inl e, m) \<Rightarrow> Some (Inl e, m)
     | (Inr type_code, m) \<Rightarrow>
         if gc_type_code type_code \<noteq> GC_VECTOR then Some (bad_range 1 m) else list_to_vector type_code 2 m)"


text \<open>Moving and filling. The bounds are C \<open>long\<close>s, here integers.\<close>

definition subvector_move_prefix ::
  "(scheme_object \<Rightarrow> long \<Rightarrow> long \<Rightarrow> scheme_object \<Rightarrow> long \<Rightarrow> long \<Rightarrow> machine \<Rightarrow> obj heap_prim) \<Rightarrow> machine \<Rightarrow> obj heap_prim" where
  "subvector_move_prefix body m =
    heap_bind (ARG_VECTOR 1 m) (\<lambda>vector1 m.
    heap_bind (ARG_INTEGER arg_nonnegative_integer 2 m) (\<lambda>start1 m.
    heap_bind (ARG_INTEGER arg_nonnegative_integer 3 m) (\<lambda>end1 m.
    heap_bind (ARG_VECTOR 4 m) (\<lambda>vector2 m.
    heap_bind (ARG_INTEGER arg_nonnegative_integer 5 m) (\<lambda>start2 m.
      if end1 > int (VECTOR_LENGTH_heap vector1 m) then bad_range 3 m
      else if start1 > end1 then bad_range 2 m
      else let end2 = start2 + (end1 - start1) in
        if \<not> fits_long end2 then (Inl Undefined_Behaviour, m)
        else if end2 > int (VECTOR_LENGTH_heap vector2 m) then bad_range 5 m
        else body vector1 start1 end1 vector2 start2 end2 m)))))"

fun move_right :: "addr \<Rightarrow> addr \<Rightarrow> nat \<Rightarrow> machine \<Rightarrow> machine" where
  "move_right scan1 scan2 0 m = m"
| "move_right scan1 scan2 (Suc len) m =
    move_right (scan1 - 1) (scan2 - 1) len (store_word (scan2 - 1) (mem m (scan1 - 1)) m)"

fun move_left :: "addr \<Rightarrow> addr \<Rightarrow> nat \<Rightarrow> machine \<Rightarrow> machine" where
  "move_left scan1 scan2 0 m = m"
| "move_left scan1 scan2 (Suc len) m = move_left (scan1 + 1) (scan2 + 1) len (store_word scan2 (mem m scan1) m)"

definition Prim_subvector_move_right :: "machine \<Rightarrow> obj heap_prim" where
  "Prim_subvector_move_right =
    subvector_move_prefix (\<lambda>vector1 start1 end1 vector2 start2 end2 m.
      return_word UNSPECIFIC
        (move_right (VECTOR_LOC vector1 (nat end1)) (VECTOR_LOC vector2 (nat end2)) (nat (end1 - start1)) m))"

definition Prim_subvector_move_left :: "machine \<Rightarrow> obj heap_prim" where
  "Prim_subvector_move_left =
    subvector_move_prefix (\<lambda>vector1 start1 end1 vector2 start2 end2 m.
      return_word UNSPECIFIC
        (move_left (VECTOR_LOC vector1 (nat start1)) (VECTOR_LOC vector2 (nat start2)) (nat (end1 - start1)) m))"

fun fill_words :: "addr \<Rightarrow> nat \<Rightarrow> scheme_object \<Rightarrow> machine \<Rightarrow> machine" where
  "fill_words scan 0 fill_value m = m"
| "fill_words scan (Suc len) fill_value m = fill_words (scan + 1) len fill_value (store_word scan fill_value m)"

definition Prim_vector_fill :: "machine \<Rightarrow> obj heap_prim" where
  "Prim_vector_fill m =
    heap_bind (ARG_VECTOR 1 m) (\<lambda>v m.
    heap_bind (ARG_INTEGER arg_nonnegative_integer 2 m) (\<lambda>start m.
    heap_bind (ARG_INTEGER arg_nonnegative_integer 3 m) (\<lambda>stop m.
      let fill_value = ARG_REF 4 m in
      if stop > int (VECTOR_LENGTH_heap v m) then bad_range 3 m
      else if start > stop then bad_range 2 m
      else return_word UNSPECIFIC (fill_words (VECTOR_LOC v (nat start)) (nat (stop - start)) fill_value m))))"

text \<open>Applicable records.\<close>

definition FIXOBJ_RECORD_TAG :: nat where "FIXOBJ_RECORD_TAG = 0x11"
definition FIXOBJ_RECORD_APP_INDEX :: nat where "FIXOBJ_RECORD_APP_INDEX = 0x12"
definition FIXOBJ_PROXIED_RECORD_TYPES :: nat where "FIXOBJ_PROXIED_RECORD_TYPES = 0x15"
definition FASDUMP_RECORD_MARKER_START :: ulong where "FASDUMP_RECORD_MARKER_START = 0x100"
definition FASDUMP_RECORD_MARKER_END :: ulong where "FASDUMP_RECORD_MARKER_END = 0x200"

definition record_marker :: "scheme_object \<Rightarrow> machine \<Rightarrow> scheme_object" where
  "record_marker record m =
    (let marker = VECTOR_REF record 0 m in
     if OBJECT_TYPE marker = TC_CONSTANT \<and> OBJECT_DATUM marker \<ge> FASDUMP_RECORD_MARKER_START \<and>
        OBJECT_DATUM marker < FASDUMP_RECORD_MARKER_END
     then VECTOR_REF (VECTOR_REF (fixed_objects m) FIXOBJ_PROXIED_RECORD_TYPES m)
            (unat (OBJECT_DATUM marker - FASDUMP_RECORD_MARKER_START)) m
     else marker)"

definition record_applicator :: "scheme_object \<Rightarrow> machine \<Rightarrow> scheme_object" where
  "record_applicator record m =
    (let marker = record_marker record m in
     if RECORD_P marker \<and> VECTOR_REF marker 0 m = VECTOR_REF (fixed_objects m) FIXOBJ_RECORD_TAG m
     then VECTOR_REF marker (unat (FIXNUM_TO_ULONG (VECTOR_REF (fixed_objects m) FIXOBJ_RECORD_APP_INDEX m))) m
     else SHARP_F)"

subsection \<open>Object manipulation and cells\<close>

definition arg_type :: "nat \<Rightarrow> machine \<Rightarrow> ulong heap_prim" where
  "arg_type arg = ARG_INTEGER (\<lambda>n. arg_ulong_index_integer n (push_bit TYPE_CODE_LENGTH 1)) arg"
definition arg_datum :: "nat \<Rightarrow> machine \<Rightarrow> ulong heap_prim" where
  "arg_datum arg = ARG_INTEGER (\<lambda>n. arg_ulong_index_integer n (push_bit DATUM_LENGTH 1)) arg"

definition Prim_prim_obj_type :: "machine \<Rightarrow> obj heap_prim" where
  "Prim_prim_obj_type m = return_word (ULONG_TO_FIXNUM (OBJECT_TYPE (ARG_REF 1 m))) m"
definition Prim_prim_obj_type_p :: "machine \<Rightarrow> obj heap_prim" where
  "Prim_prim_obj_type_p m =
    heap_bind (arg_type 1 m) (\<lambda>type m. return_word (BOOLEAN_TO_OBJECT (OBJECT_TYPE (ARG_REF 2 m) = type)) m)"
definition Prim_prim_obj_datum :: "machine \<Rightarrow> obj heap_prim" where
  "Prim_prim_obj_datum m = return_integer (ulong_to_integer (OBJECT_DATUM (ARG_REF 1 m))) m"
definition Prim_make_non_ptr_object :: "machine \<Rightarrow> obj heap_prim" where
  "Prim_make_non_ptr_object m = heap_bind (arg_datum 1 m) (\<lambda>datum m. return_word (ULONG_TO_FIXNUM datum) m)"
definition Prim_prim_obj_set_type :: "machine \<Rightarrow> obj heap_prim" where
  "Prim_prim_obj_set_type m = heap_bind (arg_type 1 m) (\<lambda>type m. return_word (OBJECT_NEW_TYPE type (ARG_REF 2 m)) m)"
definition Prim_prim_obj_eq_p :: "machine \<Rightarrow> obj heap_prim" where
  "Prim_prim_obj_eq_p m = return_word (BOOLEAN_TO_OBJECT (ARG_REF 1 m = ARG_REF 2 m)) m"
definition Prim_prim_make_obj :: "machine \<Rightarrow> obj heap_prim" where
  "Prim_prim_make_obj m =
    heap_bind (arg_type 1 m) (\<lambda>type m. heap_bind (arg_datum 2 m) (\<lambda>datum m. return_word (MAKE_OBJECT type datum) m))"
definition Prim_prim_obj_to_integer :: "machine \<Rightarrow> obj heap_prim" where
  "Prim_prim_obj_to_integer m = return_integer (ulong_to_integer (ARG_REF 1 m)) m"
definition Prim_prim_integer_to_obj :: "machine \<Rightarrow> obj heap_prim" where
  "Prim_prim_integer_to_obj m = heap_bind (ARG_INTEGER arg_ulong_integer 1 m) return_word"

definition arg_address :: "nat \<Rightarrow> machine \<Rightarrow> addr heap_prim" where
  "arg_address n m =
    (let object = ARG_REF n m in
     if gc_ptr_type object \<noteq> GC_POINTER_NORMAL then wrong_type n m else (Inr (OBJECT_ADDRESS object), m))"

definition arg_location :: "machine \<Rightarrow> addr heap_prim" where
  "arg_location m =
    heap_bind (arg_address 1 m) (\<lambda>address m.
    heap_bind (ARG_INTEGER arg_ulong_integer 2 m) (\<lambda>index m. (Inr ((address + unat index) mod 2 ^ 61), m)))"

definition Prim_prim_obj_ref :: "machine \<Rightarrow> obj heap_prim" where
  "Prim_prim_obj_ref m = heap_bind (arg_location m) (\<lambda>a m. return_word (mem m a) m)"
definition Prim_prim_type_ref :: "machine \<Rightarrow> obj heap_prim" where
  "Prim_prim_type_ref m = heap_bind (arg_location m) (\<lambda>a m. return_integer (ulong_to_integer (OBJECT_TYPE (mem m a))) m)"
definition Prim_prim_datum_ref :: "machine \<Rightarrow> obj heap_prim" where
  "Prim_prim_datum_ref m = heap_bind (arg_location m) (\<lambda>a m. return_integer (ulong_to_integer (OBJECT_DATUM (mem m a))) m)"
definition Prim_prim_obj_set :: "machine \<Rightarrow> obj heap_prim" where
  "Prim_prim_obj_set m =
    heap_bind (ARG_INTEGER arg_ulong_integer 2 m) (\<lambda>index m.
      return_word UNSPECIFIC (store_word (MEMORY_LOC (ARG_REF 1 m) (unat index) mod 2 ^ 61) (ARG_REF 3 m) m))"
definition Prim_prim_type_set :: "machine \<Rightarrow> obj heap_prim" where
  "Prim_prim_type_set m =
    heap_bind (arg_location m) (\<lambda>a m.
    heap_bind (arg_type 3 m) (\<lambda>type m. return_word UNSPECIFIC (store_word a (OBJECT_NEW_TYPE type (mem m a)) m)))"
definition Prim_prim_datum_set :: "machine \<Rightarrow> obj heap_prim" where
  "Prim_prim_datum_set m =
    heap_bind (arg_location m) (\<lambda>a m.
    heap_bind (arg_datum 3 m) (\<lambda>datum m. return_word UNSPECIFIC (store_word a (OBJECT_NEW_DATUM (mem m a) datum) m)))"

definition Prim_object_type :: "machine \<Rightarrow> obj heap_prim" where
  "Prim_object_type m = return_word (ULONG_TO_FIXNUM (OBJECT_TYPE (ARG_REF 1 m))) m"

definition GC_TYPE_TO_INT :: "gc_type_t \<Rightarrow> long" where
  "GC_TYPE_TO_INT type =
    (case type of GC_COMPILED_ENTRY \<Rightarrow> - 4 | GC_VECTOR \<Rightarrow> - 3 | GC_SPECIAL \<Rightarrow> - 2 | GC_UNDEFINED \<Rightarrow> - 1
     | GC_NON_POINTER \<Rightarrow> 0 | GC_CELL \<Rightarrow> 1 | GC_PAIR \<Rightarrow> 2 | GC_TRIPLE \<Rightarrow> 3 | GC_QUADRUPLE \<Rightarrow> 4 | GC_COMPILED_RETURN \<Rightarrow> 5)"

definition Prim_object_gc_type :: "machine \<Rightarrow> obj heap_prim" where
  "Prim_object_gc_type m = return_word (LONG_TO_FIXNUM (GC_TYPE_TO_INT (GC_TYPE (ARG_REF 1 m)))) m"
definition Prim_type_to_gc_type :: "machine \<Rightarrow> obj heap_prim" where
  "Prim_type_to_gc_type m =
    heap_bind (arg_type 1 m) (\<lambda>type m. return_word (LONG_TO_FIXNUM (GC_TYPE_TO_INT (gc_type_code type))) m)"
definition Prim_object_type_p :: "machine \<Rightarrow> obj heap_prim" where
  "Prim_object_type_p m =
    heap_bind (arg_type 1 m) (\<lambda>type m. return_word (BOOLEAN_TO_OBJECT (OBJECT_TYPE (ARG_REF 2 m) = type)) m)"
definition Prim_object_datum :: "machine \<Rightarrow> obj heap_prim" where
  "Prim_object_datum m = return_integer (long_to_integer (uint (OBJECT_DATUM (ARG_REF 1 m)))) m"
definition Prim_object_set_type :: "machine \<Rightarrow> obj heap_prim" where
  "Prim_object_set_type m =
    heap_bind (arg_type 1 m) (\<lambda>type_code m.
      let object = ARG_REF 2 m;
          gc_type = gc_type_code type_code
      in if gc_type = GC_UNDEFINED \<or> (gc_type \<noteq> GC_NON_POINTER \<and> gc_type \<noteq> GC_TYPE object) then bad_range 1 m
         else return_word (OBJECT_NEW_TYPE type_code object) m)"

definition Prim_eq :: "machine \<Rightarrow> obj heap_prim" where
  "Prim_eq m = return_word (BOOLEAN_TO_OBJECT (ARG_REF 1 m = ARG_REF 2 m)) m"
definition Prim_not :: "machine \<Rightarrow> obj heap_prim" where
  "Prim_not m = return_word (BOOLEAN_TO_OBJECT (ARG_REF 1 m = SHARP_F)) m"
definition Prim_null_p :: "machine \<Rightarrow> obj heap_prim" where
  "Prim_null_p m = return_word (BOOLEAN_TO_OBJECT (EMPTY_LIST_P (ARG_REF 1 m))) m"

definition CELL_CONTENTS :: nat where "CELL_CONTENTS = 0"
definition CELL_ARG :: "nat \<Rightarrow> machine \<Rightarrow> scheme_object heap_prim" where "CELL_ARG = ARG_of_type CELL_P"
definition Prim_make_cell :: "machine \<Rightarrow> obj heap_prim" where
  "Prim_make_cell m =
    heap_bind (Primitive_GC_If_Needed 1 m) (\<lambda>_ m.
      let m = push_heap (ARG_REF 1 m) m in return_word (MAKE_POINTER_OBJECT TC_CELL (Free m - 1)) m)"
definition Prim_cell_p :: "machine \<Rightarrow> obj heap_prim" where
  "Prim_cell_p m = return_word (BOOLEAN_TO_OBJECT (CELL_P (ARG_REF 1 m))) m"
definition Prim_cell_contents :: "machine \<Rightarrow> obj heap_prim" where
  "Prim_cell_contents m = heap_bind (CELL_ARG 1 m) (\<lambda>cell m. return_word (MEMORY_REF cell CELL_CONTENTS m) m)"
definition Prim_set_cell_contents :: "machine \<Rightarrow> obj heap_prim" where
  "Prim_set_cell_contents m =
    heap_bind (CELL_ARG 1 m) (\<lambda>cell m. return_word UNSPECIFIC (MEMORY_SET cell CELL_CONTENTS (ARG_REF 2 m) m))"

subsection \<open>Ephemerons\<close>

definition gc_if_needed_for_ephemeron :: "nat \<Rightarrow> machine \<Rightarrow> unit heap_prim" where
  "gc_if_needed_for_ephemeron extra_space m =
    (if GC_NEEDED_P (EPHEMERON_SIZE + extra_space) m
     then Primitive_GC EPHEMERON_SIZE (m\<lparr>n_ephemerons_requested := 1, ephemeron_request_hard_p := True\<rparr>)
     else (Inr (), m))"

definition Prim_make_ephemeron :: "machine \<Rightarrow> obj heap_prim" where
  "Prim_make_ephemeron m =
    (let m = m\<lparr>gc := (gc m)\<lparr>ephemeron_count := ephemeron_count (gc m) + 1\<rparr>\<rparr>;
         count = ephemeron_count (gc m)
     in heap_bind
          (if ephemeron_array_big_enough_p count m then gc_if_needed_for_ephemeron 0 m
           else let len = compute_ephemeron_array_length count in
             heap_bind (gc_if_needed_for_ephemeron (VECTOR_DATA + len) m) (\<lambda>_ m. (Inr (), make_ephemeron_array len m)))
          (\<lambda>_ m.
            let a = Free m;
                m = push_heap MARKED_EPHEMERON_MANIFEST m;
                m = push_heap (ARG_REF 1 m) m;
                m = push_heap (ARG_REF 2 m) m;
                m = push_heap SHARP_F m;
                m = push_heap SHARP_F m
            in return_word (MAKE_POINTER_OBJECT TC_EPHEMERON a) m))"

end
