(* ===== verification/GC_Copy.thy ===== *)
theory GC_Copy
  imports GC_Loop
begin

text \<open>
  Correctness of the copying collector of gcloop.c on heaps of ordinary objects (no weak pairs, no
  ephemerons, no compiled code).

  A heap image is the memory before the collection with the live blocks of fromspace. \<open>word_kind\<close>
  reads a word the way the handler table does. The copied blocks are a list \<open>cs\<close>, in the order
  of the copies; \<open>place cs a\<close> is the address that the block \<open>a\<close> gets. The invariant of
  the collector says what memory holds for a given \<open>cs\<close>; a handler extends \<open>cs\<close>, and the scan
  ends because the uncopied part of the heap shrinks.
\<close>

subsection \<open>Words and blocks\<close>

datatype kind_of_word = Word_Plain | Word_Skip nat | Word_Tuple nat | Word_Vector | Word_Other

definition word_kind :: "scheme_object \<Rightarrow> kind_of_word" where
  "word_kind w =
    (if OBJECT_TYPE w = TC_WEAK_CONS \<or> OBJECT_TYPE w = TC_EPHEMERON then Word_Other
     else case gc_type_code (OBJECT_TYPE w) of
       GC_NON_POINTER \<Rightarrow> Word_Plain
     | GC_CELL \<Rightarrow> Word_Tuple 1
     | GC_PAIR \<Rightarrow> Word_Tuple 2
     | GC_TRIPLE \<Rightarrow> Word_Tuple 3
     | GC_QUADRUPLE \<Rightarrow> Word_Tuple 4
     | GC_VECTOR \<Rightarrow> Word_Vector
     | GC_SPECIAL \<Rightarrow>
         if OBJECT_TYPE w = TC_BROKEN_HEART then Word_Other
         else if OBJECT_TYPE w = TC_REFERENCE_TRAP
         then (if OBJECT_DATUM w \<le> TRAP_MAX_IMMEDIATE then Word_Plain else Word_Tuple 2)
         else if OBJECT_TYPE w = TC_MANIFEST_NM_VECTOR then Word_Skip (unat (OBJECT_DATUM w))
         else Word_Other
     | _ \<Rightarrow> Word_Other)"

record heap_image =
  old_memory :: "addr \<Rightarrow> scheme_object"
  from_lo :: addr
  from_hi :: addr
  block :: "addr \<Rightarrow> nat option"

definition fromspace :: "heap_image \<Rightarrow> addr set" where
  "fromspace h = {from_lo h..<from_hi h}"

definition block_size :: "heap_image \<Rightarrow> addr \<Rightarrow> nat" where
  "block_size h a = (case block h a of Some n \<Rightarrow> n | None \<Rightarrow> 0)"

definition raw_words :: "heap_image \<Rightarrow> addr \<Rightarrow> scheme_object list" where
  "raw_words h a = map (old_memory h) [a..<a + block_size h a]"

text \<open>The block a word refers to, if it is a pointer into fromspace.\<close>

definition pointer_p :: "scheme_object \<Rightarrow> bool" where
  "pointer_p w \<longleftrightarrow> (case word_kind w of Word_Tuple _ \<Rightarrow> True | Word_Vector \<Rightarrow> True | _ \<Rightarrow> False)"

definition word_target :: "heap_image \<Rightarrow> scheme_object \<Rightarrow> addr set" where
  "word_target h w = (if pointer_p w \<and> OBJECT_ADDRESS w \<in> fromspace h then {OBJECT_ADDRESS w} else {})"

definition word_size :: "heap_image \<Rightarrow> scheme_object \<Rightarrow> nat" where
  "word_size h w =
    (case word_kind w of
       Word_Tuple n \<Rightarrow> n
     | _ \<Rightarrow> 1 + unat (OBJECT_DATUM (old_memory h (OBJECT_ADDRESS w))))"

definition skip_p :: "scheme_object \<Rightarrow> bool" where
  "skip_p w \<longleftrightarrow> (case word_kind w of Word_Skip _ \<Rightarrow> True | _ \<Rightarrow> False)"

definition word_ok :: "heap_image \<Rightarrow> scheme_object \<Rightarrow> bool" where
  "word_ok h w \<longleftrightarrow> word_kind w \<noteq> Word_Other \<and>
    (\<forall>a \<in> word_target h w. block h a = Some (word_size h w) \<and>
       (word_kind w \<noteq> Word_Vector \<longrightarrow> \<not> skip_p (old_memory h a)))"

text \<open>A region is read from its first word; a manifest header skips the words it counts.\<close>

definition skip_words :: "scheme_object \<Rightarrow> nat" where
  "skip_words w = (case word_kind w of Word_Skip n \<Rightarrow> n | _ \<Rightarrow> 0)"

function scan_ok :: "heap_image \<Rightarrow> scheme_object list \<Rightarrow> bool" where
  "scan_ok h [] = True"
| "scan_ok h (w # ws) = (word_ok h w \<and> skip_words w \<le> length ws \<and> scan_ok h (drop (skip_words w) ws))"
  by pat_completeness auto
termination by (relation "measure (length \<circ> snd)") auto

definition fwd :: "heap_image \<Rightarrow> (addr \<Rightarrow> addr) \<Rightarrow> scheme_object \<Rightarrow> scheme_object" where
  "fwd h \<phi> w = (if word_target h w = {} then w else OBJECT_NEW_ADDRESS w (\<phi> (OBJECT_ADDRESS w)))"

function fwd_list :: "heap_image \<Rightarrow> (addr \<Rightarrow> addr) \<Rightarrow> scheme_object list \<Rightarrow> scheme_object list" where
  "fwd_list h \<phi> [] = []"
| "fwd_list h \<phi> (w # ws) =
    fwd h \<phi> w # take (skip_words w) ws @ fwd_list h \<phi> (drop (skip_words w) ws)"
  by pat_completeness auto
termination by (relation "measure (length \<circ> snd \<circ> snd)") auto

function targets :: "heap_image \<Rightarrow> scheme_object list \<Rightarrow> addr set" where
  "targets h [] = {}"
| "targets h (w # ws) = word_target h w \<union> targets h (drop (skip_words w) ws)"
  by pat_completeness auto
termination by (relation "measure (length \<circ> snd)") auto

text \<open>Live blocks are disjoint, lie in fromspace and hold words that can be scanned.\<close>

definition heap_wf :: "heap_image \<Rightarrow> bool" where
  "heap_wf h \<longleftrightarrow>
    (\<forall>a n. block h a = Some n \<longrightarrow>
       0 < n \<and> from_lo h \<le> a \<and> a + n \<le> from_hi h \<and> scan_ok h (raw_words h a)) \<and>
    (\<forall>a b m n. block h a = Some m \<longrightarrow> block h b = Some n \<longrightarrow> a < b \<longrightarrow> a + m \<le> b)"

lemma length_raw_words [simp]: "length (raw_words h a) = block_size h a"
  by (simp add: raw_words_def)

lemma block_size_Some [simp]: "block h a = Some n \<Longrightarrow> block_size h a = n"
  by (simp add: block_size_def)

lemma heap_wfD:
  assumes "heap_wf h" and "block h a = Some n"
  shows "0 < n" "from_lo h \<le> a" "a + n \<le> from_hi h" "a < from_hi h" "scan_ok h (raw_words h a)"
    and "a \<in> fromspace h" "x \<in> {a..<a + n} \<Longrightarrow> x \<in> fromspace h"
  using assms unfolding heap_wf_def fromspace_def by fastforce+

lemma heap_wf_inside:
  assumes "heap_wf h" and "block h a = Some n" and "x \<in> {a<..<a + n}"
  shows "block h x = None"
proof (rule ccontr)
  assume "block h x \<noteq> None"
  then obtain m where "block h x = Some m" by auto
  then have "a + n \<le> x" using assms unfolding heap_wf_def by auto
  with assms(3) show False by simp
qed

lemma length_fwd_list [simp]: "scan_ok h ws \<Longrightarrow> length (fwd_list h \<phi> ws) = length ws"
  by (induction h ws rule: scan_ok.induct) auto

lemma scan_ok_append: "scan_ok h xs \<Longrightarrow> scan_ok h (xs @ ys) = scan_ok h ys"
  by (induction h xs rule: scan_ok.induct) auto

lemma fwd_list_append: "scan_ok h xs \<Longrightarrow> fwd_list h \<phi> (xs @ ys) = fwd_list h \<phi> xs @ fwd_list h \<phi> ys"
  by (induction h xs rule: scan_ok.induct) auto

lemma targets_append: "scan_ok h xs \<Longrightarrow> targets h (xs @ ys) = targets h xs \<union> targets h ys"
  by (induction h xs rule: scan_ok.induct) auto

lemma fwd_cong: "(\<And>a. a \<in> word_target h w \<Longrightarrow> \<phi> a = \<psi> a) \<Longrightarrow> fwd h \<phi> w = fwd h \<psi> w"
  by (auto simp: fwd_def word_target_def)

lemma fwd_list_cong:
  "scan_ok h ws \<Longrightarrow> (\<And>a. a \<in> targets h ws \<Longrightarrow> \<phi> a = \<psi> a) \<Longrightarrow> fwd_list h \<phi> ws = fwd_list h \<psi> ws"
  by (induction h ws rule: scan_ok.induct) (auto intro: fwd_cong)

lemma targets_blocks: "scan_ok h ws \<Longrightarrow> targets h ws \<subseteq> dom (block h)"
  by (induction h ws rule: scan_ok.induct) (auto simp: word_ok_def)

lemma scan_ok_blocks:
  "heap_wf h \<Longrightarrow> set ds \<subseteq> dom (block h) \<Longrightarrow> scan_ok h (concat (map (raw_words h) ds))"
  by (induction ds) (auto simp: scan_ok_append dest: heap_wfD(5))

subsection \<open>The handler table on each kind of word\<close>

lemma gc_type_code_aligned:
  "gc_type_code TC_BIG_FLONUM = GC_VECTOR" "gc_type_code TC_COMPILED_CODE_BLOCK = GC_VECTOR"
  by (simp_all add: gc_type_code_def gc_type_map_def TC_BIG_FLONUM_def TC_COMPILED_CODE_BLOCK_def)

lemma word_kind_gct:
  assumes "word_kind w \<noteq> Word_Other"
  shows "gct_entry (OBJECT_TYPE w) =
    (case gc_type_code (OBJECT_TYPE w) of
       GC_NON_POINTER \<Rightarrow> gc_handle_non_pointer
     | GC_CELL \<Rightarrow> gc_handle_cell
     | GC_PAIR \<Rightarrow> gc_handle_pair
     | GC_TRIPLE \<Rightarrow> gc_handle_triple
     | GC_QUADRUPLE \<Rightarrow> gc_handle_quadruple
     | GC_VECTOR \<Rightarrow>
         if OBJECT_TYPE w = TC_BIG_FLONUM \<or> OBJECT_TYPE w = TC_COMPILED_CODE_BLOCK
         then gc_handle_aligned_vector else gc_handle_unaligned_vector
     | _ \<Rightarrow> if OBJECT_TYPE w = TC_REFERENCE_TRAP then gc_handle_reference_trap else gc_handle_nmv)"
proof -
  have "OBJECT_TYPE w \<noteq> TC_WEAK_CONS" "OBJECT_TYPE w \<noteq> TC_EPHEMERON"
    using assms by (auto simp: word_kind_def)
  moreover have "gc_type_code (OBJECT_TYPE w) \<noteq> GC_VECTOR \<Longrightarrow>
    OBJECT_TYPE w \<noteq> TC_BIG_FLONUM \<and> OBJECT_TYPE w \<noteq> TC_COMPILED_CODE_BLOCK"
    using gc_type_code_aligned by metis
  moreover have "TC_MANIFEST_NM_VECTOR \<noteq> TC_BROKEN_HEART"
    by (simp add: TC_MANIFEST_NM_VECTOR_def TC_BROKEN_HEART_def)
  ultimately show ?thesis
    using assms unfolding word_kind_def gct_entry_def
    by (cases "gc_type_code (OBJECT_TYPE w)") (auto split: if_splits)
qed

lemma mem_write_same: "memory s a = w \<Longrightarrow> mem_write a w s = s"
  by (auto simp: mem_write_def)

lemma gct_entry_plain:
  "word_kind w = Word_Plain \<Longrightarrow> memory s scan = w \<Longrightarrow> gct_entry (OBJECT_TYPE w) scan w s = gc_return (scan + 1) s"
  by (subst word_kind_gct, simp, cases "gc_type_code (OBJECT_TYPE w)")
    (simp_all add: word_kind_def gc_handle_non_pointer_def gc_handle_reference_trap_def scan_store_def
      mem_write_same split: if_splits)

lemma gct_entry_skip:
  "word_kind w = Word_Skip n \<Longrightarrow> gct_entry (OBJECT_TYPE w) scan w s = gc_return (scan + 1 + n) s"
  by (subst word_kind_gct, simp, cases "gc_type_code (OBJECT_TYPE w)")
    (simp_all add: word_kind_def gc_handle_nmv_def split: if_splits)

lemma gct_entry_tuple:
  "word_kind w = Word_Tuple n \<Longrightarrow> gct_entry (OBJECT_TYPE w) scan w s = scan_store scan (gc_tuple w n s)"
  by (subst word_kind_gct, simp, cases "gc_type_code (OBJECT_TYPE w)")
    (simp_all add: word_kind_def gc_handle_cell_def gc_handle_pair_def gc_handle_triple_def
      gc_handle_quadruple_def gc_handle_reference_trap_def split: if_splits)

lemma gct_entry_vector:
  "word_kind w = Word_Vector \<Longrightarrow>
   \<exists>align_p. gct_entry (OBJECT_TYPE w) scan w s = scan_store scan (gc_vector w align_p s)"
  by (subst word_kind_gct, simp, cases "gc_type_code (OBJECT_TYPE w)")
    (auto simp: word_kind_def gc_handle_unaligned_vector_def gc_handle_aligned_vector_def split: if_splits)


subsection \<open>The invariant\<close>

definition sizes :: "heap_image \<Rightarrow> addr list \<Rightarrow> nat" where
  "sizes h cs = sum_list (map (block_size h) cs)"

definition place :: "heap_image \<Rightarrow> addr \<Rightarrow> addr list \<Rightarrow> addr \<Rightarrow> addr" where
  "place h nb cs a = nb + sizes h (takeWhile (\<lambda>x. x \<noteq> a) cs)"

definition heap_words :: "heap_image \<Rightarrow> nat" where
  "heap_words h = from_hi h - from_lo h"

text \<open>Room for the copies, at \<open>tb\<close> in tospace and \<open>nb\<close> in newspace.\<close>

definition gc_space :: "heap_image \<Rightarrow> addr \<Rightarrow> addr \<Rightarrow> bool" where
  "gc_space h tb nb \<longleftrightarrow> heap_wf h \<and> {tb..<tb + heap_words h} \<inter> fromspace h = {} \<and> nb + heap_words h \<le> 2 ^ 58"

definition gc_inv :: "heap_image \<Rightarrow> addr \<Rightarrow> addr \<Rightarrow> addr list \<Rightarrow> gc_state \<Rightarrow> bool" where
  "gc_inv h tb nb cs s \<longleftrightarrow>
    fromspace_start s = from_lo h \<and> fromspace_end s = from_hi h \<and>
    tospace_open_p s \<and> \<not> scanning_ephemerons_p s \<and>
    tospace_start s \<le> tb \<and> nb + tospace_start s = newspace_start s + tb \<and>
    tospace_next s = tb + sizes h cs \<and> newspace_next s = nb + sizes h cs \<and>
    distinct cs \<and> set cs \<subseteq> dom (block h) \<and>
    (\<forall>a \<in> fromspace h. memory s a =
       (if a \<in> set cs then MAKE_BROKEN_HEART (place h nb cs a) else old_memory h a))"

text \<open>The part of the state that the scan leaves alone.\<close>

definition gc_rest :: "gc_state \<Rightarrow> gc_state" where
  "gc_rest s = s\<lparr>tospace_next := 0, newspace_next := 0, memory := (\<lambda>_. 0)\<rparr>"

lemma gc_rest_mem_write [simp]: "gc_rest (mem_write a w s) = gc_rest s"
  by (simp add: gc_rest_def mem_write_def)

lemma gc_restD:
  assumes "gc_rest s' = gc_rest s"
  shows "fromspace_start s' = fromspace_start s" "fromspace_end s' = fromspace_end s"
    "tospace_start s' = tospace_start s" "tospace_end s' = tospace_end s"
    "newspace_start s' = newspace_start s" "newspace_end s' = newspace_end s"
    "tospace_open_p s' = tospace_open_p s" "weak_chain s' = weak_chain s"
    "ephemeron_list s' = ephemeron_list s" "ephemeron_queue s' = ephemeron_queue s"
    "scanning_ephemerons_p s' = scanning_ephemerons_p s" "ephemeron_array s' = ephemeron_array s"
    "ephemeron_count s' = ephemeron_count s"
  using assms by (cases s; cases s'; simp add: gc_rest_def)+

definition gc_extends :: "heap_image \<Rightarrow> addr \<Rightarrow> addr \<Rightarrow> addr list \<Rightarrow> addr list \<Rightarrow> gc_state \<Rightarrow> gc_state \<Rightarrow> bool" where
  "gc_extends h tb nb cs ds s s' \<longleftrightarrow>
    gc_inv h tb nb (cs @ ds) s' \<and>
    gc_rest s' = gc_rest s \<and>
    (\<forall>x. x \<notin> fromspace h \<longrightarrow> x \<notin> {tospace_next s..<tospace_next s'} \<longrightarrow> memory s' x = memory s x) \<and>
    map (memory s') [tospace_next s..<tospace_next s'] = concat (map (raw_words h) ds)"

lemma sizes_simps [simp]:
  "sizes h [] = 0" "sizes h (a # cs) = block_size h a + sizes h cs" "sizes h (cs @ ds) = sizes h cs + sizes h ds"
  by (simp_all add: sizes_def)

lemma length_concat_raw [simp]: "length (concat (map (raw_words h) ds)) = sizes h ds"
  by (induction ds) simp_all

lemma place_append: "a \<in> set cs \<Longrightarrow> place h nb (cs @ ds) a = place h nb cs a"
  by (induction cs) (auto simp: place_def)

lemma place_new: "a \<notin> set cs \<Longrightarrow> place h nb (cs @ a # ds) a = nb + sizes h cs"
  by (induction cs) (auto simp: place_def)

lemma place_split:
  assumes "a \<in> set cs"
  obtains us vs where "cs = us @ a # vs" "a \<notin> set us" "place h nb cs a = nb + sizes h us"
  using split_list_first [OF assms] place_new by metis

lemma sizes_le:
  assumes wf: "heap_wf h" and d: "distinct cs" and sub: "set cs \<subseteq> dom (block h)"
  shows "sizes h cs \<le> heap_words h"
proof -
  let ?I = "\<lambda>a. {a..<a + block_size h a}"
  have "?I a \<inter> ?I b = {}" if ab: "a \<in> set cs" "b \<in> set cs" "a \<noteq> b" for a b
  proof -
    obtain m n where mn: "block h a = Some m" "block h b = Some n" using ab sub by blast
    then have "a + m \<le> b \<or> b + n \<le> a"
      using wf ab(3) unfolding heap_wf_def by (metis linorder_neqE_nat)
    with mn show ?thesis by auto
  qed
  then have "card (\<Union>a \<in> set cs. ?I a) = (\<Sum>a \<in> set cs. card (?I a))"
    by (intro card_UN_disjoint) auto
  also have "\<dots> = sizes h cs"
    using d by (simp add: sizes_def sum_list_distinct_conv_sum_set)
  finally have "sizes h cs = card (\<Union>a \<in> set cs. ?I a)" by simp
  also have "\<dots> \<le> card (fromspace h)"
  proof (rule card_mono)
    show "(\<Union>a \<in> set cs. ?I a) \<subseteq> fromspace h"
    proof
      fix x assume "x \<in> (\<Union>a \<in> set cs. ?I a)"
      then obtain a where a: "a \<in> set cs" "x \<in> ?I a" by auto
      then obtain n where n: "block h a = Some n" using sub by blast
      show "x \<in> fromspace h" using heap_wfD(7) [OF wf n, of x] a n by simp
    qed
  qed (simp add: fromspace_def)
  finally show ?thesis by (simp add: fromspace_def heap_words_def)
qed

lemma place_less:
  assumes "heap_wf h" "distinct cs" "set cs \<subseteq> dom (block h)" "a \<in> set cs"
  shows "place h nb cs a + block_size h a \<le> nb + heap_words h"
proof -
  obtain us vs where "cs = us @ a # vs" "place h nb cs a = nb + sizes h us" using place_split [OF assms(4)] .
  then show ?thesis using sizes_le [OF assms(1-3)] by simp
qed

subsection \<open>Addresses in words\<close>

lemma OBJECT_ADDRESS_less [simp]: "OBJECT_ADDRESS w < 2 ^ 58"
  using OBJECT_DATUM_less [of w] unfolding OBJECT_ADDRESS_def by (simp add: word_less_nat_alt)

lemma ADDRESS_TO_DATUM_less: "a < 2 ^ 58 \<Longrightarrow> ADDRESS_TO_DATUM a < 2 ^ 58"
  by (simp add: ADDRESS_TO_DATUM_def word_less_nat_alt unat_of_nat)

lemma OBJECT_ADDRESS_MAKE_POINTER [simp]:
  assumes "a < 2 ^ 58" "t < 64"
  shows "OBJECT_ADDRESS (MAKE_POINTER_OBJECT t a) = a"
  using assms ADDRESS_TO_DATUM_less [OF assms(1)]
  by (simp add: MAKE_POINTER_OBJECT_def OBJECT_ADDRESS_def ADDRESS_TO_DATUM_def unat_of_nat)

lemma OBJECT_TYPE_MAKE_POINTER [simp]:
  assumes "a < 2 ^ 58" "t < 64"
  shows "OBJECT_TYPE (MAKE_POINTER_OBJECT t a) = t"
  using assms ADDRESS_TO_DATUM_less [OF assms(1)] by (simp add: MAKE_POINTER_OBJECT_def)

lemma OBJECT_NEW_ADDRESS_same [simp]: "OBJECT_NEW_ADDRESS w (OBJECT_ADDRESS w) = w"
  by (simp add: OBJECT_NEW_ADDRESS_def OBJECT_NEW_DATUM_def OBJECT_ADDRESS_def ADDRESS_TO_DATUM_def)

lemma OBJECT_NEW_ADDRESS_pointer: "OBJECT_NEW_ADDRESS w a = MAKE_POINTER_OBJECT (OBJECT_TYPE w) a"
  by (simp add: OBJECT_NEW_ADDRESS_def OBJECT_NEW_DATUM_def MAKE_POINTER_OBJECT_def)

lemma broken_heart:
  assumes "a < 2 ^ 58"
  shows "BROKEN_HEART_P (MAKE_BROKEN_HEART a)" "OBJECT_ADDRESS (MAKE_BROKEN_HEART a) = a"
  using assms by (simp_all add: BROKEN_HEART_P_def MAKE_BROKEN_HEART_def TC_BROKEN_HEART_def)

lemma word_kind_broken_heart: "BROKEN_HEART_P w \<Longrightarrow> word_kind w = Word_Other"
  by (simp add: BROKEN_HEART_P_def word_kind_def TC_BROKEN_HEART_def gc_type_code_def gc_type_map_def)


subsection \<open>Copying one block\<close>

lemma upt_map_split: "a \<le> b \<Longrightarrow> b \<le> c \<Longrightarrow> map f [a..<c] = map f [a..<b] @ map f [b..<c]"
  by (metis le_Suc_ex map_append upt_add_eq_append)

definition copied_memory :: "addr \<Rightarrow> addr \<Rightarrow> nat \<Rightarrow> (addr \<Rightarrow> scheme_object) \<Rightarrow> addr \<Rightarrow> scheme_object" where
  "copied_memory to from n m = (\<lambda>x. if x \<in> {to..<to + n} then m (from + (x - to)) else m x)"

lemma copied_memory_Suc:
  assumes "to \<notin> {from..<from + Suc n}"
  shows "copied_memory (Suc to) (Suc from) n (m(to := m from)) = copied_memory to from (Suc n) m"
proof
  fix x
  have "Suc from + (x - Suc to) = from + (x - to)" "from + (x - to) \<noteq> to"
    if "x \<in> {Suc to..<Suc to + n}" using that assms by auto
  then show "copied_memory (Suc to) (Suc from) n (m(to := m from)) x = copied_memory to from (Suc n) m x"
    by (cases "x = to") (auto simp: copied_memory_def)
qed

lemma copy_words_eq:
  assumes "{from..<from + n} \<inter> {tospace_next s..<tospace_next s + n} = {}"
  shows "copy_words from n s =
    s\<lparr>memory := copied_memory (tospace_next s) from n (memory s),
      tospace_next := tospace_next s + n, newspace_next := newspace_next s + n\<rparr>"
  using assms
proof (induction n arbitrary: "from" s)
  case 0
  then show ?case by (simp add: copied_memory_def)
next
  case (Suc n)
  have "copy_words (from + 1) n (push_word (memory s from) s) =
    (let s = push_word (memory s from) s in
     s\<lparr>memory := copied_memory (tospace_next s) (from + 1) n (memory s),
      tospace_next := tospace_next s + n, newspace_next := newspace_next s + n\<rparr>)"
    unfolding Let_def using Suc.prems by (intro Suc.IH) (fastforce simp: push_word_def mem_write_def)
  moreover have "tospace_next s \<notin> {from..<from + Suc n}" using Suc.prems by force
  ultimately show ?case by (simp add: push_word_def mem_write_def Let_def copied_memory_Suc)
qed

lemma gc_inv_memory_block:
  assumes inv: "gc_inv h tb nb cs s" and wf: "heap_wf h" and b: "block h a = Some n" "a \<notin> set cs"
    and i: "i < n"
  shows "memory s (a + i) = old_memory h (a + i)"
proof -
  have "a + i \<in> fromspace h" using heap_wfD(7) [OF wf b(1), of "a + i"] i by simp
  moreover have "a + i \<notin> set cs"
  proof (cases "i = 0")
    case False
    then have "block h (a + i) = None" using heap_wf_inside [OF wf b(1)] i by simp
    then show ?thesis using inv unfolding gc_inv_def by (metis domIff subsetD)
  qed (use b in simp)
  ultimately show ?thesis using inv unfolding gc_inv_def by simp
qed

lemma gc_transport_words_correct:
  assumes sp: "gc_space h tb nb" and inv: "gc_inv h tb nb cs s"
    and b: "block h a = Some n" "a \<notin> set cs"
  obtains s' where "gc_transport_words a n align_p s = gc_return (nb + sizes h cs) s'"
    and "gc_extends h tb nb cs [a] s s'"
proof -
  let ?T = "{tospace_next s..<tospace_next s + n}"
  let ?m = "copied_memory (tospace_next s) a n (memory s)"
  let ?s = "s\<lparr>tospace_next := tospace_next s + n, newspace_next := newspace_next s + n,
    memory := ?m(a := MAKE_BROKEN_HEART (nb + sizes h cs))\<rparr>"
  have wf: "heap_wf h" using sp by (simp add: gc_space_def)
  have d: "distinct (cs @ [a])" "set (cs @ [a]) \<subseteq> dom (block h)"
    using inv b by (auto simp: gc_inv_def)
  have "sizes h cs + n \<le> heap_words h" using sizes_le [OF wf d] b by simp
  then have "?T \<subseteq> {tb..<tb + heap_words h}" using inv by (auto simp: gc_inv_def)
  then have T: "?T \<inter> fromspace h = {}" using sp unfolding gc_space_def by blast
  moreover have blk: "x \<in> fromspace h" if "x \<in> {a..<a + n}" for x using heap_wfD(7) [OF wf b(1)] that .
  ultimately have disj: "{a..<a + n} \<inter> ?T = {}" by blast
  have "a \<in> {a..<a + n}" using heap_wfD(1) [OF wf b(1)] by simp
  then have aT: "a \<notin> ?T" using disj by blast
  have run: "gc_transport_words a n align_p s = gc_return (nb + sizes h cs) ?s"
    using inv copy_words_eq [OF disj]
    by (simp add: gc_transport_words_def GUARANTEE_TOSPACE_OPEN_def gc_inv_def mem_write_def Let_def)
  have "gc_inv h tb nb (cs @ [a]) ?s"
    using inv d b T unfolding gc_inv_def
    by (auto simp: place_append place_new copied_memory_def)
  moreover have "map ?m [tospace_next s..<tospace_next s + n] = raw_words h a"
    using gc_inv_memory_block [OF inv wf b] b
    by (auto simp: raw_words_def copied_memory_def intro!: nth_equalityI)
  then have "map (memory ?s) [tospace_next s..<tospace_next s + n] = raw_words h a"
    using aT by (simp add: map_fun_upd)
  ultimately have "gc_extends h tb nb cs [a] s ?s"
    using heap_wfD(6) [OF wf b(1)] by (auto simp: gc_extends_def copied_memory_def gc_rest_def)
  with run show ?thesis by (rule that)
qed


lemma gc_extends_refl: "gc_inv h tb nb cs s \<Longrightarrow> gc_extends h tb nb cs [] s s"
  by (simp add: gc_extends_def)

lemma gc_extends_tospace_next:
  "gc_inv h tb nb cs s \<Longrightarrow> gc_extends h tb nb cs ds s s' \<Longrightarrow> tospace_next s' = tospace_next s + sizes h ds"
  by (simp add: gc_extends_def gc_inv_def)

lemma gc_inv_tospace_next:
  "gc_space h tb nb \<Longrightarrow> gc_inv h tb nb cs s \<Longrightarrow> tospace_next s \<le> tb + heap_words h"
  using sizes_le [of h cs] by (simp add: gc_inv_def gc_space_def)

lemma tospace_fromspace:
  assumes "gc_space h tb nb" "gc_inv h tb nb cs s" "tb \<le> x" "x < tospace_next s"
  shows "x \<notin> fromspace h"
  using gc_inv_tospace_next [OF assms(1,2)] assms(1,3,4) unfolding gc_space_def by fastforce

lemma gc_extends_trans:
  assumes sp: "gc_space h tb nb" and inv: "gc_inv h tb nb cs s"
    and e1: "gc_extends h tb nb cs ds s s'" and e2: "gc_extends h tb nb (cs @ ds) es s' s''"
  shows "gc_extends h tb nb cs (ds @ es) s s''"
proof -
  have inv1: "gc_inv h tb nb (cs @ ds) s'" using e1 by (simp add: gc_extends_def)
  have inv2: "gc_inv h tb nb (cs @ ds @ es) s''" using e2 by (simp add: gc_extends_def)
  note n1 = gc_extends_tospace_next [OF inv e1] and n2 = gc_extends_tospace_next [OF inv1 e2]
  have tb: "tb \<le> tospace_next s" using inv by (simp add: gc_inv_def)
  have "memory s'' x = memory s' x" if "x \<in> {tospace_next s..<tospace_next s'}" for x
    using e2 that tb tospace_fromspace [OF sp inv1, of x] unfolding gc_extends_def by fastforce
  then have "map (memory s'') [tospace_next s..<tospace_next s'] = map (memory s') [tospace_next s..<tospace_next s']"
    by simp
  moreover have "map (memory s'') [tospace_next s..<tospace_next s''] =
    map (memory s'') [tospace_next s..<tospace_next s'] @ map (memory s'') [tospace_next s'..<tospace_next s'']"
    using n1 n2 by (intro upt_map_split) simp_all
  ultimately have "map (memory s'') [tospace_next s..<tospace_next s''] = concat (map (raw_words h) (ds @ es))"
    using e1 e2 unfolding gc_extends_def by simp
  moreover have "\<forall>x. x \<notin> fromspace h \<longrightarrow> x \<notin> {tospace_next s..<tospace_next s''} \<longrightarrow> memory s'' x = memory s x"
    using e1 e2 n1 n2 by (auto simp: gc_extends_def)
  moreover have "gc_rest s'' = gc_rest s" using e1 e2 by (simp add: gc_extends_def)
  ultimately show ?thesis using inv2 by (simp add: gc_extends_def)
qed

subsection \<open>The check before a copy\<close>

lemma scan_ok_hd: "scan_ok h (raw_words h a) \<Longrightarrow> block_size h a > 0 \<Longrightarrow> word_ok h (old_memory h a)"
  by (simp add: raw_words_def upt_conv_Cons)

lemma ADDRESS_IN_FROMSPACE_P_iff: "gc_inv h tb nb cs s \<Longrightarrow> ADDRESS_IN_FROMSPACE_P a s \<longleftrightarrow> a \<in> fromspace h"
  by (simp add: ADDRESS_IN_FROMSPACE_P_def gc_inv_def fromspace_def)

lemma precheck_outside:
  "gc_inv h tb nb cs s \<Longrightarrow> a \<notin> fromspace h \<Longrightarrow> gc_precheck_from a s = gc_return (Some a) s"
  by (simp add: gc_precheck_from_def ADDRESS_IN_FROMSPACE_P_iff)

lemma gc_inv_place_less:
  assumes "gc_space h tb nb" "gc_inv h tb nb cs s" "a \<in> set cs"
  shows "place h nb cs a < 2 ^ 58"
proof -
  have wf: "heap_wf h" using assms(1) by (simp add: gc_space_def)
  obtain n where n: "block h a = Some n" using assms unfolding gc_inv_def by blast
  have "place h nb cs a + block_size h a \<le> nb + heap_words h"
    using assms wf by (intro place_less) (auto simp: gc_inv_def)
  then show ?thesis using heap_wfD(1) [OF wf n] n assms(1) by (simp add: gc_space_def)
qed

lemma precheck_copied:
  assumes "gc_space h tb nb" "gc_inv h tb nb cs s" "a \<in> set cs"
  shows "gc_precheck_from a s = gc_return (Some (place h nb cs a)) s"
proof -
  have wf: "heap_wf h" using assms(1) by (simp add: gc_space_def)
  obtain n where n: "block h a = Some n" using assms unfolding gc_inv_def by blast
  have "a \<in> fromspace h" using heap_wfD(6) [OF wf n] .
  moreover from this have "memory s a = MAKE_BROKEN_HEART (place h nb cs a)"
    using assms by (simp add: gc_inv_def)
  ultimately show ?thesis
    using ADDRESS_IN_FROMSPACE_P_iff [OF assms(2)] broken_heart [OF gc_inv_place_less [OF assms]]
    by (simp add: gc_precheck_from_def)
qed

lemma precheck_fresh:
  assumes "gc_space h tb nb" "gc_inv h tb nb cs s" "block h a = Some n" "a \<notin> set cs"
  shows "gc_precheck_from a s = gc_return None s"
proof -
  have wf: "heap_wf h" using assms(1) by (simp add: gc_space_def)
  note w = heap_wfD [OF wf assms(3)]
  have "word_ok h (old_memory h a)" using scan_ok_hd w assms(3) by simp
  then have "\<not> BROKEN_HEART_P (old_memory h a)" using word_kind_broken_heart by (auto simp: word_ok_def)
  moreover have "memory s a = old_memory h a" using w(6) assms by (simp add: gc_inv_def)
  ultimately show ?thesis
    using ADDRESS_IN_FROMSPACE_P_iff [OF assms(2)] w(6) assms(2)
    by (simp add: gc_precheck_from_def gc_inv_def)
qed


subsection \<open>Tuples and vectors\<close>

lemma gc_extends_inv: "gc_extends h tb nb cs ds s s' \<Longrightarrow> gc_inv h tb nb (cs @ ds) s'"
  by (simp add: gc_extends_def)

lemma NEWSPACE_TO_TOSPACE_copy: "gc_inv h tb nb cs s \<Longrightarrow> NEWSPACE_TO_TOSPACE (nb + i) s = tb + i"
  unfolding gc_inv_def NEWSPACE_TO_TOSPACE_def by arith

lemma READ_TOSPACE_new:
  assumes inv: "gc_inv h tb nb cs s" and e: "gc_extends h tb nb cs [a] s s'" and i: "i < block_size h a"
  shows "READ_TOSPACE (nb + sizes h cs + i) s' = old_memory h (a + i)"
proof -
  have "tospace_next s' = tospace_next s + block_size h a" using gc_extends_tospace_next [OF inv e] by simp
  then have "map (memory s') [tospace_next s..<tospace_next s + block_size h a] = raw_words h a"
    using e by (simp add: gc_extends_def)
  from arg_cong [OF this, of "\<lambda>xs. xs ! i"] i
  have "memory s' (tospace_next s + i) = old_memory h (a + i)" by (simp add: raw_words_def)
  moreover have "NEWSPACE_TO_TOSPACE (nb + sizes h cs + i) s' = tospace_next s + i"
    using inv NEWSPACE_TO_TOSPACE_copy [OF gc_extends_inv [OF e], of "sizes h cs + i"]
    by (simp add: gc_inv_def add.assoc)
  ultimately show ?thesis by (simp add: READ_TOSPACE_def)
qed

lemma word_kind_list: "OBJECT_TYPE w = TC_LIST \<Longrightarrow> word_kind w = Word_Tuple 2"
  by (simp add: word_kind_def TC_LIST_def gc_type_code_def gc_type_map_def TC_WEAK_CONS_def TC_EPHEMERON_def)

lemma word_ok_block:
  "word_ok h w \<Longrightarrow> pointer_p w \<Longrightarrow> OBJECT_ADDRESS w \<in> fromspace h \<Longrightarrow> block h (OBJECT_ADDRESS w) = Some (word_size h w)"
  by (simp add: word_ok_def word_target_def)

text \<open>The second word of a pair is a word of its own, not data behind a manifest header.\<close>

lemma pair_cdr_ok:
  assumes "heap_wf h" "word_ok h w" "word_kind w = Word_Tuple 2" "OBJECT_ADDRESS w \<in> fromspace h"
  shows "word_ok h (old_memory h (OBJECT_ADDRESS w + 1))"
proof -
  let ?a = "OBJECT_ADDRESS w"
  have b: "block h ?a = Some 2" and k: "\<not> skip_p (old_memory h ?a)"
    using assms by (auto simp: word_ok_def word_target_def pointer_p_def word_size_def)
  have "raw_words h ?a = [old_memory h ?a, old_memory h (?a + 1)]"
    using b by (simp add: raw_words_def upt_conv_Cons)
  then have "scan_ok h [old_memory h ?a, old_memory h (?a + 1)]" using heap_wfD(5) [OF assms(1) b] by simp
  then show ?thesis using k by (auto simp: skip_p_def skip_words_def split: kind_of_word.splits)
qed

lemma transport_cdrs_correct:
  assumes sp: "gc_space h tb nb"
  shows "gc_inv h tb nb cs s \<Longrightarrow> word_ok h cdr \<Longrightarrow>
    \<exists>ds s'. transport_cdrs cdr s = gc_return () s' \<and> gc_extends h tb nb cs ds s s'"
proof (induction "heap_words h - sizes h cs" arbitrary: cs s cdr rule: less_induct)
  case less
  note inv = less.prems(1)
  have wf: "heap_wf h" using sp by (simp add: gc_space_def)
  let ?a = "OBJECT_ADDRESS cdr"
  consider "OBJECT_TYPE cdr \<noteq> TC_LIST" | "OBJECT_TYPE cdr = TC_LIST" "?a \<notin> fromspace h"
    | "OBJECT_TYPE cdr = TC_LIST" "?a \<in> fromspace h" "?a \<in> set cs"
    | "OBJECT_TYPE cdr = TC_LIST" "?a \<in> fromspace h" "?a \<notin> set cs" by blast
  then show ?case
  proof cases
    case 1
    then show ?thesis using gc_extends_refl [OF inv] by (subst transport_cdrs.simps) (auto simp: gc_return_def)
  next
    case 2
    then show ?thesis using gc_extends_refl [OF inv] precheck_outside [OF inv]
      by (subst transport_cdrs.simps) (auto simp: gc_return_def)
  next
    case 3
    then show ?thesis using gc_extends_refl [OF inv] precheck_copied [OF sp inv]
      by (subst transport_cdrs.simps) (auto simp: gc_return_def)
  next
    case 4
    have k: "word_kind cdr = Word_Tuple 2" using word_kind_list 4(1) .
    have b: "block h ?a = Some 2"
      using word_ok_block [OF less.prems(2)] k 4(2) by (simp add: pointer_p_def word_size_def)
    obtain s1 where t: "gc_transport_words ?a 2 False s = gc_return (nb + sizes h cs) s1"
      and e: "gc_extends h tb nb cs [?a] s s1" using gc_transport_words_correct [OF sp inv b 4(3)] .
    have inv1: "gc_inv h tb nb (cs @ [?a]) s1" using e by (simp add: gc_extends_def)
    have rd: "READ_TOSPACE (nb + sizes h cs + 1) s1 = old_memory h (?a + 1)"
      using READ_TOSPACE_new [OF inv e, of 1] b by simp
    have "sizes h (cs @ [?a]) \<le> heap_words h" using inv1 by (intro sizes_le [OF wf]) (auto simp: gc_inv_def)
    then have "heap_words h - sizes h (cs @ [?a]) < heap_words h - sizes h cs" using b by simp
    from less.hyps [OF this inv1 pair_cdr_ok [OF wf less.prems(2) k 4(2)]]
    obtain ds s2 where "transport_cdrs (old_memory h (?a + 1)) s1 = gc_return () s2"
      and e2: "gc_extends h tb nb (cs @ [?a]) ds s1 s2" by blast
    then have "transport_cdrs cdr s = gc_return () s2"
      using 4(1) precheck_fresh [OF sp inv b 4(3)] t rd
      by (subst transport_cdrs.simps) (simp add: gc_return_def)
    with gc_extends_trans [OF sp inv e e2] show ?thesis by blast
  qed
qed

lemma fwd_outside: "pointer_p w \<Longrightarrow> OBJECT_ADDRESS w \<notin> fromspace h \<Longrightarrow> fwd h \<phi> w = w"
  by (simp add: fwd_def word_target_def)

lemma fwd_inside:
  "pointer_p w \<Longrightarrow> OBJECT_ADDRESS w \<in> fromspace h \<Longrightarrow> fwd h \<phi> w = OBJECT_NEW_ADDRESS w (\<phi> (OBJECT_ADDRESS w))"
  by (simp add: fwd_def word_target_def)


lemma gc_tuple_correct:
  assumes sp: "gc_space h tb nb" and inv: "gc_inv h tb nb cs s"
    and w: "word_ok h w" "word_kind w = Word_Tuple n"
  shows "\<exists>ds s'. gc_tuple w n s = gc_return (fwd h (place h nb (cs @ ds)) w) s' \<and>
    gc_extends h tb nb cs ds s s' \<and> word_target h w \<subseteq> set (cs @ ds)"
proof -
  let ?a = "OBJECT_ADDRESS w"
  have wf: "heap_wf h" using sp by (simp add: gc_space_def)
  have p: "pointer_p w" using w by (simp add: pointer_p_def)
  consider "?a \<notin> fromspace h" | "?a \<in> fromspace h" "?a \<in> set cs" | "?a \<in> fromspace h" "?a \<notin> set cs" by blast
  then show ?thesis
  proof cases
    case 1
    then show ?thesis using gc_extends_refl [OF inv] precheck_outside [OF inv 1] p
      by (intro exI [of _ "[]"] exI [of _ s]) (simp add: gc_tuple_def fwd_outside word_target_def)
  next
    case 2
    then show ?thesis using gc_extends_refl [OF inv] precheck_copied [OF sp inv] p
      by (intro exI [of _ "[]"] exI [of _ s]) (simp add: gc_tuple_def fwd_inside word_target_def)
  next
    case 3
    have b: "block h ?a = Some n" using word_ok_block [OF w(1) p 3(1)] w(2) by (simp add: word_size_def)
    obtain s1 where t: "gc_transport_words ?a n False s = gc_return (nb + sizes h cs) s1"
      and e: "gc_extends h tb nb cs [?a] s s1" using gc_transport_words_correct [OF sp inv b 3(2)] .
    obtain ds s2 where c: "(if n = 2 then transport_cdrs (READ_TOSPACE (nb + sizes h cs + 1) s1) s1
        else gc_return () s1) = gc_return () s2" and e2: "gc_extends h tb nb (cs @ [?a]) ds s1 s2"
    proof (cases "n = 2")
      case True
      then have "READ_TOSPACE (nb + sizes h cs + 1) s1 = old_memory h (?a + 1)"
        using READ_TOSPACE_new [OF inv e, of 1] b by simp
      with True that show ?thesis
        using transport_cdrs_correct [OF sp gc_extends_inv [OF e] pair_cdr_ok [OF wf w(1)]] w(2) 3(1) by auto
    next
      case False
      with that show ?thesis using gc_extends_refl [OF gc_extends_inv [OF e]] by simp
    qed
    have "gc_tuple w n s = gc_return (fwd h (place h nb (cs @ ?a # ds)) w) s2"
      using precheck_fresh [OF sp inv b 3(2)] t c p 3 by (simp add: gc_tuple_def fwd_inside place_new)
    moreover have "gc_extends h tb nb cs (?a # ds) s s2" using gc_extends_trans [OF sp inv e e2] by simp
    ultimately show ?thesis by (intro exI [of _ "?a # ds"] exI [of _ s2]) (simp add: word_target_def)
  qed
qed

lemma gc_vector_correct:
  assumes sp: "gc_space h tb nb" and inv: "gc_inv h tb nb cs s"
    and w: "word_ok h w" "word_kind w = Word_Vector"
  shows "\<exists>ds s'. gc_vector w align_p s = gc_return (fwd h (place h nb (cs @ ds)) w) s' \<and>
    gc_extends h tb nb cs ds s s' \<and> word_target h w \<subseteq> set (cs @ ds)"
proof -
  let ?a = "OBJECT_ADDRESS w"
  have wf: "heap_wf h" using sp by (simp add: gc_space_def)
  have p: "pointer_p w" using w by (simp add: pointer_p_def)
  consider "?a \<notin> fromspace h" | "?a \<in> fromspace h" "?a \<in> set cs" | "?a \<in> fromspace h" "?a \<notin> set cs" by blast
  then show ?thesis
  proof cases
    case 1
    then show ?thesis using gc_extends_refl [OF inv] precheck_outside [OF inv 1] p
      by (intro exI [of _ "[]"] exI [of _ s]) (simp add: gc_vector_def fwd_outside word_target_def)
  next
    case 2
    then show ?thesis using gc_extends_refl [OF inv] precheck_copied [OF sp inv] p
      by (intro exI [of _ "[]"] exI [of _ s]) (simp add: gc_vector_def fwd_inside word_target_def)
  next
    case 3
    have b: "block h ?a = Some (1 + unat (OBJECT_DATUM (old_memory h ?a)))"
      using word_ok_block [OF w(1) p 3(1)] w(2) by (simp add: word_size_def)
    obtain s1 where t: "gc_transport_words ?a (1 + unat (OBJECT_DATUM (old_memory h ?a))) align_p s
        = gc_return (nb + sizes h cs) s1"
      and e: "gc_extends h tb nb cs [?a] s s1" using gc_transport_words_correct [OF sp inv b 3(2)] .
    have "memory s ?a = old_memory h ?a" using gc_inv_memory_block [OF inv wf b 3(2), of 0] by simp
    then have "gc_vector w align_p s = gc_return (fwd h (place h nb (cs @ [?a])) w) s1"
      using precheck_fresh [OF sp inv b 3(2)] t p 3 by (simp add: gc_vector_def fwd_inside place_new)
    with e show ?thesis by (intro exI [of _ "[?a]"] exI [of _ s1]) (simp add: word_target_def)
  qed
qed

lemma scan_step:
  assumes sp: "gc_space h tb nb" and inv: "gc_inv h tb nb cs s"
    and w: "word_ok h w" "memory s p = w"
  shows "\<exists>ds s'. gct_entry (OBJECT_TYPE w) p w s =
      gc_return (p + 1 + skip_words w) (mem_write p (fwd h (place h nb (cs @ ds)) w) s') \<and>
    gc_extends h tb nb cs ds s s' \<and> word_target h w \<subseteq> set (cs @ ds)"
proof (cases "word_kind w")
  case Word_Plain
  then show ?thesis using gct_entry_plain w(2) gc_extends_refl [OF inv]
    by (intro exI [of _ "[]"] exI [of _ s])
      (simp add: skip_words_def fwd_def word_target_def pointer_p_def mem_write_same)
next
  case (Word_Skip n)
  then show ?thesis using gct_entry_skip w(2) gc_extends_refl [OF inv]
    by (intro exI [of _ "[]"] exI [of _ s])
      (simp add: skip_words_def fwd_def word_target_def pointer_p_def mem_write_same)
next
  case (Word_Tuple n)
  with gc_tuple_correct [OF sp inv w(1)] show ?thesis
    by (fastforce simp: gct_entry_tuple scan_store_def skip_words_def)
next
  case Word_Vector
  with gct_entry_vector obtain align_p where
    "gct_entry (OBJECT_TYPE w) p w s = scan_store p (gc_vector w align_p s)" by blast
  with gc_vector_correct [OF sp inv w(1) Word_Vector, of align_p] Word_Vector show ?thesis
    by (fastforce simp: scan_store_def skip_words_def)
next
  case Word_Other
  then show ?thesis using w(1) by (simp add: word_ok_def)
qed


subsection \<open>The scan\<close>

definition scan_limit :: "addr option \<Rightarrow> gc_state \<Rightarrow> addr" where
  "scan_limit pend s = (case pend of Some stop \<Rightarrow> stop | None \<Rightarrow> tospace_next s)"

text \<open>A scan with a moving limit also reads the words that it copies.\<close>

definition scan_words :: "heap_image \<Rightarrow> addr \<Rightarrow> addr option \<Rightarrow> gc_state \<Rightarrow> addr list \<Rightarrow> scheme_object list" where
  "scan_words h p pend s ds =
    map (memory s) [p..<scan_limit pend s] @ (if pend = None then concat (map (raw_words h) ds) else [])"

definition scan_ready :: "heap_image \<Rightarrow> addr \<Rightarrow> addr \<Rightarrow> addr list \<Rightarrow> addr \<Rightarrow> addr option \<Rightarrow> gc_state \<Rightarrow> bool" where
  "scan_ready h tb nb cs p pend s \<longleftrightarrow>
    gc_inv h tb nb cs s \<and> p \<le> scan_limit pend s \<and>
    {p..<scan_limit pend s} \<inter> (fromspace h \<union> {tospace_next s..<tb + heap_words h}) = {} \<and>
    scan_ok h (map (memory s) [p..<scan_limit pend s])"

definition scan_done ::
  "heap_image \<Rightarrow> addr \<Rightarrow> addr \<Rightarrow> addr list \<Rightarrow> addr \<Rightarrow> addr option \<Rightarrow> gc_state \<Rightarrow> addr list \<Rightarrow> gc_state \<Rightarrow> bool" where
  "scan_done h tb nb cs p pend s ds s' \<longleftrightarrow>
    gc_inv h tb nb (cs @ ds) s' \<and> gc_rest s' = gc_rest s \<and>
    (\<forall>x. x \<notin> fromspace h \<longrightarrow> x \<notin> {p..<scan_limit pend s} \<longrightarrow> x \<notin> {tospace_next s..<tospace_next s'} \<longrightarrow>
       memory s' x = memory s x) \<and>
    map (memory s') [p..<scan_limit pend s'] = fwd_list h (place h nb (cs @ ds)) (scan_words h p pend s ds) \<and>
    targets h (scan_words h p pend s ds) \<subseteq> set (cs @ ds) \<and>
    (pend \<noteq> None \<longrightarrow> map (memory s') [tospace_next s..<tospace_next s'] = concat (map (raw_words h) ds))"

text \<open>One step of the scan leaves a scan of the words behind it.\<close>

lemma gc_inv_mem_write: "gc_inv h tb nb cs s \<Longrightarrow> p \<notin> fromspace h \<Longrightarrow> gc_inv h tb nb cs (mem_write p w s)"
  unfolding gc_inv_def mem_write_def by auto

lemma scan_step_words:
  assumes sp: "gc_space h tb nb" and r: "scan_ready h tb nb cs p pend s" and p: "p < scan_limit pend s"
    and e: "gc_extends h tb nb cs ds s s'" and k: "p + 1 + k \<le> scan_limit pend s"
  shows "map (memory (mem_write p v s')) [p + 1 + k..<scan_limit pend (mem_write p v s')] = scan_words h (p + 1 + k) pend s ds"
proof -
  have inv: "gc_inv h tb nb cs s" using r by (simp add: scan_ready_def)
  have n: "tospace_next s' = tospace_next s + sizes h ds" using gc_extends_tospace_next [OF inv e] .
  have cap: "tospace_next s' \<le> tb + heap_words h" using gc_inv_tospace_next [OF sp gc_extends_inv [OF e]] .
  have pn: "p \<notin> {tospace_next s..<tospace_next s'}" using r p cap unfolding scan_ready_def by fastforce
  have same: "map (memory (mem_write p v s')) [p + 1 + k..<scan_limit pend s] = map (memory s) [p + 1 + k..<scan_limit pend s]"
  proof (rule map_cong [OF refl])
    fix x assume "x \<in> set [p + 1 + k..<scan_limit pend s]"
    then have "x \<in> {p..<scan_limit pend s}" "x \<noteq> p" by auto
    then have "x \<notin> fromspace h" "x \<notin> {tospace_next s..<tospace_next s'}" "x \<noteq> p"
      using r cap unfolding scan_ready_def by fastforce+
    then show "memory (mem_write p v s') x = memory s x" using e by (simp add: gc_extends_def mem_write_def)
  qed
  show ?thesis
  proof (cases pend)
    case None
    have "map (memory (mem_write p v s')) [tospace_next s..<tospace_next s'] = concat (map (raw_words h) ds)"
      using e pn by (simp add: gc_extends_def mem_write_def map_fun_upd)
    then show ?thesis
      using same None k n upt_map_split [of "p + 1 + k" "tospace_next s" "tospace_next s'" "memory (mem_write p v s')"]
      by (simp add: scan_words_def scan_limit_def mem_write_def)
  next
    case (Some stop)
    then show ?thesis using same by (simp add: scan_words_def scan_limit_def)
  qed
qed


lemma scan_step_ready:
  assumes sp: "gc_space h tb nb" and r: "scan_ready h tb nb cs p pend s" and p: "p < scan_limit pend s"
    and e: "gc_extends h tb nb cs ds s s'" and k: "p + 1 + k \<le> scan_limit pend s"
    and ok: "scan_ok h (map (memory s) [p + 1 + k..<scan_limit pend s])"
  shows "scan_ready h tb nb (cs @ ds) (p + 1 + k) pend (mem_write p v s')"
proof -
  have inv: "gc_inv h tb nb cs s" using r by (simp add: scan_ready_def)
  have wf: "heap_wf h" using sp by (simp add: gc_space_def)
  note inv' = gc_extends_inv [OF e] and n = gc_extends_tospace_next [OF inv e]
  have "p \<in> {p..<scan_limit pend s}" using p by simp
  then have "p \<notin> fromspace h" using r unfolding scan_ready_def by blast
  then have inv2: "gc_inv h tb nb (cs @ ds) (mem_write p v s')" using gc_inv_mem_write [OF inv'] by blast
  have "set ds \<subseteq> dom (block h)" using inv' by (simp add: gc_inv_def)
  then have "scan_ok h (scan_words h (p + 1 + k) pend s ds)"
    using ok scan_ok_blocks [OF wf] by (simp add: scan_words_def scan_ok_append)
  then have "scan_ok h (map (memory (mem_write p v s')) [p + 1 + k..<scan_limit pend (mem_write p v s')])"
    using scan_step_words [OF sp r p e k] by simp
  moreover have "x \<notin> fromspace h \<and> x \<notin> {tospace_next s'..<tb + heap_words h}"
    if x: "x \<in> {p + 1 + k..<scan_limit pend (mem_write p v s')}" for x
  proof (cases "x < scan_limit pend s")
    case True
    then have "x \<in> {p..<scan_limit pend s}" using x by simp
    then show ?thesis using r n unfolding scan_ready_def by fastforce
  next
    case False
    then have "pend = None" "tospace_next s \<le> x" "x < tospace_next s'"
      using x by (auto simp: scan_limit_def mem_write_def split: option.splits)
    then show ?thesis using tospace_fromspace [OF sp inv', of x] inv by (simp add: gc_inv_def)
  qed
  moreover have "p + 1 + k \<le> scan_limit pend (mem_write p v s')"
    using k n by (simp add: scan_limit_def mem_write_def split: option.splits)
  ultimately show ?thesis using inv2 unfolding scan_ready_def by (auto simp: mem_write_def)
qed

text \<open>The step and the scan of the words behind it are a scan of all the words.\<close>

lemma scan_disjoint:
  assumes "scan_ready h tb nb cs p pend s" and "p \<le> x" "x < scan_limit pend s"
  shows "x \<notin> fromspace h" "x < tospace_next s \<or> tb + heap_words h \<le> x"
  using assms unfolding scan_ready_def by fastforce+

lemma scan_step_frame:
  assumes sp: "gc_space h tb nb" and r: "scan_ready h tb nb cs p pend s" and p: "p < scan_limit pend s"
    and e: "gc_extends h tb nb cs ds s s1" and q: "p < q" "q \<le> scan_limit pend s"
    and d: "scan_done h tb nb (cs @ ds) q pend (mem_write p v s1) es s2"
  shows "x \<in> {p..<q} \<Longrightarrow> memory s2 x = (if x = p then v else memory s x)"
    and "x \<notin> fromspace h \<Longrightarrow> x \<notin> {p..<scan_limit pend s} \<Longrightarrow> x \<notin> {tospace_next s..<tospace_next s2} \<Longrightarrow>
      memory s2 x = memory s x"
    and "pend \<noteq> None \<Longrightarrow> map (memory s2) [tospace_next s..<tospace_next s2] = concat (map (raw_words h) (ds @ es))"
    and "tospace_next s2 = tospace_next s + sizes h ds + sizes h es"
proof -
  let ?s = "mem_write p v s1"
  have inv: "gc_inv h tb nb cs s" using r by (simp add: scan_ready_def)
  note inv1 = gc_extends_inv [OF e] and n1 = gc_extends_tospace_next [OF inv e]
  have inv2: "gc_inv h tb nb ((cs @ ds) @ es) s2" using d by (simp add: scan_done_def)
  have n2: "tospace_next s2 = tospace_next s1 + sizes h es" using inv1 inv2 by (simp add: gc_inv_def)
  have cap: "tospace_next s2 \<le> tb + heap_words h" using gc_inv_tospace_next [OF sp inv2] .
  have nx: "tospace_next ?s = tospace_next s1" by (simp add: mem_write_def)
  have d1: "memory s2 x = memory ?s x"
    if "x \<notin> fromspace h" "x \<notin> {q..<scan_limit pend ?s}" "x \<notin> {tospace_next s1..<tospace_next s2}" for x
    using d that unfolding scan_done_def nx by blast
  have e1: "memory s1 x = memory s x" if "x \<notin> fromspace h" "x \<notin> {tospace_next s..<tospace_next s1}" for x
    using e that unfolding gc_extends_def by blast
  show "tospace_next s2 = tospace_next s + sizes h ds + sizes h es" using n1 n2 by simp
  show "memory s2 x = (if x = p then v else memory s x)" if "x \<in> {p..<q}" for x
  proof -
    have x: "x \<notin> fromspace h" "x < tospace_next s \<or> tb + heap_words h \<le> x"
      using scan_disjoint [OF r, of x] that q by auto
    then have "memory s2 x = memory ?s x" using that n1 n2 cap by (intro d1) auto
    moreover have "memory s1 x = memory s x" using x n1 n2 cap by (intro e1) auto
    ultimately show ?thesis by (simp add: mem_write_def)
  qed
  show "memory s2 x = memory s x"
    if x: "x \<notin> fromspace h" "x \<notin> {p..<scan_limit pend s}" "x \<notin> {tospace_next s..<tospace_next s2}" for x
  proof -
    have "x \<notin> {q..<scan_limit pend ?s}" using x q n1 n2
      by (auto simp: scan_limit_def mem_write_def split: option.splits)
    then have "memory s2 x = memory ?s x" using x n1 n2 by (intro d1) auto
    also have "\<dots> = memory s1 x" using x(2) p by (auto simp: mem_write_def)
    also have "\<dots> = memory s x" using x n1 n2 by (intro e1) auto
    finally show ?thesis .
  qed
  show "map (memory s2) [tospace_next s..<tospace_next s2] = concat (map (raw_words h) (ds @ es))"
    if pend: "pend \<noteq> None"
  proof -
    have "memory s2 x = memory s1 x" if x: "x \<in> {tospace_next s..<tospace_next s1}" for x
    proof -
      have out: "x \<notin> {p..<scan_limit pend s}" using scan_disjoint(2) [OF r, of x] x n1 n2 cap by auto
      moreover have "x \<notin> fromspace h" using tospace_fromspace [OF sp inv1, of x] x inv by (simp add: gc_inv_def)
      moreover have "x \<notin> {q..<scan_limit pend ?s}" using out pend q by (auto simp: scan_limit_def)
      ultimately have "memory s2 x = memory ?s x" using x by (intro d1) auto
      then show ?thesis using out p by (auto simp: mem_write_def)
    qed
    then have "map (memory s2) [tospace_next s..<tospace_next s1] = map (memory s1) [tospace_next s..<tospace_next s1]"
      by simp
    also have "\<dots> = concat (map (raw_words h) ds)" using e by (simp add: gc_extends_def)
    finally have "map (memory s2) [tospace_next s..<tospace_next s1] = concat (map (raw_words h) ds)" .
    moreover have "map (memory s2) [tospace_next s1..<tospace_next s2] = concat (map (raw_words h) es)"
      using d pend by (simp add: scan_done_def nx)
    ultimately show ?thesis
      using upt_map_split [of "tospace_next s" "tospace_next s1" "tospace_next s2" "memory s2"] n1 n2 by simp
  qed
qed

lemma scan_step_done:
  assumes sp: "gc_space h tb nb" and r: "scan_ready h tb nb cs p pend s" and p: "p < scan_limit pend s"
    and e: "gc_extends h tb nb cs ds s s1" and k: "p + 1 + skip_words (memory s p) \<le> scan_limit pend s"
    and v: "v = fwd h (place h nb (cs @ ds)) (memory s p)" and t: "word_target h (memory s p) \<subseteq> set (cs @ ds)"
    and d: "scan_done h tb nb (cs @ ds) (p + 1 + skip_words (memory s p)) pend (mem_write p v s1) es s2"
  shows "scan_done h tb nb cs p pend s (ds @ es) s2"
proof -
  let ?k = "skip_words (memory s p)" and ?s = "mem_write p v s1" and ?w = "memory s p"
  let ?q = "p + 1 + ?k"
  have q: "p < ?q" by simp
  note fr = scan_step_frame [OF sp r p e q k d]
  have lim2: "?q \<le> scan_limit pend s2" using k fr(4) by (simp add: scan_limit_def split: option.splits)
  have p2: "memory s2 p = v" using fr(1) [of p] by simp
  have mid: "map (memory s2) [p + 1..<?q] = map (memory s) [p + 1..<?q]" using fr(1) by auto
  have v': "v = fwd h (place h nb (cs @ ds @ es)) ?w"
    unfolding v using t place_append [of _ "cs @ ds" h nb es] by (intro fwd_cong) auto
  have sw: "scan_words h p pend s (ds @ es) =
      ?w # map (memory s) [p + 1..<?q] @ scan_words h ?q pend ?s es"
    using p k scan_step_words [OF sp r p e k, of v]
      upt_map_split [of "p + 1" ?q "scan_limit pend s" "memory s"]
    by (simp add: scan_words_def upt_conv_Cons)
  have tk: "take ?k (map (memory s) [p + 1..<?q] @ ys) = map (memory s) [p + 1..<?q]"
    "drop ?k (map (memory s) [p + 1..<?q] @ ys) = ys" for ys by simp_all
  have "map (memory s2) [p..<scan_limit pend s2] =
      v # map (memory s2) [p + 1..<?q] @ map (memory s2) [?q..<scan_limit pend s2]"
    using lim2 p2 upt_map_split [of "p + 1" ?q "scan_limit pend s2" "memory s2"]
    by (simp add: upt_conv_Cons)
  also have "\<dots> = fwd_list h (place h nb (cs @ ds @ es)) (scan_words h p pend s (ds @ es))"
    using d v' mid by (simp add: sw tk scan_done_def del: map_append)
  finally have words: "map (memory s2) [p..<scan_limit pend s2] =
    fwd_list h (place h nb (cs @ ds @ es)) (scan_words h p pend s (ds @ es))" .
  have tg: "targets h (scan_words h p pend s (ds @ es)) \<subseteq> set (cs @ ds @ es)"
    using d t by (auto simp: sw tk scan_done_def)
  have "gc_inv h tb nb (cs @ ds @ es) s2" "gc_rest s2 = gc_rest s"
    using d e by (simp_all add: scan_done_def gc_extends_def)
  then show ?thesis using words tg fr(2,3) by (simp add: scan_done_def)
qed

lemma run_gc_loop_correct:
  assumes sp: "gc_space h tb nb"
  shows "scan_ready h tb nb cs p pend s \<Longrightarrow>
    \<exists>ds s'. run_gc_loop p pend s = gc_return () s' \<and> scan_done h tb nb cs p pend s ds s'"
proof (induction "(heap_words h - sizes h cs) + (scan_limit pend s - p)" arbitrary: cs s p rule: less_induct)
  case less
  note r = less.prems
  have wf: "heap_wf h" using sp by (simp add: gc_space_def)
  have inv: "gc_inv h tb nb cs s" using r by (simp add: scan_ready_def)
  show ?case
  proof (cases "p < scan_limit pend s")
    case False
    then have "p = scan_limit pend s" using r by (simp add: scan_ready_def)
    then have "scan_done h tb nb cs p pend s [] s"
      using inv by (simp add: scan_done_def scan_words_def)
    moreover have "run_gc_loop p pend s = gc_return () s"
      using False by (subst run_gc_loop.simps) (simp add: scan_limit_def gc_return_def)
    ultimately show ?thesis by blast
  next
    case True
    let ?w = "memory s p"
    have "scan_ok h (?w # map (memory s) [p + 1..<scan_limit pend s])"
      using r True by (simp add: scan_ready_def upt_conv_Cons)
    then have w: "word_ok h ?w" and k: "p + 1 + skip_words ?w \<le> scan_limit pend s"
      and ok: "scan_ok h (map (memory s) [p + 1 + skip_words ?w..<scan_limit pend s])"
      using True by (auto simp: drop_map)
    from scan_step [OF sp inv w refl] obtain ds s1 where
      g: "gct_entry (OBJECT_TYPE ?w) p ?w s =
        gc_return (p + 1 + skip_words ?w) (mem_write p (fwd h (place h nb (cs @ ds)) ?w) s1)"
      and e: "gc_extends h tb nb cs ds s s1" and t: "word_target h ?w \<subseteq> set (cs @ ds)" by blast
    let ?s = "mem_write p (fwd h (place h nb (cs @ ds)) ?w) s1"
    note r' = scan_step_ready [OF sp r True e k ok, of "fwd h (place h nb (cs @ ds)) ?w"]
    have "sizes h (cs @ ds) \<le> heap_words h"
      using gc_extends_inv [OF e] by (intro sizes_le [OF wf]) (auto simp: gc_inv_def)
    then have "(heap_words h - sizes h (cs @ ds)) + (scan_limit pend ?s - (p + 1 + skip_words ?w))
        < (heap_words h - sizes h cs) + (scan_limit pend s - p)"
      using True gc_extends_tospace_next [OF inv e] by (auto simp: scan_limit_def mem_write_def split: option.splits)
    from less.hyps [OF this r'] obtain es s2 where
      l: "run_gc_loop (p + 1 + skip_words ?w) pend ?s = gc_return () s2"
      and d: "scan_done h tb nb (cs @ ds) (p + 1 + skip_words ?w) pend ?s es s2" by blast
    have "run_gc_loop p pend s = gc_return () s2"
      using True g l by (subst run_gc_loop.simps) (simp add: scan_limit_def gc_return_def)
    with scan_step_done [OF sp r True e k refl t d] show ?thesis by blast
  qed
qed

end
