(* ===== verification/GC_Correct.thy ===== *)
theory GC_Correct
  imports GC_Copy GC_Driver
begin

text \<open>
  A whole collection, \<open>collect\<close> of the driver, on a heap of ordinary objects: the scans of the roots
  and of tospace, the copy back to the heap, and what the heap then holds.
\<close>

subsection \<open>Reachable blocks\<close>

inductive_set reachable :: "heap_image \<Rightarrow> scheme_object list \<Rightarrow> addr set"
  for h :: heap_image and roots :: "scheme_object list"
where
  root: "a \<in> targets h roots \<Longrightarrow> a \<in> reachable h roots"
| child: "a \<in> reachable h roots \<Longrightarrow> b \<in> targets h (raw_words h a) \<Longrightarrow> b \<in> reachable h roots"

text \<open>The heap with the blocks of \<open>R\<close> only.\<close>

definition restrict_heap :: "addr set \<Rightarrow> heap_image \<Rightarrow> heap_image" where
  "restrict_heap R h = h\<lparr>block := block h |` R\<rparr>"

lemma restrict_heap_simps [simp]:
  "old_memory (restrict_heap R h) = old_memory h" "from_lo (restrict_heap R h) = from_lo h"
  "from_hi (restrict_heap R h) = from_hi h" "fromspace (restrict_heap R h) = fromspace h"
  "word_target (restrict_heap R h) w = word_target h w" "word_size (restrict_heap R h) w = word_size h w"
  "heap_words (restrict_heap R h) = heap_words h"
  "a \<in> R \<Longrightarrow> block_size (restrict_heap R h) a = block_size h a"
  "fwd (restrict_heap R h) \<phi> w = fwd h \<phi> w"
  by (simp_all add: restrict_heap_def fromspace_def word_target_def word_size_def heap_words_def block_size_def
      fwd_def cong: kind_of_word.case_cong)

lemma restrict_heap_block: "block (restrict_heap R h) a = (if a \<in> R then block h a else None)"
  by (simp add: restrict_heap_def)

lemma restrict_heap_raw [simp]: "a \<in> R \<Longrightarrow> raw_words (restrict_heap R h) a = raw_words h a"
  by (simp add: raw_words_def)

lemma restrict_heap_targets [simp]: "targets (restrict_heap R h) ws = targets h ws"
  by (induction h ws rule: targets.induct) auto

lemma restrict_heap_fwd_list [simp]: "fwd_list (restrict_heap R h) \<phi> ws = fwd_list h \<phi> ws"
  by (induction h \<phi> ws rule: fwd_list.induct) auto

lemma restrict_heap_scan_ok: "scan_ok h ws \<Longrightarrow> targets h ws \<subseteq> R \<Longrightarrow> scan_ok (restrict_heap R h) ws"
  by (induction h ws rule: scan_ok.induct) (auto simp: word_ok_def restrict_heap_block)

lemma restrict_heap_wf:
  assumes "heap_wf h" and closed: "\<And>a. a \<in> R \<Longrightarrow> targets h (raw_words h a) \<subseteq> R"
  shows "heap_wf (restrict_heap R h)"
  using assms(1) restrict_heap_scan_ok [OF _ closed] unfolding heap_wf_def
  by (simp add: restrict_heap_block split: if_splits)

lemma reachable_blocks:
  assumes "heap_wf h" "scan_ok h roots" shows "reachable h roots \<subseteq> dom (block h)"
proof
  fix a assume "a \<in> reachable h roots"
  then show "a \<in> dom (block h)"
  proof induction
    case (root a)
    then show ?case using targets_blocks [OF assms(2)] by blast
  next
    case (child a b)
    then obtain n where "block h a = Some n" by blast
    then show ?case using targets_blocks [OF heap_wfD(5) [OF assms(1)]] child.hyps(2) by blast
  qed
qed

lemma reachable_least:
  assumes "targets h roots \<subseteq> C" and "\<And>a. a \<in> C \<Longrightarrow> targets h (raw_words h a) \<subseteq> C"
  shows "reachable h roots \<subseteq> C"
proof
  fix a assume "a \<in> reachable h roots"
  then show "a \<in> C" by induction (use assms in blast)+
qed

lemma targets_concat:
  "heap_wf h \<Longrightarrow> set cs \<subseteq> dom (block h) \<Longrightarrow> a \<in> set cs \<Longrightarrow>
   targets h (raw_words h a) \<subseteq> targets h (concat (map (raw_words h) cs))"
  by (induction cs) (auto simp: targets_append dest!: heap_wfD(5))

lemma fwd_list_concat:
  "heap_wf h \<Longrightarrow> set cs \<subseteq> dom (block h) \<Longrightarrow>
   fwd_list h \<phi> (concat (map (raw_words h) cs)) = concat (map (\<lambda>a. fwd_list h \<phi> (raw_words h a)) cs)"
  by (induction cs) (auto simp: fwd_list_append dest!: heap_wfD(5))


subsection \<open>The scans\<close>

definition apart :: "heap_image \<Rightarrow> addr \<Rightarrow> addr \<Rightarrow> addr \<Rightarrow> addr \<Rightarrow> bool" where
  "apart h t0 tb p stop \<longleftrightarrow> t0 \<le> tb \<and> p \<le> stop \<and> {p..<stop} \<inter> (fromspace h \<union> {t0..<tb + heap_words h}) = {}"

lemma apartD:
  assumes "apart h t0 tb p stop" "p \<le> x" "x < stop"
  shows "x \<notin> fromspace h" "x < t0 \<or> tb + heap_words h \<le> x"
  using assms unfolding apart_def by fastforce+

lemma gc_scan_oldspace_correct:
  assumes sp: "gc_space h tb nb" and inv: "gc_inv h tb nb cs s" and a: "apart h t0 tb p stop"
    and ok: "scan_ok h (map (memory s) [p..<stop])"
  obtains ds s' where "gc_scan_oldspace p stop s = gc_return () s'" "scan_done h tb nb cs p (Some stop) s ds s'"
proof -
  have "t0 \<le> tospace_next s" "p \<le> stop" using inv a by (auto simp: gc_inv_def apart_def)
  then have "scan_ready h tb nb cs p (Some stop) s"
    using inv ok apartD [OF a] unfolding scan_ready_def scan_limit_def by fastforce
  from run_gc_loop_correct [OF sp this] that show ?thesis by (auto simp: gc_scan_oldspace_def)
qed

text \<open>What a scan with a fixed limit leaves alone.\<close>

lemma scan_done_frame:
  assumes sp: "gc_space h tb nb" and inv: "gc_inv h tb nb cs s" and d: "scan_done h tb nb cs p (Some stop) s ds s'"
    and x: "x \<notin> fromspace h" "x < p \<or> stop \<le> x" "x < tospace_next s \<or> tb + heap_words h \<le> x"
  shows "memory s' x = memory s x"
proof -
  have "gc_inv h tb nb (cs @ ds) s'" using d by (simp add: scan_done_def)
  then have "tospace_next s' \<le> tb + heap_words h" using gc_inv_tospace_next [OF sp] by blast
  then have "x \<notin> {tospace_next s..<tospace_next s'}" using x(3) by auto
  moreover have "x \<notin> {p..<stop}" using x(2) by auto
  ultimately show ?thesis using d x(1) unfolding scan_done_def scan_limit_def by auto
qed

lemma scan_done_fixed:
  assumes "scan_done h tb nb cs p (Some stop) s ds s'"
  shows "gc_inv h tb nb (cs @ ds) s'" "gc_rest s' = gc_rest s"
    "map (memory s') [p..<stop] = fwd_list h (place h nb (cs @ ds)) (map (memory s) [p..<stop])"
    "targets h (map (memory s) [p..<stop]) \<subseteq> set (cs @ ds)"
    "map (memory s') [tospace_next s..<tospace_next s'] = concat (map (raw_words h) ds)"
  using assms unfolding scan_done_def scan_limit_def scan_words_def by simp_all

lemma fwd_list_place_append:
  assumes "scan_ok h ws" "targets h ws \<subseteq> set cs"
  shows "fwd_list h (place h nb (cs @ ds)) ws = fwd_list h (place h nb cs) ws"
  using assms place_append by (intro fwd_list_cong) blast+

lemma map_upt_cong: "(\<And>x. p \<le> x \<Longrightarrow> x < q \<Longrightarrow> f x = g x) \<Longrightarrow> map f [p..<q] = map g [p..<q]"
  by simp

text \<open>A region that was scanned is not touched by the scans after it.\<close>

lemma scan_done_keep:
  assumes sp: "gc_space h tb nb" and inv: "gc_inv h tb nb cs s" and d: "scan_done h tb nb cs p (Some stop) s ds s'"
    and a: "apart h t0 tb q stop'" and "stop \<le> q \<or> stop' \<le> p"
  shows "map (memory s') [q..<stop'] = map (memory s) [q..<stop']"
proof (rule map_upt_cong)
  fix x assume x: "q \<le> x" "x < stop'"
  have "t0 \<le> tospace_next s" using inv a by (auto simp: gc_inv_def apart_def)
  then show "memory s' x = memory s x"
    using apartD [OF a x] x assms(5) by (intro scan_done_frame [OF sp inv d]) auto
qed

text \<open>After the two regions of roots, tospace holds the words pushed first and the copies.\<close>

lemma tospace_after_roots:
  assumes sp: "gc_space h tb nb" and inv: "gc_inv h tb nb [] s"
    and t0: "{tospace_start s..<tb} \<inter> fromspace h = {}"
    and r1: "apart h (tospace_start s) tb p1 e1" and r2: "apart h (tospace_start s) tb p2 e2"
    and d1: "scan_done h tb nb [] p1 (Some e1) s ds1 s1" and d2: "scan_done h tb nb ds1 p2 (Some e2) s1 ds2 s2"
  shows "map (memory s2) [tospace_start s..<tospace_next s2] =
    map (memory s) [tospace_start s..<tb] @ concat (map (raw_words h) (ds1 @ ds2))"
proof -
  let ?t = "tospace_start s"
  note f1 = scan_done_fixed [OF d1, simplified] and f2 = scan_done_fixed [OF d2]
  note k1 = scan_done_frame [OF sp inv d1] and k2 = scan_done_frame [OF sp f1(1) d2]
  have n: "tospace_next s = tb" "tospace_next s1 = tb + sizes h ds1" "tospace_next s2 = tospace_next s1 + sizes h ds2"
    and t: "?t \<le> tb" using inv f1(1) f2(1) by (simp_all add: gc_inv_def)
  have cap: "tospace_next s2 \<le> tb + heap_words h" using gc_inv_tospace_next [OF sp f2(1)] .
  have out: "(x < p1 \<or> e1 \<le> x) \<and> (x < p2 \<or> e2 \<le> x)" if "?t \<le> x" "x < tospace_next s2" for x
    using apartD(2) [OF r1, of x] apartD(2) [OF r2, of x] that cap t by (meson leD le_less_trans not_le_imp_less)
  have "map (memory s2) [?t..<tb] = map (memory s) [?t..<tb]"
  proof (rule map_upt_cong)
    fix x assume x: "?t \<le> x" "x < tb"
    then have "x \<notin> fromspace h" using t0 by fastforce
    then show "memory s2 x = memory s x" using k1 [of x] k2 [of x] out [of x] x n by simp
  qed
  moreover have "map (memory s2) [tb..<tospace_next s1] = concat (map (raw_words h) ds1)"
  proof -
    have "memory s2 x = memory s1 x" if "tb \<le> x" "x < tospace_next s1" for x
      using tospace_fromspace [OF sp f1(1), of x] out [of x] that n t by (intro k2) auto
    then have "map (memory s2) [tb..<tospace_next s1] = map (memory s1) [tb..<tospace_next s1]"
      by (intro map_upt_cong) auto
    also have "\<dots> = concat (map (raw_words h) ds1)" using f1(5) n(1) by simp
    finally show ?thesis .
  qed
  ultimately show ?thesis
    using upt_map_split [of ?t tb "tospace_next s2" "memory s2"]
      upt_map_split [of tb "tospace_next s1" "tospace_next s2" "memory s2"] f2(5) n t by simp
qed


lemma gc_scan_tospace_correct:
  assumes sp: "gc_space h tb nb" and inv: "gc_inv h tb nb cs s"
    and t0: "{tospace_start s..<tb} \<inter> fromspace h = {}"
    and ok: "scan_ok h (map (memory s) [tospace_start s..<tospace_next s])"
  obtains ds s' where "gc_scan_tospace (newspace_start s) None s = gc_return () s'"
    "scan_done h tb nb cs (tospace_start s) None s ds s'"
proof -
  have "x \<notin> fromspace h" if "tospace_start s \<le> x" "x < tospace_next s" for x
  proof (cases "x < tb")
    case True
    then show ?thesis using t0 that by fastforce
  qed (use tospace_fromspace [OF sp inv, of x] that in simp)
  moreover have "tospace_start s \<le> tospace_next s" using inv by (simp add: gc_inv_def)
  ultimately have "scan_ready h tb nb cs (tospace_start s) None s"
    using inv ok unfolding scan_ready_def scan_limit_def by fastforce
  from run_gc_loop_correct [OF sp this] that show ?thesis
    by (auto simp: gc_scan_tospace_def NEWSPACE_TO_TOSPACE_def)
qed

lemma scan_done_keep_moving:
  assumes sp: "gc_space h tb nb" and inv: "gc_inv h tb nb cs s" and d: "scan_done h tb nb cs t0 None s ds s'"
    and a: "apart h t0 tb q stop"
  shows "map (memory s') [q..<stop] = map (memory s) [q..<stop]"
proof (rule map_upt_cong)
  fix x assume x: "q \<le> x" "x < stop"
  have inv': "gc_inv h tb nb (cs @ ds) s'" using d by (simp add: scan_done_def)
  note cap = gc_inv_tospace_next [OF sp inv] gc_inv_tospace_next [OF sp inv']
  have "t0 \<le> tospace_next s" using inv a by (auto simp: gc_inv_def apart_def)
  then have "x \<notin> {t0..<tospace_next s}" "x \<notin> {tospace_next s..<tospace_next s'}"
    using apartD(2) [OF a x] cap by auto
  then show "memory s' x = memory s x"
    using d apartD(1) [OF a x] unfolding scan_done_def scan_limit_def by auto
qed

text \<open>The state that the scans leave: roots and copies are forwarded, and every target is copied.\<close>

definition scanned ::
  "heap_image \<Rightarrow> addr \<Rightarrow> addr \<Rightarrow> (addr \<times> addr) list \<Rightarrow> gc_state \<Rightarrow> addr list \<Rightarrow> gc_state \<Rightarrow> bool" where
  "scanned h tb nb regions s cs s' \<longleftrightarrow>
    gc_inv h tb nb cs s' \<and> gc_rest s' = gc_rest s \<and>
    (\<forall>(p, e) \<in> set regions.
       map (memory s') [p..<e] = fwd_list h (place h nb cs) (map (memory s) [p..<e]) \<and>
       targets h (map (memory s) [p..<e]) \<subseteq> set cs) \<and>
    map (memory s') [tospace_start s..<tospace_next s'] =
      fwd_list h (place h nb cs) (map (memory s) [tospace_start s..<tb] @ concat (map (raw_words h) cs)) \<and>
    targets h (map (memory s) [tospace_start s..<tb] @ concat (map (raw_words h) cs)) \<subseteq> set cs"

lemma gc_scan_regions:
  assumes sp: "gc_space h tb nb" and inv: "gc_inv h tb nb [] s"
    and t0: "{tospace_start s..<tb} \<inter> fromspace h = {}"
    and r1: "apart h (tospace_start s) tb p1 e1" and r2: "apart h (tospace_start s) tb p2 e2" and le: "e1 \<le> p2"
    and ok: "scan_ok h (map (memory s) [p1..<e1])" "scan_ok h (map (memory s) [p2..<e2])"
      "scan_ok h (map (memory s) [tospace_start s..<tb])"
  obtains cs s1 s2 s3 where
    "gc_scan_oldspace p1 e1 s = gc_return () s1" "gc_scan_oldspace p2 e2 s1 = gc_return () s2"
    "gc_scan_tospace (newspace_start s) None s2 = gc_return () s3"
    "scanned h tb nb [(p1, e1), (p2, e2)] s cs s3"
proof -
  let ?t = "tospace_start s"
  have wf: "heap_wf h" using sp by (simp add: gc_space_def)
  obtain ds1 s1 where g1: "gc_scan_oldspace p1 e1 s = gc_return () s1"
    and d1: "scan_done h tb nb [] p1 (Some e1) s ds1 s1"
    using gc_scan_oldspace_correct [OF sp inv r1 ok(1)] .
  note f1 = scan_done_fixed [OF d1, simplified]
  have m2: "map (memory s1) [p2..<e2] = map (memory s) [p2..<e2]" using scan_done_keep [OF sp inv d1 r2] le by simp
  have ok2: "scan_ok h (map (memory s1) [p2..<e2])" using ok(2) by (simp only: m2)
  obtain ds2 s2 where g2: "gc_scan_oldspace p2 e2 s1 = gc_return () s2"
    and d2: "scan_done h tb nb ds1 p2 (Some e2) s1 ds2 s2"
    using gc_scan_oldspace_correct [OF sp f1(1) r2 ok2] .
  note f2 = scan_done_fixed [OF d2, unfolded m2]
  have m1: "map (memory s2) [p1..<e1] = map (memory s1) [p1..<e1]" using scan_done_keep [OF sp f1(1) d2 r1] le by simp
  note t2 = tospace_after_roots [OF sp inv t0 r1 r2 d1 d2]
  have same: "tospace_start s2 = ?t" "newspace_start s2 = newspace_start s"
    using gc_restD [OF f1(2)] gc_restD [OF f2(2)] by simp_all
  have "set (ds1 @ ds2) \<subseteq> dom (block h)" using f2(1) by (simp add: gc_inv_def)
  then have "scan_ok h (map (memory s2) [?t..<tospace_next s2])"
    using ok(3) scan_ok_blocks [OF wf] by (simp add: t2 scan_ok_append del: map_append)
  then obtain ds3 s3 where g3: "gc_scan_tospace (newspace_start s) None s2 = gc_return () s3"
    and d3: "scan_done h tb nb (ds1 @ ds2) ?t None s2 ds3 s3"
    using gc_scan_tospace_correct [OF sp f2(1)] t0 by (metis same)
  let ?cs = "ds1 @ ds2 @ ds3"
  have sw: "scan_words h ?t None s2 ds3 = map (memory s) [?t..<tb] @ concat (map (raw_words h) ?cs)"
    using t2 by (simp add: scan_words_def scan_limit_def)
  have f3: "gc_inv h tb nb ?cs s3" "gc_rest s3 = gc_rest s"
    "map (memory s3) [?t..<tospace_next s3] =
       fwd_list h (place h nb ?cs) (map (memory s) [?t..<tb] @ concat (map (raw_words h) ?cs))"
    "targets h (map (memory s) [?t..<tb] @ concat (map (raw_words h) ?cs)) \<subseteq> set ?cs"
    using d3 f1(2) f2(2) unfolding scan_done_def sw by (simp_all add: scan_limit_def)
  have "map (memory s3) [p1..<e1] = fwd_list h (place h nb ds1) (map (memory s) [p1..<e1])"
    using scan_done_keep_moving [OF sp f2(1) d3 r1] m1 f1(3) by (simp only:)
  also have "\<dots> = fwd_list h (place h nb ?cs) (map (memory s) [p1..<e1])"
    using fwd_list_place_append [OF ok(1) f1(4), of nb "ds2 @ ds3"] by simp
  finally have k1: "map (memory s3) [p1..<e1] = \<dots>" .
  have "map (memory s3) [p2..<e2] = fwd_list h (place h nb (ds1 @ ds2)) (map (memory s) [p2..<e2])"
    using scan_done_keep_moving [OF sp f2(1) d3 r2] f2(3) by (simp only:)
  also have "\<dots> = fwd_list h (place h nb ?cs) (map (memory s) [p2..<e2])"
    using fwd_list_place_append [OF ok(2) f2(4), of nb ds3] by simp
  finally have k2: "map (memory s3) [p2..<e2] = \<dots>" .
  have "scanned h tb nb [(p1, e1), (p2, e2)] s ?cs s3"
    using f3 k1 k2 f1(4) f2(4) unfolding scanned_def by auto
  with g1 g2 g3 show thesis by (rule that)
qed

subsection \<open>The driver\<close>

definition heap_of :: "machine \<Rightarrow> (addr \<Rightarrow> nat option) \<Rightarrow> heap_image" where
  "heap_of m blocks = \<lparr>old_memory = mem m, from_lo = heap_start m, from_hi = Free m, block = blocks\<rparr>"

definition history_word :: "machine \<Rightarrow> scheme_object" where
  "history_word m = MAKE_POINTER_OBJECT UNMARKED_HISTORY_TYPE (history_register m)"

definition stack_words :: "machine \<Rightarrow> scheme_object list" where
  "stack_words m = map (mem m) [stack_pointer m..<stack_end m]"

definition constant_words :: "machine \<Rightarrow> scheme_object list" where
  "constant_words m = map (mem m) [constant_start m..<constant_alloc_next m]"

definition gc_roots :: "machine \<Rightarrow> scheme_object list" where
  "gc_roots m = [fixed_objects m, history_word m] @ stack_words m @ constant_words m"

text \<open>
  The state between collections: tospace is closed, big enough and outside the memory block; the
  roots and the live blocks hold words that the collector can scan.
\<close>

definition collectable :: "machine \<Rightarrow> (addr \<Rightarrow> nat option) \<Rightarrow> bool" where
  "collectable m blocks \<longleftrightarrow>
    \<not> tospace_open_p (gc m) \<and> \<not> scanning_ephemerons_p (gc m) \<and>
    ephemeron_list (gc m) = SHARP_F \<and> ephemeron_queue (gc m) = SHARP_F \<and>
    stack_pointer m \<le> stack_end m \<and> stack_end m \<le> constant_start m \<and>
    constant_start m \<le> constant_alloc_next m \<and> constant_alloc_next m \<le> heap_start m \<and>
    heap_start m \<le> Free m \<and> Free m + 2 < 2 ^ 58 \<and>
    tospace_start (gc m) + 2 + (Free m - heap_start m) \<le> tospace_end (gc m) \<and>
    (tospace_end (gc m) \<le> stack_pointer m \<or> Free m \<le> tospace_start (gc m)) \<and>
    VECTOR_P (fixed_objects m) \<and> heap_wf (heap_of m blocks) \<and>
    scan_ok (heap_of m blocks) [fixed_objects m, history_word m] \<and>
    scan_ok (heap_of m blocks) (stack_words m) \<and> scan_ok (heap_of m blocks) (constant_words m)"

text \<open>The state of the collector when the scans start: tospace holds two root words.\<close>

definition scan_start :: "machine \<Rightarrow> gc_state" where
  "scan_start m =
    push_word (history_word m) (push_word (fixed_objects m)
      ((gc m)\<lparr>tospace_open_p := True, tospace_next := tospace_start (gc m), newspace_start := heap_start m,
        newspace_next := heap_start m,
        newspace_end := heap_start m + (tospace_end (gc m) - tospace_start (gc m)),
        weak_chain := None, ephemeron_count := 0\<rparr>))"

lemma update_weak_pointers_none:
  assumes "weak_chain s = None" "ephemeron_list s = SHARP_F" "ephemeron_queue s = SHARP_F" "\<not> scanning_ephemerons_p s"
  shows "update_weak_pointers s = gc_return () s"
proof -
  have e: "\<not> EPHEMERON_P 0" by (simp add: EPHEMERON_P_def TC_EPHEMERON_def OBJECT_TYPE_def)
  have s: "s\<lparr>scanning_ephemerons_p := False, ephemeron_list := 0\<rparr> = s" using assms by (cases s) simp
  have 1: "scan_live_keys 0 s' = gc_return () s'" for s'
    by (subst scan_live_keys.simps) (simp add: e gc_return_def)
  have 2: "scan_queued s' = gc_return () s'" if "ephemeron_queue s' = SHARP_F" for s'
    using that by (subst scan_queued.simps) (simp add: e gc_return_def Let_def)
  have 3: "update_ephemeron_loop 0 s' = gc_return () s'" for s'
    by (subst update_ephemeron_loop.simps) (simp add: e gc_return_def)
  have 4: "update_weak_pairs s = gc_return () s"
    using assms(1) by (subst update_weak_pairs.simps) (simp add: gc_return_def)
  show ?thesis
    using assms 1 2 3 4
    by (simp add: update_weak_pointers_def scan_ephemerons_def update_ephemerons_def s)
qed

lemma scan_start_simps:
  "tospace_start (scan_start m) = tospace_start (gc m)" "newspace_start (scan_start m) = heap_start m"
  "tospace_next (scan_start m) = tospace_start (gc m) + 2" "newspace_next (scan_start m) = heap_start m + 2"
  "tospace_end (scan_start m) = tospace_end (gc m)" "tospace_open_p (scan_start m)"
  "weak_chain (scan_start m) = None" "ephemeron_list (scan_start m) = ephemeron_list (gc m)"
  "ephemeron_queue (scan_start m) = ephemeron_queue (gc m)"
  "scanning_ephemerons_p (scan_start m) = scanning_ephemerons_p (gc m)"
  "fromspace_start (scan_start m) = heap_start m" "fromspace_end (scan_start m) = Free m"
  "ephemeron_count (scan_start m) = 0"
  "memory (scan_start m) = (mem m)(tospace_start (gc m) := fixed_objects m,
     tospace_start (gc m) + 1 := history_word m)"
  by (simp_all add: scan_start_def push_word_def mem_write_def)

lemma scan_start_keep:
  assumes "q \<le> tospace_start (gc m) \<or> tospace_start (gc m) + 2 \<le> p"
  shows "map (memory (scan_start m)) [p..<q] = map (mem m) [p..<q]"
  using assms by (intro map_upt_cong) (auto simp: scan_start_simps)

lemma std_gc_pt1_scans:
  assumes "gc_scan_oldspace (stack_pointer m) (stack_end m) (scan_start m) = gc_return () s1"
    and "gc_scan_oldspace (constant_start m) (constant_alloc_next m) s1 = gc_return () s2"
    and "gc_scan_tospace (heap_start m) None s2 = gc_return () s3"
    and "update_weak_pointers s3 = gc_return () s3" and "\<not> tospace_open_p (gc m)"
  shows "collect m = std_gc_pt2 (m\<lparr>saved_to := Some (heap_start m), gc := s3\<rparr>)"
proof -
  let ?s = "(gc m)\<lparr>tospace_open_p := True, tospace_next := tospace_start (gc m), newspace_start := heap_start m,
        newspace_next := heap_start m, newspace_end := heap_start m + (tospace_end (gc m) - tospace_start (gc m))\<rparr>"
  have o: "open_tospace (heap_start m) (gc m) = gc_return () ?s" using assms(5) by (simp add: open_tospace_def)
  have a: "add_to_tospace w s = gc_return () (push_word w s)" if "tospace_open_p s" for w s
    using that by (simp add: add_to_tospace_def GUARANTEE_TOSPACE_OPEN_def)
  have p: "tospace_open_p (push_word w s) = tospace_open_p s" for w s by (simp add: push_word_def mem_write_def)
  show ?thesis
    unfolding collect_def using assms(1-4)
    by (simp add: run_gc_return [of "open_tospace (heap_start m)", OF o] std_gc_pt1_def initialize_weak_chain_def
      run_gc_return [OF a] p Let_def scan_start_def history_word_def)
qed


text \<open>The new ephemeron array lies above \<open>Free\<close>.\<close>

lemma push_heap_simps [simp]:
  "Free (push_heap w m) = Free m + 1" "mem (push_heap w m) = (mem m)(Free m := w)"
  by (simp_all add: push_heap_def set_Free_def store_word_def mem_write_def)

lemma fill_heap_frame:
  "Free (fill_heap n w m) = Free m + n" "a < Free m \<Longrightarrow> mem (fill_heap n w m) a = mem m a"
  by (induction n arbitrary: m) simp_all

lemma fill_heap_mem: "mem (fill_heap n w m) a = (if Free m \<le> a \<and> a < Free m + n then w else mem m a)"
  by (induction n w m rule: fill_heap.induct) auto

lemma push_heap_other [simp]:
  "stack_pointer (push_heap w m) = stack_pointer m" "stack_end (push_heap w m) = stack_end m"
  "constant_start (push_heap w m) = constant_start m" "constant_alloc_next (push_heap w m) = constant_alloc_next m"
  "fixed_objects (push_heap w m) = fixed_objects m" "history_register (push_heap w m) = history_register m"
  "heap_start (push_heap w m) = heap_start m" "heap_alloc_limit (push_heap w m) = heap_alloc_limit m"
  by (simp_all add: push_heap_def set_Free_def store_word_def mem_write_def)

lemma fill_heap_other [simp]:
  "stack_pointer (fill_heap n w m) = stack_pointer m" "stack_end (fill_heap n w m) = stack_end m"
  "constant_start (fill_heap n w m) = constant_start m" "constant_alloc_next (fill_heap n w m) = constant_alloc_next m"
  "fixed_objects (fill_heap n w m) = fixed_objects m" "history_register (fill_heap n w m) = history_register m"
  "heap_start (fill_heap n w m) = heap_start m" "heap_alloc_limit (fill_heap n w m) = heap_alloc_limit m"
  by (induction n arbitrary: m) simp_all

lemma make_ephemeron_array_simps [simp]:
  "stack_pointer (make_ephemeron_array n m) = stack_pointer m" "stack_end (make_ephemeron_array n m) = stack_end m"
  "constant_start (make_ephemeron_array n m) = constant_start m"
  "constant_alloc_next (make_ephemeron_array n m) = constant_alloc_next m"
  "fixed_objects (make_ephemeron_array n m) = fixed_objects m"
  "history_register (make_ephemeron_array n m) = history_register m"
  "heap_start (make_ephemeron_array n m) = heap_start m"
  "ephemeron_array (gc (make_ephemeron_array n m)) = MAKE_POINTER_OBJECT TC_VECTOR (Free m)"
  "a < Free m \<Longrightarrow> mem (make_ephemeron_array n m) a = mem m a"
  by (simp_all add: make_ephemeron_array_def make_marked_vector_words_def fill_heap_frame)

lemma new_ephemeron_array_simps [simp]:
  "stack_pointer (new_ephemeron_array m) = stack_pointer m" "stack_end (new_ephemeron_array m) = stack_end m"
  "constant_start (new_ephemeron_array m) = constant_start m"
  "constant_alloc_next (new_ephemeron_array m) = constant_alloc_next m"
  "fixed_objects (new_ephemeron_array m) = fixed_objects m"
  "history_register (new_ephemeron_array m) = history_register m"
  "heap_start (new_ephemeron_array m) = heap_start m"
  "ephemeron_array (gc (new_ephemeron_array m)) = MAKE_POINTER_OBJECT TC_VECTOR (Free m)"
  "a < Free m \<Longrightarrow> mem (new_ephemeron_array m) a = mem m a"
  by (simp_all add: new_ephemeron_array_def Let_def)

text \<open>
  The new array has room for the ephemerons that were counted and, if it leaves space for them, for those requested. It is
  the last object of the heap, and allocation goes on right behind it.
\<close>

definition ephemeron_array_length :: "machine \<Rightarrow> nat \<Rightarrow> addr \<Rightarrow> nat" where
  "ephemeron_array_length m count base =
    (let len = compute_ephemeron_array_length (count + n_ephemerons_requested m) in
     if heap_start m \<le> base \<and> base < heap_alloc_limit m \<and>
        base + (1 + len + n_ephemerons_requested m * EPHEMERON_SIZE) \<le> heap_alloc_limit m
     then len else compute_ephemeron_array_length count)"

definition fresh_array :: "addr \<Rightarrow> nat \<Rightarrow> machine \<Rightarrow> bool" where
  "fresh_array base len m \<longleftrightarrow>
    ephemeron_array (gc m) = MAKE_POINTER_OBJECT TC_VECTOR base \<and> mem m base = MAKE_OBJECT TC_MANIFEST_VECTOR (of_nat len) \<and>
    (\<forall>i < len. mem m (base + 1 + i) = SHARP_F) \<and> Free m = base + 1 + len"

lemma new_ephemeron_array_fresh:
  "fresh_array (Free m) (ephemeron_array_length m (ephemeron_count (gc m)) (Free m)) (new_ephemeron_array m)"
  "heap_alloc_limit (new_ephemeron_array m) = heap_alloc_limit m" "n_ephemerons_requested (new_ephemeron_array m) = 0"
  by (simp_all add: fresh_array_def ephemeron_array_length_def new_ephemeron_array_def make_ephemeron_array_def make_marked_vector_words_def
      HEAP_AVAILABLE_P_def FREE_OK_P_def VECTOR_DATA_def Let_def fill_heap_mem fill_heap_frame)

lemma CLEAR_INTERRUPT_simps [simp]:
  "gc (CLEAR_INTERRUPT c m) = gc m" "stack_pointer (CLEAR_INTERRUPT c m) = stack_pointer m"
  "stack_end (CLEAR_INTERRUPT c m) = stack_end m" "constant_start (CLEAR_INTERRUPT c m) = constant_start m"
  "constant_alloc_next (CLEAR_INTERRUPT c m) = constant_alloc_next m"
  "fixed_objects (CLEAR_INTERRUPT c m) = fixed_objects m"
  "history_register (CLEAR_INTERRUPT c m) = history_register m" "heap_alloc_limit (CLEAR_INTERRUPT c m) = heap_alloc_limit m"
  "n_ephemerons_requested (CLEAR_INTERRUPT c m) = n_ephemerons_requested m"
  by (simp_all add: CLEAR_INTERRUPT_def COMPILER_SETUP_INTERRUPT_def)

text \<open>The state after the copy back, in terms of the state \<open>s\<close> after the scans.\<close>

definition copied_back :: "machine \<Rightarrow> nat \<Rightarrow> gc_state \<Rightarrow> machine \<Rightarrow> bool" where
  "copied_back m live s m' \<longleftrightarrow>
    stack_pointer m' = stack_pointer m \<and> stack_end m' = stack_end m \<and>
    constant_start m' = constant_start m \<and> constant_alloc_next m' = constant_alloc_next m \<and>
    heap_start m' = heap_start m \<and> fixed_objects m' = memory s (tospace_start (gc m)) \<and>
    history_register m' = OBJECT_ADDRESS (memory s (tospace_start (gc m) + 1)) \<and>
    fresh_array (heap_start m + 2 + live) (ephemeron_array_length m (ephemeron_count s) (heap_start m + 2 + live)) m' \<and>
    heap_alloc_limit m' = heap_alloc_limit m \<and> n_ephemerons_requested m' = 0 \<and>
    (\<forall>i < 2 + live. mem m' (heap_start m + i) = memory s (tospace_start (gc m) + i)) \<and>
    (\<forall>a < heap_start m. mem m' a = memory s a)"

lemma std_gc_pt2_correct:
  assumes "tospace_open_p (gc m)" "saved_to m = Some (heap_start m)" "newspace_start (gc m) = heap_start m"
    and ts: "tospace_next (gc m) = tospace_start (gc m) + 2 + live" "tospace_start (gc m) \<le> tospace_end (gc m)"
    and nx: "newspace_next (gc m) = heap_start m + 2 + live"
  shows "\<exists>m'. std_gc_pt2 m = machine_return () m' \<and> copied_back m live (gc m) m'"
proof -
  let ?s = "gc m"
  let ?c = "CLOSE_TOSPACE (save_tospace_copy (tospace_start ?s) (tospace_next ?s) ?s)"
  have save: "save_tospace ?s = gc_return () ?c"
    using assms(1) by (simp add: save_tospace_def GUARANTEE_TOSPACE_OPEN_def)
  define m1 where "m1 = set_Free (newspace_next ?s) (m\<lparr>gc := ?c\<rparr>)"
  define m2 where "m2 = m1\<lparr>fixed_objects := mem m1 (heap_start m),
    history_register := OBJECT_ADDRESS (mem m1 (heap_start m + 1)), saved_to := None\<rparr>"
  have c: "mem m1 a = (if heap_start m \<le> a \<and> a < heap_start m + (2 + live)
      then mem m (tospace_start ?s + (a - heap_start m)) else mem m a)" for a
    using ts assms(3)
    by (simp add: m1_def set_Free_def CLOSE_TOSPACE_def save_tospace_copy_def tospace_to_newspace_def Let_def)
  have f: "Free m2 = heap_start m + 2 + live" "heap_start m2 = heap_start m" "mem m2 = mem m1"
    "stack_pointer m2 = stack_pointer m" "stack_end m2 = stack_end m"
    "constant_start m2 = constant_start m" "constant_alloc_next m2 = constant_alloc_next m"
    "heap_alloc_limit m2 = heap_alloc_limit m" "n_ephemerons_requested m2 = n_ephemerons_requested m" "ephemeron_count (gc m2) = ephemeron_count ?s"
    "fixed_objects m2 = mem m1 (heap_start m)" "history_register m2 = OBJECT_ADDRESS (mem m1 (heap_start m + 1))"
    using nx by (simp_all add: m2_def m1_def set_Free_def CLOSE_TOSPACE_def save_tospace_copy_def Let_def)
  have run: "std_gc_pt2 m = machine_return () (CLEAR_INTERRUPT INT_GC (new_ephemeron_array m2))"
    using assms(2)
    by (simp add: std_gc_pt2_def run_gc_return [of save_tospace, OF save] Let_def set_Free_def m2_def m1_def)
  have "mem (new_ephemeron_array m2) (heap_start m + i) = mem m (tospace_start ?s + i)" if "i < 2 + live" for i
    using that f(1,3) c [of "heap_start m + i"] by simp
  moreover have "mem (new_ephemeron_array m2) a = mem m a" if "a < heap_start m" for a
    using that f(1,3) c [of a] by simp
  moreover have "ephemeron_array_length m2 count base = ephemeron_array_length m count base" for count base
    using f by (simp add: ephemeron_array_length_def)
  then have "fresh_array (heap_start m + 2 + live) (ephemeron_array_length m (ephemeron_count ?s) (heap_start m + 2 + live))
      (CLEAR_INTERRUPT INT_GC (new_ephemeron_array m2))"
    using new_ephemeron_array_fresh(1) [of m2] f by (simp add: fresh_array_def)
  ultimately have "copied_back m live ?s (CLEAR_INTERRUPT INT_GC (new_ephemeron_array m2))"
    using new_ephemeron_array_fresh(2,3) [of m2] c [of "heap_start m"] c [of "heap_start m + 1"] f unfolding copied_back_def by simp
  with run show ?thesis by blast
qed


subsection \<open>A collection\<close>

text \<open>
  What a collection is for: every reachable block has a copy, the copies lie side by side above the
  two root words, roots and copies are the old words with their pointers forwarded, and nothing else
  is kept: the new, empty ephemeron array starts right after the copies, and \<open>Free\<close> is right behind it.
\<close>

definition live_words :: "machine \<Rightarrow> (addr \<Rightarrow> nat option) \<Rightarrow> nat" where
  "live_words m blocks =
    (\<Sum>a \<in> reachable (heap_of m blocks) (gc_roots m). block_size (heap_of m blocks) a)"

definition collected :: "machine \<Rightarrow> (addr \<Rightarrow> nat option) \<Rightarrow> (addr \<Rightarrow> addr) \<Rightarrow> machine \<Rightarrow> bool" where
  "collected m blocks \<phi> m' \<longleftrightarrow>
    (let h = heap_of m blocks; live = reachable h (gc_roots m) in
     (\<forall>a \<in> live. heap_start m + 2 \<le> \<phi> a \<and> \<phi> a + block_size h a \<le> heap_start m + 2 + live_words m blocks \<and>
        map (mem m') [\<phi> a..<\<phi> a + block_size h a] = fwd_list h \<phi> (raw_words h a)) \<and>
     (\<forall>a \<in> live. \<forall>b \<in> live. a \<noteq> b \<longrightarrow> \<phi> a + block_size h a \<le> \<phi> b \<or> \<phi> b + block_size h b \<le> \<phi> a) \<and>
     stack_pointer m' = stack_pointer m \<and> stack_end m' = stack_end m \<and>
     constant_start m' = constant_start m \<and> constant_alloc_next m' = constant_alloc_next m \<and>
     heap_start m' = heap_start m \<and>
     stack_words m' = fwd_list h \<phi> (stack_words m) \<and>
     constant_words m' = fwd_list h \<phi> (constant_words m) \<and>
     fixed_objects m' = fwd h \<phi> (fixed_objects m) \<and>
     history_register m' = OBJECT_ADDRESS (fwd h \<phi> (history_word m)) \<and>
     fresh_array (heap_start m + 2 + live_words m blocks) (ephemeron_array_length m 0 (heap_start m + 2 + live_words m blocks)) m' \<and>
     heap_alloc_limit m' = heap_alloc_limit m)"

lemma place_disjoint:
  assumes "distinct cs" "a \<in> set cs" "b \<in> set cs" "a \<noteq> b"
  shows "place h nb cs a + block_size h a \<le> place h nb cs b \<or> place h nb cs b + block_size h b \<le> place h nb cs a"
  using assms
proof (induction cs rule: rev_induct)
  case (snoc c cs)
  have end_of: "place h nb cs x + block_size h x \<le> nb + sizes h cs" if x: "x \<in> set cs" for x
  proof -
    obtain us vs where "cs = us @ x # vs" "place h nb cs x = nb + sizes h us" using place_split [OF x] .
    then show ?thesis by simp
  qed
  consider "a = c" "b \<in> set cs" | "b = c" "a \<in> set cs" | "a \<in> set cs" "b \<in> set cs" using snoc.prems by auto
  then show ?case
  proof cases
    case 1
    then show ?thesis using snoc.prems end_of [of b] by (simp add: place_append place_new)
  next
    case 2
    then show ?thesis using snoc.prems end_of [of a] by (simp add: place_append place_new)
  next
    case 3
    then show ?thesis using snoc by (simp add: place_append)
  qed
qed simp

lemma sizes_sum: "distinct cs \<Longrightarrow> sizes h cs = (\<Sum>a \<in> set cs. block_size h a)"
  by (simp add: sizes_def sum_list_distinct_conv_sum_set)

text \<open>The words of one block in a row of forwarded blocks.\<close>

lemma block_in_row:
  assumes wf: "heap_wf h" and sub: "set cs \<subseteq> dom (block h)" and a: "a \<in> set cs"
    and row: "\<And>i. i < sizes h cs \<Longrightarrow> f (nb + i) = concat (map (\<lambda>a. fwd_list h \<phi> (raw_words h a)) cs) ! i"
  shows "map f [place h nb cs a..<place h nb cs a + block_size h a] = fwd_list h \<phi> (raw_words h a)"
proof -
  let ?g = "\<lambda>a. fwd_list h \<phi> (raw_words h a)"
  obtain us vs where cs: "cs = us @ a # vs" and p: "place h nb cs a = nb + sizes h us" using place_split [OF a] .
  have len: "length (?g x) = block_size h x" if x: "x \<in> set cs" for x
  proof -
    obtain n where "block h x = Some n" using x sub by blast
    then show ?thesis using heap_wfD(5) [OF wf] by simp
  qed
  have lu: "length (concat (map ?g us)) = sizes h us"
    using len unfolding cs by (simp add: length_concat sizes_def comp_def cong: map_cong)
  show ?thesis
  proof (rule nth_equalityI)
    show "length (map f [place h nb cs a..<place h nb cs a + block_size h a]) = length (?g a)" using len [OF a] by simp
    fix i assume "i < length (map f [place h nb cs a..<place h nb cs a + block_size h a])"
    then have i: "i < block_size h a" by simp
    then have "f (nb + (sizes h us + i)) = concat (map ?g cs) ! (sizes h us + i)" by (intro row) (simp add: cs)
    also have "\<dots> = ?g a ! i" using i len [OF a] lu by (simp add: cs nth_append)
    finally show "map f [place h nb cs a..<place h nb cs a + block_size h a] ! i = ?g a ! i"
      using i by (simp add: p add.assoc)
  qed
qed

text \<open>The live part of a machine that can be collected, and the start of the scans.\<close>

abbreviation live_heap :: "machine \<Rightarrow> (addr \<Rightarrow> nat option) \<Rightarrow> heap_image" where
  "live_heap m blocks \<equiv> restrict_heap (reachable (heap_of m blocks) (gc_roots m)) (heap_of m blocks)"

lemma heap_of_simps [simp]:
  "old_memory (heap_of m blocks) = mem m" "from_lo (heap_of m blocks) = heap_start m"
  "from_hi (heap_of m blocks) = Free m" "block (heap_of m blocks) = blocks"
  "fromspace (heap_of m blocks) = {heap_start m..<Free m}" "heap_words (heap_of m blocks) = Free m - heap_start m"
  by (simp_all add: heap_of_def fromspace_def heap_words_def)

lemma collectable_live:
  assumes "collectable m blocks"
  shows "scan_ok (heap_of m blocks) (gc_roots m)" "heap_wf (live_heap m blocks)"
    "scan_ok (live_heap m blocks) [fixed_objects m, history_word m]"
    "scan_ok (live_heap m blocks) (stack_words m)" "scan_ok (live_heap m blocks) (constant_words m)"
proof -
  let ?h = "heap_of m blocks" and ?R = "reachable (heap_of m blocks) (gc_roots m)"
  have ok: "scan_ok ?h [fixed_objects m, history_word m]" "scan_ok ?h (stack_words m)" "scan_ok ?h (constant_words m)"
    using assms unfolding collectable_def by blast+
  show "scan_ok ?h (gc_roots m)" using ok by (simp add: gc_roots_def scan_ok_append del: append_Cons append_Nil)
  have t: "targets ?h (gc_roots m) = targets ?h [fixed_objects m, history_word m] \<union> targets ?h (stack_words m)
      \<union> targets ?h (constant_words m)"
    unfolding gc_roots_def using ok by (simp only: targets_append Un_assoc)
  have "targets ?h (gc_roots m) \<subseteq> ?R" by (auto intro: reachable.root)
  then have "targets ?h [fixed_objects m, history_word m] \<subseteq> ?R" "targets ?h (stack_words m) \<subseteq> ?R"
    "targets ?h (constant_words m) \<subseteq> ?R" unfolding t by blast+
  then show "scan_ok (live_heap m blocks) [fixed_objects m, history_word m]"
    "scan_ok (live_heap m blocks) (stack_words m)" "scan_ok (live_heap m blocks) (constant_words m)"
    using ok by (blast intro: restrict_heap_scan_ok)+
  have "heap_wf ?h" using assms unfolding collectable_def by blast
  then show "heap_wf (live_heap m blocks)" by (rule restrict_heap_wf) (auto intro: reachable.child)
qed

lemma collectable_space:
  assumes c: "collectable m blocks"
  defines "h \<equiv> live_heap m blocks" and "t \<equiv> tospace_start (gc m)"
  shows "gc_space h (t + 2) (heap_start m + 2)" "gc_inv h (t + 2) (heap_start m + 2) [] (scan_start m)"
    "{t..<t + 2} \<inter> fromspace h = {}" "apart h t (t + 2) (stack_pointer m) (stack_end m)"
    "apart h t (t + 2) (constant_start m) (constant_alloc_next m)" "stack_end m \<le> constant_start m"
    "stack_end m \<le> t \<or> t + 2 \<le> stack_pointer m" "constant_alloc_next m \<le> t \<or> t + 2 \<le> constant_start m"
proof -
  have l: "stack_pointer m \<le> stack_end m" "stack_end m \<le> constant_start m"
    "constant_start m \<le> constant_alloc_next m" "constant_alloc_next m \<le> heap_start m" "heap_start m \<le> Free m"
    "Free m + 2 < 2 ^ 58" "t + 2 + (Free m - heap_start m) \<le> stack_pointer m \<or> Free m \<le> t"
    using c unfolding collectable_def t_def by (simp_all, arith)
  have h: "fromspace h = {heap_start m..<Free m}" "heap_words h = Free m - heap_start m" by (simp_all add: h_def)
  show "stack_end m \<le> constant_start m" by (rule l)
  show "stack_end m \<le> t \<or> t + 2 \<le> stack_pointer m" "constant_alloc_next m \<le> t \<or> t + 2 \<le> constant_start m"
    using l by arith+
  show "gc_space h (t + 2) (heap_start m + 2)"
    using l collectable_live(2) [OF c] unfolding gc_space_def h by (auto simp: h_def)
  show tf: "{t..<t + 2} \<inter> fromspace h = {}" unfolding h using l by auto
  show "apart h t (t + 2) (stack_pointer m) (stack_end m)" "apart h t (t + 2) (constant_start m) (constant_alloc_next m)"
    unfolding apart_def h using l by auto
  have "\<not> scanning_ephemerons_p (gc m)" using c unfolding collectable_def by blast
  moreover have "memory (scan_start m) a = mem m a" if "a \<in> fromspace h" for a
  proof -
    have "a \<noteq> t" "a \<noteq> t + 1" using l that unfolding h by auto
    then show ?thesis by (simp add: scan_start_simps t_def)
  qed
  ultimately show "gc_inv h (t + 2) (heap_start m + 2) [] (scan_start m)"
    unfolding gc_inv_def by (auto simp: scan_start_simps h_def t_def)
qed


lemma collect_scanned:
  assumes c: "collectable m blocks"
  obtains cs s where "collect m = std_gc_pt2 (m\<lparr>saved_to := Some (heap_start m), gc := s\<rparr>)"
    "scanned (live_heap m blocks) (tospace_start (gc m) + 2) (heap_start m + 2)
       [(stack_pointer m, stack_end m), (constant_start m, constant_alloc_next m)] (scan_start m) cs s"
    "set cs = reachable (heap_of m blocks) (gc_roots m)"
proof -
  let ?h = "live_heap m blocks" and ?t = "tospace_start (gc m)" and ?s = "scan_start m"
  let ?R = "reachable (heap_of m blocks) (gc_roots m)"
  note sp = collectable_space [OF c] and lv = collectable_live [OF c]
  have st: "map (memory ?s) [stack_pointer m..<stack_end m] = stack_words m"
    unfolding stack_words_def by (rule scan_start_keep [OF sp(7)])
  have cw: "map (memory ?s) [constant_start m..<constant_alloc_next m] = constant_words m"
    unfolding constant_words_def by (rule scan_start_keep [OF sp(8)])
  have rw: "map (memory ?s) [?t..<?t + 2] = [fixed_objects m, history_word m]"
    by (simp add: scan_start_simps upt_conv_Cons)
  obtain cs s1 s2 s3 where g: "gc_scan_oldspace (stack_pointer m) (stack_end m) ?s = gc_return () s1"
    "gc_scan_oldspace (constant_start m) (constant_alloc_next m) s1 = gc_return () s2"
    "gc_scan_tospace (heap_start m) None s2 = gc_return () s3"
    and sc: "scanned ?h (?t + 2) (heap_start m + 2)
      [(stack_pointer m, stack_end m), (constant_start m, constant_alloc_next m)] ?s cs s3"
    by (rule gc_scan_regions [OF sp(1,2), unfolded scan_start_simps(1-13), OF sp(3-6), unfolded st cw rw, OF lv(4,5,3)])
  have inv: "gc_inv ?h (?t + 2) (heap_start m + 2) cs s3" and rest: "gc_rest s3 = gc_rest ?s"
    and tg: "targets ?h (stack_words m) \<subseteq> set cs" "targets ?h (constant_words m) \<subseteq> set cs"
      "targets ?h ([fixed_objects m, history_word m] @ concat (map (raw_words ?h) cs)) \<subseteq> set cs"
    using sc unfolding scanned_def scan_start_simps(1-13) rw by (simp_all add: st cw)
  have "update_weak_pointers s3 = gc_return () s3"
    using gc_restD [OF rest] c
    by (intro update_weak_pointers_none) (auto simp: scan_start_simps collectable_def)
  then have run: "collect m = std_gc_pt2 (m\<lparr>saved_to := Some (heap_start m), gc := s3\<rparr>)"
    using g c by (intro std_gc_pt1_scans) (auto simp: collectable_def)
  have sub: "set cs \<subseteq> dom (block ?h)" using inv by (simp add: gc_inv_def)
  then have subR: "set cs \<subseteq> ?R" by (auto simp: restrict_heap_block split: if_splits)
  have t3: "targets ?h [fixed_objects m, history_word m] \<subseteq> set cs" "targets ?h (concat (map (raw_words ?h) cs)) \<subseteq> set cs"
    using tg(3) unfolding targets_append [OF lv(3)] by blast+
  have "?R \<subseteq> set cs"
  proof (rule reachable_least)
    show "targets (heap_of m blocks) (gc_roots m) \<subseteq> set cs"
    proof -
      have "scan_ok (heap_of m blocks) [fixed_objects m, history_word m]" "scan_ok (heap_of m blocks) (stack_words m)"
        using c unfolding collectable_def by blast+
      then have "targets (heap_of m blocks) (gc_roots m) = targets (heap_of m blocks) [fixed_objects m, history_word m] \<union>
          (targets (heap_of m blocks) (stack_words m) \<union> targets (heap_of m blocks) (constant_words m))"
        unfolding gc_roots_def by (simp only: targets_append)
      then show ?thesis using tg(1,2) t3(1) unfolding restrict_heap_targets by blast
    qed
    show "targets (heap_of m blocks) (raw_words (heap_of m blocks) a) \<subseteq> set cs" if a: "a \<in> set cs" for a
    proof -
      have "targets ?h (raw_words ?h a) \<subseteq> set cs" using targets_concat [OF lv(2) sub a] t3(2) by blast
      moreover have "a \<in> ?R" using subR a by blast
      ultimately show ?thesis by simp
    qed
  qed
  with subR have "set cs = ?R" by blast
  with run sc show thesis by (rule that)
qed


lemma nth_region: "map f [a..<b] = xs \<Longrightarrow> a + i < b \<Longrightarrow> f (a + i) = xs ! i"
  by auto

lemma place_bounds: "a \<in> set cs \<Longrightarrow> nb \<le> place h nb cs a \<and> place h nb cs a + block_size h a \<le> nb + sizes h cs"
  by (erule place_split [where h = h and nb = nb]) simp

text \<open>The words of tospace after the scans.\<close>

lemma VECTOR_P_skip: "VECTOR_P w \<Longrightarrow> skip_words w = 0"
  by (simp add: VECTOR_P_def skip_words_def word_kind_def TC_VECTOR_def gc_type_code_def gc_type_map_def
      TC_WEAK_CONS_def TC_EPHEMERON_def)

lemma scanned_tospace_words:
  assumes c: "collectable m blocks"
    and sc: "scanned (live_heap m blocks) (tospace_start (gc m) + 2) nb regions (scan_start m) cs s"
    and cs: "set cs = reachable (heap_of m blocks) (gc_roots m)"
  defines "\<phi> \<equiv> place (live_heap m blocks) nb cs" and "h \<equiv> heap_of m blocks"
  shows "map (memory s) [tospace_start (gc m)..<tospace_next s] =
    [fwd h \<phi> (fixed_objects m), fwd h \<phi> (history_word m)] @ concat (map (\<lambda>a. fwd_list h \<phi> (raw_words h a)) cs)"
proof -
  let ?l = "live_heap m blocks" and ?t = "tospace_start (gc m)"
  note lv = collectable_live [OF c]
  have sub: "set cs \<subseteq> dom (block ?l)" using sc by (simp add: scanned_def gc_inv_def)
  have "VECTOR_P (fixed_objects m)" using c by (simp add: collectable_def)
  then have two: "fwd_list ?l \<phi> [fixed_objects m, history_word m] = [fwd h \<phi> (fixed_objects m), fwd h \<phi> (history_word m)]"
    using VECTOR_P_skip by (simp add: h_def)
  have "map (memory (scan_start m)) [?t..<?t + 2] = [fixed_objects m, history_word m]"
    by (simp add: scan_start_simps upt_conv_Cons)
  then have "map (memory s) [?t..<tospace_next s] =
      fwd_list ?l \<phi> ([fixed_objects m, history_word m] @ concat (map (raw_words ?l) cs))"
    using sc unfolding scanned_def scan_start_simps(1) \<phi>_def by simp
  also have "\<dots> = fwd_list ?l \<phi> [fixed_objects m, history_word m] @ concat (map (\<lambda>a. fwd_list ?l \<phi> (raw_words ?l a)) cs)"
    unfolding fwd_list_append [OF lv(3)] fwd_list_concat [OF lv(2) sub] ..
  also have "map (\<lambda>a. fwd_list ?l \<phi> (raw_words ?l a)) cs = map (\<lambda>a. fwd_list h \<phi> (raw_words h a)) cs"
    unfolding h_def using cs by (intro map_cong) auto
  finally show ?thesis unfolding two .
qed

lemma collect_memory:
  assumes c: "collectable m blocks"
  obtains cs s m' where "collect m = machine_return () m'" "copied_back m (live_words m blocks) s m'"
    "scanned (live_heap m blocks) (tospace_start (gc m) + 2) (heap_start m + 2)
       [(stack_pointer m, stack_end m), (constant_start m, constant_alloc_next m)] (scan_start m) cs s"
    "set cs = reachable (heap_of m blocks) (gc_roots m)"
    "sizes (live_heap m blocks) cs = live_words m blocks"
    "tospace_next s = tospace_start (gc m) + 2 + live_words m blocks" "ephemeron_count s = 0"
proof -
  let ?l = "live_heap m blocks" and ?t = "tospace_start (gc m)"
  obtain cs s where run: "collect m = std_gc_pt2 (m\<lparr>saved_to := Some (heap_start m), gc := s\<rparr>)"
    and sc: "scanned ?l (?t + 2) (heap_start m + 2)
      [(stack_pointer m, stack_end m), (constant_start m, constant_alloc_next m)] (scan_start m) cs s"
    and cs: "set cs = reachable (heap_of m blocks) (gc_roots m)" using collect_scanned [OF c] .
  have inv: "gc_inv ?l (?t + 2) (heap_start m + 2) cs s" and rest: "gc_rest s = gc_rest (scan_start m)"
    using sc by (simp_all add: scanned_def)
  have same: "tospace_start s = ?t" "newspace_start s = heap_start m" "tospace_end s = tospace_end (gc m)"
    "tospace_open_p s" "fromspace_start s = heap_start m" "ephemeron_count s = 0"
    using gc_restD [OF rest] by (simp_all add: scan_start_simps)
  have "distinct cs" using inv by (simp add: gc_inv_def)
  then have live: "sizes ?l cs = live_words m blocks"
    unfolding sizes_sum [OF \<open>distinct cs\<close>] live_words_def cs [symmetric] by (intro sum.cong) (simp_all add: cs)
  have nx: "tospace_next s = ?t + 2 + live_words m blocks" "newspace_next s = heap_start m + 2 + live_words m blocks"
    using inv live by (simp_all add: gc_inv_def)
  have te: "?t \<le> tospace_end (gc m)" using c unfolding collectable_def by simp
  from std_gc_pt2_correct [of "m\<lparr>saved_to := Some (heap_start m), gc := s\<rparr>" "live_words m blocks"] same nx te
  obtain m' where "std_gc_pt2 (m\<lparr>saved_to := Some (heap_start m), gc := s\<rparr>) = machine_return () m'"
    and "copied_back (m\<lparr>saved_to := Some (heap_start m), gc := s\<rparr>) (live_words m blocks) s m'" by auto
  moreover from this(2) have "copied_back m (live_words m blocks) s m'"
    using same by (simp add: copied_back_def ephemeron_array_length_def)
  ultimately show thesis using run sc cs live nx(1) same(6) by (intro that) simp_all
qed

lemma collect_roots:
  assumes c: "collectable m blocks" and cb: "copied_back m live s m'"
    and sc: "scanned (live_heap m blocks) (tospace_start (gc m) + 2) nb
      [(stack_pointer m, stack_end m), (constant_start m, constant_alloc_next m)] (scan_start m) cs s"
  defines "\<phi> \<equiv> place (live_heap m blocks) nb cs"
  shows "stack_words m' = fwd_list (heap_of m blocks) \<phi> (stack_words m)"
    "constant_words m' = fwd_list (heap_of m blocks) \<phi> (constant_words m)"
proof -
  note sp = collectable_space [OF c]
  have old: "mem m' a = memory s a" if "a < heap_start m" for a using cb that by (simp add: copied_back_def)
  have le: "stack_end m \<le> heap_start m" "constant_alloc_next m \<le> heap_start m"
    using c unfolding collectable_def by simp_all
  have "stack_words m' = map (memory s) [stack_pointer m..<stack_end m]"
    "constant_words m' = map (memory s) [constant_start m..<constant_alloc_next m]"
    using cb le old unfolding stack_words_def constant_words_def by (simp_all add: copied_back_def)
  moreover have "map (memory s) [stack_pointer m..<stack_end m] = fwd_list (heap_of m blocks) \<phi> (stack_words m)"
    "map (memory s) [constant_start m..<constant_alloc_next m] = fwd_list (heap_of m blocks) \<phi> (constant_words m)"
    using sc unfolding scanned_def scan_start_keep [OF sp(7)] scan_start_keep [OF sp(8)] \<phi>_def
    by (simp_all add: scan_start_keep [OF sp(7)] scan_start_keep [OF sp(8)] stack_words_def constant_words_def)
  ultimately show "stack_words m' = fwd_list (heap_of m blocks) \<phi> (stack_words m)"
    "constant_words m' = fwd_list (heap_of m blocks) \<phi> (constant_words m)" by simp_all
qed

text \<open>C6: a garbage collection of a heap of ordinary objects returns, keeps exactly the objects
  reachable from the fixed objects, the history, the stack and constant space, moves them to
  disjoint places at the bottom of the heap, and forwards every pointer in the roots and in the
  copies to the new place of its target. Right after the last live object comes the new ephemeron array, a vector
  of \<open>#f\<close> whose length is computed from the requested ephemerons (the smallest length if that does not fit),
  and \<open>Free\<close> is the word after it, so that all the rest up to the unchanged limit can be allocated.
\<close>

theorem collect_correct:
  assumes "collectable m blocks"
  shows "\<exists>\<phi> m'. collect m = machine_return () m' \<and> collected m blocks \<phi> m'"
proof -
  let ?h = "heap_of m blocks" and ?l = "live_heap m blocks" and ?t = "tospace_start (gc m)"
  let ?nb = "heap_start m + 2" and ?live = "live_words m blocks"
  obtain cs s m' where run: "collect m = machine_return () m'" and cb: "copied_back m ?live s m'"
    and sc: "scanned ?l (?t + 2) ?nb
      [(stack_pointer m, stack_end m), (constant_start m, constant_alloc_next m)] (scan_start m) cs s"
    and cs: "set cs = reachable ?h (gc_roots m)" and live: "sizes ?l cs = ?live"
    and nx: "tospace_next s = ?t + 2 + ?live" and count: "ephemeron_count s = 0" using collect_memory [OF assms] .
  note sp = collectable_space [OF assms] and lv = collectable_live [OF assms]
  define \<phi> where "\<phi> = place ?l ?nb cs"
  define g where "g = (\<lambda>a. fwd_list ?h \<phi> (raw_words ?h a))"
  have d: "distinct cs" "set cs \<subseteq> dom (block ?l)" using sc by (simp_all add: scanned_def gc_inv_def)
  have size: "block_size ?l a = block_size ?h a" "raw_words ?l a = raw_words ?h a" if "a \<in> set cs" for a
    using that cs by simp_all
  have words: "map (memory s) [?t..<tospace_next s] =
      [fwd ?h \<phi> (fixed_objects m), fwd ?h \<phi> (history_word m)] @ concat (map g cs)"
    unfolding g_def \<phi>_def by (rule scanned_tospace_words [OF assms sc cs])
  have nth: "memory s (?t + i) =
      ([fwd ?h \<phi> (fixed_objects m), fwd ?h \<phi> (history_word m)] @ concat (map g cs)) ! i"
    if "i < 2 + ?live" for i using that nx by (intro nth_region [OF words]) simp
  have g: "map (\<lambda>a. fwd_list ?l \<phi> (raw_words ?l a)) cs = map g cs"
    unfolding g_def by (intro map_cong) (auto simp: size)
  have row: "mem m' (?nb + i) = concat (map (\<lambda>a. fwd_list ?l \<phi> (raw_words ?l a)) cs) ! i"
    if i: "i < sizes ?l cs" for i
  proof -
    have "2 + i < 2 + ?live" using i live by simp
    then have "mem m' (heap_start m + (2 + i)) = memory s (?t + (2 + i))"
      using cb unfolding copied_back_def by blast
    then show ?thesis using nth [of "2 + i"] i live unfolding g by (simp add: add.assoc)
  qed
  have blocks: "?nb \<le> \<phi> a \<and> \<phi> a + block_size ?h a \<le> ?nb + ?live \<and>
      map (mem m') [\<phi> a..<\<phi> a + block_size ?h a] = fwd_list ?h \<phi> (raw_words ?h a)" if a: "a \<in> set cs" for a
    using block_in_row [OF lv(2) d(2) a row] place_bounds [OF a, of ?nb ?l] live size [OF a]
    by (simp add: \<phi>_def)
  have disj: "\<phi> a + block_size ?h a \<le> \<phi> b \<or> \<phi> b + block_size ?h b \<le> \<phi> a"
    if "a \<in> set cs" "b \<in> set cs" "a \<noteq> b" for a b
    using place_disjoint [OF d(1) that, of ?l ?nb] that size by (simp add: \<phi>_def)
  have roots: "stack_words m' = fwd_list ?h \<phi> (stack_words m)" "constant_words m' = fwd_list ?h \<phi> (constant_words m)"
    unfolding \<phi>_def by (rule collect_roots [OF assms cb sc])+
  have "collected m blocks \<phi> m'"
    unfolding collected_def Let_def cs [symmetric]
    using blocks disj roots cb nth [of 0] nth [of 1] count by (simp add: copied_back_def)
  with run show ?thesis by blast
qed


text \<open>A small machine: a cyclic list and a vector are live, one word of the heap is not.\<close>

definition demo_memory :: "addr \<Rightarrow> scheme_object" where
  "demo_memory = (\<lambda>_. 0)
    (10 := MAKE_POINTER_OBJECT TC_LIST 100,
     100 := MAKE_OBJECT TC_FIXNUM 5, 101 := MAKE_POINTER_OBJECT TC_LIST 103,
     102 := MAKE_OBJECT TC_FIXNUM 7,
     103 := MAKE_OBJECT TC_FIXNUM 6, 104 := MAKE_POINTER_OBJECT TC_LIST 100,
     105 := MAKE_OBJECT TC_MANIFEST_VECTOR 1, 106 := MAKE_POINTER_OBJECT TC_LIST 103)"

definition demo_blocks :: "addr \<Rightarrow> nat option" where
  "demo_blocks = [100 \<mapsto> 2, 103 \<mapsto> 2, 105 \<mapsto> 2]"

definition demo_gc :: gc_state where
  "demo_gc = \<lparr>memory = demo_memory, memory_base = 4096, fromspace_start = 100, fromspace_end = 107,
     tospace_start = 200, tospace_next = 0, tospace_end = 300,
     newspace_start = 0, newspace_next = 0, newspace_end = 0, tospace_open_p = False,
     weak_chain = None, ephemeron_list = SHARP_F, ephemeron_queue = SHARP_F, scanning_ephemerons_p = False,
     ephemeron_array = SHARP_F, ephemeron_count = 0\<rparr>"

definition demo_machine :: machine where
  "demo_machine = \<lparr>gc = demo_gc, memory_block_start = 0, memory_block_end = 200, saved_stack_size = 11,
     stack_start = 0, stack_end = 11, stack_pointer = 10, stack_guard = 5,
     constant_start = 20, constant_alloc_next = 22, constant_end = 100, heap_end = 200, heap_reserved = 10,
     heap_alloc_limit = 190, Free_primitive = 107, int_mask = 0, int_code = 0, memtop_register = 190,
     stack_guard_register = 5, exp_register = 0, ret_register = 0, gc_space_needed = 0,
     fixed_objects = MAKE_POINTER_OBJECT TC_VECTOR 105, history_register = 20, saved_to = None,
     n_ephemerons_requested = 0, ephemeron_request_hard_p = False\<rparr>"

lemma demo_simps:
  "mem demo_machine = demo_memory" "heap_start demo_machine = 100" "Free demo_machine = 107"
  "stack_pointer demo_machine = 10" "stack_end demo_machine = 11" "constant_start demo_machine = 20"
  "constant_alloc_next demo_machine = 22" "fixed_objects demo_machine = MAKE_POINTER_OBJECT TC_VECTOR 105"
  "history_register demo_machine = 20" "tospace_start (gc demo_machine) = 200" "tospace_end (gc demo_machine) = 300"
  by (simp_all add: demo_machine_def demo_gc_def)

lemma demo_words:
  "word_kind 0 = Word_Plain" "skip_words 0 = 0" "n < 2 ^ 58 \<Longrightarrow> word_kind (MAKE_OBJECT TC_FIXNUM n) = Word_Plain"
  "a < 2 ^ 58 \<Longrightarrow> word_kind (MAKE_POINTER_OBJECT TC_LIST a) = Word_Tuple 2"
  "a < 2 ^ 58 \<Longrightarrow> word_kind (MAKE_POINTER_OBJECT TC_VECTOR a) = Word_Vector"
  "a < 2 ^ 58 \<Longrightarrow> word_kind (MAKE_POINTER_OBJECT UNMARKED_HISTORY_TYPE a) = Word_Tuple 3"
  "word_kind (MAKE_OBJECT TC_MANIFEST_VECTOR 1) = Word_Plain"
  by (simp_all add: word_kind_def skip_words_def gc_type_code_def gc_type_map_def OBJECT_TYPE_def [of 0] tc_defs
      TC_VECTOR_def UNMARKED_HISTORY_TYPE_def TC_HUNK3_A_def TC_MANIFEST_VECTOR_def TC_WEAK_CONS_def TC_EPHEMERON_def)

lemma demo_word_ok:
  "word_ok (heap_of demo_machine demo_blocks) 0"
  "n < 2 ^ 58 \<Longrightarrow> word_ok (heap_of demo_machine demo_blocks) (MAKE_OBJECT TC_FIXNUM n)"
  "word_ok (heap_of demo_machine demo_blocks) (MAKE_OBJECT TC_MANIFEST_VECTOR 1)"
  "word_ok (heap_of demo_machine demo_blocks) (MAKE_POINTER_OBJECT TC_LIST 100)"
  "word_ok (heap_of demo_machine demo_blocks) (MAKE_POINTER_OBJECT TC_LIST 103)"
  "word_ok (heap_of demo_machine demo_blocks) (MAKE_POINTER_OBJECT TC_VECTOR 105)"
  "word_ok (heap_of demo_machine demo_blocks) (MAKE_POINTER_OBJECT UNMARKED_HISTORY_TYPE 20)"
proof -
  have t: "(1::ulong) < 64" "TC_LIST < 64" "TC_VECTOR < 64" "UNMARKED_HISTORY_TYPE < 64" "TC_MANIFEST_VECTOR < 64"
    by (simp_all add: TC_LIST_def TC_VECTOR_def UNMARKED_HISTORY_TYPE_def TC_HUNK3_A_def TC_MANIFEST_VECTOR_def)
  note d = word_ok_def word_target_def pointer_p_def demo_words demo_simps demo_blocks_def demo_memory_def word_size_def
    skip_p_def
  show "word_ok (heap_of demo_machine demo_blocks) 0" by (simp add: d)
  show "n < 2 ^ 58 \<Longrightarrow> word_ok (heap_of demo_machine demo_blocks) (MAKE_OBJECT TC_FIXNUM n)" by (simp add: d)
  show "word_ok (heap_of demo_machine demo_blocks) (MAKE_OBJECT TC_MANIFEST_VECTOR 1)" by (simp add: d)
  show "word_ok (heap_of demo_machine demo_blocks) (MAKE_POINTER_OBJECT TC_LIST 100)" using t by (simp add: d)
  show "word_ok (heap_of demo_machine demo_blocks) (MAKE_POINTER_OBJECT TC_LIST 103)" using t by (simp add: d)
  show "word_ok (heap_of demo_machine demo_blocks) (MAKE_POINTER_OBJECT TC_VECTOR 105)" using t by (simp add: d)
  show "word_ok (heap_of demo_machine demo_blocks) (MAKE_POINTER_OBJECT UNMARKED_HISTORY_TYPE 20)"
    using t by (simp add: d)
qed

lemma demo_collectable: "collectable demo_machine demo_blocks"
proof -
  let ?h = "heap_of demo_machine demo_blocks"
  have sk: "skip_words w = 0" if "\<not> skip_p w" for w
    using that by (simp add: skip_words_def skip_p_def split: kind_of_word.splits)
  have skips: "skip_words (MAKE_OBJECT TC_FIXNUM 5) = 0" "skip_words (MAKE_OBJECT TC_FIXNUM 6) = 0"
    "skip_words (MAKE_OBJECT TC_MANIFEST_VECTOR 1) = 0" "skip_words (MAKE_POINTER_OBJECT TC_LIST 100) = 0"
    "skip_words (MAKE_POINTER_OBJECT TC_LIST 103) = 0" "skip_words (MAKE_POINTER_OBJECT TC_VECTOR 105) = 0"
    "skip_words (MAKE_POINTER_OBJECT UNMARKED_HISTORY_TYPE 20) = 0"
    by (simp_all add: skip_words_def demo_words)
  have raw: "raw_words ?h 100 = [MAKE_OBJECT TC_FIXNUM 5, MAKE_POINTER_OBJECT TC_LIST 103]"
    "raw_words ?h 103 = [MAKE_OBJECT TC_FIXNUM 6, MAKE_POINTER_OBJECT TC_LIST 100]"
    "raw_words ?h 105 = [MAKE_OBJECT TC_MANIFEST_VECTOR 1, MAKE_POINTER_OBJECT TC_LIST 103]"
    by (simp_all add: raw_words_def block_size_def demo_blocks_def demo_simps demo_memory_def upt_rec)
  have "heap_wf ?h"
    unfolding heap_wf_def
    by (auto simp: demo_simps demo_blocks_def raw [unfolded demo_blocks_def] skips
        demo_word_ok [unfolded demo_blocks_def] split: if_splits)
  moreover have "scan_ok ?h (stack_words demo_machine)" "scan_ok ?h (constant_words demo_machine)"
    "scan_ok ?h [fixed_objects demo_machine, history_word demo_machine]"
    by (simp_all add: stack_words_def constant_words_def history_word_def demo_simps demo_memory_def upt_rec
        demo_words demo_word_ok skips)
  ultimately show ?thesis
    by (simp add: collectable_def demo_simps VECTOR_P_def TC_VECTOR_def demo_machine_def demo_gc_def del: scan_ok.simps)
qed

theorem collect_correct_witness:
  "collectable demo_machine demo_blocks \<and>
   (\<exists>\<phi> m'. collect demo_machine = machine_return () m' \<and> collected demo_machine demo_blocks \<phi> m')"
  using demo_collectable collect_correct [OF demo_collectable] by blast

end
