(* ===== verification/Heap_Correct.thy ===== *)
theory Heap_Correct
  imports Heap_Prims GC_Correct
begin

text \<open>
  What the memory primitives promise when the interpreter applies them: new objects do not touch
  old words, selectors return what constructors and mutators stored, and the conversions between
  lists and vectors and the block moves preserve the elements in order.

  Objects with two words share one contract, the locale \<open>two_word_objects\<close>, which pairs and weak
  pairs both satisfy.
\<close>

subsection \<open>Applying a primitive\<close>

text \<open>
  \<open>apply_primitive\<close> is the application of a primitive to arguments that have been pushed on the
  stack, the last one first: the value is returned and the frame is popped. When the primitive
  aborts, its arguments stay on the stack.
\<close>

definition PRIMITIVE_APPLY_INTERNAL :: "(machine \<Rightarrow> 'a heap_prim) \<Rightarrow> machine \<Rightarrow> 'a heap_prim" where
  "PRIMITIVE_APPLY_INTERNAL primitive m =
    heap_bind (primitive (m\<lparr>Free_primitive := Free m\<rparr>)) (\<lambda>val m. (Inr val, m\<lparr>Free_primitive := 0\<rparr>))"

definition POP_PRIMITIVE_FRAME :: "nat \<Rightarrow> machine \<Rightarrow> machine" where
  "POP_PRIMITIVE_FRAME arity m = m\<lparr>stack_pointer := stack_pointer m + arity\<rparr>"

fun push_arguments :: "scheme_object list \<Rightarrow> machine \<Rightarrow> machine" where
  "push_arguments [] m = m"
| "push_arguments (x # xs) m = STACK_PUSH x (push_arguments xs m)"

definition apply_primitive :: "(machine \<Rightarrow> 'a heap_prim) \<Rightarrow> scheme_object list \<Rightarrow> machine \<Rightarrow> 'a heap_prim" where
  "apply_primitive primitive args m =
    heap_bind (PRIMITIVE_APPLY_INTERNAL primitive (push_arguments args m)) (\<lambda>val m.
      (Inr val, POP_PRIMITIVE_FRAME (length args) m))"

subsection \<open>Words in memory\<close>

lemma store_word_simps [simp]:
  "mem (store_word a w m) = (mem m)(a := w)" "Free (store_word a w m) = Free m" "heap_start (store_word a w m) = heap_start m"
  "stack_pointer (store_word a w m) = stack_pointer m" "heap_alloc_limit (store_word a w m) = heap_alloc_limit m"
  "int_mask (store_word a w m) = int_mask m" "int_code (store_word a w m) = int_code m"
  "Free_primitive (store_word a w m) = Free_primitive m" "fixed_objects (store_word a w m) = fixed_objects m"
  by (simp_all add: store_word_def mem_write_def)

lemma set_Free_simps [simp]:
  "mem (set_Free a m) = mem m" "Free (set_Free a m) = a" "heap_start (set_Free a m) = heap_start m"
  "stack_pointer (set_Free a m) = stack_pointer m" "heap_alloc_limit (set_Free a m) = heap_alloc_limit m"
  "int_mask (set_Free a m) = int_mask m" "int_code (set_Free a m) = int_code m"
  "Free_primitive (set_Free a m) = Free_primitive m" "fixed_objects (set_Free a m) = fixed_objects m"
  by (simp_all add: set_Free_def)

lemma push_heap_registers [simp]:
  "mem (push_heap w m) = (mem m)(Free m := w)" "Free (push_heap w m) = Free m + 1" "heap_start (push_heap w m) = heap_start m"
  "stack_pointer (push_heap w m) = stack_pointer m" "heap_alloc_limit (push_heap w m) = heap_alloc_limit m"
  "int_mask (push_heap w m) = int_mask m" "int_code (push_heap w m) = int_code m"
  "Free_primitive (push_heap w m) = Free_primitive m" "fixed_objects (push_heap w m) = fixed_objects m"
  by (simp_all add: push_heap_def)

lemma STACK_PUSH_simps [simp]:
  "mem (STACK_PUSH w m) = (mem m)(stack_pointer m - 1 := w)" "Free (STACK_PUSH w m) = Free m"
  "heap_start (STACK_PUSH w m) = heap_start m" "stack_pointer (STACK_PUSH w m) = stack_pointer m - 1"
  "heap_alloc_limit (STACK_PUSH w m) = heap_alloc_limit m" "int_mask (STACK_PUSH w m) = int_mask m"
  "int_code (STACK_PUSH w m) = int_code m" "fixed_objects (STACK_PUSH w m) = fixed_objects m"
  by (simp_all add: STACK_PUSH_def)

lemma push_arguments_registers [simp]:
  "Free (push_arguments xs m) = Free m" "heap_start (push_arguments xs m) = heap_start m"
  "heap_alloc_limit (push_arguments xs m) = heap_alloc_limit m" "int_mask (push_arguments xs m) = int_mask m"
  "int_code (push_arguments xs m) = int_code m" "stack_pointer (push_arguments xs m) = stack_pointer m - length xs"
  "fixed_objects (push_arguments xs m) = fixed_objects m"
  by (induction xs) auto

lemma push_arguments_mem:
  assumes "length xs \<le> stack_pointer m"
  shows "mem (push_arguments xs m) a =
    (if stack_pointer m - length xs \<le> a \<and> a < stack_pointer m then xs ! (a - (stack_pointer m - length xs)) else mem m a)"
  using assms
proof (induction xs)
  case (Cons x xs)
  then show ?case by (auto simp: nth_Cons split: nat.splits intro!: arg_cong [where f = "nth xs"])
qed auto

lemma push_arguments_kept [simp]:
  "length xs \<le> stack_pointer m \<Longrightarrow> stack_pointer m \<le> a \<Longrightarrow> mem (push_arguments xs m) a = mem m a"
  by (simp add: push_arguments_mem)

lemma ARG_REF_push_arguments:
  "\<lbrakk>length xs \<le> stack_pointer m; 0 < n; n \<le> length xs\<rbrakk> \<Longrightarrow> ARG_REF n (push_arguments xs m) = xs ! (n - 1)"
proof -
  assume *: "length xs \<le> stack_pointer m" "0 < n" "n \<le> length xs"
  then obtain k j where "stack_pointer m = k + length xs" "n = Suc j" by (metis add.commute le_Suc_ex gr0_conv_Suc)
  with * show ?thesis by (simp add: ARG_REF_def ARG_LOC_def push_arguments_mem)
qed

text \<open>Calls are made in a machine whose stack lies below the heap and has room for the arguments.\<close>

definition can_call :: "nat \<Rightarrow> machine \<Rightarrow> bool" where
  "can_call n m \<longleftrightarrow> n \<le> stack_pointer m \<and> stack_pointer m \<le> heap_start m \<and> heap_start m \<le> Free m \<and> Free m \<le> 2 ^ 58"

text \<open>Space for \<open>n\<close> words: no collection is needed, and the addresses fit in an object.\<close>

definition room :: "nat \<Rightarrow> machine \<Rightarrow> bool" where
  "room n m \<longleftrightarrow> \<not> GC_NEEDED_P n m \<and> Free m + n \<le> 2 ^ 58"

lemma GC_NEEDED_P_cong:
  "\<lbrakk>Free m' = Free m; heap_start m' = heap_start m; heap_alloc_limit m' = heap_alloc_limit m; int_mask m' = int_mask m\<rbrakk> \<Longrightarrow>
    GC_NEEDED_P n m' = GC_NEEDED_P n m"
  by (simp add: GC_NEEDED_P_def HEAP_AVAILABLE_P_def FREE_OK_P_def GC_ENABLED_P_def INTERRUPT_ENABLED_P_def)

lemma Primitive_GC_If_Needed_room: "room n m \<Longrightarrow> Primitive_GC_If_Needed n m = (Inr (), m)"
  by (simp add: Primitive_GC_If_Needed_def room_def)

text \<open>
  \<open>heap_step m f free m'\<close>: a call in \<open>m\<close> returned in \<open>m'\<close>, having stored the words \<open>f\<close> and left
  \<open>Free = free\<close>; no other word above the stack has changed and the stack is as before.
\<close>

definition heap_step :: "machine \<Rightarrow> (addr \<rightharpoonup> scheme_object) \<Rightarrow> addr \<Rightarrow> machine \<Rightarrow> bool" where
  "heap_step m f free m' \<longleftrightarrow>
    (\<forall>a \<ge> stack_pointer m. mem m' a = (case f a of None \<Rightarrow> mem m a | Some w \<Rightarrow> w)) \<and>
    Free m' = free \<and> stack_pointer m' = stack_pointer m \<and> heap_start m' = heap_start m \<and>
    heap_alloc_limit m' = heap_alloc_limit m \<and> int_mask m' = int_mask m \<and> int_code m' = int_code m"

text \<open>The machine in which the body of the primitive runs.\<close>

definition call_frame :: "scheme_object list \<Rightarrow> machine \<Rightarrow> machine" where
  "call_frame args m = (push_arguments args m)\<lparr>Free_primitive := Free m\<rparr>"

lemma call_frame_simps [simp]:
  "Free (call_frame xs m) = Free m" "heap_start (call_frame xs m) = heap_start m"
  "heap_alloc_limit (call_frame xs m) = heap_alloc_limit m" "int_mask (call_frame xs m) = int_mask m"
  "int_code (call_frame xs m) = int_code m" "stack_pointer (call_frame xs m) = stack_pointer m - length xs"
  "fixed_objects (call_frame xs m) = fixed_objects m" "Free_primitive (call_frame xs m) = Free m"
  "length xs \<le> stack_pointer m \<Longrightarrow> stack_pointer m \<le> a \<Longrightarrow> mem (call_frame xs m) a = mem m a"
  by (simp_all add: call_frame_def)

lemma ARG_REF_call_frame [simp]:
  "\<lbrakk>length xs \<le> stack_pointer m; 0 < n; n \<le> length xs\<rbrakk> \<Longrightarrow> ARG_REF n (call_frame xs m) = xs ! (n - 1)"
  using ARG_REF_push_arguments [of xs m n] by (simp add: call_frame_def ARG_REF_def ARG_LOC_def)

lemma room_call_frame [simp]: "room n (call_frame xs m) = room n m"
  by (simp add: room_def cong: GC_NEEDED_P_cong)

lemma GC_NEEDED_P_call_frame [simp]: "GC_NEEDED_P n (call_frame xs m) = GC_NEEDED_P n m"
  by (simp cong: GC_NEEDED_P_cong)

lemma apply_primitive_return:
  assumes "length args \<le> stack_pointer m"
    and "primitive (call_frame args m) = (Inr v, m')"
    and "\<And>a. stack_pointer m \<le> a \<Longrightarrow> mem m' a = (case f a of None \<Rightarrow> mem m a | Some w \<Rightarrow> w)"
    and "stack_pointer m' = stack_pointer m - length args" "heap_start m' = heap_start m"
      "heap_alloc_limit m' = heap_alloc_limit m" "int_mask m' = int_mask m" "int_code m' = int_code m"
  shows "\<exists>m''. apply_primitive primitive args m = (Inr v, m'') \<and> heap_step m f (Free m') m''"
  using assms
  by (simp add: call_frame_def apply_primitive_def PRIMITIVE_APPLY_INTERNAL_def POP_PRIMITIVE_FRAME_def heap_step_def)

lemma REQUEST_GC_simps [simp]:
  "mem (REQUEST_GC n m) = mem m" "Free (REQUEST_GC n m) = Free m" "heap_start (REQUEST_GC n m) = heap_start m"
  "stack_pointer (REQUEST_GC n m) = stack_pointer m" "heap_alloc_limit (REQUEST_GC n m) = heap_alloc_limit m"
  "int_mask (REQUEST_GC n m) = int_mask m" "int_code (REQUEST_GC n m) = int_code m OR INT_GC"
  "gc_space_needed (REQUEST_GC n m) = n"
  by (simp_all add: REQUEST_GC_def REQUEST_INTERRUPT_def COMPILER_SETUP_INTERRUPT_def)

text \<open>
  \<open>gc_requested m n m'\<close>: a call in \<open>m\<close> has been abandoned for a collection that frees \<open>n\<close> words.
\<close>

definition gc_requested :: "machine \<Rightarrow> nat \<Rightarrow> machine \<Rightarrow> bool" where
  "gc_requested m n m' \<longleftrightarrow>
    gc_space_needed m' = n \<and> int_code m' = int_code m OR INT_GC \<and> Free m' = Free m \<and>
    (\<forall>a \<ge> stack_pointer m. mem m' a = mem m a)"

lemma apply_primitive_gc:
  assumes "can_call (length args) m"
    and "primitive (call_frame args m) =
      Primitive_GC n (call_frame args m)"
  shows "\<exists>m'. apply_primitive primitive args m = (Inl Prim_Interrupt, m') \<and> gc_requested m n m'"
  using assms by (simp add: apply_primitive_def PRIMITIVE_APPLY_INTERNAL_def Primitive_GC_def can_call_def gc_requested_def flip: call_frame_def)

lemma apply_primitive_error:
  assumes "length args \<le> stack_pointer m"
    and "primitive (call_frame args m) = (Inl e, call_frame args m)"
  shows "\<exists>m'. apply_primitive primitive args m = (Inl e, m') \<and> Free m' = Free m \<and> (\<forall>a \<ge> stack_pointer m. mem m' a = mem m a)"
  using assms by (simp add: apply_primitive_def PRIMITIVE_APPLY_INTERNAL_def flip: call_frame_def)

subsection \<open>Objects with two words\<close>

locale two_word_objects =
  fixes type_p :: "scheme_object \<Rightarrow> bool"
    and make get_first get_second set_first set_second :: "machine \<Rightarrow> obj heap_prim"
  assumes make_room: "\<lbrakk>room 2 m; stack_pointer m + 2 \<le> Free m\<rbrakk> \<Longrightarrow>
      \<exists>p. type_p p \<and> OBJECT_ADDRESS p = Free m \<and>
        make m = return_word p (push_heap (ARG_REF 2 m) (push_heap (ARG_REF 1 m) m))"
    and make_gc: "\<lbrakk>GC_NEEDED_P 2 m; Free m \<le> 2 ^ 58\<rbrakk> \<Longrightarrow> make m = Primitive_GC 2 m"
    and get_first: "get_first m =
      (if type_p (ARG_REF 1 m) then return_word (mem m (OBJECT_ADDRESS (ARG_REF 1 m))) m else wrong_type 1 m)"
    and get_second: "get_second m =
      (if type_p (ARG_REF 1 m) then return_word (mem m (OBJECT_ADDRESS (ARG_REF 1 m) + 1)) m else wrong_type 1 m)"
    and set_first: "set_first m =
      (if type_p (ARG_REF 1 m) then return_word UNSPECIFIC (store_word (OBJECT_ADDRESS (ARG_REF 1 m)) (ARG_REF 2 m) m)
       else wrong_type 1 m)"
    and set_second: "set_second m =
      (if type_p (ARG_REF 1 m) then return_word UNSPECIFIC (store_word (OBJECT_ADDRESS (ARG_REF 1 m) + 1) (ARG_REF 2 m) m)
       else wrong_type 1 m)"
begin

lemma make_applied:
  assumes "can_call 2 m" "room 2 m"
  shows "\<exists>p m'. apply_primitive make [x, y] m = (Inr (Immediate p), m') \<and> type_p p \<and> OBJECT_ADDRESS p = Free m \<and>
    heap_step m [Free m \<mapsto> x, Free m + 1 \<mapsto> y] (Free m + 2) m'"
proof -
  define m1 where "m1 = call_frame [x, y] m"
  have *: "Free m1 = Free m" "room 2 m1" "stack_pointer m1 + 2 \<le> Free m1" "ARG_REF (Suc 0) m1 = x" "ARG_REF 2 m1 = y"
    using assms by (auto simp: m1_def can_call_def)
  from make_room [OF * (2,3)] obtain p where p: "type_p p" "OBJECT_ADDRESS p = Free m"
    and "make m1 = (Inr (Immediate p), push_heap y (push_heap x m1))"
    by (auto simp: * return_word_def)
  then have "\<exists>m'. apply_primitive make [x, y] m = (Inr (Immediate p), m') \<and>
      heap_step m [Free m \<mapsto> x, Free m + 1 \<mapsto> y] (Free (push_heap y (push_heap x m1))) m'"
    using assms by (intro apply_primitive_return) (auto simp: m1_def can_call_def split: if_splits)
  with p show ?thesis by (auto simp: m1_def)
qed

lemma make_gc_applied:
  assumes "can_call 2 m" "GC_NEEDED_P 2 m"
  shows "\<exists>m'. apply_primitive make [x, y] m = (Inl Prim_Interrupt, m') \<and> gc_requested m 2 m'"
  using assms
  by (intro apply_primitive_gc make_gc) (simp_all add: can_call_def cong: GC_NEEDED_P_cong)

lemma get_applied:
  assumes "can_call 1 m" "type_p p" "stack_pointer m \<le> OBJECT_ADDRESS p"
  shows "\<exists>m'. apply_primitive get_first [p] m = (Inr (Immediate (mem m (OBJECT_ADDRESS p))), m') \<and> heap_step m Map.empty (Free m) m'"
    and "\<exists>m'. apply_primitive get_second [p] m = (Inr (Immediate (mem m (OBJECT_ADDRESS p + 1))), m') \<and>
      heap_step m Map.empty (Free m) m'"
  using apply_primitive_return [of "[p]" m get_first _ "call_frame [p] m" Map.empty]
    apply_primitive_return [of "[p]" m get_second _ "call_frame [p] m" Map.empty] assms
  by (simp_all add: get_first get_second can_call_def return_word_def)

lemma set_applied:
  assumes "can_call 2 m" "type_p p" "stack_pointer m \<le> OBJECT_ADDRESS p"
  shows "\<exists>m'. apply_primitive set_first [p, x] m = (Inr (Immediate UNSPECIFIC), m') \<and>
      heap_step m [OBJECT_ADDRESS p \<mapsto> x] (Free m) m'"
    and "\<exists>m'. apply_primitive set_second [p, x] m = (Inr (Immediate UNSPECIFIC), m') \<and>
      heap_step m [OBJECT_ADDRESS p + 1 \<mapsto> x] (Free m) m'"
proof -
  define m1 where "m1 = call_frame [p, x] m"
  have "ARG_REF 1 m1 = p" "ARG_REF 2 m1 = x" using assms by (simp_all add: m1_def can_call_def)
  then have *: "set_first m1 = (Inr (Immediate UNSPECIFIC), store_word (OBJECT_ADDRESS p) x m1)"
    "set_second m1 = (Inr (Immediate UNSPECIFIC), store_word (OBJECT_ADDRESS p + 1) x m1)"
    using assms by (simp_all add: set_first set_second return_word_def)
  show "\<exists>m'. apply_primitive set_first [p, x] m = (Inr (Immediate UNSPECIFIC), m') \<and>
      heap_step m [OBJECT_ADDRESS p \<mapsto> x] (Free m) m'"
    using apply_primitive_return [of "[p, x]" m set_first, OF _ * (1) [unfolded m1_def], of "[OBJECT_ADDRESS p \<mapsto> x]"] assms by (simp add: can_call_def)
  show "\<exists>m'. apply_primitive set_second [p, x] m = (Inr (Immediate UNSPECIFIC), m') \<and>
      heap_step m [OBJECT_ADDRESS p + 1 \<mapsto> x] (Free m) m'"
    using apply_primitive_return [of "[p, x]" m set_second, OF _ * (2) [unfolded m1_def], of "[OBJECT_ADDRESS p + 1 \<mapsto> x]"] assms by (simp add: can_call_def)
qed

lemma access_errors:
  assumes "can_call 2 m" "\<not> type_p p"
  shows "\<exists>m'. apply_primitive get_first [p] m = (Inl (Prim_Error (Wrong_Type 1)), m') \<and> Free m' = Free m \<and> (\<forall>a \<ge> stack_pointer m. mem m' a = mem m a)"
    "\<exists>m'. apply_primitive get_second [p] m = (Inl (Prim_Error (Wrong_Type 1)), m') \<and> Free m' = Free m \<and> (\<forall>a \<ge> stack_pointer m. mem m' a = mem m a)"
    "\<exists>m'. apply_primitive set_first [p, x] m = (Inl (Prim_Error (Wrong_Type 1)), m') \<and> Free m' = Free m \<and> (\<forall>a \<ge> stack_pointer m. mem m' a = mem m a)"
    "\<exists>m'. apply_primitive set_second [p, x] m = (Inl (Prim_Error (Wrong_Type 1)), m') \<and> Free m' = Free m \<and> (\<forall>a \<ge> stack_pointer m. mem m' a = mem m a)"
  using assms
  by (intro apply_primitive_error;
      simp add: can_call_def get_first get_second set_first set_second wrong_type_def)+

end

lemma word_room_simps [simp]: "TC_LIST < 64" "TC_WEAK_CONS < 64" "TC_VECTOR < 64" "TC_RECORD < 64" "TC_MANIFEST_VECTOR < 64"
  by (simp_all add: TC_LIST_def TC_WEAK_CONS_def TC_VECTOR_def TC_RECORD_def TC_MANIFEST_VECTOR_def)

interpretation pairs: two_word_objects PAIR_P_heap Prim_cons Prim_car Prim_cdr Prim_set_car Prim_set_cdr
proof
  fix m
  assume "room 2 m" "stack_pointer m + 2 \<le> Free m"
  then show "\<exists>p. PAIR_P_heap p \<and> OBJECT_ADDRESS p = Free m \<and>
      Prim_cons m = return_word p (push_heap (ARG_REF 2 m) (push_heap (ARG_REF 1 m) m))"
    by (intro exI [of _ "MAKE_POINTER_OBJECT TC_LIST (Free m)"])
      (simp add: Prim_cons_def return_new_def cons_def system_pair_cons_def Primitive_GC_If_Needed_room PAIR_P_heap_def
        return_word_def room_def)
next
  fix m
  assume "GC_NEEDED_P 2 m" "Free m \<le> 2 ^ 58"
  then show "Prim_cons m = Primitive_GC 2 m"
    by (simp add: Prim_cons_def return_new_def cons_def system_pair_cons_def Primitive_GC_If_Needed_def Primitive_GC_def)
qed (simp_all add: Prim_car_def Prim_cdr_def Prim_set_car_def Prim_set_cdr_def CHECK_ARG_heap_def PAIR_CAR_def PAIR_CDR_def
  SET_PAIR_CAR_def SET_PAIR_CDR_def MEMORY_REF_def MEMORY_SET_def MEMORY_LOC_def CONS_CAR_def CONS_CDR_def)

interpretation weak_pairs: two_word_objects WEAK_PAIR_P Prim_weak_cons Prim_weak_car Prim_weak_cdr Prim_weak_set_car Prim_weak_set_cdr
proof
  fix m
  assume *: "room 2 m" "stack_pointer m + 2 \<le> Free m"
  then have "ARG_REF 2 (push_heap w m) = ARG_REF 2 m" for w by (simp add: ARG_REF_def ARG_LOC_def)
  with * show "\<exists>p. WEAK_PAIR_P p \<and> OBJECT_ADDRESS p = Free m \<and>
      Prim_weak_cons m = return_word p (push_heap (ARG_REF 2 m) (push_heap (ARG_REF 1 m) m))"
    by (intro exI [of _ "MAKE_POINTER_OBJECT TC_WEAK_CONS (Free m)"])
      (simp add: Prim_weak_cons_def make_two_words_def Primitive_GC_If_Needed_room WEAK_PAIR_P_def return_word_def room_def Let_def)
next
  fix m
  assume "GC_NEEDED_P 2 m" "Free m \<le> 2 ^ 58"
  then show "Prim_weak_cons m = Primitive_GC 2 m"
    by (simp add: Prim_weak_cons_def make_two_words_def Primitive_GC_If_Needed_def Primitive_GC_def)
qed (simp_all add: Prim_weak_car_def Prim_weak_cdr_def Prim_weak_set_car_def Prim_weak_set_cdr_def CHECK_ARG_heap_def
  MEMORY_REF_def MEMORY_SET_def MEMORY_LOC_def)

text \<open>C12: CONS, CAR, CDR, SET-CAR! and SET-CDR!, applied by the interpreter. CONS returns a fresh pair
  of its arguments and changes no word of an existing object, or requests a collection with the
  space it needs when there is not enough; the selectors return the words of the pair and change
  nothing, the mutators change exactly one word, and all four report an argument that is not a pair.\<close>

theorem pair_primitives:
  assumes "can_call 2 m"
  shows "(room 2 m \<longrightarrow> (\<exists>p m'. apply_primitive Prim_cons [x, y] m = (Inr (Immediate p), m') \<and> PAIR_P_heap p \<and>
      OBJECT_ADDRESS p = Free m \<and> heap_step m [Free m \<mapsto> x, Free m + 1 \<mapsto> y] (Free m + 2) m')) \<and>
    (GC_NEEDED_P 2 m \<longrightarrow> (\<exists>m'. apply_primitive Prim_cons [x, y] m = (Inl Prim_Interrupt, m') \<and> gc_requested m 2 m')) \<and>
    (PAIR_P_heap p \<and> stack_pointer m \<le> OBJECT_ADDRESS p \<longrightarrow>
      (\<exists>m'. apply_primitive Prim_car [p] m = (Inr (Immediate (PAIR_CAR p m)), m') \<and> heap_step m Map.empty (Free m) m') \<and>
      (\<exists>m'. apply_primitive Prim_cdr [p] m = (Inr (Immediate (PAIR_CDR p m)), m') \<and> heap_step m Map.empty (Free m) m') \<and>
      (\<exists>m'. apply_primitive Prim_set_car [p, x] m = (Inr (Immediate UNSPECIFIC), m') \<and>
        heap_step m [OBJECT_ADDRESS p \<mapsto> x] (Free m) m') \<and>
      (\<exists>m'. apply_primitive Prim_set_cdr [p, x] m = (Inr (Immediate UNSPECIFIC), m') \<and>
        heap_step m [OBJECT_ADDRESS p + 1 \<mapsto> x] (Free m) m')) \<and>
    (\<not> PAIR_P_heap p \<longrightarrow>
      (\<forall>(primitive, args) \<in> {(Prim_car, [p]), (Prim_cdr, [p]), (Prim_set_car, [p, x]), (Prim_set_cdr, [p, x])}.
        \<exists>m'. apply_primitive primitive args m = (Inl (Prim_Error (Wrong_Type 1)), m') \<and> Free m' = Free m \<and>
          (\<forall>a \<ge> stack_pointer m. mem m' a = mem m a)))"
proof -
  have "can_call 1 m" using assms by (simp add: can_call_def)
  then show ?thesis
    using pairs.make_applied [OF assms, of x y] pairs.make_gc_applied [OF assms, of x y] pairs.get_applied [of m p]
      pairs.set_applied [OF assms, of p x] pairs.access_errors(1,2) [OF assms, of p]
      pairs.access_errors(3,4) [OF assms, of p x]
    by (simp add: PAIR_CAR_def PAIR_CDR_def MEMORY_REF_def MEMORY_LOC_def CONS_CAR_def CONS_CDR_def)
qed

lemma demo_can_call: "can_call 5 demo_machine" "n \<le> 2 ^ 57 \<Longrightarrow> room n demo_machine"
  by (simp_all add: can_call_def room_def demo_simps GC_NEEDED_P_def GC_ENABLED_P_def INTERRUPT_ENABLED_P_def)
    (simp_all add: demo_machine_def demo_gc_def)

theorem pair_primitives_witness:
  "can_call 2 demo_machine \<and> room 2 demo_machine \<and>
   (\<exists>p m'. apply_primitive Prim_cons [SHARP_F, EMPTY_LIST] demo_machine = (Inr (Immediate p), m') \<and> PAIR_P_heap p \<and>
     OBJECT_ADDRESS p = 107 \<and> heap_step demo_machine [107 \<mapsto> SHARP_F, 108 \<mapsto> EMPTY_LIST] 109 m')"
proof -
  have "can_call 2 demo_machine" using demo_can_call(1) by (simp add: can_call_def)
  with pair_primitives [OF this, of SHARP_F EMPTY_LIST SHARP_F] demo_can_call(2) [of 2] show ?thesis
    by (simp add: demo_simps)
qed

subsection \<open>Integer arguments\<close>

lemma heap_object_fixnum: "FIXNUM_P w \<Longrightarrow> heap_object m w = Immediate w"
  by (auto simp: heap_object_def FIXNUM_P_def TC_FIXNUM_def TC_BIG_FIXNUM_def)

lemma fixnum_operand: "fits_fixnum i \<Longrightarrow> integer_operand (Immediate (LONG_TO_FIXNUM i))"
  by (rule concrete_fixnum_operand)

lemma ARG_nonnegative_fixnum:
  assumes "ARG_REF n m = LONG_TO_FIXNUM i" "fits_fixnum i"
  shows "ARG_INTEGER arg_nonnegative_integer n m = (if 0 \<le> i then (Inr i, m) else bad_range n m)"
  using assms arg_integer_eq [OF fixnum_operand [OF assms(2)], of n] fits_fixnum_fits_long [OF assms(2)]
  by (auto simp: ARG_INTEGER_def heap_object_fixnum arg_nonnegative_integer_def sint_word_of_int_ulong fits_fixnum_iff bad_range_def)

lemma ARG_ulong_fixnum:
  assumes "ARG_REF n m = LONG_TO_FIXNUM i" "fits_fixnum i"
  shows "ARG_INTEGER arg_ulong_integer n m = (if 0 \<le> i then (Inr (word_of_int i), m) else bad_range n m)"
  using assms arg_ulong_integer_eq [OF fixnum_operand [OF assms(2)], of n]
  by (auto simp: ARG_INTEGER_def heap_object_fixnum fits_fixnum_iff bad_range_def)

lemma ARG_index_fixnum:
  assumes "ARG_REF n m = LONG_TO_FIXNUM i" "fits_fixnum i"
  shows "ARG_VECTOR_INDEX n v m = (if 0 \<le> i \<and> i < int (VECTOR_LENGTH_heap v m) then (Inr i, m) else bad_range n m)"
  using assms arg_integer_eq [OF fixnum_operand [OF assms(2)], of n] fits_fixnum_fits_long [OF assms(2)]
  by (auto simp: ARG_VECTOR_INDEX_def ARG_INTEGER_def heap_object_fixnum arg_index_integer_def sint_word_of_int_ulong
      fits_fixnum_iff bad_range_def)

subsection \<open>Paths of CARs and CDRs\<close>

declare car_cdr_loop.simps [simp del]

datatype cxr = Car | Cdr

text \<open>The number that GENERAL-CAR-CDR takes for a path: a 1 bit for each CAR and a 0 bit for each CDR,
  the first step in the lowest bit, below a leading 1.\<close>

fun cxr_path :: "cxr list \<Rightarrow> int" where
  "cxr_path [] = 1"
| "cxr_path (d # ds) = 2 * cxr_path ds + (if d = Car then 1 else 0)"

fun cxr_step :: "cxr \<Rightarrow> scheme_object \<Rightarrow> machine \<Rightarrow> scheme_object" where
  "cxr_step Car = PAIR_CAR" | "cxr_step Cdr = PAIR_CDR"

fun follow :: "machine \<Rightarrow> cxr list \<Rightarrow> scheme_object \<Rightarrow> scheme_object option" where
  "follow m [] w = Some w"
| "follow m (d # ds) w = (if PAIR_P_heap w then follow m ds (cxr_step d w m) else None)"

fun pairs_on_path :: "machine \<Rightarrow> cxr list \<Rightarrow> scheme_object \<Rightarrow> scheme_object list" where
  "pairs_on_path m [] w = []"
| "pairs_on_path m (d # ds) w = (if PAIR_P_heap w then w # pairs_on_path m ds (cxr_step d w m) else [])"

lemma cxr_path_bounds: "1 \<le> cxr_path ds \<and> cxr_path ds < 2 ^ (length ds + 1)"
  by (induction ds) auto

lemma word_even_uint: "even p \<longleftrightarrow> even (uint p)" for p :: ulong
  using bit_uint_iff [of p 0] by (simp add: bit_0)

lemma car_cdr_loop_follow:
  assumes "length ds < 63"
  shows "car_cdr_loop w (word_of_int (cxr_path ds)) m =
    (case follow m ds w of Some v \<Rightarrow> return_word v m | None \<Rightarrow> wrong_type 1 m)"
  using assms
proof (induction ds arbitrary: w)
  case (Cons d ds)
  define p :: ulong where "p = word_of_int (cxr_path (d # ds))"
  have b: "1 \<le> cxr_path ds" "cxr_path ds < 2 ^ 63"
    using cxr_path_bounds [of ds] power_increasing [of "length ds + 1" 63 "2 :: int"] Cons.prems by simp_all
  then have u: "uint p = cxr_path (d # ds)" unfolding p_def by (intro uint_word_of_int_ulong) auto
  with b have gt: "1 < p" by (simp add: word_less_def)
  have "uint (drop_bit 1 p) = cxr_path ds"
    by (simp add: drop_bit_eq_div uint_div_distrib u)
  then have d: "drop_bit 1 p = word_of_int (cxr_path ds)" by (metis word_of_int_uint)
  have "p AND 1 = 0 \<longleftrightarrow> even (uint p)" by (simp add: and_one_eq even_iff_mod_2_eq_zero [symmetric] word_even_uint)
  then have a: "p AND 1 = 0 \<longleftrightarrow> d = Cdr" by (cases d) (simp_all add: u)
  show ?case unfolding p_def [symmetric]
    by (subst car_cdr_loop.simps) (use Cons gt d a in \<open>cases d; simp\<close>)
qed (simp add: car_cdr_loop.simps)


lemma pair_words_call_frame [simp]:
  assumes "length args \<le> stack_pointer m" "stack_pointer m \<le> OBJECT_ADDRESS w"
  shows "PAIR_CAR w (call_frame args m) = PAIR_CAR w m" "PAIR_CDR w (call_frame args m) = PAIR_CDR w m"
  using assms by (simp_all add: PAIR_CAR_def PAIR_CDR_def MEMORY_REF_def MEMORY_LOC_def)

lemma follow_call_frame:
  assumes "length args \<le> stack_pointer m" "\<forall>p \<in> set (pairs_on_path m ds w). stack_pointer m \<le> OBJECT_ADDRESS p"
  shows "follow (call_frame args m) ds w = follow m ds w"
  using assms(2)
proof (induction ds arbitrary: w)
  case (Cons d ds)
  then show ?case using assms(1) by (cases "PAIR_P_heap w"; cases d) simp_all
qed simp

text \<open>C17: GENERAL-CAR-CDR follows the path of CARs and CDRs that its second argument encodes and
  returns the object it leads to; it reports a first argument from which the path cannot be followed.
  It changes nothing.\<close>

theorem general_car_cdr_correct:
  assumes "can_call 2 m" "length ds < 56" "\<forall>p \<in> set (pairs_on_path m ds w). stack_pointer m \<le> OBJECT_ADDRESS p"
  shows "\<exists>m'. Free m' = Free m \<and> (\<forall>a \<ge> stack_pointer m. mem m' a = mem m a) \<and>
    apply_primitive Prim_general_car_cdr [w, LONG_TO_FIXNUM (cxr_path ds)] m =
      (case follow m ds w of Some v \<Rightarrow> Inr (Immediate v) | None \<Rightarrow> Inl (Prim_Error (Wrong_Type 1)), m')"
proof -
  let ?args = "[w, LONG_TO_FIXNUM (cxr_path ds)]"
  have l: "length ?args \<le> stack_pointer m" using assms(1) by (simp add: can_call_def)
  have "cxr_path ds < 2 ^ 57" using cxr_path_bounds [of ds] power_increasing [of "length ds + 1" 57 "2 :: int"] assms(2) by simp
  then have "fits_fixnum (cxr_path ds)" "0 \<le> cxr_path ds" using cxr_path_bounds [of ds] by (auto simp: fits_fixnum_iff)
  then have *: "Prim_general_car_cdr (call_frame ?args m) =
      (case follow m ds w of Some v \<Rightarrow> return_word v (call_frame ?args m) | None \<Rightarrow> wrong_type 1 (call_frame ?args m))"
    using l assms(2) ARG_ulong_fixnum [of 2 "call_frame ?args m" "cxr_path ds"] follow_call_frame [OF l assms(3)]
    by (simp add: Prim_general_car_cdr_def car_cdr_loop_follow)
  show ?thesis
  proof (cases "follow m ds w")
    case None
    then show ?thesis using apply_primitive_error [OF l, of Prim_general_car_cdr "Prim_Error (Wrong_Type 1)"] * by (auto simp: wrong_type_def)
  next
    case (Some v)
    have "\<exists>m'. apply_primitive Prim_general_car_cdr ?args m = (Inr (Immediate v), m') \<and> heap_step m Map.empty (Free (call_frame ?args m)) m'"
      using l Some * by (intro apply_primitive_return) (auto simp: return_word_def)
    with Some show ?thesis by (auto simp: heap_step_def)
  qed
qed

text \<open>The list \<open>(5 6 5 6 ...)\<close> at address 100 of the example machine: its CADR.\<close>

theorem general_car_cdr_correct_witness:
  "can_call 2 demo_machine \<and> follow demo_machine [Cdr, Car] (MAKE_POINTER_OBJECT TC_LIST 100) = Some (MAKE_OBJECT TC_FIXNUM 6) \<and>
   (\<exists>m'. apply_primitive Prim_general_car_cdr [MAKE_POINTER_OBJECT TC_LIST 100, LONG_TO_FIXNUM 6] demo_machine =
     (Inr (Immediate (MAKE_OBJECT TC_FIXNUM 6)), m'))"
proof -
  note d = PAIR_P_heap_def PAIR_CAR_def PAIR_CDR_def MEMORY_REF_def MEMORY_LOC_def CONS_CAR_def CONS_CDR_def demo_simps demo_memory_def
  have c: "can_call 2 demo_machine" using demo_can_call(1) by (simp add: can_call_def)
  have "follow demo_machine [Cdr, Car] (MAKE_POINTER_OBJECT TC_LIST 100) = Some (MAKE_OBJECT TC_FIXNUM 6)"
    "\<forall>p \<in> set (pairs_on_path demo_machine [Cdr, Car] (MAKE_POINTER_OBJECT TC_LIST 100)).
      stack_pointer demo_machine \<le> OBJECT_ADDRESS p"
    by (simp_all add: d)
  with general_car_cdr_correct [OF c _ this(2)] c show ?thesis by auto
qed

subsection \<open>Lists and vectors\<close>

text \<open>
  \<open>list_segment lo hi \<mu> w xs t\<close>: in the memory \<open>\<mu>\<close> the object \<open>w\<close> is a chain of pairs between the
  addresses \<open>lo\<close> and \<open>hi\<close> with the CARs \<open>xs\<close>, and the CDR of the last one is \<open>t\<close>.
\<close>

fun list_segment :: "addr \<Rightarrow> addr \<Rightarrow> (addr \<Rightarrow> scheme_object) \<Rightarrow> scheme_object \<Rightarrow> scheme_object list \<Rightarrow> scheme_object \<Rightarrow> bool" where
  "list_segment lo hi \<mu> w [] t \<longleftrightarrow> w = t"
| "list_segment lo hi \<mu> w (x # xs) t \<longleftrightarrow>
    PAIR_P_heap w \<and> lo \<le> OBJECT_ADDRESS w \<and> OBJECT_ADDRESS w + 2 \<le> hi \<and> \<mu> (OBJECT_ADDRESS w) = x \<and>
    list_segment lo hi \<mu> (\<mu> (OBJECT_ADDRESS w + 1)) xs t"

definition heap_list :: "machine \<Rightarrow> scheme_object \<Rightarrow> scheme_object list \<Rightarrow> bool" where
  "heap_list m w xs \<longleftrightarrow> list_segment (stack_pointer m) (Free m) (mem m) w xs EMPTY_LIST"

definition heap_vector :: "machine \<Rightarrow> scheme_object \<Rightarrow> scheme_object list \<Rightarrow> bool" where
  "heap_vector m v xs \<longleftrightarrow>
    VECTOR_P v \<and> stack_pointer m \<le> OBJECT_ADDRESS v \<and> OBJECT_ADDRESS v + 1 + length xs \<le> Free m \<and> Free m \<le> 2 ^ 58 \<and>
    mem m (OBJECT_ADDRESS v) = MAKE_OBJECT TC_MANIFEST_VECTOR (of_nat (length xs)) \<and>
    (\<forall>i < length xs. mem m (OBJECT_ADDRESS v + 1 + i) = xs ! i)"

lemma list_segment_cong:
  "\<lbrakk>list_segment lo hi \<mu> w xs t; \<And>a. lo \<le> a \<Longrightarrow> a < hi \<Longrightarrow> \<mu>' a = \<mu> a; lo' \<le> lo; hi \<le> hi'\<rbrakk> \<Longrightarrow> list_segment lo' hi' \<mu>' w xs t"
  by (induction xs arbitrary: w) auto

text \<open>Words pushed one after the other.\<close>

lemma fold_push_heap_simps [simp]:
  "Free (fold push_heap xs m) = Free m + length xs" "heap_start (fold push_heap xs m) = heap_start m"
  "stack_pointer (fold push_heap xs m) = stack_pointer m" "heap_alloc_limit (fold push_heap xs m) = heap_alloc_limit m"
  "int_mask (fold push_heap xs m) = int_mask m" "int_code (fold push_heap xs m) = int_code m"
  by (induction xs arbitrary: m) auto

lemma fold_push_heap_mem:
  "mem (fold push_heap xs m) a = (if Free m \<le> a \<and> a < Free m + length xs then xs ! (a - Free m) else mem m a)"
proof (induction xs arbitrary: m)
  case (Cons x xs)
  then show ?case by (auto simp: nth_Cons split: nat.splits intro!: arg_cong [where f = "nth xs"])
qed auto

definition room_for_words :: "nat \<Rightarrow> machine \<Rightarrow> bool" where
  "room_for_words n m \<longleftrightarrow> (GC_ENABLED_P m \<longrightarrow> heap_start m \<le> Free m \<and> Free m + n \<le> heap_alloc_limit m) \<and> Free m + n \<le> 2 ^ 58"

lemma room_for_words_step:
  "room_for_words (Suc n) m \<Longrightarrow> Primitive_GC_If_Needed 0 m = (Inr (), m) \<and> room_for_words n (push_heap x m)"
  by (auto simp: room_for_words_def Primitive_GC_If_Needed_def GC_NEEDED_P_def HEAP_AVAILABLE_P_def FREE_OK_P_def
      GC_ENABLED_P_def INTERRUPT_ENABLED_P_def)

lemma list_words_loop_eq:
  assumes "list_segment lo hi (mem m) w xs t" "\<not> PAIR_P_heap t" "hi \<le> Free m" "xs \<noteq> [] \<Longrightarrow> room_for_words (length xs) m"
  shows "list_words_loop w k m = Some (Inr (t, k + length xs), fold push_heap xs m)"
  using assms
proof (induction xs arbitrary: w k m)
  case Nil
  then show ?case by (subst list_words_loop.simps) simp
next
  case (Cons x xs)
  have *: "Primitive_GC_If_Needed 0 m = (Inr (), m)" "room_for_words (length xs) (push_heap x m)"
    using room_for_words_step [of "length xs" m x] Cons.prems(4) by simp_all
  have r: "PAIR_P_heap w" "PAIR_CAR w m = x" "PAIR_CDR w (push_heap x m) = mem m (OBJECT_ADDRESS w + 1)"
    using Cons.prems by (auto simp: PAIR_CAR_def PAIR_CDR_def MEMORY_REF_def MEMORY_LOC_def CONS_CAR_def CONS_CDR_def)
  have "list_segment lo hi (mem m) (mem m (OBJECT_ADDRESS w + 1)) xs t" using Cons.prems(1) by simp
  then have "list_segment lo hi (mem (push_heap x m)) (mem m (OBJECT_ADDRESS w + 1)) xs t"
    by (rule list_segment_cong) (use Cons.prems(3) in simp_all)
  then have "list_words_loop (mem m (OBJECT_ADDRESS w + 1)) (k + 1) (push_heap x m) =
      Some (Inr (t, k + 1 + length xs), fold push_heap xs (push_heap x m))"
    by (rule Cons.IH) (use Cons.prems(2,3) * in simp_all)
  then show ?case by (subst list_words_loop.simps) (simp add: r *)
qed

text \<open>A list with no space for its elements: the loop stops at the first word at the limit and asks for a collection.\<close>

lemma push_heap_Free_primitive [simp]: "Free_primitive (push_heap x m) = Free_primitive m"
  by (simp add: push_heap_def set_Free_def)

lemma list_words_loop_gc:
  assumes "list_segment lo hi (mem m) w xs t" "hi \<le> Free m" "GC_ENABLED_P m" "xs \<noteq> []" "heap_alloc_limit m < Free m + length xs"
    and "heap_start m \<le> Free_primitive m" "Free_primitive m \<le> Free m" "Free m + length xs \<le> 2 ^ 58"
  shows "\<exists>m'. list_words_loop w k m = Some (Inl Prim_Interrupt, m') \<and> (\<forall>a < hi. mem m' a = mem m a) \<and> int_code m' = int_code m OR INT_GC"
  using assms
proof (induction xs arbitrary: w k m)
  case (Cons x xs)
  have r: "PAIR_P_heap w" "PAIR_CAR w m = x" "PAIR_CDR w (push_heap x m) = mem m (OBJECT_ADDRESS w + 1)"
    using Cons.prems(1,2) by (auto simp: PAIR_CAR_def PAIR_CDR_def MEMORY_REF_def MEMORY_LOC_def CONS_CAR_def CONS_CDR_def)
  show ?case
  proof (cases "Free m < heap_alloc_limit m")
    case True
    then have "Primitive_GC_If_Needed 0 m = (Inr (), m)"
      using Cons.prems by (simp add: Primitive_GC_If_Needed_def GC_NEEDED_P_def HEAP_AVAILABLE_P_def FREE_OK_P_def)
    moreover have "\<exists>m'. list_words_loop (mem m (OBJECT_ADDRESS w + 1)) (k + 1) (push_heap x m) = Some (Inl Prim_Interrupt, m') \<and>
        (\<forall>a < hi. mem m' a = mem (push_heap x m) a) \<and> int_code m' = int_code (push_heap x m) OR INT_GC"
    proof (rule Cons.IH)
      have "list_segment lo hi (mem m) (mem m (OBJECT_ADDRESS w + 1)) xs t" using Cons.prems(1) by simp
      then show "list_segment lo hi (mem (push_heap x m)) (mem m (OBJECT_ADDRESS w + 1)) xs t"
        by (rule list_segment_cong) (use Cons.prems(2) in simp_all)
      show "xs \<noteq> []" using True Cons.prems(5) by auto
    qed (use Cons.prems in \<open>simp_all add: GC_ENABLED_P_def INTERRUPT_ENABLED_P_def\<close>)
    ultimately show ?thesis using Cons.prems(2) by (subst list_words_loop.simps) (auto simp: r)
  next
    case False
    then have "GC_NEEDED_P 0 m" "Free m < 2 ^ 61" "\<not> (Free_primitive m < heap_start m \<or> Free m < Free_primitive m)"
      using Cons.prems(3,6-8) by (simp_all add: GC_NEEDED_P_def HEAP_AVAILABLE_P_def FREE_OK_P_def)
    then show ?thesis by (subst list_words_loop.simps) (simp add: r Primitive_GC_If_Needed_def Primitive_GC_def)
  qed
qed simp

lemma list_to_vector_frame:
  assumes "list_segment lo (Free m) (mem m) (ARG_REF n m) xs t" "\<not> PAIR_P_heap t"
    and "xs \<noteq> [] \<Longrightarrow> room_for_words (length xs) (set_Free (Free m + 1) m)"
  shows "list_to_vector type n m =
    Some (if t = EMPTY_LIST
      then return_word (MAKE_POINTER_OBJECT type (Free m))
        (store_word (Free m) (MAKE_OBJECT TC_MANIFEST_VECTOR (of_nat (length xs))) (fold push_heap xs (set_Free (Free m + 1) m)))
      else wrong_type n (fold push_heap xs (set_Free (Free m + 1) m)))"
  using list_words_loop_eq [of lo "Free m" "set_Free (Free m + 1) m" "ARG_REF n m" xs t 0] assms
  by (simp add: list_to_vector_def EMPTY_LIST_P_def Let_def)

text \<open>The words of a subvector, copied into a list.\<close>

lemma subvector_pairs_mem:
  assumes "pair_scan = Free m" "scan + n < Free m"
  shows "Free (subvector_pairs scan pair_scan n m) = Free m + 2 * (n + 1) \<and>
    stack_pointer (subvector_pairs scan pair_scan n m) = stack_pointer m \<and>
    heap_start (subvector_pairs scan pair_scan n m) = heap_start m \<and>
    heap_alloc_limit (subvector_pairs scan pair_scan n m) = heap_alloc_limit m \<and>
    int_mask (subvector_pairs scan pair_scan n m) = int_mask m \<and> int_code (subvector_pairs scan pair_scan n m) = int_code m \<and>
    (\<forall>a < Free m. mem (subvector_pairs scan pair_scan n m) a = mem m a)"
  using assms by (induction scan pair_scan n m rule: subvector_pairs.induct) (auto simp: Let_def)

lemma subvector_pairs_list:
  assumes "pair_scan = Free m" "scan + n < Free m" "Free m + 2 * (n + 1) \<le> 2 ^ 58" "lo \<le> Free m"
  shows "list_segment lo (Free m + 2 * (n + 1)) (mem (subvector_pairs scan pair_scan n m))
    (MAKE_POINTER_OBJECT TC_LIST pair_scan) (map (mem m) [scan..<scan + n + 1]) EMPTY_LIST"
  using assms
proof (induction n arbitrary: scan pair_scan m lo)
  case 0
  then show ?case by (simp add: PAIR_P_heap_def)
next
  case (Suc n)
  define m1 where "m1 = store_word (pair_scan + 1) (MAKE_POINTER_OBJECT TC_LIST (Free m + 2))
    (store_word pair_scan (mem m scan) (set_Free (Free m + 2) m))"
  have s: "subvector_pairs scan pair_scan (Suc n) m = subvector_pairs (scan + 1) (pair_scan + 2) n m1"
    by (simp add: m1_def Let_def)
  have f: "Free m1 = Free m + 2" by (simp add: m1_def)
  have k: "mem (subvector_pairs (scan + 1) (pair_scan + 2) n m1) a = mem m1 a" if "a < Free m + 2" for a
    using subvector_pairs_mem [of "pair_scan + 2" m1 "scan + 1" n] Suc.prems that f by simp
  define \<mu> where "\<mu> = mem (subvector_pairs (scan + 1) (pair_scan + 2) n m1)"
  have \<mu>: "\<mu> (Free m) = mem m scan" "\<mu> (Free m + 1) = MAKE_POINTER_OBJECT TC_LIST (Free m + 2)"
    using k [of "Free m"] k [of "Free m + 1"] Suc.prems(1) by (simp_all add: \<mu>_def) (simp_all add: m1_def)
  have e: "map (mem m1) [scan + 1..<scan + 1 + n + 1] = map (mem m) [scan + 1..<scan + 1 + n + 1]"
    using Suc.prems by (intro map_cong) (auto simp: m1_def)
  have "list_segment lo (Free m + 2 * (Suc n + 1)) \<mu>
    (MAKE_POINTER_OBJECT TC_LIST (Free m + 2)) (map (mem m1) [scan + 1..<scan + 1 + n + 1]) EMPTY_LIST"
    using Suc.IH [of "pair_scan + 2" m1 "scan + 1" lo] Suc.prems f by (simp add: \<mu>_def del: upt_Suc)
  note this [unfolded e]
  moreover have "[scan..<scan + Suc n + 1] = scan # [scan + 1..<scan + 1 + n + 1]" by (simp add: upt_conv_Cons del: upt_Suc)
  ultimately show ?case
    using Suc.prems \<mu> unfolding s \<mu>_def [symmetric] by (simp add: PAIR_P_heap_def del: upt_Suc)
qed

text \<open>Applying a primitive whose body may not return.\<close>

definition apply_looping_primitive :: "(machine \<Rightarrow> 'a heap_prim option) \<Rightarrow> scheme_object list \<Rightarrow> machine \<Rightarrow> 'a heap_prim option" where
  "apply_looping_primitive primitive args m =
    map_option (\<lambda>r. apply_primitive (\<lambda>_. r) args m) (primitive (call_frame args m))"

text \<open>C13: LIST->VECTOR returns for every list that ends. When collections are disabled, or the list is empty, or the heap has room for a header
  and the elements, the result is a new vector of the elements in order, placed at \<open>Free\<close>, or a type error when
  the last CDR is not the empty list. Otherwise the primitive asks for a garbage collection, after which it is
  called again. No existing object changes. The only hypotheses are that the stack has room for the argument and that addresses
  fit in an object.\<close>

theorem list_to_vector_correct:
  assumes "can_call 1 m" "list_segment (stack_pointer m) (Free m) (mem m) w xs t" "\<not> PAIR_P_heap t" "Free m + 1 + length xs \<le> 2 ^ 58"
  shows "\<exists>r m'. apply_looping_primitive Prim_list_to_vector [w] m = Some (r, m') \<and>
    (\<forall>a. stack_pointer m \<le> a \<longrightarrow> a < Free m \<longrightarrow> mem m' a = mem m a) \<and>
    (if GC_ENABLED_P m \<and> xs \<noteq> [] \<and> heap_alloc_limit m < Free m + 1 + length xs
     then r = Inl Prim_Interrupt \<and> int_code m' = int_code m OR INT_GC
     else if t = EMPTY_LIST then \<exists>v. r = Inr (Immediate v) \<and> heap_vector m' v xs \<and> OBJECT_ADDRESS v = Free m \<and>
       Free m' = Free m + 1 + length xs
     else r = Inl (Prim_Error (Wrong_Type 1)))"
proof (cases "GC_ENABLED_P m \<and> xs \<noteq> [] \<and> heap_alloc_limit m < Free m + 1 + length xs")
  case True
  define m0 where "m0 = call_frame [w] m"
  have l: "length [w] \<le> stack_pointer m" using assms(1) by (simp add: can_call_def)
  have "list_segment (stack_pointer m) (Free m) (mem m0) w xs t"
    using assms(2) by (rule list_segment_cong) (use l in \<open>simp_all add: m0_def\<close>)
  then have "\<exists>m'. list_words_loop w 0 (set_Free (Free m + 1) m0) = Some (Inl Prim_Interrupt, m') \<and>
      (\<forall>a < Free m. mem m' a = mem (set_Free (Free m + 1) m0) a) \<and> int_code m' = int_code (set_Free (Free m + 1) m0) OR INT_GC"
    using True assms(1,4) by (intro list_words_loop_gc) (simp_all add: m0_def can_call_def GC_ENABLED_P_def INTERRUPT_ENABLED_P_def)
  then obtain m' where m': "list_words_loop w 0 (set_Free (Free m + 1) m0) = Some (Inl Prim_Interrupt, m')"
      "\<forall>a < Free m. mem m' a = mem m0 a" "int_code m' = int_code m OR INT_GC" by (auto simp: m0_def)
  then have "Prim_list_to_vector m0 = Some (Inl Prim_Interrupt, m')"
    using l by (simp add: Prim_list_to_vector_def list_to_vector_def Let_def m0_def)
  then have "apply_looping_primitive Prim_list_to_vector [w] m = Some (Inl Prim_Interrupt, m')"
    by (simp add: apply_looping_primitive_def m0_def apply_primitive_def PRIMITIVE_APPLY_INTERNAL_def)
  then show ?thesis using True m'(2,3) l by (simp add: m0_def)
next
  case False
  define m0 where "m0 = call_frame [w] m"
  define m1 where "m1 = fold push_heap xs (set_Free (Free m + 1) m0)"
  define m2 where "m2 = store_word (Free m) (MAKE_OBJECT TC_MANIFEST_VECTOR (of_nat (length xs))) m1"
  have l: "length [w] \<le> stack_pointer m" and sp: "stack_pointer m \<le> Free m" using assms(1) by (simp_all add: can_call_def)
  have "list_segment (stack_pointer m) (Free m) (mem m0) w xs t"
    using assms(2) by (rule list_segment_cong) (use l in \<open>simp_all add: m0_def\<close>)
  moreover have "room_for_words (length xs) (set_Free (Free m + 1) m0)" if "xs \<noteq> []"
    using assms(1,4) False that by (auto simp: room_for_words_def m0_def can_call_def GC_ENABLED_P_def INTERRUPT_ENABLED_P_def)
  ultimately have p: "Prim_list_to_vector m0 = Some (if t = EMPTY_LIST
      then (Inr (Immediate (MAKE_POINTER_OBJECT TC_VECTOR (Free m))), m2) else (Inl (Prim_Error (Wrong_Type 1)), m1))"
    using list_to_vector_frame [of "stack_pointer m" m0 1 xs t TC_VECTOR] assms(3) l
    by (simp add: Prim_list_to_vector_def m0_def m1_def m2_def return_word_def wrong_type_def)
  have m1: "mem m1 a = (if Free m + 1 \<le> a \<and> a < Free m + 1 + length xs then xs ! (a - (Free m + 1)) else mem m a)"
    if "stack_pointer m \<le> a" for a using l that by (simp add: m1_def fold_push_heap_mem m0_def)
  have n: "length xs < 2 ^ 58" "Free m + 1 + length xs \<le> 2 ^ 58" using assms(4) by simp_all
  show ?thesis
  proof (cases "t = EMPTY_LIST")
    case True
    let ?v = "MAKE_POINTER_OBJECT TC_VECTOR (Free m)"
    have "\<exists>m'. apply_primitive (\<lambda>_. (Inr (Immediate ?v), m2)) [w] m = (Inr (Immediate ?v), m') \<and>
        heap_step m (\<lambda>a. if Free m \<le> a then Some (mem m2 a) else None) (Free m2) m'"
      using l by (intro apply_primitive_return) (simp_all add: m2_def m1, simp_all add: m1_def m0_def)
    then obtain m' where "apply_primitive (\<lambda>_. (Inr (Immediate ?v), m2)) [w] m = (Inr (Immediate ?v), m')"
      and h: "heap_step m (\<lambda>a. if Free m \<le> a then Some (mem m2 a) else None) (Free m2) m'" by blast
    moreover have f: "Free m1 = Free m + 1 + length xs" by (simp add: m1_def)
    moreover have "heap_vector m' ?v xs"
      using h n sp f by (auto simp: heap_vector_def heap_step_def VECTOR_P_def m2_def m1)
    ultimately show ?thesis
      using h p True n f False by (auto simp: m2_def apply_looping_primitive_def m0_def [symmetric] heap_step_def)
  next
    case nil: False
    then show ?thesis
      using p m1 False by (auto simp: apply_looping_primitive_def m0_def [symmetric] apply_primitive_def PRIMITIVE_APPLY_INTERNAL_def)
  qed
qed

text \<open>A list of two elements, in the example machine with the second pair of its list closed.\<close>

definition list_machine :: machine where
  "list_machine = demo_machine\<lparr>gc := demo_gc\<lparr>memory := demo_memory(104 := EMPTY_LIST)\<rparr>\<rparr>"

theorem list_to_vector_correct_witness:
  "can_call 1 list_machine \<and>
   (\<exists>v m'. apply_looping_primitive Prim_list_to_vector [MAKE_POINTER_OBJECT TC_LIST 100] list_machine = Some (Inr (Immediate v), m') \<and>
     heap_vector m' v [MAKE_OBJECT TC_FIXNUM 5, MAKE_OBJECT TC_FIXNUM 6] \<and> OBJECT_ADDRESS v = 107)"
proof -
  let ?w = "MAKE_POINTER_OBJECT TC_LIST 100" and ?xs = "[MAKE_OBJECT TC_FIXNUM 5, MAKE_OBJECT TC_FIXNUM 6]"
  have m: "mem list_machine = demo_memory(104 := EMPTY_LIST)" "Free list_machine = 107" "heap_start list_machine = 100" "stack_pointer list_machine = 10"
    "\<not> GC_ENABLED_P list_machine"
    by (simp_all add: list_machine_def GC_ENABLED_P_def INTERRUPT_ENABLED_P_def) (simp_all add: demo_machine_def demo_gc_def)
  have "can_call 1 list_machine" "\<not> PAIR_P_heap EMPTY_LIST" "list_segment (stack_pointer list_machine) (Free list_machine) (mem list_machine) ?w ?xs EMPTY_LIST"
    by (simp_all add: can_call_def m PAIR_P_heap_def EMPTY_LIST_def TC_LIST_def TC_CONSTANT_def demo_memory_def)
  with list_to_vector_correct [of list_machine ?w ?xs EMPTY_LIST] m(2,5) show ?thesis by auto
qed

lemma manifest_length: "n < 2 ^ 58 \<Longrightarrow> unat (OBJECT_DATUM (MAKE_OBJECT TC_MANIFEST_VECTOR (of_nat n))) = n"
proof -
  assume n: "n < 2 ^ 58"
  then have "(of_nat n :: ulong) < 2 ^ 58" by (simp add: word_less_nat_alt unat_of_nat)
  then show ?thesis using n by (simp add: unat_of_nat)
qed

lemma VECTOR_LENGTH_vector: "heap_vector m v xs \<Longrightarrow> VECTOR_LENGTH_heap v m = length xs"
  using manifest_length [of "length xs"] by (auto simp: heap_vector_def VECTOR_LENGTH_heap_def VECTOR_LENGTH_def)

lemma heap_vector_call_frame:
  assumes "heap_vector m v xs" "length args \<le> stack_pointer m"
  shows "VECTOR_P v" "VECTOR_LENGTH_heap v (call_frame args m) = length xs"
    "\<And>i. i < length xs \<Longrightarrow> mem (call_frame args m) (OBJECT_ADDRESS v + 1 + i) = xs ! i"
  using assms VECTOR_LENGTH_vector [OF assms(1)] by (simp_all add: heap_vector_def VECTOR_LENGTH_heap_def VECTOR_LENGTH_def)

lemma subvector_to_list_frame:
  assumes "heap_vector m v xs" "i \<le> j" "j \<le> length xs" "i = j \<or> room (2 * (j - i)) m" "lo \<le> Free m"
  shows "\<exists>w m'. subvector_to_list v i j m = (Inr w, m') \<and>
    list_segment lo (Free m + 2 * (j - i)) (mem m') w (take (j - i) (drop i xs)) EMPTY_LIST \<and>
    Free m' = Free m + 2 * (j - i) \<and> stack_pointer m' = stack_pointer m \<and> heap_start m' = heap_start m \<and>
    heap_alloc_limit m' = heap_alloc_limit m \<and> int_mask m' = int_mask m \<and> int_code m' = int_code m \<and>
    (\<forall>a < Free m. mem m' a = mem m a)"
proof (cases "i = j")
  case False
  then have room: "room (2 * (j - i)) m" using assms(4) by simp
  define n where "n = j - 1 - i"
  define scan where "scan = VECTOR_LOC v i"
  have n: "j - i = n + 1" "i + n + 1 = j" "scan + n < Free m"
    using assms False by (auto simp: n_def scan_def heap_vector_def VECTOR_LOC_def)
  have "map (mem m) [scan..<scan + n + 1] = take (j - i) (drop i xs)"
    using assms n by (intro nth_equalityI) (auto simp: heap_vector_def scan_def VECTOR_LOC_def add.assoc simp del: upt_Suc)
  moreover have "list_segment lo (Free m + 2 * (n + 1)) (mem (subvector_pairs scan (Free m) n m))
      (MAKE_POINTER_OBJECT TC_LIST (Free m)) (map (mem m) [scan..<scan + n + 1]) EMPTY_LIST"
    using assms(5) room n by (intro subvector_pairs_list) (simp_all add: room_def)
  moreover have "subvector_to_list v i j m = (Inr (MAKE_POINTER_OBJECT TC_LIST (Free m)), subvector_pairs scan (Free m) n m)"
    using False Primitive_GC_If_Needed_room [OF room] by (simp add: subvector_to_list_def n_def scan_def)
  ultimately show ?thesis
    using subvector_pairs_mem [of "Free m" m scan n] n by (simp del: upt_Suc)
qed (simp add: subvector_to_list_def)

text \<open>C14: SUBVECTOR->LIST with fixnum bounds returns a new list of the selected elements in order and changes no existing
  object; bounds that are negative, past the end of the vector or in the wrong order are range errors of
  that argument, whatever space there is. With good bounds that select something, and no room for the list, the primitive
  asks for a garbage collection of the words it needs.\<close>

theorem subvector_to_list_correct:
  assumes "can_call 3 m" "heap_vector m v xs" "fits_fixnum i" "fits_fixnum j" "Free m + 2 * length xs \<le> 2 ^ 58"
  shows "\<exists>r m'. apply_primitive Prim_subvector_to_list [v, LONG_TO_FIXNUM i, LONG_TO_FIXNUM j] m = (r, m') \<and>
    (\<forall>a. stack_pointer m \<le> a \<longrightarrow> a < Free m \<longrightarrow> mem m' a = mem m a) \<and>
    (if i < 0 \<or> (0 \<le> j \<and> j \<le> int (length xs) \<and> j < i) then r = Inl (Prim_Error (Bad_Range 2))
     else if j < 0 \<or> int (length xs) < j then r = Inl (Prim_Error (Bad_Range 3))
     else if i < j \<and> GC_NEEDED_P (2 * nat (j - i)) m then r = Inl Prim_Interrupt \<and> gc_requested m (2 * nat (j - i)) m'
     else \<exists>w. r = Inr (Immediate w) \<and> heap_list m' w (take (nat (j - i)) (drop (nat i) xs)))"
proof -
  let ?args = "[v, LONG_TO_FIXNUM i, LONG_TO_FIXNUM j]"
  define m0 where "m0 = call_frame ?args m"
  have l: "length ?args \<le> stack_pointer m" and sp: "stack_pointer m \<le> Free m" using assms(1) by (simp_all add: can_call_def)
  note hv = heap_vector_call_frame [OF assms(2) l, folded m0_def]
  have arg: "ARG_REF 1 m0 = v" "ARG_REF 2 m0 = LONG_TO_FIXNUM i" "ARG_REF 3 m0 = LONG_TO_FIXNUM j"
    using l by (simp_all add: m0_def)
  have p: "Prim_subvector_to_list m0 =
      (if i < 0 then bad_range 2 m0 else if j < 0 then bad_range 3 m0 else if j > int (length xs) then bad_range 3 m0
       else if i > j then bad_range 2 m0 else return_new (subvector_to_list v (nat i) (nat j) m0))"
    using ARG_nonnegative_fixnum [OF arg(2) assms(3)] ARG_nonnegative_fixnum [OF arg(3) assms(4)] hv arg
    by (simp add: Prim_subvector_to_list_def SUBVECTOR_TO_LIST_PRIMITIVE_def ARG_VECTOR_def ARG_of_type_def bad_range_def)
  have err: ?thesis if "Prim_subvector_to_list m0 = bad_range n m0"
      "n = (if i < 0 \<or> (0 \<le> j \<and> j \<le> int (length xs) \<and> j < i) then 2 else 3)"
      "i < 0 \<or> j < i \<or> j < 0 \<or> int (length xs) < j" for n
  proof -
    note p = that(1) [unfolded m0_def bad_range_def]
    obtain m' where "apply_primitive Prim_subvector_to_list ?args m = (Inl (Prim_Error (Bad_Range n)), m')"
      "\<forall>a \<ge> stack_pointer m. mem m' a = mem m a"
      using apply_primitive_error [of ?args m Prim_subvector_to_list, OF l p] by blast
    with that show ?thesis by (intro exI [of _ "Inl (Prim_Error (Bad_Range n))"] exI [of _ m']) auto
  qed
  consider (bad) "\<not> (0 \<le> i \<and> i \<le> j \<and> j \<le> int (length xs))"
    | (gc) "0 \<le> i" "i < j" "j \<le> int (length xs)" "GC_NEEDED_P (2 * nat (j - i)) m"
    | (good) "0 \<le> i \<and> i \<le> j \<and> j \<le> int (length xs)" "i = j \<or> \<not> GC_NEEDED_P (2 * nat (j - i)) m" by linarith
  then show ?thesis
  proof cases
    case bad
    then show ?thesis using p err [of 2] err [of 3] by (auto split: if_splits)
  next
    case gc
    have "2 * nat (j - i) \<le> 2 * length xs" using gc by linarith
    then have "Free m + 2 * nat (j - i) < 2 ^ 61" using assms(5) by simp
    moreover have "nat j - nat i = nat (j - i)" "nat i \<noteq> nat j" using gc by (simp_all add: nat_diff_distrib)
    ultimately have "Prim_subvector_to_list (call_frame ?args m) = Primitive_GC (2 * nat (j - i)) (call_frame ?args m)"
      using p gc assms(1)
      by (simp add: m0_def [symmetric] return_new_def subvector_to_list_def Primitive_GC_If_Needed_def Primitive_GC_def)
        (simp add: m0_def can_call_def)
    moreover have "can_call (length ?args) m" using assms(1) by (simp add: numeral_3_eq_3)
    ultimately obtain m' where
      "apply_primitive Prim_subvector_to_list ?args m = (Inl Prim_Interrupt, m')" "gc_requested m (2 * nat (j - i)) m'"
      using apply_primitive_gc [of ?args m Prim_subvector_to_list "2 * nat (j - i)"] by blast
    then show ?thesis using gc by (auto simp: gc_requested_def)
  next
    case good
    have "heap_vector m0 v xs" using assms(2) l hv by (auto simp: heap_vector_def m0_def)
    moreover have ji: "nat j - nat i = nat (j - i)" using good by (simp add: nat_diff_distrib)
    moreover have "Free m + 2 * nat (j - i) \<le> 2 ^ 58" using good(1) assms(5) by linarith
    then have "nat i \<le> nat j" "nat j \<le> length xs" "i = j \<or> room (2 * (nat j - nat i)) m0" "stack_pointer m \<le> Free m0"
      using good sp ji by (auto simp: m0_def room_def)
    ultimately obtain w m1 where s: "subvector_to_list v (nat i) (nat j) m0 = (Inr w, m1)"
      and ls: "list_segment (stack_pointer m) (Free m1) (mem m1) w (take (nat (j - i)) (drop (nat i) xs)) EMPTY_LIST"
      and reg: "Free m1 = Free m + 2 * nat (j - i)" "stack_pointer m1 = stack_pointer m0" "heap_start m1 = heap_start m"
        "heap_alloc_limit m1 = heap_alloc_limit m" "int_mask m1 = int_mask m" "int_code m1 = int_code m"
        "\<forall>a < Free m. mem m1 a = mem m0 a"
      using subvector_to_list_frame [of m0 v xs "nat i" "nat j" "stack_pointer m"] by (auto simp: m0_def)
    have "\<exists>m'. apply_primitive Prim_subvector_to_list ?args m = (Inr (Immediate w), m') \<and>
        heap_step m (\<lambda>a. if Free m \<le> a then Some (mem m1 a) else None) (Free m1) m'"
      using l p s reg good by (intro apply_primitive_return) (auto simp: m0_def return_new_def return_word_def)
    then obtain m' where a: "apply_primitive Prim_subvector_to_list ?args m = (Inr (Immediate w), m')"
      and h: "heap_step m (\<lambda>a. if Free m \<le> a then Some (mem m1 a) else None) (Free m1) m'" by blast
    have "heap_list m' w (take (nat (j - i)) (drop (nat i) xs))"
      unfolding heap_list_def using ls by (rule list_segment_cong) (use h reg l in \<open>auto simp: heap_step_def m0_def\<close>)
    with good a h show ?thesis by (auto simp: heap_step_def)
  qed
qed

theorem subvector_to_list_correct_witness:
  "heap_vector demo_machine (MAKE_POINTER_OBJECT TC_VECTOR 105) [MAKE_POINTER_OBJECT TC_LIST 103] \<and>
   (\<exists>w m'. apply_primitive Prim_subvector_to_list [MAKE_POINTER_OBJECT TC_VECTOR 105, LONG_TO_FIXNUM 0, LONG_TO_FIXNUM 1] demo_machine =
     (Inr (Immediate w), m') \<and> heap_list m' w [MAKE_POINTER_OBJECT TC_LIST 103])"
proof -
  have c: "can_call 3 demo_machine" using demo_can_call(1) by (simp add: can_call_def)
  have v: "heap_vector demo_machine (MAKE_POINTER_OBJECT TC_VECTOR 105) [MAKE_POINTER_OBJECT TC_LIST 103]"
    by (simp add: heap_vector_def demo_simps demo_memory_def VECTOR_P_def)
  have "\<not> GC_NEEDED_P 2 demo_machine" using demo_can_call(2) [of 2] by (simp add: room_def)
  then show ?thesis
    using subvector_to_list_correct [OF c v, of 0 1] v by (auto simp: fits_fixnum_iff demo_simps)
qed

subsection \<open>Moving and filling\<close>

lemma move_left_simps [simp]:
  "Free (move_left p q n m) = Free m" "heap_start (move_left p q n m) = heap_start m"
  "stack_pointer (move_left p q n m) = stack_pointer m" "heap_alloc_limit (move_left p q n m) = heap_alloc_limit m"
  "int_mask (move_left p q n m) = int_mask m" "int_code (move_left p q n m) = int_code m"
  by (induction p q n m rule: move_left.induct) simp_all

lemma move_right_simps [simp]:
  "Free (move_right p q n m) = Free m" "heap_start (move_right p q n m) = heap_start m"
  "stack_pointer (move_right p q n m) = stack_pointer m" "heap_alloc_limit (move_right p q n m) = heap_alloc_limit m"
  "int_mask (move_right p q n m) = int_mask m" "int_code (move_right p q n m) = int_code m"
  by (induction p q n m rule: move_right.induct) simp_all

lemma fill_words_simps [simp]:
  "Free (fill_words q n w m) = Free m" "heap_start (fill_words q n w m) = heap_start m"
  "stack_pointer (fill_words q n w m) = stack_pointer m" "heap_alloc_limit (fill_words q n w m) = heap_alloc_limit m"
  "int_mask (fill_words q n w m) = int_mask m" "int_code (fill_words q n w m) = int_code m"
  by (induction q n w m rule: fill_words.induct) simp_all

lemma fill_words_mem: "mem (fill_words q n w m) a = (if q \<le> a \<and> a < q + n then w else mem m a)"
  by (induction q n w m rule: fill_words.induct) auto

text \<open>A move from lower to higher addresses is a block move unless it overwrites words still to be read.\<close>

lemma move_left_mem:
  assumes "q \<le> p \<or> p + n \<le> q"
  shows "mem (move_left p q n m) a = (if q \<le> a \<and> a < q + n then mem m (p + (a - q)) else mem m a)"
  using assms
proof (induction n arbitrary: p q m)
  case (Suc n)
  then have "q + 1 \<le> p + 1 \<or> p + 1 + n \<le> q + 1" by auto
  moreover have "p + 1 + (a - (q + 1)) = p + (a - q)" if "q < a" using that by simp
  ultimately show ?case using Suc.IH [of "q + 1" "p + 1"] Suc.prems
    by (cases "a = q") (auto simp: Suc_le_eq)
qed auto

lemma move_right_mem:
  assumes "n \<le> p" "n \<le> q" "p \<le> q \<or> q \<le> p - n"
  shows "mem (move_right p q n m) a = (if q - n \<le> a \<and> a < q then mem m (p - (q - a)) else mem m a)"
  using assms
proof (induction n arbitrary: p q m)
  case (Suc n)
  then have *: "n \<le> p - 1" "n \<le> q - 1" "p - 1 \<le> q - 1 \<or> q - 1 \<le> p - 1 - n" by auto
  have "p - 1 - (q - 1 - a) = p - (q - a)" if "a < q - 1" using that Suc.prems by simp
  with Suc.IH [OF *] Suc.prems show ?case by (cases "a = q - 1") auto
qed auto

text \<open>The argument that SUBVECTOR-MOVE-LEFT! and SUBVECTOR-MOVE-RIGHT! reject, if any, for vectors of
  the lengths \<open>n1\<close> and \<open>n2\<close>.\<close>

definition move_error :: "int \<Rightarrow> int \<Rightarrow> nat \<Rightarrow> int \<Rightarrow> nat \<Rightarrow> nat option" where
  "move_error s1 e1 n1 s2 n2 =
    (if s1 < 0 then Some 2 else if e1 < 0 then Some 3 else if s2 < 0 then Some 5
     else if e1 > int n1 then Some 3 else if s1 > e1 then Some 2 else if s2 + (e1 - s1) > int n2 then Some 5 else None)"

lemma subvector_move_prefix_frame:
  assumes "ARG_REF 1 m = v1" "ARG_REF 2 m = LONG_TO_FIXNUM s1" "ARG_REF 3 m = LONG_TO_FIXNUM e1" "ARG_REF 4 m = v2"
    "ARG_REF 5 m = LONG_TO_FIXNUM s2" "VECTOR_P v1" "VECTOR_P v2" "fits_fixnum s1" "fits_fixnum e1" "fits_fixnum s2"
  shows "subvector_move_prefix body m =
    (case move_error s1 e1 (VECTOR_LENGTH_heap v1 m) s2 (VECTOR_LENGTH_heap v2 m) of Some k \<Rightarrow> bad_range k m
     | None \<Rightarrow> body v1 s1 e1 v2 s2 (s2 + (e1 - s1)) m)"
  using ARG_nonnegative_fixnum [OF assms(2,8)] ARG_nonnegative_fixnum [OF assms(3,9)] ARG_nonnegative_fixnum [OF assms(5,10)] assms
  by (auto simp: subvector_move_prefix_def ARG_VECTOR_def ARG_of_type_def bad_range_def move_error_def Let_def fits_fixnum_iff fits_long_def)


text \<open>\<open>moved m q n p m'\<close>: the \<open>n\<close> words at \<open>q\<close> are now what those at \<open>p\<close> were, and no other word has changed.\<close>

definition moved :: "machine \<Rightarrow> addr \<Rightarrow> nat \<Rightarrow> addr \<Rightarrow> machine \<Rightarrow> bool" where
  "moved m q n p m' \<longleftrightarrow>
    (\<forall>a \<ge> stack_pointer m. mem m' a = (if q \<le> a \<and> a < q + n then mem m (p + (a - q)) else mem m a)) \<and>
    Free m' = Free m \<and> stack_pointer m' = stack_pointer m"

lemma subvector_move_applied:
  assumes "can_call 5 m" "heap_vector m v1 xs" "heap_vector m v2 ys" "fits_fixnum s1" "fits_fixnum e1" "fits_fixnum s2"
    and body: "\<And>m0. move_error s1 e1 (length xs) s2 (length ys) = None \<Longrightarrow> \<exists>m1.
      body v1 s1 e1 v2 s2 (s2 + (e1 - s1)) m0 = (Inr (Immediate UNSPECIFIC), m1) \<and> Free m1 = Free m0 \<and>
      stack_pointer m1 = stack_pointer m0 \<and> heap_start m1 = heap_start m0 \<and> heap_alloc_limit m1 = heap_alloc_limit m0 \<and>
      int_mask m1 = int_mask m0 \<and> int_code m1 = int_code m0 \<and>
      (ok \<longrightarrow> (\<forall>a. mem m1 a =
        (if VECTOR_LOC v2 (nat s2) \<le> a \<and> a < VECTOR_LOC v2 (nat s2) + nat (e1 - s1)
         then mem m0 (VECTOR_LOC v1 (nat s1) + (a - VECTOR_LOC v2 (nat s2))) else mem m0 a)))"
  shows "\<exists>r m'. apply_primitive (subvector_move_prefix body) [v1, LONG_TO_FIXNUM s1, LONG_TO_FIXNUM e1, v2, LONG_TO_FIXNUM s2] m = (r, m') \<and>
    (case move_error s1 e1 (length xs) s2 (length ys) of
       Some k \<Rightarrow> r = Inl (Prim_Error (Bad_Range k)) \<and> Free m' = Free m \<and> (\<forall>a \<ge> stack_pointer m. mem m' a = mem m a)
     | None \<Rightarrow> r = Inr (Immediate UNSPECIFIC) \<and>
         (ok \<longrightarrow> moved m (VECTOR_LOC v2 (nat s2)) (nat (e1 - s1)) (VECTOR_LOC v1 (nat s1)) m'))"
proof -
  let ?args = "[v1, LONG_TO_FIXNUM s1, LONG_TO_FIXNUM e1, v2, LONG_TO_FIXNUM s2]"
  define m0 where "m0 = call_frame ?args m"
  have l: "length ?args \<le> stack_pointer m" using assms(1) by (simp add: can_call_def)
  have arg: "ARG_REF 1 m0 = v1" "ARG_REF 2 m0 = LONG_TO_FIXNUM s1" "ARG_REF 3 m0 = LONG_TO_FIXNUM e1" "ARG_REF 4 m0 = v2"
    "ARG_REF 5 m0 = LONG_TO_FIXNUM s2"
    using l by (simp_all add: m0_def)
  note hv1 = heap_vector_call_frame [OF assms(2) l, folded m0_def] and hv2 = heap_vector_call_frame [OF assms(3) l, folded m0_def]
  note p = subvector_move_prefix_frame [OF arg hv1(1) hv2(1) assms(4-6), of body, unfolded hv1(2) hv2(2)]
  show ?thesis
  proof (cases "move_error s1 e1 (length xs) s2 (length ys)")
    case (Some k)
    then have "subvector_move_prefix body (call_frame ?args m) = (Inl (Prim_Error (Bad_Range k)), call_frame ?args m)"
      using p by (simp add: bad_range_def m0_def)
    from apply_primitive_error [of ?args m "subvector_move_prefix body", OF l this] Some show ?thesis by auto
  next
    case None
    from body [OF None, of m0] obtain m1 where b: "subvector_move_prefix body m0 = (Inr (Immediate UNSPECIFIC), m1)"
      and reg: "Free m1 = Free m" "stack_pointer m1 = stack_pointer m0" "heap_start m1 = heap_start m"
        "heap_alloc_limit m1 = heap_alloc_limit m" "int_mask m1 = int_mask m" "int_code m1 = int_code m"
      and w: "ok \<longrightarrow> (\<forall>a. mem m1 a =
        (if VECTOR_LOC v2 (nat s2) \<le> a \<and> a < VECTOR_LOC v2 (nat s2) + nat (e1 - s1)
         then mem m0 (VECTOR_LOC v1 (nat s1) + (a - VECTOR_LOC v2 (nat s2))) else mem m0 a))"
      using None p by (auto simp: m0_def)
    have "\<exists>m'. apply_primitive (subvector_move_prefix body) ?args m = (Inr (Immediate UNSPECIFIC), m') \<and>
        heap_step m (\<lambda>a. Some (mem m1 a)) (Free m1) m'"
      using l b reg by (intro apply_primitive_return) (simp_all add: m0_def)
    then obtain m' where a: "apply_primitive (subvector_move_prefix body) ?args m = (Inr (Immediate UNSPECIFIC), m')"
      and h: "heap_step m (\<lambda>a. Some (mem m1 a)) (Free m1) m'" by blast
    have kept: "mem m0 a = mem m a" if "stack_pointer m \<le> a" for a using l that by (simp add: m0_def)
    have "stack_pointer m \<le> VECTOR_LOC v1 (nat s1) + k" for k
      using assms(2) by (simp add: heap_vector_def VECTOR_LOC_def)
    then have "ok \<longrightarrow> moved m (VECTOR_LOC v2 (nat s2)) (nat (e1 - s1)) (VECTOR_LOC v1 (nat s1)) m'"
      using w h reg kept by (auto simp: moved_def heap_step_def simp del: Nat.add_diff_assoc)
    then show ?thesis using None a by auto
  qed
qed

text \<open>C15: with fixnum bounds, SUBVECTOR-MOVE-LEFT! and SUBVECTOR-MOVE-RIGHT! check them and report the first bad one,
  with nothing changed; otherwise they copy the words of the first vector's section over those of the
  second's and change no other word, provided that the sections do not overlap in the wrong direction: the left move, which copies
  upwards, is correct when the target starts at or below the source or past its end, the right move, which copies
  downwards, when it starts at or above the source or ends before it. Bounds that are bignums are not covered: the sum that
  checks the last one can overflow.\<close>

theorem subvector_move_correct:
  assumes "can_call 5 m" "heap_vector m v1 xs" "heap_vector m v2 ys" "fits_fixnum s1" "fits_fixnum e1" "fits_fixnum s2"
  defines "p \<equiv> VECTOR_LOC v1 (nat s1)" and "q \<equiv> VECTOR_LOC v2 (nat s2)" and "n \<equiv> nat (e1 - s1)"
    and "args \<equiv> [v1, LONG_TO_FIXNUM s1, LONG_TO_FIXNUM e1, v2, LONG_TO_FIXNUM s2]"
    and "err \<equiv> move_error s1 e1 (length xs) s2 (length ys)"
  shows "\<forall>(primitive, ok) \<in> {(Prim_subvector_move_left, q \<le> p \<or> p + n \<le> q), (Prim_subvector_move_right, p \<le> q \<or> q + n \<le> p)}.
    \<exists>r m'. apply_primitive primitive args m = (r, m') \<and>
      (case err of
         Some k \<Rightarrow> r = Inl (Prim_Error (Bad_Range k)) \<and> Free m' = Free m \<and> (\<forall>a \<ge> stack_pointer m. mem m' a = mem m a)
       | None \<Rightarrow> r = Inr (Immediate UNSPECIFIC) \<and> (ok \<longrightarrow> moved m q n p m'))"
proof -
  have "\<exists>r m'. apply_primitive Prim_subvector_move_left args m = (r, m') \<and>
      (case err of
         Some k \<Rightarrow> r = Inl (Prim_Error (Bad_Range k)) \<and> Free m' = Free m \<and> (\<forall>a \<ge> stack_pointer m. mem m' a = mem m a)
       | None \<Rightarrow> r = Inr (Immediate UNSPECIFIC) \<and> (q \<le> p \<or> p + n \<le> q \<longrightarrow> moved m q n p m'))"
    unfolding p_def q_def n_def args_def err_def Prim_subvector_move_left_def
    using assms(1-6) by (intro subvector_move_applied) (auto simp: return_word_def move_left_mem)
  moreover have "\<exists>r m'. apply_primitive Prim_subvector_move_right args m = (r, m') \<and>
      (case err of
         Some k \<Rightarrow> r = Inl (Prim_Error (Bad_Range k)) \<and> Free m' = Free m \<and> (\<forall>a \<ge> stack_pointer m. mem m' a = mem m a)
       | None \<Rightarrow> r = Inr (Immediate UNSPECIFIC) \<and> (p \<le> q \<or> q + n \<le> p \<longrightarrow> moved m q n p m'))"
    unfolding p_def q_def n_def args_def err_def Prim_subvector_move_right_def
  proof (intro subvector_move_applied assms(1-6))
    fix m0
    assume "move_error s1 e1 (length xs) s2 (length ys) = None"
    then have "0 \<le> s1" "s1 \<le> e1" "0 \<le> s2" by (auto simp: move_error_def split: if_splits)
    define i j k where "i = nat s1" and "j = nat s2" and "k = nat (e1 - s1)"
    with \<open>0 \<le> s1\<close> \<open>s1 \<le> e1\<close> \<open>0 \<le> s2\<close> have k: "nat s1 = i" "nat e1 = i + k" "nat s2 = j" "nat (s2 + (e1 - s1)) = j + k" "nat (e1 - s1) = k"
      by (simp_all add: nat_diff_distrib nat_add_distrib)
    note mv = move_right_mem [of k "OBJECT_ADDRESS v1 + 1 + (i + k)" "OBJECT_ADDRESS v2 + 1 + (j + k)"]
    show "\<exists>m1. return_word UNSPECIFIC (move_right (VECTOR_LOC v1 (nat e1)) (VECTOR_LOC v2 (nat (s2 + (e1 - s1)))) (nat (e1 - s1)) m0) =
        (Inr (Immediate UNSPECIFIC), m1) \<and> Free m1 = Free m0 \<and>
      stack_pointer m1 = stack_pointer m0 \<and> heap_start m1 = heap_start m0 \<and> heap_alloc_limit m1 = heap_alloc_limit m0 \<and>
      int_mask m1 = int_mask m0 \<and> int_code m1 = int_code m0 \<and>
      (VECTOR_LOC v1 (nat s1) \<le> VECTOR_LOC v2 (nat s2) \<or> VECTOR_LOC v2 (nat s2) + nat (e1 - s1) \<le> VECTOR_LOC v1 (nat s1) \<longrightarrow>
        (\<forall>a. mem m1 a =
        (if VECTOR_LOC v2 (nat s2) \<le> a \<and> a < VECTOR_LOC v2 (nat s2) + nat (e1 - s1)
         then mem m0 (VECTOR_LOC v1 (nat s1) + (a - VECTOR_LOC v2 (nat s2))) else mem m0 a)))"
      unfolding k
      using mv by (auto simp: return_word_def VECTOR_LOC_def intro!: arg_cong [where f = "mem m0"])
  qed
  ultimately show ?thesis by simp
qed

lemma demo_vector: "heap_vector demo_machine (MAKE_POINTER_OBJECT TC_VECTOR 105) [MAKE_POINTER_OBJECT TC_LIST 103]"
  by (simp add: heap_vector_def demo_simps demo_memory_def VECTOR_P_def)

theorem subvector_move_correct_witness:
  "\<exists>m'. apply_primitive Prim_subvector_move_left
     [MAKE_POINTER_OBJECT TC_VECTOR 105, LONG_TO_FIXNUM 0, LONG_TO_FIXNUM 1, MAKE_POINTER_OBJECT TC_VECTOR 105, LONG_TO_FIXNUM 0] demo_machine =
     (Inr (Immediate UNSPECIFIC), m') \<and> moved demo_machine 106 1 106 m'"
  using subvector_move_correct [OF demo_can_call(1) demo_vector demo_vector, of 0 1 0]
  by (auto simp: fits_fixnum_iff move_error_def VECTOR_LOC_def)

subsection \<open>Vectors\<close>

lemma fill_heap_simps [simp]:
  "Free (fill_heap n w m) = Free m + n" "heap_start (fill_heap n w m) = heap_start m"
  "stack_pointer (fill_heap n w m) = stack_pointer m" "heap_alloc_limit (fill_heap n w m) = heap_alloc_limit m"
  "int_mask (fill_heap n w m) = int_mask m" "int_code (fill_heap n w m) = int_code m"
  by (induction n w m rule: fill_heap.induct) simp_all

lemma apply_primitive_frame:
  "apply_primitive primitive args m =
    heap_bind (primitive (call_frame args m)) (\<lambda>v m. (Inr v, POP_PRIMITIVE_FRAME (length args) (m\<lparr>Free_primitive := 0\<rparr>)))"
  by (simp add: apply_primitive_def PRIMITIVE_APPLY_INTERNAL_def call_frame_def heap_bind_def split: prod.splits sum.splits)

lemma vector_cons_applied:
  assumes "can_call 2 m" "fits_fixnum i" "0 \<le> i" "room (nat i + 1) m"
  shows "\<exists>u m'. apply_primitive Prim_vector_cons [LONG_TO_FIXNUM i, x] m = (Inr (Immediate u), m') \<and>
    heap_vector m' u (replicate (nat i) x) \<and> OBJECT_ADDRESS u = Free m \<and> (\<forall>a. stack_pointer m \<le> a \<longrightarrow> a < Free m \<longrightarrow> mem m' a = mem m a)"
proof -
  have l: "2 \<le> stack_pointer m" and sp: "stack_pointer m \<le> Free m" using assms(1) by (simp_all add: can_call_def)
  define m0 where "m0 = call_frame [LONG_TO_FIXNUM i, x] m"
  define m1 where "m1 = fill_heap (nat i) x (push_heap (MAKE_OBJECT TC_MANIFEST_VECTOR (of_nat (nat i))) m0)"
  define u where "u = MAKE_POINTER_OBJECT TC_VECTOR (Free m)"
  have "ARG_REF 1 m0 = LONG_TO_FIXNUM i" "ARG_REF 2 m0 = x" using l by (simp_all add: m0_def)
  then have "Prim_vector_cons m0 = (Inr (Immediate u), m1)"
    using ARG_nonnegative_fixnum [of 1 m0 i] assms(2-4) Primitive_GC_If_Needed_room [of "nat i + 1" m0]
    by (simp add: Prim_vector_cons_def make_vector_def make_marked_vector_def make_marked_vector_words_def return_new_def
        return_word_def m0_def m1_def u_def Let_def)
  then have "\<exists>m'. apply_primitive Prim_vector_cons [LONG_TO_FIXNUM i, x] m = (Inr (Immediate u), m') \<and>
      heap_step m (\<lambda>a. if Free m \<le> a then Some (mem m1 a) else None) (Free m1) m'"
    using l by (intro apply_primitive_return) (auto simp: m0_def m1_def fill_heap_mem)
  moreover have "mem m1 (Free m) = MAKE_OBJECT TC_MANIFEST_VECTOR (of_nat (nat i))"
    "\<And>k. k < nat i \<Longrightarrow> mem m1 (Free m + 1 + k) = x" "Free m1 = Free m + 1 + nat i"
    by (simp_all add: m1_def m0_def fill_heap_mem)
  ultimately show ?thesis
    using sp assms(4) by (auto simp: heap_step_def heap_vector_def u_def VECTOR_P_def room_def intro!: exI [of _ u])
qed

lemma vector_length_applied:
  assumes "can_call 1 m" "heap_vector m v xs"
  shows "\<exists>n m'. apply_primitive Prim_vector_length [v] m = (Inr n, m') \<and> int_wf n \<and> int_val n = int (length xs)"
proof -
  have "Prim_vector_length (call_frame [v] m) = return_integer (long_to_integer (int (length xs))) (call_frame [v] m)"
    using heap_vector_call_frame [OF assms(2), of "[v]"] assms(1)
    by (simp add: can_call_def Prim_vector_length_def VECTOR_LENGTH_PRIMITIVE_def ARG_VECTOR_def ARG_of_type_def)
  moreover have "fits_long (int (length xs))" using assms(2) by (auto simp: heap_vector_def fits_long_def)
  then have "returns_int (long_to_integer (int (length xs))) (int (length xs))" by (rule returns_long_to_integer)
  ultimately show ?thesis by (auto simp: apply_primitive_frame return_integer_def returns_int_def)
qed

lemma vector_ref_applied:
  assumes "can_call 2 m" "heap_vector m v xs" "fits_fixnum i"
  shows "\<exists>m'. apply_primitive Prim_vector_ref [v, LONG_TO_FIXNUM i] m =
    (if 0 \<le> i \<and> i < int (length xs) then Inr (Immediate (xs ! nat i)) else Inl (Prim_Error (Bad_Range 2)), m')"
  using heap_vector_call_frame [OF assms(2), of "[v, LONG_TO_FIXNUM i]"] assms
    ARG_index_fixnum [of 2 "call_frame [v, LONG_TO_FIXNUM i] m" i v]
  by (simp add: can_call_def apply_primitive_frame Prim_vector_ref_def VECTOR_REF_PRIMITIVE_def ARG_VECTOR_def ARG_of_type_def
      VECTOR_REF_def MEMORY_REF_def MEMORY_LOC_def return_word_def bad_range_def nat_less_iff)

lemma vector_set_applied:
  fixes x :: scheme_object
  assumes "can_call 3 m" "heap_vector m v xs" "fits_fixnum i"
  defines "args \<equiv> [v, LONG_TO_FIXNUM i, x]"
  shows "\<exists>m'. if 0 \<le> i \<and> i < int (length xs)
    then apply_primitive Prim_vector_set args m = (Inr (Immediate UNSPECIFIC), m') \<and>
      heap_vector m' v (xs[nat i := x]) \<and> heap_step m [VECTOR_LOC v (nat i) \<mapsto> x] (Free m) m'
    else apply_primitive Prim_vector_set args m = (Inl (Prim_Error (Bad_Range 2)), m')"
proof -
  have l: "length args \<le> stack_pointer m" using assms(1) by (simp add: can_call_def args_def)
  have s: "Prim_vector_set (call_frame args m) = (if 0 \<le> i \<and> i < int (length xs)
      then (Inr (Immediate UNSPECIFIC), store_word (VECTOR_LOC v (nat i)) x (call_frame args m))
      else (Inl (Prim_Error (Bad_Range 2)), call_frame args m))"
    using heap_vector_call_frame [OF assms(2) l] l ARG_index_fixnum [of 2 "call_frame args m" i v] assms(3)
    by (simp add: args_def Prim_vector_set_def VECTOR_SET_PRIMITIVE_def ARG_VECTOR_def ARG_of_type_def VECTOR_SET_def MEMORY_SET_def
        MEMORY_LOC_def return_word_def bad_range_def VECTOR_LOC_def Let_def)
  show ?thesis
  proof (cases "0 \<le> i \<and> i < int (length xs)")
    case True
    have "\<exists>m'. apply_primitive Prim_vector_set args m = (Inr (Immediate UNSPECIFIC), m') \<and>
        heap_step m [VECTOR_LOC v (nat i) \<mapsto> x] (Free (store_word (VECTOR_LOC v (nat i)) x (call_frame args m))) m'"
      using l s True by (intro apply_primitive_return) auto
    then obtain m' where a: "apply_primitive Prim_vector_set args m = (Inr (Immediate UNSPECIFIC), m')"
      and h: "heap_step m [VECTOR_LOC v (nat i) \<mapsto> x] (Free m) m'" by auto
    have "heap_vector m' v (xs[nat i := x])"
      using h assms(2) True by (auto simp: heap_vector_def heap_step_def VECTOR_LOC_def nth_list_update)
    with a h True show ?thesis by auto
  next
    case False
    then show ?thesis using s by (auto simp: apply_primitive_frame)
  qed
qed

text \<open>C16: VECTOR-CONS returns a new vector of the requested length with every element the fill value;
  VECTOR-LENGTH returns the length of a vector; VECTOR-REF and VECTOR-SET! read and replace exactly the element
  at an index in range, and report any other index. No other object changes.\<close>

theorem vector_primitives:
  assumes "can_call 3 m" "heap_vector m v xs" "fits_fixnum i"
  shows "(0 \<le> i \<and> room (nat i + 1) m \<longrightarrow> (\<exists>u m'. apply_primitive Prim_vector_cons [LONG_TO_FIXNUM i, x] m = (Inr (Immediate u), m') \<and>
        heap_vector m' u (replicate (nat i) x) \<and> OBJECT_ADDRESS u = Free m \<and> (\<forall>a. stack_pointer m \<le> a \<longrightarrow> a < Free m \<longrightarrow> mem m' a = mem m a)))
    \<and> (\<exists>n m'. apply_primitive Prim_vector_length [v] m = (Inr n, m') \<and> int_wf n \<and> int_val n = int (length xs))
    \<and> (\<exists>m'. apply_primitive Prim_vector_ref [v, LONG_TO_FIXNUM i] m =
        (if 0 \<le> i \<and> i < int (length xs) then Inr (Immediate (xs ! nat i)) else Inl (Prim_Error (Bad_Range 2)), m'))
    \<and> (\<exists>m'. if 0 \<le> i \<and> i < int (length xs)
        then apply_primitive Prim_vector_set [v, LONG_TO_FIXNUM i, x] m = (Inr (Immediate UNSPECIFIC), m') \<and>
          heap_vector m' v (xs[nat i := x]) \<and> heap_step m [VECTOR_LOC v (nat i) \<mapsto> x] (Free m) m'
        else apply_primitive Prim_vector_set [v, LONG_TO_FIXNUM i, x] m = (Inl (Prim_Error (Bad_Range 2)), m'))"
proof -
  have "can_call 1 m" "can_call 2 m" using assms(1) by (simp_all add: can_call_def)
  then show ?thesis
    using vector_cons_applied [OF _ assms(3), of m x] vector_length_applied [OF _ assms(2)] vector_ref_applied [OF _ assms(2,3)]
      vector_set_applied [OF assms, of x] by blast
qed

theorem vector_primitives_witness:
  "\<exists>m'. apply_primitive Prim_vector_ref [MAKE_POINTER_OBJECT TC_VECTOR 105, LONG_TO_FIXNUM 0] demo_machine =
     (Inr (Immediate (MAKE_POINTER_OBJECT TC_LIST 103)), m')"
proof -
  have "can_call 3 demo_machine" using demo_can_call(1) by (simp add: can_call_def)
  from vector_primitives [OF this demo_vector, of 0] show ?thesis by (auto simp: fits_fixnum_iff)
qed

end
