(* ===== verification/AVL_Tree.thy ===== *)
theory AVL_Tree
  imports Prelude "HOL-Library.List_Lexorder"
begin

text \<open>
  The AVL trees of avltree.c, which map names to table indices, and the case-insensitive
  comparison \<open>strcmp_ci\<close> of primutl.c that orders them.

  A \<open>tree_node\<close> pointer is a value of the datatype \<open>tree_node\<close>: every node has exactly
  one owner, so the assignments to fields build the changed node. A null pointer that is
  dereferenced is the result \<open>None\<close>. The static variables of the file and the state of
  \<open>malloc\<close> (how many more nodes it can supply) form the record \<open>tree_env\<close>. A C
  string is the list of its characters before the terminating null.
\<close>

subsection \<open>Case-insensitive comparison of names\<close>

definition toupper :: "nat \<Rightarrow> nat" where
  "toupper c = (if 97 \<le> c \<and> c \<le> 122 then c - 32 else c)"

fun strcmp_ci :: "string \<Rightarrow> string \<Rightarrow> int" where
  "strcmp_ci [] [] = 0"
| "strcmp_ci [] (_ # _) = -1"
| "strcmp_ci (_ # _) [] = 1"
| "strcmp_ci (c1 # p1) (c2 # p2) =
    (let c1 = toupper (of_char c1); c2 = toupper (of_char c2)
     in if c1 < c2 then -1 else if c1 > c2 then 1 else strcmp_ci p1 p2)"

text \<open>The reference definition: two names are compared by their upper-case spelling.\<close>

definition name_key :: "string \<Rightarrow> nat list" where
  "name_key s = List.map (\<lambda>c. toupper (of_char c)) s"

lemma strcmp_ci_eq:
  "strcmp_ci s t =
    (if name_key s = name_key t then 0 else if name_key s < name_key t then -1 else 1)"
  by (induction s t rule: strcmp_ci.induct) (auto simp: name_key_def Let_def)

subsection \<open>Trees\<close>

datatype tree_node =
    Null
  \<comment> \<open>height, left, rite, name, value\<close>
  | Node int tree_node tree_node string ulong

record tree_env =
  tree_error_message :: "string option"
  tree_error_noise :: "string option"
  bias :: nat
  nodes_left :: nat

definition tree_error :: "string \<Rightarrow> string option \<Rightarrow> tree_env \<Rightarrow> tree_env" where
  "tree_error message noise e =
    e\<lparr>tree_error_message := Some message, tree_error_noise := noise\<rparr>"

fun BRANCH_HEIGHT :: "tree_node \<Rightarrow> int" where
  "BRANCH_HEIGHT Null = 0"
| "BRANCH_HEIGHT (Node h _ _ _ _) = h"

fun update_height :: "tree_node \<Rightarrow> tree_node option" where
  "update_height Null = None"
| "update_height (Node _ l r n v) =
    Some (Node (1 + max (BRANCH_HEIGHT l) (BRANCH_HEIGHT r)) l r n v)"

definition leaf_make :: "string \<Rightarrow> ulong \<Rightarrow> tree_env \<Rightarrow> tree_node \<times> tree_env" where
  "leaf_make n v e =
    (if nodes_left e = 0
     then (Null, tree_error ''leaf_make: malloc failed.'' None e)
     else (Node 1 Null Null n v, e\<lparr>nodes_left := nodes_left e - 1\<rparr>))"

fun rotate_left :: "tree_node \<Rightarrow> tree_node option" where
  "rotate_left (Node h l (Node hr beta rr nr vr) n v) =
    do { tree \<leftarrow> update_height (Node h l beta n v);
         update_height (Node hr tree rr nr vr) }"
| "rotate_left _ = None"

fun rotate_rite :: "tree_node \<Rightarrow> tree_node option" where
  "rotate_rite (Node h (Node hl ll beta nl vl) r n v) =
    do { tree \<leftarrow> update_height (Node h beta r n v);
         update_height (Node hl ll tree nl vl) }"
| "rotate_rite _ = None"

fun rebalance_left :: "tree_node \<Rightarrow> tree_node option" where
  "rebalance_left (Node h l r n v) =
    (if 1 + BRANCH_HEIGHT r \<ge> BRANCH_HEIGHT l then update_height (Node h l r n v)
     else case l of
       Null \<Rightarrow> None
     | Node _ ql qr _ _ \<Rightarrow>
         do { l' \<leftarrow> (if BRANCH_HEIGHT qr > BRANCH_HEIGHT ql then rotate_left l else Some l);
              rotate_rite (Node h l' r n v) })"
| "rebalance_left Null = None"

fun rebalance_rite :: "tree_node \<Rightarrow> tree_node option" where
  "rebalance_rite (Node h l r n v) =
    (if 1 + BRANCH_HEIGHT l \<ge> BRANCH_HEIGHT r then update_height (Node h l r n v)
     else case r of
       Null \<Rightarrow> None
     | Node _ ql qr _ _ \<Rightarrow>
         do { r' \<leftarrow> (if BRANCH_HEIGHT ql > BRANCH_HEIGHT qr then rotate_rite r else Some r);
              rotate_left (Node h l r' n v) })"
| "rebalance_rite Null = None"

fun tree_insert ::
  "tree_node \<Rightarrow> string \<Rightarrow> ulong \<Rightarrow> tree_env \<Rightarrow> (tree_node \<times> tree_env) option"
where
  "tree_insert Null n v e = Some (leaf_make n v e)"
| "tree_insert (Node h l r n' v') n v e =
    (let c = strcmp_ci n n' in
     if c = 0 then
       Some (Node h l r n' v', tree_error ''tree_insert: Duplicate entry %s.'' (Some n) e)
     else if c = -1 then
       do { (l', e') \<leftarrow> tree_insert l n v e;
            t \<leftarrow> rebalance_left (Node h l' r n' v');
            Some (t, e') }
     else if c = 1 then
       do { (r', e') \<leftarrow> tree_insert r n v e;
            t \<leftarrow> rebalance_rite (Node h l r' n' v');
            Some (t, e') }
     else Some (Null, e))"

fun tree_lookup :: "tree_node \<Rightarrow> string \<Rightarrow> tree_node" where
  "tree_lookup Null _ = Null"
| "tree_lookup (Node h l r n' v') n =
    (let c = strcmp_ci n n' in
     if c = 0 then Node h l r n' v'
     else if c = -1 then tree_lookup l n
     else tree_lookup r n)"

function tree_build ::
  "nat \<Rightarrow> string list \<Rightarrow> ulong \<Rightarrow> tree_env \<Rightarrow> (tree_node \<times> tree_env) option"
where
  "tree_build high names v e =
    (if high > 1 then
       let even = (high mod 2 = 0);
           middle = (if even then high div 2 - bias e else high div 2);
           e = (if even then e\<lparr>bias := 1 - bias e\<rparr> else e);
           nxt = middle + 1
       in if middle \<ge> length names then None
          else case leaf_make (names ! middle) (v + of_nat middle) e of
            (Null, e) \<Rightarrow> None
          | (Node h _ _ n v', e) \<Rightarrow>
              do { (l, e) \<leftarrow> tree_build middle names v e;
                   (r, e) \<leftarrow> tree_build (high - nxt) (drop nxt names) (v + of_nat nxt) e;
                   t \<leftarrow> update_height (Node h l r n v');
                   Some (t, e) }
     else if high = 1 then
       (case names of [] \<Rightarrow> None | n # _ \<Rightarrow> Some (leaf_make n v e))
     else Some (Null, e))"
  by pat_completeness auto
termination
  by (relation "measure (\<lambda>(high, _, _, _). high)") auto
declare tree_build.simps [simp del]

primrec tree_free :: "tree_node \<Rightarrow> tree_env \<Rightarrow> tree_env" where
  "tree_free Null e = e"
| "tree_free (Node h l r n v) e =
    (let e = tree_free r (tree_free l e) in e\<lparr>nodes_left := nodes_left e + 1\<rparr>)"

subsection \<open>The invariant\<close>

fun avl :: "tree_node \<Rightarrow> bool" where
  "avl Null \<longleftrightarrow> True"
| "avl (Node h l r _ _) \<longleftrightarrow>
    avl l \<and> avl r \<and> \<bar>BRANCH_HEIGHT l - BRANCH_HEIGHT r\<bar> < 2 \<and>
    h = 1 + max (BRANCH_HEIGHT l) (BRANCH_HEIGHT r)"

primrec entries :: "tree_node \<Rightarrow> (string \<times> ulong) list" where
  "entries Null = []"
| "entries (Node h l r n v) = entries l @ (n, v) # entries r"

definition ordered :: "(string \<times> ulong) list \<Rightarrow> bool" where
  "ordered xs \<longleftrightarrow> sorted_wrt (<) (List.map (name_key \<circ> fst) xs)"

definition tree_wf :: "tree_node \<Rightarrow> bool" where
  "tree_wf t \<longleftrightarrow> avl t \<and> ordered (entries t)"

lemma avl_height_nonneg [simp]: "avl t \<Longrightarrow> 0 \<le> BRANCH_HEIGHT t"
  by (induction t) auto

lemma avl_height_zero: "avl t \<Longrightarrow> BRANCH_HEIGHT t = 0 \<longleftrightarrow> t = Null"
  by (cases t) (auto simp: max_def dest: avl_height_nonneg)

lemma avl_height_pos: "avl t \<Longrightarrow> 0 < BRANCH_HEIGHT t \<Longrightarrow> \<exists>h l r n v. t = Node h l r n v"
  by (cases t) auto

lemma rebalance_left_avl:
  assumes "avl l" "avl r" "BRANCH_HEIGHT r - 1 \<le> BRANCH_HEIGHT l" "BRANCH_HEIGHT l \<le> BRANCH_HEIGHT r + 2"
  shows "\<exists>t. rebalance_left (Node h l r n v) = Some t \<and> avl t \<and>
    entries t = entries (Node h l r n v) \<and>
    BRANCH_HEIGHT l \<le> BRANCH_HEIGHT t \<and>
    (BRANCH_HEIGHT l \<le> BRANCH_HEIGHT r + 1 \<longrightarrow> 1 + max (BRANCH_HEIGHT l) (BRANCH_HEIGHT r) \<le> BRANCH_HEIGHT t) \<and>
    BRANCH_HEIGHT t \<le> 1 + max (BRANCH_HEIGHT l) (BRANCH_HEIGHT r)"
proof (cases "1 + BRANCH_HEIGHT r \<ge> BRANCH_HEIGHT l")
  case True
  then show ?thesis using assms by (auto simp: max_def)
next
  case False
  note nn = avl_height_nonneg [OF assms(2)]
  with False obtain hq ql qr nq vq where l: "l = Node hq ql qr nq vq"
    by (cases l) auto
  show ?thesis
  proof (cases "BRANCH_HEIGHT qr > BRANCH_HEIGHT ql")
    case True
    have "0 \<le> BRANCH_HEIGHT ql" using assms(1) l by simp
    with True obtain h2 l2 r2 n2 v2 where "qr = Node h2 l2 r2 n2 v2"
      by (cases qr) auto
    then show ?thesis using assms False True nn unfolding l by (auto simp: max_def split: if_splits)
  next
    case F: False
    then show ?thesis using assms False nn unfolding l by (auto simp: max_def split: if_splits)
  qed
qed

lemma rebalance_rite_avl:
  assumes "avl l" "avl r" "BRANCH_HEIGHT l - 1 \<le> BRANCH_HEIGHT r" "BRANCH_HEIGHT r \<le> BRANCH_HEIGHT l + 2"
  shows "\<exists>t. rebalance_rite (Node h l r n v) = Some t \<and> avl t \<and>
    entries t = entries (Node h l r n v) \<and>
    BRANCH_HEIGHT r \<le> BRANCH_HEIGHT t \<and>
    (BRANCH_HEIGHT r \<le> BRANCH_HEIGHT l + 1 \<longrightarrow> 1 + max (BRANCH_HEIGHT r) (BRANCH_HEIGHT l) \<le> BRANCH_HEIGHT t) \<and>
    BRANCH_HEIGHT t \<le> 1 + max (BRANCH_HEIGHT r) (BRANCH_HEIGHT l)"
proof (cases "1 + BRANCH_HEIGHT l \<ge> BRANCH_HEIGHT r")
  case True
  then show ?thesis using assms by (auto simp: max_def)
next
  case False
  note nn = avl_height_nonneg [OF assms(1)]
  with False obtain hq ql qr nq vq where r: "r = Node hq ql qr nq vq"
    by (cases r) auto
  show ?thesis
  proof (cases "BRANCH_HEIGHT ql > BRANCH_HEIGHT qr")
    case True
    have "0 \<le> BRANCH_HEIGHT qr" using assms(2) r by simp
    with True obtain h2 l2 r2 n2 v2 where "ql = Node h2 l2 r2 n2 v2"
      by (cases ql) auto
    then show ?thesis using assms False True nn unfolding r by (auto simp: max_def split: if_splits)
  next
    case F: False
    then show ?thesis using assms False nn unfolding r by (auto simp: max_def split: if_splits)
  qed
qed

subsection \<open>Insertion and lookup\<close>

abbreviation keys :: "(string \<times> ulong) list \<Rightarrow> nat list list" where
  "keys xs \<equiv> List.map (name_key \<circ> fst) xs"

primrec ins_entry :: "string \<Rightarrow> ulong \<Rightarrow> (string \<times> ulong) list \<Rightarrow> (string \<times> ulong) list" where
  "ins_entry n v [] = [(n, v)]"
| "ins_entry n v (x # xs) =
    (if name_key n < name_key (fst x) then (n, v) # x # xs else x # ins_entry n v xs)"

definition entry_map :: "(string \<times> ulong) list \<Rightarrow> nat list \<Rightarrow> (string \<times> ulong) option" where
  "entry_map xs = map_of (List.map (\<lambda>(n, v). (name_key n, (n, v))) xs)"

lemma entry_map_simps [simp]:
  "entry_map [] k = None"
  "entry_map ((n, v) # xs) k = (if k = name_key n then Some (n, v) else entry_map xs k)"
  by (simp_all add: entry_map_def)

lemma entry_map_append: "entry_map (xs @ ys) k = (case entry_map xs k of None \<Rightarrow> entry_map ys k | r \<Rightarrow> r)"
  by (simp add: entry_map_def map_add_def split: option.splits)

lemma entry_map_None: "entry_map xs k = None \<longleftrightarrow> k \<notin> set (keys xs)"
  by (simp add: entry_map_def map_of_eq_None_iff image_image case_prod_beta)

lemma ordered_simps [simp]:
  "ordered []"
  "ordered (x # xs) \<longleftrightarrow> (\<forall>k \<in> set (keys xs). name_key (fst x) < k) \<and> ordered xs"
  by (simp_all add: ordered_def)

lemma ordered_append:
  "ordered (xs @ ys) \<longleftrightarrow>
    ordered xs \<and> ordered ys \<and> (\<forall>j \<in> set (keys xs). \<forall>k \<in> set (keys ys). j < k)"
  by (simp add: ordered_def sorted_wrt_append)

lemma keys_ins_entry: "set (keys (ins_entry n v xs)) = insert (name_key n) (set (keys xs))"
  by (induction xs) auto

lemma ins_entry_ordered:
  "ordered xs \<Longrightarrow> name_key n \<notin> set (keys xs) \<Longrightarrow> ordered (ins_entry n v xs)"
proof (induction xs)
  case (Cons x xs)
  then show ?case
    using keys_ins_entry [of n v xs] by (auto simp: not_less order.order_iff_strict)
qed simp

lemma ins_entry_append:
  "\<forall>k \<in> set (keys xs). k \<le> name_key n \<Longrightarrow> ins_entry n v (xs @ ys) = xs @ ins_entry n v ys"
  by (induction xs) (auto simp: not_less)

lemma ins_entry_append_left:
  "ys \<noteq> [] \<Longrightarrow> name_key n < name_key (fst (hd ys)) \<Longrightarrow>
    ins_entry n v (xs @ ys) = ins_entry n v xs @ ys"
  by (induction xs) (auto simp: neq_Nil_conv)

lemma entry_map_ins:
  "ordered xs \<Longrightarrow> name_key n \<notin> set (keys xs) \<Longrightarrow>
    entry_map (ins_entry n v xs) = (entry_map xs)(name_key n \<mapsto> (n, v))"
  by (induction xs) (auto simp: fun_eq_iff)

definition insert_env :: "(string \<times> ulong) list \<Rightarrow> string \<Rightarrow> tree_env \<Rightarrow> tree_env" where
  "insert_env xs n e =
    (if name_key n \<in> set (keys xs) then tree_error ''tree_insert: Duplicate entry %s.'' (Some n) e
     else snd (leaf_make n 0 e))"

definition insert_entries ::
  "(string \<times> ulong) list \<Rightarrow> string \<Rightarrow> ulong \<Rightarrow> tree_env \<Rightarrow> (string \<times> ulong) list"
where
  "insert_entries xs n v e =
    (if name_key n \<in> set (keys xs) \<or> nodes_left e = 0 then xs else ins_entry n v xs)"

lemma insert_left_of:
  assumes "name_key n < name_key n'" "ordered (xs @ (n', v') # ys)"
  shows "insert_entries (xs @ (n', v') # ys) n v e = insert_entries xs n v e @ (n', v') # ys"
    and "insert_env (xs @ (n', v') # ys) n e = insert_env xs n e"
proof -
  have "name_key n \<notin> set (keys ((n', v') # ys))"
    using assms by (auto simp: ordered_append)
  then show "insert_entries (xs @ (n', v') # ys) n v e = insert_entries xs n v e @ (n', v') # ys"
      and "insert_env (xs @ (n', v') # ys) n e = insert_env xs n e"
    using assms(1) by (auto simp: insert_entries_def insert_env_def ins_entry_append_left)
qed

lemma insert_rite_of:
  assumes "name_key n' < name_key n" "ordered (xs @ (n', v') # ys)"
  shows "insert_entries (xs @ (n', v') # ys) n v e = xs @ (n', v') # insert_entries ys n v e"
    and "insert_env (xs @ (n', v') # ys) n e = insert_env ys n e"
proof -
  have *: "\<forall>k \<in> set (keys (xs @ [(n', v')])). k < name_key n"
    using assms by (fastforce simp: ordered_append)
  then have "ins_entry n v ((xs @ [(n', v')]) @ ys) = (xs @ [(n', v')]) @ ins_entry n v ys"
    by (intro ins_entry_append) (auto simp: less_imp_le)
  then show "insert_entries (xs @ (n', v') # ys) n v e = xs @ (n', v') # insert_entries ys n v e"
      and "insert_env (xs @ (n', v') # ys) n e = insert_env ys n e"
    using * assms(1) by (auto simp: insert_entries_def insert_env_def)
qed

lemma tree_insert_spec:
  assumes "tree_wf t"
  shows "\<exists>t'. tree_insert t n v e = Some (t', insert_env (entries t) n e) \<and> avl t' \<and>
    entries t' = insert_entries (entries t) n v e \<and>
    BRANCH_HEIGHT t \<le> BRANCH_HEIGHT t' \<and> BRANCH_HEIGHT t' \<le> BRANCH_HEIGHT t + 1"
  using assms
proof (induction t)
  case Null
  then show ?case
    by (simp add: leaf_make_def insert_env_def insert_entries_def)
next
  case (Node h l r n' v')
  from Node.prems have wf: "avl l" "avl r" "tree_wf l" "tree_wf r"
      and ord: "ordered (entries l @ (n', v') # entries r)"
      and h: "\<bar>BRANCH_HEIGHT l - BRANCH_HEIGHT r\<bar> < 2" "h = 1 + max (BRANCH_HEIGHT l) (BRANCH_HEIGHT r)"
    by (auto simp: tree_wf_def ordered_append)
  consider "name_key n = name_key n'" | "name_key n < name_key n'" | "name_key n' < name_key n"
    by (rule linorder_cases)
  then show ?case
  proof cases
    case 1
    then show ?thesis using Node.prems
      by (simp add: strcmp_ci_eq insert_env_def insert_entries_def tree_wf_def)
  next
    case 2
    obtain l' where l': "tree_insert l n v e = Some (l', insert_env (entries l) n e)" "avl l'"
        "entries l' = insert_entries (entries l) n v e"
        "BRANCH_HEIGHT l \<le> BRANCH_HEIGHT l'" "BRANCH_HEIGHT l' \<le> BRANCH_HEIGHT l + 1"
      using Node.IH(1) [OF wf(3)] by blast
    have b: "BRANCH_HEIGHT r - 1 \<le> BRANCH_HEIGHT l'" "BRANCH_HEIGHT l' \<le> BRANCH_HEIGHT r + 2"
      using l'(4,5) h(1) by linarith+
    obtain t' where "rebalance_left (Node h l' r n' v') = Some t'" "avl t'"
        "entries t' = entries (Node h l' r n' v')"
        "BRANCH_HEIGHT l' \<le> BRANCH_HEIGHT t'"
        "BRANCH_HEIGHT l' \<le> BRANCH_HEIGHT r + 1 \<longrightarrow> 1 + max (BRANCH_HEIGHT l') (BRANCH_HEIGHT r) \<le> BRANCH_HEIGHT t'"
        "BRANCH_HEIGHT t' \<le> 1 + max (BRANCH_HEIGHT l') (BRANCH_HEIGHT r)"
      using rebalance_left_avl [OF l'(2) wf(2) b] by blast
    then show ?thesis using 2 l' h ord
      by (auto simp: strcmp_ci_eq insert_left_of max_def simp del: rebalance_left.simps split: if_splits)
  next
    case 3
    obtain r' where r': "tree_insert r n v e = Some (r', insert_env (entries r) n e)" "avl r'"
        "entries r' = insert_entries (entries r) n v e"
        "BRANCH_HEIGHT r \<le> BRANCH_HEIGHT r'" "BRANCH_HEIGHT r' \<le> BRANCH_HEIGHT r + 1"
      using Node.IH(2) [OF wf(4)] by blast
    have b: "BRANCH_HEIGHT l - 1 \<le> BRANCH_HEIGHT r'" "BRANCH_HEIGHT r' \<le> BRANCH_HEIGHT l + 2"
      using r'(4,5) h(1) by linarith+
    obtain t' where "rebalance_rite (Node h l r' n' v') = Some t'" "avl t'"
        "entries t' = entries (Node h l r' n' v')"
        "BRANCH_HEIGHT r' \<le> BRANCH_HEIGHT t'"
        "BRANCH_HEIGHT r' \<le> BRANCH_HEIGHT l + 1 \<longrightarrow> 1 + max (BRANCH_HEIGHT r') (BRANCH_HEIGHT l) \<le> BRANCH_HEIGHT t'"
        "BRANCH_HEIGHT t' \<le> 1 + max (BRANCH_HEIGHT r') (BRANCH_HEIGHT l)"
      using rebalance_rite_avl [OF wf(1) r'(2) b] by blast
    then show ?thesis using 3 r' h ord
      by (auto simp: strcmp_ci_eq insert_rite_of max_def simp del: rebalance_rite.simps split: if_splits)
  qed
qed

lemma insert_entries_ordered: "ordered xs \<Longrightarrow> ordered (insert_entries xs n v e)"
  by (simp add: insert_entries_def ins_entry_ordered)

definition node_entry :: "tree_node \<Rightarrow> (string \<times> ulong) option" where
  "node_entry t = (case t of Null \<Rightarrow> None | Node _ _ _ n v \<Rightarrow> Some (n, v))"

lemma node_entry_simps [simp]: "node_entry Null = None" "node_entry (Node h l r n v) = Some (n, v)"
  by (simp_all add: node_entry_def)

lemma tree_lookup_entry:
  "ordered (entries t) \<Longrightarrow> node_entry (tree_lookup t n) = entry_map (entries t) (name_key n)"
proof (induction t)
  case (Node h l r n' v')
  then have IH: "node_entry (tree_lookup l n) = entry_map (entries l) (name_key n)"
      "node_entry (tree_lookup r n) = entry_map (entries r) (name_key n)"
    by (auto simp: ordered_append)
  have l: "entry_map (entries l) (name_key n) = None" if "\<not> name_key n < name_key n'"
    using Node.prems that by (fastforce simp: entry_map_None ordered_append)
  have r: "entry_map (entries r) (name_key n) = None" if "\<not> name_key n' < name_key n"
    using Node.prems that by (fastforce simp: entry_map_None ordered_append)
  consider "name_key n = name_key n'" | "name_key n < name_key n'" | "name_key n' < name_key n"
    by (rule linorder_cases)
  then show ?case
    using IH l r by cases (auto simp: strcmp_ci_eq entry_map_append split: option.splits)
qed simp

subsection \<open>Building a tree from a table of names\<close>

fun least_height :: "nat \<Rightarrow> int" where
  "least_height n = (if n = 0 then 0 else 1 + least_height (n div 2))"
declare least_height.simps [simp del]

lemma least_height_0 [simp]: "least_height 0 = 0"
  and least_height_step: "0 < n \<Longrightarrow> least_height n = 1 + least_height (n div 2)"
  by (simp_all add: least_height.simps [of n] least_height.simps [of 0])

lemma least_height_Suc: "least_height n \<le> least_height (Suc n) \<and> least_height (Suc n) \<le> least_height n + 1"
proof (induction n rule: less_induct)
  case (less n)
  show ?case
  proof (cases "n = 0")
    case False
    show ?thesis
    proof (cases "even n")
      case True
      then have "Suc n div 2 = n div 2" by simp
      with False show ?thesis
        by (simp add: least_height_step [of n] least_height_step [of "Suc n"])
    next
      case odd: False
      then have "Suc n div 2 = Suc (n div 2)" by simp
      with False less [of "n div 2"] show ?thesis
        by (simp add: least_height_step [of n] least_height_step [of "Suc n"])
    qed
  qed (simp add: least_height_step)
qed

definition build_entries :: "nat \<Rightarrow> string list \<Rightarrow> ulong \<Rightarrow> (string \<times> ulong) list" where
  "build_entries high names v =
    zip (take high names) (List.map (\<lambda>i. v + of_nat i) [0..<high])"

lemma build_entries_split:
  assumes "middle < high" "high \<le> length names"
  shows "build_entries high names v =
    build_entries middle names v @ (names ! middle, v + of_nat middle) #
    build_entries (high - Suc middle) (drop (Suc middle) names) (v + of_nat (Suc middle))"
proof (rule nth_equalityI)
  fix i assume "i < length (build_entries high names v)"
  then have "i < high" using assms by (simp add: build_entries_def)
  then consider "i < middle" | "i = middle" | j where "i = Suc middle + j" "j < high - Suc middle"
    using assms by (metis add_diff_inverse_nat diff_less_mono linorder_less_linear not_less_eq Suc_leI)
  then show "build_entries high names v ! i =
      (build_entries middle names v @ (names ! middle, v + of_nat middle) #
      build_entries (high - Suc middle) (drop (Suc middle) names) (v + of_nat (Suc middle))) ! i"
    using assms by cases (auto simp: build_entries_def nth_append)
qed (use assms in \<open>simp add: build_entries_def\<close>)

definition build_env :: "nat \<Rightarrow> tree_env \<Rightarrow> tree_env \<Rightarrow> bool" where
  "build_env high e e' \<longleftrightarrow>
    bias e' \<le> 1 \<and> nodes_left e' = nodes_left e - high \<and>
    tree_error_message e' = tree_error_message e \<and> tree_error_noise e' = tree_error_noise e"

lemma tree_build_spec:
  assumes "bias e \<le> 1" "high \<le> length names" "high \<le> nodes_left e"
  shows "\<exists>t e'. tree_build high names v e = Some (t, e') \<and> build_env high e e' \<and>
    entries t = build_entries high names v \<and> avl t \<and> BRANCH_HEIGHT t = least_height high"
  using assms
proof (induction high arbitrary: names v e rule: less_induct)
  case (less high)
  show ?case
  proof (cases "high > 1")
    case False
    then consider "high = 0" | "high = 1" by linarith
    then show ?thesis using less.prems
      by cases (cases names; simp add: tree_build.simps build_env_def build_entries_def leaf_make_def least_height_step)+
  next
    case True
    define middle where "middle = (if even high then high div 2 - bias e else high div 2)"
    define e1 where "e1 = (if even high then e\<lparr>bias := 1 - bias e\<rparr> else e)"
    have e1: "bias e1 \<le> 1" "nodes_left e1 = nodes_left e"
        "tree_error_message e1 = tree_error_message e" "tree_error_noise e1 = tree_error_noise e"
      using less.prems(1) by (auto simp: e1_def)
    have mid: "middle < high" using True by (auto simp: middle_def)
    let ?e2 = "e1\<lparr>nodes_left := nodes_left e1 - 1\<rparr>"
    have p: "middle \<le> length names" "middle \<le> nodes_left ?e2" "bias ?e2 \<le> 1"
      using less.prems mid e1(1,2) by simp_all
    obtain l e3 where l: "tree_build middle names v ?e2 = Some (l, e3)" "build_env middle ?e2 e3"
        "entries l = build_entries middle names v" "avl l" "BRANCH_HEIGHT l = least_height middle"
      using less.IH [OF mid p(3,1,2)] by blast
    have q: "high - Suc middle < high" "bias e3 \<le> 1" "nodes_left e3 = nodes_left ?e2 - middle"
      using True l(2) by (simp_all add: build_env_def)
    have q2: "high - Suc middle \<le> length (drop (Suc middle) names)" "high - Suc middle \<le> nodes_left e3"
      using less.prems mid q(3) e1(2) by simp_all
    obtain r e4 where r: "tree_build (high - Suc middle) (drop (Suc middle) names)
          (v + of_nat (Suc middle)) e3 = Some (r, e4)" "build_env (high - Suc middle) e3 e4"
        "entries r = build_entries (high - Suc middle) (drop (Suc middle) names) (v + of_nat (Suc middle))"
        "avl r" "BRANCH_HEIGHT r = least_height (high - Suc middle)"
      using less.IH [OF q(1,2) q2] by blast
    have halves: "high div 2 = (high - 1) div 2 \<or> high div 2 = Suc ((high - 1) div 2)"
      using True by presburger
    then have bl: "least_height (high div 2) \<le> least_height ((high - 1) div 2) + 1"
        "least_height ((high - 1) div 2) \<le> least_height (high div 2)"
      using least_height_Suc [of "(high - 1) div 2"] by auto
    have mids: "middle = high div 2 \<and> high - Suc middle = (high - 1) div 2 \<or>
        middle = (high - 1) div 2 \<and> high - Suc middle = high div 2"
    proof (cases "even high \<and> bias e = 1")
      case True
      then show ?thesis using \<open>1 < high\<close> by (auto simp: middle_def elim!: evenE)
    next
      case False
      then have "middle = high div 2" using less.prems(1) by (auto simp: middle_def le_Suc_eq)
      then show ?thesis using True by presburger
    qed
    have env: "build_env high e e4"
      using l(2) r(2) e1 mid by (auto simp: build_env_def)
    have "tree_build high names v e =
        do { t \<leftarrow> update_height (Node 1 l r (names ! middle) (v + of_nat middle)); Some (t, e4) }"
      using True mid less.prems l(1) r(1) e1(2)
      by (cases "high mod 2 = 0")
        (auto simp: tree_build.simps [of high] Let_def leaf_make_def even_iff_mod_2_eq_zero middle_def e1_def)
    moreover have "max (BRANCH_HEIGHT l) (BRANCH_HEIGHT r) = least_height (high div 2)"
        "\<bar>BRANCH_HEIGHT l - BRANCH_HEIGHT r\<bar> < 2"
      using mids bl unfolding l(5) r(5) by (elim disjE conjE; simp)+
    moreover have "least_height high = 1 + least_height (high div 2)"
      using True by (simp add: least_height_step)
    ultimately show ?thesis
      using env l(3,4) r(3,4) by (simp add: build_entries_split [OF mid less.prems(2), of v])
  qed
qed

subsection \<open>Height and storage\<close>

lemma avl_height_bound: "avl t \<Longrightarrow> 2 ^ (nat (BRANCH_HEIGHT t) div 2) \<le> length (entries t) + 1"
proof (induction t rule: measure_induct_rule [where f = size])
  case (less t)
  show ?case
  proof (cases t)
    case (Node h l r n v)
    note avl = less.prems [unfolded Node]
    show ?thesis
    proof (cases "h < 2")
      case True
      have "nat h div 2 = 0" using True by simp
      then show ?thesis using Node by simp
    next
      case False
      define k where "k = nat h - 2"
      have h: "nat h div 2 = Suc (k div 2)" using False by (simp add: k_def nat_diff_distrib)
      have sub: "2 ^ (k div 2) \<le> length (entries s) + 1"
        if "avl s" "h - 2 \<le> BRANCH_HEIGHT s" "size s < size t" for s
      proof -
        have "k \<le> nat (BRANCH_HEIGHT s)" using that(2) by (simp add: k_def nat_diff_distrib nat_mono)
        then have "(2::nat) ^ (k div 2) \<le> 2 ^ (nat (BRANCH_HEIGHT s) div 2)"
          by (intro power_increasing div_le_mono) simp_all
        then show ?thesis using less.IH [OF that(3,1)] by linarith
      qed
      have "2 ^ (k div 2) \<le> length (entries l) + 1" "2 ^ (k div 2) \<le> length (entries r) + 1"
        using sub [of l] sub [of r] avl by (auto simp: Node)
      then show ?thesis by (simp add: Node h)
    qed
  qed simp
qed

lemma tree_free_env: "tree_free t e = e\<lparr>nodes_left := nodes_left e + length (entries t)\<rparr>"
  by (induction t arbitrary: e) simp_all

subsection \<open>The interface of a table of names\<close>

text \<open>
  What the users of the trees rely on: names that differ only in case are the same name, the
  first entry under a name stays, and adding an entry fails only for lack of storage.
\<close>

locale name_table =
  fixes inv :: "'s \<Rightarrow> bool"
    and find :: "'s \<Rightarrow> string \<Rightarrow> 'e option"
    and add :: "'s \<Rightarrow> string \<Rightarrow> 'v \<Rightarrow> 's option"
    and entry :: "string \<Rightarrow> 'v \<Rightarrow> 'e"
    and room :: "'s \<Rightarrow> nat"
  assumes find_ci: "inv s \<Longrightarrow> name_key m = name_key n \<Longrightarrow> find s m = find s n"
    and add_new: "inv s \<Longrightarrow> find s n = None \<Longrightarrow> 0 < room s \<Longrightarrow>
      \<exists>s'. add s n v = Some s' \<and> inv s' \<and> room s' = room s - 1 \<and>
        (\<forall>m. find s' m = (if name_key m = name_key n then Some (entry n v) else find s m))"
    and add_kept: "inv s \<Longrightarrow> find s n \<noteq> None \<or> room s = 0 \<Longrightarrow>
      \<exists>s'. add s n v = Some s' \<and> inv s' \<and> room s' = room s \<and> (\<forall>m. find s' m = find s m)"

primrec add_all :: "('s \<Rightarrow> 'k \<Rightarrow> 'v \<Rightarrow> 's option) \<Rightarrow> 's \<Rightarrow> ('k \<times> 'v) list \<Rightarrow> 's option" where
  "add_all f s [] = Some s"
| "add_all f s (x # xs) = do { s' \<leftarrow> f s (fst x) (snd x); add_all f s' xs }"

context name_table
begin

lemma add_total:
  assumes "inv s"
  shows "\<exists>s'. add s n v = Some s' \<and> inv s' \<and> room s - 1 \<le> room s' \<and>
    (\<forall>m. find s' m =
      (if find s n = None \<and> 0 < room s \<and> name_key m = name_key n then Some (entry n v)
       else find s m))"
proof (cases "find s n = None \<and> 0 < room s")
  case True
  then show ?thesis using add_new [OF assms, of n v] by auto
next
  case False
  then show ?thesis using add_kept [OF assms, of n v] by auto
qed

lemma add_all_find:
  assumes "inv s" "length xs \<le> room s"
  shows "\<exists>s'. add_all add s xs = Some s' \<and> inv s' \<and>
    (\<forall>m. find s' m = (case find s m of
        None \<Rightarrow> map_of (List.map (\<lambda>(n, v). (name_key n, entry n v)) xs) (name_key m)
      | Some e \<Rightarrow> Some e))"
  using assms
proof (induction xs arbitrary: s)
  case Nil
  then show ?case by (simp split: option.splits)
next
  case (Cons x xs)
  obtain n v where x: "x = (n, v)" by (cases x)
  obtain s1 where s1: "add s n v = Some s1" "inv s1" "room s - 1 \<le> room s1"
      "\<forall>m. find s1 m = (if find s n = None \<and> name_key m = name_key n then Some (entry n v) else find s m)"
    using add_total [OF Cons.prems(1), of n v] Cons.prems(2) by auto
  have len: "length xs \<le> room s1" using s1(3) Cons.prems(2) by simp
  obtain s2 where s2: "add_all add s1 xs = Some s2" "inv s2"
      "\<forall>m. find s2 m = (case find s1 m of
        None \<Rightarrow> map_of (List.map (\<lambda>(n, v). (name_key n, entry n v)) xs) (name_key m)
      | Some e \<Rightarrow> Some e)"
    using Cons.IH [OF s1(2) len] by blast
  have "find s2 m = (case find s m of
        None \<Rightarrow> map_of (List.map (\<lambda>(n, v). (name_key n, entry n v)) (x # xs)) (name_key m)
      | Some e \<Rightarrow> Some e)" for m
  proof (cases "name_key m = name_key n")
    case True
    show ?thesis
      using find_ci [OF Cons.prems(1) True] s1(4) s2(3) True by (cases "find s n") (simp_all add: x)
  next
    case False
    then have "find s1 m = find s m" using s1(4) by simp
    then show ?thesis using s2(3) False by (cases "find s m") (simp_all add: x)
  qed
  with s1(1) s2(1,2) show ?case by (simp add: x)
qed

end

definition table_find :: "tree_node \<times> tree_env \<Rightarrow> string \<Rightarrow> (string \<times> ulong) option" where
  "table_find s n = node_entry (tree_lookup (fst s) n)"

definition table_add ::
  "tree_node \<times> tree_env \<Rightarrow> string \<Rightarrow> ulong \<Rightarrow> (tree_node \<times> tree_env) option"
where
  "table_add s n v = tree_insert (fst s) n v (snd s)"

lemma table_find_entries: "tree_wf (fst s) \<Longrightarrow> table_find s n = entry_map (entries (fst s)) (name_key n)"
  by (simp add: table_find_def tree_wf_def tree_lookup_entry)

lemma tree_insert_wf:
  assumes "tree_wf t"
  obtains t' where "tree_insert t n v e = Some (t', insert_env (entries t) n e)" "tree_wf t'"
    "entries t' = insert_entries (entries t) n v e"
  using tree_insert_spec [OF assms, of n v e] assms
  by (auto simp: tree_wf_def insert_entries_ordered)

interpretation names: name_table "\<lambda>s. tree_wf (fst s)" table_find table_add Pair
  "\<lambda>s. nodes_left (snd s)"
proof
  fix s :: "tree_node \<times> tree_env" and n and v :: ulong
  assume wf: "tree_wf (fst s)"
  obtain t' where t': "tree_insert (fst s) n v (snd s) = Some (t', insert_env (entries (fst s)) n (snd s))"
      "tree_wf t'" "entries t' = insert_entries (entries (fst s)) n v (snd s)"
    using tree_insert_wf [OF wf] .
  {
    assume "table_find s n = None" "0 < nodes_left (snd s)"
    then have "name_key n \<notin> set (keys (entries (fst s)))"
      by (simp add: table_find_entries [OF wf] entry_map_None)
    with t' wf \<open>0 < _\<close> show "\<exists>s'. table_add s n v = Some s' \<and> tree_wf (fst s') \<and>
        nodes_left (snd s') = nodes_left (snd s) - 1 \<and>
        (\<forall>m. table_find s' m = (if name_key m = name_key n then Some (n, v) else table_find s m))"
      by (auto simp: table_add_def table_find_entries insert_entries_def insert_env_def leaf_make_def
          tree_wf_def entry_map_ins)
  next
    assume "table_find s n \<noteq> None \<or> nodes_left (snd s) = 0"
    then have "name_key n \<in> set (keys (entries (fst s))) \<or> nodes_left (snd s) = 0"
      unfolding table_find_entries [OF wf] entry_map_None by simp
    with t' wf show "\<exists>s'. table_add s n v = Some s' \<and> tree_wf (fst s') \<and>
        nodes_left (snd s') = nodes_left (snd s) \<and> (\<forall>m. table_find s' m = table_find s m)"
      by (auto simp: table_add_def table_find_entries insert_entries_def insert_env_def leaf_make_def
          tree_error_def)
  }
qed (simp add: table_find_entries)

lemma build_sorted:
  assumes "bias e \<le> 1" "length names \<le> nodes_left e"
    and sorted: "sorted_wrt (\<lambda>m n. strcmp_ci m n = -1) names"
  shows "\<exists>t e'. tree_build (length names) names v e = Some (t, e') \<and> tree_wf t \<and>
    BRANCH_HEIGHT t = least_height (length names) \<and>
    (\<forall>i < length names. node_entry (tree_lookup t (names ! i)) = Some (names ! i, v + of_nat i)) \<and>
    (\<forall>m. (\<forall>n \<in> set names. strcmp_ci m n \<noteq> 0) \<longrightarrow> tree_lookup t m = Null) \<and>
    tree_error_message e' = tree_error_message e \<and> bias e' \<le> 1 \<and>
    nodes_left e' + length names = nodes_left e"
proof -
  obtain t e' where t: "tree_build (length names) names v e = Some (t, e')" "build_env (length names) e e'"
      "entries t = build_entries (length names) names v" "avl t" "BRANCH_HEIGHT t = least_height (length names)"
    using tree_build_spec [OF assms(1) _ assms(2), of names v] by auto
  have keys: "keys (entries t) = List.map name_key names"
    by (rule nth_equalityI) (simp_all add: t(3) build_entries_def)
  have srt: "sorted_wrt (<) (List.map name_key names)"
    using sorted by (auto simp: sorted_wrt_map strcmp_ci_eq elim!: sorted_wrt_mono_rel [rotated] split: if_splits)
  then have wf: "tree_wf t" using t(4) by (simp add: tree_wf_def ordered_def keys)
  have "node_entry (tree_lookup t (names ! i)) = Some (names ! i, v + of_nat i)" if "i < length names" for i
  proof -
    have "distinct (List.map fst (List.map (\<lambda>(n, v). (name_key n, (n, v))) (entries t)))"
      using srt keys by (simp add: comp_def case_prod_beta strict_sorted_iff)
    moreover have "(names ! i, v + of_nat i) \<in> set (entries t)"
      using that by (force simp: t(3) build_entries_def set_zip)
    ultimately show ?thesis
      using wf by (force simp: tree_wf_def tree_lookup_entry entry_map_def intro!: map_of_is_SomeI)
  qed
  moreover have "tree_lookup t m = Null" if "\<forall>n \<in> set names. strcmp_ci m n \<noteq> 0" for m
  proof -
    have "name_key m \<notin> set (keys (entries t))" using that by (auto simp: keys strcmp_ci_eq)
    then have "node_entry (tree_lookup t m) = None"
      using wf entry_map_None by (simp add: tree_wf_def tree_lookup_entry)
    then show ?thesis by (simp add: node_entry_def split: tree_node.splits)
  qed
  ultimately show ?thesis using t(1,2,5) wf assms(2) by (auto simp: build_env_def)
qed

subsection \<open>Properties\<close>

text \<open>C29: Inserting a name never dereferences a null pointer and keeps the tree a search tree
  ordered by the case-insensitive comparison whose stored heights are right and differ by less
  than two at every node, so its height is at most twice the binary logarithm of the number of
  names. When the name is new and storage is left, looking up any spelling of it finds the new
  entry and every other lookup is unchanged. When it is present, or when \<open>malloc\<close> fails, every
  lookup is unchanged and the error is recorded.\<close>
theorem tree_insert_correct:
  assumes "tree_wf t"
  shows "\<exists>t' e'. tree_insert t n v e = Some (t', e') \<and> tree_wf t' \<and>
    2 ^ (nat (BRANCH_HEIGHT t') div 2) \<le> length (entries t') + 1 \<and>
    (\<forall>m. node_entry (tree_lookup t' m) =
      (if node_entry (tree_lookup t n) = None \<and> nodes_left e \<noteq> 0 \<and> strcmp_ci m n = 0
       then Some (n, v) else node_entry (tree_lookup t m))) \<and>
    e' = (if node_entry (tree_lookup t n) \<noteq> None
          then tree_error ''tree_insert: Duplicate entry %s.'' (Some n) e
          else if nodes_left e = 0 then tree_error ''leaf_make: malloc failed.'' None e
          else e\<lparr>nodes_left := nodes_left e - 1\<rparr>)"
proof -
  obtain t' where t': "tree_insert t n v e = Some (t', insert_env (entries t) n e)" "tree_wf t'"
    using tree_insert_wf [OF assms] .
  obtain s' where "table_add (t, e) n v = Some s'"
      "\<forall>m. table_find s' m = (if table_find (t, e) n = None \<and> 0 < nodes_left e \<and> name_key m = name_key n
        then Some (n, v) else table_find (t, e) m)"
    using names.add_total [of "(t, e)" n v] assms by auto
  moreover have "node_entry (tree_lookup t n) = None \<longleftrightarrow> name_key n \<notin> set (keys (entries t))"
    using assms tree_lookup_entry [of t n] entry_map_None by (simp add: tree_wf_def)
  then have "insert_env (entries t) n e = (if node_entry (tree_lookup t n) \<noteq> None
          then tree_error ''tree_insert: Duplicate entry %s.'' (Some n) e
          else if nodes_left e = 0 then tree_error ''leaf_make: malloc failed.'' None e
          else e\<lparr>nodes_left := nodes_left e - 1\<rparr>)"
    by (simp add: insert_env_def leaf_make_def)
  moreover have "strcmp_ci m n = 0 \<longleftrightarrow> name_key m = name_key n" for m
    by (simp add: strcmp_ci_eq)
  ultimately show ?thesis
    using t' avl_height_bound [of t']
    by (intro exI [of _ t'] exI [of _ "insert_env (entries t) n e"])
      (auto simp: table_add_def table_find_def tree_wf_def simp del: not_None_eq)
qed

theorem tree_insert_correct_witness:
  "tree_wf (Node 2 Null (Node 1 Null Null ''CDR'' 1) ''CAR'' 0) \<and>
   (\<exists>t' e'. tree_insert (Node 2 Null (Node 1 Null Null ''CDR'' 1) ''CAR'' 0) ''cons'' 2
        \<lparr>tree_error_message = None, tree_error_noise = None, bias = 0, nodes_left = 5\<rparr> = Some (t', e') \<and>
      node_entry (tree_lookup t' ''Cons'') = Some (''cons'', 2) \<and> nodes_left e' = 4)"
proof -
  have wf: "tree_wf (Node 2 Null (Node 1 Null Null ''CDR'' 1) ''CAR'' 0)"
    by (simp add: tree_wf_def name_key_def toupper_def)
  show ?thesis
    using wf tree_insert_correct [OF wf, of "''cons''" 2
        "\<lparr>tree_error_message = None, tree_error_noise = None, bias = 0, nodes_left = 5\<rparr>"]
    by (auto simp: strcmp_ci_eq name_key_def toupper_def)
qed

text \<open>C30: \<open>tree_build\<close> on a table of names sorted by the case-insensitive comparison
  terminates with a well-formed tree, for either value of its static bias, whose height is the
  least possible for that many names; looking up the name at index \<open>i\<close> finds the value
  \<open>value + i\<close>, a name that is not in the table is not found, and no error is recorded.\<close>
theorem tree_build_correct:
  assumes "bias e \<le> 1" "length names \<le> nodes_left e"
    and sorted: "sorted_wrt (\<lambda>m n. strcmp_ci m n = -1) names"
  shows "\<exists>t e'. tree_build (length names) names v e = Some (t, e') \<and> tree_wf t \<and>
    BRANCH_HEIGHT t = least_height (length names) \<and>
    (\<forall>i < length names. node_entry (tree_lookup t (names ! i)) = Some (names ! i, v + of_nat i)) \<and>
    (\<forall>m. (\<forall>n \<in> set names. strcmp_ci m n \<noteq> 0) \<longrightarrow> tree_lookup t m = Null) \<and>
    tree_error_message e' = tree_error_message e \<and> bias e' \<le> 1 \<and>
    nodes_left e' + length names = nodes_left e"
  using build_sorted [OF assms] .

theorem tree_build_correct_witness:
  "\<exists>t e'. tree_build 3 [''CAR'', ''cdr'', ''CONS''] 10
        \<lparr>tree_error_message = None, tree_error_noise = None, bias = 1, nodes_left = 3\<rparr> = Some (t, e') \<and>
      BRANCH_HEIGHT t = 2 \<and> node_entry (tree_lookup t ''cdr'') = Some (''cdr'', 11) \<and>
      tree_lookup t ''EQ?'' = Null"
proof -
  let ?e = "\<lparr>tree_error_message = None, tree_error_noise = None, bias = 1, nodes_left = 3\<rparr>"
  let ?names = "[''CAR'', ''cdr'', ''CONS'']"
  have b: "least_height (length ?names) = 2" by (simp add: least_height_step)
  have p: "bias ?e \<le> 1" "length ?names \<le> nodes_left ?e" "sorted_wrt (\<lambda>m n. strcmp_ci m n = -1) ?names"
    by (simp_all add: toupper_def)
  obtain t e' where t: "tree_build (length ?names) ?names 10 ?e = Some (t, e')"
      "BRANCH_HEIGHT t = least_height (length ?names)"
      "\<forall>i < length ?names. node_entry (tree_lookup t (?names ! i)) = Some (?names ! i, 10 + of_nat i)"
      "\<forall>m. (\<forall>n \<in> set ?names. strcmp_ci m n \<noteq> 0) \<longrightarrow> tree_lookup t m = Null"
    using tree_build_correct [OF p, of 10] by blast
  from t(3) have "node_entry (tree_lookup t ''cdr'') = Some (''cdr'', 11)"
    by (auto dest: spec [where x = 1])
  moreover from t(4) have "tree_lookup t ''EQ?'' = Null"
    by (auto simp: toupper_def)
  ultimately show ?thesis using t(1,2) b by (auto simp: numeral_3_eq_3)
qed

end
