(* ===== verification/Primitive_Table.thy ===== *)
theory Primitive_Table
  imports AVL_Tree Object Radix
begin

text \<open>
  The tables of primitives of primutl.c: the map from names to primitive objects, the tables
  indexed by primitive number, the declaration of new primitives and the renumbering and
  table formats that fasdump and fasload use.

  The five tables are lists whose cells are \<open>None\<close> until they are written; an access past
  the end of a table, or to a cell that was never written, is the result \<open>None\<close> (for the name
  table an unwritten cell is the null pointer that \<open>make_table_entry\<close> tests for). A primitive
  procedure is \<open>Prim_unimplemented\<close> or some other code address. The static tables that
  findprim generates and the list of aliases are arguments.
\<close>

datatype primitive_procedure = Prim_unimplemented | Prim_code nat

record prims =
  MAX_PRIMITIVE :: nat
  prim_table_size :: nat
  Primitive_Procedure_Table :: "primitive_procedure option list"
  Primitive_Arity_Table :: "int option list"
  Primitive_Count_Table :: "int option list"
  Primitive_Name_Table :: "string option list"
  Primitive_Documentation_Table :: "string option option list"
  prim_procedure_tree :: tree_node
  tree_globals :: tree_env

record static_prims =
  Static_Primitive_Procedure_Table :: "primitive_procedure list"
  Static_Primitive_Arity_Table :: "int list"
  Static_Primitive_Count_Table :: "int list"
  Static_Primitive_Name_Table :: "string list"
  Static_Primitive_Documentation_Table :: "string option list"

definition TC_PRIMITIVE :: ulong where "TC_PRIMITIVE = 0x18"
definition TC_CHARACTER_STRING :: ulong where "TC_CHARACTER_STRING = 0x1E"
definition UNKNOWN_PRIMITIVE_ARITY :: int where "UNKNOWN_PRIMITIVE_ARITY = -2"

definition fetch :: "'a option list \<Rightarrow> nat \<Rightarrow> 'a option" where
  "fetch t i = (if i < length t then t ! i else None)"

definition store :: "'a option list \<Rightarrow> nat \<Rightarrow> 'a \<Rightarrow> 'a option list option" where
  "store t i x = (if i < length t then Some (t[i := Some x]) else None)"

definition MAKE_PRIMITIVE_OBJECT :: "ulong \<Rightarrow> scheme_object" where
  "MAKE_PRIMITIVE_OBJECT index = MAKE_OBJECT TC_PRIMITIVE index"

definition PRIMITIVE_NUMBER :: "scheme_object \<Rightarrow> ulong" where
  "PRIMITIVE_NUMBER primitive = OBJECT_DATUM primitive"

definition PRIMITIVE_P :: "scheme_object \<Rightarrow> bool" where
  "PRIMITIVE_P object \<longleftrightarrow> OBJECT_TYPE object = TC_PRIMITIVE"

definition IMPLEMENTED_PRIMITIVE_P :: "scheme_object \<Rightarrow> prims \<Rightarrow> bool option" where
  "IMPLEMENTED_PRIMITIVE_P prim s =
    do { code \<leftarrow> fetch (Primitive_Procedure_Table s) (unat (PRIMITIVE_NUMBER prim));
         Some (code \<noteq> Prim_unimplemented) }"

definition PRIMITIVE_ARITY :: "scheme_object \<Rightarrow> prims \<Rightarrow> int option" where
  "PRIMITIVE_ARITY prim s = fetch (Primitive_Arity_Table s) (unat (PRIMITIVE_NUMBER prim))"

subsection \<open>Growing and initializing the tables\<close>

definition COPY_TABLE :: "'a option list \<Rightarrow> 'a list \<Rightarrow> nat \<Rightarrow> 'a option list option" where
  "COPY_TABLE table static_table new_size =
    (if table = [] then
       if length static_table \<le> new_size
       then Some (List.map Some static_table @ replicate (new_size - length static_table) None)
       else None
     else Some (take new_size table @ replicate (new_size - length table) None))"

definition grow_primitive_tables :: "static_prims \<Rightarrow> prims \<Rightarrow> prims option" where
  "grow_primitive_tables st s =
    (let new_size = MAX_PRIMITIVE s + MAX_PRIMITIVE s div 10 in
     do { arity \<leftarrow> COPY_TABLE (Primitive_Arity_Table s) (Static_Primitive_Arity_Table st) new_size;
          count \<leftarrow> COPY_TABLE (Primitive_Count_Table s) (Static_Primitive_Count_Table st) new_size;
          names \<leftarrow> COPY_TABLE (Primitive_Name_Table s) (Static_Primitive_Name_Table st) new_size;
          docs \<leftarrow> COPY_TABLE (Primitive_Documentation_Table s)
                    (Static_Primitive_Documentation_Table st) new_size;
          procs \<leftarrow> COPY_TABLE (Primitive_Procedure_Table s)
                    (Static_Primitive_Procedure_Table st) new_size;
          Some (s\<lparr>Primitive_Arity_Table := arity, Primitive_Count_Table := count,
                  Primitive_Name_Table := names, Primitive_Documentation_Table := docs,
                  Primitive_Procedure_Table := procs, prim_table_size := new_size\<rparr>) })"

subsection \<open>Declaring primitives\<close>

definition set_primitive ::
  "nat \<Rightarrow> primitive_procedure \<Rightarrow> int \<Rightarrow> string option \<Rightarrow> prims \<Rightarrow> prims option"
where
  "set_primitive index code nargs_hi ndocstr s =
    do { procs \<leftarrow> store (Primitive_Procedure_Table s) index code;
         arity \<leftarrow> store (Primitive_Arity_Table s) index nargs_hi;
         count \<leftarrow> store (Primitive_Count_Table s) index (nargs_hi * 8);
         docs \<leftarrow> store (Primitive_Documentation_Table s) index ndocstr;
         Some (s\<lparr>Primitive_Procedure_Table := procs, Primitive_Arity_Table := arity,
                 Primitive_Count_Table := count, Primitive_Documentation_Table := docs\<rparr>) }"

definition new_primitive ::
  "static_prims \<Rightarrow> string \<Rightarrow> prims \<Rightarrow> (nat option \<times> prims) option"
where
  "new_primitive st name s =
    do { s \<leftarrow> (if MAX_PRIMITIVE s = prim_table_size s then grow_primitive_tables st s else Some s);
         let index = MAX_PRIMITIVE s;
         (prim, e) \<leftarrow> tree_insert (prim_procedure_tree s) name (of_nat index) (tree_globals s);
         if tree_error_message e \<noteq> None
         then Some (None, s\<lparr>tree_globals := e\<lparr>tree_error_message := None\<rparr>\<rparr>)
         else
           do { names \<leftarrow> store (Primitive_Name_Table s) index name;
                Some (Some index,
                  s\<lparr>tree_globals := e, prim_procedure_tree := prim, MAX_PRIMITIVE := index + 1,
                    Primitive_Name_Table := names\<rparr>) } }"

definition declare_primitive_internal ::
  "static_prims \<Rightarrow> bool \<Rightarrow> string \<Rightarrow> primitive_procedure \<Rightarrow> int \<Rightarrow> int \<Rightarrow> string option \<Rightarrow> prims \<Rightarrow>
    (scheme_object \<times> prims) option"
where
  "declare_primitive_internal st override_p name code nargs_lo nargs_hi docstr s =
    (case tree_lookup (prim_procedure_tree s) name of
       Node _ _ _ _ v \<Rightarrow>
         (let index = unat v; primitive = MAKE_PRIMITIVE_OBJECT v in
          do { arity \<leftarrow> PRIMITIVE_ARITY primitive s;
               implemented \<leftarrow> IMPLEMENTED_PRIMITIVE_P primitive s;
               if arity \<noteq> nargs_hi \<and> arity \<noteq> UNKNOWN_PRIMITIVE_ARITY \<or> implemented \<and> \<not> override_p
               then Some (LONG_TO_UNSIGNED_FIXNUM (uint (PRIMITIVE_NUMBER primitive)), s)
               else
                 do { ndocstr \<leftarrow> (if docstr = None
                                  then fetch (Primitive_Documentation_Table s) index
                                  else Some docstr);
                      s \<leftarrow> set_primitive index code nargs_hi ndocstr s;
                      Some (primitive, s) } })
     | Null \<Rightarrow>
         do { (index, s) \<leftarrow> new_primitive st name s;
              case index of
                None \<Rightarrow> Some (SHARP_F, s)
              | Some index \<Rightarrow>
                  do { s \<leftarrow> set_primitive index code nargs_hi docstr s;
                       Some (MAKE_PRIMITIVE_OBJECT (of_nat index), s) } })"

definition declare_primitive ::
  "static_prims \<Rightarrow> string \<Rightarrow> primitive_procedure \<Rightarrow> int \<Rightarrow> int \<Rightarrow> string option \<Rightarrow> prims \<Rightarrow>
    (scheme_object \<times> prims) option"
where
  "declare_primitive st = declare_primitive_internal st False"

definition install_primitive ::
  "static_prims \<Rightarrow> string \<Rightarrow> primitive_procedure \<Rightarrow> int \<Rightarrow> int \<Rightarrow> string option \<Rightarrow> prims \<Rightarrow>
    (scheme_object \<times> prims) option"
where
  "install_primitive st = declare_primitive_internal st True"

definition make_primitive :: "static_prims \<Rightarrow> string \<Rightarrow> int \<Rightarrow> prims \<Rightarrow> (scheme_object \<times> prims) option" where
  "make_primitive st name arity s =
    (let cname = (case tree_lookup (prim_procedure_tree s) name of
                    Node _ _ _ n _ \<Rightarrow> n | Null \<Rightarrow> name) in
     do { (result, s) \<leftarrow> declare_primitive st cname Prim_unimplemented arity arity None s;
          Some (if result = SHARP_F then SHARP_F else OBJECT_NEW_TYPE TC_PRIMITIVE result, s) })"

datatype prim_table_error =
    Initialization_Error string string
  | System_Call_Error
  | Fasl_File_Bad_Data
  | Wrong_Arity_Primitives

definition find_primitive_cname ::
  "static_prims \<Rightarrow> string \<Rightarrow> bool \<Rightarrow> bool \<Rightarrow> int \<Rightarrow> prims \<Rightarrow>
    (prim_table_error + scheme_object \<times> prims) option"
where
  "find_primitive_cname st name intern_p allow_p arity s =
    (case tree_lookup (prim_procedure_tree s) name of
       Node _ _ _ _ v \<Rightarrow>
         (let primitive = MAKE_PRIMITIVE_OBJECT v in
          do { implemented \<leftarrow> IMPLEMENTED_PRIMITIVE_P primitive s;
               known \<leftarrow> PRIMITIVE_ARITY primitive s;
               if \<not> allow_p \<and> \<not> implemented then Some (Inr (SHARP_F, s))
               else if arity = UNKNOWN_PRIMITIVE_ARITY \<or> arity = known then Some (Inr (primitive, s))
               else if known = UNKNOWN_PRIMITIVE_ARITY then
                 do { arities \<leftarrow> store (Primitive_Arity_Table s) (unat (PRIMITIVE_NUMBER primitive)) arity;
                      Some (Inr (primitive, s\<lparr>Primitive_Arity_Table := arities\<rparr>)) }
               else Some (Inr (LONG_TO_FIXNUM known, s)) })
     | Null \<Rightarrow>
         if \<not> intern_p then Some (Inr (SHARP_F, s))
         else
           do { (primitive, s) \<leftarrow> declare_primitive st name Prim_unimplemented
                                   (if arity < 0 then 0 else arity) arity None s;
                Some (if primitive = SHARP_F then Inl System_Call_Error else Inr (primitive, s)) })"

subsection \<open>Initialization\<close>

definition alias_index ::
  "static_prims \<Rightarrow> string \<Rightarrow> string \<Rightarrow> prims \<Rightarrow> (prim_table_error + ulong \<times> prims) option"
where
  "alias_index st name alias s =
    (case tree_lookup (prim_procedure_tree s) name of
       Node _ _ _ _ v \<Rightarrow> Some (Inr (v, s))
     | Null \<Rightarrow>
         do { (old, s) \<leftarrow> make_primitive st name UNKNOWN_PRIMITIVE_ARITY s;
              Some (if old = SHARP_F then Inl (Initialization_Error ''aliasing'' alias)
                    else Inr (PRIMITIVE_NUMBER old, s)) })"

fun alias_loop ::
  "static_prims \<Rightarrow> (string \<times> string) list \<Rightarrow> prims \<Rightarrow> (prim_table_error + prims) option"
where
  "alias_loop st [] s = Some (Inr s)"
| "alias_loop st ((alias, name) # aliases) s =
    do { r \<leftarrow> alias_index st name alias s;
         case r of
           Inl err \<Rightarrow> Some (Inl err)
         | Inr (index, s) \<Rightarrow>
             do { (new, e) \<leftarrow> tree_insert (prim_procedure_tree s) alias index (tree_globals s);
                  if tree_error_message e \<noteq> None
                  then Some (Inl (Initialization_Error ''aliasing'' alias))
                  else alias_loop st aliases (s\<lparr>tree_globals := e, prim_procedure_tree := new\<rparr>) } }"

definition initialize_primitives ::
  "static_prims \<Rightarrow> (string \<times> string) list \<Rightarrow> prims \<Rightarrow> (prim_table_error + prims) option"
where
  "initialize_primitives st aliases s =
    do { s \<leftarrow> grow_primitive_tables st (s\<lparr>MAX_PRIMITIVE := length (Static_Primitive_Name_Table st)\<rparr>);
         names \<leftarrow> those (take (MAX_PRIMITIVE s) (Primitive_Name_Table s));
         (tree, e) \<leftarrow> tree_build (MAX_PRIMITIVE s) names 0
                        ((tree_globals s)\<lparr>tree_error_message := None\<rparr>);
         if tree_error_message e \<noteq> None
         then Some (Inl (Initialization_Error ''building'' ''prim_procedure_tree''))
         else alias_loop st aliases (s\<lparr>tree_globals := e, prim_procedure_tree := tree\<rparr>) }"

subsection \<open>The invariant of the tables\<close>

definition prim_find :: "prims \<Rightarrow> string \<Rightarrow> (string \<times> ulong) option" where
  "prim_find s n = node_entry (tree_lookup (prim_procedure_tree s) n)"

type_synonym prim_description =
  "primitive_procedure option \<times> int option \<times> int option \<times> string option \<times> string option option"

definition prim_row :: "prims \<Rightarrow> nat \<Rightarrow> prim_description" where
  "prim_row s i =
    (fetch (Primitive_Procedure_Table s) i, fetch (Primitive_Arity_Table s) i,
     fetch (Primitive_Count_Table s) i, fetch (Primitive_Name_Table s) i,
     fetch (Primitive_Documentation_Table s) i)"

definition complete_row :: "prim_description \<Rightarrow> bool" where
  "complete_row r \<longleftrightarrow> (case r of (p, a, c, n, d) \<Rightarrow> p \<noteq> None \<and> a \<noteq> None \<and> c \<noteq> None \<and> n \<noteq> None \<and> d \<noteq> None)"

definition table_sizes :: "prims \<Rightarrow> bool" where
  "table_sizes s \<longleftrightarrow>
    length (Primitive_Procedure_Table s) = prim_table_size s \<and>
    length (Primitive_Arity_Table s) = prim_table_size s \<and>
    length (Primitive_Count_Table s) = prim_table_size s \<and>
    length (Primitive_Name_Table s) = prim_table_size s \<and>
    length (Primitive_Documentation_Table s) = prim_table_size s"

definition prims_wf :: "prims \<Rightarrow> bool" where
  "prims_wf s \<longleftrightarrow>
    table_sizes s \<and> MAX_PRIMITIVE s \<le> prim_table_size s \<and> MAX_PRIMITIVE s \<le> 2 ^ 57 \<and>
    tree_wf (prim_procedure_tree s) \<and> tree_error_message (tree_globals s) = None \<and>
    (\<forall>i < MAX_PRIMITIVE s. complete_row (prim_row s i) \<and>
      (\<forall>n. fetch (Primitive_Name_Table s) i = Some n \<longrightarrow> (\<exists>n'. prim_find s n = Some (n', of_nat i)))) \<and>
    (\<forall>n n' v. prim_find s n = Some (n', v) \<longrightarrow> unat v < MAX_PRIMITIVE s)"

lemma prims_wfD:
  assumes "prims_wf s"
  shows "table_sizes s" "MAX_PRIMITIVE s \<le> prim_table_size s" "MAX_PRIMITIVE s \<le> 2 ^ 57"
    "tree_wf (prim_procedure_tree s)" "tree_error_message (tree_globals s) = None"
    "i < MAX_PRIMITIVE s \<Longrightarrow> complete_row (prim_row s i)"
    "i < MAX_PRIMITIVE s \<Longrightarrow> fetch (Primitive_Name_Table s) i = Some n \<Longrightarrow> \<exists>n'. prim_find s n = Some (n', of_nat i)"
    "prim_find s n = Some (n', v) \<Longrightarrow> unat v < MAX_PRIMITIVE s"
  using assms by (auto simp: prims_wf_def)

lemma table_sizes_fetch:
  assumes "complete_row (prim_row s i)"
  obtains p a c n d where
    "fetch (Primitive_Procedure_Table s) i = Some p" "fetch (Primitive_Arity_Table s) i = Some a"
    "fetch (Primitive_Count_Table s) i = Some c" "fetch (Primitive_Name_Table s) i = Some n"
    "fetch (Primitive_Documentation_Table s) i = Some d"
  using assms by (auto simp: complete_row_def prim_row_def)

lemma fetch_update: "i < length t \<Longrightarrow> fetch (t[i := Some x]) j = (if j = i then Some x else fetch t j)"
  by (auto simp: fetch_def nth_list_update)

lemma fetch_grown: "fetch (t @ replicate k None) i = fetch t i"
  by (auto simp: fetch_def nth_append)

definition same_names :: "prims \<Rightarrow> prims \<Rightarrow> bool" where
  "same_names s s' \<longleftrightarrow>
    prim_procedure_tree s' = prim_procedure_tree s \<and> tree_globals s' = tree_globals s \<and>
    MAX_PRIMITIVE s' = MAX_PRIMITIVE s"

lemma grow_primitive_tables_spec:
  assumes "prims_wf s" "10 \<le> MAX_PRIMITIVE s" "MAX_PRIMITIVE s = prim_table_size s"
  shows "\<exists>s'. grow_primitive_tables st s = Some s' \<and> table_sizes s' \<and>
    MAX_PRIMITIVE s < prim_table_size s' \<and> same_names s s' \<and> prim_row s' = prim_row s"
proof -
  define n where "n = MAX_PRIMITIVE s + MAX_PRIMITIVE s div 10"
  have n: "prim_table_size s \<le> n" "MAX_PRIMITIVE s < n" "0 < prim_table_size s"
    using assms(2,3) by (auto simp: n_def)
  have copy: "COPY_TABLE t stat n = Some (t @ replicate (n - length t) None)"
    if "length t = prim_table_size s" for t :: "'b option list" and stat
    using that n by (auto simp: COPY_TABLE_def)
  have sz: "table_sizes s" by (rule prims_wfD(1) [OF assms(1)])
  then show ?thesis using n
    by (simp add: grow_primitive_tables_def Let_def table_sizes_def same_names_def prim_row_def
        copy fetch_grown fun_eq_iff flip: n_def)
qed

lemma set_primitive_spec:
  assumes "table_sizes s" "i < prim_table_size s"
  shows "\<exists>s'. set_primitive i code arity doc s = Some s' \<and> table_sizes s' \<and> same_names s s' \<and>
    prim_table_size s' = prim_table_size s \<and> Primitive_Name_Table s' = Primitive_Name_Table s \<and>
    (\<forall>j. prim_row s' j =
      (if j = i then (Some code, Some arity, Some (arity * 8), fetch (Primitive_Name_Table s) i, Some doc)
       else prim_row s j))"
  using assms
  by (simp add: set_primitive_def store_def table_sizes_def same_names_def prim_row_def fetch_update)

text \<open>Tables that differ in descriptions only keep the invariant.\<close>

lemma prims_wf_rows:
  assumes "prims_wf s" "same_names s s'" "table_sizes s'" "MAX_PRIMITIVE s \<le> prim_table_size s'"
    and "\<forall>i < MAX_PRIMITIVE s. complete_row (prim_row s' i) \<and>
      fetch (Primitive_Name_Table s') i = fetch (Primitive_Name_Table s) i"
  shows "prims_wf s'"
  using assms by (simp add: prims_wf_def same_names_def prim_find_def)

lemma same_names_find: "same_names s s' \<Longrightarrow> prim_find s' = prim_find s"
  by (simp add: same_names_def prim_find_def fun_eq_iff)

lemma prim_find_ci: "prims_wf s \<Longrightarrow> name_key m = name_key n \<Longrightarrow> prim_find s m = prim_find s n"
  using names.find_ci [of "(prim_procedure_tree s, tree_globals s)" m n]
  by (simp add: prim_find_def table_find_def prims_wf_def)

definition can_grow :: "prims \<Rightarrow> bool" where
  "can_grow s \<longleftrightarrow> MAX_PRIMITIVE s < 2 ^ 57 \<and> (MAX_PRIMITIVE s < prim_table_size s \<or> 10 \<le> MAX_PRIMITIVE s)"

lemma make_room_spec:
  assumes "prims_wf s" "can_grow s"
  shows "\<exists>s'. (if MAX_PRIMITIVE s = prim_table_size s then grow_primitive_tables st s else Some s) = Some s' \<and>
    table_sizes s' \<and> MAX_PRIMITIVE s < prim_table_size s' \<and> same_names s s' \<and> prim_row s' = prim_row s"
proof (cases "MAX_PRIMITIVE s = prim_table_size s")
  case True
  then show ?thesis using grow_primitive_tables_spec [OF assms(1) _ True] assms(2) by (auto simp: can_grow_def)
next
  case False
  then show ?thesis using prims_wfD(1,2) [OF assms(1)] by (auto simp: same_names_def)
qed

lemma new_primitive_spec:
  assumes wf: "prims_wf s" and "can_grow s" and new: "prim_find s name = None"
  shows "\<exists>s'. table_sizes s' \<and>
    (if nodes_left (tree_globals s) = 0 then
       new_primitive st name s = Some (None, s') \<and> prims_wf s' \<and> MAX_PRIMITIVE s' = MAX_PRIMITIVE s \<and>
       prim_row s' = prim_row s \<and> prim_find s' = prim_find s
     else
       new_primitive st name s = Some (Some (MAX_PRIMITIVE s), s') \<and>
       MAX_PRIMITIVE s' = MAX_PRIMITIVE s + 1 \<and> MAX_PRIMITIVE s < prim_table_size s' \<and>
       nodes_left (tree_globals s') = nodes_left (tree_globals s) - 1 \<and>
       tree_wf (prim_procedure_tree s') \<and> tree_error_message (tree_globals s') = None \<and>
       (\<forall>m. prim_find s' m = (if name_key m = name_key name then Some (name, of_nat (MAX_PRIMITIVE s))
          else prim_find s m)) \<and>
       (\<forall>i. fetch (Primitive_Name_Table s') i =
          (if i = MAX_PRIMITIVE s then Some name else fetch (Primitive_Name_Table s) i)) \<and>
       (\<forall>i. i \<noteq> MAX_PRIMITIVE s \<longrightarrow> prim_row s' i = prim_row s i))"
proof -
  let ?i = "MAX_PRIMITIVE s"
  obtain s1 where s1: "(if MAX_PRIMITIVE s = prim_table_size s then grow_primitive_tables st s else Some s) = Some s1"
      "table_sizes s1" "?i < prim_table_size s1" "same_names s s1" "prim_row s1 = prim_row s"
    using make_room_spec [OF assms(1,2)] by blast
  have same: "prim_procedure_tree s1 = prim_procedure_tree s" "tree_globals s1 = tree_globals s" "MAX_PRIMITIVE s1 = ?i"
    using s1(4) by (simp_all add: same_names_def)
  note wfs = prims_wfD(4,5) [OF wf]
  have ord: "ordered (entries (prim_procedure_tree s))" using wfs(1) by (simp add: tree_wf_def)
  have nk: "name_key name \<notin> set (keys (entries (prim_procedure_tree s)))"
    using new unfolding prim_find_def tree_lookup_entry [OF ord] entry_map_None .
  obtain t e where t: "tree_insert (prim_procedure_tree s) name (of_nat ?i) (tree_globals s) = Some (t, e)" "tree_wf t"
      "entries t = insert_entries (entries (prim_procedure_tree s)) name (of_nat ?i) (tree_globals s)"
      "e = insert_env (entries (prim_procedure_tree s)) name (tree_globals s)"
    using tree_insert_wf [OF wfs(1), of name "of_nat ?i" "tree_globals s"] by metis
  have found: "node_entry (tree_lookup t m) =
      (if nodes_left (tree_globals s) \<noteq> 0 \<and> name_key m = name_key name then Some (name, of_nat ?i)
       else prim_find s m)" for m
    using t(2,3) nk ord
    by (auto simp: prim_find_def tree_wf_def tree_lookup_entry insert_entries_def entry_map_ins)
  have e: "e = snd (leaf_make name 0 (tree_globals s))"
    using t(4) nk by (simp add: insert_env_def)
  have names: "fetch (Primitive_Name_Table s1) i = fetch (Primitive_Name_Table s) i" for i
    using fun_cong [OF s1(5), of i] by (simp add: prim_row_def)
  show ?thesis
  proof (cases "nodes_left (tree_globals s) = 0")
    case True
    define s2 where "s2 = s1\<lparr>tree_globals := e\<lparr>tree_error_message := None\<rparr>\<rparr>"
    have "new_primitive st name s = Some (None, s2)"
      using s1(1) same t(1) e True by (simp add: new_primitive_def leaf_make_def tree_error_def s2_def)
    moreover have "table_sizes s2" "prim_row s2 = prim_row s" "MAX_PRIMITIVE s2 = ?i" "prim_find s2 = prim_find s"
      using s1 same by (simp_all add: s2_def table_sizes_def prim_row_def prim_find_def fun_eq_iff)
    moreover have "prims_wf s2"
      using wf s1 same names by (simp add: prims_wf_def s2_def table_sizes_def prim_row_def prim_find_def fun_eq_iff)
    ultimately show ?thesis using True by auto
  next
    case False
    define s2 where "s2 = s1\<lparr>tree_globals := e, prim_procedure_tree := t, MAX_PRIMITIVE := ?i + 1,
                    Primitive_Name_Table := (Primitive_Name_Table s1)[?i := Some name]\<rparr>"
    have len: "?i < length (Primitive_Name_Table s1)" using s1(2,3) by (simp add: table_sizes_def)
    have "new_primitive st name s = Some (Some ?i, s2)"
      using s1(1) same t(1) e False len wfs(2) by (simp add: new_primitive_def Let_def store_def leaf_make_def s2_def)
    moreover have "table_sizes s2" "MAX_PRIMITIVE s2 = ?i + 1" "?i < prim_table_size s2"
        "nodes_left (tree_globals s2) = nodes_left (tree_globals s) - 1"
        "tree_wf (prim_procedure_tree s2)" "tree_error_message (tree_globals s2) = None"
      using s1 t(1,2) e False wfs(2) by (simp_all add: s2_def table_sizes_def leaf_make_def)
    moreover have "prim_row s2 i = prim_row s i" if "i \<noteq> ?i" for i
      using fun_cong [OF s1(5), of i] that by (simp add: s2_def prim_row_def fetch_update [OF len])
    ultimately show ?thesis using found False
      by (intro exI [of _ s2]) (simp add: s2_def prim_find_def fetch_update [OF len] names)
  qed
qed

lemma PRIMITIVE_NUMBER_MAKE:
  assumes "prims_wf s" "unat v < MAX_PRIMITIVE s"
  shows "PRIMITIVE_NUMBER (MAKE_PRIMITIVE_OBJECT v) = v" "PRIMITIVE_P (MAKE_PRIMITIVE_OBJECT v)"
proof -
  have "unat v < 2 ^ 58" using assms prims_wfD(3) [OF assms(1)] by simp
  then have "v < 2 ^ 58" by (simp add: word_less_nat_alt)
  then show "PRIMITIVE_NUMBER (MAKE_PRIMITIVE_OBJECT v) = v" "PRIMITIVE_P (MAKE_PRIMITIVE_OBJECT v)"
    by (simp_all add: PRIMITIVE_NUMBER_def MAKE_PRIMITIVE_OBJECT_def PRIMITIVE_P_def TC_PRIMITIVE_def)
qed

lemma prim_find_node:
  "prim_find s n = Some (n', v) \<longleftrightarrow> (\<exists>h l r. tree_lookup (prim_procedure_tree s) n = Node h l r n' v)"
  "prim_find s n = None \<longleftrightarrow> tree_lookup (prim_procedure_tree s) n = Null"
  by (auto simp: prim_find_def node_entry_def split: tree_node.splits)

definition keeps_old :: "bool \<Rightarrow> int \<Rightarrow> nat \<Rightarrow> prims \<Rightarrow> bool" where
  "keeps_old override_p arity i s \<longleftrightarrow>
    fetch (Primitive_Arity_Table s) i \<notin> {Some arity, Some UNKNOWN_PRIMITIVE_ARITY} \<or>
    fetch (Primitive_Procedure_Table s) i \<noteq> Some Prim_unimplemented \<and> \<not> override_p"

lemma declare_existing:
  assumes wf: "prims_wf s" and found: "prim_find s name = Some (n, v)"
  shows "\<exists>s'. declare_primitive_internal st override_p name code lo hi doc s =
      Some (if keeps_old override_p hi (unat v) s then LONG_TO_UNSIGNED_FIXNUM (uint v)
            else MAKE_PRIMITIVE_OBJECT v, s') \<and> prims_wf s' \<and> same_names s s' \<and>
    (if keeps_old override_p hi (unat v) s then s' = s
     else \<forall>j. prim_row s' j =
       (if j = unat v then (Some code, Some hi, Some (hi * 8), fetch (Primitive_Name_Table s) j,
          if doc = None then fetch (Primitive_Documentation_Table s) j else Some doc)
        else prim_row s j))"
proof -
  have i: "unat v < MAX_PRIMITIVE s" by (rule prims_wfD(8) [OF wf found])
  obtain p a c nm d where row:
      "fetch (Primitive_Procedure_Table s) (unat v) = Some p" "fetch (Primitive_Arity_Table s) (unat v) = Some a"
      "fetch (Primitive_Count_Table s) (unat v) = Some c" "fetch (Primitive_Name_Table s) (unat v) = Some nm"
      "fetch (Primitive_Documentation_Table s) (unat v) = Some d"
    using table_sizes_fetch [OF prims_wfD(6) [OF wf i]] .
  obtain h l r where node: "tree_lookup (prim_procedure_tree s) name = Node h l r n v"
    using found by (auto simp: prim_find_node)
  note rd = PRIMITIVE_ARITY_def IMPLEMENTED_PRIMITIVE_P_def PRIMITIVE_NUMBER_MAKE [OF wf i] row
  show ?thesis
  proof (cases "keeps_old override_p hi (unat v) s")
    case True
    then have "declare_primitive_internal st override_p name code lo hi doc s =
        Some (LONG_TO_UNSIGNED_FIXNUM (uint v), s)"
      by (auto simp: declare_primitive_internal_def node rd Let_def keeps_old_def)
    then show ?thesis using wf True by (simp add: same_names_def)
  next
    case False
    obtain s' where s': "set_primitive (unat v) code hi (if doc = None then d else doc) s = Some s'"
        "table_sizes s'" "same_names s s'" "prim_table_size s' = prim_table_size s"
        "Primitive_Name_Table s' = Primitive_Name_Table s"
        "\<forall>j. prim_row s' j = (if j = unat v then (Some code, Some hi, Some (hi * 8),
            fetch (Primitive_Name_Table s) (unat v), Some (if doc = None then d else doc)) else prim_row s j)"
      using set_primitive_spec [OF prims_wfD(1) [OF wf], of "unat v"] i prims_wfD(2) [OF wf] by fastforce
    have "declare_primitive_internal st override_p name code lo hi doc s = Some (MAKE_PRIMITIVE_OBJECT v, s')"
      using False s'(1) by (auto simp: declare_primitive_internal_def node rd Let_def keeps_old_def)
    moreover have "prims_wf s'"
      using prims_wf_rows [OF wf s'(3,2)] s'(4-6) prims_wfD(2,6) [OF wf] row(4)
      by (simp add: complete_row_def)
    ultimately show ?thesis using False s'(3,6) row(5) by auto
  qed
qed

lemma declare_new:
  assumes wf: "prims_wf s" and grow: "can_grow s" and new: "prim_find s name = None"
    and room: "0 < nodes_left (tree_globals s)"
  shows "\<exists>s'. declare_primitive_internal st override_p name code lo hi doc s =
      Some (MAKE_PRIMITIVE_OBJECT (of_nat (MAX_PRIMITIVE s)), s') \<and> prims_wf s' \<and>
    MAX_PRIMITIVE s' = MAX_PRIMITIVE s + 1 \<and>
    nodes_left (tree_globals s') = nodes_left (tree_globals s) - 1 \<and>
    (\<forall>m. prim_find s' m = (if name_key m = name_key name then Some (name, of_nat (MAX_PRIMITIVE s))
       else prim_find s m)) \<and>
    (\<forall>j \<le> MAX_PRIMITIVE s. prim_row s' j =
      (if j = MAX_PRIMITIVE s then (Some code, Some hi, Some (hi * 8), Some name, Some doc)
       else prim_row s j))"
proof -
  let ?i = "MAX_PRIMITIVE s"
  have i: "?i < 2 ^ 57" using grow by (simp add: can_grow_def)
  then have [simp]: "unat (of_nat ?i :: ulong) = ?i" by (simp add: unat_of_nat take_bit_nat_eq_self)
  obtain s1 where s1: "new_primitive st name s = Some (Some ?i, s1)" "table_sizes s1"
      "MAX_PRIMITIVE s1 = ?i + 1" "?i < prim_table_size s1"
      "tree_wf (prim_procedure_tree s1)" "tree_error_message (tree_globals s1) = None"
      "\<forall>m. prim_find s1 m = (if name_key m = name_key name then Some (name, of_nat ?i) else prim_find s m)"
      "\<forall>i. fetch (Primitive_Name_Table s1) i = (if i = ?i then Some name else fetch (Primitive_Name_Table s) i)"
      "\<forall>i. i \<noteq> ?i \<longrightarrow> prim_row s1 i = prim_row s i"
      "nodes_left (tree_globals s1) = nodes_left (tree_globals s) - 1"
    using new_primitive_spec [OF wf grow new, of st] room by auto
  obtain s2 where s2: "set_primitive ?i code hi doc s1 = Some s2" "table_sizes s2" "same_names s1 s2"
      "prim_table_size s2 = prim_table_size s1" "Primitive_Name_Table s2 = Primitive_Name_Table s1"
      "\<forall>j. prim_row s2 j = (if j = ?i then (Some code, Some hi, Some (hi * 8), Some name, Some doc) else prim_row s1 j)"
    using set_primitive_spec [OF s1(2,4), of code hi doc] s1(8) by auto
  have find: "prim_find s2 m = (if name_key m = name_key name then Some (name, of_nat ?i) else prim_find s m)" for m
    using s1(7) same_names_find [OF s2(3)] by simp
  have "declare_primitive_internal st override_p name code lo hi doc s = Some (MAKE_PRIMITIVE_OBJECT (of_nat ?i), s2)"
    using new s1(1) s2(1) by (simp add: declare_primitive_internal_def prim_find_node)
  moreover have "prims_wf s2"
    unfolding prims_wf_def
  proof (intro conjI allI impI)
    fix j n assume j: "j < MAX_PRIMITIVE s2" and n: "fetch (Primitive_Name_Table s2) j = Some n"
    show "\<exists>n'. prim_find s2 n = Some (n', of_nat j)"
    proof (cases "j = ?i")
      case True
      then show ?thesis using n s1(8) s2(5) find by auto
    next
      case False
      then have "j < ?i" using j s1(3) s2(3) by (simp add: same_names_def)
      then obtain n' where "prim_find s n = Some (n', of_nat j)"
        using prims_wfD(7) [OF wf \<open>j < ?i\<close>, of n] n s1(8) s2(5) False by auto
      moreover have "name_key n \<noteq> name_key name"
        using calculation new prim_find_ci [OF wf, of n name] by auto
      ultimately show ?thesis using find by simp
    qed
  next
    fix j assume "j < MAX_PRIMITIVE s2"
    then show "complete_row (prim_row s2 j)"
      using s1(3,9) s2(3,6) prims_wfD(6) [OF wf, of j] by (auto simp: same_names_def complete_row_def)
  next
    fix m n' v assume "prim_find s2 m = Some (n', v)"
    then show "unat v < MAX_PRIMITIVE s2"
      using find [of m] prims_wfD(8) [OF wf, of m n' v] s1(3) s2(3) by (auto simp: same_names_def split: if_splits)
  qed (use s1 s2 i in \<open>simp_all add: same_names_def\<close>)
  ultimately show ?thesis using find s1(3,9,10) s2(3,6) by (auto simp: same_names_def)
qed

lemma declare_out_of_memory:
  assumes "prims_wf s" "can_grow s" "prim_find s name = None" "nodes_left (tree_globals s) = 0"
  shows "\<exists>s'. declare_primitive_internal st override_p name code lo hi doc s = Some (SHARP_F, s') \<and>
    prims_wf s' \<and> MAX_PRIMITIVE s' = MAX_PRIMITIVE s \<and> prim_row s' = prim_row s \<and> prim_find s' = prim_find s"
  using new_primitive_spec [OF assms(1-3), of st] assms(3,4)
  by (auto simp: declare_primitive_internal_def prim_find_node)

subsection \<open>Initialization establishes the invariant\<close>

lemma PRIMITIVE_P_not_false: "PRIMITIVE_P p \<Longrightarrow> p \<noteq> SHARP_F"
  by (auto simp: PRIMITIVE_P_def SHARP_F_def MAKE_OBJECT_def OBJECT_TYPE_def TC_FALSE_def TC_PRIMITIVE_def)

lemma make_primitive_new:
  assumes "prims_wf s" "can_grow s" "prim_find s name = None" "0 < nodes_left (tree_globals s)"
  shows "\<exists>s'. make_primitive st name arity s = Some (MAKE_PRIMITIVE_OBJECT (of_nat (MAX_PRIMITIVE s)), s') \<and>
    prims_wf s' \<and> MAX_PRIMITIVE s' = MAX_PRIMITIVE s + 1 \<and>
    nodes_left (tree_globals s') = nodes_left (tree_globals s) - 1 \<and>
    (\<forall>m. prim_find s' m = (if name_key m = name_key name then Some (name, of_nat (MAX_PRIMITIVE s))
       else prim_find s m))"
proof -
  have "MAX_PRIMITIVE s < 2 ^ 57" using assms(2) by (simp add: can_grow_def)
  then have n: "(of_nat (MAX_PRIMITIVE s) :: ulong) < 2 ^ 58"
    by (simp add: word_less_nat_alt unat_of_nat take_bit_nat_eq_self)
  then have ne: "MAKE_PRIMITIVE_OBJECT (of_nat (MAX_PRIMITIVE s)) \<noteq> SHARP_F"
    by (intro PRIMITIVE_P_not_false) (simp add: PRIMITIVE_P_def MAKE_PRIMITIVE_OBJECT_def TC_PRIMITIVE_def)
  have same: "OBJECT_NEW_TYPE TC_PRIMITIVE (MAKE_PRIMITIVE_OBJECT (of_nat (MAX_PRIMITIVE s))) =
      MAKE_PRIMITIVE_OBJECT (of_nat (MAX_PRIMITIVE s))"
    using n by (simp add: OBJECT_NEW_TYPE_def MAKE_PRIMITIVE_OBJECT_def TC_PRIMITIVE_def)
  have nd: "tree_lookup (prim_procedure_tree s) name = Null" using assms(3) by (simp add: prim_find_node)
  from declare_new [OF assms, of st False Prim_unimplemented arity arity None]
  obtain s' where "declare_primitive st name Prim_unimplemented arity arity None s =
      Some (MAKE_PRIMITIVE_OBJECT (of_nat (MAX_PRIMITIVE s)), s')"
      "prims_wf s'" "MAX_PRIMITIVE s' = MAX_PRIMITIVE s + 1"
      "nodes_left (tree_globals s') = nodes_left (tree_globals s) - 1"
      "\<forall>m. prim_find s' m = (if name_key m = name_key name then Some (name, of_nat (MAX_PRIMITIVE s)) else prim_find s m)"
    unfolding declare_primitive_def by blast
  then show ?thesis using ne same by (simp add: make_primitive_def nd)
qed

lemma insert_alias:
  assumes wf: "prims_wf s" and new: "prim_find s al = None" and room: "0 < nodes_left (tree_globals s)"
    and i: "unat index < MAX_PRIMITIVE s"
  shows "\<exists>t e. tree_insert (prim_procedure_tree s) al index (tree_globals s) = Some (t, e) \<and>
    tree_error_message e = None \<and> prims_wf (s\<lparr>tree_globals := e, prim_procedure_tree := t\<rparr>) \<and>
    nodes_left e = nodes_left (tree_globals s) - 1 \<and>
    (\<forall>m. prim_find (s\<lparr>tree_globals := e, prim_procedure_tree := t\<rparr>) m =
      (if name_key m = name_key al then Some (al, index) else prim_find s m))"
proof -
  let ?t = "(prim_procedure_tree s, tree_globals s)"
  obtain t e where t: "tree_insert (prim_procedure_tree s) al index (tree_globals s) = Some (t, e)" "tree_wf t"
      "nodes_left e = nodes_left (tree_globals s) - 1"
      "\<forall>m. table_find (t, e) m = (if name_key m = name_key al then Some (al, index) else table_find ?t m)"
    using names.add_new [of ?t al index] prims_wfD(4) [OF wf] new room
    by (auto simp: table_add_def table_find_def prim_find_def)
  have "e = insert_env (entries (prim_procedure_tree s)) al (tree_globals s)"
    using tree_insert_wf [OF prims_wfD(4) [OF wf], of al index "tree_globals s"] t(1) by force
  moreover have "name_key al \<notin> set (keys (entries (prim_procedure_tree s)))"
    using new prims_wfD(4) [OF wf] unfolding prim_find_def tree_wf_def entry_map_None [symmetric]
    by (simp add: tree_lookup_entry)
  ultimately have err: "tree_error_message e = None"
    using room prims_wfD(5) [OF wf] by (simp add: insert_env_def leaf_make_def)
  let ?s = "s\<lparr>tree_globals := e, prim_procedure_tree := t\<rparr>"
  have find: "prim_find ?s m = (if name_key m = name_key al then Some (al, index) else prim_find s m)" for m
    using t(4) by (simp add: table_find_def prim_find_def)
  have row: "prim_row ?s = prim_row s" by (simp add: prim_row_def fun_eq_iff)
  have "\<exists>n'. prim_find ?s n = Some (n', of_nat j)"
    if h: "j < MAX_PRIMITIVE s" "fetch (Primitive_Name_Table s) j = Some n" for j n
  proof -
    obtain n' where n': "prim_find s n = Some (n', of_nat j)" using prims_wfD(7) [OF wf h] by blast
    then have "name_key n \<noteq> name_key al" using new prim_find_ci [OF wf, of n al] by auto
    then show ?thesis using n' find by simp
  qed
  moreover have "unat v < MAX_PRIMITIVE s" if "prim_find ?s m = Some (n', v)" for m n' v
    using that find [of m] i prims_wfD(8) [OF wf, of m n' v] by (auto split: if_splits)
  ultimately have "prims_wf ?s"
    using wf t(2) err row by (simp add: prims_wf_def table_sizes_def)
  then show ?thesis using t err find by auto
qed

definition alias_ok :: "prims \<Rightarrow> (string \<times> string) list \<Rightarrow> bool" where
  "alias_ok s aliases \<longleftrightarrow>
    distinct (List.map (name_key \<circ> fst) aliases) \<and>
    (\<forall>(a, n) \<in> set aliases. prim_find s a = None \<and> name_key a \<notin> (name_key \<circ> snd) ` set aliases)"

definition aliased :: "prims \<Rightarrow> string \<Rightarrow> string \<Rightarrow> bool" where
  "aliased s a n \<longleftrightarrow> prim_find s a \<noteq> None \<and> map_option snd (prim_find s a) = map_option snd (prim_find s n)"

definition extends :: "prims \<Rightarrow> prims \<Rightarrow> bool" where
  "extends s s' \<longleftrightarrow> (\<forall>m x. prim_find s m = Some x \<longrightarrow> prim_find s' m = Some x)"

lemma extends_aliased: "extends s s' \<Longrightarrow> aliased s a n \<Longrightarrow> aliased s' a n"
  by (cases "prim_find s n") (auto simp: extends_def aliased_def)

lemma extends_update:
  assumes "prims_wf s" "prim_find s a = None"
    and "\<forall>m. prim_find s' m = (if name_key m = name_key a then e else prim_find s m)"
  shows "extends s s'"
  unfolding extends_def
proof (intro allI impI)
  fix m x assume m: "prim_find s m = Some x"
  then have "name_key m \<noteq> name_key a" using prim_find_ci [OF assms(1), of m a] assms(2) by auto
  then show "prim_find s' m = Some x" using assms(3) m by simp
qed

lemma extends_trans: "extends s s1 \<Longrightarrow> extends s1 s2 \<Longrightarrow> extends s s2"
  by (auto simp: extends_def)

lemma alias_index_spec:
  assumes wf: "prims_wf s" and size: "10 \<le> MAX_PRIMITIVE s" "MAX_PRIMITIVE s < 2 ^ 57"
    and room: "0 < nodes_left (tree_globals s)"
  shows "\<exists>i s'. alias_index st name al s = Some (Inr (i, s')) \<and> prims_wf s' \<and> extends s s' \<and>
    unat i < MAX_PRIMITIVE s' \<and> map_option snd (prim_find s' name) = Some i \<and>
    MAX_PRIMITIVE s \<le> MAX_PRIMITIVE s' \<and> MAX_PRIMITIVE s' \<le> MAX_PRIMITIVE s + 1 \<and>
    nodes_left (tree_globals s) - 1 \<le> nodes_left (tree_globals s') \<and>
    (\<forall>m. prim_find s m = None \<longrightarrow> name_key m \<noteq> name_key name \<longrightarrow> prim_find s' m = None)"
proof (cases "prim_find s name")
  case (Some e)
  obtain n v where e: "e = (n, v)" by (cases e)
  obtain h l r where "tree_lookup (prim_procedure_tree s) name = Node h l r n v"
    using Some e by (auto simp: prim_find_node)
  then show ?thesis using wf prims_wfD(8) [OF wf, of name n v] Some e
    by (auto simp: alias_index_def extends_def)
next
  case None
  let ?i = "MAX_PRIMITIVE s"
  have grow: "can_grow s" using size by (simp add: can_grow_def)
  have u: "unat (of_nat ?i :: ulong) = ?i" using size(2) by (simp add: unat_of_nat take_bit_nat_eq_self)
  obtain s' where s': "make_primitive st name UNKNOWN_PRIMITIVE_ARITY s = Some (MAKE_PRIMITIVE_OBJECT (of_nat ?i), s')"
      "prims_wf s'" "MAX_PRIMITIVE s' = ?i + 1" "nodes_left (tree_globals s') = nodes_left (tree_globals s) - 1"
      "\<forall>m. prim_find s' m = (if name_key m = name_key name then Some (name, of_nat ?i) else prim_find s m)"
    using make_primitive_new [OF wf grow None room] by blast
  have num: "PRIMITIVE_NUMBER (MAKE_PRIMITIVE_OBJECT (of_nat ?i)) = of_nat ?i" "PRIMITIVE_P (MAKE_PRIMITIVE_OBJECT (of_nat ?i))"
    using PRIMITIVE_NUMBER_MAKE [OF s'(2), of "of_nat ?i"] s'(3) u by simp_all
  have ne: "MAKE_PRIMITIVE_OBJECT (of_nat ?i) \<noteq> SHARP_F"
    by (rule PRIMITIVE_P_not_false [OF num(2)])
  have "alias_index st name al s = Some (Inr (of_nat ?i, s'))"
    using None s'(1) num(1) ne by (simp add: alias_index_def prim_find_node)
  moreover have "extends s s'"
    by (rule extends_update [OF wf None s'(5)])
  ultimately show ?thesis using s' u by auto
qed

lemma alias_loop_spec:
  assumes "prims_wf s" "10 \<le> MAX_PRIMITIVE s" "MAX_PRIMITIVE s + length aliases < 2 ^ 57"
    and "2 * length aliases \<le> nodes_left (tree_globals s)" "alias_ok s aliases"
  shows "\<exists>s'. alias_loop st aliases s = Some (Inr s') \<and> prims_wf s' \<and> extends s s' \<and>
    (\<forall>(a, n) \<in> set aliases. aliased s' a n)"
  using assms
proof (induction aliases arbitrary: s)
  case Nil
  then show ?case by (simp add: extends_def)
next
  case (Cons x aliases)
  obtain a n where x: "x = (a, n)" by (cases x)
  have ok: "prim_find s a = None" "name_key a \<noteq> name_key n" "alias_ok s aliases"
      "name_key a \<notin> set (List.map (name_key \<circ> fst) aliases)"
      "\<forall>b \<in> set aliases. name_key (fst b) \<noteq> name_key n"
    using Cons.prems(5) by (auto simp: alias_ok_def x)
  obtain i s1 where s1: "alias_index st n a s = Some (Inr (i, s1))" "prims_wf s1" "extends s s1"
      "unat i < MAX_PRIMITIVE s1" "map_option snd (prim_find s1 n) = Some i"
      "MAX_PRIMITIVE s \<le> MAX_PRIMITIVE s1" "MAX_PRIMITIVE s1 \<le> MAX_PRIMITIVE s + 1"
      "nodes_left (tree_globals s) - 1 \<le> nodes_left (tree_globals s1)"
      "\<forall>m. prim_find s m = None \<longrightarrow> name_key m \<noteq> name_key n \<longrightarrow> prim_find s1 m = None"
    using alias_index_spec [OF Cons.prems(1,2), of st n a] Cons.prems(3,4) by auto
  have room: "0 < nodes_left (tree_globals s1)" using s1(8) Cons.prems(4) by simp
  have fresh: "prim_find s1 a = None" using s1(9) ok(1,2) by blast
  obtain t e where t: "tree_insert (prim_procedure_tree s1) a i (tree_globals s1) = Some (t, e)"
      "tree_error_message e = None" "prims_wf (s1\<lparr>tree_globals := e, prim_procedure_tree := t\<rparr>)"
      "nodes_left e = nodes_left (tree_globals s1) - 1"
      "\<forall>m. prim_find (s1\<lparr>tree_globals := e, prim_procedure_tree := t\<rparr>) m =
        (if name_key m = name_key a then Some (a, i) else prim_find s1 m)"
    using insert_alias [OF s1(2) fresh room s1(4)] by blast
  define s2 where "s2 = s1\<lparr>tree_globals := e, prim_procedure_tree := t\<rparr>"
  note t = t [folded s2_def]
  have ext: "extends s1 s2"
    by (rule extends_update [OF s1(2) fresh t(5)])
  have al: "aliased s2 a n" using t(5) s1(5) ok(2) by (auto simp: aliased_def)
  have "prim_find s2 b = None" if "(b, m) \<in> set aliases" for b m
  proof -
    have "prim_find s b = None" "name_key b \<noteq> name_key n" "name_key b \<noteq> name_key a"
      using ok(3-5) that by (auto simp: alias_ok_def rev_image_eqI)
    then show ?thesis using s1(9) t(5) by simp
  qed
  then have ok2: "alias_ok s2 aliases" using ok(3) by (auto simp: alias_ok_def)
  have b: "10 \<le> MAX_PRIMITIVE s2" "MAX_PRIMITIVE s2 + length aliases < 2 ^ 57"
      "2 * length aliases \<le> nodes_left (tree_globals s2)"
    using Cons.prems(2-4) s1(6-8) t(4) by (simp_all add: s2_def)
  obtain s3 where s3: "alias_loop st aliases s2 = Some (Inr s3)" "prims_wf s3" "extends s2 s3"
      "\<forall>(a, n) \<in> set aliases. aliased s3 a n"
    using Cons.IH [OF t(3) b ok2] by blast
  have "alias_loop st (x # aliases) s = Some (Inr s3)"
    using s1(1) t(1,2) s3(1) by (simp add: x s2_def)
  then show ?case
    using s3(2-4) extends_trans [OF s1(3) extends_trans [OF ext s3(3)]] extends_aliased [OF s3(3) al]
    by (auto simp: x)
qed

definition static_wf :: "static_prims \<Rightarrow> bool" where
  "static_wf st \<longleftrightarrow>
    (let n = length (Static_Primitive_Name_Table st) in
     length (Static_Primitive_Procedure_Table st) = n \<and> length (Static_Primitive_Arity_Table st) = n \<and>
     length (Static_Primitive_Count_Table st) = n \<and> length (Static_Primitive_Documentation_Table st) = n \<and>
     10 \<le> n \<and> sorted_wrt (\<lambda>m n. strcmp_ci m n = -1) (Static_Primitive_Name_Table st))"

definition empty_tables :: "prims \<Rightarrow> bool" where
  "empty_tables s \<longleftrightarrow>
    Primitive_Procedure_Table s = [] \<and> Primitive_Arity_Table s = [] \<and> Primitive_Count_Table s = [] \<and>
    Primitive_Name_Table s = [] \<and> Primitive_Documentation_Table s = [] \<and> bias (tree_globals s) \<le> 1"

definition aliases_wf :: "static_prims \<Rightarrow> (string \<times> string) list \<Rightarrow> bool" where
  "aliases_wf st aliases \<longleftrightarrow>
    distinct (List.map (name_key \<circ> fst) aliases) \<and>
    (\<forall>(a, n) \<in> set aliases. name_key a \<notin> name_key ` set (Static_Primitive_Name_Table st) \<and>
      name_key a \<notin> (name_key \<circ> snd) ` set aliases)"

lemma those_map_Some [simp]: "those (List.map Some xs) = Some xs"
  by (induction xs) simp_all

lemma fetch_static: "fetch (List.map Some xs @ replicate k None) i = (if i < length xs then Some (xs ! i) else None)"
  by (auto simp: fetch_def nth_append)

lemma initialize_tables_spec:
  assumes st: "static_wf st" and s: "empty_tables s"
    and size: "length (Static_Primitive_Name_Table st) \<le> 2 ^ 57"
    and room: "length (Static_Primitive_Name_Table st) \<le> nodes_left (tree_globals s)"
  defines "names \<equiv> Static_Primitive_Name_Table st"
  shows "\<exists>s' t e. grow_primitive_tables st (s\<lparr>MAX_PRIMITIVE := length names\<rparr>) = Some s' \<and>
    take (length names) (Primitive_Name_Table s') = List.map Some names \<and>
    MAX_PRIMITIVE s' = length names \<and> tree_globals s' = tree_globals s \<and>
    tree_build (length names) names 0 ((tree_globals s)\<lparr>tree_error_message := None\<rparr>) = Some (t, e) \<and>
    tree_error_message e = None \<and> nodes_left e + length names = nodes_left (tree_globals s) \<and>
    prims_wf (s'\<lparr>tree_globals := e, prim_procedure_tree := t\<rparr>) \<and>
    (\<forall>i < length names. prim_find (s'\<lparr>tree_globals := e, prim_procedure_tree := t\<rparr>) (names ! i) = Some (names ! i, of_nat i)) \<and>
    (\<forall>m. name_key m \<notin> name_key ` set names \<longrightarrow>
      prim_find (s'\<lparr>tree_globals := e, prim_procedure_tree := t\<rparr>) m = None)"
proof -
  let ?n = "length names" and ?N = "length names + length names div 10"
  have len: "length (Static_Primitive_Procedure_Table st) = ?n" "length (Static_Primitive_Arity_Table st) = ?n"
      "length (Static_Primitive_Count_Table st) = ?n" "length (Static_Primitive_Documentation_Table st) = ?n"
    using st by (simp_all add: static_wf_def Let_def names_def)
  define s' where "s' = s\<lparr>MAX_PRIMITIVE := ?n,
    Primitive_Arity_Table := List.map Some (Static_Primitive_Arity_Table st) @ replicate (?N - ?n) None,
    Primitive_Count_Table := List.map Some (Static_Primitive_Count_Table st) @ replicate (?N - ?n) None,
    Primitive_Name_Table := List.map Some names @ replicate (?N - ?n) None,
    Primitive_Documentation_Table := List.map Some (Static_Primitive_Documentation_Table st) @ replicate (?N - ?n) None,
    Primitive_Procedure_Table := List.map Some (Static_Primitive_Procedure_Table st) @ replicate (?N - ?n) None,
    prim_table_size := ?N\<rparr>"
  have grow: "grow_primitive_tables st (s\<lparr>MAX_PRIMITIVE := ?n\<rparr>) = Some s'"
    using s len by (simp add: grow_primitive_tables_def Let_def empty_tables_def COPY_TABLE_def s'_def flip: names_def)
  let ?e0 = "(tree_globals s)\<lparr>tree_error_message := None\<rparr>"
  have pre: "bias ?e0 \<le> 1" "length names \<le> nodes_left ?e0" "sorted_wrt (\<lambda>m n. strcmp_ci m n = -1) names"
    using st s room by (simp_all add: static_wf_def Let_def names_def empty_tables_def)
  from build_sorted [OF pre, of 0] obtain t e where t:
      "tree_build ?n names 0 ?e0 = Some (t, e)" "tree_wf t"
      "\<forall>i < ?n. node_entry (tree_lookup t (names ! i)) = Some (names ! i, 0 + of_nat i)"
      "\<forall>m. (\<forall>n \<in> set names. strcmp_ci m n \<noteq> 0) \<longrightarrow> tree_lookup t m = Null"
      "tree_error_message e = tree_error_message ?e0" "nodes_left e + ?n = nodes_left ?e0"
    by blast
  let ?s = "s'\<lparr>tree_globals := e, prim_procedure_tree := t\<rparr>"
  have found: "prim_find ?s (names ! i) = Some (names ! i, of_nat i)" if "i < ?n" for i
    using t(3) that by (simp add: prim_find_def)
  have absent: "prim_find ?s m = None" if "name_key m \<notin> name_key ` set names" for m
  proof -
    have "\<forall>n \<in> set names. strcmp_ci m n \<noteq> 0" using that by (auto simp: strcmp_ci_eq)
    then show ?thesis using t(4) by (simp add: prim_find_def)
  qed
  have ci: "prim_find ?s m = prim_find ?s n" if "name_key m = name_key n" for m n
    using names.find_ci [of "(t, e)" m n] t(2) that by (simp add: table_find_def prim_find_def)
  have range: "unat v < ?n" if h: "prim_find ?s m = Some (n', v)" for m n' v
  proof -
    obtain i where "i < ?n" "name_key m = name_key (names ! i)"
      using absent [of m] h by (fastforce simp: in_set_conv_nth)
    then have "v = of_nat i" using ci [of m "names ! i"] found [of i] h by simp
    moreover have "i < 2 ^ 64" using \<open>i < ?n\<close> size by (simp add: names_def)
    ultimately show ?thesis using \<open>i < ?n\<close> by (simp add: unat_of_nat take_bit_nat_eq_self)
  qed
  have "prims_wf ?s"
    using t(2,5) size found range len
    by (simp add: prims_wf_def s'_def table_sizes_def prim_row_def complete_row_def fetch_static flip: names_def)
  then show ?thesis using grow t(1,5,6) found absent by (auto simp: s'_def)
qed

text \<open>C32: On an initialized system, declaring or installing a primitive never leaves the
  tables and keeps their invariant: every table covers the primitive numbers in use, the name
  tree is a balanced search tree, every primitive has a complete description and is found under
  its own name. A new name gets the next primitive number and the given description, found under
  every spelling, and nothing else changes; if the tree has no storage the result is \<open>#f\<close> and
  nothing changes. An existing name gives a fixnum, its number, and leaves the tables alone when
  the arities conflict or it is implemented and may not be overridden; otherwise it gives the
  primitive, whose description alone is replaced, keeping the documentation when none is given.\<close>
theorem declare_primitive_correct:
  assumes "prims_wf s" "can_grow s"
  shows "\<exists>r s'. declare_primitive_internal st override_p name code lo hi doc s = Some (r, s') \<and> prims_wf s' \<and>
    (case prim_find s name of
       None \<Rightarrow>
         if nodes_left (tree_globals s) = 0 then
           r = SHARP_F \<and> MAX_PRIMITIVE s' = MAX_PRIMITIVE s \<and> prim_row s' = prim_row s \<and> prim_find s' = prim_find s
         else
           r = MAKE_PRIMITIVE_OBJECT (of_nat (MAX_PRIMITIVE s)) \<and> MAX_PRIMITIVE s' = MAX_PRIMITIVE s + 1 \<and>
           (\<forall>m. prim_find s' m =
             (if strcmp_ci m name = 0 then Some (name, of_nat (MAX_PRIMITIVE s)) else prim_find s m)) \<and>
           (\<forall>j \<le> MAX_PRIMITIVE s. prim_row s' j =
             (if j = MAX_PRIMITIVE s then (Some code, Some hi, Some (hi * 8), Some name, Some doc) else prim_row s j))
     | Some (n, v) \<Rightarrow>
         if keeps_old override_p hi (unat v) s then r = LONG_TO_UNSIGNED_FIXNUM (uint v) \<and> s' = s
         else
           r = MAKE_PRIMITIVE_OBJECT v \<and> MAX_PRIMITIVE s' = MAX_PRIMITIVE s \<and> prim_find s' = prim_find s \<and>
           (\<forall>j. prim_row s' j =
             (if j = unat v then (Some code, Some hi, Some (hi * 8), fetch (Primitive_Name_Table s) j,
                if doc = None then fetch (Primitive_Documentation_Table s) j else Some doc)
              else prim_row s j)))"
proof (cases "prim_find s name")
  case None
  show ?thesis
  proof (cases "nodes_left (tree_globals s) = 0")
    case True
    then show ?thesis
      using declare_out_of_memory [OF assms None True, of st override_p code lo hi doc] None by auto
  next
    case False
    then have room: "0 < nodes_left (tree_globals s)" by simp
    have ci: "strcmp_ci m name = 0 \<longleftrightarrow> name_key m = name_key name" for m by (simp add: strcmp_ci_eq)
    show ?thesis
      using declare_new [OF assms None room, of st override_p code lo hi doc] None False unfolding ci by auto
  qed
next
  case (Some e)
  obtain n v where e: "e = (n, v)" by (cases e)
  obtain s' where s': "declare_primitive_internal st override_p name code lo hi doc s =
      Some (if keeps_old override_p hi (unat v) s then LONG_TO_UNSIGNED_FIXNUM (uint v)
            else MAKE_PRIMITIVE_OBJECT v, s')" "prims_wf s'" "same_names s s'"
      "if keeps_old override_p hi (unat v) s then s' = s
     else \<forall>j. prim_row s' j =
       (if j = unat v then (Some code, Some hi, Some (hi * 8), fetch (Primitive_Name_Table s) j,
          if doc = None then fetch (Primitive_Documentation_Table s) j else Some doc)
        else prim_row s j)"
    using declare_existing [OF assms(1) Some [unfolded e], of st override_p code lo hi doc] by blast
  then show ?thesis
    using Some e same_names_find [OF s'(3)] by (simp add: same_names_def split: if_splits)
qed

text \<open>C31: Starting from empty tables and the static tables that the build generates (at least
  ten primitives, sorted by name), initialization neither fails nor reports an error, establishes
  the invariant, finds every static primitive under its own number, and makes every alias denote
  the same primitive as the name it stands for, declaring that name first when it is new.\<close>
theorem initialize_primitives_correct:
  assumes "static_wf st" "empty_tables s" "aliases_wf st aliases"
    and "length (Static_Primitive_Name_Table st) + length aliases < 2 ^ 57"
    and "length (Static_Primitive_Name_Table st) + 2 * length aliases \<le> nodes_left (tree_globals s)"
  shows "\<exists>s'. initialize_primitives st aliases s = Some (Inr s') \<and> prims_wf s' \<and>
    (\<forall>i < length (Static_Primitive_Name_Table st).
      map_option snd (prim_find s' (Static_Primitive_Name_Table st ! i)) = Some (of_nat i)) \<and>
    (\<forall>(a, n) \<in> set aliases. aliased s' a n)"
proof -
  let ?names = "Static_Primitive_Name_Table st"
  have "length ?names \<le> 2 ^ 57" "length ?names \<le> nodes_left (tree_globals s)" using assms(4,5) by simp_all
  from initialize_tables_spec [OF assms(1,2) this] obtain s1 t e where s1:
      "grow_primitive_tables st (s\<lparr>MAX_PRIMITIVE := length ?names\<rparr>) = Some s1"
      "take (length ?names) (Primitive_Name_Table s1) = List.map Some ?names"
      "MAX_PRIMITIVE s1 = length ?names" "tree_globals s1 = tree_globals s"
      "tree_build (length ?names) ?names 0 ((tree_globals s)\<lparr>tree_error_message := None\<rparr>) = Some (t, e)"
      "tree_error_message e = None" "nodes_left e + length ?names = nodes_left (tree_globals s)"
      "prims_wf (s1\<lparr>tree_globals := e, prim_procedure_tree := t\<rparr>)"
      "\<forall>i < length ?names. prim_find (s1\<lparr>tree_globals := e, prim_procedure_tree := t\<rparr>) (?names ! i) = Some (?names ! i, of_nat i)"
      "\<forall>m. name_key m \<notin> name_key ` set ?names \<longrightarrow> prim_find (s1\<lparr>tree_globals := e, prim_procedure_tree := t\<rparr>) m = None"
    by blast
  define s2 where "s2 = s1\<lparr>tree_globals := e, prim_procedure_tree := t\<rparr>"
  note s1 = s1 [folded s2_def]
  have ok: "alias_ok s2 aliases" using assms(3) s1(10) by (auto simp: alias_ok_def aliases_wf_def)
  have b: "10 \<le> MAX_PRIMITIVE s2" "MAX_PRIMITIVE s2 + length aliases < 2 ^ 57"
      "2 * length aliases \<le> nodes_left (tree_globals s2)"
    using assms(1,4,5) s1(3,7) by (simp_all add: s2_def static_wf_def Let_def)
  obtain s3 where s3: "alias_loop st aliases s2 = Some (Inr s3)" "prims_wf s3" "extends s2 s3"
      "\<forall>(a, n) \<in> set aliases. aliased s3 a n"
    using alias_loop_spec [OF s1(8) b ok] by blast
  have "initialize_primitives st aliases s = Some (Inr s3)"
    using s1(1-6) s3(1) by (simp add: initialize_primitives_def flip: s2_def)
  moreover have "prim_find s3 (?names ! i) = Some (?names ! i, of_nat i)" if "i < length ?names" for i
    using s3(3) s1(9) that by (simp add: extends_def)
  ultimately show ?thesis using s3(2,4) by auto
qed

definition sample_static :: static_prims where
  "sample_static =
    \<lparr>Static_Primitive_Procedure_Table = List.map Prim_code [0..<10],
     Static_Primitive_Arity_Table = replicate 10 1, Static_Primitive_Count_Table = replicate 10 8,
     Static_Primitive_Name_Table =
       [''CAR'', ''cdr'', ''CONS'', ''EQ?'', ''GCD'', ''LENGTH'', ''MAP'', ''NOT'', ''PAIR?'', ''VECTOR''],
     Static_Primitive_Documentation_Table = replicate 10 None\<rparr>"

definition sample_prims :: prims where
  "sample_prims =
    \<lparr>MAX_PRIMITIVE = 0, prim_table_size = 0, Primitive_Procedure_Table = [], Primitive_Arity_Table = [],
     Primitive_Count_Table = [], Primitive_Name_Table = [], Primitive_Documentation_Table = [],
     prim_procedure_tree = Null,
     tree_globals = \<lparr>tree_error_message = None, tree_error_noise = None, bias = 0, nodes_left = 100\<rparr>\<rparr>"

lemma sample_hyps:
  "static_wf sample_static" "empty_tables sample_prims"
  "aliases_wf sample_static [(''FALSE?'', ''NOT''), (''FIRST'', ''HEAD'')]"
  "length (Static_Primitive_Name_Table sample_static) = 10" "nodes_left (tree_globals sample_prims) = 100"
  by (simp_all add: sample_static_def sample_prims_def static_wf_def empty_tables_def aliases_wf_def
      toupper_def name_key_def)

theorem initialize_primitives_correct_witness:
  "\<exists>s'. initialize_primitives sample_static [(''FALSE?'', ''NOT''), (''FIRST'', ''HEAD'')] sample_prims = Some (Inr s') \<and>
    prims_wf s' \<and> aliased s' ''FALSE?'' ''NOT'' \<and> aliased s' ''FIRST'' ''HEAD''"
  using initialize_primitives_correct [OF sample_hyps(1-3)] sample_hyps(4,5) by auto

lemma sample_initialized:
  "\<exists>s t e. prims_wf (s\<lparr>tree_globals := e, prim_procedure_tree := t\<rparr>) \<and>
    can_grow (s\<lparr>tree_globals := e, prim_procedure_tree := t\<rparr>) \<and>
    prim_find (s\<lparr>tree_globals := e, prim_procedure_tree := t\<rparr>) ''first'' = None \<and>
    nodes_left e \<noteq> 0"
proof -
  have "name_key ''first'' \<notin> name_key ` set (Static_Primitive_Name_Table sample_static)"
    by (simp add: sample_static_def name_key_def toupper_def)
  moreover have "length (Static_Primitive_Name_Table sample_static) \<le> 2 ^ 57"
      "length (Static_Primitive_Name_Table sample_static) \<le> nodes_left (tree_globals sample_prims)"
    using sample_hyps(4,5) by simp_all
  ultimately show ?thesis
    using initialize_tables_spec [OF sample_hyps(1,2)] sample_hyps(4,5) unfolding can_grow_def by fastforce
qed

theorem declare_primitive_correct_witness:
  "\<exists>s r s'. prims_wf s \<and> can_grow s \<and>
    declare_primitive_internal sample_static False ''first'' (Prim_code 99) 1 1 None s = Some (r, s') \<and>
    r = MAKE_PRIMITIVE_OBJECT (of_nat (MAX_PRIMITIVE s)) \<and> prims_wf s' \<and> MAX_PRIMITIVE s' = MAX_PRIMITIVE s + 1"
proof -
  obtain s where s: "prims_wf s" "can_grow s" "prim_find s ''first'' = None" "nodes_left (tree_globals s) \<noteq> 0"
    using sample_initialized by fastforce
  show ?thesis
    using s declare_primitive_correct [OF s(1,2), of sample_static False "''first''" "Prim_code 99" 1 1 None] by auto
qed

end
