(* ===== verification/Primitive_Export.thy ===== *)
theory Primitive_Export
  imports Primitive_Table
begin

text \<open>
  The external form of the table of primitives (primutl.c): fasdump renumbers the primitives
  that an object refers to and writes their names and arities, fasload reads them back.

  A region of memory is a list of words. Strings are stored in words least significant byte
  first; \<open>memcpy\<close> keeps the bytes that it does not write. Reading a string that is not
  terminated within the region is the result \<open>None\<close>.
\<close>

subsection \<open>Bytes and words\<close>

definition word_bytes :: "ulong \<Rightarrow> int list" where
  "word_bytes w = List.map (\<lambda>i. uint w div 256 ^ i mod 256) [0..<8]"

definition bytes_word :: "int list \<Rightarrow> ulong" where
  "bytes_word bs = word_of_int (rval 256 bs)"

definition memory_bytes :: "ulong list \<Rightarrow> int list" where
  "memory_bytes ws = concat (List.map word_bytes ws)"

fun bytes_memory :: "int list \<Rightarrow> ulong list" where
  "bytes_memory bs = (if bs = [] then [] else bytes_word (take 8 bs) # bytes_memory (drop 8 bs))"
declare bytes_memory.simps [simp del]

definition memcpy :: "ulong list \<Rightarrow> int list \<Rightarrow> ulong list" where
  "memcpy ws bs = bytes_memory (bs @ drop (length bs) (memory_bytes ws))"

definition string_bytes :: "string \<Rightarrow> int list" where
  "string_bytes s = List.map of_char s"

definition bytes_string :: "int list \<Rightarrow> string option" where
  "bytes_string bs =
    (if 0 \<in> set bs then Some (List.map char_of (takeWhile (\<lambda>b. b \<noteq> 0) bs)) else None)"

lemma digit_of_rval:
  assumes "digits_in B ds" "0 < B" "i < length ds"
  shows "rval B ds div B ^ i mod B = ds ! i"
  using assms
proof (induction i arbitrary: ds)
  case 0
  then show ?case by (cases ds) (auto simp: rval_div_mod(2))
next
  case (Suc i)
  then obtain d ds' where ds: "ds = d # ds'" by (cases ds) auto
  have "rval B ds div B ^ Suc i = rval B ds div B div B ^ i"
    using Suc.prems(2) by (simp add: zdiv_zmult2_eq)
  then show ?case using Suc.IH [of ds'] Suc.prems rval_div_mod(1) [of B d ds'] by (simp add: ds)
qed

lemma word_bytes_word:
  assumes "digits_in 256 bs" "length bs = 8"
  shows "word_bytes (bytes_word bs) = bs"
proof -
  have "rval 256 bs < 2 ^ 64" using rval_less [OF assms(1)] assms(2) by simp
  then have "uint (bytes_word bs) = rval 256 bs"
    using rval_nonneg [OF assms(1)] by (simp add: bytes_word_def uint_word_of_int take_bit_int_eq_self)
  then show ?thesis
    using digit_of_rval [OF assms(1)] assms(2) by (intro nth_equalityI) (simp_all add: word_bytes_def)
qed

lemma length_word_bytes [simp]: "length (word_bytes w) = 8"
  by (simp add: word_bytes_def)

lemma length_memory_bytes [simp]: "length (memory_bytes ws) = 8 * length ws"
  by (induction ws) (simp_all add: memory_bytes_def)

lemma memory_bytes_range: "digits_in 256 (memory_bytes ws)"
  by (auto simp: digits_in_def memory_bytes_def word_bytes_def)

lemma memory_bytes_memory:
  assumes "digits_in 256 bs" "length bs = 8 * n"
  shows "memory_bytes (bytes_memory bs) = bs" "length (bytes_memory bs) = n"
  using assms
proof (induction n arbitrary: bs)
  case 0
  {
    case 1
    then show ?case using 0 by (simp add: bytes_memory.simps memory_bytes_def)
  next
    case 2
    then show ?case using 0 by (simp add: bytes_memory.simps)
  }
next
  case (Suc n)
  {
    case 1
    have "digits_in 256 (take 8 bs)" "digits_in 256 (drop 8 bs)" using 1 by (simp_all add: digits_in_take_drop)
    then show ?case using 1 Suc.IH(1) [of "drop 8 bs"]
      by (simp add: bytes_memory.simps [of bs] memory_bytes_def word_bytes_word)
  next
    case 2
    have "digits_in 256 (drop 8 bs)" using 2 by (simp add: digits_in_take_drop)
    then show ?case using 2 Suc.IH(2) [of "drop 8 bs"] by (auto simp: bytes_memory.simps [of bs])
  }
qed

lemma memcpy_bytes:
  assumes "digits_in 256 bs" "length bs \<le> 8 * length ws"
  shows "memory_bytes (memcpy ws bs) = bs @ drop (length bs) (memory_bytes ws)"
    and "length (memcpy ws bs) = length ws"
  unfolding memcpy_def using assms
  by (intro memory_bytes_memory; simp add: digits_in_take_drop memory_bytes_range)+

lemma string_bytes_range: "digits_in 256 (string_bytes s)"
proof -
  have "(0::int) \<le> of_char c \<and> of_char c < (256::int)" for c
    using pos_mod_bound [of 256 "of_char c :: int"] pos_mod_sign [of 256 "of_char c :: int"] by simp
  then show ?thesis by (auto simp: digits_in_def string_bytes_def)
qed

lemma bytes_string_bytes:
  assumes "CHR 0x00 \<notin> set s"
  shows "bytes_string (string_bytes s @ 0 # rest) = Some s"
proof -
  have "(of_char c :: int) \<noteq> 0" if "c \<in> set s" for c
  proof
    assume "(of_char c :: int) = 0"
    then have "char_of (of_char c :: int) = CHR 0x00" by (simp add: char_of_def)
    then have "c = CHR 0x00" by (simp only: char_of_char)
    with that assms show False by simp
  qed
  then have "takeWhile (\<lambda>b. b \<noteq> 0) (string_bytes s @ 0 # rest) = string_bytes s"
    by (auto simp: string_bytes_def takeWhile_append)
  then show ?thesis by (simp add: bytes_string_def string_bytes_def comp_def)
qed

subsection \<open>Renumbering\<close>

record prim_renumber =
  internal :: "ulong list"
  external :: "ulong list"
  next_code :: ulong

definition ULONG_MAX :: ulong where "ULONG_MAX = - 1"

definition make_prim_renumber_1 :: "nat \<Rightarrow> prim_renumber" where
  "make_prim_renumber_1 n_entries =
    \<lparr>internal = replicate n_entries ULONG_MAX, external = replicate n_entries ULONG_MAX, next_code = 0\<rparr>"

definition make_prim_renumber :: "prims \<Rightarrow> prim_renumber" where
  "make_prim_renumber s = make_prim_renumber_1 (MAX_PRIMITIVE s)"

definition renumber_primitive :: "scheme_object \<Rightarrow> prim_renumber \<Rightarrow> (scheme_object \<times> prim_renumber) option" where
  "renumber_primitive primitive pr =
    (let old = OBJECT_DATUM primitive in
     if length (internal pr) \<le> unat old then None
     else
       let new = internal pr ! unat old in
       if new = ULONG_MAX then
         let new = next_code pr in
         if length (external pr) \<le> unat new then None
         else Some (OBJECT_NEW_DATUM primitive new,
           pr\<lparr>internal := (internal pr)[unat old := new], external := (external pr)[unat new := old],
              next_code := next_code pr + 1\<rparr>)
       else Some (OBJECT_NEW_DATUM primitive new, pr))"

definition renumber_wf :: "nat \<Rightarrow> prim_renumber \<Rightarrow> bool" where
  "renumber_wf n pr \<longleftrightarrow>
    n \<le> 2 ^ 57 \<and> length (internal pr) = n \<and> length (external pr) = n \<and> unat (next_code pr) \<le> n \<and>
    (\<forall>c < unat (next_code pr). unat (external pr ! c) < n \<and> internal pr ! unat (external pr ! c) = of_nat c) \<and>
    (\<forall>i < n. internal pr ! i \<noteq> ULONG_MAX \<longrightarrow>
      unat (internal pr ! i) < unat (next_code pr) \<and> external pr ! unat (internal pr ! i) = of_nat i)"

lemma make_prim_renumber_wf: "prims_wf s \<Longrightarrow> renumber_wf (MAX_PRIMITIVE s) (make_prim_renumber s)"
  using prims_wfD(3) [of s] by (simp add: renumber_wf_def make_prim_renumber_def make_prim_renumber_1_def)

lemma unat_small: "n \<le> 2 ^ 57 \<Longrightarrow> unat (of_nat n :: ulong) = n"
  by (simp add: unat_of_nat take_bit_nat_eq_self)

lemma unat_Suc_small:
  fixes w :: ulong
  assumes "unat w < 2 ^ 57"
  shows "unat (w + 1) = Suc (unat w)"
proof -
  have "w + 1 = of_nat (Suc (unat w))" by simp
  then show ?thesis using unat_small [of "Suc (unat w)"] assms by (simp only: Suc_leI)
qed

lemma of_nat_not_ULONG_MAX: "n \<le> 2 ^ 57 \<Longrightarrow> (of_nat n :: ulong) \<noteq> ULONG_MAX"
proof
  assume "n \<le> 2 ^ 57" "(of_nat n :: ulong) = ULONG_MAX"
  then have "(of_nat (Suc n) :: ulong) = 0" by (simp add: ULONG_MAX_def)
  then have "unat (of_nat (Suc n) :: ulong) = 0" by (simp only: unat_0)
  with \<open>n \<le> 2 ^ 57\<close> show False by (simp add: unat_of_nat take_bit_nat_eq_self del: of_nat_Suc)
qed

text \<open>While some primitive has no code yet, there is a free code.\<close>

lemma renumber_room:
  assumes wf: "renumber_wf n pr" and old: "old < n" "internal pr ! old = ULONG_MAX"
  shows "unat (next_code pr) < n"
proof -
  let ?f = "\<lambda>c. unat (external pr ! c)" and ?k = "unat (next_code pr)"
  have small: "c \<le> 2 ^ 57" if "c < ?k" for c using wf that by (simp add: renumber_wf_def)
  have bk: "?f c < n" "internal pr ! ?f c = of_nat c" if "c < ?k" for c
    using wf that by (simp_all add: renumber_wf_def)
  have "inj_on ?f {..<?k}"
  proof (rule inj_onI)
    fix c d assume h: "c \<in> {..<?k}" "d \<in> {..<?k}" "?f c = ?f d"
    then have "(of_nat c :: ulong) = of_nat d" using bk(2) [of c] bk(2) [of d] by simp
    then show "c = d" using unat_small [OF small] h by (metis lessThan_iff)
  qed
  moreover have "?f ` {..<?k} \<subseteq> {..<n} - {old}"
    using bk old(2) of_nat_not_ULONG_MAX [OF small] by fastforce
  ultimately have "card {..<?k} \<le> card ({..<n} - {old})"
    by (metis card_inj_on_le finite_Diff finite_lessThan)
  then show ?thesis using old(1) by (simp add: card_Diff_singleton)
qed

lemma renumber_new_wf:
  assumes wf: "renumber_wf n pr" and old: "unat old < n" "internal pr ! unat old = ULONG_MAX"
  shows "renumber_wf n (pr\<lparr>internal := (internal pr)[unat old := next_code pr],
    external := (external pr)[unat (next_code pr) := old], next_code := next_code pr + 1\<rparr>)"
proof -
  let ?k = "unat (next_code pr)"
  let ?I = "(internal pr)[unat old := next_code pr]" and ?E = "(external pr)[?k := old]"
  have k: "?k < n" by (rule renumber_room [OF assms])
  have n: "n \<le> 2 ^ 57" "length (internal pr) = n" "length (external pr) = n" using wf by (simp_all add: renumber_wf_def)
  have ext: "unat (external pr ! c) < n" "internal pr ! unat (external pr ! c) = of_nat c" if "c < ?k" for c
    using wf that by (simp_all add: renumber_wf_def)
  have int: "unat (internal pr ! i) < ?k" "external pr ! unat (internal pr ! i) = of_nat i"
    if "i < n" "internal pr ! i \<noteq> ULONG_MAX" for i
    using wf that by (simp_all add: renumber_wf_def)
  have k1: "unat (next_code pr + 1) = Suc ?k" using k n(1) by (intro unat_Suc_small) simp
  have "unat (?E ! c) < n \<and> ?I ! unat (?E ! c) = of_nat c" if "c < Suc ?k" for c
  proof (cases "c = ?k")
    case True
    then show ?thesis using old(1) k n by simp
  next
    case False
    then have "c < ?k" using that by simp
    moreover have "unat (external pr ! c) \<noteq> unat old"
      using ext(2) [OF \<open>c < ?k\<close>] old(2) of_nat_not_ULONG_MAX [of c] k n(1) \<open>c < ?k\<close> by auto
    ultimately show ?thesis using ext [of c] k n False by simp
  qed
  moreover have "unat (?I ! i) < Suc ?k \<and> ?E ! unat (?I ! i) = of_nat i" if "i < n" "?I ! i \<noteq> ULONG_MAX" for i
  proof (cases "i = unat old")
    case True
    then show ?thesis using k n old(1) by simp
  next
    case False
    then show ?thesis using int [of i] that n by (simp add: nth_list_update)
  qed
  ultimately show ?thesis using k n k1 by (simp add: renumber_wf_def)
qed

text \<open>C33: Renumbering a primitive object of a valid table always succeeds: it keeps the type of
  the object, gives it a code below \<open>next_code\<close> under which the external table holds the old
  number, leaves every code that was assigned before unchanged and keeps codes contiguous (a new
  primitive gets exactly the next code). The two tables stay inverse to each other.\<close>
theorem renumber_primitive_correct:
  assumes wf: "renumber_wf n pr" and p: "unat (OBJECT_DATUM p) < n"
  shows "\<exists>p' pr'. renumber_primitive p pr = Some (p', pr') \<and> renumber_wf n pr' \<and>
    OBJECT_TYPE p' = OBJECT_TYPE p \<and> unat (OBJECT_DATUM p') < unat (next_code pr') \<and>
    external pr' ! unat (OBJECT_DATUM p') = OBJECT_DATUM p \<and>
    unat (next_code pr') = unat (next_code pr) + (if internal pr ! unat (OBJECT_DATUM p) = ULONG_MAX then 1 else 0) \<and>
    (\<forall>c < unat (next_code pr). external pr' ! c = external pr ! c)"
proof -
  let ?old = "OBJECT_DATUM p" and ?k = "unat (next_code pr)"
  have n: "n \<le> 2 ^ 57" "length (internal pr) = n" "length (external pr) = n" using wf by (simp_all add: renumber_wf_def)
  have small: "w < 2 ^ 58" if "unat w < n" for w :: ulong
    using that n(1) by (simp add: word_less_nat_alt)
  have obj: "OBJECT_TYPE (OBJECT_NEW_DATUM p w) = OBJECT_TYPE p" "OBJECT_DATUM (OBJECT_NEW_DATUM p w) = w"
    if "unat w < n" for w
    using small [OF that] by (simp_all add: OBJECT_NEW_DATUM_def)
  show ?thesis
  proof (cases "internal pr ! unat ?old = ULONG_MAX")
    case True
    have k: "?k < n" by (rule renumber_room [OF wf p True])
    have k1: "unat (next_code pr + 1) = Suc ?k" using k n(1) by (intro unat_Suc_small) simp
    show ?thesis
      using renumber_new_wf [OF wf p True] True p k n obj [OF k] k1
      by (simp add: renumber_primitive_def Let_def)
  next
    case False
    then have "unat (internal pr ! unat ?old) < ?k" "external pr ! unat (internal pr ! unat ?old) = of_nat (unat ?old)"
      using wf p by (simp_all add: renumber_wf_def)
    moreover have "?k \<le> n" using wf by (simp add: renumber_wf_def)
    ultimately show ?thesis
      using False wf p n obj [of "internal pr ! unat ?old"] by (simp add: renumber_primitive_def Let_def)
  qed
qed

theorem renumber_primitive_correct_witness:
  "renumber_wf 5 (make_prim_renumber_1 5) \<and>
   (\<exists>p' pr'. renumber_primitive (MAKE_PRIMITIVE_OBJECT 3) (make_prim_renumber_1 5) = Some (p', pr') \<and>
      external pr' ! unat (OBJECT_DATUM p') = 3 \<and> unat (next_code pr') = 1)"
proof -
  have wf: "renumber_wf 5 (make_prim_renumber_1 5)" by (simp add: renumber_wf_def make_prim_renumber_1_def)
  have d: "OBJECT_DATUM (MAKE_PRIMITIVE_OBJECT 3) = 3" by (simp add: MAKE_PRIMITIVE_OBJECT_def TC_PRIMITIVE_def)
  have u: "internal (make_prim_renumber_1 5) ! 3 = ULONG_MAX" "unat (next_code (make_prim_renumber_1 5)) = 0"
    by (simp_all add: make_prim_renumber_1_def)
  show ?thesis using wf renumber_primitive_correct [OF wf, of "MAKE_PRIMITIVE_OBJECT 3"] d u by auto
qed

subsection \<open>Writing and reading the table\<close>

definition BYTES_TO_WORDS :: "nat \<Rightarrow> nat" where
  "BYTES_TO_WORDS nbytes = (nbytes + 7) div 8"

definition STRING_LENGTH_TO_GC_LENGTH :: "nat \<Rightarrow> nat" where
  "STRING_LENGTH_TO_GC_LENGTH n_chars = BYTES_TO_WORDS (n_chars + 1) + 1"

definition make_table_entry :: "prims \<Rightarrow> nat \<Rightarrow> ulong list \<Rightarrow> (ulong list \<times> ulong list) option" where
  "make_table_entry s code start =
    (let source = (case fetch (Primitive_Name_Table s) code of None \<Rightarrow> [] | Some n \<Rightarrow> n);
         n_chars = length source;
         n_words = STRING_LENGTH_TO_GC_LENGTH n_chars
     in do { arity \<leftarrow> fetch (Primitive_Arity_Table s) code;
             if length start < n_words + 2 then None
             else Some ([LONG_TO_FIXNUM arity, MAKE_OBJECT TC_MANIFEST_NM_VECTOR (of_nat n_words),
                         MAKE_OBJECT 0 (of_nat n_chars)] @
                        memcpy (take (n_words - 1) (drop 3 start)) (string_bytes source @ [0]),
                        drop (n_words + 2) start) })"

definition table_entry_length :: "prims \<Rightarrow> nat \<Rightarrow> nat" where
  "table_entry_length s code =
    STRING_LENGTH_TO_GC_LENGTH (case fetch (Primitive_Name_Table s) code of None \<Rightarrow> 0 | Some n \<Rightarrow> length n) + 2"

fun export_entries :: "prims \<Rightarrow> nat list \<Rightarrow> ulong list \<Rightarrow> ulong list option" where
  "export_entries s [] start = Some []"
| "export_entries s (code # codes) start =
    do { (entry, start) \<leftarrow> make_table_entry s code start;
         rest \<leftarrow> export_entries s codes start;
         Some (entry @ rest) }"

definition export_renumbered_primitives :: "prims \<Rightarrow> ulong list \<Rightarrow> prim_renumber \<Rightarrow> ulong list option" where
  "export_renumbered_primitives s start pr =
    export_entries s (List.map unat (take (unat (next_code pr)) (external pr))) start"

definition renumbered_primitives_export_length :: "prims \<Rightarrow> prim_renumber \<Rightarrow> nat" where
  "renumbered_primitives_export_length s pr =
    sum_list (List.map (table_entry_length s) (List.map unat (take (unat (next_code pr)) (external pr))))"

definition export_primitive_table :: "prims \<Rightarrow> ulong list \<Rightarrow> ulong list option" where
  "export_primitive_table s start = export_entries s [0..<MAX_PRIMITIVE s] start"

definition primitive_table_export_length :: "prims \<Rightarrow> nat" where
  "primitive_table_export_length s = sum_list (List.map (table_entry_length s) [0..<MAX_PRIMITIVE s])"

fun import_primitive_table ::
  "static_prims \<Rightarrow> ulong list \<Rightarrow> nat \<Rightarrow> prims \<Rightarrow> (prim_table_error + scheme_object list \<times> prims) option"
where
  "import_primitive_table st buf 0 s = Some (Inr ([], s))"
| "import_primitive_table st buf (Suc n_entries) s =
    (if length buf < 2 then Some (Inl Fasl_File_Bad_Data)
     else
       let n_words = unat (OBJECT_DATUM (buf ! 1)) in
       if n_words > length buf - 2 then Some (Inl Fasl_File_Bad_Data)
       else
         do { name \<leftarrow> bytes_string (memory_bytes (drop 3 buf));
              r \<leftarrow> find_primitive_cname st name True True (FIXNUM_TO_LONG (buf ! 0)) s;
              case r of
                Inl err \<Rightarrow> Some (Inl err)
              | Inr (prim, s) \<Rightarrow>
                  if \<not> PRIMITIVE_P prim then Some (Inl Wrong_Arity_Primitives)
                  else
                    do { r \<leftarrow> import_primitive_table st (drop (2 + n_words) buf) n_entries s;
                         Some (case r of
                           Inl err \<Rightarrow> Inl err
                         | Inr (prims, s) \<Rightarrow> Inr (prim # prims, s)) } })"

lemma entry_words:
  "8 * (STRING_LENGTH_TO_GC_LENGTH n - 1) \<ge> n + 1" "STRING_LENGTH_TO_GC_LENGTH n \<ge> 2"
  by (simp_all add: STRING_LENGTH_TO_GC_LENGTH_def BYTES_TO_WORDS_def)

definition exportable :: "prims \<Rightarrow> bool" where
  "exportable s \<longleftrightarrow>
    (\<forall>i < MAX_PRIMITIVE s.
      (\<forall>a. fetch (Primitive_Arity_Table s) i = Some a \<longrightarrow> fits_fixnum a) \<and>
      (\<forall>n. fetch (Primitive_Name_Table s) i = Some n \<longrightarrow> CHR 0x00 \<notin> set n \<and> length n < 2 ^ 57))"

lemma make_table_entry_spec:
  assumes "fetch (Primitive_Name_Table s) code = Some n" "fetch (Primitive_Arity_Table s) code = Some a"
    and "table_entry_length s code \<le> length start"
  defines "k \<equiv> STRING_LENGTH_TO_GC_LENGTH (length n)"
  shows "\<exists>ws. make_table_entry s code start =
      Some (LONG_TO_FIXNUM a # MAKE_OBJECT TC_MANIFEST_NM_VECTOR (of_nat k) # MAKE_OBJECT 0 (of_nat (length n)) # ws,
        drop (table_entry_length s code) start) \<and>
    length ws = k - 1 \<and> (\<exists>junk. memory_bytes ws = string_bytes n @ 0 # junk)"
proof -
  have len: "table_entry_length s code = k + 2" using assms(1) by (simp add: table_entry_length_def k_def)
  let ?r = "take (k - 1) (drop 3 start)"
  have r: "length ?r = k - 1" using assms(3) len entry_words(2) [of "length n"] by (simp add: k_def)
  have b: "digits_in 256 (string_bytes n @ [0])" "length (string_bytes n @ [0]) \<le> 8 * length ?r"
    using string_bytes_range entry_words(1) [of "length n"] r by (simp_all add: k_def string_bytes_def)
  show ?thesis
    using assms(1-3) len memcpy_bytes [OF b] r by (simp add: make_table_entry_def Let_def flip: k_def)
qed

lemma find_exported:
  assumes wf: "prims_wf s" and i: "i < MAX_PRIMITIVE s"
    and row: "fetch (Primitive_Name_Table s) i = Some n" "fetch (Primitive_Arity_Table s) i = Some a"
  shows "find_primitive_cname st n True True a s = Some (Inr (MAKE_PRIMITIVE_OBJECT (of_nat i), s))"
    and "PRIMITIVE_P (MAKE_PRIMITIVE_OBJECT (of_nat i))"
proof -
  have u: "unat (of_nat i :: ulong) = i" using i prims_wfD(3) [OF wf] unat_small [of i] by simp
  obtain n' where "prim_find s n = Some (n', of_nat i)" using prims_wfD(7) [OF wf i row(1)] by blast
  then obtain h l r where node: "tree_lookup (prim_procedure_tree s) n = Node h l r n' (of_nat i)"
    by (auto simp: prim_find_node)
  have num: "PRIMITIVE_NUMBER (MAKE_PRIMITIVE_OBJECT (of_nat i)) = of_nat i" "PRIMITIVE_P (MAKE_PRIMITIVE_OBJECT (of_nat i))"
    using PRIMITIVE_NUMBER_MAKE [OF wf, of "of_nat i"] u i by simp_all
  obtain p where "fetch (Primitive_Procedure_Table s) i = Some p"
    using table_sizes_fetch [OF prims_wfD(6) [OF wf i]] by blast
  then show "find_primitive_cname st n True True a s = Some (Inr (MAKE_PRIMITIVE_OBJECT (of_nat i), s))"
    using row(2) u by (simp add: find_primitive_cname_def node Let_def IMPLEMENTED_PRIMITIVE_P_def PRIMITIVE_ARITY_def num)
  show "PRIMITIVE_P (MAKE_PRIMITIVE_OBJECT (of_nat i))" by (rule num(2))
qed

lemma export_import:
  assumes wf: "prims_wf s" and ex: "exportable s"
    and "\<forall>c \<in> set codes. c < MAX_PRIMITIVE s"
    and "sum_list (List.map (table_entry_length s) codes) \<le> length start"
  shows "\<exists>ws. export_entries s codes start = Some ws \<and>
    length ws = sum_list (List.map (table_entry_length s) codes) \<and>
    import_primitive_table st ws (length codes) s =
      Some (Inr (List.map (\<lambda>c. MAKE_PRIMITIVE_OBJECT (of_nat c)) codes, s))"
  using assms(3,4)
proof (induction codes arbitrary: start)
  case Nil
  then show ?case by simp
next
  case (Cons c codes)
  have c: "c < MAX_PRIMITIVE s" using Cons.prems(1) by simp
  obtain n a where row: "fetch (Primitive_Name_Table s) c = Some n" "fetch (Primitive_Arity_Table s) c = Some a"
    using table_sizes_fetch [OF prims_wfD(6) [OF wf c]] by blast
  have n: "fits_fixnum a" "CHR 0x00 \<notin> set n" "length n < 2 ^ 57"
    using ex c row by (auto simp: exportable_def)
  let ?k = "STRING_LENGTH_TO_GC_LENGTH (length n)"
  have len: "table_entry_length s c = ?k + 2" using row(1) by (simp add: table_entry_length_def)
  have k: "unat (OBJECT_DATUM (MAKE_OBJECT TC_MANIFEST_NM_VECTOR (of_nat ?k))) = ?k"
  proof -
    have "?k \<le> 2 ^ 57" using n(3) by (simp add: STRING_LENGTH_TO_GC_LENGTH_def BYTES_TO_WORDS_def)
    then have "unat (of_nat ?k :: ulong) = ?k" by (rule unat_small)
    moreover then have "(of_nat ?k :: ulong) < 2 ^ 58" using \<open>?k \<le> 2 ^ 57\<close> by (simp add: word_less_nat_alt)
    ultimately show ?thesis by (simp add: TC_MANIFEST_NM_VECTOR_def)
  qed
  obtain ws junk where ws: "make_table_entry s c start =
      Some (LONG_TO_FIXNUM a # MAKE_OBJECT TC_MANIFEST_NM_VECTOR (of_nat ?k) # MAKE_OBJECT 0 (of_nat (length n)) # ws,
        drop (table_entry_length s c) start)" "length ws = ?k - 1" "memory_bytes ws = string_bytes n @ 0 # junk"
    using make_table_entry_spec [OF row, of start] Cons.prems(2) by auto
  have room: "\<forall>c \<in> set codes. c < MAX_PRIMITIVE s"
      "sum_list (List.map (table_entry_length s) codes) \<le> length (drop (table_entry_length s c) start)"
    using Cons.prems by simp_all
  obtain rest where rest: "export_entries s codes (drop (table_entry_length s c) start) = Some rest"
      "length rest = sum_list (List.map (table_entry_length s) codes)"
      "import_primitive_table st rest (length codes) s =
        Some (Inr (List.map (\<lambda>c. MAKE_PRIMITIVE_OBJECT (of_nat c)) codes, s))"
    using Cons.IH [OF room] by blast
  have name: "bytes_string (memory_bytes (ws @ rest)) = Some n"
    using bytes_string_bytes [OF n(2), of "junk @ memory_bytes rest"] ws(3) by (simp add: memory_bytes_def)
  have k2: "2 \<le> ?k" by (rule entry_words(2))
  have "drop (2 + ?k) (LONG_TO_FIXNUM a # MAKE_OBJECT TC_MANIFEST_NM_VECTOR (of_nat ?k) #
      MAKE_OBJECT 0 (of_nat (length n)) # ws @ rest) = rest"
    using k2 ws(2) by (simp add: drop_Cons' )
  then show ?case
    using ws(1,2) rest k2 len k name find_exported(1) [OF wf c row, of st] find_exported(2) [OF wf c row] n(1)
    by (simp add: Let_def numeral_3_eq_3)
qed

text \<open>C34: Exporting the whole table of primitives, or the primitives that a renumbering has
  collected, into a region of the announced length fills exactly that length, and importing it
  into the same system gives back the primitives, in the order of their external codes, and
  leaves the tables unchanged.\<close>
theorem primitive_table_roundtrip:
  assumes wf: "prims_wf s" and ex: "exportable s" and pr: "renumber_wf (MAX_PRIMITIVE s) pr"
  shows "(primitive_table_export_length s \<le> length start \<longrightarrow>
      (\<exists>ws. export_primitive_table s start = Some ws \<and> length ws = primitive_table_export_length s \<and>
        import_primitive_table st ws (MAX_PRIMITIVE s) s =
          Some (Inr (List.map (\<lambda>c. MAKE_PRIMITIVE_OBJECT (of_nat c)) [0..<MAX_PRIMITIVE s], s)))) \<and>
    (renumbered_primitives_export_length s pr \<le> length start \<longrightarrow>
      (\<exists>ws. export_renumbered_primitives s start pr = Some ws \<and>
        length ws = renumbered_primitives_export_length s pr \<and>
        import_primitive_table st ws (unat (next_code pr)) s =
          Some (Inr (List.map MAKE_PRIMITIVE_OBJECT (take (unat (next_code pr)) (external pr)), s))))"
proof (intro conjI impI)
  assume "primitive_table_export_length s \<le> length start"
  then show "\<exists>ws. export_primitive_table s start = Some ws \<and> length ws = primitive_table_export_length s \<and>
        import_primitive_table st ws (MAX_PRIMITIVE s) s =
          Some (Inr (List.map (\<lambda>c. MAKE_PRIMITIVE_OBJECT (of_nat c)) [0..<MAX_PRIMITIVE s], s))"
    using export_import [OF wf ex, of "[0..<MAX_PRIMITIVE s]" start st]
    by (simp add: export_primitive_table_def primitive_table_export_length_def)
next
  let ?codes = "List.map unat (take (unat (next_code pr)) (external pr))"
  assume "renumbered_primitives_export_length s pr \<le> length start"
  moreover have "\<forall>c \<in> set ?codes. c < MAX_PRIMITIVE s"
    using pr by (auto simp: renumber_wf_def in_set_conv_nth)
  moreover have "length ?codes = unat (next_code pr)" using pr by (simp add: renumber_wf_def)
  ultimately show "\<exists>ws. export_renumbered_primitives s start pr = Some ws \<and>
        length ws = renumbered_primitives_export_length s pr \<and>
        import_primitive_table st ws (unat (next_code pr)) s =
          Some (Inr (List.map MAKE_PRIMITIVE_OBJECT (take (unat (next_code pr)) (external pr)), s))"
    using export_import [OF wf ex, of ?codes start st]
    by (simp add: export_renumbered_primitives_def renumbered_primitives_export_length_def comp_def)
qed

lemma sample_lengths:
  "length (Static_Primitive_Arity_Table sample_static) = 10" "length (Static_Primitive_Count_Table sample_static) = 10"
  "length (Static_Primitive_Name_Table sample_static) = 10" "length (Static_Primitive_Documentation_Table sample_static) = 10"
  "length (Static_Primitive_Procedure_Table sample_static) = 10"
  by (simp_all add: sample_static_def)

lemma sample_exportable:
  "\<exists>s. prims_wf s \<and> exportable s \<and> MAX_PRIMITIVE s = 10"
proof -
  have len: "length (Static_Primitive_Name_Table sample_static) \<le> 2 ^ 57"
      "length (Static_Primitive_Name_Table sample_static) \<le> nodes_left (tree_globals sample_prims)"
    using sample_hyps(4,5) by simp_all
  obtain s' t e where s': "grow_primitive_tables sample_static (sample_prims\<lparr>MAX_PRIMITIVE := 10\<rparr>) = Some s'"
      "MAX_PRIMITIVE s' = 10" "prims_wf (s'\<lparr>tree_globals := e, prim_procedure_tree := t\<rparr>)"
    using initialize_tables_spec [OF sample_hyps(1,2) len] unfolding sample_hyps(4) by blast
  have "empty_tables sample_prims" by (rule sample_hyps(2))
  then have "Primitive_Arity_Table s' = List.map Some (Static_Primitive_Arity_Table sample_static) @ replicate 1 None"
      "Primitive_Name_Table s' = List.map Some (Static_Primitive_Name_Table sample_static) @ replicate 1 None"
    using s'(1) sample_lengths
    by (auto simp: grow_primitive_tables_def COPY_TABLE_def empty_tables_def Let_def split: if_splits bind_splits)
  moreover have "\<forall>a \<in> set (Static_Primitive_Arity_Table sample_static). fits_fixnum a"
    by (simp add: sample_static_def fits_fixnum_def SMALLEST_FIXNUM_def BIGGEST_FIXNUM_def)
  moreover have "\<forall>n \<in> set (Static_Primitive_Name_Table sample_static). CHR 0x00 \<notin> set n \<and> length n < 2 ^ 57"
    by (simp add: sample_static_def)
  ultimately have "exportable (s'\<lparr>tree_globals := e, prim_procedure_tree := t\<rparr>)"
    using sample_lengths by (auto simp: exportable_def fetch_static [of _ 1, simplified] split: if_splits)
  then show ?thesis using s'(2,3) by (intro exI [of _ "s'\<lparr>tree_globals := e, prim_procedure_tree := t\<rparr>"]) simp
qed

theorem primitive_table_roundtrip_witness:
  "\<exists>s ws. prims_wf s \<and> MAX_PRIMITIVE s = 10 \<and>
    export_primitive_table s (replicate (primitive_table_export_length s) 0) = Some ws \<and>
    import_primitive_table sample_static ws 10 s =
      Some (Inr (List.map (\<lambda>c. MAKE_PRIMITIVE_OBJECT (of_nat c)) [0..<10], s))"
proof -
  obtain s where s: "prims_wf s" "exportable s" "MAX_PRIMITIVE s = 10" using sample_exportable by blast
  show ?thesis
    using primitive_table_roundtrip [OF s(1,2) make_prim_renumber_wf [OF s(1)],
        of "replicate (primitive_table_export_length s) 0" sample_static] s by auto
qed

end
