(* ===== verification/Symbol_Table.thy ===== *)
theory Symbol_Table
  imports Heap_Correct Primitive_Export
begin

text \<open>
  Symbols (intern.c): the table of interned symbols is a vector of buckets in the fixed objects. A
  bucket is a chain of pairs and weak pairs whose CARs are symbols; a symbol whose global value cell is
  in use is held by a pair, the others by weak pairs, whose entries the searches remove once the
  collector has reclaimed the symbol. Bytes are stored in words least significant byte first.

  Division by a table of no buckets or by a zero denominator is \<open>Undefined_Behaviour\<close>. A failed
  assertion, which only a build with debugging tools checks, is the exit \<open>Term_Exit\<close>.
\<close>

subsection \<open>Strings\<close>

definition TC_UNINTERNED_SYMBOL :: ulong where "TC_UNINTERNED_SYMBOL = 0x05"
definition TC_INTERNED_SYMBOL :: ulong where "TC_INTERNED_SYMBOL = 0x1D"
definition TC_UNICODE_STRING :: ulong where "TC_UNICODE_STRING = 0x1B"
definition TC_BYTEVECTOR :: ulong where "TC_BYTEVECTOR = 0x33"

definition LEGACY_STRING_P :: "scheme_object \<Rightarrow> bool" where
  "LEGACY_STRING_P object \<longleftrightarrow> OBJECT_TYPE object = TC_CHARACTER_STRING"
definition BYTEVECTOR_P :: "scheme_object \<Rightarrow> bool" where
  "BYTEVECTOR_P object \<longleftrightarrow> OBJECT_TYPE object = TC_BYTEVECTOR"
definition UNICODE_STRING_P :: "scheme_object \<Rightarrow> bool" where
  "UNICODE_STRING_P object \<longleftrightarrow> OBJECT_TYPE object = TC_UNICODE_STRING"

definition BYTEVECTOR_LENGTH_INDEX :: nat where "BYTEVECTOR_LENGTH_INDEX = 1"
definition BYTEVECTOR_DATA :: nat where "BYTEVECTOR_DATA = 2"

definition UNICODE_STRING_FLAGS :: "scheme_object \<Rightarrow> machine \<Rightarrow> ulong" where
  "UNICODE_STRING_FLAGS u m = OBJECT_TYPE (MEMORY_REF u 1 m)"
definition UNICODE_STRING_BYTES_PER_CP :: "scheme_object \<Rightarrow> machine \<Rightarrow> ulong" where
  "UNICODE_STRING_BYTES_PER_CP u m =
    (if UNICODE_STRING_FLAGS u m AND 3 = 0 then 3 else UNICODE_STRING_FLAGS u m AND 3)"

definition string_p :: "scheme_object \<Rightarrow> machine \<Rightarrow> bool" where
  "string_p object m \<longleftrightarrow>
    LEGACY_STRING_P object \<or> BYTEVECTOR_P object \<or> (UNICODE_STRING_P object \<and> UNICODE_STRING_BYTES_PER_CP object m = 1)"

definition STRING_LENGTH :: "scheme_object \<Rightarrow> machine \<Rightarrow> nat" where
  "STRING_LENGTH v m = unat (OBJECT_DATUM (MEMORY_REF v BYTEVECTOR_LENGTH_INDEX m))"

text \<open>The \<open>length\<close> bytes at \<open>STRING_POINTER (v)\<close>.\<close>

definition string_data :: "scheme_object \<Rightarrow> nat \<Rightarrow> machine \<Rightarrow> int list" where
  "string_data v len m =
    take len (memory_bytes (map (\<lambda>i. MEMORY_REF v (BYTEVECTOR_DATA + i) m) [0..<(len + 7) div 8]))"

definition string_contents :: "scheme_object \<Rightarrow> machine \<Rightarrow> int list" where
  "string_contents v m = string_data v (STRING_LENGTH v m) m"

definition memory_hash :: "int list \<Rightarrow> 32 word" where
  "memory_hash bytes = foldl (\<lambda>result b. (result XOR word_of_int b) * 16777619) 2166136261 bytes"

definition HASH_TO_FIXNUM :: "32 word \<Rightarrow> scheme_object" where
  "HASH_TO_FIXNUM hash = ULONG_TO_FIXNUM (ucast hash)"

subsection \<open>The table\<close>

definition SYMBOL_NAME :: nat where "SYMBOL_NAME = 0"
definition SYMBOL_GLOBAL_VALUE :: nat where "SYMBOL_GLOBAL_VALUE = 1"
definition OBARRAY :: nat where "OBARRAY = 0x03"
definition TRAP_UNBOUND :: ulong where "TRAP_UNBOUND = 2"
definition UNBOUND_OBJECT :: scheme_object where "UNBOUND_OBJECT = MAKE_OBJECT TC_REFERENCE_TRAP TRAP_UNBOUND"

definition INTERNED_SYMBOL_P :: "scheme_object \<Rightarrow> bool" where
  "INTERNED_SYMBOL_P object \<longleftrightarrow> OBJECT_TYPE object = TC_INTERNED_SYMBOL"
definition UNINTERNED_SYMBOL_P :: "scheme_object \<Rightarrow> bool" where
  "UNINTERNED_SYMBOL_P object \<longleftrightarrow> OBJECT_TYPE object = TC_UNINTERNED_SYMBOL"
definition SYMBOL_P :: "scheme_object \<Rightarrow> bool" where
  "SYMBOL_P object \<longleftrightarrow> INTERNED_SYMBOL_P object \<or> UNINTERNED_SYMBOL_P object"

definition PAIR_CAR_LOC :: "scheme_object \<Rightarrow> addr" where "PAIR_CAR_LOC pair = MEMORY_LOC pair CONS_CAR"
definition PAIR_CDR_LOC :: "scheme_object \<Rightarrow> addr" where "PAIR_CDR_LOC pair = MEMORY_LOC pair CONS_CDR"

definition symbol_name_bytes :: "scheme_object \<Rightarrow> machine \<Rightarrow> int list" where
  "symbol_name_bytes symbol m = string_contents (MEMORY_REF symbol SYMBOL_NAME m) m"

text \<open>The bucket of a name.\<close>

definition symbol_bucket :: "int list \<Rightarrow> machine \<Rightarrow> addr" where
  "symbol_bucket name m =
    (let obarray = VECTOR_REF (fixed_objects m) OBARRAY m
     in VECTOR_LOC obarray (unat (memory_hash name) mod VECTOR_LENGTH_heap obarray m))"

text \<open>The result is the location of the symbol in its pair, or the end of the chain.\<close>

partial_function (option) find_symbol_loop :: "addr \<Rightarrow> int list \<Rightarrow> machine \<Rightarrow> (addr \<times> machine) option" where
  "find_symbol_loop bucket name m =
    (let list = mem m bucket in
     if WEAK_PAIR_P list \<or> PAIR_P_heap list then
       let symbol = PAIR_CAR list m in
       if INTERNED_SYMBOL_P symbol then
         let name2 = MEMORY_REF symbol SYMBOL_NAME m in
         if STRING_LENGTH name2 m = length name \<and> string_data name2 (length name) m = name
         then Some (PAIR_CAR_LOC list, m)
         else find_symbol_loop (PAIR_CDR_LOC list) name m
       else find_symbol_loop bucket name (store_word bucket (PAIR_CDR list m) m)
     else Some (bucket, m))"

definition find_symbol_internal :: "int list \<Rightarrow> machine \<Rightarrow> addr heap_prim option" where
  "find_symbol_internal name m =
    (if VECTOR_LENGTH_heap (VECTOR_REF (fixed_objects m) OBARRAY m) m = 0 then Some (Inl Undefined_Behaviour, m)
     else map_option (\<lambda>(cell, m). (Inr cell, m)) (find_symbol_loop (symbol_bucket name m) name m))"

definition bind_search :: "addr heap_prim option \<Rightarrow> (addr \<Rightarrow> machine \<Rightarrow> 'a heap_prim) \<Rightarrow> 'a heap_prim option" where
  "bind_search r f = map_option (\<lambda>r. heap_bind r f) r"

definition make_symbol :: "scheme_object \<Rightarrow> addr \<Rightarrow> machine \<Rightarrow> scheme_object heap_prim" where
  "make_symbol name cell m =
    heap_bind (Primitive_GC_If_Needed 4 m) (\<lambda>_ m.
      let symbol = MAKE_POINTER_OBJECT TC_INTERNED_SYMBOL (Free m);
          m = set_Free (Free m + 2) m;
          m = MEMORY_SET symbol SYMBOL_NAME name m;
          m = MEMORY_SET symbol SYMBOL_GLOBAL_VALUE UNBOUND_OBJECT m
      in heap_bind (system_pair_cons TC_WEAK_CONS symbol EMPTY_LIST m) (\<lambda>pair m. (Inr symbol, store_word cell pair m)))"

definition find_symbol :: "int list \<Rightarrow> machine \<Rightarrow> scheme_object heap_prim option" where
  "find_symbol name m =
    bind_search (find_symbol_internal name m) (\<lambda>cell m.
      (Inr (if INTERNED_SYMBOL_P (mem m cell) then mem m cell else SHARP_F), m))"

definition string_to_symbol :: "scheme_object \<Rightarrow> machine \<Rightarrow> scheme_object heap_prim option" where
  "string_to_symbol name m =
    bind_search (find_symbol_internal (string_contents name m) m) (\<lambda>cell m.
      if INTERNED_SYMBOL_P (mem m cell) then (Inr (mem m cell), m) else make_symbol name cell m)"

definition intern_symbol :: "scheme_object \<Rightarrow> machine \<Rightarrow> scheme_object heap_prim option" where
  "intern_symbol symbol m =
    (let name = MEMORY_REF symbol SYMBOL_NAME m in
     bind_search (find_symbol_internal (string_contents name m) m) (\<lambda>cell m.
       if INTERNED_SYMBOL_P (mem m cell) then (Inr (mem m cell), m)
       else
         let m = (if LEGACY_STRING_P name then MEMORY_SET symbol SYMBOL_NAME (OBJECT_NEW_TYPE TC_BYTEVECTOR name) m else m);
             result = OBJECT_NEW_TYPE TC_INTERNED_SYMBOL symbol
         in heap_bind (system_pair_cons TC_WEAK_CONS result EMPTY_LIST m) (\<lambda>pair m. (Inr result, store_word cell pair m))))"

partial_function (option) replace_bucket_loop :: "addr \<Rightarrow> scheme_object \<Rightarrow> ulong \<Rightarrow> machine \<Rightarrow> unit machine_result" where
  "replace_bucket_loop bucket symbol type m =
    (let list = mem m bucket in
     if \<not> (WEAK_PAIR_P list \<or> PAIR_P_heap list) then Some (Inl Term_Exit)
     else
       let element = PAIR_CAR list m in
       if INTERNED_SYMBOL_P element then
         if element = symbol then machine_return () (store_word bucket (OBJECT_NEW_TYPE type list) m)
         else replace_bucket_loop (PAIR_CDR_LOC list) symbol type m
       else replace_bucket_loop bucket symbol type (store_word bucket (PAIR_CDR list m) m))"

definition replace_symbol_bucket_type :: "scheme_object \<Rightarrow> ulong \<Rightarrow> machine \<Rightarrow> unit machine_result" where
  "replace_symbol_bucket_type symbol type m =
    (if UNINTERNED_SYMBOL_P symbol then machine_return () m
     else if \<not> INTERNED_SYMBOL_P symbol then Some (Inl Term_Exit)
     else replace_bucket_loop (symbol_bucket (symbol_name_bytes symbol m) m) symbol type m)"

definition strengthen_symbol :: "scheme_object \<Rightarrow> machine \<Rightarrow> unit machine_result" where
  "strengthen_symbol symbol = replace_symbol_bucket_type symbol TC_LIST"
definition weaken_symbol :: "scheme_object \<Rightarrow> machine \<Rightarrow> unit machine_result" where
  "weaken_symbol symbol = replace_symbol_bucket_type symbol TC_WEAK_CONS"

subsection \<open>Primitives\<close>

definition CHECK_STRING :: "nat \<Rightarrow> machine \<Rightarrow> 'a heap_prim option \<Rightarrow> 'a heap_prim option" where
  "CHECK_STRING n m rest = (if \<not> string_p (ARG_REF n m) m then Some (wrong_type n m) else rest)"

definition Prim_find_symbol :: "machine \<Rightarrow> obj heap_prim option" where
  "Prim_find_symbol m = CHECK_STRING 1 m (map_option return_new (find_symbol (string_contents (ARG_REF 1 m) m) m))"
definition Prim_string_to_symbol :: "machine \<Rightarrow> obj heap_prim option" where
  "Prim_string_to_symbol m = CHECK_STRING 1 m (map_option return_new (string_to_symbol (ARG_REF 1 m) m))"
definition Prim_string_hash :: "machine \<Rightarrow> obj heap_prim option" where
  "Prim_string_hash m =
    CHECK_STRING 1 m (Some (return_word (HASH_TO_FIXNUM (memory_hash (string_contents (ARG_REF 1 m) m))) m))"
definition Prim_string_hash_mod :: "machine \<Rightarrow> obj heap_prim option" where
  "Prim_string_hash_mod m =
    CHECK_STRING 1 m (Some (heap_bind (ARG_INTEGER arg_ulong_integer 2 m) (\<lambda>denominator m.
      if denominator = 0 then (Inl Undefined_Behaviour, m)
      else return_word
        (ULONG_TO_FIXNUM (ucast (memory_hash (string_contents (ARG_REF 1 m) m)) mod denominator)) m)))"

end
