(* ===== verification/Lookup.thy ===== *)
theory Lookup
  imports Symbol_Table
begin

text \<open>
  Variables (lookup.c) and the primitives on them (lookprm.c), in the configuration without compiled
  code. An environment is a chain of frames that ends in the global or in the null environment. A frame
  is a vector of the procedure that was applied and the values of its parameters; definitions made in a
  frame later are kept in an extension, a vector of name-value pairs that takes the place of the procedure.
  The global value of a symbol is in the symbol itself. A variable that is shared by two environments
  holds a reference trap that points to a cache with its value.

  The result of an operation is a code, together with the object it stores through its last argument,
  and the machine; \<open>None\<close> stands for a search that does not end, as along a circular chain of frames. A
  failed assertion (which only a build with debugging tools checks) and an allocation that cannot fail but
  does are the exit \<open>Term_Exit\<close>. Cells are the addresses of the words that hold values; \<open>None\<close> is the null pointer.
\<close>

subsection \<open>Codes and traps\<close>

datatype lookup_code =
    PRIM_DONE | PRIM_INTERRUPT | ERR_BAD_FRAME | ERR_UNBOUND_VARIABLE | ERR_UNASSIGNED_VARIABLE | ERR_MACRO_BINDING
  | ERR_ILLEGAL_REFERENCE_TRAP
  | Prim_Abort prim_abort  \<comment> \<open>\<open>abort_to_interpreter\<close> from an allocation\<close>

type_synonym lookup_result = "(lookup_code \<times> scheme_object option) machine_result"

definition TRAP_UNASSIGNED :: ulong where "TRAP_UNASSIGNED = 0"
definition TRAP_EXPENSIVE :: ulong where "TRAP_EXPENSIVE = 6"
definition TRAP_COMPILER_CACHED :: ulong where "TRAP_COMPILER_CACHED = 14"
definition TRAP_MACRO :: ulong where "TRAP_MACRO = 15"
definition NON_TRAP_KIND :: ulong where "NON_TRAP_KIND = 32"
definition UNASSIGNED_OBJECT :: scheme_object where "UNASSIGNED_OBJECT = MAKE_OBJECT TC_REFERENCE_TRAP TRAP_UNASSIGNED"
definition EXPENSIVE_OBJECT :: scheme_object where "EXPENSIVE_OBJECT = MAKE_OBJECT TC_REFERENCE_TRAP TRAP_EXPENSIVE"
definition TC_HUNK3 :: ulong where "TC_HUNK3 = 0x24"
definition CACHE_TYPE :: ulong where "CACHE_TYPE = TC_HUNK3"
definition CACHE_REFERENCES_TYPE :: ulong where "CACHE_REFERENCES_TYPE = TC_HUNK3"
definition NON_OBJECT :: nat where "NON_OBJECT = 0x00"

definition REFERENCE_TRAP_P :: "scheme_object \<Rightarrow> bool" where
  "REFERENCE_TRAP_P object \<longleftrightarrow> OBJECT_TYPE object = TC_REFERENCE_TRAP"
definition TRAP_TAG :: nat where "TRAP_TAG = 0"
definition TRAP_EXTRA :: nat where "TRAP_EXTRA = 1"
definition GET_TRAP_TAG :: "scheme_object \<Rightarrow> machine \<Rightarrow> scheme_object" where
  "GET_TRAP_TAG object = MEMORY_REF object TRAP_TAG"
definition GET_TRAP_CACHE :: "scheme_object \<Rightarrow> machine \<Rightarrow> scheme_object" where
  "GET_TRAP_CACHE object = MEMORY_REF object TRAP_EXTRA"
definition SET_TRAP_CACHE :: "scheme_object \<Rightarrow> scheme_object \<Rightarrow> machine \<Rightarrow> machine" where
  "SET_TRAP_CACHE object extra = MEMORY_SET object TRAP_EXTRA extra"

definition get_trap_kind :: "scheme_object \<Rightarrow> machine \<Rightarrow> ulong" where
  "get_trap_kind object m =
    (if REFERENCE_TRAP_P object then
       let datum = OBJECT_DATUM object in
       if datum \<le> TRAP_MAX_IMMEDIATE then datum else OBJECT_DATUM (GET_TRAP_TAG object m)
     else NON_TRAP_KIND)"

definition EXTERNAL_UNASSIGNED_OBJECT :: "machine \<Rightarrow> scheme_object" where
  "EXTERNAL_UNASSIGNED_OBJECT m = VECTOR_REF (fixed_objects m) NON_OBJECT m"
definition MAP_TO_UNASSIGNED :: "scheme_object \<Rightarrow> machine \<Rightarrow> scheme_object" where
  "MAP_TO_UNASSIGNED v m = (if v = EXTERNAL_UNASSIGNED_OBJECT m then UNASSIGNED_OBJECT else v)"
definition MAP_FROM_UNASSIGNED :: "scheme_object \<Rightarrow> machine \<Rightarrow> scheme_object" where
  "MAP_FROM_UNASSIGNED v m = (if v = UNASSIGNED_OBJECT then EXTERNAL_UNASSIGNED_OBJECT m else v)"

subsection \<open>Frames\<close>

definition TC_ENVIRONMENT :: ulong where "TC_ENVIRONMENT = 0x12"
definition THE_GLOBAL_ENV :: scheme_object where
  "THE_GLOBAL_ENV = MAKE_OBJECT (OBJECT_TYPE SHARP_F) (OBJECT_DATUM SHARP_F)"
definition THE_NULL_ENV :: scheme_object where
  "THE_NULL_ENV = MAKE_OBJECT (OBJECT_TYPE SHARP_F) (OBJECT_DATUM SHARP_F XOR 1)"
definition GLOBAL_FRAME_P :: "scheme_object \<Rightarrow> bool" where "GLOBAL_FRAME_P frame \<longleftrightarrow> frame = THE_GLOBAL_ENV"
definition NULL_FRAME_P :: "scheme_object \<Rightarrow> bool" where "NULL_FRAME_P frame \<longleftrightarrow> frame = THE_NULL_ENV"
definition PROCEDURE_FRAME_P :: "scheme_object \<Rightarrow> bool" where "PROCEDURE_FRAME_P frame \<longleftrightarrow> OBJECT_TYPE frame = TC_ENVIRONMENT"
definition ENVIRONMENT_P :: "scheme_object \<Rightarrow> bool" where
  "ENVIRONMENT_P env \<longleftrightarrow> OBJECT_TYPE env = TC_ENVIRONMENT \<or> GLOBAL_FRAME_P env"

definition PROCEDURE_LAMBDA_EXPR :: nat where "PROCEDURE_LAMBDA_EXPR = 0"
definition PROCEDURE_ENVIRONMENT :: nat where "PROCEDURE_ENVIRONMENT = 1"
definition GET_PROCEDURE_LAMBDA :: "scheme_object \<Rightarrow> machine \<Rightarrow> scheme_object" where
  "GET_PROCEDURE_LAMBDA procedure = MEMORY_REF procedure PROCEDURE_LAMBDA_EXPR"
definition GET_PROCEDURE_ENVIRONMENT :: "scheme_object \<Rightarrow> machine \<Rightarrow> scheme_object" where
  "GET_PROCEDURE_ENVIRONMENT procedure = MEMORY_REF procedure PROCEDURE_ENVIRONMENT"

definition ENVIRONMENT_FUNCTION :: nat where "ENVIRONMENT_FUNCTION = 1"
definition ENVIRONMENT_FIRST_ARG :: nat where "ENVIRONMENT_FIRST_ARG = 2"
definition GET_FRAME_PROCEDURE :: "scheme_object \<Rightarrow> machine \<Rightarrow> scheme_object" where
  "GET_FRAME_PROCEDURE frame = MEMORY_REF frame ENVIRONMENT_FUNCTION"
definition GET_FRAME_PARENT :: "scheme_object \<Rightarrow> machine \<Rightarrow> scheme_object" where
  "GET_FRAME_PARENT frame m = GET_PROCEDURE_ENVIRONMENT (GET_FRAME_PROCEDURE frame m) m"
definition SET_FRAME_EXTENSION :: "scheme_object \<Rightarrow> scheme_object \<Rightarrow> machine \<Rightarrow> machine" where
  "SET_FRAME_EXTENSION frame extension = MEMORY_SET frame ENVIRONMENT_FUNCTION extension"
definition GET_FRAME_ARG_CELL :: "scheme_object \<Rightarrow> nat \<Rightarrow> addr" where
  "GET_FRAME_ARG_CELL frame index = MEMORY_LOC frame (ENVIRONMENT_FIRST_ARG + index)"

definition ENV_EXTENSION_PARENT_FRAME :: nat where "ENV_EXTENSION_PARENT_FRAME = 1"
definition ENV_EXTENSION_PROCEDURE :: nat where "ENV_EXTENSION_PROCEDURE = 2"
definition ENV_EXTENSION_COUNT :: nat where "ENV_EXTENSION_COUNT = 3"
definition ENV_EXTENSION_MIN_SIZE :: nat where "ENV_EXTENSION_MIN_SIZE = 4"

definition EXTENDED_FRAME_P :: "scheme_object \<Rightarrow> machine \<Rightarrow> bool" where
  "EXTENDED_FRAME_P frame m \<longleftrightarrow> VECTOR_P (GET_FRAME_PROCEDURE frame m)"
definition GET_FRAME_EXTENSION_BINDINGS :: "scheme_object \<Rightarrow> addr" where
  "GET_FRAME_EXTENSION_BINDINGS extension = OBJECT_ADDRESS extension + ENV_EXTENSION_MIN_SIZE"
definition GET_FRAME_EXTENSION_LENGTH :: "scheme_object \<Rightarrow> machine \<Rightarrow> nat" where
  "GET_FRAME_EXTENSION_LENGTH extension m = unat (OBJECT_DATUM (MEMORY_REF extension ENV_EXTENSION_COUNT m))"
definition SET_FRAME_EXTENSION_LENGTH :: "scheme_object \<Rightarrow> nat \<Rightarrow> machine \<Rightarrow> machine" where
  "SET_FRAME_EXTENSION_LENGTH extension len = MEMORY_SET extension ENV_EXTENSION_COUNT (LONG_TO_UNSIGNED_FIXNUM (int len))"
definition GET_MAX_FRAME_EXTENSION_LENGTH :: "scheme_object \<Rightarrow> machine \<Rightarrow> nat" where
  "GET_MAX_FRAME_EXTENSION_LENGTH extension m = VECTOR_LENGTH_heap extension m - (ENV_EXTENSION_MIN_SIZE - 1)"
definition GET_FRAME_EXTENSION_PROCEDURE :: "scheme_object \<Rightarrow> machine \<Rightarrow> scheme_object" where
  "GET_FRAME_EXTENSION_PROCEDURE extension = MEMORY_REF extension ENV_EXTENSION_PROCEDURE"

definition LAMBDA_SCODE :: nat where "LAMBDA_SCODE = 0"
definition LAMBDA_FORMALS :: nat where "LAMBDA_FORMALS = 1"
definition GET_LAMBDA_FORMALS :: "scheme_object \<Rightarrow> machine \<Rightarrow> scheme_object" where
  "GET_LAMBDA_FORMALS lambda = MEMORY_REF lambda LAMBDA_FORMALS"
definition GET_LAMBDA_PARAMETERS :: "scheme_object \<Rightarrow> machine \<Rightarrow> addr" where
  "GET_LAMBDA_PARAMETERS lambda m = MEMORY_LOC (GET_LAMBDA_FORMALS lambda m) (VECTOR_DATA + 1)"
definition GET_LAMBDA_N_PARAMETERS :: "scheme_object \<Rightarrow> machine \<Rightarrow> nat" where
  "GET_LAMBDA_N_PARAMETERS lambda m = VECTOR_LENGTH_heap (GET_LAMBDA_FORMALS lambda m) m - 1"
definition SYMBOL_GLOBAL_VALUE_CELL :: "scheme_object \<Rightarrow> addr" where
  "SYMBOL_GLOBAL_VALUE_CELL symbol = MEMORY_LOC symbol SYMBOL_GLOBAL_VALUE"

subsection \<open>Finding a variable\<close>

fun scan_parameters :: "addr \<Rightarrow> nat \<Rightarrow> nat \<Rightarrow> scheme_object \<Rightarrow> scheme_object \<Rightarrow> bool \<Rightarrow> machine \<Rightarrow> addr option" where
  "scan_parameters start index 0 frame symbol find_unbound_p m = None"
| "scan_parameters start index (Suc n) frame symbol find_unbound_p m =
    (let cell = GET_FRAME_ARG_CELL frame index in
     if mem m (start + index) = symbol \<and> (find_unbound_p \<or> mem m cell \<noteq> UNBOUND_OBJECT) then Some cell
     else scan_parameters start (index + 1) n frame symbol find_unbound_p m)"

definition scan_procedure_bindings :: "scheme_object \<Rightarrow> scheme_object \<Rightarrow> scheme_object \<Rightarrow> bool \<Rightarrow> machine \<Rightarrow> addr option" where
  "scan_procedure_bindings procedure frame symbol find_unbound_p m =
    (let lambda = GET_PROCEDURE_LAMBDA procedure m
     in scan_parameters (GET_LAMBDA_PARAMETERS lambda m) 0 (GET_LAMBDA_N_PARAMETERS lambda m) frame symbol find_unbound_p m)"

fun scan_extension :: "addr \<Rightarrow> nat \<Rightarrow> scheme_object \<Rightarrow> machine \<Rightarrow> addr option" where
  "scan_extension scan 0 symbol m = None"
| "scan_extension scan (Suc n) symbol m =
    (if PAIR_CAR (mem m scan) m = symbol then Some (PAIR_CDR_LOC (mem m scan)) else scan_extension (scan + 1) n symbol m)"

definition scan_frame :: "scheme_object \<Rightarrow> scheme_object \<Rightarrow> bool \<Rightarrow> machine \<Rightarrow> term_code + addr option" where
  "scan_frame frame symbol find_unbound_p m =
    (if PROCEDURE_FRAME_P frame then
       let procedure = GET_FRAME_PROCEDURE frame m in
       if EXTENDED_FRAME_P frame m then
         case scan_extension (GET_FRAME_EXTENSION_BINDINGS procedure) (GET_FRAME_EXTENSION_LENGTH procedure m) symbol m of
           Some cell \<Rightarrow> Inr (Some cell)
         | None \<Rightarrow> Inr (scan_procedure_bindings (GET_FRAME_EXTENSION_PROCEDURE procedure m) frame symbol find_unbound_p m)
       else Inr (scan_procedure_bindings procedure frame symbol find_unbound_p m)
     else if GLOBAL_FRAME_P frame then Inr (Some (SYMBOL_GLOBAL_VALUE_CELL symbol))
     else Inl Term_Exit)"

partial_function (option) find_cell_loop ::
  "scheme_object \<Rightarrow> scheme_object \<Rightarrow> machine \<Rightarrow> (term_code + addr option \<times> scheme_object) option" where
  "find_cell_loop frame symbol m =
    (case scan_frame frame symbol False m of
       Inl e \<Rightarrow> Some (Inl e)
     | Inr cell \<Rightarrow>
         if cell \<noteq> None \<or> \<not> ENVIRONMENT_P (GET_FRAME_PARENT frame m) then Some (Inr (cell, frame))
         else find_cell_loop (GET_FRAME_PARENT frame m) symbol m)"

definition find_binding_cell ::
  "scheme_object \<Rightarrow> scheme_object \<Rightarrow> machine \<Rightarrow> (term_code + addr option \<times> scheme_object) option" where
  "find_binding_cell environment symbol m =
    (if NULL_FRAME_P environment then Some (Inr (None, environment))
     else if \<not> ENVIRONMENT_P environment then Some (Inl Term_Exit)
     else find_cell_loop environment symbol m)"

text \<open>Continue with the cell and the frame it was found in.\<close>

definition with_cell ::
  "(term_code + addr option \<times> scheme_object) option \<Rightarrow> (addr option \<Rightarrow> scheme_object \<Rightarrow> 'a machine_result) \<Rightarrow> 'a machine_result" where
  "with_cell r f = Option.bind r (\<lambda>r. case r of Inl e \<Rightarrow> Some (Inl e) | Inr (cell, frame) \<Rightarrow> f cell frame)"

definition lookup_return :: "lookup_code \<Rightarrow> scheme_object option \<Rightarrow> machine \<Rightarrow> lookup_result" where
  "lookup_return code v m = machine_return (code, v) m"

subsection \<open>Caches\<close>

definition GET_CACHE_VALUE :: "scheme_object \<Rightarrow> machine \<Rightarrow> scheme_object" where "GET_CACHE_VALUE cache = MEMORY_REF cache 0"
definition SET_CACHE_VALUE :: "scheme_object \<Rightarrow> scheme_object \<Rightarrow> machine \<Rightarrow> machine" where
  "SET_CACHE_VALUE cache v = MEMORY_SET cache 0 v"
definition GET_CACHE_CLONE :: "scheme_object \<Rightarrow> machine \<Rightarrow> scheme_object" where "GET_CACHE_CLONE cache = MEMORY_REF cache 1"
definition SET_CACHE_CLONE :: "scheme_object \<Rightarrow> scheme_object \<Rightarrow> machine \<Rightarrow> machine" where
  "SET_CACHE_CLONE cache clone = MEMORY_SET cache 1 clone"
definition GET_CACHE_REFERENCES_OBJECT :: "scheme_object \<Rightarrow> machine \<Rightarrow> scheme_object" where
  "GET_CACHE_REFERENCES_OBJECT cache = MEMORY_REF cache 2"
definition CACHE_REFERENCES_ASSIGNMENT :: nat where "CACHE_REFERENCES_ASSIGNMENT = 1"
definition CACHE_REFERENCES_OPERATOR :: nat where "CACHE_REFERENCES_OPERATOR = 2"
definition GET_CACHE_REFERENCES :: "scheme_object \<Rightarrow> nat \<Rightarrow> machine \<Rightarrow> addr" where
  "GET_CACHE_REFERENCES cache kind m = MEMORY_LOC (GET_CACHE_REFERENCES_OBJECT cache m) kind"
definition GET_CACHE_REFERENCE_BLOCK :: "scheme_object \<Rightarrow> machine \<Rightarrow> scheme_object" where
  "GET_CACHE_REFERENCE_BLOCK = PAIR_CAR"

definition SPACE_PER_UUO_LINK :: nat where "SPACE_PER_UUO_LINK = 10"
definition SPACE_PER_CACHE :: nat where "SPACE_PER_CACHE = 3"

text \<open>\<open>GC_CHECK\<close>: request a collection and return when there is not enough space.\<close>

definition GC_CHECK :: "nat \<Rightarrow> machine \<Rightarrow> (machine \<Rightarrow> lookup_result) \<Rightarrow> lookup_result" where
  "GC_CHECK n m rest = (if GC_NEEDED_P n m then lookup_return PRIM_INTERRUPT None (REQUEST_GC n m) else rest m)"

definition RETURN_IF_ERROR :: "lookup_result \<Rightarrow> (scheme_object option \<Rightarrow> machine \<Rightarrow> lookup_result) \<Rightarrow> lookup_result" where
  "RETURN_IF_ERROR r rest =
    machine_bind r (\<lambda>(code, v) m. if code \<noteq> PRIM_DONE then lookup_return code v m else rest v m)"

definition DIE_IF_ERROR :: "lookup_result \<Rightarrow> (scheme_object option \<Rightarrow> machine \<Rightarrow> 'a machine_result) \<Rightarrow> 'a machine_result" where
  "DIE_IF_ERROR r rest = machine_bind r (\<lambda>(code, v) m. if code \<noteq> PRIM_DONE then Some (Inl Term_Exit) else rest v m)"

definition make_cache :: "scheme_object \<Rightarrow> scheme_object \<Rightarrow> scheme_object \<Rightarrow> machine \<Rightarrow> lookup_result" where
  "make_cache v clone references m =
    GC_CHECK 3 m (\<lambda>m.
      let m = push_heap references (push_heap clone (push_heap v m))
      in lookup_return PRIM_DONE (Some (MAKE_POINTER_OBJECT CACHE_TYPE (Free m - 3))) m)"

definition guarantee_cache :: "addr \<Rightarrow> machine \<Rightarrow> lookup_result" where
  "guarantee_cache cell m =
    (if get_trap_kind (mem m cell) m = TRAP_COMPILER_CACHED then lookup_return PRIM_DONE None m
     else GC_CHECK 3 m (\<lambda>m.
       let references = MAKE_POINTER_OBJECT CACHE_REFERENCES_TYPE (Free m);
           m = push_heap EMPTY_LIST (push_heap EMPTY_LIST (push_heap EMPTY_LIST m))
       in RETURN_IF_ERROR (make_cache (mem m cell) SHARP_F references m) (\<lambda>cache m.
         GC_CHECK 2 m (\<lambda>m.
           let m = push_heap (LONG_TO_UNSIGNED_FIXNUM (uint TRAP_COMPILER_CACHED)) m;
               m = push_heap (the cache) m
           in lookup_return PRIM_DONE None (store_word cell (MAKE_POINTER_OBJECT TC_REFERENCE_TRAP (Free m - 2)) m)))))"

text \<open>Without compiled code \<open>update_assignment_references\<close> has nothing to do.\<close>

definition update_clone :: "scheme_object \<Rightarrow> machine \<Rightarrow> unit machine_result" where
  "update_clone cache m =
    (if PAIR_P_heap (mem m (GET_CACHE_REFERENCES cache CACHE_REFERENCES_ASSIGNMENT m)) \<and>
        PAIR_P_heap (mem m (GET_CACHE_REFERENCES cache CACHE_REFERENCES_OPERATOR m)) then
       if GET_CACHE_CLONE cache m = SHARP_F then
         DIE_IF_ERROR (make_cache EXPENSIVE_OBJECT cache (GET_CACHE_REFERENCES_OBJECT cache m) m) (\<lambda>clone m.
           machine_return () (SET_CACHE_CLONE cache (the clone) m))
       else machine_return () m
     else if GET_CACHE_CLONE cache m \<noteq> SHARP_F then machine_return () (SET_CACHE_CLONE cache SHARP_F m)
     else machine_return () m)"

text \<open>The references of a cache, counted; entries that the collector has reclaimed are dropped.\<close>

partial_function (option) walk_prefs :: "addr \<Rightarrow> nat \<Rightarrow> machine \<Rightarrow> (nat \<times> machine) option" where
  "walk_prefs prefs n m =
    (if PAIR_P_heap (mem m prefs) then
       if GET_CACHE_REFERENCE_BLOCK (PAIR_CAR (mem m prefs) m) m = GC_RECLAIMED
       then walk_prefs prefs n (store_word prefs (PAIR_CDR (mem m prefs) m) m)
       else walk_prefs (PAIR_CDR_LOC (mem m prefs)) (n + 1) m
     else Some (n, m))"

partial_function (option) walk_palist :: "addr \<Rightarrow> nat \<Rightarrow> machine \<Rightarrow> (nat \<times> machine) option" where
  "walk_palist palist n m =
    (if PAIR_P_heap (mem m palist) then
       Option.bind (walk_prefs (PAIR_CDR_LOC (PAIR_CAR (mem m palist) m)) n m) (\<lambda>(n, m).
         if PAIR_P_heap (PAIR_CDR (PAIR_CAR (mem m palist) m) m) then walk_palist (PAIR_CDR_LOC (mem m palist)) n m
         else walk_palist palist n (store_word palist (PAIR_CDR (mem m palist) m) m))
     else Some (n, m))"

definition count_references :: "addr \<Rightarrow> machine \<Rightarrow> nat machine_result" where
  "count_references palist m = map_option (\<lambda>(n, m). Inr (n, m)) (walk_palist palist 0 m)"

definition update_cache_refs_space :: "scheme_object \<Rightarrow> scheme_object \<Rightarrow> scheme_object \<Rightarrow> machine \<Rightarrow> nat" where
  "update_cache_refs_space from_cache environment symbol m = 0"

definition update_cache_references :: "scheme_object \<Rightarrow> addr option \<Rightarrow> scheme_object \<Rightarrow> scheme_object \<Rightarrow> machine \<Rightarrow> lookup_result" where
  "update_cache_references from_cache to_cell environment symbol m =
    machine_bind
      (case to_cell of
         None \<Rightarrow> machine_return () m
       | Some cell \<Rightarrow> DIE_IF_ERROR (guarantee_cache cell m) (\<lambda>_ m. update_clone (GET_TRAP_CACHE (mem m cell) m) m))
      (\<lambda>_ m. machine_bind (update_clone from_cache m) (\<lambda>_ m. lookup_return PRIM_DONE None m))"

subsection \<open>Lookup and assignment\<close>

definition lookup_variable_cache :: "scheme_object \<Rightarrow> machine \<Rightarrow> lookup_result" where
  "lookup_variable_cache cache m =
    (let v = GET_CACHE_VALUE cache m; kind = get_trap_kind v m in
     if kind = NON_TRAP_KIND then lookup_return PRIM_DONE (Some v) m
     else if kind = TRAP_UNASSIGNED then lookup_return ERR_UNASSIGNED_VARIABLE None m
     else if kind = TRAP_UNBOUND then lookup_return ERR_UNBOUND_VARIABLE None m
     else if kind = TRAP_MACRO then lookup_return ERR_MACRO_BINDING (Some v) m
     else lookup_return ERR_ILLEGAL_REFERENCE_TRAP None m)"

definition lookup_variable :: "scheme_object \<Rightarrow> scheme_object \<Rightarrow> machine \<Rightarrow> lookup_result" where
  "lookup_variable environment symbol m =
    (if \<not> (ENVIRONMENT_P environment \<and> SYMBOL_P symbol) then lookup_return ERR_BAD_FRAME None m
     else with_cell (find_binding_cell environment symbol m) (\<lambda>cell frame.
       case cell of
         None \<Rightarrow> lookup_return ERR_UNBOUND_VARIABLE None m
       | Some cell \<Rightarrow>
           let v = mem m cell; kind = get_trap_kind v m in
           if kind = NON_TRAP_KIND then lookup_return PRIM_DONE (Some v) m
           else if kind = TRAP_UNASSIGNED then lookup_return ERR_UNASSIGNED_VARIABLE None m
           else if kind = TRAP_UNBOUND then lookup_return ERR_UNBOUND_VARIABLE None m
           else if kind = TRAP_MACRO then lookup_return ERR_MACRO_BINDING (Some v) m
           else if kind = TRAP_COMPILER_CACHED then lookup_variable_cache (GET_TRAP_CACHE v m) m
           else lookup_return ERR_ILLEGAL_REFERENCE_TRAP None m))"

definition safe_lookup_variable :: "scheme_object \<Rightarrow> scheme_object \<Rightarrow> machine \<Rightarrow> lookup_result" where
  "safe_lookup_variable environment symbol m =
    machine_bind (lookup_variable environment symbol m) (\<lambda>(result, v) m.
      if result = ERR_UNASSIGNED_VARIABLE then lookup_return PRIM_DONE (Some (EXTERNAL_UNASSIGNED_OBJECT m)) m
      else lookup_return result v m)"

text \<open>The three tests on variables: a code becomes true, false or is passed on.\<close>

definition lookup_test :: "(lookup_code \<Rightarrow> bool option) \<Rightarrow> scheme_object \<Rightarrow> scheme_object \<Rightarrow> machine \<Rightarrow> lookup_result" where
  "lookup_test f environment symbol m =
    machine_bind (lookup_variable environment symbol m) (\<lambda>(result, v) m.
      case f result of Some b \<Rightarrow> lookup_return PRIM_DONE (Some (BOOLEAN_TO_OBJECT b)) m | None \<Rightarrow> lookup_return result None m)"

definition variable_unassigned_p :: "scheme_object \<Rightarrow> scheme_object \<Rightarrow> machine \<Rightarrow> lookup_result" where
  "variable_unassigned_p = lookup_test (\<lambda>code.
    if code = ERR_UNASSIGNED_VARIABLE then Some True else if code = PRIM_DONE then Some False else None)"
definition variable_unbound_p :: "scheme_object \<Rightarrow> scheme_object \<Rightarrow> machine \<Rightarrow> lookup_result" where
  "variable_unbound_p = lookup_test (\<lambda>code.
    if code = ERR_UNBOUND_VARIABLE then Some True
    else if code = ERR_UNASSIGNED_VARIABLE \<or> code = ERR_MACRO_BINDING \<or> code = PRIM_DONE then Some False else None)"
definition variable_unreferenceable_p :: "scheme_object \<Rightarrow> scheme_object \<Rightarrow> machine \<Rightarrow> lookup_result" where
  "variable_unreferenceable_p = lookup_test (\<lambda>code.
    if code = ERR_UNBOUND_VARIABLE \<or> code = ERR_UNASSIGNED_VARIABLE \<or> code = ERR_MACRO_BINDING then Some True
    else if code = PRIM_DONE then Some False else None)"

text \<open>The value in a cell or a cache may be replaced, or the code that says why not.\<close>

definition assign_check :: "ulong \<Rightarrow> bool \<Rightarrow> lookup_code option" where
  "assign_check kind force_p =
    (if kind = NON_TRAP_KIND \<or> kind = TRAP_UNASSIGNED then None
     else if kind = TRAP_UNBOUND then (if force_p then None else Some ERR_UNBOUND_VARIABLE)
     else if kind = TRAP_MACRO then (if force_p then None else Some ERR_MACRO_BINDING)
     else Some ERR_ILLEGAL_REFERENCE_TRAP)"

definition assign_variable_cache :: "scheme_object \<Rightarrow> scheme_object \<Rightarrow> bool \<Rightarrow> machine \<Rightarrow> lookup_result" where
  "assign_variable_cache cache v force_p m =
    (let old_value = GET_CACHE_VALUE cache m in
     case assign_check (get_trap_kind old_value m) force_p of
       Some code \<Rightarrow> lookup_return code None m
     | None \<Rightarrow> lookup_return PRIM_DONE (Some (MAP_FROM_UNASSIGNED old_value m)) (SET_CACHE_VALUE cache (MAP_TO_UNASSIGNED v m) m))"

definition assign_variable_end :: "addr \<Rightarrow> scheme_object \<Rightarrow> bool \<Rightarrow> machine \<Rightarrow> lookup_result" where
  "assign_variable_end cell v force_p m =
    (let old_value = mem m cell; kind = get_trap_kind old_value m in
     if kind = TRAP_COMPILER_CACHED then assign_variable_cache (GET_TRAP_CACHE old_value m) v force_p m
     else case assign_check kind force_p of
       Some code \<Rightarrow> lookup_return code None m
     | None \<Rightarrow> lookup_return PRIM_DONE (Some (MAP_FROM_UNASSIGNED old_value m)) (store_word cell (MAP_TO_UNASSIGNED v m) m))"

definition assign_variable :: "scheme_object \<Rightarrow> scheme_object \<Rightarrow> scheme_object \<Rightarrow> machine \<Rightarrow> lookup_result" where
  "assign_variable environment symbol v m =
    (if \<not> (ENVIRONMENT_P environment \<or> SYMBOL_P symbol) then lookup_return ERR_BAD_FRAME None m
     else with_cell (find_binding_cell environment symbol m) (\<lambda>cell frame.
       case cell of
         None \<Rightarrow> lookup_return ERR_UNBOUND_VARIABLE None m
       | Some cell \<Rightarrow> assign_variable_end cell v False m))"

subsection \<open>Definition\<close>

definition allocate_frame_extension :: "nat \<Rightarrow> scheme_object \<Rightarrow> machine \<Rightarrow> lookup_result" where
  "allocate_frame_extension len procedure m =
    (let n_words = ENV_EXTENSION_MIN_SIZE + len in
     GC_CHECK n_words m (\<lambda>m.
       let (extension, m) = make_marked_vector_words TC_VECTOR (n_words - 1) SHARP_F m;
           m = MEMORY_SET extension ENV_EXTENSION_PARENT_FRAME (GET_PROCEDURE_ENVIRONMENT procedure m) m;
           m = MEMORY_SET extension ENV_EXTENSION_PROCEDURE procedure m;
           m = SET_FRAME_EXTENSION_LENGTH extension 0 m
       in lookup_return PRIM_DONE (Some extension) m))"

fun copy_bindings :: "addr \<Rightarrow> addr \<Rightarrow> nat \<Rightarrow> machine \<Rightarrow> machine" where
  "copy_bindings to_addr from_addr 0 m = m"
| "copy_bindings to_addr from_addr (Suc n) m =
    copy_bindings (to_addr + 1) (from_addr + 1) n (store_word to_addr (mem m from_addr) m)"

definition guarantee_extension_space :: "scheme_object \<Rightarrow> machine \<Rightarrow> lookup_result" where
  "guarantee_extension_space environment m =
    (let old = GET_FRAME_PROCEDURE environment m in
     if EXTENDED_FRAME_P environment m then
       let len = GET_FRAME_EXTENSION_LENGTH old m in
       if len = GET_MAX_FRAME_EXTENSION_LENGTH old m then
         RETURN_IF_ERROR (allocate_frame_extension (2 * len) (GET_FRAME_EXTENSION_PROCEDURE old m) m) (\<lambda>extension m.
           let m = copy_bindings (GET_FRAME_EXTENSION_BINDINGS (the extension)) (GET_FRAME_EXTENSION_BINDINGS old) len m;
               m = SET_FRAME_EXTENSION_LENGTH (the extension) len m;
               m = SET_FRAME_EXTENSION environment (the extension) m
           in lookup_return PRIM_DONE None m)
       else lookup_return PRIM_DONE None m
     else
       RETURN_IF_ERROR (allocate_frame_extension 16 old m) (\<lambda>extension m.
         lookup_return PRIM_DONE None (SET_FRAME_EXTENSION environment (the extension) m)))"

definition extend_environment :: "scheme_object \<Rightarrow> scheme_object \<Rightarrow> scheme_object \<Rightarrow> machine \<Rightarrow> addr heap_prim" where
  "extend_environment environment symbol v m =
    heap_bind (cons symbol (MAP_TO_UNASSIGNED v m) m) (\<lambda>pair m.
      let extension = GET_FRAME_PROCEDURE environment m;
          len = GET_FRAME_EXTENSION_LENGTH extension m;
          m = store_word (GET_FRAME_EXTENSION_BINDINGS extension + len) pair m;
          m = SET_FRAME_EXTENSION_LENGTH extension (len + 1) m
      in (Inr (PAIR_CDR_LOC pair), m))"

definition define_new :: "scheme_object \<Rightarrow> scheme_object \<Rightarrow> scheme_object \<Rightarrow> machine \<Rightarrow> lookup_result" where
  "define_new environment symbol v m =
    RETURN_IF_ERROR (guarantee_extension_space environment m) (\<lambda>_ m.
      with_cell (find_binding_cell (GET_FRAME_PARENT environment m) symbol m) (\<lambda>shadowed_cell frame.
        let old_cache =
          (case shadowed_cell of
             Some cell \<Rightarrow> if get_trap_kind (mem m cell) m = TRAP_COMPILER_CACHED then GET_TRAP_CACHE (mem m cell) m else SHARP_F
           | None \<Rightarrow> SHARP_F)
        in GC_CHECK (2 + (if old_cache \<noteq> SHARP_F then update_cache_refs_space old_cache environment symbol m else 0)) m (\<lambda>m.
          case extend_environment environment symbol v m of
            (Inl e, m) \<Rightarrow> lookup_return (Prim_Abort e) None m
          | (Inr cell, m) \<Rightarrow>
              if old_cache \<noteq> SHARP_F then update_cache_references old_cache (Some cell) environment symbol m
              else lookup_return PRIM_DONE None m)))"

definition define_variable :: "scheme_object \<Rightarrow> scheme_object \<Rightarrow> scheme_object \<Rightarrow> machine \<Rightarrow> lookup_result" where
  "define_variable environment symbol v m =
    (if \<not> (ENVIRONMENT_P environment \<or> SYMBOL_P symbol) then lookup_return ERR_BAD_FRAME None m
     else case scan_frame environment symbol True m of
       Inl e \<Rightarrow> Some (Inl e)
     | Inr (Some cell) \<Rightarrow>
         machine_bind (if GLOBAL_FRAME_P environment then strengthen_symbol symbol m else machine_return () m) (\<lambda>_ m.
           assign_variable_end cell v True m)
     | Inr None \<Rightarrow> define_new environment symbol v m)"

subsection \<open>Sharing and removal\<close>

definition link_variables :: "scheme_object \<Rightarrow> scheme_object \<Rightarrow> scheme_object \<Rightarrow> scheme_object \<Rightarrow> machine \<Rightarrow> lookup_result" where
  "link_variables target_environment target_symbol source_environment source_symbol m =
    (if \<not> (ENVIRONMENT_P target_environment \<and> ENVIRONMENT_P source_environment \<and> SYMBOL_P target_symbol \<and> SYMBOL_P source_symbol)
     then lookup_return ERR_BAD_FRAME None m
     else with_cell (find_binding_cell source_environment source_symbol m) (\<lambda>source_cell frame.
       case source_cell of
         None \<Rightarrow> lookup_return ERR_UNBOUND_VARIABLE None m
       | Some source_cell \<Rightarrow>
           let source_kind = get_trap_kind (mem m source_cell) m in
           if source_kind = TRAP_UNBOUND then lookup_return ERR_UNBOUND_VARIABLE None m
           else case scan_frame target_environment target_symbol True m of
             Inl e \<Rightarrow> Some (Inl e)
           | Inr target_cell \<Rightarrow>
               if target_cell = Some source_cell then lookup_return PRIM_DONE None m
               else machine_bind
                 (if target_cell \<noteq> None \<and> GLOBAL_FRAME_P target_environment then strengthen_symbol target_symbol m
                  else machine_return () m) (\<lambda>_ m.
                 if target_cell \<noteq> None \<and> get_trap_kind (mem m (the target_cell)) m = TRAP_COMPILER_CACHED then
                   let target_cell = the target_cell;
                       target_cache = GET_TRAP_CACHE (mem m target_cell) m
                   in if source_kind = TRAP_COMPILER_CACHED then
                        let source_cache = GET_TRAP_CACHE (mem m source_cell) m in
                        if source_cache = target_cache then lookup_return PRIM_DONE None m
                        else machine_bind (count_references (GET_CACHE_REFERENCES target_cache CACHE_REFERENCES_OPERATOR m) m) (\<lambda>n m.
                          GC_CHECK (n * SPACE_PER_UUO_LINK + 2 * SPACE_PER_CACHE) m (\<lambda>m.
                            let m = SET_CACHE_VALUE target_cache (GET_CACHE_VALUE source_cache m) m in
                            machine_bind (update_clone source_cache m) (\<lambda>_ m.
                            machine_bind (update_clone target_cache m) (\<lambda>_ m.
                              let m = SET_TRAP_CACHE (mem m source_cell) target_cache m
                              in lookup_return PRIM_DONE None (store_word source_cell (mem m target_cell) m)))))
                      else
                        let m = SET_CACHE_VALUE target_cache (mem m source_cell) m
                        in lookup_return PRIM_DONE None (store_word source_cell (mem m target_cell) m)
                 else RETURN_IF_ERROR (guarantee_cache source_cell m) (\<lambda>_ m.
                   define_variable target_environment target_symbol (mem m source_cell) m))))"

fun find_extension_index :: "addr \<Rightarrow> nat \<Rightarrow> nat \<Rightarrow> scheme_object \<Rightarrow> machine \<Rightarrow> nat option" where
  "find_extension_index start index 0 symbol m = None"
| "find_extension_index start index (Suc n) symbol m =
    (if PAIR_CAR (mem m (start + index)) m = symbol then Some index else find_extension_index start (index + 1) n symbol m)"

definition unbind_variable_1 :: "addr \<Rightarrow> scheme_object \<Rightarrow> scheme_object \<Rightarrow> machine \<Rightarrow> machine" where
  "unbind_variable_1 cell frame symbol m =
    (let extension = GET_FRAME_PROCEDURE frame m;
         start = GET_FRAME_EXTENSION_BINDINGS extension;
         len = GET_FRAME_EXTENSION_LENGTH extension m
     in case (if PROCEDURE_FRAME_P frame \<and> EXTENDED_FRAME_P frame m then find_extension_index start 0 len symbol m else None) of
          Some index \<Rightarrow>
            let m = (if index < len - 1 then store_word (start + index) (mem m (start + len - 1)) m else m);
                m = SET_FRAME_EXTENSION_LENGTH extension (len - 1) m
            in store_word (start + len - 1) SHARP_F m
        | None \<Rightarrow> store_word cell UNBOUND_OBJECT m)"

definition unbind_cached_variable :: "addr \<Rightarrow> scheme_object \<Rightarrow> scheme_object \<Rightarrow> machine \<Rightarrow> lookup_result" where
  "unbind_cached_variable cell frame symbol m =
    (let cache = GET_TRAP_CACHE (mem m cell) m in
     with_cell (find_binding_cell (GET_FRAME_PARENT frame m) symbol m) (\<lambda>shadowed_cell _.
       GC_CHECK (update_cache_refs_space cache frame symbol m) m (\<lambda>m.
         update_cache_references cache shadowed_cell frame symbol (unbind_variable_1 cell frame symbol m))))"

definition unbind_variable :: "scheme_object \<Rightarrow> scheme_object \<Rightarrow> machine \<Rightarrow> lookup_result" where
  "unbind_variable environment symbol m =
    with_cell (find_binding_cell environment symbol m) (\<lambda>cell frame.
      machine_bind (if GLOBAL_FRAME_P frame then weaken_symbol symbol m else machine_return () m) (\<lambda>_ m.
        case cell of
          None \<Rightarrow> lookup_return PRIM_DONE (Some SHARP_F) m
        | Some cell \<Rightarrow>
            let kind = get_trap_kind (mem m cell) m in
            if kind = TRAP_UNBOUND then lookup_return PRIM_DONE (Some SHARP_F) m
            else if kind = NON_TRAP_KIND \<or> kind = TRAP_UNASSIGNED \<or> kind = TRAP_MACRO
            then lookup_return PRIM_DONE (Some SHARP_T) (unbind_variable_1 cell frame symbol m)
            else if kind = TRAP_COMPILER_CACHED then
              let cache = GET_TRAP_CACHE (mem m cell) m; kind = get_trap_kind (GET_CACHE_VALUE cache m) m in
              if kind = TRAP_UNBOUND then lookup_return PRIM_DONE (Some SHARP_F) m
              else if kind = NON_TRAP_KIND \<or> kind = TRAP_UNASSIGNED \<or> kind = TRAP_MACRO then
                if PROCEDURE_FRAME_P frame then
                  RETURN_IF_ERROR (unbind_cached_variable cell frame symbol m) (\<lambda>_ m. lookup_return PRIM_DONE (Some SHARP_T) m)
                else lookup_return PRIM_DONE (Some SHARP_T) (SET_CACHE_VALUE cache UNBOUND_OBJECT m)
              else lookup_return ERR_ILLEGAL_REFERENCE_TRAP None m
            else lookup_return ERR_ILLEGAL_REFERENCE_TRAP None m))"

subsection \<open>Primitives\<close>

text \<open>
  The outcome of a primitive on variables: its value; the code of an error that the interpreter
  signals; or a request for a collection.
\<close>

datatype lookup_outcome = Lookup_Value scheme_object | Lookup_Error lookup_code | Lookup_Interrupt | Lookup_Abort prim_abort

definition STD_LOOKUP :: "lookup_result \<Rightarrow> (scheme_object option \<Rightarrow> machine \<Rightarrow> lookup_outcome machine_result) \<Rightarrow> lookup_outcome machine_result" where
  "STD_LOOKUP r rest =
    machine_bind r (\<lambda>(result, v) m.
      case result of
        PRIM_DONE \<Rightarrow> rest v m
      | PRIM_INTERRUPT \<Rightarrow> machine_return Lookup_Interrupt m
      | Prim_Abort e \<Rightarrow> machine_return (Lookup_Abort e) m
      | code \<Rightarrow> machine_return (Lookup_Error code) m)"

definition return_value :: "scheme_object option \<Rightarrow> machine \<Rightarrow> lookup_outcome machine_result" where
  "return_value v m = machine_return (Lookup_Value (the v)) m"

definition CHECK_ARG_lookup :: "nat \<Rightarrow> (scheme_object \<Rightarrow> bool) \<Rightarrow> machine \<Rightarrow> lookup_outcome machine_result \<Rightarrow> lookup_outcome machine_result" where
  "CHECK_ARG_lookup n type_p m rest =
    (if \<not> type_p (ARG_REF n m) then machine_return (Lookup_Abort (Prim_Error (Wrong_Type n))) m else rest)"

definition check_env_symbol :: "machine \<Rightarrow> lookup_outcome machine_result \<Rightarrow> lookup_outcome machine_result" where
  "check_env_symbol m rest = CHECK_ARG_lookup 1 ENVIRONMENT_P m (CHECK_ARG_lookup 2 SYMBOL_P m rest)"

definition Prim_lexical_reference :: "machine \<Rightarrow> lookup_outcome machine_result" where
  "Prim_lexical_reference m = check_env_symbol m (STD_LOOKUP (lookup_variable (ARG_REF 1 m) (ARG_REF 2 m) m) return_value)"
definition Prim_local_reference :: "machine \<Rightarrow> lookup_outcome machine_result" where
  "Prim_local_reference m = check_env_symbol m (STD_LOOKUP (lookup_variable (ARG_REF 1 m) (ARG_REF 2 m) m) return_value)"
definition Prim_lexical_assignment :: "machine \<Rightarrow> lookup_outcome machine_result" where
  "Prim_lexical_assignment m =
    check_env_symbol m (STD_LOOKUP (assign_variable (ARG_REF 1 m) (ARG_REF 2 m) (ARG_REF 3 m) m) return_value)"
definition Prim_local_assignment :: "machine \<Rightarrow> lookup_outcome machine_result" where
  "Prim_local_assignment m =
    check_env_symbol m (STD_LOOKUP (define_variable (ARG_REF 1 m) (ARG_REF 2 m) (ARG_REF 3 m) m) (\<lambda>_ m.
      machine_return (Lookup_Value (ARG_REF 2 m)) m))"

definition lookup_code_outcome :: "(lookup_code \<Rightarrow> scheme_object option \<Rightarrow> scheme_object option) \<Rightarrow> lookup_result \<Rightarrow> lookup_outcome machine_result" where
  "lookup_code_outcome f r =
    machine_bind r (\<lambda>(result, v) m.
      machine_return
        (case f result v of
           Some w \<Rightarrow> Lookup_Value w
         | None \<Rightarrow> (case result of PRIM_INTERRUPT \<Rightarrow> Lookup_Interrupt | Prim_Abort e \<Rightarrow> Lookup_Abort e | _ \<Rightarrow> Lookup_Error result)) m)"

definition Prim_lexical_reference_type :: "machine \<Rightarrow> lookup_outcome machine_result" where
  "Prim_lexical_reference_type m =
    check_env_symbol m (lookup_code_outcome (\<lambda>result v.
      if result = ERR_UNBOUND_VARIABLE then Some (LONG_TO_UNSIGNED_FIXNUM 0)
      else if result = ERR_UNASSIGNED_VARIABLE then Some (LONG_TO_UNSIGNED_FIXNUM 1)
      else if result = PRIM_DONE then Some (LONG_TO_UNSIGNED_FIXNUM 2)
      else if result = ERR_MACRO_BINDING then Some (LONG_TO_UNSIGNED_FIXNUM 3) else None)
      (lookup_variable (ARG_REF 1 m) (ARG_REF 2 m) m))"
definition Prim_safe_lexical_reference :: "machine \<Rightarrow> lookup_outcome machine_result" where
  "Prim_safe_lexical_reference m =
    check_env_symbol m (lookup_code_outcome (\<lambda>result v.
      if result = PRIM_DONE \<or> result = ERR_MACRO_BINDING then v
      else if result = ERR_UNASSIGNED_VARIABLE then Some UNASSIGNED_OBJECT else None)
      (lookup_variable (ARG_REF 1 m) (ARG_REF 2 m) m))"

definition Prim_unassigned_test :: "machine \<Rightarrow> lookup_outcome machine_result" where
  "Prim_unassigned_test m = check_env_symbol m (STD_LOOKUP (variable_unassigned_p (ARG_REF 1 m) (ARG_REF 2 m) m) return_value)"
definition Prim_unbound_test :: "machine \<Rightarrow> lookup_outcome machine_result" where
  "Prim_unbound_test m = check_env_symbol m (STD_LOOKUP (variable_unbound_p (ARG_REF 1 m) (ARG_REF 2 m) m) return_value)"
definition Prim_unreferenceable_test :: "machine \<Rightarrow> lookup_outcome machine_result" where
  "Prim_unreferenceable_test m = STD_LOOKUP (variable_unreferenceable_p (ARG_REF 1 m) (ARG_REF 2 m) m) return_value"

definition return_unspecific :: "scheme_object option \<Rightarrow> machine \<Rightarrow> lookup_outcome machine_result" where
  "return_unspecific v m = machine_return (Lookup_Value UNSPECIFIC) m"

definition Prim_environment_link_name :: "machine \<Rightarrow> lookup_outcome machine_result" where
  "Prim_environment_link_name m =
    CHECK_ARG_lookup 1 ENVIRONMENT_P m (CHECK_ARG_lookup 2 ENVIRONMENT_P m (CHECK_ARG_lookup 3 SYMBOL_P m
      (STD_LOOKUP (link_variables (ARG_REF 1 m) (ARG_REF 3 m) (ARG_REF 2 m) (ARG_REF 3 m) m) return_unspecific)))"
definition Prim_link_variables :: "machine \<Rightarrow> lookup_outcome machine_result" where
  "Prim_link_variables m =
    CHECK_ARG_lookup 1 ENVIRONMENT_P m (CHECK_ARG_lookup 2 SYMBOL_P m (CHECK_ARG_lookup 3 ENVIRONMENT_P m (CHECK_ARG_lookup 4 SYMBOL_P m
      (STD_LOOKUP (link_variables (ARG_REF 1 m) (ARG_REF 2 m) (ARG_REF 3 m) (ARG_REF 4 m) m) return_unspecific))))"
definition Prim_unbind_variable :: "machine \<Rightarrow> lookup_outcome machine_result" where
  "Prim_unbind_variable m = check_env_symbol m (STD_LOOKUP (unbind_variable (ARG_REF 1 m) (ARG_REF 2 m) m) return_value)"

end
