(* ===== verification/Lookup_Correct.thy ===== *)
theory Lookup_Correct
  imports Lookup
begin

text \<open>
  What the operations on variables promise. The abstract view of an environment is the list of its
  frames, each of which is a list of names and the addresses of their values; a variable is resolved to
  the first of them. On every chain of frames that ends, the searches return, the operations classify
  the value they find in the same way, and assignments, definitions and removals change exactly the
  variable they name.
\<close>

subsection \<open>Environments as lists of bindings\<close>

definition extension_bindings :: "scheme_object \<Rightarrow> machine \<Rightarrow> (scheme_object \<times> addr) list" where
  "extension_bindings extension m =
    map (\<lambda>i. let pair = mem m (GET_FRAME_EXTENSION_BINDINGS extension + i) in (PAIR_CAR pair m, PAIR_CDR_LOC pair))
      [0..<GET_FRAME_EXTENSION_LENGTH extension m]"

definition parameter_bindings :: "scheme_object \<Rightarrow> scheme_object \<Rightarrow> machine \<Rightarrow> (scheme_object \<times> addr) list" where
  "parameter_bindings procedure frame m =
    (let lambda = GET_PROCEDURE_LAMBDA procedure m in
     map (\<lambda>i. (mem m (GET_LAMBDA_PARAMETERS lambda m + i), GET_FRAME_ARG_CELL frame i)) [0..<GET_LAMBDA_N_PARAMETERS lambda m])"

text \<open>The procedure of a frame, with or without an extension.\<close>

definition frame_procedure :: "scheme_object \<Rightarrow> machine \<Rightarrow> scheme_object" where
  "frame_procedure frame m =
    (let procedure = GET_FRAME_PROCEDURE frame m
     in if EXTENDED_FRAME_P frame m then GET_FRAME_EXTENSION_PROCEDURE procedure m else procedure)"

definition frame_bindings :: "bool \<Rightarrow> scheme_object \<Rightarrow> machine \<Rightarrow> (scheme_object \<times> addr) list" where
  "frame_bindings find_unbound_p frame m =
    (if EXTENDED_FRAME_P frame m then extension_bindings (GET_FRAME_PROCEDURE frame m) m else []) @
    filter (\<lambda>(s, cell). find_unbound_p \<or> mem m cell \<noteq> UNBOUND_OBJECT) (parameter_bindings (frame_procedure frame m) frame m)"

text \<open>\<open>env_chain m env fs g\<close>: the environment consists of the frames \<open>fs\<close>, innermost first, and the global frame if \<open>g\<close>.\<close>

inductive env_chain :: "machine \<Rightarrow> scheme_object \<Rightarrow> scheme_object list \<Rightarrow> bool \<Rightarrow> bool" for m where
  chain_global: "env_chain m THE_GLOBAL_ENV [] True"
| chain_last: "\<lbrakk>PROCEDURE_FRAME_P env; \<not> ENVIRONMENT_P (GET_FRAME_PARENT env m)\<rbrakk> \<Longrightarrow> env_chain m env [env] False"
| chain_frame: "\<lbrakk>PROCEDURE_FRAME_P env; env_chain m (GET_FRAME_PARENT env m) fs g\<rbrakk> \<Longrightarrow> env_chain m env (env # fs) g"

fun resolve :: "machine \<Rightarrow> scheme_object list \<Rightarrow> bool \<Rightarrow> scheme_object \<Rightarrow> addr option" where
  "resolve m [] g symbol = (if g then Some (SYMBOL_GLOBAL_VALUE_CELL symbol) else None)"
| "resolve m (frame # fs) g symbol =
    (case map_of (frame_bindings False frame m) symbol of Some cell \<Rightarrow> Some cell | None \<Rightarrow> resolve m fs g symbol)"

text \<open>What is known of a variable, and how a lookup reports it.\<close>

datatype variable_state =
  Unbound | Unassigned | Macro scheme_object | Assigned scheme_object | Illegal_Trap

definition word_state :: "scheme_object \<Rightarrow> machine \<Rightarrow> variable_state" where
  "word_state w m =
    (let kind = get_trap_kind w m in
     if kind = NON_TRAP_KIND then Assigned w else if kind = TRAP_UNASSIGNED then Unassigned
     else if kind = TRAP_UNBOUND then Unbound else if kind = TRAP_MACRO then Macro w else Illegal_Trap)"

text \<open>The address of the value: a shared variable has it in its cache.\<close>

definition value_location :: "addr \<Rightarrow> machine \<Rightarrow> addr" where
  "value_location cell m =
    (if get_trap_kind (mem m cell) m = TRAP_COMPILER_CACHED then OBJECT_ADDRESS (GET_TRAP_CACHE (mem m cell) m) else cell)"

definition variable_state :: "addr option \<Rightarrow> machine \<Rightarrow> variable_state" where
  "variable_state cell m =
    (case cell of None \<Rightarrow> Unbound | Some cell \<Rightarrow> word_state (mem m (value_location cell m)) m)"

fun lookup_report :: "variable_state \<Rightarrow> lookup_code \<times> scheme_object option" where
  "lookup_report Unbound = (ERR_UNBOUND_VARIABLE, None)"
| "lookup_report Unassigned = (ERR_UNASSIGNED_VARIABLE, None)"
| "lookup_report (Macro w) = (ERR_MACRO_BINDING, Some w)"
| "lookup_report (Assigned w) = (PRIM_DONE, Some w)"
| "lookup_report Illegal_Trap = (ERR_ILLEGAL_REFERENCE_TRAP, None)"

subsection \<open>Searching\<close>

lemma scan_parameters_eq:
  "scan_parameters start index n frame symbol find_unbound_p m =
    map_of (filter (\<lambda>(s, cell). find_unbound_p \<or> mem m cell \<noteq> UNBOUND_OBJECT)
      (map (\<lambda>i. (mem m (start + i), GET_FRAME_ARG_CELL frame i)) [index..<index + n])) symbol"
proof (induction n arbitrary: index)
  case (Suc n)
  have "[index..<index + Suc n] = index # [index + 1..<(index + 1) + n]" by (simp add: upt_conv_Cons del: upt_Suc)
  with Suc show ?case by (simp add: Let_def)
qed simp

lemma scan_extension_eq:
  "scan_extension scan n symbol m =
    map_of (map (\<lambda>i. let pair = mem m (scan + i) in (PAIR_CAR pair m, PAIR_CDR_LOC pair)) [0..<n]) symbol"
proof (induction n arbitrary: scan)
  case (Suc n)
  have "[0..<Suc n] = 0 # map Suc [0..<n]" by (simp add: map_Suc_upt upt_conv_Cons del: upt_Suc)
  with Suc [of "scan + 1"] show ?case by (simp add: Let_def o_def del: upt_Suc)
qed simp

lemma scan_frame_eq:
  "PROCEDURE_FRAME_P frame \<Longrightarrow> scan_frame frame symbol b m = Inr (map_of (frame_bindings b frame m) symbol)"
  by (auto simp: scan_frame_def frame_bindings_def extension_bindings_def frame_procedure_def Let_def scan_extension_eq
      scan_procedure_bindings_def scan_parameters_eq parameter_bindings_def map_add_def case_prod_unfold split: option.splits)

lemma constant_environments [simp]:
  "OBJECT_TYPE THE_GLOBAL_ENV \<noteq> TC_ENVIRONMENT" "OBJECT_TYPE THE_NULL_ENV \<noteq> TC_ENVIRONMENT" "THE_NULL_ENV \<noteq> THE_GLOBAL_ENV" "THE_GLOBAL_ENV \<noteq> THE_NULL_ENV"
  by code_simp+

lemma scan_global [simp]: "scan_frame THE_GLOBAL_ENV symbol b m = Inr (Some (SYMBOL_GLOBAL_VALUE_CELL symbol))"
  by (simp add: scan_frame_def PROCEDURE_FRAME_P_def GLOBAL_FRAME_P_def)

lemma env_chain_environment: "env_chain m env fs g \<Longrightarrow> ENVIRONMENT_P env \<and> \<not> NULL_FRAME_P env"
  by (induction rule: env_chain.induct)
    (auto simp: ENVIRONMENT_P_def GLOBAL_FRAME_P_def NULL_FRAME_P_def PROCEDURE_FRAME_P_def)

lemma find_cell_loop_eq:
  "env_chain m env fs g \<Longrightarrow> \<exists>frame. find_cell_loop env symbol m = Some (Inr (resolve m fs g symbol, frame))"
proof (induction rule: env_chain.induct)
  case chain_global
  then show ?case by (subst find_cell_loop.simps) simp
next
  case (chain_last env)
  then show ?case by (subst find_cell_loop.simps) (simp add: scan_frame_eq split: option.split)
next
  case (chain_frame env fs g)
  moreover from chain_frame.hyps have "ENVIRONMENT_P (GET_FRAME_PARENT env m)" by (simp add: env_chain_environment)
  ultimately show ?case by (subst find_cell_loop.simps) (simp add: scan_frame_eq split: option.split)
qed

lemma find_binding_cell_eq:
  assumes "env_chain m env fs g"
  shows "\<exists>frame. find_binding_cell env symbol m = Some (Inr (resolve m fs g symbol, frame))"
  using assms find_cell_loop_eq [OF assms] env_chain_environment [OF assms] by (simp add: find_binding_cell_def)

lemma with_cell_eq [simp]: "with_cell (Some (Inr (cell, frame))) f = f cell frame"
  by (simp add: with_cell_def)

lemma trap_kinds_distinct [simp]:
  "NON_TRAP_KIND \<noteq> TRAP_COMPILER_CACHED" "TRAP_UNASSIGNED \<noteq> TRAP_COMPILER_CACHED" "TRAP_UNBOUND \<noteq> TRAP_COMPILER_CACHED"
  "TRAP_MACRO \<noteq> TRAP_COMPILER_CACHED" "TRAP_UNASSIGNED \<noteq> NON_TRAP_KIND" "TRAP_UNBOUND \<noteq> NON_TRAP_KIND" "TRAP_MACRO \<noteq> NON_TRAP_KIND"
  "TRAP_UNBOUND \<noteq> TRAP_UNASSIGNED" "TRAP_MACRO \<noteq> TRAP_UNASSIGNED" "TRAP_MACRO \<noteq> TRAP_UNBOUND"
  by code_simp+

lemmas trap_kinds_distinct_sym [simp] = trap_kinds_distinct [THEN not_sym]

lemma GET_CACHE_VALUE_eq: "GET_CACHE_VALUE cache m = mem m (OBJECT_ADDRESS cache)"
  by (simp add: GET_CACHE_VALUE_def MEMORY_REF_def MEMORY_LOC_def)

lemma lookup_variable_eq:
  assumes "env_chain m env fs g" "SYMBOL_P symbol"
  shows "lookup_variable env symbol m = machine_return (lookup_report (variable_state (resolve m fs g symbol) m)) m"
proof -
  obtain frame where "find_binding_cell env symbol m = Some (Inr (resolve m fs g symbol, frame))"
    using find_binding_cell_eq [OF assms(1)] by blast
  then show ?thesis using assms env_chain_environment [OF assms(1)]
    by (auto simp: lookup_variable_def variable_state_def word_state_def value_location_def lookup_return_def Let_def
        lookup_variable_cache_def GET_CACHE_VALUE_eq split: option.split)
qed

text \<open>C8: LEXICAL-REFERENCE and its relatives find the innermost binding. In an environment whose chain
  of frames ends, looking up a symbol returns (even if frames have been extended by definitions or
  the variable is shared through a cache), leaves the machine unchanged and reports the value, or
  that the variable is unassigned, unbound or a macro; the tests of a variable answer accordingly.
  Arguments of the wrong type are reported.\<close>

theorem lookup_variable_correct:
  "(\<not> ENVIRONMENT_P env \<or> \<not> SYMBOL_P symbol \<longrightarrow>
      lookup_variable env symbol m = machine_return (ERR_BAD_FRAME, None) m) \<and>
    (env_chain m env fs g \<and> SYMBOL_P symbol \<longrightarrow>
      (let state = variable_state (resolve m fs g symbol) m in
       lookup_variable env symbol m = machine_return (lookup_report state) m \<and>
       safe_lookup_variable env symbol m =
         machine_return (case state of Unassigned \<Rightarrow> (PRIM_DONE, Some (EXTERNAL_UNASSIGNED_OBJECT m)) | _ \<Rightarrow> lookup_report state) m \<and>
       variable_unassigned_p env symbol m =
         machine_return (case state of Unassigned \<Rightarrow> (PRIM_DONE, Some SHARP_T) | Assigned w \<Rightarrow> (PRIM_DONE, Some SHARP_F)
           | _ \<Rightarrow> (fst (lookup_report state), None)) m \<and>
       variable_unbound_p env symbol m =
         machine_return (if state = Illegal_Trap then lookup_report state else (PRIM_DONE, Some (BOOLEAN_TO_OBJECT (state = Unbound)))) m \<and>
       variable_unreferenceable_p env symbol m =
         machine_return (case state of Illegal_Trap \<Rightarrow> lookup_report state | Assigned w \<Rightarrow> (PRIM_DONE, Some SHARP_F)
           | _ \<Rightarrow> (PRIM_DONE, Some SHARP_T)) m))"
proof -
  have "SHARP_T = BOOLEAN_TO_OBJECT True" "SHARP_F = BOOLEAN_TO_OBJECT False" by (simp_all add: BOOLEAN_TO_OBJECT_def)
  then show ?thesis
    by (cases "variable_state (resolve m fs g symbol) m")
      (auto simp: lookup_variable_eq safe_lookup_variable_def variable_unassigned_p_def variable_unbound_p_def
        variable_unreferenceable_p_def lookup_test_def machine_bind_def machine_return_def lookup_return_def Let_def,
       auto simp: lookup_variable_def lookup_return_def machine_return_def)
qed

subsection \<open>Words that hold the structure of an environment\<close>

definition procedure_words :: "scheme_object \<Rightarrow> machine \<Rightarrow> addr set" where
  "procedure_words procedure m =
    (let lambda = GET_PROCEDURE_LAMBDA procedure m; start = GET_LAMBDA_PARAMETERS lambda m
     in {MEMORY_LOC procedure PROCEDURE_LAMBDA_EXPR, MEMORY_LOC procedure PROCEDURE_ENVIRONMENT, MEMORY_LOC lambda LAMBDA_FORMALS,
          OBJECT_ADDRESS (GET_LAMBDA_FORMALS lambda m)} \<union> {start..<start + GET_LAMBDA_N_PARAMETERS lambda m})"

definition extension_words :: "scheme_object \<Rightarrow> machine \<Rightarrow> addr set" where
  "extension_words extension m =
    (let start = GET_FRAME_EXTENSION_BINDINGS extension; len = GET_FRAME_EXTENSION_LENGTH extension m
     in {OBJECT_ADDRESS extension..<start + len} \<union> (\<lambda>i. PAIR_CAR_LOC (mem m (start + i))) ` {..<len})"

definition frame_words :: "scheme_object \<Rightarrow> machine \<Rightarrow> addr set" where
  "frame_words frame m =
    {MEMORY_LOC frame ENVIRONMENT_FUNCTION} \<union> procedure_words (frame_procedure frame m) m \<union>
    (if EXTENDED_FRAME_P frame m then extension_words (GET_FRAME_PROCEDURE frame m) m else {})"

definition chain_words :: "scheme_object list \<Rightarrow> machine \<Rightarrow> addr set" where
  "chain_words fs m = (\<Union>frame \<in> set fs. frame_words frame m)"

text \<open>The words of a trap that is not immediate.\<close>

definition trap_words :: "scheme_object \<Rightarrow> addr set" where
  "trap_words w = (if REFERENCE_TRAP_P w \<and> TRAP_MAX_IMMEDIATE < OBJECT_DATUM w then {MEMORY_LOC w TRAP_TAG, MEMORY_LOC w TRAP_EXTRA} else {})"

lemma procedure_words_cong:
  assumes "\<forall>a \<in> procedure_words procedure m. mem m' a = mem m a"
  shows "parameter_bindings procedure frame m' = parameter_bindings procedure frame m"
    and "GET_PROCEDURE_ENVIRONMENT procedure m' = GET_PROCEDURE_ENVIRONMENT procedure m"
    and "procedure_words procedure m' = procedure_words procedure m"
proof -
  define lambda where "lambda = GET_PROCEDURE_LAMBDA procedure m"
  have *: "GET_PROCEDURE_LAMBDA procedure m' = lambda" "GET_LAMBDA_FORMALS lambda m' = GET_LAMBDA_FORMALS lambda m"
    using assms by (simp_all add: lambda_def procedure_words_def Let_def GET_PROCEDURE_LAMBDA_def GET_LAMBDA_FORMALS_def MEMORY_REF_def)
  have "mem m' (OBJECT_ADDRESS (GET_LAMBDA_FORMALS lambda m)) = mem m (OBJECT_ADDRESS (GET_LAMBDA_FORMALS lambda m))"
    using assms by (simp add: lambda_def procedure_words_def Let_def)
  then have n: "GET_LAMBDA_N_PARAMETERS lambda m' = GET_LAMBDA_N_PARAMETERS lambda m"
    "GET_LAMBDA_PARAMETERS lambda m' = GET_LAMBDA_PARAMETERS lambda m"
    using * by (simp_all add: GET_LAMBDA_N_PARAMETERS_def GET_LAMBDA_PARAMETERS_def VECTOR_LENGTH_heap_def VECTOR_LENGTH_def)
  have "mem m' (GET_LAMBDA_PARAMETERS lambda m + i) = mem m (GET_LAMBDA_PARAMETERS lambda m + i)" if "i < GET_LAMBDA_N_PARAMETERS lambda m" for i
    using assms that by (simp add: lambda_def procedure_words_def Let_def)
  with * n show "parameter_bindings procedure frame m' = parameter_bindings procedure frame m"
    by (simp add: parameter_bindings_def flip: lambda_def)
  show "GET_PROCEDURE_ENVIRONMENT procedure m' = GET_PROCEDURE_ENVIRONMENT procedure m"
    using assms by (simp add: procedure_words_def Let_def GET_PROCEDURE_ENVIRONMENT_def MEMORY_REF_def)
  show "procedure_words procedure m' = procedure_words procedure m"
    using * n by (simp add: procedure_words_def flip: lambda_def)
qed

lemma extension_words_cong:
  assumes "\<forall>a \<in> extension_words extension m. mem m' a = mem m a"
  shows "extension_bindings extension m' = extension_bindings extension m"
    and "GET_PROCEDURE_ENVIRONMENT extension m' = GET_PROCEDURE_ENVIRONMENT extension m"
    and "GET_FRAME_EXTENSION_PROCEDURE extension m' = GET_FRAME_EXTENSION_PROCEDURE extension m"
    and "extension_words extension m' = extension_words extension m"
proof -
  have *: "mem m' (OBJECT_ADDRESS extension + i) = mem m (OBJECT_ADDRESS extension + i)"
    if "i < 4 + GET_FRAME_EXTENSION_LENGTH extension m" for i
    using assms that by (simp add: extension_words_def Let_def GET_FRAME_EXTENSION_BINDINGS_def ENV_EXTENSION_MIN_SIZE_def)
  have n: "GET_FRAME_EXTENSION_LENGTH extension m' = GET_FRAME_EXTENSION_LENGTH extension m"
    using * [of 3] by (simp add: GET_FRAME_EXTENSION_LENGTH_def MEMORY_REF_def MEMORY_LOC_def ENV_EXTENSION_COUNT_def)
  have b: "mem m' (GET_FRAME_EXTENSION_BINDINGS extension + i) = mem m (GET_FRAME_EXTENSION_BINDINGS extension + i)"
    if "i < GET_FRAME_EXTENSION_LENGTH extension m" for i
    using * [of "4 + i"] that by (simp add: GET_FRAME_EXTENSION_BINDINGS_def ENV_EXTENSION_MIN_SIZE_def add.assoc)
  have "PAIR_CAR (mem m (GET_FRAME_EXTENSION_BINDINGS extension + i)) m' = PAIR_CAR (mem m (GET_FRAME_EXTENSION_BINDINGS extension + i)) m"
    if "i < GET_FRAME_EXTENSION_LENGTH extension m" for i
    using assms that by (simp add: extension_words_def Let_def PAIR_CAR_def PAIR_CAR_LOC_def MEMORY_REF_def)
  with n b show "extension_bindings extension m' = extension_bindings extension m"
    by (simp add: extension_bindings_def Let_def)
  show "GET_PROCEDURE_ENVIRONMENT extension m' = GET_PROCEDURE_ENVIRONMENT extension m"
    "GET_FRAME_EXTENSION_PROCEDURE extension m' = GET_FRAME_EXTENSION_PROCEDURE extension m"
    using * [of 1] * [of 2]
    by (simp_all add: GET_PROCEDURE_ENVIRONMENT_def GET_FRAME_EXTENSION_PROCEDURE_def MEMORY_REF_def MEMORY_LOC_def
        PROCEDURE_ENVIRONMENT_def ENV_EXTENSION_PROCEDURE_def)
  show "extension_words extension m' = extension_words extension m"
    using n b by (simp add: extension_words_def Let_def)
qed

lemma frame_words_cong:
  assumes "\<forall>a \<in> frame_words frame m. mem m' a = mem m a"
  shows "GET_FRAME_PROCEDURE frame m' = GET_FRAME_PROCEDURE frame m" "EXTENDED_FRAME_P frame m' = EXTENDED_FRAME_P frame m"
    "GET_FRAME_PARENT frame m' = GET_FRAME_PARENT frame m" "frame_procedure frame m' = frame_procedure frame m"
    "frame_words frame m' = frame_words frame m"
    "frame_bindings b frame m' =
      (if EXTENDED_FRAME_P frame m then extension_bindings (GET_FRAME_PROCEDURE frame m) m else []) @
      filter (\<lambda>(s, cell). b \<or> mem m' cell \<noteq> UNBOUND_OBJECT) (parameter_bindings (frame_procedure frame m) frame m)"
proof -
  show p: "GET_FRAME_PROCEDURE frame m' = GET_FRAME_PROCEDURE frame m"
    using assms by (simp add: frame_words_def GET_FRAME_PROCEDURE_def MEMORY_REF_def)
  then show e: "EXTENDED_FRAME_P frame m' = EXTENDED_FRAME_P frame m" by (simp add: EXTENDED_FRAME_P_def)
  have pw: "\<forall>a \<in> procedure_words (frame_procedure frame m) m. mem m' a = mem m a" using assms by (simp add: frame_words_def)
  have ew: "\<forall>a \<in> extension_words (GET_FRAME_PROCEDURE frame m) m. mem m' a = mem m a" if "EXTENDED_FRAME_P frame m"
    using assms that by (simp add: frame_words_def)
  show f: "frame_procedure frame m' = frame_procedure frame m"
    using p e extension_words_cong(3) [OF ew] by (simp add: frame_procedure_def Let_def)
  show "GET_FRAME_PARENT frame m' = GET_FRAME_PARENT frame m"
    using p e extension_words_cong(2) [OF ew] procedure_words_cong(2) [OF pw]
    by (cases "EXTENDED_FRAME_P frame m") (simp_all add: GET_FRAME_PARENT_def frame_procedure_def)
  show "frame_words frame m' = frame_words frame m"
    using p e f extension_words_cong(4) [OF ew] procedure_words_cong(3) [OF pw] by (simp add: frame_words_def)
  show "frame_bindings b frame m' =
      (if EXTENDED_FRAME_P frame m then extension_bindings (GET_FRAME_PROCEDURE frame m) m else []) @
      filter (\<lambda>(s, cell). b \<or> mem m' cell \<noteq> UNBOUND_OBJECT) (parameter_bindings (frame_procedure frame m) frame m)"
    using p e f extension_words_cong(1) [OF ew] procedure_words_cong(1) [OF pw] by (simp add: frame_bindings_def)
qed

lemma env_chain_cong:
  assumes "env_chain m env fs g" "\<forall>a \<in> chain_words fs m. mem m' a = mem m a"
  shows "env_chain m' env fs g"
  using assms
proof (induction rule: env_chain.induct)
  case chain_global
  show ?case by (rule env_chain.chain_global)
next
  case (chain_last env)
  with frame_words_cong(3) [of env m m'] show ?case by (intro env_chain.chain_last) (simp_all add: chain_words_def)
next
  case (chain_frame env fs g)
  with frame_words_cong(3) [of env m m'] show ?case by (intro env_chain.chain_frame) (simp_all add: chain_words_def)
qed

lemma chain_words_cong:
  "\<forall>a \<in> chain_words fs m. mem m' a = mem m a \<Longrightarrow> chain_words fs m' = chain_words fs m"
  using frame_words_cong(5) [of _ m m'] by (simp add: chain_words_def)

text \<open>The addresses of the values in the frames.\<close>

definition chain_cells :: "scheme_object list \<Rightarrow> machine \<Rightarrow> addr set" where
  "chain_cells fs m = (\<Union>frame \<in> set fs. snd ` set (frame_bindings True frame m))"

text \<open>A change of values that makes no parameter bound or unbound does not change what symbols resolve to.\<close>

lemma frame_bindings_cong:
  assumes "\<forall>a \<in> frame_words frame m. mem m' a = mem m a"
    and "\<And>a. a \<in> snd ` set (frame_bindings True frame m) \<Longrightarrow> (mem m' a = UNBOUND_OBJECT) = (mem m a = UNBOUND_OBJECT)"
  shows "frame_bindings b frame m' = frame_bindings b frame m"
proof -
  have "(mem m' cell = UNBOUND_OBJECT) = (mem m cell = UNBOUND_OBJECT)"
    if "(s, cell) \<in> set (parameter_bindings (frame_procedure frame m) frame m)" for s cell
    using that by (intro assms(2)) (force simp: frame_bindings_def)
  then show ?thesis unfolding frame_words_cong(6) [OF assms(1)]
    by (auto simp: frame_bindings_def intro!: filter_cong)
qed

lemma resolve_cong:
  assumes "\<forall>a \<in> chain_words fs m. mem m' a = mem m a"
    and "\<And>a. a \<in> chain_cells fs m \<Longrightarrow> (mem m' a = UNBOUND_OBJECT) = (mem m a = UNBOUND_OBJECT)"
  shows "resolve m' fs g symbol = resolve m fs g symbol"
  using assms
proof (induction fs)
  case (Cons frame fs)
  have "frame_bindings False frame m' = frame_bindings False frame m"
    using Cons.prems by (intro frame_bindings_cong) (auto simp: chain_words_def chain_cells_def)
  with Cons show ?case by (simp add: chain_words_def chain_cells_def split: option.split)
qed simp

subsection \<open>Assignment\<close>

text \<open>The state of a variable to which an object has been assigned.\<close>

definition assigned_state :: "scheme_object \<Rightarrow> machine \<Rightarrow> variable_state" where
  "assigned_state v m = (if v = EXTERNAL_UNASSIGNED_OBJECT m then Unassigned else Assigned v)"

text \<open>Without force, only an assigned or unassigned variable can be assigned.\<close>

fun assignable :: "variable_state \<Rightarrow> bool" where
  "assignable Unassigned = True" | "assignable (Assigned w) = True" | "assignable state = False"

text \<open>The words of the traps on the way to the value of a variable.\<close>

definition variable_words :: "addr option \<Rightarrow> machine \<Rightarrow> addr set" where
  "variable_words cell m =
    (case cell of None \<Rightarrow> {} | Some cell \<Rightarrow> trap_words (mem m cell) \<union> trap_words (mem m (value_location cell m)))"

lemma get_trap_kind_cong:
  "\<forall>a \<in> trap_words w. mem m' a = mem m a \<Longrightarrow> get_trap_kind w m' = get_trap_kind w m"
  by (auto simp: get_trap_kind_def trap_words_def Let_def GET_TRAP_TAG_def MEMORY_REF_def not_le)

lemma GET_TRAP_CACHE_cong:
  assumes "\<forall>a \<in> trap_words w. mem m' a = mem m a" "get_trap_kind w m = TRAP_COMPILER_CACHED"
  shows "GET_TRAP_CACHE w m' = GET_TRAP_CACHE w m"
proof -
  have "REFERENCE_TRAP_P w \<and> TRAP_MAX_IMMEDIATE < OBJECT_DATUM w"
    using assms(2) by (auto simp: get_trap_kind_def NON_TRAP_KIND_def TRAP_COMPILER_CACHED_def TRAP_MAX_IMMEDIATE_def Let_def split: if_splits)
  with assms(1) show ?thesis by (simp add: trap_words_def GET_TRAP_CACHE_def MEMORY_REF_def)
qed

lemma constant_trap_kinds [simp]:
  "get_trap_kind UNASSIGNED_OBJECT m = TRAP_UNASSIGNED" "get_trap_kind UNBOUND_OBJECT m = TRAP_UNBOUND"
  "\<not> REFERENCE_TRAP_P w \<Longrightarrow> get_trap_kind w m = NON_TRAP_KIND"
  by (simp_all add: get_trap_kind_def UNASSIGNED_OBJECT_def UNBOUND_OBJECT_def REFERENCE_TRAP_P_def TC_REFERENCE_TRAP_def
      TRAP_UNASSIGNED_def TRAP_UNBOUND_def TRAP_MAX_IMMEDIATE_def)

lemma MAP_TO_UNASSIGNED_kind:
  "\<not> REFERENCE_TRAP_P v \<Longrightarrow>
    get_trap_kind (MAP_TO_UNASSIGNED v m) m' = (if v = EXTERNAL_UNASSIGNED_OBJECT m then TRAP_UNASSIGNED else NON_TRAP_KIND)"
  by (simp add: MAP_TO_UNASSIGNED_def)

lemma word_state_assigned:
  "\<not> REFERENCE_TRAP_P v \<Longrightarrow> word_state (MAP_TO_UNASSIGNED v m) m' = assigned_state v m"
  by (simp add: word_state_def MAP_TO_UNASSIGNED_kind assigned_state_def Let_def) (simp add: MAP_TO_UNASSIGNED_def)

lemma value_location_final:
  "get_trap_kind (mem m (value_location cell m)) m \<noteq> TRAP_COMPILER_CACHED \<Longrightarrow>
    value_location (value_location cell m) m = value_location cell m"
  by (simp add: value_location_def [of "value_location cell m"])

lemma word_state_cases:
  "word_state w m = Assigned x \<longleftrightarrow> get_trap_kind w m = NON_TRAP_KIND \<and> x = w"
  "word_state w m = Unassigned \<longleftrightarrow> get_trap_kind w m = TRAP_UNASSIGNED"
  "word_state w m = Unbound \<longleftrightarrow> get_trap_kind w m = TRAP_UNBOUND"
  "word_state w m = Macro x \<longleftrightarrow> get_trap_kind w m = TRAP_MACRO \<and> x = w"
  by (auto simp: word_state_def Let_def)

text \<open>Changing the word at the location of a value changes the variables with that location, and no others.\<close>

lemma variable_state_store:
  assumes v: "\<not> REFERENCE_TRAP_P v" and l: "get_trap_kind (mem m l) m \<noteq> TRAP_COMPILER_CACHED"
    and words: "l \<notin> variable_words (Some cell) m"
  shows "variable_state (Some cell) (store_word l (MAP_TO_UNASSIGNED v m) m) =
    (if value_location cell m = l then assigned_state v m else variable_state (Some cell) m)"
proof -
  define m' where "m' = store_word l (MAP_TO_UNASSIGNED v m) m"
  have mem': "mem m' = (mem m)(l := MAP_TO_UNASSIGNED v m)" by (simp add: m'_def)
  show ?thesis
  proof (cases "cell = l")
    case True
    with l have "value_location cell m = l" by (simp add: value_location_def)
    moreover have "value_location cell m' = l"
      using True v by (simp add: value_location_def mem' MAP_TO_UNASSIGNED_kind)
    ultimately show ?thesis using v by (simp add: variable_state_def word_state_assigned flip: m'_def) (simp add: mem' word_state_assigned)
  next
    case False
    have "\<forall>a \<in> trap_words (mem m cell). mem m' a = mem m a" using words by (auto simp: variable_words_def mem')
    from get_trap_kind_cong [OF this] GET_TRAP_CACHE_cong [OF this] False
    have loc: "value_location cell m' = value_location cell m" by (simp add: value_location_def mem')
    show ?thesis
    proof (cases "value_location cell m = l")
      case True
      with loc v show ?thesis by (simp add: variable_state_def flip: m'_def) (simp add: mem' word_state_assigned)
    next
      case other: False
      have "\<forall>a \<in> trap_words (mem m (value_location cell m)). mem m' a = mem m a" using words by (auto simp: variable_words_def mem')
      then have "get_trap_kind (mem m (value_location cell m)) m' = get_trap_kind (mem m (value_location cell m)) m"
        by (rule get_trap_kind_cong)
      moreover have "mem m' (value_location cell m) = mem m (value_location cell m)" using other by (simp add: mem')
      ultimately show ?thesis using loc other by (simp add: variable_state_def word_state_def flip: m'_def)
    qed
  qed
qed

text \<open>
  The effect of an assignment on all lookups: \<open>only_assigned m l v m'\<close> says that in \<open>m'\<close> the variables with their
  value at \<open>l\<close> have the value \<open>v\<close> and the others the value they had in \<open>m\<close>. It covers every environment that
  does not have names and links in the word \<open>l\<close>.
\<close>

definition only_assigned :: "machine \<Rightarrow> addr \<Rightarrow> scheme_object \<Rightarrow> machine \<Rightarrow> bool" where
  "only_assigned m l v m' \<longleftrightarrow>
    (\<forall>env fs g symbol.
      env_chain m env fs g \<and> SYMBOL_P symbol \<and> l \<notin> chain_words fs m \<union> variable_words (resolve m fs g symbol) m \<longrightarrow>
      lookup_variable env symbol m' =
        machine_return (lookup_report
          (if map_option (\<lambda>cell. value_location cell m) (resolve m fs g symbol) = Some l then assigned_state v m
           else variable_state (resolve m fs g symbol) m)) m')"

lemma lookup_variable_store:
  assumes "env_chain m env fs g" "SYMBOL_P symbol" "\<not> REFERENCE_TRAP_P v"
    and "assignable (word_state (mem m l) m)"
    and "l \<notin> chain_words fs m \<union> variable_words (resolve m fs g symbol) m"
  shows "lookup_variable env symbol (store_word l (MAP_TO_UNASSIGNED v m) m) =
    machine_return (lookup_report
      (if map_option (\<lambda>cell. value_location cell m) (resolve m fs g symbol) = Some l then assigned_state v m
       else variable_state (resolve m fs g symbol) m)) (store_word l (MAP_TO_UNASSIGNED v m) m)"
proof -
  define m' where "m' = store_word l (MAP_TO_UNASSIGNED v m) m"
  have mem': "mem m' = (mem m)(l := MAP_TO_UNASSIGNED v m)" by (simp add: m'_def)
  have k: "get_trap_kind (mem m l) m \<noteq> TRAP_COMPILER_CACHED" "get_trap_kind (mem m l) m \<noteq> TRAP_UNBOUND"
    using assms(4) by (auto simp: word_state_def Let_def)
  have *: "\<forall>a \<in> chain_words fs m. mem m' a = mem m a" using assms(5) by (auto simp: mem')
  have "MAP_TO_UNASSIGNED v m \<noteq> UNBOUND_OBJECT"
    using MAP_TO_UNASSIGNED_kind [OF assms(3), of m m] by (metis constant_trap_kinds(2) trap_kinds_distinct(6,8))
  moreover have "mem m l \<noteq> UNBOUND_OBJECT" using k by auto
  ultimately have "resolve m' fs g symbol = resolve m fs g symbol"
    by (intro resolve_cong *) (simp add: mem')
  moreover have "variable_state (resolve m fs g symbol) m' =
      (if map_option (\<lambda>cell. value_location cell m) (resolve m fs g symbol) = Some l then assigned_state v m
       else variable_state (resolve m fs g symbol) m)"
    using variable_state_store [OF assms(3) k(1)] assms(5)
    by (cases "resolve m fs g symbol") (simp_all add: m'_def, simp add: variable_state_def)
  ultimately show ?thesis
    using lookup_variable_eq [OF env_chain_cong [OF assms(1) *] assms(2)] by (simp flip: m'_def)
qed

lemma only_assigned_store:
  "\<lbrakk>\<not> REFERENCE_TRAP_P v; assignable (word_state (mem m l) m)\<rbrakk> \<Longrightarrow> only_assigned m l v (store_word l (MAP_TO_UNASSIGNED v m) m)"
  unfolding only_assigned_def by (blast intro: lookup_variable_store)

text \<open>What an assignment to a variable does: the code, the value it returns, and the machine.\<close>

lemma assign_variable_end_eq:
  assumes l: "l = value_location cell m"
  shows "assign_variable_end cell v force_p m =
    (let done = machine_return (PRIM_DONE, Some (MAP_FROM_UNASSIGNED (mem m l) m)) (store_word l (MAP_TO_UNASSIGNED v m) m) in
     case variable_state (Some cell) m of
       Unbound \<Rightarrow> if force_p then done else machine_return (ERR_UNBOUND_VARIABLE, None) m
     | Macro w \<Rightarrow> if force_p then done else machine_return (ERR_MACRO_BINDING, None) m
     | Illegal_Trap \<Rightarrow> machine_return (ERR_ILLEGAL_REFERENCE_TRAP, None) m
     | _ \<Rightarrow> done)"
proof (cases "get_trap_kind (mem m cell) m = TRAP_COMPILER_CACHED")
  case True
  then have l: "l = OBJECT_ADDRESS (GET_TRAP_CACHE (mem m cell) m)" using l by (simp add: value_location_def)
  with True show ?thesis
    by (simp add: assign_variable_end_def assign_variable_cache_def variable_state_def value_location_def word_state_def
        GET_CACHE_VALUE_eq assign_check_def Let_def lookup_return_def SET_CACHE_VALUE_def MEMORY_SET_def MEMORY_LOC_def)
next
  case False
  then have "l = cell" using l by (simp add: value_location_def)
  with False show ?thesis
    by (simp add: assign_variable_end_def variable_state_def value_location_def word_state_def assign_check_def Let_def lookup_return_def)
qed

lemma assign_variable_eq:
  assumes "env_chain m env fs g"
  shows "assign_variable env symbol v m =
    (case resolve m fs g symbol of
       None \<Rightarrow> machine_return (ERR_UNBOUND_VARIABLE, None) m
     | Some cell \<Rightarrow> assign_variable_end cell v False m)"
proof -
  obtain frame where "find_binding_cell env symbol m = Some (Inr (resolve m fs g symbol, frame))"
    using find_binding_cell_eq [OF assms] by blast
  with env_chain_environment [OF assms] show ?thesis by (simp add: assign_variable_def lookup_return_def split: option.split)
qed

text \<open>C10: LEXICAL-ASSIGNMENT changes exactly one variable. In an environment whose chain of frames ends, an
  assigned or unassigned variable gets the new value and the old one is returned; an unbound variable
  or a macro is reported and nothing changes. Afterwards looking up any symbol in any
  environment whose names and links are not stored in the word that was changed gives the new value when
  its variable is the assigned one (directly, or shared through a cache) and what it gave before otherwise.\<close>

theorem assign_variable_correct:
  assumes "env_chain m env fs g" and "\<not> REFERENCE_TRAP_P v"
  shows "case variable_state (resolve m fs g symbol) m of
      Unbound \<Rightarrow> assign_variable env symbol v m = machine_return (ERR_UNBOUND_VARIABLE, None) m
    | Macro w \<Rightarrow> assign_variable env symbol v m = machine_return (ERR_MACRO_BINDING, None) m
    | Illegal_Trap \<Rightarrow> assign_variable env symbol v m = machine_return (ERR_ILLEGAL_REFERENCE_TRAP, None) m
    | _ \<Rightarrow> \<exists>l m'. map_option (\<lambda>cell. value_location cell m) (resolve m fs g symbol) = Some l \<and>
        assign_variable env symbol v m = machine_return (PRIM_DONE, Some (MAP_FROM_UNASSIGNED (mem m l) m)) m' \<and>
        mem m' = (mem m)(l := MAP_TO_UNASSIGNED v m) \<and> only_assigned m l v m'"
proof (cases "resolve m fs g symbol")
  case None
  then show ?thesis using assign_variable_eq [OF assms(1), of symbol v] by (simp add: variable_state_def)
next
  case (Some c)
  define l where "l = value_location c m"
  have "assign_variable env symbol v m = assign_variable_end c v False m"
    using assign_variable_eq [OF assms(1), of symbol v] Some by simp
  then show ?thesis
    using only_assigned_store [OF assms(2), of m l] unfolding assign_variable_end_eq [OF l_def] Some
    by (auto simp: variable_state_def l_def Let_def split: variable_state.split)
qed

subsection \<open>Definition\<close>

lemma small_pointer [simp]:
  "\<lbrakk>t < 64; a < 2 ^ 58\<rbrakk> \<Longrightarrow> OBJECT_ADDRESS (MAKE_POINTER_OBJECT t a) = a"
  "\<lbrakk>t < 64; a < 2 ^ 58\<rbrakk> \<Longrightarrow> OBJECT_TYPE (MAKE_POINTER_OBJECT t a) = t"
  by simp_all

lemma count_word: "n < 2 ^ 58 \<Longrightarrow> unat (OBJECT_DATUM (LONG_TO_UNSIGNED_FIXNUM (int n))) = n"
  by (simp add: LONG_TO_UNSIGNED_FIXNUM_def TC_FIXNUM_def word_less_nat_alt unat_of_nat)

lemma room_no_gc:
  "\<lbrakk>room_for_words n m; n' \<le> n; 0 < n\<rbrakk> \<Longrightarrow> \<not> GC_NEEDED_P n' m"
  by (auto simp: room_for_words_def GC_NEEDED_P_def HEAP_AVAILABLE_P_def FREE_OK_P_def)

text \<open>A new extension: a vector with the parent, the procedure, the number of bindings and the bindings.\<close>

lemma allocate_frame_extension_eq:
  assumes "room_for_words (4 + n) m" "MEMORY_LOC procedure PROCEDURE_ENVIRONMENT < Free m"
  obtains m' where
    "allocate_frame_extension n procedure m = machine_return (PRIM_DONE, Some (MAKE_POINTER_OBJECT TC_VECTOR (Free m))) m'"
    "Free m' = Free m + (4 + n)" "heap_start m' = heap_start m" "heap_alloc_limit m' = heap_alloc_limit m" "int_mask m' = int_mask m"
    "fixed_objects m' = fixed_objects m"
    "\<And>a. a < Free m \<Longrightarrow> mem m' a = mem m a"
    "mem m' (Free m) = MAKE_OBJECT TC_MANIFEST_VECTOR (of_nat (3 + n))"
    "mem m' (Free m + 1) = GET_PROCEDURE_ENVIRONMENT procedure m" "mem m' (Free m + 2) = procedure"
    "mem m' (Free m + 3) = LONG_TO_UNSIGNED_FIXNUM 0"
proof
  define m1 where "m1 = fill_heap (3 + n) SHARP_F (push_heap (MAKE_OBJECT TC_MANIFEST_VECTOR (of_nat (3 + n))) m)"
  define m' where "m' = store_word (Free m + 3) (LONG_TO_UNSIGNED_FIXNUM 0) (store_word (Free m + 2) procedure
    (store_word (Free m + 1) (GET_PROCEDURE_ENVIRONMENT procedure m) m1))"
  have addr: "OBJECT_ADDRESS (MAKE_POINTER_OBJECT TC_VECTOR (Free m)) = Free m"
    using assms(1) by (intro small_pointer) (auto simp: room_for_words_def)
  have "GET_PROCEDURE_ENVIRONMENT procedure m1 = GET_PROCEDURE_ENVIRONMENT procedure m"
    using assms(2) by (simp add: m1_def GET_PROCEDURE_ENVIRONMENT_def MEMORY_REF_def fill_heap_mem)
  moreover have "\<not> GC_NEEDED_P (4 + n) m" by (rule room_no_gc [OF assms(1)]) simp_all
  ultimately show "allocate_frame_extension n procedure m =
      machine_return (PRIM_DONE, Some (MAKE_POINTER_OBJECT TC_VECTOR (Free m))) m'"
    by (simp add: allocate_frame_extension_def ENV_EXTENSION_MIN_SIZE_def GC_CHECK_def make_marked_vector_words_def Let_def
        lookup_return_def MEMORY_SET_def MEMORY_LOC_def SET_FRAME_EXTENSION_LENGTH_def addr ENV_EXTENSION_PARENT_FRAME_def
        ENV_EXTENSION_PROCEDURE_def ENV_EXTENSION_COUNT_def m'_def) (simp add: m1_def)
  show "Free m' = Free m + (4 + n)" "heap_start m' = heap_start m" "heap_alloc_limit m' = heap_alloc_limit m" "int_mask m' = int_mask m"
    "fixed_objects m' = fixed_objects m"
    by (simp_all add: m'_def m1_def)
  show "mem m' (Free m) = MAKE_OBJECT TC_MANIFEST_VECTOR (of_nat (3 + n))"
    "mem m' (Free m + 1) = GET_PROCEDURE_ENVIRONMENT procedure m" "mem m' (Free m + 2) = procedure"
    "mem m' (Free m + 3) = LONG_TO_UNSIGNED_FIXNUM 0"
    by (simp_all add: m'_def m1_def fill_heap_mem)
  show "\<And>a. a < Free m \<Longrightarrow> mem m' a = mem m a"
    by (simp add: m'_def m1_def fill_heap_mem)
qed

lemma copy_bindings_other: "a < to \<or> to + n \<le> a \<Longrightarrow> mem (copy_bindings to from n m) a = mem m a"
  by (induction n arbitrary: to "from" m) auto

lemma copy_bindings_copied:
  "\<lbrakk>from + n \<le> to; i < n\<rbrakk> \<Longrightarrow> mem (copy_bindings to from n m) (to + i) = mem m (from + i)"
proof (induction n arbitrary: to "from" m i)
  case (Suc n)
  then show ?case
    using Suc.IH [of "Suc from" "Suc to" "i - 1" "store_word to (mem m from) m"] by (cases i) (simp_all add: copy_bindings_other)
qed simp

lemma copy_bindings_simps [simp]:
  "Free (copy_bindings to from n m) = Free m" "heap_start (copy_bindings to from n m) = heap_start m"
  "heap_alloc_limit (copy_bindings to from n m) = heap_alloc_limit m" "int_mask (copy_bindings to from n m) = int_mask m"
  "fixed_objects (copy_bindings to from n m) = fixed_objects m"
  by (induction n arbitrary: to "from" m) simp_all

text \<open>The number of definitions in a frame, the words it needs for one more, and the words that may change for it.\<close>

definition frame_count :: "scheme_object \<Rightarrow> machine \<Rightarrow> nat" where
  "frame_count env m = (if EXTENDED_FRAME_P env m then GET_FRAME_EXTENSION_LENGTH (GET_FRAME_PROCEDURE env m) m else 0)"

definition extension_space :: "scheme_object \<Rightarrow> machine \<Rightarrow> nat" where
  "extension_space env m =
    (if \<not> EXTENDED_FRAME_P env m then 20
     else if frame_count env m = GET_MAX_FRAME_EXTENSION_LENGTH (GET_FRAME_PROCEDURE env m) m then 4 + 2 * frame_count env m else 0)"

definition extension_area :: "scheme_object \<Rightarrow> machine \<Rightarrow> addr set" where
  "extension_area extension m =
    {OBJECT_ADDRESS extension..<OBJECT_ADDRESS extension + 4 + GET_MAX_FRAME_EXTENSION_LENGTH extension m}"

definition growth_words :: "scheme_object \<Rightarrow> machine \<Rightarrow> addr set" where
  "growth_words env m =
    {MEMORY_LOC env ENVIRONMENT_FUNCTION} \<union> (if EXTENDED_FRAME_P env m then extension_area (GET_FRAME_PROCEDURE env m) m else {})"

definition pair_words :: "scheme_object \<Rightarrow> machine \<Rightarrow> addr set" where
  "pair_words env m = (\<lambda>i. PAIR_CAR_LOC (mem m (GET_FRAME_EXTENSION_BINDINGS (GET_FRAME_PROCEDURE env m) + i))) ` {..<frame_count env m}"

definition safe_words :: "scheme_object \<Rightarrow> machine \<Rightarrow> addr set" where
  "safe_words env m = {..<Free m} - growth_words env m"

text \<open>
  A frame in which definitions can be made: an extension has a place for bindings and
  records the parent of its procedure, and it does not overlap with the rest of the environment and
  the fixed objects.
\<close>

definition definable :: "scheme_object \<Rightarrow> scheme_object list \<Rightarrow> machine \<Rightarrow> bool" where
  "definable env fs m \<longleftrightarrow>
    MEMORY_LOC env ENVIRONMENT_FUNCTION < Free m \<and> VECTOR_LOC (fixed_objects m) NON_OBJECT \<in> safe_words env m \<and>
    GET_PROCEDURE_ENVIRONMENT (frame_procedure env m) m = GET_FRAME_PARENT env m \<and>
    procedure_words (frame_procedure env m) m \<union> pair_words env m \<union> chain_words fs m \<union> chain_cells (env # fs) m \<subseteq> safe_words env m \<and>
    (EXTENDED_FRAME_P env m \<longrightarrow>
      (let extension = GET_FRAME_PROCEDURE env m; max = GET_MAX_FRAME_EXTENSION_LENGTH extension m in
       0 < max \<and> frame_count env m \<le> max \<and> OBJECT_ADDRESS extension + 4 + max \<le> Free m \<and>
       MEMORY_LOC env ENVIRONMENT_FUNCTION \<notin> extension_area extension m))"

text \<open>The frame has the extension \<open>extension\<close> with a free place in \<open>m1\<close>, and the bindings it had in \<open>m\<close>.\<close>

definition grown :: "scheme_object \<Rightarrow> machine \<Rightarrow> scheme_object \<Rightarrow> machine \<Rightarrow> bool" where
  "grown env m extension m1 \<longleftrightarrow>
    GET_FRAME_PROCEDURE env m1 = extension \<and> VECTOR_P extension \<and>
    frame_count env m < GET_MAX_FRAME_EXTENSION_LENGTH extension m1 \<and>
    OBJECT_ADDRESS extension + 4 + GET_MAX_FRAME_EXTENSION_LENGTH extension m1 \<le> Free m1 \<and>
    GET_PROCEDURE_ENVIRONMENT extension m1 = GET_FRAME_PARENT env m \<and>
    GET_FRAME_EXTENSION_PROCEDURE extension m1 = frame_procedure env m \<and>
    GET_FRAME_EXTENSION_LENGTH extension m1 = frame_count env m \<and>
    (\<forall>i < frame_count env m. mem m1 (GET_FRAME_EXTENSION_BINDINGS extension + i) =
      mem m (GET_FRAME_EXTENSION_BINDINGS (GET_FRAME_PROCEDURE env m) + i)) \<and>
    (\<forall>a \<in> safe_words env m. mem m1 a = mem m a \<and> a \<notin> extension_area extension m1) \<and>
    MEMORY_LOC env ENVIRONMENT_FUNCTION \<notin> extension_area extension m1 \<and>
    Free m1 = Free m + extension_space env m \<and> heap_start m1 = heap_start m \<and> heap_alloc_limit m1 = heap_alloc_limit m \<and>
    int_mask m1 = int_mask m \<and> fixed_objects m1 = fixed_objects m"

lemmas extension_defs = GET_FRAME_EXTENSION_LENGTH_def GET_FRAME_EXTENSION_BINDINGS_def GET_FRAME_EXTENSION_PROCEDURE_def
  GET_PROCEDURE_ENVIRONMENT_def MEMORY_REF_def MEMORY_SET_def MEMORY_LOC_def ENV_EXTENSION_MIN_SIZE_def ENV_EXTENSION_PROCEDURE_def
  ENV_EXTENSION_COUNT_def PROCEDURE_ENVIRONMENT_def ENVIRONMENT_FUNCTION_def

text \<open>The three ways to get a free place: there is one, the extension is copied to one of twice its size, or the frame gets its first extension.\<close>

lemma grown_in_place:
  assumes "definable env fs m" "EXTENDED_FRAME_P env m"
    "frame_count env m \<noteq> GET_MAX_FRAME_EXTENSION_LENGTH (GET_FRAME_PROCEDURE env m) m"
  shows "guarantee_extension_space env m = machine_return (PRIM_DONE, None) m \<and> grown env m (GET_FRAME_PROCEDURE env m) m"
proof -
  define e where "e = GET_FRAME_PROCEDURE env m"
  have "frame_count env m = GET_FRAME_EXTENSION_LENGTH e m" "VECTOR_P e" "frame_procedure env m = GET_FRAME_EXTENSION_PROCEDURE e m"
    using assms(2) by (simp_all add: frame_count_def e_def EXTENDED_FRAME_P_def frame_procedure_def Let_def)
  with assms show ?thesis
    by (auto simp: guarantee_extension_space_def lookup_return_def grown_def definable_def Let_def extension_space_def
        safe_words_def growth_words_def GET_FRAME_PARENT_def simp flip: e_def)
qed

text \<open>A fresh extension, as \<open>allocate_frame_extension\<close> makes it, linked to the frame with \<open>k\<close> bindings copied.\<close>

lemma grown_fresh:
  assumes d: "definable env fs m" and space: "extension_space env m = 4 + n" "frame_count env m < n" and room: "Free m + (4 + n) \<le> 2 ^ 58"
    and e: "e = MAKE_POINTER_OBJECT TC_VECTOR (Free m)"
    and regs: "Free m2 = Free m + (4 + n)" "heap_start m2 = heap_start m" "heap_alloc_limit m2 = heap_alloc_limit m"
      "int_mask m2 = int_mask m" "fixed_objects m2 = fixed_objects m"
    and old: "\<And>a. a < Free m \<Longrightarrow> mem m2 a = mem m a"
    and new: "mem m2 (Free m) = MAKE_OBJECT TC_MANIFEST_VECTOR (of_nat (3 + n))"
      "mem m2 (Free m + 1) = GET_PROCEDURE_ENVIRONMENT (frame_procedure env m) m" "mem m2 (Free m + 2) = frame_procedure env m"
      "mem m2 (Free m + 3) = LONG_TO_UNSIGNED_FIXNUM (int (frame_count env m))"
      "\<And>i. i < frame_count env m \<Longrightarrow>
        mem m2 (Free m + 4 + i) = mem m (GET_FRAME_EXTENSION_BINDINGS (GET_FRAME_PROCEDURE env m) + i)"
  shows "grown env m e (SET_FRAME_EXTENSION env e m2)"
proof -
  define m1 where "m1 = SET_FRAME_EXTENSION env e m2"
  have mem1: "mem m1 = (mem m2)(MEMORY_LOC env ENVIRONMENT_FUNCTION := e)" by (simp add: m1_def SET_FRAME_EXTENSION_def MEMORY_SET_def)
  have env: "MEMORY_LOC env ENVIRONMENT_FUNCTION < Free m" using d by (simp add: definable_def)
  have A: "OBJECT_ADDRESS e = Free m" "VECTOR_P e" using room by (simp_all add: e VECTOR_P_def)
  have at: "mem m1 (Free m + i) = mem m2 (Free m + i)" for i using env by (simp add: mem1)
  have max: "GET_MAX_FRAME_EXTENSION_LENGTH e m1 = n"
    using new(1) at [of 0] manifest_length [of "3 + n"] room
    by (simp add: GET_MAX_FRAME_EXTENSION_LENGTH_def VECTOR_LENGTH_heap_def VECTOR_LENGTH_def A ENV_EXTENSION_MIN_SIZE_def)
  have len: "GET_FRAME_EXTENSION_LENGTH e m1 = frame_count env m"
    using new(4) at [of 3] count_word [of "frame_count env m"] room space(2) by (simp add: extension_defs A)
  have "GET_PROCEDURE_ENVIRONMENT e m1 = GET_FRAME_PARENT env m" "GET_FRAME_EXTENSION_PROCEDURE e m1 = frame_procedure env m"
    using new(2,3) at [of 1] at [of 2] d by (simp_all add: definable_def) (simp_all add: extension_defs A)
  moreover have "mem m1 (GET_FRAME_EXTENSION_BINDINGS e + i) = mem m (GET_FRAME_EXTENSION_BINDINGS (GET_FRAME_PROCEDURE env m) + i)"
    if "i < frame_count env m" for i
    using new(5) [OF that] at [of "4 + i"] by (simp add: GET_FRAME_EXTENSION_BINDINGS_def ENV_EXTENSION_MIN_SIZE_def A add.assoc)
  moreover have "mem m1 a = mem m a \<and> a \<notin> extension_area e m1" if "a \<in> safe_words env m" for a
    using that old [of a] by (simp add: safe_words_def growth_words_def mem1 extension_area_def A)
  moreover have "GET_FRAME_PROCEDURE env m1 = e" by (simp add: GET_FRAME_PROCEDURE_def MEMORY_REF_def mem1)
  ultimately show ?thesis
    using A max len space regs env unfolding grown_def m1_def [symmetric]
    by (simp add: extension_area_def) (simp add: m1_def SET_FRAME_EXTENSION_def MEMORY_SET_def)
qed

lemma grown_copied:
  assumes d: "definable env fs m" and room: "room_for_words (extension_space env m) m"
    and full: "EXTENDED_FRAME_P env m" "frame_count env m = GET_MAX_FRAME_EXTENSION_LENGTH (GET_FRAME_PROCEDURE env m) m"
  shows "\<exists>e m1. guarantee_extension_space env m = machine_return (PRIM_DONE, None) m1 \<and> grown env m e m1"
proof -
  define old len p where "old = GET_FRAME_PROCEDURE env m" and "len = frame_count env m" and "p = frame_procedure env m"
  define e where "e = MAKE_POINTER_OBJECT TC_VECTOR (Free m)"
  have p: "MEMORY_LOC p PROCEDURE_ENVIRONMENT < Free m"
    using d by (auto simp: definable_def procedure_words_def Let_def p_def safe_words_def)
  have space: "extension_space env m = 4 + 2 * len" using full by (simp add: extension_space_def len_def)
  have old: "0 < len" "GET_FRAME_EXTENSION_BINDINGS old + len \<le> Free m"
    using d full by (simp_all add: definable_def Let_def old_def len_def GET_FRAME_EXTENSION_BINDINGS_def ENV_EXTENSION_MIN_SIZE_def)
  have fields: "GET_FRAME_EXTENSION_LENGTH old m = len" "GET_FRAME_EXTENSION_PROCEDURE old m = p" "GET_MAX_FRAME_EXTENSION_LENGTH old m = len"
    using full by (simp_all add: frame_count_def len_def old_def p_def frame_procedure_def Let_def)
  from allocate_frame_extension_eq [OF room [unfolded space] p] obtain m2 where
    m2: "allocate_frame_extension (2 * len) p m = machine_return (PRIM_DONE, Some e) m2"
      "Free m2 = Free m + (4 + 2 * len)" "heap_start m2 = heap_start m" "heap_alloc_limit m2 = heap_alloc_limit m"
      "int_mask m2 = int_mask m" "fixed_objects m2 = fixed_objects m" "\<And>a. a < Free m \<Longrightarrow> mem m2 a = mem m a"
      "mem m2 (Free m) = MAKE_OBJECT TC_MANIFEST_VECTOR (of_nat (3 + 2 * len))"
      "mem m2 (Free m + 1) = GET_PROCEDURE_ENVIRONMENT p m" "mem m2 (Free m + 2) = p"
    unfolding e_def by metis
  define m3 where "m3 = store_word (Free m + 3) (LONG_TO_UNSIGNED_FIXNUM (int len))
    (copy_bindings (Free m + 4) (GET_FRAME_EXTENSION_BINDINGS old) len m2)"
  have "grown env m e (SET_FRAME_EXTENSION env e m3)"
  proof (rule grown_fresh [OF d, of "2 * len"])
    show "mem m3 (Free m + 4 + i) = mem m (GET_FRAME_EXTENSION_BINDINGS (GET_FRAME_PROCEDURE env m) + i)" if "i < frame_count env m" for i
      using that m2(7) old copy_bindings_copied [of "GET_FRAME_EXTENSION_BINDINGS old" len "Free m + 4" i m2]
      by (simp add: m3_def flip: old_def len_def)
  qed (use space old room m2 in \<open>simp_all add: e_def m3_def copy_bindings_other room_for_words_def flip: len_def p_def\<close>)
  moreover have "OBJECT_ADDRESS e = Free m" using room by (simp add: e_def room_for_words_def space)
  then have "guarantee_extension_space env m = machine_return (PRIM_DONE, None) (SET_FRAME_EXTENSION env e m3)"
    using full(1) m2(1)
    by (simp add: guarantee_extension_space_def Let_def fields RETURN_IF_ERROR_def machine_bind_def machine_return_def lookup_return_def
        SET_FRAME_EXTENSION_LENGTH_def MEMORY_SET_def m3_def GET_FRAME_EXTENSION_BINDINGS_def [of e] ENV_EXTENSION_MIN_SIZE_def
        MEMORY_LOC_def ENV_EXTENSION_COUNT_def flip: old_def)
  ultimately show ?thesis by blast
qed

lemma grown_first:
  assumes d: "definable env fs m" and room: "room_for_words (extension_space env m) m" and none: "\<not> EXTENDED_FRAME_P env m"
  shows "\<exists>e m1. guarantee_extension_space env m = machine_return (PRIM_DONE, None) m1 \<and> grown env m e m1"
proof -
  define p where "p = frame_procedure env m"
  define e where "e = MAKE_POINTER_OBJECT TC_VECTOR (Free m)"
  have p: "MEMORY_LOC p PROCEDURE_ENVIRONMENT < Free m"
    using d by (auto simp: definable_def procedure_words_def Let_def p_def safe_words_def)
  have space: "extension_space env m = 4 + 16" "frame_count env m = 0" "GET_FRAME_PROCEDURE env m = p"
    using none by (simp_all add: extension_space_def frame_count_def p_def frame_procedure_def Let_def)
  from allocate_frame_extension_eq [OF room [unfolded space] p] obtain m2 where
    m2: "allocate_frame_extension 16 p m = machine_return (PRIM_DONE, Some e) m2"
      "Free m2 = Free m + (4 + 16)" "heap_start m2 = heap_start m" "heap_alloc_limit m2 = heap_alloc_limit m"
      "int_mask m2 = int_mask m" "fixed_objects m2 = fixed_objects m" "\<And>a. a < Free m \<Longrightarrow> mem m2 a = mem m a"
      "mem m2 (Free m) = MAKE_OBJECT TC_MANIFEST_VECTOR (of_nat (3 + 16))"
      "mem m2 (Free m + 1) = GET_PROCEDURE_ENVIRONMENT p m" "mem m2 (Free m + 2) = p" "mem m2 (Free m + 3) = LONG_TO_UNSIGNED_FIXNUM 0"
    unfolding e_def by metis
  have "grown env m e (SET_FRAME_EXTENSION env e m2)"
    by (rule grown_fresh [OF d, of 16])
      (use space room m2 in \<open>simp_all add: e_def room_for_words_def flip: p_def\<close>)
  moreover have "guarantee_extension_space env m = machine_return (PRIM_DONE, None) (SET_FRAME_EXTENSION env e m2)"
    using none m2(1) space
    by (simp add: guarantee_extension_space_def Let_def RETURN_IF_ERROR_def machine_bind_def machine_return_def lookup_return_def)
  ultimately show ?thesis by blast
qed

lemma guarantee_extension_space_grown:
  assumes "definable env fs m" and "room_for_words (extension_space env m) m"
  obtains e m1 where "guarantee_extension_space env m = machine_return (PRIM_DONE, None) m1" "grown env m e m1"
  using grown_in_place [OF assms(1)] grown_copied [OF assms] grown_first [OF assms] by blast

text \<open>In a grown frame the new binding is added after the others.\<close>

lemma extend_environment_eq:
  assumes g: "grown env m e m1" and d: "definable env fs m" and room: "room_for_words 2 m1"
    and w: "w = MAP_TO_UNASSIGNED v m1"
  obtains m' where "extend_environment env symbol v m1 = (Inr (Free m1 + 1), m')"
    "mem m' (Free m1) = symbol" "mem m' (Free m1 + 1) = w"
    "GET_FRAME_PROCEDURE env m' = e" "GET_FRAME_EXTENSION_LENGTH e m' = frame_count env m + 1"
    "mem m' (GET_FRAME_EXTENSION_BINDINGS e + frame_count env m) = MAKE_POINTER_OBJECT TC_LIST (Free m1)"
    "\<And>i. i < frame_count env m \<Longrightarrow> mem m' (GET_FRAME_EXTENSION_BINDINGS e + i) = mem m1 (GET_FRAME_EXTENSION_BINDINGS e + i)"
    "GET_PROCEDURE_ENVIRONMENT e m' = GET_PROCEDURE_ENVIRONMENT e m1" "GET_FRAME_EXTENSION_PROCEDURE e m' = GET_FRAME_EXTENSION_PROCEDURE e m1"
    "\<And>a. \<lbrakk>a < Free m1; a \<notin> extension_area e m1\<rbrakk> \<Longrightarrow> mem m' a = mem m1 a"
    "Free m' = Free m1 + 2" "heap_start m' = heap_start m1" "heap_alloc_limit m' = heap_alloc_limit m1" "int_mask m' = int_mask m1"
proof -
  define len where "len = frame_count env m"
  define p where "p = MAKE_POINTER_OBJECT TC_LIST (Free m1)"
  define A where "A = OBJECT_ADDRESS e"
  define m' where "m' = store_word (A + 3) (LONG_TO_UNSIGNED_FIXNUM (int (len + 1)))
    (store_word (A + 4 + len) p (push_heap w (push_heap symbol m1)))"
  have A: "A + 4 + len < Free m1" "len < GET_MAX_FRAME_EXTENSION_LENGTH e m1" "GET_FRAME_PROCEDURE env m1 = e"
    "GET_FRAME_EXTENSION_LENGTH e m1 = len"
    "MEMORY_LOC env ENVIRONMENT_FUNCTION \<notin> extension_area e m1"
    using g by (simp_all add: grown_def len_def A_def)
  have env: "MEMORY_LOC env ENVIRONMENT_FUNCTION < Free m1" using g d by (simp add: grown_def definable_def)
  have f: "Free m1 + 2 \<le> 2 ^ 58" "OBJECT_ADDRESS p = Free m1" using room by (simp_all add: room_for_words_def p_def)
  have mem': "mem m' = (mem m1)(Free m1 := symbol, Free m1 + 1 := w, A + 4 + len := p, A + 3 := LONG_TO_UNSIGNED_FIXNUM (int (len + 1)))"
    by (simp add: m'_def)
  have "room 2 m1" using room_no_gc [OF room, of 2] f by (simp add: room_def)
  then have "cons symbol w m1 = (Inr p, push_heap w (push_heap symbol m1))"
    by (simp add: cons_def system_pair_cons_def Primitive_GC_If_Needed_room p_def)
  moreover have "GET_FRAME_PROCEDURE env (push_heap w (push_heap symbol m1)) = e"
    using A(3) env by (simp add: GET_FRAME_PROCEDURE_def MEMORY_REF_def)
  moreover have "GET_FRAME_EXTENSION_LENGTH e (push_heap w (push_heap symbol m1)) = len"
    using A(1,4) by (simp add: extension_defs flip: A_def)
  ultimately have "extend_environment env symbol v m1 = (Inr (PAIR_CDR_LOC p), m')"
    by (simp add: extend_environment_def m'_def Let_def SET_FRAME_EXTENSION_LENGTH_def MEMORY_SET_def MEMORY_LOC_def
        ENV_EXTENSION_COUNT_def GET_FRAME_EXTENSION_BINDINGS_def ENV_EXTENSION_MIN_SIZE_def add.assoc A_def flip: w)
  then have "extend_environment env symbol v m1 = (Inr (Free m1 + 1), m')" by (simp add: PAIR_CDR_LOC_def MEMORY_LOC_def CONS_CDR_def f)
  then show thesis
  proof (rule that)
    show "mem m' (Free m1) = symbol" "mem m' (Free m1 + 1) = w" using A(1) by (simp_all add: mem')
    show "GET_FRAME_PROCEDURE env m' = e"
      using A env by (auto simp: GET_FRAME_PROCEDURE_def MEMORY_REF_def mem' extension_area_def simp flip: A_def)
    show "GET_FRAME_EXTENSION_LENGTH e m' = frame_count env m + 1"
      using count_word [of "len + 1"] A(1) f(1) by (simp add: extension_defs mem' flip: A_def len_def)
    show "mem m' (GET_FRAME_EXTENSION_BINDINGS e + frame_count env m) = MAKE_POINTER_OBJECT TC_LIST (Free m1)"
      by (simp add: GET_FRAME_EXTENSION_BINDINGS_def ENV_EXTENSION_MIN_SIZE_def mem' p_def flip: A_def len_def)
    show "mem m' (GET_FRAME_EXTENSION_BINDINGS e + i) = mem m1 (GET_FRAME_EXTENSION_BINDINGS e + i)" if "i < frame_count env m" for i
      using that A(1) by (simp add: GET_FRAME_EXTENSION_BINDINGS_def ENV_EXTENSION_MIN_SIZE_def mem' flip: A_def len_def)
    show "GET_PROCEDURE_ENVIRONMENT e m' = GET_PROCEDURE_ENVIRONMENT e m1" "GET_FRAME_EXTENSION_PROCEDURE e m' = GET_FRAME_EXTENSION_PROCEDURE e m1"
      using A(1) by (simp_all add: extension_defs mem' flip: A_def)
    show "mem m' a = mem m1 a" if "a < Free m1" "a \<notin> extension_area e m1" for a
      using that A(2) by (auto simp: mem' extension_area_def simp flip: A_def)
    show "Free m' = Free m1 + 2" "heap_start m' = heap_start m1" "heap_alloc_limit m' = heap_alloc_limit m1" "int_mask m' = int_mask m1"
      by (simp_all add: m'_def)
  qed
qed

definition frame_definitions :: "scheme_object \<Rightarrow> machine \<Rightarrow> (scheme_object \<times> addr) list" where
  "frame_definitions env m =
    map (\<lambda>i. let pair = mem m (GET_FRAME_EXTENSION_BINDINGS (GET_FRAME_PROCEDURE env m) + i) in (PAIR_CAR pair m, PAIR_CDR_LOC pair))
      [0..<frame_count env m]"

lemma frame_bindings_eq:
  "frame_bindings b env m = frame_definitions env m @
    filter (\<lambda>(s, cell). b \<or> mem m cell \<noteq> UNBOUND_OBJECT) (parameter_bindings (frame_procedure env m) env m)"
  by (simp add: frame_bindings_def frame_definitions_def frame_count_def extension_bindings_def)

text \<open>The whole effect of a new definition on memory.\<close>

definition defined :: "scheme_object \<Rightarrow> scheme_object \<Rightarrow> scheme_object \<Rightarrow> machine \<Rightarrow> machine \<Rightarrow> bool" where
  "defined env symbol w m m' \<longleftrightarrow>
    (\<exists>cell. mem m' cell = w \<and>
      (\<forall>b. frame_bindings b env m' = frame_definitions env m @ [(symbol, cell)] @
        filter (\<lambda>(s, cell). b \<or> mem m cell \<noteq> UNBOUND_OBJECT) (parameter_bindings (frame_procedure env m) env m))) \<and>
    GET_FRAME_PARENT env m' = GET_FRAME_PARENT env m \<and> (\<forall>a \<in> safe_words env m. mem m' a = mem m a)"

lemma definable_parameters:
  assumes d: "definable env fs m" and safe: "\<forall>a \<in> safe_words env m. mem m' a = mem m a"
  shows "filter (\<lambda>(s, cell). b \<or> mem m' cell \<noteq> UNBOUND_OBJECT) (parameter_bindings (frame_procedure env m) env m') =
    filter (\<lambda>(s, cell). b \<or> mem m cell \<noteq> UNBOUND_OBJECT) (parameter_bindings (frame_procedure env m) env m)"
proof -
  have "parameter_bindings (frame_procedure env m) env m' = parameter_bindings (frame_procedure env m) env m"
    using d safe by (intro procedure_words_cong) (auto simp: definable_def)
  moreover have "mem m' cell = mem m cell" if "(s, cell) \<in> set (parameter_bindings (frame_procedure env m) env m)" for s cell
  proof -
    have "cell \<in> chain_cells (env # fs) m" using that by (force simp: chain_cells_def frame_bindings_eq)
    with d safe show ?thesis by (auto simp: definable_def)
  qed
  ultimately show ?thesis by (auto intro!: filter_cong)
qed

lemma extend_environment_defined:
  assumes d: "definable env fs m" and g: "grown env m e m1" and room: "room_for_words 2 m1"
  obtains cell m' where "extend_environment env symbol v m1 = (Inr cell, m')" "defined env symbol (MAP_TO_UNASSIGNED v m1) m m'"
proof -
  from extend_environment_eq [OF g d room refl, of symbol v] obtain m' where
    eq: "extend_environment env symbol v m1 = (Inr (Free m1 + 1), m')" and
    pair: "mem m' (Free m1) = symbol" "mem m' (Free m1 + 1) = MAP_TO_UNASSIGNED v m1" and
    e: "GET_FRAME_PROCEDURE env m' = e" "GET_FRAME_EXTENSION_LENGTH e m' = frame_count env m + 1"
      "mem m' (GET_FRAME_EXTENSION_BINDINGS e + frame_count env m) = MAKE_POINTER_OBJECT TC_LIST (Free m1)"
      "\<And>i. i < frame_count env m \<Longrightarrow> mem m' (GET_FRAME_EXTENSION_BINDINGS e + i) = mem m1 (GET_FRAME_EXTENSION_BINDINGS e + i)"
      "GET_PROCEDURE_ENVIRONMENT e m' = GET_PROCEDURE_ENVIRONMENT e m1" "GET_FRAME_EXTENSION_PROCEDURE e m' = GET_FRAME_EXTENSION_PROCEDURE e m1"
      "\<And>a. \<lbrakk>a < Free m1; a \<notin> extension_area e m1\<rbrakk> \<Longrightarrow> mem m' a = mem m1 a"
    by metis
  have ext: "EXTENDED_FRAME_P env m'" "frame_count env m' = frame_count env m + 1" "frame_procedure env m' = frame_procedure env m"
    using g e by (simp_all add: grown_def EXTENDED_FRAME_P_def frame_count_def frame_procedure_def Let_def)
  have safe: "\<forall>a \<in> safe_words env m. mem m' a = mem m a"
  proof
    fix a assume a: "a \<in> safe_words env m"
    then have "mem m1 a = mem m a" "a \<notin> extension_area e m1" "a < Free m1" using g by (auto simp: grown_def safe_words_def)
    with e(7) show "mem m' a = mem m a" by simp
  qed
  have new: "PAIR_CAR (MAKE_POINTER_OBJECT TC_LIST (Free m1)) m' = symbol" "PAIR_CDR_LOC (MAKE_POINTER_OBJECT TC_LIST (Free m1)) = Free m1 + 1"
    using pair(1) room
    by (simp_all add: PAIR_CAR_def PAIR_CDR_LOC_def MEMORY_REF_def MEMORY_LOC_def CONS_CAR_def CONS_CDR_def room_for_words_def)
  have old: "mem m' (GET_FRAME_EXTENSION_BINDINGS e + i) = mem m (GET_FRAME_EXTENSION_BINDINGS (GET_FRAME_PROCEDURE env m) + i)"
    "PAIR_CAR (mem m (GET_FRAME_EXTENSION_BINDINGS (GET_FRAME_PROCEDURE env m) + i)) m' =
      PAIR_CAR (mem m (GET_FRAME_EXTENSION_BINDINGS (GET_FRAME_PROCEDURE env m) + i)) m" if "i < frame_count env m" for i
  proof -
    show "mem m' (GET_FRAME_EXTENSION_BINDINGS e + i) = mem m (GET_FRAME_EXTENSION_BINDINGS (GET_FRAME_PROCEDURE env m) + i)"
      using e(4) [OF that] g that by (simp add: grown_def)
    have "PAIR_CAR_LOC (mem m (GET_FRAME_EXTENSION_BINDINGS (GET_FRAME_PROCEDURE env m) + i)) \<in> safe_words env m"
      using d that by (auto simp: definable_def pair_words_def)
    with safe show "PAIR_CAR (mem m (GET_FRAME_EXTENSION_BINDINGS (GET_FRAME_PROCEDURE env m) + i)) m' =
      PAIR_CAR (mem m (GET_FRAME_EXTENSION_BINDINGS (GET_FRAME_PROCEDURE env m) + i)) m"
      by (simp add: PAIR_CAR_def PAIR_CAR_LOC_def MEMORY_REF_def)
  qed
  then have "frame_definitions env m' = frame_definitions env m @ [(symbol, Free m1 + 1)]"
    using e(3) new by (simp add: frame_definitions_def ext e(1) Let_def)
  then have "frame_bindings b env m' = frame_definitions env m @ [(symbol, Free m1 + 1)] @
      filter (\<lambda>(s, cell). b \<or> mem m cell \<noteq> UNBOUND_OBJECT) (parameter_bindings (frame_procedure env m) env m)" for b
    by (simp add: frame_bindings_eq ext definable_parameters [OF d safe])
  moreover have "GET_FRAME_PARENT env m' = GET_FRAME_PARENT env m" using g e by (simp add: GET_FRAME_PARENT_def grown_def)
  ultimately have "defined env symbol (MAP_TO_UNASSIGNED v m1) m m'" unfolding defined_def using pair(2) safe by blast
  with eq that show thesis by blast
qed

text \<open>The words that determine the value of a variable once it is resolved.\<close>

definition variable_footprint :: "addr option \<Rightarrow> machine \<Rightarrow> addr set" where
  "variable_footprint cell m =
    (case cell of None \<Rightarrow> {} | Some c \<Rightarrow> {c, value_location c m}) \<union> variable_words cell m"

lemma variable_footprint_cong:
  assumes "\<forall>a \<in> variable_footprint cell m. mem m' a = mem m a"
  shows "variable_state cell m' = variable_state cell m"
    "cell = Some c \<Longrightarrow> get_trap_kind (mem m' c) m' = get_trap_kind (mem m c) m"
proof -
  have *: "mem m' c = mem m c" "get_trap_kind (mem m' c) m' = get_trap_kind (mem m c) m" "value_location c m' = value_location c m"
    "get_trap_kind (mem m' (value_location c m')) m' = get_trap_kind (mem m (value_location c m)) m"
    "mem m' (value_location c m') = mem m (value_location c m)" if "cell = Some c" for c
  proof -
    show 1: "mem m' c = mem m c" using assms that by (simp add: variable_footprint_def)
    then show 2: "get_trap_kind (mem m' c) m' = get_trap_kind (mem m c) m"
      using assms that get_trap_kind_cong [of "mem m c" m' m] by (simp add: variable_footprint_def variable_words_def)
    show 3: "value_location c m' = value_location c m"
      using 1 2 assms that GET_TRAP_CACHE_cong [of "mem m c" m' m] by (simp add: variable_footprint_def variable_words_def value_location_def)
    show 4: "mem m' (value_location c m') = mem m (value_location c m)" using 3 assms that by (simp add: variable_footprint_def)
    show "get_trap_kind (mem m' (value_location c m')) m' = get_trap_kind (mem m (value_location c m)) m"
      using 3 4 assms that get_trap_kind_cong [of "mem m (value_location c m)" m' m] by (simp add: variable_footprint_def variable_words_def)
  qed
  then show "cell = Some c \<Longrightarrow> get_trap_kind (mem m' c) m' = get_trap_kind (mem m c) m" by blast
  show "variable_state cell m' = variable_state cell m"
    using * by (cases cell) (simp_all add: variable_state_def word_state_def)
qed

text \<open>The frames around the frame \<open>env\<close>.\<close>

definition enclosed :: "machine \<Rightarrow> scheme_object \<Rightarrow> scheme_object list \<Rightarrow> bool \<Rightarrow> bool" where
  "enclosed m env fs g \<longleftrightarrow>
    PROCEDURE_FRAME_P env \<and>
    (if NULL_FRAME_P (GET_FRAME_PARENT env m) then fs = [] \<and> \<not> g else env_chain m (GET_FRAME_PARENT env m) fs g)"

lemma enclosed_chain: "enclosed m env fs g \<Longrightarrow> env_chain m env (env # fs) g"
  by (auto simp: enclosed_def ENVIRONMENT_P_def GLOBAL_FRAME_P_def NULL_FRAME_P_def intro: chain_last chain_frame split: if_splits)

lemma enclosed_cong:
  assumes "enclosed m env fs g" "\<forall>a \<in> chain_words fs m. mem m' a = mem m a" "GET_FRAME_PARENT env m' = GET_FRAME_PARENT env m"
  shows "enclosed m' env fs g"
  using assms env_chain_cong [of m "GET_FRAME_PARENT env m" fs g m'] by (simp add: enclosed_def split: if_splits)

lemma find_shadowed:
  assumes "enclosed m env fs g"
  shows "\<exists>frame. find_binding_cell (GET_FRAME_PARENT env m) symbol m = Some (Inr (resolve m fs g symbol, frame))"
  using assms find_binding_cell_eq [of m "GET_FRAME_PARENT env m" fs g symbol]
  by (auto simp: enclosed_def find_binding_cell_def split: if_splits)

lemma definable_chain:
  assumes d: "definable env fs m" and same: "\<forall>a \<in> safe_words env m. mem m' a = mem m a"
  shows "\<forall>a \<in> chain_words fs m. mem m' a = mem m a" "\<forall>a \<in> chain_cells fs m. mem m' a = mem m a"
proof -
  have "chain_cells fs m \<subseteq> chain_cells (env # fs) m" by (auto simp: chain_cells_def)
  with d have "chain_cells fs m \<subseteq> safe_words env m" "chain_words fs m \<subseteq> safe_words env m" by (auto simp: definable_def)
  with same show "\<forall>a \<in> chain_words fs m. mem m' a = mem m a" "\<forall>a \<in> chain_cells fs m. mem m' a = mem m a" by blast+
qed

text \<open>After the frame has grown, the shadowed variable is the one that was shadowed before.\<close>

lemma grown_shadowed:
  assumes env: "enclosed m env fs g" and d: "definable env fs m" and grown: "grown env m e m1"
    and shadow: "variable_footprint (resolve m fs g symbol) m \<subseteq> safe_words env m"
  shows "\<exists>frame. find_binding_cell (GET_FRAME_PARENT env m1) symbol m1 = Some (Inr (resolve m fs g symbol, frame))"
    and "resolve m fs g symbol = Some c \<Longrightarrow> get_trap_kind (mem m1 c) m1 = get_trap_kind (mem m c) m"
    and "\<lbrakk>resolve m fs g symbol = Some c; get_trap_kind (mem m c) m = TRAP_COMPILER_CACHED\<rbrakk> \<Longrightarrow>
      GET_TRAP_CACHE (mem m1 c) m1 = GET_TRAP_CACHE (mem m c) m"
proof -
  have same: "\<forall>a \<in> safe_words env m. mem m1 a = mem m a" using grown by (simp add: grown_def)
  note words = definable_chain [OF d same]
  have "GET_FRAME_PARENT env m1 = GET_FRAME_PARENT env m" using grown by (simp add: grown_def GET_FRAME_PARENT_def)
  with env words(1) have "enclosed m1 env fs g" by (rule enclosed_cong)
  moreover have "resolve m1 fs g symbol = resolve m fs g symbol" using words by (intro resolve_cong) simp_all
  ultimately show "\<exists>frame. find_binding_cell (GET_FRAME_PARENT env m1) symbol m1 = Some (Inr (resolve m fs g symbol, frame))"
    using find_shadowed [of m1 env fs g symbol] by simp
  have fp: "\<forall>a \<in> variable_footprint (resolve m fs g symbol) m. mem m1 a = mem m a" using shadow same by blast
  then show "resolve m fs g symbol = Some c \<Longrightarrow> get_trap_kind (mem m1 c) m1 = get_trap_kind (mem m c) m"
    by (rule variable_footprint_cong(2))
  show "GET_TRAP_CACHE (mem m1 c) m1 = GET_TRAP_CACHE (mem m c) m"
    if "resolve m fs g symbol = Some c" "get_trap_kind (mem m c) m = TRAP_COMPILER_CACHED"
    using fp that GET_TRAP_CACHE_cong [of "mem m c" m1 m] by (simp add: variable_footprint_def variable_words_def)
qed

lemma guarantee_extension_space_room:
  assumes "definable env fs m" and "room_for_words (extension_space env m + 2) m"
  obtains e m1 where "guarantee_extension_space env m = machine_return (PRIM_DONE, None) m1" "grown env m e m1"
    "room_for_words 2 m1" "\<not> GC_NEEDED_P 2 m1" "\<not> GC_NEEDED_P (Suc (Suc 0)) m1"
proof -
  have "room_for_words (extension_space env m) m" using assms(2) by (auto simp: room_for_words_def)
  with assms(1) obtain e m1 where m1: "guarantee_extension_space env m = machine_return (PRIM_DONE, None) m1" "grown env m e m1"
    by (rule guarantee_extension_space_grown)
  moreover have "room_for_words 2 m1"
    using m1(2) assms(2) by (auto simp: grown_def room_for_words_def GC_ENABLED_P_def INTERRUPT_ENABLED_P_def)
  moreover from room_no_gc [OF this] have "\<not> GC_NEEDED_P 2 m1" "\<not> GC_NEEDED_P (Suc (Suc 0)) m1" by simp_all
  ultimately show thesis by (rule that)
qed

lemma define_variable_new:
  "\<lbrakk>enclosed m env fs g; map_of (frame_bindings True env m) symbol = None\<rbrakk> \<Longrightarrow> define_variable env symbol v m = define_new env symbol v m"
  by (simp add: define_variable_def scan_frame_eq enclosed_def ENVIRONMENT_P_def PROCEDURE_FRAME_P_def)

lemma define_variable_defined:
  assumes env: "enclosed m env fs g" and d: "definable env fs m" and room: "room_for_words (extension_space env m + 2) m"
    and new: "map_of (frame_bindings True env m) symbol = None"
    and shadow: "variable_footprint (resolve m fs g symbol) m \<subseteq> safe_words env m"
      "\<And>c. resolve m fs g symbol = Some c \<Longrightarrow> get_trap_kind (mem m c) m \<noteq> TRAP_COMPILER_CACHED"
  obtains m' where "define_variable env symbol v m = machine_return (PRIM_DONE, None) m'" "defined env symbol (MAP_TO_UNASSIGNED v m) m m'"
proof -
  obtain e m1 where m1: "guarantee_extension_space env m = machine_return (PRIM_DONE, None) m1" and g: "grown env m e m1"
    and room2: "room_for_words 2 m1" "\<not> GC_NEEDED_P 2 m1" "\<not> GC_NEEDED_P (Suc (Suc 0)) m1"
    using d room by (rule guarantee_extension_space_room)
  obtain cell m' where m': "extend_environment env symbol v m1 = (Inr cell, m')" "defined env symbol (MAP_TO_UNASSIGNED v m1) m m'"
    by (rule extend_environment_defined [OF d g room2(1)])
  note s = grown_shadowed [OF env d g shadow(1)]
  have "define_new env symbol v m = machine_return (PRIM_DONE, None) m'"
    using m1 m'(1) room2 s(1,2) shadow(2)
    by (auto simp: define_new_def RETURN_IF_ERROR_def machine_bind_def machine_return_def GC_CHECK_def lookup_return_def split: option.split)
  moreover have "fixed_objects m1 = fixed_objects m" "VECTOR_LOC (fixed_objects m) NON_OBJECT \<in> safe_words env m"
    "\<forall>a \<in> safe_words env m. mem m1 a = mem m a"
    using d g by (simp_all add: definable_def grown_def)
  then have "MAP_TO_UNASSIGNED v m1 = MAP_TO_UNASSIGNED v m"
    by (simp add: MAP_TO_UNASSIGNED_def EXTERNAL_UNASSIGNED_OBJECT_def VECTOR_REF_def MEMORY_REF_def MEMORY_LOC_def VECTOR_LOC_def)
  ultimately show thesis using m'(2) that define_variable_new [OF env new] by simp
qed

lemma defined_lookup:
  assumes env: "enclosed m env fs g" and d: "definable env fs m" and v: "\<not> REFERENCE_TRAP_P v"
    and new: "map_of (frame_bindings True env m) symbol = None"
    and m': "defined env symbol (MAP_TO_UNASSIGNED v m) m m'" and symbol': "SYMBOL_P symbol'"
    and safe: "variable_footprint (resolve m fs g symbol') m \<subseteq> safe_words env m"
      "symbol' \<noteq> symbol \<Longrightarrow> variable_footprint (resolve m (env # fs) g symbol') m \<subseteq> safe_words env m"
  shows "lookup_variable env symbol' m' =
      machine_return (lookup_report
        (if symbol' = symbol then assigned_state v m else variable_state (resolve m (env # fs) g symbol') m)) m'"
    and "\<not> NULL_FRAME_P (GET_FRAME_PARENT env m) \<Longrightarrow>
      lookup_variable (GET_FRAME_PARENT env m) symbol' m' =
      machine_return (lookup_report (variable_state (resolve m fs g symbol') m)) m'"
proof -
  have same: "\<forall>a \<in> safe_words env m. mem m' a = mem m a" "GET_FRAME_PARENT env m' = GET_FRAME_PARENT env m"
    using m' by (simp_all add: defined_def)
  note words = definable_chain [OF d same(1)]
  have env': "enclosed m' env fs g" using env words(1) same(2) by (rule enclosed_cong)
  have fs: "resolve m' fs g s = resolve m fs g s" for s using words by (intro resolve_cong) simp_all
  obtain cell where cell: "mem m' cell = MAP_TO_UNASSIGNED v m" and
    b: "\<And>b. frame_bindings b env m' = frame_definitions env m @ [(symbol, cell)] @
        filter (\<lambda>(s, cell). b \<or> mem m cell \<noteq> UNBOUND_OBJECT) (parameter_bindings (frame_procedure env m) env m)"
    using m' unfolding defined_def by blast
  have none: "map_of (frame_definitions env m) symbol = None" using new by (auto simp: frame_bindings_eq map_of_eq_None_iff)
  have "variable_state (resolve m' (env # fs) g symbol') m' =
      (if symbol' = symbol then assigned_state v m else variable_state (resolve m (env # fs) g symbol') m)"
  proof (cases "symbol' = symbol")
    case True
    have "value_location cell m' = cell" using v by (simp add: value_location_def cell MAP_TO_UNASSIGNED_kind)
    with True none v show ?thesis by (simp add: b variable_state_def cell word_state_assigned map_add_def)
  next
    case False
    then have r: "resolve m' (env # fs) g symbol' = resolve m (env # fs) g symbol'" using fs
      by (simp add: b frame_bindings_eq [of _ env m] map_add_def split: option.split)
    have "variable_state (resolve m (env # fs) g symbol') m' = variable_state (resolve m (env # fs) g symbol') m"
      using safe(2) [OF False] same(1) by (intro variable_footprint_cong) blast
    with r False show ?thesis by simp
  qed
  then show "lookup_variable env symbol' m' = machine_return (lookup_report
      (if symbol' = symbol then assigned_state v m else variable_state (resolve m (env # fs) g symbol') m)) m'"
    using lookup_variable_eq [OF enclosed_chain [OF env'] symbol'] by simp
  have "variable_state (resolve m fs g symbol') m' = variable_state (resolve m fs g symbol') m"
    using safe(1) same(1) by (intro variable_footprint_cong) blast
  then show "lookup_variable (GET_FRAME_PARENT env m) symbol' m' =
      machine_return (lookup_report (variable_state (resolve m fs g symbol') m)) m'" if "\<not> NULL_FRAME_P (GET_FRAME_PARENT env m)"
    using lookup_variable_eq [OF _ symbol', of m' "GET_FRAME_PARENT env m" fs g] env' that same(2) fs by (simp add: enclosed_def)
qed

text \<open>The words that a lookup of any symbol in the frame or around it reads do not change.\<close>

definition variables_safe :: "machine \<Rightarrow> scheme_object \<Rightarrow> scheme_object list \<Rightarrow> bool \<Rightarrow> scheme_object \<Rightarrow> bool" where
  "variables_safe m env fs g symbol \<longleftrightarrow>
    variable_footprint (resolve m fs g symbol) m \<union> variable_footprint (resolve m (env # fs) g symbol) m \<subseteq> safe_words env m"

text \<open>C9: LOCAL-ASSIGNMENT (define) of a symbol that the frame does not bind. When there is space for the binding and
  for a new or larger extension of the frame, and the definition does not shadow a variable shared through a
  cache, the definition succeeds; afterwards the symbol has the new value in the
  environment, every other symbol has the value it had, and the enclosing environment is
  as before, with the shadowed variable untouched.\<close>

theorem define_variable_correct:
  assumes "enclosed m env fs g" "definable env fs m" "room_for_words (extension_space env m + 2) m" "\<not> REFERENCE_TRAP_P v"
    and "map_of (frame_bindings True env m) symbol = None"
    and "variables_safe m env fs g symbol"
    and "\<And>c. resolve m fs g symbol = Some c \<Longrightarrow> get_trap_kind (mem m c) m \<noteq> TRAP_COMPILER_CACHED"
  shows "\<exists>m'. define_variable env symbol v m = machine_return (PRIM_DONE, None) m' \<and>
    (\<forall>symbol'. SYMBOL_P symbol' \<and> variables_safe m env fs g symbol' \<longrightarrow>
      lookup_variable env symbol' m' =
        machine_return (lookup_report
          (if symbol' = symbol then assigned_state v m else variable_state (resolve m (env # fs) g symbol') m)) m' \<and>
      (\<not> NULL_FRAME_P (GET_FRAME_PARENT env m) \<longrightarrow>
        lookup_variable (GET_FRAME_PARENT env m) symbol' m' =
          machine_return (lookup_report (variable_state (resolve m fs g symbol') m)) m'))"
proof -
  from assms(6) have "variable_footprint (resolve m fs g symbol) m \<subseteq> safe_words env m" by (simp add: variables_safe_def)
  from define_variable_defined [OF assms(1-3,5) this assms(7)] obtain m' where
    "define_variable env symbol v m = machine_return (PRIM_DONE, None) m'" "defined env symbol (MAP_TO_UNASSIGNED v m) m m'" by blast
  with defined_lookup [OF assms(1,2,4,5)] show ?thesis
    by (intro exI [of _ m']) (simp add: variables_safe_def)
qed

text \<open>C11: a definition that shadows a shared variable can stop the system for lack of space. The space for the
  cache of the new variable is not part of the space that is checked before the binding is made, so
  with a heap in which the binding fits but three more words do not, \<open>define_variable\<close> ends in
  "Ran out of guaranteed space!" instead of requesting a collection.\<close>

theorem define_variable_runs_out_of_space:
  assumes env: "enclosed m env fs g" and d: "definable env fs m" and v: "\<not> REFERENCE_TRAP_P v"
    and new: "map_of (frame_bindings True env m) symbol = None"
    and shared: "resolve m fs g symbol = Some c" "get_trap_kind (mem m c) m = TRAP_COMPILER_CACHED" "GET_TRAP_CACHE (mem m c) m \<noteq> SHARP_F"
      "variables_safe m env fs g symbol"
    and room: "room_for_words (extension_space env m + 2) m"
    and full: "GC_ENABLED_P m" "heap_alloc_limit m < Free m + extension_space env m + 5"
  shows "define_variable env symbol v m = Some (Inl Term_Exit)"
proof -
  obtain e m1 where m1: "guarantee_extension_space env m = machine_return (PRIM_DONE, None) m1" and g: "grown env m e m1"
    and room2: "room_for_words 2 m1" "\<not> GC_NEEDED_P 2 m1" "\<not> GC_NEEDED_P (Suc (Suc 0)) m1"
    using d room by (rule guarantee_extension_space_room)
  from extend_environment_eq [OF g d room2(1) refl, of symbol v] obtain m' where
    m': "extend_environment env symbol v m1 = (Inr (Free m1 + 1), m')" "mem m' (Free m1 + 1) = MAP_TO_UNASSIGNED v m1"
      "Free m' = Free m1 + 2" "heap_start m' = heap_start m1" "heap_alloc_limit m' = heap_alloc_limit m1" "int_mask m' = int_mask m1"
    by metis
  have "GC_NEEDED_P 3 m'" using full g m'(3-)
    by (auto simp: grown_def GC_NEEDED_P_def HEAP_AVAILABLE_P_def GC_ENABLED_P_def INTERRUPT_ENABLED_P_def)
  then have die: "guarantee_cache (Free m1 + 1) m' = machine_return (PRIM_INTERRUPT, None) (REQUEST_GC 3 m')"
    using v m'(2) by (simp add: guarantee_cache_def MAP_TO_UNASSIGNED_kind GC_CHECK_def lookup_return_def)
  from shared(4) have "variable_footprint (resolve m fs g symbol) m \<subseteq> safe_words env m" by (simp add: variables_safe_def)
  note s = grown_shadowed [OF env d g this]
  have "define_new env symbol v m = Some (Inl Term_Exit)"
    using m1 m'(1) die room2 s(1) s(2,3) [OF shared(1)] shared
    by (auto simp: define_new_def RETURN_IF_ERROR_def machine_bind_def machine_return_def GC_CHECK_def lookup_return_def
        update_cache_refs_space_def update_cache_references_def DIE_IF_ERROR_def)
  then show ?thesis using define_variable_new [OF env new] by simp
qed

subsection \<open>An example\<close>

text \<open>
  A frame with one parameter \<open>x\<close> whose value is 1, in the global environment; \<open>y\<close> has the global value 5, shared through
  a cache, and \<open>z\<close> the global value 9. The heap ends at \<open>limit\<close>.
\<close>

definition env_memory :: "addr \<Rightarrow> scheme_object" where
  "env_memory a =
    (if a = 20 then MAKE_OBJECT TC_MANIFEST_VECTOR 2 else if a = 21 then MAKE_POINTER_OBJECT TC_HUNK3 23
     else if a = 22 then MAKE_OBJECT TC_FIXNUM 1
     else if a = 23 then MAKE_POINTER_OBJECT TC_HUNK3 25 else if a = 24 then THE_GLOBAL_ENV
     else if a = 26 then MAKE_POINTER_OBJECT TC_VECTOR 27
     else if a = 27 then MAKE_OBJECT TC_MANIFEST_VECTOR 2 else if a = 29 then MAKE_POINTER_OBJECT TC_INTERNED_SYMBOL 30
     else if a = 31 then UNBOUND_OBJECT else if a = 33 then MAKE_POINTER_OBJECT TC_REFERENCE_TRAP 34
     else if a = 34 then MAKE_OBJECT TC_FIXNUM 14 else if a = 35 then MAKE_POINTER_OBJECT TC_HUNK3 36
     else if a = 36 then MAKE_OBJECT TC_FIXNUM 5 else if a = 39 then MAKE_OBJECT TC_MANIFEST_VECTOR 1
     else if a = 42 then MAKE_OBJECT TC_FIXNUM 9 else SHARP_F)"

definition env_machine :: "addr \<Rightarrow> machine" where
  "env_machine limit = demo_machine\<lparr>gc := demo_gc\<lparr>fromspace_start := 12, fromspace_end := 44, memory := env_memory\<rparr>,
     int_mask := INT_GC, heap_alloc_limit := limit, fixed_objects := MAKE_POINTER_OBJECT TC_VECTOR 39\<rparr>"

definition example_frame :: scheme_object where "example_frame = MAKE_POINTER_OBJECT TC_ENVIRONMENT 20"
definition symbol_x :: scheme_object where "symbol_x = MAKE_POINTER_OBJECT TC_INTERNED_SYMBOL 30"
definition symbol_y :: scheme_object where "symbol_y = MAKE_POINTER_OBJECT TC_INTERNED_SYMBOL 32"
definition symbol_z :: scheme_object where "symbol_z = MAKE_POINTER_OBJECT TC_INTERNED_SYMBOL 41"

lemma env_machine_simps [simp]:
  "mem (env_machine limit) = env_memory" "Free (env_machine limit) = 44" "heap_start (env_machine limit) = 12"
  "heap_alloc_limit (env_machine limit) = limit" "fixed_objects (env_machine limit) = MAKE_POINTER_OBJECT TC_VECTOR 39"
  "GC_ENABLED_P (env_machine limit)"
  by (simp_all add: env_machine_def demo_machine_def demo_gc_def GC_ENABLED_P_def INTERRUPT_ENABLED_P_def INT_GC_def)

lemma example_types [simp]: "TC_HUNK3 < 64" "TC_ENVIRONMENT < 64" "TC_INTERNED_SYMBOL < 64" "TC_REFERENCE_TRAP < 64"
  by (simp_all add: TC_HUNK3_def TC_ENVIRONMENT_def TC_INTERNED_SYMBOL_def TC_REFERENCE_TRAP_def)

lemma example_procedure:
  "GET_FRAME_PROCEDURE example_frame (env_machine limit) = MAKE_POINTER_OBJECT TC_HUNK3 23"
  "\<not> EXTENDED_FRAME_P example_frame (env_machine limit)"
  "frame_procedure example_frame (env_machine limit) = MAKE_POINTER_OBJECT TC_HUNK3 23"
  "GET_FRAME_PARENT example_frame (env_machine limit) = THE_GLOBAL_ENV"
  "frame_count example_frame (env_machine limit) = 0"
proof -
  show "GET_FRAME_PROCEDURE example_frame (env_machine limit) = MAKE_POINTER_OBJECT TC_HUNK3 23"
    by (simp add: example_frame_def GET_FRAME_PROCEDURE_def MEMORY_REF_def MEMORY_LOC_def ENVIRONMENT_FUNCTION_def env_memory_def)
  then show "\<not> EXTENDED_FRAME_P example_frame (env_machine limit)"
    by (simp add: EXTENDED_FRAME_P_def VECTOR_P_def TC_HUNK3_def TC_VECTOR_def)
  then show "frame_procedure example_frame (env_machine limit) = MAKE_POINTER_OBJECT TC_HUNK3 23"
    "frame_count example_frame (env_machine limit) = 0"
    using \<open>GET_FRAME_PROCEDURE _ _ = _\<close> by (simp_all add: frame_procedure_def frame_count_def)
  show "GET_FRAME_PARENT example_frame (env_machine limit) = THE_GLOBAL_ENV"
    using \<open>GET_FRAME_PROCEDURE _ _ = _\<close>
    by (simp add: GET_FRAME_PARENT_def GET_PROCEDURE_ENVIRONMENT_def MEMORY_REF_def MEMORY_LOC_def PROCEDURE_ENVIRONMENT_def env_memory_def)
qed

lemma example_enclosed: "enclosed (env_machine limit) example_frame [] True"
  by (simp add: enclosed_def NULL_FRAME_P_def example_procedure chain_global) (simp add: example_frame_def PROCEDURE_FRAME_P_def)

lemma example_chain: "env_chain (env_machine limit) example_frame [example_frame] True"
  by (rule enclosed_chain [OF example_enclosed])

lemma example_lambda:
  "GET_PROCEDURE_LAMBDA (MAKE_POINTER_OBJECT TC_HUNK3 23) (env_machine limit) = MAKE_POINTER_OBJECT TC_HUNK3 25"
  "GET_LAMBDA_FORMALS (MAKE_POINTER_OBJECT TC_HUNK3 25) (env_machine limit) = MAKE_POINTER_OBJECT TC_VECTOR 27"
  "GET_LAMBDA_PARAMETERS (MAKE_POINTER_OBJECT TC_HUNK3 25) (env_machine limit) = 29"
  "GET_LAMBDA_N_PARAMETERS (MAKE_POINTER_OBJECT TC_HUNK3 25) (env_machine limit) = 1"
proof -
  show f: "GET_LAMBDA_FORMALS (MAKE_POINTER_OBJECT TC_HUNK3 25) (env_machine limit) = MAKE_POINTER_OBJECT TC_VECTOR 27"
    by (simp add: GET_LAMBDA_FORMALS_def MEMORY_REF_def MEMORY_LOC_def LAMBDA_FORMALS_def env_memory_def)
  show "GET_LAMBDA_PARAMETERS (MAKE_POINTER_OBJECT TC_HUNK3 25) (env_machine limit) = 29"
    by (simp add: GET_LAMBDA_PARAMETERS_def f MEMORY_LOC_def VECTOR_DATA_def)
  show "GET_LAMBDA_N_PARAMETERS (MAKE_POINTER_OBJECT TC_HUNK3 25) (env_machine limit) = 1"
    by (simp add: GET_LAMBDA_N_PARAMETERS_def f VECTOR_LENGTH_heap_def VECTOR_LENGTH_def env_memory_def)
  show "GET_PROCEDURE_LAMBDA (MAKE_POINTER_OBJECT TC_HUNK3 23) (env_machine limit) = MAKE_POINTER_OBJECT TC_HUNK3 25"
    by (simp add: GET_PROCEDURE_LAMBDA_def MEMORY_REF_def MEMORY_LOC_def PROCEDURE_LAMBDA_EXPR_def env_memory_def)
qed

lemma example_bindings: "frame_bindings b example_frame (env_machine limit) = [(symbol_x, 22)]"
proof -
  have "MAKE_OBJECT TC_FIXNUM 1 \<noteq> UNBOUND_OBJECT" by code_simp
  then show ?thesis
    by (simp add: frame_bindings_def example_procedure parameter_bindings_def example_lambda GET_FRAME_ARG_CELL_def
        MEMORY_LOC_def ENVIRONMENT_FIRST_ARG_def env_memory_def) (simp add: symbol_x_def example_frame_def)
qed

lemma example_values:
  "SYMBOL_P symbol_x" "SYMBOL_P symbol_y" "SYMBOL_P symbol_z" "symbol_y \<noteq> symbol_x" "symbol_z \<noteq> symbol_x"
  "resolve (env_machine limit) [example_frame] True symbol_x = Some 22"
  "resolve (env_machine limit) [example_frame] True symbol_y = Some 33"
  "resolve (env_machine limit) [] True symbol_y = Some 33"
  "resolve (env_machine limit) [example_frame] True symbol_z = Some 42" "resolve (env_machine limit) [] True symbol_z = Some 42"
proof -
  show "SYMBOL_P symbol_x" "SYMBOL_P symbol_y" "SYMBOL_P symbol_z" "symbol_y \<noteq> symbol_x" "symbol_z \<noteq> symbol_x" by code_simp+
  then show "resolve (env_machine limit) [example_frame] True symbol_x = Some 22"
    "resolve (env_machine limit) [example_frame] True symbol_y = Some 33"
    "resolve (env_machine limit) [] True symbol_y = Some 33"
    "resolve (env_machine limit) [example_frame] True symbol_z = Some 42" "resolve (env_machine limit) [] True symbol_z = Some 42"
    by (simp_all add: example_bindings SYMBOL_GLOBAL_VALUE_CELL_def) (simp_all add: symbol_y_def symbol_z_def MEMORY_LOC_def SYMBOL_GLOBAL_VALUE_def)
qed

declare resolve.simps [simp del]

lemma example_words:
  "get_trap_kind (env_memory 22) (env_machine limit) = NON_TRAP_KIND" "get_trap_kind (env_memory 33) (env_machine limit) = TRAP_COMPILER_CACHED"
  "GET_TRAP_CACHE (env_memory 33) (env_machine limit) = MAKE_POINTER_OBJECT TC_HUNK3 36" "get_trap_kind (env_memory 36) (env_machine limit) = NON_TRAP_KIND"
  "trap_words (env_memory 22) = {}" "trap_words (env_memory 33) = {34, 35}" "trap_words (env_memory 36) = {}"
  "get_trap_kind (env_memory 42) (env_machine limit) = NON_TRAP_KIND" "trap_words (env_memory 42) = {}"
proof -
  have m: "env_memory 22 = MAKE_OBJECT TC_FIXNUM 1" "env_memory 33 = MAKE_POINTER_OBJECT TC_REFERENCE_TRAP 34" "env_memory 36 = MAKE_OBJECT TC_FIXNUM 5" "env_memory 42 = MAKE_OBJECT TC_FIXNUM 9"
    "env_memory 34 = MAKE_OBJECT TC_FIXNUM 14" "env_memory 35 = MAKE_POINTER_OBJECT TC_HUNK3 36"
    by (simp_all add: env_memory_def)
  have t: "\<not> REFERENCE_TRAP_P (MAKE_OBJECT TC_FIXNUM 1)" "\<not> REFERENCE_TRAP_P (MAKE_OBJECT TC_FIXNUM 5)"
    "\<not> REFERENCE_TRAP_P (MAKE_OBJECT TC_FIXNUM 9)"
    "REFERENCE_TRAP_P (MAKE_POINTER_OBJECT TC_REFERENCE_TRAP 34)"
    "TRAP_MAX_IMMEDIATE < OBJECT_DATUM (MAKE_POINTER_OBJECT TC_REFERENCE_TRAP 34)"
    "OBJECT_DATUM (MAKE_OBJECT TC_FIXNUM 14) = TRAP_COMPILER_CACHED"
    by code_simp+
  show "get_trap_kind (env_memory 22) (env_machine limit) = NON_TRAP_KIND" "get_trap_kind (env_memory 36) (env_machine limit) = NON_TRAP_KIND"
    "trap_words (env_memory 22) = {}" "trap_words (env_memory 36) = {}"
    "get_trap_kind (env_memory 42) (env_machine limit) = NON_TRAP_KIND" "trap_words (env_memory 42) = {}"
    by (simp_all add: m t trap_words_def)
  show "get_trap_kind (env_memory 33) (env_machine limit) = TRAP_COMPILER_CACHED"
    "GET_TRAP_CACHE (env_memory 33) (env_machine limit) = MAKE_POINTER_OBJECT TC_HUNK3 36" "trap_words (env_memory 33) = {34, 35}"
    using t(5)
    by (simp_all add: m t get_trap_kind_def trap_words_def GET_TRAP_TAG_def GET_TRAP_CACHE_def MEMORY_REF_def MEMORY_LOC_def TRAP_TAG_def TRAP_EXTRA_def
        flip: linorder_not_less)
qed

lemma example_locations:
  "value_location 22 (env_machine limit) = 22" "value_location 33 (env_machine limit) = 36" "value_location 42 (env_machine limit) = 42"
  "variable_state (Some 22) (env_machine limit) = Assigned (MAKE_OBJECT TC_FIXNUM 1)"
  "variable_state (Some 33) (env_machine limit) = Assigned (MAKE_OBJECT TC_FIXNUM 5)"
  "variable_state (Some 42) (env_machine limit) = Assigned (MAKE_OBJECT TC_FIXNUM 9)"
proof -
  show l: "value_location 22 (env_machine limit) = 22" "value_location 33 (env_machine limit) = 36" "value_location 42 (env_machine limit) = 42"
    by (simp_all add: value_location_def example_words)
  show "variable_state (Some 22) (env_machine limit) = Assigned (MAKE_OBJECT TC_FIXNUM 1)"
    "variable_state (Some 33) (env_machine limit) = Assigned (MAKE_OBJECT TC_FIXNUM 5)"
    "variable_state (Some 42) (env_machine limit) = Assigned (MAKE_OBJECT TC_FIXNUM 9)"
    by (simp_all add: variable_state_def l word_state_def example_words) (simp_all add: env_memory_def)
qed

lemma example_chain_words:
  "procedure_words (MAKE_POINTER_OBJECT TC_HUNK3 23) (env_machine limit) = {23, 24, 26, 27, 29}"
  "chain_words [example_frame] (env_machine limit) = {21, 23, 24, 26, 27, 29}"
  "safe_words example_frame (env_machine limit) = {..<44} - {21}"
proof -
  show p: "procedure_words (MAKE_POINTER_OBJECT TC_HUNK3 23) (env_machine limit) = {23, 24, 26, 27, 29}"
    by (auto simp: procedure_words_def Let_def example_lambda MEMORY_LOC_def PROCEDURE_LAMBDA_EXPR_def PROCEDURE_ENVIRONMENT_def LAMBDA_FORMALS_def)
  have f: "MEMORY_LOC example_frame ENVIRONMENT_FUNCTION = 21" by (simp add: example_frame_def MEMORY_LOC_def ENVIRONMENT_FUNCTION_def)
  show "chain_words [example_frame] (env_machine limit) = {21, 23, 24, 26, 27, 29}"
    by (auto simp: chain_words_def frame_words_def example_procedure p f)
  show "safe_words example_frame (env_machine limit) = {..<44} - {21}"
    by (simp add: safe_words_def growth_words_def example_procedure f)
qed

lemma example_definable: "definable example_frame [] (env_machine limit)"
proof -
  have "GET_PROCEDURE_ENVIRONMENT (MAKE_POINTER_OBJECT TC_HUNK3 23) (env_machine limit) = THE_GLOBAL_ENV"
    using example_procedure(4) by (simp add: GET_FRAME_PARENT_def example_procedure)
  then show ?thesis
    by (simp add: definable_def example_procedure example_chain_words pair_words_def chain_cells_def example_bindings
        VECTOR_LOC_def NON_OBJECT_def VECTOR_DATA_def) (simp add: example_frame_def MEMORY_LOC_def ENVIRONMENT_FUNCTION_def chain_words_def)
qed

lemma example_variables_safe:
  "variables_safe (env_machine limit) example_frame [] True symbol_y" "variables_safe (env_machine limit) example_frame [] True symbol_z"
  by (simp_all add: variables_safe_def example_values variable_footprint_def variable_words_def example_locations example_words example_chain_words)

lemma example_assigned: "assigned_state (MAKE_OBJECT TC_FIXNUM 7) (env_machine limit) = Assigned (MAKE_OBJECT TC_FIXNUM 7)"
  by (simp add: assigned_state_def EXTERNAL_UNASSIGNED_OBJECT_def VECTOR_REF_def MEMORY_REF_def MEMORY_LOC_def NON_OBJECT_def env_memory_def) code_simp

lemma example_fixnum: "\<not> REFERENCE_TRAP_P (MAKE_OBJECT TC_FIXNUM 7)"
  by code_simp

theorem lookup_variable_correct_witness:
  "env_chain (env_machine 60) example_frame [example_frame] True \<and> SYMBOL_P symbol_y \<and>
   lookup_variable example_frame symbol_y (env_machine 60) = machine_return (PRIM_DONE, Some (MAKE_OBJECT TC_FIXNUM 5)) (env_machine 60)"
  using lookup_variable_correct [of example_frame symbol_y "env_machine 60" "[example_frame]" True] example_chain [of 60] example_values(2)
  by (simp add: Let_def example_values example_locations)

theorem assign_variable_correct_witness:
  "\<exists>m'. assign_variable example_frame symbol_y (MAKE_OBJECT TC_FIXNUM 7) (env_machine 60) =
      machine_return (PRIM_DONE, Some (MAKE_OBJECT TC_FIXNUM 5)) m' \<and>
    lookup_variable example_frame symbol_y m' = machine_return (PRIM_DONE, Some (MAKE_OBJECT TC_FIXNUM 7)) m' \<and>
    lookup_variable example_frame symbol_x m' = machine_return (PRIM_DONE, Some (MAKE_OBJECT TC_FIXNUM 1)) m'"
proof -
  have old: "MAP_FROM_UNASSIGNED (env_memory 36) (env_machine 60) = MAKE_OBJECT TC_FIXNUM 5" 
    by (simp add: MAP_FROM_UNASSIGNED_def env_memory_def) code_simp
  note new = example_assigned [of 60]
  from assign_variable_correct [OF example_chain [of 60] example_fixnum, of symbol_y]
  obtain m' where m': "assign_variable example_frame symbol_y (MAKE_OBJECT TC_FIXNUM 7) (env_machine 60) =
      machine_return (PRIM_DONE, Some (MAKE_OBJECT TC_FIXNUM 5)) m'" "only_assigned (env_machine 60) 36 (MAKE_OBJECT TC_FIXNUM 7) m'"
    by (auto simp: example_values example_locations old)
  note o = m'(2) [unfolded only_assigned_def, rule_format, of example_frame "[example_frame]" True]
  show ?thesis using m'(1) o [of symbol_y] o [of symbol_x] example_chain [of 60]
    by (intro exI [of _ m']) (simp add: example_values example_locations variable_words_def example_chain_words example_words new)
qed

theorem define_variable_correct_witness:
  "\<exists>m'. define_variable example_frame symbol_z (MAKE_OBJECT TC_FIXNUM 7) (env_machine 80) = machine_return (PRIM_DONE, None) m' \<and>
    lookup_variable example_frame symbol_z m' = machine_return (PRIM_DONE, Some (MAKE_OBJECT TC_FIXNUM 7)) m' \<and>
    lookup_variable THE_GLOBAL_ENV symbol_z m' = machine_return (PRIM_DONE, Some (MAKE_OBJECT TC_FIXNUM 9)) m'"
proof -
  have "room_for_words (extension_space example_frame (env_machine 80) + 2) (env_machine 80)"
    by (simp add: room_for_words_def extension_space_def example_procedure)
  moreover have "map_of (frame_bindings True example_frame (env_machine 80)) symbol_z = None" by (simp add: example_bindings example_values)
  ultimately obtain m' where m': "define_variable example_frame symbol_z (MAKE_OBJECT TC_FIXNUM 7) (env_machine 80) = machine_return (PRIM_DONE, None) m'"
    and l: "\<forall>symbol'. SYMBOL_P symbol' \<and> variables_safe (env_machine 80) example_frame [] True symbol' \<longrightarrow>
      lookup_variable example_frame symbol' m' =
        machine_return (lookup_report
          (if symbol' = symbol_z then assigned_state (MAKE_OBJECT TC_FIXNUM 7) (env_machine 80)
           else variable_state (resolve (env_machine 80) [example_frame] True symbol') (env_machine 80))) m' \<and>
      (\<not> NULL_FRAME_P (GET_FRAME_PARENT example_frame (env_machine 80)) \<longrightarrow>
        lookup_variable (GET_FRAME_PARENT example_frame (env_machine 80)) symbol' m' =
          machine_return (lookup_report (variable_state (resolve (env_machine 80) [] True symbol') (env_machine 80))) m')"
    using define_variable_correct [OF example_enclosed example_definable _ example_fixnum _ example_variables_safe(2), of 80]
    by (auto simp: example_values example_words)
  with l [rule_format, of symbol_z] show ?thesis
    by (intro exI [of _ m']) (simp add: example_values example_locations example_assigned example_procedure NULL_FRAME_P_def example_variables_safe)
qed

theorem define_variable_runs_out_of_space_witness:
  "define_variable example_frame symbol_y (MAKE_OBJECT TC_FIXNUM 7) (env_machine 66) = Some (Inl Term_Exit)"
proof (rule define_variable_runs_out_of_space [OF example_enclosed example_definable])
  show "\<not> REFERENCE_TRAP_P (MAKE_OBJECT TC_FIXNUM 7)" by (rule example_fixnum)
  show "GET_TRAP_CACHE (mem (env_machine 66) 33) (env_machine 66) \<noteq> SHARP_F" by (simp add: example_words) code_simp
qed (simp_all add: example_bindings example_values example_words example_variables_safe room_for_words_def extension_space_def example_procedure)

end
