(* ===== verification/Interpreter.thy ===== *)
theory Interpreter
  imports Lookup_Correct
begin

text \<open>
  The interpreter (interp.c) with the history, error and interrupt machinery it calls (utils.c, hooks.c),
  in the configuration without compiled code. \<open>Interpret\<close> is a machine in continuation-passing style: its
  labels are the values of \<open>label\<close>, and \<open>interp_step\<close> executes the code from a label to the next jump. The
  registers are those of the \<open>machine\<close> and the ones in \<open>interpreter\<close>. The stack grows downwards in memory.

  The code of the primitives is a parameter, given by their tables and by the function that calls one of
  them. A primitive returns a value or aborts to \<open>Interpret\<close> with a dispatch code.
\<close>

subsection \<open>Registers\<close>

record interpreter =
  regs :: machine
  val_register :: scheme_object
  env_register :: scheme_object
  primitive_register :: scheme_object
  lexpr_actuals :: nat
  prev_restore_history_offset :: nat
  trapping :: bool
  critical_section_p :: bool
  nested_p :: bool  \<comment> \<open>there is an outer call of \<open>Interpret\<close>\<close>
  prim_apply_error_code :: long
  error_argument :: scheme_object

datatype label = Do_Expression | Pop_Return | Internal_Apply_Val | Internal_Apply | Apply_Non_Trapping | Perform_Application

datatype interp_exit =
    Machine_Exit term_code | Term_Broken_Heart | Term_End_Of_Computation | Term_Handler | Term_No_Interrupt_Handler
  | Term_No_Error_Handler | Term_Trap | Term_Gc_Out_Of_Space

text \<open>
  Where control goes: to a label, out of the system, or back to the C code that called \<open>Interpret\<close>.
  \<open>Copy_History\<close> is the restoration of a history that a control point has shared, which is not
  modelled. \<open>No_Result\<close> stands for a call that does not return, reads outside of the tables or is not modelled.
\<close>

datatype control =
    Goto label interpreter | Stop interp_exit | Return_To_C interpreter | Copy_History interpreter | No_Result

definition on_regs :: "(machine \<Rightarrow> machine) \<Rightarrow> interpreter \<Rightarrow> interpreter" where
  "on_regs f i = i\<lparr>regs := f (regs i)\<rparr>"

definition GET_EXP :: "interpreter \<Rightarrow> scheme_object" where "GET_EXP i = exp_register (regs i)"
definition GET_RET :: "interpreter \<Rightarrow> scheme_object" where "GET_RET i = ret_register (regs i)"
definition SET_EXP :: "scheme_object \<Rightarrow> interpreter \<Rightarrow> interpreter" where "SET_EXP v = on_regs (\<lambda>m. m\<lparr>exp_register := v\<rparr>)"
definition SET_RET :: "scheme_object \<Rightarrow> interpreter \<Rightarrow> interpreter" where "SET_RET v = on_regs (\<lambda>m. m\<lparr>ret_register := v\<rparr>)"
definition SET_VAL :: "scheme_object \<Rightarrow> interpreter \<Rightarrow> interpreter" where "SET_VAL v i = i\<lparr>val_register := v\<rparr>"
definition SET_ENV :: "scheme_object \<Rightarrow> interpreter \<Rightarrow> interpreter" where "SET_ENV v i = i\<lparr>env_register := v\<rparr>"
definition MAKE_RETURN_CODE :: "ulong \<Rightarrow> scheme_object" where "MAKE_RETURN_CODE n = MAKE_OBJECT TC_RETURN_CODE n"
definition SET_RC :: "ulong \<Rightarrow> interpreter \<Rightarrow> interpreter" where "SET_RC code = SET_RET (MAKE_RETURN_CODE code)"

definition push :: "scheme_object \<Rightarrow> interpreter \<Rightarrow> interpreter" where "push w = on_regs (STACK_PUSH w)"
definition STACK_LOC :: "nat \<Rightarrow> interpreter \<Rightarrow> addr" where "STACK_LOC n i = stack_pointer (regs i) + n"
definition STACK_REF :: "nat \<Rightarrow> interpreter \<Rightarrow> scheme_object" where "STACK_REF n i = mem (regs i) (STACK_LOC n i)"
definition set_stack :: "nat \<Rightarrow> scheme_object \<Rightarrow> interpreter \<Rightarrow> interpreter" where
  "set_stack n w i = on_regs (store_word (STACK_LOC n i) w) i"
definition drop_stack :: "nat \<Rightarrow> interpreter \<Rightarrow> interpreter" where
  "drop_stack n = on_regs (\<lambda>m. m\<lparr>stack_pointer := stack_pointer m + n\<rparr>)"
definition PUSH_ENV :: "interpreter \<Rightarrow> interpreter" where "PUSH_ENV i = push (env_register i) i"
definition POP_ENV :: "interpreter \<Rightarrow> interpreter" where "POP_ENV i = drop_stack 1 (SET_ENV (STACK_REF 0 i) i)"
definition save_cont :: "interpreter \<Rightarrow> interpreter" where "save_cont = on_regs SAVE_CONT"
definition RESTORE_CONT :: "interpreter \<Rightarrow> interpreter" where
  "RESTORE_CONT i = drop_stack 2 (SET_EXP (STACK_REF 1 i) (SET_RET (STACK_REF 0 i) i))"

definition PUSH_APPLY_FRAME_HEADER :: "nat \<Rightarrow> interpreter \<Rightarrow> interpreter" where
  "PUSH_APPLY_FRAME_HEADER n_args = push (MAKE_OBJECT 0 (of_nat (n_args + 1)))"
definition APPLY_FRAME_SIZE :: "interpreter \<Rightarrow> nat" where "APPLY_FRAME_SIZE i = unat (OBJECT_DATUM (STACK_REF 0 i))"
definition APPLY_FRAME_N_ARGS :: "interpreter \<Rightarrow> nat" where "APPLY_FRAME_N_ARGS i = APPLY_FRAME_SIZE i - 1"
definition APPLY_FRAME_PROCEDURE :: "interpreter \<Rightarrow> scheme_object" where "APPLY_FRAME_PROCEDURE i = STACK_REF 1 i"

definition Will_Push :: "nat \<Rightarrow> interpreter \<Rightarrow> (interpreter \<Rightarrow> control) \<Rightarrow> control" where
  "Will_Push n i k =
    (case STACK_CHECK n (regs i) of
       None \<Rightarrow> No_Result | Some (Inl e) \<Rightarrow> Stop (Machine_Exit e) | Some (Inr (_, m)) \<Rightarrow> k (i\<lparr>regs := m\<rparr>))"

subsection \<open>Codes\<close>

definition RC_END_OF_COMPUTATION :: ulong where "RC_END_OF_COMPUTATION = 0x00"
definition RC_JOIN_STACKLETS :: ulong where "RC_JOIN_STACKLETS = 0x01"
definition RC_INTERNAL_APPLY :: ulong where "RC_INTERNAL_APPLY = 0x03"
definition RC_RESTORE_HISTORY :: ulong where "RC_RESTORE_HISTORY = 0x05"
definition RC_EXECUTE_ASSIGNMENT_FINISH :: ulong where "RC_EXECUTE_ASSIGNMENT_FINISH = 0x08"
definition RC_EXECUTE_DEFINITION_FINISH :: ulong where "RC_EXECUTE_DEFINITION_FINISH = 0x09"
definition RC_EXECUTE_ACCESS_FINISH :: ulong where "RC_EXECUTE_ACCESS_FINISH = 0x0A"
definition RC_EXECUTE_SEQUENCE_FINISH :: ulong where "RC_EXECUTE_SEQUENCE_FINISH = 0x0C"
definition RC_CONDITIONAL_DECIDE :: ulong where "RC_CONDITIONAL_DECIDE = 0x0F"
definition RC_DISJUNCTION_DECIDE :: ulong where "RC_DISJUNCTION_DECIDE = 0x10"
definition RC_COMB_APPLY_FUNCTION :: ulong where "RC_COMB_APPLY_FUNCTION = 0x12"
definition RC_COMB_SAVE_VALUE :: ulong where "RC_COMB_SAVE_VALUE = 0x15"
definition RC_SNAP_NEED_THUNK :: ulong where "RC_SNAP_NEED_THUNK = 0x1C"
definition RC_RESTORE_VALUE :: ulong where "RC_RESTORE_VALUE = 0x2E"
definition RC_RESTORE_DONT_COPY_HISTORY :: ulong where "RC_RESTORE_DONT_COPY_HISTORY = 0x2F"
definition RC_POP_RETURN_ERROR :: ulong where "RC_POP_RETURN_ERROR = 0x40"
definition RC_EVAL_ERROR :: ulong where "RC_EVAL_ERROR = 0x41"
definition RC_STACK_MARKER :: ulong where "RC_STACK_MARKER = 0x42"
definition RC_RESTORE_INT_MASK :: ulong where "RC_RESTORE_INT_MASK = 0x45"
definition RC_HALT :: ulong where "RC_HALT = 0x46"
definition RC_HARDWARE_TRAP :: ulong where "RC_HARDWARE_TRAP = 0x5C"
definition RC_INTERNAL_APPLY_VAL :: ulong where "RC_INTERNAL_APPLY_VAL = 0x5D"

definition ERR_BAD_ERROR_CODE :: long where "ERR_BAD_ERROR_CODE = 0x00"
definition ERR_INAPPLICABLE_OBJECT :: long where "ERR_INAPPLICABLE_OBJECT = 0x03"
definition ERR_IN_SYSTEM_CALL :: long where "ERR_IN_SYSTEM_CALL = 0x04"
definition ERR_WITH_ARGUMENT :: long where "ERR_WITH_ARGUMENT = 0x05"
definition ERR_EXECUTE_MANIFEST_VECTOR :: long where "ERR_EXECUTE_MANIFEST_VECTOR = 0x0B"
definition ERR_WRONG_NUMBER_OF_ARGUMENTS :: long where "ERR_WRONG_NUMBER_OF_ARGUMENTS = 0x0C"
definition ERR_SYNTAX_ERROR :: long where "ERR_SYNTAX_ERROR = 0x15"
definition ERR_INAPPLICABLE_CONTINUATION :: long where "ERR_INAPPLICABLE_CONTINUATION = 0x30"
definition ERR_UNIMPLEMENTED_PRIMITIVE :: long where "ERR_UNIMPLEMENTED_PRIMITIVE = 0x33"

text \<open>The number of a code that the operations on variables return.\<close>

fun lookup_error_code :: "lookup_code \<Rightarrow> long" where
  "lookup_error_code PRIM_DONE = -1"
| "lookup_error_code PRIM_INTERRUPT = -4"
| "lookup_error_code ERR_UNBOUND_VARIABLE = 0x01"
| "lookup_error_code ERR_UNASSIGNED_VARIABLE = 0x02"
| "lookup_error_code ERR_BAD_FRAME = 0x06"
| "lookup_error_code ERR_MACRO_BINDING = 0x13"
| "lookup_error_code ERR_ILLEGAL_REFERENCE_TRAP = 0x34"
| "lookup_error_code (Prim_Abort e) = ERR_BAD_ERROR_CODE"

definition TC_SCODE_QUOTE :: ulong where "TC_SCODE_QUOTE = 0x03"
definition TC_EXTENDED_PROCEDURE :: ulong where "TC_EXTENDED_PROCEDURE = 0x09"
definition TC_PROCEDURE :: ulong where "TC_PROCEDURE = 0x0F"
definition TC_ENTITY :: ulong where "TC_ENTITY = 0x10"
definition TC_DELAY :: ulong where "TC_DELAY = 0x11"
definition TC_DELAYED :: ulong where "TC_DELAYED = 0x13"
definition TC_EXTENDED_LAMBDA :: ulong where "TC_EXTENDED_LAMBDA = 0x14"
definition TC_COMMENT :: ulong where "TC_COMMENT = 0x15"
definition TC_LAMBDA :: ulong where "TC_LAMBDA = 0x17"
definition TC_SEQUENCE :: ulong where "TC_SEQUENCE = 0x19"
definition TC_CONTROL_POINT :: ulong where "TC_CONTROL_POINT = 0x1C"
definition TC_ACCESS :: ulong where "TC_ACCESS = 0x1F"
definition TC_DEFINITION :: ulong where "TC_DEFINITION = 0x21"
definition TC_ASSIGNMENT :: ulong where "TC_ASSIGNMENT = 0x23"
definition TC_COMBINATION :: ulong where "TC_COMBINATION = 0x26"
definition TC_LEXPR :: ulong where "TC_LEXPR = 0x29"
definition TC_VARIABLE :: ulong where "TC_VARIABLE = 0x2C"
definition TC_THE_ENVIRONMENT :: ulong where "TC_THE_ENVIRONMENT = 0x2D"
definition TC_SYNTAX_ERROR :: ulong where "TC_SYNTAX_ERROR = 0x2E"
definition TC_CONDITIONAL :: ulong where "TC_CONDITIONAL = 0x34"
definition TC_DISJUNCTION :: ulong where "TC_DISJUNCTION = 0x35"

subsection \<open>History\<close>

definition HIST_RIB :: nat where "HIST_RIB = 0"
definition HIST_NEXT_SUBPROBLEM :: nat where "HIST_NEXT_SUBPROBLEM = 1"
definition HIST_PREV_SUBPROBLEM :: nat where "HIST_PREV_SUBPROBLEM = 2"
definition HIST_MARK :: nat where "HIST_MARK = 1"
definition RIB_EXP :: nat where "RIB_EXP = 0"
definition RIB_ENV :: nat where "RIB_ENV = 1"
definition RIB_NEXT_REDUCTION :: nat where "RIB_NEXT_REDUCTION = 2"
definition RIB_MARK :: nat where "RIB_MARK = 2"
definition MARKED_HISTORY_TYPE :: ulong where "MARKED_HISTORY_TYPE = TC_HUNK3"
definition HISTORY_MARK_TYPE :: ulong where "HISTORY_MARK_TYPE = UNMARKED_HISTORY_TYPE XOR MARKED_HISTORY_TYPE"
definition HISTORY_MARK_MASK :: ulong where "HISTORY_MARK_MASK = push_bit DATUM_LENGTH HISTORY_MARK_TYPE"
definition HISTORY_MARK :: "addr \<Rightarrow> machine \<Rightarrow> machine" where
  "HISTORY_MARK a m = store_word a (mem m a OR HISTORY_MARK_MASK) m"
definition HISTORY_UNMARK :: "addr \<Rightarrow> machine \<Rightarrow> machine" where
  "HISTORY_UNMARK a m = store_word a (mem m a AND NOT HISTORY_MARK_MASK) m"

definition DUMMY_HISTORY :: nat where "DUMMY_HISTORY = 0x13"
definition READ_DUMMY_HISTORY :: "machine \<Rightarrow> scheme_object" where
  "READ_DUMMY_HISTORY m = VECTOR_REF (fixed_objects m) DUMMY_HISTORY m"

definition write_rib :: "addr \<Rightarrow> scheme_object \<Rightarrow> scheme_object \<Rightarrow> machine \<Rightarrow> machine" where
  "write_rib rib expression environment m =
    store_word (rib + RIB_EXP) expression (store_word (rib + RIB_ENV) environment m)"

definition reuse_subproblem :: "scheme_object \<Rightarrow> scheme_object \<Rightarrow> machine \<Rightarrow> machine" where
  "reuse_subproblem expression environment m =
    (let rib = OBJECT_ADDRESS (mem m (history_register m + HIST_RIB))
     in write_rib rib expression environment (HISTORY_MARK (rib + RIB_MARK) m))"

definition new_subproblem :: "scheme_object \<Rightarrow> scheme_object \<Rightarrow> machine \<Rightarrow> machine" where
  "new_subproblem expression environment m =
    (let m = m\<lparr>history_register := OBJECT_ADDRESS (mem m (history_register m + HIST_NEXT_SUBPROBLEM))\<rparr>;
         m = HISTORY_MARK (history_register m + HIST_MARK) m;
         rib = OBJECT_ADDRESS (mem m (history_register m + HIST_RIB))
     in write_rib rib expression environment (HISTORY_MARK (rib + RIB_MARK) m))"

definition new_reduction :: "scheme_object \<Rightarrow> scheme_object \<Rightarrow> machine \<Rightarrow> machine" where
  "new_reduction expression environment m =
    (let rib = OBJECT_ADDRESS (MEMORY_REF (mem m (history_register m + HIST_RIB)) RIB_NEXT_REDUCTION m);
         m = store_word (history_register m + HIST_RIB) (MAKE_POINTER_OBJECT UNMARKED_HISTORY_TYPE rib) m
     in HISTORY_UNMARK (rib + RIB_MARK) (write_rib rib expression environment m))"

definition end_subproblem :: "machine \<Rightarrow> machine" where
  "end_subproblem m =
    (let m = HISTORY_UNMARK (history_register m + HIST_MARK) m
     in m\<lparr>history_register := OBJECT_ADDRESS (mem m (history_register m + HIST_PREV_SUBPROBLEM))\<rparr>)"

definition make_dummy_history :: "machine \<Rightarrow> addr \<times> machine" where
  "make_dummy_history m =
    (let rib = Free m;
         m = push_heap (MAKE_POINTER_OBJECT UNMARKED_HISTORY_TYPE rib) (push_heap SHARP_F (push_heap SHARP_F m));
         history = Free m;
         m = push_heap (MAKE_POINTER_OBJECT UNMARKED_HISTORY_TYPE rib) m;
         m = push_heap (MAKE_POINTER_OBJECT UNMARKED_HISTORY_TYPE history) m;
         m = push_heap (MAKE_POINTER_OBJECT UNMARKED_HISTORY_TYPE history) m
     in (history, m))"

definition RESET_HISTORY :: "interpreter \<Rightarrow> interpreter" where
  "RESET_HISTORY i =
    (let i = i\<lparr>prev_restore_history_offset := 0\<rparr>; m = regs i in
     if VECTOR_P (fixed_objects m) \<and> READ_DUMMY_HISTORY m \<noteq> SHARP_F
     then i\<lparr>regs := m\<lparr>history_register := OBJECT_ADDRESS (READ_DUMMY_HISTORY m)\<rparr>\<rparr>
     else let (history, m) = make_dummy_history m in i\<lparr>regs := m\<lparr>history_register := history\<rparr>\<rparr>)"

definition HISTORY_SIZE :: nat where "HISTORY_SIZE = CONTINUATION_SIZE + 2"

definition SAVE_HISTORY :: "ulong \<Rightarrow> interpreter \<Rightarrow> (interpreter \<Rightarrow> control) \<Rightarrow> control" where
  "SAVE_HISTORY rc i k =
    Will_Push HISTORY_SIZE i (\<lambda>i.
      let i = push SHARP_F i;
          i = push (ULONG_TO_FIXNUM (of_nat (prev_restore_history_offset i))) i;
          i = SET_EXP (MAKE_POINTER_OBJECT UNMARKED_HISTORY_TYPE (history_register (regs i))) i;
          i = save_cont (SET_RC rc i)
      in k (on_regs (\<lambda>m. m\<lparr>history_register := OBJECT_ADDRESS (READ_DUMMY_HISTORY m)\<rparr>) i))"

definition STACK_N_PUSHED :: "machine \<Rightarrow> nat" where "STACK_N_PUSHED m = stack_end m - stack_pointer m"
definition CONTINUATION_RETURN_CODE :: nat where "CONTINUATION_RETURN_CODE = 0"

definition stop_history :: "interpreter \<Rightarrow> (interpreter \<Rightarrow> control) \<Rightarrow> control" where
  "stop_history i k =
    (let saved_exp = GET_EXP i; saved_ret = GET_RET i in
     SAVE_HISTORY RC_RESTORE_DONT_COPY_HISTORY i (\<lambda>i.
       k (SET_EXP saved_exp (SET_RET saved_ret
         (i\<lparr>prev_restore_history_offset := STACK_N_PUSHED (regs i) + CONTINUATION_RETURN_CODE\<rparr>)))))"

subsection \<open>Errors and interrupts\<close>

definition preserve_interrupt_mask :: "interpreter \<Rightarrow> (interpreter \<Rightarrow> control) \<Rightarrow> control" where
  "preserve_interrupt_mask i k =
    Will_Push CONTINUATION_SIZE i (\<lambda>i.
      k (save_cont (SET_EXP (ULONG_TO_FIXNUM (int_mask (regs i))) (SET_RC RC_RESTORE_INT_MASK i))))"

definition SYSTEM_INTERRUPT_VECTOR :: nat where "SYSTEM_INTERRUPT_VECTOR = 0x01"
definition SYSTEM_ERROR_VECTOR :: nat where "SYSTEM_ERROR_VECTOR = 0x02"
definition FIXOBJ_INTERRUPT_MASK_VECTOR :: nat where "FIXOBJ_INTERRUPT_MASK_VECTOR = 0x06"
definition MAX_INTERRUPT_NUMBER :: nat where "MAX_INTERRUPT_NUMBER = 0xF"
definition STACK_ENV_EXTRA_SLOTS :: nat where "STACK_ENV_EXTRA_SLOTS = 1"

fun interrupt_number_loop :: "nat \<Rightarrow> nat \<Rightarrow> ulong \<Rightarrow> nat" where
  "interrupt_number_loop 0 interrupt_number masked_interrupts = interrupt_number"
| "interrupt_number_loop (Suc n) interrupt_number masked_interrupts =
    (if masked_interrupts AND push_bit interrupt_number 1 = 0
     then interrupt_number_loop n (interrupt_number + 1) masked_interrupts else interrupt_number)"

definition compute_interrupt_number :: "ulong \<Rightarrow> nat" where
  "compute_interrupt_number = interrupt_number_loop (MAX_INTERRUPT_NUMBER + 1) 0"

definition compute_interrupt_handler_mask :: "scheme_object \<Rightarrow> nat \<Rightarrow> machine \<Rightarrow> ulong" where
  "compute_interrupt_handler_mask interrupt_masks interrupt_number m =
    (let default = (if interrupt_number \<le> MAX_INTERRUPT_NUMBER then push_bit interrupt_number 1 - 1 else int_mask m);
         w = VECTOR_REF interrupt_masks interrupt_number m;
         limit = heap_object m w
     in if VECTOR_P interrupt_masks \<and> interrupt_number \<le> VECTOR_LENGTH_heap interrupt_masks m \<and>
           INTEGER_P limit \<and> integer_to_ulong_p limit = Some True
        then the (integer_to_ulong limit) AND NOT (push_bit interrupt_number 1) else default)"

definition setup_interrupt :: "ulong \<Rightarrow> interpreter \<Rightarrow> (interpreter \<Rightarrow> control) \<Rightarrow> control" where
  "setup_interrupt masked_interrupts i k =
    (let m = regs i;
         interrupt_number = compute_interrupt_number masked_interrupts;
         interrupt_handlers = VECTOR_REF (fixed_objects m) SYSTEM_INTERRUPT_VECTOR m;
         interrupt_masks = VECTOR_REF (fixed_objects m) FIXOBJ_INTERRUPT_MASK_VECTOR m
     in if \<not> VECTOR_P (fixed_objects m) \<or>
           \<not> (VECTOR_P interrupt_handlers \<and> interrupt_number < VECTOR_LENGTH_heap interrupt_handlers m)
        then Stop Term_No_Interrupt_Handler
        else
          let interrupt_mask = compute_interrupt_handler_mask interrupt_masks interrupt_number m;
              interrupt_handler = VECTOR_REF interrupt_handlers interrupt_number m
          in stop_history i (\<lambda>i. preserve_interrupt_mask i (\<lambda>i. Will_Push (STACK_ENV_EXTRA_SLOTS + 3) i (\<lambda>i.
               let i = push (ULONG_TO_FIXNUM (int_mask (regs i))) i;
                   i = push (ULONG_TO_FIXNUM (int_code (regs i))) i;
                   i = push interrupt_handler i;
                   i = PUSH_APPLY_FRAME_HEADER 2 i
               in k (on_regs (SET_INTERRUPT_MASK interrupt_mask) i)))))"

definition SIGNAL_INTERRUPT :: "ulong \<Rightarrow> interpreter \<Rightarrow> control" where
  "SIGNAL_INTERRUPT masked_code i = setup_interrupt masked_code i (Goto Perform_Application)"

definition PREPARE_POP_RETURN_INTERRUPT :: "ulong \<Rightarrow> scheme_object \<Rightarrow> interpreter \<Rightarrow> interpreter" where
  "PREPARE_POP_RETURN_INTERRUPT return_code contents_of_val i =
    save_cont (SET_EXP contents_of_val (SET_RC RC_RESTORE_VALUE (save_cont (SET_RC return_code i))))"

definition PREPARE_APPLY_INTERRUPT :: "interpreter \<Rightarrow> interpreter" where
  "PREPARE_APPLY_INTERRUPT i =
    (let i = SET_EXP SHARP_F i in PREPARE_POP_RETURN_INTERRUPT RC_INTERNAL_APPLY_VAL (APPLY_FRAME_PROCEDURE i) i)"

definition PREPARE_EVAL_REPEAT :: "interpreter \<Rightarrow> (interpreter \<Rightarrow> control) \<Rightarrow> control" where
  "PREPARE_EVAL_REPEAT i k = Will_Push (CONTINUATION_SIZE + 1) i (\<lambda>i. k (save_cont (SET_RC RC_EVAL_ERROR (PUSH_ENV i))))"

definition IMMEDIATE_GC :: "nat \<Rightarrow> interpreter \<Rightarrow> control" where
  "IMMEDIATE_GC n i = (let i = on_regs (REQUEST_GC n) i in SIGNAL_INTERRUPT (PENDING_INTERRUPTS (regs i)) i)"

text \<open>
  \<open>Do_Micro_Error\<close> leaves a frame on the stack that applies the handler of the error; the printing
  for debugging is not modelled. The object that \<open>long_to_integer\<close> makes of the error code is a fixnum; a code
  for which it would allocate a bignum is outside of the model.
\<close>

definition error_code_object :: "long \<Rightarrow> interpreter \<Rightarrow> scheme_object option" where
  "error_code_object error_code i =
    (if error_code = ERR_WITH_ARGUMENT \<or> error_code = ERR_IN_SYSTEM_CALL then Some (error_argument i)
     else case long_to_integer error_code of Some (Immediate w) \<Rightarrow> Some w | _ \<Rightarrow> None)"

definition Do_Micro_Error :: "long \<Rightarrow> bool \<Rightarrow> interpreter \<Rightarrow> (interpreter \<Rightarrow> control) \<Rightarrow> control" where
  "Do_Micro_Error error_code from_pop_return_p i k =
    Will_Push (CONTINUATION_SIZE + (if from_pop_return_p then 0 else 1)) i (\<lambda>i.
      let i = (if from_pop_return_p then SET_EXP (val_register i) i else PUSH_ENV i);
          i = save_cont (SET_RC (if from_pop_return_p then RC_POP_RETURN_ERROR else RC_EVAL_ERROR) i);
          m = regs i;
          error_vector = (if VECTOR_P (fixed_objects m) then VECTOR_REF (fixed_objects m) SYSTEM_ERROR_VECTOR m else SHARP_F)
      in if \<not> VECTOR_P error_vector then Stop Term_No_Error_Handler
         else
           let len = int (VECTOR_LENGTH_heap error_vector m);
               handler = (if error_code \<ge> 0 \<and> error_code < len then Some (VECTOR_REF error_vector (nat error_code) m)
                          else if ERR_BAD_ERROR_CODE < len then Some (VECTOR_REF error_vector (nat ERR_BAD_ERROR_CODE) m) else None)
           in case handler of
                None \<Rightarrow> Stop Term_No_Error_Handler
              | Some handler \<Rightarrow>
                  stop_history i (\<lambda>i. preserve_interrupt_mask i (\<lambda>i. Will_Push (STACK_ENV_EXTRA_SLOTS + 3) i (\<lambda>i.
                    let i = push (ULONG_TO_FIXNUM (int_mask (regs i))) i in
                    case error_code_object error_code i of
                      None \<Rightarrow> No_Result
                    | Some object \<Rightarrow>
                        let i = PUSH_APPLY_FRAME_HEADER 2 (push handler (push object i))
                        in k (on_regs (SET_INTERRUPT_MASK 0) i)))))"

definition EVAL_ERROR :: "long \<Rightarrow> interpreter \<Rightarrow> control" where
  "EVAL_ERROR code i = Do_Micro_Error code False i (Goto Internal_Apply)"
definition POP_RETURN_ERROR :: "long \<Rightarrow> interpreter \<Rightarrow> control" where
  "POP_RETURN_ERROR code i = Do_Micro_Error code True (save_cont i) (Goto Internal_Apply)"
definition APPLICATION_ERROR :: "long \<Rightarrow> interpreter \<Rightarrow> control" where
  "APPLICATION_ERROR code i =
    (let i = save_cont (SET_RC RC_INTERNAL_APPLY_VAL (SET_EXP SHARP_F i));
         i = SET_VAL (APPLY_FRAME_PROCEDURE i) i
     in Do_Micro_Error code True i (Goto Internal_Apply))"

subsection \<open>Evaluation\<close>

definition ACCESS_ENVIRONMENT :: nat where "ACCESS_ENVIRONMENT = 0"
definition ACCESS_NAME :: nat where "ACCESS_NAME = 1"
definition ASSIGN_NAME :: nat where "ASSIGN_NAME = 0"
definition ASSIGN_VALUE :: nat where "ASSIGN_VALUE = 1"
definition COMB_FN_SLOT :: nat where "COMB_FN_SLOT = 1"
definition COMB_ARG_1_SLOT :: nat where "COMB_ARG_1_SLOT = 2"
definition COMMENT_EXPRESSION :: nat where "COMMENT_EXPRESSION = 0"
definition COND_PREDICATE :: nat where "COND_PREDICATE = 0"
definition COND_CONSEQUENT :: nat where "COND_CONSEQUENT = 1"
definition COND_ALTERNATIVE :: nat where "COND_ALTERNATIVE = 2"
definition DEFINE_NAME :: nat where "DEFINE_NAME = 0"
definition DEFINE_VALUE :: nat where "DEFINE_VALUE = 1"
definition DELAY_OBJECT :: nat where "DELAY_OBJECT = 0"
definition OR_PREDICATE :: nat where "OR_PREDICATE = 0"
definition OR_ALTERNATIVE :: nat where "OR_ALTERNATIVE = 1"
definition SCODE_QUOTE_OBJECT :: nat where "SCODE_QUOTE_OBJECT = 0"
definition SEQUENCE_1 :: nat where "SEQUENCE_1 = 0"
definition SEQUENCE_2 :: nat where "SEQUENCE_2 = 1"
definition THUNK_SNAPPED :: nat where "THUNK_SNAPPED = 0"
definition THUNK_VALUE :: nat where "THUNK_VALUE = 1"
definition THUNK_ENVIRONMENT :: nat where "THUNK_ENVIRONMENT = 0"
definition THUNK_PROCEDURE :: nat where "THUNK_PROCEDURE = 1"
definition STACK_COMB_FINGER :: nat where "STACK_COMB_FINGER = 0"
definition STACK_COMB_FIRST_ARG :: nat where "STACK_COMB_FIRST_ARG = 1"
definition VARIABLE_SYMBOL :: "scheme_object \<Rightarrow> machine \<Rightarrow> scheme_object" where "VARIABLE_SYMBOL variable = MEMORY_REF variable 0"
definition VARIABLE_SAFE_P :: "scheme_object \<Rightarrow> machine \<Rightarrow> bool" where
  "VARIABLE_SAFE_P variable m \<longleftrightarrow> MEMORY_REF variable 1 m = SHARP_F"

definition exp_ref :: "nat \<Rightarrow> interpreter \<Rightarrow> scheme_object" where
  "exp_ref n i = MEMORY_REF (GET_EXP i) n (regs i)"

definition REDUCES_TO :: "scheme_object \<Rightarrow> interpreter \<Rightarrow> control" where
  "REDUCES_TO expression i =
    (let i = SET_EXP expression i in Goto Do_Expression (on_regs (new_reduction (GET_EXP i) (env_register i)) i))"

definition REDUCES_TO_NTH :: "nat \<Rightarrow> interpreter \<Rightarrow> control" where
  "REDUCES_TO_NTH n i = REDUCES_TO (exp_ref n i) i"

text \<open>\<open>PUSH_NTH_THEN\<close> is the same code with the check of the pushes, which only a debugging build has.\<close>

definition DO_NTH_THEN :: "ulong \<Rightarrow> nat \<Rightarrow> interpreter \<Rightarrow> control" where
  "DO_NTH_THEN return_code n i =
    (let i = save_cont (SET_RC return_code i); i = SET_EXP (exp_ref n i) i
     in Goto Do_Expression (on_regs (new_subproblem (GET_EXP i) (env_register i)) i))"

definition DO_ANOTHER_THEN :: "ulong \<Rightarrow> nat \<Rightarrow> interpreter \<Rightarrow> control" where
  "DO_ANOTHER_THEN return_code n i =
    (let i = save_cont (SET_RC return_code i); i = SET_EXP (exp_ref n i) i
     in Goto Do_Expression (on_regs (reuse_subproblem (GET_EXP i) (env_register i)) i))"

text \<open>The frame of the stepper: a hook from the fixed objects is applied with the stepper turned off.\<close>

definition STEPPER_STATE :: nat where "STEPPER_STATE = 0x0E"
definition FETCH_TRAPPER :: "nat \<Rightarrow> machine \<Rightarrow> scheme_object" where
  "FETCH_TRAPPER n m = MEMORY_REF (VECTOR_REF (fixed_objects m) STEPPER_STATE m) n m"
definition trap_p :: "nat \<Rightarrow> interpreter \<Rightarrow> bool" where
  "trap_p n i \<longleftrightarrow> trapping i \<and> \<not> critical_section_p i \<and> FETCH_TRAPPER n (regs i) \<noteq> SHARP_F"

text \<open>Two words of a new object, as a closure or a promise has them.\<close>

definition make_closure :: "ulong \<Rightarrow> scheme_object \<Rightarrow> scheme_object \<Rightarrow> interpreter \<Rightarrow> interpreter" where
  "make_closure type w0 w1 i =
    on_regs (\<lambda>m. push_heap w1 (push_heap w0 m)) (SET_VAL (MAKE_POINTER_OBJECT type (Free (regs i))) i)"

text \<open>Continue with the result of an operation on variables.\<close>

definition with_lookup :: "lookup_result \<Rightarrow> interpreter \<Rightarrow> (lookup_code \<Rightarrow> scheme_object option \<Rightarrow> interpreter \<Rightarrow> control) \<Rightarrow> control" where
  "with_lookup r i k =
    (case r of
       None \<Rightarrow> No_Result | Some (Inl e) \<Rightarrow> Stop (Machine_Exit e)
     | Some (Inr ((code, v), m)) \<Rightarrow> (case code of Prim_Abort e \<Rightarrow> No_Result | _ \<Rightarrow> k code v (i\<lparr>regs := m\<rparr>)))"

definition eval_combination :: "interpreter \<Rightarrow> control" where
  "eval_combination i =
    (let len = VECTOR_LENGTH_heap (GET_EXP i) (regs i) - 1 in
     Will_Push (len + 2 + CONTINUATION_SIZE) i (\<lambda>i.
       let i = on_regs (\<lambda>m. m\<lparr>stack_pointer := stack_pointer m - len\<rparr>) i;
           i = push (MAKE_OBJECT TC_MANIFEST_NM_VECTOR (of_nat len)) i
       in if len = 0 then DO_NTH_THEN RC_COMB_APPLY_FUNCTION COMB_FN_SLOT (PUSH_APPLY_FRAME_HEADER 0 i)
          else DO_NTH_THEN RC_COMB_SAVE_VALUE (len + 1) (PUSH_ENV i)))"

definition eval_variable :: "interpreter \<Rightarrow> control" where
  "eval_variable i =
    (let name = VARIABLE_SYMBOL (GET_EXP i) (regs i) in
     with_lookup (lookup_variable (env_register i) name (regs i)) i (\<lambda>temp v i.
       if VARIABLE_SAFE_P (GET_EXP i) (regs i) \<and> temp = ERR_UNASSIGNED_VARIABLE then Goto Pop_Return (SET_VAL UNASSIGNED_OBJECT i)
       else if temp \<noteq> PRIM_DONE then
         if temp = PRIM_INTERRUPT then PREPARE_EVAL_REPEAT i (\<lambda>i. SIGNAL_INTERRUPT (PENDING_INTERRUPTS (regs i)) i)
         else EVAL_ERROR (lookup_error_code temp) i
       else Goto Pop_Return (SET_VAL (the v) i)))"

text \<open>Push the environment and evaluate the \<open>n\<close>th component.\<close>

definition eval_component :: "ulong \<Rightarrow> nat \<Rightarrow> interpreter \<Rightarrow> control" where
  "eval_component return_code n i =
    Will_Push (CONTINUATION_SIZE + 1) i (\<lambda>i. DO_NTH_THEN return_code n (PUSH_ENV i))"

definition eval_non_trapping :: "interpreter \<Rightarrow> control" where
  "eval_non_trapping i =
    (let type = OBJECT_TYPE (GET_EXP i) in
     if type = TC_ACCESS then Will_Push CONTINUATION_SIZE i (DO_NTH_THEN RC_EXECUTE_ACCESS_FINISH ACCESS_ENVIRONMENT)
     else if type = TC_ASSIGNMENT then eval_component RC_EXECUTE_ASSIGNMENT_FINISH ASSIGN_VALUE i
     else if type = TC_BROKEN_HEART then Stop Term_Broken_Heart
     else if type = TC_COMBINATION then eval_combination i
     else if type = TC_COMMENT then REDUCES_TO_NTH COMMENT_EXPRESSION i
     else if type = TC_CONDITIONAL then eval_component RC_CONDITIONAL_DECIDE COND_PREDICATE i
     else if type = TC_DEFINITION then eval_component RC_EXECUTE_DEFINITION_FINISH DEFINE_VALUE i
     else if type = TC_DELAY then Goto Pop_Return (make_closure TC_DELAYED (env_register i) (exp_ref DELAY_OBJECT i) i)
     else if type = TC_DISJUNCTION then eval_component RC_DISJUNCTION_DECIDE OR_PREDICATE i
     else if type = TC_EXTENDED_LAMBDA then Goto Pop_Return (make_closure TC_EXTENDED_PROCEDURE (GET_EXP i) (env_register i) i)
     else if type = TC_LAMBDA \<or> type = TC_LEXPR then Goto Pop_Return (make_closure TC_PROCEDURE (GET_EXP i) (env_register i) i)
     else if type = TC_MANIFEST_NM_VECTOR then EVAL_ERROR ERR_EXECUTE_MANIFEST_VECTOR i
     else if type = TC_SCODE_QUOTE then Goto Pop_Return (SET_VAL (exp_ref SCODE_QUOTE_OBJECT i) i)
     else if type = TC_SEQUENCE then eval_component RC_EXECUTE_SEQUENCE_FINISH SEQUENCE_1 i
     else if type = TC_SYNTAX_ERROR then EVAL_ERROR ERR_SYNTAX_ERROR i
     else if type = TC_THE_ENVIRONMENT then Goto Pop_Return (SET_VAL (env_register i) i)
     else if type = TC_VARIABLE then eval_variable i
     else Goto Pop_Return (SET_VAL (GET_EXP i) i))"

definition do_expression :: "interpreter \<Rightarrow> control" where
  "do_expression i =
    (if trap_p 0 i then
       Will_Push 4 (i\<lparr>trapping := False\<rparr>) (\<lambda>i.
         let i = push (GET_EXP i) (PUSH_ENV i)
         in Goto Apply_Non_Trapping (PUSH_APPLY_FRAME_HEADER 2 (push (FETCH_TRAPPER 0 (regs i)) i)))
     else eval_non_trapping i)"

subsection \<open>Continuations\<close>

definition END_SUBPROBLEM :: "interpreter \<Rightarrow> interpreter" where "END_SUBPROBLEM = on_regs end_subproblem"

definition return_comb_save_value :: "interpreter \<Rightarrow> control" where
  "return_comb_save_value i =
    (let i = POP_ENV i;
         arg_number = unat (OBJECT_DATUM (STACK_REF STACK_COMB_FINGER i)) - 1;
         i = set_stack (STACK_COMB_FIRST_ARG + arg_number) (val_register i) i;
         i = set_stack STACK_COMB_FINGER (MAKE_OBJECT TC_MANIFEST_NM_VECTOR (of_nat arg_number)) i
     in if arg_number > 0 then DO_ANOTHER_THEN RC_COMB_SAVE_VALUE ((COMB_ARG_1_SLOT - 1) + arg_number) (PUSH_ENV i)
        else DO_ANOTHER_THEN RC_COMB_APPLY_FUNCTION COMB_FN_SLOT (push (exp_ref 0 i) i))"

definition return_access :: "interpreter \<Rightarrow> control" where
  "return_access i =
    with_lookup (lookup_variable (val_register i) (exp_ref ACCESS_NAME i) (regs i)) i (\<lambda>code v i.
      if code = PRIM_DONE then Goto Pop_Return (END_SUBPROBLEM (SET_VAL (the v) i))
      else if code = PRIM_INTERRUPT then
        let i = PREPARE_POP_RETURN_INTERRUPT RC_EXECUTE_ACCESS_FINISH (val_register i) i
        in SIGNAL_INTERRUPT (PENDING_INTERRUPTS (regs i)) i
      else POP_RETURN_ERROR (lookup_error_code code) i)"

definition return_assignment :: "interpreter \<Rightarrow> control" where
  "return_assignment i =
    (let variable = exp_ref ASSIGN_NAME i; i = POP_ENV i in
     with_lookup
       (if OBJECT_TYPE variable = TC_VARIABLE
        then assign_variable (env_register i) (VARIABLE_SYMBOL variable (regs i)) (val_register i) (regs i)
        else lookup_return ERR_BAD_FRAME None (regs i)) i (\<lambda>code old_val i.
       if code = PRIM_DONE then Goto Pop_Return (END_SUBPROBLEM (SET_VAL (the old_val) i))
       else
         let i = PUSH_ENV i in
         if code = PRIM_INTERRUPT then
           let i = PREPARE_POP_RETURN_INTERRUPT RC_EXECUTE_ASSIGNMENT_FINISH (val_register i) i
           in SIGNAL_INTERRUPT (PENDING_INTERRUPTS (regs i)) i
         else POP_RETURN_ERROR (lookup_error_code code) i))"

definition return_definition :: "interpreter \<Rightarrow> control" where
  "return_definition i =
    (let name = exp_ref DEFINE_NAME i; v = val_register i; i = POP_ENV i in
     with_lookup (define_variable (env_register i) name v (regs i)) i (\<lambda>result _ i.
       if result = PRIM_DONE then Goto Pop_Return (SET_VAL name (END_SUBPROBLEM i))
       else
         let i = PUSH_ENV i in
         if result = PRIM_INTERRUPT then
           let i = PREPARE_POP_RETURN_INTERRUPT RC_EXECUTE_DEFINITION_FINISH v i
           in SIGNAL_INTERRUPT (PENDING_INTERRUPTS (regs i)) i
         else POP_RETURN_ERROR (lookup_error_code result) (SET_VAL v i)))"

definition TRAP_HANDLER :: nat where "TRAP_HANDLER = 0x0C"

definition return_hardware_trap :: "interpreter \<Rightarrow> control" where
  "return_hardware_trap i =
    (let info = STACK_REF 0 i; i = save_cont i; m = regs i;
         handler = (if VECTOR_P (fixed_objects m) then VECTOR_REF (fixed_objects m) TRAP_HANDLER m else SHARP_F)
     in if handler = SHARP_F then Stop Term_Trap
        else Will_Push (STACK_ENV_EXTRA_SLOTS + 2) i (\<lambda>i.
          Goto Internal_Apply (PUSH_APPLY_FRAME_HEADER 1 (push handler (push info i)))))"

text \<open>The words of a control point replace the stack.\<close>

fun push_words :: "nat \<Rightarrow> addr \<Rightarrow> machine \<Rightarrow> machine" where
  "push_words 0 scan_from m = m"
| "push_words (Suc n) scan_from m = push_words n (scan_from - 1) (STACK_PUSH (mem m (scan_from - 1)) m)"

definition unpack_control_point :: "scheme_object \<Rightarrow> interpreter \<Rightarrow> (interpreter \<Rightarrow> control) \<Rightarrow> control" where
  "unpack_control_point cp i k =
    (let m = regs i;
         scan_from = VECTOR_LOC cp (VECTOR_LENGTH_heap cp m);
         end_from = VECTOR_LOC cp 2;
         m = CLEAR_INTERRUPT INT_Stack_Overflow (m\<lparr>stack_pointer := stack_end m\<rparr>)
     in Will_Push (scan_from - end_from) (i\<lparr>regs := m\<rparr>) (\<lambda>i. k (on_regs (push_words (scan_from - end_from) scan_from) i)))"

definition return_restore_int_mask :: "interpreter \<Rightarrow> control" where
  "return_restore_int_mask i =
    (let i = on_regs (SET_INTERRUPT_MASK (word_of_int (UNSIGNED_FIXNUM_TO_LONG (GET_EXP i)))) i;
         i = (if GC_NEEDED_P 0 (regs i) then on_regs (REQUEST_GC 0) i else i)
     in if PENDING_INTERRUPTS (regs i) \<noteq> 0 then
          let i = save_cont (SET_EXP (val_register i) (SET_RC RC_RESTORE_VALUE i))
          in SIGNAL_INTERRUPT (PENDING_INTERRUPTS (regs i)) i
        else Goto Pop_Return i)"

definition return_snap_need_thunk :: "interpreter \<Rightarrow> control" where
  "return_snap_need_thunk i =
    (let thunk = GET_EXP i in
     Goto Pop_Return
       (if MEMORY_REF thunk THUNK_SNAPPED (regs i) = SHARP_T then SET_VAL (MEMORY_REF thunk THUNK_VALUE (regs i)) i
        else on_regs (\<lambda>m. MEMORY_SET thunk THUNK_VALUE (val_register i) (MEMORY_SET thunk THUNK_SNAPPED SHARP_T m)) i))"

definition return_normal_gc_done :: "interpreter \<Rightarrow> control" where
  "return_normal_gc_done i =
    (let i = SET_VAL (GET_EXP i) i in
     if GC_NEEDED_P (gc_space_needed (regs i)) (regs i) then Stop Term_Gc_Out_Of_Space
     else Goto Pop_Return ((on_regs (\<lambda>m. m\<lparr>gc_space_needed := 0\<rparr>) i)\<lparr>critical_section_p := False\<rparr>))"

definition return_dont_copy_history :: "interpreter \<Rightarrow> control" where
  "return_dont_copy_history i =
    (let i = i\<lparr>prev_restore_history_offset := unat (OBJECT_DATUM (STACK_REF 0 i))\<rparr>
     in Goto Pop_Return (on_regs (\<lambda>m. m\<lparr>history_register := OBJECT_ADDRESS (exp_register m)\<rparr>) (drop_stack 2 i)))"

definition pop_return_non_trapping :: "interpreter \<Rightarrow> control" where
  "pop_return_non_trapping i =
    (let i = RESTORE_CONT i; code = OBJECT_DATUM (GET_RET i) in
     if code = RC_COMB_APPLY_FUNCTION then Goto Internal_Apply_Val (END_SUBPROBLEM i)
     else if code = RC_COMB_SAVE_VALUE then return_comb_save_value i
     else if code = RC_CONDITIONAL_DECIDE then
       let i = POP_ENV (END_SUBPROBLEM i)
       in REDUCES_TO_NTH (if val_register i = SHARP_F then COND_ALTERNATIVE else COND_CONSEQUENT) i
     else if code = RC_DISJUNCTION_DECIDE then
       let i = POP_ENV (END_SUBPROBLEM i)
       in if val_register i \<noteq> SHARP_F then Goto Pop_Return i else REDUCES_TO_NTH OR_ALTERNATIVE i
     else if code = RC_END_OF_COMPUTATION then (if nested_p i then Return_To_C i else Stop Term_End_Of_Computation)
     else if code = RC_EVAL_ERROR then (let i = POP_ENV i in REDUCES_TO (GET_EXP i) i)
     else if code = RC_EXECUTE_ACCESS_FINISH then return_access i
     else if code = RC_EXECUTE_ASSIGNMENT_FINISH then return_assignment i
     else if code = RC_EXECUTE_DEFINITION_FINISH then return_definition i
     else if code = RC_HALT then Stop Term_Handler
     else if code = RC_HARDWARE_TRAP then return_hardware_trap i
     else if code = RC_INTERNAL_APPLY_VAL then Goto Internal_Apply_Val i
     else if code = RC_INTERNAL_APPLY then Goto Internal_Apply i
     else if code = RC_JOIN_STACKLETS then unpack_control_point (GET_EXP i) i (Goto Pop_Return)
     else if code = RC_NORMAL_GC_DONE then return_normal_gc_done i
     else if code = RC_POP_RETURN_ERROR \<or> code = RC_RESTORE_VALUE then Goto Pop_Return (SET_VAL (GET_EXP i) i)
     else if code = RC_RESTORE_DONT_COPY_HISTORY then return_dont_copy_history i
     else if code = RC_RESTORE_HISTORY then Copy_History i
     else if code = RC_RESTORE_INT_MASK then return_restore_int_mask i
     else if code = RC_STACK_MARKER then Goto Pop_Return (drop_stack 1 i)
     else if code = RC_EXECUTE_SEQUENCE_FINISH then (let i = POP_ENV (END_SUBPROBLEM i) in REDUCES_TO_NTH SEQUENCE_2 i)
     else if code = RC_SNAP_NEED_THUNK then return_snap_need_thunk i
     else POP_RETURN_ERROR ERR_INAPPLICABLE_CONTINUATION i)"

definition pop_return :: "interpreter \<Rightarrow> control" where
  "pop_return i =
    (if trap_p 2 i then
       Will_Push 3 i (\<lambda>i.
         let i = push (val_register i) (i\<lparr>trapping := False\<rparr>)
         in Goto Apply_Non_Trapping (PUSH_APPLY_FRAME_HEADER 1 (push (FETCH_TRAPPER 2 (regs i)) i)))
     else pop_return_non_trapping i)"

subsection \<open>Application\<close>

definition ENTITY_OPERATOR :: nat where "ENTITY_OPERATOR = 0"
definition ENTITY_DATA :: nat where "ENTITY_DATA = 1"
definition ARITY_DISPATCHER_TAG :: nat where "ARITY_DISPATCHER_TAG = 0x33"
definition DEFAULT_OBJECT :: scheme_object where "DEFAULT_OBJECT = MAKE_OBJECT TC_CONSTANT 7"
definition LEXPR_PRIMITIVE_ARITY :: int where "LEXPR_PRIMITIVE_ARITY = -1"

text \<open>An entity or a record is applied by applying its operator to it and the arguments.\<close>

definition entity_apply :: "scheme_object \<Rightarrow> interpreter \<Rightarrow> control" where
  "entity_apply operator i =
    (let frame_size = APPLY_FRAME_SIZE i in
     Will_Push 0 (PUSH_APPLY_FRAME_HEADER frame_size (set_stack 0 operator i)) (Goto Internal_Apply))"

definition apply_entity :: "scheme_object \<Rightarrow> interpreter \<Rightarrow> control" where
  "apply_entity function i =
    (let m = regs i; frame_size = APPLY_FRAME_SIZE i; data = MEMORY_REF function ENTITY_DATA m in
     if VECTOR_P data \<and> frame_size < VECTOR_LENGTH_heap data m \<and> VECTOR_REF data frame_size m \<noteq> SHARP_F \<and>
        VECTOR_REF data 0 m = VECTOR_REF (fixed_objects m) ARITY_DISPATCHER_TAG m
     then Goto Perform_Application (set_stack 1 (VECTOR_REF data frame_size m) i)
     else entity_apply (MEMORY_REF function ENTITY_OPERATOR m) i)"

definition apply_record :: "scheme_object \<Rightarrow> interpreter \<Rightarrow> control" where
  "apply_record function i =
    (let applicator = record_applicator function (regs i) in
     if applicator = SHARP_F then APPLICATION_ERROR ERR_INAPPLICABLE_OBJECT i else entity_apply applicator i)"

text \<open>Words are moved from the stack to the heap.\<close>

fun move_from_stack :: "nat \<Rightarrow> machine \<Rightarrow> machine" where
  "move_from_stack 0 m = m"
| "move_from_stack (Suc n) m = move_from_stack n (push_heap (mem m (stack_pointer m)) (m\<lparr>stack_pointer := stack_pointer m + 1\<rparr>))"

definition apply_procedure :: "scheme_object \<Rightarrow> interpreter \<Rightarrow> control" where
  "apply_procedure function i =
    (let m = regs i; frame_size = APPLY_FRAME_SIZE i;
         lambda = MEMORY_REF function PROCEDURE_LAMBDA_EXPR m;
         formals = MEMORY_REF lambda LAMBDA_FORMALS m
     in if frame_size \<noteq> VECTOR_LENGTH_heap formals m \<and>
           (OBJECT_TYPE lambda \<noteq> TC_LEXPR \<or> frame_size < VECTOR_LENGTH_heap formals m)
        then APPLICATION_ERROR ERR_WRONG_NUMBER_OF_ARGUMENTS i
        else if GC_NEEDED_P (frame_size + 1) m then IMMEDIATE_GC (frame_size + 1) (PREPARE_APPLY_INTERRUPT i)
        else
          let env = MAKE_POINTER_OBJECT TC_ENVIRONMENT (Free m);
              m = push_heap (MAKE_OBJECT TC_MANIFEST_VECTOR (of_nat frame_size)) m;
              m = move_from_stack frame_size (m\<lparr>stack_pointer := stack_pointer m + 1\<rparr>)
          in REDUCES_TO (MEMORY_REF lambda LAMBDA_SCODE m) (SET_ENV env (i\<lparr>regs := m\<rparr>)))"

definition ELAMBDA_SCODE :: nat where "ELAMBDA_SCODE = 0"
definition ELAMBDA_NAMES :: nat where "ELAMBDA_NAMES = 1"
definition ELAMBDA_ARG_COUNT :: nat where "ELAMBDA_ARG_COUNT = 2"
definition Elambda_Formals_Count :: "scheme_object \<Rightarrow> nat" where
  "Elambda_Formals_Count w = unat (drop_bit 8 (w AND 0xFF00))"
definition Elambda_Opts_Count :: "scheme_object \<Rightarrow> nat" where "Elambda_Opts_Count w = unat (w AND 0xFF)"
definition Elambda_Rest_Flag :: "scheme_object \<Rightarrow> nat" where "Elambda_Rest_Flag w = unat (drop_bit 16 (w AND 0x10000))"

text \<open>The rest arguments become a list, of which the last CDR is set in the end.\<close>

fun move_rest :: "nat \<Rightarrow> machine \<Rightarrow> machine" where
  "move_rest 0 m = store_word (Free m - 1) EMPTY_LIST m"
| "move_rest (Suc n) m =
    (let m = push_heap (mem m (stack_pointer m)) (m\<lparr>stack_pointer := stack_pointer m + 1\<rparr>)
     in move_rest n (push_heap (MAKE_POINTER_OBJECT TC_LIST (Free m + 1)) m))"

text \<open>
  The frame of an extended procedure: the procedure, the parameters and the auxiliary variables. The
  counts of a lambda expression are consistent, so the subtractions do not wrap around.
\<close>

definition build_extended_frame :: "nat \<Rightarrow> nat \<Rightarrow> nat \<Rightarrow> nat \<Rightarrow> machine \<Rightarrow> machine" where
  "build_extended_frame nargs params rest_flag auxes m =
    (let size = params + rest_flag + auxes + 1;
         rest = MAKE_POINTER_OBJECT TC_LIST (Free m + 1 + size);
         m = push_heap (MAKE_OBJECT TC_MANIFEST_VECTOR (of_nat size)) m
     in if nargs \<le> params then
          let m = fill_heap (params - nargs) DEFAULT_OBJECT (move_from_stack (nargs + 1) m);
              m = (if rest_flag \<noteq> 0 then push_heap EMPTY_LIST m else m)
          in fill_heap auxes UNASSIGNED_OBJECT m
        else move_rest (nargs - params) (fill_heap auxes UNASSIGNED_OBJECT (push_heap rest (move_from_stack (params + 1) m))))"

definition apply_extended_procedure :: "scheme_object \<Rightarrow> interpreter \<Rightarrow> control" where
  "apply_extended_procedure function i =
    (let nargs = APPLY_FRAME_N_ARGS i; m = regs (drop_stack 1 i);
         lambda = MEMORY_REF function PROCEDURE_LAMBDA_EXPR m;
         nparams = VECTOR_LENGTH_heap (MEMORY_REF lambda ELAMBDA_NAMES m) m - 1;
         counts = MEMORY_REF lambda ELAMBDA_ARG_COUNT m;
         formals = Elambda_Formals_Count counts;
         params = Elambda_Opts_Count counts + formals;
         rest_flag = Elambda_Rest_Flag counts;
         auxes = nparams - (params + rest_flag);
         size = params + rest_flag + auxes + 1;
         space = size + 1 + (if nargs > params then 2 * (nargs - params) else 0)
     in if nargs < formals \<or> (rest_flag = 0 \<and> nargs > params)
        then APPLICATION_ERROR ERR_WRONG_NUMBER_OF_ARGUMENTS (PUSH_APPLY_FRAME_HEADER nargs (i\<lparr>regs := m\<rparr>))
        else if GC_NEEDED_P space m then IMMEDIATE_GC space (PREPARE_APPLY_INTERRUPT (PUSH_APPLY_FRAME_HEADER nargs (i\<lparr>regs := m\<rparr>)))
        else
          let env = MAKE_POINTER_OBJECT TC_ENVIRONMENT (Free m);
              m = build_extended_frame nargs params rest_flag auxes m
          in REDUCES_TO (MEMORY_REF lambda ELAMBDA_SCODE m) (SET_ENV env (i\<lparr>regs := m\<rparr>)))"

definition apply_control_point :: "scheme_object \<Rightarrow> interpreter \<Rightarrow> control" where
  "apply_control_point function i =
    (if APPLY_FRAME_SIZE i \<noteq> 2 then APPLICATION_ERROR ERR_WRONG_NUMBER_OF_ARGUMENTS i
     else unpack_control_point function (SET_VAL (STACK_REF 2 i) i) (\<lambda>i. Goto Pop_Return (RESET_HISTORY i)))"

subsection \<open>Primitives\<close>

datatype dispatch_code =
    PRIM_APPLY | PRIM_NO_TRAP_APPLY | PRIM_APPLY_INTERRUPT | PRIM_APPLY_ERROR | PRIM_DO_EXPRESSION | PRIM_NO_TRAP_EVAL
  | PRIM_POP_RETURN | PRIM_RETURN_TO_C | PRIM_NO_TRAP_POP_RETURN | Abort_Interrupt | PRIM_ABORT_TO_C | Abort_Error long

datatype prim_result = Prim_Value scheme_object interpreter | Prim_Throw dispatch_code interpreter | Prim_Stop interp_exit

record primitive_code =
  tables :: prims
  call :: "primitive_procedure \<Rightarrow> interpreter \<Rightarrow> prim_result option"

definition PRIMITIVE_N_ARGUMENTS :: "scheme_object \<Rightarrow> primitive_code \<Rightarrow> interpreter \<Rightarrow> nat option" where
  "PRIMITIVE_N_ARGUMENTS prim p i =
    map_option (\<lambda>n. if n = LEXPR_PRIMITIVE_ARITY then lexpr_actuals i else nat n) (PRIMITIVE_ARITY prim (tables p))"

text \<open>The frame of a primitive that has aborted is made complete again.\<close>

definition back_out_of_primitive :: "primitive_code \<Rightarrow> interpreter \<Rightarrow> (interpreter \<Rightarrow> control) \<Rightarrow> control" where
  "back_out_of_primitive p i k =
    (let primitive = primitive_register i in
     case PRIMITIVE_N_ARGUMENTS primitive p i of
       None \<Rightarrow> No_Result
     | Some n \<Rightarrow>
         let i = (PUSH_APPLY_FRAME_HEADER n (push primitive i))\<lparr>primitive_register := SHARP_F\<rparr>;
             i = save_cont (SET_RC RC_INTERNAL_APPLY (SET_EXP SHARP_F i))
         in k (SET_VAL SHARP_F (SET_ENV THE_NULL_ENV i)))"

text \<open>The code at the start of \<open>Interpret\<close>, to which a primitive aborts.\<close>

definition interpret_dispatch :: "primitive_code \<Rightarrow> dispatch_code \<Rightarrow> interpreter \<Rightarrow> control" where
  "interpret_dispatch p code i =
    (let proceed = i\<lparr>primitive_register := SHARP_F\<rparr> in
     case code of
       PRIM_APPLY \<Rightarrow> Goto Internal_Apply proceed
     | PRIM_NO_TRAP_APPLY \<Rightarrow> Goto Apply_Non_Trapping proceed
     | PRIM_APPLY_INTERRUPT \<Rightarrow>
         let i = PREPARE_APPLY_INTERRUPT proceed in SIGNAL_INTERRUPT (PENDING_INTERRUPTS (regs i)) i
     | PRIM_APPLY_ERROR \<Rightarrow> APPLICATION_ERROR (prim_apply_error_code i) proceed
     | PRIM_DO_EXPRESSION \<Rightarrow> REDUCES_TO (GET_EXP i) (SET_VAL (GET_EXP i) proceed)
     | PRIM_NO_TRAP_EVAL \<Rightarrow>
         let i = SET_VAL (GET_EXP i) proceed
         in eval_non_trapping (on_regs (new_reduction (val_register i) (env_register i)) i)
     | PRIM_POP_RETURN \<Rightarrow> Goto Pop_Return proceed
     | PRIM_RETURN_TO_C \<Rightarrow> Return_To_C proceed
     | PRIM_NO_TRAP_POP_RETURN \<Rightarrow> pop_return_non_trapping proceed
     | Abort_Interrupt \<Rightarrow> back_out_of_primitive p i (\<lambda>i. SIGNAL_INTERRUPT (PENDING_INTERRUPTS (regs i)) i)
     | PRIM_ABORT_TO_C \<Rightarrow> back_out_of_primitive p i Return_To_C
     | Abort_Error n \<Rightarrow> back_out_of_primitive p i (\<lambda>i. Do_Micro_Error n True i (Goto Internal_Apply)))"

definition APPLY_PRIMITIVE_FROM_INTERPRETER :: "primitive_code \<Rightarrow> scheme_object \<Rightarrow> interpreter \<Rightarrow> (interpreter \<Rightarrow> control) \<Rightarrow> control" where
  "APPLY_PRIMITIVE_FROM_INTERPRETER p primitive i k =
    (let i = on_regs (\<lambda>m. m\<lparr>Free_primitive := Free m\<rparr>) (i\<lparr>primitive_register := primitive\<rparr>) in
     case fetch (Primitive_Procedure_Table (tables p)) (unat (PRIMITIVE_NUMBER primitive)) of
       None \<Rightarrow> No_Result
     | Some procedure \<Rightarrow>
         (case call p procedure i of
            None \<Rightarrow> No_Result
          | Some (Prim_Stop e) \<Rightarrow> Stop e
          | Some (Prim_Throw code i) \<Rightarrow> interpret_dispatch p code i
          | Some (Prim_Value v i) \<Rightarrow>
              k (on_regs (\<lambda>m. m\<lparr>Free_primitive := 0\<rparr>) ((SET_VAL v i)\<lparr>primitive_register := SHARP_F\<rparr>))))"

definition apply_primitive_object :: "primitive_code \<Rightarrow> scheme_object \<Rightarrow> interpreter \<Rightarrow> control" where
  "apply_primitive_object p function i =
    (case (IMPLEMENTED_PRIMITIVE_P function (tables p), PRIMITIVE_ARITY function (tables p)) of
       (Some implemented, Some arity) \<Rightarrow>
         let n_args = APPLY_FRAME_N_ARGS i in
         if \<not> implemented then APPLICATION_ERROR ERR_UNIMPLEMENTED_PRIMITIVE i
         else if int n_args \<noteq> arity \<and> arity \<noteq> LEXPR_PRIMITIVE_ARITY then APPLICATION_ERROR ERR_WRONG_NUMBER_OF_ARGUMENTS i
         else
           let i = (if int n_args \<noteq> arity then i\<lparr>lexpr_actuals := n_args\<rparr> else i);
               i = SET_EXP function (drop_stack 2 i)
           in APPLY_PRIMITIVE_FROM_INTERPRETER p function i (\<lambda>i. Goto Pop_Return (drop_stack n_args i))
     | _ \<Rightarrow> No_Result)"

definition perform_application :: "primitive_code \<Rightarrow> interpreter \<Rightarrow> control" where
  "perform_application p i =
    (let function = APPLY_FRAME_PROCEDURE i; type = OBJECT_TYPE function in
     if type = TC_ENTITY then apply_entity function i
     else if type = TC_RECORD then apply_record function i
     else if type = TC_PROCEDURE then apply_procedure function i
     else if type = TC_CONTROL_POINT then apply_control_point function i
     else if type = TC_PRIMITIVE then apply_primitive_object p function i
     else if type = TC_EXTENDED_PROCEDURE then apply_extended_procedure function i
     else APPLICATION_ERROR ERR_INAPPLICABLE_OBJECT i)"

definition apply_non_trapping :: "primitive_code \<Rightarrow> interpreter \<Rightarrow> control" where
  "apply_non_trapping p i =
    (if PENDING_INTERRUPTS (regs i) \<noteq> 0
     then SIGNAL_INTERRUPT (PENDING_INTERRUPTS (regs i)) (PREPARE_APPLY_INTERRUPT i)
     else perform_application p i)"

definition internal_apply :: "primitive_code \<Rightarrow> interpreter \<Rightarrow> control" where
  "internal_apply p i =
    (if trap_p 1 i then
       let frame_size = APPLY_FRAME_SIZE i; i = set_stack 0 (FETCH_TRAPPER 1 (regs i)) i
       in apply_non_trapping p ((PUSH_APPLY_FRAME_HEADER frame_size i)\<lparr>trapping := False\<rparr>)
     else apply_non_trapping p i)"

definition interp_step :: "primitive_code \<Rightarrow> label \<Rightarrow> interpreter \<Rightarrow> control" where
  "interp_step p l i =
    (case l of
       Do_Expression \<Rightarrow> do_expression i
     | Pop_Return \<Rightarrow> pop_return i
     | Internal_Apply_Val \<Rightarrow> internal_apply p (set_stack 1 (val_register i) i)
     | Internal_Apply \<Rightarrow> internal_apply p i
     | Apply_Non_Trapping \<Rightarrow> apply_non_trapping p i
     | Perform_Application \<Rightarrow> perform_application p i)"

text \<open>The interpreter runs until control leaves the labels.\<close>

partial_function (option) Interpret :: "primitive_code \<Rightarrow> label \<Rightarrow> interpreter \<Rightarrow> control option" where
  "Interpret p l i = (case interp_step p l i of Goto l' i' \<Rightarrow> Interpret p l' i' | r \<Rightarrow> Some r)"

end
