(* ===== verification/Interp_State.thy ===== *)
theory Interp_State
  imports Interpreter
begin

text \<open>
  The state of the interpreter as the evaluator sees it. The words of the stack and of the history are
  \<open>dirty\<close>: the interpreter changes them in ways the evaluator does not mention, so no object of the program
  may lie in them. \<open>interp_at L i0 m ws i\<close> says that \<open>i\<close> has the heap of \<open>m\<close> and the stack of \<open>i0\<close> with the words
  \<open>ws\<close> pushed, and that its history is well formed; every operation on registers, stack and
  history is shown to keep such a state.
\<close>

subsection \<open>Dirty words\<close>

record layout =
  stack_lo :: addr
  stack_hi :: addr
  vertebrae :: "addr set"
  ribs :: "addr set"

definition history_pointers :: "layout \<Rightarrow> addr set" where
  "history_pointers L = (\<Union>v \<in> vertebrae L. {v, v + 1, v + 2}) \<union> (\<lambda>r. r + 2) ` ribs L"

definition history_words :: "layout \<Rightarrow> addr set" where
  "history_words L = history_pointers L \<union> (\<Union>r \<in> ribs L. {r, r + 1})"

definition dirty :: "layout \<Rightarrow> addr set" where
  "dirty L = {stack_lo L..<stack_hi L} \<union> history_words L"

definition layout_ok :: "layout \<Rightarrow> bool" where
  "layout_ok L \<longleftrightarrow>
    {stack_lo L..<stack_hi L} \<inter> history_words L = {} \<and>
    (\<forall>r \<in> ribs L. r \<notin> history_pointers L \<and> r + 1 \<notin> history_pointers L) \<and>
    (\<forall>v \<in> vertebrae L. (\<forall>v' \<in> vertebrae L. v \<noteq> v' + 1 \<and> v \<noteq> v' + 2) \<and> (\<forall>r \<in> ribs L. v \<noteq> r + 2))"

text \<open>The history is a ring of vertebrae, each of which points to a ring of ribs.\<close>

definition history_ok :: "layout \<Rightarrow> machine \<Rightarrow> bool" where
  "history_ok L m \<longleftrightarrow>
    history_register m \<in> vertebrae L \<and>
    (\<forall>v \<in> vertebrae L. OBJECT_ADDRESS (mem m v) \<in> ribs L \<and> OBJECT_ADDRESS (mem m (v + 1)) \<in> vertebrae L \<and>
      OBJECT_ADDRESS (mem m (v + 2)) \<in> vertebrae L) \<and>
    (\<forall>r \<in> ribs L. OBJECT_ADDRESS (mem m (r + 2)) \<in> ribs L)"

definition same_heap :: "layout \<Rightarrow> machine \<Rightarrow> machine \<Rightarrow> bool" where
  "same_heap L m c \<longleftrightarrow>
    (\<forall>a. a \<notin> dirty L \<longrightarrow> mem c a = mem m a) \<and> Free c = Free m \<and> heap_start c = heap_start m \<and>
    heap_alloc_limit c = heap_alloc_limit m \<and> int_mask c = int_mask m \<and> int_code c = int_code m \<and> fixed_objects c = fixed_objects m"

text \<open>\<open>keeps L ws i0 i\<close>: the stack of \<open>i\<close> is that of \<open>i0\<close> with the words \<open>ws\<close> pushed.\<close>

definition keeps :: "layout \<Rightarrow> scheme_object list \<Rightarrow> interpreter \<Rightarrow> interpreter \<Rightarrow> bool" where
  "keeps L ws i0 i \<longleftrightarrow>
    stack_pointer (regs i) + length ws = stack_pointer (regs i0) \<and>
    (\<forall>k < length ws. mem (regs i) (stack_pointer (regs i) + k) = ws ! k) \<and>
    (\<forall>a. stack_pointer (regs i0) \<le> a \<and> a < stack_hi L \<longrightarrow> mem (regs i) a = mem (regs i0) a) \<and>
    stack_guard (regs i) = stack_guard (regs i0) \<and> \<not> trapping i \<and> nested_p i = nested_p i0 \<and> history_ok L (regs i)"

definition stack_room :: "layout \<Rightarrow> nat \<Rightarrow> interpreter \<Rightarrow> bool" where
  "stack_room L d i \<longleftrightarrow>
    stack_lo L \<le> stack_guard (regs i) \<and> stack_guard (regs i) + d \<le> stack_pointer (regs i) \<and> stack_pointer (regs i) \<le> stack_hi L"

definition interp_at :: "layout \<Rightarrow> interpreter \<Rightarrow> machine \<Rightarrow> scheme_object list \<Rightarrow> interpreter \<Rightarrow> bool" where
  "interp_at L i0 m ws i \<longleftrightarrow> keeps L ws i0 i \<and> same_heap L m (regs i)"


lemma on_regs_simps [simp]:
  "regs (on_regs f i) = f (regs i)" "val_register (on_regs f i) = val_register i" "env_register (on_regs f i) = env_register i"
  "trapping (on_regs f i) = trapping i" "nested_p (on_regs f i) = nested_p i"
  by (simp_all add: on_regs_def)

lemma interp_at_same:
  assumes "interp_at L i0 m ws i" "mem (regs i') = mem (regs i)" "Free (regs i') = Free (regs i)" "heap_start (regs i') = heap_start (regs i)"
    "heap_alloc_limit (regs i') = heap_alloc_limit (regs i)" "int_mask (regs i') = int_mask (regs i)" "int_code (regs i') = int_code (regs i)"
    "fixed_objects (regs i') = fixed_objects (regs i)" "stack_pointer (regs i') = stack_pointer (regs i)"
    "stack_guard (regs i') = stack_guard (regs i)" "history_register (regs i') = history_register (regs i)"
    "trapping i' = trapping i" "nested_p i' = nested_p i"
  shows "interp_at L i0 m ws i'"
  using assms by (simp add: interp_at_def keeps_def same_heap_def history_ok_def)

lemma interp_at_registers:
  assumes "interp_at L i0 m ws i"
  shows "interp_at L i0 m ws (SET_EXP w i)" "interp_at L i0 m ws (SET_RET w i)" "interp_at L i0 m ws (SET_RC c i)"
    "interp_at L i0 m ws (SET_VAL w i)" "interp_at L i0 m ws (SET_ENV w i)" "interp_at L i0 m ws (i\<lparr>primitive_register := w\<rparr>)"
    "interp_at L i0 m ws (on_regs (\<lambda>m. m\<lparr>Free_primitive := f m\<rparr>) i)"
  by (rule interp_at_same [OF assms]; simp add: SET_EXP_def SET_RET_def SET_RC_def SET_VAL_def SET_ENV_def)+

lemma store_word_control [simp]:
  "history_register (store_word a w m) = history_register m" "stack_guard (store_word a w m) = stack_guard m"
  "exp_register (store_word a w m) = exp_register m" "ret_register (store_word a w m) = ret_register m"
  by (simp_all add: store_word_def mem_write_def)

lemma history_ok_same:
  assumes "history_ok L c" "\<And>a. a \<in> history_pointers L \<Longrightarrow> OBJECT_ADDRESS (mem c' a) = OBJECT_ADDRESS (mem c a)"
    "history_register c' \<in> vertebrae L"
  shows "history_ok L c'"
proof -
  have "OBJECT_ADDRESS (mem c' v) = OBJECT_ADDRESS (mem c v)" "OBJECT_ADDRESS (mem c' (v + 1)) = OBJECT_ADDRESS (mem c (v + 1))"
    "OBJECT_ADDRESS (mem c' (v + 2)) = OBJECT_ADDRESS (mem c (v + 2))" if "v \<in> vertebrae L" for v
    using assms(2) that unfolding history_pointers_def by blast+
  moreover have "OBJECT_ADDRESS (mem c' (r + 2)) = OBJECT_ADDRESS (mem c (r + 2))" if "r \<in> ribs L" for r
    using assms(2) that unfolding history_pointers_def by blast
  ultimately show ?thesis using assms(1,3) by (simp add: history_ok_def)
qed

lemma stack_not_history: "\<lbrakk>layout_ok L; a \<in> {stack_lo L..<stack_hi L}; b \<in> history_words L\<rbrakk> \<Longrightarrow> b \<noteq> a"
  by (auto simp: layout_ok_def)

lemma pointers_are_words: "a \<in> history_pointers L \<Longrightarrow> a \<in> history_words L"
  by (simp add: history_words_def)

lemma push_registers:
  "stack_pointer (regs (push w i)) = stack_pointer (regs i) - 1" "stack_guard (regs (push w i)) = stack_guard (regs i)"
  "Free (regs (push w i)) = Free (regs i)" "heap_start (regs (push w i)) = heap_start (regs i)"
  "heap_alloc_limit (regs (push w i)) = heap_alloc_limit (regs i)" "int_mask (regs (push w i)) = int_mask (regs i)"
  "int_code (regs (push w i)) = int_code (regs i)" "fixed_objects (regs (push w i)) = fixed_objects (regs i)"
  "history_register (regs (push w i)) = history_register (regs i)" "trapping (push w i) = trapping i" "nested_p (push w i) = nested_p i"
  "GET_EXP (push w i) = GET_EXP i" "GET_RET (push w i) = GET_RET i" "val_register (push w i) = val_register i" "env_register (push w i) = env_register i"
  by (simp_all add: push_def STACK_PUSH_def GET_EXP_def GET_RET_def)

lemma interp_at_push:
  assumes ok: "layout_ok L" and i: "interp_at L i0 m ws i" and room: "stack_room L (length ws + 1) i0"
  shows "interp_at L i0 m (w # ws) (push w i)"
proof -
  define sp where "sp = stack_pointer (regs i)"
  have sp: "stack_lo L < sp" "sp + length ws = stack_pointer (regs i0)" "stack_pointer (regs i0) \<le> stack_hi L"
    using i room by (auto simp: interp_at_def keeps_def stack_room_def sp_def)
  then have stack: "sp - 1 \<in> {stack_lo L..<stack_hi L}" "sp - 1 \<in> dirty L" by (auto simp: dirty_def)
  have mem': "mem (regs (push w i)) = (mem (regs i))(sp - 1 := w)" by (simp add: push_def sp_def)
  have "history_ok L (regs (push w i))"
  proof (rule history_ok_same)
    show "history_ok L (regs i)" using i by (simp add: interp_at_def keeps_def)
    then show "history_register (regs (push w i)) \<in> vertebrae L" by (simp add: history_ok_def push_registers)
  qed (use ok stack in \<open>simp add: mem' stack_not_history pointers_are_words\<close>)
  moreover have "mem (regs (push w i)) (sp - 1 + k) = (w # ws) ! k" if "k < length (w # ws)" for k
    using that i sp by (cases k) (auto simp: mem' interp_at_def keeps_def sp_def)
  ultimately show ?thesis
    using i sp stack by (simp add: interp_at_def keeps_def same_heap_def push_registers) (auto simp: mem' sp_def)
qed

lemma interp_at_drop:
  assumes "interp_at L i0 m (vs @ ws) i" "n = length vs"
  shows "interp_at L i0 m ws (drop_stack n i)"
proof -
  have "mem (regs i) (stack_pointer (regs i) + length vs + k) = ws ! k" if "k < length ws" for k
    using assms(1) that by (auto simp: interp_at_def keeps_def add.assoc nth_append dest: spec [of _ "length vs + k"])
  with assms show ?thesis by (simp add: interp_at_def keeps_def same_heap_def drop_stack_def history_ok_def)
qed

lemma interp_at_ref: "\<lbrakk>interp_at L i0 m ws i; k < length ws\<rbrakk> \<Longrightarrow> STACK_REF k i = ws ! k"
  by (simp add: interp_at_def keeps_def STACK_REF_def STACK_LOC_def)

lemma interp_at_set:
  assumes ok: "layout_ok L" and i: "interp_at L i0 m ws i" and n: "n < length ws" and room: "stack_room L (length ws) i0"
  shows "interp_at L i0 m (ws[n := w]) (set_stack n w i)"
proof -
  define a where "a = stack_pointer (regs i) + n"
  have sp: "stack_lo L \<le> stack_pointer (regs i)" "stack_pointer (regs i) + length ws = stack_pointer (regs i0)" "stack_pointer (regs i0) \<le> stack_hi L"
    using i room by (auto simp: interp_at_def keeps_def stack_room_def)
  then have stack: "a \<in> {stack_lo L..<stack_hi L}" "a \<in> dirty L" using n by (auto simp: dirty_def a_def)
  have mem': "mem (regs (set_stack n w i)) = (mem (regs i))(a := w)" by (simp add: set_stack_def STACK_LOC_def a_def)
  have "history_ok L (regs (set_stack n w i))"
  proof (rule history_ok_same)
    show "history_ok L (regs i)" using i by (simp add: interp_at_def keeps_def)
    then show "history_register (regs (set_stack n w i)) \<in> vertebrae L" by (simp add: history_ok_def set_stack_def)
  qed (use ok stack in \<open>simp add: mem' stack_not_history pointers_are_words\<close>)
  then show ?thesis
    using i n sp stack
    by (auto simp: interp_at_def keeps_def same_heap_def mem' a_def nth_list_update) (auto simp: set_stack_def)
qed

lemma interp_at_trans:
  assumes "interp_at L i0 m ws i" "interp_at L i m' [] i'" "stack_room L (length ws) i0"
  shows "interp_at L i0 m' ws i'"
  using assms by (auto simp: interp_at_def keeps_def stack_room_def)

lemma stack_room_pushed:
  "\<lbrakk>interp_at L i0 m ws i; stack_room L (length ws + d) i0\<rbrakk> \<Longrightarrow> stack_room L d i"
  by (auto simp: interp_at_def keeps_def stack_room_def)

lemma stack_room_mono: "\<lbrakk>stack_room L d i; d' \<le> d\<rbrakk> \<Longrightarrow> stack_room L d' i"
  by (auto simp: stack_room_def)

subsection \<open>The history\<close>

lemma mark_address [simp]: "OBJECT_ADDRESS (w OR HISTORY_MARK_MASK) = OBJECT_ADDRESS w" "OBJECT_ADDRESS (w AND NOT HISTORY_MARK_MASK) = OBJECT_ADDRESS w"
proof -
  have "bit HISTORY_MARK_MASK n = False" if "n < 58" for n
    using that by (simp add: HISTORY_MARK_MASK_def bit_push_bit_iff DATUM_LENGTH_def)
  then show "OBJECT_ADDRESS (w OR HISTORY_MARK_MASK) = OBJECT_ADDRESS w" "OBJECT_ADDRESS (w AND NOT HISTORY_MARK_MASK) = OBJECT_ADDRESS w"
    unfolding OBJECT_ADDRESS_def by (auto intro!: arg_cong [where f = unat] bit_word_eqI simp: OBJECT_DATUM_def DATUM_MASK_mask bit_simps)
qed

text \<open>\<open>history_step L c c'\<close>: only words of the history differ, and it is still well formed.\<close>

definition history_step :: "layout \<Rightarrow> machine \<Rightarrow> machine \<Rightarrow> bool" where
  "history_step L c c' \<longleftrightarrow> history_ok L c' \<and> (\<forall>a. a \<notin> history_words L \<longrightarrow> mem c' a = mem c a) \<and>
    stack_pointer c' = stack_pointer c \<and> stack_guard c' = stack_guard c \<and> Free c' = Free c \<and> heap_start c' = heap_start c \<and>
    heap_alloc_limit c' = heap_alloc_limit c \<and> int_mask c' = int_mask c \<and> int_code c' = int_code c \<and> fixed_objects c' = fixed_objects c \<and>
    exp_register c' = exp_register c \<and> ret_register c' = ret_register c"

lemma history_step_trans: "\<lbrakk>history_step L c c'; history_step L c' c''\<rbrakk> \<Longrightarrow> history_step L c c''"
  by (simp add: history_step_def)

lemma history_step_refl: "history_ok L c \<Longrightarrow> history_step L c c"
  by (simp add: history_step_def)

lemma history_step_word:
  assumes "history_ok L c" "a \<in> history_words L" "a \<in> history_pointers L \<Longrightarrow> OBJECT_ADDRESS w = OBJECT_ADDRESS (mem c a)"
  shows "history_step L c (store_word a w c)"
proof -
  have "history_ok L (store_word a w c)"
    by (rule history_ok_same [OF assms(1)]) (use assms in \<open>auto simp: history_ok_def\<close>)
  then show ?thesis using assms(2) by (auto simp: history_step_def)
qed

lemma history_step_mark:
  assumes "history_ok L c" "a \<in> history_pointers L"
  shows "history_step L c (HISTORY_MARK a c)" "history_step L c (HISTORY_UNMARK a c)"
  using assms by (simp_all add: HISTORY_MARK_def HISTORY_UNMARK_def history_step_word pointers_are_words)

lemma history_step_register:
  "\<lbrakk>history_ok L c; v \<in> vertebrae L\<rbrakk> \<Longrightarrow> history_step L c (c\<lparr>history_register := v\<rparr>)"
  by (simp add: history_step_def history_ok_def)

lemma history_step_write_rib:
  assumes "layout_ok L" "history_ok L c" "r \<in> ribs L"
  shows "history_step L c (write_rib r x y c)"
proof -
  have words: "r \<in> history_words L" "r + 1 \<in> history_words L" using assms(3) by (auto simp: history_words_def)
  have other: "r \<notin> history_pointers L" "r + 1 \<notin> history_pointers L" using assms(1,3) by (auto simp: layout_ok_def)
  have 1: "history_step L c (store_word (r + 1) y c)" using assms words other by (intro history_step_word) auto
  then have "history_step L (store_word (r + 1) y c) (store_word r x (store_word (r + 1) y c))"
    using words other by (intro history_step_word) (auto simp: history_step_def)
  with 1 show ?thesis unfolding write_rib_def RIB_EXP_def RIB_ENV_def by (simp add: history_step_trans)
qed

lemma history_step_vertebra:
  assumes ok: "layout_ok L" and c: "history_ok L c" and v: "v \<in> vertebrae L" and r: "OBJECT_ADDRESS w \<in> ribs L"
  shows "history_step L c (store_word v w c)"
proof -
  have "v \<noteq> v' + 1" "v \<noteq> v' + 2" if "v' \<in> vertebrae L" for v' using ok v that by (auto simp: layout_ok_def)
  moreover have "v \<noteq> r' + 2" if "r' \<in> ribs L" for r' using ok v that by (auto simp: layout_ok_def)
  ultimately have "history_ok L (store_word v w c)" using c r by (force simp: history_ok_def)
  moreover have "v \<in> history_words L" using v by (auto simp: history_words_def history_pointers_def)
  ultimately show ?thesis by (auto simp: history_step_def)
qed

lemma history_pointer_intros:
  "v \<in> vertebrae L \<Longrightarrow> v + 1 \<in> history_pointers L" "r \<in> ribs L \<Longrightarrow> r + 2 \<in> history_pointers L"
  by (auto simp: history_pointers_def)

lemma history_ok_links:
  assumes "history_ok L c"
  shows "history_register c \<in> vertebrae L" "v \<in> vertebrae L \<Longrightarrow> OBJECT_ADDRESS (mem c v) \<in> ribs L"
    "v \<in> vertebrae L \<Longrightarrow> OBJECT_ADDRESS (mem c (v + 1)) \<in> vertebrae L" "v \<in> vertebrae L \<Longrightarrow> OBJECT_ADDRESS (mem c (v + 2)) \<in> vertebrae L"
    "r \<in> ribs L \<Longrightarrow> OBJECT_ADDRESS (mem c (r + 2)) \<in> ribs L"
  using assms by (simp_all add: history_ok_def)

lemma history_step_ok: "history_step L c c' \<Longrightarrow> history_ok L c'"
  by (simp add: history_step_def)

lemma history_step_mark_and_write:
  assumes ok: "layout_ok L" and c: "history_ok L c" and r: "r \<in> ribs L"
  shows "history_step L c (write_rib r x y (HISTORY_MARK (r + 2) c))"
  using history_step_mark(1) [OF c history_pointer_intros(2) [OF r]] history_step_write_rib [OF ok _ r]
  by (blast intro: history_step_trans history_step_ok)

lemma reuse_subproblem_step:
  assumes ok: "layout_ok L" and c: "history_ok L c"
  shows "history_step L c (reuse_subproblem x y c)"
  using history_step_mark_and_write [OF ok c history_ok_links(2) [OF c history_ok_links(1) [OF c]]]
  by (simp add: reuse_subproblem_def HIST_RIB_def RIB_MARK_def Let_def)

lemma new_subproblem_step:
  assumes ok: "layout_ok L" and c: "history_ok L c"
  shows "history_step L c (new_subproblem x y c)"
proof -
  define v where "v = OBJECT_ADDRESS (mem c (history_register c + 1))"
  define c1 where "c1 = c\<lparr>history_register := v\<rparr>"
  define c2 where "c2 = HISTORY_MARK (v + 1) c1"
  have v: "v \<in> vertebrae L" using history_ok_links(1,3) [OF c] by (simp add: v_def)
  have 1: "history_step L c c1" using history_step_register [OF c v] by (simp add: c1_def)
  have 2: "history_step L c1 c2" using history_step_mark(1) [OF history_step_ok [OF 1] history_pointer_intros(1) [OF v]] by (simp add: c2_def)
  have r: "OBJECT_ADDRESS (mem c2 v) \<in> ribs L" using history_ok_links(2) [OF history_step_ok [OF 2] v] .
  have "history_step L c (write_rib (OBJECT_ADDRESS (mem c2 v)) x y (HISTORY_MARK (OBJECT_ADDRESS (mem c2 v) + 2) c2))"
    using history_step_trans [OF history_step_trans [OF 1 2] history_step_mark_and_write [OF ok history_step_ok [OF 2] r]] .
  moreover have "history_register (HISTORY_MARK a c') = history_register c'" for a c' by (simp add: HISTORY_MARK_def)
  ultimately show ?thesis
    by (simp add: new_subproblem_def HIST_RIB_def HIST_NEXT_SUBPROBLEM_def HIST_MARK_def RIB_MARK_def Let_def c2_def c1_def v_def)
qed

lemma new_reduction_step:
  assumes ok: "layout_ok L" and c: "history_ok L c"
  shows "history_step L c (new_reduction x y c)"
proof -
  define r where "r = OBJECT_ADDRESS (mem c (OBJECT_ADDRESS (mem c (history_register c)) + 2))"
  define c1 where "c1 = store_word (history_register c) (MAKE_POINTER_OBJECT UNMARKED_HISTORY_TYPE r) c"
  have r: "r \<in> ribs L" using history_ok_links [OF c] by (simp add: r_def)
  have less: "r < 2 ^ 58" unfolding r_def by (rule OBJECT_ADDRESS_less)
  have 1: "history_step L c c1" unfolding c1_def
    using history_step_vertebra [OF ok c history_ok_links(1) [OF c]] r OBJECT_ADDRESS_MAKE_POINTER [OF less] by (simp add: UNMARKED_HISTORY_TYPE_def TC_HUNK3_A_def)
  have 2: "history_step L c1 (write_rib r x y c1)" by (rule history_step_write_rib [OF ok history_step_ok [OF 1] r])
  show ?thesis
    using history_step_trans [OF history_step_trans [OF 1 2] history_step_mark(2) [OF history_step_ok [OF 2] history_pointer_intros(2) [OF r]]]
    by (simp add: new_reduction_def HIST_RIB_def RIB_NEXT_REDUCTION_def RIB_MARK_def MEMORY_REF_def MEMORY_LOC_def c1_def r_def Let_def)
qed

lemma end_subproblem_step:
  assumes c: "history_ok L c"
  shows "history_step L c (end_subproblem c)"
proof -
  have 1: "history_step L c (HISTORY_UNMARK (history_register c + 1) c)"
    using history_step_mark(2) [OF c history_pointer_intros(1) [OF history_ok_links(1) [OF c]]] .
  have "history_register (HISTORY_UNMARK (history_register c + 1) c) = history_register c" by (simp add: HISTORY_UNMARK_def)
  with history_step_trans [OF 1 history_step_register [OF history_step_ok [OF 1] history_ok_links(4) [OF history_step_ok [OF 1] history_ok_links(1) [OF c]]]]
  show ?thesis by (simp add: end_subproblem_def HIST_MARK_def HIST_PREV_SUBPROBLEM_def Let_def)
qed

lemma interp_at_history:
  assumes ok: "layout_ok L" and i: "interp_at L i0 m ws i" and room: "stack_room L (length ws) i0" and h: "history_step L (regs i) (f (regs i))"
  shows "interp_at L i0 m ws (on_regs f i)"
proof -
  have stack: "mem (f (regs i)) a = mem (regs i) a" if "stack_pointer (regs i) \<le> a" "a < stack_hi L" for a
    using that i room h ok stack_not_history [of L a a] by (force simp: history_step_def interp_at_def keeps_def stack_room_def)
  have "mem (f (regs i)) (stack_pointer (regs i) + k) = ws ! k" if "k < length ws" for k
    using that stack [of "stack_pointer (regs i) + k"] i room by (simp add: interp_at_def keeps_def stack_room_def)
  moreover have "mem (f (regs i)) a = mem (regs i) a" if "a \<notin> dirty L" for a using h that by (simp add: history_step_def dirty_def)
  ultimately show ?thesis using i h stack by (simp add: interp_at_def keeps_def same_heap_def history_step_def)
qed

lemma interp_at_history_ok: "interp_at L i0 m ws i \<Longrightarrow> history_ok L (regs i)"
  by (simp add: interp_at_def keeps_def)

lemma interp_at_history_operations:
  assumes "layout_ok L" "interp_at L i0 m ws i" "stack_room L (length ws) i0"
  shows "interp_at L i0 m ws (on_regs (new_subproblem x y) i)" "interp_at L i0 m ws (on_regs (reuse_subproblem x y) i)"
    "interp_at L i0 m ws (on_regs (new_reduction x y) i)" "interp_at L i0 m ws (on_regs end_subproblem i)"
  by (rule interp_at_history [OF assms],
      rule new_subproblem_step reuse_subproblem_step new_reduction_step end_subproblem_step;
      (rule assms(1) interp_at_history_ok [OF assms(2)])+)+

end
