(* ===== verification/Interp_Steps.thy ===== *)
theory Interp_Steps
  imports Interp_State
begin

text \<open>
  The jumps of the interpreter: how the macros that push and restore continuations, start subproblems and
  reduce to another expression change the state that \<open>interp_at\<close> describes, and which
  code each type of expression and each return code is dispatched to.
\<close>

subsection \<open>Registers\<close>

lemma register_simps [simp]:
  "GET_EXP (SET_EXP w i) = w" "GET_RET (SET_EXP w i) = GET_RET i" "val_register (SET_EXP w i) = val_register i" "env_register (SET_EXP w i) = env_register i"
  "GET_EXP (SET_RET w i) = GET_EXP i" "GET_RET (SET_RET w i) = w" "val_register (SET_RET w i) = val_register i" "env_register (SET_RET w i) = env_register i"
  "GET_EXP (SET_VAL w i) = GET_EXP i" "GET_RET (SET_VAL w i) = GET_RET i" "val_register (SET_VAL w i) = w" "env_register (SET_VAL w i) = env_register i"
  "GET_EXP (SET_ENV w i) = GET_EXP i" "GET_RET (SET_ENV w i) = GET_RET i" "val_register (SET_ENV w i) = val_register i" "env_register (SET_ENV w i) = w"
  "GET_EXP (SET_RC c i) = GET_EXP i" "GET_RET (SET_RC c i) = MAKE_RETURN_CODE c" "val_register (SET_RC c i) = val_register i" "env_register (SET_RC c i) = env_register i"
  "GET_EXP (drop_stack n i) = GET_EXP i" "GET_RET (drop_stack n i) = GET_RET i" "val_register (drop_stack n i) = val_register i" "env_register (drop_stack n i) = env_register i"
  "GET_EXP (set_stack n w i) = GET_EXP i" "val_register (set_stack n w i) = val_register i" "env_register (set_stack n w i) = env_register i"
  by (simp_all add: SET_EXP_def SET_RET_def SET_RC_def SET_VAL_def SET_ENV_def GET_EXP_def GET_RET_def drop_stack_def set_stack_def)

lemma stack_ref_registers [simp]: "STACK_REF n (SET_RET w i) = STACK_REF n i" "STACK_REF n (SET_EXP w i) = STACK_REF n i" "STACK_REF n (SET_VAL w i) = STACK_REF n i"
  "STACK_REF n (SET_ENV w i) = STACK_REF n i"
  by (simp_all add: STACK_REF_def STACK_LOC_def SET_RET_def SET_EXP_def SET_VAL_def SET_ENV_def)

lemma history_exp [simp]:
  "exp_register (new_subproblem x y m) = exp_register m" "exp_register (reuse_subproblem x y m) = exp_register m"
  "exp_register (new_reduction x y m) = exp_register m" "exp_register (end_subproblem m) = exp_register m"
  by (simp_all add: new_subproblem_def reuse_subproblem_def new_reduction_def end_subproblem_def write_rib_def HISTORY_MARK_def HISTORY_UNMARK_def Let_def)

lemma history_GET_EXP [simp]:
  "GET_EXP (on_regs (new_subproblem x y) i) = GET_EXP i" "GET_EXP (on_regs (reuse_subproblem x y) i) = GET_EXP i"
  "GET_EXP (on_regs (new_reduction x y) i) = GET_EXP i" "GET_EXP (on_regs end_subproblem i) = GET_EXP i"
  by (simp_all add: GET_EXP_def)

lemma interp_at_self: "interp_at L i0 m ws i \<Longrightarrow> interp_at L i m [] i"
  by (simp add: interp_at_def keeps_def)

lemma interp_at_read:
  "\<lbrakk>interp_at L i0 m ws i; MEMORY_LOC w n \<notin> dirty L\<rbrakk> \<Longrightarrow> MEMORY_REF w n (regs i) = MEMORY_REF w n m"
  by (simp add: interp_at_def same_heap_def MEMORY_REF_def)

lemma Will_Push_room: "stack_room L n i \<Longrightarrow> Will_Push n i k = k i"
  by (simp add: Will_Push_def STACK_CHECK_def CAN_PUSH_P_def stack_room_def machine_return_def)

subsection \<open>Jumps\<close>

inductive runs :: "primitive_code \<Rightarrow> label \<Rightarrow> interpreter \<Rightarrow> label \<Rightarrow> interpreter \<Rightarrow> bool" for p where
  runs_refl: "runs p l i l i"
| runs_step: "\<lbrakk>interp_step p l i = Goto l1 i1; runs p l1 i1 l' i'\<rbrakk> \<Longrightarrow> runs p l i l' i'"

lemma runs_trans: "\<lbrakk>runs p l i l1 i1; runs p l1 i1 l2 i2\<rbrakk> \<Longrightarrow> runs p l i l2 i2"
  by (induction rule: runs.induct) (auto intro: runs_step)

lemma do_expression_runs: "\<lbrakk>do_expression i = Goto l j; runs p l j l' i'\<rbrakk> \<Longrightarrow> runs p Do_Expression i l' i'"
  by (rule runs_step) (simp_all add: interp_step_def)

lemma pop_return_runs: "\<lbrakk>pop_return i = Goto l j; runs p l j l' i'\<rbrakk> \<Longrightarrow> runs p Pop_Return i l' i'"
  by (rule runs_step) (simp_all add: interp_step_def)

lemma Interpret_runs: "runs p l i l' i' \<Longrightarrow> Interpret p l i = Interpret p l' i'"
proof (induction rule: runs.induct)
  case (runs_step l i l1 i1 l' i')
  then show ?case by (subst Interpret.simps) simp
qed simp

lemma save_cont_at:
  assumes "layout_ok L" "interp_at L i0 m ws i" "stack_room L (length ws + 2) i0"
  shows "interp_at L i0 m (GET_RET i # GET_EXP i # ws) (save_cont i)"
proof -
  have "save_cont i = push (GET_RET i) (push (GET_EXP i) i)"
    by (simp add: save_cont_def SAVE_CONT_def push_def on_regs_def GET_RET_def GET_EXP_def)
  moreover have "stack_room L (length ws + 1) i0" "stack_room L (length (GET_EXP i # ws) + 1) i0"
    using assms(3) by (auto intro: stack_room_mono)
  ultimately show ?thesis using assms by (simp add: interp_at_push)
qed

lemma save_cont_registers [simp]: "GET_EXP (save_cont i) = GET_EXP i" "val_register (save_cont i) = val_register i" "env_register (save_cont i) = env_register i"
  by (simp_all add: save_cont_def SAVE_CONT_def GET_EXP_def STACK_PUSH_def)

lemma reduces_to_at:
  assumes "layout_ok L" "interp_at L i0 m ws i" "stack_room L (length ws) i0"
  shows "\<exists>i'. REDUCES_TO x i = Goto Do_Expression i' \<and> interp_at L i0 m ws i' \<and> GET_EXP i' = x \<and> env_register i' = env_register i"
proof -
  have 1: "interp_at L i0 m ws (SET_EXP x i)" using assms(2) by (rule interp_at_registers)
  with assms show ?thesis
    by (auto simp: REDUCES_TO_def Let_def intro!: interp_at_history_operations)
qed

text \<open>A subproblem: the continuation is pushed and a component of the expression evaluated.\<close>

lemma subproblem_at:
  assumes ok: "layout_ok L" and i: "interp_at L i0 m ws i" and room: "stack_room L (length ws + 2) i0" and clean: "MEMORY_LOC (GET_EXP i) n \<notin> dirty L"
  shows "\<exists>i'. DO_NTH_THEN rc n i = Goto Do_Expression i' \<and> interp_at L i0 m (MAKE_RETURN_CODE rc # GET_EXP i # ws) i' \<and>
      GET_EXP i' = MEMORY_REF (GET_EXP i) n m \<and> env_register i' = env_register i"
    and "\<exists>i'. DO_ANOTHER_THEN rc n i = Goto Do_Expression i' \<and> interp_at L i0 m (MAKE_RETURN_CODE rc # GET_EXP i # ws) i' \<and>
      GET_EXP i' = MEMORY_REF (GET_EXP i) n m \<and> env_register i' = env_register i"
proof -
  let ?i = "save_cont (SET_RC rc i)"
  have 1: "interp_at L i0 m (MAKE_RETURN_CODE rc # GET_EXP i # ws) ?i"
    using save_cont_at [OF ok interp_at_registers(3) [OF i] room] by simp
  have x: "exp_ref n ?i = MEMORY_REF (GET_EXP i) n m" using interp_at_read [OF 1 clean] by (simp add: exp_ref_def)
  note 2 = interp_at_registers(1) [OF 1, of "exp_ref n ?i"]
  have "stack_room L (length (MAKE_RETURN_CODE rc # GET_EXP i # ws)) i0" using room by simp
  note 3 = interp_at_history_operations(1,2) [OF ok 2 this]
  show "\<exists>i'. DO_NTH_THEN rc n i = Goto Do_Expression i' \<and> interp_at L i0 m (MAKE_RETURN_CODE rc # GET_EXP i # ws) i' \<and>
      GET_EXP i' = MEMORY_REF (GET_EXP i) n m \<and> env_register i' = env_register i"
    unfolding DO_NTH_THEN_def Let_def
    by (intro exI conjI, rule refl, rule 3(1)) (simp_all add: x)
  show "\<exists>i'. DO_ANOTHER_THEN rc n i = Goto Do_Expression i' \<and> interp_at L i0 m (MAKE_RETURN_CODE rc # GET_EXP i # ws) i' \<and>
      GET_EXP i' = MEMORY_REF (GET_EXP i) n m \<and> env_register i' = env_register i"
    unfolding DO_ANOTHER_THEN_def Let_def
    by (intro exI conjI, rule refl, rule 3(2)) (simp_all add: x)
qed

lemma restore_cont_at:
  assumes "interp_at L i0 m (ret # x # ws) i"
  shows "interp_at L i0 m ws (RESTORE_CONT i)" "GET_RET (RESTORE_CONT i) = ret" "GET_EXP (RESTORE_CONT i) = x"
    "val_register (RESTORE_CONT i) = val_register i"
proof -
  have r: "STACK_REF 0 i = ret" "STACK_REF (Suc 0) i = x" using interp_at_ref [OF assms] by simp_all
  have "interp_at L i0 m ([ret, x] @ ws) (SET_EXP x (SET_RET ret i))" using assms by (simp add: interp_at_registers)
  from interp_at_drop [OF this, of 2] show "interp_at L i0 m ws (RESTORE_CONT i)" by (simp add: RESTORE_CONT_def r)
  show "GET_RET (RESTORE_CONT i) = ret" "GET_EXP (RESTORE_CONT i) = x" "val_register (RESTORE_CONT i) = val_register i"
    by (simp_all add: RESTORE_CONT_def r)
qed

lemma pop_env_at:
  assumes "interp_at L i0 m (e # ws) i"
  shows "interp_at L i0 m ws (POP_ENV i)" "env_register (POP_ENV i) = e" "GET_EXP (POP_ENV i) = GET_EXP i" "val_register (POP_ENV i) = val_register i"
proof -
  have r: "STACK_REF 0 i = e" using interp_at_ref [OF assms, of 0] by simp
  have "interp_at L i0 m ([e] @ ws) (SET_ENV e i)" using assms by (simp add: interp_at_registers)
  from interp_at_drop [OF this, of 1] show "interp_at L i0 m ws (POP_ENV i)" by (simp add: POP_ENV_def r)
qed (use interp_at_ref [OF assms, of 0] in \<open>simp_all add: POP_ENV_def\<close>)

lemma end_subproblem_at:
  assumes "layout_ok L" "interp_at L i0 m ws i" "stack_room L (length ws) i0"
  shows "interp_at L i0 m ws (END_SUBPROBLEM i)" "env_register (END_SUBPROBLEM i) = env_register i" "GET_EXP (END_SUBPROBLEM i) = GET_EXP i"
    "val_register (END_SUBPROBLEM i) = val_register i"
  unfolding END_SUBPROBLEM_def using interp_at_history_operations(4) [OF assms]
  by (simp_all add: GET_EXP_def)

lemma push_env_at:
  assumes "layout_ok L" "interp_at L i0 m ws i" "stack_room L (length ws + 1) i0"
  shows "interp_at L i0 m (env_register i # ws) (PUSH_ENV i)" "env_register (PUSH_ENV i) = env_register i" "GET_EXP (PUSH_ENV i) = GET_EXP i"
    "val_register (PUSH_ENV i) = val_register i"
  using interp_at_push [OF assms] by (simp_all add: PUSH_ENV_def push_registers)

lemma eval_component_at:
  assumes ok: "layout_ok L" and i: "interp_at L i0 m [] i" and room: "stack_room L 3 i0" and clean: "MEMORY_LOC (GET_EXP i) n \<notin> dirty L"
  shows "\<exists>i'. eval_component rc n i = Goto Do_Expression i' \<and> interp_at L i0 m [MAKE_RETURN_CODE rc, GET_EXP i, env_register i] i' \<and>
      GET_EXP i' = MEMORY_REF (GET_EXP i) n m \<and> env_register i' = env_register i"
proof -
  have "stack_room L 3 i" using stack_room_pushed [OF i, of 3] room by simp
  then have e: "eval_component rc n i = DO_NTH_THEN rc n (PUSH_ENV i)" by (simp add: eval_component_def Will_Push_room CONTINUATION_SIZE_def)
  have "stack_room L (length ([] :: scheme_object list) + 1) i0" using room by (auto intro: stack_room_mono)
  note push = push_env_at [OF ok i this]
  have "stack_room L (length [env_register i] + 2) i0" using room by (simp add: eval_nat_numeral)
  from subproblem_at(1) [OF ok push(1) this, of n rc] clean show ?thesis by (simp add: push(2,3) e)
qed

subsection \<open>Continuations\<close>

lemma interp_at_not_trapping: "interp_at L i0 m ws i \<Longrightarrow> \<not> trapping i"
  by (simp add: interp_at_def keeps_def)

lemma return_code_datum: "n < 2 ^ 58 \<Longrightarrow> OBJECT_DATUM (MAKE_RETURN_CODE n) = n"
  by (simp add: MAKE_RETURN_CODE_def TC_RETURN_CODE_def)

lemmas return_codes = RC_END_OF_COMPUTATION_def RC_JOIN_STACKLETS_def RC_INTERNAL_APPLY_def RC_RESTORE_HISTORY_def RC_EXECUTE_ASSIGNMENT_FINISH_def
  RC_EXECUTE_DEFINITION_FINISH_def RC_EXECUTE_ACCESS_FINISH_def RC_EXECUTE_SEQUENCE_FINISH_def RC_CONDITIONAL_DECIDE_def RC_DISJUNCTION_DECIDE_def
  RC_COMB_APPLY_FUNCTION_def RC_COMB_SAVE_VALUE_def RC_SNAP_NEED_THUNK_def RC_RESTORE_VALUE_def RC_RESTORE_DONT_COPY_HISTORY_def RC_POP_RETURN_ERROR_def
  RC_EVAL_ERROR_def RC_STACK_MARKER_def RC_RESTORE_INT_MASK_def RC_HALT_def RC_HARDWARE_TRAP_def RC_INTERNAL_APPLY_VAL_def RC_NORMAL_GC_DONE_def

lemma pop_return_cases:
  assumes "interp_at L i0 m (MAKE_RETURN_CODE rc # x # ws) i"
  defines "j \<equiv> RESTORE_CONT i"
  shows "rc = RC_COMB_APPLY_FUNCTION \<Longrightarrow> pop_return i = Goto Internal_Apply_Val (END_SUBPROBLEM j)"
    "rc = RC_COMB_SAVE_VALUE \<Longrightarrow> pop_return i = return_comb_save_value j"
    "rc = RC_CONDITIONAL_DECIDE \<Longrightarrow> pop_return i =
      REDUCES_TO_NTH (if val_register i = SHARP_F then COND_ALTERNATIVE else COND_CONSEQUENT) (POP_ENV (END_SUBPROBLEM j))"
    "rc = RC_DISJUNCTION_DECIDE \<Longrightarrow> pop_return i =
      (if val_register i \<noteq> SHARP_F then Goto Pop_Return (POP_ENV (END_SUBPROBLEM j)) else REDUCES_TO_NTH OR_ALTERNATIVE (POP_ENV (END_SUBPROBLEM j)))"
    "rc = RC_EXECUTE_SEQUENCE_FINISH \<Longrightarrow> pop_return i = REDUCES_TO_NTH SEQUENCE_2 (POP_ENV (END_SUBPROBLEM j))"
    "rc = RC_EXECUTE_ACCESS_FINISH \<Longrightarrow> pop_return i = return_access j"
    "rc = RC_EXECUTE_ASSIGNMENT_FINISH \<Longrightarrow> pop_return i = return_assignment j"
    "rc = RC_EXECUTE_DEFINITION_FINISH \<Longrightarrow> pop_return i = return_definition j"
    "rc = RC_END_OF_COMPUTATION \<Longrightarrow> pop_return i = (if nested_p i then Return_To_C j else Stop Term_End_Of_Computation)"
proof -
  have v: "val_register (POP_ENV (END_SUBPROBLEM j)) = val_register i" "nested_p j = nested_p i"
    by (simp_all add: j_def POP_ENV_def END_SUBPROBLEM_def RESTORE_CONT_def)
      (simp add: drop_stack_def SET_EXP_def SET_RET_def)
  have "pop_return i = pop_return_non_trapping i" using interp_at_not_trapping [OF assms(1)] by (simp add: pop_return_def trap_p_def)
  moreover have "GET_RET j = MAKE_RETURN_CODE rc" using restore_cont_at [OF assms(1)] by (simp add: j_def)
  ultimately have e: "rc < 2 ^ 58 \<Longrightarrow> pop_return i = pop_return_non_trapping i \<and> OBJECT_DATUM (GET_RET j) = rc" by (simp add: return_code_datum)
  note d = pop_return_non_trapping_def Let_def return_codes
  show "rc = RC_COMB_APPLY_FUNCTION \<Longrightarrow> pop_return i = Goto Internal_Apply_Val (END_SUBPROBLEM j)"
    using e by (simp add: d flip: j_def)
  show "rc = RC_COMB_SAVE_VALUE \<Longrightarrow> pop_return i = return_comb_save_value j"
    using e by (simp add: d flip: j_def)
  show "rc = RC_CONDITIONAL_DECIDE \<Longrightarrow> pop_return i =
      REDUCES_TO_NTH (if val_register i = SHARP_F then COND_ALTERNATIVE else COND_CONSEQUENT) (POP_ENV (END_SUBPROBLEM j))"
    using e by (simp add: d v flip: j_def)
  show "rc = RC_DISJUNCTION_DECIDE \<Longrightarrow> pop_return i =
      (if val_register i \<noteq> SHARP_F then Goto Pop_Return (POP_ENV (END_SUBPROBLEM j)) else REDUCES_TO_NTH OR_ALTERNATIVE (POP_ENV (END_SUBPROBLEM j)))"
    using e by (simp add: d v flip: j_def)
  show "rc = RC_EXECUTE_SEQUENCE_FINISH \<Longrightarrow> pop_return i = REDUCES_TO_NTH SEQUENCE_2 (POP_ENV (END_SUBPROBLEM j))"
    using e by (simp add: d flip: j_def)
  show "rc = RC_EXECUTE_ACCESS_FINISH \<Longrightarrow> pop_return i = return_access j"
    using e by (simp add: d flip: j_def)
  show "rc = RC_EXECUTE_ASSIGNMENT_FINISH \<Longrightarrow> pop_return i = return_assignment j"
    using e by (simp add: d flip: j_def)
  show "rc = RC_EXECUTE_DEFINITION_FINISH \<Longrightarrow> pop_return i = return_definition j"
    using e by (simp add: d flip: j_def)
  show "rc = RC_END_OF_COMPUTATION \<Longrightarrow> pop_return i = (if nested_p i then Return_To_C j else Stop Term_End_Of_Computation)"
    using e by (simp add: d v flip: j_def)
qed

lemmas scode_types = TC_ACCESS_def TC_ASSIGNMENT_def TC_BROKEN_HEART_def TC_COMBINATION_def TC_COMMENT_def TC_CONDITIONAL_def TC_DEFINITION_def
  TC_DELAY_def TC_DISJUNCTION_def TC_EXTENDED_LAMBDA_def TC_LAMBDA_def TC_LEXPR_def TC_MANIFEST_NM_VECTOR_def TC_SCODE_QUOTE_def TC_SEQUENCE_def
  TC_SYNTAX_ERROR_def TC_THE_ENVIRONMENT_def TC_VARIABLE_def

lemma do_expression_untrapped: "interp_at L i0 m ws i \<Longrightarrow> do_expression i = eval_non_trapping i"
  using interp_at_not_trapping by (simp add: do_expression_def trap_p_def)

lemma do_expression_cases:
  assumes "interp_at L i0 m ws i"
  defines "type \<equiv> OBJECT_TYPE (GET_EXP i)"
  shows "type = TC_ACCESS \<Longrightarrow> do_expression i = Will_Push CONTINUATION_SIZE i (DO_NTH_THEN RC_EXECUTE_ACCESS_FINISH ACCESS_ENVIRONMENT)"
    "type = TC_ASSIGNMENT \<Longrightarrow> do_expression i = eval_component RC_EXECUTE_ASSIGNMENT_FINISH ASSIGN_VALUE i"
    "type = TC_COMBINATION \<Longrightarrow> do_expression i = eval_combination i"
    "type = TC_COMMENT \<Longrightarrow> do_expression i = REDUCES_TO_NTH COMMENT_EXPRESSION i"
    "type = TC_CONDITIONAL \<Longrightarrow> do_expression i = eval_component RC_CONDITIONAL_DECIDE COND_PREDICATE i"
    "type = TC_DEFINITION \<Longrightarrow> do_expression i = eval_component RC_EXECUTE_DEFINITION_FINISH DEFINE_VALUE i"
    "type = TC_DELAY \<Longrightarrow> do_expression i = Goto Pop_Return (make_closure TC_DELAYED (env_register i) (exp_ref DELAY_OBJECT i) i)"
    "type = TC_DISJUNCTION \<Longrightarrow> do_expression i = eval_component RC_DISJUNCTION_DECIDE OR_PREDICATE i"
    "type = TC_EXTENDED_LAMBDA \<Longrightarrow> do_expression i = Goto Pop_Return (make_closure TC_EXTENDED_PROCEDURE (GET_EXP i) (env_register i) i)"
    "type = TC_LAMBDA \<or> type = TC_LEXPR \<Longrightarrow> do_expression i = Goto Pop_Return (make_closure TC_PROCEDURE (GET_EXP i) (env_register i) i)"
    "type = TC_SCODE_QUOTE \<Longrightarrow> do_expression i = Goto Pop_Return (SET_VAL (exp_ref SCODE_QUOTE_OBJECT i) i)"
    "type = TC_SEQUENCE \<Longrightarrow> do_expression i = eval_component RC_EXECUTE_SEQUENCE_FINISH SEQUENCE_1 i"
    "type = TC_THE_ENVIRONMENT \<Longrightarrow> do_expression i = Goto Pop_Return (SET_VAL (env_register i) i)"
    "type = TC_VARIABLE \<Longrightarrow> do_expression i = eval_variable i"
  by (auto simp: do_expression_untrapped [OF assms(1)] eval_non_trapping_def scode_types simp flip: type_def)

end
