(* ===== verification/Generic_Prims.thy ===== *)
theory Generic_Prims
  imports Interp_Steps
begin

text \<open>
  Generic arithmetic (\<open>generic.c\<close>): primitives that compute with fixnums themselves and leave all other numbers
  to procedures of the runtime system, the trampolines in the vector of fixed objects. They run inside the
  interpreter: a primitive finds its arguments on the stack, and to call a trampoline it pushes it and a frame
  header over them and aborts to the interpreter. The sum of two fixnums may be a bignum, which is allocated in
  the heap (\<open>allocate_non_marked_vector\<close> of vector.c).
\<close>

subsection \<open>Integers in the heap\<close>

text \<open>
  The words of a bignum are its header and its digits. \<open>bignum_to_heap\<close> is \<open>bignum_from_digits\<close> on the heap: the vector is allocated
  and its words are written into it.
\<close>

definition bignum_words :: "bignum \<Rightarrow> scheme_object list" where
  "bignum_words b = BIGNUM_SET_HEADER (of_nat (BIGNUM_LENGTH b)) (BIGNUM_NEGATIVE_P b) # map word_of_int (BIGNUM_DIGITS b)"

primrec store_words :: "addr \<Rightarrow> scheme_object list \<Rightarrow> machine \<Rightarrow> machine" where
  "store_words a [] m = m"
| "store_words a (w # ws) m = store_words (a + 1) ws (store_word a w m)"

definition bignum_to_heap :: "bignum \<Rightarrow> machine \<Rightarrow> scheme_object heap_prim" where
  "bignum_to_heap b m =
    heap_bind (allocate_non_marked_vector TC_BIG_FIXNUM (length (bignum_words b)) True m) (\<lambda>result m.
      (Inr result, store_words (OBJECT_ADDRESS result + 1) (bignum_words b) m))"

text \<open>\<open>return (long_to_integer (n))\<close>.\<close>

definition return_long :: "long \<Rightarrow> interpreter \<Rightarrow> prim_result option" where
  "return_long n i =
    (case long_to_integer n of
       Some (Immediate w) \<Rightarrow> Some (Prim_Value w i)
     | Some (Bignum b) \<Rightarrow>
         (case bignum_to_heap b (regs i) of
            (Inr w, m) \<Rightarrow> Some (Prim_Value w (i\<lparr>regs := m\<rparr>))
          | (Inl Prim_Interrupt, m) \<Rightarrow> Some (Prim_Throw Abort_Interrupt (i\<lparr>regs := m\<rparr>))
          | (Inl Undefined_Behaviour, m) \<Rightarrow> None
          | (Inl e, m) \<Rightarrow> Some (Prim_Stop (Machine_Exit Term_Exit)))
     | _ \<Rightarrow> Some (Prim_Stop (Machine_Exit Term_Exit)))"

subsection \<open>Leaving the arguments to a procedure\<close>

definition RETURN_CODE_P :: "scheme_object \<Rightarrow> bool" where
  "RETURN_CODE_P object \<longleftrightarrow> OBJECT_TYPE object = TC_RETURN_CODE"

definition canonicalize_primitive_context :: "primitive_code \<Rightarrow> interpreter \<Rightarrow> (interpreter \<Rightarrow> prim_result option) \<Rightarrow> prim_result option" where
  "canonicalize_primitive_context p i k =
    (let primitive = primitive_register i in
     if \<not> PRIMITIVE_P primitive then Some (Prim_Stop (Machine_Exit Term_Exit))
     else case PRIMITIVE_N_ARGUMENTS primitive p i of
       None \<Rightarrow> None
     | Some n_args \<Rightarrow> if \<not> RETURN_CODE_P (STACK_REF n_args i) then Some (Prim_Stop (Machine_Exit Term_Exit)) else k i)"

definition Will_Push_primitive :: "nat \<Rightarrow> interpreter \<Rightarrow> (interpreter \<Rightarrow> prim_result option) \<Rightarrow> prim_result option" where
  "Will_Push_primitive n i k =
    (case STACK_CHECK n (regs i) of
       None \<Rightarrow> None | Some (Inl e) \<Rightarrow> Some (Prim_Stop (Machine_Exit e)) | Some (Inr (_, m)) \<Rightarrow> k (i\<lparr>regs := m\<rparr>))"

definition INDIRECT :: "nat \<Rightarrow> nat \<Rightarrow> primitive_code \<Rightarrow> interpreter \<Rightarrow> prim_result option" where
  "INDIRECT slot arity p i =
    canonicalize_primitive_context p i (\<lambda>i. Will_Push_primitive (STACK_ENV_EXTRA_SLOTS + 1) i (\<lambda>i.
      let i = push (VECTOR_REF (fixed_objects (regs i)) slot (regs i)) i;
          i = PUSH_APPLY_FRAME_HEADER arity i
      in Some (Prim_Throw PRIM_APPLY i)))"

definition GENERIC_TRAMPOLINE_ZERO_P :: nat where "GENERIC_TRAMPOLINE_ZERO_P = 0x24"
definition GENERIC_TRAMPOLINE_POSITIVE_P :: nat where "GENERIC_TRAMPOLINE_POSITIVE_P = 0x25"
definition GENERIC_TRAMPOLINE_NEGATIVE_P :: nat where "GENERIC_TRAMPOLINE_NEGATIVE_P = 0x26"
definition GENERIC_TRAMPOLINE_SUCCESSOR :: nat where "GENERIC_TRAMPOLINE_SUCCESSOR = 0x27"
definition GENERIC_TRAMPOLINE_PREDECESSOR :: nat where "GENERIC_TRAMPOLINE_PREDECESSOR = 0x28"
definition GENERIC_TRAMPOLINE_EQUAL_P :: nat where "GENERIC_TRAMPOLINE_EQUAL_P = 0x29"
definition GENERIC_TRAMPOLINE_LESS_P :: nat where "GENERIC_TRAMPOLINE_LESS_P = 0x2A"
definition GENERIC_TRAMPOLINE_GREATER_P :: nat where "GENERIC_TRAMPOLINE_GREATER_P = 0x2B"
definition GENERIC_TRAMPOLINE_ADD :: nat where "GENERIC_TRAMPOLINE_ADD = 0x2C"
definition GENERIC_TRAMPOLINE_SUBTRACT :: nat where "GENERIC_TRAMPOLINE_SUBTRACT = 0x2D"
definition GENERIC_TRAMPOLINE_MULTIPLY :: nat where "GENERIC_TRAMPOLINE_MULTIPLY = 0x2E"
definition GENERIC_TRAMPOLINE_DIVIDE :: nat where "GENERIC_TRAMPOLINE_DIVIDE = 0x2F"
definition GENERIC_TRAMPOLINE_QUOTIENT :: nat where "GENERIC_TRAMPOLINE_QUOTIENT = 0x30"
definition GENERIC_TRAMPOLINE_REMAINDER :: nat where "GENERIC_TRAMPOLINE_REMAINDER = 0x31"
definition GENERIC_TRAMPOLINE_MODULO :: nat where "GENERIC_TRAMPOLINE_MODULO = 0x32"

subsection \<open>The primitives\<close>

type_synonym primitive_body = "primitive_code \<Rightarrow> interpreter \<Rightarrow> prim_result option"

definition INDIRECT_TEST_1 :: "(scheme_object \<Rightarrow> bool) \<Rightarrow> nat \<Rightarrow> primitive_body" where
  "INDIRECT_TEST_1 test slot p i =
    (let x = ARG_REF 1 (regs i) in
     if FIXNUM_P x then Some (Prim_Value (BOOLEAN_TO_OBJECT (test x)) i) else INDIRECT slot 1 p i)"

definition Prim_zero :: primitive_body where "Prim_zero = INDIRECT_TEST_1 FIXNUM_ZERO_P GENERIC_TRAMPOLINE_ZERO_P"
definition Prim_positive :: primitive_body where "Prim_positive = INDIRECT_TEST_1 FIXNUM_POSITIVE_P GENERIC_TRAMPOLINE_POSITIVE_P"
definition Prim_negative :: primitive_body where "Prim_negative = INDIRECT_TEST_1 FIXNUM_NEGATIVE_P GENERIC_TRAMPOLINE_NEGATIVE_P"

definition INDIRECT_INCREMENT :: "(long \<Rightarrow> long \<Rightarrow> long) \<Rightarrow> nat \<Rightarrow> primitive_body" where
  "INDIRECT_INCREMENT operator slot p i =
    (let x = ARG_REF 1 (regs i) in
     if FIXNUM_P x then return_long (operator (FIXNUM_TO_LONG x) 1) i else INDIRECT slot 1 p i)"

definition Prim_add_one :: primitive_body where "Prim_add_one = INDIRECT_INCREMENT (+) GENERIC_TRAMPOLINE_SUCCESSOR"
definition Prim_subtract_one :: primitive_body where "Prim_subtract_one = INDIRECT_INCREMENT (-) GENERIC_TRAMPOLINE_PREDECESSOR"

definition INDIRECT_TEST_2 :: "(scheme_object \<Rightarrow> scheme_object \<Rightarrow> bool) \<Rightarrow> nat \<Rightarrow> primitive_body" where
  "INDIRECT_TEST_2 test slot p i =
    (let x = ARG_REF 1 (regs i); y = ARG_REF 2 (regs i) in
     if FIXNUM_P x \<and> FIXNUM_P y then Some (Prim_Value (BOOLEAN_TO_OBJECT (test x y)) i) else INDIRECT slot 2 p i)"

definition FIXNUM_GREATER_P :: "scheme_object \<Rightarrow> scheme_object \<Rightarrow> bool" where "FIXNUM_GREATER_P x y = FIXNUM_LESS_P y x"

definition Prim_equal_number :: primitive_body where "Prim_equal_number = INDIRECT_TEST_2 FIXNUM_EQUAL_P GENERIC_TRAMPOLINE_EQUAL_P"
definition Prim_less :: primitive_body where "Prim_less = INDIRECT_TEST_2 FIXNUM_LESS_P GENERIC_TRAMPOLINE_LESS_P"
definition Prim_greater :: primitive_body where "Prim_greater = INDIRECT_TEST_2 FIXNUM_GREATER_P GENERIC_TRAMPOLINE_GREATER_P"

definition INDIRECT_SUM :: "(long \<Rightarrow> long \<Rightarrow> long) \<Rightarrow> nat \<Rightarrow> primitive_body" where
  "INDIRECT_SUM operator slot p i =
    (let x = ARG_REF 1 (regs i); y = ARG_REF 2 (regs i) in
     if FIXNUM_P x \<and> FIXNUM_P y then return_long (operator (FIXNUM_TO_LONG x) (FIXNUM_TO_LONG y)) i else INDIRECT slot 2 p i)"

definition Prim_add :: primitive_body where "Prim_add = INDIRECT_SUM (+) GENERIC_TRAMPOLINE_ADD"
definition Prim_subtract :: primitive_body where "Prim_subtract = INDIRECT_SUM (-) GENERIC_TRAMPOLINE_SUBTRACT"

definition INDIRECT_2 :: "nat \<Rightarrow> primitive_body" where "INDIRECT_2 slot = INDIRECT slot 2"

definition Prim_multiply :: primitive_body where "Prim_multiply = INDIRECT_2 GENERIC_TRAMPOLINE_MULTIPLY"
definition Prim_divide :: primitive_body where "Prim_divide = INDIRECT_2 GENERIC_TRAMPOLINE_DIVIDE"
definition Prim_quotient :: primitive_body where "Prim_quotient = INDIRECT_2 GENERIC_TRAMPOLINE_QUOTIENT"
definition Prim_remainder :: primitive_body where "Prim_remainder = INDIRECT_2 GENERIC_TRAMPOLINE_REMAINDER"
definition Prim_modulo :: primitive_body where "Prim_modulo = INDIRECT_2 GENERIC_TRAMPOLINE_MODULO"

subsection \<open>Bignums in the heap\<close>

lemma store_words_push: "store_words (Free m) ws (set_Free (Free m + length ws) m) = fold push_heap ws m"
proof (induction ws arbitrary: m)
  case (Cons w ws)
  have "store_word (Free m) w (set_Free (Free m + length (w # ws)) m) = set_Free (Free (push_heap w m) + length ws) (push_heap w m)"
    by (simp add: push_heap_def set_Free_def store_word_def mem_write_def)
  then show ?case using Cons.IH [of "push_heap w m"] by simp
qed (simp add: set_Free_def)

lemma bignum_to_heap_room:
  assumes "room (BIGNUM_LENGTH b + 2) m"
  shows "bignum_to_heap b m = (Inr (MAKE_POINTER_OBJECT TC_BIG_FIXNUM (Free m)),
    fold push_heap (MAKE_OBJECT TC_MANIFEST_NM_VECTOR (of_nat (BIGNUM_LENGTH b + 1)) # bignum_words b) m)"
proof -
  have l: "length (bignum_words b) = BIGNUM_LENGTH b + 1" by (simp add: bignum_words_def BIGNUM_LENGTH_def)
  have "Free m < 2 ^ 58" using assms by (simp add: room_def)
  moreover have "Primitive_GC_If_Needed (1 + length (bignum_words b)) m = (Inr (), m)"
    using assms by (intro Primitive_GC_If_Needed_room) (simp add: l)
  ultimately show ?thesis
    using store_words_push [of "push_heap (MAKE_OBJECT TC_MANIFEST_NM_VECTOR (of_nat (BIGNUM_LENGTH b + 1))) m" "bignum_words b"]
    by (simp add: bignum_to_heap_def allocate_non_marked_vector_def allocate_vector_def l TC_BIG_FIXNUM_def Let_def del: of_nat_add of_nat_Suc)
qed

text \<open>A bignum that is written to the heap is read back from it.\<close>

lemma bignum_heap_roundtrip:
  assumes "bignum_wf b" "room (BIGNUM_LENGTH b + 2) m" "bignum_to_heap b m = (Inr w, m')"
  shows "heap_object m' w = Bignum b"
proof -
  let ?n = "BIGNUM_LENGTH b"
  define ws where "ws = MAKE_OBJECT TC_MANIFEST_NM_VECTOR (of_nat (?n + 1)) # bignum_words b"
  have w: "w = MAKE_POINTER_OBJECT TC_BIG_FIXNUM (Free m)" "m' = fold push_heap ws m"
    using bignum_to_heap_room [OF assms(2)] assms(3) by (simp_all add: ws_def)
  have l: "length ws = ?n + 2" by (simp add: ws_def bignum_words_def BIGNUM_LENGTH_def)
  have f: "Free m < 2 ^ 58" using assms(2) by (simp add: room_def)
  have wf: "?n \<le> BIGNUM_LENGTH_MAX" "digits_in BIGNUM_RADIX (BIGNUM_DIGITS b)" using assms(1) by (simp_all add: bignum_wf_def digits_wf_def)
  have word: "mem m' (Free m + k) = ws ! k" if "k < ?n + 2" for k using that l by (simp add: w(2) fold_push_heap_mem)
  have header: "mem m' (Free m + 1) = BIGNUM_SET_HEADER (of_nat ?n) (BIGNUM_NEGATIVE_P b)"
    using word [of 1] by (simp add: ws_def bignum_words_def)
  have "uint (mem m' (Free m + 2 + k)) = BIGNUM_DIGITS b ! k" if "k < ?n" for k
  proof -
    have "mem m' (Free m + 2 + k) = word_of_int (BIGNUM_DIGITS b ! k)"
      using word [of "2 + k"] that by (simp add: ws_def bignum_words_def add.assoc BIGNUM_LENGTH_def)
    moreover have "0 \<le> BIGNUM_DIGITS b ! k" "BIGNUM_DIGITS b ! k < 2 ^ 62"
      using wf(2) that by (auto simp: digits_in_def BIGNUM_LENGTH_def BIGNUM_RADIX_eq BIGNUM_DIGIT_LENGTH_def)
    ultimately show ?thesis by (simp add: uint_word_of_int_ulong)
  qed
  then have "map (\<lambda>k. uint (mem m' (Free m + 2 + k))) [0..<?n] = BIGNUM_DIGITS b"
    by (intro nth_equalityI) (simp_all add: BIGNUM_LENGTH_def)
  moreover have "unat (of_nat ?n :: ulong) = ?n"
    using wf(1) by (simp add: unat_of_nat BIGNUM_LENGTH_MAX_def BIGNUM_RADIX_eq BIGNUM_DIGIT_LENGTH_def)
  ultimately show ?thesis
    using f header header_roundtrip [OF wf(1)] by (simp add: heap_object_def w(1) TC_BIG_FIXNUM_def Let_def mk_bignum_def)
qed

lemma small_bignum_length:
  assumes "bignum_wf b" "\<bar>bignum_val b\<bar> < 2 ^ 62"
  shows "BIGNUM_LENGTH b \<le> 1"
proof (rule ccontr)
  define ds where "ds = BIGNUM_DIGITS b"
  assume "\<not> BIGNUM_LENGTH b \<le> 1"
  then have ne: "ds \<noteq> []" "1 \<le> length (butlast ds)" by (auto simp: ds_def BIGNUM_LENGTH_def)
  have wf: "digits_in (2 ^ 62) ds" "last ds \<noteq> 0" using assms(1) ne(1) by (auto simp: bignum_wf_def digits_wf_def ds_def BIGNUM_RADIX_eq BIGNUM_DIGIT_LENGTH_def)
  have "digits_in (2 ^ 62) (butlast ds @ [last ds])" using wf(1) ne(1) by simp
  then have d: "digits_in (2 ^ 62) (butlast ds)" "1 \<le> last ds" using wf(2) by (auto simp: digits_in_def)
  have "rval (2 ^ 62) ds = rval (2 ^ 62) (butlast ds) + (2 ^ 62) ^ length (butlast ds) * last ds"
    using rval_append [of "2 ^ 62" "butlast ds" "[last ds]"] ne(1) by simp
  moreover have "0 \<le> rval (2 ^ 62) (butlast ds)" by (rule rval_nonneg [OF d(1)])
  moreover have "(2 ^ 62 :: int) ^ 1 * 1 \<le> (2 ^ 62) ^ length (butlast ds) * last ds"
    using ne(2) d(2) by (intro mult_mono power_increasing) simp_all
  ultimately have "(2 ^ 62) ^ 1 * 1 \<le> rval (2 ^ 62) ds" by linarith
  moreover have "\<bar>bignum_val b\<bar> = rval (2 ^ 62) ds" using bignum_abs_val [OF assms(1)] by (simp add: bignum_mag_def ds_def BIGNUM_RADIX_eq BIGNUM_DIGIT_LENGTH_def)
  ultimately show False using assms(2) by simp
qed

lemma room_mono: "\<lbrakk>room n m; k \<le> n\<rbrakk> \<Longrightarrow> room k m"
  by (auto simp: room_def GC_NEEDED_P_def HEAP_AVAILABLE_P_def)

lemma return_long_correct:
  assumes "\<bar>v\<bar> < 2 ^ 62" "room 3 (regs i)"
  shows "\<exists>w m'. return_long v i = Some (Prim_Value w (i\<lparr>regs := m'\<rparr>)) \<and> int_wf (heap_object m' w) \<and> int_val (heap_object m' w) = v \<and>
    (\<forall>a < Free (regs i). mem m' a = mem (regs i) a) \<and> stack_pointer m' = stack_pointer (regs i)"
proof -
  have "fits_long v" using assms(1) by (auto simp: fits_long_def)
  from returns_long_to_integer [OF this] obtain n where n: "long_to_integer v = Some n" "int_wf n" "int_val n = v" by (auto simp: returns_int_def)
  show ?thesis
  proof (cases n)
    case (Immediate w)
    moreover from this n(2) have "heap_object (regs i) w = Immediate w" by (simp add: heap_object_def int_wf_def FIXNUM_P_def TC_FIXNUM_def TC_BIG_FIXNUM_def)
    ultimately show ?thesis using n by (intro exI [of _ w] exI [of _ "regs i"]) (simp add: return_long_def)
  next
    case (Bignum b)
    then have b: "bignum_wf b" "BIGNUM_LENGTH b \<le> 1" using n(2,3) small_bignum_length [of b] assms(1) by (auto simp: int_wf_def int_val_def)
    have r: "room (BIGNUM_LENGTH b + 2) (regs i)" by (rule room_mono [OF assms(2)]) (use b(2) in simp)
    note h = bignum_to_heap_room [OF r]
    let ?m = "snd (bignum_to_heap b (regs i))"
    have "return_long v i = Some (Prim_Value (MAKE_POINTER_OBJECT TC_BIG_FIXNUM (Free (regs i))) (i\<lparr>regs := ?m\<rparr>))"
      using n(1) Bignum h by (simp add: return_long_def)
    moreover have "\<forall>a < Free (regs i). mem ?m a = mem (regs i) a" "stack_pointer ?m = stack_pointer (regs i)"
      unfolding h by (simp_all add: fold_push_heap_mem)
    moreover have "heap_object ?m (MAKE_POINTER_OBJECT TC_BIG_FIXNUM (Free (regs i))) = n"
      using bignum_heap_roundtrip [OF b(1) r h] Bignum by (simp add: h)
    ultimately show ?thesis using n(2,3) by metis
  qed (use n(2) in \<open>simp add: int_wf_def\<close>)
qed

subsection \<open>Applying a generic primitive\<close>

text \<open>
  A frame for a primitive: the header, the primitive and its arguments, with the continuation below them. The primitive
  is implemented by \<open>procedure\<close> and takes \<open>arity\<close> arguments.
\<close>

definition primitive_frame :: "primitive_code \<Rightarrow> primitive_procedure \<Rightarrow> nat \<Rightarrow> interpreter \<Rightarrow> bool" where
  "primitive_frame p procedure arity i \<longleftrightarrow>
    STACK_REF 0 i = MAKE_OBJECT 0 (of_nat (arity + 1)) \<and> arity < 100 \<and> OBJECT_TYPE (STACK_REF 1 i) = TC_PRIMITIVE \<and>
    PRIMITIVE_ARITY (STACK_REF 1 i) (tables p) = Some (int arity) \<and> procedure \<noteq> Prim_unimplemented \<and>
    fetch (Primitive_Procedure_Table (tables p)) (unat (PRIMITIVE_NUMBER (STACK_REF 1 i))) = Some procedure \<and>
    RETURN_CODE_P (STACK_REF (arity + 2) i) \<and> stack_guard (regs i) \<le> stack_pointer (regs i)"

definition frame_arguments :: "nat \<Rightarrow> interpreter \<Rightarrow> scheme_object list" where
  "frame_arguments arity i = map (\<lambda>k. STACK_REF (k + 2) i) [0..<arity]"

text \<open>What a primitive computes from fixnums.\<close>

datatype generic_result = Truth bool | Number int

text \<open>
  \<open>generic_outcome\<close>: when all arguments are fixnums and the primitive has a result \<open>f\<close> for them, the
  application returns it, having popped the frame; a number is an integer in canonical form, which
  may be a new bignum. Otherwise the application of the primitive has become that of the trampoline to the same
  arguments with the same continuation.
\<close>

definition generic_outcome :: "nat \<Rightarrow> nat \<Rightarrow> (int list \<Rightarrow> generic_result option) \<Rightarrow> primitive_code \<Rightarrow> interpreter \<Rightarrow> bool" where
  "generic_outcome arity slot f p i \<longleftrightarrow>
    (let args = frame_arguments arity i; m = regs i in
     case (if \<forall>x \<in> set args. FIXNUM_P x then f (map FIXNUM_TO_LONG args) else None) of
       Some r \<Rightarrow>
         \<exists>j. perform_application p i = Goto Pop_Return j \<and> stack_pointer (regs j) = stack_pointer m + 2 + arity \<and>
           (case r of
              Truth b \<Rightarrow> val_register j = BOOLEAN_TO_OBJECT b \<and> mem (regs j) = mem m
            | Number v \<Rightarrow> int_wf (heap_object (regs j) (val_register j)) \<and> int_val (heap_object (regs j) (val_register j)) = v \<and>
                (\<forall>a < Free m. mem (regs j) a = mem m a))
     | None \<Rightarrow>
         \<exists>j. perform_application p i = Goto Internal_Apply j \<and> stack_pointer (regs j) = stack_pointer m \<and> Free (regs j) = Free m \<and>
           mem (regs j) = (mem m)(stack_pointer m + 1 := VECTOR_REF (fixed_objects m) slot m) \<and> env_register j = env_register i)"

text \<open>The contract of a primitive that leaves numbers other than fixnums to the trampoline in \<open>slot\<close>.\<close>

locale generic_primitive =
  fixes prim :: primitive_body and arity slot :: nat and f :: "int list \<Rightarrow> generic_result option"
  assumes body: "prim p i =
      (let args = map (\<lambda>k. ARG_REF (Suc k) (regs i)) [0..<arity] in
       case (if \<forall>x \<in> set args. FIXNUM_P x then f (map FIXNUM_TO_LONG args) else None) of
         Some (Truth b) \<Rightarrow> Some (Prim_Value (BOOLEAN_TO_OBJECT b) i)
       | Some (Number v) \<Rightarrow> return_long v i
       | None \<Rightarrow> INDIRECT slot arity p i)"
    and bounded: "\<lbrakk>length ns = arity; \<forall>n \<in> set ns. fits_fixnum n; f ns = Some (Number v)\<rbrakk> \<Longrightarrow> \<bar>v\<bar> < 2 ^ 62"
begin

lemma applied:
  assumes frame: "primitive_frame p procedure arity i" and call: "call p procedure = prim p" and room: "room 3 (regs i)"
  shows "generic_outcome arity slot f p i"
proof -
  define k where "k = on_regs (\<lambda>m. m\<lparr>Free_primitive := Free m\<rparr>) ((SET_EXP (STACK_REF 1 i) (drop_stack 2 i))\<lparr>primitive_register := STACK_REF 1 i\<rparr>)"
  have k: "mem (regs k) = mem (regs i)" "stack_pointer (regs k) = stack_pointer (regs i) + 2" "Free (regs k) = Free (regs i)"
      "fixed_objects (regs k) = fixed_objects (regs i)" "env_register k = env_register i" "primitive_register k = STACK_REF 1 i"
      "stack_guard (regs k) = stack_guard (regs i)"
    by (simp_all add: k_def SET_EXP_def drop_stack_def on_regs_def)
  have room_k: "room 3 (regs k)" using room by (simp add: k_def SET_EXP_def drop_stack_def on_regs_def room_def GC_NEEDED_P_def HEAP_AVAILABLE_P_def FREE_OK_P_def GC_ENABLED_P_def INTERRUPT_ENABLED_P_def)
  have args: "map (\<lambda>n. ARG_REF (Suc n) (regs k)) [0..<arity] = frame_arguments arity i"
    by (simp add: frame_arguments_def ARG_REF_def ARG_LOC_def STACK_REF_def STACK_LOC_def k add.commute)
  have n: "APPLY_FRAME_N_ARGS i = arity"
  proof -
    have "unat (of_nat (Suc arity) :: ulong) = Suc arity" using frame by (subst unat_of_nat) (simp add: primitive_frame_def)
    then have "unat (1 + of_nat arity :: ulong) = Suc arity" "(1 + of_nat arity :: ulong) < 2 ^ 58"
      using frame by (simp_all add: primitive_frame_def word_less_nat_alt)
    then show ?thesis using frame by (simp add: primitive_frame_def APPLY_FRAME_N_ARGS_def APPLY_FRAME_SIZE_def)
  qed
  have type: "OBJECT_TYPE (STACK_REF 1 i) = TC_PRIMITIVE" "int arity \<noteq> LEXPR_PRIMITIVE_ARITY"
    using frame by (simp_all add: primitive_frame_def LEXPR_PRIMITIVE_ARITY_def)
  have perform: "perform_application p i = (case prim p k of
       None \<Rightarrow> No_Result
     | Some (Prim_Stop e) \<Rightarrow> Stop e
     | Some (Prim_Throw code i) \<Rightarrow> interpret_dispatch p code i
     | Some (Prim_Value v i) \<Rightarrow> Goto Pop_Return (drop_stack arity (on_regs (\<lambda>m. m\<lparr>Free_primitive := 0\<rparr>) ((SET_VAL v i)\<lparr>primitive_register := SHARP_F\<rparr>))))"
    using frame call n
    by (simp add: perform_application_def APPLY_FRAME_PROCEDURE_def primitive_frame_def apply_primitive_object_def IMPLEMENTED_PRIMITIVE_P_def
        APPLY_PRIMITIVE_FROM_INTERPRETER_def Let_def k_def TC_PRIMITIVE_def TC_ENTITY_def TC_RECORD_def TC_PROCEDURE_def TC_CONTROL_POINT_def)
  show ?thesis
  proof (cases "if \<forall>x \<in> set (frame_arguments arity i). FIXNUM_P x then f (map FIXNUM_TO_LONG (frame_arguments arity i)) else None")
    case None
    let ?j = "PUSH_APPLY_FRAME_HEADER arity (push (VECTOR_REF (fixed_objects (regs k)) slot (regs k)) k)"
    have "PRIMITIVE_N_ARGUMENTS (STACK_REF 1 i) p k = Some arity"
      using frame type(2) by (simp add: PRIMITIVE_N_ARGUMENTS_def primitive_frame_def)
    moreover have "STACK_REF arity k = STACK_REF (arity + 2) i" by (simp add: STACK_REF_def STACK_LOC_def k add.commute)
    moreover have "Will_Push_primitive (Suc (Suc 0)) k g = g k" for g
      using frame by (simp add: Will_Push_primitive_def STACK_CHECK_def CAN_PUSH_P_def k primitive_frame_def machine_return_def)
    ultimately have "INDIRECT slot arity p k = Some (Prim_Throw PRIM_APPLY ?j)"
      using frame type(1) by (simp add: INDIRECT_def canonicalize_primitive_context_def k PRIMITIVE_P_def primitive_frame_def STACK_ENV_EXTRA_SLOTS_def Let_def)
    then have "prim p k = Some (Prim_Throw PRIM_APPLY ?j)" unfolding body Let_def args None by simp
    then have "perform_application p i = Goto Internal_Apply (?j\<lparr>primitive_register := SHARP_F\<rparr>)" by (simp add: perform interpret_dispatch_def Let_def)
    moreover have "VECTOR_REF (fixed_objects (regs k)) slot (regs k) = VECTOR_REF (fixed_objects (regs i)) slot (regs i)"
      by (simp add: VECTOR_REF_def MEMORY_REF_def k)
    then have "mem (regs ?j) = (mem (regs i))(stack_pointer (regs i) + 1 := VECTOR_REF (fixed_objects (regs i)) slot (regs i))"
      using frame by (auto simp: PUSH_APPLY_FRAME_HEADER_def push_def k primitive_frame_def STACK_REF_def STACK_LOC_def fun_eq_iff)
    ultimately show ?thesis
      unfolding generic_outcome_def Let_def None
      by (auto simp: PUSH_APPLY_FRAME_HEADER_def push_registers k)
  next
    case (Some r)
    have "\<exists>w m. prim p k = Some (Prim_Value w (k\<lparr>regs := m\<rparr>)) \<and> stack_pointer m = stack_pointer (regs k) \<and>
        (case r of Truth b \<Rightarrow> w = BOOLEAN_TO_OBJECT b \<and> m = regs k
         | Number v \<Rightarrow> int_wf (heap_object m w) \<and> int_val (heap_object m w) = v \<and> (\<forall>a < Free (regs k). mem m a = mem (regs k) a))"
    proof (cases r)
      case (Truth b)
      then have "prim p k = Some (Prim_Value (BOOLEAN_TO_OBJECT b) k)" unfolding body Let_def args Some by simp
      then show ?thesis using Truth by (intro exI [of _ "BOOLEAN_TO_OBJECT b"] exI [of _ "regs k"]) simp
    next
      case (Number v)
      then have "prim p k = return_long v k" unfolding body Let_def args Some by simp
      moreover have "\<bar>v\<bar> < 2 ^ 62"
        using Some Number by (intro bounded [of "map FIXNUM_TO_LONG (frame_arguments arity i)"]) (auto simp: frame_arguments_def split: if_splits)
      ultimately show ?thesis using return_long_correct [OF _ room_k] Number by fastforce
    qed
    then obtain w m where prim: "prim p k = Some (Prim_Value w (k\<lparr>regs := m\<rparr>))" and sp: "stack_pointer m = stack_pointer (regs k)"
      and result: "case r of Truth b \<Rightarrow> w = BOOLEAN_TO_OBJECT b \<and> m = regs k
         | Number v \<Rightarrow> int_wf (heap_object m w) \<and> int_val (heap_object m w) = v \<and> (\<forall>a < Free (regs k). mem m a = mem (regs k) a)"
      by blast
    let ?j = "drop_stack arity (on_regs (\<lambda>m. m\<lparr>Free_primitive := 0\<rparr>) ((SET_VAL w (k\<lparr>regs := m\<rparr>))\<lparr>primitive_register := SHARP_F\<rparr>))"
    have "perform_application p i = Goto Pop_Return ?j" by (simp add: perform prim)
    moreover have "val_register ?j = w" "mem (regs ?j) = mem m" "stack_pointer (regs ?j) = stack_pointer (regs i) + 2 + arity"
      by (simp_all add: SET_VAL_def drop_stack_def on_regs_def sp k)
    moreover have "heap_object (regs ?j) = heap_object m" by (simp add: heap_object_def fun_eq_iff SET_VAL_def drop_stack_def on_regs_def)
    ultimately show ?thesis unfolding generic_outcome_def Let_def Some option.case using result
      by (intro exI [of _ ?j]) (simp add: k split: generic_result.splits)
  qed
qed

end

text \<open>The fifteen primitives: the code, the number of arguments, the trampoline and the result for fixnums.\<close>

type_synonym generic_entry = "primitive_body \<times> nat \<times> nat \<times> (int list \<Rightarrow> generic_result option)"

definition generic_primitives :: "generic_entry list" where
  "generic_primitives =
    [(Prim_zero, 1, 0x24, \<lambda>ns. Some (Truth (ns ! 0 = 0))),
     (Prim_positive, 1, 0x25, \<lambda>ns. Some (Truth (0 < ns ! 0))),
     (Prim_negative, 1, 0x26, \<lambda>ns. Some (Truth (ns ! 0 < 0))),
     (Prim_add_one, 1, 0x27, \<lambda>ns. Some (Number (ns ! 0 + 1))),
     (Prim_subtract_one, 1, 0x28, \<lambda>ns. Some (Number (ns ! 0 - 1))),
     (Prim_equal_number, 2, 0x29, \<lambda>ns. Some (Truth (ns ! 0 = ns ! 1))),
     (Prim_less, 2, 0x2A, \<lambda>ns. Some (Truth (ns ! 0 < ns ! 1))),
     (Prim_greater, 2, 0x2B, \<lambda>ns. Some (Truth (ns ! 1 < ns ! 0))),
     (Prim_add, 2, 0x2C, \<lambda>ns. Some (Number (ns ! 0 + ns ! 1))),
     (Prim_subtract, 2, 0x2D, \<lambda>ns. Some (Number (ns ! 0 - ns ! 1))),
     (Prim_multiply, 2, 0x2E, \<lambda>_. None),
     (Prim_divide, 2, 0x2F, \<lambda>_. None),
     (Prim_quotient, 2, 0x30, \<lambda>_. None),
     (Prim_remainder, 2, 0x31, \<lambda>_. None),
     (Prim_modulo, 2, 0x32, \<lambda>_. None)]"

lemmas generic_defs = INDIRECT_TEST_1_def INDIRECT_INCREMENT_def INDIRECT_TEST_2_def INDIRECT_SUM_def INDIRECT_2_def Let_def
  FIXNUM_LESS_P_def FIXNUM_GREATER_P_def

lemma upt_two: "[0..<2] = [0, 1 :: nat]" by (simp add: upt_rec)

lemma fixnum_nth: "\<lbrakk>k < length ns; \<forall>n \<in> set ns. fits_fixnum n\<rbrakk> \<Longrightarrow> - (2 ^ 57) \<le> ns ! k \<and> ns ! k < 2 ^ 57"
  by (simp add: fits_fixnum_iff)

lemma fixnum_sum_bounded:
  assumes "length ns = Suc (Suc 0)" "\<forall>n \<in> set ns. fits_fixnum n"
  shows "\<bar>ns ! 0 + ns ! Suc 0\<bar> < 2 ^ 62" "\<bar>ns ! 0 - ns ! Suc 0\<bar> < 2 ^ 62"
  using fixnum_nth [of 0 ns] fixnum_nth [of 1 ns] assms by auto

lemma fixnum_step_bounded:
  assumes "length ns = Suc 0" "\<forall>n \<in> set ns. fits_fixnum n"
  shows "\<bar>ns ! 0 + 1\<bar> < 2 ^ 62" "\<bar>ns ! 0 - 1\<bar> < 2 ^ 62"
  using fixnum_nth [of 0 ns] assms by auto

interpretation zero: generic_primitive Prim_zero 1 "0x24" "\<lambda>ns. Some (Truth (ns ! 0 = 0))"
  by unfold_locales (auto simp: Prim_zero_def generic_defs GENERIC_TRAMPOLINE_ZERO_P_def FIXNUM_ZERO_P_iff)

interpretation positive: generic_primitive Prim_positive 1 "0x25" "\<lambda>ns. Some (Truth (0 < ns ! 0))"
  by unfold_locales (auto simp: Prim_positive_def generic_defs GENERIC_TRAMPOLINE_POSITIVE_P_def FIXNUM_POSITIVE_P_iff)

interpretation negative: generic_primitive Prim_negative 1 "0x26" "\<lambda>ns. Some (Truth (ns ! 0 < 0))"
  by unfold_locales (auto simp: Prim_negative_def generic_defs GENERIC_TRAMPOLINE_NEGATIVE_P_def FIXNUM_NEGATIVE_P_iff)

interpretation add_one: generic_primitive Prim_add_one 1 "0x27" "\<lambda>ns. Some (Number (ns ! 0 + 1))"
  by unfold_locales (auto simp: Prim_add_one_def generic_defs GENERIC_TRAMPOLINE_SUCCESSOR_def fixnum_step_bounded [simplified])

interpretation subtract_one: generic_primitive Prim_subtract_one 1 "0x28" "\<lambda>ns. Some (Number (ns ! 0 - 1))"
  by unfold_locales (auto simp: Prim_subtract_one_def generic_defs GENERIC_TRAMPOLINE_PREDECESSOR_def fixnum_step_bounded [simplified])

interpretation equal_number: generic_primitive Prim_equal_number 2 "0x29" "\<lambda>ns. Some (Truth (ns ! 0 = ns ! 1))"
  by unfold_locales (auto simp: Prim_equal_number_def generic_defs GENERIC_TRAMPOLINE_EQUAL_P_def upt_two numeral_2_eq_2 FIXNUM_EQUAL_P_iff)

interpretation less: generic_primitive Prim_less 2 "0x2A" "\<lambda>ns. Some (Truth (ns ! 0 < ns ! 1))"
  by unfold_locales (auto simp: Prim_less_def generic_defs GENERIC_TRAMPOLINE_LESS_P_def upt_two numeral_2_eq_2)

interpretation greater: generic_primitive Prim_greater 2 "0x2B" "\<lambda>ns. Some (Truth (ns ! 1 < ns ! 0))"
  by unfold_locales (auto simp: Prim_greater_def generic_defs GENERIC_TRAMPOLINE_GREATER_P_def upt_two numeral_2_eq_2)

interpretation add: generic_primitive Prim_add 2 "0x2C" "\<lambda>ns. Some (Number (ns ! 0 + ns ! 1))"
  by unfold_locales (auto simp: Prim_add_def generic_defs GENERIC_TRAMPOLINE_ADD_def upt_two numeral_2_eq_2 fixnum_sum_bounded [simplified])

interpretation subtract: generic_primitive Prim_subtract 2 "0x2D" "\<lambda>ns. Some (Number (ns ! 0 - ns ! 1))"
  by unfold_locales (auto simp: Prim_subtract_def generic_defs GENERIC_TRAMPOLINE_SUBTRACT_def upt_two numeral_2_eq_2 fixnum_sum_bounded [simplified])

interpretation multiply: generic_primitive Prim_multiply 2 "0x2E" "\<lambda>_. None"
  by unfold_locales (auto simp: Prim_multiply_def generic_defs GENERIC_TRAMPOLINE_MULTIPLY_def)

interpretation divide: generic_primitive Prim_divide 2 "0x2F" "\<lambda>_. None"
  by unfold_locales (auto simp: Prim_divide_def generic_defs GENERIC_TRAMPOLINE_DIVIDE_def)

interpretation quotient: generic_primitive Prim_quotient 2 "0x30" "\<lambda>_. None"
  by unfold_locales (auto simp: Prim_quotient_def generic_defs GENERIC_TRAMPOLINE_QUOTIENT_def)

interpretation remainder: generic_primitive Prim_remainder 2 "0x31" "\<lambda>_. None"
  by unfold_locales (auto simp: Prim_remainder_def generic_defs GENERIC_TRAMPOLINE_REMAINDER_def)

interpretation modulo: generic_primitive Prim_modulo 2 "0x32" "\<lambda>_. None"
  by unfold_locales (auto simp: Prim_modulo_def generic_defs GENERIC_TRAMPOLINE_MODULO_def)

lemmas generic_interpretations =
  zero.generic_primitive_axioms positive.generic_primitive_axioms negative.generic_primitive_axioms add_one.generic_primitive_axioms subtract_one.generic_primitive_axioms
  equal_number.generic_primitive_axioms less.generic_primitive_axioms greater.generic_primitive_axioms add.generic_primitive_axioms subtract.generic_primitive_axioms multiply.generic_primitive_axioms divide.generic_primitive_axioms
  quotient.generic_primitive_axioms remainder.generic_primitive_axioms modulo.generic_primitive_axioms

lemma generic_primitive_entry: "(prim, arity, slot, f) \<in> set generic_primitives \<Longrightarrow> generic_primitive prim arity slot f"
  unfolding generic_primitives_def using generic_interpretations by fastforce

text \<open>C40: Applying any of the fifteen generic primitives, from the interpreter, to a frame with its number of arguments: with fixnums,
  the tests, successor, predecessor, sum and difference return the exact result to the continuation (the interpreter goes to
  Pop_Return with the frame popped), and every word of the old heap is unchanged; a result that is not a fixnum is a new
  bignum that is read back as the exact value. With any other argument, and always for multiplication and the divisions, the interpreter goes
  on to apply the procedure that the fixed objects have in the slot for this operation: the frame is the one the
  primitive was given, with the primitive replaced by that procedure, and no other word of memory has changed. The
  hypotheses: the primitive's table entry has this code and this arity, a return code is below the frame, the stack has not
  overflowed and three words are free for a bignum.\<close>

theorem generic_primitives_applied:
  assumes "(prim, arity, slot, f) \<in> set generic_primitives" "call p procedure = prim p"
    and "primitive_frame p procedure arity i" "room 3 (regs i)"
  shows "generic_outcome arity slot f p i"
  using generic_primitive.applied [OF generic_primitive_entry [OF assms(1)] assms(3,2,4)] .

definition sum_code :: primitive_code where
  "sum_code = (let t = sample_prims\<lparr>Primitive_Procedure_Table := [Some (Prim_code 0)], Primitive_Arity_Table := [Some 2]\<rparr> in
     \<lparr>tables = t, call = \<lambda>_. Prim_add \<lparr>tables = t, call = \<lambda>_ _. None\<rparr>\<rparr>)"

definition sum_interpreter :: interpreter where
  "sum_interpreter = \<lparr>regs = demo_machine\<lparr>stack_pointer := 6, gc := demo_gc\<lparr>memory := demo_memory
       (6 := MAKE_OBJECT 0 3, 7 := MAKE_OBJECT TC_PRIMITIVE 0, 8 := LONG_TO_FIXNUM (2 ^ 57 - 1), 9 := LONG_TO_FIXNUM 1, 10 := MAKE_RETURN_CODE 0)\<rparr>\<rparr>,
     val_register = SHARP_F, env_register = SHARP_F, primitive_register = SHARP_F, lexpr_actuals = 0, prev_restore_history_offset = 0,
     trapping = False, critical_section_p = False, nested_p = True, prim_apply_error_code = 0, error_argument = SHARP_F\<rparr>"

theorem generic_primitives_applied_witness:
  "\<exists>j. perform_application sum_code sum_interpreter = Goto Pop_Return j \<and> stack_pointer (regs j) = 10 \<and>
     int_val (heap_object (regs j) (val_register j)) = 2 ^ 57"
proof -
  have "call sum_code (Prim_code 0) = Prim_add sum_code"
    by (simp add: sum_code_def Let_def Prim_add_def INDIRECT_SUM_def INDIRECT_def canonicalize_primitive_context_def PRIMITIVE_N_ARGUMENTS_def fun_eq_iff)
  moreover have "primitive_frame sum_code (Prim_code 0) 2 sum_interpreter"
    by (simp add: primitive_frame_def sum_code_def sum_interpreter_def Let_def STACK_REF_def STACK_LOC_def PRIMITIVE_ARITY_def fetch_def
        PRIMITIVE_NUMBER_def TC_PRIMITIVE_def RETURN_CODE_P_def MAKE_RETURN_CODE_def TC_RETURN_CODE_def) (simp add: demo_machine_def)
  moreover have "room 3 (regs sum_interpreter)"
    by (simp add: sum_interpreter_def room_def GC_NEEDED_P_def GC_ENABLED_P_def INTERRUPT_ENABLED_P_def) (simp add: demo_machine_def demo_gc_def)
  moreover have "frame_arguments 2 sum_interpreter = [LONG_TO_FIXNUM (2 ^ 57 - 1), LONG_TO_FIXNUM 1]"
    by (simp add: frame_arguments_def upt_two STACK_REF_def STACK_LOC_def sum_interpreter_def)
  moreover have "stack_pointer (regs sum_interpreter) = 6" by (simp add: sum_interpreter_def)
  ultimately show ?thesis
    using generic_primitives_applied [of Prim_add 2 "0x2C" "\<lambda>ns. Some (Number (ns ! 0 + ns ! 1))" sum_code "Prim_code 0" sum_interpreter]
    by (simp add: generic_primitives_def generic_outcome_def FIXNUM_TO_LONG_TO_FIXNUM fits_fixnum_iff Let_def) blast
qed

end
