(* ===== verification/Obstack.thy ===== *)
theory Obstack
  imports Prelude
begin

text \<open>
  The obstacks of obstack.c and obstack.h: objects that grow at the end of a chunk of memory and are freed in the opposite
  order. The chunks are the list of their addresses and limits, the current one first, as
  the \<open>prev\<close> pointers in their headers chain them. Memory is a map from addresses to bytes. \<open>chunkfun\<close> is the C library's
  \<open>malloc\<close>, behind \<open>OS_malloc\<close> or \<open>obstack_chunk_alloc\<close> of boot.c, which do not return when there is no memory: given the
  number of calls before, the chunks in use and the size, it returns the address of a block.
  \<open>malloc_ok\<close> is what the C standard promises of it. Lengths, which are of type \<open>int\<close> in C, are natural numbers: objects of 2 GB and more are outside the model.
\<close>

type_synonym address = nat
type_synonym obstack_chunk = "address \<times> address"

record obstack =
  chunk_size :: nat
  chunk_list :: "obstack_chunk list"
  object_base :: address
  next_free :: address
  chunk_limit :: address
  alignment_mask :: nat
  chunkfun :: "nat \<Rightarrow> obstack_chunk list \<Rightarrow> nat \<Rightarrow> address"
  chunk_calls :: nat
  bytes :: "address \<Rightarrow> nat"

definition DEFAULT_ALIGNMENT :: nat where "DEFAULT_ALIGNMENT = 8"
definition DEFAULT_ROUNDING :: nat where "DEFAULT_ROUNDING = 8"
definition COPYING_UNIT_SIZE :: nat where "COPYING_UNIT_SIZE = 4"
definition CHUNK_HEADER_SIZE :: nat where "CHUNK_HEADER_SIZE = 16"

definition chunk_contents :: "obstack_chunk \<Rightarrow> address" where
  "chunk_contents chunk = fst chunk + CHUNK_HEADER_SIZE"

definition align_up :: "nat \<Rightarrow> nat \<Rightarrow> nat" where
  "align_up m n = nat ((int n + int m) AND NOT (int m))"

definition default_chunk_size :: nat where
  "default_chunk_size =
    4096 - align_up (DEFAULT_ROUNDING - 1) (align_up (DEFAULT_ROUNDING - 1) 12 + 4)"

definition obstack_begin :: "nat \<Rightarrow> nat \<Rightarrow> obstack \<Rightarrow> obstack" where
  "obstack_begin requested alignment h =
    (let align = (if alignment = 0 then DEFAULT_ALIGNMENT else alignment);
         csize = (if requested = 0 then default_chunk_size else requested);
         chunk = chunkfun h (chunk_calls h) (chunk_list h) csize
     in h\<lparr>chunk_size := csize, alignment_mask := align - 1, chunk_calls := chunk_calls h + 1, chunk_list := [(chunk, chunk + csize)],
          next_free := chunk_contents (chunk, chunk + csize), object_base := chunk_contents (chunk, chunk + csize),
          chunk_limit := chunk + csize\<rparr>)"

definition obstack_init :: "obstack \<Rightarrow> obstack" where
  "obstack_init = obstack_begin 0 0"

subsection \<open>Growing an object\<close>

definition copy_unit :: "address \<Rightarrow> address \<Rightarrow> nat \<Rightarrow> (address \<Rightarrow> nat) \<Rightarrow> address \<Rightarrow> nat" where
  "copy_unit src dst i m =
    (\<lambda>a. if dst + i * COPYING_UNIT_SIZE \<le> a \<and> a < dst + (i + 1) * COPYING_UNIT_SIZE then m (src + (a - dst)) else m a)"

primrec copy_units :: "address \<Rightarrow> address \<Rightarrow> nat \<Rightarrow> (address \<Rightarrow> nat) \<Rightarrow> address \<Rightarrow> nat" where
  "copy_units src dst 0 m = m"
| "copy_units src dst (Suc i) m = copy_units src dst i (copy_unit src dst i m)"

function copy_bytes :: "address \<Rightarrow> address \<Rightarrow> nat \<Rightarrow> nat \<Rightarrow> (address \<Rightarrow> nat) \<Rightarrow> address \<Rightarrow> nat" where
  "copy_bytes src dst i n m = (if i < n then copy_bytes src dst (i + 1) n (m(dst + i := m (src + i))) else m)"
  by pat_completeness auto

termination by (relation "measure (\<lambda>(src, dst, i, n, m). n - i)") auto

declare copy_bytes.simps [simp del]

definition copy_object :: "nat \<Rightarrow> address \<Rightarrow> address \<Rightarrow> nat \<Rightarrow> (address \<Rightarrow> nat) \<Rightarrow> address \<Rightarrow> nat" where
  "copy_object align_mask src dst n m =
    (if align_mask + 1 \<ge> DEFAULT_ALIGNMENT
     then copy_bytes src dst (n div COPYING_UNIT_SIZE * COPYING_UNIT_SIZE) n (copy_units src dst (n div COPYING_UNIT_SIZE) m)
     else copy_bytes src dst 0 n m)"

definition obstack_newchunk :: "nat \<Rightarrow> obstack \<Rightarrow> obstack" where
  "obstack_newchunk len h =
    (let obj_size = next_free h - object_base h;
         new_size = max ((obj_size + len) + obj_size div 2 ^ 3 + 100) (chunk_size h);
         chunk = chunkfun h (chunk_calls h) (chunk_list h) new_size;
         new_chunk = (chunk, chunk + new_size);
         prev = (case chunk_list h of [] \<Rightarrow> [] | old_chunk # prev \<Rightarrow>
           if object_base h = chunk_contents old_chunk then prev else old_chunk # prev)
     in h\<lparr>chunk_calls := chunk_calls h + 1, chunk_list := new_chunk # prev, chunk_limit := chunk + new_size,
          bytes := copy_object (alignment_mask h) (object_base h) (chunk_contents new_chunk) obj_size (bytes h),
          object_base := chunk_contents new_chunk, next_free := chunk_contents new_chunk + obj_size\<rparr>)"

definition obstack_object_size :: "obstack \<Rightarrow> nat" where
  "obstack_object_size h = next_free h - object_base h"

definition chunk_room :: "obstack \<Rightarrow> int" where
  "chunk_room h = int (chunk_limit h) - int (next_free h)"

definition obstack_blank :: "nat \<Rightarrow> obstack \<Rightarrow> obstack" where
  "obstack_blank len h =
    (let h = (if chunk_room h < int len then obstack_newchunk len h else h)
     in h\<lparr>next_free := next_free h + len\<rparr>)"

definition write_bytes :: "address \<Rightarrow> nat list \<Rightarrow> (address \<Rightarrow> nat) \<Rightarrow> address \<Rightarrow> nat" where
  "write_bytes p data m = (\<lambda>a. if p \<le> a \<and> a < p + length data then data ! (a - p) else m a)"

definition obstack_grow :: "nat list \<Rightarrow> obstack \<Rightarrow> obstack" where
  "obstack_grow data h =
    (let len = length data;
         h = (if next_free h + len > chunk_limit h then obstack_newchunk len h else h)
     in h\<lparr>bytes := write_bytes (next_free h) data (bytes h), next_free := next_free h + len\<rparr>)"

definition obstack_finish :: "obstack \<Rightarrow> address \<times> obstack" where
  "obstack_finish h =
    (let p = align_up (alignment_mask h) (next_free h);
         p = (if p > chunk_limit h then chunk_limit h else p)
     in (object_base h, h\<lparr>next_free := p, object_base := p\<rparr>))"

definition obstack_alloc :: "nat \<Rightarrow> obstack \<Rightarrow> address \<times> obstack" where
  "obstack_alloc len h = obstack_finish (obstack_blank len h)"

subsection \<open>Freeing\<close>

fun free_chunks :: "address \<Rightarrow> obstack_chunk list \<Rightarrow> obstack_chunk list" where
  "free_chunks obj [] = []"
| "free_chunks obj ((lp, limit) # prev) = (if lp \<ge> obj \<or> limit < obj then free_chunks obj prev else (lp, limit) # prev)"

text \<open>The function \<open>obstack_free\<close> of obstack.c, where \<open>None\<close> is \<open>abort\<close>, and the macro.\<close>

definition obstack_free_function :: "address \<Rightarrow> obstack \<Rightarrow> obstack option" where
  "obstack_free_function obj h =
    (case free_chunks obj (chunk_list h) of
       (lp, limit) # prev \<Rightarrow> Some (h\<lparr>object_base := obj, next_free := obj, chunk_limit := limit, chunk_list := (lp, limit) # prev\<rparr>)
     | [] \<Rightarrow> if obj \<noteq> 0 then None else Some (h\<lparr>chunk_list := []\<rparr>))"

definition obstack_free :: "address \<Rightarrow> obstack \<Rightarrow> obstack option" where
  "obstack_free obj h =
    (if chunk_list h \<noteq> [] \<and> obj > fst (hd (chunk_list h)) \<and> obj < chunk_limit h
     then Some (h\<lparr>next_free := obj, object_base := obj\<rparr>)
     else obstack_free_function obj h)"

subsection \<open>The invariant\<close>

text \<open>What malloc promises: a block that is not null, is aligned and overlaps no block in use.\<close>

definition separate :: "obstack_chunk \<Rightarrow> obstack_chunk \<Rightarrow> bool" where
  "separate c d \<longleftrightarrow> snd c \<le> fst d \<or> snd d \<le> fst c"

definition malloc_ok :: "(nat \<Rightarrow> obstack_chunk list \<Rightarrow> nat \<Rightarrow> address) \<Rightarrow> bool" where
  "malloc_ok f \<longleftrightarrow> (\<forall>t cs n. 0 < f t cs n \<and> f t cs n mod DEFAULT_ALIGNMENT = 0 \<and> (\<forall>c \<in> set cs. separate (f t cs n, f t cs n + n) c))"

text \<open>The live objects, the last allocated one first, lie one below the other in the chunks.\<close>

type_synonym obstack_object = "address \<times> nat"

fun stacked :: "address \<Rightarrow> address \<Rightarrow> obstack_object list \<Rightarrow> bool" where
  "stacked low upper [] \<longleftrightarrow> low \<le> upper"
| "stacked low upper ((a, n) # os) \<longleftrightarrow> 0 < n \<and> a + n \<le> upper \<and> a mod DEFAULT_ALIGNMENT = 0 \<and> stacked low a os"

fun placed :: "obstack_chunk list \<Rightarrow> address \<Rightarrow> obstack_object list \<Rightarrow> bool" where
  "placed [] upper os \<longleftrightarrow> os = []"
| "placed (c # cs) upper os \<longleftrightarrow>
    (\<exists>here below. os = here @ below \<and> upper \<le> snd c \<and> stacked (chunk_contents c) upper here \<and>
      placed cs (case cs of [] \<Rightarrow> 0 | d # _ \<Rightarrow> snd d) below)"

fun chunks_wf :: "obstack_chunk list \<Rightarrow> bool" where
  "chunks_wf [] \<longleftrightarrow> True"
| "chunks_wf (c # cs) \<longleftrightarrow> 0 < fst c \<and> fst c mod DEFAULT_ALIGNMENT = 0 \<and> (\<forall>d \<in> set cs. separate c d) \<and> chunks_wf cs"

definition obstack_wf :: "obstack_object list \<Rightarrow> obstack \<Rightarrow> bool" where
  "obstack_wf os h \<longleftrightarrow>
    malloc_ok (chunkfun h) \<and> alignment_mask h = 7 \<and> CHUNK_HEADER_SIZE < chunk_size h \<and> chunks_wf (chunk_list h) \<and>
    chunk_list h \<noteq> [] \<and> chunk_limit h = snd (hd (chunk_list h)) \<and> object_base h \<le> next_free h \<and> next_free h \<le> chunk_limit h \<and>
    (object_base h mod DEFAULT_ALIGNMENT = 0 \<or> object_base h = chunk_limit h) \<and> placed (chunk_list h) (object_base h) os"

subsection \<open>Alignment and copying\<close>

lemma and_not_7: "x AND - 8 = x div 8 * (8 :: int)"
proof -
  have "x AND NOT (mask 3) = push_bit 3 (drop_bit 3 x)" by (rule bit_eqI) (auto simp: bit_simps)
  then show ?thesis by (simp add: mask_eq_exp_minus_1 push_bit_eq_mult drop_bit_eq_div)
qed

lemma align_up_7: "align_up 7 n = (n + 7) div 8 * 8"
  by (simp add: align_up_def and_not_7 nat_mult_distrib nat_div_distrib nat_add_distrib)

lemma align_up_facts: "n \<le> align_up 7 n" "align_up 7 n mod 8 = 0"
  by (simp_all add: align_up_7)

lemma default_chunk_size: "default_chunk_size = 4072"
  by (simp add: default_chunk_size_def DEFAULT_ROUNDING_def align_up_7)

lemma copy_units_disjoint:
  assumes "src + 4 * k \<le> dst \<or> dst + 4 * k \<le> src"
  shows "copy_units src dst k m a = (if dst \<le> a \<and> a < dst + 4 * k then m (src + (a - dst)) else m a)"
  using assms
proof (induction k arbitrary: m)
  case (Suc k)
  then have "copy_units src dst (Suc k) m a =
      (if dst \<le> a \<and> a < dst + 4 * k then copy_unit src dst k m (src + (a - dst)) else copy_unit src dst k m a)" by auto
  then show ?case using Suc.prems by (auto simp: copy_unit_def COPYING_UNIT_SIZE_def algebra_simps)
qed simp

lemma copy_bytes_disjoint:
  assumes "src + n \<le> dst \<or> dst + n \<le> src" "i \<le> n"
  shows "copy_bytes src dst i n m a = (if dst + i \<le> a \<and> a < dst + n then m (src + (a - dst)) else m a)"
  using assms
proof (induction src dst i n m rule: copy_bytes.induct)
  case (1 src dst i n m)
  show ?case
  proof (cases "i < n")
    case True
    let ?m = "m(dst + i := m (src + i))"
    have "copy_bytes src dst (i + 1) n ?m a = (if dst + (i + 1) \<le> a \<and> a < dst + n then ?m (src + (a - dst)) else ?m a)"
      by (rule 1(1) [OF True]) (use 1(2) True in simp_all)
    then have "copy_bytes src dst i n m a = (if dst + (i + 1) \<le> a \<and> a < dst + n then ?m (src + (a - dst)) else ?m a)"
      using True copy_bytes.simps [of src dst i n m] by simp
    then show ?thesis using 1(2) True by (cases "a = dst + i") auto
  next
    case False
    then show ?thesis using 1 by (subst copy_bytes.simps) auto
  qed
qed

text \<open>The words and then the remaining bytes are a copy of the whole object.\<close>

lemma copy_object_disjoint:
  assumes "src + n \<le> dst \<or> dst + n \<le> src"
  shows "copy_object align src dst n m a = (if dst \<le> a \<and> a < dst + n then m (src + (a - dst)) else m a)"
proof -
  let ?k = "n div 4"
  have k: "?k * 4 \<le> n" "src + 4 * ?k \<le> dst \<or> dst + 4 * ?k \<le> src" using assms by auto
  then have "copy_bytes src dst (?k * 4) n (copy_units src dst ?k m) a = (if dst \<le> a \<and> a < dst + n then m (src + (a - dst)) else m a)"
    using assms by (auto simp: copy_bytes_disjoint copy_units_disjoint)
  then show ?thesis using assms by (auto simp: copy_object_def COPYING_UNIT_SIZE_def copy_bytes_disjoint)
qed

subsection \<open>Live objects\<close>

lemma stacked_low: "stacked low upper os \<Longrightarrow> low \<le> upper"
  by (induction low upper os rule: stacked.induct) auto

lemma stacked_object:
  "stacked low upper (newer @ (a, n) # rest) \<Longrightarrow>
    low \<le> a \<and> 0 < n \<and> a + n \<le> upper \<and> a mod DEFAULT_ALIGNMENT = 0 \<and> stacked low a rest"
proof (induction newer arbitrary: upper)
  case (Cons o' newer)
  then show ?case by (cases o') fastforce
qed (auto dest: stacked_low)

lemma stacked_empty:
  assumes "stacked low low os"
  shows "os = []"
proof (cases os)
  case (Cons x rest)
  then show ?thesis using assms stacked_object [of low low "[]" "fst x" "snd x" rest] by auto
qed

lemma stacked_raise: "\<lbrakk>stacked low upper os; upper \<le> upper'\<rbrakk> \<Longrightarrow> stacked low upper' os"
  by (cases os) auto

lemma chunk_contents_less: "fst c < chunk_contents c"
  by (simp add: chunk_contents_def CHUNK_HEADER_SIZE_def)

lemma placed_free:
  "\<lbrakk>chunks_wf cs; placed cs upper (newer @ (a, n) # os)\<rbrakk> \<Longrightarrow>
    \<exists>k < length cs. chunk_contents (cs ! k) \<le> a \<and> 0 < n \<and> a + n \<le> snd (cs ! k) \<and> a mod DEFAULT_ALIGNMENT = 0 \<and>
      free_chunks a cs = drop k cs \<and> placed (drop k cs) a os"
proof (induction cs arbitrary: upper newer)
  case (Cons c cs)
  obtain here below where split: "newer @ (a, n) # os = here @ below" and upper: "upper \<le> snd c" and here: "stacked (chunk_contents c) upper here"
    and below: "placed cs (case cs of [] \<Rightarrow> 0 | d # _ \<Rightarrow> snd d) below"
    using Cons.prems(2) by auto
  show ?case
  proof (cases "length newer < length here")
    case True
    then obtain rest where rest: "here = newer @ (a, n) # rest" "os = rest @ below"
      using split by (auto simp: append_eq_append_conv2 Cons_eq_append_conv)
    then have a: "chunk_contents c \<le> a" "0 < n" "a + n \<le> upper" "a mod DEFAULT_ALIGNMENT = 0" "stacked (chunk_contents c) a rest"
      using stacked_object [of "chunk_contents c" upper newer a n rest] here by simp_all
    moreover have "free_chunks a (c # cs) = c # cs" using a upper chunk_contents_less [of c] by (cases c) auto
    moreover have "placed (c # cs) a os" using a upper rest(2) below by auto
    ultimately show ?thesis using upper by (intro exI [of _ 0]) auto
  next
    case False
    then obtain newer' where newer: "newer = here @ newer'" "below = newer' @ (a, n) # os"
      using split by (auto simp: append_eq_append_conv2)
    obtain k where k: "k < length cs" "chunk_contents (cs ! k) \<le> a" "0 < n" "a + n \<le> snd (cs ! k)" "a mod DEFAULT_ALIGNMENT = 0"
        "free_chunks a cs = drop k cs" "placed (drop k cs) a os"
      using Cons.IH [OF _ below [unfolded newer(2)]] Cons.prems(1) by auto
    have "separate c (cs ! k)" using Cons.prems(1) k(1) by simp
    then have "free_chunks a (c # cs) = drop (Suc k) (c # cs)"
      using k chunk_contents_less [of "cs ! k"] by (cases c) (auto simp: separate_def)
    then show ?thesis using k by (intro exI [of _ "Suc k"]) auto
  qed
qed simp

lemma chunks_wf_drop: "chunks_wf cs \<Longrightarrow> chunks_wf (drop k cs)"
proof (induction cs arbitrary: k)
  case (Cons c cs)
  then show ?case by (cases k) auto
qed simp

text \<open>Macro and function free an object, and all that were allocated after it, in the same way.\<close>

lemma obstack_free_live:
  assumes "obstack_wf (newer @ (a, n) # os) h"
  shows "\<exists>h'. obstack_free a h = Some h' \<and> obstack_wf os h' \<and> object_base h' = a \<and> next_free h' = a \<and> bytes h' = bytes h \<and>
    chunkfun h' = chunkfun h"
proof -
  let ?cs = "chunk_list h"
  have wf: "chunks_wf ?cs" "placed ?cs (object_base h) (newer @ (a, n) # os)" "?cs \<noteq> []" "chunk_limit h = snd (hd ?cs)"
    using assms by (simp_all add: obstack_wf_def)
  obtain k where k: "k < length ?cs" "chunk_contents (?cs ! k) \<le> a" "0 < n" "a + n \<le> snd (?cs ! k)" "a mod DEFAULT_ALIGNMENT = 0"
      "free_chunks a ?cs = drop k ?cs" "placed (drop k ?cs) a os"
    using placed_free [OF wf(1,2)] by metis
  let ?h = "h\<lparr>object_base := a, next_free := a, chunk_limit := snd (?cs ! k), chunk_list := drop k ?cs\<rparr>"
  have "drop k ?cs = ?cs ! k # drop (Suc k) ?cs" using k(1) by (simp add: Cons_nth_drop_Suc)
  then have "obstack_free_function a h = Some ?h" using k(6) by (cases "?cs ! k") (simp add: obstack_free_function_def)
  moreover have "k = 0" if "fst (hd ?cs) < a" "a < chunk_limit h"
  proof (rule ccontr)
    assume "k \<noteq> 0"
    then have "separate (hd ?cs) (?cs ! k)" using wf(1,3) k(1) by (cases ?cs) (auto simp: nth_Cons split: nat.splits)
    then show False using that k chunk_contents_less [of "?cs ! k"] wf(4) by (auto simp: separate_def)
  qed
  moreover have "?h = h\<lparr>next_free := a, object_base := a\<rparr>" if "k = 0" using that wf(3,4) by (intro obstack.equality) (simp_all add: hd_conv_nth)
  ultimately have "obstack_free a h = Some ?h" unfolding obstack_free_def by (cases "fst (hd ?cs) < a \<and> a < chunk_limit h") auto
  moreover have "chunks_wf (drop k ?cs)" "hd (drop k ?cs) = ?cs ! k" "a \<le> snd (?cs ! k)" "drop k ?cs \<noteq> []"
    using chunks_wf_drop [OF wf(1)] k(1,3,4) by (simp_all add: hd_drop_conv_nth)
  then have "obstack_wf os ?h" using assms k(5,7) by (simp add: obstack_wf_def)
  ultimately show ?thesis by simp
qed

lemma obstack_begin_wf:
  assumes "malloc_ok (chunkfun h)"
  shows "obstack_wf [] (obstack_init h)"
  using assms
  by (auto simp: obstack_init_def obstack_begin_def Let_def obstack_wf_def DEFAULT_ALIGNMENT_def default_chunk_size CHUNK_HEADER_SIZE_def
      chunk_contents_def malloc_ok_def mod_add_left_eq [symmetric])

text \<open>Every live object is inside one chunk, and no two overlap.\<close>

lemma placed_in_chunk:
  assumes "chunks_wf cs" "placed cs upper os" "(a, n) \<in> set os"
  shows "\<exists>c \<in> set cs. fst c < a \<and> 0 < n \<and> a + n \<le> snd c"
proof -
  obtain newer rest where "os = newer @ (a, n) # rest" using split_list [OF assms(3)] by blast
  with assms(2) have "placed cs upper (newer @ (a, n) # rest)" by simp
  from placed_free [OF assms(1) this] obtain k where "k < length cs" "chunk_contents (cs ! k) \<le> a" "0 < n" "a + n \<le> snd (cs ! k)" by metis
  then show ?thesis using chunk_contents_less [of "cs ! k"] by (intro bexI [of _ "cs ! k"]) auto
qed

lemma stacked_separate: "stacked low upper ((a, n) # os) \<Longrightarrow> (b, k) \<in> set os \<Longrightarrow> b + k \<le> a"
  using stacked_object [of low a _ b k] by (auto simp: in_set_conv_decomp)

lemma placed_separate:
  assumes "chunks_wf cs" "placed cs upper ((a, n) # os)" "(b, k) \<in> set os"
  shows "separate (a, a + n) (b, b + k)"
  using assms
proof (induction cs arbitrary: upper)
  case (Cons c cs)
  obtain here below where split: "(a, n) # os = here @ below" and upper: "upper \<le> snd c" and here: "stacked (chunk_contents c) upper here"
    and below: "placed cs (case cs of [] \<Rightarrow> 0 | d # _ \<Rightarrow> snd d) below"
    using Cons.prems(2) by auto
  show ?case
  proof (cases here)
    case Nil
    then show ?thesis using Cons.IH [of "case cs of [] \<Rightarrow> 0 | d # _ \<Rightarrow> snd d"] Cons.prems(1,3) split below by simp
  next
    case (Cons first rest)
    then have rest: "here = (a, n) # rest" "os = rest @ below" using split by auto
    then have a: "chunk_contents c \<le> a" "a + n \<le> snd c" using here upper stacked_low by fastforce+
    show ?thesis
    proof (cases "(b, k) \<in> set rest")
      case True
      then show ?thesis using stacked_separate here rest(1) by (auto simp: separate_def)
    next
      case False
      then have "(b, k) \<in> set below" using Cons.prems(3) rest(2) by auto
      from placed_in_chunk [OF _ below this] Cons.prems(1) obtain d where d: "d \<in> set cs" "fst d < b" "b + k \<le> snd d" by auto
      then have "separate c d" using Cons.prems(1) by simp
      then show ?thesis using d a chunk_contents_less [of c] by (auto simp: separate_def)
    qed
  qed
qed simp

subsection \<open>Growing\<close>

text \<open>A new chunk takes the growing object with it and leaves the live ones where they are.\<close>

lemma newchunk_prev:
  assumes "obstack_wf os h"
  defines "prev \<equiv> (case chunk_list h of [] \<Rightarrow> [] | old_chunk # prev \<Rightarrow> if object_base h = chunk_contents old_chunk then prev else old_chunk # prev)"
  shows "set prev \<subseteq> set (chunk_list h)" "chunks_wf prev" "placed prev (case prev of [] \<Rightarrow> 0 | d # _ \<Rightarrow> snd d) os"
proof -
  obtain c cs where cs: "chunk_list h = c # cs" using assms(1) by (cases "chunk_list h") (auto simp: obstack_wf_def)
  obtain here below where split: "os = here @ below" "stacked (chunk_contents c) (object_base h) here"
      "placed cs (case cs of [] \<Rightarrow> 0 | d # _ \<Rightarrow> snd d) below" "object_base h \<le> snd c" "chunks_wf (c # cs)"
    using assms(1) cs by (auto simp: obstack_wf_def)
  show "set prev \<subseteq> set (chunk_list h)" "chunks_wf prev" using split(5) by (auto simp: prev_def cs)
  show "placed prev (case prev of [] \<Rightarrow> 0 | d # _ \<Rightarrow> snd d) os"
  proof (cases "object_base h = chunk_contents c")
    case True
    then have "here = []" using split(2) by (intro stacked_empty) simp
    then show ?thesis using True split(1,3) by (simp add: prev_def cs)
  next
    case False
    have "stacked (chunk_contents c) (snd c) here" using stacked_raise [OF split(2,4)] .
    then show ?thesis using False split(1,3) by (auto simp: prev_def cs)
  qed
qed

lemma newchunk_wf:
  fixes n :: nat
  assumes wf: "obstack_wf os h"
  defines "h' \<equiv> obstack_newchunk n h"
  shows "obstack_wf os h'" "next_free h' + n \<le> chunk_limit h'" "obstack_object_size h' = obstack_object_size h"
    "object_base h' mod DEFAULT_ALIGNMENT = 0"
    "\<forall>k < obstack_object_size h. bytes h' (object_base h' + k) = bytes h (object_base h + k)"
    "\<forall>(a, k) \<in> set os. \<forall>b. a \<le> b \<and> b < a + k \<longrightarrow> bytes h' b = bytes h b"
proof -
  define obj where "obj = next_free h - object_base h"
  define csize where "csize = max ((obj + n) + obj div 2 ^ 3 + 100) (chunk_size h)"
  define c where "c = chunkfun h (chunk_calls h) (chunk_list h) csize"
  define prev where "prev = (case chunk_list h of [] \<Rightarrow> [] | old_chunk # prev \<Rightarrow> if object_base h = chunk_contents old_chunk then prev else old_chunk # prev)"
  note p = newchunk_prev [OF wf, folded prev_def]
  have h': "h' = h\<lparr>chunk_calls := chunk_calls h + 1, chunk_list := (c, c + csize) # prev, chunk_limit := c + csize,
      bytes := copy_object (alignment_mask h) (object_base h) (chunk_contents (c, c + csize)) obj (bytes h),
      object_base := chunk_contents (c, c + csize), next_free := chunk_contents (c, c + csize) + obj\<rparr>"
    by (simp add: h'_def obstack_newchunk_def Let_def obj_def csize_def c_def prev_def)
  have c: "0 < c" "c mod DEFAULT_ALIGNMENT = 0" "\<And>d. d \<in> set (chunk_list h) \<Longrightarrow> separate (c, c + csize) d"
    using wf by (simp_all add: obstack_wf_def malloc_ok_def c_def)
  have room: "CHUNK_HEADER_SIZE + obj + n \<le> csize" "chunk_size h \<le> csize" by (simp_all add: csize_def CHUNK_HEADER_SIZE_def)
  have contents: "chunk_contents (c, c + csize) = c + CHUNK_HEADER_SIZE" by (simp add: chunk_contents_def)
  have aligned: "(c + CHUNK_HEADER_SIZE) mod DEFAULT_ALIGNMENT = 0" using c(2) by (simp add: CHUNK_HEADER_SIZE_def DEFAULT_ALIGNMENT_def mod_add_eq [symmetric, of c])
  have "placed ((c, c + csize) # prev) (c + CHUNK_HEADER_SIZE) os"
    using p(3) room by (auto simp: contents intro: exI [of _ "[]"])
  then show "obstack_wf os h'"
    using wf p(1,2) c room aligned by (auto simp: obstack_wf_def h' contents)
  show "next_free h' + n \<le> chunk_limit h'" "obstack_object_size h' = obstack_object_size h" "object_base h' mod DEFAULT_ALIGNMENT = 0"
    using room aligned by (simp_all add: h' contents obstack_object_size_def obj_def)
  obtain d cs where cs: "chunk_list h = d # cs" using wf by (cases "chunk_list h") (auto simp: obstack_wf_def)
  have "chunk_contents d \<le> object_base h" "object_base h + obj \<le> snd d"
    using wf cs stacked_low by (fastforce simp: obstack_wf_def obj_def)+
  then have "object_base h + obj \<le> c + CHUNK_HEADER_SIZE \<or> c + CHUNK_HEADER_SIZE + obj \<le> object_base h"
    using c(3) [of d] room cs chunk_contents_less [of d] by (auto simp: separate_def)
  note copy = copy_object_disjoint [OF this]
  show "\<forall>k < obstack_object_size h. bytes h' (object_base h' + k) = bytes h (object_base h + k)"
    unfolding obstack_object_size_def obj_def [symmetric] by (simp add: h' contents copy)
  show "\<forall>(a, k) \<in> set os. \<forall>b. a \<le> b \<and> b < a + k \<longrightarrow> bytes h' b = bytes h b"
  proof (clarify)
    fix a k b assume ab: "(a, k) \<in> set os" "a \<le> b" "b < a + k"
    obtain e where "e \<in> set (chunk_list h)" "fst e < a" "a + k \<le> snd e"
      using placed_in_chunk [OF _ _ ab(1)] wf by (metis obstack_wf_def)
    then show "bytes h' b = bytes h b" using c(3) [of e] ab room by (auto simp: h' contents copy separate_def)
  qed
qed

text \<open>What grows an object makes room for it first, in a new chunk if need be.\<close>

definition with_room :: "nat \<Rightarrow> obstack \<Rightarrow> obstack" where
  "with_room n h = (if chunk_room h < int n then obstack_newchunk n h else h)"

text \<open>The growing object has the bytes \<open>data\<close>, and the live objects are as they were in \<open>h0\<close>.\<close>

definition growing :: "obstack_object list \<Rightarrow> obstack \<Rightarrow> nat list \<Rightarrow> obstack \<Rightarrow> bool" where
  "growing os h0 data h \<longleftrightarrow>
    obstack_wf os h \<and> obstack_object_size h = length data \<and> (\<forall>k < length data. bytes h (object_base h + k) = data ! k) \<and>
    (data \<noteq> [] \<longrightarrow> object_base h mod DEFAULT_ALIGNMENT = 0) \<and>
    (\<forall>(a, n) \<in> set os. \<forall>b. a \<le> b \<and> b < a + n \<longrightarrow> bytes h b = bytes h0 b)"

lemma with_room_growing:
  assumes "growing os h0 data h" "0 < n"
  shows "growing os h0 data (with_room n h)" "next_free (with_room n h) + n \<le> chunk_limit (with_room n h)"
    "object_base (with_room n h) mod DEFAULT_ALIGNMENT = 0"
proof -
  have wf: "obstack_wf os h" using assms(1) by (simp add: growing_def)
  note new = newchunk_wf [OF wf, of n]
  have "object_base h mod DEFAULT_ALIGNMENT = 0" if "\<not> chunk_room h < int n"
    using that wf assms(2) by (auto simp: obstack_wf_def chunk_room_def)
  then show "growing os h0 data (with_room n h)" "next_free (with_room n h) + n \<le> chunk_limit (with_room n h)"
    "object_base (with_room n h) mod DEFAULT_ALIGNMENT = 0"
    using assms(1) new by (auto simp: growing_def with_room_def chunk_room_def split: prod.splits)
qed

lemma growing_size: "growing os h0 data h \<Longrightarrow> next_free h = object_base h + length data"
  by (auto simp: growing_def obstack_wf_def obstack_object_size_def)

lemma live_below_base:
  assumes "obstack_wf os h" "(a, n) \<in> set os" "a \<le> b" "b < a + n"
  shows "b < object_base h \<or> chunk_limit h \<le> b"
proof -
  obtain c cs where cs: "chunk_list h = c # cs" using assms(1) by (cases "chunk_list h") (auto simp: obstack_wf_def)
  obtain here below where split: "os = here @ below" "stacked (chunk_contents c) (object_base h) here"
      "placed cs (case cs of [] \<Rightarrow> 0 | d # _ \<Rightarrow> snd d) below" and wf: "chunks_wf (c # cs)" "chunk_limit h = snd c"
    using assms(1) cs by (auto simp: obstack_wf_def)
  show ?thesis
  proof (cases "(a, n) \<in> set here")
    case True
    then obtain newer rest where "here = newer @ (a, n) # rest" using split_list by fast
    then show ?thesis using stacked_object [of "chunk_contents c" "object_base h" newer a n rest] split(2) assms(4) by auto
  next
    case False
    then have "(a, n) \<in> set below" using assms(2) split(1) by auto
    from placed_in_chunk [OF _ split(3) this] wf(1) obtain d where d: "d \<in> set cs" "fst d < a" "a + n \<le> snd d" by auto
    then have "separate c d" using wf(1) by simp
    then show ?thesis using d assms(3,4) stacked_low [OF split(2)] chunk_contents_less [of c] wf(2) by (auto simp: separate_def)
  qed
qed

lemma obstack_grow_growing:
  assumes "growing os h0 data h"
  shows "growing os h0 (data @ piece) (obstack_grow piece h)"
proof (cases "piece = []")
  case True
  have "next_free h \<le> chunk_limit h" using assms by (simp add: growing_def obstack_wf_def)
  moreover have "write_bytes p [] m = m" for p m by (auto simp: write_bytes_def)
  ultimately show ?thesis using True assms by (simp add: obstack_grow_def Let_def)
next
  case False
  let ?h = "with_room (length piece) h"
  note r = with_room_growing [OF assms, of "length piece"]
  have h: "obstack_grow piece h = ?h\<lparr>bytes := write_bytes (next_free ?h) piece (bytes ?h), next_free := next_free ?h + length piece\<rparr>"
    by (auto simp: obstack_grow_def with_room_def chunk_room_def Let_def)
  have g: "growing os h0 data ?h" "next_free ?h + length piece \<le> chunk_limit ?h" "object_base ?h mod DEFAULT_ALIGNMENT = 0"
    using r False by simp_all
  have "bytes (obstack_grow piece h) b = bytes h0 b" if "(a, n) \<in> set os" "a \<le> b" "b < a + n" for a n b
  proof -
    have "b < object_base ?h \<or> chunk_limit ?h \<le> b" using live_below_base [OF _ that] g(1) by (simp add: growing_def)
    then have "bytes (obstack_grow piece h) b = bytes ?h b" using g(2) growing_size [OF g(1)] by (auto simp: h write_bytes_def)
    then show ?thesis using g(1) that by (auto simp: growing_def)
  qed
  moreover have "obstack_wf os (obstack_grow piece h)" using g by (auto simp: growing_def obstack_wf_def h)
  moreover have "obstack_object_size (obstack_grow piece h) = length (data @ piece)"
    using growing_size [OF g(1)] by (simp add: h obstack_object_size_def)
  moreover have "bytes (obstack_grow piece h) (object_base ?h + k) = (data @ piece) ! k" if "k < length (data @ piece)" for k
    using that g(1) growing_size [OF g(1)] by (auto simp: h write_bytes_def growing_def nth_append)
  ultimately show ?thesis using g(3) by (auto simp: growing_def) (simp_all add: h)
qed

lemma obstack_blank_wf:
  assumes "obstack_wf os h" "0 < n"
  shows "obstack_wf os (obstack_blank n h)" "obstack_object_size (obstack_blank n h) = obstack_object_size h + n"
    "object_base (obstack_blank n h) mod DEFAULT_ALIGNMENT = 0"
proof -
  let ?data = "map (\<lambda>k. bytes h (object_base h + k)) [0..<obstack_object_size h]" and ?h = "with_room n h"
  have aligned: "object_base h mod DEFAULT_ALIGNMENT = 0" if "0 < obstack_object_size h"
    using assms(1) that by (auto simp: obstack_wf_def obstack_object_size_def)
  then have "growing os h ?data h" using assms(1) by (auto simp: growing_def)
  note g = with_room_growing [OF this assms(2)]
  have h: "obstack_blank n h = ?h\<lparr>next_free := next_free ?h + n\<rparr>" by (simp add: obstack_blank_def with_room_def Let_def)
  show "obstack_wf os (obstack_blank n h)" "obstack_object_size (obstack_blank n h) = obstack_object_size h + n"
    "object_base (obstack_blank n h) mod DEFAULT_ALIGNMENT = 0"
    using g growing_size [OF g(1)] by (auto simp: h growing_def obstack_wf_def obstack_object_size_def)
qed

lemma obstack_finish_wf:
  assumes "obstack_wf os h" "0 < obstack_object_size h" "object_base h mod DEFAULT_ALIGNMENT = 0" "obstack_finish h = (a, h')"
  shows "a = object_base h" "obstack_wf ((a, obstack_object_size h) # os) h'" "object_base h' = next_free h'" "bytes h' = bytes h"
proof -
  let ?p = "min (align_up 7 (next_free h)) (chunk_limit h)"
  have h': "a = object_base h" "h' = h\<lparr>next_free := ?p, object_base := ?p\<rparr>"
    using assms(1,4) by (auto simp: obstack_finish_def obstack_wf_def Let_def min_def)
  obtain c cs where cs: "chunk_list h = c # cs" using assms(1) by (cases "chunk_list h") (auto simp: obstack_wf_def)
  have le: "next_free h \<le> ?p" "object_base h + obstack_object_size h = next_free h"
    using align_up_facts(1) [of "next_free h"] assms(1) by (auto simp: obstack_wf_def obstack_object_size_def)
  obtain here below where "os = here @ below" "stacked (chunk_contents c) (object_base h) here" "placed cs (case cs of [] \<Rightarrow> 0 | d # _ \<Rightarrow> snd d) below"
    using assms(1) cs by (auto simp: obstack_wf_def)
  moreover have "?p \<le> snd c" using assms(1) cs by (simp add: obstack_wf_def)
  ultimately have "placed (c # cs) ?p ((a, obstack_object_size h) # os)"
    using assms(2,3) le by (simp add: h'(1)) (intro exI [of _ "(object_base h, obstack_object_size h) # here"] exI [of _ below], simp)
  moreover have "?p mod DEFAULT_ALIGNMENT = 0 \<or> ?p = chunk_limit h" "?p \<le> chunk_limit h"
    using align_up_facts(2) [of "next_free h"] by (simp_all add: min_def DEFAULT_ALIGNMENT_def)
  ultimately show "a = object_base h" "obstack_wf ((a, obstack_object_size h) # os) h'" "object_base h' = next_free h'" "bytes h' = bytes h"
    using assms(1) unfolding h' obstack_wf_def cs [symmetric] by simp_all
qed

subsection \<open>The interface\<close>

text \<open>
  An allocator that frees in the opposite order: with the list of its live objects, allocation adds one,
  freeing an object removes it and the later ones, and no two live objects overlap.
\<close>

locale lifo_allocator =
  fixes live :: "obstack_object list \<Rightarrow> 'h \<Rightarrow> bool" and alloc :: "nat \<Rightarrow> 'h \<Rightarrow> address \<times> 'h" and free :: "address \<Rightarrow> 'h \<Rightarrow> 'h option"
  assumes alloc_live: "\<lbrakk>live os h; 0 < n; alloc n h = (a, h')\<rbrakk> \<Longrightarrow> live ((a, n) # os) h'"
    and free_live: "live (newer @ (a, n) # os) h \<Longrightarrow> \<exists>h'. free a h = Some h' \<and> live os h'"
    and live_separate: "\<lbrakk>live ((a, n) # os) h; (b, k) \<in> set os\<rbrakk> \<Longrightarrow> separate (a, a + n) (b, b + k)"
    and live_pos: "\<lbrakk>live os h; (a, n) \<in> set os\<rbrakk> \<Longrightarrow> 0 < a \<and> 0 < n"
begin

lemma alloc_fresh:
  assumes "live os h" "0 < n" "alloc n h = (a, h')"
  shows "live ((a, n) # os) h'" "0 < a" "a \<notin> fst ` set os"
proof -
  show l: "live ((a, n) # os) h'" by (rule alloc_live [OF assms])
  show "0 < a" using live_pos [OF l, of a n] by simp
  show "a \<notin> fst ` set os"
  proof
    assume "a \<in> fst ` set os"
    then obtain k where k: "(a, k) \<in> set os" by auto
    then show False using live_separate [OF l k] live_pos [OF l, of a k] assms(2) by (auto simp: separate_def)
  qed
qed

lemma free_last:
  assumes "live ((a, n) # os) h"
  shows "live os (the (free a h))" "free a h = Some (the (free a h))"
  using free_live [of "[]" a n os h] assms by auto

end

definition obstack_idle :: "obstack_object list \<Rightarrow> obstack \<Rightarrow> bool" where
  "obstack_idle os h \<longleftrightarrow> obstack_wf os h \<and> object_base h = next_free h"

lemma obstack_alloc_idle:
  assumes "obstack_idle os h" "0 < n" "obstack_alloc n h = (a, h')"
  shows "obstack_idle ((a, n) # os) h'"
proof -
  have wf: "obstack_wf os h" "obstack_object_size h = 0" using assms(1) by (simp_all add: obstack_idle_def obstack_object_size_def)
  note b = obstack_blank_wf [OF wf(1) assms(2)]
  note f = obstack_finish_wf [OF b(1) _ b(3), of a h']
  show ?thesis using f assms(2,3) b(2) wf(2) by (simp add: obstack_idle_def obstack_alloc_def)
qed

interpretation obs: lifo_allocator obstack_idle obstack_alloc obstack_free
proof
  show "\<lbrakk>obstack_idle os h; 0 < n; obstack_alloc n h = (a, h')\<rbrakk> \<Longrightarrow> obstack_idle ((a, n) # os) h'" for os h n a h'
    by (rule obstack_alloc_idle)
  show "\<exists>h'. obstack_free a h = Some h' \<and> obstack_idle os h'" if "obstack_idle (newer @ (a, n) # os) h" for newer a n os h
    using obstack_free_live [of newer a n os h] that by (auto simp: obstack_idle_def)
  show "separate (a, a + n) (b, b + k)" if "obstack_idle ((a, n) # os) h" "(b, k) \<in> set os" for a n os h b k
    using placed_separate that by (auto simp: obstack_idle_def obstack_wf_def)
  show "0 < a \<and> 0 < n" if "obstack_idle os h" "(a, n) \<in> set os" for os h a n
    using placed_in_chunk [OF _ _ that(2)] that(1) by (fastforce simp: obstack_idle_def obstack_wf_def)
qed


text \<open>A malloc that returns the next multiple of 8 above all blocks in use.\<close>

definition bump_malloc :: "nat \<Rightarrow> obstack_chunk list \<Rightarrow> nat \<Rightarrow> address" where
  "bump_malloc t cs n = 8 * (1 + Max (set (0 # map snd cs)))"

lemma bump_malloc_ok: "malloc_ok bump_malloc"
proof -
  have "snd c \<le> bump_malloc t cs n" if "c \<in> set cs" for t cs c n
  proof -
    have "snd c \<le> Max (set (0 # map snd cs))" using that by (intro Max_ge) auto
    then show ?thesis by (simp add: bump_malloc_def)
  qed
  then show ?thesis by (auto simp: malloc_ok_def separate_def bump_malloc_def DEFAULT_ALIGNMENT_def)
qed

definition sample_obstack :: obstack where
  "sample_obstack = obstack_init \<lparr>chunk_size = 0, chunk_list = [], object_base = 0, next_free = 0, chunk_limit = 0, alignment_mask = 0,
     chunkfun = bump_malloc, chunk_calls = 0, bytes = \<lambda>_. 0\<rparr>"

lemma sample_obstack_idle: "obstack_idle [] sample_obstack"
proof -
  have "obstack_wf [] sample_obstack" unfolding sample_obstack_def by (rule obstack_begin_wf) (simp add: bump_malloc_ok)
  moreover have "object_base sample_obstack = next_free sample_obstack" by (simp add: sample_obstack_def obstack_init_def obstack_begin_def Let_def)
  ultimately show ?thesis by (simp add: obstack_idle_def)
qed


end
