(* ===== verification/Dynamic_Stack.thy ===== *)
theory Dynamic_Stack
  imports Obstack
begin

text \<open>
  The dynamic stack of wind.c, which holds storage, protectors and dynamic bindings until the
  stack is unwound, and the transactions of transact.c on top of it.

  The stack is the list of the live objects of an obstack, the last allocated one first. Each, a chunk here, has its
  address and size in the obstack, the saved stack position in its first word and its contents; \<open>EXPORT\<close> gives the
  address of the contents. The variables of the program are a map from addresses to values, with
  \<open>current_transaction\<close> at a fixed address. The C procedures that other files register as
  protectors or as actions of transactions are an argument, \<open>proc\<close>: given the number of the
  procedure, its environment and the state they return the state they leave. \<open>world\<close> stands for
  everything they act on. A call of \<open>error\<close> does not return: its message is the result \<open>Inl\<close>.
  A pointer that does not point to live contents of the right kind is \<open>Wild_Pointer\<close>.
\<close>

datatype transaction_state = Active | Aborting | Committing
datatype transaction_action_type = Tat_commit | Tat_abort | Tat_always

datatype protector = Undo_Binding | Execute_Action | Procedure nat

record winding_record =
  wr_next :: address
  wr_protector :: protector
  wr_environment :: address

datatype contents =
    Storage
  | Winding winding_record
  | Binding winding_record address nat               \<comment> \<open>a winding record followed by a binding record\<close>
  | Transaction address transaction_state            \<comment> \<open>checkpoint and state\<close>
  | Action transaction_action_type nat address       \<comment> \<open>type, procedure and environment\<close>

record chunk =
  addr :: address
  extent :: nat
  prev :: address
  contents :: contents

record 'w dstack =
  chunks :: "chunk list"
  dstack :: obstack
  dstack_position :: address
  current_winding_record :: address
  save_binding_location :: address
  signals_blocked :: bool
  vars :: "address \<Rightarrow> nat"
  world :: 'w

datatype dstack_error =
    Position_Not_Found | No_More_Stack | Stack_Slipped
  | No_Transaction string | Commit_In_Progress string | Abort_In_Progress string
  | Wild_Pointer | Obstack_Abort

type_synonym 'w procedures = "nat \<Rightarrow> address \<Rightarrow> 'w dstack \<Rightarrow> dstack_error + 'w dstack"

definition bind_error :: "'e + 'a \<Rightarrow> ('a \<Rightarrow> 'e + 'b) \<Rightarrow> 'e + 'b" where
  "bind_error r f = (case r of Inl e \<Rightarrow> Inl e | Inr x \<Rightarrow> f x)"

lemma bind_error_simps [simp]: "bind_error (Inl e) f = Inl e" "bind_error (Inr x) f = f x"
  by (simp_all add: bind_error_def)

definition WORD_SIZE :: nat where "WORD_SIZE = 8"
definition WINDING_RECORD_SIZE :: nat where "WINDING_RECORD_SIZE = 24"
definition CURRENT_TRANSACTION :: address where "CURRENT_TRANSACTION = 8"

definition EXPORT :: "address \<Rightarrow> address" where
  "EXPORT sp = sp + WORD_SIZE"

subsection \<open>The stack\<close>

definition block_signals :: "'w dstack \<Rightarrow> 'w dstack" where
  "block_signals s = s\<lparr>signals_blocked := True\<rparr>"

definition unblock_signals :: "'w dstack \<Rightarrow> 'w dstack" where
  "unblock_signals s = s\<lparr>signals_blocked := False\<rparr>"

definition dstack_initialize :: "'w dstack \<Rightarrow> 'w dstack" where
  "dstack_initialize s =
    s\<lparr>chunks := [], dstack := obstack_init (dstack s), dstack_position := 0, current_winding_record := 0\<rparr>"

definition dstack_reset :: "'w dstack \<Rightarrow> dstack_error + 'w dstack" where
  "dstack_reset s =
    (let s = block_signals s in
     case obstack_free 0 (dstack s) of
       None \<Rightarrow> Inl Obstack_Abort
     | Some h \<Rightarrow> Inr (unblock_signals (dstack_initialize (s\<lparr>dstack := h\<rparr>))))"

text \<open>The caller of \<open>dstack_alloc\<close> fills in the contents, which may depend on their address.\<close>

definition dstack_alloc :: "nat \<Rightarrow> (address \<Rightarrow> contents) \<Rightarrow> 'w dstack \<Rightarrow> address \<times> 'w dstack" where
  "dstack_alloc n content s =
    (let s = block_signals s;
         (chunk, h) = obstack_alloc (WORD_SIZE + n) (dstack s);
         s = s\<lparr>dstack := h, chunks := \<lparr>addr = chunk, extent = WORD_SIZE + n, prev = dstack_position s, contents = content (EXPORT chunk)\<rparr> # chunks s,
               dstack_position := chunk\<rparr>
     in (EXPORT chunk, unblock_signals s))"

definition dstack_protect :: "protector \<Rightarrow> address \<Rightarrow> 'w dstack \<Rightarrow> 'w dstack" where
  "dstack_protect protector environment s =
    (let (record, s) = dstack_alloc WINDING_RECORD_SIZE
           (\<lambda>_. Winding \<lparr>wr_next = current_winding_record s, wr_protector = protector,
                     wr_environment = environment\<rparr>) s
     in s\<lparr>current_winding_record := record\<rparr>)"

text \<open>
  An initializer of \<open>dstack_alloc_and_protect\<close> fills the storage after the winding record, so it
  gives the contents of the new chunk. \<open>save_binding\<close> stores the location and its present value.
\<close>

definition save_binding :: "winding_record \<Rightarrow> 'w dstack \<Rightarrow> contents" where
  "save_binding record s = Binding record (save_binding_location s) (vars s (save_binding_location s))"

definition dstack_alloc_and_protect ::
  "nat \<Rightarrow> (winding_record \<Rightarrow> 'w dstack \<Rightarrow> contents) \<Rightarrow> protector \<Rightarrow> 'w dstack \<Rightarrow> 'w dstack"
where
  "dstack_alloc_and_protect n initializer protector s =
    (let (record, s) = dstack_alloc (WINDING_RECORD_SIZE + n)
           (\<lambda>record. initializer \<lparr>wr_next = current_winding_record s, wr_protector = protector,
                         wr_environment = record + WINDING_RECORD_SIZE\<rparr> s) s
     in s\<lparr>current_winding_record := record\<rparr>)"

definition dstack_bind :: "address \<Rightarrow> nat \<Rightarrow> 'w dstack \<Rightarrow> 'w dstack" where
  "dstack_bind location val s =
    (let s = s\<lparr>save_binding_location := location\<rparr>;
         s = dstack_alloc_and_protect (2 * WORD_SIZE) save_binding Undo_Binding s
     in s\<lparr>vars := (vars s)(location := val)\<rparr>)"

subsection \<open>Finding contents\<close>

definition chunk_at :: "address \<Rightarrow> 'w dstack \<Rightarrow> chunk option" where
  "chunk_at sp s = find (\<lambda>c. addr c = sp) (chunks s)"

definition contents_at :: "address \<Rightarrow> 'w dstack \<Rightarrow> contents option" where
  "contents_at p s = map_option contents (find (\<lambda>c. EXPORT (addr c) = p) (chunks s))"

fun winding_of :: "contents \<Rightarrow> winding_record option" where
  "winding_of (Winding r) = Some r"
| "winding_of (Binding r _ _) = Some r"
| "winding_of _ = None"

definition undo_binding :: "address \<Rightarrow> 'w dstack \<Rightarrow> dstack_error + 'w dstack" where
  "undo_binding environment s =
    (case contents_at (environment - WINDING_RECORD_SIZE) s of
       Some (Binding _ location val) \<Rightarrow> Inr (s\<lparr>vars := (vars s)(location := val)\<rparr>)
     | _ \<Rightarrow> Inl Wild_Pointer)"

definition execute_action :: "'w procedures \<Rightarrow> address \<Rightarrow> 'w dstack \<Rightarrow> dstack_error + 'w dstack" where
  "execute_action proc action s =
    (case (contents_at action s, contents_at (vars s CURRENT_TRANSACTION) s) of
       (Some (Action type procedure environment), Some (Transaction _ state)) \<Rightarrow>
         if type \<noteq> (if state = Committing then Tat_abort else Tat_commit)
         then proc procedure environment s
         else Inr s
     | _ \<Rightarrow> Inl Wild_Pointer)"

fun call_protector :: "'w procedures \<Rightarrow> protector \<Rightarrow> address \<Rightarrow> 'w dstack \<Rightarrow> dstack_error + 'w dstack" where
  "call_protector proc Undo_Binding environment s = undo_binding environment s"
| "call_protector proc Execute_Action environment s = execute_action proc environment s"
| "call_protector proc (Procedure f) environment s = proc f environment s"

subsection \<open>Unwinding\<close>

partial_function (option) find_position :: "address \<Rightarrow> 'w dstack \<Rightarrow> address \<Rightarrow> (dstack_error + unit) option" where
  "find_position position s sp =
    (if sp = position then Some (Inr ())
     else if sp = 0 then Some (Inl Position_Not_Found)
     else case chunk_at sp s of
       None \<Rightarrow> Some (Inl Wild_Pointer)
     | Some c \<Rightarrow> find_position position s (prev c))"

definition run_protector :: "'w procedures \<Rightarrow> 'w dstack \<Rightarrow> dstack_error + 'w dstack" where
  "run_protector proc s =
    (if EXPORT (dstack_position s) = current_winding_record s then
       let sp = dstack_position s in
       case Option.bind (contents_at (current_winding_record s) s) winding_of of
         None \<Rightarrow> Inl Wild_Pointer
       | Some record \<Rightarrow>
           bind_error (call_protector proc (wr_protector record) (wr_environment record) (unblock_signals s))
             (\<lambda>s. let s = block_signals s in
                if sp \<noteq> dstack_position s then Inl Stack_Slipped
                else Inr (s\<lparr>current_winding_record := wr_next record\<rparr>))
     else Inr s)"

text \<open>The last chunk of the stack is the last live object of the obstack, and leaves both.\<close>

definition pop_chunk :: "'w dstack \<Rightarrow> dstack_error + 'w dstack" where
  "pop_chunk s =
    (let sp = dstack_position s in
     case chunk_at sp s of
       None \<Rightarrow> Inl Wild_Pointer
     | Some c \<Rightarrow>
         (case obstack_free sp (dstack s) of
            None \<Rightarrow> Inl Obstack_Abort
          | Some h \<Rightarrow> Inr (s\<lparr>dstack_position := prev c, dstack := h, chunks := tl (dropWhile (\<lambda>c. addr c \<noteq> sp) (chunks s))\<rparr>)))"

partial_function (option) unwind_loop ::
  "'w procedures \<Rightarrow> address \<Rightarrow> 'w dstack \<Rightarrow> (dstack_error + 'w dstack) option"
where
  "unwind_loop proc position s =
    (if dstack_position s = position then Some (Inr s)
     else if dstack_position s = 0 then Some (Inl No_More_Stack)
     else case bind_error (run_protector proc s) pop_chunk of
       Inl e \<Rightarrow> Some (Inl e)
     | Inr s \<Rightarrow> unwind_loop proc position s)"

definition dstack_set_position ::
  "'w procedures \<Rightarrow> address \<Rightarrow> 'w dstack \<Rightarrow> (dstack_error + 'w dstack) option"
where
  "dstack_set_position proc position s =
    (let s = block_signals s in
     do { r \<leftarrow> find_position position s (dstack_position s);
          case r of
            Inl e \<Rightarrow> Some (Inl e)
          | Inr _ \<Rightarrow>
              do { r \<leftarrow> unwind_loop proc position s;
                   Some (map_sum id unblock_signals r) } })"

subsection \<open>Transactions\<close>

definition guarantee_current_transaction :: "string \<Rightarrow> 'w dstack \<Rightarrow> dstack_error + (address \<times> transaction_state)" where
  "guarantee_current_transaction caller s =
    (if vars s CURRENT_TRANSACTION = 0 then Inl (No_Transaction caller)
     else case contents_at (vars s CURRENT_TRANSACTION) s of
       Some (Transaction checkpoint state) \<Rightarrow>
         (case state of
            Committing \<Rightarrow> Inl (Commit_In_Progress caller)
          | Aborting \<Rightarrow> Inl (Abort_In_Progress caller)
          | Active \<Rightarrow> Inr (checkpoint, state))
     | _ \<Rightarrow> Inl Wild_Pointer)"

definition transaction_initialize :: "'w dstack \<Rightarrow> 'w dstack" where
  "transaction_initialize s = s\<lparr>vars := (vars s)(CURRENT_TRANSACTION := 0)\<rparr>"

definition transaction_begin :: "'w dstack \<Rightarrow> 'w dstack" where
  "transaction_begin s =
    (let checkpoint = dstack_position s;
         (transaction, s) = dstack_alloc (2 * WORD_SIZE) (\<lambda>_. Transaction checkpoint Active) s
     in dstack_bind CURRENT_TRANSACTION transaction s)"

definition set_state :: "transaction_state \<Rightarrow> 'w dstack \<Rightarrow> 'w dstack" where
  "set_state state s =
    s\<lparr>chunks := List.map (\<lambda>c. if EXPORT (addr c) = vars s CURRENT_TRANSACTION
        then case contents c of
            Transaction checkpoint _ \<Rightarrow> c\<lparr>contents := Transaction checkpoint state\<rparr>
          | _ \<Rightarrow> c
        else c) (chunks s)\<rparr>"

definition transaction_abort :: "'w procedures \<Rightarrow> 'w dstack \<Rightarrow> (dstack_error + 'w dstack) option" where
  "transaction_abort proc s =
    (case guarantee_current_transaction ''transaction_abort'' s of
       Inl e \<Rightarrow> Some (Inl e)
     | Inr (checkpoint, _) \<Rightarrow> dstack_set_position proc checkpoint (set_state Aborting s))"

definition transaction_commit :: "'w procedures \<Rightarrow> 'w dstack \<Rightarrow> (dstack_error + 'w dstack) option" where
  "transaction_commit proc s =
    (case guarantee_current_transaction ''transaction_commit'' s of
       Inl e \<Rightarrow> Some (Inl e)
     | Inr (checkpoint, _) \<Rightarrow> dstack_set_position proc checkpoint (set_state Committing s))"

definition transaction_record_action ::
  "transaction_action_type \<Rightarrow> nat \<Rightarrow> address \<Rightarrow> 'w dstack \<Rightarrow> dstack_error + 'w dstack"
where
  "transaction_record_action type procedure environment s =
    bind_error (guarantee_current_transaction ''transaction_record_action'' s)
      (\<lambda>_. let (action, s) = dstack_alloc (3 * WORD_SIZE) (\<lambda>_. Action type procedure environment) s
           in Inr (dstack_protect Execute_Action action s))"

subsection \<open>The invariant of the stack\<close>

definition top_addr :: "chunk list \<Rightarrow> address" where
  "top_addr cs = (case cs of [] \<Rightarrow> 0 | c # _ \<Rightarrow> addr c)"

primrec top_winding :: "chunk list \<Rightarrow> address" where
  "top_winding [] = 0"
| "top_winding (c # cs) = (if winding_of (contents c) = None then top_winding cs else EXPORT (addr c))"

definition record_wf :: "chunk \<Rightarrow> chunk list \<Rightarrow> bool" where
  "record_wf c cs \<longleftrightarrow>
    (case contents c of
       Winding r \<Rightarrow> wr_next r = top_winding cs \<and> wr_protector r \<noteq> Undo_Binding
     | Binding r _ _ \<Rightarrow>
         wr_next r = top_winding cs \<and> wr_protector r = Undo_Binding \<and>
         wr_environment r = EXPORT (addr c) + WINDING_RECORD_SIZE
     | _ \<Rightarrow> True)"

primrec stack_wf :: "chunk list \<Rightarrow> bool" where
  "stack_wf [] \<longleftrightarrow> True"
| "stack_wf (c # cs) \<longleftrightarrow> 0 < addr c \<and> addr c \<notin> addr ` set cs \<and> prev c = top_addr cs \<and> record_wf c cs \<and> stack_wf cs"

definition live_objects :: "chunk list \<Rightarrow> obstack_object list" where
  "live_objects cs = map (\<lambda>c. (addr c, extent c)) cs"

definition dstack_wf :: "'w dstack \<Rightarrow> bool" where
  "dstack_wf s \<longleftrightarrow>
    obstack_idle (live_objects (chunks s)) (dstack s) \<and> stack_wf (chunks s) \<and> dstack_position s = top_addr (chunks s) \<and>
    current_winding_record s = top_winding (chunks s)"

lemma top_addr_simps [simp]: "top_addr [] = 0" "top_addr (c # cs) = addr c"
  by (simp_all add: top_addr_def)

lemma stack_wf_pos: "stack_wf cs \<Longrightarrow> c \<in> set cs \<Longrightarrow> 0 < addr c"
  by (induction cs) auto

lemma stack_wf_drop: "stack_wf cs \<Longrightarrow> stack_wf (drop n cs)"
proof (induction cs arbitrary: n)
  case (Cons c cs)
  then show ?case by (cases n) auto
qed simp

lemma live_objects_simps [simp]:
  "live_objects [] = []" "live_objects (c # cs) = (addr c, extent c) # live_objects cs" "fst ` set (live_objects cs) = addr ` set cs"
  by (auto simp: live_objects_def image_iff)

lemma EXPORT_inject [simp]: "EXPORT a = EXPORT b \<longleftrightarrow> a = b"
  by (simp add: EXPORT_def)

lemma EXPORT_pos [simp]: "0 < EXPORT a" "EXPORT a \<noteq> 0"
  by (simp_all add: EXPORT_def WORD_SIZE_def)

lemma top_winding_cases: "top_winding cs = 0 \<or> (\<exists>c \<in> set cs. top_winding cs = EXPORT (addr c))"
  by (induction cs) auto

lemma top_winding_not_above: "stack_wf (c # cs) \<Longrightarrow> top_winding cs \<noteq> EXPORT (addr c)"
  using top_winding_cases [of cs] by (auto simp: image_iff)

lemma find_chunk:
  assumes "stack_wf cs" "c \<in> set cs"
  shows "find (\<lambda>c'. addr c' = addr c) cs = Some c"
  using assms by (induction cs) (auto simp: image_iff)

subsection \<open>What unwinding does\<close>

text \<open>
  The effect of the protectors, on the variables and on the rest of the world, when the first
  chunks of the stack are removed one after the other.
\<close>

definition contents_in :: "chunk list \<Rightarrow> address \<Rightarrow> contents option" where
  "contents_in cs p = map_option contents (find (\<lambda>c. EXPORT (addr c) = p) cs)"

definition benign :: "'w procedures \<Rightarrow> (nat \<Rightarrow> address \<Rightarrow> 'w \<Rightarrow> 'w) \<Rightarrow> bool" where
  "benign proc act \<longleftrightarrow> (\<forall>f env s. proc f env s = Inr (s\<lparr>world := act f env (world s)\<rparr>))"

definition action_runs :: "transaction_action_type \<Rightarrow> transaction_state \<Rightarrow> bool" where
  "action_runs type state \<longleftrightarrow> type \<noteq> (if state = Committing then Tat_abort else Tat_commit)"

definition chunk_effect ::
  "(nat \<Rightarrow> address \<Rightarrow> 'w \<Rightarrow> 'w) \<Rightarrow> chunk \<Rightarrow> chunk list \<Rightarrow> (address \<Rightarrow> nat) \<times> 'w \<Rightarrow>
    dstack_error + (address \<Rightarrow> nat) \<times> 'w"
where
  "chunk_effect act c cs vw =
    (case contents c of
       Binding _ location val \<Rightarrow> Inr ((fst vw)(location := val), snd vw)
     | Winding r \<Rightarrow>
         (case wr_protector r of
            Procedure f \<Rightarrow> Inr (fst vw, act f (wr_environment r) (snd vw))
          | Execute_Action \<Rightarrow>
              (case (contents_in cs (wr_environment r), contents_in cs (fst vw CURRENT_TRANSACTION)) of
                 (Some (Action type f env), Some (Transaction _ state)) \<Rightarrow>
                   Inr (fst vw, if action_runs type state then act f env (snd vw) else snd vw)
               | _ \<Rightarrow> Inl Wild_Pointer)
          | Undo_Binding \<Rightarrow> Inl Wild_Pointer)
     | _ \<Rightarrow> Inr vw)"

fun unwind_effects ::
  "(nat \<Rightarrow> address \<Rightarrow> 'w \<Rightarrow> 'w) \<Rightarrow> nat \<Rightarrow> chunk list \<Rightarrow> (address \<Rightarrow> nat) \<times> 'w \<Rightarrow>
    dstack_error + (address \<Rightarrow> nat) \<times> 'w"
where
  "unwind_effects act 0 cs vw = Inr vw"
| "unwind_effects act (Suc n) [] vw = Inl No_More_Stack"
| "unwind_effects act (Suc n) (c # cs) vw =
    bind_error (chunk_effect act c (c # cs) vw) (unwind_effects act n cs)"

text \<open>The obstack after its last objects have been freed one by one.\<close>

fun freed :: "nat \<Rightarrow> chunk list \<Rightarrow> obstack \<Rightarrow> obstack" where
  "freed 0 cs h = h"
| "freed (Suc n) [] h = h"
| "freed (Suc n) (c # cs) h = freed n cs (the (obstack_free (addr c) h))"

lemma freed_idle: "obstack_idle (live_objects cs) h \<Longrightarrow> obstack_idle (live_objects (drop n cs)) (freed n cs h)"
proof (induction n cs h rule: freed.induct)
  case (3 n c cs h)
  then show ?case using obs.free_last(1) [of "addr c" "extent c"] by simp
qed simp_all

definition unwound :: "nat \<Rightarrow> 'w dstack \<Rightarrow> (address \<Rightarrow> nat) \<times> 'w \<Rightarrow> 'w dstack" where
  "unwound n s vw =
    s\<lparr>chunks := drop n (chunks s),
      dstack := freed n (chunks s) (dstack s),
      dstack_position := top_addr (drop n (chunks s)),
      current_winding_record := top_winding (drop n (chunks s)),
      vars := fst vw, world := snd vw\<rparr>"

lemma contents_at_in: "contents_at p s = contents_in (chunks s) p"
  by (simp add: contents_at_def contents_in_def)

lemma contents_in_head [simp]: "contents_in (c # cs) (EXPORT (addr c)) = Some (contents c)"
  by (simp add: contents_in_def)

lemma run_protector_spec:
  assumes wf: "dstack_wf s" and cs: "chunks s = c # cs" and benign: "benign proc act"
    and b: "signals_blocked s"
  shows "run_protector proc s =
    map_sum id (\<lambda>vw. s\<lparr>current_winding_record := top_winding cs, vars := fst vw, world := snd vw\<rparr>)
      (chunk_effect act c (c # cs) (vars s, world s))"
proof (cases "winding_of (contents c)")
  case None
  have "top_winding cs \<noteq> EXPORT (addr c)"
    using wf cs top_winding_not_above [of c cs] by (simp add: dstack_wf_def)
  then have "run_protector proc s = Inr s" using wf cs None by (simp add: run_protector_def dstack_wf_def)
  moreover have "chunk_effect act c (c # cs) (vars s, world s) = Inr (vars s, world s)"
    using None by (cases "contents c") (simp_all add: chunk_effect_def)
  moreover have "s\<lparr>current_winding_record := top_winding cs\<rparr> = s"
    using wf cs None by (simp add: dstack_wf_def)
  ultimately show ?thesis by simp
next
  case (Some r)
  have cur: "current_winding_record s = EXPORT (addr c)" "dstack_position s = addr c"
    using wf cs Some by (simp_all add: dstack_wf_def)
  have rw: "record_wf c cs" using wf cs by (simp add: dstack_wf_def)
  have nxt: "wr_next r = top_winding cs"
    using rw Some by (cases "contents c") (simp_all add: record_wf_def)
  have bl: "block_signals (unblock_signals s) = s" using b by (simp add: block_signals_def unblock_signals_def)
  have step: "run_protector proc s =
      bind_error (call_protector proc (wr_protector r) (wr_environment r) (unblock_signals s))
        (\<lambda>s. if addr c \<noteq> dstack_position s then Inl Stack_Slipped
             else Inr ((block_signals s)\<lparr>current_winding_record := top_winding cs\<rparr>))"
    using cur Some cs nxt
    by (simp add: run_protector_def contents_at_in Let_def block_signals_def cong: if_cong)
  show ?thesis
  proof (cases "contents c")
    case (Binding r' l v)
    then have "r' = r" using Some by simp
    then have "wr_environment r = EXPORT (addr c) + WINDING_RECORD_SIZE" "wr_protector r = Undo_Binding"
      using rw Binding by (simp_all add: record_wf_def)
    then show ?thesis
      using step Binding cs cur
      by (simp add: undo_binding_def contents_at_in chunk_effect_def unblock_signals_def block_signals_def b)
  next
    case (Winding r')
    then have r: "r' = r" using Some by simp
    show ?thesis
    proof (cases "wr_protector r")
      case Undo_Binding
      then show ?thesis using rw Winding r by (simp add: record_wf_def)
    next
      case Execute_Action
      then show ?thesis
        using step Winding r cs cur benign
        by (simp add: execute_action_def contents_at_in chunk_effect_def unblock_signals_def block_signals_def b
            benign_def action_runs_def split: option.splits contents.splits)
    next
      case (Procedure f)
      then show ?thesis
        using step Winding r cs cur benign
        by (simp add: chunk_effect_def unblock_signals_def block_signals_def b benign_def)
    qed
  qed (use Some in simp_all)
qed

lemma pop_chunk_spec:
  assumes "chunks s = c # cs" "dstack_position s = addr c" "prev c = top_addr cs" "obstack_idle (live_objects (c # cs)) (dstack s)"
  shows "pop_chunk s = Inr (s\<lparr>chunks := cs, dstack := the (obstack_free (addr c) (dstack s)), dstack_position := top_addr cs\<rparr>)"
proof -
  obtain h where "obstack_free (addr c) (dstack s) = Some h" using obs.free_live [of "[]" "addr c" "extent c"] assms(4) by auto
  then show ?thesis using assms(1-3) by (simp add: pop_chunk_def chunk_at_def)
qed

lemma unwind_step:
  assumes wf: "dstack_wf s" and cs: "chunks s = c # cs" and "benign proc act" "signals_blocked s"
  shows "bind_error (run_protector proc s) pop_chunk =
    map_sum id (unwound 1 s) (chunk_effect act c (c # cs) (vars s, world s))"
proof (cases "chunk_effect act c (c # cs) (vars s, world s)")
  case (Inr vw)
  have "pop_chunk (s\<lparr>current_winding_record := top_winding cs, vars := fst vw, world := snd vw\<rparr>) = Inr (unwound 1 s vw)"
    using wf cs pop_chunk_spec [of "s\<lparr>current_winding_record := top_winding cs, vars := fst vw, world := snd vw\<rparr>" c cs]
    by (simp add: dstack_wf_def unwound_def)
  then show ?thesis using run_protector_spec [OF assms] Inr by simp
qed (simp add: run_protector_spec [OF assms])

lemma unwound_wf:
  assumes "dstack_wf s" "n \<le> length (chunks s)"
  shows "dstack_wf (unwound n s vw)"
  using stack_wf_drop [of "chunks s" n] freed_idle assms by (auto simp: dstack_wf_def unwound_def)

lemma unwound_Suc:
  assumes "chunks s = c # cs"
  shows "unwound n (unwound 1 s vw) = unwound (Suc n) s"
  using assms by (cases n) (simp_all add: unwound_def fun_eq_iff)

lemma position_differs:
  assumes "stack_wf (c # cs)" "n \<le> length cs"
  shows "top_addr (drop n cs) \<noteq> addr c"
proof (cases "drop n cs")
  case Nil
  then show ?thesis using assms(1) by simp
next
  case (Cons d ds)
  then have "d \<in> set cs" by (metis in_set_dropD list.set_intros(1))
  then show ?thesis using assms(1) Cons by (auto simp: image_iff)
qed

lemma unwind_loop_spec:
  assumes "dstack_wf s" "n \<le> length (chunks s)" "benign proc act" "signals_blocked s"
  shows "unwind_loop proc (top_addr (drop n (chunks s))) s =
    Some (map_sum id (unwound n s) (unwind_effects act n (chunks s) (vars s, world s)))"
  using assms
proof (induction n arbitrary: s)
  case 0
  then show ?case
    by (subst unwind_loop.simps) (simp add: dstack_wf_def unwound_def)
next
  case (Suc n)
  then obtain c cs where cs: "chunks s = c # cs" by (cases "chunks s") auto
  have pos: "dstack_position s = addr c" "0 < addr c" "top_addr (drop n cs) \<noteq> addr c"
    using Suc.prems cs position_differs [of c cs n] by (simp_all add: dstack_wf_def)
  note step = unwind_step [OF Suc.prems(1) cs Suc.prems(3,4)]
  show ?case
  proof (cases "chunk_effect act c (c # cs) (vars s, world s)")
    case (Inl e)
    then show ?thesis using step cs pos by (subst unwind_loop.simps) simp
  next
    case (Inr vw)
    let ?s = "unwound 1 s vw"
    have s1: "dstack_wf ?s" "chunks ?s = cs" "signals_blocked ?s" "(vars ?s, world ?s) = vw"
      using unwound_wf [OF Suc.prems(1), of 1 vw] cs Suc.prems(4) by (simp_all add: unwound_def)
    have "unwind_loop proc (top_addr (drop n cs)) ?s =
        Some (map_sum id (unwound n ?s) (unwind_effects act n cs vw))"
      using Suc.IH [OF s1(1) _ Suc.prems(3) s1(3)] s1 cs Suc.prems(2) by (simp add: id_def)
    then show ?thesis
      using step cs pos Inr unwound_Suc [OF cs] by (subst unwind_loop.simps) simp
  qed
qed

lemma find_position_spec:
  assumes "stack_wf cs" "\<forall>c \<in> set cs. chunk_at (addr c) s = Some c"
  shows "find_position position s (top_addr cs) =
    Some (if position = 0 \<or> position \<in> addr ` set cs then Inr () else Inl Position_Not_Found)"
  using assms
proof (induction cs)
  case Nil
  then show ?case by (subst find_position.simps) auto
next
  case (Cons c cs)
  then show ?case by (subst find_position.simps) auto
qed

lemma position_in_stack:
  assumes "position = 0 \<or> position \<in> addr ` set cs"
  shows "\<exists>n \<le> length cs. position = top_addr (drop n cs)"
proof (cases "position = 0")
  case True
  then show ?thesis by (intro exI [of _ "length cs"]) simp
next
  case False
  then obtain c where "c \<in> set cs" "position = addr c" using assms by auto
  then obtain n where n: "n < length cs" "cs ! n = c" by (auto simp: in_set_conv_nth)
  then have "drop n cs = c # drop (Suc n) cs" by (simp add: Cons_nth_drop_Suc [symmetric])
  then show ?thesis using \<open>position = addr c\<close> n by (intro exI [of _ n]) simp
qed

lemma dstack_set_position_spec:
  assumes wf: "dstack_wf s" and n: "n \<le> length (chunks s)" and "benign proc act"
  shows "dstack_set_position proc (top_addr (drop n (chunks s))) s =
    Some (map_sum id (\<lambda>vw. unblock_signals (unwound n s vw)) (unwind_effects act n (chunks s) (vars s, world s)))"
proof -
  let ?p = "top_addr (drop n (chunks s))"
  have wf': "dstack_wf (block_signals s)" using wf by (simp add: dstack_wf_def block_signals_def)
  have "chunk_at (addr c) (block_signals s) = Some c" if "c \<in> set (chunks s)" for c
    using find_chunk [OF _ that] wf by (auto simp: dstack_wf_def chunk_at_def block_signals_def)
  moreover have "?p = 0 \<or> ?p \<in> addr ` set (chunks s)"
    using in_set_dropD [of _ n "chunks s"] by (cases "drop n (chunks s)") auto
  ultimately have "find_position ?p (block_signals s) (dstack_position (block_signals s)) = Some (Inr ())"
    using find_position_spec [of "chunks s" "block_signals s" ?p] wf
    by (simp add: dstack_wf_def block_signals_def)
  moreover have "unwind_loop proc ?p (block_signals s) =
      Some (map_sum id (unwound n (block_signals s)) (unwind_effects act n (chunks s) (vars s, world s)))"
    using unwind_loop_spec [OF wf' _ assms(3), of n] n by (simp add: block_signals_def)
  moreover have "unblock_signals (unwound n (block_signals s) vw) = unblock_signals (unwound n s vw)" for vw
    by (simp add: unblock_signals_def block_signals_def unwound_def)
  ultimately show ?thesis
    by (simp add: dstack_set_position_def Let_def sum.map_comp comp_def id_def)
qed

subsection \<open>Sequences of operations\<close>

datatype stack_op =
    Op_Alloc nat
  | Op_Protect nat address
  | Op_Bind address nat
  | Op_Record transaction_action_type nat address

fun run_op :: "stack_op \<Rightarrow> 'w dstack \<Rightarrow> dstack_error + 'w dstack" where
  "run_op (Op_Alloc n) s = Inr (snd (dstack_alloc n (\<lambda>_. Storage) s))"
| "run_op (Op_Protect f env) s = Inr (dstack_protect (Procedure f) env s)"
| "run_op (Op_Bind location val) s = Inr (dstack_bind location val s)"
| "run_op (Op_Record type f env) s = transaction_record_action type f env s"

fun run_ops :: "stack_op list \<Rightarrow> 'w dstack \<Rightarrow> dstack_error + 'w dstack" where
  "run_ops [] s = Inr s"
| "run_ops (op # ops) s = bind_error (run_op op s) (run_ops ops)"

text \<open>What unwinding undoes, the latest operation first.\<close>

fun op_effect :: "(nat \<Rightarrow> address \<Rightarrow> 'w \<Rightarrow> 'w) \<Rightarrow> transaction_state \<Rightarrow> stack_op \<Rightarrow> 'w \<Rightarrow> 'w" where
  "op_effect act state (Op_Protect f env) w = act f env w"
| "op_effect act state (Op_Record type f env) w = (if action_runs type state then act f env w else w)"
| "op_effect act state _ w = w"

definition ops_effect :: "(nat \<Rightarrow> address \<Rightarrow> 'w \<Rightarrow> 'w) \<Rightarrow> transaction_state \<Rightarrow> stack_op list \<Rightarrow> 'w \<Rightarrow> 'w" where
  "ops_effect act state ops w = foldr (op_effect act state) ops w"

fun op_ok :: "stack_op \<Rightarrow> bool" where
  "op_ok (Op_Bind location _) \<longleftrightarrow> location \<noteq> CURRENT_TRANSACTION"
| "op_ok _ \<longleftrightarrow> True"

lemma unwind_effects_append:
  "m \<le> length cs \<Longrightarrow> unwind_effects act (m + n) cs vw =
    bind_error (unwind_effects act m cs vw) (unwind_effects act n (drop m cs))"
proof (induction m arbitrary: cs vw)
  case (Suc m)
  then obtain c cs' where cs: "cs = c # cs'" by (cases cs) auto
  show ?case using Suc by (cases "chunk_effect act c cs vw") (simp_all add: cs)
qed simp

lemma contents_in_Cons: "contents_in (c # cs) p = (if EXPORT (addr c) = p then Some (contents c) else contents_in cs p)"
  by (simp add: contents_in_def)

text \<open>Chunks may change the state of a transaction before they are unwound.\<close>

definition retype :: "address \<Rightarrow> transaction_state \<Rightarrow> chunk \<Rightarrow> chunk" where
  "retype p state c =
    (if EXPORT (addr c) = p
     then case contents c of
         Transaction checkpoint _ \<Rightarrow> c\<lparr>contents := Transaction checkpoint state\<rparr>
       | _ \<Rightarrow> c
     else c)"

lemma retype_simps [simp]:
  "addr (retype p state c) = addr c" "prev (retype p state c) = prev c"
  "contents c = Storage \<Longrightarrow> contents (retype p state c) = Storage"
  "contents c = Winding r \<Longrightarrow> contents (retype p state c) = Winding r"
  "contents c = Binding r l v \<Longrightarrow> contents (retype p state c) = Binding r l v"
  "contents c = Action t f e \<Longrightarrow> contents (retype p state c) = Action t f e"
  by (auto simp: retype_def split: contents.splits)

lemma winding_of_retype [simp]: "winding_of (contents (retype p state c)) = winding_of (contents c)"
  by (cases "contents c") (auto simp: retype_def)

lemma top_winding_retype [simp]: "top_winding (List.map (retype p state) cs) = top_winding cs"
  by (induction cs) simp_all

lemma top_addr_retype [simp]: "top_addr (List.map (retype p state) cs) = top_addr cs"
  by (cases cs) simp_all

lemma record_wf_retype: "record_wf c cs \<Longrightarrow> record_wf (retype p state c) (List.map (retype p state) cs)"
  by (cases "contents c") (simp_all add: record_wf_def retype_def)

lemma retype_extent [simp]: "extent (retype p state c) = extent c"
  by (simp add: retype_def split: contents.split)

lemma addresses_retype [simp]: "addr ` retype p state ` A = addr ` A"
  by (simp add: image_image)

lemma live_objects_retype [simp]: "live_objects (List.map (retype p state) cs) = live_objects cs"
  by (simp add: live_objects_def)

lemma stack_wf_retype: "stack_wf cs \<Longrightarrow> stack_wf (List.map (retype p state) cs)"
  by (induction cs) (simp_all add: record_wf_retype)

lemma contents_in_retype:
  "contents_in cs p = Some (Transaction cp st) \<Longrightarrow>
    contents_in (List.map (retype p state) cs) p = Some (Transaction cp state)"
  by (induction cs) (auto simp: contents_in_Cons contents_in_def [of "[]"] retype_def)

lemma contents_in_chunk: "contents_in cs p = Some x \<Longrightarrow> \<exists>c \<in> set cs. EXPORT (addr c) = p"
  by (induction cs) (auto simp: contents_in_Cons contents_in_def [of "[]"] split: if_splits)

definition in_transaction :: "'w dstack \<Rightarrow> address \<Rightarrow> bool" where
  "in_transaction s checkpoint \<longleftrightarrow>
    vars s CURRENT_TRANSACTION \<noteq> 0 \<and>
    contents_in (chunks s) (vars s CURRENT_TRANSACTION) = Some (Transaction checkpoint Active)"

definition recording :: "stack_op \<Rightarrow> bool" where
  "recording op \<longleftrightarrow> (case op of Op_Record _ _ _ \<Rightarrow> True | _ \<Rightarrow> False)"

text \<open>A new chunk has an address of its own.\<close>

lemma dstack_alloc_spec:
  assumes "dstack_wf s"
  obtains a h where "0 < a" "a \<notin> addr ` set (chunks s)" "obstack_idle ((a, WORD_SIZE + n) # live_objects (chunks s)) h"
    "\<And>content. dstack_alloc n content s =
      (EXPORT a, s\<lparr>dstack := h, chunks := \<lparr>addr = a, extent = WORD_SIZE + n, prev = dstack_position s, contents = content (EXPORT a)\<rparr> # chunks s,
        dstack_position := a, signals_blocked := False\<rparr>)"
proof -
  obtain a h where a: "obstack_alloc (WORD_SIZE + n) (dstack s) = (a, h)" by fastforce
  have idle: "obstack_idle (live_objects (chunks s)) (dstack s)" "0 < WORD_SIZE + n" using assms by (simp_all add: dstack_wf_def WORD_SIZE_def)
  show thesis
    using obs.alloc_fresh [OF idle a] by (intro that [of a h]) (simp_all add: dstack_alloc_def a block_signals_def unblock_signals_def Let_def)
qed

lemma dstack_bind_spec:
  assumes wf: "dstack_wf s"
  shows "\<exists>a r. dstack_wf (dstack_bind l x s) \<and> 0 < a \<and> a \<notin> addr ` set (chunks s) \<and>
    (\<exists>n. chunks (dstack_bind l x s) = \<lparr>addr = a, extent = n, prev = dstack_position s, contents = Binding r l (vars s l)\<rparr> # chunks s) \<and>
    vars (dstack_bind l x s) = (vars s)(l := x) \<and> world (dstack_bind l x s) = world s"
proof -
  let ?s = "s\<lparr>save_binding_location := l\<rparr>" and ?n = "WINDING_RECORD_SIZE + 2 * WORD_SIZE"
  have "dstack_wf ?s" using wf by (simp add: dstack_wf_def)
  from dstack_alloc_spec [OF this, of ?n] obtain a h where new: "0 < a" "a \<notin> addr ` set (chunks ?s)"
    "obstack_idle ((a, WORD_SIZE + ?n) # live_objects (chunks ?s)) h"
    "\<And>content. dstack_alloc ?n content ?s = (EXPORT a, ?s\<lparr>dstack := h, chunks := \<lparr>addr = a, extent = WORD_SIZE + ?n,
       prev = dstack_position ?s, contents = content (EXPORT a)\<rparr> # chunks ?s, dstack_position := a, signals_blocked := False\<rparr>)"
    by blast
  have "dstack_bind l x s = s\<lparr>dstack := h, chunks := \<lparr>addr = a, extent = WORD_SIZE + ?n, prev = dstack_position s, contents =
        Binding \<lparr>wr_next = current_winding_record s, wr_protector = Undo_Binding, wr_environment = EXPORT a + WINDING_RECORD_SIZE\<rparr> l (vars s l)\<rparr> # chunks s,
      dstack_position := a, signals_blocked := False, save_binding_location := l, current_winding_record := EXPORT a, vars := (vars s)(l := x)\<rparr>"
    by (simp add: dstack_bind_def dstack_alloc_and_protect_def new(4) save_binding_def Let_def)
  then show ?thesis using new(1-3) wf by (auto simp: dstack_wf_def record_wf_def)
qed

text \<open>One operation pushes one or two chunks, which unwinding removes again.\<close>

lemma run_op_spec:
  assumes wf: "dstack_wf s" and ok: "op_ok op"
    and tr: "recording op \<longrightarrow> in_transaction s cp"
  shows "\<exists>s1 cs. run_op op s = Inr s1 \<and> chunks s1 = cs @ chunks s \<and> cs \<noteq> [] \<and> dstack_wf s1 \<and>
    vars s1 CURRENT_TRANSACTION = vars s CURRENT_TRANSACTION \<and> world s1 = world s \<and>
    (\<forall>w. unwind_effects act (length cs)
      (List.map (retype (vars s CURRENT_TRANSACTION) state) (chunks s1)) (vars s1, w) =
        Inr (vars s, op_effect act state op w))"
proof -
  have st: "dstack_position s = top_addr (chunks s)" "current_winding_record s = top_winding (chunks s)"
    using wf by (auto simp: dstack_wf_def)
  note defs = dstack_protect_def dstack_alloc_and_protect_def dstack_bind_def save_binding_def Let_def dstack_wf_def record_wf_def chunk_effect_def
  show ?thesis
  proof (cases op)
    case (Op_Alloc n)
    obtain a h where new: "0 < a" "a \<notin> addr ` set (chunks s)" "obstack_idle ((a, WORD_SIZE + n) # live_objects (chunks s)) h"
      "\<And>content. dstack_alloc n content s = (EXPORT a, s\<lparr>dstack := h, chunks := \<lparr>addr = a, extent = WORD_SIZE + n,
         prev = dstack_position s, contents = content (EXPORT a)\<rparr> # chunks s, dstack_position := a, signals_blocked := False\<rparr>)"
      using dstack_alloc_spec [OF wf] by blast
    show ?thesis using new(1-3) wf
      by (intro exI [of _ "snd (dstack_alloc n (\<lambda>_. Storage) s)"]
          exI [of _ "[\<lparr>addr = a, extent = WORD_SIZE + n, prev = dstack_position s, contents = Storage\<rparr>]"])
        (simp add: Op_Alloc defs new(4))
  next
    case (Op_Protect f env)
    obtain a h where new: "0 < a" "a \<notin> addr ` set (chunks s)" "obstack_idle ((a, WORD_SIZE + WINDING_RECORD_SIZE) # live_objects (chunks s)) h"
      "\<And>content. dstack_alloc WINDING_RECORD_SIZE content s = (EXPORT a, s\<lparr>dstack := h, chunks := \<lparr>addr = a, extent = WORD_SIZE + WINDING_RECORD_SIZE,
         prev = dstack_position s, contents = content (EXPORT a)\<rparr> # chunks s, dstack_position := a, signals_blocked := False\<rparr>)"
      using dstack_alloc_spec [OF wf] by blast
    show ?thesis using new(1-3) wf
      by (intro exI [of _ "dstack_protect (Procedure f) env s"]
          exI [of _ "[\<lparr>addr = a, extent = WORD_SIZE + WINDING_RECORD_SIZE, prev = dstack_position s, contents =
            Winding \<lparr>wr_next = current_winding_record s, wr_protector = Procedure f, wr_environment = env\<rparr>\<rparr>]"])
        (simp add: Op_Protect defs new(4))
  next
    case (Op_Bind l x)
    obtain s1 a r where "dstack_bind l x s = s1" "dstack_wf s1" "0 < a" "a \<notin> addr ` set (chunks s)"
      "\<exists>n. chunks s1 = \<lparr>addr = a, extent = n, prev = dstack_position s, contents = Binding r l (vars s l)\<rparr> # chunks s"
      "vars s1 = (vars s)(l := x)" "world s1 = world s"
      using dstack_bind_spec [OF wf] by blast
    then show ?thesis using ok by (intro exI [of _ s1] exI [of _ "[hd (chunks s1)]"]) (auto simp: Op_Bind chunk_effect_def)
  next
    case (Op_Record type f env)
    have t: "vars s CURRENT_TRANSACTION \<noteq> 0"
        "contents_in (chunks s) (vars s CURRENT_TRANSACTION) = Some (Transaction cp Active)"
      using tr by (simp_all add: Op_Record recording_def in_transaction_def)
    obtain c where c: "c \<in> set (chunks s)" "EXPORT (addr c) = vars s CURRENT_TRANSACTION"
      using contents_in_chunk [OF t(2)] by blast
    let ?n = "3 * WORD_SIZE" and ?k = WINDING_RECORD_SIZE
    obtain x h where new: "0 < x" "x \<notin> addr ` set (chunks s)" "obstack_idle ((x, WORD_SIZE + ?n) # live_objects (chunks s)) h"
      "\<And>content. dstack_alloc ?n content s = (EXPORT x, s\<lparr>dstack := h, chunks := \<lparr>addr = x, extent = WORD_SIZE + ?n,
         prev = dstack_position s, contents = content (EXPORT x)\<rparr> # chunks s, dstack_position := x, signals_blocked := False\<rparr>)"
      using dstack_alloc_spec [OF wf] by blast
    define a where "a = \<lparr>addr = x, extent = WORD_SIZE + ?n, prev = dstack_position s, contents = Action type f env\<rparr>"
    define s0 where "s0 = s\<lparr>dstack := h, chunks := a # chunks s, dstack_position := x, signals_blocked := False\<rparr>"
    have wf0: "dstack_wf s0" using new(1-3) wf by (simp add: s0_def a_def dstack_wf_def record_wf_def)
    obtain y h' where new': "0 < y" "y \<notin> addr ` set (chunks s0)" "obstack_idle ((y, WORD_SIZE + ?k) # live_objects (chunks s0)) h'"
      "\<And>content. dstack_alloc ?k content s0 = (EXPORT y, s0\<lparr>dstack := h', chunks := \<lparr>addr = y, extent = WORD_SIZE + ?k,
         prev = dstack_position s0, contents = content (EXPORT y)\<rparr> # chunks s0, dstack_position := y, signals_blocked := False\<rparr>)"
      using dstack_alloc_spec [OF wf0] by blast
    define b where "b = \<lparr>addr = y, extent = WORD_SIZE + ?k, prev = x, contents =
      Winding \<lparr>wr_next = current_winding_record s, wr_protector = Execute_Action, wr_environment = EXPORT x\<rparr>\<rparr>"
    define s1 where "s1 = s0\<lparr>dstack := h', chunks := b # chunks s0, dstack_position := y, signals_blocked := False, current_winding_record := EXPORT y\<rparr>"
    have "dstack_alloc ?n (\<lambda>_. Action type f env) s = (EXPORT x, s0)" by (simp add: new(4) s0_def a_def)
    then have run: "run_op op s = Inr s1"
      using t by (simp add: Op_Record transaction_record_action_def guarantee_current_transaction_def contents_at_in dstack_protect_def new'(4) Let_def
          s1_def b_def) (simp add: s0_def)
    have s1: "chunks s1 = [b, a] @ chunks s" "vars s1 = vars s" "world s1 = world s" by (simp_all add: s1_def s0_def)
    have wf1: "dstack_wf s1"
      using new'(1-3) wf0 by (simp add: s1_def dstack_wf_def record_wf_def b_def) (simp add: s0_def)
    have ne: "EXPORT (addr b) \<noteq> vars s CURRENT_TRANSACTION" "EXPORT (addr a) \<noteq> vars s CURRENT_TRANSACTION" "addr b \<noteq> addr a"
      using new(2) new'(2) c by (auto simp: a_def b_def s0_def simp flip: c(2))
    have "unwind_effects act 2 (List.map (retype (vars s CURRENT_TRANSACTION) state) (chunks s1)) (vars s1, w) =
        Inr (vars s, op_effect act state op w)" for w
      using ne contents_in_retype [OF t(2), of state]
      by (simp add: s1(1,2) numeral_2_eq_2 chunk_effect_def contents_in_Cons Op_Record a_def b_def)
    then show ?thesis using run s1 wf1
      by (intro exI [of _ s1] exI [of _ "[b, a]"]) (simp add: numeral_2_eq_2)
  qed
qed

lemma contents_in_below:
  assumes "stack_wf (cs @ ds)" "contents_in ds p = Some x"
  shows "contents_in (cs @ ds) p = Some x"
  using assms
proof (induction cs)
  case (Cons c cs)
  obtain d where "d \<in> set ds" "EXPORT (addr d) = p" using contents_in_chunk [OF Cons.prems(2)] by blast
  moreover have "addr d \<noteq> addr c" using Cons.prems(1) calculation(1) by (simp add: image_Un) (metis imageI)
  ultimately show ?case using Cons by (auto simp: contents_in_Cons)
qed simp

lemma run_ops_spec:
  assumes "dstack_wf s" "\<forall>op \<in> set ops. op_ok op" "(\<exists>op \<in> set ops. recording op) \<longrightarrow> in_transaction s cp"
  shows "\<exists>s1 cs. run_ops ops s = Inr s1 \<and> chunks s1 = cs @ chunks s \<and> (cs = [] \<longrightarrow> s1 = s) \<and> dstack_wf s1 \<and>
    vars s1 CURRENT_TRANSACTION = vars s CURRENT_TRANSACTION \<and> world s1 = world s \<and>
    (\<forall>w. unwind_effects act (length cs)
      (List.map (retype (vars s CURRENT_TRANSACTION) state) (chunks s1)) (vars s1, w) =
        Inr (vars s, ops_effect act state ops w))"
  using assms
proof (induction ops arbitrary: s)
  case Nil
  then show ?case by (simp add: ops_effect_def)
next
  case (Cons op ops)
  obtain s1 cs where s1: "run_op op s = Inr s1" "chunks s1 = cs @ chunks s" "cs \<noteq> []" "dstack_wf s1"
      "vars s1 CURRENT_TRANSACTION = vars s CURRENT_TRANSACTION" "world s1 = world s"
      "\<forall>w. unwind_effects act (length cs) (List.map (retype (vars s CURRENT_TRANSACTION) state) (chunks s1)) (vars s1, w) =
        Inr (vars s, op_effect act state op w)"
    using run_op_spec [OF Cons.prems(1), of op cp act state] Cons.prems(2,3) by auto
  have "in_transaction s1 cp" if "in_transaction s cp"
  proof -
    have "contents_in (cs @ chunks s) (vars s CURRENT_TRANSACTION) = Some (Transaction cp Active)"
      using contents_in_below [of cs "chunks s"] s1(2,4) that
      by (simp add: dstack_wf_def in_transaction_def)
    then show ?thesis using that s1(2,5) by (simp add: in_transaction_def)
  qed
  then obtain s2 ds where s2: "run_ops ops s1 = Inr s2" "chunks s2 = ds @ chunks s1" "ds = [] \<longrightarrow> s2 = s1" "dstack_wf s2"
      "vars s2 CURRENT_TRANSACTION = vars s1 CURRENT_TRANSACTION" "world s2 = world s1"
      "\<forall>w. unwind_effects act (length ds) (List.map (retype (vars s1 CURRENT_TRANSACTION) state) (chunks s2)) (vars s2, w) =
        Inr (vars s1, ops_effect act state ops w)"
    using Cons.IH [OF s1(4)] Cons.prems(2,3) by (metis list.set_intros(2))
  let ?T = "retype (vars s CURRENT_TRANSACTION) state"
  have "unwind_effects act (length ds + length cs) (List.map ?T (chunks s2)) (vars s2, w) =
      Inr (vars s, op_effect act state op (ops_effect act state ops w))" for w
    using s2(2,7) s1(2,5,7) by (simp add: unwind_effects_append)
  then show ?case
    using s1 s2 by (intro exI [of _ s2] exI [of _ "ds @ cs"]) (simp add: ops_effect_def)
qed

lemma retype_absent: "\<forall>c \<in> set cs. EXPORT (addr c) \<noteq> p \<Longrightarrow> List.map (retype p st) cs = cs"
  by (induction cs) (simp_all add: retype_def)

lemma retype_same:
  "stack_wf cs \<Longrightarrow>
    \<exists>st. List.map (retype p st) cs = cs \<and> (\<forall>cp st'. contents_in cs p = Some (Transaction cp st') \<longrightarrow> st = st')"
proof (induction cs)
  case Nil
  then show ?case by (simp add: contents_in_def)
next
  case (Cons c cs)
  show ?case
  proof (cases "EXPORT (addr c) = p")
    case True
    then have "\<forall>d \<in> set cs. EXPORT (addr d) \<noteq> p" using Cons.prems by (auto simp: image_iff)
    then have "List.map (retype p st) cs = cs" for st by (rule retype_absent)
    then show ?thesis using True
      by (cases "contents c") (simp_all add: retype_def [of p _ c] contents_in_Cons)
  next
    case False
    then show ?thesis using Cons.IH Cons.prems by (simp add: retype_def [of p _ c] contents_in_Cons)
  qed
qed

lemma unwound_back:
  assumes "dstack_wf s" "chunks s1 = cs @ chunks s"
  shows "unblock_signals (unwound (length cs) s1 (vars s, w)) =
    s\<lparr>dstack := freed (length cs) (chunks s1) (dstack s1), world := w, save_binding_location := save_binding_location s1, signals_blocked := False\<rparr>"
  using assms by (intro dstack.equality) (simp_all add: unwound_def unblock_signals_def dstack_wf_def)

subsection \<open>Transactions\<close>

lemma set_state_retype:
  "set_state st s = s\<lparr>chunks := List.map (retype (vars s CURRENT_TRANSACTION) st) (chunks s)\<rparr>"
  unfolding set_state_def retype_def ..

lemma transaction_begin_spec:
  assumes wf: "dstack_wf s"
  defines "s1 \<equiv> transaction_begin s"
  shows "\<exists>b t r. dstack_wf s1 \<and> in_transaction s1 (dstack_position s) \<and> world s1 = world s \<and>
    vars s1 = (vars s)(CURRENT_TRANSACTION := EXPORT (addr t)) \<and> chunks s1 = [b, t] @ chunks s \<and> addr b \<noteq> addr t \<and> addr t \<notin> addr ` set (chunks s) \<and>
    contents t = Transaction (dstack_position s) Active \<and> contents b = Binding r CURRENT_TRANSACTION (vars s CURRENT_TRANSACTION)"
proof -
  let ?n = "2 * WORD_SIZE"
  obtain x h where new: "0 < x" "x \<notin> addr ` set (chunks s)" "obstack_idle ((x, WORD_SIZE + ?n) # live_objects (chunks s)) h"
    "\<And>content. dstack_alloc ?n content s = (EXPORT x, s\<lparr>dstack := h, chunks := \<lparr>addr = x, extent = WORD_SIZE + ?n,
       prev = dstack_position s, contents = content (EXPORT x)\<rparr> # chunks s, dstack_position := x, signals_blocked := False\<rparr>)"
    using dstack_alloc_spec [OF wf] by blast
  define t where "t = \<lparr>addr = x, extent = WORD_SIZE + ?n, prev = dstack_position s, contents = Transaction (dstack_position s) Active\<rparr>"
  define s0 where "s0 = s\<lparr>dstack := h, chunks := t # chunks s, dstack_position := x, signals_blocked := False\<rparr>"
  have wf0: "dstack_wf s0" using new(1-3) wf by (simp add: s0_def t_def dstack_wf_def record_wf_def)
  have s1: "s1 = dstack_bind CURRENT_TRANSACTION (EXPORT x) s0" by (simp add: s1_def transaction_begin_def new(4) s0_def t_def)
  from dstack_bind_spec [OF wf0, of CURRENT_TRANSACTION "EXPORT x"] obtain y r n where y: "dstack_wf s1" "y \<notin> addr ` set (chunks s0)"
    "chunks s1 = \<lparr>addr = y, extent = n, prev = dstack_position s0, contents = Binding r CURRENT_TRANSACTION (vars s0 CURRENT_TRANSACTION)\<rparr> # chunks s0"
    "vars s1 = (vars s0)(CURRENT_TRANSACTION := EXPORT x)" "world s1 = world s0"
    unfolding s1 by blast
  then have "y \<noteq> x" "addr t = x" "in_transaction s1 (dstack_position s)"
    by (auto simp: s0_def in_transaction_def contents_in_Cons t_def)
  then show ?thesis using y new(2)
    by (intro exI [of _ "hd (chunks s1)"] exI [of _ t] exI [of _ r]) (simp add: s0_def, simp add: t_def)
qed

lemma freed_retype: "freed n (List.map (retype p st) cs) h = freed n cs h"
  by (induction n cs h rule: freed.induct) simp_all

lemma finish_transaction:
  assumes wf: "dstack_wf s" and ok: "\<forall>op \<in> set ops. op_ok op" and b: "benign proc act"
  shows "\<exists>s2. run_ops ops (transaction_begin s) = Inr s2 \<and> in_transaction s2 (dstack_position s) \<and>
    dstack_set_position proc (dstack_position s) (set_state st s2) =
      Some (Inr (s\<lparr>dstack := freed (length (chunks s2) - length (chunks s)) (chunks s2) (dstack s2), world := ops_effect act st ops (world s),
        save_binding_location := save_binding_location s2, signals_blocked := False\<rparr>)) \<and>
    obstack_idle (live_objects (chunks s)) (freed (length (chunks s2) - length (chunks s)) (chunks s2) (dstack s2))"
proof -
  let ?s1 = "transaction_begin s"
  obtain c t r where s1: "dstack_wf ?s1" "in_transaction ?s1 (dstack_position s)" "world ?s1 = world s"
      "vars ?s1 = (vars s)(CURRENT_TRANSACTION := EXPORT (addr t))" and ct: "chunks ?s1 = [c, t] @ chunks s" "addr c \<noteq> addr t"
      "addr t \<notin> addr ` set (chunks s)" "contents t = Transaction (dstack_position s) Active"
      "contents c = Binding r CURRENT_TRANSACTION (vars s CURRENT_TRANSACTION)"
    using transaction_begin_spec [OF wf] by blast
  let ?T = "retype (EXPORT (addr t)) st"
  have tx: "vars ?s1 CURRENT_TRANSACTION = EXPORT (addr t)" using s1(4) by simp
  obtain s2 cs where s2: "run_ops ops ?s1 = Inr s2" "chunks s2 = cs @ chunks ?s1" "dstack_wf s2"
      "vars s2 CURRENT_TRANSACTION = EXPORT (addr t)" "world s2 = world s"
      "\<forall>w. unwind_effects act (length cs) (List.map ?T (chunks s2)) (vars s2, w) =
        Inr (vars ?s1, ops_effect act st ops w)"
    using run_ops_spec [OF s1(1) ok, of "dstack_position s" act st] s1(2) unfolding tx s1(3) by blast
  have tr: "in_transaction s2 (dstack_position s)"
    using contents_in_below [of cs "chunks ?s1"] s2(2-4) s1(2) tx
    by (simp add: in_transaction_def dstack_wf_def)
  let ?s3 = "set_state st s2" and ?n = "length cs + 2"
  have same: "List.map ?T (chunks s) = chunks s" using ct(3) by (intro map_idI) (auto simp: retype_def image_iff)
  have c3: "chunks ?s3 = List.map ?T (cs @ [c, t]) @ chunks s" "chunks ?s3 = List.map ?T (chunks s2)"
    using s2(2,4) ct(1) same by (simp_all add: set_state_retype)
  have wf3: "dstack_wf ?s3"
    using s2(3,4) stack_wf_retype by (simp add: dstack_wf_def set_state_retype)
  have "unwind_effects act 2 (drop (length cs) (chunks ?s3)) (vars ?s1, w) = Inr (vars s, w)" for w
    using ct s1(4) by (simp add: c3(1) numeral_2_eq_2 chunk_effect_def retype_def)
  then have "unwind_effects act ?n (chunks ?s3) (vars ?s3, world ?s3) = Inr (vars s, ops_effect act st ops (world s))"
    using s2(5,6) c3(2) s2(2) unwind_effects_append [of "length cs" "chunks ?s3" act 2]
    by (simp add: set_state_retype s2(4))
  moreover have "?n = length (List.map ?T (cs @ [c, t]))" by simp
  moreover have "top_addr (drop ?n (chunks ?s3)) = dstack_position s"
    using wf by (simp add: c3(1) dstack_wf_def)
  moreover have "unblock_signals (unwound (length (List.map ?T (cs @ [c, t]))) ?s3 (vars s, w)) =
      s\<lparr>dstack := freed ?n (chunks ?s3) (dstack ?s3), world := w, save_binding_location := save_binding_location ?s3, signals_blocked := False\<rparr>" for w
    using unwound_back [OF wf c3(1)] by simp
  moreover have "?n \<le> length (chunks ?s3)" by (simp add: c3(1))
  ultimately have "dstack_set_position proc (dstack_position s) ?s3 =
      Some (Inr (s\<lparr>dstack := freed ?n (chunks ?s3) (dstack ?s3), world := ops_effect act st ops (world s),
        save_binding_location := save_binding_location ?s3, signals_blocked := False\<rparr>))"
    using dstack_set_position_spec [OF wf3 _ b, of ?n] by simp
  moreover have "freed ?n (chunks ?s3) (dstack ?s3) = freed (length (chunks s2) - length (chunks s)) (chunks s2) (dstack s2)"
    using s2(2) ct(1) unfolding c3(2) freed_retype by (simp add: set_state_retype)
  moreover have "obstack_idle (live_objects (chunks s)) (freed ?n (chunks ?s3) (dstack ?s3))"
    using freed_idle [of "chunks ?s3" "dstack ?s3" ?n] wf3 by (simp add: dstack_wf_def c3(1))
  ultimately show ?thesis using s2(1) tr by (simp add: set_state_retype)
qed

lemma dstack_initialize_wf:
  assumes "malloc_ok (chunkfun (dstack s))"
  shows "dstack_wf (dstack_initialize s)"
proof -
  have "object_base (obstack_init h) = next_free (obstack_init h)" for h by (simp add: obstack_init_def obstack_begin_def Let_def)
  then show ?thesis using obstack_begin_wf [OF assms] by (simp add: dstack_wf_def dstack_initialize_def obstack_idle_def)
qed

text \<open>Resetting frees every chunk and starts with an empty stack.\<close>

lemma dstack_reset_wf:
  assumes "dstack_wf s"
  shows "\<exists>s'. dstack_reset s = Inr s' \<and> dstack_wf s' \<and> chunks s' = [] \<and> vars s' = vars s \<and> world s' = world s"
proof -
  have "free_chunks 0 cs = []" for cs by (induction cs) auto
  then have free: "obstack_free 0 (dstack s) = Some ((dstack s)\<lparr>chunk_list := []\<rparr>)" by (simp add: obstack_free_def obstack_free_function_def)
  let ?s = "(block_signals s)\<lparr>dstack := (dstack s)\<lparr>chunk_list := []\<rparr>\<rparr>"
  have "malloc_ok (chunkfun (dstack ?s))" using assms by (simp add: dstack_wf_def obstack_idle_def obstack_wf_def)
  from dstack_initialize_wf [OF this] show ?thesis
    using free by (intro exI [of _ "unblock_signals (dstack_initialize ?s)"])
      (simp add: dstack_reset_def Let_def block_signals_def unblock_signals_def dstack_initialize_def dstack_wf_def)
qed

definition log_procedure :: "(nat \<times> address) list procedures" where
  "log_procedure f env s = Inr (s\<lparr>world := world s @ [(f, env)]\<rparr>)"

lemma log_benign: "benign log_procedure (\<lambda>f env w. w @ [(f, env)])"
  by (simp add: benign_def log_procedure_def)

definition sample_dstack :: "(nat \<times> address) list dstack" where
  "sample_dstack =
    \<lparr>chunks = [], dstack = sample_obstack, dstack_position = 0, current_winding_record = 0,
     save_binding_location = 0, signals_blocked = False, vars = (\<lambda>_. 0), world = []\<rparr>"

lemma sample_dstack: "dstack_wf sample_dstack"
  by (simp add: dstack_wf_def sample_dstack_def sample_obstack_idle)

text \<open>C26: Unwinding the stack to any earlier position returns: it removes exactly the chunks above
  the position and calls their protectors, the latest first, each with the contents below it still
  in place; bindings are undone, procedures called and actions of transactions executed according
  to the state of the transaction. Afterwards the stack and its obstack are well formed and signals are enabled. The
  hypothesis is that the registered procedures are \<open>benign\<close>: each returns and changes only the world outside
  the stack and its bindings. A position that is not on the stack is an error with any procedures at all: the check
  comes before the first protector.\<close>
theorem dstack_set_position_correct:
  assumes "dstack_wf s" "benign proc act"
  shows "(position \<noteq> 0 \<and> position \<notin> addr ` set (chunks s) \<longrightarrow>
      (\<forall>proc'. dstack_set_position proc' position s = Some (Inl Position_Not_Found))) \<and>
    (n \<le> length (chunks s) \<longrightarrow>
      dstack_set_position proc (top_addr (drop n (chunks s))) s =
        Some (map_sum id (\<lambda>vw. unblock_signals (unwound n s vw))
          (unwind_effects act n (chunks s) (vars s, world s))) \<and>
      (\<forall>vw. dstack_wf (unblock_signals (unwound n s vw))))"
proof (intro conjI impI allI)
  fix proc' :: "'a procedures"
  assume "position \<noteq> 0 \<and> position \<notin> addr ` set (chunks s)"
  moreover have "chunk_at (addr c) (block_signals s) = Some c" if "c \<in> set (chunks s)" for c
    using find_chunk [OF _ that] assms(1) by (auto simp: dstack_wf_def chunk_at_def block_signals_def)
  ultimately have "find_position position (block_signals s) (dstack_position (block_signals s)) =
      Some (Inl Position_Not_Found)"
    using find_position_spec [of "chunks s" "block_signals s" position] assms(1)
    by (auto simp: dstack_wf_def block_signals_def)
  then show "dstack_set_position proc' position s = Some (Inl Position_Not_Found)"
    by (simp add: dstack_set_position_def Let_def)
next
  assume "n \<le> length (chunks s)"
  then show "dstack_set_position proc (top_addr (drop n (chunks s))) s =
        Some (map_sum id (\<lambda>vw. unblock_signals (unwound n s vw))
          (unwind_effects act n (chunks s) (vars s, world s)))"
    by (rule dstack_set_position_spec [OF assms(1) _ assms(2)])
next
  fix vw assume "n \<le> length (chunks s)"
  then show "dstack_wf (unblock_signals (unwound n s vw))"
    using unwound_wf [OF assms(1)] by (simp add: dstack_wf_def unblock_signals_def)
qed

text \<open>A binding and a protector above it, unwound to the empty stack.\<close>

theorem dstack_set_position_correct_witness:
  "\<exists>s s'. s = dstack_protect (Procedure 1) 11 (dstack_bind 16 7 sample_dstack) \<and> vars s 16 = 7 \<and> length (chunks s) = 2 \<and>
     dstack_set_position log_procedure 0 s = Some (Inr s') \<and> chunks s' = [] \<and> vars s' 16 = 0 \<and> world s' = [(1, 11)] \<and> dstack_wf s' \<and>
     dstack_set_position log_procedure 5 sample_dstack = Some (Inl Position_Not_Found)"
proof -
  let ?s0 = sample_dstack and ?s1 = "dstack_bind 16 7 sample_dstack"
  obtain a r n where s1: "dstack_wf ?s1" "chunks ?s1 = [\<lparr>addr = a, extent = n, prev = 0, contents = Binding r 16 0\<rparr>]" "vars ?s1 = (\<lambda>_. 0)(16 := 7)" "world ?s1 = []"
    using dstack_bind_spec [OF sample_dstack, of 16 7] by (auto simp: sample_dstack_def)
  obtain s cs where s: "run_op (Op_Protect 1 11) ?s1 = Inr s" "chunks s = cs @ chunks ?s1" "dstack_wf s" "world s = world ?s1"
    using run_op_spec [OF s1(1), of "Op_Protect 1 11" 0 "\<lambda>_ _ w. w" Active] unfolding recording_def by auto
  obtain b h where "0 < b" "b \<notin> addr ` set (chunks ?s1)" "obstack_idle ((b, WORD_SIZE + WINDING_RECORD_SIZE) # live_objects (chunks ?s1)) h"
    and new: "\<And>content. dstack_alloc WINDING_RECORD_SIZE content ?s1 = (EXPORT b, ?s1\<lparr>dstack := h, chunks := \<lparr>addr = b,
        extent = WORD_SIZE + WINDING_RECORD_SIZE, prev = dstack_position ?s1, contents = content (EXPORT b)\<rparr> # chunks ?s1,
        dstack_position := b, signals_blocked := False\<rparr>)"
    using dstack_alloc_spec [OF s1(1)] by blast
  have b: "s = dstack_protect (Procedure 1) 11 ?s1" "chunks s = \<lparr>addr = b, extent = WORD_SIZE + WINDING_RECORD_SIZE, prev = dstack_position ?s1, contents =
      Winding \<lparr>wr_next = current_winding_record ?s1, wr_protector = Procedure 1, wr_environment = 11\<rparr>\<rparr> # chunks ?s1" "vars s = vars ?s1"
    using s(1) by (auto simp: dstack_protect_def new)
  have "unwind_effects (\<lambda>f env w. w @ [(f, env)]) 2 (chunks s) (vars s, world s) = Inr (\<lambda>_. 0, [(1, 11)])"
    by (simp add: b(2,3) s1 s(4) numeral_2_eq_2 chunk_effect_def fun_eq_iff)
  then have "dstack_set_position log_procedure 0 s = Some (Inr (unblock_signals (unwound 2 s (\<lambda>_. 0, [(1, 11)]))))"
      "dstack_wf (unblock_signals (unwound 2 s (\<lambda>_. 0, [(1, 11)])))"
    using dstack_set_position_correct [OF s(3) log_benign, of 0 2] by (simp_all add: b(2) s1(2))
  moreover have "dstack_set_position log_procedure 5 ?s0 = Some (Inl Position_Not_Found)"
    using dstack_set_position_correct [OF sample_dstack log_benign, of 5] by (simp add: sample_dstack_def)
  moreover have "vars s 16 = 7" "length (chunks s) = 2" using b(2,3) s1(2,3) by simp_all
  moreover have "chunks (unblock_signals (unwound 2 s vw)) = []" "vars (unblock_signals (unwound 2 s vw)) = fst vw"
      "world (unblock_signals (unwound 2 s vw)) = snd vw" for vw
    using b(2) s1(2) by (simp_all add: unwound_def unblock_signals_def)
  moreover note b(1)
  ultimately show ?thesis
    by (intro exI [of _ s] exI [of _ "unblock_signals (unwound 2 s (\<lambda>_. 0, [(1, 11)]))"] conjI) simp_all
qed

text \<open>C27: Allocations, protectors, dynamic bindings and, inside an active transaction, recorded
  actions, in any order and number, are undone by unwinding to the position before them, as a
  non-local exit does: the stack, the winding records and every variable are as before, and the live objects of the
  obstack are those from before (it may keep a chunk of memory it has obtained meanwhile); the
  protectors, and the actions for an abort, have been called exactly once each, the latest first. The
  hypotheses: the procedures are \<open>benign\<close>, as in C26, and no operation binds the variable \<open>current_transaction\<close>.\<close>
theorem dynamic_extent_restored:
  assumes "dstack_wf s" "benign proc act" "\<forall>op \<in> set ops. op_ok op"
    and "(\<exists>op \<in> set ops. recording op) \<longrightarrow> in_transaction s cp"
  shows "\<exists>s' h. run_ops ops s = Inr s' \<and> dstack_wf s' \<and> obstack_idle (live_objects (chunks s)) h \<and>
    dstack_set_position proc (dstack_position s) s' =
      Some (Inr (s\<lparr>dstack := h, world := foldr (op_effect act Active) ops (world s),
        save_binding_location := save_binding_location s', signals_blocked := False\<rparr>))"
proof -
  obtain s1 cs where s1: "run_ops ops s = Inr s1" "chunks s1 = cs @ chunks s" "cs = [] \<longrightarrow> s1 = s" "dstack_wf s1"
      "world s1 = world s"
    using run_ops_spec [OF assms(1,3,4)] by blast
  obtain st where st: "List.map (retype (vars s CURRENT_TRANSACTION) st) (chunks s1) = chunks s1"
      "\<forall>cp st'. contents_in (chunks s1) (vars s CURRENT_TRANSACTION) = Some (Transaction cp st') \<longrightarrow> st = st'"
    using retype_same [of "chunks s1" "vars s CURRENT_TRANSACTION"] s1(4)
    by (auto simp: dstack_wf_def)
  have act: "st = Active" if "\<exists>op \<in> set ops. recording op"
    using contents_in_below [of cs "chunks s"] s1(2,4) assms(4) that st(2)
    by (auto simp: dstack_wf_def in_transaction_def)
  have "unwind_effects act (length cs) (List.map (retype (vars s CURRENT_TRANSACTION) st) (chunks s1)) (vars s1, w) =
        Inr (vars s, ops_effect act st ops w)" for w
    using run_ops_spec [OF assms(1,3,4), of act st] s1(1,2) by auto
  then have eff: "unwind_effects act (length cs) (chunks s1) (vars s1, w) = Inr (vars s, ops_effect act st ops w)" for w
    using st(1) by simp
  have "ops_effect act st ops w = foldr (op_effect act Active) ops w" for w
    unfolding ops_effect_def
  proof (rule foldr_cong)
    fix op x assume "op \<in> set ops"
    then have "recording op \<Longrightarrow> st = Active" using act by blast
    then show "op_effect act st op x = op_effect act Active op x"
      by (cases op) (simp_all add: recording_def)
  qed simp_all
  then have "dstack_set_position proc (dstack_position s) s1 =
      Some (Inr (unblock_signals (unwound (length cs) s1 (vars s, foldr (op_effect act Active) ops (world s)))))"
    using dstack_set_position_spec [OF s1(4) _ assms(2), of "length cs"] s1(2,5) eff assms(1)
    by (simp add: dstack_wf_def)
  moreover have "obstack_idle (live_objects (chunks s)) (freed (length cs) (chunks s1) (dstack s1))"
    using freed_idle [of "chunks s1" "dstack s1" "length cs"] s1(2,4) by (simp add: dstack_wf_def)
  ultimately show ?thesis using s1(1,4) unwound_back [OF assms(1) s1(2)] by auto
qed

theorem dynamic_extent_restored_witness:
  "\<exists>s'. run_ops [Op_Bind 16 7, Op_Protect 1 11, Op_Alloc 40, Op_Bind 16 9, Op_Protect 2 22] sample_dstack = Inr s' \<and>
    (\<exists>s''. dstack_set_position log_procedure 0 s' = Some (Inr s'') \<and>
      vars s'' = vars sample_dstack \<and> world s'' = [(2, 22), (1, 11)])"
proof -
  let ?ops = "[Op_Bind 16 7, Op_Protect 1 11, Op_Alloc 40, Op_Bind 16 9, Op_Protect 2 22]"
  have ok: "\<forall>op \<in> set ?ops. op_ok op" "(\<exists>op \<in> set ?ops. recording op) \<longrightarrow> in_transaction sample_dstack 0"
    by (simp_all add: CURRENT_TRANSACTION_def recording_def)
  show ?thesis
    using dynamic_extent_restored [OF sample_dstack log_benign ok] by (auto simp: sample_dstack_def)
qed

text \<open>C28: A transaction is all or nothing: beginning one, performing any operations inside it and
  committing calls exactly the recorded actions that are not for an abort, the latest first,
  and aborting calls exactly those that are not for a commit; in both cases protectors are called
  in order and the stack, every variable, the live objects of the obstack and the enclosing transaction are as
  before. The hypotheses: the procedures are \<open>benign\<close>, as in C26, and no operation binds the variable \<open>current_transaction\<close>.\<close>
theorem transaction_atomic:
  assumes "dstack_wf s" "benign proc act" "\<forall>op \<in> set ops. op_ok op"
  shows "\<exists>s' h h'. run_ops ops (transaction_begin s) = Inr s' \<and> obstack_idle (live_objects (chunks s)) h \<and> obstack_idle (live_objects (chunks s)) h' \<and>
    transaction_commit proc s' =
      Some (Inr (s\<lparr>dstack := h, world := foldr (op_effect act Committing) ops (world s),
        save_binding_location := save_binding_location s', signals_blocked := False\<rparr>)) \<and>
    transaction_abort proc s' =
      Some (Inr (s\<lparr>dstack := h', world := foldr (op_effect act Aborting) ops (world s),
        save_binding_location := save_binding_location s', signals_blocked := False\<rparr>))"
proof -
  obtain s' where s': "run_ops ops (transaction_begin s) = Inr s'" "in_transaction s' (dstack_position s)"
    using finish_transaction [OF assms(1,3,2)] by blast
  let ?h = "freed (length (chunks s') - length (chunks s)) (chunks s') (dstack s')"
  have "dstack_set_position proc (dstack_position s) (set_state st s') =
      Some (Inr (s\<lparr>dstack := ?h, world := ops_effect act st ops (world s), save_binding_location := save_binding_location s', signals_blocked := False\<rparr>))"
      "obstack_idle (live_objects (chunks s)) ?h" for st
    using finish_transaction [OF assms(1,3,2), of st] s'(1) by auto
  moreover have "guarantee_current_transaction caller s' = Inr (dstack_position s, Active)" for caller
    using s'(2) by (simp add: guarantee_current_transaction_def in_transaction_def contents_at_in)
  ultimately show ?thesis using s'(1)
    by (intro exI [of _ s'] exI [of _ ?h]) (simp add: transaction_commit_def transaction_abort_def ops_effect_def)
qed

theorem transaction_atomic_witness:
  "\<exists>s'. run_ops [Op_Record Tat_commit 1 0, Op_Record Tat_abort 2 0, Op_Record Tat_always 3 0]
        (transaction_begin sample_dstack) = Inr s' \<and>
    (\<exists>s''. transaction_commit log_procedure s' = Some (Inr s'') \<and> world s'' = [(3, 0), (1, 0)]) \<and>
    (\<exists>s''. transaction_abort log_procedure s' = Some (Inr s'') \<and> world s'' = [(3, 0), (2, 0)])"
proof -
  let ?ops = "[Op_Record Tat_commit 1 0, Op_Record Tat_abort 2 0, Op_Record Tat_always 3 0]"
  have ok: "\<forall>op \<in> set ?ops. op_ok op" by simp
  show ?thesis
    using transaction_atomic [OF sample_dstack log_benign ok] by (auto simp: sample_dstack_def action_runs_def)
qed

text \<open>Committing, aborting and recording need an active transaction: outside of any
  transaction, and while one is being committed or aborted, they report it and change nothing.\<close>
theorem transaction_guards:
  "(vars s CURRENT_TRANSACTION = 0 \<longrightarrow>
      transaction_commit proc s = Some (Inl (No_Transaction ''transaction_commit'')) \<and>
      transaction_abort proc s = Some (Inl (No_Transaction ''transaction_abort'')) \<and>
      transaction_record_action type f env s = Inl (No_Transaction ''transaction_record_action'')) \<and>
   (in_transaction s cp \<longrightarrow>
      transaction_commit proc (set_state Committing s) = Some (Inl (Commit_In_Progress ''transaction_commit'')) \<and>
      transaction_abort proc (set_state Committing s) = Some (Inl (Commit_In_Progress ''transaction_abort'')) \<and>
      transaction_commit proc (set_state Aborting s) = Some (Inl (Abort_In_Progress ''transaction_commit'')) \<and>
      transaction_abort proc (set_state Aborting s) = Some (Inl (Abort_In_Progress ''transaction_abort'')) \<and>
      transaction_record_action type f env (set_state Committing s) =
        Inl (Commit_In_Progress ''transaction_record_action'') \<and>
      transaction_record_action type f env (set_state Aborting s) =
        Inl (Abort_In_Progress ''transaction_record_action''))"
  by (simp add: transaction_commit_def transaction_abort_def transaction_record_action_def in_transaction_def
      guarantee_current_transaction_def set_state_retype contents_at_in contents_in_retype)

theorem transaction_guards_witness:
  "transaction_commit log_procedure sample_dstack = Some (Inl (No_Transaction ''transaction_commit'')) \<and>
   transaction_abort log_procedure (set_state Committing (transaction_begin sample_dstack)) =
     Some (Inl (Commit_In_Progress ''transaction_abort''))"
  using transaction_guards [of sample_dstack log_procedure]
    transaction_guards [of "transaction_begin sample_dstack" log_procedure] transaction_begin_spec [OF sample_dstack]
  by (auto simp: sample_dstack_def)

end
