(* ===== verification/GC_Ephemerons.thy ===== *)
theory GC_Ephemerons
  imports GC_Copy
begin

text \<open>
  The queue of ephemerons with live keys. When \<open>queue_ephemerons_for_key\<close> has moved an entry from
  its bucket to the queue it goes on with the entry's \<open>next\<close> field, which by then holds the queue.
\<close>

definition ephemeron_object :: "addr \<Rightarrow> scheme_object" where
  "ephemeron_object a = MAKE_POINTER_OBJECT TC_EPHEMERON a"

definition next_loc :: "addr \<Rightarrow> gc_state \<Rightarrow> addr" where
  "next_loc e s = NEWSPACE_TO_TOSPACE (e + EPHEMERON_NEXT) s"

definition has_key :: "addr \<Rightarrow> addr \<Rightarrow> gc_state \<Rightarrow> bool" where
  "has_key a e s \<longleftrightarrow>
    gc_ptr_type (READ_TOSPACE (e + EPHEMERON_KEY) s) = GC_POINTER_NORMAL \<and>
    OBJECT_ADDRESS (READ_TOSPACE (e + EPHEMERON_KEY) s) = a"

text \<open>The scan stands at the \<open>next\<close> field of \<open>p\<close>, the head of the queue, which leads to \<open>q\<close> with the same key.\<close>

definition queue_cycle :: "addr \<Rightarrow> addr \<Rightarrow> addr \<Rightarrow> gc_state \<Rightarrow> bool" where
  "queue_cycle a p q s \<longleftrightarrow>
    newspace_start s \<le> p \<and> newspace_start s \<le> q \<and> (p + EPHEMERON_SIZE \<le> q \<or> q + EPHEMERON_SIZE \<le> p) \<and>
    p < 2 ^ 58 \<and> q < 2 ^ 58 \<and> has_key a p s \<and> has_key a q s \<and>
    ephemeron_queue s = ephemeron_object p \<and> memory s (next_loc p s) = ephemeron_object q \<and>
    \<not> EPHEMERON_P (memory s (next_loc q s))"

lemma ephemeron_object_simps [simp]:
  assumes "a < 2 ^ 58"
  shows "EPHEMERON_P (ephemeron_object a)" "OBJECT_ADDRESS (ephemeron_object a) = a"
  using assms by (simp_all add: ephemeron_object_def EPHEMERON_P_def TC_EPHEMERON_def)

definition queue_cycle_step :: "addr \<Rightarrow> addr \<Rightarrow> gc_state \<Rightarrow> gc_state" where
  "queue_cycle_step p q s =
    (mem_write (next_loc q s) (ephemeron_object p) (mem_write (next_loc p s) (memory s (next_loc q s)) s))
      \<lparr>ephemeron_queue := ephemeron_object q\<rparr>"

lemma has_key_referent: "has_key a e s \<Longrightarrow>
  weak_referent_address (READ_TOSPACE (e + EPHEMERON_KEY) s) s = gc_return (Some a) s"
  by (simp add: has_key_def weak_referent_address_def)

lemma queue_cycle_unfold:
  assumes c: "queue_cycle a p q s"
  shows "queue_cycle a q p (queue_cycle_step p q s)" and "next_loc q (queue_cycle_step p q s) = next_loc q s"
proof -
  have ne: "next_loc q s \<noteq> next_loc p s" using c by (auto simp: queue_cycle_def next_loc_def NEWSPACE_TO_TOSPACE_def)
  have st: "newspace_start (queue_cycle_step p q s) = newspace_start s"
    "tospace_start (queue_cycle_step p q s) = tospace_start s"
    by (simp_all add: queue_cycle_step_def mem_write_def)
  then show nx: "next_loc q (queue_cycle_step p q s) = next_loc q s"
    by (simp add: next_loc_def NEWSPACE_TO_TOSPACE_def)
  have "next_loc p (queue_cycle_step p q s) = next_loc p s"
    using st by (simp add: next_loc_def NEWSPACE_TO_TOSPACE_def)
  moreover have "READ_TOSPACE (e + EPHEMERON_KEY) (queue_cycle_step p q s) = READ_TOSPACE (e + EPHEMERON_KEY) s"
    if "e = p \<or> e = q" for e
    using c that st
    by (auto simp: READ_TOSPACE_def NEWSPACE_TO_TOSPACE_def queue_cycle_step_def mem_write_def next_loc_def
        queue_cycle_def EPHEMERON_KEY_def EPHEMERON_NEXT_def EPHEMERON_SIZE_def)
  ultimately show "queue_cycle a q p (queue_cycle_step p q s)"
    using c st nx ne by (auto simp: queue_cycle_def has_key_def queue_cycle_step_def mem_write_def)
qed


lemma queue_loop_no_cycle:
  assumes "queue_loop a l s = Some y"
  shows "\<forall>p q. queue_cycle a p q s \<longrightarrow> l \<noteq> next_loc p s"
  using assms
proof (rule queue_loop.raw_induct [where P = "\<lambda>a l s y. \<forall>p q. queue_cycle a p q s \<longrightarrow> l \<noteq> next_loc p s", rotated])
  fix f :: "addr \<Rightarrow> addr \<Rightarrow> gc_state \<Rightarrow> unit gc_result" and a l s y
  assume IH: "\<And>a l s y. f a l s = Some y \<Longrightarrow> \<forall>p q. queue_cycle a p q s \<longrightarrow> l \<noteq> next_loc p s"
    and body: "(let entry = memory s l in
      if EPHEMERON_P entry then
        let entry_addr = OBJECT_ADDRESS entry; next_loc = NEWSPACE_TO_TOSPACE (entry_addr + EPHEMERON_NEXT) s
        in Option.bind (weak_referent_address (READ_TOSPACE (entry_addr + EPHEMERON_KEY) s) s)
             (\<lambda>r. case r of Inl e \<Rightarrow> Some (Inl e)
                | Inr (key_addr, s) \<Rightarrow>
                    if key_addr = Some a then
                      let next_entry = memory s next_loc; s = mem_write l next_entry s;
                          s = mem_write next_loc (ephemeron_queue s) s
                      in f a next_loc (s\<lparr>ephemeron_queue := entry\<rparr>)
                    else f a next_loc s)
      else Some (Inr ((), s))) = Some y"
  show "\<forall>p q. queue_cycle a p q s \<longrightarrow> l \<noteq> next_loc p s"
  proof (intro allI impI notI)
    fix p q assume c: "queue_cycle a p q s" and l: "l = next_loc p s"
    have ne: "next_loc q s \<noteq> next_loc p s" using c by (auto simp: queue_cycle_def next_loc_def NEWSPACE_TO_TOSPACE_def)
    have "f a (next_loc q s) (queue_cycle_step p q s) = Some y"
      using body c has_key_referent [of a q s] ne l
      by (simp add: queue_cycle_def queue_cycle_step_def Let_def next_loc_def [of q] gc_return_def mem_write_def)
    then show False using IH queue_cycle_unfold [OF c] by metis
  qed
qed

lemma queue_cycle_diverges: "queue_cycle a p q s \<Longrightarrow> queue_loop a (next_loc p s) s = None"
  using queue_loop_no_cycle by (cases "queue_loop a (next_loc p s) s") blast+

text \<open>C7: when the bucket of a key starts with an ephemeron of that key and the queue is one ephemeron of the same key, \<open>queue_ephemerons_for_key\<close> does not return: it moves the two ephemerons to the
  head of the queue in turn for ever.
\<close>

theorem queue_ephemerons_diverges:
  assumes b: "bucket = VECTOR_LOC (ephemeron_array s) (ephemeron_index a s)"
    and m: "memory s bucket = ephemeron_object q" "ephemeron_queue s = ephemeron_object p"
    and k: "has_key a p s" "has_key a q s" and last: "\<not> EPHEMERON_P (memory s (next_loc p s))"
    and l: "newspace_start s \<le> p" "p < 2 ^ 58" "newspace_start s \<le> q" "q < 2 ^ 58"
      "p + EPHEMERON_SIZE \<le> q \<or> q + EPHEMERON_SIZE \<le> p"
    and out: "bucket < tospace_start s"
  shows "queue_ephemerons_for_key a s = None"
proof -
  let ?s = "(mem_write (next_loc q s) (ephemeron_object p) (mem_write bucket (memory s (next_loc q s)) s))
    \<lparr>ephemeron_queue := ephemeron_object q\<rparr>"
  have nb: "bucket \<noteq> NEWSPACE_TO_TOSPACE x s" for x using out by (simp add: NEWSPACE_TO_TOSPACE_def)
  have st: "NEWSPACE_TO_TOSPACE x ?s = NEWSPACE_TO_TOSPACE x s" for x
    by (simp add: NEWSPACE_TO_TOSPACE_def mem_write_def)
  have nx: "next_loc e ?s = next_loc e s" for e unfolding next_loc_def [of e] by (rule st)
  have keys: "READ_TOSPACE (e + EPHEMERON_KEY) ?s = READ_TOSPACE (e + EPHEMERON_KEY) s" if "e = p \<or> e = q" for e
    using nb that l unfolding READ_TOSPACE_def st
    by (auto simp: NEWSPACE_TO_TOSPACE_def mem_write_def next_loc_def EPHEMERON_KEY_def EPHEMERON_NEXT_def EPHEMERON_SIZE_def)
  have ne: "next_loc q s \<noteq> next_loc p s" using l
    by (auto simp: next_loc_def NEWSPACE_TO_TOSPACE_def EPHEMERON_SIZE_def)
  have "queue_cycle a q p ?s"
    unfolding queue_cycle_def has_key_def nx using l k keys last ne nb [of "p + EPHEMERON_NEXT"]
    by (auto simp: has_key_def mem_write_def next_loc_def)
  then have "queue_loop a (next_loc q s) ?s = None" using queue_cycle_diverges nx by metis
  moreover have "queue_loop a bucket s = queue_loop a (next_loc q s) ?s"
    using m l has_key_referent [OF k(2)] nb [of "q + EPHEMERON_NEXT"]
    by (subst queue_loop.simps) (simp add: Let_def next_loc_def gc_return_def mem_write_def)
  ultimately show ?thesis by (simp add: queue_ephemerons_for_key_def b)
qed


definition demo_queue :: gc_state where
  "demo_queue = \<lparr>memory = (\<lambda>_. 0)(50 := MAKE_OBJECT TC_MANIFEST_VECTOR 1, 51 := ephemeron_object 15,
       111 := MAKE_POINTER_OBJECT TC_LIST 7, 116 := MAKE_POINTER_OBJECT TC_LIST 7),
     memory_base = 4096, fromspace_start = 0, fromspace_end = 60, tospace_start = 110, tospace_next = 120, tospace_end = 200,
     newspace_start = 10, newspace_next = 20, newspace_end = 100, tospace_open_p = True,
     weak_chain = None, ephemeron_list = SHARP_F, ephemeron_queue = ephemeron_object 10, scanning_ephemerons_p = True,
     ephemeron_array = MAKE_POINTER_OBJECT 0x0A 50, ephemeron_count = 2\<rparr>"

theorem queue_ephemerons_diverges_witness:
  "VECTOR_LOC (ephemeron_array demo_queue) (ephemeron_index 7 demo_queue) = 51 \<and>
   queue_ephemerons_for_key 7 demo_queue = None"
proof -
  have b: "VECTOR_LOC (ephemeron_array demo_queue) (ephemeron_index 7 demo_queue) = 51"
    by (simp add: demo_queue_def VECTOR_LOC_def ephemeron_index_def VECTOR_LENGTH_def TC_MANIFEST_VECTOR_def)
  have k: "has_key 7 e demo_queue" if "e = 10 \<or> e = 15" for e
    using that
    by (auto simp: has_key_def demo_queue_def READ_TOSPACE_def NEWSPACE_TO_TOSPACE_def EPHEMERON_KEY_def gc_ptr_type_def
        TC_LIST_def gc_type_code_def gc_type_map_def)
  have "\<not> EPHEMERON_P (memory demo_queue (next_loc 10 demo_queue))"
    by (simp add: demo_queue_def next_loc_def NEWSPACE_TO_TOSPACE_def EPHEMERON_NEXT_def EPHEMERON_P_def OBJECT_TYPE_def
        TC_EPHEMERON_def)
  then have "queue_ephemerons_for_key 7 demo_queue = None"
    using queue_ephemerons_diverges [OF b [symmetric], of 15 10] k
    by (simp add: demo_queue_def EPHEMERON_SIZE_def)
  with b show ?thesis by blast
qed

end
