(* ===== verification/Evaluator.thy ===== *)
theory Evaluator
  imports Interp_State
begin

text \<open>
  The specification of the interpreter: a recursive evaluator of S-code without registers, stack
  and continuations. \<open>evaluates p L d m env x v m'\<close> says that the expression \<open>x\<close> has the value \<open>v\<close> in the
  environment \<open>env\<close>, changes the heap from that of \<open>m\<close> to that of \<open>m'\<close> and needs \<open>d\<close> words of
  stack. The depth of a conditional, a sequence or a combination is that of its last part where
  this is larger: an expression in tail position needs no stack of its own.
\<close>

subsection \<open>The evaluator\<close>

definition self_evaluating :: "scheme_object \<Rightarrow> bool" where
  "self_evaluating x \<longleftrightarrow> OBJECT_TYPE x \<notin> {TC_ACCESS, TC_ASSIGNMENT, TC_BROKEN_HEART, TC_COMBINATION, TC_COMMENT, TC_CONDITIONAL,
    TC_DEFINITION, TC_DELAY, TC_DISJUNCTION, TC_EXTENDED_LAMBDA, TC_LAMBDA, TC_LEXPR, TC_MANIFEST_NM_VECTOR, TC_SCODE_QUOTE,
    TC_SEQUENCE, TC_SYNTAX_ERROR, TC_THE_ENVIRONMENT, TC_VARIABLE}"

text \<open>The first \<open>n\<close> words of an object and the next \<open>n\<close> words of the heap are not dirty.\<close>

definition clean :: "layout \<Rightarrow> scheme_object \<Rightarrow> nat \<Rightarrow> bool" where
  "clean L x n \<longleftrightarrow> (\<forall>k < n. MEMORY_LOC x k \<notin> dirty L)"
definition clean_heap :: "layout \<Rightarrow> machine \<Rightarrow> nat \<Rightarrow> bool" where
  "clean_heap L m n \<longleftrightarrow> (\<forall>k < n. Free m + k \<notin> dirty L)"

text \<open>
  An operation on variables gives the same result on every machine with this heap, and a primitive the
  same value for these arguments; neither touches the stack and the history.
\<close>

definition operation_gives :: "layout \<Rightarrow> (machine \<Rightarrow> lookup_result) \<Rightarrow> machine \<Rightarrow> lookup_code \<Rightarrow> scheme_object option \<Rightarrow> machine \<Rightarrow> bool" where
  "operation_gives L f m code v m' \<longleftrightarrow>
    (\<forall>i. interp_at L i m [] i \<longrightarrow>
      (\<exists>c. f (regs i) = machine_return (code, v) c \<and> exp_register c = exp_register (regs i) \<and> interp_at L i m' [] (i\<lparr>regs := c\<rparr>)))"

definition primitive_gives :: "primitive_code \<Rightarrow> layout \<Rightarrow> primitive_procedure \<Rightarrow> scheme_object list \<Rightarrow> machine \<Rightarrow> scheme_object \<Rightarrow> machine \<Rightarrow> bool" where
  "primitive_gives p L procedure args m v m' \<longleftrightarrow>
    (\<forall>i. interp_at L i m [] i \<and> (\<forall>k < length args. STACK_REF k i = args ! k) \<longrightarrow>
      (\<exists>i'. call p procedure i = Some (Prim_Value v i') \<and> interp_at L i m' [] i'))"

text \<open>The frame of a compound procedure, a vector of the procedure and the arguments, in the heap.\<close>

definition frame_of :: "scheme_object \<Rightarrow> scheme_object list \<Rightarrow> machine \<Rightarrow> machine" where
  "frame_of f args m = fold push_heap (MAKE_OBJECT TC_MANIFEST_VECTOR (of_nat (length args + 1)) # f # args) m"

text \<open>
  The frame of an extended procedure: missing optional arguments are default objects, the
  arguments after the optional ones are a list, and the internal definitions are unassigned. The list
  begins at the address after the frame.
\<close>

fun list_words :: "addr \<Rightarrow> scheme_object list \<Rightarrow> scheme_object list" where
  "list_words a [] = []"
| "list_words a [x] = [x, EMPTY_LIST]"
| "list_words a (x # y # ys) = x # MAKE_POINTER_OBJECT TC_LIST (a + 2) # list_words (a + 2) (y # ys)"

definition extended_frame :: "scheme_object \<Rightarrow> nat \<Rightarrow> addr \<Rightarrow> scheme_object \<Rightarrow> scheme_object list \<Rightarrow> scheme_object list option" where
  "extended_frame counts nparams a f args =
    (let formals = Elambda_Formals_Count counts; params = Elambda_Opts_Count counts + formals; rest_flag = Elambda_Rest_Flag counts;
         auxes = nparams - (params + rest_flag); size = params + rest_flag + auxes + 1; nargs = length args
     in if nargs < formals \<or> rest_flag = 0 \<and> nargs > params then None
        else Some (MAKE_OBJECT TC_MANIFEST_VECTOR (of_nat size) # f #
          (if nargs \<le> params
           then args @ replicate (params - nargs) DEFAULT_OBJECT @ (if rest_flag \<noteq> 0 then [EMPTY_LIST] else []) @ replicate auxes UNASSIGNED_OBJECT
           else take params args @ MAKE_POINTER_OBJECT TC_LIST (a + 1 + size) # replicate auxes UNASSIGNED_OBJECT @ list_words (a + 1 + size) (drop params args))))"

inductive evaluates :: "primitive_code \<Rightarrow> layout \<Rightarrow> nat \<Rightarrow> machine \<Rightarrow> scheme_object \<Rightarrow> scheme_object \<Rightarrow> scheme_object \<Rightarrow> machine \<Rightarrow> bool"
  and evaluates_operands :: "primitive_code \<Rightarrow> layout \<Rightarrow> nat \<Rightarrow> machine \<Rightarrow> scheme_object \<Rightarrow> scheme_object \<Rightarrow> scheme_object list \<Rightarrow> machine \<Rightarrow> bool"
  and applies :: "primitive_code \<Rightarrow> layout \<Rightarrow> nat \<Rightarrow> machine \<Rightarrow> scheme_object \<Rightarrow> scheme_object list \<Rightarrow> scheme_object \<Rightarrow> machine \<Rightarrow> bool"
  for p L where
  eval_self: "self_evaluating x \<Longrightarrow> evaluates p L 0 m env x x m"
| eval_quote: "\<lbrakk>OBJECT_TYPE x = TC_SCODE_QUOTE; clean L x 1\<rbrakk> \<Longrightarrow> evaluates p L 0 m env x (MEMORY_REF x SCODE_QUOTE_OBJECT m) m"
| eval_environment: "OBJECT_TYPE x = TC_THE_ENVIRONMENT \<Longrightarrow> evaluates p L 0 m env x env m"
| eval_lambda: "\<lbrakk>OBJECT_TYPE x = TC_LAMBDA \<or> OBJECT_TYPE x = TC_LEXPR; clean_heap L m 2\<rbrakk> \<Longrightarrow>
    evaluates p L 0 m env x (MAKE_POINTER_OBJECT TC_PROCEDURE (Free m)) (push_heap env (push_heap x m))"
| eval_extended_lambda: "\<lbrakk>OBJECT_TYPE x = TC_EXTENDED_LAMBDA; clean_heap L m 2\<rbrakk> \<Longrightarrow>
    evaluates p L 0 m env x (MAKE_POINTER_OBJECT TC_EXTENDED_PROCEDURE (Free m)) (push_heap env (push_heap x m))"
| eval_delay: "\<lbrakk>OBJECT_TYPE x = TC_DELAY; clean L x 1; clean_heap L m 2\<rbrakk> \<Longrightarrow>
    evaluates p L 0 m env x (MAKE_POINTER_OBJECT TC_DELAYED (Free m)) (push_heap (MEMORY_REF x DELAY_OBJECT m) (push_heap env m))"
| eval_comment: "\<lbrakk>OBJECT_TYPE x = TC_COMMENT; clean L x 1; evaluates p L d m env (MEMORY_REF x COMMENT_EXPRESSION m) v m'\<rbrakk> \<Longrightarrow>
    evaluates p L d m env x v m'"
| eval_variable: "\<lbrakk>OBJECT_TYPE x = TC_VARIABLE; clean L x 2; operation_gives L (lookup_variable env (VARIABLE_SYMBOL x m)) m PRIM_DONE (Some v) m'\<rbrakk> \<Longrightarrow>
    evaluates p L 0 m env x v m'"
| eval_access: "\<lbrakk>OBJECT_TYPE x = TC_ACCESS; clean L x 2; evaluates p L d m env (MEMORY_REF x ACCESS_ENVIRONMENT m) e m1;
    operation_gives L (lookup_variable e (MEMORY_REF x ACCESS_NAME m1)) m1 PRIM_DONE (Some v) m'\<rbrakk> \<Longrightarrow>
    evaluates p L (d + 2) m env x v m'"
| eval_assignment: "\<lbrakk>OBJECT_TYPE x = TC_ASSIGNMENT; clean L x 2; evaluates p L d m env (MEMORY_REF x ASSIGN_VALUE m) w m1;
    variable = MEMORY_REF x ASSIGN_NAME m1; OBJECT_TYPE variable = TC_VARIABLE; clean L variable 1;
    operation_gives L (assign_variable env (VARIABLE_SYMBOL variable m1) w) m1 PRIM_DONE (Some v) m'\<rbrakk> \<Longrightarrow>
    evaluates p L (d + 3) m env x v m'"
| eval_definition: "\<lbrakk>OBJECT_TYPE x = TC_DEFINITION; clean L x 2; evaluates p L d m env (MEMORY_REF x DEFINE_VALUE m) w m1;
    operation_gives L (define_variable env (MEMORY_REF x DEFINE_NAME m1) w) m1 PRIM_DONE old m'\<rbrakk> \<Longrightarrow>
    evaluates p L (d + 3) m env x (MEMORY_REF x DEFINE_NAME m1) m'"
| eval_conditional: "\<lbrakk>OBJECT_TYPE x = TC_CONDITIONAL; clean L x 3; evaluates p L d1 m env (MEMORY_REF x COND_PREDICATE m) w m1;
    evaluates p L d2 m1 env (MEMORY_REF x (if w = SHARP_F then COND_ALTERNATIVE else COND_CONSEQUENT) m1) v m'\<rbrakk> \<Longrightarrow>
    evaluates p L (max (d1 + 3) d2) m env x v m'"
| eval_disjunction_true: "\<lbrakk>OBJECT_TYPE x = TC_DISJUNCTION; clean L x 2; evaluates p L d m env (MEMORY_REF x OR_PREDICATE m) v m'; v \<noteq> SHARP_F\<rbrakk> \<Longrightarrow>
    evaluates p L (d + 3) m env x v m'"
| eval_disjunction_false: "\<lbrakk>OBJECT_TYPE x = TC_DISJUNCTION; clean L x 2; evaluates p L d1 m env (MEMORY_REF x OR_PREDICATE m) SHARP_F m1;
    evaluates p L d2 m1 env (MEMORY_REF x OR_ALTERNATIVE m1) v m'\<rbrakk> \<Longrightarrow>
    evaluates p L (max (d1 + 3) d2) m env x v m'"
| eval_sequence: "\<lbrakk>OBJECT_TYPE x = TC_SEQUENCE; clean L x 2; evaluates p L d1 m env (MEMORY_REF x SEQUENCE_1 m) w m1;
    evaluates p L d2 m1 env (MEMORY_REF x SEQUENCE_2 m1) v m'\<rbrakk> \<Longrightarrow>
    evaluates p L (max (d1 + 3) d2) m env x v m'"
| eval_combination: "\<lbrakk>OBJECT_TYPE x = TC_COMBINATION; VECTOR_LENGTH_heap x m = length args + 1; clean L x (length args + 2);
    evaluates_operands p L d1 m env x args m1; VECTOR_LENGTH_heap x m1 = length args + 1;
    evaluates p L d2 m1 env (MEMORY_REF x COMB_FN_SLOT m1) f m2; applies p L d3 m2 f args v m'\<rbrakk> \<Longrightarrow>
    evaluates p L (max (length args + 4 + max d1 d2) d3) m env x v m'"
| operands_none: "evaluates_operands p L 0 m env x [] m"
| operands_last: "\<lbrakk>evaluates p L d1 m env (MEMORY_REF x (length vs + 2) m) v m1; evaluates_operands p L d2 m1 env x vs m'\<rbrakk> \<Longrightarrow>
    evaluates_operands p L (max d1 d2) m env x (vs @ [v]) m'"
| apply_compound: "\<lbrakk>OBJECT_TYPE f = TC_PROCEDURE; clean L f 2; lambda = MEMORY_REF f PROCEDURE_LAMBDA_EXPR m; clean L lambda 2;
    formals = MEMORY_REF lambda LAMBDA_FORMALS m; clean L formals 1;
    length args + 1 = VECTOR_LENGTH_heap formals m \<or> OBJECT_TYPE lambda = TC_LEXPR \<and> VECTOR_LENGTH_heap formals m \<le> length args + 1;
    PENDING_INTERRUPTS m = 0; \<not> GC_NEEDED_P (length args + 2) m; clean_heap L m (length args + 2);
    evaluates p L d (frame_of f args m) (MAKE_POINTER_OBJECT TC_ENVIRONMENT (Free m)) (MEMORY_REF lambda LAMBDA_SCODE (frame_of f args m)) v m'\<rbrakk> \<Longrightarrow>
    applies p L d m f args v m'"
| apply_extended: "\<lbrakk>OBJECT_TYPE f = TC_EXTENDED_PROCEDURE; clean L f 2; lambda = MEMORY_REF f PROCEDURE_LAMBDA_EXPR m; clean L lambda 3;
    names = MEMORY_REF lambda ELAMBDA_NAMES m; clean L names 1;
    extended_frame (MEMORY_REF lambda ELAMBDA_ARG_COUNT m) (VECTOR_LENGTH_heap names m - 1) (Free m) f args = Some frame;
    PENDING_INTERRUPTS m = 0; \<not> GC_NEEDED_P (length frame) m; clean_heap L m (length frame);
    evaluates p L d (fold push_heap frame m) (MAKE_POINTER_OBJECT TC_ENVIRONMENT (Free m)) (MEMORY_REF lambda ELAMBDA_SCODE (fold push_heap frame m)) v m'\<rbrakk> \<Longrightarrow>
    applies p L d m f args v m'"
| apply_primitive: "\<lbrakk>OBJECT_TYPE f = TC_PRIMITIVE; PENDING_INTERRUPTS m = 0; IMPLEMENTED_PRIMITIVE_P f (tables p) = Some True;
    PRIMITIVE_ARITY f (tables p) = Some arity; arity = int (length args) \<or> arity = LEXPR_PRIMITIVE_ARITY;
    fetch (Primitive_Procedure_Table (tables p)) (unat (PRIMITIVE_NUMBER f)) = Some procedure; primitive_gives p L procedure args m v m'\<rbrakk> \<Longrightarrow>
    applies p L 0 m f args v m'"
| apply_entity: "\<lbrakk>OBJECT_TYPE f = TC_ENTITY; length args + 2 < 2 ^ 58; clean L f 2; PENDING_INTERRUPTS m = 0; \<not> VECTOR_P (MEMORY_REF f ENTITY_DATA m);
    applies p L d m (MEMORY_REF f ENTITY_OPERATOR m) (f # args) v m'\<rbrakk> \<Longrightarrow>
    applies p L (max (length args + 3) d) m f args v m'"

end
