(* ===== verification/Interp_Correct.thy ===== *)
theory Interp_Correct
  imports Interp_Steps Evaluator
begin

text \<open>
  The interpreter implements the evaluator: by induction on the evaluation, the machine of interp.c started on
  an expression reaches the end of its evaluation with the value in its register, the same
  stack and the heap of the specification. \<open>computes\<close>, \<open>operands_compute\<close> and \<open>application_computes\<close> are the
  three induction hypotheses; there is one lemma for each kind of expression and of procedure.
\<close>

subsection \<open>The interpreter implements the evaluator\<close>

definition computes :: "primitive_code \<Rightarrow> layout \<Rightarrow> nat \<Rightarrow> machine \<Rightarrow> scheme_object \<Rightarrow> scheme_object \<Rightarrow> scheme_object \<Rightarrow> machine \<Rightarrow> bool" where
  "computes p L d m env x v m' \<longleftrightarrow>
    (\<forall>i. interp_at L i m [] i \<and> stack_room L d i \<and> GET_EXP i = x \<and> env_register i = env \<longrightarrow>
      (\<exists>i'. runs p Do_Expression i Pop_Return i' \<and> interp_at L i m' [] i' \<and> val_register i' = v))"

lemma computes_below:
  assumes "computes p L d m env x v m'" "interp_at L i0 m ws i" "stack_room L (length ws + d) i0" "GET_EXP i = x" "env_register i = env"
  shows "\<exists>i'. runs p Do_Expression i Pop_Return i' \<and> interp_at L i0 m' ws i' \<and> val_register i' = v"
proof -
  have "interp_at L i m [] i" "stack_room L d i" using assms(2,3) interp_at_self stack_room_pushed by blast+
  then obtain i' where "runs p Do_Expression i Pop_Return i'" "interp_at L i m' [] i'" "val_register i' = v"
    using assms(1,4,5) unfolding computes_def by blast
  moreover have "stack_room L (length ws) i0" using assms(3) by (rule stack_room_mono) simp
  ultimately show ?thesis using interp_at_trans [OF assms(2)] by blast
qed

lemma computes_value:
  assumes "\<And>i. \<lbrakk>interp_at L i m [] i; stack_room L d i; GET_EXP i = x; env_register i = env\<rbrakk> \<Longrightarrow> \<exists>i'. do_expression i = Goto Pop_Return i' \<and> interp_at L i m' [] i' \<and> val_register i' = v"
  shows "computes p L d m env x v m'"
  unfolding computes_def
proof (intro allI impI)
  fix i assume "interp_at L i m [] i \<and> stack_room L d i \<and> GET_EXP i = x \<and> env_register i = env"
  then obtain i' where i': "do_expression i = Goto Pop_Return i'" "interp_at L i m' [] i' \<and> val_register i' = v" using assms by blast
  then have "runs p Do_Expression i Pop_Return i'" by (auto intro: do_expression_runs runs_refl)
  with i' show "\<exists>i'. runs p Do_Expression i Pop_Return i' \<and> interp_at L i m' [] i' \<and> val_register i' = v" by blast
qed

lemma reduction_computes:
  assumes ok: "layout_ok L" and c: "computes p L d m env x v m'" and i: "interp_at L i0 m [] i" and room: "stack_room L d i0" and e: "env_register i = env"
    and step: "interp_step p l j = REDUCES_TO x i"
  shows "\<exists>i'. runs p l j Pop_Return i' \<and> interp_at L i0 m' [] i' \<and> val_register i' = v"
proof -
  have "stack_room L (length ([] :: scheme_object list)) i0" using room by (rule stack_room_mono) simp
  from reduces_to_at [OF ok i this, of x] obtain i1 where
    i1: "REDUCES_TO x i = Goto Do_Expression i1" "interp_at L i0 m [] i1" "GET_EXP i1 = x" "env_register i1 = env" using e by blast
  from computes_below [OF c i1(2) _ i1(3,4)] room obtain i' where
    "runs p Do_Expression i1 Pop_Return i'" "interp_at L i0 m' [] i'" "val_register i' = v" by auto
  then show ?thesis using runs_step [of p l j Do_Expression i1] step i1(1) by auto
qed

text \<open>A component is evaluated with the environment saved, and control returns to its continuation.\<close>

lemma component_computes:
  assumes ok: "layout_ok L" and c: "computes p L d m env (MEMORY_REF x n m) w m1" and i: "interp_at L i m [] i" and room: "stack_room L (d + 3) i"
    and x: "GET_EXP i = x" and e: "env_register i = env" and clean: "MEMORY_LOC x n \<notin> dirty L" and step: "do_expression i = eval_component rc n i"
  shows "\<exists>i1. runs p Do_Expression i Pop_Return i1 \<and> interp_at L i m1 [MAKE_RETURN_CODE rc, x, env] i1 \<and> val_register i1 = w"
proof -
  have "stack_room L 3 i" using room by (rule stack_room_mono) simp
  from eval_component_at [OF ok i this, of n rc] obtain j where
    j: "eval_component rc n i = Goto Do_Expression j" "interp_at L i m [MAKE_RETURN_CODE rc, x, env] j" "GET_EXP j = MEMORY_REF x n m" "env_register j = env"
    using x e clean by auto
  have "stack_room L (length [MAKE_RETURN_CODE rc, x, env] + d) i" using room by (rule stack_room_mono) simp
  from computes_below [OF c j(2) this j(3,4)] show ?thesis using do_expression_runs [of i Do_Expression j p] j(1) step by auto
qed

text \<open>The state in which a continuation that has saved the environment goes on.\<close>

lemma continuation_at:
  assumes ok: "layout_ok L" and i: "interp_at L i0 m [MAKE_RETURN_CODE rc, x, env] i" and room: "stack_room L 3 i0"
  defines "j \<equiv> POP_ENV (END_SUBPROBLEM (RESTORE_CONT i))"
  shows "interp_at L i0 m [] j" "GET_EXP j = x" "env_register j = env" "val_register j = val_register i"
proof -
  note r = restore_cont_at [OF i]
  have "stack_room L (length [env]) i0" using room by (rule stack_room_mono) simp
  note s = end_subproblem_at [OF ok r(1) this]
  note t = pop_env_at [OF s(1)]
  show "interp_at L i0 m [] j" "GET_EXP j = x" "env_register j = env" "val_register j = val_register i"
    by (simp_all add: j_def t s r)
qed

lemma continuation_reduces:
  assumes ok: "layout_ok L" and c: "computes p L d m env (MEMORY_REF x n m) v m'" and i: "interp_at L i0 m [MAKE_RETURN_CODE rc, x, env] i"
    and room: "stack_room L (max (d1 + 3) d) i0" and clean: "MEMORY_LOC x n \<notin> dirty L"
    and step: "pop_return i = REDUCES_TO_NTH n (POP_ENV (END_SUBPROBLEM (RESTORE_CONT i)))"
  shows "\<exists>i'. runs p Pop_Return i Pop_Return i' \<and> interp_at L i0 m' [] i' \<and> val_register i' = v"
proof (rule reduction_computes [OF ok c])
  have "stack_room L 3 i0" using room by (rule stack_room_mono) simp
  note j = continuation_at [OF ok i this]
  show "interp_at L i0 m [] (POP_ENV (END_SUBPROBLEM (RESTORE_CONT i)))" "env_register (POP_ENV (END_SUBPROBLEM (RESTORE_CONT i))) = env"
    using j by simp_all
  show "stack_room L d i0" using room by (rule stack_room_mono) simp
  have "exp_ref n (POP_ENV (END_SUBPROBLEM (RESTORE_CONT i))) = MEMORY_REF x n m"
    using j(2) interp_at_read [OF j(1) clean] by (simp add: exp_ref_def)
  then show "interp_step p Pop_Return i = REDUCES_TO (MEMORY_REF x n m) (POP_ENV (END_SUBPROBLEM (RESTORE_CONT i)))"
    by (simp add: interp_step_def step REDUCES_TO_NTH_def)
qed

text \<open>An expression that evaluates its component \<open>n\<close> and then reduces to its component \<open>k w\<close>.\<close>

lemma two_components_compute:
  assumes ok: "layout_ok L" and c1: "computes p L d1 m env (MEMORY_REF x n m) w m1" and c2: "computes p L d2 m1 env (MEMORY_REF x k m1) v m'"
    and clean: "MEMORY_LOC x n \<notin> dirty L" "MEMORY_LOC x k \<notin> dirty L"
    and first: "\<And>i. \<lbrakk>interp_at L i m [] i; GET_EXP i = x\<rbrakk> \<Longrightarrow> do_expression i = eval_component rc n i"
    and second: "\<And>i i0. \<lbrakk>interp_at L i0 m1 [MAKE_RETURN_CODE rc, x, env] i; val_register i = w\<rbrakk> \<Longrightarrow>
      pop_return i = REDUCES_TO_NTH k (POP_ENV (END_SUBPROBLEM (RESTORE_CONT i)))"
  shows "computes p L (max (d1 + 3) d2) m env x v m'"
  unfolding computes_def
proof (intro allI impI)
  fix i assume i: "interp_at L i m [] i \<and> stack_room L (max (d1 + 3) d2) i \<and> GET_EXP i = x \<and> env_register i = env"
  have "stack_room L (d1 + 3) i" using conjunct1 [OF conjunct2 [OF i]] by (rule stack_room_mono) simp
  with i obtain i1 where i1: "runs p Do_Expression i Pop_Return i1" "interp_at L i m1 [MAKE_RETURN_CODE rc, x, env] i1" "val_register i1 = w"
    using component_computes [OF ok c1, of i rc] clean first by blast
  from continuation_reduces [OF ok c2 i1(2) _ clean(2) second [OF i1(2,3)], of d1] i i1(1)
  show "\<exists>i'. runs p Do_Expression i Pop_Return i' \<and> interp_at L i m' [] i' \<and> val_register i' = v" by (blast intro: runs_trans)
qed

text \<open>
  The contract of an expression with a first and a second part: its first component is evaluated as a
  subproblem, and the continuation reduces to a component that may depend on the value. Conditionals and sequences
  fulfil it.
\<close>

locale two_part_expression =
  fixes type rc :: ulong and first size :: nat and second :: "scheme_object \<Rightarrow> nat"
  assumes first_evaluated: "\<lbrakk>interp_at L i0 m [] i; OBJECT_TYPE (GET_EXP i) = type\<rbrakk> \<Longrightarrow> do_expression i = eval_component rc first i"
    and reduces_to_second: "interp_at L i0 m [MAKE_RETURN_CODE rc, x, env] i \<Longrightarrow>
      pop_return i = REDUCES_TO_NTH (second (val_register i)) (POP_ENV (END_SUBPROBLEM (RESTORE_CONT i)))"
    and components: "first < size" "second w < size"
begin

lemma parts_compute:
  assumes "layout_ok L" "OBJECT_TYPE x = type" "clean L x size" "computes p L d1 m env (MEMORY_REF x first m) w m1"
    "computes p L d2 m1 env (MEMORY_REF x (second w) m1) v m'"
  shows "computes p L (max (d1 + 3) d2) m env x v m'"
proof (rule two_components_compute [OF assms(1,4,5)])
  show "MEMORY_LOC x first \<notin> dirty L" "MEMORY_LOC x (second w) \<notin> dirty L" using assms(3) components by (simp_all add: clean_def)
qed (use assms(2) in \<open>auto intro: first_evaluated dest: reduces_to_second\<close>)

end

interpretation conditional: two_part_expression TC_CONDITIONAL RC_CONDITIONAL_DECIDE COND_PREDICATE 3
  "\<lambda>w. if w = SHARP_F then COND_ALTERNATIVE else COND_CONSEQUENT"
  by unfold_locales (auto simp: do_expression_cases(5) COND_PREDICATE_def COND_ALTERNATIVE_def COND_CONSEQUENT_def dest: pop_return_cases(3))

interpretation sequence: two_part_expression TC_SEQUENCE RC_EXECUTE_SEQUENCE_FINISH SEQUENCE_1 2 "\<lambda>w. SEQUENCE_2"
  by unfold_locales (auto simp: do_expression_cases(12) SEQUENCE_1_def SEQUENCE_2_def dest: pop_return_cases(5))

lemma disjunction_false_computes:
  assumes "layout_ok L" "OBJECT_TYPE x = TC_DISJUNCTION" "clean L x 2" "computes p L d1 m env (MEMORY_REF x OR_PREDICATE m) SHARP_F m1"
    "computes p L d2 m1 env (MEMORY_REF x OR_ALTERNATIVE m1) v m'"
  shows "computes p L (max (d1 + 3) d2) m env x v m'"
proof (rule two_components_compute [OF assms(1,4,5), where rc = RC_DISJUNCTION_DECIDE])
  show "MEMORY_LOC x OR_PREDICATE \<notin> dirty L" "MEMORY_LOC x OR_ALTERNATIVE \<notin> dirty L"
    using assms(3) by (simp_all add: clean_def OR_PREDICATE_def OR_ALTERNATIVE_def)
qed (use assms(2) in \<open>auto simp: do_expression_cases(8) dest: pop_return_cases(4)\<close>)

text \<open>An expression that evaluates its component \<open>n\<close> and then has its value.\<close>

lemma component_value_computes:
  assumes ok: "layout_ok L" and c: "computes p L d m env (MEMORY_REF x n m) w m1" and clean: "MEMORY_LOC x n \<notin> dirty L"
    and first: "\<And>i. \<lbrakk>interp_at L i m [] i; GET_EXP i = x\<rbrakk> \<Longrightarrow> do_expression i = eval_component rc n i"
    and last: "\<And>i i0. \<lbrakk>interp_at L i0 m1 [MAKE_RETURN_CODE rc, x, env] i; val_register i = w; stack_room L 3 i0\<rbrakk> \<Longrightarrow>
      \<exists>i'. pop_return i = Goto Pop_Return i' \<and> interp_at L i0 m' [] i' \<and> val_register i' = v"
  shows "computes p L (d + 3) m env x v m'"
  unfolding computes_def
proof (intro allI impI, elim conjE)
  fix i assume i: "interp_at L i m [] i" "stack_room L (d + 3) i" "GET_EXP i = x" "env_register i = env"
  from component_computes [OF ok c i clean first [OF i(1,3)]] obtain i1 where
    i1: "runs p Do_Expression i Pop_Return i1" "interp_at L i m1 [MAKE_RETURN_CODE rc, x, env] i1" "val_register i1 = w" by blast
  have "stack_room L 3 i" using i(2) by (rule stack_room_mono) simp
  from last [OF i1(2,3) this] show "\<exists>i'. runs p Do_Expression i Pop_Return i' \<and> interp_at L i m' [] i' \<and> val_register i' = v"
    using runs_trans [OF i1(1) pop_return_runs [OF _ runs_refl]] by blast
qed

lemma disjunction_true_computes:
  assumes ok: "layout_ok L" and x: "OBJECT_TYPE x = TC_DISJUNCTION" and clean: "clean L x 2"
    and c: "computes p L d m env (MEMORY_REF x OR_PREDICATE m) v m'" and v: "v \<noteq> SHARP_F"
  shows "computes p L (d + 3) m env x v m'"
proof (rule component_value_computes [OF ok c])
  show "MEMORY_LOC x OR_PREDICATE \<notin> dirty L" using clean by (simp add: clean_def OR_PREDICATE_def)
  show "do_expression i = eval_component RC_DISJUNCTION_DECIDE OR_PREDICATE i" if "interp_at L i m [] i" "GET_EXP i = x" for i
    using that x do_expression_cases(8) by blast
  show "\<exists>i'. pop_return i = Goto Pop_Return i' \<and> interp_at L i0 m' [] i' \<and> val_register i' = v"
    if "interp_at L i0 m' [MAKE_RETURN_CODE RC_DISJUNCTION_DECIDE, x, env] i" "val_register i = v" "stack_room L 3 i0" for i i0
    using pop_return_cases(4) [OF that(1)] continuation_at [OF ok that(1,3)] that(2) v by auto
qed

lemma comment_computes:
  assumes ok: "layout_ok L" and x: "OBJECT_TYPE x = TC_COMMENT" "clean L x 1" and c: "computes p L d m env (MEMORY_REF x COMMENT_EXPRESSION m) v m'"
  shows "computes p L d m env x v m'"
  unfolding computes_def
proof (intro allI impI, elim conjE)
  fix i assume i: "interp_at L i m [] i" "stack_room L d i" "GET_EXP i = x" "env_register i = env"
  have "MEMORY_REF x COMMENT_EXPRESSION (regs i) = MEMORY_REF x COMMENT_EXPRESSION m"
    using interp_at_read [OF i(1)] x(2) by (simp add: clean_def COMMENT_EXPRESSION_def)
  then have "interp_step p Do_Expression i = REDUCES_TO (MEMORY_REF x COMMENT_EXPRESSION m) i"
    using do_expression_cases(4) [OF i(1)] i(3) x(1) by (simp add: interp_step_def REDUCES_TO_NTH_def exp_ref_def)
  from reduction_computes [OF ok c i(1,2,4) this]
  show "\<exists>i'. runs p Do_Expression i Pop_Return i' \<and> interp_at L i m' [] i' \<and> val_register i' = v" .
qed

subsection \<open>Allocation\<close>

lemma interp_at_allocate:
  assumes ok: "layout_ok L" and i: "interp_at L i0 m ws i" and clean: "clean_heap L m (length xs)" and room: "stack_room L (length ws) i0"
  shows "interp_at L i0 (fold push_heap xs m) ws (on_regs (fold push_heap xs) i)"
  using i clean
proof (induction xs arbitrary: m i)
  case Nil
  then show ?case by (simp add: on_regs_def)
next
  case (Cons x xs)
  have free: "Free m \<notin> dirty L" "Free (regs i) = Free m" using Cons.prems by (auto simp: clean_heap_def interp_at_def same_heap_def)
  have reg: "stack_guard (push_heap x c) = stack_guard c" "history_register (push_heap x c) = history_register c" for c
    by (simp_all add: push_heap_def set_Free_def)
  have "a \<noteq> Free m" if "stack_lo L \<le> a" "a < stack_hi L" for a using free that by (auto simp: dirty_def)
  moreover have "history_ok L (push_heap x (regs i))"
  proof (rule history_ok_same [OF interp_at_history_ok [OF Cons.prems(1)]])
    show "history_register (push_heap x (regs i)) \<in> vertebrae L" using interp_at_history_ok [OF Cons.prems(1)] by (simp add: reg history_ok_def)
  qed (use free in \<open>auto simp: dirty_def pointers_are_words\<close>)
  ultimately have "interp_at L i0 (push_heap x m) ws (on_regs (push_heap x) i)"
    using Cons.prems(1) free room by (simp add: interp_at_def keeps_def same_heap_def reg stack_room_def)
  moreover have "clean_heap L (push_heap x m) (length xs)" using Cons.prems(2) by (force simp: clean_heap_def)
  ultimately show ?case using Cons.IH by (fastforce simp: on_regs_def)
qed

lemma closure_at:
  assumes ok: "layout_ok L" and i: "interp_at L i m [] i" and clean: "clean_heap L m 2" and room: "stack_room L 0 i"
  shows "interp_at L i (push_heap w1 (push_heap w0 m)) [] (make_closure type w0 w1 i)"
    "val_register (make_closure type w0 w1 i) = MAKE_POINTER_OBJECT type (Free m)"
proof -
  have "Free (regs i) = Free m" using i by (simp add: interp_at_def same_heap_def)
  then show "val_register (make_closure type w0 w1 i) = MAKE_POINTER_OBJECT type (Free m)" by (simp add: make_closure_def)
  have "clean_heap L m (length [w0, w1])" "stack_room L (length ([] :: scheme_object list)) i" using clean room by (simp_all add: eval_nat_numeral)
  from interp_at_allocate [OF ok interp_at_registers(4) [OF i] this]
  show "interp_at L i (push_heap w1 (push_heap w0 m)) [] (make_closure type w0 w1 i)" by (simp add: make_closure_def on_regs_def)
qed

subsection \<open>Constants, closures and variables\<close>

lemma self_computes: "self_evaluating x \<Longrightarrow> computes p L 0 m env x x m"
  by (rule computes_value) (auto simp: do_expression_untrapped eval_non_trapping_def self_evaluating_def intro!: interp_at_registers)

lemma quote_computes: "\<lbrakk>OBJECT_TYPE x = TC_SCODE_QUOTE; clean L x 1\<rbrakk> \<Longrightarrow> computes p L 0 m env x (MEMORY_REF x SCODE_QUOTE_OBJECT m) m"
  by (rule computes_value)
    (auto simp: do_expression_cases(11) exp_ref_def interp_at_read clean_def SCODE_QUOTE_OBJECT_def intro!: interp_at_registers)

lemma environment_computes: "OBJECT_TYPE x = TC_THE_ENVIRONMENT \<Longrightarrow> computes p L 0 m env x env m"
  by (rule computes_value) (auto simp: do_expression_cases(13) intro!: interp_at_registers)

lemma closures_compute:
  assumes ok: "layout_ok L" and clean: "clean_heap L m 2"
  shows "OBJECT_TYPE x = TC_LAMBDA \<or> OBJECT_TYPE x = TC_LEXPR \<Longrightarrow>
      computes p L 0 m env x (MAKE_POINTER_OBJECT TC_PROCEDURE (Free m)) (push_heap env (push_heap x m))"
    "OBJECT_TYPE x = TC_EXTENDED_LAMBDA \<Longrightarrow>
      computes p L 0 m env x (MAKE_POINTER_OBJECT TC_EXTENDED_PROCEDURE (Free m)) (push_heap env (push_heap x m))"
    "\<lbrakk>OBJECT_TYPE x = TC_DELAY; clean L x 1\<rbrakk> \<Longrightarrow>
      computes p L 0 m env x (MAKE_POINTER_OBJECT TC_DELAYED (Free m)) (push_heap (MEMORY_REF x DELAY_OBJECT m) (push_heap env m))"
proof -
  note c = closure_at [OF ok _ clean]
  show "OBJECT_TYPE x = TC_LAMBDA \<or> OBJECT_TYPE x = TC_LEXPR \<Longrightarrow>
      computes p L 0 m env x (MAKE_POINTER_OBJECT TC_PROCEDURE (Free m)) (push_heap env (push_heap x m))"
    by (rule computes_value) (auto simp: do_expression_cases(10) c)
  show "OBJECT_TYPE x = TC_EXTENDED_LAMBDA \<Longrightarrow>
      computes p L 0 m env x (MAKE_POINTER_OBJECT TC_EXTENDED_PROCEDURE (Free m)) (push_heap env (push_heap x m))"
    by (rule computes_value) (auto simp: do_expression_cases(9) c)
  show "\<lbrakk>OBJECT_TYPE x = TC_DELAY; clean L x 1\<rbrakk> \<Longrightarrow>
      computes p L 0 m env x (MAKE_POINTER_OBJECT TC_DELAYED (Free m)) (push_heap (MEMORY_REF x DELAY_OBJECT m) (push_heap env m))"
    by (rule computes_value) (auto simp: do_expression_cases(7) c exp_ref_def interp_at_read clean_def DELAY_OBJECT_def)
qed

lemma operation_at:
  assumes "operation_gives L f m PRIM_DONE v m'" "interp_at L i0 m ws i" "stack_room L (length ws) i0"
  obtains i' where "\<And>k. with_lookup (f (regs i)) i k = k PRIM_DONE v i'" "interp_at L i0 m' ws i'"
proof -
  from assms(1) interp_at_self [OF assms(2)] obtain c where
    c: "f (regs i) = machine_return (PRIM_DONE, v) c" "exp_register c = exp_register (regs i)" "interp_at L i m' [] (i\<lparr>regs := c\<rparr>)"
    unfolding operation_gives_def by blast
  then show ?thesis using that [of "i\<lparr>regs := c\<rparr>"] interp_at_trans [OF assms(2) c(3) assms(3)]
    by (simp add: with_lookup_def machine_return_def)
qed

lemma variable_computes:
  assumes x: "OBJECT_TYPE x = TC_VARIABLE" "clean L x 2" and f: "operation_gives L (lookup_variable env (VARIABLE_SYMBOL x m)) m PRIM_DONE (Some v) m'"
  shows "computes p L 0 m env x v m'"
proof (rule computes_value)
  fix i assume i: "interp_at L i m [] i" "stack_room L 0 i" "GET_EXP i = x" "env_register i = env"
  have "MEMORY_REF x 0 (regs i) = MEMORY_REF x 0 m" using interp_at_read [OF i(1)] x(2) by (simp add: clean_def)
  then have name: "VARIABLE_SYMBOL (GET_EXP i) (regs i) = VARIABLE_SYMBOL x m" by (simp add: VARIABLE_SYMBOL_def i(3))
  have e: "do_expression i = eval_variable i" using do_expression_cases(14) [OF i(1)] x i(3) by simp
  show "\<exists>i'. do_expression i = Goto Pop_Return i' \<and> interp_at L i m' [] i' \<and> val_register i' = v"
    by (rule operation_at [OF f i(1)]) (use i(2,4) in \<open>auto simp: e eval_variable_def name Let_def intro: interp_at_registers\<close>)
qed

text \<open>What follows an operation on variables in a continuation.\<close>

lemma value_of_operation:
  assumes "layout_ok L" "interp_at L i0 m [] i" "stack_room L 0 i0"
  shows "interp_at L i0 m [] (END_SUBPROBLEM (SET_VAL v i))" "interp_at L i0 m [] (SET_VAL v (END_SUBPROBLEM i))" "val_register (END_SUBPROBLEM (SET_VAL v i)) = v"
proof -
  have room: "stack_room L (length ([] :: scheme_object list)) i0" using assms(3) by simp
  show "interp_at L i0 m [] (END_SUBPROBLEM (SET_VAL v i))" "val_register (END_SUBPROBLEM (SET_VAL v i)) = v"
    using end_subproblem_at [OF assms(1) interp_at_registers(4) [OF assms(2)] room] by simp_all
  show "interp_at L i0 m [] (SET_VAL v (END_SUBPROBLEM i))" using end_subproblem_at(1) [OF assms(1,2) room] by (rule interp_at_registers)
qed

lemma access_computes:
  assumes ok: "layout_ok L" and x: "OBJECT_TYPE x = TC_ACCESS" "clean L x 2" and c: "computes p L d m env (MEMORY_REF x ACCESS_ENVIRONMENT m) e m1"
    and f: "operation_gives L (lookup_variable e (MEMORY_REF x ACCESS_NAME m1)) m1 PRIM_DONE (Some v) m'"
  shows "computes p L (d + 2) m env x v m'"
  unfolding computes_def
proof (intro allI impI, elim conjE)
  fix i assume i: "interp_at L i m [] i" "stack_room L (d + 2) i" "GET_EXP i = x" "env_register i = env"
  have room: "stack_room L 2 i" "stack_room L (length ([] :: scheme_object list) + 2) i" "stack_room L 0 i" "stack_room L (length ([] :: scheme_object list)) i"
    "stack_room L (length [MAKE_RETURN_CODE RC_EXECUTE_ACCESS_FINISH, x] + d) i"
    by (rule stack_room_mono [OF i(2)], simp)+
  have loc: "MEMORY_LOC x ACCESS_ENVIRONMENT \<notin> dirty L" "MEMORY_LOC x ACCESS_NAME \<notin> dirty L" using x(2) by (simp_all add: clean_def ACCESS_ENVIRONMENT_def ACCESS_NAME_def)
  have e1: "do_expression i = DO_NTH_THEN RC_EXECUTE_ACCESS_FINISH ACCESS_ENVIRONMENT i"
    using do_expression_cases(1) [OF i(1)] x(1) i(3) Will_Push_room [OF room(1)] by (simp add: CONTINUATION_SIZE_def)
  with subproblem_at(1) [OF ok i(1) room(2), of ACCESS_ENVIRONMENT RC_EXECUTE_ACCESS_FINISH] obtain i1 where i1: "do_expression i = Goto Do_Expression i1"
    "interp_at L i m [MAKE_RETURN_CODE RC_EXECUTE_ACCESS_FINISH, x] i1" "GET_EXP i1 = MEMORY_REF x ACCESS_ENVIRONMENT m" "env_register i1 = env"
    using loc(1) i(3,4) by auto
  from computes_below [OF c i1(2) room(5) i1(3,4)] obtain i2 where
    i2: "runs p Do_Expression i1 Pop_Return i2" "interp_at L i m1 [MAKE_RETURN_CODE RC_EXECUTE_ACCESS_FINISH, x] i2" "val_register i2 = e" by blast
  note r = restore_cont_at [OF i2(2)]
  have n: "exp_ref ACCESS_NAME (RESTORE_CONT i2) = MEMORY_REF x ACCESS_NAME m1" using interp_at_read [OF r(1) loc(2)] r(3) by (simp add: exp_ref_def)
  have "\<exists>i3. return_access (RESTORE_CONT i2) = Goto Pop_Return (END_SUBPROBLEM (SET_VAL v i3)) \<and> interp_at L i m' [] i3"
    by (rule operation_at [OF f r(1) room(4)]) (auto simp: return_access_def n r(4) i2(3))
  then obtain i3 where i3: "pop_return i2 = Goto Pop_Return (END_SUBPROBLEM (SET_VAL v i3))" "interp_at L i m' [] i3" using pop_return_cases(6) [OF i2(2)] by auto
  have "runs p Do_Expression i Pop_Return (END_SUBPROBLEM (SET_VAL v i3))"
    using do_expression_runs [OF i1(1) runs_trans [OF i2(1) pop_return_runs [OF i3(1) runs_refl]]] .
  with value_of_operation [OF ok i3(2) room(3), of v]
  show "\<exists>i'. runs p Do_Expression i Pop_Return i' \<and> interp_at L i m' [] i' \<and> val_register i' = v" by blast
qed

lemma assignment_computes:
  assumes ok: "layout_ok L" and x: "OBJECT_TYPE x = TC_ASSIGNMENT" "clean L x 2" and c: "computes p L d m env (MEMORY_REF x ASSIGN_VALUE m) w m1"
    and var: "variable = MEMORY_REF x ASSIGN_NAME m1" "OBJECT_TYPE variable = TC_VARIABLE" "clean L variable 1"
    and f: "operation_gives L (assign_variable env (VARIABLE_SYMBOL variable m1) w) m1 PRIM_DONE (Some v) m'"
  shows "computes p L (d + 3) m env x v m'"
proof (rule component_value_computes [OF ok c])
  show "MEMORY_LOC x ASSIGN_VALUE \<notin> dirty L" using x(2) by (simp add: clean_def ASSIGN_VALUE_def)
  show "do_expression i = eval_component RC_EXECUTE_ASSIGNMENT_FINISH ASSIGN_VALUE i" if "interp_at L i m [] i" "GET_EXP i = x" for i
    using that x do_expression_cases(2) by blast
  fix i i0 assume i: "interp_at L i0 m1 [MAKE_RETURN_CODE RC_EXECUTE_ASSIGNMENT_FINISH, x, env] i" "val_register i = w" "stack_room L 3 i0"
  note r = restore_cont_at [OF i(1)]
  note e = pop_env_at [OF r(1)]
  have n: "exp_ref ASSIGN_NAME (RESTORE_CONT i) = variable"
    using interp_at_read [OF r(1), of x ASSIGN_NAME] r(3) x(2) by (simp add: exp_ref_def clean_def ASSIGN_NAME_def var(1))
  have s: "VARIABLE_SYMBOL variable (regs (POP_ENV (RESTORE_CONT i))) = VARIABLE_SYMBOL variable m1"
    using interp_at_read [OF e(1), of variable 0] var(3) by (simp add: VARIABLE_SYMBOL_def clean_def)
  have room: "stack_room L 0 i0" "stack_room L (length ([] :: scheme_object list)) i0" by (rule stack_room_mono [OF i(3)], simp)+
  show "\<exists>i'. pop_return i = Goto Pop_Return i' \<and> interp_at L i0 m' [] i' \<and> val_register i' = v"
  proof (rule operation_at [OF f e(1) room(2)])
    fix i' assume "\<And>k. with_lookup (assign_variable env (VARIABLE_SYMBOL variable m1) w (regs (POP_ENV (RESTORE_CONT i)))) (POP_ENV (RESTORE_CONT i)) k = k PRIM_DONE (Some v) i'"
      and i': "interp_at L i0 m' [] i'"
    then have "return_assignment (RESTORE_CONT i) = Goto Pop_Return (END_SUBPROBLEM (SET_VAL v i'))"
      using i(2) r(4) e(2,4) by (simp add: return_assignment_def n s var(2) Let_def)
    then show ?thesis using pop_return_cases(7) [OF i(1)] value_of_operation [OF ok i' room(1), of v] by simp
  qed
qed

lemma definition_computes:
  assumes ok: "layout_ok L" and x: "OBJECT_TYPE x = TC_DEFINITION" "clean L x 2" and c: "computes p L d m env (MEMORY_REF x DEFINE_VALUE m) w m1"
    and f: "operation_gives L (define_variable env (MEMORY_REF x DEFINE_NAME m1) w) m1 PRIM_DONE old m'"
  shows "computes p L (d + 3) m env x (MEMORY_REF x DEFINE_NAME m1) m'"
proof (rule component_value_computes [OF ok c])
  show "MEMORY_LOC x DEFINE_VALUE \<notin> dirty L" using x(2) by (simp add: clean_def DEFINE_VALUE_def)
  show "do_expression i = eval_component RC_EXECUTE_DEFINITION_FINISH DEFINE_VALUE i" if "interp_at L i m [] i" "GET_EXP i = x" for i
    using that x do_expression_cases(6) by blast
  fix i i0 assume i: "interp_at L i0 m1 [MAKE_RETURN_CODE RC_EXECUTE_DEFINITION_FINISH, x, env] i" "val_register i = w" "stack_room L 3 i0"
  note r = restore_cont_at [OF i(1)]
  note e = pop_env_at [OF r(1)]
  have n: "exp_ref DEFINE_NAME (RESTORE_CONT i) = MEMORY_REF x DEFINE_NAME m1"
    using interp_at_read [OF r(1), of x DEFINE_NAME] r(3) x(2) by (simp add: exp_ref_def clean_def DEFINE_NAME_def)
  have room: "stack_room L 0 i0" "stack_room L (length ([] :: scheme_object list)) i0" by (rule stack_room_mono [OF i(3)], simp)+
  show "\<exists>i'. pop_return i = Goto Pop_Return i' \<and> interp_at L i0 m' [] i' \<and> val_register i' = MEMORY_REF x DEFINE_NAME m1"
  proof (rule operation_at [OF f e(1) room(2)])
    fix i' assume "\<And>k. with_lookup (define_variable env (MEMORY_REF x DEFINE_NAME m1) w (regs (POP_ENV (RESTORE_CONT i)))) (POP_ENV (RESTORE_CONT i)) k = k PRIM_DONE old i'"
      and i': "interp_at L i0 m' [] i'"
    then have "return_definition (RESTORE_CONT i) = Goto Pop_Return (SET_VAL (MEMORY_REF x DEFINE_NAME m1) (END_SUBPROBLEM i'))"
      using i(2) r(4) e(2,4) by (simp add: return_definition_def n Let_def)
    then show ?thesis using pop_return_cases(8) [OF i(1)] value_of_operation [OF ok i' room(1)] by simp
  qed
qed

lemma vector_length_word: "VECTOR_LENGTH_heap v m = unat (OBJECT_DATUM (MEMORY_REF v 0 m))"
  by (simp add: VECTOR_LENGTH_heap_def VECTOR_LENGTH_def MEMORY_REF_def MEMORY_LOC_def)

subsection \<open>Combinations\<close>

definition finger :: "nat \<Rightarrow> scheme_object" where "finger n = MAKE_OBJECT TC_MANIFEST_NM_VECTOR (of_nat n)"

text \<open>
  The state in which operand \<open>n\<close> of a combination, or the operator if \<open>n = 0\<close>, is about to be
  evaluated: the values of the operands after it are in their slots on the stack.
\<close>

definition at_operand :: "layout \<Rightarrow> interpreter \<Rightarrow> machine \<Rightarrow> scheme_object \<Rightarrow> scheme_object \<Rightarrow> nat \<Rightarrow> scheme_object list \<Rightarrow> interpreter \<Rightarrow> bool" where
  "at_operand L i0 m env x n slots i \<longleftrightarrow>
    env_register i = env \<and>
    (if n = 0 then GET_EXP i = MEMORY_REF x COMB_FN_SLOT m \<and>
       (\<exists>h. (h = MEMORY_REF x 0 m \<or> h = MAKE_OBJECT 0 1 \<and> slots = []) \<and>
         interp_at L i0 m (MAKE_RETURN_CODE RC_COMB_APPLY_FUNCTION # x # h # finger 0 # slots) i)
     else GET_EXP i = MEMORY_REF x (n + 1) m \<and> interp_at L i0 m (MAKE_RETURN_CODE RC_COMB_SAVE_VALUE # x # env # finger n # slots) i)"

lemma finger_datum: "n < 2 ^ 58 \<Longrightarrow> unat (OBJECT_DATUM (finger n)) = n"
  by (simp add: finger_def TC_MANIFEST_NM_VECTOR_def word_less_nat_alt unat_of_nat)

lemma header_datum: "n + 1 < 2 ^ 58 \<Longrightarrow> unat (OBJECT_DATUM (MAKE_OBJECT 0 (of_nat (n + 1)))) = n + 1"
  using OBJECT_DATUM_MAKE_OBJECT [of 0 "of_nat (n + 1)"] by (simp add: word_less_nat_alt unat_of_nat del: of_nat_add of_nat_Suc)

lemma reserve_slots_at:
  assumes ok: "layout_ok L" and i: "interp_at L i0 m [] i" and room: "stack_room L n i0"
  shows "\<exists>slots. length slots = n \<and> interp_at L i0 m slots (on_regs (\<lambda>m. m\<lparr>stack_pointer := stack_pointer m - n\<rparr>) i)"
proof (intro exI conjI)
  let ?slots = "map (\<lambda>k. mem (regs i) (stack_pointer (regs i) - n + k)) [0..<n]"
  show "length ?slots = n" by simp
  show "interp_at L i0 m ?slots (on_regs (\<lambda>m. m\<lparr>stack_pointer := stack_pointer m - n\<rparr>) i)"
    using i room by (simp add: interp_at_def keeps_def same_heap_def history_ok_def stack_room_def)
qed

lemma push_header_at:
  assumes "layout_ok L" "interp_at L i0 m ws i" "stack_room L (length ws + 1) i0"
  shows "interp_at L i0 m (MAKE_OBJECT 0 (of_nat (n + 1)) # ws) (PUSH_APPLY_FRAME_HEADER n i)" "GET_EXP (PUSH_APPLY_FRAME_HEADER n i) = GET_EXP i"
    "env_register (PUSH_APPLY_FRAME_HEADER n i) = env_register i"
  using interp_at_push [OF assms] by (simp_all add: PUSH_APPLY_FRAME_HEADER_def push_registers)

lemma eval_combination_at:
  assumes ok: "layout_ok L" and i: "interp_at L i0 m [] i" and room: "stack_room L (n + 4) i0" and x: "GET_EXP i = x" "VECTOR_LENGTH_heap x m = n + 1" "clean L x (n + 2)"
  shows "\<exists>slots i'. length slots = n \<and> eval_combination i = Goto Do_Expression i' \<and> at_operand L i0 m (env_register i) x n slots i'"
proof -
  have "stack_room L (n + 2 + CONTINUATION_SIZE) i" unfolding CONTINUATION_SIZE_def by (rule stack_room_mono [OF stack_room_pushed [OF i]], use room in simp) simp
  then have push: "Will_Push (n + 2 + CONTINUATION_SIZE) i k = k i" for k by (rule Will_Push_room)
  have len: "VECTOR_LENGTH_heap x (regs i) = n + 1" using interp_at_read [OF i, of x 0] x(2,3) by (simp add: vector_length_word clean_def)
  define j where "j = push (finger n) (on_regs (\<lambda>m. m\<lparr>stack_pointer := stack_pointer m - n\<rparr>) i)"
  have e: "eval_combination i =
      (if n = 0 then DO_NTH_THEN RC_COMB_APPLY_FUNCTION COMB_FN_SLOT (PUSH_APPLY_FRAME_HEADER 0 j) else DO_NTH_THEN RC_COMB_SAVE_VALUE (n + 1) (PUSH_ENV j))"
    by (simp only: eval_combination_def x(1) len add_diff_cancel_right' finger_def push Let_def j_def)
  have "stack_room L n i0" using room by (rule stack_room_mono) simp
  from reserve_slots_at [OF ok i this] obtain slots where
    slots: "length slots = n" "interp_at L i0 m slots (on_regs (\<lambda>m. m\<lparr>stack_pointer := stack_pointer m - n\<rparr>) i)" by blast
  have more: "stack_room L (length slots + 1) i0" "stack_room L (length (finger n # slots) + 1) i0" "stack_room L (length (w # finger n # slots) + 2) i0" for w
    by (rule stack_room_mono [OF room], simp add: slots(1))+
  have j: "interp_at L i0 m (finger n # slots) j" "GET_EXP j = x" "env_register j = env_register i"
    using interp_at_push [OF ok slots(2) more(1)] x(1) by (simp_all add: j_def push_registers) (simp add: GET_EXP_def)
  have loc: "MEMORY_LOC x COMB_FN_SLOT \<notin> dirty L" "MEMORY_LOC x (n + 1) \<notin> dirty L" using x(3) by (simp_all add: clean_def COMB_FN_SLOT_def)
  show ?thesis
  proof (cases "n = 0")
    case True
    note h = push_header_at [OF ok j(1) more(2), of 0]
    from subproblem_at(1) [OF ok h(1) more(3), of COMB_FN_SLOT RC_COMB_APPLY_FUNCTION] loc(1) h(2,3) j(2,3) show ?thesis
      using True slots(1) by (auto simp: e at_operand_def)
  next
    case False
    note h = push_env_at [OF ok j(1) more(2)]
    from subproblem_at(1) [OF ok h(1) more(3), of "n + 1" RC_COMB_SAVE_VALUE] loc(2) h(2,3) j(2,3) show ?thesis
      using False slots(1) by (auto simp: e at_operand_def)
  qed
qed

text \<open>The value of an operand is stored in its slot, and the next operand or the operator is evaluated.\<close>

lemma save_value_at:
  assumes ok: "layout_ok L" and i: "interp_at L i0 m (MAKE_RETURN_CODE RC_COMB_SAVE_VALUE # x # env # finger (Suc n) # slots) i"
    and n: "n < length slots" "length slots < 2 ^ 58" and room: "stack_room L (length slots + 4) i0" and clean: "clean L x (length slots + 2)"
  shows "\<exists>i'. pop_return i = Goto Do_Expression i' \<and> at_operand L i0 m env x n (slots[n := val_register i]) i'"
proof -
  let ?v = "val_register i"
  note r = restore_cont_at [OF i]
  note e = pop_env_at [OF r(1)]
  define j where "j = set_stack 0 (finger n) (set_stack (Suc n) ?v (POP_ENV (RESTORE_CONT i)))"
  have more: "stack_room L (length (finger (Suc n) # slots)) i0" "stack_room L (length ((finger (Suc n) # slots)[Suc n := ?v])) i0"
    "stack_room L (length (finger n # slots[n := ?v]) + 1) i0" "stack_room L (length (w # finger n # slots[n := ?v]) + 2) i0" for w
    by (rule stack_room_mono [OF room], simp)+
  have "interp_at L i0 m (finger (Suc n) # slots[n := ?v]) (set_stack (Suc n) ?v (POP_ENV (RESTORE_CONT i)))"
    using interp_at_set [OF ok e(1) _ more(1), of "Suc n"] n by simp
  from interp_at_set [OF ok this, of 0 "finger n"] more(2) have "interp_at L i0 m (finger n # slots[n := ?v]) j" by (simp add: j_def)
  then have j: "interp_at L i0 m (finger n # slots[n := ?v]) j" "GET_EXP j = x" "env_register j = env" using e r by (simp_all add: j_def)
  have "unat (OBJECT_DATUM (STACK_REF 0 (POP_ENV (RESTORE_CONT i)))) = Suc n" using interp_at_ref [OF e(1), of 0] n finger_datum [of "Suc n"] by simp
  then have p: "pop_return i = (if n > 0 then DO_ANOTHER_THEN RC_COMB_SAVE_VALUE (1 + n) (PUSH_ENV j)
      else DO_ANOTHER_THEN RC_COMB_APPLY_FUNCTION COMB_FN_SLOT (push (exp_ref 0 j) j))"
    using pop_return_cases(2) [OF i] e(4) r(4)
    by (simp add: return_comb_save_value_def Let_def STACK_COMB_FINGER_def STACK_COMB_FIRST_ARG_def COMB_ARG_1_SLOT_def j_def flip: finger_def)
  show ?thesis
  proof (cases "n = 0")
    case True
    have loc: "MEMORY_LOC x COMB_FN_SLOT \<notin> dirty L" using clean by (simp add: clean_def COMB_FN_SLOT_def)
    have "exp_ref 0 j = MEMORY_REF x 0 m" using interp_at_read [OF j(1), of x 0] clean j(2) by (simp add: exp_ref_def clean_def)
    with subproblem_at(2) [OF ok interp_at_push [OF ok j(1) more(3), of "MEMORY_REF x 0 m"] more(4), of COMB_FN_SLOT RC_COMB_APPLY_FUNCTION] loc j(2,3) True show ?thesis
      by (auto simp: p at_operand_def push_registers)
  next
    case False
    have loc: "MEMORY_LOC x (1 + n) \<notin> dirty L" using clean n by (simp add: clean_def)
    note h = push_env_at [OF ok j(1) more(3)]
    from subproblem_at(2) [OF ok h(1) more(4), of "1 + n" RC_COMB_SAVE_VALUE] loc h(2,3) j(2,3) False show ?thesis
      by (auto simp: p at_operand_def)
  qed
qed

definition operands_compute :: "primitive_code \<Rightarrow> layout \<Rightarrow> nat \<Rightarrow> machine \<Rightarrow> scheme_object \<Rightarrow> scheme_object \<Rightarrow> scheme_object list \<Rightarrow> machine \<Rightarrow> bool" where
  "operands_compute p L d m env x vs m' \<longleftrightarrow>
    (\<forall>i0 i slots. at_operand L i0 m env x (length vs) slots i \<and> length vs \<le> length slots \<and> length slots < 2 ^ 58 \<and>
      stack_room L (length slots + 4 + d) i0 \<and> clean L x (length slots + 2) \<longrightarrow>
      (\<exists>i'. runs p Do_Expression i Do_Expression i' \<and> at_operand L i0 m' env x 0 (vs @ drop (length vs) slots) i'))"

lemma no_operands_compute: "operands_compute p L 0 m env x [] m"
  by (auto simp: operands_compute_def intro: runs_refl)

lemma last_operand_computes:
  assumes ok: "layout_ok L" and c: "computes p L d1 m env (MEMORY_REF x (length vs + 2) m) v m1" and o: "operands_compute p L d2 m1 env x vs m'"
  shows "operands_compute p L (max d1 d2) m env x (vs @ [v]) m'"
  unfolding operands_compute_def
proof (intro allI impI, elim conjE)
  fix i0 i slots
  assume i: "at_operand L i0 m env x (length (vs @ [v])) slots i" and n: "length (vs @ [v]) \<le> length slots" "length slots < 2 ^ 58"
    and room: "stack_room L (length slots + 4 + max d1 d2) i0" and clean: "clean L x (length slots + 2)"
  let ?n = "length vs" and ?ws = "MAKE_RETURN_CODE RC_COMB_SAVE_VALUE # x # env # finger (Suc (length vs)) # slots"
  have i: "interp_at L i0 m ?ws i" "GET_EXP i = MEMORY_REF x (?n + 2) m" "env_register i = env" using i by (simp_all add: at_operand_def)
  have more: "stack_room L (length ?ws + d1) i0" "stack_room L (length slots + 4) i0" "stack_room L (length (slots[?n := v]) + 4 + d2) i0"
    by (rule stack_room_mono [OF room], simp)+
  from computes_below [OF c i(1) more(1) i(2,3)] obtain i1 where
    i1: "runs p Do_Expression i Pop_Return i1" "interp_at L i0 m1 ?ws i1" "val_register i1 = v" by blast
  have "?n < length slots" using n by simp
  from save_value_at [OF ok i1(2) this n(2) more(2) clean] obtain i2 where
    i2: "pop_return i1 = Goto Do_Expression i2" "at_operand L i0 m1 env x ?n (slots[?n := v]) i2" using i1(3) by blast
  with o more(3) clean n obtain i3 where
    i3: "runs p Do_Expression i2 Do_Expression i3" "at_operand L i0 m' env x 0 (vs @ drop ?n (slots[?n := v])) i3"
    unfolding operands_compute_def by fastforce
  have "drop ?n (slots[?n := v]) = v # drop (Suc ?n) slots" using n(1) by (simp add: Cons_nth_drop_Suc [symmetric] drop_update_swap)
  with i3(2) have "at_operand L i0 m' env x 0 ((vs @ [v]) @ drop (length (vs @ [v])) slots) i3" by simp
  moreover have "runs p Do_Expression i Do_Expression i3" using runs_trans [OF i1(1) pop_return_runs [OF i2(1) i3(1)]] .
  ultimately show "\<exists>i'. runs p Do_Expression i Do_Expression i' \<and> at_operand L i0 m' env x 0 ((vs @ [v]) @ drop (length (vs @ [v])) slots) i'" by blast
qed

text \<open>The application of a procedure whose frame is on the stack.\<close>

definition application_computes :: "primitive_code \<Rightarrow> layout \<Rightarrow> nat \<Rightarrow> machine \<Rightarrow> scheme_object \<Rightarrow> scheme_object list \<Rightarrow> scheme_object \<Rightarrow> machine \<Rightarrow> bool" where
  "application_computes p L d m f args v m' \<longleftrightarrow>
    (\<forall>i0 i h. interp_at L i0 m (h # f # args) i \<and> unat (OBJECT_DATUM h) = length args + 1 \<and> stack_room L (length args + 2) i0 \<and> stack_room L d i0 \<longrightarrow>
      (\<exists>i'. runs p Internal_Apply i Pop_Return i' \<and> interp_at L i0 m' [] i' \<and> val_register i' = v))"

lemma internal_apply_val_runs:
  assumes "runs p Internal_Apply (set_stack 1 (val_register i) i) Pop_Return i'"
  shows "runs p Internal_Apply_Val i Pop_Return i'"
  using assms by cases (auto intro: runs_step simp: interp_step_def)

lemma combination_reaches_application:
  assumes ok: "layout_ok L" and x: "OBJECT_TYPE x = TC_COMBINATION" "VECTOR_LENGTH_heap x m = length args + 1" "clean L x (length args + 2)"
    and o: "operands_compute p L d1 m env x args m1" and len: "VECTOR_LENGTH_heap x m1 = length args + 1"
    and c: "computes p L d2 m1 env (MEMORY_REF x COMB_FN_SLOT m1) f m2"
    and i: "interp_at L i m [] i" "stack_room L (length args + 4 + max d1 d2) i" "GET_EXP i = x" "env_register i = env"
  shows "\<exists>h i'. runs p Do_Expression i Internal_Apply_Val i' \<and> val_register i' = f \<and> unat (OBJECT_DATUM h) = length args + 1 \<and>
    interp_at L i m2 (h # f # args) (set_stack 1 f i')"
proof -
  let ?n = "length args"
  have room: "stack_room L (?n + 4) i" "stack_room L (?n + 4 + d1) i" "stack_room L (?n + 4 + d2) i" "stack_room L (?n + 2) i"
    by (rule stack_room_mono [OF i(2)], simp)+
  have small: "?n < 2 ^ 58" using x(2) OBJECT_ADDRESS_less [of "MEMORY_REF x 0 m"] by (simp add: vector_length_word OBJECT_ADDRESS_def)
  from eval_combination_at [OF ok i(1) room(1) i(3) x(2,3)] do_expression_cases(3) [OF i(1)] x(1) i(3,4) obtain slots i1 where
    i1: "length slots = ?n" "do_expression i = Goto Do_Expression i1" "at_operand L i m env x ?n slots i1" by auto
  with o room(2) small x(3) obtain i2 where i2: "runs p Do_Expression i1 Do_Expression i2" "at_operand L i m1 env x 0 args i2"
    unfolding operands_compute_def by fastforce
  from i2(2) obtain h where h: "h = MEMORY_REF x 0 m1 \<or> h = MAKE_OBJECT 0 1 \<and> args = []"
    and i2': "interp_at L i m1 (MAKE_RETURN_CODE RC_COMB_APPLY_FUNCTION # x # h # finger 0 # args) i2" "GET_EXP i2 = MEMORY_REF x COMB_FN_SLOT m1" "env_register i2 = env"
    by (auto simp: at_operand_def)
  have size: "unat (OBJECT_DATUM h) = ?n + 1" using h len by (auto simp: vector_length_word)
  have "stack_room L (length (MAKE_RETURN_CODE RC_COMB_APPLY_FUNCTION # x # h # finger 0 # args) + d2) i" by (rule stack_room_mono [OF room(3)]) simp
  from computes_below [OF c i2'(1) this i2'(2,3)] obtain i3 where
    i3: "runs p Do_Expression i2 Pop_Return i3" "interp_at L i m2 (MAKE_RETURN_CODE RC_COMB_APPLY_FUNCTION # x # h # finger 0 # args) i3" "val_register i3 = f" by blast
  note r = restore_cont_at [OF i3(2)]
  have more: "stack_room L (length (h # finger 0 # args)) i" using room(4) by simp
  note e = end_subproblem_at [OF ok r(1) more]
  have "interp_at L i m2 (h # f # args) (set_stack 1 f (END_SUBPROBLEM (RESTORE_CONT i3)))" using interp_at_set [OF ok e(1) _ more, of 1 f] by simp
  moreover have "runs p Pop_Return i3 Internal_Apply_Val (END_SUBPROBLEM (RESTORE_CONT i3))"
    using pop_return_cases(1) [OF i3(2)] by (auto intro: pop_return_runs runs_refl)
  then have "runs p Do_Expression i Internal_Apply_Val (END_SUBPROBLEM (RESTORE_CONT i3))"
    using do_expression_runs [OF i1(2)] i2(1) i3(1) by (blast intro: runs_trans)
  moreover have "val_register (END_SUBPROBLEM (RESTORE_CONT i3)) = f" using e(4) r(4) i3(3) by simp
  ultimately show ?thesis using size by blast
qed

lemma combination_computes:
  assumes ok: "layout_ok L" and x: "OBJECT_TYPE x = TC_COMBINATION" "VECTOR_LENGTH_heap x m = length args + 1" "clean L x (length args + 2)"
    and o: "operands_compute p L d1 m env x args m1" and len: "VECTOR_LENGTH_heap x m1 = length args + 1"
    and c: "computes p L d2 m1 env (MEMORY_REF x COMB_FN_SLOT m1) f m2" and a: "application_computes p L d3 m2 f args v m'"
  shows "computes p L (max (length args + 4 + max d1 d2) d3) m env x v m'"
  unfolding computes_def
proof (intro allI impI, elim conjE)
  fix i assume i: "interp_at L i m [] i" "stack_room L (max (length args + 4 + max d1 d2) d3) i" "GET_EXP i = x" "env_register i = env"
  have room: "stack_room L (length args + 4 + max d1 d2) i" "stack_room L (length args + 2) i" "stack_room L d3 i"
    by (rule stack_room_mono [OF i(2)], simp)+
  from combination_reaches_application [OF ok x o len c i(1) room(1) i(3,4)] obtain h i1 where
    i1: "runs p Do_Expression i Internal_Apply_Val i1" "val_register i1 = f" "unat (OBJECT_DATUM h) = length args + 1"
      "interp_at L i m2 (h # f # args) (set_stack 1 f i1)" by blast
  with a room(2,3) obtain i' where i': "runs p Internal_Apply (set_stack 1 f i1) Pop_Return i'" "interp_at L i m' [] i'" "val_register i' = v"
    unfolding application_computes_def by blast
  from internal_apply_val_runs [of p i1 i'] i'(1) i1(2) have "runs p Internal_Apply_Val i1 Pop_Return i'" by simp
  with i1(1) i'(2,3) show "\<exists>i'. runs p Do_Expression i Pop_Return i' \<and> interp_at L i m' [] i' \<and> val_register i' = v" by (blast intro: runs_trans)
qed

subsection \<open>Applications\<close>

lemma push_heap_stack_pointer: "push_heap w (m\<lparr>stack_pointer := a\<rparr>) = (push_heap w m)\<lparr>stack_pointer := a\<rparr>"
  by (simp add: push_heap_def set_Free_def store_word_def)

lemma fold_push_heap_stack_pointer: "fold push_heap ws (m\<lparr>stack_pointer := a\<rparr>) = (fold push_heap ws m)\<lparr>stack_pointer := a\<rparr>"
  by (induction ws arbitrary: m) (simp_all add: push_heap_stack_pointer)

lemma move_from_stack_eq:
  assumes "\<And>k. k < length ws \<Longrightarrow> mem m (stack_pointer m + k) = ws ! k" "\<And>k j. \<lbrakk>k < length ws; j < length ws\<rbrakk> \<Longrightarrow> Free m + j \<noteq> stack_pointer m + k"
  shows "move_from_stack (length ws) m = (fold push_heap ws m)\<lparr>stack_pointer := stack_pointer m + length ws\<rparr>"
  using assms
proof (induction ws arbitrary: m)
  case (Cons w ws)
  let ?m = "push_heap (mem m (stack_pointer m)) (m\<lparr>stack_pointer := stack_pointer m + 1\<rparr>)"
  have w: "mem m (stack_pointer m) = w" using Cons.prems(1) [of 0] by simp
  have "move_from_stack (length ws) ?m = (fold push_heap ws ?m)\<lparr>stack_pointer := stack_pointer ?m + length ws\<rparr>"
  proof (rule Cons.IH)
    fix k j assume k: "k < length ws" and j: "j < length ws"
    show "mem ?m (stack_pointer ?m + k) = ws ! k" using Cons.prems(1) [of "Suc k"] Cons.prems(2) [of "Suc k" 0] k by simp
    show "Free ?m + j \<noteq> stack_pointer ?m + k" using Cons.prems(2) [of "Suc k" "Suc j"] k j by simp
  qed
  then show ?case by (simp add: w push_heap_stack_pointer fold_push_heap_stack_pointer)
qed simp

lemma move_rest_eq:
  assumes "ws \<noteq> []" "\<And>k. k < length ws \<Longrightarrow> mem m (stack_pointer m + k) = ws ! k"
    "\<And>k j. \<lbrakk>k < length ws; j < 2 * length ws\<rbrakk> \<Longrightarrow> Free m + j \<noteq> stack_pointer m + k"
  shows "move_rest (length ws) m = (fold push_heap (list_words (Free m) ws) m)\<lparr>stack_pointer := stack_pointer m + length ws\<rparr>"
  using assms
proof (induction "Free m" ws arbitrary: m rule: list_words.induct)
  case (2 x m)
  then have "mem m (stack_pointer m) = x" by simp
  then show ?case by (simp add: Let_def push_heap_def set_Free_def store_word_def mem_write_def)
next
  case (3 x y ys m)
  let ?m1 = "push_heap (mem m (stack_pointer m)) (m\<lparr>stack_pointer := stack_pointer m + 1\<rparr>)"
  let ?m2 = "push_heap (MAKE_POINTER_OBJECT TC_LIST (Free ?m1 + 1)) ?m1"
  have w: "mem m (stack_pointer m) = x" using "3.prems"(2) [of 0] by simp
  have "move_rest (length (y # ys)) ?m2 = (fold push_heap (list_words (Free ?m2) (y # ys)) ?m2)\<lparr>stack_pointer := stack_pointer ?m2 + length (y # ys)\<rparr>"
  proof (rule "3.hyps")
    fix k j assume k: "k < length (y # ys)"
    show "mem ?m2 (stack_pointer ?m2 + k) = (y # ys) ! k"
      using "3.prems"(2) [of "Suc k"] "3.prems"(3) [of "Suc k" 0] "3.prems"(3) [of "Suc k" 1] k by simp
    assume j: "j < 2 * length (y # ys)"
    show "Free ?m2 + j \<noteq> stack_pointer ?m2 + k" using "3.prems"(3) [of "Suc k" "Suc (Suc j)"] k j by simp
  qed simp_all
  moreover have "move_rest (length (x # y # ys)) m = move_rest (length (y # ys)) ?m2" by (simp add: Let_def)
  ultimately show ?case by (simp add: w push_heap_stack_pointer fold_push_heap_stack_pointer)
qed simp

lemma interp_at_frame_to_heap:
  assumes ok: "layout_ok L" and i: "interp_at L i0 m vs i" and room: "stack_room L (length vs) i0" and clean: "clean_heap L m (length ws)"
  shows "interp_at L i0 (fold push_heap ws m) [] (i\<lparr>regs := (fold push_heap ws (regs i))\<lparr>stack_pointer := stack_pointer (regs i) + length vs\<rparr>\<rparr>)"
proof -
  have "interp_at L i0 (fold push_heap ws m) (vs @ []) (on_regs (fold push_heap ws) i)" using interp_at_allocate [OF ok i clean room] by simp
  from interp_at_drop [OF this, of "length vs"] show ?thesis by (simp add: drop_stack_def on_regs_def)
qed

text \<open>The words on the stack, and that the new words of the heap do not overlap them.\<close>

lemma interp_at_stack_words:
  assumes "interp_at L i0 m ws i" "stack_room L (length ws) i0" "k < length ws"
  shows "mem (regs i) (stack_pointer (regs i) + k) = ws ! k" "stack_pointer (regs i) + k \<in> dirty L"
  using assms by (auto simp: interp_at_def keeps_def stack_room_def dirty_def)

lemma clean_heap_not_stack:
  assumes "interp_at L i0 m ws i" "stack_room L (length ws) i0" "k < length ws" "clean_heap L m n" "j < n"
  shows "Free (regs i) + j \<noteq> stack_pointer (regs i) + k"
  using interp_at_stack_words(2) [OF assms(1-3)] assms(1,4,5) by (force simp: clean_heap_def interp_at_def same_heap_def)

lemma internal_apply_at:
  assumes "interp_at L i0 m (h # f # args) i" "PENDING_INTERRUPTS m = 0" "unat (OBJECT_DATUM h) = length args + 1"
  shows "interp_step p Internal_Apply i = perform_application p i" "APPLY_FRAME_PROCEDURE i = f" "APPLY_FRAME_SIZE i = length args + 1"
proof -
  have "PENDING_INTERRUPTS (regs i) = 0" using assms(1,2) by (simp add: interp_at_def same_heap_def PENDING_INTERRUPTS_def)
  then show "interp_step p Internal_Apply i = perform_application p i"
    using interp_at_not_trapping [OF assms(1)] by (simp add: interp_step_def internal_apply_def apply_non_trapping_def trap_p_def)
  show "APPLY_FRAME_PROCEDURE i = f" "APPLY_FRAME_SIZE i = length args + 1"
    using interp_at_ref [OF assms(1), of 1] interp_at_ref [OF assms(1), of 0] assms(3) by (simp_all add: APPLY_FRAME_PROCEDURE_def APPLY_FRAME_SIZE_def)
qed

lemma gc_needed_at: "interp_at L i0 m ws i \<Longrightarrow> GC_NEEDED_P n (regs i) = GC_NEEDED_P n m"
  by (simp add: interp_at_def same_heap_def GC_NEEDED_P_def HEAP_AVAILABLE_P_def FREE_OK_P_def GC_ENABLED_P_def INTERRUPT_ENABLED_P_def)

lemmas applicable_types = TC_ENTITY_def TC_RECORD_def TC_PROCEDURE_def TC_CONTROL_POINT_def TC_PRIMITIVE_def TC_EXTENDED_PROCEDURE_def

lemma perform_application_cases:
  "OBJECT_TYPE (APPLY_FRAME_PROCEDURE i) = TC_PROCEDURE \<Longrightarrow> perform_application p i = apply_procedure (APPLY_FRAME_PROCEDURE i) i"
  "OBJECT_TYPE (APPLY_FRAME_PROCEDURE i) = TC_EXTENDED_PROCEDURE \<Longrightarrow> perform_application p i = apply_extended_procedure (APPLY_FRAME_PROCEDURE i) i"
  "OBJECT_TYPE (APPLY_FRAME_PROCEDURE i) = TC_PRIMITIVE \<Longrightarrow> perform_application p i = apply_primitive_object p (APPLY_FRAME_PROCEDURE i) i"
  "OBJECT_TYPE (APPLY_FRAME_PROCEDURE i) = TC_ENTITY \<Longrightarrow> perform_application p i = apply_entity (APPLY_FRAME_PROCEDURE i) i"
  by (simp_all add: perform_application_def applicable_types)

text \<open>A procedure whose frame has been moved to the heap goes on with its body; the stack is that before the call.\<close>

lemma body_entered:
  assumes ok: "layout_ok L" and i: "interp_at L i0 m vs i" and room: "stack_room L (length vs) i0" and clean: "clean_heap L m (length frame)"
    and step: "interp_step p l i = REDUCES_TO body (SET_ENV env (i\<lparr>regs := (fold push_heap frame (regs i))\<lparr>stack_pointer := stack_pointer (regs i) + length vs\<rparr>\<rparr>))"
  shows "\<exists>i'. interp_step p l i = Goto Do_Expression i' \<and> interp_at L i0 (fold push_heap frame m) [] i' \<and> GET_EXP i' = body \<and> env_register i' = env"
proof -
  have "stack_room L (length ([] :: scheme_object list)) i0" by (rule stack_room_mono [OF room]) simp
  from reduces_to_at [OF ok interp_at_registers(5) [OF interp_at_frame_to_heap [OF ok i room clean]] this, of body env] show ?thesis by (simp add: step)
qed

lemma entered_computes:
  assumes "interp_step p l i = Goto Do_Expression i1" "interp_at L i0 m [] i1" "stack_room L d i0" "computes p L d m (env_register i1) (GET_EXP i1) v m'"
  shows "\<exists>i'. runs p l i Pop_Return i' \<and> interp_at L i0 m' [] i' \<and> val_register i' = v"
  using computes_below [OF assms(4,2)] assms(1,3) by (auto intro: runs_step)

lemma compound_entered:
  assumes ok: "layout_ok L" and f: "OBJECT_TYPE f = TC_PROCEDURE" "clean L f 2" and lambda: "lambda = MEMORY_REF f PROCEDURE_LAMBDA_EXPR m" "clean L lambda 2"
    and formals: "formals = MEMORY_REF lambda LAMBDA_FORMALS m" "clean L formals 1"
    and arity: "length args + 1 = VECTOR_LENGTH_heap formals m \<or> OBJECT_TYPE lambda = TC_LEXPR \<and> VECTOR_LENGTH_heap formals m \<le> length args + 1"
    and int: "PENDING_INTERRUPTS m = 0" and gc: "\<not> GC_NEEDED_P (length args + 2) m" and clean: "clean_heap L m (length args + 2)"
    and i: "interp_at L i0 m (h # f # args) i" and h: "unat (OBJECT_DATUM h) = length args + 1" and room: "stack_room L (length args + 2) i0"
  shows "\<exists>i'. interp_step p Internal_Apply i = Goto Do_Expression i' \<and> interp_at L i0 (frame_of f args m) [] i' \<and>
    GET_EXP i' = MEMORY_REF lambda LAMBDA_SCODE (frame_of f args m) \<and> env_register i' = MAKE_POINTER_OBJECT TC_ENVIRONMENT (Free m)"
proof -
  let ?frame = "MAKE_OBJECT TC_MANIFEST_VECTOR (of_nat (length args + 1)) # f # args" and ?m = "regs i"
  have room': "stack_room L (length (h # f # args)) i0" using room by simp
  have free: "Free ?m = Free m" using i by (simp add: interp_at_def same_heap_def)
  note a = internal_apply_at [OF i int h]
  have reads: "MEMORY_REF f PROCEDURE_LAMBDA_EXPR ?m = lambda" "MEMORY_REF lambda LAMBDA_FORMALS ?m = formals" "VECTOR_LENGTH_heap formals ?m = VECTOR_LENGTH_heap formals m"
    using interp_at_read [OF i] f(2) lambda(2) formals(2)
    by (simp_all add: lambda(1) formals(1) clean_def vector_length_word PROCEDURE_LAMBDA_EXPR_def LAMBDA_FORMALS_def)
  have "move_from_stack (length (f # args)) (push_heap (hd ?frame) (?m\<lparr>stack_pointer := stack_pointer ?m + 1\<rparr>)) =
      (fold push_heap ?frame ?m)\<lparr>stack_pointer := stack_pointer ?m + length (h # f # args)\<rparr>"
  proof (subst move_from_stack_eq)
    fix k j assume k: "k < length (f # args)" and j: "j < length (f # args)"
    have s: "Suc k < length (h # f # args)" using k by simp
    show "mem (push_heap (hd ?frame) (?m\<lparr>stack_pointer := stack_pointer ?m + 1\<rparr>)) (stack_pointer (push_heap (hd ?frame) (?m\<lparr>stack_pointer := stack_pointer ?m + 1\<rparr>)) + k) = (f # args) ! k"
      using interp_at_stack_words(1) [OF i room' s] clean_heap_not_stack [OF i room' s clean, of 0] by simp
    show "Free (push_heap (hd ?frame) (?m\<lparr>stack_pointer := stack_pointer ?m + 1\<rparr>)) + j \<noteq> stack_pointer (push_heap (hd ?frame) (?m\<lparr>stack_pointer := stack_pointer ?m + 1\<rparr>)) + k"
      using clean_heap_not_stack [OF i room' s clean, of "Suc j"] j by simp
  qed (simp add: push_heap_stack_pointer fold_push_heap_stack_pointer)
  then have frame: "move_from_stack (length args + 1) (push_heap (MAKE_OBJECT TC_MANIFEST_VECTOR (of_nat (length args + 1))) ?m\<lparr>stack_pointer := stack_pointer ?m + 1\<rparr>) =
      (fold push_heap ?frame ?m)\<lparr>stack_pointer := stack_pointer ?m + length (h # f # args)\<rparr>"
    by (simp add: push_heap_stack_pointer)
  have at': "interp_at L i0 (frame_of f args m) [] (i\<lparr>regs := (fold push_heap ?frame ?m)\<lparr>stack_pointer := stack_pointer ?m + length (h # f # args)\<rparr>\<rparr>)"
    using interp_at_frame_to_heap [OF ok i room', of ?frame] clean by (simp add: frame_of_def)
  have body: "MEMORY_REF lambda LAMBDA_SCODE ((fold push_heap ?frame ?m)\<lparr>stack_pointer := stack_pointer ?m + length (h # f # args)\<rparr>) = MEMORY_REF lambda LAMBDA_SCODE (frame_of f args m)"
    using interp_at_read [OF at'] lambda(2) by (simp add: clean_def LAMBDA_SCODE_def)
  have "interp_step p Internal_Apply i = apply_procedure f i" using perform_application_cases(1) [of i p] f(1) a by simp
  also have "\<dots> = REDUCES_TO (MEMORY_REF lambda LAMBDA_SCODE (frame_of f args m)) (SET_ENV (MAKE_POINTER_OBJECT TC_ENVIRONMENT (Free m))
      (i\<lparr>regs := (fold push_heap ?frame ?m)\<lparr>stack_pointer := stack_pointer ?m + length (h # f # args)\<rparr>\<rparr>))"
    using arity gc gc_needed_at [OF i, of "length args + 1 + 1"] frame body free
    unfolding apply_procedure_def Let_def a(3) reads push_heap_registers by (auto simp del: move_from_stack.simps)
  finally show ?thesis using body_entered [OF ok i room', of ?frame] clean by (simp add: frame_of_def)
qed

lemma compound_computes:
  assumes ok: "layout_ok L" and f: "OBJECT_TYPE f = TC_PROCEDURE" "clean L f 2" and lambda: "lambda = MEMORY_REF f PROCEDURE_LAMBDA_EXPR m" "clean L lambda 2"
    and formals: "formals = MEMORY_REF lambda LAMBDA_FORMALS m" "clean L formals 1"
    and arity: "length args + 1 = VECTOR_LENGTH_heap formals m \<or> OBJECT_TYPE lambda = TC_LEXPR \<and> VECTOR_LENGTH_heap formals m \<le> length args + 1"
    and int: "PENDING_INTERRUPTS m = 0" and gc: "\<not> GC_NEEDED_P (length args + 2) m" and clean: "clean_heap L m (length args + 2)"
    and c: "computes p L d (frame_of f args m) (MAKE_POINTER_OBJECT TC_ENVIRONMENT (Free m)) (MEMORY_REF lambda LAMBDA_SCODE (frame_of f args m)) v m'"
  shows "application_computes p L d m f args v m'"
  unfolding application_computes_def
proof (intro allI impI, elim conjE)
  fix i0 i h assume i: "interp_at L i0 m (h # f # args) i" and h: "unat (OBJECT_DATUM h) = length args + 1"
    and room: "stack_room L (length args + 2) i0" "stack_room L d i0"
  from compound_entered [OF ok f lambda formals arity int gc clean i h room(1)] c
  show "\<exists>i'. runs p Internal_Apply i Pop_Return i' \<and> interp_at L i0 m' [] i' \<and> val_register i' = v"
    using entered_computes [OF _ _ room(2)] by metis
qed

lemma primitive_computes:
  assumes ok: "layout_ok L" and f: "OBJECT_TYPE f = TC_PRIMITIVE" and int: "PENDING_INTERRUPTS m = 0" and impl: "IMPLEMENTED_PRIMITIVE_P f (tables p) = Some True"
    and arity: "PRIMITIVE_ARITY f (tables p) = Some arity" "arity = int (length args) \<or> arity = LEXPR_PRIMITIVE_ARITY"
    and fetch: "fetch (Primitive_Procedure_Table (tables p)) (unat (PRIMITIVE_NUMBER f)) = Some procedure" and g: "primitive_gives p L procedure args m v m'"
  shows "application_computes p L 0 m f args v m'"
  unfolding application_computes_def
proof (intro allI impI, elim conjE)
  fix i0 i h assume i: "interp_at L i0 m (h # f # args) i" and h: "unat (OBJECT_DATUM h) = length args + 1"
    and room: "stack_room L (length args + 2) i0" "stack_room L 0 i0"
  note a = internal_apply_at [OF i int h]
  define j where "j = (if int (length args) \<noteq> arity then i\<lparr>lexpr_actuals := length args\<rparr> else i)"
  have "interp_at L i0 m ([h, f] @ args) j" using i by (auto simp: j_def intro: interp_at_same)
  from interp_at_drop [OF this, of 2] have "interp_at L i0 m args (drop_stack 2 j)" by simp
  then have k: "interp_at L i0 m args (on_regs (\<lambda>m. m\<lparr>Free_primitive := Free m\<rparr>) ((SET_EXP f (drop_stack 2 j))\<lparr>primitive_register := f\<rparr>))"
    by (intro interp_at_registers(1,6,7))
  from g interp_at_self [OF k] interp_at_ref [OF k] obtain i1 where
    call: "call p procedure (on_regs (\<lambda>m. m\<lparr>Free_primitive := Free m\<rparr>) ((SET_EXP f (drop_stack 2 j))\<lparr>primitive_register := f\<rparr>)) = Some (Prim_Value v i1)"
    and i1: "interp_at L (on_regs (\<lambda>m. m\<lparr>Free_primitive := Free m\<rparr>) ((SET_EXP f (drop_stack 2 j))\<lparr>primitive_register := f\<rparr>)) m' [] i1"
    unfolding primitive_gives_def by blast
  have "stack_room L (length args) i0" by (rule stack_room_mono [OF room(1)]) simp
  from interp_at_trans [OF k i1 this] have "interp_at L i0 m' args i1" .
  then have "interp_at L i0 m' (args @ []) (on_regs (\<lambda>m. m\<lparr>Free_primitive := 0\<rparr>) ((SET_VAL v i1)\<lparr>primitive_register := SHARP_F\<rparr>))"
    by (simp add: interp_at_registers)
  note end_state = interp_at_drop [OF this refl]
  have "interp_step p Internal_Apply i = apply_primitive_object p f i" using perform_application_cases(3) [of i p] f a by simp
  also have "\<dots> = Goto Pop_Return (drop_stack (length args) (on_regs (\<lambda>m. m\<lparr>Free_primitive := 0\<rparr>) ((SET_VAL v i1)\<lparr>primitive_register := SHARP_F\<rparr>)))"
    using arity(2) by (auto simp: apply_primitive_object_def impl arity(1) APPLY_FRAME_N_ARGS_def a(3) APPLY_PRIMITIVE_FROM_INTERPRETER_def fetch call Let_def simp flip: j_def)
  finally show "\<exists>i'. runs p Internal_Apply i Pop_Return i' \<and> interp_at L i0 m' [] i' \<and> val_register i' = v"
    using end_state by (auto intro!: exI runs_step [OF _ runs_refl])
qed

lemma entity_computes:
  assumes ok: "layout_ok L" and f: "OBJECT_TYPE f = TC_ENTITY" "length args + 2 < 2 ^ 58" "clean L f 2" "\<not> VECTOR_P (MEMORY_REF f ENTITY_DATA m)" and int: "PENDING_INTERRUPTS m = 0"
    and c: "application_computes p L d m (MEMORY_REF f ENTITY_OPERATOR m) (f # args) v m'"
  shows "application_computes p L (max (length args + 3) d) m f args v m'"
  unfolding application_computes_def
proof (intro allI impI, elim conjE)
  fix i0 i h assume i: "interp_at L i0 m (h # f # args) i" and h: "unat (OBJECT_DATUM h) = length args + 1"
    and room: "stack_room L (length args + 2) i0" "stack_room L (max (length args + 3) d) i0"
  note a = internal_apply_at [OF i int h]
  let ?op = "MEMORY_REF f ENTITY_OPERATOR m" and ?h = "MAKE_OBJECT 0 (of_nat (length args + 1 + 1))"
  have reads: "MEMORY_REF f ENTITY_DATA (regs i) = MEMORY_REF f ENTITY_DATA m" "MEMORY_REF f ENTITY_OPERATOR (regs i) = ?op"
    using interp_at_read [OF i] f(3) by (simp_all add: clean_def ENTITY_DATA_def ENTITY_OPERATOR_def)
  have more: "stack_room L (length (h # f # args)) i0" "stack_room L (length (?op # f # args) + 1) i0" "stack_room L (length (f # args) + 2) i0" "stack_room L d i0"
    "stack_room L (length (?h # ?op # f # args) + 0) i0"
    by (rule stack_room_mono [OF room(2)], simp)+
  have "interp_at L i0 m (?op # f # args) (set_stack 0 ?op i)" using interp_at_set [OF ok i _ more(1), of 0] by simp
  note j = push_header_at(1) [OF ok this more(2), of "length args + 1"]
  have h': "unat (OBJECT_DATUM ?h) = length (f # args) + 1" using header_datum [of "length args + 1"] f(2) by simp
  let ?j = "PUSH_APPLY_FRAME_HEADER (length args + 1) (set_stack 0 ?op i)"
  have "interp_step p Internal_Apply i = entity_apply ?op i"
    using perform_application_cases(4) [of i p] f(1,4) a by (simp add: apply_entity_def reads Let_def)
  also have "\<dots> = Goto Internal_Apply ?j"
    using Will_Push_room [OF stack_room_pushed [OF j more(5)], of "Goto Internal_Apply"] by (simp add: entity_apply_def a(3) Let_def)
  finally have step: "interp_step p Internal_Apply i = Goto Internal_Apply ?j" .
  from c j h' more(3,4) show "\<exists>i'. runs p Internal_Apply i Pop_Return i' \<and> interp_at L i0 m' [] i' \<and> val_register i' = v"
    unfolding application_computes_def using runs_step [of p Internal_Apply i, OF step] by blast
qed

subsection \<open>Extended procedures\<close>

lemma fill_heap_fold: "fill_heap n w m = fold push_heap (replicate n w) m"
  by (induction n arbitrary: m) simp_all

text \<open>Words that follow each other on the stack are moved to the heap after the words \<open>us\<close>.\<close>

lemma move_after:
  assumes "\<And>k. k < length ws \<Longrightarrow> mem c (a + k) = ws ! k" "\<And>k j. \<lbrakk>k < length ws; j < length us + length ws\<rbrakk> \<Longrightarrow> Free c + j \<noteq> a + k"
  shows "move_from_stack (length ws) ((fold push_heap us c)\<lparr>stack_pointer := a\<rparr>) = (fold push_heap (us @ ws) c)\<lparr>stack_pointer := a + length ws\<rparr>"
proof -
  let ?m = "(fold push_heap us c)\<lparr>stack_pointer := a\<rparr>"
  have "mem ?m (a + k) = ws ! k" if "k < length ws" for k
    using assms(1) [OF that] assms(2) [OF that, of "a + k - Free c"] by (auto simp: fold_push_heap_mem less_diff_conv2)
  then have "move_from_stack (length ws) ?m = (fold push_heap ws ?m)\<lparr>stack_pointer := stack_pointer ?m + length ws\<rparr>"
    by (intro move_from_stack_eq) (use assms(2) [of _ "length us + _"] in \<open>auto simp: add.assoc\<close>)
  then show ?thesis by (simp add: fold_push_heap_stack_pointer)
qed

lemma move_rest_after:
  assumes "ws \<noteq> []" "\<And>k. k < length ws \<Longrightarrow> mem c (a + k) = ws ! k" "\<And>k j. \<lbrakk>k < length ws; j < length us + 2 * length ws\<rbrakk> \<Longrightarrow> Free c + j \<noteq> a + k"
  shows "move_rest (length ws) ((fold push_heap us c)\<lparr>stack_pointer := a\<rparr>) =
    (fold push_heap (us @ list_words (Free c + length us) ws) c)\<lparr>stack_pointer := a + length ws\<rparr>"
proof -
  let ?m = "(fold push_heap us c)\<lparr>stack_pointer := a\<rparr>"
  have "mem ?m (a + k) = ws ! k" if "k < length ws" for k
    using assms(2) [OF that] assms(3) [OF that, of "a + k - Free c"] by (auto simp: fold_push_heap_mem less_diff_conv2)
  then have "move_rest (length ws) ?m = (fold push_heap (list_words (Free ?m) ws) ?m)\<lparr>stack_pointer := stack_pointer ?m + length ws\<rparr>"
    by (intro move_rest_eq assms(1)) (use assms(3) [of _ "length us + _"] in \<open>auto simp: add.assoc\<close>)
  then show ?thesis by (simp add: fold_push_heap_stack_pointer)
qed

lemma length_list_words [simp]: "length (list_words a ws) = 2 * length ws"
  by (induction a ws rule: list_words.induct) simp_all

lemma rest_flag_cases: "Elambda_Rest_Flag w = 0 \<or> Elambda_Rest_Flag w = 1"
proof -
  have "drop_bit 16 (w AND 0x10000) = of_bool (bit w 16)" by (rule bit_word_eqI) (auto simp: bit_simps bit_numeral_rec(1))
  then show ?thesis by (simp add: Elambda_Rest_Flag_def)
qed

lemma build_extended_frame_eq:
  assumes frame: "extended_frame counts nparams (Free c) f args = Some frame"
    and words: "\<And>k. k < length (f # args) \<Longrightarrow> mem c (a + k) = (f # args) ! k"
    and free: "\<And>k j. \<lbrakk>k < length (f # args); j < length frame\<rbrakk> \<Longrightarrow> Free c + j \<noteq> a + k"
  defines "params \<equiv> Elambda_Opts_Count counts + Elambda_Formals_Count counts" and "rest_flag \<equiv> Elambda_Rest_Flag counts"
  shows "build_extended_frame (length args) params rest_flag (nparams - (params + rest_flag)) (c\<lparr>stack_pointer := a\<rparr>) =
    (fold push_heap frame c)\<lparr>stack_pointer := a + length args + 1\<rparr>"
proof -
  let ?auxes = "nparams - (params + rest_flag)"
  let ?size = "params + rest_flag + ?auxes + 1" and ?n = "length args"
  let ?h = "MAKE_OBJECT TC_MANIFEST_VECTOR (of_nat ?size)"
  let ?m = "push_heap ?h (c\<lparr>stack_pointer := a\<rparr>)"
  have h: "?m = (fold push_heap [?h] c)\<lparr>stack_pointer := a\<rparr>" by (simp add: push_heap_stack_pointer)
  note frame' = frame [unfolded extended_frame_def Let_def, folded params_def rest_flag_def]
  show ?thesis
  proof (cases "?n \<le> params")
    case True
    then have fr: "frame = ?h # f # args @ replicate (params - ?n) DEFAULT_OBJECT @ (if rest_flag \<noteq> 0 then [EMPTY_LIST] else []) @ replicate ?auxes UNASSIGNED_OBJECT"
      using frame' by (auto split: if_splits)
    have "move_from_stack (length (f # args)) ?m = (fold push_heap ([?h] @ f # args) c)\<lparr>stack_pointer := a + length (f # args)\<rparr>"
      unfolding h by (rule move_after) (use words free in \<open>auto simp: fr\<close>)
    then show ?thesis using True
      by (cases "rest_flag = 0") (simp_all add: build_extended_frame_def Let_def fr fill_heap_fold push_heap_stack_pointer fold_push_heap_stack_pointer
          del: move_from_stack.simps of_nat_add of_nat_Suc fold_replicate)
  next
    case False
    let ?rest = "MAKE_POINTER_OBJECT TC_LIST (Free c + 1 + ?size)"
    let ?us = "[?h] @ f # take params args @ ?rest # replicate ?auxes UNASSIGNED_OBJECT"
    have fr: "frame = ?us @ list_words (Free c + 1 + ?size) (drop params args)" and "rest_flag \<noteq> 0" using False frame' by (auto split: if_splits)
    then have flag: "rest_flag = 1" using rest_flag_cases [of counts] by (simp add: rest_flag_def)
    have len: "length frame = length ?us + 2 * length (drop params args)" unfolding fr length_append length_list_words ..
    have 1: "move_from_stack (length (f # take params args)) ?m = (fold push_heap ([?h] @ f # take params args) c)\<lparr>stack_pointer := a + length (f # take params args)\<rparr>"
      unfolding h
    proof (rule move_after)
      fix k j assume k: "k < length (f # take params args)"
      show "mem c (a + k) = (f # take params args) ! k" using words [of k] k by (simp add: nth_Cons split: nat.split)
      assume "j < length [?h] + length (f # take params args)"
      then show "Free c + j \<noteq> a + k" using free [of k j] k len by simp
    qed
    have fl: "Free c + 1 + ?size = Free c + length ?us" using False flag by simp
    have 2: "move_rest (length (drop params args)) ((fold push_heap ?us c)\<lparr>stack_pointer := a + (params + 1)\<rparr>) =
        (fold push_heap (?us @ list_words (Free c + length ?us) (drop params args)) c)\<lparr>stack_pointer := a + (params + 1) + length (drop params args)\<rparr>"
    proof (rule move_rest_after)
      fix k j assume k: "k < length (drop params args)"
      show "mem c (a + (params + 1) + k) = drop params args ! k" using words [of "params + 1 + k"] k by (simp add: add.assoc)
      assume "j < length ?us + 2 * length (drop params args)"
      then show "Free c + j \<noteq> a + (params + 1) + k" using free [of "params + 1 + k" j] k len by (simp add: add.assoc)
    qed (use False in simp)
    show ?thesis using False 1 2 [folded fl]
      by (simp add: build_extended_frame_def Let_def fr fill_heap_fold push_heap_stack_pointer fold_push_heap_stack_pointer del: move_from_stack.simps move_rest.simps of_nat_add of_nat_Suc fold_replicate)
  qed
qed

lemma length_extended_frame:
  assumes "extended_frame counts nparams a f args = Some frame"
  defines "params \<equiv> Elambda_Opts_Count counts + Elambda_Formals_Count counts" and "rest_flag \<equiv> Elambda_Rest_Flag counts"
  shows "length frame = params + rest_flag + (nparams - (params + rest_flag)) + 1 + 1 + (if length args > params then 2 * (length args - params) else 0)"
    "\<not> (length args < Elambda_Formals_Count counts \<or> rest_flag = 0 \<and> length args > params)"
  using assms(1) rest_flag_cases [of counts] by (auto simp: extended_frame_def Let_def params_def rest_flag_def split: if_splits)

lemma extended_computes:
  assumes ok: "layout_ok L" and f: "OBJECT_TYPE f = TC_EXTENDED_PROCEDURE" "clean L f 2" and lambda: "lambda = MEMORY_REF f PROCEDURE_LAMBDA_EXPR m" "clean L lambda 3"
    and names: "names = MEMORY_REF lambda ELAMBDA_NAMES m" "clean L names 1"
    and frame: "extended_frame (MEMORY_REF lambda ELAMBDA_ARG_COUNT m) (VECTOR_LENGTH_heap names m - 1) (Free m) f args = Some frame"
    and int: "PENDING_INTERRUPTS m = 0" and gc: "\<not> GC_NEEDED_P (length frame) m" and clean: "clean_heap L m (length frame)"
    and c: "computes p L d (fold push_heap frame m) (MAKE_POINTER_OBJECT TC_ENVIRONMENT (Free m)) (MEMORY_REF lambda ELAMBDA_SCODE (fold push_heap frame m)) v m'"
  shows "application_computes p L d m f args v m'"
  unfolding application_computes_def
proof (intro allI impI, elim conjE)
  fix i0 i h assume i: "interp_at L i0 m (h # f # args) i" and h: "unat (OBJECT_DATUM h) = length args + 1"
    and room: "stack_room L (length args + 2) i0" "stack_room L d i0"
  let ?m = "regs i" and ?counts = "MEMORY_REF lambda ELAMBDA_ARG_COUNT m" and ?nparams = "VECTOR_LENGTH_heap names m - 1"
  let ?params = "Elambda_Opts_Count ?counts + Elambda_Formals_Count ?counts" and ?rest = "Elambda_Rest_Flag ?counts"
  let ?auxes = "?nparams - (?params + ?rest)" and ?sp = "stack_pointer ?m"
  have room': "stack_room L (length (h # f # args)) i0" using room(1) by simp
  have free: "Free ?m = Free m" using i by (simp add: interp_at_def same_heap_def)
  note a = internal_apply_at [OF i int h]
  have reads: "MEMORY_REF f PROCEDURE_LAMBDA_EXPR ?m = lambda" "MEMORY_REF lambda ELAMBDA_NAMES ?m = names" "VECTOR_LENGTH_heap names ?m = VECTOR_LENGTH_heap names m"
    "MEMORY_REF lambda ELAMBDA_ARG_COUNT ?m = ?counts"
    using interp_at_read [OF i] f(2) lambda(2) names(2)
    by (simp_all add: lambda(1) names(1) clean_def vector_length_word PROCEDURE_LAMBDA_EXPR_def ELAMBDA_NAMES_def ELAMBDA_ARG_COUNT_def)
  have drop: "regs (drop_stack 1 i) = ?m\<lparr>stack_pointer := ?sp + 1\<rparr>" by (simp add: drop_stack_def)
  have reads': "MEMORY_REF w n (?m\<lparr>stack_pointer := b\<rparr>) = MEMORY_REF w n ?m" "VECTOR_LENGTH_heap w (?m\<lparr>stack_pointer := b\<rparr>) = VECTOR_LENGTH_heap w ?m"
    "GC_NEEDED_P n (?m\<lparr>stack_pointer := b\<rparr>) = GC_NEEDED_P n ?m" for w n b
    by (simp_all add: MEMORY_REF_def VECTOR_LENGTH_heap_def GC_NEEDED_P_def HEAP_AVAILABLE_P_def FREE_OK_P_def GC_ENABLED_P_def INTERRUPT_ENABLED_P_def)
  have built: "build_extended_frame (length args) ?params ?rest ?auxes (?m\<lparr>stack_pointer := ?sp + 1\<rparr>) =
      (fold push_heap frame ?m)\<lparr>stack_pointer := ?sp + 1 + length args + 1\<rparr>"
  proof (rule build_extended_frame_eq)
    show "extended_frame ?counts ?nparams (Free ?m) f args = Some frame" using frame free by simp
    fix k j assume "k < length (f # args)"
    then have s: "Suc k < length (h # f # args)" by simp
    show "mem ?m (?sp + 1 + k) = (f # args) ! k" using interp_at_stack_words(1) [OF i room' s] by simp
    assume "j < length frame"
    then show "Free ?m + j \<noteq> ?sp + 1 + k" using clean_heap_not_stack [OF i room' s clean] by simp
  qed
  have at': "interp_at L i0 (fold push_heap frame m) [] (i\<lparr>regs := (fold push_heap frame ?m)\<lparr>stack_pointer := ?sp + length (h # f # args)\<rparr>\<rparr>)"
    using interp_at_frame_to_heap [OF ok i room' clean] .
  have body: "MEMORY_REF lambda ELAMBDA_SCODE ((fold push_heap frame ?m)\<lparr>stack_pointer := ?sp + length (h # f # args)\<rparr>) = MEMORY_REF lambda ELAMBDA_SCODE (fold push_heap frame m)"
    using interp_at_read [OF at'] lambda(2) by (simp add: clean_def ELAMBDA_SCODE_def)
  have sp: "?sp + 1 + length args + 1 = ?sp + length (h # f # args)" by simp
  have "interp_step p Internal_Apply i = apply_extended_procedure f i" using perform_application_cases(2) [of i p] f(1) a by simp
  also have "\<dots> = REDUCES_TO (MEMORY_REF lambda ELAMBDA_SCODE (fold push_heap frame m)) (SET_ENV (MAKE_POINTER_OBJECT TC_ENVIRONMENT (Free m))
      (i\<lparr>regs := (fold push_heap frame ?m)\<lparr>stack_pointer := ?sp + length (h # f # args)\<rparr>\<rparr>))"
    using length_extended_frame(2) [OF frame] gc gc_needed_at [OF i, of "length frame"] free body
    unfolding apply_extended_procedure_def Let_def APPLY_FRAME_N_ARGS_def a(3) add_diff_cancel_right' drop reads' reads built [unfolded sp]
      length_extended_frame(1) [OF frame, symmetric] by auto
  finally show "\<exists>i'. runs p Internal_Apply i Pop_Return i' \<and> interp_at L i0 m' [] i' \<and> val_register i' = v"
    using body_entered [OF ok i room' clean] entered_computes [OF _ _ room(2)] c by metis
qed

subsection \<open>The refinement\<close>

lemma evaluator_implemented:
  assumes ok: "layout_ok L"
  shows "evaluates p L d m env x v m' \<Longrightarrow> computes p L d m env x v m'"
    and "evaluates_operands p L d m env x vs m' \<Longrightarrow> operands_compute p L d m env x vs m'"
    and "applies p L d m f vs v m' \<Longrightarrow> application_computes p L d m f vs v m'"
proof (induction rule: evaluates_evaluates_operands_applies.inducts)
  case eval_self
  then show ?case by (rule self_computes)
next
  case eval_quote
  then show ?case by (rule quote_computes)
next
  case eval_environment
  then show ?case by (rule environment_computes)
next
  case eval_lambda
  show ?case by (rule closures_compute(1) [OF ok]; fact)
next
  case eval_extended_lambda
  show ?case by (rule closures_compute(2) [OF ok]; fact)
next
  case eval_delay
  show ?case by (rule closures_compute(3) [OF ok]; fact)
next
  case eval_comment
  show ?case by (rule comment_computes [OF ok]; fact)
next
  case eval_variable
  then show ?case by (rule variable_computes)
next
  case eval_access
  show ?case by (rule access_computes [OF ok]; fact)
next
  case eval_assignment
  show ?case by (rule assignment_computes [OF ok]; fact)
next
  case eval_definition
  show ?case by (rule definition_computes [OF ok]; fact)
next
  case eval_conditional
  show ?case by (rule conditional.parts_compute [OF ok]; fact)
next
  case eval_disjunction_true
  show ?case by (rule disjunction_true_computes [OF ok]; fact)
next
  case eval_disjunction_false
  show ?case by (rule disjunction_false_computes [OF ok]; fact)
next
  case eval_sequence
  show ?case by (rule sequence.parts_compute [OF ok]; fact)
next
  case eval_combination
  show ?case by (rule combination_computes [OF ok]; fact)
next
  case operands_none
  show ?case by (rule no_operands_compute)
next
  case operands_last
  show ?case by (rule last_operand_computes [OF ok]; fact)
next
  case apply_compound
  show ?case by (rule compound_computes [OF ok]; fact)
next
  case apply_extended
  show ?case by (rule extended_computes [OF ok]; fact)
next
  case apply_primitive
  show ?case by (rule primitive_computes [OF ok]; fact)
next
  case apply_entity
  show ?case by (rule entity_computes [OF ok]; fact)
qed

end
