(* ===== verification/Interp_Theorems.thy ===== *)
theory Interp_Theorems
  imports Interp_Correct
begin

text \<open>
  The theorems about the interpreter and an example machine to which they are applied: a program in memory, a
  stack and a history of one vertebra and one rib.
\<close>

subsection \<open>Variables\<close>

text \<open>The operations on variables give the evaluator what their own theory promises.\<close>

lemma lookup_gives:
  fixes b :: machine
  defines "words \<equiv> \<lambda>fs cell. chain_words fs b \<union> chain_cells fs b \<union> variable_words (Some cell) b \<union> {cell, value_location cell b}"
  assumes chain: "env_chain b env fs g" and symbol: "SYMBOL_P symbol" and cell: "resolve b fs g symbol = Some cell"
    and v: "variable_state (Some cell) b = Assigned v"
    and m: "\<forall>a \<in> words fs cell. a \<notin> dirty L \<and> mem m a = mem b a"
  shows "operation_gives L (lookup_variable env symbol) m PRIM_DONE (Some v) m"
  unfolding operation_gives_def
proof (intro allI impI)
  fix i assume i: "interp_at L i m [] i"
  let ?c = "regs i"
  have same: "mem ?c a = mem b a" if "a \<in> words fs cell" for a
    using i m that by (simp add: interp_at_def same_heap_def)
  have chain': "env_chain ?c env fs g" using env_chain_cong [OF chain] same by (simp add: words_def)
  have cell': "resolve ?c fs g symbol = Some cell" using resolve_cong [of fs b ?c g symbol] cell same by (simp add: words_def)
  have t: "\<forall>a \<in> trap_words (mem b cell). mem ?c a = mem b a" "\<forall>a \<in> trap_words (mem b (value_location cell b)). mem ?c a = mem b a"
    using same by (auto simp: variable_words_def words_def)
  have loc: "value_location cell ?c = value_location cell b"
    using get_trap_kind_cong [OF t(1)] GET_TRAP_CACHE_cong [OF t(1)] same by (simp add: value_location_def words_def)
  have "variable_state (Some cell) ?c = Assigned v"
    using v get_trap_kind_cong [OF t(2)] same by (simp add: variable_state_def word_state_def loc words_def)
  then have "lookup_variable env symbol ?c = machine_return (PRIM_DONE, Some v) ?c"
    using lookup_variable_eq [OF chain' symbol] cell' by simp
  then show "\<exists>c. lookup_variable env symbol ?c = machine_return (PRIM_DONE, Some v) c \<and> exp_register c = exp_register ?c \<and> interp_at L i m [] (i\<lparr>regs := c\<rparr>)"
    using i by (intro exI [of _ ?c]) simp
qed

subsection \<open>The interpreter and the evaluator\<close>

lemma interp_at_start: "\<lbrakk>history_ok L (regs i); \<not> trapping i\<rbrakk> \<Longrightarrow> interp_at L i (regs i) [] i"
  by (simp add: interp_at_def keeps_def same_heap_def)

text \<open>What \<open>interp_at\<close> says of a state whose stack is that of \<open>i\<close>.\<close>

definition back_with :: "layout \<Rightarrow> interpreter \<Rightarrow> machine \<Rightarrow> interpreter \<Rightarrow> bool" where
  "back_with L i m' i' \<longleftrightarrow>
    same_heap L m' (regs i') \<and> stack_pointer (regs i') = stack_pointer (regs i) \<and>
    (\<forall>a. stack_pointer (regs i) \<le> a \<and> a < stack_hi L \<longrightarrow> mem (regs i') a = mem (regs i) a) \<and> history_ok L (regs i')"

lemma interp_at_back: "interp_at L i m' [] i' \<Longrightarrow> back_with L i m' i'"
  by (simp add: interp_at_def keeps_def back_with_def)

text \<open>C1: The interpreter implements the evaluator. If the expression in the EXP register has a value in the
  environment in the ENV register according to the recursive evaluator, and the stack has as many words
  as that evaluation needs, then the interpreter, started at \<open>do_expression\<close>, reaches
  \<open>pop_return\<close> after finitely many jumps with the value in the VAL register, the heap of the evaluator,
  the stack exactly as it was and a well-formed history.\<close>

theorem interpreter_implements_evaluator:
  assumes "layout_ok L" "history_ok L (regs i)" "\<not> trapping i" "stack_room L d i"
    and "evaluates p L d (regs i) (env_register i) (GET_EXP i) v m'"
  shows "\<exists>i'. runs p Do_Expression i Pop_Return i' \<and> val_register i' = v \<and> back_with L i m' i'"
proof -
  have "interp_at L i (regs i) [] i" using assms(2,3) by (rule interp_at_start)
  with evaluator_implemented(1) [OF assms(1,5)] assms(4) obtain i' where
    "runs p Do_Expression i Pop_Return i'" "interp_at L i m' [] i'" "val_register i' = v" unfolding computes_def by blast
  then show ?thesis using interp_at_back by blast
qed

text \<open>C2: \<open>Interpret\<close> returns. When the stack holds the return code for the end of the computation and
  the expression has a value, the call of \<open>Interpret\<close> comes to an end: it returns to the C code that called it
  with the value in the VAL register, or, if there is no outer call, ends the system in the regular way.\<close>

theorem interpreter_returns:
  assumes "layout_ok L" "history_ok L (regs i)" "\<not> trapping i" "stack_room L d i" "stack_pointer (regs i) + 2 \<le> stack_hi L"
    and "evaluates p L d (regs i) (env_register i) (GET_EXP i) v m'"
    and "STACK_REF 0 i = MAKE_RETURN_CODE RC_END_OF_COMPUTATION"
  shows "\<exists>i'. Interpret p Do_Expression i = Some (if nested_p i then Return_To_C i' else Stop Term_End_Of_Computation) \<and>
    val_register i' = v \<and> same_heap L m' (regs i') \<and> stack_pointer (regs i') = stack_pointer (regs i) + 2"
proof -
  have "interp_at L i (regs i) [] i" using assms(2,3) by (rule interp_at_start)
  with evaluator_implemented(1) [OF assms(1,6)] assms(4) obtain i1 where
    i1: "runs p Do_Expression i Pop_Return i1" "interp_at L i m' [] i1" "val_register i1 = v" unfolding computes_def by blast
  define i2 where "i2 = drop_stack 2 i"
  have "STACK_REF 0 i1 = MAKE_RETURN_CODE RC_END_OF_COMPUTATION" "stack_pointer (regs i1) = stack_pointer (regs i)" "nested_p i1 = nested_p i"
    using i1(2) assms(5,7) by (simp_all add: STACK_REF_def STACK_LOC_def interp_at_def keeps_def)
  then have j: "interp_at L i2 m' [MAKE_RETURN_CODE RC_END_OF_COMPUTATION, STACK_REF 1 i1] i1"
    using i1(2) assms(5) by (auto simp: interp_at_def keeps_def i2_def drop_stack_def STACK_REF_def STACK_LOC_def less_Suc_eq)
  note r = restore_cont_at [OF j]
  have "Interpret p Do_Expression i = Interpret p Pop_Return i1" using i1(1) by (rule Interpret_runs)
  also have "\<dots> = Some (if nested_p i then Return_To_C (RESTORE_CONT i1) else Stop Term_End_Of_Computation)"
    using pop_return_cases(9) [OF j] \<open>nested_p i1 = nested_p i\<close> by (subst Interpret.simps) (simp add: interp_step_def)
  finally show ?thesis using r i1(3) by (auto simp: interp_at_def keeps_def i2_def drop_stack_def intro!: exI [of _ "RESTORE_CONT i1"])
qed

text \<open>C3: Tail calls need no stack. When the operator of a combination is a compound procedure that takes the
  arguments, the interpreter reaches the evaluation of the procedure's body with the stack exactly as it
  was when the evaluation of the combination began, so that a loop by tail calls runs in constant
  space; the new environment is a frame of the procedure and the arguments.\<close>

theorem tail_call_restores_stack:
  assumes "layout_ok L" "history_ok L (regs i)" "\<not> trapping i" "stack_room L (length args + 4 + max d1 d2) i"
    and "OBJECT_TYPE (GET_EXP i) = TC_COMBINATION" "VECTOR_LENGTH_heap (GET_EXP i) (regs i) = length args + 1" "clean L (GET_EXP i) (length args + 2)"
    and "evaluates_operands p L d1 (regs i) (env_register i) (GET_EXP i) args m1" "VECTOR_LENGTH_heap (GET_EXP i) m1 = length args + 1"
    and "evaluates p L d2 m1 (env_register i) (MEMORY_REF (GET_EXP i) COMB_FN_SLOT m1) f m2"
    and "OBJECT_TYPE f = TC_PROCEDURE" "clean L f 2" "lambda = MEMORY_REF f PROCEDURE_LAMBDA_EXPR m2" "clean L lambda 2"
    and "formals = MEMORY_REF lambda LAMBDA_FORMALS m2" "clean L formals 1" "length args + 1 = VECTOR_LENGTH_heap formals m2"
    and "PENDING_INTERRUPTS m2 = 0" "\<not> GC_NEEDED_P (length args + 2) m2" "clean_heap L m2 (length args + 2)"
  shows "\<exists>i'. runs p Do_Expression i Do_Expression i' \<and> back_with L i (frame_of f args m2) i' \<and>
    GET_EXP i' = MEMORY_REF lambda LAMBDA_SCODE (frame_of f args m2) \<and> env_register i' = MAKE_POINTER_OBJECT TC_ENVIRONMENT (Free m2)"
proof -
  have i: "interp_at L i (regs i) [] i" using assms(2,3) by (rule interp_at_start)
  have "stack_room L (length args + 2) i" by (rule stack_room_mono [OF assms(4)]) simp
  from combination_reaches_application [OF assms(1,5-7) evaluator_implemented(2) [OF assms(1,8)] assms(9) evaluator_implemented(1) [OF assms(1,10)] i assms(4) refl refl]
  obtain h j where j: "runs p Do_Expression i Internal_Apply_Val j" "val_register j = f" "unat (OBJECT_DATUM h) = length args + 1"
    "interp_at L i m2 (h # f # args) (set_stack 1 f j)" by blast
  from compound_entered [OF assms(1,11-16) disjI1 [OF assms(17)] assms(18-20) j(4,3) \<open>stack_room L (length args + 2) i\<close>] obtain i' where
    i': "interp_step p Internal_Apply (set_stack 1 f j) = Goto Do_Expression i'" "interp_at L i (frame_of f args m2) [] i'"
      "GET_EXP i' = MEMORY_REF lambda LAMBDA_SCODE (frame_of f args m2)" "env_register i' = MAKE_POINTER_OBJECT TC_ENVIRONMENT (Free m2)" by blast
  have "interp_step p Internal_Apply_Val j = Goto Do_Expression i'" using i'(1) j(2) by (simp add: interp_step_def)
  from runs_trans [OF j(1) runs_step [OF this runs_refl]] i'(2-4) show ?thesis using interp_at_back by blast
qed

subsection \<open>Interrupts and errors\<close>

lemma pop_return_resumes:
  assumes "interp_at L i0 m (MAKE_RETURN_CODE rc # x # ws) i"
  shows "rc = RC_POP_RETURN_ERROR \<or> rc = RC_RESTORE_VALUE \<Longrightarrow> \<exists>i'. pop_return i = Goto Pop_Return i' \<and> interp_at L i0 m ws i' \<and> val_register i' = x"
    "rc = RC_INTERNAL_APPLY_VAL \<Longrightarrow> \<exists>i'. pop_return i = Goto Internal_Apply_Val i' \<and> interp_at L i0 m ws i' \<and> val_register i' = val_register i"
    "rc = RC_EVAL_ERROR \<Longrightarrow> pop_return i = REDUCES_TO (GET_EXP (POP_ENV (RESTORE_CONT i))) (POP_ENV (RESTORE_CONT i))"
proof -
  note r = restore_cont_at [OF assms]
  have e: "pop_return i = pop_return_non_trapping i" using interp_at_not_trapping [OF assms] by (simp add: pop_return_def trap_p_def)
  have c: "rc < 2 ^ 58 \<Longrightarrow> OBJECT_DATUM (GET_RET (RESTORE_CONT i)) = rc" using r(2) by (simp add: return_code_datum)
  note d = e pop_return_non_trapping_def Let_def return_codes
  show "rc = RC_POP_RETURN_ERROR \<or> rc = RC_RESTORE_VALUE \<Longrightarrow> \<exists>i'. pop_return i = Goto Pop_Return i' \<and> interp_at L i0 m ws i' \<and> val_register i' = x"
    using c r(1,3) by (auto simp: d intro!: interp_at_registers)
  show "rc = RC_INTERNAL_APPLY_VAL \<Longrightarrow> \<exists>i'. pop_return i = Goto Internal_Apply_Val i' \<and> interp_at L i0 m ws i' \<and> val_register i' = val_register i"
    using c r(1,4) by (auto simp: d)
  show "rc = RC_EVAL_ERROR \<Longrightarrow> pop_return i = REDUCES_TO (GET_EXP (POP_ENV (RESTORE_CONT i))) (POP_ENV (RESTORE_CONT i))"
    using c by (simp add: d)
qed

text \<open>A value and the application it is for, saved in two continuations.\<close>

lemma resume_application:
  assumes i: "interp_at L i0 m (MAKE_RETURN_CODE rc # w # MAKE_RETURN_CODE RC_INTERNAL_APPLY_VAL # x # ws) i"
    and rc: "rc = RC_POP_RETURN_ERROR \<or> rc = RC_RESTORE_VALUE"
  shows "\<exists>k. runs p Pop_Return i Internal_Apply_Val k \<and> val_register k = w \<and> interp_at L i0 m ws k"
proof -
  from pop_return_resumes(1) [OF i rc] obtain i1 where
    i1: "pop_return i = Goto Pop_Return i1" "interp_at L i0 m (MAKE_RETURN_CODE RC_INTERNAL_APPLY_VAL # x # ws) i1" "val_register i1 = w" by blast
  from pop_return_resumes(2) [OF i1(2) refl] i1(3) show ?thesis using pop_return_runs [OF i1(1) pop_return_runs [OF _ runs_refl]] by blast
qed

lemma saved_application_at:
  assumes "layout_ok L" "interp_at L i (regs i) [] i" "stack_room L 4 i"
  defines "j \<equiv> save_cont (SET_RC RC_INTERNAL_APPLY_VAL (SET_EXP SHARP_F i))"
  shows "interp_at L i (regs i) [MAKE_RETURN_CODE RC_INTERNAL_APPLY_VAL, SHARP_F] j" "stack_room L (length [MAKE_RETURN_CODE RC_INTERNAL_APPLY_VAL, SHARP_F] + 2) i"
proof -
  have "stack_room L (length ([] :: scheme_object list) + 2) i" by (rule stack_room_mono [OF assms(3)]) simp
  from save_cont_at [OF assms(1) interp_at_registers(3) [OF interp_at_registers(1) [OF assms(2)]] this, of RC_INTERNAL_APPLY_VAL SHARP_F]
  show "interp_at L i (regs i) [MAKE_RETURN_CODE RC_INTERNAL_APPLY_VAL, SHARP_F] j" by (simp add: j_def)
qed (rule stack_room_mono [OF assms(3)], simp)

lemma interrupted_work_resumes_both:
  assumes "layout_ok L" "history_ok L (regs i)" "\<not> trapping i" "stack_room L 4 i"
  shows "\<exists>k. runs p Pop_Return (PREPARE_APPLY_INTERRUPT i) Internal_Apply_Val k \<and> val_register k = APPLY_FRAME_PROCEDURE i \<and> back_with L i (regs i) k"
    and "\<exists>j k. (\<forall>cont. PREPARE_EVAL_REPEAT i cont = cont j) \<and> runs p Pop_Return j Do_Expression k \<and>
      GET_EXP k = GET_EXP i \<and> env_register k = env_register i \<and> back_with L i (regs i) k"
proof -
  have i: "interp_at L i (regs i) [] i" using assms(2,3) by (rule interp_at_start)
  have room: "stack_room L 3 i" "stack_room L (length ([] :: scheme_object list) + 1) i"
    "stack_room L (length [env_register i] + 2) i" "stack_room L (length ([] :: scheme_object list)) i"
    by (rule stack_room_mono [OF assms(4)], simp)+
  note s = saved_application_at [OF assms(1) i assms(4)]
  let ?f = "APPLY_FRAME_PROCEDURE i"
  have "APPLY_FRAME_PROCEDURE (SET_EXP SHARP_F i) = ?f" by (simp add: APPLY_FRAME_PROCEDURE_def)
  then have "PREPARE_APPLY_INTERRUPT i = save_cont (SET_EXP ?f (SET_RC RC_RESTORE_VALUE (save_cont (SET_RC RC_INTERNAL_APPLY_VAL (SET_EXP SHARP_F i)))))"
    by (simp add: PREPARE_APPLY_INTERRUPT_def PREPARE_POP_RETURN_INTERRUPT_def Let_def)
  with save_cont_at [OF assms(1) interp_at_registers(1) [OF interp_at_registers(3) [OF s(1)]] s(2), of ?f RC_RESTORE_VALUE]
  have "interp_at L i (regs i) [MAKE_RETURN_CODE RC_RESTORE_VALUE, ?f, MAKE_RETURN_CODE RC_INTERNAL_APPLY_VAL, SHARP_F] (PREPARE_APPLY_INTERRUPT i)" by simp
  from resume_application [OF this, of p] show "\<exists>k. runs p Pop_Return (PREPARE_APPLY_INTERRUPT i) Internal_Apply_Val k \<and> val_register k = ?f \<and> back_with L i (regs i) k"
    using interp_at_back by blast
  let ?j = "save_cont (SET_RC RC_EVAL_ERROR (PUSH_ENV i))"
  have k: "PREPARE_EVAL_REPEAT i cont = cont ?j" for cont
    using Will_Push_room [OF room(1)] by (simp add: PREPARE_EVAL_REPEAT_def CONTINUATION_SIZE_def)
  note push = push_env_at [OF assms(1) i room(2)]
  have j: "interp_at L i (regs i) [MAKE_RETURN_CODE RC_EVAL_ERROR, GET_EXP i, env_register i] ?j"
    using save_cont_at [OF assms(1) interp_at_registers(3) [OF push(1)] room(3), of RC_EVAL_ERROR] push(3) by simp
  note r = restore_cont_at [OF j]
  note e = pop_env_at [OF r(1)]
  from reduces_to_at [OF assms(1) e(1) room(4), of "GET_EXP i"] obtain k' where
    k': "REDUCES_TO (GET_EXP i) (POP_ENV (RESTORE_CONT ?j)) = Goto Do_Expression k'" "interp_at L i (regs i) [] k'" "GET_EXP k' = GET_EXP i" "env_register k' = env_register i"
    using e(2) by auto
  have "pop_return ?j = Goto Do_Expression k'" using pop_return_resumes(3) [OF j refl] k'(1) e(3) r(3) by simp
  from pop_return_runs [OF this runs_refl] k'(2-4) k interp_at_back
  show "\<exists>j k. (\<forall>cont. PREPARE_EVAL_REPEAT i cont = cont j) \<and> runs p Pop_Return j Do_Expression k \<and>
      GET_EXP k = GET_EXP i \<and> env_register k = env_register i \<and> back_with L i (regs i) k" by blast
qed

text \<open>C4: An interrupt loses nothing. When an application is put off for an interrupt, the continuation that is
  saved for the handler, once resumed, comes back to the application with the same frame on the stack
  and the same procedure. When an evaluation is put off, it is begun again with the same
  expression, the same environment and the same stack.\<close>

theorem interrupted_work_resumes:
  assumes "layout_ok L" "history_ok L (regs i)" "\<not> trapping i" "stack_room L 4 i"
  shows "(\<exists>k. runs p Pop_Return (PREPARE_APPLY_INTERRUPT i) Internal_Apply_Val k \<and> val_register k = APPLY_FRAME_PROCEDURE i \<and> back_with L i (regs i) k) \<and>
    (\<exists>j k. (\<forall>cont. PREPARE_EVAL_REPEAT i cont = cont j) \<and> runs p Pop_Return j Do_Expression k \<and>
      GET_EXP k = GET_EXP i \<and> env_register k = env_register i \<and> back_with L i (regs i) k)"
  by (intro conjI interrupted_work_resumes_both [OF assms])

lemma interp_at_below:
  assumes "interp_at L i0 m ws i" "stack_pointer (regs i0) + n < stack_hi L"
  shows "STACK_REF (length ws + n) i = STACK_REF n i0"
proof -
  have "stack_pointer (regs i) + (length ws + n) = stack_pointer (regs i0) + n" using assms(1) by (simp add: interp_at_def keeps_def)
  moreover have "mem (regs i) (stack_pointer (regs i0) + n) = mem (regs i0) (stack_pointer (regs i0) + n)"
    using assms by (simp add: interp_at_def keeps_def)
  ultimately show ?thesis by (simp add: STACK_REF_def STACK_LOC_def add.assoc [symmetric])
qed

lemma interp_at_pushes:
  assumes "layout_ok L" "interp_at L i0 m ws i" "stack_room L (length vs + length ws) i0"
  shows "interp_at L i0 m (vs @ ws) (fold push (rev vs) i)"
  using assms(3)
proof (induction vs)
  case (Cons v vs)
  then have "stack_room L (length (vs @ ws) + 1) i0" "stack_room L (length vs + length ws) i0" by (auto intro: stack_room_mono)
  with Cons.IH assms(1) show ?case by (simp add: interp_at_push)
qed (use assms(2) in simp)

lemma on_regs_other [simp]:
  "prev_restore_history_offset (on_regs f i) = prev_restore_history_offset i" "error_argument (on_regs f i) = error_argument i"
  by (simp_all add: on_regs_def)

lemma push_other [simp]: "prev_restore_history_offset (push w i) = prev_restore_history_offset i" "error_argument (push w i) = error_argument i"
  by (simp_all add: push_def)

text \<open>The history of a machine may be exchanged for another one of the layout, as \<open>stop_history\<close> does.\<close>

lemma interp_at_history_register:
  assumes "interp_at L i0 m ws i" "v \<in> vertebrae L"
  shows "interp_at L i0 m ws (on_regs (\<lambda>m. m\<lparr>history_register := v\<rparr>) i)"
  using assms by (simp add: interp_at_def keeps_def same_heap_def history_ok_def)

lemma interp_at_offset: "interp_at L i0 m ws i \<Longrightarrow> interp_at L i0 m ws (i\<lparr>prev_restore_history_offset := n\<rparr>)"
  by (rule interp_at_same) simp_all

lemma interp_at_mask:
  assumes "interp_at L i0 m ws i"
  shows "interp_at L i0 (m\<lparr>int_mask := bits\<rparr>) ws (on_regs (SET_INTERRUPT_MASK bits) i)"
  using assms by (simp add: interp_at_def keeps_def same_heap_def history_ok_def SET_INTERRUPT_MASK_def COMPILER_SETUP_INTERRUPT_def)

lemma stop_history_at:
  assumes ok: "layout_ok L" and i: "interp_at L i0 m ws i" and room: "stack_room L (length ws + 4) i0"
    and d: "MEMORY_LOC (fixed_objects m) (DUMMY_HISTORY + 1) \<notin> dirty L" "OBJECT_ADDRESS (READ_DUMMY_HISTORY m) \<in> vertebrae L"
  shows "\<exists>j. (\<forall>k. stop_history i k = k j) \<and> val_register j = val_register i \<and> error_argument j = error_argument i \<and>
    interp_at L i0 m (MAKE_RETURN_CODE RC_RESTORE_DONT_COPY_HISTORY # MAKE_POINTER_OBJECT UNMARKED_HISTORY_TYPE (history_register (regs i)) #
      ULONG_TO_FIXNUM (of_nat (prev_restore_history_offset i)) # SHARP_F # ws) j"
proof -
  define i1 where "i1 = push (ULONG_TO_FIXNUM (of_nat (prev_restore_history_offset i))) (push SHARP_F i)"
  define i2 where "i2 = SET_RC RC_RESTORE_DONT_COPY_HISTORY (SET_EXP (MAKE_POINTER_OBJECT UNMARKED_HISTORY_TYPE (history_register (regs i1))) i1)"
  have r: "stack_room L 4 i" using stack_room_pushed [OF i room] .
  have 1: "interp_at L i0 m (ULONG_TO_FIXNUM (of_nat (prev_restore_history_offset i)) # SHARP_F # ws) i1"
    using interp_at_pushes [OF ok i, of "[ULONG_TO_FIXNUM (of_nat (prev_restore_history_offset i)), SHARP_F]"] stack_room_mono [OF room]
    by (simp add: i1_def)
  have "stack_room L (length (ULONG_TO_FIXNUM (of_nat (prev_restore_history_offset i)) # SHARP_F # ws) + 2) i0" using room by (auto intro: stack_room_mono)
  from save_cont_at [OF ok interp_at_registers(3) [OF interp_at_registers(1) [OF 1]] this, of RC_RESTORE_DONT_COPY_HISTORY
      "MAKE_POINTER_OBJECT UNMARKED_HISTORY_TYPE (history_register (regs i1))"]
  have 2: "interp_at L i0 m (MAKE_RETURN_CODE RC_RESTORE_DONT_COPY_HISTORY # MAKE_POINTER_OBJECT UNMARKED_HISTORY_TYPE (history_register (regs i)) #
      ULONG_TO_FIXNUM (of_nat (prev_restore_history_offset i)) # SHARP_F # ws) (save_cont i2)"
    by (simp add: i2_def i1_def push_registers)
  have "READ_DUMMY_HISTORY (regs (save_cont i2)) = READ_DUMMY_HISTORY m"
    using 2 interp_at_read [OF 2 d(1)] by (simp add: READ_DUMMY_HISTORY_def VECTOR_REF_def interp_at_def same_heap_def)
  with interp_at_history_register [OF 2, of "OBJECT_ADDRESS (READ_DUMMY_HISTORY (regs (save_cont i2)))"] d(2)
  have 3: "interp_at L i0 m (MAKE_RETURN_CODE RC_RESTORE_DONT_COPY_HISTORY # MAKE_POINTER_OBJECT UNMARKED_HISTORY_TYPE (history_register (regs i)) #
      ULONG_TO_FIXNUM (of_nat (prev_restore_history_offset i)) # SHARP_F # ws)
    (on_regs (\<lambda>m. m\<lparr>history_register := OBJECT_ADDRESS (READ_DUMMY_HISTORY m)\<rparr>) (save_cont i2))"
    by (simp add: on_regs_def)
  let ?i3 = "on_regs (\<lambda>m. m\<lparr>history_register := OBJECT_ADDRESS (READ_DUMMY_HISTORY m)\<rparr>) (save_cont i2)"
  let ?j = "SET_EXP (GET_EXP i) (SET_RET (GET_RET i) (?i3\<lparr>prev_restore_history_offset := STACK_N_PUSHED (regs ?i3) + CONTINUATION_RETURN_CODE\<rparr>))"
  have "stop_history i k = k ?j" for k
    using Will_Push_room [OF r] by (simp add: stop_history_def SAVE_HISTORY_def Let_def HISTORY_SIZE_def CONTINUATION_SIZE_def i2_def i1_def)
  moreover note interp_at_registers(1) [OF interp_at_registers(2) [OF interp_at_offset [OF 3]]]
  moreover have "val_register ?j = val_register i" "error_argument ?j = error_argument i"
    by (simp_all add: i2_def i1_def push_registers) (simp add: SET_RC_def SET_RET_def SET_EXP_def save_cont_def)
  ultimately show ?thesis by blast
qed

lemma preserve_interrupt_mask_at:
  assumes "layout_ok L" "interp_at L i0 m ws i" "stack_room L (length ws + 2) i0"
  shows "\<exists>j. (\<forall>k. preserve_interrupt_mask i k = k j) \<and> error_argument j = error_argument i \<and>
    interp_at L i0 m (MAKE_RETURN_CODE RC_RESTORE_INT_MASK # ULONG_TO_FIXNUM (int_mask m) # ws) j"
proof -
  let ?j = "save_cont (SET_EXP (ULONG_TO_FIXNUM (int_mask (regs i))) (SET_RC RC_RESTORE_INT_MASK i))"
  have mask: "int_mask (regs i) = int_mask m" using assms(2) by (simp add: interp_at_def same_heap_def)
  have "preserve_interrupt_mask i k = k ?j" for k
    using Will_Push_room [OF stack_room_pushed [OF assms(2,3)]] by (simp add: preserve_interrupt_mask_def CONTINUATION_SIZE_def)
  moreover have "interp_at L i0 m (MAKE_RETURN_CODE RC_RESTORE_INT_MASK # ULONG_TO_FIXNUM (int_mask m) # ws) ?j"
    using save_cont_at [OF assms(1) interp_at_registers(1) [OF interp_at_registers(3) [OF assms(2)]] assms(3), of "ULONG_TO_FIXNUM (int_mask (regs i))" RC_RESTORE_INT_MASK]
      mask by simp
  moreover have "error_argument ?j = error_argument i" by (simp add: SET_EXP_def SET_RET_def SET_RC_def save_cont_def on_regs_def)
  ultimately show ?thesis by blast
qed


text \<open>
  What an error in an application leaves on the stack: the frame of the handler with the error code and the
  interrupt mask, and below it the continuation, which restores the interrupt mask and the history, loads a value
  and applies it to the frame of the application.
\<close>

definition handler_frame :: "scheme_object \<Rightarrow> scheme_object \<Rightarrow> interpreter \<Rightarrow> scheme_object list" where
  "handler_frame handler code i = [MAKE_OBJECT 0 3, handler, code, ULONG_TO_FIXNUM (int_mask (regs i))]"

definition application_error_words :: "interpreter \<Rightarrow> scheme_object list" where
  "application_error_words i =
    [MAKE_RETURN_CODE RC_RESTORE_INT_MASK, ULONG_TO_FIXNUM (int_mask (regs i)),
     MAKE_RETURN_CODE RC_RESTORE_DONT_COPY_HISTORY, MAKE_POINTER_OBJECT UNMARKED_HISTORY_TYPE (history_register (regs i)),
     ULONG_TO_FIXNUM (of_nat (prev_restore_history_offset i)), SHARP_F,
     MAKE_RETURN_CODE RC_POP_RETURN_ERROR, SHARP_F, MAKE_RETURN_CODE RC_INTERNAL_APPLY_VAL, SHARP_F]"

lemma error_code_object_cong: "error_argument j = error_argument i \<Longrightarrow> error_code_object code j = error_code_object code i"
  by (simp add: error_code_object_def)

lemma interp_at_vector_length: "\<lbrakk>interp_at L i0 m ws i; MEMORY_LOC v 0 \<notin> dirty L\<rbrakk> \<Longrightarrow> VECTOR_LENGTH_heap v (regs i) = VECTOR_LENGTH_heap v m"
  by (simp add: VECTOR_LENGTH_heap_def VECTOR_LENGTH_def MEMORY_LOC_def interp_at_def same_heap_def)

lemma micro_error_at:
  assumes ok: "layout_ok L" and i: "interp_at L i0 m ws i" and room: "stack_room L (length ws + 12) i0"
    and v: "VECTOR_P (fixed_objects m)" "clean L (fixed_objects m) (DUMMY_HISTORY + 2)"
    and h: "handlers = VECTOR_REF (fixed_objects m) SYSTEM_ERROR_VECTOR m" "VECTOR_P handlers" "clean L handlers (nat code + 2)"
    and code: "0 \<le> code" "code < int (VECTOR_LENGTH_heap handlers m)" "error_code_object code i = Some object"
    and d: "OBJECT_ADDRESS (READ_DUMMY_HISTORY m) \<in> vertebrae L"
  shows "\<exists>j. Do_Micro_Error code True i k = k j \<and>
    interp_at L i0 (m\<lparr>int_mask := 0\<rparr>) ([MAKE_OBJECT 0 3, VECTOR_REF handlers (nat code) m, object, ULONG_TO_FIXNUM (int_mask m),
      MAKE_RETURN_CODE RC_RESTORE_INT_MASK, ULONG_TO_FIXNUM (int_mask m),
      MAKE_RETURN_CODE RC_RESTORE_DONT_COPY_HISTORY, MAKE_POINTER_OBJECT UNMARKED_HISTORY_TYPE (history_register (regs i)),
      ULONG_TO_FIXNUM (of_nat (prev_restore_history_offset i)), SHARP_F, MAKE_RETURN_CODE RC_POP_RETURN_ERROR, val_register i] @ ws) j"
proof -
  define i1 where "i1 = save_cont (SET_RC RC_POP_RETURN_ERROR (SET_EXP (val_register i) i))"
  define w1 where "w1 = MAKE_RETURN_CODE RC_POP_RETURN_ERROR # val_register i # ws"
  have "stack_room L (length ws + 2) i0" using room by (auto intro: stack_room_mono)
  from save_cont_at [OF ok interp_at_registers(3) [OF interp_at_registers(1) [OF i]] this, of RC_POP_RETURN_ERROR "val_register i"]
  have 1: "interp_at L i0 m w1 i1" by (simp add: i1_def w1_def)
  have reg1: "history_register (regs i1) = history_register (regs i)" "prev_restore_history_offset i1 = prev_restore_history_offset i"
      "error_argument i1 = error_argument i" "fixed_objects (regs i1) = fixed_objects m"
    using 1 by (simp_all add: interp_at_def same_heap_def)
      (simp_all add: i1_def save_cont_def SAVE_CONT_def SET_RC_def SET_RET_def SET_EXP_def STACK_PUSH_def)
  have ref: "VECTOR_REF (fixed_objects m) SYSTEM_ERROR_VECTOR (regs i1) = handlers"
      "VECTOR_REF handlers (nat code) (regs i1) = VECTOR_REF handlers (nat code) m" "VECTOR_LENGTH_heap handlers (regs i1) = VECTOR_LENGTH_heap handlers m"
    using 1 v(2) h interp_at_vector_length [OF 1, of handlers]
    by (simp_all add: clean_def VECTOR_REF_def interp_at_read SYSTEM_ERROR_VECTOR_def DUMMY_HISTORY_def)
  have "stack_room L (length w1 + 4) i0" "MEMORY_LOC (fixed_objects m) (DUMMY_HISTORY + 1) \<notin> dirty L"
    using room v(2) by (auto simp: w1_def clean_def intro: stack_room_mono)
  from stop_history_at [OF ok 1 this d] obtain i2 where
    i2: "\<And>k. stop_history i1 k = k i2" "error_argument i2 = error_argument i" and 2: "interp_at L i0 m (MAKE_RETURN_CODE RC_RESTORE_DONT_COPY_HISTORY #
      MAKE_POINTER_OBJECT UNMARKED_HISTORY_TYPE (history_register (regs i)) # ULONG_TO_FIXNUM (of_nat (prev_restore_history_offset i)) # SHARP_F # w1) i2"
    unfolding reg1 by blast
  have "stack_room L (length (MAKE_RETURN_CODE RC_RESTORE_DONT_COPY_HISTORY #
      MAKE_POINTER_OBJECT UNMARKED_HISTORY_TYPE (history_register (regs i)) # ULONG_TO_FIXNUM (of_nat (prev_restore_history_offset i)) # SHARP_F # w1) + 2) i0"
    using room by (auto simp: w1_def intro: stack_room_mono)
  from preserve_interrupt_mask_at [OF ok 2 this] obtain i3 where
    i3: "\<And>k. preserve_interrupt_mask i2 k = k i3" "error_argument i3 = error_argument i" and
    3: "interp_at L i0 m ([MAKE_RETURN_CODE RC_RESTORE_INT_MASK, ULONG_TO_FIXNUM (int_mask m), MAKE_RETURN_CODE RC_RESTORE_DONT_COPY_HISTORY,
      MAKE_POINTER_OBJECT UNMARKED_HISTORY_TYPE (history_register (regs i)), ULONG_TO_FIXNUM (of_nat (prev_restore_history_offset i)), SHARP_F] @ w1) i3"
    unfolding i2 by auto
  let ?w = "[MAKE_OBJECT 0 3, VECTOR_REF handlers (nat code) m, object, ULONG_TO_FIXNUM (int_mask m)]"
  have "stack_room L 4 i3" "stack_room L 2 i"
    using stack_room_pushed [OF 3, of 4] stack_room_pushed [OF i, of 2] stack_room_mono [OF room, of "length ws + 2"] room
    by (simp_all add: w1_def add.commute)
  moreover have "error_code_object code (push w i3) = Some object" for w using code(3) i3(2) error_code_object_cong [of "push w i3" i] by simp
  moreover have "int_mask (regs i3) = int_mask m" using 3 by (simp add: interp_at_def same_heap_def)
  ultimately have "Do_Micro_Error code True i k = k (on_regs (SET_INTERRUPT_MASK 0) (fold push (rev ?w) i3))"
    using v(1) h(2) code(1,2) ref reg1(4)
    by (simp add: Do_Micro_Error_def Will_Push_room CONTINUATION_SIZE_def STACK_ENV_EXTRA_SLOTS_def i1_def [symmetric] i2(1) i3(1) Let_def PUSH_APPLY_FRAME_HEADER_def)
  moreover note interp_at_mask [OF interp_at_pushes [OF ok 3, of ?w], of 0]
  moreover have "stack_room L (length ?w + length ([MAKE_RETURN_CODE RC_RESTORE_INT_MASK, ULONG_TO_FIXNUM (int_mask m), MAKE_RETURN_CODE RC_RESTORE_DONT_COPY_HISTORY,
      MAKE_POINTER_OBJECT UNMARKED_HISTORY_TYPE (history_register (regs i)), ULONG_TO_FIXNUM (of_nat (prev_restore_history_offset i)), SHARP_F] @ w1)) i0"
    using room by (auto simp: w1_def intro: stack_room_mono)
  ultimately show ?thesis by (auto simp: w1_def)
qed


lemma mask_restored: "bits < 2 ^ 57 \<Longrightarrow> word_of_int (UNSIGNED_FIXNUM_TO_LONG (ULONG_TO_FIXNUM bits)) = bits"
proof -
  assume m: "bits < 2 ^ 57"
  then have "bits < 2 ^ 58" by (simp add: word_less_nat_alt)
  then have "OBJECT_DATUM (ULONG_TO_FIXNUM bits) = bits" by (simp add: ULONG_TO_FIXNUM_def TC_FIXNUM_def)
  then show ?thesis by (simp add: UNSIGNED_FIXNUM_TO_LONG_def)
qed

text \<open>The return of a handler: interrupt mask and history are restored.\<close>

lemma restore_mask_at:
  assumes i: "interp_at L i0 m (MAKE_RETURN_CODE RC_RESTORE_INT_MASK # ULONG_TO_FIXNUM bits # ws) i"
    and bits: "bits < 2 ^ 57" "bits AND int_code m = 0" "\<not> GC_NEEDED_P 0 (m\<lparr>int_mask := bits\<rparr>)"
  shows "\<exists>j. pop_return i = Goto Pop_Return j \<and> interp_at L i0 (m\<lparr>int_mask := bits\<rparr>) ws j"
proof -
  note r = restore_cont_at [OF i]
  define j where "j = on_regs (SET_INTERRUPT_MASK bits) (RESTORE_CONT i)"
  have j: "interp_at L i0 (m\<lparr>int_mask := bits\<rparr>) ws j" unfolding j_def by (rule interp_at_mask [OF r(1)])
  then have "same_heap L (m\<lparr>int_mask := bits\<rparr>) (regs j)" by (simp add: interp_at_def)
  then have "\<not> GC_NEEDED_P 0 (regs j)" "PENDING_INTERRUPTS (regs j) = 0"
    using bits(2,3) GC_NEEDED_P_cong [of "regs j" "m\<lparr>int_mask := bits\<rparr>" 0] by (simp_all add: same_heap_def PENDING_INTERRUPTS_def)
  moreover have "pop_return i = return_restore_int_mask (RESTORE_CONT i)"
    using interp_at_not_trapping [OF i] r(2)
    by (simp add: pop_return_def trap_p_def pop_return_non_trapping_def Let_def return_code_datum return_codes)
  ultimately have "pop_return i = Goto Pop_Return j"
    using mask_restored [OF bits(1)] r(3) by (simp add: return_restore_int_mask_def Let_def j_def)
  with j show ?thesis by blast
qed

lemma restore_history_at:
  assumes i: "interp_at L i0 m (MAKE_RETURN_CODE RC_RESTORE_DONT_COPY_HISTORY # MAKE_POINTER_OBJECT UNMARKED_HISTORY_TYPE h # x # y # ws) i"
    and h: "h \<in> vertebrae L" "h < 2 ^ 58"
  shows "\<exists>j. pop_return i = Goto Pop_Return j \<and> interp_at L i0 m ws j"
proof -
  note r = restore_cont_at [OF i]
  let ?i = "(RESTORE_CONT i)\<lparr>prev_restore_history_offset := unat (OBJECT_DATUM (STACK_REF 0 (RESTORE_CONT i)))\<rparr>"
  have "interp_at L i0 m ([x, y] @ ws) ?i" using interp_at_offset [OF r(1)] by simp
  from interp_at_drop [OF this, of 2] have d: "interp_at L i0 m ws (drop_stack 2 ?i)" by simp
  have e: "exp_register (regs (drop_stack 2 ?i)) = MAKE_POINTER_OBJECT UNMARKED_HISTORY_TYPE h"
    using r(3) by (simp add: GET_EXP_def drop_stack_def)
  have "OBJECT_ADDRESS (MAKE_POINTER_OBJECT UNMARKED_HISTORY_TYPE h) = h" using h(2) by (simp add: UNMARKED_HISTORY_TYPE_def TC_HUNK3_A_def)
  then have "interp_at L i0 m ws (on_regs (\<lambda>m. m\<lparr>history_register := OBJECT_ADDRESS (exp_register m)\<rparr>) (drop_stack 2 ?i))"
    using interp_at_history_register [OF d h(1)] e by (simp add: on_regs_def)
  moreover have "pop_return i = return_dont_copy_history (RESTORE_CONT i)"
    using interp_at_not_trapping [OF i] r(2)
    by (simp add: pop_return_def trap_p_def pop_return_non_trapping_def Let_def return_code_datum return_codes)
  ultimately show ?thesis by (auto simp: return_dont_copy_history_def Let_def)
qed

lemma application_error_retried:
  assumes "history_register (regs i) \<in> vertebrae L" "history_register (regs i) < 2 ^ 58" "int_mask (regs i) < 2 ^ 57"
    and "interp_at L i m (application_error_words i) r" "int_mask (regs i) AND int_code m = 0" "\<not> GC_NEEDED_P 0 (m\<lparr>int_mask := int_mask (regs i)\<rparr>)"
  shows "\<exists>k. runs p Pop_Return r Internal_Apply_Val k \<and> val_register k = SHARP_F \<and> interp_at L i (m\<lparr>int_mask := int_mask (regs i)\<rparr>) [] k"
proof -
  from restore_mask_at [OF assms(4) [unfolded application_error_words_def] assms(3,5,6)] obtain r1 where
    r1: "pop_return r = Goto Pop_Return r1" "interp_at L i (m\<lparr>int_mask := int_mask (regs i)\<rparr>) [MAKE_RETURN_CODE RC_RESTORE_DONT_COPY_HISTORY,
      MAKE_POINTER_OBJECT UNMARKED_HISTORY_TYPE (history_register (regs i)), ULONG_TO_FIXNUM (of_nat (prev_restore_history_offset i)), SHARP_F,
      MAKE_RETURN_CODE RC_POP_RETURN_ERROR, SHARP_F, MAKE_RETURN_CODE RC_INTERNAL_APPLY_VAL, SHARP_F] r1" by blast
  from restore_history_at [OF r1(2) assms(1,2)] obtain r2 where
    r2: "pop_return r1 = Goto Pop_Return r2" "interp_at L i (m\<lparr>int_mask := int_mask (regs i)\<rparr>) [MAKE_RETURN_CODE RC_POP_RETURN_ERROR, SHARP_F,
      MAKE_RETURN_CODE RC_INTERNAL_APPLY_VAL, SHARP_F] r2" by blast
  from resume_application [OF r2(2), of p] show ?thesis using pop_return_runs [OF r1(1) pop_return_runs [OF r2(1)]] by blast
qed


subsection \<open>An example\<close>

text \<open>
  The expression \<open>(if y ((lambda (x) 7) y) #f)\<close> at address 100, to be evaluated in the frame at address 20 of the example environment;
  the history is at address 0, the stack at 200 and the free space at 300.
\<close>

definition program_memory :: "addr \<Rightarrow> scheme_object" where
  "program_memory a =
    (if a = 0 \<or> a = 5 then MAKE_POINTER_OBJECT UNMARKED_HISTORY_TYPE 3 else if a = 1 \<or> a = 2 then MAKE_POINTER_OBJECT UNMARKED_HISTORY_TYPE 0
     else if a = 100 then MAKE_POINTER_OBJECT TC_VARIABLE 103 else if a = 101 then MAKE_POINTER_OBJECT TC_COMBINATION 105
     else if a = 103 then symbol_y else if a = 105 then MAKE_OBJECT TC_MANIFEST_VECTOR 2 else if a = 106 then MAKE_POINTER_OBJECT TC_LAMBDA 108
     else if a = 107 then MAKE_POINTER_OBJECT TC_VARIABLE 103 else if a = 108 then MAKE_OBJECT TC_FIXNUM 7
     else if a = 109 then MAKE_POINTER_OBJECT TC_VECTOR 110 else if a = 110 then MAKE_OBJECT TC_MANIFEST_VECTOR 2
     else if a = 112 then symbol_x else if a = 240 then MAKE_RETURN_CODE RC_END_OF_COMPUTATION else env_memory a)"

definition program_machine :: "scheme_object \<Rightarrow> machine" where
  "program_machine e = demo_machine\<lparr>gc := demo_gc\<lparr>fromspace_start := 12, fromspace_end := 300, memory := program_memory\<rparr>,
     int_mask := INT_GC, int_code := 0, heap_alloc_limit := 400, stack_pointer := 240, stack_guard := 200, history_register := 0,
     exp_register := e\<rparr>"

definition program_interpreter :: "scheme_object \<Rightarrow> interpreter" where
  "program_interpreter e = \<lparr>regs = (program_machine e), val_register = SHARP_F, env_register = example_frame, primitive_register = SHARP_F,
     lexpr_actuals = 0, prev_restore_history_offset = 0, trapping = False, critical_section_p = False, nested_p = True,
     prim_apply_error_code = 0, error_argument = SHARP_F\<rparr>"

definition program_layout :: layout where
  "program_layout = \<lparr>stack_lo = 200, stack_hi = 250, vertebrae = {0}, ribs = {3}\<rparr>"

lemma program_simps [simp]:
  "mem (program_machine e) = program_memory" "Free (program_machine e) = 300" "heap_alloc_limit (program_machine e) = 400" "heap_start (program_machine e) = 12"
  "int_mask (program_machine e) = INT_GC" "int_code (program_machine e) = 0" "stack_pointer (program_machine e) = 240" "stack_guard (program_machine e) = 200" "history_register (program_machine e) = 0"
  "regs (program_interpreter e) = (program_machine e)" "env_register (program_interpreter e) = example_frame" "\<not> trapping (program_interpreter e)" "nested_p (program_interpreter e)"
  "GET_EXP (program_interpreter e) = e"
  by (simp_all add: program_machine_def program_interpreter_def demo_machine_def demo_gc_def GET_EXP_def)

lemma program_dirty: "a \<in> dirty program_layout \<longleftrightarrow> a \<le> 5 \<or> 200 \<le> a \<and> a < 250"
  by (auto simp: dirty_def history_words_def history_pointers_def program_layout_def)

lemma program_types [simp]:
  "TC_CONDITIONAL < 64" "TC_VARIABLE < 64" "TC_COMBINATION < 64" "TC_LAMBDA < 64" "TC_PROCEDURE < 64" "TC_VECTOR < 64" "UNMARKED_HISTORY_TYPE < 64" "TC_MANIFEST_VECTOR < 64" "TC_FIXNUM < 64"
  by (simp_all add: TC_CONDITIONAL_def TC_VARIABLE_def TC_COMBINATION_def TC_LAMBDA_def TC_PROCEDURE_def TC_VECTOR_def UNMARKED_HISTORY_TYPE_def TC_HUNK3_A_def TC_MANIFEST_VECTOR_def TC_FIXNUM_def)

lemma program_layout_ok: "layout_ok program_layout" "history_ok program_layout (program_machine e)" "stack_room program_layout 5 (program_interpreter e)"
proof -
  show "layout_ok program_layout" by (auto simp: layout_ok_def history_words_def history_pointers_def program_layout_def)
  show "history_ok program_layout (program_machine e)" by (simp add: history_ok_def program_layout_def program_memory_def)
  show "stack_room program_layout 5 (program_interpreter e)" by (simp add: stack_room_def program_layout_def)
qed

lemma program_y:
  assumes "\<forall>a. a < 300 \<longrightarrow> mem m a = program_memory a"
  shows "operation_gives program_layout (lookup_variable example_frame symbol_y) m PRIM_DONE (Some (MAKE_OBJECT TC_FIXNUM 5)) m"
proof (rule lookup_gives [where b = "env_machine 60", OF example_chain example_values(2,7) example_locations(5)])
  have "chain_cells [example_frame] (env_machine 60) = {22}"
    by (simp add: chain_cells_def example_bindings)
  then show "\<forall>a \<in> chain_words [example_frame] (env_machine 60) \<union> chain_cells [example_frame] (env_machine 60) \<union>
      variable_words (Some 33) (env_machine 60) \<union> {33, value_location 33 (env_machine 60)}. a \<notin> dirty program_layout \<and> mem m a = mem (env_machine 60) a"
    using assms by (simp add: example_chain_words variable_words_def example_locations example_words program_dirty program_memory_def)
qed

text \<open>The value of the expression is 7; the closure is at 300 and the frame of its call at 302.\<close>

definition closure_machine :: "scheme_object \<Rightarrow> machine" where
  "closure_machine e = push_heap example_frame (push_heap (MAKE_POINTER_OBJECT TC_LAMBDA 108) (program_machine e))"

definition call_machine :: "scheme_object \<Rightarrow> machine" where
  "call_machine e = frame_of (MAKE_POINTER_OBJECT TC_PROCEDURE 300) [MAKE_OBJECT TC_FIXNUM 5] (closure_machine e)"

lemma closure_simps [simp]:
  "mem (closure_machine e) a = (if a = 300 then MAKE_POINTER_OBJECT TC_LAMBDA 108 else if a = 301 then example_frame else program_memory a)"
  "Free (closure_machine e) = 302" "heap_alloc_limit (closure_machine e) = 400" "heap_start (closure_machine e) = 12" "int_mask (closure_machine e) = INT_GC" "int_code (closure_machine e) = 0"
  by (simp_all add: closure_machine_def)

lemmas program_refs = MEMORY_REF_def MEMORY_LOC_def program_memory_def

lemma program_variable: "evaluates p program_layout 0 (program_machine e) example_frame (MAKE_POINTER_OBJECT TC_VARIABLE 103) (MAKE_OBJECT TC_FIXNUM 5) (program_machine e)"
proof (rule eval_variable)
  have "VARIABLE_SYMBOL (MAKE_POINTER_OBJECT TC_VARIABLE 103) (program_machine e) = symbol_y" by (simp add: VARIABLE_SYMBOL_def program_refs)
  then show "operation_gives program_layout (lookup_variable example_frame (VARIABLE_SYMBOL (MAKE_POINTER_OBJECT TC_VARIABLE 103) (program_machine e)))
      (program_machine e) PRIM_DONE (Some (MAKE_OBJECT TC_FIXNUM 5)) (program_machine e)" using program_y [of "program_machine e"] by simp
qed (auto simp: clean_def program_dirty MEMORY_LOC_def)

lemma program_operands:
  "evaluates_operands p program_layout 0 (program_machine e) example_frame (MAKE_POINTER_OBJECT TC_COMBINATION 105) [MAKE_OBJECT TC_FIXNUM 5] (program_machine e)"
proof -
  have "MEMORY_REF (MAKE_POINTER_OBJECT TC_COMBINATION 105) (length ([] :: scheme_object list) + 2) (program_machine e) = MAKE_POINTER_OBJECT TC_VARIABLE 103"
    by (simp add: program_refs)
  from operands_last [OF program_variable [folded this] operands_none] show ?thesis by simp
qed

lemma program_operator:
  "evaluates p program_layout 0 (program_machine e) example_frame (MEMORY_REF (MAKE_POINTER_OBJECT TC_COMBINATION 105) COMB_FN_SLOT (program_machine e))
    (MAKE_POINTER_OBJECT TC_PROCEDURE 300) (closure_machine e)"
proof -
  have "MEMORY_REF (MAKE_POINTER_OBJECT TC_COMBINATION 105) COMB_FN_SLOT (program_machine e) = MAKE_POINTER_OBJECT TC_LAMBDA 108" by (simp add: program_refs COMB_FN_SLOT_def)
  moreover have "clean_heap program_layout (program_machine e) 2" by (simp add: clean_heap_def program_dirty)
  ultimately show ?thesis using eval_lambda [of "MAKE_POINTER_OBJECT TC_LAMBDA 108" program_layout "program_machine e" p example_frame] by (simp add: closure_machine_def)
qed

lemma program_procedure:
  "MEMORY_REF (MAKE_POINTER_OBJECT TC_PROCEDURE 300) PROCEDURE_LAMBDA_EXPR (closure_machine e) = MAKE_POINTER_OBJECT TC_LAMBDA 108"
  "MEMORY_REF (MAKE_POINTER_OBJECT TC_LAMBDA 108) LAMBDA_FORMALS (closure_machine e) = MAKE_POINTER_OBJECT TC_VECTOR 110"
  "VECTOR_LENGTH_heap (MAKE_POINTER_OBJECT TC_VECTOR 110) (closure_machine e) = 2"
  "VECTOR_LENGTH_heap (MAKE_POINTER_OBJECT TC_COMBINATION 105) (program_machine e) = 2"
  "MEMORY_REF (MAKE_POINTER_OBJECT TC_LAMBDA 108) LAMBDA_SCODE (call_machine e) = MAKE_OBJECT TC_FIXNUM 7"
  "PENDING_INTERRUPTS (closure_machine e) = 0" "\<not> GC_NEEDED_P 3 (closure_machine e)" "clean_heap program_layout (closure_machine e) 3"
  by (simp_all add: program_refs PROCEDURE_LAMBDA_EXPR_def LAMBDA_FORMALS_def LAMBDA_SCODE_def vector_length_word PENDING_INTERRUPTS_def
      GC_NEEDED_P_def HEAP_AVAILABLE_P_def FREE_OK_P_def clean_heap_def program_dirty call_machine_def frame_of_def)

lemma program_clean:
  "clean program_layout (MAKE_POINTER_OBJECT TC_PROCEDURE 300) 2" "clean program_layout (MAKE_POINTER_OBJECT TC_LAMBDA 108) 2" "clean program_layout (MAKE_POINTER_OBJECT TC_VECTOR 110) 1"
  "clean program_layout (MAKE_POINTER_OBJECT TC_COMBINATION 105) 3" "clean program_layout (MAKE_POINTER_OBJECT TC_CONDITIONAL 100) 3"
  by (auto simp: clean_def program_dirty MEMORY_LOC_def)

lemma program_call: "applies p program_layout 0 (closure_machine e) (MAKE_POINTER_OBJECT TC_PROCEDURE 300) [MAKE_OBJECT TC_FIXNUM 5] (MAKE_OBJECT TC_FIXNUM 7) (call_machine e)"
proof (rule apply_compound [OF _ program_clean(1) program_procedure(1) [symmetric] program_clean(2) program_procedure(2) [symmetric] program_clean(3)])
  have "self_evaluating (MAKE_OBJECT TC_FIXNUM 7)" by code_simp
  from eval_self [OF this, of p program_layout "call_machine e" "MAKE_POINTER_OBJECT TC_ENVIRONMENT (Free (closure_machine e))"]
  show "evaluates p program_layout 0 (frame_of (MAKE_POINTER_OBJECT TC_PROCEDURE 300) [MAKE_OBJECT TC_FIXNUM 5] (closure_machine e))
      (MAKE_POINTER_OBJECT TC_ENVIRONMENT (Free (closure_machine e)))
      (MEMORY_REF (MAKE_POINTER_OBJECT TC_LAMBDA 108) LAMBDA_SCODE (frame_of (MAKE_POINTER_OBJECT TC_PROCEDURE 300) [MAKE_OBJECT TC_FIXNUM 5] (closure_machine e)))
      (MAKE_OBJECT TC_FIXNUM 7) (call_machine e)"
    using program_procedure(5) by (simp add: call_machine_def)
qed (use program_procedure(3,6-8) in \<open>simp_all add: numeral_3_eq_3\<close>)

lemma program_evaluates:
  "evaluates p program_layout 5 (program_machine e) example_frame (MAKE_POINTER_OBJECT TC_CONDITIONAL 100) (MAKE_OBJECT TC_FIXNUM 7) (call_machine e)"
proof -
  have "evaluates p program_layout (max (length [MAKE_OBJECT TC_FIXNUM 5] + 4 + max 0 0) 0) (program_machine e) example_frame (MAKE_POINTER_OBJECT TC_COMBINATION 105) (MAKE_OBJECT TC_FIXNUM 7) (call_machine e)"
    by (rule eval_combination [OF _ _ _ program_operands _ program_operator program_call]) (use program_procedure(4) program_clean(4) in \<open>simp_all add: numeral_3_eq_3\<close>)
  then have c: "evaluates p program_layout 5 (program_machine e) example_frame (MAKE_POINTER_OBJECT TC_COMBINATION 105) (MAKE_OBJECT TC_FIXNUM 7) (call_machine e)" by simp
  have r: "MEMORY_REF (MAKE_POINTER_OBJECT TC_CONDITIONAL 100) COND_PREDICATE (program_machine e) = MAKE_POINTER_OBJECT TC_VARIABLE 103"
    "MEMORY_REF (MAKE_POINTER_OBJECT TC_CONDITIONAL 100) (if MAKE_OBJECT TC_FIXNUM 5 = SHARP_F then COND_ALTERNATIVE else COND_CONSEQUENT) (program_machine e) = MAKE_POINTER_OBJECT TC_COMBINATION 105"
  proof -
    have "MAKE_OBJECT TC_FIXNUM 5 \<noteq> SHARP_F" by code_simp
    then show "MEMORY_REF (MAKE_POINTER_OBJECT TC_CONDITIONAL 100) (if MAKE_OBJECT TC_FIXNUM 5 = SHARP_F then COND_ALTERNATIVE else COND_CONSEQUENT) (program_machine e) = MAKE_POINTER_OBJECT TC_COMBINATION 105"
      by (simp add: program_refs COND_CONSEQUENT_def)
  qed (simp add: program_refs COND_PREDICATE_def)
  from eval_conditional [OF _ program_clean(5) program_variable [folded r(1)] c [folded r(2)]] show ?thesis by simp
qed

definition no_primitives :: primitive_code where
  "no_primitives = \<lparr>tables = sample_prims, call = \<lambda>_ _. None\<rparr>"

theorem interpreter_implements_evaluator_witness:
  "\<exists>i'. runs no_primitives Do_Expression (program_interpreter (MAKE_POINTER_OBJECT TC_CONDITIONAL 100)) Pop_Return i' \<and> val_register i' = MAKE_OBJECT TC_FIXNUM 7 \<and>
    back_with program_layout (program_interpreter (MAKE_POINTER_OBJECT TC_CONDITIONAL 100)) (call_machine (MAKE_POINTER_OBJECT TC_CONDITIONAL 100)) i'"
  by (rule interpreter_implements_evaluator [where d = 5]) (simp_all add: program_layout_ok program_evaluates)

theorem interpreter_returns_witness:
  "\<exists>i'. Interpret no_primitives Do_Expression (program_interpreter (MAKE_POINTER_OBJECT TC_CONDITIONAL 100)) = Some (Return_To_C i') \<and>
    val_register i' = MAKE_OBJECT TC_FIXNUM 7 \<and> same_heap program_layout (call_machine (MAKE_POINTER_OBJECT TC_CONDITIONAL 100)) (regs i') \<and> stack_pointer (regs i') = 242"
proof -
  let ?i = "program_interpreter (MAKE_POINTER_OBJECT TC_CONDITIONAL 100)"
  have "STACK_REF 0 ?i = MAKE_RETURN_CODE RC_END_OF_COMPUTATION" "stack_pointer (regs ?i) + 2 \<le> stack_hi program_layout"
    by (simp_all add: STACK_REF_def STACK_LOC_def program_memory_def program_layout_def)
  from interpreter_returns [of program_layout ?i 5, OF _ _ _ _ this(2) _ this(1), of no_primitives] show ?thesis
    using program_evaluates [of no_primitives "MAKE_POINTER_OBJECT TC_CONDITIONAL 100"] program_layout_ok by fastforce
qed

theorem tail_call_restores_stack_witness:
  "\<exists>i'. runs no_primitives Do_Expression (program_interpreter (MAKE_POINTER_OBJECT TC_COMBINATION 105)) Do_Expression i' \<and> stack_pointer (regs i') = 240 \<and>
    GET_EXP i' = MAKE_OBJECT TC_FIXNUM 7 \<and> env_register i' = MAKE_POINTER_OBJECT TC_ENVIRONMENT 302"
proof -
  let ?x = "MAKE_POINTER_OBJECT TC_COMBINATION 105"
  let ?i = "program_interpreter ?x" and ?f = "MAKE_POINTER_OBJECT TC_PROCEDURE 300" and ?args = "[MAKE_OBJECT TC_FIXNUM 5]"
  have "\<exists>i'. runs no_primitives Do_Expression ?i Do_Expression i' \<and> back_with program_layout ?i (frame_of ?f ?args (closure_machine ?x)) i' \<and>
      GET_EXP i' = MEMORY_REF (MAKE_POINTER_OBJECT TC_LAMBDA 108) LAMBDA_SCODE (frame_of ?f ?args (closure_machine ?x)) \<and>
      env_register i' = MAKE_POINTER_OBJECT TC_ENVIRONMENT (Free (closure_machine ?x))"
  proof (rule tail_call_restores_stack [where ?d1.0 = 0 and ?d2.0 = 0 and ?m1.0 = "program_machine ?x" and formals = "MAKE_POINTER_OBJECT TC_VECTOR 110"])
    show "evaluates_operands no_primitives program_layout 0 (regs ?i) (env_register ?i) (GET_EXP ?i) ?args (program_machine ?x)" using program_operands by simp
    show "evaluates no_primitives program_layout 0 (program_machine ?x) (env_register ?i) (MEMORY_REF (GET_EXP ?i) COMB_FN_SLOT (program_machine ?x)) ?f (closure_machine ?x)"
      using program_operator by simp
  qed (use program_layout_ok program_procedure program_clean in \<open>simp_all add: numeral_3_eq_3\<close>)
  then show ?thesis using program_procedure(5) [of ?x] by (auto simp: back_with_def call_machine_def)
qed

text \<open>The machine with the number 7 as the procedure of a frame.\<close>

definition frame_interpreter :: interpreter where
  "frame_interpreter = set_stack 1 (MAKE_OBJECT TC_FIXNUM 7) (program_interpreter SHARP_F)"

lemma frame_interpreter_ok:
  "history_ok program_layout (regs frame_interpreter)" "\<not> trapping frame_interpreter" "stack_room program_layout 4 frame_interpreter"
  "APPLY_FRAME_PROCEDURE frame_interpreter = MAKE_OBJECT TC_FIXNUM 7" "stack_pointer (regs frame_interpreter) = 240"
  using program_layout_ok(2)
  by (simp_all add: frame_interpreter_def set_stack_def stack_room_def history_ok_def program_layout_def APPLY_FRAME_PROCEDURE_def STACK_REF_def STACK_LOC_def)

theorem interrupted_work_resumes_witness:
  "\<exists>k. runs no_primitives Pop_Return (PREPARE_APPLY_INTERRUPT frame_interpreter) Internal_Apply_Val k \<and>
     val_register k = MAKE_OBJECT TC_FIXNUM 7 \<and> stack_pointer (regs k) = 240"
  using interrupted_work_resumes [OF program_layout_ok(1) frame_interpreter_ok(1-3), of no_primitives]
  by (auto simp: back_with_def frame_interpreter_ok)

text \<open>The same machine with a vector of fixed objects at address 120 and a vector of four error handlers at 150.\<close>

definition error_interpreter :: interpreter where
  "error_interpreter = frame_interpreter\<lparr>regs := (regs frame_interpreter)\<lparr>fixed_objects := MAKE_POINTER_OBJECT TC_VECTOR 120,
     gc := (gc (regs frame_interpreter))\<lparr>memory := (memory (gc (regs frame_interpreter)))
       (123 := MAKE_POINTER_OBJECT TC_VECTOR 150, 140 := MAKE_POINTER_OBJECT UNMARKED_HISTORY_TYPE 0,
        150 := MAKE_OBJECT TC_MANIFEST_VECTOR 4, 154 := MAKE_POINTER_OBJECT TC_PROCEDURE 108)\<rparr>\<rparr>\<rparr>"

lemma error_interpreter_simps:
  "mem (regs error_interpreter) a =
    (if a = 123 then MAKE_POINTER_OBJECT TC_VECTOR 150 else if a = 140 then MAKE_POINTER_OBJECT UNMARKED_HISTORY_TYPE 0
     else if a = 150 then MAKE_OBJECT TC_MANIFEST_VECTOR 4 else if a = 154 then MAKE_POINTER_OBJECT TC_PROCEDURE 108
     else mem (regs frame_interpreter) a)"
  "fixed_objects (regs error_interpreter) = MAKE_POINTER_OBJECT TC_VECTOR 120" "stack_pointer (regs error_interpreter) = 240"
  "stack_guard (regs error_interpreter) = 200" "history_register (regs error_interpreter) = 0" "int_mask (regs error_interpreter) = INT_GC"
  "\<not> trapping error_interpreter"
  using frame_interpreter_ok(2,5) by (simp_all add: error_interpreter_def) (simp_all add: frame_interpreter_def set_stack_def)


end
