(* ===== verification/Spec2Isabelle.thy ===== *)
theory Spec2Isabelle
  imports Integer_Prims Generic_Prims Primitive_Export Dynamic_Stack GC_Correct GC_Ephemerons Heap_Correct Interp_Theorems
begin

section \<open>The microcode of MIT/GNU Scheme\<close>

text \<open>
  The runtime system of MIT/GNU Scheme is written in Scheme on top of a virtual machine in C, the
  microcode (src/src/microcode). This development models the core of the microcode for a 64-bit machine and
  proves what its parts promise each other.

  \<^bold>\<open>The program and its parts.\<close> The interpreter (interp.c) evaluates S-code, trees of tagged objects in
  memory, with a stack of continuations. It reads, assigns and defines variables through lookup.c, which
  finds them in chains of frames; symbols are interned by intern.c. Procedures that are not compound are
  primitives: C functions that take their arguments from the stack and are found through the tables of
  primutl.c, whose names are kept in AVL trees (avltree.c). The primitives on integers (fixnum.c, intprm.c,
  bigprm.c, generic.c) are built on integers of any size (artutl.c), which are fixnums or bignums (bignum.c);
  those on memory (list.c, vector.c, prim.c) read and write the heap. When the heap is full, a primitive or the
  interpreter requests a collection: an interrupt is signalled, the interpreter applies its handler, and
  the copying collector (gcloop.c, driven by memmag.c) moves the live objects. Errors are values that unwind a
  primitive to the interpreter, which applies an error handler; the dynamic stack (wind.c), which allocates in an obstack
  (obstack.c), and transactions (transact.c) undo what C code has to undo on the way.

  \<^bold>\<open>Conventions.\<close> A \<open>SCHEME_OBJECT\<close> and an \<open>unsigned long\<close> are 64-bit words, a \<open>long\<close> is an \<open>int\<close> whose
  range is checked where C could overflow. Addresses in the memory of Scheme are numbers of words relative to \<open>memory_base\<close>, below \<open>2 ^ 58\<close> when they are
  the datum of an object: the configuration of object.h without \<open>HEAP_IN_LOW_MEMORY\<close>. (With it, as confshared.h chooses for x86-64 and
  aarch64, the datum is the byte address; the code goes through \<open>OBJECT_ADDRESS\<close> and \<open>ADDRESS_TO_DATUM\<close> in both.) The addresses of obstacks
  are bytes. Every error, abort and exit of the C code is a value of a result type; a failed
  assertion ends the system, and where C leaves a computation undefined the result is \<open>Undefined_Behaviour\<close> or
  \<open>None\<close>. Loops that need not end are \<open>partial_function (option)\<close>, and it is proved that they return; the other
  loops are total functions. Definitions have the names of the functions and macros they model. All
  definitions of the model compute.

  \<^bold>\<open>The theories\<close>, each after the ones it uses:

  \<^item> \<open>Prelude\<close>, \<open>Radix\<close>: machine integers, lists and positional notation shared by the rest.
  \<^item> \<open>Object\<close> (object.h, types.h): tagged objects. \<open>Bits\<close> (bits.h): population count, length in bits, first bit.
    \<open>Fixnum\<close> (fixnum.h, fixnum.c, mul.c): the fixnum primitives, with the cases in which the code wraps around.
  \<^item> \<open>Bignum_Base\<close>, \<open>Bignum_Addsub\<close>, \<open>Bignum_Mul\<close>, \<open>Bignum_Div\<close>, \<open>Bignum_Conv\<close>, \<open>Bignum_Bits\<close>, \<open>Bignum_Shift\<close> (bignum.c,
    bignmint.h): sign-magnitude bignums with digits of 62 bits. Every operation returns a well-formed
    bignum that denotes the result over the integers. The locales \<open>bitwise_operation\<close> and \<open>signed_operation\<close> are the
    contracts of the bitwise operations on digits and on signed numbers, interpreted for all ten.
  \<^item> \<open>Scheme_Integer\<close>, \<open>Scheme_Bits\<close> (artutl.c): integers in canonical form. The locales \<open>integer_operation\<close>,
    \<open>integer_division\<close> and \<open>bitwise_integer\<close> state what the dispatch between fixnums and bignums promises. Operands
    have at most \<open>operand_bits\<close> bits, so that lengths in digits and bits do not overflow.
  \<^item> \<open>Integer_Prims\<close> (utils.c, intprm.c, bigprm.c): argument checking and the integer primitives.
  \<^item> \<open>AVL_Tree\<close> (avltree.c), \<open>Primitive_Table\<close>, \<open>Primitive_Export\<close> (primutl.c): the trees stay balanced and ordered
    and implement finite maps of names (locale \<open>name_table\<close>); every name keeps its number when tables grow; the
    external table that is written for a set of primitives is read back as the same primitives. Growth
    needs at least ten primitives, and primitive numbers are below \<open>2 ^ 57\<close>; \<open>nodes_left\<close> bounds what \<open>malloc\<close> gives.
  \<^item> \<open>Obstack\<close> (obstack.c, obstack.h): objects that grow in chunks of memory and are freed in the opposite order. The locale
    \<open>lifo_allocator\<close> is what its clients rely on, interpreted for obstacks with no growing object.
  \<^item> \<open>Dynamic_Stack\<close> (wind.c, transact.c), on top of an obstack: unwinding runs the protectors in order and restores bindings; a
    transaction runs exactly its commit or its abort actions.
  \<^item> \<open>GC_Loop\<close>, \<open>GC_Driver\<close> (gcloop.c, memmag.c, purify.c, intrpt.h, stack.h): the collector with weak pairs and
    ephemerons, the memory layout, interrupts and stack. \<open>GC_Copy\<close>, \<open>GC_Correct\<close>: a collection of a heap of ordinary
    objects (\<open>collectable\<close>: no weak pairs, ephemerons and compiled code) keeps exactly the reachable
    objects, moved and with all pointers forwarded. \<open>GC_Ephemerons\<close>: a loop of the code that does not end.
  \<^item> \<open>Heap_Prims\<close>, \<open>Heap_Correct\<close> (list.c, vector.c, prim.c): the primitives on memory. The locale \<open>two_word_objects\<close> is
    the contract of constructors, selectors and mutators, interpreted for pairs and weak pairs.
  \<^item> \<open>Symbol_Table\<close> (intern.c, string.c), \<open>Lookup\<close> (lookup.c, lookprm.c): the table of symbols, environments, variables and
    their caches. \<open>Lookup_Correct\<close>: on every chain of frames that ends, lookups find the innermost binding, and
    assignments and definitions change exactly the variable they name.
  \<^item> \<open>Interpreter\<close> (interp.c, interp.h, utils.c, hooks.c): the machine. \<open>interp_step\<close> is the code between two
    labels and \<open>Interpret\<close> the loop; the registers, the stack in memory, the history, errors and
    interrupts are those of the code. \<open>Evaluator\<close> is its specification, a recursive evaluator without stack and
    registers. \<open>Interp_State\<close>, \<open>Interp_Steps\<close> and \<open>Interp_Correct\<close> show that the machine implements it (locale
    \<open>two_part_expression\<close> for conditionals and sequences), and \<open>Interp_Theorems\<close> states what follows: \<open>Interpret\<close>
    returns the value of every expression that has one, tail calls need no stack, interrupted work is resumed as
    it was, and an error in an application calls the error handler with the frame intact but with \<open>#f\<close> in place
    of the procedure for the retry. \<open>Generic_Prims\<close> (generic.c) has the primitives of generic arithmetic, which run inside the
    interpreter, allocate bignums in the heap and leave other numbers to procedures in the fixed objects; the locale
    \<open>generic_primitive\<close> is their common contract, interpreted for all fifteen.

  \<^bold>\<open>Parameters and hypotheses.\<close> Code outside the modelled files is a parameter: the protectors and actions that
  other files register with the dynamic stack, the storage that \<open>malloc\<close> returns (\<open>malloc_ok\<close> in \<open>Obstack\<close> is what it
  promises), and the C code of
  the primitives that the interpreter calls (\<open>primitive_code\<close>). The evaluator uses primitives and variables through
  \<open>primitive_gives\<close> and \<open>operation_gives\<close>: they return the same value on every machine with the same heap and leave the
  stack and the history alone; \<open>lookup_gives\<close> proves this for lookups from the theorems on environments.
  The number \<open>d\<close> of an evaluation is the number of stack words it needs. An evaluation that exhausts the
  heap or the stack has no value in the evaluator: the interpreter then signals an interrupt, which is modelled but
  not part of the refinement. The first program and environment to which the theorems are applied are in
  \<open>Interp_Theorems\<close> and \<open>Lookup_Correct\<close>.

  \<^bold>\<open>What the proofs showed of the code.\<close> \<open>queue_ephemerons_for_key\<close> may not end; \<open>define_variable\<close> may end the system
  although a collection would help; \<open>APPLICATION_ERROR\<close> reads the procedure for the retry too late; products and
  greatest common divisors at the edge of the fixnum range, shifts by bignum counts and the test whether a
  bignum fits in a word are wrong at the borders that the theorems state.

  \<^bold>\<open>Not modelled.\<close> Compiled code (cmpint.c and the branches under \<open>CC_SUPPORT_P\<close>), which depends on the machine code of
  the compiler's back ends; floating point (flonum primitives and conversions), fasdump and fasload
  except for the table of primitives, strings, bit strings and characters except where symbols need them; the
  interface to the operating system, graphics and terminals, which is system calls; the copying of a history
  that a continuation shares, continuations as objects beyond their reinstatement (\<open>unpack_control_point\<close>), the
  hooks at the end of a critical section and the unwinding of nested calls of \<open>Interpret\<close>; the older copy of the
  microcode under src/v8, which is not built; and everything written in Scheme. The correctness of collections
  with weak pairs and ephemerons and of purification is not proved, only modelled.
\<close>

end
